(* ===== verification/Hdc_Prelude.thy ===== *)
theory Hdc_Prelude
  imports Main "HOL-Library.Word"
begin

unbundle bit_operations_syntax

text \<open>
  Types, generic lemmas and proof hints the components share: fixed-width integers, byte
  strings and their little- and big-endian layout, byte/character conversion, and the
  searching operations of \<open>std::string\<close> the sources use.
\<close>

section \<open>Machine types\<close>

type_synonym u8 = "8 word"
type_synonym u16 = "16 word"
type_synonym u32 = "32 word"
type_synonym u64 = "64 word"
type_synonym bytes = "u8 list"

named_theorems wire_simps \<open>equations that evaluate encoders and decoders of wire data\<close>
named_theorems reader_simps \<open>equations of the byte readers\<close>
named_theorems inv_intros \<open>preservation lemmas of component invariants\<close>
named_theorems bound_simps \<open>length and range facts\<close>

section \<open>Words and their byte layout\<close>

text \<open>
  \<open>le_enc n v\<close> is the \<open>n\<close>-byte little-endian image of \<open>v\<close>, what the supported
  (little-endian) machines hold in memory for an \<open>n\<close>-byte unsigned integer; \<open>be_enc\<close> is
  the network order that \<open>htonl\<close> and \<open>htons\<close> arrange.
\<close>

fun le_enc :: "nat \<Rightarrow> nat \<Rightarrow> bytes" where
  "le_enc 0 v = []"
| "le_enc (Suc n) v = word_of_nat (v mod 256) # le_enc n (v div 256)"

fun le_dec :: "bytes \<Rightarrow> nat" where
  "le_dec [] = 0"
| "le_dec (b # bs) = unat b + 256 * le_dec bs"

definition be_enc :: "nat \<Rightarrow> nat \<Rightarrow> bytes" where
  "be_enc n v = rev (le_enc n v)"

definition be_dec :: "bytes \<Rightarrow> nat" where
  "be_dec bs = le_dec (rev bs)"

lemma length_le_enc [simp, bound_simps]: "length (le_enc n v) = n"
  by (induction n arbitrary: v) auto

lemma length_be_enc [simp, bound_simps]: "length (be_enc n v) = n"
  by (simp add: be_enc_def)

lemma unat_byte_lt [simp]: "unat (b :: u8) < 256"
  using unsigned_less [of b, where ?'a = nat] by simp

lemma unat_byte_of_nat [simp]: "unat (word_of_nat n :: u8) = n mod 256"
  by (simp add: unat_of_nat)

lemma le_dec_enc: "le_dec (le_enc n v) = v mod 256 ^ n"
proof (induction n arbitrary: v)
  case 0
  then show ?case by simp
next
  case (Suc n)
  have "v mod 256 + 256 * (v div 256 mod 256 ^ n) = v mod (256 * 256 ^ n)"
    by (metis add.commute mod_mult2_eq)
  then show ?case by (simp add: Suc)
qed

lemma be_dec_enc: "be_dec (be_enc n v) = v mod 256 ^ n"
  by (simp add: be_dec_def be_enc_def le_dec_enc)

lemma le_dec_bound: "le_dec bs < 256 ^ length bs"
proof (induction bs)
  case Nil
  then show ?case by simp
next
  case (Cons b bs)
  have "unat b < 256" by simp
  with Cons have "unat b + 256 * le_dec bs < 256 * 256 ^ length bs" by linarith
  then show ?case by simp
qed

lemma be_dec_bound: "be_dec bs < 256 ^ length bs"
  using le_dec_bound [of "rev bs"] by (simp add: be_dec_def)

lemma le_dec_enc_u32 [wire_simps]: "word_of_nat (le_dec (le_enc 4 (unat (v :: u32)))) = v"
  using unsigned_less [of v, where ?'a = nat] by (simp add: le_dec_enc)

lemma le_dec_enc_u64 [wire_simps]: "word_of_nat (le_dec (le_enc 8 (unat (v :: u64)))) = v"
  using unsigned_less [of v, where ?'a = nat] by (simp add: le_dec_enc)

lemma be_dec_enc_u32 [wire_simps]: "word_of_nat (be_dec (be_enc 4 (unat (v :: u32)))) = v"
  using unsigned_less [of v, where ?'a = nat] by (simp add: be_dec_enc)

lemma be_dec_enc_u16 [wire_simps]: "word_of_nat (be_dec (be_enc 2 (unat (v :: u16)))) = v"
  using unsigned_less [of v, where ?'a = nat] by (simp add: be_dec_enc)

section \<open>Bytes and characters\<close>

definition byte_of_char :: "char \<Rightarrow> u8" where
  "byte_of_char c = word_of_nat (of_char c)"

definition char_of_byte :: "u8 \<Rightarrow> char" where
  "char_of_byte b = char_of (unat b)"

abbreviation bytes_of :: "string \<Rightarrow> bytes" where
  "bytes_of s \<equiv> map byte_of_char s"

abbreviation chars_of :: "bytes \<Rightarrow> string" where
  "chars_of bs \<equiv> map char_of_byte bs"

lemma of_char_lt_256 [simp]: "(of_char c :: nat) < 256"
  by (metis char_of_eq_iff mod_less_eq_dividend nat_of_char_less_256)

lemma char_of_byte_of_char [simp]: "char_of_byte (byte_of_char c) = c"
  by (simp add: char_of_byte_def byte_of_char_def)

lemma byte_of_char_of_byte [simp]: "byte_of_char (char_of_byte b) = b"
  by (simp add: char_of_byte_def byte_of_char_def)

lemma byte_char_comp [simp]:
  "char_of_byte \<circ> byte_of_char = id" "byte_of_char \<circ> char_of_byte = id"
  by (simp_all add: fun_eq_iff)

lemma chars_of_bytes_of [simp]: "chars_of (bytes_of s) = s"
  by simp

lemma bytes_of_chars_of [simp]: "bytes_of (chars_of bs) = bs"
  by simp

section \<open>Searching in strings\<close>

text \<open>
  \<open>str_find s sub pos\<close> is \<open>s.find(sub, pos)\<close>: the least index from \<open>pos\<close> on at which
  \<open>sub\<close> occurs, \<open>None\<close> for \<open>npos\<close>. \<open>str_rfind\<close> is \<open>s.rfind(sub)\<close>.
\<close>

fun find_at :: "'a list \<Rightarrow> 'a list \<Rightarrow> nat \<Rightarrow> nat option" where
  "find_at sub [] i = (if sub = [] then Some i else None)"
| "find_at sub (x # xs) i =
     (if take (length sub) (x # xs) = sub then Some i else find_at sub xs (Suc i))"

definition str_find :: "'a list \<Rightarrow> 'a list \<Rightarrow> nat \<Rightarrow> nat option" where
  "str_find s sub pos = (if length s < pos then None else find_at sub (drop pos s) pos)"

fun rfind_at :: "'a list \<Rightarrow> 'a list \<Rightarrow> nat \<Rightarrow> nat option" where
  "rfind_at sub [] i = (if sub = [] then Some i else None)"
| "rfind_at sub (x # xs) i =
     (case rfind_at sub xs (Suc i) of
        Some j \<Rightarrow> Some j
      | None \<Rightarrow> if take (length sub) (x # xs) = sub then Some i else None)"

definition str_rfind :: "'a list \<Rightarrow> 'a list \<Rightarrow> nat option" where
  "str_rfind s sub = rfind_at sub s 0"

definition substr :: "'a list \<Rightarrow> nat \<Rightarrow> nat \<Rightarrow> 'a list" where
  "substr s pos n = take n (drop pos s)"

lemma find_at_Some:
  "find_at sub s i = Some j \<Longrightarrow> i \<le> j \<and> j + length sub \<le> i + length s \<and>
     take (length sub) (drop (j - i) s) = sub"
proof (induction sub s i rule: find_at.induct)
  case (1 sub i)
  then show ?case by (simp split: if_splits)
next
  case (2 sub x xs i)
  show ?case
  proof (cases "take (length sub) (x # xs) = sub")
    case True
    then have "length sub \<le> length (x # xs)"
      by (metis length_take min.cobounded1)
    with True "2.prems" show ?thesis by auto
  next
    case False
    with 2 have "Suc i \<le> j" "j + length sub \<le> Suc i + length xs"
      "take (length sub) (drop (j - Suc i) xs) = sub" by auto
    moreover from this have "j - i = Suc (j - Suc i)" by simp
    ultimately show ?thesis by simp
  qed
qed

lemma str_find_Some:
  "str_find s sub pos = Some j \<Longrightarrow>
     pos \<le> j \<and> j + length sub \<le> length s \<and> take (length sub) (drop j s) = sub"
  using find_at_Some [of sub "drop pos s" pos j] by (auto simp: str_find_def split: if_splits)

lemma find_at_single: "find_at [c] s i = (if c \<in> set s then Some (i + length (takeWhile (\<lambda>x. x \<noteq> c) s)) else None)"
  by (induction s arbitrary: i) auto

lemma str_find_single:
  "str_find s [c] pos =
     (if pos \<le> length s \<and> c \<in> set (drop pos s)
      then Some (pos + length (takeWhile (\<lambda>x. x \<noteq> c) (drop pos s))) else None)"
  by (auto simp: str_find_def find_at_single dest: in_set_dropD)

lemma rfind_at_single_None: "rfind_at [c] s i = None \<longleftrightarrow> c \<notin> set s"
  by (induction s arbitrary: i) (auto split: option.splits simp flip: not_None_eq)

lemma rfind_at_Some:
  "rfind_at sub s i = Some j \<Longrightarrow> i \<le> j \<and> j + length sub \<le> i + length s \<and>
     take (length sub) (drop (j - i) s) = sub"
proof (induction sub s i arbitrary: j rule: rfind_at.induct)
  case (1 sub i)
  then show ?case by (simp split: if_splits)
next
  case (2 sub x xs i)
  show ?case
  proof (cases "rfind_at sub xs (Suc i)")
    case None
    with "2.prems" have *: "take (length sub) (x # xs) = sub" "j = i"
      by (auto split: if_splits)
    then have "length sub \<le> length (x # xs)"
      by (metis length_take min.cobounded1)
    with * show ?thesis by auto
  next
    case (Some k)
    with "2.prems" have "k = j" by simp
    with "2.IH" [OF Some [unfolded \<open>k = j\<close>]]
    have "Suc i \<le> j" "j + length sub \<le> Suc i + length xs"
      "take (length sub) (drop (j - Suc i) xs) = sub" by auto
    moreover from this have "j - i = Suc (j - Suc i)" by simp
    ultimately show ?thesis by simp
  qed
qed

lemma rfind_at_single_Some:
  "rfind_at [c] s i = Some j \<Longrightarrow> c \<notin> set (drop (Suc (j - i)) s)"
proof (induction s arbitrary: i)
  case Nil
  then show ?case by simp
next
  case (Cons x xs)
  show ?case
  proof (cases "rfind_at [c] xs (Suc i)")
    case None
    with Cons.prems show ?thesis by (auto simp: rfind_at_single_None split: if_splits)
  next
    case (Some k)
    with Cons.prems have "k = j" by simp
    with Some Cons.IH [of "Suc i"] have "c \<notin> set (drop (Suc (j - Suc i)) xs)" by simp
    moreover have "Suc i \<le> j" using rfind_at_Some [OF Some] \<open>k = j\<close> by simp
    ultimately show ?thesis by (simp add: Suc_diff_Suc)
  qed
qed

end
