(* ===== verification/Hdc_Define.thy ===== *)
theory Hdc_Define
  imports Hdc_Prelude
begin

text \<open>
  The constants of src/src/common/define.h and the enumerations of
  src/src/common/define_plus.h. An enumeration is a datatype; where its numeric value is sent
  or compared, a function gives it at the width the code uses.
\<close>

named_theorems hdc_consts \<open>values of the configuration constants\<close>

section \<open>Constants\<close>

definition GLOBAL_TIMEOUT :: nat where [hdc_consts]: "GLOBAL_TIMEOUT = 30"
definition DEFAULT_PORT :: nat where [hdc_consts]: "DEFAULT_PORT = 8710"
definition MAX_IP_PORT :: nat where [hdc_consts]: "MAX_IP_PORT = 65535"
definition MAX_CONNECTKEY_SIZE :: nat where [hdc_consts]: "MAX_CONNECTKEY_SIZE = 32"
definition BUF_SIZE_MICRO :: nat where [hdc_consts]: "BUF_SIZE_MICRO = 16"
definition BUF_SIZE_TINY :: nat where [hdc_consts]: "BUF_SIZE_TINY = 64"
definition BUF_SIZE_SMALL :: nat where [hdc_consts]: "BUF_SIZE_SMALL = 256"
definition BUF_SIZE_MEDIUM :: nat where [hdc_consts]: "BUF_SIZE_MEDIUM = 512"
definition BUF_SIZE_DEFAULT :: nat where [hdc_consts]: "BUF_SIZE_DEFAULT = 1024"
definition TIME_BASE :: nat where [hdc_consts]: "TIME_BASE = 1000"
definition UV_DEFAULT_INTERVAL :: nat where [hdc_consts]: "UV_DEFAULT_INTERVAL = 250"
definition VER_PROTOCOL :: u8 where [hdc_consts]: "VER_PROTOCOL = 1"
definition MAX_PACKET_SIZE_HISPEED :: nat where [hdc_consts]: "MAX_PACKET_SIZE_HISPEED = 512"
definition MAX_SIZE_IOBUF :: nat where [hdc_consts]: "MAX_SIZE_IOBUF = 15360"
definition MAX_USBFFS_BULK :: nat where [hdc_consts]: "MAX_USBFFS_BULK = 16384"
definition SIZE_THREAD_POOL :: nat where [hdc_consts]: "SIZE_THREAD_POOL = 16"
definition SIZE_THREAD_POOL_MIN :: nat where [hdc_consts]: "SIZE_THREAD_POOL_MIN = 16"
definition SIZE_THREAD_POOL_MAX :: nat where [hdc_consts]: "SIZE_THREAD_POOL_MAX = 256"
definition HDC_VERSION_NUMBER :: u32 where [hdc_consts]: "HDC_VERSION_NUMBER = 0x10102000"
definition HDC_BUF_MAX_BYTES :: nat where [hdc_consts]: "HDC_BUF_MAX_BYTES = 2147483647"
definition HDC_SOCKETPAIR_SIZE :: nat where [hdc_consts]: "HDC_SOCKETPAIR_SIZE = 153600"
definition MAX_UART_SIZE_IOBUF :: nat where [hdc_consts]: "MAX_UART_SIZE_IOBUF = 4096"
definition ENABLE_IO_CHECKSUM :: bool where [hdc_consts]: "ENABLE_IO_CHECKSUM = False"
definition PACKET_FLAG :: string where [hdc_consts]: "PACKET_FLAG = ''HW''"
definition HANDSHAKE_MESSAGE :: string where [hdc_consts]: "HANDSHAKE_MESSAGE = ''OHOS HDC''"
definition WHITE_SPACES :: string where [hdc_consts]: "WHITE_SPACES = [CHR '' '', CHR 0x09, CHR 0x0A, CHR 0x0D]"

section \<open>Enumerations\<close>

datatype ConnType = CONN_USB | CONN_TCP | CONN_SERIAL | CONN_BT

datatype ConnStatus = STATUS_UNKNOW | STATUS_READY | STATUS_CONNECTED | STATUS_OFFLINE

datatype OperateID =
    OP_ADD | OP_REMOVE | OP_QUERY | OP_QUERY_REF | OP_GET_STRLIST | OP_GET_STRLIST_FULL
  | OP_GET_ANY | OP_UPDATE | OP_CLEAR | OP_INIT | OP_GET_ONLY | OP_VOTE_RESET

datatype MessageLevel =
    MSG_FAIL
  | MSG_INFO
  | MSG_OK

primrec msg_level :: "MessageLevel \<Rightarrow> u8" where
    "msg_level MSG_FAIL = 0"
  | "msg_level MSG_INFO = 1"
  | "msg_level MSG_OK = 2"

datatype AsyncEvent =
    ASYNC_STOP_MAINLOOP
  | ASYNC_FREE_SESSION
  | ASYNC_FREE_CHANNEL

primrec async_event :: "AsyncEvent \<Rightarrow> u16" where
    "async_event ASYNC_STOP_MAINLOOP = 0"
  | "async_event ASYNC_FREE_SESSION = 1"
  | "async_event ASYNC_FREE_CHANNEL = 2"

datatype InnerCtrlCommand =
    SP_START_SESSION
  | SP_STOP_SESSION
  | SP_ATTACH_CHANNEL
  | SP_DEATCH_CHANNEL
  | SP_JDWP_NEWFD

primrec ctrl_code :: "InnerCtrlCommand \<Rightarrow> u32" where
    "ctrl_code SP_START_SESSION = 0"
  | "ctrl_code SP_STOP_SESSION = 1"
  | "ctrl_code SP_ATTACH_CHANNEL = 2"
  | "ctrl_code SP_DEATCH_CHANNEL = 3"
  | "ctrl_code SP_JDWP_NEWFD = 4"

datatype (plugins only: code) RetErrCode =
    RET_SUCCESS
  | ERR_GENERIC
  | ERR_NO_SUPPORT
  | ERR_BUF_SIZE
  | ERR_BUF_ALLOC
  | ERR_BUF_OVERFLOW
  | ERR_BUF_CHECK
  | ERR_BUF_RESET
  | ERR_BUF_COPY
  | ERR_FILE_OPEN
  | ERR_FILE_READ
  | ERR_FILE_WRITE
  | ERR_FILE_STAT
  | ERR_FILE_PATH_CHECK
  | ERR_PARM_FORMAT
  | ERR_PARM_SIZE
  | ERR_PARM_FAIL
  | ERR_API_FAIL
  | ERR_IO_FAIL
  | ERR_IO_TIMEOUT
  | ERR_IO_SOFT_RESET
  | ERR_SESSION_NOFOUND
  | ERR_SESSION_OFFLINE
  | ERR_SESSION_DEAD
  | ERR_HANDSHAKE_NOTMATCH
  | ERR_HANDSHAKE_CONNECTKEY_FAILED
  | ERR_HANDSHAKE_HANGUP_CHILD
  | ERR_SOCKET_FAIL
  | ERR_SOCKET_DUPLICATE
  | ERR_MODULE_JDWP_FAILED
  | ERR_UT_MODULE_NOTREADY
  | ERR_UT_MODULE_WAITMAX
  | ERR_THREAD_MUTEX_FAIL
  | ERR_PROCESS_SUB_FAIL
  | ERR_PRIVELEGE_NEED

primrec err :: "RetErrCode \<Rightarrow> int" where
    "err RET_SUCCESS = 0"
  | "err ERR_GENERIC = - 1"
  | "err ERR_NO_SUPPORT = - 2"
  | "err ERR_BUF_SIZE = - 10000"
  | "err ERR_BUF_ALLOC = - 9999"
  | "err ERR_BUF_OVERFLOW = - 9998"
  | "err ERR_BUF_CHECK = - 9997"
  | "err ERR_BUF_RESET = - 9996"
  | "err ERR_BUF_COPY = - 9995"
  | "err ERR_FILE_OPEN = - 11000"
  | "err ERR_FILE_READ = - 10999"
  | "err ERR_FILE_WRITE = - 10998"
  | "err ERR_FILE_STAT = - 10997"
  | "err ERR_FILE_PATH_CHECK = - 10996"
  | "err ERR_PARM_FORMAT = - 12000"
  | "err ERR_PARM_SIZE = - 11999"
  | "err ERR_PARM_FAIL = - 11998"
  | "err ERR_API_FAIL = - 13000"
  | "err ERR_IO_FAIL = - 14000"
  | "err ERR_IO_TIMEOUT = - 13999"
  | "err ERR_IO_SOFT_RESET = - 13998"
  | "err ERR_SESSION_NOFOUND = - 15000"
  | "err ERR_SESSION_OFFLINE = - 14999"
  | "err ERR_SESSION_DEAD = - 14998"
  | "err ERR_HANDSHAKE_NOTMATCH = - 16000"
  | "err ERR_HANDSHAKE_CONNECTKEY_FAILED = - 15999"
  | "err ERR_HANDSHAKE_HANGUP_CHILD = - 15998"
  | "err ERR_SOCKET_FAIL = - 17000"
  | "err ERR_SOCKET_DUPLICATE = - 16999"
  | "err ERR_MODULE_JDWP_FAILED = - 18000"
  | "err ERR_UT_MODULE_NOTREADY = - 19000"
  | "err ERR_UT_MODULE_WAITMAX = - 18999"
  | "err ERR_THREAD_MUTEX_FAIL = - 20000"
  | "err ERR_PROCESS_SUB_FAIL = - 21000"
  | "err ERR_PRIVELEGE_NEED = - 22000"

datatype (plugins only: code) HdcCommand =
    CMD_KERNEL_HELP
  | CMD_KERNEL_HANDSHAKE
  | CMD_KERNEL_CHANNEL_CLOSE
  | CMD_KERNEL_SERVER_KILL
  | CMD_KERNEL_TARGET_DISCOVER
  | CMD_KERNEL_TARGET_LIST
  | CMD_KERNEL_TARGET_ANY
  | CMD_KERNEL_TARGET_CONNECT
  | CMD_KERNEL_TARGET_DISCONNECT
  | CMD_KERNEL_ECHO
  | CMD_KERNEL_ECHO_RAW
  | CMD_KERNEL_ENABLE_KEEPALIVE
  | CMD_KERNEL_WAKEUP_SLAVETASK
  | CMD_UNITY_COMMAND_HEAD
  | CMD_UNITY_EXECUTE
  | CMD_UNITY_REMOUNT
  | CMD_UNITY_REBOOT
  | CMD_UNITY_RUNMODE
  | CMD_UNITY_HILOG
  | CMD_UNITY_TERMINATE
  | CMD_UNITY_ROOTRUN
  | CMD_JDWP_LIST
  | CMD_JDWP_TRACK
  | CMD_UNITY_COMMAND_TAIL
  | CMD_UNITY_BUGREPORT_INIT
  | CMD_UNITY_BUGREPORT_DATA
  | CMD_SHELL_INIT
  | CMD_SHELL_DATA
  | CMD_FORWARD_INIT
  | CMD_FORWARD_CHECK
  | CMD_FORWARD_CHECK_RESULT
  | CMD_FORWARD_ACTIVE_SLAVE
  | CMD_FORWARD_ACTIVE_MASTER
  | CMD_FORWARD_DATA
  | CMD_FORWARD_FREE_CONTEXT
  | CMD_FORWARD_LIST
  | CMD_FORWARD_REMOVE
  | CMD_FORWARD_SUCCESS
  | CMD_FILE_INIT
  | CMD_FILE_CHECK
  | CMD_FILE_BEGIN
  | CMD_FILE_DATA
  | CMD_FILE_FINISH
  | CMD_APP_SIDELOAD
  | CMD_APP_INIT
  | CMD_APP_CHECK
  | CMD_APP_BEGIN
  | CMD_APP_DATA
  | CMD_APP_FINISH
  | CMD_APP_UNINSTALL

primrec cmd :: "HdcCommand \<Rightarrow> u16" where
    "cmd CMD_KERNEL_HELP = 0"
  | "cmd CMD_KERNEL_HANDSHAKE = 1"
  | "cmd CMD_KERNEL_CHANNEL_CLOSE = 2"
  | "cmd CMD_KERNEL_SERVER_KILL = 3"
  | "cmd CMD_KERNEL_TARGET_DISCOVER = 4"
  | "cmd CMD_KERNEL_TARGET_LIST = 5"
  | "cmd CMD_KERNEL_TARGET_ANY = 6"
  | "cmd CMD_KERNEL_TARGET_CONNECT = 7"
  | "cmd CMD_KERNEL_TARGET_DISCONNECT = 8"
  | "cmd CMD_KERNEL_ECHO = 9"
  | "cmd CMD_KERNEL_ECHO_RAW = 10"
  | "cmd CMD_KERNEL_ENABLE_KEEPALIVE = 11"
  | "cmd CMD_KERNEL_WAKEUP_SLAVETASK = 12"
  | "cmd CMD_UNITY_COMMAND_HEAD = 1000"
  | "cmd CMD_UNITY_EXECUTE = 1001"
  | "cmd CMD_UNITY_REMOUNT = 1002"
  | "cmd CMD_UNITY_REBOOT = 1003"
  | "cmd CMD_UNITY_RUNMODE = 1004"
  | "cmd CMD_UNITY_HILOG = 1005"
  | "cmd CMD_UNITY_TERMINATE = 1006"
  | "cmd CMD_UNITY_ROOTRUN = 1007"
  | "cmd CMD_JDWP_LIST = 1008"
  | "cmd CMD_JDWP_TRACK = 1009"
  | "cmd CMD_UNITY_COMMAND_TAIL = 1010"
  | "cmd CMD_UNITY_BUGREPORT_INIT = 1011"
  | "cmd CMD_UNITY_BUGREPORT_DATA = 1012"
  | "cmd CMD_SHELL_INIT = 2000"
  | "cmd CMD_SHELL_DATA = 2001"
  | "cmd CMD_FORWARD_INIT = 2500"
  | "cmd CMD_FORWARD_CHECK = 2501"
  | "cmd CMD_FORWARD_CHECK_RESULT = 2502"
  | "cmd CMD_FORWARD_ACTIVE_SLAVE = 2503"
  | "cmd CMD_FORWARD_ACTIVE_MASTER = 2504"
  | "cmd CMD_FORWARD_DATA = 2505"
  | "cmd CMD_FORWARD_FREE_CONTEXT = 2506"
  | "cmd CMD_FORWARD_LIST = 2507"
  | "cmd CMD_FORWARD_REMOVE = 2508"
  | "cmd CMD_FORWARD_SUCCESS = 2509"
  | "cmd CMD_FILE_INIT = 3000"
  | "cmd CMD_FILE_CHECK = 3001"
  | "cmd CMD_FILE_BEGIN = 3002"
  | "cmd CMD_FILE_DATA = 3003"
  | "cmd CMD_FILE_FINISH = 3004"
  | "cmd CMD_APP_SIDELOAD = 3005"
  | "cmd CMD_APP_INIT = 3500"
  | "cmd CMD_APP_CHECK = 3501"
  | "cmd CMD_APP_BEGIN = 3502"
  | "cmd CMD_APP_DATA = 3503"
  | "cmd CMD_APP_FINISH = 3504"
  | "cmd CMD_APP_UNINSTALL = 3505"

text \<open>
  \<open>UsbProtocolOption\<close> and \<open>UartProtocolOption\<close> are bit masks tested with \<open>&\<close>; their
  values are words of the width of the header field that holds them.
\<close>

definition USB_OPTION_HEADER :: u8 where [hdc_consts]: "USB_OPTION_HEADER = 1"
definition USB_OPTION_RESET :: u8 where [hdc_consts]: "USB_OPTION_RESET = 2"

definition PKG_OPTION_TAIL :: u16 where [hdc_consts]: "PKG_OPTION_TAIL = 1"
definition PKG_OPTION_RESET :: u16 where [hdc_consts]: "PKG_OPTION_RESET = 2"
definition PKG_OPTION_ACK :: u16 where [hdc_consts]: "PKG_OPTION_ACK = 4"
definition PKG_OPTION_NAK :: u16 where [hdc_consts]: "PKG_OPTION_NAK = 8"
definition PKG_OPTION_FREE :: u16 where [hdc_consts]: "PKG_OPTION_FREE = 16"

section \<open>Facts about the codes\<close>

text \<open>Return codes below zero are the errors; the code tests only the sign.\<close>

lemma err_sign: "err e \<le> 0" and err_neg_iff: "err e < 0 \<longleftrightarrow> e \<noteq> RET_SUCCESS"
  by (cases e; simp)+

lemma err_neg [simp]: "e \<noteq> RET_SUCCESS \<Longrightarrow> err e < 0"
  by (simp add: err_neg_iff)

text \<open>
  The command enumeration assigns distinct 16-bit codes, so a switch on the received code
  selects one command.
\<close>

lemma cmd_inj: "cmd a = cmd b \<longleftrightarrow> a = b"
  by (cases a; cases b; simp)

lemma inj_cmd: "inj cmd"
  by (simp add: inj_def cmd_inj)

end
