(* ===== verification/Hdc_Base.thy ===== *)
theory Hdc_Base
  imports Hdc_Define
begin

unbundle bit_operations_syntax

text \<open>
  The checksum and the small helpers of src/src/common/base.cpp. Its strings, paths and addresses
  are in Hdc_Strings, its command-line splitter in Hdc_Args.
\<close>

section \<open>Checksum\<close>

text \<open>\<open>uint8_t ret += data[i]\<close> wraps modulo 256.\<close>

definition CalcCheckSum :: "bytes \<Rightarrow> u8" where
  "CalcCheckSum data = foldl (+) 0 data"

lemma foldl_plus_start: "foldl (+) (a :: u8) xs = a + foldl (+) 0 xs"
proof (induction xs arbitrary: a)
  case (Cons x xs)
  show ?case by (simp add: Cons [of "a + x"] Cons [of x] add.assoc)
qed simp

lemma CalcCheckSum_append: "CalcCheckSum (xs @ ys) = CalcCheckSum xs + CalcCheckSum ys"
  using foldl_plus_start [of "foldl (+) 0 xs" ys] by (simp add: CalcCheckSum_def)

lemma CalcCheckSum_Cons: "CalcCheckSum (x # xs) = x + CalcCheckSum xs"
  using CalcCheckSum_append [of "[x]" xs] by (simp add: CalcCheckSum_def)

end
