(* ===== verification/Hdc_Wire.thy ===== *)
theory Hdc_Wire
  imports Hdc_Define
begin

unbundle bit_operations_syntax

text \<open>
  The byte level of the serializer, src/src/common/serial_struct_define.h: readers (a string
  reader, and a reader that limits another one), varints, zigzag values, fixed-width values
  and the key that carries a field's tag and wire type. A \<open>Writer\<close> only ever appends, so
  what an operation writes is the byte list it returns; a reader is a value, and an operation
  that reads returns the reader it leaves behind.
\<close>

section \<open>Wire types and field keys\<close>

text \<open>
  \<open>ReadTagWireType\<close> casts three bits to the enumeration, so the two values it does not name
  can occur: they are \<open>WIRE_OTHER\<close>.
\<close>

datatype WireType = VARINT | FIXED64 | LENGTH_DELIMETED | START_GROUP | END_GROUP | FIXED32
  | WIRE_OTHER u32

primrec wire_code :: "WireType \<Rightarrow> u32" where
  "wire_code VARINT = 0"
| "wire_code FIXED64 = 1"
| "wire_code LENGTH_DELIMETED = 2"
| "wire_code START_GROUP = 3"
| "wire_code END_GROUP = 4"
| "wire_code FIXED32 = 5"
| "wire_code (WIRE_OTHER n) = n"

definition wire_of :: "u32 \<Rightarrow> WireType" where
  "wire_of n = (if n = 0 then VARINT else if n = 1 then FIXED64 else if n = 2 then LENGTH_DELIMETED
     else if n = 3 then START_GROUP else if n = 4 then END_GROUP else if n = 5 then FIXED32
     else WIRE_OTHER n)"

definition MakeTagWireType :: "u32 \<Rightarrow> WireType \<Rightarrow> u32" where
  "MakeTagWireType tag wireType = push_bit 3 tag OR wire_code wireType"

definition ReadTagWireType :: "u32 \<Rightarrow> u32 \<times> WireType" where
  "ReadTagWireType tagKey = (drop_bit 3 tagKey, wire_of (tagKey AND 7))"

definition named_wire :: "WireType \<Rightarrow> bool" where
  "named_wire w \<longleftrightarrow> (case w of WIRE_OTHER _ \<Rightarrow> False | _ \<Rightarrow> True)"

lemma wire_of_code: "named_wire w \<Longrightarrow> wire_of (wire_code w) = w"
  by (cases w) (simp_all add: named_wire_def wire_of_def)

lemma wire_code_bound: "named_wire w \<Longrightarrow> wire_code w AND 7 = wire_code w"
  by (cases w) (simp_all add: named_wire_def)

lemma wire_code_shift: "named_wire w \<Longrightarrow> drop_bit 3 (wire_code w) = 0"
  by (cases w) (simp_all add: named_wire_def drop_bit_eq_div)

lemma push_bit_and_7: "push_bit 3 (t :: u32) AND 7 = 0"
proof (rule bit_word_eqI)
  fix n
  have "bit (7 :: u32) n \<longleftrightarrow> n < 3" if "n < LENGTH(32)"
    using that bit_mask_iff [of 3 n, where ?'a = u32] by (simp add: mask_eq_exp_minus_1)
  then show "bit (push_bit 3 t AND 7) n = bit (0 :: u32) n" if "n < LENGTH(32)"
    using that by (auto simp: bit_and_iff bit_push_bit_iff)
qed

lemma drop_push_3: "unat (t :: u32) < 2 ^ 29 \<Longrightarrow> drop_bit 3 (push_bit 3 t) = t"
proof -
  assume *: "unat t < 2 ^ 29"
  then have "unat (push_bit 3 t) = unat t * 8"
    by (simp add: push_bit_eq_mult unat_word_ariths)
  then show ?thesis
    by (simp add: drop_bit_eq_div word_unat_eq_iff unat_div)
qed

lemma ReadTag_MakeTag:
  assumes "unat t < 2 ^ 29" and "named_wire w"
  shows "ReadTagWireType (MakeTagWireType t w) = (t, w)"
  using assms
  by (simp add: ReadTagWireType_def MakeTagWireType_def drop_bit_or drop_push_3 wire_code_shift
      bit.conj_disj_distrib2 push_bit_and_7 wire_code_bound wire_of_code)

section \<open>Readers\<close>

text \<open>
  \<open>StringReader::Read(size)\<close> copies \<open>min(size, rest)\<close> bytes with \<open>memcpy_s(bytes, size,
  \<dots>)\<close> and moves on only where that succeeds: \<open>memcpy_s\<close> refuses a destination size of 0 and
  one above its limit, and then the position stays and the destination keeps the zeros it was
  created with. \<open>LimitedReader\<close> holds its parent by reference; here it holds the parent's
  current value, which \<open>rd_parent\<close> gives back.
\<close>

definition SECUREC_MEM_MAX_LEN :: nat where [hdc_consts]: "SECUREC_MEM_MAX_LEN = 2147483647"

datatype reader = StringReader bytes | LimitedReader reader nat

fun rd_read :: "nat \<Rightarrow> reader \<Rightarrow> bytes \<times> reader" where
  "rd_read n (StringReader bs) =
     (if n = 0 \<or> SECUREC_MEM_MAX_LEN < n
      then (replicate (min n (length bs)) 0, StringReader bs)
      else (take n bs, StringReader (drop n bs)))"
| "rd_read n (LimitedReader p limit) =
     (let (xs, p') = rd_read (min n limit) p in (xs, LimitedReader p' (limit - length xs)))"

fun AvailableBytes :: "reader \<Rightarrow> nat" where
  "AvailableBytes (LimitedReader p limit) = limit"
| "AvailableBytes (StringReader bs) = length bs"

fun rd_parent :: "reader \<Rightarrow> reader" where
  "rd_parent (LimitedReader p limit) = p"
| "rd_parent (StringReader bs) = StringReader bs"

text \<open>The bytes a reader can still deliver: the measure of every reading loop.\<close>

fun rd_avail :: "reader \<Rightarrow> nat" where
  "rd_avail (StringReader bs) = length bs"
| "rd_avail (LimitedReader p limit) = min limit (rd_avail p)"

lemma rd_read_avail: "rd_avail (snd (rd_read n r)) \<le> rd_avail r"
proof (induction r arbitrary: n)
  case (LimitedReader p limit)
  from this [of "min n limit"] show ?case by (auto simp: Let_def split: prod.splits)
qed auto

lemma rd_parent_avail: "rd_avail r \<le> rd_avail (rd_parent r)"
  by (cases r) auto

lemma rd_read_parent_avail:
  "rd_avail (rd_parent (snd (rd_read n (LimitedReader p l)))) \<le> rd_avail p"
  using rd_read_avail [of "min n l" p] by (auto simp: Let_def split: prod.splits)

lemma rd_read_1_progress:
  "rd_read 1 r = ([x], r') \<Longrightarrow> rd_avail r' < rd_avail r"
proof (induction r arbitrary: r')
  case (StringReader bs)
  then show ?case by (cases bs) (auto simp: SECUREC_MEM_MAX_LEN_def)
next
  case (LimitedReader p limit)
  show ?case
  proof (cases limit)
    case 0
    have "length (fst (rd_read 0 q)) = 0" for q
      by (induction q) (auto simp: Let_def split: prod.splits)
    from this [of p] 0 LimitedReader.prems show ?thesis
      by (auto simp: Let_def split: prod.splits)
  next
    case (Suc l)
    with LimitedReader show ?thesis
      by (auto simp: Let_def split: prod.splits)
  qed
qed

lemma rd_read_string [reader_simps]:
  "0 < n \<Longrightarrow> n \<le> SECUREC_MEM_MAX_LEN \<Longrightarrow>
     rd_read n (StringReader bs) = (take n bs, StringReader (drop n bs))"
  by simp

lemma rd_read_1_Cons [reader_simps]: "rd_read (Suc 0) (StringReader (b # bs)) = ([b], StringReader bs)"
  by (simp add: SECUREC_MEM_MAX_LEN_def)

lemma rd_read_1_Nil [reader_simps]: "rd_read (Suc 0) (StringReader []) = ([], StringReader [])"
  by (simp add: SECUREC_MEM_MAX_LEN_def)

section \<open>Varints\<close>

text \<open>
  The two overloads of \<open>WriteVarint\<close> differ in the width of the value and in the size of the
  buffer (5 and 10 bytes); one function stands for both, with the number of bytes left in the
  buffer as its argument. A loop that ended with the buffer full would write nothing.
\<close>

fun varint_loop :: "nat \<Rightarrow> 'a::len word \<Rightarrow> bytes \<Rightarrow> bytes" where
  "varint_loop 0 v b = []"
| "varint_loop (Suc n) v b =
     (let x = ucast (v AND 127); v' = drop_bit 7 v
      in if v' \<noteq> 0 then varint_loop n v' (b @ [x OR 128]) else b @ [x])"

definition WriteVarint_u32 :: "u32 \<Rightarrow> bytes" where
  "WriteVarint_u32 v = varint_loop 5 v []"

definition WriteVarint_u64 :: "u64 \<Rightarrow> bytes" where
  "WriteVarint_u64 v = varint_loop 10 v []"

text \<open>
  \<open>ReadVarint\<close> accumulates into its reference argument, which keeps the partial value when
  the read fails; the result is the returned flag, that value and the reader.
\<close>

fun read_varint_loop :: "nat \<Rightarrow> nat \<Rightarrow> 'a::len word \<Rightarrow> reader \<Rightarrow> bool \<times> 'a word \<times> reader" where
  "read_varint_loop 0 c v r = (False, v, r)"
| "read_varint_loop (Suc k) c v r =
     (case rd_read 1 r of
        ([x], r') \<Rightarrow>
          let v' = v OR push_bit (7 * c) (ucast (x AND 127))
          in if x AND 128 = 0 then (True, v', r') else read_varint_loop k (Suc c) v' r'
      | (_, r') \<Rightarrow> (False, v, r'))"

definition ReadVarint_u32 :: "reader \<Rightarrow> bool \<times> u32 \<times> reader" where
  "ReadVarint_u32 r = read_varint_loop 5 0 0 r"

definition ReadVarint_u64 :: "reader \<Rightarrow> bool \<times> u64 \<times> reader" where
  "ReadVarint_u64 r = read_varint_loop 10 0 0 r"

text \<open>The reference encoding: base-128 digits, least significant first, all but the last marked.\<close>

function varint_bytes :: "'a::len word \<Rightarrow> bytes" where
  "varint_bytes v =
     (if drop_bit 7 v \<noteq> 0 then (ucast (v AND 127) OR 128) # varint_bytes (drop_bit 7 v)
      else [ucast (v AND 127)])"
  by pat_completeness auto

lemma unat_drop_7: "unat (drop_bit 7 (v :: 'a::len word)) = unat v div 128"
proof -
  have "unat (drop_bit 7 v) = drop_bit 7 (unat v)" by (rule unat_drop_bit_eq)
  then show ?thesis by (simp only: drop_bit_eq_div) simp
qed

lemma drop_7_less: "drop_bit 7 (v :: 'a::len word) \<noteq> 0 \<Longrightarrow> unat (drop_bit 7 v) < unat v"
proof -
  assume "drop_bit 7 v \<noteq> 0"
  then have "unat (drop_bit 7 v) \<noteq> 0" by (simp add: unat_eq_zero)
  then show ?thesis by (simp add: unat_drop_7)
qed

termination varint_bytes
  by (relation "measure unat") (auto simp: drop_7_less)

declare varint_bytes.simps [simp del]

lemma varint_loop_bytes:
  "unat v < 128 ^ k \<Longrightarrow> 0 < k \<Longrightarrow> varint_loop k v b = b @ varint_bytes v"
proof (induction k v b rule: varint_loop.induct)
  case (1 v b)
  then show ?case by simp
next
  case (2 n v b)
  show ?case
  proof (cases "drop_bit 7 v = 0")
    case True
    then show ?thesis by (simp add: varint_bytes.simps [of v])
  next
    case False
    have lt: "unat (drop_bit 7 v) < 128 ^ n"
      using "2.prems" by (simp add: unat_drop_7 less_mult_imp_div_less mult.commute)
    have "0 < n"
    proof (rule ccontr)
      assume "\<not> 0 < n"
      with lt have "unat (drop_bit 7 v) = 0" by simp
      with False show False by (simp add: unat_eq_zero)
    qed
    with False lt "2.IH" [OF refl refl False] show ?thesis
      by (simp add: varint_bytes.simps [of v])
  qed
qed

lemma low7_high_or: "(v AND 127) OR push_bit 7 (drop_bit 7 v) = (v :: 'a::len word)"
proof (rule bit_word_eqI)
  fix n
  assume "n < LENGTH('a)"
  moreover have "bit (127 :: 'a word) n \<longleftrightarrow> n < 7" if "n < LENGTH('a)"
    using that bit_mask_iff [of 7 n, where ?'a = "'a word"]
    by (simp add: mask_eq_exp_minus_1)
  ultimately show "bit ((v AND 127) OR push_bit 7 (drop_bit 7 v)) n = bit v n"
    by (auto simp: bit_or_iff bit_and_iff bit_push_bit_iff bit_drop_bit_eq)
qed

lemma byte_bit_127: "n < 8 \<Longrightarrow> bit (127 :: u8) n \<longleftrightarrow> n < 7"
  using bit_mask_iff [of 7 n, where ?'a = u8] by (simp add: mask_eq_exp_minus_1)

lemma byte_bit_128: "n < 8 \<Longrightarrow> bit (128 :: u8) n \<longleftrightarrow> n = 7"
  using bit_exp_iff [of 7 n, where ?'a = u8] by auto

lemma low7_byte_cont: "((x :: u8) AND 127 OR 128) AND 127 = x AND 127"
proof (rule bit_word_eqI)
  fix n
  assume "n < LENGTH(8)"
  then have n: "n < 8" by simp
  show "bit ((x AND 127 OR 128) AND 127) n = bit (x AND 127) n"
    using byte_bit_127 [OF n] byte_bit_128 [OF n] by (simp add: bit_or_iff bit_and_iff) blast
qed

lemma low7_byte_last: "((x :: u8) AND 127) AND 128 = 0"
proof (rule bit_word_eqI)
  fix n
  assume "n < LENGTH(8)"
  then have n: "n < 8" by simp
  show "bit ((x AND 127) AND 128) n = bit (0 :: u8) n"
    using byte_bit_127 [OF n] byte_bit_128 [OF n] by (simp add: bit_and_iff)
qed

lemma cont_byte: "((x :: u8) OR 128) AND 128 \<noteq> 0"
proof
  assume "(x OR 128) AND 128 = 0"
  then have "bit ((x OR 128) AND 128) 7 = bit (0 :: u8) 7" by simp
  then show False by (simp add: bit_and_iff bit_or_iff byte_bit_128)
qed

lemma ucast_low7:
  assumes "8 \<le> LENGTH('a::len)"
  shows "ucast (ucast (v AND 127) :: u8) = (v AND 127 :: 'a word)"
proof (rule bit_word_eqI)
  fix n
  assume n: "n < LENGTH('a)"
  have "bit (127 :: 'a word) n \<longleftrightarrow> n < 7"
    using n bit_mask_iff [of 7 n, where ?'a = "'a word"]
    by (simp add: mask_eq_exp_minus_1)
  with n show "bit (ucast (ucast (v AND 127) :: u8) :: 'a word) n = bit (v AND 127) n"
    by (auto simp: bit_unsigned_iff bit_and_iff)
qed

lemma ucast_low7_and:
  assumes "8 \<le> LENGTH('a::len)"
  shows "(ucast (v AND 127 :: 'a word) :: u8) AND 127 = ucast (v AND 127)"
proof (rule bit_word_eqI)
  fix n
  assume n: "n < LENGTH(8)"
  have "bit (127 :: 'a word) n \<longleftrightarrow> n < 7"
    using n assms bit_mask_iff [of 7 n, where ?'a = "'a word"]
    by (simp add: mask_eq_exp_minus_1)
  with n show "bit ((ucast (v AND 127) :: u8) AND 127) n = bit (ucast (v AND 127) :: u8) n"
    by (auto simp: bit_unsigned_iff bit_and_iff byte_bit_127)
qed

text \<open>
  Reading what was written: the loop at byte \<open>c\<close> adds the value shifted to its place to what
  it has accumulated, and leaves the reader right after the encoding.
\<close>

lemma read_varint_step [reader_simps]:
  "read_varint_loop (Suc k) c v (StringReader (b # bs)) =
     (if b AND 128 = 0 then (True, v OR push_bit (7 * c) (ucast (b AND 127)), StringReader bs)
      else read_varint_loop k (Suc c) (v OR push_bit (7 * c) (ucast (b AND 127))) (StringReader bs))"
  by (simp add: rd_read_1_Cons del: rd_read.simps)

lemma read_varint_end [reader_simps]:
  "read_varint_loop k c v (StringReader []) = (False, v, StringReader [])"
  by (cases k) (simp_all add: rd_read_1_Nil del: rd_read.simps)

lemma read_varint_loop_bytes:
  assumes "8 \<le> LENGTH('a::len)"
  shows "unat (v :: 'a word) < 128 ^ k \<Longrightarrow> 0 < k \<Longrightarrow>
    read_varint_loop k c acc (StringReader (varint_bytes v @ rest)) =
      (True, acc OR push_bit (7 * c) v, StringReader rest)"
proof (induction k arbitrary: c acc v)
  case 0
  then show ?case by simp
next
  case (Suc k)
  note bs = varint_bytes.simps [of v]
  show ?case
  proof (cases "drop_bit 7 v = 0")
    case True
    then have v: "v AND 127 = v" using low7_high_or [of v] by simp
    have "(ucast v :: u8) AND 127 = ucast v" "ucast (ucast v :: u8) = v"
      using ucast_low7_and [OF assms, of v] ucast_low7 [OF assms, of v] by (simp_all add: v)
    moreover from this have "(ucast v :: u8) AND 128 = 0"
      using low7_byte_last [of "ucast v"] by simp
    ultimately show ?thesis using True v
      by (simp add: bs read_varint_step del: read_varint_loop.simps)
  next
    case False
    let ?b = "ucast (v AND 127) :: u8"
    have lt: "unat (drop_bit 7 v) < 128 ^ k"
      using Suc.prems by (simp add: unat_drop_7 less_mult_imp_div_less mult.commute)
    have "0 < k"
      using False lt by (cases k) (simp_all add: unat_eq_zero)
    have b: "ucast ((?b OR 128) AND 127) = v AND 127"
      using low7_byte_cont [of ?b] ucast_low7_and [OF assms, of v] ucast_low7 [OF assms, of v]
      by simp
    have c: "(?b OR 128) AND 128 \<noteq> 0" by (rule cont_byte)
    have "push_bit (7 * c) v =
        push_bit (7 * c) (v AND 127) OR push_bit (7 * Suc c) (drop_bit 7 v)"
      using arg_cong [OF low7_high_or [of v], of "push_bit (7 * c)"]
      by (simp add: push_bit_or add.commute)
    with False show ?thesis
      by (simp only: bs if_True not_False_eq_True append_Cons read_varint_step c if_False b
          Suc.IH [OF lt \<open>0 < k\<close>] or.assoc not_True_eq_False simp_thms)
  qed
qed

theorem ReadVarint_WriteVarint_u32 [wire_simps]:
  "ReadVarint_u32 (StringReader (WriteVarint_u32 v @ rest)) = (True, v, StringReader rest)"
proof -
  have "unat v < 128 ^ 5" using unsigned_less [of v, where ?'a = nat] by simp
  then show ?thesis
    using read_varint_loop_bytes [of v 5 0 0 rest]
    by (simp add: ReadVarint_u32_def WriteVarint_u32_def varint_loop_bytes)
qed

theorem ReadVarint_WriteVarint_u64 [wire_simps]:
  "ReadVarint_u64 (StringReader (WriteVarint_u64 v @ rest)) = (True, v, StringReader rest)"
proof -
  have "unat v < 128 ^ 10" using unsigned_less [of v, where ?'a = nat] by simp
  then show ?thesis
    using read_varint_loop_bytes [of v 10 0 0 rest]
    by (simp add: ReadVarint_u64_def WriteVarint_u64_def varint_loop_bytes)
qed

text \<open>A varint is never empty and never longer than the buffer it is built in.\<close>

lemma varint_bytes_length: "unat v < 128 ^ k \<Longrightarrow> 0 < k \<Longrightarrow> length (varint_bytes v) \<le> k"
proof (induction k arbitrary: v)
  case (Suc k)
  show ?case
  proof (cases "drop_bit 7 v = 0")
    case False
    have lt: "unat (drop_bit 7 v) < 128 ^ k"
      using Suc.prems by (simp add: unat_drop_7 less_mult_imp_div_less mult.commute)
    moreover have "0 < k"
      using False lt by (cases k) (simp_all add: unat_eq_zero)
    ultimately show ?thesis using Suc.IH False by (simp add: varint_bytes.simps [of v])
  qed (simp add: varint_bytes.simps [of v])
qed simp

lemma length_WriteVarint_u32: "length (WriteVarint_u32 v) \<le> 5"
  using varint_bytes_length [of v 5] unsigned_less [of v, where ?'a = nat]
  by (simp add: WriteVarint_u32_def varint_loop_bytes)

lemma length_WriteVarint_u64: "length (WriteVarint_u64 v) \<le> 10"
  using varint_bytes_length [of v 10] unsigned_less [of v, where ?'a = nat]
  by (simp add: WriteVarint_u64_def varint_loop_bytes)

lemma WriteVarint_u32_nonempty: "WriteVarint_u32 v \<noteq> []"
  using ReadVarint_WriteVarint_u32 [of v "[]"]
  by (auto simp: ReadVarint_u32_def read_varint_end)

text \<open>Every varint read that succeeds has consumed a byte; no read gives bytes back.\<close>

lemma read_varint_avail:
  "read_varint_loop k c v r = (b, v', r') \<Longrightarrow> rd_avail r' \<le> rd_avail r"
proof (induction k c v r rule: read_varint_loop.induct)
  case (2 k c v r)
  obtain xs r1 where r1: "rd_read 1 r = (xs, r1)" by force
  then have "rd_avail r1 \<le> rd_avail r" using rd_read_avail [of 1 r] by simp
  with 2 r1 show ?case
    by (fastforce simp: Let_def split: list.splits if_splits)
qed simp

lemma read_varint_progress:
  "read_varint_loop k c v r = (True, v', r') \<Longrightarrow> rd_avail r' < rd_avail r"
proof (cases k)
  case (Suc l)
  assume *: "read_varint_loop k c v r = (True, v', r')"
  obtain xs r1 where r1: "rd_read 1 r = (xs, r1)" by force
  with * Suc obtain x where x: "xs = [x]"
    by (auto split: list.splits)
  have "rd_avail r1 < rd_avail r" using rd_read_1_progress r1 x by simp
  moreover have "rd_avail r' \<le> rd_avail r1"
    using * Suc r1 x by (auto simp: Let_def split: if_splits dest: read_varint_avail)
  ultimately show ?thesis by simp
qed simp

lemma ReadVarint_progress:
  "ReadVarint_u32 r = (True, v', r') \<Longrightarrow> rd_avail r' < rd_avail r"
  "ReadVarint_u64 r = (True, w', r') \<Longrightarrow> rd_avail r' < rd_avail r"
  by (simp_all only: ReadVarint_u32_def ReadVarint_u64_def read_varint_progress)

lemma ReadVarint_avail:
  "ReadVarint_u32 r = (b, v', r') \<Longrightarrow> rd_avail r' \<le> rd_avail r"
  "ReadVarint_u64 r = (b, w', r') \<Longrightarrow> rd_avail r' \<le> rd_avail r"
  by (simp_all only: ReadVarint_u32_def ReadVarint_u64_def read_varint_avail)

section \<open>Zigzag and fixed-width values\<close>

text \<open>
  Signed integers are words read in two's complement; \<open>value >> 31\<close> on a signed operand is an
  arithmetic shift.
\<close>

definition MakeZigzagValue_i32 :: "u32 \<Rightarrow> u32" where
  "MakeZigzagValue_i32 v = push_bit 1 v XOR signed_drop_bit 31 v"

definition MakeZigzagValue_i64 :: "u64 \<Rightarrow> u64" where
  "MakeZigzagValue_i64 v = push_bit 1 v XOR signed_drop_bit 63 v"

definition ReadZigzagValue :: "'a::len word \<Rightarrow> 'a word" where
  "ReadZigzagValue v = drop_bit 1 v XOR (NOT (v AND 1) + 1)"

definition WriteFixed_u32 :: "u32 \<Rightarrow> bytes" where
  "WriteFixed_u32 v = le_enc 4 (unat v)"

definition WriteFixed_u64 :: "u64 \<Rightarrow> bytes" where
  "WriteFixed_u64 v = le_enc 8 (unat v)"

text \<open>
  \<open>ReadFixed\<close> has the reader copy straight into the value: a short read overwrites its low
  bytes and fails.
\<close>

definition overlay :: "nat \<Rightarrow> bytes \<Rightarrow> 'a::len word \<Rightarrow> 'a word" where
  "overlay n xs v = word_of_nat (le_dec (xs @ drop (length xs) (le_enc n (unat v))))"

definition ReadFixed_u32 :: "u32 \<Rightarrow> reader \<Rightarrow> bool \<times> u32 \<times> reader" where
  "ReadFixed_u32 v r = (let (xs, r') = rd_read 4 r in (length xs = 4, overlay 4 xs v, r'))"

definition ReadFixed_u64 :: "u64 \<Rightarrow> reader \<Rightarrow> bool \<times> u64 \<times> reader" where
  "ReadFixed_u64 v r = (let (xs, r') = rd_read 8 r in (length xs = 8, overlay 8 xs v, r'))"

lemma bit_minus_1_iff_lt: "n < LENGTH('a) \<Longrightarrow> bit (- 1 :: 'a::len word) n"
  by simp

lemma zigzag_generic:
  assumes "z = push_bit 1 v XOR signed_drop_bit (LENGTH('a) - 1) (v :: 'a::len word)"
    and "1 < LENGTH('a)"
  shows "ReadZigzagValue z = v"
proof -
  let ?s = "bit v (LENGTH('a) - 1)"
  have pb: "bit (push_bit 1 v) n \<longleftrightarrow> 0 < n \<and> bit v (n - 1)" if "n < LENGTH('a)" for n
    using that bit_push_bit_iff [of 1 v n] by auto
  have zb: "bit z n = ((0 < n \<and> bit v (n - 1)) \<noteq> ?s)" if "n < LENGTH('a)" for n
    unfolding assms(1) bit_xor_iff pb [OF that]
    using that by (cases n) (auto simp: bit_signed_drop_bit_iff)
  have "z AND 1 = (if ?s then 1 else 0)"
    using zb [of 0] assms(2) by (simp add: and_one_eq mod_2_eq_odd bit_0)
  then have m: "NOT (z AND 1) + 1 = (if ?s then - 1 else 0)"
    by (simp add: not_eq_complement)
  show ?thesis
  proof (rule bit_word_eqI)
    fix n assume n: "n < LENGTH('a)"
    have r: "bit (ReadZigzagValue z) n = (bit z (Suc n) \<noteq> ?s)"
      unfolding ReadZigzagValue_def m bit_xor_iff bit_drop_bit_eq
      using n by simp
    show "bit (ReadZigzagValue z) n = bit v n"
    proof (cases "Suc n < LENGTH('a)")
      case True
      then show ?thesis using r zb [OF True] by auto
    next
      case False
      then have "LENGTH('a) = Suc n" using n by simp
      then show ?thesis using r bit_imp_le_length [of z "Suc n"] by auto
    qed
  qed
qed

theorem ReadZigzag_MakeZigzag_i32 [wire_simps]: "ReadZigzagValue (MakeZigzagValue_i32 v) = v"
  by (rule zigzag_generic) (simp_all add: MakeZigzagValue_i32_def)

theorem ReadZigzag_MakeZigzag_i64 [wire_simps]: "ReadZigzagValue (MakeZigzagValue_i64 v) = v"
  by (rule zigzag_generic) (simp_all add: MakeZigzagValue_i64_def)

lemma ReadFixed_WriteFixed_u32 [wire_simps]:
  "ReadFixed_u32 w (StringReader (WriteFixed_u32 v @ rest)) = (True, v, StringReader rest)"
  by (simp add: ReadFixed_u32_def WriteFixed_u32_def overlay_def SECUREC_MEM_MAX_LEN_def wire_simps
      del: le_enc.simps)

lemma ReadFixed_WriteFixed_u64 [wire_simps]:
  "ReadFixed_u64 w (StringReader (WriteFixed_u64 v @ rest)) = (True, v, StringReader rest)"
  by (simp add: ReadFixed_u64_def WriteFixed_u64_def overlay_def SECUREC_MEM_MAX_LEN_def wire_simps
      del: le_enc.simps)

lemma ReadFixed_avail:
  "ReadFixed_u32 v r = (b, v', r') \<Longrightarrow> rd_avail r' \<le> rd_avail r"
  "ReadFixed_u64 w r = (b, w', r') \<Longrightarrow> rd_avail r' \<le> rd_avail r"
  using rd_read_avail [of 4 r] rd_read_avail [of 8 r]
  by (auto simp: ReadFixed_u32_def ReadFixed_u64_def Let_def split: prod.splits)

end
