(* ===== verification/Hdc_Serial.thy ===== *)
theory Hdc_Serial
  imports Hdc_Wire
begin

unbundle bit_operations_syntax

text \<open>
  The templates of src/src/common/serial_struct_define.h above the byte level: a
  \<open>Serializer<T>\<close> is a record of functions, a template over it is a function that takes the
  record, a message descriptor is a list of fields. Parsing loops are partial functions:
  \<open>None\<close> says that the call does not return.
\<close>

section \<open>Serializers of scalar types\<close>

type_synonym 'v parser = "WireType \<Rightarrow> 'v \<Rightarrow> reader \<Rightarrow> (bool \<times> 'v \<times> reader) option"

text \<open>
  \<open>ser tag value force\<close> is \<open>Serialize\<close>; \<open>ser_packed\<close> and \<open>parse_packed\<close> are there for the
  types for which \<open>HasSerializePacked\<close> and \<open>HasParsePacked\<close> hold. The template flags
  \<open>FlagsType<s|f>\<close> select an overload.
\<close>

record 'v Serializer =
  ser :: "u32 \<Rightarrow> 'v \<Rightarrow> bool \<Rightarrow> bytes"
  ser_packed :: "('v \<Rightarrow> bytes) option"
  parse :: "'v parser"
  parse_packed :: "('v \<Rightarrow> reader \<Rightarrow> (bool \<times> 'v \<times> reader) option) option"

datatype uflags = U_no | U_f
datatype sflags = S_no | S_s | S_sf

definition WriteTagWriteType :: "u32 \<Rightarrow> WireType \<Rightarrow> bytes" where
  "WriteTagWriteType tag wireType = WriteVarint_u32 (MakeTagWireType tag wireType)"

definition WriterSizeCollector :: "bytes \<Rightarrow> u64" where
  "WriterSizeCollector bs = word_of_nat (length bs)"

text \<open>\<open>if (wire_type != W) return false\<close> in front of a read.\<close>

definition expect :: "WireType \<Rightarrow> ('v \<Rightarrow> reader \<Rightarrow> bool \<times> 'v \<times> reader) \<Rightarrow> 'v parser" where
  "expect w rd wire_type v r = Some (if wire_type \<noteq> w then (False, v, r) else rd v r)"

text \<open>Reading into an intermediate value that is stored only when the read succeeds.\<close>

definition via :: "('w \<Rightarrow> 'v) \<Rightarrow> (reader \<Rightarrow> bool \<times> 'w \<times> reader) \<Rightarrow> 'v \<Rightarrow> reader \<Rightarrow> bool \<times> 'v \<times> reader"
  where "via f rd v r = (case rd r of (ok, x, r') \<Rightarrow> (ok, if ok then f x else v, r'))"

text \<open>A serializer over one wire type whose packed form is the value without its key.\<close>

definition scalar ::
  "WireType \<Rightarrow> ('v \<Rightarrow> bytes) \<Rightarrow> ('v \<Rightarrow> reader \<Rightarrow> bool \<times> 'v \<times> reader) \<Rightarrow> 'v Serializer" where
  "scalar w wr rd =
     \<lparr> ser = (\<lambda>tag v force. WriteTagWriteType tag w @ wr v),
       ser_packed = Some wr,
       parse = expect w rd,
       parse_packed = Some (\<lambda>v r. Some (rd v r)) \<rparr>"

definition Serializer_uint32 :: "uflags \<Rightarrow> u32 Serializer" where
  "Serializer_uint32 f = (case f of
     U_no \<Rightarrow> scalar VARINT WriteVarint_u32 (\<lambda>v. ReadVarint_u32)
   | U_f \<Rightarrow> scalar FIXED32 WriteFixed_u32 ReadFixed_u32)"

definition Serializer_int32 :: "sflags \<Rightarrow> u32 Serializer" where
  "Serializer_int32 f = (case f of
     S_no \<Rightarrow> scalar VARINT WriteVarint_u32 (via id ReadVarint_u32)
   | S_s \<Rightarrow> scalar VARINT (WriteVarint_u32 \<circ> MakeZigzagValue_i32) (via ReadZigzagValue ReadVarint_u32)
   | S_sf \<Rightarrow> scalar FIXED32 WriteFixed_u32 (via id (ReadFixed_u32 0)))"

definition Serializer_int64 :: "sflags \<Rightarrow> u64 Serializer" where
  "Serializer_int64 f = (case f of
     S_no \<Rightarrow> scalar VARINT WriteVarint_u64 (via id ReadVarint_u64)
   | S_s \<Rightarrow> scalar VARINT (WriteVarint_u64 \<circ> MakeZigzagValue_i64) (via ReadZigzagValue ReadVarint_u64)
   | S_sf \<Rightarrow> scalar FIXED64 WriteFixed_u64 (via id (ReadFixed_u64 0)))"

text \<open>Only the fixed-width \<open>uint64_t\<close> leaves a zero out when it is not forced.\<close>

definition Serializer_uint64 :: "uflags \<Rightarrow> u64 Serializer" where
  "Serializer_uint64 f = (case f of
     U_no \<Rightarrow> scalar VARINT WriteVarint_u64 (\<lambda>v. ReadVarint_u64)
   | U_f \<Rightarrow> (scalar FIXED64 WriteFixed_u64 ReadFixed_u64)
       \<lparr> ser := \<lambda>tag v force. if \<not> force \<and> v = 0 then []
           else WriteTagWriteType tag FIXED64 @ WriteFixed_u64 v \<rparr>)"

text \<open>
  A \<open>double\<close> or \<open>float\<close> is its bit pattern (\<open>BitCast\<close>); \<open>fpclassify(value) == FP_ZERO\<close>
  holds of the patterns that are zero but for the sign bit.
\<close>

definition Serializer_double :: "u64 Serializer" where
  "Serializer_double = (scalar FIXED64 WriteFixed_u64 (via id (ReadFixed_u64 0)))
     \<lparr> ser := \<lambda>tag v force. if \<not> force \<and> push_bit 1 v = 0 then []
         else WriteTagWriteType tag FIXED64 @ WriteFixed_u64 v \<rparr>"

definition Serializer_float :: "u32 Serializer" where
  "Serializer_float = (scalar FIXED32 WriteFixed_u32 (via id (ReadFixed_u32 0)))
     \<lparr> ser := \<lambda>tag v force. if \<not> force \<and> push_bit 1 v = 0 then []
         else WriteTagWriteType tag FIXED32 @ WriteFixed_u32 v \<rparr>"

text \<open>Types that go through the serializer of another one: \<open>bool\<close>, enumerations, small integers.\<close>

definition through :: "('v \<Rightarrow> u32) \<Rightarrow> (u32 \<Rightarrow> 'v) \<Rightarrow> 'v Serializer" where
  "through to frm = scalar VARINT (WriteVarint_u32 \<circ> to) (via frm ReadVarint_u32)"

definition Serializer_bool :: "bool Serializer" where
  "Serializer_bool = through (\<lambda>v. if v then 1 else 0) (\<lambda>n. n \<noteq> 0)"

definition Serializer_enum :: "('e \<Rightarrow> u32) \<Rightarrow> (u32 \<Rightarrow> 'e) \<Rightarrow> 'e Serializer" where
  "Serializer_enum to frm = through to frm"

definition Serializer_uint8 :: "u8 Serializer" where
  "Serializer_uint8 = through ucast ucast"

definition Serializer_uint16 :: "u16 Serializer" where
  "Serializer_uint16 = through ucast ucast"

text \<open>
  Strings are length-delimited. The parser resizes the string first and has the reader copy
  over it, so a short read leaves the bytes it got in front of what \<open>resize\<close> kept. A size that no memory
  can hold makes \<open>resize\<close> throw in the program; here memory has no bound and the read is short.
\<close>

definition str_resize :: "string \<Rightarrow> nat \<Rightarrow> string" where
  "str_resize s n = take n s @ replicate (n - length s) (CHR 0x00)"

definition ReadString :: "string \<Rightarrow> reader \<Rightarrow> bool \<times> string \<times> reader" where
  "ReadString v r = (case ReadVarint_u64 r of
     (False, _, r') \<Rightarrow> (False, v, r')
   | (True, n, r') \<Rightarrow>
       let (xs, r'') = rd_read (unat n) r'
       in (length xs = unat n, chars_of xs @ drop (length xs) (str_resize v (unat n)), r''))"

definition Serializer_string :: "string Serializer" where
  "Serializer_string =
     \<lparr> ser = (\<lambda>tag v force. WriteTagWriteType tag LENGTH_DELIMETED
           @ WriteVarint_u64 (word_of_nat (length v)) @ bytes_of v),
       ser_packed = None,
       parse = expect LENGTH_DELIMETED ReadString,
       parse_packed = None \<rparr>"

section \<open>Messages\<close>

text \<open>
  A field of a message of type \<open>'m\<close>: its tag, what \<open>WriteField\<close> appends for it, and how
  \<open>ReadField\<close> updates the message once the tag matches. \<open>ReadField\<close> drops the flag its
  serializer returns.
\<close>

record 'm Field =
  field_tag :: u32
  field_write :: "'m \<Rightarrow> bytes"
  field_read :: "WireType \<Rightarrow> 'm \<Rightarrow> reader \<Rightarrow> ('m \<times> reader) option"

definition FieldImpl ::
  "u32 \<Rightarrow> 'v Serializer \<Rightarrow> ('m \<Rightarrow> 'v) \<Rightarrow> ('v \<Rightarrow> 'm \<Rightarrow> 'm) \<Rightarrow> 'm Field" where
  "FieldImpl tag S get upd =
     \<lparr> field_tag = tag,
       field_write = (\<lambda>m. ser S tag (get m) False),
       field_read = (\<lambda>wireType m r.
         map_option (\<lambda>(ok, v, r'). (upd v m, r')) (parse S wireType (get m) r)) \<rparr>"

definition WriteMessage :: "'m Field list \<Rightarrow> 'm \<Rightarrow> bytes" where
  "WriteMessage fs m = concat (map (\<lambda>f. field_write f m) fs)"

definition ReadField :: "u32 \<Rightarrow> WireType \<Rightarrow> 'm Field \<Rightarrow> 'm \<times> reader \<Rightarrow> ('m \<times> reader) option" where
  "ReadField tag wireType f s =
     (if field_tag f \<noteq> tag then Some s else field_read f wireType (fst s) (snd s))"

fun VisitFields :: "u32 \<Rightarrow> WireType \<Rightarrow> 'm Field list \<Rightarrow> 'm \<times> reader \<Rightarrow> ('m \<times> reader) option" where
  "VisitFields tag wireType [] s = Some s"
| "VisitFields tag wireType (f # fs) s =
     Option.bind (ReadField tag wireType f s) (VisitFields tag wireType fs)"

partial_function (option) ReadMessage ::
  "'m Field list \<Rightarrow> 'm \<Rightarrow> reader \<Rightarrow> (bool \<times> 'm \<times> reader) option" where
  "ReadMessage fs m r =
     (let k = ReadVarint_u32 r in
      if fst k then
        Option.bind
          (VisitFields (fst (ReadTagWireType (fst (snd k)))) (snd (ReadTagWireType (fst (snd k)))) fs
            (m, snd (snd k)))
          (\<lambda>s. ReadMessage fs (fst s) (snd s))
      else Some (True, m, snd (snd k)))"

definition SerializeToString :: "'m Field list \<Rightarrow> 'm \<Rightarrow> string" where
  "SerializeToString fs m = chars_of (WriteMessage fs m)"

definition ParseFromString :: "'m Field list \<Rightarrow> 'm \<Rightarrow> string \<Rightarrow> (bool \<times> 'm) option" where
  "ParseFromString fs m s =
     map_option (\<lambda>(ok, m', r). (ok, m')) (ReadMessage fs m (StringReader (bytes_of s)))"

text \<open>A message as a field of another one: its size is computed by a first pass.\<close>

definition Serializer_message :: "'m Field list \<Rightarrow> 'm Serializer" where
  "Serializer_message fs =
     \<lparr> ser = (\<lambda>tag v force.
         let bs = WriteMessage fs v; sz = WriterSizeCollector bs
         in if \<not> force \<and> sz = 0 then []
            else WriteTagWriteType tag LENGTH_DELIMETED @ WriteVarint_u64 sz @ bs),
       ser_packed = None,
       parse = (\<lambda>wireType v r.
         if wireType \<noteq> LENGTH_DELIMETED then Some (False, v, r)
         else case ReadVarint_u64 r of
           (False, _, r') \<Rightarrow> Some (False, v, r')
         | (True, sz, r') \<Rightarrow>
             map_option (\<lambda>(ok, m, r''). (ok, m, rd_parent r''))
               (ReadMessage fs v (LimitedReader r' (unat sz)))),
       parse_packed = None \<rparr>"

section \<open>Repeated fields, optionals, alternatives and maps\<close>

text \<open>
  \<open>std::vector\<close>: packed when the element type can be, else one field per element. The
  parameter \<open>d\<close> is the uninitialised local the parser reads each element into.
\<close>

definition WriteRepeated :: "'v Serializer \<Rightarrow> u32 \<Rightarrow> 'v list \<Rightarrow> bytes" where
  "WriteRepeated S tag vs =
     (if vs = [] then []
      else case ser_packed S of
        Some wr \<Rightarrow>
          let bs = concat (map wr vs)
          in WriteTagWriteType tag LENGTH_DELIMETED @ WriteVarint_u64 (WriterSizeCollector bs) @ bs
      | None \<Rightarrow> concat (map (\<lambda>v. ser S tag v False) vs))"

partial_function (option) read_packed ::
  "('v \<Rightarrow> reader \<Rightarrow> (bool \<times> 'v \<times> reader) option) \<Rightarrow> 'v \<Rightarrow> 'v list \<Rightarrow> reader
    \<Rightarrow> (bool \<times> 'v list \<times> reader) option" where
  "read_packed p d vs r =
     (if 0 < AvailableBytes r then
        Option.bind (p d r) (\<lambda>x. if fst x then read_packed p d (vs @ [fst (snd x)]) (snd (snd x))
                               else Some (False, vs, snd (snd x)))
      else Some (True, vs, r))"

definition ReadRepeated :: "'v Serializer \<Rightarrow> 'v \<Rightarrow> 'v list parser" where
  "ReadRepeated S d wireType vs r = (case parse_packed S of
     Some p \<Rightarrow>
       if wireType \<noteq> LENGTH_DELIMETED then Some (False, vs, r)
       else (case ReadVarint_u64 r of
          (False, _, r') \<Rightarrow> Some (False, vs, r')
        | (True, sz, r') \<Rightarrow>
            map_option (\<lambda>(ok, ws, r''). (ok, ws, rd_parent r''))
              (read_packed p d vs (LimitedReader r' (unat sz))))
   | None \<Rightarrow>
       map_option (\<lambda>(ok, v, r'). (ok, if ok then vs @ [v] else vs, r')) (parse S wireType d r))"

definition Serializer_vector :: "'v Serializer \<Rightarrow> 'v \<Rightarrow> 'v list Serializer" where
  "Serializer_vector S d =
     \<lparr> ser = (\<lambda>tag vs force. WriteRepeated S tag vs), ser_packed = None,
       parse = ReadRepeated S d, parse_packed = None \<rparr>"

text \<open>\<open>std::optional\<close>: \<open>emplace()\<close> makes the value present before it is parsed.\<close>

definition Serializer_optional :: "'v Serializer \<Rightarrow> 'v \<Rightarrow> 'v option Serializer" where
  "Serializer_optional S d =
     \<lparr> ser = (\<lambda>tag v force. case v of None \<Rightarrow> [] | Some x \<Rightarrow> ser S tag x False),
       ser_packed = None,
       parse = (\<lambda>wireType v r. map_option (\<lambda>(ok, x, r'). (ok, Some x, r')) (parse S wireType d r)),
       parse_packed = None \<rparr>"

text \<open>
  One alternative of a \<open>std::variant\<close>, given by its projection and injection; parsing it
  replaces whatever alternative was there.
\<close>

definition Serializer_oneof ::
  "('u \<Rightarrow> 'v option) \<Rightarrow> ('v \<Rightarrow> 'u) \<Rightarrow> 'v Serializer \<Rightarrow> 'v \<Rightarrow> 'u Serializer" where
  "Serializer_oneof alt emplace S d =
     \<lparr> ser = (\<lambda>tag u force. case alt u of None \<Rightarrow> [] | Some x \<Rightarrow> ser S tag x False),
       ser_packed = None,
       parse = (\<lambda>wireType u r. map_option (\<lambda>(ok, x, r'). (ok, emplace x, r')) (parse S wireType d r)),
       parse_packed = None \<rparr>"

text \<open>
  \<open>std::map\<close>: an association list in key order. An entry is a message of two forced fields;
  \<open>insert\<close> keeps an entry that is already there.
\<close>

definition map_insert :: "('k::linorder \<times> 'w) \<Rightarrow> ('k \<times> 'w) list \<Rightarrow> ('k \<times> 'w) list" where
  "map_insert kv m = (if fst kv \<in> fst ` set m then m else insort_key fst kv m)"

definition WriteMapKeyValue :: "'k Serializer \<Rightarrow> 'w Serializer \<Rightarrow> 'k \<times> 'w \<Rightarrow> bytes" where
  "WriteMapKeyValue K W kv = ser K 1 (fst kv) True @ ser W 2 (snd kv) True"

definition WriteMap :: "'k Serializer \<Rightarrow> 'w Serializer \<Rightarrow> u32 \<Rightarrow> ('k \<times> 'w) list \<Rightarrow> bytes" where
  "WriteMap K W tag m = concat (map (\<lambda>kv.
     let bs = WriteMapKeyValue K W kv
     in WriteTagWriteType tag LENGTH_DELIMETED @ WriteVarint_u64 (WriterSizeCollector bs) @ bs) m)"

definition ReadMapKeyValue ::
  "'k Serializer \<Rightarrow> 'w Serializer \<Rightarrow> 'k \<times> 'w \<Rightarrow> reader \<Rightarrow> (bool \<times> ('k \<times> 'w) \<times> reader) option" where
  "ReadMapKeyValue K W kv r =
     ReadMessage [FieldImpl 1 K fst (\<lambda>k p. (k, snd p)), FieldImpl 2 W snd (\<lambda>w p. (fst p, w))] kv r"

partial_function (option) read_map_loop ::
  "'k::linorder Serializer \<Rightarrow> 'w Serializer \<Rightarrow> 'k \<times> 'w \<Rightarrow> ('k \<times> 'w) list \<Rightarrow> reader
    \<Rightarrow> (bool \<times> ('k \<times> 'w) list \<times> reader) option" where
  "read_map_loop K W d m r =
     (if 0 < AvailableBytes r then
        Option.bind (ReadMapKeyValue K W d r)
          (\<lambda>x. if fst x then read_map_loop K W d (map_insert (fst (snd x)) m) (snd (snd x))
               else Some (False, m, snd (snd x)))
      else Some (True, m, r))"

definition ReadMap ::
  "'k::linorder Serializer \<Rightarrow> 'w Serializer \<Rightarrow> 'k \<times> 'w \<Rightarrow> ('k \<times> 'w) list parser" where
  "ReadMap K W d wireType m r =
     (if wireType \<noteq> LENGTH_DELIMETED then Some (False, m, r)
      else case ReadVarint_u64 r of
        (False, _, r') \<Rightarrow> Some (False, m, r')
      | (True, sz, r') \<Rightarrow>
          map_option (\<lambda>(ok, m', r''). (ok, m', rd_parent r''))
            (read_map_loop K W d m (LimitedReader r' (unat sz))))"

definition Serializer_map ::
  "'k::linorder Serializer \<Rightarrow> 'w Serializer \<Rightarrow> 'k \<times> 'w \<Rightarrow> ('k \<times> 'w) list Serializer" where
  "Serializer_map K W d =
     \<lparr> ser = (\<lambda>tag m force. WriteMap K W tag m), ser_packed = None,
       parse = ReadMap K W d, parse_packed = None \<rparr>"

section \<open>The laws of a serializer\<close>

text \<open>
  What every parser the messages use promises: it returns, and never gives back bytes. A
  serializer that is \<open>exact\<close> also reads back what it wrote and stops right after it; \<open>good\<close>
  are the values it can carry.
\<close>

locale total_serializer =
  fixes S :: "'v Serializer"
  assumes parse_returns: "parse S wireType v r \<noteq> None"
    and parse_avail: "parse S wireType v r = Some (ok, v', r') \<Longrightarrow> rd_avail r' \<le> rd_avail r"

locale exact_serializer = total_serializer S for S :: "'v Serializer" +
  fixes w :: WireType and body :: "'v \<Rightarrow> bytes" and good :: "'v \<Rightarrow> bool"
  assumes wire_named: "named_wire w"
    and ser_body: "good v \<Longrightarrow> ser S tag v force = WriteTagWriteType tag w @ body v"
    and parse_body: "good v \<Longrightarrow>
      parse S w old (StringReader (body v @ rest)) = Some (True, v, StringReader rest)"

text \<open>The same for a field of a message: the contract \<open>ReadMessage\<close> relies on.\<close>

definition field_total :: "'m Field \<Rightarrow> bool" where
  "field_total f \<longleftrightarrow> (\<forall>w m r. \<exists>m' r'. field_read f w m r = Some (m', r') \<and> rd_avail r' \<le> rd_avail r)"

definition field_exact :: "('m \<Rightarrow> bool) \<Rightarrow> 'm Field \<Rightarrow> ('m \<Rightarrow> 'm \<Rightarrow> 'm) \<Rightarrow> bool" where
  "field_exact good f copy \<longleftrightarrow> (\<exists>w body. named_wire w \<and>
     (\<forall>m. good m \<longrightarrow> field_write f m = WriteTagWriteType (field_tag f) w @ body m \<and>
        (\<forall>m0 rest. field_read f w m0 (StringReader (body m @ rest)) =
           Some (copy m m0, StringReader rest))))"

context total_serializer begin

lemma FieldImpl_total: "field_total (FieldImpl tag S get upd)"
  unfolding field_total_def
proof (intro allI)
  fix w m r
  obtain ok v' r' where "parse S w (get m) r = Some (ok, v', r')"
    using parse_returns [of w "get m" r] by auto
  then show "\<exists>m' r'. field_read (FieldImpl tag S get upd) w m r = Some (m', r') \<and>
      rd_avail r' \<le> rd_avail r"
    by (auto simp: FieldImpl_def dest: parse_avail)
qed

end

context exact_serializer begin

lemma FieldImpl_exact:
  assumes "\<And>m. gm m \<Longrightarrow> good (get m)"
  shows "field_exact gm (FieldImpl tag S get upd) (\<lambda>m m0. upd (get m) m0)"
  unfolding field_exact_def
proof (intro exI conjI allI impI)
  show "named_wire w" by (rule wire_named)
  fix m assume "gm m"
  then have g: "good (get m)" by (rule assms)
  show "field_write (FieldImpl tag S get upd) m =
      WriteTagWriteType (field_tag (FieldImpl tag S get upd)) w @ body (get m)"
    using ser_body [OF g] by (simp add: FieldImpl_def)
  fix m0 rest
  show "field_read (FieldImpl tag S get upd) w m0 (StringReader (body (get m) @ rest)) =
      Some (upd (get m) m0, StringReader rest)"
    by (simp add: FieldImpl_def parse_body [OF g])
qed

end

section \<open>The scalar serializers keep the laws\<close>

lemma scalar_total:
  assumes "\<And>v r ok v' r'. rd v r = (ok, v', r') \<Longrightarrow> rd_avail r' \<le> rd_avail r"
  shows "total_serializer (scalar w wr rd)"
  using assms by unfold_locales (auto simp: scalar_def expect_def split: if_splits)

lemma scalar_exact:
  assumes "\<And>v r ok v' r'. rd v r = (ok, v', r') \<Longrightarrow> rd_avail r' \<le> rd_avail r"
    and "named_wire w"
    and "\<And>v old rest. rd old (StringReader (wr v @ rest)) = (True, v, StringReader rest)"
  shows "exact_serializer (scalar w wr rd) w wr (\<lambda>_. True)"
proof -
  note total = scalar_total [of rd w wr, OF assms(1)]
  show ?thesis
    using total assms(2,3)
    by (simp add: exact_serializer_def exact_serializer_axioms_def)
       (simp add: scalar_def expect_def)
qed

lemma via_avail:
  assumes "\<And>r ok x r'. rd r = (ok, x, r') \<Longrightarrow> rd_avail r' \<le> rd_avail r"
    and "via f rd v r = (ok, v', r')"
  shows "rd_avail r' \<le> rd_avail r"
  using assms by (auto simp: via_def split: prod.splits)

lemmas scalar_avail = ReadVarint_avail ReadFixed_avail

lemma via_u32_avail: "via f ReadVarint_u32 v r = (ok, v', r') \<Longrightarrow> rd_avail r' \<le> rd_avail r"
  and via_u64_avail: "via g ReadVarint_u64 v r = (ok, v', r') \<Longrightarrow> rd_avail r' \<le> rd_avail r"
  and via_f32_avail: "via h (ReadFixed_u32 0) v r = (ok, v', r') \<Longrightarrow> rd_avail r' \<le> rd_avail r"
  and via_f64_avail: "via k (ReadFixed_u64 0) v r = (ok, v', r') \<Longrightarrow> rd_avail r' \<le> rd_avail r"
  by (auto elim!: via_avail [rotated] dest: scalar_avail)

lemmas via_avails = via_u32_avail via_u64_avail via_f32_avail via_f64_avail

lemma named_wires [simp]:
  "named_wire VARINT" "named_wire FIXED32" "named_wire FIXED64" "named_wire LENGTH_DELIMETED"
  by (simp_all add: named_wire_def)

interpretation ser_u32: exact_serializer "Serializer_uint32 U_no" VARINT WriteVarint_u32 "\<lambda>_. True"
  unfolding Serializer_uint32_def uflags.case
  by (rule scalar_exact) (auto simp: wire_simps dest: scalar_avail)

interpretation ser_fixed32: exact_serializer "Serializer_uint32 U_f" FIXED32 WriteFixed_u32 "\<lambda>_. True"
  unfolding Serializer_uint32_def uflags.case
  by (rule scalar_exact) (auto simp: wire_simps dest: scalar_avail)

interpretation ser_u64: exact_serializer "Serializer_uint64 U_no" VARINT WriteVarint_u64 "\<lambda>_. True"
  unfolding Serializer_uint64_def uflags.case
  by (rule scalar_exact) (auto simp: wire_simps dest: scalar_avail)

interpretation ser_i32: exact_serializer "Serializer_int32 S_no" VARINT WriteVarint_u32 "\<lambda>_. True"
  unfolding Serializer_int32_def sflags.case
  by (rule scalar_exact) (erule via_avails | simp add: via_def wire_simps)+

interpretation ser_s32: exact_serializer "Serializer_int32 S_s" VARINT
    "WriteVarint_u32 \<circ> MakeZigzagValue_i32" "\<lambda>_. True"
  unfolding Serializer_int32_def sflags.case
  by (rule scalar_exact) (erule via_avails | simp add: via_def wire_simps)+

interpretation ser_sf32: exact_serializer "Serializer_int32 S_sf" FIXED32 WriteFixed_u32 "\<lambda>_. True"
  unfolding Serializer_int32_def sflags.case
  by (rule scalar_exact) (erule via_avails | simp add: via_def wire_simps)+

interpretation ser_i64: exact_serializer "Serializer_int64 S_no" VARINT WriteVarint_u64 "\<lambda>_. True"
  unfolding Serializer_int64_def sflags.case
  by (rule scalar_exact) (erule via_avails | simp add: via_def wire_simps)+

interpretation ser_s64: exact_serializer "Serializer_int64 S_s" VARINT
    "WriteVarint_u64 \<circ> MakeZigzagValue_i64" "\<lambda>_. True"
  unfolding Serializer_int64_def sflags.case
  by (rule scalar_exact) (erule via_avails | simp add: via_def wire_simps)+

interpretation ser_sf64: exact_serializer "Serializer_int64 S_sf" FIXED64 WriteFixed_u64 "\<lambda>_. True"
  unfolding Serializer_int64_def sflags.case
  by (rule scalar_exact) (erule via_avails | simp add: via_def wire_simps)+

lemma through_exact:
  assumes "\<And>v. frm (to v) = v"
  shows "exact_serializer (through to frm) VARINT (WriteVarint_u32 \<circ> to) (\<lambda>_. True)"
  unfolding through_def
  by (rule scalar_exact) (erule via_avails | simp add: via_def wire_simps assms)+

interpretation ser_bool: exact_serializer Serializer_bool VARINT
    "WriteVarint_u32 \<circ> (\<lambda>v. if v then 1 else 0)" "\<lambda>_. True"
  unfolding Serializer_bool_def by (rule through_exact) simp

lemma ucast_u8_u32 [simp]: "ucast (ucast (v :: u8) :: u32) = v"
  by (rule bit_word_eqI) (auto simp: bit_unsigned_iff)

lemma ucast_u16_u32 [simp]: "ucast (ucast (v :: u16) :: u32) = v"
  by (rule bit_word_eqI) (auto simp: bit_unsigned_iff)

interpretation ser_u8: exact_serializer Serializer_uint8 VARINT "WriteVarint_u32 \<circ> ucast" "\<lambda>_. True"
  unfolding Serializer_uint8_def by (rule through_exact) simp

interpretation ser_u16: exact_serializer Serializer_uint16 VARINT "WriteVarint_u32 \<circ> ucast" "\<lambda>_. True"
  unfolding Serializer_uint16_def by (rule through_exact) simp

text \<open>
  A string is carried when \<open>memcpy_s\<close> accepts its length; the empty string needs no copy.
\<close>

definition str_ok :: "string \<Rightarrow> bool" where
  "str_ok s \<longleftrightarrow> length s \<le> SECUREC_MEM_MAX_LEN"

definition string_body :: "string \<Rightarrow> bytes" where
  "string_body v = WriteVarint_u64 (word_of_nat (length v)) @ bytes_of v"

lemma str_ok_unat: "str_ok v \<Longrightarrow> unat (word_of_nat (length v) :: u64) = length v"
  by (simp add: str_ok_def SECUREC_MEM_MAX_LEN_def unat_of_nat)

lemma ReadString_body:
  "str_ok v \<Longrightarrow> ReadString old (StringReader (string_body v @ rest)) = (True, v, StringReader rest)"
  by (cases "v = []")
     (simp_all add: ReadString_def string_body_def wire_simps str_ok_unat str_ok_def str_resize_def)

lemma ReadString_avail: "ReadString v r = (ok, v', r') \<Longrightarrow> rd_avail r' \<le> rd_avail r"
proof -
  assume *: "ReadString v r = (ok, v', r')"
  obtain b n r1 where 1: "ReadVarint_u64 r = (b, n, r1)" by (cases "ReadVarint_u64 r")
  have "rd_avail r1 \<le> rd_avail r" using 1 by (rule ReadVarint_avail)
  with * 1 rd_read_avail [of "unat n" r1] show ?thesis
    by (auto simp: ReadString_def Let_def split: bool.splits prod.splits)
qed

interpretation ser_string: exact_serializer Serializer_string LENGTH_DELIMETED string_body str_ok
proof
  fix wireType v r ok v' r'
  show "parse Serializer_string wireType v r \<noteq> None"
    by (simp add: Serializer_string_def expect_def)
  show "parse Serializer_string wireType v r = Some (ok, v', r') \<Longrightarrow> rd_avail r' \<le> rd_avail r"
    by (auto simp: Serializer_string_def expect_def split: if_splits dest: ReadString_avail)
next
  fix v tag force old rest
  show "ser Serializer_string tag v force = WriteTagWriteType tag LENGTH_DELIMETED @ string_body v"
    by (simp add: Serializer_string_def string_body_def)
  assume "str_ok v"
  then show "parse Serializer_string LENGTH_DELIMETED old (StringReader (string_body v @ rest)) =
      Some (True, v, StringReader rest)"
    by (simp add: Serializer_string_def expect_def ReadString_body)
qed simp

end
