(* ===== verification/Hdc_Messages.thy ===== *)
theory Hdc_Messages
  imports Hdc_Serial
begin

text \<open>
  The parser of whole messages (\<open>ReadMessage\<close>, \<open>ParseFromString\<close>) on any descriptor: it
  returns on every input, and it reads back what \<open>SerializeToString\<close> wrote. Then the four
  messages of the program, with the descriptors of src/src/common/serial_struct.h.
\<close>

section \<open>Parsing returns\<close>

lemma VisitFields_total:
  assumes "\<forall>f \<in> set fs. field_total f"
  shows "\<exists>m' r'. VisitFields tag w fs (m, r) = Some (m', r') \<and> rd_avail r' \<le> rd_avail r"
  using assms
proof (induction fs arbitrary: m r)
  case (Cons f fs)
  obtain m1 r1 where 1: "ReadField tag w f (m, r) = Some (m1, r1)" "rd_avail r1 \<le> rd_avail r"
  proof (cases "field_tag f = tag")
    case True
    have "field_total f" using Cons.prems by simp
    then obtain m1 r1 where "field_read f w m r = Some (m1, r1)" "rd_avail r1 \<le> rd_avail r"
      unfolding field_total_def by metis
    with True that show ?thesis by (simp add: ReadField_def)
  next
    case False
    with that [of m r] show ?thesis by (simp add: ReadField_def)
  qed
  obtain m2 r2 where "VisitFields tag w fs (m1, r1) = Some (m2, r2)" "rd_avail r2 \<le> rd_avail r1"
    using Cons.IH [of m1 r1] Cons.prems by auto
  with 1 show ?case by auto
qed simp

theorem ReadMessage_returns:
  assumes "\<forall>f \<in> set fs. field_total f"
  shows "\<exists>m' r'. ReadMessage fs m r = Some (True, m', r') \<and> rd_avail r' \<le> rd_avail r"
proof (induction "rd_avail r" arbitrary: m r rule: less_induct)
  case less
  obtain ok k r1 where k: "ReadVarint_u32 r = (ok, k, r1)" by (cases "ReadVarint_u32 r")
  have r1: "rd_avail r1 \<le> rd_avail r" using k by (rule ReadVarint_avail)
  show ?case
  proof (cases ok)
    case False
    with k r1 show ?thesis by (simp add: ReadMessage.simps [of fs m r] Let_def)
  next
    case True
    with k have lt: "rd_avail r1 < rd_avail r" by (auto dest: ReadVarint_progress)
    obtain m2 r2 where v: "VisitFields (fst (ReadTagWireType k)) (snd (ReadTagWireType k)) fs (m, r1)
        = Some (m2, r2)" "rd_avail r2 \<le> rd_avail r1"
      using VisitFields_total [OF assms] by metis
    obtain m3 r3 where "ReadMessage fs m2 r2 = Some (True, m3, r3)" "rd_avail r3 \<le> rd_avail r2"
      using less [of r2 m2] v(2) lt by auto
    with v k True lt show ?thesis
      by (auto simp: ReadMessage.simps [of fs m r] Let_def)
  qed
qed

section \<open>Parsing what was written\<close>

lemma VisitFields_skip:
  "tag \<notin> field_tag ` set fs \<Longrightarrow> VisitFields tag w fs s = Some s"
  by (induction fs arbitrary: s) (auto simp: ReadField_def)

lemma VisitFields_hit:
  assumes "distinct (map field_tag fs)" and "f \<in> set fs"
  shows "VisitFields (field_tag f) w fs (m, r) = field_read f w m r"
  using assms
proof (induction fs arbitrary: m r)
  case (Cons g gs)
  show ?case
  proof (cases "g = f")
    case True
    with Cons.prems have "field_tag f \<notin> field_tag ` set gs" by simp
    with True show ?thesis
      by (cases "field_read f w m r") (simp_all add: ReadField_def VisitFields_skip)
  next
    case False
    with Cons.prems have "f \<in> set gs" "field_tag g \<noteq> field_tag f" by auto
    with Cons show ?thesis by (simp add: ReadField_def)
  qed
qed simp

text \<open>A tail of bytes the parser passes over: none, or the zeros that pad a fixed prefix.\<close>

definition skipped :: "'m Field list \<Rightarrow> bytes \<Rightarrow> bool" where
  "skipped fs tail \<longleftrightarrow> (\<forall>m. ReadMessage fs m (StringReader tail) = Some (True, m, StringReader []))"

lemma skipped_Nil: "skipped fs []"
  by (simp add: skipped_def ReadMessage.simps [of fs] ReadVarint_u32_def read_varint_end)

lemma ReadVarint_zero: "ReadVarint_u32 (StringReader (0 # bs)) = (True, 0, StringReader bs)"
  proof -
  have "(5::nat) = Suc 4" by simp
  then show ?thesis
    unfolding ReadVarint_u32_def by (simp only: read_varint_loop.simps) (simp add: SECUREC_MEM_MAX_LEN_def)
qed

lemma skipped_zeros: "0 \<notin> field_tag ` set fs \<Longrightarrow> skipped fs (replicate n 0)"
proof (induction n)
  case 0
  then show ?case by (simp add: skipped_Nil)
next
  case (Suc n)
  then show ?case
    by (simp add: skipped_def ReadMessage.simps [of fs _ "StringReader (0 # replicate n 0)"]
        ReadVarint_zero ReadTagWireType_def VisitFields_skip)
qed

lemma ReadMessage_written_tail:
  assumes d: "distinct (map field_tag fs)"
    and tags: "\<forall>f \<in> set fs. unat (field_tag f) < 2 ^ 29"
    and m: "good m" and tail: "skipped fs tail"
  shows "list_all2 (field_exact good) gs cs \<Longrightarrow> set gs \<subseteq> set fs \<Longrightarrow>
    ReadMessage fs m0 (StringReader (WriteMessage gs m @ tail)) =
      Some (True, fold (\<lambda>c. c m) cs m0, StringReader [])"
proof (induction gs cs arbitrary: m0 rule: list_all2_induct)
  case Nil
  show ?case using tail by (simp add: skipped_def WriteMessage_def)
next
  case (Cons g gs c cs)
  then have g: "g \<in> set fs" by simp
  obtain w body where w: "named_wire w"
    and wr: "field_write g m = WriteTagWriteType (field_tag g) w @ body m"
    and rd: "\<And>m0 rest. field_read g w m0 (StringReader (body m @ rest)) =
      Some (c m m0, StringReader rest)"
    using \<open>field_exact good g c\<close> m unfolding field_exact_def by metis
  let ?k = "MakeTagWireType (field_tag g) w"
  have bytes: "WriteMessage (g # gs) m = WriteVarint_u32 ?k @ body m @ WriteMessage gs m"
    by (simp add: WriteMessage_def wr WriteTagWriteType_def)
  have key: "ReadTagWireType ?k = (field_tag g, w)"
    using ReadTag_MakeTag tags g w by simp
  have "ReadMessage fs (c m m0) (StringReader (WriteMessage gs m @ tail)) =
      Some (True, fold (\<lambda>c. c m) cs (c m m0), StringReader [])"
    using Cons by simp
  then show ?case
    by (simp add: ReadMessage.simps [of fs m0] bytes wire_simps key VisitFields_hit [OF d g] rd)
qed

lemmas ReadMessage_written = ReadMessage_written_tail [OF _ _ _ skipped_Nil, unfolded append_Nil2]

section \<open>SessionHandShake, PayloadProtect, TransferConfig, TransferPayload\<close>

record SessionHandShake =
  banner :: string
  authType :: u8
  hs_sessionId :: u32
  hs_connectKey :: string
  buf :: string

record PayloadProtect =
  pp_channelId :: u32
  commandFlag :: u32
  checkSum :: u8
  vCode :: u8

record TransferConfig =
  fileSize :: u64
  atime :: u64
  mtime :: u64
  options :: string
  tc_path :: string
  optionalName :: string
  updateIfNew :: bool
  compressType :: u8
  holdTimestamp :: bool
  functionName :: string
  clientCwd :: string
  reserve1 :: string
  reserve2 :: string

record TransferPayload =
  tp_index :: u64
  tp_compressType :: u8
  compressSize :: u32
  uncompressSize :: u32

abbreviation "str_field tag get upd \<equiv> FieldImpl tag Serializer_string get (\<lambda>v. upd (\<lambda>_. v))"
abbreviation "u8_field tag get upd \<equiv> FieldImpl tag Serializer_uint8 get (\<lambda>v. upd (\<lambda>_. v))"
abbreviation "u32_field tag get upd \<equiv> FieldImpl tag (Serializer_uint32 U_no) get (\<lambda>v. upd (\<lambda>_. v))"
abbreviation "u64_field tag get upd \<equiv> FieldImpl tag (Serializer_uint64 U_no) get (\<lambda>v. upd (\<lambda>_. v))"
abbreviation "bool_field tag get upd \<equiv> FieldImpl tag Serializer_bool get (\<lambda>v. upd (\<lambda>_. v))"

definition Descriptor_SessionHandShake :: "SessionHandShake Field list" where
  "Descriptor_SessionHandShake =
     [str_field 1 banner banner_update,
      u8_field 2 authType authType_update,
      u32_field 3 hs_sessionId hs_sessionId_update,
      str_field 4 hs_connectKey hs_connectKey_update,
      str_field 5 buf buf_update]"

definition Descriptor_PayloadProtect :: "PayloadProtect Field list" where
  "Descriptor_PayloadProtect =
     [u32_field 1 pp_channelId pp_channelId_update,
      u32_field 2 commandFlag commandFlag_update,
      u8_field 3 checkSum checkSum_update,
      u8_field 4 vCode vCode_update]"

definition Descriptor_TransferConfig :: "TransferConfig Field list" where
  "Descriptor_TransferConfig =
     [u64_field 1 fileSize fileSize_update,
      u64_field 2 atime atime_update,
      u64_field 3 mtime mtime_update,
      str_field 4 options options_update,
      str_field 5 tc_path tc_path_update,
      str_field 6 optionalName optionalName_update,
      bool_field 7 updateIfNew updateIfNew_update,
      u8_field 8 compressType compressType_update,
      bool_field 9 holdTimestamp holdTimestamp_update,
      str_field 10 functionName functionName_update,
      str_field 11 clientCwd clientCwd_update,
      str_field 12 reserve1 reserve1_update,
      str_field 13 reserve2 reserve2_update]"

definition Descriptor_TransferPayload :: "TransferPayload Field list" where
  "Descriptor_TransferPayload =
     [u64_field 1 tp_index tp_index_update,
      u8_field 2 tp_compressType tp_compressType_update,
      u32_field 3 compressSize compressSize_update,
      u32_field 4 uncompressSize uncompressSize_update]"

lemmas descriptors =
  Descriptor_SessionHandShake_def Descriptor_PayloadProtect_def
  Descriptor_TransferConfig_def Descriptor_TransferPayload_def

text \<open>The strings of a message fit what \<open>memcpy_s\<close> copies.\<close>

definition handshake_ok :: "SessionHandShake \<Rightarrow> bool" where
  "handshake_ok m \<longleftrightarrow> str_ok (banner m) \<and> str_ok (hs_connectKey m) \<and> str_ok (buf m)"

definition config_ok :: "TransferConfig \<Rightarrow> bool" where
  "config_ok m \<longleftrightarrow> str_ok (options m) \<and> str_ok (tc_path m) \<and> str_ok (optionalName m) \<and>
     str_ok (functionName m) \<and> str_ok (clientCwd m) \<and> str_ok (reserve1 m) \<and> str_ok (reserve2 m)"

lemmas field_exacts =
  ser_string.FieldImpl_exact ser_u8.FieldImpl_exact ser_u32.FieldImpl_exact
  ser_u64.FieldImpl_exact ser_bool.FieldImpl_exact

lemmas field_totals =
  ser_string.FieldImpl_total ser_u8.FieldImpl_total ser_u32.FieldImpl_total
  ser_u64.FieldImpl_total ser_bool.FieldImpl_total

text \<open>
  A message is carried exactly: whatever value the parser starts from, it ends with the one
  that was written, and with success.
\<close>

lemma field_tag_FieldImpl [simp]: "field_tag (FieldImpl tag S get upd) = tag"
  by (simp add: FieldImpl_def)

lemma parse_written_tail:
  assumes "list_all2 (field_exact good) fs cs" and "distinct (map field_tag fs)"
    and "\<forall>f \<in> set fs. unat (field_tag f) < 2 ^ 29" and "good m"
    and "fold (\<lambda>c. c m) cs m0 = m" and "skipped fs tail"
  shows "ParseFromString fs m0 (chars_of (WriteMessage fs m @ tail)) = Some (True, m)"
  using ReadMessage_written_tail [OF assms(2,3,4,6,1), of m0] assms(5)
  by (simp add: ParseFromString_def)

lemma parse_written:
  assumes "list_all2 (field_exact good) fs cs" and "distinct (map field_tag fs)"
    and "\<forall>f \<in> set fs. unat (field_tag f) < 2 ^ 29" and "good m"
    and "fold (\<lambda>c. c m) cs m0 = m"
  shows "ParseFromString fs m0 (SerializeToString fs m) = Some (True, m)"
  using parse_written_tail [OF assms skipped_Nil] by (simp add: SerializeToString_def)

lemma handshake_roundtrip_lib:
  "handshake_ok m \<Longrightarrow>
     ParseFromString Descriptor_SessionHandShake m0 (SerializeToString Descriptor_SessionHandShake m)
       = Some (True, m)"
  unfolding Descriptor_SessionHandShake_def
  by (rule parse_written [where good = handshake_ok])
     (rule list.rel_intros field_exacts | simp add: handshake_ok_def)+

text \<open>
  C14. Whatever handshake the session layer serializes, the peer's parser reads back, field by
  field, from any initial contents of its structure.
\<close>

theorem handshake_roundtrip:
  "handshake_ok m \<Longrightarrow>
     ParseFromString Descriptor_SessionHandShake m0 (SerializeToString Descriptor_SessionHandShake m)
       = Some (True, m)"
  by (rule handshake_roundtrip_lib)

definition sample_handshake :: SessionHandShake where
  "sample_handshake = \<lparr> banner = HANDSHAKE_MESSAGE, authType = 2, hs_sessionId = 4660,
     hs_connectKey = ''127.0.0.1:8710'', buf = [] \<rparr>"

theorem handshake_roundtrip_witness:
  "ParseFromString Descriptor_SessionHandShake sample_handshake
     (SerializeToString Descriptor_SessionHandShake sample_handshake) = Some (True, sample_handshake)"
  by (rule handshake_roundtrip)
     (simp add: sample_handshake_def handshake_ok_def str_ok_def hdc_consts)

lemma payload_protect_roundtrip_lib:
  "ParseFromString Descriptor_PayloadProtect m0 (SerializeToString Descriptor_PayloadProtect m)
     = Some (True, m)"
  unfolding Descriptor_PayloadProtect_def
  by (rule parse_written [where good = "\<lambda>_. True"])
     (rule list.rel_intros field_exacts | simp)+

text \<open>
  The channel header of every packet is read back exactly, without any hypothesis.
\<close>

theorem payload_protect_roundtrip:
  "ParseFromString Descriptor_PayloadProtect m0 (SerializeToString Descriptor_PayloadProtect m)
     = Some (True, m)"
  unfolding Descriptor_PayloadProtect_def
  by (rule parse_written [where good = "\<lambda>_. True"])
     (rule list.rel_intros field_exacts | simp)+

theorem transfer_config_roundtrip:
  "config_ok m \<Longrightarrow>
     ParseFromString Descriptor_TransferConfig m0 (SerializeToString Descriptor_TransferConfig m)
       = Some (True, m)"
  unfolding Descriptor_TransferConfig_def
  by (rule parse_written [where good = config_ok])
     (rule list.rel_intros field_exacts | simp add: config_ok_def)+

theorem transfer_payload_roundtrip:
  "ParseFromString Descriptor_TransferPayload m0 (SerializeToString Descriptor_TransferPayload m)
     = Some (True, m)"
  unfolding Descriptor_TransferPayload_def
  by (rule parse_written [where good = "\<lambda>_. True"])
     (rule list.rel_intros field_exacts | simp)+

text \<open>The payload header, padded with zeros to its fixed size.\<close>

lemma transfer_payload_padded:
  "ParseFromString Descriptor_TransferPayload m0
     (chars_of (WriteMessage Descriptor_TransferPayload m @ replicate n 0)) = Some (True, m)"
proof -
  have s: "skipped Descriptor_TransferPayload (replicate n 0)"
    by (rule skipped_zeros) (simp add: Descriptor_TransferPayload_def)
  then show ?thesis
    unfolding Descriptor_TransferPayload_def
    by (intro parse_written_tail [where good = "\<lambda>_. True"])
       (rule list.rel_intros field_exacts | simp)+
qed

text \<open>Parsing a received header ends and reports success on every byte string.\<close>

lemma descriptors_total:
  "\<forall>f \<in> set Descriptor_SessionHandShake. field_total f"
  "\<forall>f \<in> set Descriptor_PayloadProtect. field_total f"
  "\<forall>f \<in> set Descriptor_TransferConfig. field_total f"
  "\<forall>f \<in> set Descriptor_TransferPayload. field_total f"
  by (simp_all add: descriptors field_totals)

theorem ParseFromString_total:
  assumes "\<forall>f \<in> set fs. field_total f"
  shows "\<exists>m'. ParseFromString fs m s = Some (True, m')"
proof -
  obtain m' r' where "ReadMessage fs m (StringReader (bytes_of s)) = Some (True, m', r')"
    using ReadMessage_returns [OF assms] by metis
  then show ?thesis by (simp add: ParseFromString_def)
qed

lemma rd_read_empty: "fst (rd_read n (LimitedReader (StringReader []) l)) = [] \<and>
    snd (rd_read n (LimitedReader (StringReader []) l)) = LimitedReader (StringReader []) l"
  by simp

text \<open>
  The map parser, in contrast to that of messages, does not return when the announced length exceeds what is left:
  an entry parsed at the end of the input consumes nothing and reports success.
\<close>

lemma read_map_loop_hangs:
  "read_map_loop K W d m (LimitedReader (StringReader []) (Suc l)) = None"
proof -
  let ?r = "LimitedReader (StringReader []) (Suc l)"
  have "ReadVarint_u32 ?r = (False, 0, ?r)"
    by (simp add: ReadVarint_u32_def eval_nat_numeral)
  then have kv: "ReadMapKeyValue K W d ?r = Some (True, d, ?r)"
    by (simp add: ReadMapKeyValue_def ReadMessage.simps [of _ d ?r])
  have "r = ?r \<longrightarrow> dd = d \<longrightarrow> K' = K \<longrightarrow> W' = W \<longrightarrow> False"
    if "read_map_loop K' W' dd m r = Some x" for K' W' dd m r x
    using that
  proof (rule read_map_loop.raw_induct [where P = "\<lambda>K' W' dd m r x.
      r = ?r \<longrightarrow> dd = d \<longrightarrow> K' = K \<longrightarrow> W' = W \<longrightarrow> False", rotated])
    fix f K' W' dd m r x
    assume IH: "\<And>K' W' dd m r x. f K' W' dd m r = Some x \<Longrightarrow>
        r = ?r \<longrightarrow> dd = d \<longrightarrow> K' = K \<longrightarrow> W' = W \<longrightarrow> False"
      and eq: "(if 0 < AvailableBytes r then
          Option.bind (ReadMapKeyValue K' W' dd r)
            (\<lambda>x. if fst x then f K' W' dd (map_insert (fst (snd x)) m) (snd (snd x))
                 else Some (False, m, snd (snd x)))
          else Some (True, m, r)) = Some x"
    show "r = ?r \<longrightarrow> dd = d \<longrightarrow> K' = K \<longrightarrow> W' = W \<longrightarrow> False"
    proof (intro impI)
      assume "r = ?r" "dd = d" "K' = K" "W' = W"
      with eq kv have "f K W d (map_insert d m) ?r = Some x" by simp
      then show False using IH by blast
    qed
  qed
  then show ?thesis by (cases "read_map_loop K W d m ?r") (simp, blast)
qed

end
