(* ===== verification/Hdc_Packet.thy ===== *)
theory Hdc_Packet
  imports Hdc_Base Hdc_Messages
begin

unbundle bit_operations_syntax

text \<open>
  The packet layer of src/src/common/session.cpp: the frame \<open>Send\<close> builds (packet head,
  serialized \<open>PayloadProtect\<close>, data), and the receive side, \<open>AllocCallback\<close>, \<open>FetchIOBuf\<close>,
  \<open>OnRead\<close> and \<open>DecryptPayload\<close>, which cut a byte stream back into commands.
\<close>

section \<open>Frames\<close>

record PayloadHead =
  ph_flag :: bytes
  ph_reserve :: bytes
  protocolVer :: u8
  headSize :: u16
  dataSize :: u32

text \<open>The packed layout; the two sizes are in network order.\<close>

definition sizeof_PayloadHead :: nat where [hdc_consts]: "sizeof_PayloadHead = 11"

definition payloadProtectStaticVcode :: u8 where [hdc_consts]: "payloadProtectStaticVcode = 9"

definition enc_PayloadHead :: "PayloadHead \<Rightarrow> bytes" where
  "enc_PayloadHead h = ph_flag h @ ph_reserve h @ [protocolVer h]
     @ be_enc 2 (unat (headSize h)) @ be_enc 4 (unat (dataSize h))"

definition dec_PayloadHead :: "bytes \<Rightarrow> PayloadHead" where
  "dec_PayloadHead bs =
     \<lparr> ph_flag = take 2 bs, ph_reserve = take 2 (drop 2 bs), protocolVer = bs ! 4,
       headSize = word_of_nat (be_dec (take 2 (drop 5 bs))),
       dataSize = word_of_nat (be_dec (take 4 (drop 7 bs))) \<rparr>"

definition build_protect :: "u32 \<Rightarrow> u16 \<Rightarrow> bytes \<Rightarrow> PayloadProtect" where
  "build_protect channelId command data =
     \<lparr> pp_channelId = channelId, commandFlag = ucast command,
       checkSum = (if ENABLE_IO_CHECKSUM \<and> data \<noteq> [] then CalcCheckSum data else 0),
       vCode = payloadProtectStaticVcode \<rparr>"

definition build_head :: "bytes \<Rightarrow> bytes \<Rightarrow> PayloadHead" where
  "build_head s data =
     \<lparr> ph_flag = bytes_of PACKET_FLAG, ph_reserve = [0, 0], protocolVer = VER_PROTOCOL,
       headSize = word_of_nat (length s), dataSize = word_of_nat (length data) \<rparr>"

text \<open>The bytes \<open>Send\<close> hands to \<open>SendByProtocol\<close>.\<close>

definition build_packet :: "u32 \<Rightarrow> u16 \<Rightarrow> bytes \<Rightarrow> bytes" where
  "build_packet channelId command data =
     (let s = bytes_of (SerializeToString Descriptor_PayloadProtect
                (build_protect channelId command data))
      in enc_PayloadHead (build_head s data) @ s @ data)"

section \<open>Receiving\<close>

text \<open>
  The receiver is parametrised by the instance: its \<open>FetchCommand\<close>, which gets the channel,
  the command, the data and the size argument, and whether the session is dead afterwards. A
  read outside the receive buffer is an outcome of its own, and so is a parser that does not
  return.
\<close>

datatype 'a outcome = Done 'a | OutOfBounds | Diverges

record 's receiver =
  fetchCommand :: "u32 \<Rightarrow> u16 \<Rightarrow> bytes \<Rightarrow> int \<Rightarrow> 's \<Rightarrow> bool \<times> 's"
  sessionDead :: "'s \<Rightarrow> bool"

text \<open>
  \<open>encBuf\<close> is what the receive buffer holds from the end of the head on, up to the end of the
  allocation. The data size is an \<open>int\<close>; \<open>FetchCommand\<close> is given the bytes it names.
\<close>

definition DecryptPayload ::
  "'s receiver \<Rightarrow> PayloadHead \<Rightarrow> bytes \<Rightarrow> 's \<Rightarrow> (int \<times> 's) outcome" where
  "DecryptPayload E h encBuf st =
     (let hsize = unat (headSize h); dsize = sint (dataSize h) in
      if length encBuf < hsize then OutOfBounds
      else case ParseFromString Descriptor_PayloadProtect
             \<lparr> pp_channelId = 0, commandFlag = 0, checkSum = 0, vCode = 0 \<rparr>
             (chars_of (take hsize encBuf)) of
        None \<Rightarrow> Diverges
      | Some (_, p) \<Rightarrow>
          let data = take (nat dsize) (drop hsize encBuf) in
          if vCode p \<noteq> payloadProtectStaticVcode then Done (err ERR_BUF_CHECK, st)
          else if ENABLE_IO_CHECKSUM \<and> checkSum p \<noteq> 0 \<and> checkSum p \<noteq> CalcCheckSum data
          then Done (err ERR_BUF_CHECK, st)
          else case fetchCommand E (pp_channelId p) (ucast (commandFlag p)) data dsize st of
            (ok, st') \<Rightarrow> Done (if ok then err RET_SUCCESS else err ERR_GENERIC, st'))"

text \<open>
  \<open>tobeReadLen\<close> is computed in 32-bit unsigned arithmetic and then read as an \<open>int\<close>. The
  result is the number of bytes the packet took, 0 if it is not complete, or an error.
\<close>

definition OnRead :: "'s receiver \<Rightarrow> bytes \<Rightarrow> int \<Rightarrow> 's \<Rightarrow> (int \<times> 's) outcome" where
  "OnRead E bufPtr bufLen st =
     (if length bufPtr < sizeof_PayloadHead then OutOfBounds
      else if take 2 bufPtr \<noteq> bytes_of PACKET_FLAG then Done (err ERR_BUF_CHECK, st)
      else let h = dec_PayloadHead bufPtr;
               tobeReadLen = sint (dataSize h + ucast (headSize h) :: u32)
        in if tobeReadLen \<le> 0 then Done (err ERR_BUF_CHECK, st)
           else if bufLen - int sizeof_PayloadHead < tobeReadLen then Done (0, st)
           else case DecryptPayload E h (drop sizeof_PayloadHead bufPtr) st of
               Done (ret, st') \<Rightarrow>
                 Done (if ret \<noteq> 0 then err ERR_BUF_CHECK
                       else int sizeof_PayloadHead + tobeReadLen, st')
             | OutOfBounds \<Rightarrow> OutOfBounds
             | Diverges \<Rightarrow> Diverges)"

text \<open>The loop of \<open>FetchIOBuf\<close>: the bytes left, the index reached and the instance's state.\<close>

function fetch_loop :: "'s receiver \<Rightarrow> bytes \<Rightarrow> int \<Rightarrow> int \<Rightarrow> 's \<Rightarrow> (int \<times> int \<times> 's) outcome" where
  "fetch_loop E ioBuf avail indexBuf st =
     (if \<not> sessionDead E st \<and> int sizeof_PayloadHead < avail then
        case OnRead E (drop (nat indexBuf) ioBuf) avail st of
          Done (childRet, st') \<Rightarrow>
            if 0 < childRet then fetch_loop E ioBuf (avail - childRet) (indexBuf + childRet) st'
            else if childRet = 0 then Done (avail, indexBuf, st')
            else Done (0, err ERR_BUF_SIZE, st')
        | OutOfBounds \<Rightarrow> OutOfBounds
        | Diverges \<Rightarrow> Diverges
      else Done (avail, indexBuf, st))"
  by pat_completeness auto

termination
  by (relation "measure (\<lambda>(E, ioBuf, avail, indexBuf, st). nat avail)")
     (auto simp: sizeof_PayloadHead_def)

declare fetch_loop.simps [simp del]

record io_state =
  ioBuf :: bytes
  availTailIndex :: nat

text \<open>
  The buffer always has the size \<open>ReallocBuf\<close> gave it; unread bytes are moved to the front
  and the rest is zeroed.
\<close>

definition compact :: "bytes \<Rightarrow> nat \<Rightarrow> nat \<Rightarrow> bytes" where
  "compact io idx avail = take avail (drop idx io) @ replicate (length io - avail) 0"

definition FetchIOBuf ::
  "'s receiver \<Rightarrow> io_state \<Rightarrow> int \<Rightarrow> 's \<Rightarrow> (int \<times> io_state \<times> 's) outcome" where
  "FetchIOBuf E io nread st =
     (if nread < 0 then Done (err ERR_IO_FAIL, io, st)
      else case fetch_loop E (ioBuf io) (int (availTailIndex io) + nread) 0 st of
          Done (avail, idx, st') \<Rightarrow>
            let io' = io\<lparr>availTailIndex := nat avail\<rparr> in
            if 0 < idx \<and> 0 < avail then
              if length (ioBuf io) < nat avail then Done (err ERR_BUF_COPY, io', st')
              else Done (idx, io'\<lparr>ioBuf := compact (ioBuf io) (nat idx) (nat avail)\<rparr>, st')
            else Done (idx, io', st')
        | OutOfBounds \<Rightarrow> OutOfBounds
        | Diverges \<Rightarrow> Diverges)"

text \<open>
  \<open>AllocCallback\<close> offers the free tail of the buffer, at most what is asked for; the event
  loop puts the received bytes there and calls the read callback.
\<close>

definition AllocCallback :: "io_state \<Rightarrow> nat \<Rightarrow> nat" where
  "AllocCallback io sizeWanted = min (length (ioBuf io) - availTailIndex io) sizeWanted"

definition put_bytes :: "io_state \<Rightarrow> bytes \<Rightarrow> io_state" where
  "put_bytes io bs = io\<lparr>ioBuf := take (availTailIndex io) (ioBuf io) @ bs
     @ drop (availTailIndex io + length bs) (ioBuf io)\<rparr>"

definition read_chunk :: "'s receiver \<Rightarrow> bytes \<Rightarrow> io_state \<times> 's \<Rightarrow> (int \<times> io_state \<times> 's) outcome" where
  "read_chunk E bs s = FetchIOBuf E (put_bytes (fst s) bs) (int (length bs)) (snd s)"

text \<open>
  The event loop: each round asks for some number of bytes, and moves that many (or what is
  there, or what the buffer has room for) from the socket's stream to the read callback.
\<close>

fun pump :: "'s receiver \<Rightarrow> nat list \<Rightarrow> bytes \<Rightarrow> io_state \<times> 's \<Rightarrow> (bytes \<times> io_state \<times> 's) outcome" where
  "pump E [] bs s = Done (bs, s)"
| "pump E (w # ws) bs s =
     (let c = take (AllocCallback (fst s) w) bs in
      case read_chunk E c s of
        Done (ret, s') \<Rightarrow> pump E ws (drop (length c) bs) s'
      | OutOfBounds \<Rightarrow> OutOfBounds
      | Diverges \<Rightarrow> Diverges)"

definition new_io :: io_state where
  "new_io = \<lparr> ioBuf = replicate HDC_SOCKETPAIR_SIZE 0, availTailIndex = 0 \<rparr>"

section \<open>One packet\<close>

definition protect_bytes :: "u32 \<Rightarrow> u16 \<Rightarrow> bytes \<Rightarrow> bytes" where
  "protect_bytes channelId command data = WriteMessage Descriptor_PayloadProtect
     (build_protect channelId command data)"

lemma protect_bytes_string:
  "bytes_of (SerializeToString Descriptor_PayloadProtect (build_protect ch c data)) =
     protect_bytes ch c data"
  by (simp add: SerializeToString_def protect_bytes_def)

lemma length_protect_bytes: "length (protect_bytes ch c data) \<le> 40"
proof -
  note b = length_WriteVarint_u32
  have 1: "length (field_write (u32_field tag g u) m) \<le> 10" for tag g u and m :: PayloadProtect
    using b [of "MakeTagWireType tag VARINT"] b [of "g m"]
    by (simp add: FieldImpl_def Serializer_uint32_def scalar_def WriteTagWriteType_def)
  have 2: "length (field_write (u8_field tag g u) m) \<le> 10" for tag g u and m :: PayloadProtect
    using b [of "MakeTagWireType tag VARINT"] b [of "ucast (g m)"]
    by (simp add: FieldImpl_def Serializer_uint8_def through_def scalar_def WriteTagWriteType_def)
  show ?thesis
    using 1 [of 1 pp_channelId pp_channelId_update "build_protect ch c data"]
      1 [of 2 commandFlag commandFlag_update "build_protect ch c data"]
      2 [of 3 checkSum checkSum_update "build_protect ch c data"]
      2 [of 4 vCode vCode_update "build_protect ch c data"]
    by (simp add: protect_bytes_def WriteMessage_def Descriptor_PayloadProtect_def)
qed

lemma dec_enc_PayloadHead:
  assumes "length (ph_flag h) = 2" and "length (ph_reserve h) = 2"
  shows "dec_PayloadHead (enc_PayloadHead h @ rest) = h"
  using assms
  by (cases h) (simp add: dec_PayloadHead_def enc_PayloadHead_def nth_append wire_simps)

lemma length_enc_PayloadHead:
  "length (ph_flag h) = 2 \<Longrightarrow> length (ph_reserve h) = 2 \<Longrightarrow>
     length (enc_PayloadHead h) = sizeof_PayloadHead"
  by (simp add: enc_PayloadHead_def sizeof_PayloadHead_def)

definition head_of :: "u32 \<Rightarrow> u16 \<Rightarrow> bytes \<Rightarrow> PayloadHead" where
  "head_of ch c data = build_head (protect_bytes ch c data) data"

lemma head_of_lengths [simp]:
  "length (ph_flag (head_of ch c data)) = 2" "length (ph_reserve (head_of ch c data)) = 2"
  by (simp_all add: head_of_def build_head_def PACKET_FLAG_def)

lemma build_packet_eq:
  "build_packet ch c data = enc_PayloadHead (head_of ch c data) @ protect_bytes ch c data @ data"
  by (simp add: build_packet_def protect_bytes_string head_of_def Let_def)

lemma length_build_packet:
  "length (build_packet ch c data) = sizeof_PayloadHead + length (protect_bytes ch c data) + length data"
  by (simp add: build_packet_eq length_enc_PayloadHead)

lemma unat_headSize [simp]: "unat (headSize (head_of ch c data)) = length (protect_bytes ch c data)"
  using length_protect_bytes [of ch c data] by (simp add: head_of_def build_head_def unat_of_nat)

lemma protect_bytes_nonempty: "protect_bytes ch c data \<noteq> []"
  by (simp add: protect_bytes_def WriteMessage_def Descriptor_PayloadProtect_def FieldImpl_def
      Serializer_uint32_def scalar_def WriteTagWriteType_def WriteVarint_u32_nonempty)

lemma sint_small: "unat (v :: u32) < 2 ^ 31 \<Longrightarrow> sint v = int (unat v)"
proof -
  assume "unat v < 2 ^ 31"
  then have "int (unat v) < int (2 ^ 31)" by (simp only: of_nat_less_iff)
  then have "int (unat v) < 2 ^ 31" by (simp only: of_nat_power of_nat_numeral)
  then have "uint v < 2 ^ 31" by (simp only: uint_nat)
  moreover have "- (2 ^ 31) \<le> uint v" by (rule order_trans [OF _ uint_nonnegative]) simp
  ultimately have "signed_take_bit 31 (uint v) = uint v"
    by (intro signed_take_bit_int_eq_self)
  then show ?thesis by (simp only: sint_uint uint_nat) simp
qed

lemma sizes_of_head:
  assumes "length data + 40 < 2 ^ 31"
  shows "sint (dataSize (head_of ch c data)) = int (length data)"
    and "sint (dataSize (head_of ch c data) + ucast (headSize (head_of ch c data)) :: u32) =
      int (length (protect_bytes ch c data) + length data)"
proof -
  have d: "unat (dataSize (head_of ch c data)) = length data"
    using assms by (simp add: head_of_def build_head_def unat_of_nat)
  then show "sint (dataSize (head_of ch c data)) = int (length data)"
    using sint_small [of "dataSize (head_of ch c data)"] assms by simp
  have "unat (ucast (headSize (head_of ch c data)) :: u32) = length (protect_bytes ch c data)"
    using unat_headSize [of ch c data] unsigned_less [of "headSize (head_of ch c data)", where ?'a = nat]
    by (simp add: unsigned_ucast_eq take_bit_nat_eq_self del: unat_headSize)
  with d have u: "unat (dataSize (head_of ch c data) + ucast (headSize (head_of ch c data)) :: u32) =
      length (protect_bytes ch c data) + length data"
    using assms length_protect_bytes [of ch c data] by (simp add: unat_word_ariths)
  then show "sint (dataSize (head_of ch c data) + ucast (headSize (head_of ch c data)) :: u32) =
      int (length (protect_bytes ch c data) + length data)"
    using sint_small [of "dataSize (head_of ch c data) + ucast (headSize (head_of ch c data))"]
      assms length_protect_bytes [of ch c data] by simp
qed

lemma parse_protect:
  "ParseFromString Descriptor_PayloadProtect m0 (chars_of (protect_bytes ch c data)) =
     Some (True, build_protect ch c data)"
  using payload_protect_roundtrip_lib [of m0 "build_protect ch c data"]
  by (simp add: SerializeToString_def protect_bytes_def)

lemma ucast_command [simp]: "ucast (ucast (c :: u16) :: u32) = c"
  by (rule bit_word_eqI) (auto simp: bit_unsigned_iff)

lemma DecryptPayload_packet:
  assumes "length data + 40 < 2 ^ 31"
  shows "DecryptPayload E (head_of ch c data) (protect_bytes ch c data @ data @ rest) st =
    (case fetchCommand E ch c data (int (length data)) st of
       (ok, st') \<Rightarrow> Done (if ok then err RET_SUCCESS else err ERR_GENERIC, st'))"
  using assms
  by (simp add: DecryptPayload_def sizes_of_head parse_protect Let_def build_protect_def
      ENABLE_IO_CHECKSUM_def)

lemma packet_flag: "take 2 (enc_PayloadHead (head_of ch c data)) = bytes_of PACKET_FLAG"
  by (simp add: enc_PayloadHead_def head_of_def build_head_def PACKET_FLAG_def)

lemma OnRead_packet:
  assumes "length data + 40 < 2 ^ 31" and "int (length (build_packet ch c data)) \<le> bufLen"
  shows "OnRead E (build_packet ch c data @ rest) bufLen st =
    (case fetchCommand E ch c data (int (length data)) st of
       (ok, st') \<Rightarrow>
         Done (if ok then int (length (build_packet ch c data)) else err ERR_BUF_CHECK, st'))"
proof -
  have "0 < length (protect_bytes ch c data)" using protect_bytes_nonempty by simp
  then have "\<not> int (length (protect_bytes ch c data)) + int (length data) \<le> 0" by linarith
  then show ?thesis
    using assms
    by (simp add: OnRead_def build_packet_eq packet_flag dec_enc_PayloadHead sizes_of_head
        DecryptPayload_packet length_enc_PayloadHead Let_def sizeof_PayloadHead_def
        split: prod.splits)
qed

lemma OnRead_incomplete:
  assumes "length data + 40 < 2 ^ 31" and "sizeof_PayloadHead < n"
    and "n < length (build_packet ch c data)"
  shows "OnRead E (take n (build_packet ch c data) @ rest) (int n) st = Done (0, st)"
proof -
  let ?h = "enc_PayloadHead (head_of ch c data)"
  have l: "length ?h = sizeof_PayloadHead" by (simp add: length_enc_PayloadHead)
  then have t: "take n (build_packet ch c data) @ rest =
      ?h @ take (n - sizeof_PayloadHead) (protect_bytes ch c data @ data) @ rest"
    using assms(2) by (simp add: build_packet_eq)
  have "0 < length (protect_bytes ch c data)" using protect_bytes_nonempty by simp
  then have "\<not> int (length (protect_bytes ch c data)) + int (length data) \<le> 0" by linarith
  then show ?thesis
    using assms
    by (simp add: OnRead_def t packet_flag dec_enc_PayloadHead sizes_of_head l Let_def
        length_build_packet sizeof_PayloadHead_def)
qed

section \<open>A stream of packets\<close>

type_synonym packet = "u32 \<times> u16 \<times> bytes"

definition pkt_bytes :: "packet \<Rightarrow> bytes" where
  "pkt_bytes p = (case p of (ch, c, data) \<Rightarrow> build_packet ch c data)"

abbreviation stream_of :: "packet list \<Rightarrow> bytes" where
  "stream_of ps \<equiv> concat (map pkt_bytes ps)"

definition packet_ok :: "packet \<Rightarrow> bool" where
  "packet_ok p \<longleftrightarrow> length (snd (snd p)) + 40 < 2 ^ 31"

definition deliver :: "'s receiver \<Rightarrow> packet \<Rightarrow> 's \<Rightarrow> 's" where
  "deliver E p st = (case p of (ch, c, data) \<Rightarrow> snd (fetchCommand E ch c data (int (length data)) st))"

text \<open>An instance that accepts every command and stays alive.\<close>

definition accepting :: "'s receiver \<Rightarrow> bool" where
  "accepting E \<longleftrightarrow> (\<forall>st. \<not> sessionDead E st \<and> (\<forall>ch c data n. fst (fetchCommand E ch c data n st)))"

text \<open>What the loop has to achieve: all complete packets delivered, the rest kept.\<close>

definition consumed :: "'s receiver \<Rightarrow> packet list \<Rightarrow> bytes \<Rightarrow> bytes \<Rightarrow> 's
    \<Rightarrow> packet list \<Rightarrow> packet list \<Rightarrow> bytes \<Rightarrow> 's \<Rightarrow> bool" where
  "consumed E ps pend rest st qs rs pend' st' \<longleftrightarrow>
     ps = qs @ rs \<and> pend = stream_of qs @ pend' \<and> pend' @ rest = stream_of rs \<and>
     st' = fold (deliver E) qs st \<and> (\<forall>p ps'. rs = p # ps' \<longrightarrow> length pend' < length (pkt_bytes p))"

lemma pkt_bytes_pos: "12 \<le> length (pkt_bytes p)"
proof (cases p)
  case (fields ch c d)
  have "0 < length (protect_bytes ch c d)" using protect_bytes_nonempty by simp
  then have "12 \<le> 11 + length (protect_bytes ch c d) + length d" by linarith
  with fields show ?thesis
    by (simp only: pkt_bytes_def length_build_packet sizeof_PayloadHead_def prod.case)
qed

lemma pkt_bytes_nonempty [simp]: "pkt_bytes p \<noteq> []"
  using pkt_bytes_pos [of p] by auto

lemma OnRead_pkt:
  assumes "accepting E" and "packet_ok p" and "int (length (pkt_bytes p)) \<le> bufLen"
  shows "OnRead E (pkt_bytes p @ rest) bufLen st =
    Done (int (length (pkt_bytes p)), deliver E p st)"
proof (cases p)
  case (fields ch c d)
  obtain ok st' where f: "fetchCommand E ch c d (int (length d)) st = (ok, st')" by force
  then have "ok" using assms(1) by (metis accepting_def fst_conv)
  with f fields assms show ?thesis
    by (simp add: pkt_bytes_def deliver_def packet_ok_def OnRead_packet)
qed

lemma OnRead_pkt_prefix:
  assumes "packet_ok p" and "pend = take n (pkt_bytes p)" and "11 < n" and "n < length (pkt_bytes p)"
  shows "OnRead E (pend @ junk) (int (length pend)) st = Done (0, st)"
proof (cases p)
  case (fields ch c d)
  with assms have "n < length (build_packet ch c d)" "pend = take n (build_packet ch c d)"
    by (simp_all add: pkt_bytes_def)
  moreover from this have "length pend = n" by simp
  ultimately show ?thesis
    using OnRead_incomplete [of d n ch c E junk st] assms(1,3) fields
    by (simp add: packet_ok_def sizeof_PayloadHead_def)
qed

lemma fetch_loop_stream:
  assumes E: "accepting E"
  shows "\<forall>p \<in> set ps. packet_ok p \<Longrightarrow> drop idx io = pend @ junk \<Longrightarrow> pend @ rest = stream_of ps \<Longrightarrow>
    \<exists>qs rs pend' st'. consumed E ps pend rest st qs rs pend' st' \<and>
      fetch_loop E io (int (length pend)) (int idx) st =
        Done (int (length pend'), int (idx + length (stream_of qs)), st')"
proof (induction ps arbitrary: idx pend st)
  case Nil
  then have "pend = []" "rest = []" by simp_all
  then show ?case
    by (auto simp: consumed_def fetch_loop.simps [of E io 0] sizeof_PayloadHead_def
        intro!: exI [of _ "[]"])
next
  case (Cons p ps)
  have alive: "\<not> sessionDead E st" using E by (simp add: accepting_def)
  show ?case
  proof (cases "length pend < length (pkt_bytes p)")
    case True
    then have pend: "pend = take (length pend) (pkt_bytes p)"
      using Cons.prems(3) by (metis append_eq_append_conv_if concat.simps(2) list.simps(9)
          nat_less_le take_all_iff take_append append_take_drop_id append_eq_conv_conj
          diff_is_0_eq' order_less_imp_le self_append_conv take0)
    have "fetch_loop E io (int (length pend)) (int idx) st = Done (int (length pend), int idx, st)"
    proof (cases "11 < length pend")
      case True
      with OnRead_pkt_prefix [OF _ pend True \<open>length pend < length (pkt_bytes p)\<close>, of E junk st]
        Cons.prems alive show ?thesis
        by (simp add: fetch_loop.simps [of E io _ "int idx"] sizeof_PayloadHead_def)
    qed (simp add: fetch_loop.simps [of E io _ "int idx"] sizeof_PayloadHead_def)
    with True Cons.prems(3) show ?thesis
      by (intro exI [of _ "[]"] exI [of _ "p # ps"] exI [of _ pend] exI [of _ st])
         (simp add: consumed_def)
  next
    case False
    then have le: "length (pkt_bytes p) \<le> length pend" by simp
    have "take (length (pkt_bytes p)) pend = take (length (pkt_bytes p)) (pend @ rest)"
      using le by simp
    also have "\<dots> = pkt_bytes p" using Cons.prems(3) by simp
    finally obtain pend1 where pend1: "pend = pkt_bytes p @ pend1"
      by (metis append_take_drop_id)
    then have "pend1 @ rest = stream_of ps" using Cons.prems(3) by simp
    note pend1 = pend1 this
    have d: "drop (idx + length (pkt_bytes p)) io = pend1 @ junk"
      using Cons.prems(2) pend1(1) by (metis append.assoc append_eq_conv_conj drop_drop add.commute)
    obtain qs rs pend' st' where c: "consumed E ps pend1 rest (deliver E p st) qs rs pend' st'"
      and f: "fetch_loop E io (int (length pend1)) (int (idx + length (pkt_bytes p))) (deliver E p st) =
        Done (int (length pend'), int (idx + length (pkt_bytes p) + length (stream_of qs)), st')"
      using Cons.IH [OF _ d pend1(2), of "deliver E p st"] Cons.prems(1) by auto
    have o: "OnRead E (drop idx io) (int (length pend)) st =
        Done (int (length (pkt_bytes p)), deliver E p st)"
      using OnRead_pkt [OF E, of p "int (length pend)" "pend1 @ junk" st] Cons.prems(1,2) pend1(1)
      by simp
    have "fetch_loop E io (int (length pend)) (int idx) st =
        Done (int (length pend'), int (idx + length (stream_of (p # qs))), st')"
      unfolding fetch_loop.simps [of E io "int (length pend)" "int idx" st]
      using alive pkt_bytes_pos [of p] f o pend1(1)
      by (simp add: sizeof_PayloadHead_def add.assoc)
    with c pend1(1) show ?thesis
      by (intro exI [of _ "p # qs"] exI [of _ rs] exI [of _ pend'] exI [of _ st'])
         (simp add: consumed_def)
  qed
qed

definition io_holds :: "io_state \<Rightarrow> bytes \<Rightarrow> bool" where
  "io_holds io pend \<longleftrightarrow> availTailIndex io = length pend \<and> length pend \<le> length (ioBuf io) \<and>
     take (length pend) (ioBuf io) = pend"

lemma put_bytes_holds:
  assumes "io_holds io pend" and "length pend + length c \<le> length (ioBuf io)"
  shows "ioBuf (put_bytes io c) = (pend @ c) @ drop (length pend + length c) (ioBuf io)"
    and "length (ioBuf (put_bytes io c)) = length (ioBuf io)"
    and "availTailIndex (put_bytes io c) = length pend"
  using assms by (simp_all add: put_bytes_def io_holds_def)

lemma FetchIOBuf_stream:
  assumes E: "accepting E" and ok: "\<forall>p \<in> set ps. packet_ok p"
    and buf: "ioBuf io = pend @ junk" and tail: "availTailIndex io + n = length pend"
    and ps: "pend @ rest = stream_of ps"
  shows "\<exists>ret qs rs pend' io' st'. FetchIOBuf E io (int n) st = Done (ret, io', st') \<and> 0 \<le> ret \<and>
    consumed E ps pend rest st qs rs pend' st' \<and> io_holds io' pend' \<and>
    length (ioBuf io') = length (ioBuf io)"
proof -
  obtain qs rs pend' st' where c: "consumed E ps pend rest st qs rs pend' st'"
    and f: "fetch_loop E (ioBuf io) (int (length pend)) 0 st =
      Done (int (length pend'), int (length (stream_of qs)), st')"
    using fetch_loop_stream [OF E ok, of 0 "ioBuf io" pend junk rest st] buf ps by auto
  have p: "pend = stream_of qs @ pend'" using c by (simp add: consumed_def)
  have t: "int (availTailIndex io) + int n = int (length pend)" using tail by linarith
  define k where k: "k = length (stream_of qs)"
  let ?io = "io\<lparr>availTailIndex := length pend'\<rparr>"
  let ?io' = "if 0 < k \<and> 0 < length pend' then ?io\<lparr>ioBuf := compact (ioBuf io) k (length pend')\<rparr>
    else ?io"
  have le: "\<not> length (ioBuf io) < length pend'" and d: "drop k (ioBuf io) = pend' @ junk"
    and k0: "k = 0 \<Longrightarrow> ioBuf io = pend' @ junk"
    using buf p by (simp_all add: k del: length_concat)
  have "FetchIOBuf E io (int n) st = Done (int k, ?io', st')"
    unfolding FetchIOBuf_def t f k [symmetric] using le by (simp add: Let_def)
  moreover have "io_holds ?io' pend'"
    using le d k0 by (auto simp: io_holds_def compact_def)
  moreover have "length (ioBuf ?io') = length (ioBuf io)"
    using le d by (auto simp: compact_def)
  ultimately show ?thesis using c by (metis of_nat_0_le_iff)
qed

lemma read_chunk_stream:
  assumes "accepting E" and "\<forall>p \<in> set ps. packet_ok p" and "io_holds io pend"
    and "length pend + length c \<le> length (ioBuf io)" and "pend @ c @ rest = stream_of ps"
  shows "\<exists>ret qs rs pend' io' st'. read_chunk E c (io, st) = Done (ret, io', st') \<and> 0 \<le> ret \<and>
    consumed E ps (pend @ c) rest st qs rs pend' st' \<and> io_holds io' pend' \<and>
    length (ioBuf io') = length (ioBuf io)"
  using FetchIOBuf_stream [OF assms(1,2), of "put_bytes io c" "pend @ c"
      "drop (length pend + length c) (ioBuf io)" "length c" rest st]
    put_bytes_holds [OF assms(3,4)] assms(5)
  by (simp add: read_chunk_def)

definition fits_buffer :: "packet \<Rightarrow> bool" where
  "fits_buffer p \<longleftrightarrow> length (pkt_bytes p) \<le> HDC_SOCKETPAIR_SIZE"

lemma fits_packet_ok: "fits_buffer p \<Longrightarrow> packet_ok p"
  by (cases p) (simp add: fits_buffer_def packet_ok_def pkt_bytes_def length_build_packet
      HDC_SOCKETPAIR_SIZE_def)

lemma pump_stream:
  assumes E: "accepting E"
  shows "\<forall>p \<in> set ps. fits_buffer p \<Longrightarrow> io_holds io pend \<Longrightarrow>
    length (ioBuf io) = HDC_SOCKETPAIR_SIZE \<Longrightarrow> pend @ bs = stream_of ps \<Longrightarrow>
    \<forall>p ps'. ps = p # ps' \<longrightarrow> length pend < length (pkt_bytes p) \<Longrightarrow>
    \<forall>w \<in> set ws. 0 < w \<Longrightarrow> length bs \<le> length ws \<Longrightarrow>
    \<exists>io'. pump E ws bs (io, st) = Done ([], io', fold (deliver E) ps st) \<and> availTailIndex io' = 0"
proof (induction ws arbitrary: ps pend bs io st)
  case Nil
  then have "bs = []" by simp
  moreover have "ps = []"
  proof (cases ps)
    case (Cons p ps')
    with Nil.prems(4,5) \<open>bs = []\<close> show ?thesis by simp
  qed simp
  ultimately show ?case using Nil.prems by (simp add: io_holds_def)
next
  case (Cons w ws)
  let ?n = "AllocCallback io w"
  let ?c = "take ?n bs"
  have n: "length pend + length ?c \<le> length (ioBuf io)"
    using Cons.prems(2) by (auto simp: AllocCallback_def io_holds_def min_def)
  have ok: "\<forall>p \<in> set ps. packet_ok p" using Cons.prems(1) fits_packet_ok by blast
  have s: "pend @ ?c @ drop ?n bs = stream_of ps" using Cons.prems(4) by simp
  obtain ret qs rs pend' io' st' where r: "read_chunk E ?c (io, st) = Done (ret, io', st')"
    and c: "consumed E ps (pend @ ?c) (drop ?n bs) st qs rs pend' st'"
    and h: "io_holds io' pend'" "length (ioBuf io') = length (ioBuf io)"
    using read_chunk_stream [OF E ok Cons.prems(2) n s] by metis
  have room: "bs = [] \<or> 0 < length ?c"
  proof (cases ps)
    case Nil
    with Cons.prems(4) show ?thesis by simp
  next
    case ps: (Cons p ps')
    then have "length pend < HDC_SOCKETPAIR_SIZE"
      using Cons.prems(1,5) by (force simp: fits_buffer_def)
    then show ?thesis using Cons.prems(2,3,6) by (auto simp: AllocCallback_def io_holds_def)
  qed
  then have len: "length (drop (length ?c) bs) \<le> length ws" using Cons.prems(7) by auto
  have d: "drop (length ?c) bs = drop ?n bs" by (simp add: min_def)
  have rs: "\<forall>p \<in> set rs. fits_buffer p" using c Cons.prems(1) by (simp add: consumed_def)
  have "\<exists>io''. pump E ws (drop ?n bs) (io', st') = Done ([], io'', fold (deliver E) rs st') \<and>
      availTailIndex io'' = 0"
    using Cons.IH [OF rs h(1) h(2) [unfolded Cons.prems(3)], of "drop ?n bs" st'] c len d Cons.prems(6)
    by (simp add: consumed_def)
  then show ?case using r d c by (auto simp: consumed_def Let_def)
qed

section \<open>Properties\<close>

text \<open>
  C1. Framing is lossless whatever way the transport cuts the stream: if the peer sends any
  packets that fit the receive buffer, and the event loop asks for any positive numbers of
  bytes often enough, then every command reaches \<open>FetchCommand\<close> exactly once, in order, with
  its channel, command and data, no read leaves the buffer, and nothing is left over.
\<close>

theorem pump_delivers:
  assumes "accepting E" and "\<forall>p \<in> set ps. fits_buffer p" and "\<forall>w \<in> set ws. 0 < w"
    and "length (stream_of ps) \<le> length ws"
  shows "\<exists>io'. pump E ws (stream_of ps) (new_io, st) = Done ([], io', fold (deliver E) ps st) \<and>
    availTailIndex io' = 0"
  by (rule pump_stream [where pend = "[]"])
     (use assms in \<open>auto simp: new_io_def io_holds_def\<close>)

definition log_receiver :: "packet list receiver" where
  "log_receiver = \<lparr> fetchCommand = (\<lambda>ch c data n st. (True, st @ [(ch, c, data)])),
     sessionDead = (\<lambda>_. False) \<rparr>"

lemma log_receiver_accepting: "accepting log_receiver"
  by (simp add: accepting_def log_receiver_def)

lemma log_receiver_deliver: "deliver log_receiver p st = st @ [p]"
  by (cases p) (simp add: deliver_def log_receiver_def)

definition sample_packets :: "packet list" where
  "sample_packets = [(7, cmd CMD_SHELL_DATA, [1, 2, 3]), (7, cmd CMD_KERNEL_ECHO, [])]"

lemma sample_packets_fit: "\<forall>p \<in> set sample_packets. fits_buffer p"
  using length_protect_bytes [of 7 2001 "[1, 2, 3]"] length_protect_bytes [of 7 9 "[]"]
  by (simp add: sample_packets_def fits_buffer_def pkt_bytes_def length_build_packet
      sizeof_PayloadHead_def HDC_SOCKETPAIR_SIZE_def)

theorem pump_delivers_witness:
  "\<exists>io'. pump log_receiver (replicate (length (stream_of sample_packets)) 5)
      (stream_of sample_packets) (new_io, []) = Done ([], io', sample_packets) \<and>
      availTailIndex io' = 0"
proof -
  have "fold (deliver log_receiver) sample_packets [] = sample_packets"
    by (simp add: log_receiver_deliver sample_packets_def)
  with pump_delivers [OF log_receiver_accepting sample_packets_fit,
      of "replicate (length (stream_of sample_packets)) 5" "[]"]
  show ?thesis by simp
qed

lemma sint_large:
  assumes "\<not> unat (v :: u32) < 2 ^ 31"
  shows "sint v < 0"
proof -
  define x where "x = uint v"
  have "unat v = nat x" by (simp only: x_def unat_eq_nat_uint)
  then have k: "2 ^ 31 \<le> x" "x < 2 ^ 32"
    using assms unsigned_less [of v, where 'a = int] by (simp_all add: x_def [symmetric])
  have "x div 2 ^ 31 = 1" by (rule int_div_pos_eq [where r = "x - 2 ^ 31"]) (use k in simp_all)
  then have "bit x 31" by (simp add: bit_iff_odd)
  then have "sint v = take_bit 32 x - 2 ^ 32" by (simp add: sint_uint signed_take_bit_eq_take_bit_minus x_def)
  then show ?thesis using k by (simp add: take_bit_int_eq_self)
qed

text \<open>
  C18. The size check of \<open>OnRead\<close> adds the two sizes modulo \<open>2 ^ 32\<close>, so it guards every read of the
  buffer but one: with at least a head received, the read leaves the buffer exactly when the flag is
  right, the announced head is longer than what was received behind the packet head, and the sum of the
  two sizes wraps to a positive number that is not.
\<close>

theorem OnRead_size_check_wraps:
  assumes "sizeof_PayloadHead \<le> length b"
  shows "OnRead E b (int (length b)) st = OutOfBounds \<longleftrightarrow>
    take 2 b = bytes_of PACKET_FLAG
    \<and> (let h = unat (headSize (dec_PayloadHead b)); d = unat (dataSize (dec_PayloadHead b)) in
        length b - sizeof_PayloadHead < h \<and> 2 ^ 32 < d + h \<and> d + h - 2 ^ 32 \<le> length b - sizeof_PayloadHead)"
proof -
  let ?h = "dec_PayloadHead b" and ?n = "length b - sizeof_PayloadHead"
  define h d where "h = unat (headSize ?h)" and "d = unat (dataSize ?h)"
  have lt: "h < 2 ^ 16" "d < 2 ^ 32" 
    using unsigned_less [of "headSize ?h", where 'a = nat] unsigned_less [of "dataSize ?h", where 'a = nat] by (simp_all add: h_def d_def)
  let ?t = "sint (dataSize ?h + ucast (headSize ?h) :: u32)"
  have w: "dataSize ?h + ucast (headSize ?h) = (word_of_nat (d + h) :: u32)"
    by (simp add: h_def d_def)
  have u: "unat (word_of_nat (d + h) :: u32) = (d + h) mod 2 ^ 32" by (simp only: unat_of_nat) (simp add: take_bit_nat_eq_self)
  have t: "?t = int ((d + h) mod 2 ^ 32)" if "(d + h) mod 2 ^ 32 < 2 ^ 31"
    using sint_small [of "word_of_nat (d + h)"] that unfolding w u by blast
  have t': "?t < 0" if "\<not> (d + h) mod 2 ^ 32 < 2 ^ 31"
    using sint_large [of "word_of_nat (d + h)"] that unfolding w u by blast
  have oob: "OnRead E b (int (length b)) st = OutOfBounds \<longleftrightarrow>
      take 2 b = bytes_of PACKET_FLAG \<and> 0 < ?t \<and> ?t \<le> int ?n \<and> ?n < h"
    using assms by (auto simp: OnRead_def DecryptPayload_def Let_def h_def split: option.splits outcome.splits prod.splits)
  have "0 < ?t \<and> ?t \<le> int ?n \<and> ?n < h \<longleftrightarrow> ?n < h \<and> 2 ^ 32 < d + h \<and> d + h - 2 ^ 32 \<le> ?n"
  proof (cases "d + h < 2 ^ 32")
    case True
    then have m: "(d + h) mod 2 ^ 32 = d + h" by simp
    show ?thesis
    proof (cases "d + h < 2 ^ 31")
      case True
      then show ?thesis using t m \<open>d + h < 2 ^ 32\<close> by simp
    next
      case False
      then show ?thesis using t' m \<open>d + h < 2 ^ 32\<close> by simp
    qed
  next
    case False
    then have m: "(d + h) mod 2 ^ 32 = d + h - 2 ^ 32" using lt by (simp add: mod_if)
    moreover have "d + h - 2 ^ 32 < 2 ^ 31" using lt by simp
    ultimately have "?t = int (d + h - 2 ^ 32)" using t by simp
    then show ?thesis using lt False by auto
  qed
  then show ?thesis using oob by (simp add: h_def d_def Let_def)
qed

definition wrapping_packet :: bytes where
  "wrapping_packet = bytes_of PACKET_FLAG @ [0, 0, VER_PROTOCOL] @ be_enc 2 65535
     @ be_enc 4 (2 ^ 32 - 65534) @ [0]"

theorem OnRead_size_check_wraps_witness:
  "length wrapping_packet = 12 \<and> OnRead log_receiver wrapping_packet 12 [] = OutOfBounds"
proof -
  have l: "length wrapping_packet = 12" by (simp add: wrapping_packet_def PACKET_FLAG_def)
  have h: "dec_PayloadHead wrapping_packet = \<lparr> ph_flag = bytes_of PACKET_FLAG, ph_reserve = [0, 0],
      protocolVer = VER_PROTOCOL, headSize = 65535, dataSize = 0xFFFF0002 \<rparr>"
    by (simp add: dec_PayloadHead_def wrapping_packet_def PACKET_FLAG_def be_dec_enc nth_append)
  have "take 2 wrapping_packet = bytes_of PACKET_FLAG" by (simp add: wrapping_packet_def PACKET_FLAG_def)
  then show ?thesis using OnRead_size_check_wraps [of wrapping_packet log_receiver "[]"] l
    by (simp add: h sizeof_PayloadHead_def)
qed

end
