(* ===== verification/Hdc_Map.thy ===== *)
theory Hdc_Map
  imports Hdc_Prelude
begin

text \<open>
  \<open>std::map\<close>: an association list in key order, since the sources iterate over their maps.
  The contract its clients rely on is a locale over the four operations they call; every
  registry of the program (sessions, tasks, channels, contexts) is an instance.
\<close>

section \<open>The contract of a keyed registry\<close>

locale key_map =
  fixes empty :: "'m"
    and put :: "'k \<Rightarrow> 'v \<Rightarrow> 'm \<Rightarrow> 'm"
    and erase :: "'k \<Rightarrow> 'm \<Rightarrow> 'm"
    and get :: "'m \<Rightarrow> 'k \<Rightarrow> 'v option"
    and wf :: "'m \<Rightarrow> bool"
  assumes get_empty: "get empty k = None"
    and get_put: "wf m \<Longrightarrow> get (put k v m) = (get m)(k := Some v)"
    and get_erase: "wf m \<Longrightarrow> get (erase k m) = (get m)(k := None)"
    and wf_empty: "wf empty"
    and wf_put: "wf m \<Longrightarrow> wf (put k v m)"
    and wf_erase: "wf m \<Longrightarrow> wf (erase k m)"
begin

lemma get_put_same: "wf m \<Longrightarrow> get (put k v m) k = Some v"
  by (simp add: get_put)

lemma get_put_other: "wf m \<Longrightarrow> j \<noteq> k \<Longrightarrow> get (put k v m) j = get m j"
  by (simp add: get_put)

lemma get_erase_same: "wf m \<Longrightarrow> get (erase k m) k = None"
  by (simp add: get_erase)

lemma get_erase_other: "wf m \<Longrightarrow> j \<noteq> k \<Longrightarrow> get (erase k m) j = get m j"
  by (simp add: get_erase)

text \<open>Moving an entry to another key, as \<open>OP_UPDATE\<close> does.\<close>

lemma get_rekey: "wf m \<Longrightarrow> get (put k v (erase j m)) = (get m)(j := None, k := Some v)"
  by (simp add: get_put get_erase wf_erase)

lemma wf_rekey: "wf m \<Longrightarrow> wf (put k v (erase j m))"
  by (intro wf_put wf_erase)

end

section \<open>std::map\<close>

type_synonym ('k, 'v) std_map = "('k \<times> 'v) list"

fun mp_put :: "'k::linorder \<Rightarrow> 'v \<Rightarrow> ('k, 'v) std_map \<Rightarrow> ('k, 'v) std_map" where
  "mp_put k v [] = [(k, v)]"
| "mp_put k v ((a, b) # m) =
     (if k < a then (k, v) # (a, b) # m
      else if k = a then (k, v) # m
      else (a, b) # mp_put k v m)"

definition mp_erase :: "'k \<Rightarrow> ('k, 'v) std_map \<Rightarrow> ('k, 'v) std_map" where
  "mp_erase k m = filter (\<lambda>e. fst e \<noteq> k) m"

definition mp_wf :: "('k::linorder, 'v) std_map \<Rightarrow> bool" where
  "mp_wf m \<longleftrightarrow> sorted_wrt (<) (map fst m)"

lemma set_mp_put: "fst ` set (mp_put k v m) = insert k (fst ` set m)"
  by (induction k v m rule: mp_put.induct) auto

lemma mp_wf_Cons: "mp_wf (e # m) \<longleftrightarrow> (\<forall>k \<in> fst ` set m. fst e < k) \<and> mp_wf m"
  by (auto simp: mp_wf_def)

lemma mp_wf_Nil: "mp_wf []"
  by (simp add: mp_wf_def)

lemma mp_wf_put: "mp_wf m \<Longrightarrow> mp_wf (mp_put k v m)"
proof (induction k v m rule: mp_put.induct)
  case (1 k v)
  then show ?case by (simp add: mp_wf_def)
next
  case (2 k v a b m)
  then have a: "\<forall>j \<in> fst ` set m. a < j" and m: "mp_wf m" by (simp_all add: mp_wf_Cons)
  show ?case
  proof (cases "k < a \<or> k = a")
    case True
    then show ?thesis using a m by (auto simp: mp_wf_Cons)
  next
    case False
    then have "mp_wf (mp_put k v m)" "a < k" using 2 m by auto
    then show ?thesis using a False by (auto simp: mp_wf_Cons set_mp_put)
  qed
qed

lemma map_of_mp_put: "mp_wf m \<Longrightarrow> map_of (mp_put k v m) = (map_of m)(k := Some v)"
  by (induction k v m rule: mp_put.induct) (auto simp: fun_eq_iff mp_wf_Cons)

lemma map_of_mp_erase: "map_of (mp_erase k m) = (map_of m)(k := None)"
  by (induction m) (auto simp: mp_erase_def fun_eq_iff)

lemma mp_wf_erase: "mp_wf m \<Longrightarrow> mp_wf (mp_erase k m)"
  by (induction m) (auto simp: mp_erase_def mp_wf_Cons)

interpretation smap: key_map "[]" mp_put mp_erase map_of mp_wf
  by unfold_locales (simp_all add: map_of_mp_put map_of_mp_erase mp_wf_Nil mp_wf_put mp_wf_erase)

text \<open>The number of entries.\<close>

lemma mp_wf_distinct: "mp_wf m \<Longrightarrow> distinct (map fst m)"
  unfolding mp_wf_def by (induction m) auto

lemma length_mp_put:
  "mp_wf m \<Longrightarrow> length (mp_put k v m) = (if map_of m k = None then Suc (length m) else length m)"
proof (induction k v m rule: mp_put.induct)
  case (2 k v a b m)
  then show ?case by (force simp: mp_wf_Cons map_of_eq_None_iff)
qed simp

lemma length_mp_erase:
  "mp_wf m \<Longrightarrow> length (mp_erase k m) = (if map_of m k = None then length m else length m - 1)"
proof (induction m)
  case (Cons e m)
  show ?case
  proof (cases "fst e = k")
    case True
    then have "\<forall>e' \<in> set m. fst e' \<noteq> k" using Cons.prems by (auto simp: mp_wf_Cons)
    then have "filter (\<lambda>e. fst e \<noteq> k) m = m" by (simp add: filter_id_conv)
    with True show ?thesis by (cases e) (simp add: mp_erase_def)
  next
    case False
    then have g: "map_of (e # m) k = map_of m k" by (cases e) auto
    have "0 < length m" if "map_of m k \<noteq> None" using that by (cases m) auto
    with False g Cons show ?thesis by (auto simp: mp_erase_def mp_wf_Cons)
  qed
qed (simp add: mp_erase_def)

lemma mp_map_of_values: "map_of (map (\<lambda>(k, v). (k, f k v)) m) k = map_option (f k) (map_of m k)"
  by (induction m) auto

lemma mp_wf_values: "mp_wf (map (\<lambda>(k, v). (k, f k v)) m) \<longleftrightarrow> mp_wf m"
  by (simp add: mp_wf_def comp_def case_prod_unfold)

end
