(* ===== verification/Hdc_Session.thy ===== *)
theory Hdc_Session
  imports Hdc_Packet Hdc_Map
begin

text \<open>
  The registries of src/src/common/session.cpp and the dispatch of a command to a task: the
  session map (\<open>AdminSession\<close>), each session's task map (\<open>AdminTask\<close>), the decision whether a
  command starts a task (\<open>NeedNewTaskInfo\<close>), \<open>DispatchTaskData\<close>, and the removal of tasks.
\<close>

section \<open>Tasks and sessions\<close>

record TaskInformation =
  ti_taskType :: u8
  ti_sessionId :: u32
  ti_channelId :: u32
  hasInitial :: bool
  taskStop :: bool
  taskFree :: bool
  ti_serverOrDaemon :: bool
  masterSlave :: bool
  closeRetryCount :: nat

type_synonym task_map = "(u32, TaskInformation) std_map"

record HdcSession =
  s_serverOrDaemon :: bool
  handshakeOK :: bool
  isDead :: bool
  voteReset :: bool
  s_connectKey :: string
  connType :: ConnType
  s_sessionId :: u32
  ref :: nat
  uvHandleRef :: nat
  uvChildRef :: nat
  childCleared :: bool
  mapTask :: task_map
  has_hUSB :: bool
  has_hUART :: bool

record SessionBase =
  serverOrDaemon :: bool
  threadPoolCount :: nat
  mapSession :: "(u32, HdcSession) std_map"
  sessionRef :: nat

text \<open>The constructor clamps the size of the thread pool.\<close>

definition pool_size :: "nat \<Rightarrow> nat" where
  "pool_size uvThreadSize =
     (if uvThreadSize < SIZE_THREAD_POOL_MIN then SIZE_THREAD_POOL_MIN
      else if SIZE_THREAD_POOL_MAX < uvThreadSize then SIZE_THREAD_POOL_MAX
      else uvThreadSize)"

definition new_SessionBase :: "bool \<Rightarrow> nat \<Rightarrow> SessionBase" where
  "new_SessionBase sod uvThreadSize =
     \<lparr> serverOrDaemon = sod, threadPoolCount = pool_size uvThreadSize,
       mapSession = [], sessionRef = 0 \<rparr>"

section \<open>AdminSession\<close>

text \<open>
  The operation with the argument it uses. The result is the session the call returns (none
  for \<open>nullptr\<close>) and the new state; \<open>None\<close> stands for \<open>abort()\<close>.
\<close>

datatype session_op =
    S_ADD HdcSession | S_REMOVE | S_QUERY | S_QUERY_REF | S_UPDATE HdcSession | S_VOTE_RESET

definition need_reset :: "bool \<Rightarrow> u32 \<Rightarrow> (u32, HdcSession) std_map \<Rightarrow> bool" where
  "need_reset sod sid m \<longleftrightarrow>
     \<not> sod \<or> list_all (\<lambda>(k, s). k = sid \<or> voteReset s) m"

fun AdminSession ::
  "session_op \<Rightarrow> u32 \<Rightarrow> SessionBase \<Rightarrow> (HdcSession option \<times> SessionBase) option" where
  "AdminSession (S_ADD h) sid b = Some (None, b\<lparr>mapSession := mp_put sid h (mapSession b)\<rparr>)"
| "AdminSession S_REMOVE sid b = Some (None, b\<lparr>mapSession := mp_erase sid (mapSession b)\<rparr>)"
| "AdminSession S_QUERY sid b = Some (map_of (mapSession b) sid, b)"
| "AdminSession S_QUERY_REF sid b = Some (case map_of (mapSession b) sid of
     None \<Rightarrow> (None, b)
   | Some s \<Rightarrow> let s' = s\<lparr>ref := Suc (ref s)\<rparr>
       in (Some s', b\<lparr>mapSession := mp_put sid s' (mapSession b)\<rparr>))"
| "AdminSession (S_UPDATE h) sid b =
     Some (None, b\<lparr>mapSession := mp_put (s_sessionId h) h (mp_erase sid (mapSession b))\<rparr>)"
| "AdminSession S_VOTE_RESET sid b = (case map_of (mapSession b) sid of
     None \<Rightarrow> Some (None, b)
   | Some s \<Rightarrow>
       if serverOrDaemon b then
         let s' = s\<lparr>voteReset := True\<rparr>; m = mp_put sid s' (mapSession b)
         in if need_reset True sid m then None else Some (Some s', b\<lparr>mapSession := m\<rparr>)
       else None)"

text \<open>
  \<open>GetSessionPseudoUid\<close> draws until it finds a number no session has. The random source is a
  parameter, the sequence of its results.
\<close>

partial_function (option) GetSessionPseudoUid :: "(nat \<Rightarrow> u32) \<Rightarrow> nat \<Rightarrow> SessionBase \<Rightarrow> u32 option" where
  "GetSessionPseudoUid rnd i b =
     (if map_of (mapSession b) (rnd i) = None then Some (rnd i)
      else GetSessionPseudoUid rnd (Suc i) b)"

text \<open>\<open>MallocSessionByConnectType\<close> fails for a connection type it has no transport for.\<close>

definition MallocSessionByConnectType :: "HdcSession \<Rightarrow> HdcSession option" where
  "MallocSessionByConnectType s = (case connType s of
     CONN_TCP \<Rightarrow> Some (s\<lparr>uvHandleRef := Suc (uvHandleRef s)\<rparr>)
   | CONN_USB \<Rightarrow> Some (s\<lparr>has_hUSB := True\<rparr>)
   | CONN_SERIAL \<Rightarrow> Some (s\<lparr>has_hUART := True\<rparr>)
   | CONN_BT \<Rightarrow> None)"

definition new_HdcSession :: "bool \<Rightarrow> ConnType \<Rightarrow> u32 \<Rightarrow> HdcSession" where
  "new_HdcSession sod ct sid =
     \<lparr> s_serverOrDaemon = sod, handshakeOK = False, isDead = False, voteReset = False,
       s_connectKey = [], connType = ct, s_sessionId = sid, ref = 0, uvHandleRef = 0,
       uvChildRef = 0, childCleared = False, mapTask = [], has_hUSB = False, has_hUART = False \<rparr>"

text \<open>
  \<open>MallocSession\<close>: the session counter goes up first; the control and the data pipe are two
  handles, and TCP adds a third. \<open>None\<close> in the first component is \<open>nullptr\<close>.
\<close>

definition MallocSession ::
  "bool \<Rightarrow> ConnType \<Rightarrow> u32 \<Rightarrow> (nat \<Rightarrow> u32) \<Rightarrow> SessionBase \<Rightarrow> (HdcSession option \<times> SessionBase) option" where
  "MallocSession sod ct sid rnd b =
     (let b1 = b\<lparr>sessionRef := Suc (sessionRef b)\<rparr> in
      Option.bind (if sid = 0 then GetSessionPseudoUid rnd 0 b1 else Some sid) (\<lambda>uid.
        let s = (new_HdcSession sod ct uid)\<lparr>uvHandleRef := 2\<rparr> in
        case MallocSessionByConnectType s of
          None \<Rightarrow> Some (None, b1)
        | Some s' \<Rightarrow> Some (Some s', b1\<lparr>mapSession := mp_put uid s' (mapSession b1)\<rparr>)))"

section \<open>AdminTask\<close>

datatype task_op = T_ADD TaskInformation | T_REMOVE | T_QUERY

text \<open>
  \<open>host\<close> is the build (\<open>HDC_HOST\<close>): only the daemon limits the number of tasks, to the size
  of the thread pool less the two threads it keeps.
\<close>

fun AdminTask ::
  "bool \<Rightarrow> nat \<Rightarrow> task_op \<Rightarrow> u32 \<Rightarrow> task_map \<Rightarrow> TaskInformation option \<times> task_map" where
  "AdminTask host pool (T_ADD h) ch m =
     (if \<not> host \<and> pool - 2 \<le> length m then (None, m) else (Some h, mp_put ch h m))"
| "AdminTask host pool T_REMOVE ch m = (None, mp_erase ch m)"
| "AdminTask host pool T_QUERY ch m = (map_of m ch, m)"

section \<open>Dispatching a command\<close>

definition task_master_init :: "u16 \<Rightarrow> bool" where
  "task_master_init c \<longleftrightarrow> c \<in> set (map cmd [CMD_FILE_INIT, CMD_FORWARD_INIT, CMD_APP_INIT,
     CMD_APP_UNINSTALL, CMD_UNITY_BUGREPORT_INIT, CMD_APP_SIDELOAD])"

text \<open>The two results: whether a new task is needed, and whether it is the master.\<close>

definition NeedNewTaskInfo :: "bool \<Rightarrow> u16 \<Rightarrow> bool \<times> bool" where
  "NeedNewTaskInfo sod c =
     (if \<not> sod \<and> (c = cmd CMD_SHELL_INIT
          \<or> cmd CMD_UNITY_COMMAND_HEAD < c \<and> c < cmd CMD_UNITY_COMMAND_TAIL)
      then (True, False)
      else if c = cmd CMD_KERNEL_WAKEUP_SLAVETASK then (True, False)
      else if task_master_init c then (True, True)
      else (False, False))"

definition new_task :: "bool \<Rightarrow> u32 \<Rightarrow> u32 \<Rightarrow> bool \<Rightarrow> TaskInformation" where
  "new_task sod sid ch master =
     \<lparr> ti_taskType = 0, ti_sessionId = sid, ti_channelId = ch, hasInitial = False,
       taskStop = False, taskFree = False, ti_serverOrDaemon = sod, masterSlave = master,
       closeRetryCount = 0 \<rparr>"

text \<open>Up to three attempts to add the task, a second apart; nothing changes in between.\<close>

fun add_task :: "nat \<Rightarrow> bool \<Rightarrow> nat \<Rightarrow> u32 \<Rightarrow> TaskInformation \<Rightarrow> task_map
    \<Rightarrow> TaskInformation option \<times> task_map" where
  "add_task 0 host pool ch h m = (None, m)"
| "add_task (Suc n) host pool ch h m = (case AdminTask host pool (T_ADD h) ch m of
     (Some t, m') \<Rightarrow> (Some t, m')
   | (None, m') \<Rightarrow> add_task n host pool ch h m')"

text \<open>
  The instance's \<open>RedirectToTask\<close> runs the task on the command and may change its record; the
  daemon reports a full pool to the client.
\<close>

record 's dispatcher =
  redirectToTask :: "TaskInformation \<Rightarrow> u16 \<Rightarrow> bytes \<Rightarrow> 's \<Rightarrow> bool \<times> TaskInformation \<times> 's"
  logBusy :: "u32 \<Rightarrow> 's \<Rightarrow> 's"

definition run_task ::
  "'s dispatcher \<Rightarrow> u32 \<Rightarrow> u16 \<Rightarrow> bytes \<Rightarrow> TaskInformation option \<Rightarrow> task_map \<Rightarrow> 's
    \<Rightarrow> bool \<times> task_map \<times> 's" where
  "run_task D ch c payload t m st = (case t of
     None \<Rightarrow> (True, m, st)
   | Some h \<Rightarrow>
       if taskStop h \<or> taskFree h then (True, m, st)
       else case redirectToTask D h c payload st of (ok, h', st') \<Rightarrow> (ok, mp_put ch h' m, st'))"

definition DispatchTaskData ::
  "'s dispatcher \<Rightarrow> bool \<Rightarrow> SessionBase \<Rightarrow> u32 \<Rightarrow> u32 \<Rightarrow> u16 \<Rightarrow> bytes \<Rightarrow> task_map \<Rightarrow> 's
    \<Rightarrow> bool \<times> task_map \<times> 's" where
  "DispatchTaskData D host b sid ch c payload m st =
     (case NeedNewTaskInfo (serverOrDaemon b) c of
        (True, master) \<Rightarrow>
          (case add_task 3 host (threadPoolCount b) ch
              (new_task (serverOrDaemon b) sid ch master) m of
             (None, m') \<Rightarrow> (False, m', if host then st else logBusy D ch st)
           | (Some h, m') \<Rightarrow> run_task D ch c payload (Some h) m' st)
      | (False, _) \<Rightarrow>
          run_task D ch c payload (fst (AdminTask host (threadPoolCount b) T_QUERY ch m)) m st)"

section \<open>Removing tasks\<close>

text \<open>
  \<open>BeginRemoveTask\<close> stops a task once and arms the timer that retries its release; the second
  component says whether it did. \<open>stopTask\<close> and \<open>readyForRelease\<close> are the task's own
  operations, reached through \<open>RemoveInstanceTask\<close>.
\<close>

definition BeginRemoveTask ::
  "(TaskInformation \<Rightarrow> TaskInformation) \<Rightarrow> TaskInformation \<Rightarrow> TaskInformation \<times> bool" where
  "BeginRemoveTask stopTask h =
     (if taskStop h \<or> taskFree h then (h, False) else ((stopTask h)\<lparr>taskStop := True\<rparr>, True))"

text \<open>All tasks of the session for channel 0, else the one of the channel. The second component
  lists the channels whose retry timer was armed.\<close>

fun ClearOwnTasks ::
  "(TaskInformation \<Rightarrow> TaskInformation) \<Rightarrow> u32 \<Rightarrow> task_map \<Rightarrow> task_map \<times> u32 list" where
  "ClearOwnTasks stopTask chIn [] = ([], [])"
| "ClearOwnTasks stopTask chIn ((ch, h) # m) =
     (if chIn \<noteq> 0 \<and> chIn \<noteq> ch then
        (case ClearOwnTasks stopTask chIn m of (m', ts) \<Rightarrow> ((ch, h) # m', ts))
      else case BeginRemoveTask stopTask h of
        (h', armed) \<Rightarrow>
          (case if chIn \<noteq> 0 then (m, []) else ClearOwnTasks stopTask chIn m of
            (m', ts) \<Rightarrow> ((ch, h') # m', if armed then ch # ts else ts)))"

text \<open>One run of the retry timer: the task is freed and dropped once it is ready.\<close>

definition taskClassDeleteRetry ::
  "(TaskInformation \<Rightarrow> bool) \<Rightarrow> u32 \<Rightarrow> task_map \<Rightarrow> bool \<times> task_map" where
  "taskClassDeleteRetry readyForRelease ch m = (case map_of m ch of
     None \<Rightarrow> (False, m)
   | Some h \<Rightarrow> if taskFree h \<or> readyForRelease h then (True, mp_erase ch m) else (False, m))"

text \<open>
  One tick of the timer that waits for the tasks of an ended session: it counts up the tasks
  it looks at, votes for a reset for one that has waited too long, and stops at the first task
  that is not free. The results: whether all were free, the tasks, the number of votes.
\<close>

fun clearTaskForSessionFinish :: "task_map \<Rightarrow> bool \<times> task_map \<times> nat" where
  "clearTaskForSessionFinish [] = (True, [], 0)"
| "clearTaskForSessionFinish ((ch, h) # m) =
     (let h' = h\<lparr>closeRetryCount := Suc (closeRetryCount h)\<rparr>;
          v = (if GLOBAL_TIMEOUT \<le> closeRetryCount h then 1 else 0)
      in if \<not> taskFree h then (False, (ch, h') # m, v)
         else case clearTaskForSessionFinish m of (done, m', n) \<Rightarrow> (done, (ch, h') # m', v + n))"


text \<open>
  The tick with the effect of its votes: \<open>AdminTask\<close> forwards \<open>OP_VOTE_RESET\<close> to
  \<open>AdminSession\<close>, which may abort.
\<close>

fun vote_times :: "nat \<Rightarrow> u32 \<Rightarrow> SessionBase \<Rightarrow> SessionBase option" where
  "vote_times 0 sid b = Some b"
| "vote_times (Suc n) sid b =
     Option.bind (AdminSession S_VOTE_RESET sid b) (\<lambda>(_, b'). vote_times n sid b')"

definition session_finish_tick :: "u32 \<Rightarrow> task_map \<Rightarrow> SessionBase \<Rightarrow> (bool \<times> task_map \<times> SessionBase) option" where
  "session_finish_tick sid m b = (case clearTaskForSessionFinish m of
     (done, m', n) \<Rightarrow> map_option (\<lambda>b'. (done, m', b')) (vote_times n sid b))"

section \<open>The registry of sessions\<close>

text \<open>Every session is filed under its own number, and is counted.\<close>

definition base_ok :: "SessionBase \<Rightarrow> bool" where
  "base_ok b \<longleftrightarrow> mp_wf (mapSession b)
     \<and> (\<forall>k s. map_of (mapSession b) k = Some s \<longrightarrow> s_sessionId s = k)
     \<and> length (mapSession b) \<le> sessionRef b
     \<and> SIZE_THREAD_POOL_MIN \<le> threadPoolCount b \<and> threadPoolCount b \<le> SIZE_THREAD_POOL_MAX"

named_theorems session_simps

lemmas smap_laws [session_simps] = smap.get_put smap.get_erase smap.wf_put smap.wf_erase

lemma pool_size_bounds [session_simps]:
  "SIZE_THREAD_POOL_MIN \<le> pool_size n" "pool_size n \<le> SIZE_THREAD_POOL_MAX"
  by (auto simp: pool_size_def hdc_consts)

lemma new_SessionBase_ok: "base_ok (new_SessionBase sod n)"
  by (simp add: base_ok_def new_SessionBase_def session_simps mp_wf_Nil)

lemma AdminSession_query:
  "AdminSession S_QUERY sid b = Some (r, b') \<longleftrightarrow> r = map_of (mapSession b) sid \<and> b' = b"
  by auto

lemma vote_entry: "map_of (mapSession b) sid = Some s \<Longrightarrow> base_ok b \<Longrightarrow>
    base_ok (b\<lparr>mapSession := mp_put sid (s\<lparr>voteReset := v\<rparr>) (mapSession b)\<rparr>)"
  by (auto simp: base_ok_def session_simps length_mp_put)

lemma need_reset_put:
  "mp_wf m \<Longrightarrow> need_reset True sid (mp_put sid s m)
     \<longleftrightarrow> (\<forall>k s'. map_of m k = Some s' \<longrightarrow> k \<noteq> sid \<longrightarrow> voteReset s')"
proof -
  assume w: "mp_wf m"
  have d: "distinct (map fst (mp_put sid s m))" by (rule mp_wf_distinct) (rule mp_wf_put [OF w])
  have "need_reset True sid (mp_put sid s m)
      \<longleftrightarrow> (\<forall>k s'. map_of (mp_put sid s m) k = Some s' \<longrightarrow> k = sid \<or> voteReset s')"
    using d by (auto simp: need_reset_def list_all_iff map_of_eq_Some_iff)
  then show ?thesis by (auto simp: map_of_mp_put [OF w])
qed

lemma GetSessionPseudoUid_fresh:
  assumes "GetSessionPseudoUid rnd i b = Some uid"
  shows "map_of (mapSession b) uid = None"
  by (rule GetSessionPseudoUid.raw_induct [OF _ assms]) (auto split: if_splits)

lemma GetSessionPseudoUid_returns:
  assumes "map_of (mapSession b) (rnd (i + n)) = None"
  shows "\<exists>uid. GetSessionPseudoUid rnd i b = Some uid"
  using assms
proof (induction n arbitrary: i)
  case 0
  then show ?case by (subst GetSessionPseudoUid.simps) simp
next
  case (Suc n)
  then have "\<exists>uid. GetSessionPseudoUid rnd (Suc i) b = Some uid" by simp
  then show ?case by (subst GetSessionPseudoUid.simps) simp
qed

lemma MallocSessionByConnectType_id:
  "MallocSessionByConnectType s = Some s' \<Longrightarrow> s_sessionId s' = s_sessionId s \<and> connType s' = connType s
     \<and> isDead s' = isDead s \<and> uvHandleRef s' = uvHandleRef s + (if connType s = CONN_TCP then 1 else 0)"
  by (auto simp: MallocSessionByConnectType_def split: ConnType.splits)

text \<open>
  A session that \<open>MallocSession\<close> returns is alive, filed under its own number with all its
  handles counted (two pipes, and the TCP stream for a TCP session), no other session is
  touched, and a number the program drew itself belonged to no session before.
\<close>

theorem MallocSession_registers:
  assumes "base_ok b" "MallocSession sod ct sid rnd b = Some (Some s, b')"
  shows "base_ok b' \<and> map_of (mapSession b') = (map_of (mapSession b))(s_sessionId s \<mapsto> s)
    \<and> (sid = 0 \<longrightarrow> map_of (mapSession b) (s_sessionId s) = None) \<and> (sid \<noteq> 0 \<longrightarrow> s_sessionId s = sid)
    \<and> \<not> isDead s \<and> uvHandleRef s = (if ct = CONN_TCP then 3 else 2)
    \<and> sessionRef b' = Suc (sessionRef b)"
proof -
  let ?b1 = "b\<lparr>sessionRef := Suc (sessionRef b)\<rparr>"
  obtain uid where u: "(if sid = 0 then GetSessionPseudoUid rnd 0 ?b1 else Some sid) = Some uid"
    and m: "MallocSessionByConnectType ((new_HdcSession sod ct uid)\<lparr>uvHandleRef := 2\<rparr>) = Some s"
    and b': "b' = ?b1\<lparr>mapSession := mp_put uid s (mapSession b)\<rparr>"
    using assms(2) by (auto simp: MallocSession_def Let_def bind_eq_Some_conv split: option.splits)
  have s: "s_sessionId s = uid" "\<not> isDead s" "uvHandleRef s = (if ct = CONN_TCP then 3 else 2)"
    using MallocSessionByConnectType_id [OF m] by (auto simp: new_HdcSession_def)
  have w: "mp_wf (mapSession b)" using assms(1) by (simp add: base_ok_def)
  have "sid = 0 \<longrightarrow> map_of (mapSession b) uid = None"
    using u GetSessionPseudoUid_fresh [of rnd 0 ?b1 uid] by auto
  moreover have "base_ok b'"
    using assms(1) s unfolding b' by (auto simp: base_ok_def session_simps length_mp_put)
  ultimately show ?thesis using s u w by (auto simp: b' session_simps split: if_splits)
qed

definition empty_server :: SessionBase where
  "empty_server = new_SessionBase True 4"

theorem MallocSession_registers_witness:
  "map_of (mapSession (snd (the (MallocSession True CONN_TCP 7 (\<lambda>_. 1) empty_server)))) 7
     = fst (the (MallocSession True CONN_TCP 7 (\<lambda>_. 1) empty_server))
   \<and> sessionRef (snd (the (MallocSession True CONN_TCP 7 (\<lambda>_. 1) empty_server))) = 1"
proof -
  have "\<exists>s b'. MallocSession True CONN_TCP 7 (\<lambda>_. 1) empty_server = Some (Some s, b')"
    by (simp add: MallocSession_def MallocSessionByConnectType_def new_HdcSession_def)
  then obtain s b' where e: "MallocSession True CONN_TCP 7 (\<lambda>_. 1) empty_server = Some (Some s, b')"
    by blast
  have "base_ok empty_server" by (simp add: empty_server_def new_SessionBase_ok)
  from MallocSession_registers [OF this e]
  have "map_of (mapSession b') 7 = Some s \<and> sessionRef b' = 1"
    by (simp add: empty_server_def new_SessionBase_def)
  then show ?thesis unfolding e by simp
qed

text \<open>
  A failed allocation still counts: the session map is unchanged, the counter that the
  shutdown loop waits for is one higher.
\<close>

theorem MallocSession_failure_counts:
  "sid \<noteq> 0 \<Longrightarrow> MallocSession sod CONN_BT sid rnd b = Some (None, b\<lparr>sessionRef := Suc (sessionRef b)\<rparr>)"
  by (simp add: MallocSession_def MallocSessionByConnectType_def new_HdcSession_def)

theorem MallocSession_failure_counts_witness:
  "sessionRef (snd (the (MallocSession True CONN_BT 7 (\<lambda>_. 1) empty_server))) = 1
   \<and> mapSession (snd (the (MallocSession True CONN_BT 7 (\<lambda>_. 1) empty_server))) = []"
  using MallocSession_failure_counts [of 7 True "\<lambda>_. 1" empty_server]
  by (simp add: empty_server_def new_SessionBase_def)

text \<open>
  Every call of \<open>AdminSession\<close> that returns leaves the registry well formed; the calls of
  the program add and update a session under its own number, add a counted one.
\<close>

theorem AdminSession_ok:
  assumes "base_ok b" "AdminSession op sid b = Some (r, b')"
    and "\<And>h. op = S_ADD h \<Longrightarrow> s_sessionId h = sid \<and> length (mapSession b) < sessionRef b"
    and "\<And>h. op = S_UPDATE h \<Longrightarrow> map_of (mapSession b) sid \<noteq> None"
  shows "base_ok b' \<and> (\<forall>k. k \<noteq> sid \<and> (\<forall>h. op = S_UPDATE h \<longrightarrow> k \<noteq> s_sessionId h)
    \<longrightarrow> map_of (mapSession b') k = map_of (mapSession b) k)"
proof (cases op)
  case (S_ADD h)
  then show ?thesis using assms
    by (auto simp: base_ok_def session_simps length_mp_put split: if_splits)
next
  case S_REMOVE
  then show ?thesis using assms(1,2)
    by (auto simp: base_ok_def session_simps length_mp_erase split: if_splits)
next
  case S_QUERY
  then show ?thesis using assms(1,2) by auto
next
  case S_QUERY_REF
  then show ?thesis using assms(1,2)
    by (auto simp: base_ok_def session_simps length_mp_put Let_def split: option.splits if_splits)
next
  case (S_UPDATE h)
  then have "map_of (mapSession b) sid \<noteq> None" using assms(4) by simp
  then have "0 < length (mapSession b)" by (cases "mapSession b") auto
  then show ?thesis using S_UPDATE assms(1,2) \<open>map_of (mapSession b) sid \<noteq> None\<close>
    by (auto simp: base_ok_def session_simps length_mp_put length_mp_erase split: if_splits)
next
  case S_VOTE_RESET
  then show ?thesis using assms(1,2) vote_entry [of b sid _ True]
    by (auto simp: Let_def session_simps base_ok_def split: option.splits if_splits)
qed

definition two_sessions :: SessionBase where
  "two_sessions = (new_SessionBase True 4)\<lparr>mapSession :=
     [(3, new_HdcSession True CONN_TCP 3), (9, new_HdcSession True CONN_USB 9)], sessionRef := 2\<rparr>"

lemma two_sessions_ok: "base_ok two_sessions"
  by (simp add: base_ok_def two_sessions_def new_SessionBase_def new_HdcSession_def mp_wf_def
      session_simps)

theorem AdminSession_ok_witness:
  "base_ok (snd (the (AdminSession S_VOTE_RESET 3 two_sessions)))
   \<and> map_of (mapSession (snd (the (AdminSession S_VOTE_RESET 3 two_sessions)))) 9
     = Some (new_HdcSession True CONN_USB 9)"
proof -
  obtain r b' where e: "AdminSession S_VOTE_RESET 3 two_sessions = Some (r, b')"
    by (simp add: two_sessions_def new_SessionBase_def new_HdcSession_def need_reset_def Let_def)
  have "base_ok b' \<and> (\<forall>k. k \<noteq> 3 \<longrightarrow> map_of (mapSession b') k = map_of (mapSession two_sessions) k)"
    using AdminSession_ok [OF two_sessions_ok e] by simp
  then show ?thesis unfolding e by (simp add: two_sessions_def)
qed

text \<open>
  A vote for a reset ends the process exactly when the session exists and either this is
  the daemon or every other session has already voted; otherwise it only records the vote.
\<close>

theorem AdminSession_vote:
  assumes "base_ok b"
  shows "AdminSession S_VOTE_RESET sid b = None \<longleftrightarrow> map_of (mapSession b) sid \<noteq> None
      \<and> (serverOrDaemon b \<longrightarrow> (\<forall>k s. map_of (mapSession b) k = Some s \<longrightarrow> k \<noteq> sid \<longrightarrow> voteReset s))"
  using assms need_reset_put [of "mapSession b" sid]
  by (simp add: base_ok_def Let_def split: option.splits)

theorem AdminSession_vote_witness:
  "AdminSession S_VOTE_RESET 3 two_sessions \<noteq> None"
  using AdminSession_vote [OF two_sessions_ok, of 3]
  by (simp add: two_sessions_def new_SessionBase_def new_HdcSession_def)

section \<open>Tasks\<close>

definition tasks_ok :: "bool \<Rightarrow> nat \<Rightarrow> task_map \<Rightarrow> bool" where
  "tasks_ok host pool m \<longleftrightarrow> mp_wf m \<and> (host \<or> length m \<le> pool - 2)"

lemma tasks_ok_Nil: "tasks_ok host pool []"
  by (simp add: tasks_ok_def mp_wf_Nil)

lemma AdminTask_ok: "tasks_ok host pool m \<Longrightarrow> tasks_ok host pool (snd (AdminTask host pool op ch m))"
  by (cases op) (auto simp: tasks_ok_def mp_wf_put mp_wf_erase length_mp_put length_mp_erase)

text \<open>Nothing changes between the attempts, so the first one decides.\<close>

lemma add_task_first: "add_task (Suc n) host pool ch h m = AdminTask host pool (T_ADD h) ch m"
proof (induction n)
  case (Suc n)
  then show ?case
    by (subst add_task.simps) (cases "\<not> host \<and> pool - 2 \<le> length m", auto simp del: add_task.simps)
qed simp

lemma length_mp_put_old: "mp_wf m \<Longrightarrow> map_of m ch \<noteq> None \<Longrightarrow> length (mp_put ch h m) = length m"
  by (simp add: length_mp_put)

lemma run_task_ok:
  assumes "tasks_ok host pool m" "run_task D ch c p t m st = (ok, m', st')" "t = map_of m ch"
  shows "tasks_ok host pool m' \<and> (\<forall>k. k \<noteq> ch \<longrightarrow> map_of m' k = map_of m k)"
  using assms
  by (auto simp: run_task_def tasks_ok_def session_simps length_mp_put_old
      split: option.splits if_splits prod.splits)

text \<open>
  C17. Dispatching a command keeps the task map of a session ordered and, on the daemon, below
  the number of pool threads less two; only the task of the channel is added or changed.
\<close>

theorem DispatchTaskData_ok:
  assumes "tasks_ok host (threadPoolCount b) m"
    and "DispatchTaskData D host b sid ch c p m st = (ok, m', st')"
  shows "tasks_ok host (threadPoolCount b) m' \<and> (\<forall>k. k \<noteq> ch \<longrightarrow> map_of m' k = map_of m k)"
proof -
  have w: "mp_wf m" using assms(1) by (simp add: tasks_ok_def)
  obtain need master where n: "NeedNewTaskInfo (serverOrDaemon b) c = (need, master)" by fastforce
  show ?thesis
  proof (cases need)
    case False
    then have "run_task D ch c p (map_of m ch) m st = (ok, m', st')"
      using assms(2) n by (simp add: DispatchTaskData_def)
    from run_task_ok [OF assms(1) this refl] show ?thesis .
  next
    case True
    let ?h = "new_task (serverOrDaemon b) sid ch master"
    show ?thesis
    proof (cases "\<not> host \<and> threadPoolCount b - 2 \<le> length m")
      case True
      then show ?thesis using assms n \<open>need\<close>
        by (simp add: DispatchTaskData_def add_task_first numeral_3_eq_3)
    next
      case False
      then have "run_task D ch c p (Some ?h) (mp_put ch ?h m) st = (ok, m', st')"
        using assms(2) n \<open>need\<close> by (simp add: DispatchTaskData_def add_task_first numeral_3_eq_3 split: if_splits)
      moreover have "tasks_ok host (threadPoolCount b) (mp_put ch ?h m)"
        using AdminTask_ok [OF assms(1), of "T_ADD ?h" ch] False by (simp split: if_splits)
      ultimately have "tasks_ok host (threadPoolCount b) m'
          \<and> (\<forall>k. k \<noteq> ch \<longrightarrow> map_of m' k = map_of (mp_put ch ?h m) k)"
        using run_task_ok w by (metis smap.get_put_same)
      then show ?thesis using w by (simp add: session_simps)
    qed
  qed
qed

text \<open>
  A command for a channel whose task is stopped or freed is dropped: nothing runs and the
  session goes on. On the daemon a new task beyond the pool is refused, reported to the
  client, and the tasks that run are kept.
\<close>

theorem DispatchTaskData_refuses:
  "(\<not> fst (NeedNewTaskInfo (serverOrDaemon b) c) \<longrightarrow>
      (\<forall>h. map_of m ch = Some h \<longrightarrow> taskStop h \<or> taskFree h) \<longrightarrow>
      DispatchTaskData D host b sid ch c p m st = (True, m, st))
   \<and> (fst (NeedNewTaskInfo (serverOrDaemon b) c) \<longrightarrow> threadPoolCount b - 2 \<le> length m \<longrightarrow>
      DispatchTaskData D False b sid ch c p m st = (False, m, logBusy D ch st))"
  by (auto simp: DispatchTaskData_def run_task_def add_task_first numeral_3_eq_3
      split: prod.splits option.splits)

text \<open>An instance whose tasks only count their commands, and a channel that is stopped.\<close>

definition counting_dispatcher :: "nat dispatcher" where
  "counting_dispatcher = \<lparr> redirectToTask = (\<lambda>h c p n. (True, h, Suc n)), logBusy = (\<lambda>ch n. n + 100) \<rparr>"

definition stopped_task :: TaskInformation where
  "stopped_task = (new_task False 9 5 True)\<lparr>taskStop := True\<rparr>"

theorem DispatchTaskData_refuses_witness:
  "DispatchTaskData counting_dispatcher False empty_server 9 5 (cmd CMD_FILE_DATA) [] [(5, stopped_task)] 0
     = (True, [(5, stopped_task)], 0)
   \<and> DispatchTaskData counting_dispatcher False empty_server 9 5 (cmd CMD_FILE_INIT) []
       (replicate 14 (5, stopped_task)) 0 = (False, replicate 14 (5, stopped_task), 100)"
  using DispatchTaskData_refuses [of empty_server "cmd CMD_FILE_DATA" "[(5, stopped_task)]" 5
      counting_dispatcher False 9 "[]" 0]
    DispatchTaskData_refuses [of empty_server "cmd CMD_FILE_INIT" "replicate 14 (5, stopped_task)" 5
      counting_dispatcher False 9 "[]" 0]
  by (simp add: NeedNewTaskInfo_def task_master_init_def cmd_def ctrl_code_def empty_server_def
      new_SessionBase_def pool_size_def hdc_consts stopped_task_def counting_dispatcher_def)

theorem DispatchTaskData_ok_witness:
  "tasks_ok False 16 (fst (snd (DispatchTaskData counting_dispatcher False empty_server 9 5
     (cmd CMD_FILE_INIT) [] [] 0)))"
proof -
  obtain ok m' n where d: "DispatchTaskData counting_dispatcher False empty_server 9 5
      (cmd CMD_FILE_INIT) [] [] 0 = (ok, m', n)" by (metis prod_cases3)
  have "threadPoolCount empty_server = 16"
    by (simp add: empty_server_def new_SessionBase_def pool_size_def hdc_consts)
  then show ?thesis
    using DispatchTaskData_ok [OF tasks_ok_Nil d] d by simp
qed

section \<open>Ending a session\<close>

lemma BeginRemoveTask_stops:
  "taskStop (fst (BeginRemoveTask f h)) \<or> taskFree (fst (BeginRemoveTask f h))"
  by (simp add: BeginRemoveTask_def)

lemma BeginRemoveTask_idem:
  "BeginRemoveTask g (fst (BeginRemoveTask f h)) = (fst (BeginRemoveTask f h), False)"
  by (simp add: BeginRemoveTask_def)

lemma ClearOwnTasks_all:
  "ClearOwnTasks f 0 m = (map (\<lambda>(ch, h). (ch, fst (BeginRemoveTask f h))) m,
     map fst (filter (\<lambda>(ch, h). snd (BeginRemoveTask f h)) m))"
  by (induction m) (auto split: prod.splits)

text \<open>
  Clearing all tasks of a session stops every one of them, arms exactly one retry timer
  for each task that was still running, and a second call arms none and changes nothing.
\<close>

theorem ClearOwnTasks_once:
  "list_all (\<lambda>(ch, h). taskStop h \<or> taskFree h) (fst (ClearOwnTasks f 0 m))
   \<and> snd (ClearOwnTasks f 0 m) = map fst (filter (\<lambda>(ch, h). \<not> taskStop h \<and> \<not> taskFree h) m)
   \<and> ClearOwnTasks g 0 (fst (ClearOwnTasks f 0 m)) = (fst (ClearOwnTasks f 0 m), [])"
  by (simp add: ClearOwnTasks_all list_all_iff BeginRemoveTask_stops BeginRemoveTask_idem
      case_prod_unfold filter_map comp_def) (simp add: BeginRemoveTask_def)

text \<open>Clearing one channel touches only its task.\<close>

lemma ClearOwnTasks_one:
  "ch \<noteq> 0 \<Longrightarrow> k \<noteq> ch \<Longrightarrow> map_of (fst (ClearOwnTasks f ch m)) k = map_of m k"
  by (induction m) (auto split: prod.splits)

fun finish_ticks :: "nat \<Rightarrow> u32 \<Rightarrow> task_map \<Rightarrow> SessionBase \<Rightarrow> (bool \<times> task_map \<times> SessionBase) option" where
  "finish_ticks 0 sid m b = Some (False, m, b)"
| "finish_ticks (Suc n) sid m b =
     Option.bind (finish_ticks n sid m b) (\<lambda>(_, m', b'). session_finish_tick sid m' b')"

lemma finish_ticks_waiting:
  assumes "\<not> taskFree h" "closeRetryCount h = 0" "n \<le> GLOBAL_TIMEOUT"
  shows "finish_ticks n sid ((ch, h) # m) b = Some (False, (ch, h\<lparr>closeRetryCount := n\<rparr>) # m, b)"
  using assms
proof (induction n)
  case 0
  then show ?case by (cases h) simp
next
  case (Suc n)
  then show ?case by (simp add: session_finish_tick_def Let_def)
qed

text \<open>
  A task that never becomes free holds the end of its session for thirty ticks; the next
  tick resets the daemon.
\<close>

theorem stuck_task_resets_daemon:
  assumes "\<not> taskFree h" "closeRetryCount h = 0" "\<not> serverOrDaemon b"
    "map_of (mapSession b) sid \<noteq> None"
  shows "finish_ticks GLOBAL_TIMEOUT sid ((ch, h) # m) b
       = Some (False, (ch, h\<lparr>closeRetryCount := GLOBAL_TIMEOUT\<rparr>) # m, b)
     \<and> finish_ticks (Suc GLOBAL_TIMEOUT) sid ((ch, h) # m) b = None"
proof -
  note w = finish_ticks_waiting [OF assms(1,2) order_refl, of sid ch m b]
  have "AdminSession S_VOTE_RESET sid b = None" using assms(3,4) by (auto split: option.splits)
  then show ?thesis using w assms(1) by (simp add: session_finish_tick_def Let_def)
qed

theorem stuck_task_resets_daemon_witness:
  "finish_ticks (Suc GLOBAL_TIMEOUT) 3 [(5, stopped_task)] (two_sessions\<lparr>serverOrDaemon := False\<rparr>) = None"
proof -
  have "\<not> taskFree stopped_task" "closeRetryCount stopped_task = 0"
    "\<not> serverOrDaemon (two_sessions\<lparr>serverOrDaemon := False\<rparr>)"
    "map_of (mapSession (two_sessions\<lparr>serverOrDaemon := False\<rparr>)) 3 \<noteq> None"
    by (simp_all add: stopped_task_def new_task_def two_sessions_def)
  from stuck_task_resets_daemon [OF this, of 5 "[]"] show ?thesis by (rule conjunct2)
qed

end
