(* ===== verification/Hdc_SessionFree.thy ===== *)
theory Hdc_SessionFree
  imports Hdc_Session "HOL-Library.Multiset"
begin

text \<open>
  The end of a session in src/src/common/session.cpp: \<open>FreeSession\<close> starts a chain of callbacks
  of the main loop, \<open>FreeSessionOpeate\<close> waits for the writes in flight,
  \<open>callbackCheckFreeSessionContinue\<close> for the work thread, \<open>FreeSessionFinally\<close> for the handles,
  and deletes the session. The work thread goes on only when every task of the session has been
  released. Sessions are objects of a heap, since the callbacks hold pointers; a handler that reaches
  a deleted object has the result \<open>None\<close>. Beside the chain the main loop has timers of its own for
  sessions that are being connected (\<open>UsbPreConnect\<close> and \<open>UartPreConnect\<close> of src/src/host/server.cpp,
  \<open>funcNewSessionUp\<close> of src/src/daemon/daemon_usb.cpp and daemon_uart.cpp).
\<close>

section \<open>The state\<close>

text \<open>
  What the chain reads of a session beside the fields of \<open>HdcSession\<close>: whether the work thread
  has opened its end of the control pipe, whether it was told to stop, whether it waits for its
  tasks (\<open>ReChildLoopForSessionClear\<close>), whether the TCP stream is closing already, whether USB
  transfers are outstanding (host), and how often the timer that connects it has run.
\<close>

record life = HdcSession +
  childLoop :: bool
  stopSent :: bool
  clearing :: bool
  tcpClosing :: bool
  usbBusy :: bool
  retryCount :: nat

datatype callback =
    CB_Opeate nat | CB_Check nat | CB_Finally nat | CB_Close nat

fun cb_ptr :: "callback \<Rightarrow> nat" where
  "cb_ptr (CB_Opeate p) = p"
| "cb_ptr (CB_Check p) = p"
| "cb_ptr (CB_Finally p) = p"
| "cb_ptr (CB_Close p) = p"

text \<open>The timers of sessions that are being connected.\<close>

datatype connect_timer = T_Usb | T_Uart | T_Up

text \<open>
  The armed timers and idles and the close requests of the main loop form a multiset: libuv
  runs them in an order of its own. \<open>queued\<close> holds the sessions whose work thread waits for
  a pool thread, \<open>asyncs\<close> is \<open>lstMainThreadOP\<close> (only \<open>ASYNC_FREE_SESSION\<close>), \<open>timers\<close> the timers of
  sessions that are being connected. \<open>aborted\<close>: a vote for a reset has ended the process.
\<close>

record world =
  heap :: "nat \<Rightarrow> life option"
  wmap :: "(u32, nat) std_map"
  pending :: "callback multiset"
  wref :: nat
  queued :: "nat list"
  asyncs :: "u32 list"
  notified :: "(u32 \<times> bool) list"
  timers :: "(connect_timer \<times> nat) list"
  aborted :: bool

definition world0 :: world where
  "world0 = \<lparr> heap = (\<lambda>_. None), wmap = [], pending = {#}, wref = 0, queued = [], asyncs = [],
     notified = [], timers = [], aborted = False \<rparr>"

definition handles :: "ConnType \<Rightarrow> nat" where
  "handles ct = (if ct = CONN_TCP then 3 else 2)"

section \<open>The handlers\<close>

definition upd :: "nat \<Rightarrow> life \<Rightarrow> world \<Rightarrow> world" where
  "upd p s w = w\<lparr>heap := (heap w)(p := Some s)\<rparr>"

definition arm :: "callback \<Rightarrow> world \<Rightarrow> world" where
  "arm c w = w\<lparr>pending := add_mset c (pending w)\<rparr>"

definition disarm :: "callback \<Rightarrow> world \<Rightarrow> world" where
  "disarm c w = w\<lparr>pending := pending w - {#c#}\<rparr>"

definition new_life :: "bool \<Rightarrow> ConnType \<Rightarrow> u32 \<Rightarrow> life" where
  "new_life sod ct sid = HdcSession.extend ((new_HdcSession sod ct sid)\<lparr>uvHandleRef := handles ct,
       has_hUSB := (ct = CONN_USB), has_hUART := (ct = CONN_SERIAL)\<rparr>)
     \<lparr> childLoop = False, stopSent = False, clearing = False, tcpClosing = False,
       usbBusy = False, retryCount = 0 \<rparr>"

text \<open>\<open>FreeSession\<close> in the main thread; from another thread it queues a message.\<close>

definition FreeSession :: "u32 \<Rightarrow> world \<Rightarrow> world option" where
  "FreeSession sid w = (case map_of (wmap w) sid of
     None \<Rightarrow> Some w
   | Some p \<Rightarrow> Option.bind (heap w p) (\<lambda>s.
       if isDead s then Some w
       else Some ((arm (CB_Opeate p) (upd p (s\<lparr>isDead := True\<rparr>) w))
              \<lparr>notified := (s_sessionId s, False) # notified w\<rparr>)))"

definition FreeSession_other_thread :: "u32 \<Rightarrow> world \<Rightarrow> world" where
  "FreeSession_other_thread sid w = w\<lparr>asyncs := asyncs w @ [sid]\<rparr>"

text \<open>\<open>FreeSessionByConnectType\<close> releases the transport's part of the session.\<close>

definition FreeSessionByConnectType :: "life \<Rightarrow> life" where
  "FreeSessionByConnectType s =
     (if connType s = CONN_USB then s\<lparr>has_hUSB := False\<rparr>
      else if connType s = CONN_SERIAL then s\<lparr>has_hUART := False\<rparr> else s)"

text \<open>
  \<open>TryCloseHandle\<close> with \<open>alwaysCallback\<close>: a handle that is closing already has its callback run
  at once, any other one when libuv has closed it.
\<close>

definition close_tcp :: "nat \<Rightarrow> world \<Rightarrow> world option" where
  "close_tcp p w = Option.bind (heap w p) (\<lambda>s.
     if connType s \<noteq> CONN_TCP then Some w
     else if tcpClosing s then Some (upd p (s\<lparr>uvHandleRef := uvHandleRef s - 1\<rparr>) w)
     else Some (arm (CB_Close p) (upd p (s\<lparr>tcpClosing := True\<rparr>) w)))"

definition FreeSessionContinue :: "nat \<Rightarrow> world \<Rightarrow> world option" where
  "FreeSessionContinue p w = Option.bind (close_tcp p w) (\<lambda>w1.
     let w2 = arm (CB_Close p) (arm (CB_Close p) w1) in
     Option.bind (heap w2 p) (\<lambda>s.
       Some (arm (CB_Finally p) (upd p (FreeSessionByConnectType s) w2))))"

definition FreeSessionOpeate :: "bool \<Rightarrow> nat \<Rightarrow> world \<Rightarrow> world option" where
  "FreeSessionOpeate host p w = Option.bind (heap w p) (\<lambda>s.
     if 0 < ref s then Some w
     else if host \<and> has_hUSB s \<and> usbBusy s then Some w
     else if childLoop s then
       Some (disarm (CB_Opeate p) (arm (CB_Check p) (upd p (s\<lparr>stopSent := True\<rparr>) w)))
     else map_option (disarm (CB_Opeate p)) (FreeSessionContinue p w))"

definition callbackCheckFreeSessionContinue :: "nat \<Rightarrow> world \<Rightarrow> world option" where
  "callbackCheckFreeSessionContinue p w = Option.bind (heap w p) (\<lambda>s.
     if \<not> childCleared s then Some w
     else FreeSessionContinue p (disarm (CB_Check p) w))"

definition FreeSessionFinally :: "nat \<Rightarrow> world \<Rightarrow> world option" where
  "FreeSessionFinally p w = Option.bind (heap w p) (\<lambda>s.
     if 0 < uvHandleRef s then Some w
     else Some (disarm (CB_Finally p)
       (w\<lparr>heap := (heap w)(p := None), wmap := mp_erase (s_sessionId s) (wmap w),
          wref := wref w - 1, notified := (s_sessionId s, True) # notified w\<rparr>)))"

definition closeSessionTCPHandle :: "nat \<Rightarrow> world \<Rightarrow> world option" where
  "closeSessionTCPHandle p w = Option.bind (heap w p) (\<lambda>s.
     Some (disarm (CB_Close p) (upd p (s\<lparr>uvHandleRef := uvHandleRef s - 1\<rparr>) w)))"

fun run_callback :: "bool \<Rightarrow> callback \<Rightarrow> world \<Rightarrow> world option" where
  "run_callback host (CB_Opeate p) w = FreeSessionOpeate host p w"
| "run_callback host (CB_Check p) w = callbackCheckFreeSessionContinue p w"
| "run_callback host (CB_Finally p) w = FreeSessionFinally p w"
| "run_callback host (CB_Close p) w = closeSessionTCPHandle p w"

section \<open>The work thread waits for its tasks\<close>

text \<open>
  \<open>ReChildLoopForSessionClear\<close> stops every task and then looks at them again and again
  (\<open>clearTaskForSessionFinish\<close>); \<open>SessionWorkThread\<close> sets \<open>childCleared\<close> when all were free. A task that
  has been waited for too long makes the tick vote for a reset, which ends the daemon, and ends the
  server once every other session has voted.
\<close>

definition begin_clear :: "(TaskInformation \<Rightarrow> TaskInformation) \<Rightarrow> life \<Rightarrow> life" where
  "begin_clear stopTask s = s\<lparr>mapTask := fst (ClearOwnTasks stopTask 0 (mapTask s)), clearing := True\<rparr>"

definition all_voted :: "nat \<Rightarrow> world \<Rightarrow> bool" where
  "all_voted p w \<longleftrightarrow> (\<forall>(k, q) \<in> set (wmap w). q = p \<or> (case heap w q of None \<Rightarrow> True | Some t \<Rightarrow> voteReset t))"

definition clear_tick :: "bool \<Rightarrow> nat \<Rightarrow> life \<Rightarrow> world \<Rightarrow> world" where
  "clear_tick host p s w = (case clearTaskForSessionFinish (mapTask s) of
     (done, m, votes) \<Rightarrow>
       (upd p (s\<lparr>mapTask := m, childCleared := done, voteReset := voteReset s \<or> 0 < votes\<rparr>) w)
         \<lparr>aborted := aborted w \<or> 0 < votes \<and> (\<not> host \<or> all_voted p w)\<rparr>)"

section \<open>The timers of sessions that are being connected\<close>

definition stop_timer :: "connect_timer \<Rightarrow> nat \<Rightarrow> world \<Rightarrow> world" where
  "stop_timer t p w = w\<lparr>timers := removeAll (t, p) (timers w)\<rparr>"

text \<open>
  \<open>UsbPreConnect\<close> gives up after five runs, \<open>UartPreConnect\<close> after a hundred; \<open>found\<close> tells whether the
  registry has the device, to which the session is then connected. \<open>hUSB\<close> and \<open>hUART\<close> are followed
  without a test.
\<close>

definition UsbPreConnect :: "bool \<Rightarrow> nat \<Rightarrow> world \<Rightarrow> world option" where
  "UsbPreConnect found p w = Option.bind (heap w p) (\<lambda>s.
     if \<not> has_hUSB s then None
     else let s1 = s\<lparr>retryCount := Suc (retryCount s)\<rparr>; w1 = upd p s1 w in
       if 5 < retryCount s1 then map_option (stop_timer T_Usb p) (FreeSession (s_sessionId s) w1)
       else Some (if found then stop_timer T_Usb p w1 else w1))"

definition UartPreConnect :: "bool \<Rightarrow> nat \<Rightarrow> world \<Rightarrow> world option" where
  "UartPreConnect found p w = Option.bind (heap w p) (\<lambda>s.
     if \<not> has_hUART s then None
     else if 100 < retryCount s then map_option (stop_timer T_Uart p) (FreeSession (s_sessionId s) w)
     else let w1 = upd p (s\<lparr>retryCount := Suc (retryCount s)\<rparr>) w
       in Some (if found then stop_timer T_Uart p w1 else w1))"

definition funcNewSessionUp :: "nat \<Rightarrow> world \<Rightarrow> world option" where
  "funcNewSessionUp p w = Option.bind (heap w p) (\<lambda>s.
     Some (if childLoop s then stop_timer T_Up p w else w))"

fun run_timer :: "bool \<Rightarrow> connect_timer \<Rightarrow> nat \<Rightarrow> world \<Rightarrow> world option" where
  "run_timer found T_Usb p w = UsbPreConnect found p w"
| "run_timer found T_Uart p w = UartPreConnect found p w"
| "run_timer found T_Up p w = funcNewSessionUp p w"

section \<open>The steps\<close>

text \<open>
  \<open>FinishWriteSessionTCP\<close>: a failed write closes the stream and frees the session when it was
  the last one. \<open>SendByProtocol\<close> counts a write only for a session that is not dead.
\<close>

definition FinishWriteSessionTCP :: "bool \<Rightarrow> nat \<Rightarrow> bool \<Rightarrow> world \<Rightarrow> world option" where
  "FinishWriteSessionTCP mainThread p failed w = Option.bind (heap w p) (\<lambda>s.
     let s1 = s\<lparr>ref := ref s - 1\<rparr>;
         s2 = (if failed \<and> mainThread then s1\<lparr>tcpClosing := True\<rparr> else s1);
         w2 = upd p s2 w
     in if failed \<and> \<not> isDead s \<and> ref s1 = 0 then
          (if mainThread then FreeSession (s_sessionId s) w2
           else Some (FreeSession_other_thread (s_sessionId s) w2))
        else Some w2)"

definition malloc_life :: "bool \<Rightarrow> ConnType \<Rightarrow> u32 \<Rightarrow> nat \<Rightarrow> world \<Rightarrow> world" where
  "malloc_life sod ct sid p w =
     (upd p (new_life sod ct sid) w)\<lparr>wmap := mp_put sid p (wmap w), wref := Suc (wref w)\<rparr>"

text \<open>\<open>OP_UPDATE\<close> after the daemon has taken over the number of the host's handshake.\<close>

definition rename_session :: "u32 \<Rightarrow> nat \<Rightarrow> life \<Rightarrow> world \<Rightarrow> world" where
  "rename_session sid p s w =
     (upd p (s\<lparr>s_sessionId := sid\<rparr>) w)\<lparr>wmap := mp_put sid p (mp_erase (s_sessionId s) (wmap w))\<rparr>"

text \<open>
  \<open>step_tasks\<close> stands for whatever the commands of a session do to its tasks while its work thread runs;
  \<open>step_ready\<close> for a task that has become ready for release, which its own timer then removes.
\<close>

inductive life_event :: "bool \<Rightarrow> world \<Rightarrow> world \<Rightarrow> bool" for host where
  step_malloc: "heap w p = None \<Longrightarrow> p \<notin> set (queued w) \<Longrightarrow> ct \<noteq> CONN_BT \<Longrightarrow>
    life_event host w (malloc_life sod ct sid p w)"
| step_queue: "heap w p = Some s \<Longrightarrow> \<not> isDead s \<Longrightarrow>
    life_event host w (w\<lparr>queued := p # queued w\<rparr>)"
| step_worker: "heap w p = Some s \<Longrightarrow> p \<in> set (queued w) \<Longrightarrow>
    life_event host w (upd p (s\<lparr>childLoop := True\<rparr>) (w\<lparr>queued := removeAll p (queued w)\<rparr>))"
| step_tasks: "heap w p = Some s \<Longrightarrow> childLoop s \<Longrightarrow> \<not> clearing s \<Longrightarrow>
    life_event host w (upd p (s\<lparr>mapTask := m\<rparr>) w)"
| step_clear: "heap w p = Some s \<Longrightarrow> childLoop s \<Longrightarrow> stopSent s \<Longrightarrow> \<not> clearing s \<Longrightarrow>
    life_event host w (upd p (begin_clear stopTask s) w)"
| step_ready: "heap w p = Some s \<Longrightarrow> clearing s \<Longrightarrow> \<not> childCleared s \<Longrightarrow>
    map_of (mapTask s) ch = Some h \<Longrightarrow>
    life_event host w (upd p (s\<lparr>mapTask := snd (taskClassDeleteRetry (\<lambda>_. True) ch (mapTask s))\<rparr>) w)"
| step_tick: "heap w p = Some s \<Longrightarrow> clearing s \<Longrightarrow> \<not> childCleared s \<Longrightarrow>
    life_event host w (clear_tick host p s w)"
| step_send: "heap w p = Some s \<Longrightarrow> \<not> isDead s \<Longrightarrow>
    life_event host w (upd p (s\<lparr>ref := Suc (ref s)\<rparr>) w)"
| step_written: "heap w p = Some s \<Longrightarrow> 0 < ref s \<Longrightarrow>
    FinishWriteSessionTCP mt p failed w = Some w' \<Longrightarrow> life_event host w w'"
| step_usb: "heap w p = Some s \<Longrightarrow> life_event host w (upd p (s\<lparr>usbBusy := b\<rparr>) w)"
| step_rename: "map_of (wmap w) old = Some p \<Longrightarrow> heap w p = Some s \<Longrightarrow> s_sessionId s = old \<Longrightarrow>
    life_event host w (rename_session sid p s w)"
| step_free: "FreeSession sid w = Some w' \<Longrightarrow> life_event host w w'"
| step_push: "life_event host w (FreeSession_other_thread sid w)"
| step_async: "asyncs w = sid # rest \<Longrightarrow> FreeSession sid (w\<lparr>asyncs := rest\<rparr>) = Some w' \<Longrightarrow>
    life_event host w w'"
| step_callback: "c \<in># pending w \<Longrightarrow> run_callback host c w = Some w' \<Longrightarrow> life_event host w w'"
| step_timer_start: "heap w p = Some s \<Longrightarrow> \<not> isDead s \<Longrightarrow>
    life_event host w (w\<lparr>timers := (t, p) # timers w\<rparr>)"
| step_timer: "(t, p) \<in> set (timers w) \<Longrightarrow> run_timer found t p w = Some w' \<Longrightarrow> life_event host w w'"

definition life_step :: "bool \<Rightarrow> world \<Rightarrow> world \<Rightarrow> bool" where
  "life_step host w w' \<longleftrightarrow> \<not> aborted w \<and> life_event host w w'"

inductive reach :: "bool \<Rightarrow> world \<Rightarrow> bool" for host where
  reach_init: "reach host world0"
| reach_step: "reach host w \<Longrightarrow> life_step host w w' \<Longrightarrow> reach host w'"

section \<open>The invariant\<close>

definition cleared_ok :: "life \<Rightarrow> bool" where
  "cleared_ok s \<longleftrightarrow> (childCleared s \<longrightarrow> clearing s \<and> list_all (\<lambda>(ch, h). taskFree h) (mapTask s))"

definition life_ok :: "callback multiset \<Rightarrow> nat \<Rightarrow> life \<Rightarrow> bool" where
  "life_ok M p s \<longleftrightarrow>
     count M (CB_Opeate p) + count M (CB_Check p) + count M (CB_Finally p) = (if isDead s then 1 else 0)
   \<and> (if count M (CB_Finally p) = 0
      then count M (CB_Close p) = 0 \<and> uvHandleRef s = handles (connType s)
      else uvHandleRef s = count M (CB_Close p))
   \<and> (isDead s \<longrightarrow> count M (CB_Opeate p) = 0 \<longrightarrow> ref s = 0)
   \<and> (count M (CB_Check p) = 1 \<longrightarrow> stopSent s \<and> childLoop s)
   \<and> cleared_ok s"

definition world_ok :: "world \<Rightarrow> bool" where
  "world_ok w \<longleftrightarrow>
     (\<forall>p s. heap w p = Some s \<longrightarrow> life_ok (pending w) p s)
   \<and> (\<forall>c. c \<in># pending w \<longrightarrow> heap w (cb_ptr c) \<noteq> None)
   \<and> finite (dom (heap w)) \<and> wref w = card (dom (heap w))
   \<and> mp_wf (wmap w)
   \<and> (\<forall>k p. map_of (wmap w) k = Some p \<longrightarrow> (\<exists>s. heap w p = Some s \<and> s_sessionId s = k))"

named_theorems life_simps

lemma world_fields [life_simps]:
  "heap (upd p s w) = (heap w)(p := Some s)" "heap (arm c w) = heap w" "heap (disarm c w) = heap w"
  "pending (upd p s w) = pending w" "pending (arm c w) = add_mset c (pending w)"
  "pending (disarm c w) = pending w - {#c#}"
  "wmap (upd p s w) = wmap w" "wmap (arm c w) = wmap w" "wmap (disarm c w) = wmap w"
  "wref (upd p s w) = wref w" "wref (arm c w) = wref w" "wref (disarm c w) = wref w"
  "aborted (upd p s w) = aborted w" "aborted (arm c w) = aborted w" "aborted (disarm c w) = aborted w"
  by (simp_all add: upd_def arm_def disarm_def)

text \<open>Counting the callbacks of another session is not disturbed.\<close>

lemma count_other [life_simps]:
  "cb_ptr c \<noteq> q \<Longrightarrow> cb_ptr d = q \<Longrightarrow> count (add_mset c M) d = count M d"
  "cb_ptr c \<noteq> q \<Longrightarrow> cb_ptr d = q \<Longrightarrow> count (M - {#c#}) d = count M d"
  by auto

lemma life_ok_cong:
  "(\<And>c. cb_ptr c = p \<Longrightarrow> count M' c = count M c) \<Longrightarrow> life_ok M p s \<Longrightarrow> life_ok M' p s"
  by (simp add: life_ok_def)

lemma world_okD: "world_ok w \<Longrightarrow> heap w p = Some s \<Longrightarrow> life_ok (pending w) p s"
  by (simp add: world_ok_def)

lemma world_ok_map:
  "world_ok w \<Longrightarrow> map_of (wmap w) k = Some p \<Longrightarrow> \<exists>s. heap w p = Some s \<and> s_sessionId s = k"
  unfolding world_ok_def by blast

lemma world_ok_parts:
  assumes "world_ok w"
  shows "finite (dom (heap w))" "wref w = card (dom (heap w))" "mp_wf (wmap w)"
    "c \<in># pending w \<Longrightarrow> heap w (cb_ptr c) \<noteq> None"
  using assms by (simp_all add: world_ok_def)

lemma world_okI:
  assumes "\<And>p s. heap w p = Some s \<Longrightarrow> life_ok (pending w) p s"
    "\<And>c. c \<in># pending w \<Longrightarrow> heap w (cb_ptr c) \<noteq> None"
    "finite (dom (heap w))" "wref w = card (dom (heap w))" "mp_wf (wmap w)"
    "\<And>k p. map_of (wmap w) k = Some p \<Longrightarrow> \<exists>s. heap w p = Some s \<and> s_sessionId s = k"
  shows "world_ok w"
  unfolding world_ok_def using assms by (intro conjI allI impI)

text \<open>One session changes, and callbacks of this session only.\<close>

lemma world_ok_update:
  assumes ok: "world_ok w" and s: "heap w p = Some s"
    and h: "heap w' = (heap w)(p := Some s')" and i: "s_sessionId s' = s_sessionId s"
    and m: "wmap w' = wmap w" "wref w' = wref w"
    and o: "\<And>c. cb_ptr c \<noteq> p \<Longrightarrow> count (pending w') c = count (pending w) c"
    and l: "life_ok (pending w') p s'"
  shows "world_ok w'"
proof -
  have 1: "life_ok (pending w') q t" if "heap w' q = Some t" for q t
  proof (cases "q = p")
    case True
    then show ?thesis using that h l by simp
  next
    case False
    then have "life_ok (pending w) q t" using that h ok by (simp add: world_ok_def)
    then show ?thesis by (rule life_ok_cong [rotated]) (use False o in auto)
  qed
  have 2: "heap w' (cb_ptr c) \<noteq> None" if c: "c \<in># pending w'" for c
  proof (cases "cb_ptr c = p")
    case False
    have "0 < count (pending w') c" using c by simp
    then have "c \<in># pending w" using o [OF False] by simp
    then show ?thesis using ok h by (auto simp: world_ok_def)
  qed (simp add: h)
  have "dom (heap w') = dom (heap w)" using h s by auto
  moreover have "\<exists>t. heap w' q = Some t \<and> s_sessionId t = k" if "map_of (wmap w') k = Some q" for k q
    using world_ok_map [OF ok, of k q] that m(1) h s i by auto
  ultimately show ?thesis using ok 1 2 m by (simp add: world_ok_def)
qed

lemma FreeSession_ok:
  assumes "world_ok w" "FreeSession sid w = Some w'"
  shows "world_ok w'"
proof (cases "map_of (wmap w) sid")
  case None
  then show ?thesis using assms by (simp add: FreeSession_def)
next
  case (Some p)
  then obtain s where s: "heap w p = Some s" using world_ok_map [OF assms(1)] by blast
  show ?thesis
  proof (cases "isDead s")
    case True
    then show ?thesis using assms Some s by (simp add: FreeSession_def)
  next
    case False
    then have w': "w' = (arm (CB_Opeate p) (upd p (s\<lparr>isDead := True\<rparr>) w))
        \<lparr>notified := (s_sessionId s, False) # notified w\<rparr>"
      using assms Some s by (simp add: FreeSession_def)
    have "life_ok (add_mset (CB_Opeate p) (pending w)) p (s\<lparr>isDead := True\<rparr>)"
      using world_okD [OF assms(1) s] False by (auto simp: life_ok_def cleared_ok_def split: if_splits)
    then show ?thesis
      by (intro world_ok_update [OF assms(1) s, of w' "s\<lparr>isDead := True\<rparr>"])
        (auto simp: w' life_simps)
  qed
qed

text \<open>What \<open>FreeSessionContinue\<close> arms, and that the handles it counts are those it closes.\<close>

lemma FreeSessionContinue_effect:
  assumes "heap w p = Some s" "uvHandleRef s = handles (connType s)"
  obtains w' s' n where "FreeSessionContinue p w = Some w'" "heap w' = (heap w)(p := Some s')"
    "s_sessionId s' = s_sessionId s" "isDead s' = isDead s" "ref s' = ref s"
    "uvHandleRef s' = n" "wmap w' = wmap w" "wref w' = wref w" "queued w' = queued w"
    "cleared_ok s' = cleared_ok s" "aborted w' = aborted w"
    "pending w' = pending w + {#CB_Finally p#} + replicate_mset n (CB_Close p)"
proof -
  consider "connType s \<noteq> CONN_TCP" | "connType s = CONN_TCP" "tcpClosing s"
    | "connType s = CONN_TCP" "\<not> tcpClosing s" by blast
  then show ?thesis
  proof cases
    case 1
    show ?thesis
      by (rule that [of "the (FreeSessionContinue p w)" "FreeSessionByConnectType s" 2])
        (use 1 assms in \<open>auto simp: FreeSessionContinue_def close_tcp_def life_simps upd_def arm_def
          FreeSessionByConnectType_def handles_def numeral_2_eq_2 fun_upd_def cleared_ok_def\<close>)
  next
    case 2
    show ?thesis
      by (rule that [of "the (FreeSessionContinue p w)" "s\<lparr>uvHandleRef := uvHandleRef s - 1\<rparr>" 2])
        (use 2 assms in \<open>auto simp: FreeSessionContinue_def close_tcp_def upd_def arm_def
          FreeSessionByConnectType_def handles_def numeral_2_eq_2 fun_upd_def cleared_ok_def\<close>)
  next
    case 3
    show ?thesis
      by (rule that [of "the (FreeSessionContinue p w)" "s\<lparr>tcpClosing := True\<rparr>" 3])
        (use 3 assms in \<open>auto simp: FreeSessionContinue_def close_tcp_def upd_def arm_def
          FreeSessionByConnectType_def handles_def numeral_3_eq_3 fun_upd_def cleared_ok_def\<close>)
  qed
qed

lemma chain_cases:
  assumes "life_ok M p s"
  shows "CB_Opeate p \<in># M \<Longrightarrow> isDead s \<and> count M (CB_Opeate p) = 1 \<and> count M (CB_Check p) = 0
      \<and> count M (CB_Finally p) = 0 \<and> count M (CB_Close p) = 0 \<and> uvHandleRef s = handles (connType s)"
    and "CB_Check p \<in># M \<Longrightarrow> isDead s \<and> count M (CB_Opeate p) = 0 \<and> count M (CB_Check p) = 1
      \<and> count M (CB_Finally p) = 0 \<and> count M (CB_Close p) = 0 \<and> uvHandleRef s = handles (connType s)
      \<and> ref s = 0"
    and "CB_Finally p \<in># M \<Longrightarrow> isDead s \<and> count M (CB_Opeate p) = 0 \<and> count M (CB_Check p) = 0
      \<and> count M (CB_Finally p) = 1 \<and> uvHandleRef s = count M (CB_Close p) \<and> ref s = 0"
    and "CB_Close p \<in># M \<Longrightarrow> CB_Finally p \<in># M"
proof -
  have pos: "c \<in># M \<longleftrightarrow> 0 < count M c" for c by simp
  show "CB_Opeate p \<in># M \<Longrightarrow> isDead s \<and> count M (CB_Opeate p) = 1 \<and> count M (CB_Check p) = 0
      \<and> count M (CB_Finally p) = 0 \<and> count M (CB_Close p) = 0 \<and> uvHandleRef s = handles (connType s)"
    and "CB_Check p \<in># M \<Longrightarrow> isDead s \<and> count M (CB_Opeate p) = 0 \<and> count M (CB_Check p) = 1
      \<and> count M (CB_Finally p) = 0 \<and> count M (CB_Close p) = 0 \<and> uvHandleRef s = handles (connType s)
      \<and> ref s = 0"
    and "CB_Finally p \<in># M \<Longrightarrow> isDead s \<and> count M (CB_Opeate p) = 0 \<and> count M (CB_Check p) = 0
      \<and> count M (CB_Finally p) = 1 \<and> uvHandleRef s = count M (CB_Close p) \<and> ref s = 0"
    and "CB_Close p \<in># M \<Longrightarrow> CB_Finally p \<in># M"
    using assms unfolding pos life_ok_def
    by (auto simp del: count_greater_zero_iff count_eq_zero_iff split: if_splits)
qed

lemma FreeSessionOpeate_ok:
  assumes ok: "world_ok w" and c: "CB_Opeate p \<in># pending w" and s: "heap w p = Some s"
  shows "\<exists>w'. FreeSessionOpeate host p w = Some w' \<and> world_ok w'"
proof -
  note l = world_okD [OF ok s]
  note ch = chain_cases(1) [OF l c]
  consider (wait) "0 < ref s \<or> (host \<and> has_hUSB s \<and> usbBusy s)"
    | (child) "ref s = 0" "\<not> (host \<and> has_hUSB s \<and> usbBusy s)" "childLoop s"
    | (go) "ref s = 0" "\<not> (host \<and> has_hUSB s \<and> usbBusy s)" "\<not> childLoop s" by blast
  then show ?thesis
  proof cases
    case wait
    then show ?thesis using s ok by (auto simp: FreeSessionOpeate_def)
  next
    case child
    let ?w = "disarm (CB_Opeate p) (arm (CB_Check p) (upd p (s\<lparr>stopSent := True\<rparr>) w))"
    have "world_ok ?w"
      by (rule world_ok_update [OF ok s, of _ "s\<lparr>stopSent := True\<rparr>"])
        (use ch child l in \<open>auto simp: life_simps life_ok_def cleared_ok_def\<close>)
    then show ?thesis using s child by (auto simp: FreeSessionOpeate_def)
  next
    case go
    from s have u: "uvHandleRef s = handles (connType s)" using ch by simp
    from FreeSessionContinue_effect [OF s u] obtain w' s' n where e: "FreeSessionContinue p w = Some w'"
      "heap w' = (heap w)(p := Some s')" "s_sessionId s' = s_sessionId s" "isDead s' = isDead s"
      "ref s' = ref s" "uvHandleRef s' = n" "wmap w' = wmap w" "wref w' = wref w"
      "pending w' = pending w + {#CB_Finally p#} + replicate_mset n (CB_Close p)"
      "cleared_ok s' = cleared_ok s" by metis
    have "world_ok (disarm (CB_Opeate p) w')"
      by (rule world_ok_update [OF ok s, of _ s'])
        (use ch go e l in \<open>auto simp: life_simps life_ok_def\<close>)
    then show ?thesis using s go e(1) by (auto simp: FreeSessionOpeate_def)
  qed
qed

lemma callbackCheck_ok:
  assumes ok: "world_ok w" and c: "CB_Check p \<in># pending w" and s: "heap w p = Some s"
  shows "\<exists>w'. callbackCheckFreeSessionContinue p w = Some w' \<and> world_ok w'"
proof (cases "childCleared s")
  case False
  then show ?thesis using s ok by (simp add: callbackCheckFreeSessionContinue_def)
next
  case True
  note l = world_okD [OF ok s]
  note ch = chain_cases(2) [OF l c]
  have s2: "heap (disarm (CB_Check p) w) p = Some s" using s by (simp add: life_simps)
  have u: "uvHandleRef s = handles (connType s)" using ch by simp
  from FreeSessionContinue_effect [OF s2 u] obtain w' s' n where
    e: "FreeSessionContinue p (disarm (CB_Check p) w) = Some w'"
      "heap w' = (heap w)(p := Some s')" "s_sessionId s' = s_sessionId s" "isDead s' = isDead s"
      "ref s' = ref s" "uvHandleRef s' = n" "wmap w' = wmap w" "wref w' = wref w"
      "pending w' = pending w - {#CB_Check p#} + {#CB_Finally p#} + replicate_mset n (CB_Close p)"
      "cleared_ok s' = cleared_ok s"
    by (metis world_fields(3,6,9,12))
  have "world_ok w'"
    by (rule world_ok_update [OF ok s, of _ s'])
      (use ch e l in \<open>auto simp: life_simps life_ok_def\<close>)
  then show ?thesis using s True e(1) by (simp add: callbackCheckFreeSessionContinue_def)
qed

lemma closeSessionTCPHandle_ok:
  assumes ok: "world_ok w" and c: "CB_Close p \<in># pending w" and s: "heap w p = Some s"
  shows "\<exists>w'. closeSessionTCPHandle p w = Some w' \<and> world_ok w'"
proof -
  note l = world_okD [OF ok s]
  note ch = chain_cases(3) [OF l chain_cases(4) [OF l c]]
  have "world_ok (disarm (CB_Close p) (upd p (s\<lparr>uvHandleRef := uvHandleRef s - 1\<rparr>) w))"
    by (rule world_ok_update [OF ok s, of _ "s\<lparr>uvHandleRef := uvHandleRef s - 1\<rparr>"])
      (use ch l in \<open>auto simp: life_simps life_ok_def cleared_ok_def\<close>)
  then show ?thesis using s by (simp add: closeSessionTCPHandle_def)
qed

lemma FreeSessionFinally_ok:
  assumes ok: "world_ok w" and c: "CB_Finally p \<in># pending w" and s: "heap w p = Some s"
  shows "\<exists>w'. FreeSessionFinally p w = Some w' \<and> world_ok w'"
proof (cases "uvHandleRef s = 0")
  case False
  then show ?thesis using s ok by (simp add: FreeSessionFinally_def)
next
  case True
  note l = world_okD [OF ok s]
  note ch = chain_cases(3) [OF l c]
  let ?w = "disarm (CB_Finally p) (w\<lparr>heap := (heap w)(p := None),
      wmap := mp_erase (s_sessionId s) (wmap w), wref := wref w - 1,
      notified := (s_sessionId s, True) # notified w\<rparr>)"
  have none: "cb_ptr c \<noteq> p" if "c \<in># pending ?w" for c
  proof
    assume "cb_ptr c = p"
    moreover have "count (pending ?w) c = 0" if "cb_ptr c = p"
      using that ch True by (cases c) (auto simp: disarm_def count_eq_zero_iff)
    ultimately show False using that by (simp add: count_eq_zero_iff)
  qed
  have 1: "life_ok (pending ?w) q t" if "heap ?w q = Some t" for q t
  proof -
    have q: "q \<noteq> p" "heap w q = Some t" using that by (auto simp: life_simps split: if_splits)
    from world_okD [OF ok q(2)] show ?thesis
      by (rule life_ok_cong [rotated]) (use q(1) in \<open>auto simp: disarm_def\<close>)
  qed
  have 2: "heap ?w (cb_ptr c) \<noteq> None" if "c \<in># pending ?w" for c
  proof -
    have "c \<in># pending w" using that by (auto simp: disarm_def dest: in_diffD)
    then show ?thesis using ok none [OF that] by (auto simp: world_ok_def life_simps)
  qed
  have d: "dom (heap ?w) = dom (heap w) - {p}" by (auto simp: life_simps)
  have 3: "\<exists>t. heap ?w q = Some t \<and> s_sessionId t = k" if m: "map_of (wmap ?w) k = Some q" for k q
  proof -
    have "k \<noteq> s_sessionId s" "map_of (wmap w) k = Some q"
      using m by (auto simp: life_simps map_of_mp_erase split: if_splits)
    with world_ok_map [OF ok this(2)] s show ?thesis by (auto simp: life_simps)
  qed
  have "world_ok ?w"
    using ok 1 2 3 d s by (auto simp: world_ok_def life_simps mp_wf_erase card_Diff_singleton domI)
  then show ?thesis using s True by (simp add: FreeSessionFinally_def)
qed

lemma run_callback_ok:
  assumes "world_ok w" "c \<in># pending w"
  shows "\<exists>w'. run_callback host c w = Some w' \<and> world_ok w'"
proof -
  obtain s where "heap w (cb_ptr c) = Some s" using assms by (auto simp: world_ok_def)
  then show ?thesis
    using assms FreeSessionOpeate_ok callbackCheck_ok FreeSessionFinally_ok closeSessionTCPHandle_ok
    by (cases c) auto
qed

lemma world_ok_other_fields:
  "world_ok (w\<lparr>queued := q\<rparr>) = world_ok w" "world_ok (w\<lparr>asyncs := a\<rparr>) = world_ok w"
  "world_ok (w\<lparr>timers := t\<rparr>) = world_ok w" "world_ok (w\<lparr>aborted := b\<rparr>) = world_ok w"
  by (simp_all add: world_ok_def)

lemma malloc_life_ok:
  assumes ok: "world_ok w" and p: "heap w p = None"
  shows "world_ok (malloc_life sod ct sid p w)"
proof -
  let ?s = "new_life sod ct sid"
  let ?w = "malloc_life sod ct sid p w"
  have f: "heap ?w = (heap w)(p := Some ?s)" "pending ?w = pending w"
    "wmap ?w = mp_put sid p (wmap w)" "wref ?w = Suc (wref w)"
    by (simp_all add: malloc_life_def life_simps)
  note wf = world_ok_parts(3) [OF ok]
  have none: "cb_ptr c \<noteq> p" if "c \<in># pending w" for c
    using world_ok_parts(4) [OF ok that] p by auto
  then have z: "count (pending w) c = 0" if "cb_ptr c = p" for c
    using that by (metis count_eq_zero_iff)
  have new: "s_sessionId ?s = sid" "isDead ?s = False" "uvHandleRef ?s = handles ct" "connType ?s = ct"
    "cleared_ok ?s"
    by (simp_all add: cleared_ok_def new_life_def new_HdcSession_def HdcSession.defs)
  have "life_ok (pending w) p ?s" using z new by (simp add: life_ok_def)
  moreover have "\<exists>t. heap ?w q = Some t \<and> s_sessionId t = k" if m: "map_of (wmap ?w) k = Some q" for k q
  proof (cases "k = sid")
    case True
    then have "q = p" using m wf by (simp add: f map_of_mp_put)
    then show ?thesis using True new(1) by (simp add: f)
  next
    case False
    then have "map_of (wmap w) k = Some q" using m wf by (simp add: f map_of_mp_put)
    from world_ok_map [OF ok this] p show ?thesis by (auto simp: f)
  qed
  moreover have "card (dom (heap ?w)) = Suc (card (dom (heap w)))"
    using p world_ok_parts(1) [OF ok] by (simp add: f domIff)
  ultimately show ?thesis
    using world_okD [OF ok] world_ok_parts(1,2,4) [OF ok] wf
    by (intro world_okI) (simp_all add: f mp_wf_put split: if_splits)
qed

lemma rename_session_ok:
  assumes ok: "world_ok w" and m: "map_of (wmap w) old = Some p" and s: "heap w p = Some s"
    and o: "s_sessionId s = old"
  shows "world_ok (rename_session sid p s w)"
proof -
  let ?w = "rename_session sid p s w"
  let ?s = "s\<lparr>s_sessionId := sid\<rparr>"
  have f: "heap ?w = (heap w)(p := Some ?s)" "pending ?w = pending w"
    "wmap ?w = mp_put sid p (mp_erase old (wmap w))" "wref ?w = wref w"
    by (simp_all add: rename_session_def life_simps o)
  note wf = world_ok_parts(3) [OF ok]
  have "life_ok (pending w) p ?s" using world_okD [OF ok s] by (simp add: life_ok_def cleared_ok_def)
  moreover have d: "dom (heap ?w) = dom (heap w)" using s by (auto simp: f)
  moreover have "\<exists>t. heap ?w q = Some t \<and> s_sessionId t = k" if mp: "map_of (wmap ?w) k = Some q" for k q
  proof (cases "k = sid")
    case True
    then have "q = p" using mp wf by (simp add: f smap.get_rekey)
    then show ?thesis using True by (simp add: f)
  next
    case False
    then have k: "map_of (wmap w) k = Some q" "k \<noteq> old"
      using mp wf by (simp_all add: f smap.get_rekey split: if_splits)
    from world_ok_map [OF ok k(1)] obtain t where t: "heap w q = Some t" "s_sessionId t = k" by blast
    with k(2) s o have "q \<noteq> p" by auto
    with t show ?thesis by (simp add: f)
  qed
  moreover have "heap ?w (cb_ptr c) \<noteq> None" if "c \<in># pending w" for c
    using world_ok_parts(4) [OF ok that] by (simp add: f)
  ultimately show ?thesis
    using world_okD [OF ok] world_ok_parts(1,2) [OF ok] smap.wf_rekey [OF wf]
    by (intro world_okI) (auto simp: f(1-4) split: if_splits)
qed

lemma written_ok:
  assumes ok: "world_ok w" and s: "heap w p = Some s" and r: "0 < ref s"
    and f: "FinishWriteSessionTCP mt p failed w = Some w'"
  shows "world_ok w'"
proof -
  let ?s = "(if failed \<and> mt then (s\<lparr>ref := ref s - 1\<rparr>)\<lparr>tcpClosing := True\<rparr> else s\<lparr>ref := ref s - 1\<rparr>)"
  have "life_ok (pending w) p ?s"
    using world_okD [OF ok s] by (auto simp: life_ok_def cleared_ok_def)
  then have "world_ok (upd p ?s w)"
    by (intro world_ok_update [OF ok s, of _ ?s]) (simp_all add: life_simps)
  then show ?thesis using f s FreeSession_ok
    by (auto simp: FinishWriteSessionTCP_def Let_def FreeSession_other_thread_def
        world_ok_other_fields split: if_splits)
qed

lemma field_update_ok:
  assumes "world_ok w" "heap w p = Some s"
    and "s_sessionId s' = s_sessionId s" "isDead s' = isDead s" "connType s' = connType s"
      "uvHandleRef s' = uvHandleRef s" "stopSent s \<Longrightarrow> stopSent s'"
      "childLoop s \<Longrightarrow> childLoop s'" "isDead s \<Longrightarrow> ref s' = ref s" "cleared_ok s \<Longrightarrow> cleared_ok s'"
  shows "world_ok (upd p s' w)"
  by (rule world_ok_update [OF assms(1,2), of _ s'])
    (use world_okD [OF assms(1,2)] assms(3-) in \<open>auto simp: life_simps life_ok_def split: if_splits\<close>)

lemma clearTask_done: "clearTaskForSessionFinish m = (True, m', v) \<Longrightarrow> list_all (\<lambda>(ch, h). taskFree h) m'"
  by (induction m arbitrary: m' v rule: clearTaskForSessionFinish.induct)
    (auto simp: Let_def split: if_splits prod.splits)

lemma clear_tick_ok:
  assumes "world_ok w" "heap w p = Some s" "clearing s" "\<not> childCleared s"
  shows "world_ok (clear_tick host p s w)"
proof -
  obtain d m v where c: "clearTaskForSessionFinish (mapTask s) = (d, m, v)" by (metis prod_cases3)
  have "world_ok (upd p (s\<lparr>mapTask := m, childCleared := d, voteReset := voteReset s \<or> 0 < v\<rparr>) w)"
    by (rule field_update_ok [OF assms(1,2)])
      (use assms(3) c clearTask_done in \<open>auto simp: cleared_ok_def\<close>)
  then show ?thesis by (simp add: clear_tick_def c world_ok_other_fields)
qed

lemma run_timer_ok:
  assumes ok: "world_ok w" and r: "run_timer found t p w = Some w'"
  shows "world_ok w'"
proof -
  obtain s where s: "heap w p = Some s"
    using r by (cases t) (auto simp: UsbPreConnect_def UartPreConnect_def funcNewSessionUp_def bind_eq_Some_conv)
  have u: "world_ok (upd p (s\<lparr>retryCount := n\<rparr>) w)" for n
    by (rule field_update_ok [OF ok s]) (simp_all add: cleared_ok_def)
  show ?thesis
    using r s FreeSession_ok [OF u] FreeSession_ok [OF ok] u ok
    by (cases t) (auto simp: UsbPreConnect_def UartPreConnect_def funcNewSessionUp_def Let_def
        stop_timer_def world_ok_other_fields split: if_splits)
qed

lemma life_event_ok:
  assumes "life_event host w w'" "world_ok w"
  shows "world_ok w'"
  using assms
proof cases
  case (step_worker p s)
  then show ?thesis using field_update_ok [of "w\<lparr>queued := removeAll p (queued w)\<rparr>" p s "s\<lparr>childLoop := True\<rparr>"]
      assms(2) by (simp add: world_ok_other_fields cleared_ok_def)
next
  case (step_callback c)
  then show ?thesis using run_callback_ok [OF assms(2), of c host] by auto
next
  case (step_async sid rest)
  then show ?thesis using FreeSession_ok [of "w\<lparr>asyncs := rest\<rparr>" sid w'] assms(2)
    by (simp add: world_ok_other_fields)
next
  case (step_malloc p ct sod sid)
  then show ?thesis using malloc_life_ok [OF assms(2)] by simp
next
  case (step_rename old p s sid)
  then show ?thesis using rename_session_ok [OF assms(2)] by simp
next
  case (step_written p s mt failed)
  then show ?thesis using written_ok [OF assms(2)] by blast
next
  case (step_free sid)
  then show ?thesis using FreeSession_ok [OF assms(2)] by blast
next
  case (step_tasks p s m)
  then have "\<not> childCleared s" using world_okD [OF assms(2)] by (auto simp: life_ok_def cleared_ok_def)
  then show ?thesis using step_tasks field_update_ok [OF assms(2), of p s "s\<lparr>mapTask := m\<rparr>"]
    by (simp add: cleared_ok_def)
next
  case (step_clear p s f)
  then show ?thesis
    using field_update_ok [OF assms(2), of p s "begin_clear f s"] by (simp add: cleared_ok_def begin_clear_def)
next
  case (step_ready p s ch h)
  then show ?thesis using field_update_ok [OF assms(2), of p s] by (simp add: cleared_ok_def)
next
  case (step_tick p s)
  then show ?thesis using clear_tick_ok [OF assms(2)] by simp
next
  case (step_send p s)
  then show ?thesis using field_update_ok [OF assms(2), of p s "s\<lparr>ref := Suc (ref s)\<rparr>"] by (simp add: cleared_ok_def)
next
  case (step_usb p s b)
  then show ?thesis using field_update_ok [OF assms(2)] by (simp add: cleared_ok_def)
next
  case (step_timer t p found)
  then show ?thesis using run_timer_ok [OF assms(2)] by blast
qed (use assms(2) in \<open>simp_all add: world_ok_other_fields FreeSession_other_thread_def\<close>)

lemma life_step_ok: "life_step host w w' \<Longrightarrow> world_ok w \<Longrightarrow> world_ok w'"
  by (auto simp: life_step_def dest: life_event_ok)

lemma world0_ok: "world_ok world0"
  by (simp add: world_ok_def world0_def mp_wf_Nil)

lemma reach_ok: "reach host w \<Longrightarrow> world_ok w"
  by (induction rule: reach.induct) (auto simp: world0_ok dest: life_step_ok)

section \<open>The properties\<close>

text \<open>
  C7. Whatever the order of the events, no callback of the chain that releases a session
  (\<open>FreeSessionOpeate\<close>, \<open>callbackCheckFreeSessionContinue\<close>, \<open>FreeSessionFinally\<close> and the closed
  handles) ever runs on a session that has been deleted, and each of them runs to its end. The timers
  that connect a session are not part of the chain (\<open>connecting_timer_may_outlive_session\<close>).
\<close>

theorem callbacks_reach_live_sessions:
  assumes "reach host w" "c \<in># pending w"
  shows "heap w (cb_ptr c) \<noteq> None \<and> run_callback host c w \<noteq> None"
  using run_callback_ok [OF reach_ok [OF assms(1)] assms(2), of host]
    world_ok_parts(4) [OF reach_ok [OF assms(1)] assms(2)] by auto

text \<open>
  C8. A session is being released by exactly one link of the chain once it is dead, and by none
  before; it is deleted only with no write in flight, no handle open and no close outstanding.
\<close>

theorem release_chain_unique:
  assumes "reach host w" "heap w p = Some s"
  shows "count (pending w) (CB_Opeate p) + count (pending w) (CB_Check p)
       + count (pending w) (CB_Finally p) = (if isDead s then 1 else 0)
    \<and> (CB_Finally p \<in># pending w \<and> FreeSessionFinally p w = Some w' \<and> heap w' p = None \<longrightarrow>
        ref s = 0 \<and> uvHandleRef s = 0 \<and> CB_Close p \<notin># pending w)"
proof -
  note l = world_okD [OF reach_ok [OF assms(1)] assms(2)]
  have "ref s = 0 \<and> uvHandleRef s = 0 \<and> CB_Close p \<notin># pending w"
    if c: "CB_Finally p \<in># pending w" and f: "FreeSessionFinally p w = Some w'" "heap w' p = None"
  proof -
    have "uvHandleRef s = 0" using f assms(2) by (auto simp: FreeSessionFinally_def split: if_splits)
    then show ?thesis using chain_cases(3) [OF l c] by (simp add: count_eq_zero_iff)
  qed
  then show ?thesis using l by (simp add: life_ok_def)
qed

text \<open>
  The counter that \<open>ReMainLoopForInstanceClear\<close> waits for is the number of session objects,
  so the loop ends exactly when all of them have been deleted.
\<close>

theorem sessionRef_counts_sessions:
  assumes "reach host w"
  shows "wref w = card (dom (heap w)) \<and> (wref w = 0 \<longleftrightarrow> (\<forall>p. heap w p = None))"
proof -
  note p = world_ok_parts(1,2) [OF reach_ok [OF assms]]
  then have "wref w = 0 \<longleftrightarrow> dom (heap w) = {}" by simp
  then show ?thesis using p by auto
qed

section \<open>The release completes\<close>

lemma FreeSession_aborted: "FreeSession sid w = Some w' \<Longrightarrow> aborted w' = aborted w"
  by (auto simp: FreeSession_def bind_eq_Some_conv life_simps split: option.splits if_splits)

lemma run_callback_aborted: "run_callback host c w = Some w' \<Longrightarrow> aborted w' = aborted w"
  by (cases c) (auto simp: FreeSessionOpeate_def FreeSessionContinue_def close_tcp_def
      callbackCheckFreeSessionContinue_def FreeSessionFinally_def closeSessionTCPHandle_def
      bind_eq_Some_conv Let_def life_simps split: if_splits)

lemma callback_step:
  "run_callback host c w = Some w' \<Longrightarrow> c \<in># pending w \<Longrightarrow> \<not> aborted w \<Longrightarrow>
    life_step host w w' \<and> \<not> aborted w'"
  using step_callback [of c w host w'] run_callback_aborted [of host c w w'] by (simp add: life_step_def)

lemma event_step: "life_event host w w' \<Longrightarrow> \<not> aborted w \<Longrightarrow> life_step host w w'"
  by (simp add: life_step_def)

lemma in_minus_other: "c \<noteq> d \<Longrightarrow> c \<in># M \<Longrightarrow> c \<in># M - {#d#}"
  by (simp add: in_diff_count)

text \<open>The last stage: every close callback runs, then the session is deleted.\<close>

lemma release_from_finally:
  assumes "world_ok w" "heap w p = Some s" "CB_Finally p \<in># pending w" "\<not> aborted w"
  shows "\<exists>w'. (life_step host)\<^sup>*\<^sup>* w w' \<and> heap w' p = None"
  using assms
proof (induction "count (pending w) (CB_Close p)" arbitrary: w s)
  case 0
  note ch = chain_cases(3) [OF world_okD [OF 0(2,3)] 0(4)]
  have z: "uvHandleRef s = 0" using ch 0(1) by simp
  obtain w' where f: "FreeSessionFinally p w = Some w'" "heap w' p = None"
    using z 0(3) by (simp add: FreeSessionFinally_def life_simps)
  have "life_step host w w'" using f(1) 0(4,5) callback_step [of host "CB_Finally p"] by simp
  then show ?case using f(2) by blast
next
  case (Suc n)
  note ok = Suc.prems(1) and s = Suc.prems(2)
  have c: "CB_Close p \<in># pending w" using Suc(2) by (metis count_inI nat.simps(3))
  obtain w1 where f: "closeSessionTCPHandle p w = Some w1" "world_ok w1"
    using closeSessionTCPHandle_ok [OF ok c s] by blast
  have w1: "w1 = disarm (CB_Close p) (upd p (s\<lparr>uvHandleRef := uvHandleRef s - 1\<rparr>) w)"
    using f(1) s by (simp add: closeSessionTCPHandle_def)
  have n: "n = count (pending w1) (CB_Close p)" using Suc(2) by (simp add: w1 life_simps)
  have p1: "heap w1 p = Some (s\<lparr>uvHandleRef := uvHandleRef s - 1\<rparr>)" "CB_Finally p \<in># pending w1"
    "\<not> aborted w1"
    using Suc.prems(3,4) by (simp_all add: w1 life_simps in_minus_other)
  from Suc(1) [OF n f(2) p1] obtain w' where "(life_step host)\<^sup>*\<^sup>* w1 w'" "heap w' p = None" by blast
  moreover have "life_step host w w1"
    using f(1) c Suc.prems(4) callback_step [of host "CB_Close p"] by simp
  ultimately show ?case by (meson converse_rtranclp_into_rtranclp)
qed

lemma FreeSessionContinue_finally:
  assumes "heap w p = Some s" "uvHandleRef s = handles (connType s)" "FreeSessionContinue p w = Some w'"
  shows "\<exists>s'. heap w' p = Some s' \<and> CB_Finally p \<in># pending w'"
proof -
  from FreeSessionContinue_effect [OF assms(1,2)] obtain w2 s' n where
    "FreeSessionContinue p w = Some w2" "heap w2 = (heap w)(p := Some s')"
    "pending w2 = pending w + {#CB_Finally p#} + replicate_mset n (CB_Close p)" by metis
  then show ?thesis using assms(3) by simp
qed

text \<open>The work thread: it stops its tasks, they become ready one by one, and a tick finds none left.\<close>

lemma length_mp_erase_less: "map_of m k = Some v \<Longrightarrow> length (mp_erase k m) < length m"
  unfolding mp_erase_def by (rule length_filter_less [of "(k, v)"]) (auto dest: map_of_SomeD)

lemma tasks_drain:
  assumes "heap w p = Some s" "clearing s" "\<not> childCleared s" "CB_Check p \<in># pending w" "world_ok w"
    "\<not> aborted w"
  shows "\<exists>w' s'. (life_step host)\<^sup>*\<^sup>* w w' \<and> world_ok w' \<and> heap w' p = Some s' \<and> childCleared s'
    \<and> CB_Check p \<in># pending w' \<and> \<not> aborted w'"
  using assms
proof (induction "length (mapTask s)" arbitrary: w s rule: less_induct)
  case less
  note s = less.prems(1)
  show ?case
  proof (cases "mapTask s")
    case Nil
    let ?w = "clear_tick host p s w"
    have 1: "life_step host w ?w" using s less.prems(2,3,6) by (intro event_step step_tick)
    moreover have "heap ?w p = Some (s\<lparr>mapTask := [], childCleared := True\<rparr>)" "CB_Check p \<in># pending ?w"
      "\<not> aborted ?w"
      using less.prems(4,6) Nil by (simp_all add: clear_tick_def life_simps)
    ultimately show ?thesis using life_step_ok [OF 1 less.prems(5)]
      by (intro exI [of _ ?w] exI [of _ "s\<lparr>mapTask := [], childCleared := True\<rparr>"]) auto
  next
    case (Cons e m)
    obtain ch h where e: "e = (ch, h)" by (cases e)
    let ?s = "s\<lparr>mapTask := mp_erase ch (mapTask s)\<rparr>"
    let ?w = "upd p ?s w"
    have m: "map_of (mapTask s) ch = Some h" using Cons e by simp
    then have "snd (taskClassDeleteRetry (\<lambda>_. True) ch (mapTask s)) = mp_erase ch (mapTask s)"
      by (simp add: taskClassDeleteRetry_def)
    then have 1: "life_step host w ?w"
      using step_ready [OF s less.prems(2,3) m, of host] less.prems(6) by (simp add: life_step_def)
    have "length (mapTask ?s) < length (mapTask s)" using length_mp_erase_less [OF m] by simp
    from less.hyps [OF this, of ?w] less.prems life_step_ok [OF 1 less.prems(5)]
    obtain w' s' where "(life_step host)\<^sup>*\<^sup>* ?w w'" "world_ok w'" "heap w' p = Some s'" "childCleared s'"
      "CB_Check p \<in># pending w'" "\<not> aborted w'" by (auto simp: life_simps)
    with 1 show ?thesis by (meson converse_rtranclp_into_rtranclp)
  qed
qed

lemma work_thread_ends:
  assumes ok: "world_ok w" and s: "heap w p = Some s" and c: "CB_Check p \<in># pending w" and a: "\<not> aborted w"
  shows "\<exists>w' s'. (life_step host)\<^sup>*\<^sup>* w w' \<and> world_ok w' \<and> heap w' p = Some s' \<and> childCleared s'
    \<and> CB_Check p \<in># pending w' \<and> \<not> aborted w'"
proof (cases "childCleared s")
  case True
  then show ?thesis using assms by blast
next
  case nc: False
  show ?thesis
  proof (cases "clearing s")
    case True
    then show ?thesis using tasks_drain [OF s True nc c ok a] by blast
  next
    case False
    let ?s = "begin_clear id s"
    have "stopSent s \<and> childLoop s"
      using world_okD [OF ok s] chain_cases(2) [OF world_okD [OF ok s] c] by (simp add: life_ok_def)
    then have 1: "life_step host w (upd p ?s w)"
      using s False a by (intro event_step step_clear) simp_all
    have "heap (upd p ?s w) p = Some ?s" "clearing ?s" "\<not> childCleared ?s" "CB_Check p \<in># pending (upd p ?s w)"
      "\<not> aborted (upd p ?s w)" using nc c a by (simp_all add: life_simps begin_clear_def)
    from tasks_drain [OF this(1-4) life_step_ok [OF 1 ok] this(5), of host] 1 show ?thesis
      by (meson converse_rtranclp_into_rtranclp)
  qed
qed

lemma release_from_check:
  assumes ok: "world_ok w" and s: "heap w p = Some s" and c: "CB_Check p \<in># pending w" and a: "\<not> aborted w"
  shows "\<exists>w'. (life_step host)\<^sup>*\<^sup>* w w' \<and> heap w' p = None"
proof -
  from work_thread_ends [OF assms] obtain w1 s1 where 1: "(life_step host)\<^sup>*\<^sup>* w w1" "world_ok w1"
    "heap w1 p = Some s1" "childCleared s1" "CB_Check p \<in># pending w1" "\<not> aborted w1" by blast
  note ch = chain_cases(2) [OF world_okD [OF 1(2,3)] 1(5)]
  obtain w2 where 2: "callbackCheckFreeSessionContinue p w1 = Some w2" "world_ok w2"
    using callbackCheck_ok [OF 1(2,5,3)] by blast
  have d: "FreeSessionContinue p (disarm (CB_Check p) w1) = Some w2"
    using 2(1) 1(3,4) by (simp add: callbackCheckFreeSessionContinue_def)
  have h: "heap (disarm (CB_Check p) w1) p = Some s1" "uvHandleRef s1 = handles (connType s1)"
    using ch 1(3) by (simp_all add: life_simps)
  obtain s2 where s2: "heap w2 p = Some s2" "CB_Finally p \<in># pending w2"
    using FreeSessionContinue_finally [OF h d] by blast
  have st: "life_step host w1 w2" "\<not> aborted w2"
    using callback_step [of host "CB_Check p" w1 w2] 2(1) 1(5,6) by simp_all
  from release_from_finally [OF 2(2) s2 st(2)] obtain w' where
    "(life_step host)\<^sup>*\<^sup>* w2 w'" "heap w' p = None" by blast
  with 1(1) st(1) show ?thesis by (meson converse_rtranclp_into_rtranclp rtranclp_trans)
qed

lemma release_from_opeate:
  assumes ok: "world_ok w" and s: "heap w p = Some s" and c: "CB_Opeate p \<in># pending w"
    and r: "ref s = 0" and u: "\<not> usbBusy s" and a: "\<not> aborted w"
  shows "\<exists>w'. (life_step host)\<^sup>*\<^sup>* w w' \<and> heap w' p = None"
proof -
  obtain w1 where f: "FreeSessionOpeate host p w = Some w1" "world_ok w1"
    using FreeSessionOpeate_ok [OF ok c s] by blast
  have 1: "life_step host w w1" "\<not> aborted w1"
    using f(1) c a callback_step [of host "CB_Opeate p" w w1] by simp_all
  have "\<exists>s1. heap w1 p = Some s1 \<and> (CB_Check p \<in># pending w1 \<or> CB_Finally p \<in># pending w1)"
  proof (cases "childLoop s")
    case True
    then show ?thesis using f(1) s r u by (auto simp: FreeSessionOpeate_def life_simps)
  next
    case False
    have h: "uvHandleRef s = handles (connType s)" using chain_cases(1) [OF world_okD [OF ok s] c] by simp
    from False obtain w2 where "FreeSessionContinue p w = Some w2" "w1 = disarm (CB_Opeate p) w2"
      using f(1) s r u by (auto simp: FreeSessionOpeate_def)
    then show ?thesis
      using FreeSessionContinue_finally [OF s h] by (auto simp: life_simps in_minus_other)
  qed
  then obtain w' where "(life_step host)\<^sup>*\<^sup>* w1 w'" "heap w' p = None"
    using release_from_check [OF f(2) _ _ 1(2)] release_from_finally [OF f(2) _ _ 1(2)] by blast
  with 1(1) show ?thesis by (meson converse_rtranclp_into_rtranclp)
qed

text \<open>The writes in flight of a dead session finish, and its USB transfers are shut down.\<close>

lemma writes_drain:
  assumes "world_ok w" "heap w p = Some s" "isDead s" "CB_Opeate p \<in># pending w" "\<not> usbBusy s"
    "\<not> aborted w"
  shows "\<exists>w' s'. (life_step host)\<^sup>*\<^sup>* w w' \<and> world_ok w' \<and> heap w' p = Some s' \<and> ref s' = 0
    \<and> \<not> usbBusy s' \<and> CB_Opeate p \<in># pending w' \<and> \<not> aborted w'"
  using assms
proof (induction "ref s" arbitrary: w s)
  case 0
  have "0 = ref s" by (rule 0(1))
  with 0 show ?case by (intro exI [of _ w] exI [of _ s]) simp
next
  case (Suc n)
  let ?s = "s\<lparr>ref := ref s - 1\<rparr>"
  let ?w = "upd p ?s w"
  have f: "FinishWriteSessionTCP True p False w = Some ?w"
    using Suc.prems by (simp add: FinishWriteSessionTCP_def)
  have 1: "life_step host w ?w" using Suc(2) Suc.prems(2,6) f
    by (intro event_step step_written [of w p s]) simp_all
  have "n = ref ?s" using Suc(2) by simp
  from Suc(1) [OF this life_step_ok [OF 1 Suc.prems(1)]] Suc.prems
  obtain w' s' where "(life_step host)\<^sup>*\<^sup>* ?w w'" "world_ok w'" "heap w' p = Some s'" "ref s' = 0"
    "\<not> usbBusy s'" "CB_Opeate p \<in># pending w'" "\<not> aborted w'" by (auto simp: life_simps)
  with 1 show ?case by (meson converse_rtranclp_into_rtranclp)
qed

text \<open>
  C10. From every reachable state in which no vote has ended the process, a session that \<open>FreeSession\<close>
  has marked can be brought to its deletion: its writes finish, its tasks become ready for release one
  by one, and no order of the events before has blocked the chain. The chain does wait: where the work
  thread runs, it goes on only when every task has been released. A task that never becomes ready holds
  it up, and on the daemon ends the process after thirty ticks (\<open>stuck_task_resets_daemon\<close>).
\<close>

theorem release_completes:
  assumes "reach host w" "heap w p = Some s" "isDead s"
  shows "(\<not> aborted w \<longrightarrow> (\<exists>w'. (life_step host)\<^sup>*\<^sup>* w w' \<and> heap w' p = None))
    \<and> (CB_Check p \<in># pending w \<and> callbackCheckFreeSessionContinue p w = Some w1 \<and> w1 \<noteq> w \<longrightarrow>
         list_all (\<lambda>(ch, h). taskFree h) (mapTask s))"
proof (intro conjI impI)
  note ok = reach_ok [OF assms(1)]
  assume a: "\<not> aborted w"
  have "count (pending w) (CB_Opeate p) + count (pending w) (CB_Check p)
      + count (pending w) (CB_Finally p) = 1"
    using world_okD [OF ok assms(2)] assms(3) by (simp add: life_ok_def)
  then consider "CB_Opeate p \<in># pending w" | "CB_Check p \<in># pending w" | "CB_Finally p \<in># pending w"
    by (metis add.right_neutral count_inI zero_neq_one)
  then show "\<exists>w'. (life_step host)\<^sup>*\<^sup>* w w' \<and> heap w' p = None"
  proof cases
    case 1
    let ?s = "s\<lparr>usbBusy := False\<rparr>"
    let ?w = "upd p ?s w"
    have u: "life_step host w ?w" using assms(2) a by (intro event_step step_usb)
    have h: "heap ?w p = Some ?s" "isDead ?s" "CB_Opeate p \<in># pending ?w" "\<not> usbBusy ?s" "\<not> aborted ?w"
      using 1 assms(3) a by (simp_all add: life_simps)
    from writes_drain [OF life_step_ok [OF u ok] h, of host] obtain w1 s1 where
      w1: "(life_step host)\<^sup>*\<^sup>* ?w w1" "world_ok w1" "heap w1 p = Some s1" "ref s1 = 0"
        "\<not> usbBusy s1" "CB_Opeate p \<in># pending w1" "\<not> aborted w1" by blast
    from release_from_opeate [OF w1(2,3,6,4,5,7), of host] obtain w2 where
      "(life_step host)\<^sup>*\<^sup>* w1 w2" "heap w2 p = None" by blast
    with u w1(1) show ?thesis by (meson converse_rtranclp_into_rtranclp rtranclp_trans)
  qed (use release_from_check [OF ok assms(2) _ a] release_from_finally [OF ok assms(2) _ a] in blast)+
next
  assume "CB_Check p \<in># pending w \<and> callbackCheckFreeSessionContinue p w = Some w1 \<and> w1 \<noteq> w"
  then have "childCleared s" using assms(2) by (auto simp: callbackCheckFreeSessionContinue_def split: if_splits)
  then show "list_all (\<lambda>(ch, h). taskFree h) (mapTask s)"
    using world_okD [OF reach_ok [OF assms(1)] assms(2)] by (simp add: life_ok_def cleared_ok_def)
qed

section \<open>A concrete life\<close>

fun run_callbacks :: "bool \<Rightarrow> callback list \<Rightarrow> world \<Rightarrow> world option" where
  "run_callbacks host [] w = Some w"
| "run_callbacks host (c # cs) w =
     (if c \<in># pending w then Option.bind (run_callback host c w) (run_callbacks host cs) else None)"

lemma run_callbacks_reach:
  "reach host w \<Longrightarrow> \<not> aborted w \<Longrightarrow> run_callbacks host cs w = Some w' \<Longrightarrow> reach host w'"
proof (induction cs arbitrary: w)
  case (Cons c cs)
  then obtain w1 where "c \<in># pending w" "run_callback host c w = Some w1" "run_callbacks host cs w1 = Some w'"
    by (auto simp: bind_eq_Some_conv split: if_splits)
  moreover have "life_step host w w1 \<and> \<not> aborted w1"
    by (rule callback_step [of _ c]) (use calculation Cons.prems(2) in simp_all)
  ultimately show ?case using Cons.IH [of w1] Cons.prems(1) by (meson reach_step)
qed simp

text \<open>A session whose work thread is queued but has not run when the session is freed.\<close>

definition queued_session :: world where
  "queued_session = (malloc_life False CONN_USB 7 0 world0)\<lparr>queued := [0]\<rparr>"

definition freed_session :: world where
  "freed_session = (arm (CB_Opeate 0)
      (upd 0 ((new_life False CONN_USB 7)\<lparr>isDead := True\<rparr>) queued_session))
     \<lparr>notified := [(7, False)]\<rparr>"

lemma queued_session_reach: "reach host queued_session"
proof -
  have "life_step host world0 (malloc_life False CONN_USB 7 0 world0)"
    by (intro event_step step_malloc) (simp_all add: world0_def)
  moreover have "life_step host (malloc_life False CONN_USB 7 0 world0) queued_session"
  proof -
    let ?w = "malloc_life False CONN_USB 7 0 world0"
    have "heap ?w 0 = Some (new_life False CONN_USB 7)" "\<not> isDead (new_life False CONN_USB 7)"
      "queued ?w = []" "\<not> aborted ?w"
      by (simp_all add: malloc_life_def upd_def new_life_def new_HdcSession_def HdcSession.defs world0_def)
    then show ?thesis using step_queue [of ?w 0 _ host] by (simp add: queued_session_def life_step_def)
  qed
  ultimately show ?thesis by (meson reach_init reach_step)
qed

lemma freed_session_reach: "reach host freed_session"
proof -
  have "FreeSession 7 queued_session = Some freed_session"
    by (simp add: FreeSession_def freed_session_def queued_session_def malloc_life_def upd_def arm_def
        world0_def new_life_def new_HdcSession_def HdcSession.defs)
  moreover have "\<not> aborted queued_session"
    by (simp add: queued_session_def malloc_life_def upd_def world0_def)
  ultimately show ?thesis using queued_session_reach by (meson reach_step step_free event_step)
qed

lemma freed_session_runs:
  "\<exists>w. run_callbacks host [CB_Opeate 0, CB_Close 0, CB_Close 0, CB_Finally 0] freed_session = Some w
     \<and> heap w = (\<lambda>_. None) \<and> queued w = [0] \<and> wref w = 0 \<and> wmap w = []
     \<and> notified w = [(7, True), (7, False)]"
  by (simp add: freed_session_def queued_session_def malloc_life_def FreeSessionOpeate_def
      FreeSessionContinue_def close_tcp_def closeSessionTCPHandle_def FreeSessionFinally_def
      FreeSessionByConnectType_def new_life_def new_HdcSession_def HdcSession.defs upd_def arm_def
      disarm_def world0_def handles_def mp_erase_def fun_eq_iff)

lemma freed_session_alive: "\<not> aborted freed_session"
  by (simp add: freed_session_def queued_session_def malloc_life_def upd_def arm_def world0_def)

text \<open>
  The chain does not wait for a work thread that is still queued in the thread pool: a
  session can be deleted before its \<open>SessionWorkThread\<close> has started, which then runs on the
  deleted object.
\<close>

theorem work_thread_may_outlive_session:
  "\<exists>w. reach host w \<and> heap w 0 = None \<and> 0 \<in> set (queued w)"
proof -
  obtain w where "run_callbacks host [CB_Opeate 0, CB_Close 0, CB_Close 0, CB_Finally 0] freed_session = Some w"
    "heap w = (\<lambda>_. None)" "queued w = [0]" using freed_session_runs by blast
  then have "reach host w \<and> heap w 0 = None \<and> 0 \<in> set (queued w)"
    using run_callbacks_reach [OF freed_session_reach freed_session_alive] by (simp del: run_callbacks.simps)
  then show ?thesis ..
qed

text \<open>
  Nor does it know of the timers that connect a session: one that is freed meanwhile is deleted, and
  the timer, which is still armed, then reads it.
\<close>

definition connecting_session :: world where
  "connecting_session = (malloc_life True CONN_USB 7 0 world0)\<lparr>timers := [(T_Usb, 0)]\<rparr>"

definition freed_connecting :: world where
  "freed_connecting = (arm (CB_Opeate 0)
      (upd 0 ((new_life True CONN_USB 7)\<lparr>isDead := True\<rparr>) connecting_session))\<lparr>notified := [(7, False)]\<rparr>"

lemma freed_connecting_runs:
  "\<exists>w. run_callbacks host [CB_Opeate 0, CB_Close 0, CB_Close 0, CB_Finally 0] freed_connecting = Some w
     \<and> heap w = (\<lambda>_. None) \<and> timers w = [(T_Usb, 0)]"
  by (simp add: freed_connecting_def connecting_session_def malloc_life_def FreeSessionOpeate_def
      FreeSessionContinue_def close_tcp_def closeSessionTCPHandle_def FreeSessionFinally_def
      FreeSessionByConnectType_def new_life_def new_HdcSession_def HdcSession.defs upd_def arm_def
      disarm_def world0_def handles_def mp_erase_def fun_eq_iff)

lemma freed_connecting_reach: "reach host freed_connecting \<and> \<not> aborted freed_connecting"
proof -
  let ?w = "malloc_life True CONN_USB 7 0 world0"
  have a: "\<not> aborted world0" "\<not> aborted ?w" "\<not> aborted connecting_session" "\<not> aborted freed_connecting"
    by (simp_all add: freed_connecting_def connecting_session_def malloc_life_def upd_def arm_def world0_def)
  have s: "heap ?w 0 = Some (new_life True CONN_USB 7)" "\<not> isDead (new_life True CONN_USB 7)" "timers ?w = []"
    by (simp_all add: malloc_life_def upd_def new_life_def new_HdcSession_def HdcSession.defs world0_def)
  have 1: "life_step host world0 ?w" using a by (intro event_step step_malloc) (simp_all add: world0_def)
  have 2: "life_step host ?w connecting_session"
    using step_timer_start [OF s(1,2), of host T_Usb] a s(3) by (simp add: connecting_session_def life_step_def)
  have "FreeSession 7 connecting_session = Some freed_connecting"
    by (simp add: FreeSession_def freed_connecting_def connecting_session_def malloc_life_def upd_def arm_def
        world0_def new_life_def new_HdcSession_def HdcSession.defs)
  then have 3: "life_step host connecting_session freed_connecting" using a by (intro event_step step_free)
  show ?thesis using reach_step [OF reach_step [OF reach_step [OF reach_init 1] 2] 3] a by blast
qed

theorem connecting_timer_may_outlive_session:
  "\<exists>w. reach host w \<and> (T_Usb, 0) \<in> set (timers w) \<and> heap w 0 = None \<and> run_timer found T_Usb 0 w = None"
proof -
  obtain w where "run_callbacks host [CB_Opeate 0, CB_Close 0, CB_Close 0, CB_Finally 0] freed_connecting = Some w"
    "heap w = (\<lambda>_. None)" "timers w = [(T_Usb, 0)]" using freed_connecting_runs by blast
  moreover have "reach host w"
    by (rule run_callbacks_reach [OF conjunct1 conjunct2 calculation(1)]) (rule freed_connecting_reach)+
  ultimately show ?thesis by (intro exI [of _ w]) (simp add: UsbPreConnect_def)
qed

lemma freed_session_dead: "\<exists>s. heap freed_session 0 = Some s \<and> isDead s"
  by (simp add: freed_session_def life_simps arm_def upd_def)

lemma freed_session_armed: "CB_Opeate 0 \<in># pending freed_session"
  by (simp add: freed_session_def arm_def)

theorem callbacks_reach_live_sessions_witness:
  "heap freed_session 0 \<noteq> None \<and> run_callback True (CB_Opeate 0) freed_session \<noteq> None"
  using callbacks_reach_live_sessions [OF freed_session_reach freed_session_armed] by simp

theorem release_completes_witness:
  "\<exists>w'. (life_step True)\<^sup>*\<^sup>* freed_session w' \<and> heap w' 0 = None"
  using release_completes [OF freed_session_reach] freed_session_dead freed_session_alive by blast

theorem release_chain_unique_witness:
  "count (pending freed_session) (CB_Opeate 0) + count (pending freed_session) (CB_Check 0)
     + count (pending freed_session) (CB_Finally 0) = 1"
  using release_chain_unique [OF freed_session_reach [of True]] freed_session_dead by fastforce

theorem sessionRef_counts_sessions_witness: "wref queued_session = card (dom (heap queued_session))"
  using sessionRef_counts_sessions [OF queued_session_reach] by blast

end
