(* ===== verification/Hdc_Transfer.thy ===== *)
theory Hdc_Transfer
  imports Hdc_Messages Hdc_Packet "HOL-Library.Multiset"
begin

text \<open>
  The file transfer of src/src/common/transfer.cpp and src/src/common/file.cpp: a master reads a
  file in blocks and sends each with its offset, a slave writes each block at its offset. File
  operations are requests of libuv that complete later, in any order.
\<close>

section \<open>One block\<close>

definition payloadPrefixReserve :: nat where
  "payloadPrefixReserve = 64"

definition COMPRESS_NONE :: u8 where "COMPRESS_NONE = 0"
definition COMPRESS_LZ4 :: u8 where "COMPRESS_LZ4 = 1"

text \<open>
  The LZ4 library: compression into a buffer of the given size, no bytes when it does not fit;
  decompression into a buffer of the given size, \<open>None\<close> for malformed input.
\<close>

record lz4 =
  LZ4_compress_default :: "bytes \<Rightarrow> nat \<Rightarrow> bytes"
  LZ4_decompress_safe :: "bytes \<Rightarrow> nat \<Rightarrow> bytes option"

definition lz4_laws :: "lz4 \<Rightarrow> bool" where
  "lz4_laws L \<longleftrightarrow>
     (\<forall>d n. length (LZ4_compress_default L d n) \<le> n)
   \<and> (\<forall>d n m. LZ4_compress_default L d n \<noteq> [] \<longrightarrow> length d \<le> m \<longrightarrow>
        LZ4_decompress_safe L (LZ4_compress_default L d n) m = Some d)"

text \<open>The parameter \<open>index\<close> of \<open>SendIOPayload\<close> is an \<open>int\<close>: an offset is cut to 32 bits and extended.\<close>

definition int_index :: "u64 \<Rightarrow> u64" where
  "int_index off = scast (ucast off :: 32 word)"

definition compress_block :: "lz4 \<Rightarrow> u8 \<Rightarrow> bytes \<Rightarrow> bytes" where
  "compress_block L ct d = (if d = [] then []
     else if ct = COMPRESS_LZ4 then LZ4_compress_default L d (length d) else d)"

text \<open>The bytes handed to \<open>SendToAnother\<close>, none when the header does not fit its 64 bytes.\<close>

definition SendIOPayload :: "lz4 \<Rightarrow> u8 \<Rightarrow> u64 \<Rightarrow> bytes \<Rightarrow> bytes option" where
  "SendIOPayload L ct off d =
     (let c = compress_block L ct d;
          head = WriteMessage Descriptor_TransferPayload
            \<lparr> tp_index = int_index off, tp_compressType = ct,
              compressSize = word_of_nat (length c), uncompressSize = word_of_nat (length d) \<rparr>
      in if payloadPrefixReserve < length head + 1 then None
         else Some (head @ replicate (payloadPrefixReserve - length head) 0 @ c))"

text \<open>
  \<open>RecvIOPayload\<close> up to the write: \<open>pld0\<close> is the uninitialised header structure. It takes 64
  bytes of the payload whatever its size, and as many after them as the header tells it to.
  \<open>memcpy_s\<close> refuses an empty or too small destination.
\<close>

datatype 'a received = Block 'a | Rejected | OverRead

definition store_block :: "lz4 \<Rightarrow> TransferPayload \<Rightarrow> bytes \<Rightarrow> (u64 \<times> bytes) received" where
  "store_block L pld data =
     (let csize = unat (compressSize pld); usize = unat (uncompressSize pld);
          src = take csize (drop payloadPrefixReserve data);
          put = (\<lambda>clear. if length clear = usize then Block (tp_index pld, clear) else Rejected)
      in if csize = 0 then put []
         else if length data < payloadPrefixReserve + csize then OverRead
         else if tp_compressType pld = COMPRESS_LZ4 then
           (case LZ4_decompress_safe L src usize of None \<Rightarrow> Rejected | Some clear \<Rightarrow> put clear)
         else if usize < csize \<or> SECUREC_MEM_MAX_LEN < usize then Rejected
         else put src)"

definition RecvIOPayload :: "lz4 \<Rightarrow> TransferPayload \<Rightarrow> bytes \<Rightarrow> (u64 \<times> bytes) received" where
  "RecvIOPayload L pld0 data =
     (if length data < payloadPrefixReserve then OverRead
      else case ParseFromString Descriptor_TransferPayload pld0 (chars_of (take payloadPrefixReserve data)) of
        None \<Rightarrow> Rejected
      | Some (_, pld) \<Rightarrow> store_block L pld data)"

section \<open>A block arrives as it was read\<close>

lemma length_payload_head:
  "length (WriteMessage Descriptor_TransferPayload m) \<le> 45"
proof -
  have t: "length (WriteTagWriteType k w) \<le> 5" for k w
    by (simp add: WriteTagWriteType_def length_WriteVarint_u32)
  have "length (WriteMessage Descriptor_TransferPayload m) =
      length (WriteTagWriteType 1 VARINT) + length (WriteVarint_u64 (tp_index m))
    + length (WriteTagWriteType 2 VARINT) + length (WriteVarint_u32 (ucast (tp_compressType m)))
    + length (WriteTagWriteType 3 VARINT) + length (WriteVarint_u32 (compressSize m))
    + length (WriteTagWriteType 4 VARINT) + length (WriteVarint_u32 (uncompressSize m))"
    by (simp add: WriteMessage_def Descriptor_TransferPayload_def FieldImpl_def scalar_def
        Serializer_uint64_def Serializer_uint32_def Serializer_uint8_def through_def)
  then show ?thesis
    using t [of 1 VARINT] t [of 2 VARINT] t [of 3 VARINT] t [of 4 VARINT]
      length_WriteVarint_u64 [of "tp_index m"] length_WriteVarint_u32 [of "ucast (tp_compressType m)"]
      length_WriteVarint_u32 [of "compressSize m"] length_WriteVarint_u32 [of "uncompressSize m"]
    by linarith
qed

lemma int_index_small: "unat off < 2 ^ 31 \<Longrightarrow> int_index off = off"
proof -
  assume h: "unat off < 2 ^ 31"
  then have "int (unat off) < int (2 ^ 31)" by (simp only: of_nat_less_iff)
  then have u: "uint off < 2 ^ 31" by simp
  have l: "- (2 ^ 31) \<le> uint off" by (rule order_trans [of _ 0]) simp_all
  have "signed_take_bit 31 (uint off) = uint off"
    by (rule signed_take_bit_int_eq_self) (use u l in simp_all)
  moreover have "sint (word_of_int (uint off) :: 32 word) = signed_take_bit (LENGTH(32) - 1) (uint off)"
    by (rule sint_sbintrunc')
  moreover have "LENGTH(32) - 1 = 31" by simp
  ultimately have "sint (word_of_int (uint off) :: 32 word) = uint off" by (simp only:)
  then show ?thesis unfolding int_index_def scast_eq ucast_eq by (simp only: word_of_int_uint)
qed

text \<open>The header always fits, so a block of a size that \<open>int\<close> holds is always sent.\<close>

lemma SendIOPayload_head:
  "SendIOPayload L ct off d = Some
     (WriteMessage Descriptor_TransferPayload
        \<lparr> tp_index = int_index off, tp_compressType = ct,
          compressSize = word_of_nat (length (compress_block L ct d)),
          uncompressSize = word_of_nat (length d) \<rparr>
      @ replicate (payloadPrefixReserve - length (WriteMessage Descriptor_TransferPayload
        \<lparr> tp_index = int_index off, tp_compressType = ct,
          compressSize = word_of_nat (length (compress_block L ct d)),
          uncompressSize = word_of_nat (length d) \<rparr>)) 0
      @ compress_block L ct d)"
proof -
  have "\<not> payloadPrefixReserve < length (WriteMessage Descriptor_TransferPayload m) + 1" for m
    using length_payload_head [of m] by (simp add: payloadPrefixReserve_def)
  then show ?thesis by (simp add: SendIOPayload_def Let_def)
qed

lemma length_compress_block: "lz4_laws L \<Longrightarrow> length (compress_block L ct d) \<le> length d"
  by (simp add: compress_block_def lz4_laws_def)

text \<open>What the slave makes of a block the master sent.\<close>

lemma RecvIOPayload_sent:
  assumes L: "lz4_laws L" and d: "length d < 2 ^ 31"
    and z: "d \<noteq> [] \<Longrightarrow> compress_block L ct d \<noteq> []"
    and s: "SendIOPayload L ct off d = Some p"
  shows "RecvIOPayload L pld0 p = Block (int_index off, d)"
proof -
  let ?c = "compress_block L ct d"
  let ?m = "\<lparr> tp_index = int_index off, tp_compressType = ct,
      compressSize = word_of_nat (length ?c), uncompressSize = word_of_nat (length d) \<rparr>"
  let ?h = "WriteMessage Descriptor_TransferPayload ?m"
  let ?z = "replicate (payloadPrefixReserve - length ?h) 0"
  have p: "p = (?h @ ?z) @ ?c" using s by (simp add: SendIOPayload_head)
  have hz: "length (?h @ ?z) = payloadPrefixReserve"
    using length_payload_head [of ?m] by (simp add: payloadPrefixReserve_def)
  then have t: "take payloadPrefixReserve p = ?h @ ?z" "drop payloadPrefixReserve p = ?c"
    by (simp_all only: p append_eq_conv_conj [symmetric] take_append drop_append) (simp_all)
  have lp: "length p = payloadPrefixReserve + length ?c" unfolding p using hz by simp
  have par: "ParseFromString Descriptor_TransferPayload pld0 (chars_of (take payloadPrefixReserve p))
      = Some (True, ?m)"
    by (simp only: t transfer_payload_padded)
  have st: "RecvIOPayload L pld0 p = store_block L ?m p"
    unfolding RecvIOPayload_def par using lp by simp
    have cl: "length ?c \<le> length d" by (rule length_compress_block [OF L])
  then have u: "unat (word_of_nat (length ?c) :: u32) = length ?c"
    "unat (word_of_nat (length d) :: u32) = length d" using d by (simp_all add: unat_of_nat)
  show ?thesis
  proof (cases "d = []")
    case True
    then show ?thesis
      by (simp add: st store_block_def t(2) u lp Let_def compress_block_def)
  next
    case False
    have c0: "length ?c \<noteq> 0" using z [OF False] by simp
    show ?thesis
    proof (cases "ct = COMPRESS_LZ4")
      case True
      then have "LZ4_decompress_safe L ?c (length d) = Some d"
        using L z [OF False] False unfolding lz4_laws_def by (simp add: compress_block_def)
      then show ?thesis
        using c0 True u t(2) lp by (simp add: st store_block_def Let_def)
    next
      case F: False
      then have "?c = d" by (simp add: compress_block_def)
      then show ?thesis
        using F False d by (simp add: st store_block_def t(2) u lp Let_def
            SECUREC_MEM_MAX_LEN_def)
    qed
  qed
qed

section \<open>The context of a transfer\<close>

record CtxFile =
  cf_fileSize :: u64
  cf_dirSize :: u64
  cf_indexIO :: u64
  fileCnt :: u32
  isDir :: bool
  localName :: string
  localPath :: string
  remotePath :: string
  localDirName :: string
  master :: bool
  closeNotify :: bool
  ioFinish :: bool
  lastErrno :: nat
  taskQueue :: "string list"
  transferConfig :: TransferConfig

text \<open>Requests to libuv that have not completed; a read has the buffer size it was given.\<close>

datatype fs_req = FsOpen string | FsRead u64 int | FsWrite u64 bytes | FsClose

text \<open>
  The task: its context, the reference count that \<open>ReadyForRelease\<close> looks at, the requests and
  the commands it has sent to its peer. \<open>up\<close> is the outcome of \<open>Send\<close>, \<open>singalStop\<close> the task's
  own flag; \<open>logs\<close> counts the failures reported to the user.
\<close>

record transfer =
  ctxNow :: CtxFile
  refCount :: nat
  reqs :: "fs_req list"
  sent :: "(u16 \<times> bytes) list"
  up :: bool
  singalStop :: bool
  logs :: nat
  timeSet :: bool

definition TransferConfig0 :: TransferConfig where
  "TransferConfig0 = \<lparr> fileSize = 0, atime = 0, mtime = 0, options = [], tc_path = [],
     optionalName = [], updateIfNew = False, compressType = 0, holdTimestamp = False,
     functionName = [], clientCwd = [], reserve1 = [], reserve2 = [] \<rparr>"

definition CtxFile0 :: CtxFile where
  "CtxFile0 = \<lparr> cf_fileSize = 0, cf_dirSize = 0, cf_indexIO = 0, fileCnt = 0, isDir = False,
     localName = [], localPath = [], remotePath = [], localDirName = [], master = False,
     closeNotify = False, ioFinish = False, lastErrno = 0, taskQueue = [],
     transferConfig = TransferConfig0 \<rparr>"

text \<open>\<open>ResetCtx\<close>; with \<open>full\<close> the structure is made anew.\<close>

definition ResetCtx :: "bool \<Rightarrow> CtxFile \<Rightarrow> CtxFile" where
  "ResetCtx full c = (if full then CtxFile0 else c)
     \<lparr>closeNotify := False, cf_indexIO := 0, lastErrno := 0, ioFinish := False\<rparr>"

definition ctx_upd :: "(CtxFile \<Rightarrow> CtxFile) \<Rightarrow> transfer \<Rightarrow> transfer" where
  "ctx_upd f x = x\<lparr>ctxNow := f (ctxNow x)\<rparr>"

definition SendToAnother :: "u16 \<Rightarrow> bytes \<Rightarrow> transfer \<Rightarrow> bool \<times> transfer" where
  "SendToAnother c bs x =
     (if singalStop x \<or> \<not> up x then (False, x) else (True, x\<lparr>sent := sent x @ [(c, bs)]\<rparr>))"

definition TaskFinish :: "transfer \<Rightarrow> transfer" where
  "TaskFinish x = snd (SendToAnother (cmd CMD_KERNEL_CHANNEL_CLOSE) [1] x)"

text \<open>A read has \<open>None\<close> for its buffer. The result is negative when nothing was started.\<close>

definition SimpleFileIO :: "u64 \<Rightarrow> bytes option \<Rightarrow> int \<Rightarrow> transfer \<Rightarrow> int \<times> transfer" where
  "SimpleFileIO idx src n x =
     (if n < 0 \<or> ioFinish (ctxNow x) then (- 1, x)
      else (n, x\<lparr>refCount := Suc (refCount x),
             reqs := reqs x @ [if master (ctxNow x) then FsRead idx n
               else FsWrite idx (take (nat n) (case src of None \<Rightarrow> [] | Some bs \<Rightarrow> bs))]\<rparr>))"

text \<open>\<open>GetMaxBufSize() * maxTransferBufFactor\<close>, which is 0.8.\<close>

definition block_size :: int where
  "block_size = int MAX_SIZE_IOBUF * 8 div 10"

definition SendIOPayload_to :: "lz4 \<Rightarrow> u16 \<Rightarrow> u64 \<Rightarrow> bytes \<Rightarrow> transfer \<Rightarrow> bool \<times> transfer" where
  "SendIOPayload_to L commandData off d x =
     (case SendIOPayload L (compressType (transferConfig (ctxNow x))) off d of
        None \<Rightarrow> (False, x)
      | Some p \<Rightarrow> SendToAnother commandData p x)"

definition SetFileTime :: "transfer \<Rightarrow> transfer" where
  "SetFileTime x =
     (if holdTimestamp (transferConfig (ctxNow x)) \<and> mtime (transferConfig (ctxNow x)) \<noteq> 0
      then x\<lparr>timeSet := True\<rparr> else x)"

text \<open>
  \<open>OnFileIO\<close>: \<open>result\<close> is what libuv reports, \<open>d\<close> the bytes a read put into the buffer (its
  first \<open>result\<close> bytes).
\<close>

definition io_result :: "lz4 \<Rightarrow> u16 \<Rightarrow> fs_req \<Rightarrow> int \<Rightarrow> bytes \<Rightarrow> transfer \<Rightarrow> transfer" where
  "io_result L commandData req result d x =
     (if ioFinish (ctxNow x) then x
      else if result < 0 then
        ctx_upd (\<lambda>c. c\<lparr>closeNotify := True, lastErrno := nat (- result), ioFinish := True\<rparr>) x
      else
        let old = cf_indexIO (ctxNow x);
            x1 = ctx_upd (\<lambda>c. c\<lparr>cf_indexIO := old + word_of_int result\<rparr>) x;
            idx = cf_indexIO (ctxNow x1)
        in case req of
          FsRead _ _ \<Rightarrow>
            (case SendIOPayload_to L commandData old d x1 of
               (False, x2) \<Rightarrow> ctx_upd (\<lambda>c. c\<lparr>ioFinish := True\<rparr>) x2
             | (True, x2) \<Rightarrow>
                 if idx < cf_fileSize (ctxNow x2) then snd (SimpleFileIO idx None block_size x2)
                 else ctx_upd (\<lambda>c. c\<lparr>ioFinish := True\<rparr>) x2)
        | FsWrite _ _ \<Rightarrow>
            if cf_fileSize (ctxNow x1) \<le> idx then
              SetFileTime (ctx_upd (\<lambda>c. c\<lparr>closeNotify := True, ioFinish := True\<rparr>) x1)
            else x1
        | _ \<Rightarrow> ctx_upd (\<lambda>c. c\<lparr>ioFinish := True\<rparr>) x1)"

definition OnFileIO :: "lz4 \<Rightarrow> u16 \<Rightarrow> fs_req \<Rightarrow> int \<Rightarrow> bytes \<Rightarrow> transfer \<Rightarrow> transfer" where
  "OnFileIO L commandData req result d x =
     (let x1 = io_result L commandData req result d x;
          x2 = (if ioFinish (ctxNow x1)
                then x1\<lparr>refCount := Suc (refCount x1), reqs := reqs x1 @ [FsClose]\<rparr> else x1)
      in x2\<lparr>refCount := refCount x2 - 1\<rparr>)"

text \<open>\<open>OnFileClose\<close>, with the finish notice of \<open>HdcFile::WhenTransferFinish\<close>.\<close>

definition WhenTransferFinish :: "transfer \<Rightarrow> transfer" where
  "WhenTransferFinish x = snd (SendToAnother (cmd CMD_FILE_FINISH) [1]
     (ctx_upd (\<lambda>c. c\<lparr>fileCnt := fileCnt c + 1, cf_dirSize := cf_dirSize c + cf_indexIO c\<rparr>) x))"

definition OnFileClose :: "transfer \<Rightarrow> transfer" where
  "OnFileClose x =
     (let x1 = (if closeNotify (ctxNow x) then WhenTransferFinish x else x)
      in x1\<lparr>refCount := refCount x1 - 1\<rparr>)"

text \<open>
  \<open>OnFileOpen\<close>: the result of the open and what \<open>fstat\<close> tells (size, access and modification
  time in nanoseconds). The master announces the file, the slave asks for its data.
\<close>

definition OnFileOpen :: "u16 \<Rightarrow> int \<Rightarrow> u64 \<times> u64 \<times> u64 \<Rightarrow> transfer \<Rightarrow> transfer" where
  "OnFileOpen commandBegin result st x =
     (let x0 = x\<lparr>refCount := refCount x - 1\<rparr> in
      if result < 0 then TaskFinish (x0\<lparr>logs := Suc (logs x0)\<rparr>)
      else
        let x1 = ctx_upd (ResetCtx False) x0; c = ctxNow x1; tc = transferConfig c in
        if master c then
          (case st of (sz, at, mt) \<Rightarrow>
            let tc1 = tc\<lparr>fileSize := sz, optionalName := localName c\<rparr>;
                tc2 = (if holdTimestamp tc then tc1\<lparr>atime := at, mtime := mt\<rparr> else tc1);
                tc3 = tc2\<lparr>tc_path := remotePath c\<rparr>;
                x2 = ctx_upd (\<lambda>c. c\<lparr>transferConfig := tc3, cf_fileSize := fileSize tc3\<rparr>) x1
            in snd (SendToAnother (cmd CMD_FILE_CHECK) (WriteMessage Descriptor_TransferConfig tc3) x2))
        else snd (SendToAnother commandBegin [] x1))"

text \<open>
  \<open>HdcTransferBase::CommandDispatch\<close>. The result is \<open>None\<close> where \<open>RecvIOPayload\<close> reads beyond
  the payload.
\<close>

definition CommandDispatch ::
  "lz4 \<Rightarrow> TransferPayload \<Rightarrow> u16 \<Rightarrow> u16 \<Rightarrow> u16 \<Rightarrow> bytes \<Rightarrow> transfer \<Rightarrow> (bool \<times> transfer) option" where
  "CommandDispatch L pld0 commandBegin commandData c payload x =
     (if c = commandBegin then
        (case SimpleFileIO (cf_indexIO (ctxNow x)) None block_size x of (r, x') \<Rightarrow> Some (0 \<le> r, x'))
      else if c = commandData then
        (if HDC_BUF_MAX_BYTES < length payload then Some (False, x)
         else case RecvIOPayload L pld0 payload of
           OverRead \<Rightarrow> None
         | Rejected \<Rightarrow> Some (False, x)
         | Block (idx, d) \<Rightarrow>
             (case SimpleFileIO idx (Some d) (int (length d)) x of (r, x') \<Rightarrow> Some (0 \<le> r, x')))
      else Some (True, x))"

section \<open>The master sends the file\<close>

text \<open>What a master sends for the blocks of a file, and what is a division of a file into blocks.\<close>

fun sent_blocks :: "lz4 \<Rightarrow> u8 \<Rightarrow> u16 \<Rightarrow> nat \<Rightarrow> bytes list \<Rightarrow> (u16 \<times> bytes) list" where
  "sent_blocks L ct c off [] = []"
| "sent_blocks L ct c off (d # ds) =
     (c, the (SendIOPayload L ct (word_of_nat off) d)) # sent_blocks L ct c (off + length d) ds"

lemma sent_blocks_append:
  "sent_blocks L ct c off (ds @ es) = sent_blocks L ct c off ds @ sent_blocks L ct c (off + length (concat ds)) es"
  by (induction ds arbitrary: off) (simp_all add: add.assoc)

text \<open>
  What should be sent, stated without the code: block by block the header with the true offset, the
  kind of compression and the two sizes, filled up to 64 bytes, and then the contents.
\<close>

fun blocks :: "lz4 \<Rightarrow> u8 \<Rightarrow> u16 \<Rightarrow> nat \<Rightarrow> bytes list \<Rightarrow> (u16 \<times> bytes) list" where
  "blocks L ct c off [] = []"
| "blocks L ct c off (d # ds) =
     (let body = (if ct = COMPRESS_LZ4 \<and> d \<noteq> [] then LZ4_compress_default L d (length d) else d);
          head = WriteMessage Descriptor_TransferPayload
            \<lparr> tp_index = word_of_nat off, tp_compressType = ct,
              compressSize = word_of_nat (length body), uncompressSize = word_of_nat (length d) \<rparr>
      in (c, head @ replicate (64 - length head) 0 @ body) # blocks L ct c (off + length d) ds)"

lemma sent_blocks_correct:
  "off + length (concat ds) < 2 ^ 31 \<Longrightarrow> sent_blocks L ct c off ds = blocks L ct c off ds"
proof (induction ds arbitrary: off)
  case (Cons d ds)
  have "unat (word_of_nat off :: u64) = off" using Cons.prems by (simp add: unat_of_nat)
  then have "int_index (word_of_nat off) = word_of_nat off"
    by (intro int_index_small) (use Cons.prems in simp)
  moreover have "compress_block L ct d
      = (if ct = COMPRESS_LZ4 \<and> d \<noteq> [] then LZ4_compress_default L d (length d) else d)"
    by (simp add: compress_block_def)
  ultimately show ?case using Cons by (simp add: SendIOPayload_head Let_def payloadPrefixReserve_def)
qed simp

definition chunks :: "bytes \<Rightarrow> bytes list \<Rightarrow> bool" where
  "chunks F cs \<longleftrightarrow> concat cs = F \<and> (if F = [] then cs = [[]] else [] \<notin> set cs)
     \<and> (\<forall>d \<in> set cs. int (length d) \<le> block_size)"

text \<open>
  One completed read of the file \<open>F\<close>: POSIX returns at least one byte before the end of the
  file, at most what was asked for, and nothing at the end.
\<close>

inductive master_step :: "lz4 \<Rightarrow> u16 \<Rightarrow> bytes \<Rightarrow> transfer \<Rightarrow> transfer \<Rightarrow> bool" for L c F where
  read_some: "reqs x = FsRead off n # rest \<Longrightarrow> unat off < length F \<Longrightarrow> 0 < k \<Longrightarrow> int k \<le> n \<Longrightarrow>
    k \<le> length F - unat off \<Longrightarrow> d = take k (drop (unat off) F) \<Longrightarrow>
    master_step L c F x (OnFileIO L c (FsRead off n) (int k) d (x\<lparr>reqs := rest\<rparr>))"
| read_end: "reqs x = FsRead off n # rest \<Longrightarrow> length F \<le> unat off \<Longrightarrow>
    master_step L c F x (OnFileIO L c (FsRead off n) 0 [] (x\<lparr>reqs := rest\<rparr>))"

inductive_cases master_stepE: "master_step L c F x y"

definition master_start :: "u8 \<Rightarrow> bytes \<Rightarrow> transfer \<Rightarrow> bool" where
  "master_start ct F x \<longleftrightarrow> master (ctxNow x) \<and> \<not> ioFinish (ctxNow x) \<and> cf_indexIO (ctxNow x) = 0
     \<and> cf_fileSize (ctxNow x) = word_of_nat (length F) \<and> compressType (transferConfig (ctxNow x)) = ct
     \<and> up x \<and> \<not> singalStop x \<and> reqs x = [FsRead 0 block_size]"

definition master_inv :: "lz4 \<Rightarrow> u8 \<Rightarrow> u16 \<Rightarrow> bytes \<Rightarrow> (u16 \<times> bytes) list \<Rightarrow> transfer \<Rightarrow> bool" where
  "master_inv L ct c F s0 x \<longleftrightarrow>
     master (ctxNow x) \<and> cf_fileSize (ctxNow x) = word_of_nat (length F)
   \<and> compressType (transferConfig (ctxNow x)) = ct \<and> up x \<and> \<not> singalStop x
   \<and> (\<exists>cs. sent x = s0 @ sent_blocks L ct c 0 cs \<and>
        (if ioFinish (ctxNow x) then reqs x = [FsClose] \<and> chunks F cs
         else \<exists>n. cf_indexIO (ctxNow x) = word_of_nat n \<and> reqs x = [FsRead (word_of_nat n) block_size]
           \<and> (n < length F \<or> n = 0) \<and> concat cs = take n F \<and> [] \<notin> set cs
           \<and> (\<forall>d \<in> set cs. int (length d) \<le> block_size)))"

lemma master_start_inv: "master_start ct F x \<Longrightarrow> master_inv L ct c F (sent x) x"
  unfolding master_start_def master_inv_def by (auto intro!: exI [of _ "[]"] exI [of _ 0])

lemma SendIOPayload_some: "SendIOPayload L ct off d = Some (the (SendIOPayload L ct off d))"
  by (simp add: SendIOPayload_head)

lemma block_size_pos: "0 < block_size"
  by (simp add: block_size_def hdc_consts)

lemma OnFileIO_read:
  assumes "\<not> ioFinish (ctxNow x)" "up x" "\<not> singalStop x" "master (ctxNow x)"
    and "cf_indexIO (ctxNow x) = word_of_nat n" "cf_fileSize (ctxNow x) = word_of_nat len"
    and "compressType (transferConfig (ctxNow x)) = ct" "n + k \<le> len" "len < 2 ^ 64"
  shows "ctxNow (OnFileIO L c (FsRead off m) (int k) d x)
      = (ctxNow x)\<lparr>cf_indexIO := word_of_nat (n + k), ioFinish := (n + k = len)\<rparr>"
    and "sent (OnFileIO L c (FsRead off m) (int k) d x)
      = sent x @ [(c, the (SendIOPayload L ct (word_of_nat n) d))]"
    and "reqs (OnFileIO L c (FsRead off m) (int k) d x)
      = reqs x @ [if n + k = len then FsClose else FsRead (word_of_nat (n + k)) block_size]"
    and "up (OnFileIO L c (FsRead off m) (int k) d x)" "\<not> singalStop (OnFileIO L c (FsRead off m) (int k) d x)"
proof -
  have lt: "(word_of_nat n + word_of_nat k < (word_of_nat len :: u64)) \<longleftrightarrow> n + k \<noteq> len"
    using assms(8,9) by (auto simp: word_less_nat_alt unat_of_nat simp flip: of_nat_add)
  obtain p where s: "SendIOPayload L ct (word_of_nat n) d = Some p" using SendIOPayload_some by blast
  show "ctxNow (OnFileIO L c (FsRead off m) (int k) d x)
      = (ctxNow x)\<lparr>cf_indexIO := word_of_nat (n + k), ioFinish := (n + k = len)\<rparr>"
    and "sent (OnFileIO L c (FsRead off m) (int k) d x)
      = sent x @ [(c, the (SendIOPayload L ct (word_of_nat n) d))]"
    and "reqs (OnFileIO L c (FsRead off m) (int k) d x)
      = reqs x @ [if n + k = len then FsClose else FsRead (word_of_nat (n + k)) block_size]"
    and "up (OnFileIO L c (FsRead off m) (int k) d x)" "\<not> singalStop (OnFileIO L c (FsRead off m) (int k) d x)"
    using assms(1-8) lt block_size_pos
    by (simp_all add: OnFileIO_def io_result_def Let_def ctx_upd_def SendIOPayload_to_def
        s SendToAnother_def SimpleFileIO_def)
qed

lemma master_step_inv:
  assumes "master_step L c F x y" "master_inv L ct c F s0 x" "length F < 2 ^ 64"
  shows "master_inv L ct c F s0 y"
proof -
  let ?ctx = "ctxNow x"
  have i: "master ?ctx" "cf_fileSize ?ctx = word_of_nat (length F)"
    "compressType (transferConfig ?ctx) = ct" "up x" "\<not> singalStop x"
    using assms(2) unfolding master_inv_def by blast+
  have "\<not> ioFinish ?ctx" using assms(1,2) by (auto simp: master_inv_def elim!: master_stepE)
  then obtain cs n where n: "sent x = s0 @ sent_blocks L ct c 0 cs" "cf_indexIO ?ctx = word_of_nat n"
    "reqs x = [FsRead (word_of_nat n) block_size]" "n < length F \<or> n = 0" "concat cs = take n F" "[] \<notin> set cs"
    and sm: "\<forall>d \<in> set cs. int (length d) \<le> block_size"
    using assms(2) unfolding master_inv_def by auto
  have u: "unat (word_of_nat n :: u64) = n" using n(4) assms(3) by (auto simp: unat_of_nat)
  have lc: "length (concat cs) = n" using n(4,5) by auto
  obtain k d where y: "y = OnFileIO L c (FsRead (word_of_nat n) block_size) (int k) d (x\<lparr>reqs := []\<rparr>)"
    and k: "n + k \<le> length F" "d = take k (drop n F)" "length d = k" "k = 0 \<longrightarrow> F = [] \<and> n = 0"
      "int k \<le> block_size"
    using assms(1) n(3,4) u block_size_pos by (auto elim!: master_stepE)
  note w = OnFileIO_read [of "x\<lparr>reqs := []\<rparr>" n "length F" ct k L c _ block_size d, simplified]
  have c2: "concat (cs @ [d]) = take (n + k) F" using n(5) k by (simp add: take_add)
  have ne: "[] \<notin> set (cs @ [d])" if "F \<noteq> []" using that n(6) k by auto
  have b: "sent y = s0 @ sent_blocks L ct c 0 (cs @ [d])"
    using w(2) i n k assms(3) \<open>\<not> ioFinish ?ctx\<close> by (simp add: y sent_blocks_append lc)
  have ch: "chunks F (cs @ [d])" if "n + k = length F"
    using that c2 ne k n(4,5,6) sm by (cases cs) (auto simp: chunks_def)
  have f: "master (ctxNow y)" "cf_fileSize (ctxNow y) = word_of_nat (length F)"
    "compressType (transferConfig (ctxNow y)) = ct" "up y" "\<not> singalStop y"
    "ioFinish (ctxNow y) = (n + k = length F)" "cf_indexIO (ctxNow y) = word_of_nat (n + k)"
    "reqs y = [if n + k = length F then FsClose else FsRead (word_of_nat (n + k)) block_size]"
    using w i n k assms(3) \<open>\<not> ioFinish ?ctx\<close> by (simp_all add: y)
  show ?thesis
  proof (cases "n + k = length F")
    case True
    then show ?thesis unfolding master_inv_def using f b ch by (intro conjI exI [of _ "cs @ [d]"]) simp_all
  next
    case False
    then have "F \<noteq> []" "n + k < length F" using k by auto
    then show ?thesis unfolding master_inv_def using f b ne c2 sm k(3,5)
      by (intro conjI exI [of _ "cs @ [d]"]) (auto intro!: exI [of _ "n + k"])
  qed
qed

lemma master_run_inv:
  assumes "(master_step L c F)\<^sup>*\<^sup>* x y" "master_inv L ct c F s0 x" "length F < 2 ^ 64"
  shows "master_inv L ct c F s0 y"
  using assms(1,2) by (induction rule: rtranclp_induct) (auto intro: master_step_inv [OF _ _ assms(3)])

text \<open>Every read that is outstanding can complete, and each completed one brings the end closer.\<close>

lemma master_step_enabled:
  assumes "master_inv L ct c F s0 x" "\<not> ioFinish (ctxNow x)" "length F < 2 ^ 64"
  shows "\<exists>y. master_step L c F x y"
proof -
  obtain n where n: "reqs x = [FsRead (word_of_nat n) block_size]" "n < length F \<or> n = 0"
    using assms(1,2) by (auto simp: master_inv_def)
  then have u: "unat (word_of_nat n :: u64) = n" using assms(3) by (auto simp: unat_of_nat)
  show ?thesis
  proof (cases "n < length F")
    case True
    then show ?thesis using n(1) u block_size_pos
      by (intro exI) (rule read_some [where k = 1], auto)
  next
    case False
    then show ?thesis using n(1) u by (intro exI) (rule read_end, auto)
  qed
qed

definition to_read :: "bytes \<Rightarrow> transfer \<Rightarrow> nat" where
  "to_read F x = (if ioFinish (ctxNow x) then 0 else Suc (length F - unat (cf_indexIO (ctxNow x))))"

lemma master_step_decreases:
  assumes "master_step L c F x y" "master_inv L ct c F s0 x" "length F < 2 ^ 64"
  shows "to_read F y < to_read F x"
proof -
  have nf: "\<not> ioFinish (ctxNow x)" using assms(1,2) by (auto simp: master_inv_def elim!: master_stepE)
  then obtain n where n: "cf_indexIO (ctxNow x) = word_of_nat n" "reqs x = [FsRead (word_of_nat n) block_size]"
    "n < length F \<or> n = 0"
    and i: "master (ctxNow x)" "cf_fileSize (ctxNow x) = word_of_nat (length F)" "up x" "\<not> singalStop x"
    "compressType (transferConfig (ctxNow x)) = ct"
    using assms(2) unfolding master_inv_def by auto
  have u: "unat (word_of_nat n :: u64) = n" using n(3) assms(3) by (auto simp: unat_of_nat)
  obtain k d where y: "y = OnFileIO L c (FsRead (word_of_nat n) block_size) (int k) d (x\<lparr>reqs := []\<rparr>)"
    and k: "n + k \<le> length F" "k = 0 \<longrightarrow> length F = n"
    using assms(1) n(2,3) u by (auto elim!: master_stepE)
  note w = OnFileIO_read(1) [of "x\<lparr>reqs := []\<rparr>" n "length F" ct k L c _ block_size d, simplified]
  have "ctxNow y = (ctxNow x)\<lparr>cf_indexIO := word_of_nat (n + k), ioFinish := (n + k = length F)\<rparr>"
    using w i n k nf assms(3) by (simp add: y)
  moreover have "unat (word_of_nat (n + k) :: u64) = n + k" using k(1) assms(3)
    by (simp add: unat_of_nat del: of_nat_add)
  ultimately show ?thesis using nf k u n(1) by (auto simp: to_read_def)
qed

text \<open>
  C5. However the reads of a file below 2 GiB split it, a master that has started comes to its end,
  every completed read brings it closer, and at the end it has sent exactly the blocks of one division
  of the file, in order, each behind a header with its true offset and its sizes, and has only the
  close of the file to wait for. At 2 GiB and beyond the offsets are lost (\<open>large_offset_is_lost\<close>).
\<close>

theorem master_sends_file:
  assumes "master_start ct F x" "length F < 2 ^ 31"
  shows "(\<forall>y. (master_step L c F)\<^sup>*\<^sup>* x y \<longrightarrow> ioFinish (ctxNow y) \<longrightarrow>
            (\<exists>cs. chunks F cs \<and> sent y = sent x @ blocks L ct c 0 cs \<and> reqs y = [FsClose]))
    \<and> (\<forall>y. (master_step L c F)\<^sup>*\<^sup>* x y \<longrightarrow>
            (\<exists>z. (master_step L c F)\<^sup>*\<^sup>* y z \<and> ioFinish (ctxNow z)))
    \<and> (\<forall>y z. (master_step L c F)\<^sup>*\<^sup>* x y \<longrightarrow> master_step L c F y z \<longrightarrow> to_read F z < to_read F y)"
proof (intro conjI allI impI)
  note i0 = master_start_inv [OF assms(1), of L c]
  have l64: "length F < 2 ^ 64" using assms(2) by simp
  note inv = master_run_inv [OF _ i0 l64]
  fix y
  assume r: "(master_step L c F)\<^sup>*\<^sup>* x y"
  show "\<exists>cs. chunks F cs \<and> sent y = sent x @ blocks L ct c 0 cs \<and> reqs y = [FsClose]"
    if f: "ioFinish (ctxNow y)"
  proof -
    obtain cs where cs: "chunks F cs" "sent y = sent x @ sent_blocks L ct c 0 cs" "reqs y = [FsClose]"
      using inv [OF r] f by (auto simp: master_inv_def)
    moreover have "sent_blocks L ct c 0 cs = blocks L ct c 0 cs"
      by (rule sent_blocks_correct) (use cs(1) assms(2) in \<open>simp add: chunks_def\<close>)
    ultimately show ?thesis by auto
  qed
  show "\<exists>z. (master_step L c F)\<^sup>*\<^sup>* y z \<and> ioFinish (ctxNow z)"
    using r
  proof (induction "to_read F y" arbitrary: y rule: less_induct)
    case less
    show ?case
    proof (cases "ioFinish (ctxNow y)")
      case False
      obtain w where w: "master_step L c F y w"
        using master_step_enabled [OF inv [OF less(2)] False l64] by blast
      have "\<exists>z. (master_step L c F)\<^sup>*\<^sup>* w z \<and> ioFinish (ctxNow z)"
        using less(1) [OF master_step_decreases [OF w inv [OF less(2)] l64]]
          rtranclp.rtrancl_into_rtrancl [OF less(2) w] by blast
      then show ?thesis using w by (meson converse_rtranclp_into_rtranclp)
    qed auto
  qed
  show "to_read F z < to_read F y" if "master_step L c F y z" for z
    using master_step_decreases [OF that inv [OF r] l64] .
qed

section \<open>The slave stores the file\<close>

text \<open>POSIX \<open>pwrite\<close>: the bytes of the file after the write, with zeros where it was extended.\<close>

definition posix_pwrite :: "(nat \<Rightarrow> bytes \<Rightarrow> bytes \<Rightarrow> bytes) \<Rightarrow> bool" where
  "posix_pwrite pw \<longleftrightarrow> (\<forall>off d f.
     length (pw off d f) = (if d = [] then length f else max (length f) (off + length d))
   \<and> (\<forall>i < length (pw off d f). pw off d f ! i =
        (if off \<le> i \<and> i < off + length d then d ! (i - off) else if i < length f then f ! i else 0)))"

text \<open>The slave with the messages still to arrive and the file it writes.\<close>

inductive slave_step ::
  "lz4 \<Rightarrow> TransferPayload \<Rightarrow> u16 \<Rightarrow> u16 \<Rightarrow> (nat \<Rightarrow> bytes \<Rightarrow> bytes \<Rightarrow> bytes)
    \<Rightarrow> (u16 \<times> bytes) list \<times> transfer \<times> bytes \<Rightarrow> (u16 \<times> bytes) list \<times> transfer \<times> bytes \<Rightarrow> bool"
  for L pld cb cd pw where
  slave_recv: "CommandDispatch L pld cb cd c p x = Some (ok, x') \<Longrightarrow>
    slave_step L pld cb cd pw ((c, p) # inc, x, f) (inc, x', f)"
| slave_wrote: "reqs x = rs @ FsWrite off d # rs' \<Longrightarrow>
    slave_step L pld cb cd pw (inc, x, f)
      (inc, OnFileIO L cd (FsWrite off d) (int (length d)) [] (x\<lparr>reqs := rs @ rs'\<rparr>), pw (unat off) d f)"
| slave_closed: "reqs x = rs @ FsClose # rs' \<Longrightarrow>
    slave_step L pld cb cd pw (inc, x, f) (inc, OnFileClose (x\<lparr>reqs := rs @ rs'\<rparr>), f)"

inductive_cases slave_stepE: "slave_step L pld cb cd pw s t"

definition slave_start :: "bytes \<Rightarrow> transfer \<Rightarrow> bool" where
  "slave_start F x \<longleftrightarrow> \<not> master (ctxNow x) \<and> \<not> ioFinish (ctxNow x) \<and> \<not> closeNotify (ctxNow x)
     \<and> cf_indexIO (ctxNow x) = 0 \<and> cf_fileSize (ctxNow x) = word_of_nat (length F)
     \<and> up x \<and> \<not> singalStop x \<and> reqs x = [] \<and> refCount x = 0"

fun spans :: "nat \<Rightarrow> bytes list \<Rightarrow> (nat \<times> bytes) list" where
  "spans off [] = []"
| "spans off (d # ds) = (off, d) # spans (off + length d) ds"

definition tot :: "(nat \<times> bytes) list \<Rightarrow> nat" where
  "tot ws = sum_list (map (\<lambda>(a, d). length d) ws)"

lemma tot_simps: "tot [] = 0" "tot ((off, d) # ws) = length d + tot ws" "tot (us @ ws) = tot us + tot ws"
  by (simp_all add: tot_def)

lemma tot_spans: "tot (spans off cs) = length (concat cs)"
  by (induction cs arbitrary: off) (simp_all add: tot_simps)

lemma tot_mset: "mset us = mset ws \<Longrightarrow> tot us = tot ws"
  unfolding tot_def by (metis mset_map sum_mset_sum_list)

lemma spans_in_file:
  "concat cs = drop off F \<Longrightarrow> off \<le> length F \<Longrightarrow> (a, d) \<in> set (spans off cs) \<Longrightarrow>
    a + length d \<le> length F \<and> d = take (length d) (drop a F)"
proof (induction cs arbitrary: off)
  case (Cons c cs)
  then have c: "c @ concat cs = drop off F" by simp
  then have "length c + length (concat cs) = length F - off"
    by (metis length_append length_drop)
  then have len: "off + length c \<le> length F" using Cons.prems(2) by linarith
  have "concat cs = drop (off + length c) F"
    using c by (metis add.commute append_eq_conv_conj drop_drop)
  then show ?case using Cons.IH [of "off + length c"] Cons.prems(3) len c
    by (auto simp: append_eq_conv_conj)
qed simp

lemma spans_cover:
  "concat cs = drop off F \<Longrightarrow> off \<le> j \<Longrightarrow> j < length F \<Longrightarrow>
    \<exists>(a, d) \<in> set (spans off cs). a \<le> j \<and> j < a + length d"
proof (induction cs arbitrary: off)
  case (Cons c cs)
  show ?case
  proof (cases "j < off + length c")
    case False
    have "concat cs = drop (off + length c) F"
      using Cons.prems(1) by (metis add.commute append_eq_conv_conj concat.simps(2) drop_drop)
    then show ?thesis using Cons.IH [of "off + length c"] Cons.prems False by auto
  qed (use Cons.prems in auto)
qed simp

text \<open>What the writes that have completed leave in the file.\<close>

definition written :: "bytes \<Rightarrow> bytes \<Rightarrow> (nat \<times> bytes) list \<Rightarrow> bool" where
  "written F f ws \<longleftrightarrow> length f \<le> length F
     \<and> (\<forall>j < length F. (\<exists>(a, d) \<in> set ws. a \<le> j \<and> j < a + length d) \<longrightarrow> j < length f \<and> f ! j = F ! j)"

lemma written_write:
  assumes "posix_pwrite pw" "written F f ws" "a + length d \<le> length F" "d = take (length d) (drop a F)"
  shows "written F (pw a d f) ((a, d) # ws)"
proof -
  have l: "length (pw a d f) = (if d = [] then length f else max (length f) (a + length d))"
    and n: "\<And>i. i < length (pw a d f) \<Longrightarrow> pw a d f ! i =
        (if a \<le> i \<and> i < a + length d then d ! (i - a) else if i < length f then f ! i else 0)"
    using assms(1) unfolding posix_pwrite_def by blast+
  have "d ! (i - a) = F ! i" if "a \<le> i" "i < a + length d" for i
    using that assms(3) by (subst assms(4)) simp
  moreover have "length (pw a d f) \<le> length F" using l assms(2,3) by (auto simp: written_def)
  moreover have "j < length (pw a d f) \<and> pw a d f ! j = F ! j"
    if j: "j < length F" "\<exists>(b, e) \<in> set ((a, d) # ws). b \<le> j \<and> j < b + length e" for j
  proof (cases "a \<le> j \<and> j < a + length d")
    case True
    then have "j < length (pw a d f)" using l by auto
    then show ?thesis using n True calculation(1) by simp
  next
    case False
    then have "j < length f \<and> f ! j = F ! j" using j assms(2) by (auto simp: written_def)
    moreover have "j < length (pw a d f)" using calculation l by auto
    ultimately show ?thesis using n [of j] False by auto
  qed
  ultimately show ?thesis by (simp add: written_def)
qed

lemma written_all:
  assumes "written F f ws" "\<And>j. j < length F \<Longrightarrow> \<exists>(a, d) \<in> set ws. a \<le> j \<and> j < a + length d"
  shows "f = F"
proof -
  have e: "j < length f \<and> f ! j = F ! j" if "j < length F" for j
    using assms that unfolding written_def by blast
  have "length f = length F"
  proof (cases "F = []")
    case True
    then show ?thesis using assms(1) by (simp add: written_def)
  next
    case False
    then have "0 < length F" by simp
    then have "length F - 1 < length f" using e [of "length F - 1"] by simp
    moreover have "length f \<le> length F" using assms(1) by (simp add: written_def)
    ultimately show ?thesis using \<open>0 < length F\<close> by linarith
  qed
  then show ?thesis using e by (intro nth_equalityI) auto
qed

text \<open>
  The slave, given the division \<open>cs\<close> of the file: the blocks received are those written and those
  whose write is outstanding; then the file is complete and being closed; then it is closed and
  the finish notice is out, once.
\<close>

definition storing :: "lz4 \<Rightarrow> u8 \<Rightarrow> u16 \<Rightarrow> bytes \<Rightarrow> bytes list \<Rightarrow> (u16 \<times> bytes) list \<times> transfer \<times> bytes \<Rightarrow> bool" where
  "storing L ct cd F cs s \<longleftrightarrow> (case s of (inc, x, f) \<Rightarrow>
     \<not> ioFinish (ctxNow x) \<and> \<not> closeNotify (ctxNow x) \<and>
     (\<exists>got rest ws os. cs = got @ rest \<and> inc = sent_blocks L ct cd (length (concat got)) rest
        \<and> reqs x = map (\<lambda>(a, d). FsWrite (word_of_nat a) d) os
        \<and> mset (spans 0 got) = mset ws + mset os
        \<and> cf_indexIO (ctxNow x) = word_of_nat (tot ws) \<and> refCount x = length os
        \<and> written F f ws \<and> \<not> (ws \<noteq> [] \<and> tot ws = length F)))"

definition stored :: "bytes \<Rightarrow> (u16 \<times> bytes) list \<Rightarrow> (u16 \<times> bytes) list \<times> transfer \<times> bytes \<Rightarrow> bool" where
  "stored F s0 s \<longleftrightarrow> (case s of (inc, x, f) \<Rightarrow>
     inc = [] \<and> f = F \<and> ioFinish (ctxNow x) \<and> closeNotify (ctxNow x) \<and>
     (if sent x = s0 then reqs x = [FsClose] \<and> refCount x = 1
      else sent x = s0 @ [(cmd CMD_FILE_FINISH, [1])] \<and> reqs x = [] \<and> refCount x = 0))"

definition slave_inv :: "lz4 \<Rightarrow> u8 \<Rightarrow> u16 \<Rightarrow> bytes \<Rightarrow> bytes list \<Rightarrow> (u16 \<times> bytes) list \<Rightarrow>
    (u16 \<times> bytes) list \<times> transfer \<times> bytes \<Rightarrow> bool" where
  "slave_inv L ct cd F cs s0 s \<longleftrightarrow> (case s of (inc, x, f) \<Rightarrow>
     \<not> master (ctxNow x) \<and> cf_fileSize (ctxNow x) = word_of_nat (length F) \<and> up x \<and> \<not> singalStop x
     \<and> (storing L ct cd F cs s \<and> sent x = s0 \<or> stored F s0 s))"

definition transferable :: "lz4 \<Rightarrow> u8 \<Rightarrow> bytes \<Rightarrow> bytes list \<Rightarrow> bool" where
  "transferable L ct F cs \<longleftrightarrow> lz4_laws L \<and> chunks F cs \<and> length F < 2 ^ 31
     \<and> (\<forall>d \<in> set cs. d \<noteq> [] \<longrightarrow> compress_block L ct d \<noteq> [])"

lemma slave_start_inv:
  "slave_start F x \<Longrightarrow> slave_inv L ct cd F cs (sent x) (sent_blocks L ct cd 0 cs, x, [])"
proof -
  assume s: "slave_start F x"
  have "storing L ct cd F cs (sent_blocks L ct cd 0 cs, x, [])"
    unfolding storing_def prod.case using s
    by (intro conjI, simp_all add: slave_start_def)
      (rule exI [of _ "[]"], rule exI [of _ cs],
        simp add: written_def tot_simps)
  then show ?thesis using s by (simp add: slave_inv_def slave_start_def)
qed

text \<open>The parts the steps need.\<close>

lemma block_facts:
  assumes "transferable L ct F cs" "cs = got @ d # rest"
  shows "length d < 2 ^ 31" "unat (word_of_nat (length (concat got)) :: u64) = length (concat got)"
    "int_index (word_of_nat (length (concat got))) = word_of_nat (length (concat got))"
    "RecvIOPayload L pld (the (SendIOPayload L ct (word_of_nat (length (concat got))) d))
       = Block (word_of_nat (length (concat got)), d)"
proof -
  have F: "length F < 2 ^ 31" "F = concat got @ d @ concat rest"
    using assms by (auto simp: transferable_def chunks_def)
  then have l: "length (concat got) + length d < 2 ^ 31" by (metis add.assoc add_lessD1 length_append)
  then show d: "length d < 2 ^ 31" by linarith
  have g: "length (concat got) < 2 ^ 31" using l by linarith
  then show u: "unat (word_of_nat (length (concat got)) :: u64) = length (concat got)"
    by (simp add: unat_of_nat)
  show i: "int_index (word_of_nat (length (concat got))) = word_of_nat (length (concat got))"
    by (rule int_index_small) (simp only: u g)
  show "RecvIOPayload L pld (the (SendIOPayload L ct (word_of_nat (length (concat got))) d))
       = Block (word_of_nat (length (concat got)), d)"
    using RecvIOPayload_sent [OF _ d _ SendIOPayload_some, of L ct pld] assms i
    by (auto simp: transferable_def)
qed

lemma length_sent_block:
  assumes "transferable L ct F cs" "d \<in> set cs"
  shows "length (the (SendIOPayload L ct off d)) \<le> HDC_BUF_MAX_BYTES"
proof -
  have "int (length d) \<le> block_size" using assms by (auto simp: transferable_def chunks_def)
  then have "length d \<le> 12288" by (simp add: block_size_def hdc_consts)
  moreover have "length (compress_block L ct d) \<le> length d"
    using assms(1) by (intro length_compress_block) (simp add: transferable_def)
  ultimately show ?thesis
    using length_payload_head [of "\<lparr> tp_index = int_index off, tp_compressType = ct,
        compressSize = word_of_nat (length (compress_block L ct d)), uncompressSize = word_of_nat (length d) \<rparr>"]
    by (simp add: SendIOPayload_head payloadPrefixReserve_def hdc_consts)
qed

lemma spans_append: "spans off (us @ vs) = spans off us @ spans (off + length (concat us)) vs"
  by (induction us arbitrary: off) (simp_all add: add.assoc)

lemma slave_recv_inv:
  assumes t: "transferable L ct F cs" and cb: "cb \<noteq> cd"
    and st: "storing L ct cd F cs ((c, p) # inc, x, f)"
    and m: "\<not> master (ctxNow x)"
  shows "\<exists>x'. CommandDispatch L pld cb cd c p x = Some (True, x') \<and> storing L ct cd F cs (inc, x', f)
    \<and> ctxNow x' = ctxNow x \<and> sent x' = sent x \<and> up x' = up x \<and> singalStop x' = singalStop x"
proof -
  obtain got rest ws os where g: "cs = got @ rest" "(c, p) # inc = sent_blocks L ct cd (length (concat got)) rest"
    "reqs x = map (\<lambda>(a, d). FsWrite (word_of_nat a) d) os" "mset (spans 0 got) = mset ws + mset os"
    "cf_indexIO (ctxNow x) = word_of_nat (tot ws)" "refCount x = length os"
    "written F f ws" "\<not> (ws \<noteq> [] \<and> tot ws = length F)" "\<not> ioFinish (ctxNow x)" "\<not> closeNotify (ctxNow x)"
    using st unfolding storing_def by auto
  obtain d ds where r: "rest = d # ds" using g(2) by (cases rest) auto
  then have cp: "c = cd" "p = the (SendIOPayload L ct (word_of_nat (length (concat got))) d)"
    "inc = sent_blocks L ct cd (length (concat (got @ [d]))) ds" using g(2) by simp_all
  have dcs: "cs = got @ d # ds" "d \<in> set cs" using g(1) r by simp_all
  note bf = block_facts [OF t dcs(1)]
  let ?x = "x\<lparr>refCount := Suc (refCount x), reqs := reqs x @ [FsWrite (word_of_nat (length (concat got))) d]\<rparr>"
  have "CommandDispatch L pld cb cd c p x = Some (True, ?x)"
    using length_sent_block [OF t dcs(2)] cb g(9) m
    by (simp add: CommandDispatch_def cp bf(4) SimpleFileIO_def not_less [symmetric])
  moreover have "storing L ct cd F cs (inc, ?x, f)"
    unfolding storing_def prod.case
    using g(3-10) dcs(1) cp(3)
    by (intro conjI exI [of _ "got @ [d]"] exI [of _ ds] exI [of _ ws] exI [of _ "os @ [(length (concat got), d)]"])
      (simp_all add: spans_append)
  ultimately show ?thesis by simp
qed

lemma snd_spans: "map snd (spans off cs) = cs"
  by (induction cs arbitrary: off) simp_all

lemma tot_zero: "tot ws = 0 \<Longrightarrow> (\<forall>d \<in> set (map snd ws). d \<noteq> []) \<Longrightarrow> ws = []"
  by (cases ws) (auto simp: tot_simps)

lemma all_received:
  assumes t: "transferable L ct F cs" "cs = got @ rest"
    and m: "mset (spans 0 got) = mset ((a, d) # ws) + mset os" and full: "tot ((a, d) # ws) = length F"
  shows "rest = [] \<and> os = []"
proof -
  have F: "concat cs = F" "if F = [] then cs = [[]] else [] \<notin> set cs"
    using t(1) by (auto simp: transferable_def chunks_def)
  have "tot (spans 0 got) = tot (((a, d) # ws) @ os)" using m by (intro tot_mset) simp
  then have "length (concat got) = length F + tot os" using full by (simp add: tot_spans tot_simps)
  then have z: "tot os = 0" "concat rest = []" using F(1) t(2) by auto
  show ?thesis
  proof (cases "F = []")
    case True
    have "got \<noteq> []" using m by auto
    then have "got = [[]]" "rest = []" using True F(2) t(2) by (auto simp: append_eq_Cons_conv Cons_eq_append_conv)
    then show ?thesis using m by (cases ws) auto
  next
    case False
    then have ne: "[] \<notin> set got" "[] \<notin> set rest" using F(2) t(2) by auto
    have "set os \<subseteq> set (spans 0 got)" using m by (metis mset_subset_eq_add_right set_mset_mono set_mset_mset)
    then have "\<forall>e \<in> set (map snd os). e \<noteq> []" using ne(1) snd_spans [of 0 got]
      by (metis (no_types, lifting) image_mono list.set_map subsetD)
    moreover have "rest = []" using z(2) ne(2) by (cases rest) auto
    ultimately show ?thesis using tot_zero [OF z(1)] by blast
  qed
qed

text \<open>A completed write of a slave that is not finished.\<close>

lemma OnFileIO_write:
  assumes "\<not> ioFinish (ctxNow x)" "cf_indexIO (ctxNow x) = word_of_nat n"
    "cf_fileSize (ctxNow x) = word_of_nat len" "n + length d \<le> len" "len < 2 ^ 64"
    and y_def: "y = OnFileIO L c (FsWrite off d) (int (length d)) [] x"
  shows "n + length d < len \<Longrightarrow> ctxNow y = (ctxNow x)\<lparr>cf_indexIO := word_of_nat (n + length d)\<rparr>
      \<and> reqs y = reqs x \<and> refCount y = refCount x - 1"
    and "n + length d = len \<Longrightarrow> ctxNow y = (ctxNow x)\<lparr>cf_indexIO := word_of_nat len,
        closeNotify := True, ioFinish := True\<rparr> \<and> reqs y = reqs x @ [FsClose] \<and> refCount y = refCount x"
    and "sent y = sent x \<and> up y = up x \<and> singalStop y = singalStop x"
proof -
  have le: "(word_of_nat len \<le> (word_of_nat n + word_of_nat (length d) :: u64)) \<longleftrightarrow> n + length d = len"
    using assms(4,5) by (auto simp: word_le_nat_alt unat_of_nat simp flip: of_nat_add)
  show "n + length d < len \<Longrightarrow> ctxNow y = (ctxNow x)\<lparr>cf_indexIO := word_of_nat (n + length d)\<rparr>
      \<and> reqs y = reqs x \<and> refCount y = refCount x - 1"
    and "n + length d = len \<Longrightarrow> ctxNow y = (ctxNow x)\<lparr>cf_indexIO := word_of_nat len,
        closeNotify := True, ioFinish := True\<rparr> \<and> reqs y = reqs x @ [FsClose] \<and> refCount y = refCount x"
    and "sent y = sent x \<and> up y = up x \<and> singalStop y = singalStop x"
    using assms(1-3) le
    by (auto simp: y_def OnFileIO_def io_result_def Let_def ctx_upd_def SetFileTime_def)
qed

lemma slave_wrote_inv:
  assumes t: "transferable L ct F cs" and pw: "posix_pwrite pw"
    and st: "storing L ct cd F cs (inc, x, f)" and fs: "cf_fileSize (ctxNow x) = word_of_nat (length F)"
    and q: "reqs x = rs @ FsWrite off d # rs'"
    and y_def: "y = OnFileIO L cd (FsWrite off d) (int (length d)) [] (x\<lparr>reqs := rs @ rs'\<rparr>)"
  shows "(storing L ct cd F cs (inc, y, pw (unat off) d f) \<or> stored F (sent x) (inc, y, pw (unat off) d f))
    \<and> master (ctxNow y) = master (ctxNow x) \<and> cf_fileSize (ctxNow y) = cf_fileSize (ctxNow x)
    \<and> sent y = sent x \<and> up y = up x \<and> singalStop y = singalStop x"
proof -
  obtain got rest ws os where g: "cs = got @ rest" "inc = sent_blocks L ct cd (length (concat got)) rest"
    "reqs x = map (\<lambda>(a, d). FsWrite (word_of_nat a) d) os" "mset (spans 0 got) = mset ws + mset os"
    "cf_indexIO (ctxNow x) = word_of_nat (tot ws)" "refCount x = length os"
    "written F f ws" "\<not> (ws \<noteq> [] \<and> tot ws = length F)" "\<not> ioFinish (ctxNow x)" "\<not> closeNotify (ctxNow x)"
    using st unfolding storing_def by auto
  have F: "concat cs = F" "length F < 2 ^ 31" using t by (simp_all add: transferable_def chunks_def)
  obtain o1 a o2 where os: "os = o1 @ (a, d) # o2" "off = word_of_nat a"
    "rs = map (\<lambda>(a, d). FsWrite (word_of_nat a) d) o1" "rs' = map (\<lambda>(a, d). FsWrite (word_of_nat a) d) o2"
    using q unfolding g(3) by (auto simp: map_eq_append_conv map_eq_Cons_conv)
  have "(a, d) \<in># mset (spans 0 got)" unfolding g(4) os(1) by simp
  then have "(a, d) \<in> set (spans 0 cs)" unfolding g(1) by (simp add: spans_append)
  then have ad: "a + length d \<le> length F" "d = take (length d) (drop a F)"
    using spans_in_file [of cs 0 F a d] F(1) by auto
  then have "unat off = a" using F(2) by (simp add: os(2) unat_of_nat)
  then have w: "written F (pw (unat off) d f) ((a, d) # ws)"
    using written_write [OF pw g(7) ad] by simp
  have m: "mset (spans 0 got) = mset ((a, d) # ws) + mset (o1 @ o2)" using g(4) by (simp add: os(1))
  have "tot (spans 0 got) = tot (((a, d) # ws) @ (o1 @ o2))" using m by (intro tot_mset) simp
  then have le: "tot ws + length d \<le> length F"
    using F(1) g(1) by (auto simp: tot_spans tot_simps)
  have x1: "\<not> ioFinish (ctxNow (x\<lparr>reqs := rs @ rs'\<rparr>))" "cf_indexIO (ctxNow (x\<lparr>reqs := rs @ rs'\<rparr>)) = word_of_nat (tot ws)"
    "cf_fileSize (ctxNow (x\<lparr>reqs := rs @ rs'\<rparr>)) = word_of_nat (length F)" using g(5,9) fs by simp_all
  have F64: "length F < 2 ^ 64" using F(2) by simp
  note io = OnFileIO_write [OF x1 le F64 y_def]
  show ?thesis
  proof (cases "tot ws + length d = length F")
    case True
    have e: "rest = [] \<and> o1 @ o2 = []"
      using all_received [OF t g(1) m] True by (simp add: tot_simps add.commute)
    have cov: "\<exists>(b, e) \<in> set ((a, d) # ws). b \<le> j \<and> j < b + length e" if "j < length F" for j
    proof -
      have "set (spans 0 cs) = set ((a, d) # ws)"
        using m e g(1) by (metis append_Nil2 mset_append set_mset_mset mset.simps(1))
      then show ?thesis using spans_cover [of cs 0 F j] F(1) that by auto
    qed
    have fF: "pw (unat off) d f = F" by (rule written_all [OF w cov])
    have "stored F (sent x) (inc, y, pw (unat off) d f)"
      using io(2) [OF True] io(3) e g(2,3,6) os fF by (simp add: stored_def)
    then show ?thesis using io(2) [OF True] io(3) by simp
  next
    case False
    then have lt: "tot ws + length d < length F" using le by simp
    have "storing L ct cd F cs (inc, y, pw (unat off) d f)"
      unfolding storing_def prod.case
      using io(1) [OF lt] g os w m lt
      by (intro conjI exI [of _ got] exI [of _ rest] exI [of _ "(a, d) # ws"] exI [of _ "o1 @ o2"])
        (simp_all add: tot_simps add.commute)
    then show ?thesis using io(1) [OF lt] io(3) by simp
  qed
qed

lemma slave_closed_inv:
  assumes s: "stored F s0 (inc, x, f)" and q: "reqs x = rs @ FsClose # rs'" and u: "up x" "\<not> singalStop x"
  shows "stored F s0 (inc, OnFileClose (x\<lparr>reqs := rs @ rs'\<rparr>), f)
    \<and> sent x = s0 \<and> sent (OnFileClose (x\<lparr>reqs := rs @ rs'\<rparr>)) \<noteq> s0
    \<and> master (ctxNow (OnFileClose (x\<lparr>reqs := rs @ rs'\<rparr>))) = master (ctxNow x)
    \<and> cf_fileSize (ctxNow (OnFileClose (x\<lparr>reqs := rs @ rs'\<rparr>))) = cf_fileSize (ctxNow x)
    \<and> up (OnFileClose (x\<lparr>reqs := rs @ rs'\<rparr>)) \<and> \<not> singalStop (OnFileClose (x\<lparr>reqs := rs @ rs'\<rparr>))"
proof -
  have s0: "sent x = s0" "reqs x = [FsClose]" "refCount x = 1" "closeNotify (ctxNow x)" "ioFinish (ctxNow x)"
    "inc = []" "f = F"
    using s q by (auto simp: stored_def split: if_splits)
  then have "rs = []" "rs' = []" using q by (auto simp: append_eq_Cons_conv Cons_eq_append_conv)
  then show ?thesis using s0 u
    by (simp add: OnFileClose_def WhenTransferFinish_def SendToAnother_def ctx_upd_def Let_def stored_def)
qed

lemma slave_step_inv:
  assumes "slave_step L pld cb cd pw s s'" "slave_inv L ct cd F cs s0 s"
    and t: "transferable L ct F cs" and "cb \<noteq> cd" and pw: "posix_pwrite pw"
  shows "slave_inv L ct cd F cs s0 s'"
  using assms(1)
proof cases
  case (slave_recv c p x ok x' inc f)
  have i: "\<not> master (ctxNow x)" "cf_fileSize (ctxNow x) = word_of_nat (length F)" "up x" "\<not> singalStop x"
    "storing L ct cd F cs ((c, p) # inc, x, f)" "sent x = s0"
    using assms(2) slave_recv(1) by (auto simp: slave_inv_def stored_def)
  from slave_recv_inv [OF t assms(4) i(5,1), of pld] slave_recv(3) i
  show ?thesis by (auto simp: slave_inv_def slave_recv(2))
next
  case (slave_wrote x rs off d rs' inc f)
  have i: "\<not> master (ctxNow x)" "cf_fileSize (ctxNow x) = word_of_nat (length F)" "up x" "\<not> singalStop x"
    "storing L ct cd F cs (inc, x, f)" "sent x = s0"
    using assms(2) slave_wrote(1,3)
    by (auto simp: slave_inv_def stored_def append_eq_Cons_conv Cons_eq_append_conv split: if_splits)
  from slave_wrote_inv [OF t pw i(5,2) slave_wrote(3) refl] i
  show ?thesis by (auto simp: slave_inv_def slave_wrote(2))
next
  case (slave_closed x rs rs' inc f)
  have nst: "\<not> storing L ct cd F cs (inc, x, f)"
  proof
    assume "storing L ct cd F cs (inc, x, f)"
    then obtain os where "reqs x = map (\<lambda>(a, d). FsWrite (word_of_nat a) d) os"
      unfolding storing_def by auto
    then have "FsClose \<notin> set (reqs x)" by auto
    then show False using slave_closed(3) by simp
  qed
  then have "stored F s0 (inc, x, f)" "up x" "\<not> singalStop x"
    using assms(2) slave_closed(1) by (auto simp: slave_inv_def)
  from slave_closed_inv [OF this(1) slave_closed(3) this(2,3)] assms(2)
  show ?thesis by (auto simp: slave_inv_def slave_closed(1,2))
qed

lemma slave_run_inv:
  assumes "(slave_step L pld cb cd pw)\<^sup>*\<^sup>* s s'" "slave_inv L ct cd F cs s0 s"
    and "transferable L ct F cs" "cb \<noteq> cd" "posix_pwrite pw"
  shows "slave_inv L ct cd F cs s0 s'"
  using assms(1,2) by (induction rule: rtranclp_induct) (auto intro: slave_step_inv [OF _ _ assms(3-5)])

text \<open>A state from which nothing more happens is the end.\<close>

lemma slave_stuck_done:
  assumes i: "slave_inv L ct cd F cs s0 (inc, x, f)" and t: "transferable L ct F cs" and cb: "cb \<noteq> cd"
    and stuck: "\<And>s'. \<not> slave_step L pld cb cd pw (inc, x, f) s'"
  shows "inc = [] \<and> f = F \<and> sent x = s0 @ [(cmd CMD_FILE_FINISH, [1])] \<and> reqs x = [] \<and> refCount x = 0"
proof (cases "stored F s0 (inc, x, f)")
  case True
  have "reqs x \<noteq> [FsClose]" using stuck slave_closed [of x "[]" "[]" L pld cb cd pw inc f] by auto
  then show ?thesis using True by (auto simp: stored_def split: if_splits)
next
  case False
  then have st: "storing L ct cd F cs (inc, x, f)" and m: "\<not> master (ctxNow x)"
    using i by (auto simp: slave_inv_def)
  show ?thesis
  proof (cases inc)
    case (Cons e inc')
    obtain c p where e: "e = (c, p)" by (cases e)
    then obtain x' where "CommandDispatch L pld cb cd c p x = Some (True, x')"
      using slave_recv_inv [OF t cb _ m, of c p inc' f pld] st Cons t by auto
    then show ?thesis using stuck slave_recv [of L pld cb cd c p x True x' pw inc' f] Cons e by auto
  next
    case Nil
    obtain got rest ws os where g: "cs = got @ rest" "inc = sent_blocks L ct cd (length (concat got)) rest"
      "reqs x = map (\<lambda>(a, d). FsWrite (word_of_nat a) d) os" "mset (spans 0 got) = mset ws + mset os"
      "\<not> (ws \<noteq> [] \<and> tot ws = length F)"
      using st unfolding storing_def by auto
    have r: "rest = []" using g(2) Nil by (cases rest) auto
    have os: "os = []"
    proof (cases os)
      case (Cons e os')
      then show ?thesis
        using stuck slave_wrote [of x "[]" "word_of_nat (fst e)" "snd e"
            "map (\<lambda>(a, d). FsWrite (word_of_nat a) d) os'" L pld cb cd pw inc f] g(3)
        by (simp add: case_prod_unfold)
    qed simp
    have F: "concat cs = F" "cs \<noteq> []" using t by (auto simp: transferable_def chunks_def split: if_splits)
    have "tot ws = length F" using g(4) os tot_mset [of "spans 0 got" ws] F(1) g(1) r by (simp add: tot_spans)
    moreover have "ws \<noteq> []" using g(1,4) os r F(2) by (cases cs) auto
    ultimately show ?thesis using g(5) by simp
  qed
qed

definition left :: "(u16 \<times> bytes) list \<times> transfer \<times> bytes \<Rightarrow> nat" where
  "left s = (case s of (inc, x, f) \<Rightarrow>
     3 * length inc + sum_list (map (\<lambda>r. case r of FsClose \<Rightarrow> 1 | _ \<Rightarrow> 2) (reqs x)))"

lemma slave_step_decreases:
  assumes "slave_step L pld cb cd pw s s'" "slave_inv L ct cd F cs s0 s"
    and t: "transferable L ct F cs" and "cb \<noteq> cd" and pw: "posix_pwrite pw"
  shows "left s' < left s"
  using assms(1)
proof cases
  case (slave_recv c p x ok x' inc f)
  have i: "\<not> master (ctxNow x)" "storing L ct cd F cs ((c, p) # inc, x, f)" "\<not> ioFinish (ctxNow x)"
    using assms(2) slave_recv(1) by (auto simp: slave_inv_def stored_def storing_def)
  obtain n rest where "(c, p) # inc = sent_blocks L ct cd n rest" using i(2) unfolding storing_def by auto
  then have "c = cd" by (cases rest) auto
  then have "\<exists>a d. reqs x' = reqs x @ [FsWrite a d]"
    using slave_recv(3) assms(4) slave_recv_inv [OF t assms(4) i(2,1), of pld] i
    by (auto simp: CommandDispatch_def SimpleFileIO_def split: received.splits if_splits prod.splits)
  then show ?thesis by (auto simp: left_def slave_recv(1,2))
next
  case (slave_wrote x rs off d rs' inc f)
  have "reqs (OnFileIO L cd (FsWrite off d) (int (length d)) [] (x\<lparr>reqs := rs @ rs'\<rparr>))
      \<in> {rs @ rs', rs @ rs' @ [FsClose]}"
    by (auto simp: OnFileIO_def io_result_def Let_def ctx_upd_def SetFileTime_def)
  then show ?thesis by (auto simp: left_def slave_wrote)
next
  case (slave_closed x rs rs' inc f)
  then show ?thesis
    by (auto simp: left_def OnFileClose_def WhenTransferFinish_def SendToAnother_def ctx_upd_def Let_def)
qed

text \<open>
  C4. Given the blocks of a file below 2 GiB, of which every block can be compressed when the transfer
  compresses (\<open>transferable\<close>), a slave that has opened an empty file comes to an end in whatever
  order its writes complete, every step bringing it closer; it announces the finish exactly once, and
  by then its file is the master's. Larger files and incompressible blocks are the subject of
  \<open>large_offset_is_lost\<close> and \<open>incompressible_block_rejected\<close>.
\<close>

theorem slave_stores_file:
  assumes "transferable L ct F cs" "cb \<noteq> cd" "posix_pwrite pw" "slave_start F x"
    and "(slave_step L pld cb cd pw)\<^sup>*\<^sup>* (blocks L ct cd 0 cs, x, []) (inc, y, f)"
  shows "(sent y = sent x \<or> sent y = sent x @ [(cmd CMD_FILE_FINISH, [1])] \<and> inc = [] \<and> f = F)
    \<and> ((\<nexists>s. slave_step L pld cb cd pw (inc, y, f) s) \<longrightarrow>
         sent y = sent x @ [(cmd CMD_FILE_FINISH, [1])] \<and> f = F \<and> refCount y = 0)
    \<and> (\<forall>s. slave_step L pld cb cd pw (inc, y, f) s \<longrightarrow> left s < left (inc, y, f))"
proof -
  have "sent_blocks L ct cd 0 cs = blocks L ct cd 0 cs"
    by (rule sent_blocks_correct) (use assms(1) in \<open>simp add: transferable_def chunks_def\<close>)
  then have r: "(slave_step L pld cb cd pw)\<^sup>*\<^sup>* (sent_blocks L ct cd 0 cs, x, []) (inc, y, f)"
    using assms(5) by simp
  have i: "slave_inv L ct cd F cs (sent x) (inc, y, f)"
    by (rule slave_run_inv [OF r slave_start_inv [OF assms(4)] assms(1-3)])
  have "sent y = sent x \<or> sent y = sent x @ [(cmd CMD_FILE_FINISH, [1])] \<and> inc = [] \<and> f = F"
    using i by (auto simp: slave_inv_def stored_def split: if_splits)
  moreover have "sent y = sent x @ [(cmd CMD_FILE_FINISH, [1])] \<and> f = F \<and> refCount y = 0"
    if "\<nexists>s. slave_step L pld cb cd pw (inc, y, f) s"
    using slave_stuck_done [OF i assms(1,2)] that by blast
  moreover have "left s < left (inc, y, f)" if "slave_step L pld cb cd pw (inc, y, f) s" for s
    by (rule slave_step_decreases [OF that i assms(1-3)])
  ultimately show ?thesis by blast
qed

section \<open>A small file\<close>

definition pwrite :: "nat \<Rightarrow> bytes \<Rightarrow> bytes \<Rightarrow> bytes" where
  "pwrite off d f = (if d = [] then f
     else take off f @ replicate (off - length f) 0 @ d @ drop (off + length d) f)"

lemma pwrite_posix: "posix_pwrite pwrite"
  unfolding posix_pwrite_def
proof (intro allI conjI impI)
  fix off d f i
  show "length (pwrite off d f) = (if d = [] then length f else max (length f) (off + length d))"
    by (auto simp: pwrite_def)
  assume "i < length (pwrite off d f)"
  then show "pwrite off d f ! i =
      (if off \<le> i \<and> i < off + length d then d ! (i - off) else if i < length f then f ! i else 0)"
    by (auto simp: pwrite_def nth_append min_def split: if_splits)
qed

definition no_lz4 :: lz4 where
  "no_lz4 = \<lparr> LZ4_compress_default = (\<lambda>d n. []), LZ4_decompress_safe = (\<lambda>d n. None) \<rparr>"

definition idle_transfer :: transfer where
  "idle_transfer = \<lparr> ctxNow = CtxFile0\<lparr>cf_fileSize := 3\<rparr>, refCount = 0, reqs = [], sent = [],
     up = True, singalStop = False, logs = 0, timeSet = False \<rparr>"

definition small_file :: bytes where
  "small_file = [7, 8, 9]"

lemma small_transferable: "transferable no_lz4 COMPRESS_NONE small_file [[7, 8], [9]]"
  by (simp add: transferable_def chunks_def lz4_laws_def no_lz4_def compress_block_def small_file_def
      COMPRESS_NONE_def COMPRESS_LZ4_def block_size_def hdc_consts)

definition blank_payload :: TransferPayload where
  "blank_payload = \<lparr> tp_index = 0, tp_compressType = 0, compressSize = 0, uncompressSize = 0 \<rparr>"

definition small_blocks :: "(u16 \<times> bytes) list" where
  "small_blocks = blocks no_lz4 COMPRESS_NONE 2 0 [[7, 8], [9]]"

lemma idle_sent: "sent idle_transfer = []"
  by (simp add: idle_transfer_def)

theorem slave_stores_file_witness:
  "left (tl small_blocks, snd (the (CommandDispatch no_lz4 blank_payload 1 2 (fst (hd small_blocks))
       (snd (hd small_blocks)) idle_transfer)), [])
     < left (small_blocks, idle_transfer, [])"
proof -
  let ?c = "fst (hd small_blocks)" and ?p = "snd (hd small_blocks)"
  have b: "small_blocks = (?c, ?p) # tl small_blocks" by (simp add: small_blocks_def Let_def)
  have st: "slave_start small_file idle_transfer"
    by (simp add: slave_start_def idle_transfer_def small_file_def CtxFile0_def)
  have inv: "slave_inv no_lz4 COMPRESS_NONE 2 small_file [[7, 8], [9]] [] (small_blocks, idle_transfer, [])"
    using slave_start_inv [OF st, of no_lz4 COMPRESS_NONE 2 "[[7, 8], [9]]"]
    by (simp add: small_blocks_def sent_blocks_correct idle_sent del: blocks.simps sent_blocks.simps)
  then have "storing no_lz4 COMPRESS_NONE 2 small_file [[7, 8], [9]] ((?c, ?p) # tl small_blocks, idle_transfer, [])"
    "\<not> master (ctxNow idle_transfer)"
    using b by (auto simp: slave_inv_def stored_def idle_transfer_def CtxFile0_def)
  from slave_recv_inv [OF small_transferable _ this, of 1 blank_payload] obtain x' where
    x': "CommandDispatch no_lz4 blank_payload 1 2 ?c ?p idle_transfer = Some (True, x')" by auto
  have "slave_step no_lz4 blank_payload 1 2 pwrite (small_blocks, idle_transfer, []) (tl small_blocks, x', [])"
    using slave_recv [OF x', of pwrite "tl small_blocks" "[]"] b by simp
  with slave_stores_file [OF small_transferable _ pwrite_posix st, of 1 2 blank_payload] x'
  show ?thesis by (auto simp: small_blocks_def)
qed

theorem master_sends_file_witness:
  "\<exists>z. (master_step no_lz4 2 small_file)\<^sup>*\<^sup>*
       (idle_transfer\<lparr>ctxNow := CtxFile0\<lparr>cf_fileSize := 3, master := True\<rparr>, reqs := [FsRead 0 block_size]\<rparr>) z
     \<and> ioFinish (ctxNow z)"
proof -
  let ?x = "idle_transfer\<lparr>ctxNow := CtxFile0\<lparr>cf_fileSize := 3, master := True\<rparr>, reqs := [FsRead 0 block_size]\<rparr>"
  have "master_start COMPRESS_NONE small_file ?x"
    by (simp add: master_start_def idle_transfer_def small_file_def CtxFile0_def TransferConfig0_def
        COMPRESS_NONE_def)
  moreover have "length small_file < 2 ^ 31" by (simp add: small_file_def)
  ultimately show ?thesis using master_sends_file [of COMPRESS_NONE small_file ?x no_lz4 2] by blast
qed

section \<open>Where the transfer goes wrong\<close>

text \<open>
  A block at an offset of 2 GiB or more is sent with another offset, since the offset goes
  through an \<open>int\<close>: such a file does not arrive.
\<close>

theorem large_offset_is_lost:
  assumes "2 ^ 31 \<le> unat off" "unat off < 2 ^ 63"
  shows "int_index off \<noteq> off"
proof
  assume e: "int_index off = off"
  let ?s = "sint (ucast off :: 32 word)"
  have b: "- (2 ^ 31) \<le> ?s" "?s < 2 ^ 31"
    using sint_ge [of "ucast off :: 32 word"] sint_lt [of "ucast off :: 32 word"] by simp_all
  have "word_of_int ?s = off" using e unfolding int_index_def scast_eq .
  then have "uint off = uint (word_of_int ?s :: u64)" by (simp only:)
  also have "\<dots> = ?s mod 2 ^ LENGTH(64)" by (rule uint_word_of_int)
  finally have u: "uint off = ?s mod 2 ^ 64" by simp
  have o: "2 ^ 31 \<le> uint off" "uint off < 2 ^ 63"
  proof -
    have "int (2 ^ 31) \<le> int (unat off)" "int (unat off) < int (2 ^ 63)"
      using assms by (simp_all only: of_nat_le_iff of_nat_less_iff)
    then show "2 ^ 31 \<le> uint off" "uint off < 2 ^ 63" by simp_all
  qed
  show False
  proof (cases "0 \<le> ?s")
    case True
    then have "?s mod 2 ^ 64 = ?s" using b(2) by simp
    then show False using u o(1) b(2) by simp
  next
    case False
    have "?s mod 2 ^ 64 = (?s + 2 ^ 64) mod 2 ^ 64" by simp
    also have "\<dots> = ?s + 2 ^ 64" by (rule mod_pos_pos_trivial) (use b False in simp_all)
    finally have "?s mod 2 ^ 64 = ?s + 2 ^ 64" .
    then show False using u o(2) b(1) by simp
  qed
qed

theorem large_offset_is_lost_witness: "int_index 0x80000000 \<noteq> 0x80000000"
  by (rule large_offset_is_lost) simp_all

text \<open>
  A block that LZ4 cannot make smaller is sent without its bytes, and the slave rejects it.
\<close>

theorem incompressible_block_rejected:
  assumes "lz4_laws L" "d \<noteq> []" "length d < 2 ^ 31" "LZ4_compress_default L d (length d) = []"
  shows "RecvIOPayload L pld0 (the (SendIOPayload L COMPRESS_LZ4 off d)) = Rejected"
proof -
  have c: "compress_block L COMPRESS_LZ4 d = []" using assms(4) by (simp add: compress_block_def)
  let ?m = "\<lparr> tp_index = int_index off, tp_compressType = COMPRESS_LZ4, compressSize = 0,
      uncompressSize = word_of_nat (length d) \<rparr>"
  let ?h = "WriteMessage Descriptor_TransferPayload ?m"
  let ?p = "?h @ replicate (payloadPrefixReserve - length ?h) 0"
  have p: "the (SendIOPayload L COMPRESS_LZ4 off d) = ?p" by (simp add: SendIOPayload_head c)
  have l: "length ?p = payloadPrefixReserve"
    using length_payload_head [of ?m] by (simp add: payloadPrefixReserve_def)
  then have par: "ParseFromString Descriptor_TransferPayload pld0 (chars_of (take payloadPrefixReserve ?p))
      = Some (True, ?m)"
    by (simp only: take_all order_refl transfer_payload_padded)
  have "RecvIOPayload L pld0 ?p = store_block L ?m ?p"
    unfolding RecvIOPayload_def par using l by simp
  then show ?thesis using assms(2,3) by (simp add: p store_block_def Let_def unat_of_nat)
qed

theorem incompressible_block_rejected_witness:
  "RecvIOPayload no_lz4 blank_payload (the (SendIOPayload no_lz4 COMPRESS_LZ4 0 [7])) = Rejected"
  by (rule incompressible_block_rejected) (simp_all add: lz4_laws_def no_lz4_def)

text \<open>
  The receiver trusts the sizes of a block: a payload shorter than the fixed prefix, and one
  whose header announces more bytes than follow, are read beyond their end.
\<close>

theorem short_payload_over_read:
  "(length data < payloadPrefixReserve \<longrightarrow> RecvIOPayload L pld0 data = OverRead)
   \<and> (compressSize m \<noteq> 0 \<longrightarrow>
      RecvIOPayload L pld0 (WriteMessage Descriptor_TransferPayload m
        @ replicate (payloadPrefixReserve - length (WriteMessage Descriptor_TransferPayload m)) 0) = OverRead)"
proof (intro conjI impI)
  show "RecvIOPayload L pld0 data = OverRead" if "length data < payloadPrefixReserve"
    using that by (simp add: RecvIOPayload_def)
  assume z: "compressSize m \<noteq> 0"
  let ?h = "WriteMessage Descriptor_TransferPayload m"
  let ?p = "?h @ replicate (payloadPrefixReserve - length ?h) 0"
  have l: "length ?p = payloadPrefixReserve"
    using length_payload_head [of m] by (simp add: payloadPrefixReserve_def)
  then have par: "ParseFromString Descriptor_TransferPayload pld0 (chars_of (take payloadPrefixReserve ?p))
      = Some (True, m)"
    by (simp only: take_all order_refl transfer_payload_padded)
  have "RecvIOPayload L pld0 ?p = store_block L m ?p"
    unfolding RecvIOPayload_def par using l by simp
  then show "RecvIOPayload L pld0 ?p = OverRead" using l z by (simp add: store_block_def Let_def unat_eq_0)
qed

theorem short_payload_over_read_witness: "RecvIOPayload no_lz4 blank_payload [1, 2, 3] = OverRead"
  using short_payload_over_read [of "[1, 2, 3]" no_lz4 blank_payload] by (simp add: payloadPrefixReserve_def)

end
