(* ===== verification/Hdc_Args.thy ===== *)
theory Hdc_Args
  imports Hdc_Define
begin

text \<open>
  \<open>SplitCommandToArgs\<close> of src/src/common/base.cpp: a command line is cut into words in one block
  of memory, the first part of which holds the pointers and the rest the characters. Pointers
  are offsets into the characters; a write outside either part is \<open>None\<close>.
\<close>

section \<open>The code\<close>

record split_state =
  isQuoted :: bool
  isText :: bool
  isSpace :: bool
  temp :: string
  sj :: nat
  argv :: "nat option list"
  argc :: nat

definition store :: "nat \<Rightarrow> 'a \<Rightarrow> 'a list \<Rightarrow> 'a list option" where
  "store k x xs = (if k < length xs then Some (xs[k := x]) else None)"

definition put_temp :: "char \<Rightarrow> split_state \<Rightarrow> split_state option" where
  "put_temp a S = map_option (\<lambda>t. S\<lparr>temp := t, sj := Suc (sj S)\<rparr>) (store (sj S) a (temp S))"

definition start_word :: "split_state \<Rightarrow> split_state option" where
  "start_word S =
     (if isSpace S then map_option (\<lambda>v. S\<lparr>argv := v, argc := Suc (argc S)\<rparr>) (store (argc S) (Some (sj S)) (argv S))
      else Some S)"

definition blank :: "char \<Rightarrow> bool" where
  "blank a \<longleftrightarrow> a = CHR '' '' \<or> a = CHR 0x09 \<or> a = CHR 0x0A \<or> a = CHR 0x0D"

definition split_step :: "char \<Rightarrow> split_state \<Rightarrow> split_state option" where
  "split_step a S =
     (if isQuoted S then
        if a = CHR 0x22 then Some (S\<lparr>isQuoted := False\<rparr>) else put_temp a S
      else if a = CHR 0x22 then
        map_option (\<lambda>T. T\<lparr>isSpace := False\<rparr>) (start_word (S\<lparr>isQuoted := True, isText := True\<rparr>))
      else if blank a then
        map_option (\<lambda>T. T\<lparr>isText := False, isSpace := True\<rparr>)
          (if isText S then put_temp (CHR 0x00) S else Some S)
      else
        map_option (\<lambda>T. T\<lparr>isSpace := False\<rparr>)
          (Option.bind (start_word (S\<lparr>isText := True\<rparr>)) (put_temp a)))"

fun split_chars :: "string \<Rightarrow> split_state \<Rightarrow> split_state option" where
  "split_chars [] S = Some S"
| "split_chars (a # s) S = Option.bind (split_step a S) (split_chars s)"

text \<open>
  The sizes of the two parts; what \<open>new\<close> leaves in them is arbitrary, here zero. The inner
  option is the null pointer returned for an empty line.
\<close>

definition split_init :: "nat \<Rightarrow> split_state" where
  "split_init len =
     \<lparr> isQuoted = False, isText = False, isSpace = True,
       temp = replicate (len + 2) (CHR 0x00), sj = 0,
       argv = (replicate ((len + 2) div 2 + 1) None)[0 := Some 0], argc = 0 \<rparr>"

definition SplitCommandToArgs :: "string \<Rightarrow> split_state option option" where
  "SplitCommandToArgs cmdStringLine =
     (if length cmdStringLine < 1 then Some None
      else Option.bind (split_chars cmdStringLine (split_init (length cmdStringLine))) (\<lambda>S.
        Option.bind (store (sj S) (CHR 0x00) (temp S)) (\<lambda>t.
          map_option (\<lambda>v. Some (S\<lparr>temp := t, argv := v\<rparr>)) (store (argc S) None (argv S)))))"

text \<open>What a caller sees: the strings the pointers lead to, up to the null pointer.\<close>

definition c_string :: "string \<Rightarrow> nat \<Rightarrow> string" where
  "c_string t p = takeWhile (\<lambda>a. a \<noteq> CHR 0x00) (drop p t)"

definition arg_strings :: "split_state \<Rightarrow> string list" where
  "arg_strings S = map (\<lambda>p. c_string (temp S) (the p)) (takeWhile (\<lambda>p. p \<noteq> None) (argv S))"

section \<open>The words of a line\<close>

text \<open>
  Words are separated by blanks; between quotation marks a blank is an ordinary character, and
  the marks themselves are dropped. The middle argument is the word begun, if any.
\<close>

fun words_from :: "bool \<Rightarrow> string option \<Rightarrow> string \<Rightarrow> string list" where
  "words_from q cur [] = (case cur of None \<Rightarrow> [] | Some w \<Rightarrow> [w])"
| "words_from q cur (a # s) =
     (let w = (case cur of None \<Rightarrow> [] | Some w \<Rightarrow> w) in
      if a = CHR 0x22 then words_from (\<not> q) (Some w) s
      else if q \<or> \<not> blank a then words_from q (Some (w @ [a])) s
      else (case cur of None \<Rightarrow> [] | Some w \<Rightarrow> [w]) @ words_from q None s)"

definition line_words :: "string \<Rightarrow> string list" where
  "line_words s = words_from False None s"

section \<open>Equivalence\<close>

definition packed :: "string list \<Rightarrow> string" where
  "packed ws = concat (map (\<lambda>w. w @ [CHR 0x00]) ws)"

text \<open>The state when \<open>ws\<close> are the finished words, \<open>cur\<close> the one begun, of \<open>n\<close> characters read.\<close>

definition split_ok :: "nat \<Rightarrow> nat \<Rightarrow> string list \<Rightarrow> string option \<Rightarrow> split_state \<Rightarrow> bool" where
  "split_ok len n ws cur S \<longleftrightarrow>
     isText S = (cur \<noteq> None) \<and> isSpace S = (cur = None) \<and> (isQuoted S \<longrightarrow> cur \<noteq> None)
   \<and> length (temp S) = len + 2 \<and> length (argv S) = (len + 2) div 2 + 1
   \<and> sj S \<le> n \<and> take (sj S) (temp S) = packed ws @ (case cur of None \<Rightarrow> [] | Some w \<Rightarrow> w)
   \<and> sj S = length (packed ws @ (case cur of None \<Rightarrow> [] | Some w \<Rightarrow> w))
   \<and> argc S = length ws + (if cur = None then 0 else 1)
   \<and> 2 * length ws + (if cur = None then 0 else 1) \<le> n
   \<and> take (argc S) (argv S) = map (\<lambda>k. Some (length (packed (take k ws)))) [0 ..< argc S]"

lemma packed_append: "packed (ws @ [w]) = packed ws @ w @ [CHR 0x00]"
  by (simp add: packed_def)

lemma take_update_end: "k < length xs \<Longrightarrow> take (Suc k) (xs[k := x]) = take k xs @ [x]"
  by (simp add: take_Suc_conv_app_nth)

lemma put_temp_ok:
  assumes "split_ok len n ws cur S" "cur = Some w" "n < len"
  shows "\<exists>T. put_temp a S = Some T \<and> split_ok len (Suc n) ws (Some (w @ [a])) T
    \<and> isQuoted T = isQuoted S"
  using assms by (auto simp: put_temp_def store_def split_ok_def take_update_end)

lemma end_word_ok:
  assumes "split_ok len n ws (Some w) S" "n < len" "\<not> isQuoted S"
  shows "\<exists>T. put_temp (CHR 0x00) S = Some T
    \<and> split_ok len (Suc n) (ws @ [w]) None (T\<lparr>isText := False, isSpace := True\<rparr>) \<and> \<not> isQuoted T"
  using assms
  by (auto simp: put_temp_def store_def split_ok_def take_update_end packed_append)

lemma start_word_ok:
  assumes "split_ok len n ws None S" "n < len" "isQuoted T = q" "T = S\<lparr>isQuoted := q, isText := True\<rparr>"
  shows "\<exists>T'. start_word T = Some T' \<and> split_ok len (Suc n) ws (Some []) (T'\<lparr>isSpace := False\<rparr>)
    \<and> isQuoted T' = q"
proof -
  have l: "2 * length ws < len" "length (argv S) = (len + 2) div 2 + 1" "argc S = length ws"
    using assms by (auto simp: split_ok_def)
  then have "argc S < length (argv S)" by linarith
  then show ?thesis
    using assms by (auto simp: start_word_def store_def split_ok_def take_update_end)
qed

text \<open>One character: the state follows the words.\<close>

definition next_word :: "bool \<Rightarrow> string list \<Rightarrow> string option \<Rightarrow> char \<Rightarrow> bool \<times> string list \<times> string option" where
  "next_word q ws cur a =
     (let w = (case cur of None \<Rightarrow> [] | Some w \<Rightarrow> w) in
      if a = CHR 0x22 then (\<not> q, ws, Some w)
      else if q \<or> \<not> blank a then (q, ws, Some (w @ [a]))
      else (q, ws @ (case cur of None \<Rightarrow> [] | Some w \<Rightarrow> [w]), None))"

lemma words_from_next:
  "ws @ words_from q cur (a # s) =
     (case next_word q ws cur a of (q', ws', cur') \<Rightarrow> ws' @ words_from q' cur' s)"
  by (simp add: next_word_def Let_def)

lemma split_step_ok:
  assumes ok: "split_ok len n ws cur S" and n: "n < len" and q: "isQuoted S = q"
    and nx: "next_word q ws cur a = (q', ws', cur')"
  shows "\<exists>T. split_step a S = Some T \<and> split_ok len (Suc n) ws' cur' T \<and> isQuoted T = q'"
proof -
  have fl: "isText S = (cur \<noteq> None)" "isSpace S = (cur = None)" "isQuoted S \<longrightarrow> cur \<noteq> None"
    using ok by (simp_all add: split_ok_def)
  consider (close) "q" "a = CHR 0x22" | (quoted) w where "q" "a \<noteq> CHR 0x22" "cur = Some w"
    | (begin_quote) "\<not> q" "a = CHR 0x22" "cur = None"
    | (reopen) w where "\<not> q" "a = CHR 0x22" "cur = Some w"
    | (skip) "\<not> q" "blank a" "cur = None" "a \<noteq> CHR 0x22"
    | (finish) w where "\<not> q" "blank a" "cur = Some w" "a \<noteq> CHR 0x22"
    | (letter) "\<not> q" "\<not> blank a" "a \<noteq> CHR 0x22" "cur = None"
    | (more) w where "\<not> q" "\<not> blank a" "a \<noteq> CHR 0x22" "cur = Some w"
    using fl(3) q by (cases cur) auto
  then show ?thesis
  proof cases
    case close
    then show ?thesis using ok q nx fl by (auto simp: split_step_def next_word_def split_ok_def)
  next
    case quoted
    then show ?thesis using put_temp_ok [OF ok _ n] q nx by (auto simp: split_step_def next_word_def)
  next
    case begin_quote
    from start_word_ok [OF ok [unfolded begin_quote(3)] n, of _ True] obtain T where
      "start_word (S\<lparr>isQuoted := True, isText := True\<rparr>) = Some T"
      "split_ok len (Suc n) ws (Some []) (T\<lparr>isSpace := False\<rparr>)" "isQuoted T" by auto
    then show ?thesis using begin_quote q nx by (auto simp: split_step_def next_word_def)
  next
    case reopen
    then show ?thesis using ok q nx fl
      by (auto simp: split_step_def next_word_def start_word_def split_ok_def)
  next
    case skip
    then show ?thesis using ok q nx fl by (auto simp: split_step_def next_word_def split_ok_def)
  next
    case finish
    then show ?thesis using end_word_ok [OF ok [unfolded finish(3)] n] q nx fl
      by (auto simp: split_step_def next_word_def)
  next
    case letter
    from start_word_ok [OF ok [unfolded letter(4)] n, of "S\<lparr>isText := True\<rparr>" False] q letter(1)
    obtain T where T: "start_word (S\<lparr>isText := True\<rparr>) = Some T"
      "split_ok len (Suc n) ws (Some []) (T\<lparr>isSpace := False\<rparr>)" "\<not> isQuoted T" by auto
    have "sj (T\<lparr>isSpace := False\<rparr>) \<le> n"
      using ok T(1) letter(4) by (auto simp: split_ok_def start_word_def)
    then show ?thesis using letter q nx T n
      by (auto simp: split_step_def next_word_def put_temp_def store_def split_ok_def take_update_end)
  next
    case more
    then have "start_word (S\<lparr>isText := True\<rparr>) = Some S" using fl by (simp add: start_word_def)
    moreover obtain T where T: "put_temp a S = Some T" "split_ok len (Suc n) ws (Some (w @ [a])) T"
        "isQuoted T = q"
      using put_temp_ok [OF ok _ n, of w a] q more(4) by blast
    moreover have "T\<lparr>isSpace := False\<rparr> = T" using T(2) by (simp add: split_ok_def)
    ultimately show ?thesis using more q nx by (auto simp: split_step_def next_word_def)
  qed
qed

lemma split_chars_ok:
  assumes "split_ok len n ws cur S" "n + length s = len" "isQuoted S = q"
  shows "\<exists>T ws' cur'. split_chars s S = Some T \<and> split_ok len len ws' cur' T
    \<and> ws' @ (case cur' of None \<Rightarrow> [] | Some w \<Rightarrow> [w]) = ws @ words_from q cur s"
  using assms
proof (induction s arbitrary: n ws cur S q)
  case Nil
  then show ?case by auto
next
  case (Cons a s)
  obtain q' ws' cur' where nx: "next_word q ws cur a = (q', ws', cur')" by (cases "next_word q ws cur a")
  have "n < len" using Cons.prems(2) by simp
  from split_step_ok [OF Cons.prems(1) this Cons.prems(3) nx] obtain T where
    T: "split_step a S = Some T" "split_ok len (Suc n) ws' cur' T" "isQuoted T = q'" by blast
  have "ws @ words_from q cur (a # s) = ws' @ words_from q' cur' s"
    using words_from_next [of ws q cur a s] nx by simp
  then show ?case using Cons.IH [OF T(2) _ T(3)] Cons.prems(2) T(1) by simp
qed

lemma packed_drop:
  "k < length ws \<Longrightarrow> drop (length (packed (take k ws))) (packed ws @ r)
     = ws ! k @ CHR 0x00 # packed (drop (Suc k) ws) @ r"
proof -
  assume "k < length ws"
  then have "ws = take k ws @ ws ! k # drop (Suc k) ws" by (rule id_take_nth_drop)
  then have "packed ws = packed (take k ws) @ packed (ws ! k # drop (Suc k) ws)"
    unfolding packed_def by (metis concat_append map_append)
  then show ?thesis by (simp add: packed_def)
qed

lemma c_string_packed:
  assumes "k < length ws" "CHR 0x00 \<notin> set (ws ! k)"
  shows "c_string (packed ws @ r) (length (packed (take k ws))) = ws ! k"
proof -
  have "takeWhile (\<lambda>a. a \<noteq> CHR 0x00) (w @ CHR 0x00 # t) = w" if "CHR 0x00 \<notin> set w" for w t
    using that by (induction w) auto
  from this [OF assms(2)] show ?thesis unfolding c_string_def packed_drop [OF assms(1)] .
qed

lemma words_from_chars:
  "w \<in> set (words_from q cur s) \<Longrightarrow> set w \<subseteq> set s \<union> (case cur of None \<Rightarrow> {} | Some v \<Rightarrow> set v)"
  by (induction q cur s rule: words_from.induct)
    (auto simp: Let_def split: option.splits if_splits)

lemma SplitCommandToArgs_words_lib:
  assumes "s \<noteq> []" "CHR 0x00 \<notin> set s"
  shows "\<exists>S. SplitCommandToArgs s = Some (Some S)
    \<and> arg_strings S = line_words s \<and> argc S = length (line_words s)"
proof -
  let ?n = "length s"
  have "split_ok ?n 0 [] None (split_init ?n)" by (simp add: split_ok_def split_init_def packed_def)
  moreover have "\<not> isQuoted (split_init ?n)" by (simp add: split_init_def)
  ultimately obtain T ws cur where T: "split_chars s (split_init ?n) = Some T" "split_ok ?n ?n ws cur T"
    and w: "ws @ (case cur of None \<Rightarrow> [] | Some w \<Rightarrow> [w]) = line_words s"
    using split_chars_ok [of ?n 0 "[]" None "split_init ?n" s False] by (auto simp: line_words_def)
  let ?ws = "line_words s"
  let ?t = "(temp T)[sj T := CHR 0x00]"
  let ?v = "(argv T)[argc T := None]"
  have lt: "sj T < length (temp T)" using T(2) by (auto simp: split_ok_def)
  have la: "argc T < length (argv T)"
  proof -
    have "2 * length ws + (if cur = None then 0 else 1) \<le> ?n" "length (argv T) = (?n + 2) div 2 + 1"
      "argc T = length ws + (if cur = None then 0 else 1)" using T(2) by (auto simp: split_ok_def)
    then show ?thesis by (auto split: if_splits)
  qed
  have ac: "argc T = length ?ws" using T(2) by (auto simp: split_ok_def w [symmetric] split: option.splits)
  have "take (Suc (sj T)) ?t = take (sj T) (temp T) @ [CHR 0x00]" using lt by (rule take_update_end)
  then obtain r where r: "?t = take (sj T) (temp T) @ [CHR 0x00] @ r"
    by (metis append.assoc append_take_drop_id)
  have t: "\<exists>r. ?t = packed ?ws @ r"
    using r T(2) by (cases cur) (auto simp: split_ok_def w [symmetric] packed_append)
  have vk: "take (argc T) ?v = map (\<lambda>k. Some (length (packed (take k ?ws)))) [0 ..< argc T]"
    using T(2) by (auto simp: split_ok_def w [symmetric] split: option.splits)
  have "?v ! argc T = None" using la by simp
  then obtain u where "?v = map (\<lambda>k. Some (length (packed (take k ?ws)))) [0 ..< argc T] @ None # u"
    using vk la by (metis append_take_drop_id Cons_nth_drop_Suc length_list_update)
  then have "takeWhile (\<lambda>p. p \<noteq> None) ?v = map (\<lambda>k. Some (length (packed (take k ?ws)))) [0 ..< argc T]"
    by (simp add: takeWhile_append)
  moreover have "c_string ?t (length (packed (take k ?ws))) = ?ws ! k" if "k < length ?ws" for k
  proof -
    have "CHR 0x00 \<notin> set (?ws ! k)"
      using words_from_chars [of "?ws ! k" False None s] assms(2) nth_mem [OF that]
      by (auto simp: line_words_def)
    then show ?thesis using t c_string_packed [OF that] by auto
  qed
  ultimately have "map (\<lambda>p. c_string ?t (the p)) (takeWhile (\<lambda>p. p \<noteq> None) ?v) = ?ws"
    using ac by (auto intro: nth_equalityI)
  moreover have "SplitCommandToArgs s = Some (Some (T\<lparr>temp := ?t, argv := ?v\<rparr>))"
    using assms(1) T(1) lt la by (cases s) (simp_all add: SplitCommandToArgs_def store_def)
  ultimately show ?thesis using ac by (auto simp: arg_strings_def)
qed

text \<open>
  C22. \<open>SplitCommandToArgs\<close> never writes outside the block it allocates, and its pointers lead to
  the words of the line, in order; the count returned is their number.
\<close>

theorem SplitCommandToArgs_words:
  assumes "s \<noteq> []" "CHR 0x00 \<notin> set s"
  shows "\<exists>S. SplitCommandToArgs s = Some (Some S)
    \<and> arg_strings S = line_words s \<and> argc S = length (line_words s)"
  using assms by (rule SplitCommandToArgs_words_lib)

theorem SplitCommandToArgs_words_witness:
  "line_words ''install  -r a'' = [''install'', ''-r'', ''a'']
   \<and> (\<exists>S. SplitCommandToArgs ''install  -r a'' = Some (Some S)
     \<and> arg_strings S = line_words ''install  -r a'' \<and> argc S = length (line_words ''install  -r a''))"
  by (rule conjI, simp add: line_words_def blank_def, rule SplitCommandToArgs_words, simp_all)

text \<open>Quoting each argument and separating them with blanks is undone.\<close>

fun quote_args :: "string list \<Rightarrow> string" where
  "quote_args [] = []"
| "quote_args (w # ws) = CHR 0x22 # w @ CHR 0x22 # CHR '' '' # quote_args ws"

lemma words_from_quoted:
  "CHR 0x22 \<notin> set w \<Longrightarrow> words_from True (Some v) (w @ CHR 0x22 # s) = words_from False (Some (v @ w)) s"
  by (induction w arbitrary: v) auto

text \<open>
  Every list of arguments without a quotation mark, whatever blanks they hold, is read back
  from the line that quotes each of them.
\<close>

theorem quoted_args_roundtrip:
  assumes "ws \<noteq> []" "\<forall>w \<in> set ws. CHR 0x22 \<notin> set w \<and> CHR 0x00 \<notin> set w"
  shows "\<exists>S. SplitCommandToArgs (quote_args ws) = Some (Some S) \<and> arg_strings S = ws"
proof -
  have "line_words (quote_args ws) = ws" using assms(2)
    by (induction ws) (auto simp: line_words_def words_from_quoted blank_def)
  moreover have "quote_args ws \<noteq> []" using assms(1) by (cases ws) auto
  moreover have "CHR 0x00 \<notin> set (quote_args ws)" using assms(2) by (induction ws) auto
  ultimately show ?thesis using SplitCommandToArgs_words_lib [of "quote_args ws"] by auto
qed

theorem quoted_args_roundtrip_witness:
  "\<exists>S. SplitCommandToArgs (quote_args [''shell'', ''a b'', '''']) = Some (Some S)
     \<and> arg_strings S = [''shell'', ''a b'', '''']"
  by (rule quoted_args_roundtrip) simp_all

end
