(* ===== verification/Hdc_Auth.thy ===== *)
theory Hdc_Auth
  imports Hdc_Packet
begin

text \<open>
  The keys of src/src/common/auth.cpp: the iteration over a list of keys that host and daemon
  share (\<open>KeylistIncrement\<close>), the daemon's reader of its key file and its check of a signature.
  RSA and the base64 decoder are OpenSSL's, hence parameters.
\<close>

section \<open>Iterating over the keys\<close>

text \<open>
  The index is incremented before the list is advanced by it. Taking the element at the end of
  the list is \<open>OutOfBounds\<close>. \<open>loaded\<close> are the keys that are read when the list is empty. The
  result: whether there is a key, the list, the index and the key.
\<close>

definition KeylistIncrement :: "'k list \<Rightarrow> 'k list \<Rightarrow> u8 \<Rightarrow> (bool \<times> 'k list \<times> u8 \<times> 'k option) outcome" where
  "KeylistIncrement loaded listKey authKeyIndex =
     (let l = (if listKey = [] then loaded else listKey) in
      if unat authKeyIndex = length l then Done (False, l, authKeyIndex, None)
      else let i = authKeyIndex + 1 in
        if unat i < length l then Done (True, l, i, Some (l ! unat i)) else OutOfBounds)"

section \<open>The daemon's keys\<close>

definition RSANUMWORDS :: nat where
  "RSANUMWORDS = 64"

text \<open>The number of words the key claims, and all the rest of it.\<close>

record RSAPublicKey =
  wordModulusSize :: int
  key_rest :: bytes

text \<open>\<open>RSAPublicKey2RSA\<close> refuses a key of another size; else OpenSSL's structure is filled.\<close>

definition RSAPublicKey2RSA :: "RSAPublicKey \<Rightarrow> RSAPublicKey option" where
  "RSAPublicKey2RSA k = (if wordModulusSize k = int RSANUMWORDS then Some k else None)"

text \<open>
  \<open>AuthVerify\<close>: \<open>rsa_verify\<close> stands for \<open>RSA_verify\<close> of the token and the signature at hand. With
  more than 255 keys the index wraps and the loop need not end, which is the outer \<open>None\<close>.
\<close>

partial_function (option) auth_loop ::
  "(RSAPublicKey \<Rightarrow> bool) \<Rightarrow> RSAPublicKey list \<Rightarrow> RSAPublicKey list \<Rightarrow> u8 \<Rightarrow> bool outcome option" where
  "auth_loop rsa_verify loaded listKey i = (case KeylistIncrement loaded listKey i of
     Done (got, l, j, k) \<Rightarrow>
       if \<not> got then Some (Done False)
       else (case RSAPublicKey2RSA (the k) of
          None \<Rightarrow> Some (Done False)
        | Some r \<Rightarrow> if rsa_verify r then Some (Done True) else auth_loop rsa_verify loaded l j)
   | OutOfBounds \<Rightarrow> Some OutOfBounds
   | Diverges \<Rightarrow> Some Diverges)"

definition AuthVerify :: "(RSAPublicKey \<Rightarrow> bool) \<Rightarrow> RSAPublicKey list \<Rightarrow> bool outcome option" where
  "AuthVerify rsa_verify loaded = auth_loop rsa_verify loaded [] 0"

text \<open>The boards have no dialog: every public key is taken.\<close>

definition PostUIConfirm :: "string \<Rightarrow> bool" where
  "PostUIConfirm publicKey = True"

section \<open>Reading the key file\<close>

text \<open>
  \<open>CalcDecodeLength\<close> looks at the last two characters; for a single \<open>=\<close> the second last is
  before the buffer. \<open>len * 0.75 - padding\<close> is cut towards zero.
\<close>

definition CalcDecodeLength :: "string \<Rightarrow> nat outcome" where
  "CalcDecodeLength s =
     (if s = [] then Done 0
      else if last s = CHR ''='' \<and> length s = 1 then OutOfBounds
      else let padding = (if last s = CHR ''='' \<and> s ! (length s - 2) = CHR ''='' then 2
                          else if last s = CHR ''='' then 1 else 0)
        in Done ((3 * length s - 4 * padding) div 4))"

text \<open>
  \<open>decodeBlock\<close> stands for \<open>EVP_DecodeBlock\<close>: the bytes it writes, or none for an error. They
  are written to a buffer of \<open>room\<close> bytes before anything is compared.
\<close>

definition Base64DecodeBuf :: "(string \<Rightarrow> bytes) \<Rightarrow> nat \<Rightarrow> string \<Rightarrow> (nat \<times> bytes) outcome" where
  "Base64DecodeBuf decodeBlock room input = (case CalcDecodeLength input of
     Done nRetLen \<Rightarrow>
       if nRetLen = 0 then Done (0, [])
       else let out = decodeBlock input in
         if room < length out then OutOfBounds
         else Done (if 0 < length out then nRetLen else 0, out)
   | OutOfBounds \<Rightarrow> OutOfBounds
   | Diverges \<Rightarrow> Diverges)"

text \<open>The size of the structure on a 64-bit machine.\<close>

definition sizeof_RSAPublicKey :: nat where
  "sizeof_RSAPublicKey = 528"

definition key_of_bytes :: "bytes \<Rightarrow> RSAPublicKey" where
  "key_of_bytes bs = \<lparr> wordModulusSize = sint (word_of_nat (le_dec (take 4 bs)) :: u32), key_rest = drop 4 bs \<rparr>"

definition key_field :: "string \<Rightarrow> string" where
  "key_field line = takeWhile (\<lambda>c. c \<noteq> CHR '' '' \<and> c \<noteq> CHR 0x09) line"

text \<open>\<open>buf_lines\<close> are the pieces \<open>fgets\<close> returns, each at most 2047 characters.\<close>

fun ReadDaemonKeys :: "(string \<Rightarrow> bytes) \<Rightarrow> string list \<Rightarrow> RSAPublicKey list outcome" where
  "ReadDaemonKeys decodeBlock [] = Done []"
| "ReadDaemonKeys decodeBlock (ln # buf_lines) =
     (case Base64DecodeBuf decodeBlock sizeof_RSAPublicKey (key_field ln) of
        Done (ret, out) \<Rightarrow>
          (case ReadDaemonKeys decodeBlock buf_lines of
             Done ks \<Rightarrow>
               Done (if ret \<noteq> sizeof_RSAPublicKey then ks
                     else if wordModulusSize (key_of_bytes out) \<noteq> int RSANUMWORDS then ks
                     else key_of_bytes out # ks)
           | OutOfBounds \<Rightarrow> OutOfBounds
           | Diverges \<Rightarrow> Diverges)
      | OutOfBounds \<Rightarrow> OutOfBounds
      | Diverges \<Rightarrow> Diverges)"

text \<open>\<open>LoadDaemonKey\<close> reads the files that exist, in this order.\<close>

fun LoadDaemonKey :: "(string \<Rightarrow> bytes) \<Rightarrow> string list option list \<Rightarrow> RSAPublicKey list outcome" where
  "LoadDaemonKey decodeBlock [] = Done []"
| "LoadDaemonKey decodeBlock (None # fs) = LoadDaemonKey decodeBlock fs"
| "LoadDaemonKey decodeBlock (Some buf_lines # fs) = (case ReadDaemonKeys decodeBlock buf_lines of
     Done ks \<Rightarrow> (case LoadDaemonKey decodeBlock fs of
         Done ls \<Rightarrow> Done (ks @ ls) | OutOfBounds \<Rightarrow> OutOfBounds | Diverges \<Rightarrow> Diverges)
   | OutOfBounds \<Rightarrow> OutOfBounds
   | Diverges \<Rightarrow> Diverges)"

section \<open>Properties\<close>

lemma ReadDaemonKeys_size:
  "ReadDaemonKeys decodeBlock ls = Done ks \<Longrightarrow> k \<in> set ks \<Longrightarrow> wordModulusSize k = int RSANUMWORDS"
  by (induction decodeBlock ls arbitrary: ks rule: ReadDaemonKeys.induct)
    (auto split: outcome.splits if_splits prod.splits)

lemma RSANUMWORDS_key: "wordModulusSize k = int RSANUMWORDS \<Longrightarrow> RSAPublicKey2RSA k = Some k"
  by (simp add: RSAPublicKey2RSA_def)

lemma unat_inc_u8: "unat (i :: u8) < 255 \<Longrightarrow> unat (i + 1) = Suc (unat i)"
  by (simp add: unat_word_ariths)

text \<open>The loop from index \<open>i\<close> looks at the keys after it, and then leaves the list.\<close>

lemma auth_loop_from:
  assumes "ks \<noteq> []" "length ks \<le> 255" "\<forall>k \<in> set ks. wordModulusSize k = int RSANUMWORDS"
  shows "unat i < length ks \<Longrightarrow> auth_loop v loaded ks i =
    Some (if \<exists>k \<in> set (drop (Suc (unat i)) ks). v k then Done True else OutOfBounds)"
proof (induction "length ks - unat i" arbitrary: i rule: less_induct)
  case less
  have lt: "unat i < 255" using less.prems assms(2) by simp
  note j = unat_inc_u8 [OF lt]
  show ?case
  proof (cases "Suc (unat i) < length ks")
    case False
    then show ?thesis using less.prems assms(1) j
      by (subst auth_loop.simps) (simp add: KeylistIncrement_def Let_def)
  next
    case True
    let ?k = "ks ! Suc (unat i)"
    have "RSAPublicKey2RSA ?k = Some ?k" using assms(3) True by (simp add: RSANUMWORDS_key)
    moreover have "KeylistIncrement loaded ks i = Done (True, ks, i + 1, Some ?k)"
      using less.prems assms(1) j True by (simp add: KeylistIncrement_def Let_def)
    moreover have "drop (Suc (unat i)) ks = ?k # drop (Suc (unat (i + 1))) ks"
      using True j by (simp add: Cons_nth_drop_Suc)
    moreover have "auth_loop v loaded ks (i + 1) =
        Some (if \<exists>k \<in> set (drop (Suc (unat (i + 1))) ks). v k then Done True else OutOfBounds)"
      by (rule less.hyps) (use True j in auto)
    ultimately show ?thesis by (subst auth_loop.simps) simp
  qed
qed

text \<open>
  The first key of the daemon is never tried: a signature is accepted only by one of the
  others, and when none of them accepts it the search leaves the list. With a single key, the
  usual case, every check of a signature reads past the end.
\<close>

theorem AuthVerify_skips_first_key:
  assumes "length ks \<le> 255" "\<forall>k \<in> set ks. wordModulusSize k = int RSANUMWORDS"
  shows "AuthVerify v ks = Some
    (if ks = [] then Done False else if \<exists>k \<in> set (tl ks). v k then Done True else OutOfBounds)"
proof (cases "ks = []")
  case True
  then show ?thesis
    by (simp add: AuthVerify_def auth_loop.simps [of v "[]"] KeylistIncrement_def)
next
  case False
  have "auth_loop v ks [] 0 = auth_loop v ks ks 0"
    using False by (subst (1 2) auth_loop.simps) (simp add: KeylistIncrement_def)
  then show ?thesis
    using auth_loop_from [OF False assms, of 0 v ks] False by (simp add: AuthVerify_def drop_Suc)
qed

definition some_key :: RSAPublicKey where
  "some_key = \<lparr> wordModulusSize = 64, key_rest = [] \<rparr>"

theorem AuthVerify_skips_first_key_witness: "AuthVerify (\<lambda>_. True) [some_key] = Some OutOfBounds"
  using AuthVerify_skips_first_key [of "[some_key]" "\<lambda>_. True"] by (simp add: some_key_def RSANUMWORDS_def)

text \<open>
  A line of the key file is decoded into a structure of 528 bytes before its length is
  looked at: one that decodes to more bytes is written past the structure.
\<close>

theorem long_key_line_overflows:
  assumes "528 < length (decodeBlock (key_field ln))" "3 < length (key_field ln)"
  shows "ReadDaemonKeys decodeBlock (ln # ls) = OutOfBounds"
proof -
  have "\<exists>n. CalcDecodeLength (key_field ln) = Done n \<and> 0 < n"
    using assms(2) by (auto simp: CalcDecodeLength_def Let_def)
  then show ?thesis
    using assms(1) by (auto simp: Base64DecodeBuf_def sizeof_RSAPublicKey_def)
qed

text \<open>A decoder as documented: three bytes for each four characters.\<close>

theorem long_key_line_overflows_witness:
  "ReadDaemonKeys (\<lambda>s. replicate (3 * (length s div 4)) 0) [replicate 720 (CHR ''A'')] = OutOfBounds"
proof -
  have "key_field (replicate 720 (CHR ''A'')) = replicate 720 (CHR ''A'')"
    by (simp add: key_field_def takeWhile_eq_all_conv)
  then show ?thesis
    using long_key_line_overflows [of "\<lambda>s. replicate (3 * (length s div 4)) 0" "replicate 720 (CHR ''A'')" "[]"]
    by simp
qed

end
