(* ===== verification/Hdc_Tasks.thy ===== *)
theory Hdc_Tasks
  imports Hdc_Session
begin

text \<open>
  From commands to task objects: \<open>TaskCommandDispatch\<close> and \<open>DoTaskRemove\<close> of
  src/src/common/session.h, and the tables \<open>RedirectToTask\<close> and \<open>RemoveInstanceTask\<close> of the
  daemon (src/src/daemon/daemon.cpp) and the server (src/src/host/server.cpp).
\<close>

section \<open>Task objects\<close>

datatype TaskType = TYPE_UNITY | TYPE_SHELL | TASK_FILE | TASK_FORWARD | TASK_APP

primrec task_code :: "TaskType \<Rightarrow> u8" where
  "task_code TYPE_UNITY = 0"
| "task_code TYPE_SHELL = 1"
| "task_code TASK_FILE = 2"
| "task_code TASK_FORWARD = 3"
| "task_code TASK_APP = 4"

text \<open>
  The task object is an untyped pointer. \<open>taskType\<close> is the class it was made with, and it is only
  set when the object is made; using it as another class is undefined, the state \<open>None\<close>.
  \<open>commandDispatch\<close> and \<open>taskFinish\<close> are the methods of the classes.
\<close>

record 's task_class =
  commandDispatch :: "TaskType \<Rightarrow> u32 \<Rightarrow> u16 \<Rightarrow> bytes \<Rightarrow> 's \<Rightarrow> bool \<times> 's"
  taskFinish :: "TaskType \<Rightarrow> u32 \<Rightarrow> 's \<Rightarrow> 's"
  readyForRelease :: "TaskType \<Rightarrow> u32 \<Rightarrow> 's \<Rightarrow> bool"
  stopTask :: "TaskType \<Rightarrow> u32 \<Rightarrow> 's \<Rightarrow> 's"

definition run_class :: "'s task_class \<Rightarrow> TaskType \<Rightarrow> u32 \<Rightarrow> u16 \<Rightarrow> bytes \<Rightarrow> 's \<Rightarrow> 's" where
  "run_class C ty ch c payload s = (case commandDispatch C ty ch c payload s of
     (ok, s') \<Rightarrow> if ok then s' else taskFinish C ty ch s')"

definition TaskCommandDispatch ::
  "'s task_class \<Rightarrow> TaskType \<Rightarrow> TaskInformation \<Rightarrow> u16 \<Rightarrow> bytes \<Rightarrow> 's option
    \<Rightarrow> bool \<times> TaskInformation \<times> 's option" where
  "TaskCommandDispatch C ty h c payload st = (case st of
     None \<Rightarrow> (True, h, None)
   | Some s \<Rightarrow>
       if \<not> hasInitial h then
         (True, h\<lparr>ti_taskType := task_code ty, hasInitial := True\<rparr>,
          Some (run_class C ty (ti_channelId h) c payload s))
       else if ti_taskType h = task_code ty then
         (True, h, Some (run_class C ty (ti_channelId h) c payload s))
       else (True, h, None))"

section \<open>The tables\<close>

definition daemon_task :: "u16 \<Rightarrow> TaskType option" where
  "daemon_task c =
     (if c \<in> set (map cmd [CMD_UNITY_EXECUTE, CMD_UNITY_REMOUNT, CMD_UNITY_REBOOT, CMD_UNITY_RUNMODE,
          CMD_UNITY_HILOG, CMD_UNITY_ROOTRUN, CMD_UNITY_TERMINATE, CMD_UNITY_BUGREPORT_INIT,
          CMD_JDWP_LIST, CMD_JDWP_TRACK]) then Some TYPE_UNITY
      else if c \<in> set (map cmd [CMD_SHELL_INIT, CMD_SHELL_DATA]) then Some TYPE_SHELL
      else if c \<in> set (map cmd [CMD_FILE_CHECK, CMD_FILE_DATA, CMD_FILE_FINISH, CMD_FILE_INIT,
          CMD_FILE_BEGIN]) then Some TASK_FILE
      else if c \<in> set (map cmd [CMD_APP_CHECK, CMD_APP_DATA, CMD_APP_UNINSTALL]) then Some TASK_APP
      else if c \<in> set (map cmd [CMD_FORWARD_INIT, CMD_FORWARD_CHECK, CMD_FORWARD_ACTIVE_MASTER,
          CMD_FORWARD_ACTIVE_SLAVE, CMD_FORWARD_DATA, CMD_FORWARD_FREE_CONTEXT,
          CMD_FORWARD_CHECK_RESULT]) then Some TASK_FORWARD
      else None)"

definition server_task :: "u16 \<Rightarrow> TaskType option" where
  "server_task c =
     (if c \<in> set (map cmd [CMD_UNITY_BUGREPORT_INIT, CMD_UNITY_BUGREPORT_DATA]) then Some TYPE_UNITY
      else if c \<in> set (map cmd [CMD_FILE_INIT, CMD_FILE_BEGIN, CMD_FILE_CHECK, CMD_FILE_DATA,
          CMD_FILE_FINISH]) then Some TASK_FILE
      else if c \<in> set (map cmd [CMD_FORWARD_INIT, CMD_FORWARD_CHECK, CMD_FORWARD_CHECK_RESULT,
          CMD_FORWARD_ACTIVE_MASTER, CMD_FORWARD_ACTIVE_SLAVE, CMD_FORWARD_DATA,
          CMD_FORWARD_FREE_CONTEXT]) then Some TASK_FORWARD
      else if c \<in> set (map cmd [CMD_APP_INIT, CMD_APP_SIDELOAD, CMD_APP_BEGIN, CMD_APP_FINISH,
          CMD_APP_UNINSTALL]) then Some TASK_APP
      else None)"

definition DaemonRedirectToTask ::
  "'s task_class \<Rightarrow> TaskInformation \<Rightarrow> u16 \<Rightarrow> bytes \<Rightarrow> 's option \<Rightarrow> bool \<times> TaskInformation \<times> 's option" where
  "DaemonRedirectToTask C h c payload st = (case daemon_task c of
     None \<Rightarrow> (True, h, st) | Some ty \<Rightarrow> TaskCommandDispatch C ty h c payload st)"

definition ServerRedirectToTask ::
  "'s task_class \<Rightarrow> TaskInformation \<Rightarrow> u16 \<Rightarrow> bytes \<Rightarrow> 's option \<Rightarrow> bool \<times> TaskInformation \<times> 's option" where
  "ServerRedirectToTask C h c payload st = (case server_task c of
     None \<Rightarrow> (True, h, st) | Some ty \<Rightarrow> TaskCommandDispatch C ty h c payload st)"

section \<open>Removal\<close>

text \<open>\<open>OP_CLEAR\<close> stops the task, \<open>OP_REMOVE\<close> asks whether it can be deleted.\<close>

definition DoTaskRemove :: "'s task_class \<Rightarrow> TaskType \<Rightarrow> OperateID \<Rightarrow> TaskInformation \<Rightarrow> 's \<Rightarrow> bool \<times> 's" where
  "DoTaskRemove C ty op h s =
     (if \<not> hasInitial h then (True, s)
      else if op = OP_CLEAR then (True, stopTask C ty (ti_channelId h) s)
      else if op = OP_REMOVE then (readyForRelease C ty (ti_channelId h) s, s)
      else (True, s))"

fun type_of_code :: "TaskType list \<Rightarrow> u8 \<Rightarrow> TaskType option" where
  "type_of_code [] n = None"
| "type_of_code (ty # tys) n = (if task_code ty = n then Some ty else type_of_code tys n)"

definition DaemonRemoveInstanceTask :: "'s task_class \<Rightarrow> OperateID \<Rightarrow> TaskInformation \<Rightarrow> 's \<Rightarrow> bool \<times> 's" where
  "DaemonRemoveInstanceTask C op h s =
     (if \<not> hasInitial h then (True, s)
      else case type_of_code [TYPE_UNITY, TYPE_SHELL, TASK_FILE, TASK_FORWARD, TASK_APP] (ti_taskType h) of
          None \<Rightarrow> (False, s) | Some ty \<Rightarrow> DoTaskRemove C ty op h s)"

text \<open>The server has no shell: for one it returns true and does nothing.\<close>

definition ServerRemoveInstanceTask :: "'s task_class \<Rightarrow> OperateID \<Rightarrow> TaskInformation \<Rightarrow> 's \<Rightarrow> bool \<times> 's" where
  "ServerRemoveInstanceTask C op h s =
     (if ti_taskType h = task_code TYPE_SHELL then (True, s)
      else case type_of_code [TYPE_UNITY, TASK_FILE, TASK_FORWARD, TASK_APP] (ti_taskType h) of
          None \<Rightarrow> (False, s) | Some ty \<Rightarrow> DoTaskRemove C ty op h s)"

section \<open>Classes are kept when channels keep to one family\<close>

definition task_dispatcher ::
  "(TaskInformation \<Rightarrow> u16 \<Rightarrow> bytes \<Rightarrow> 's option \<Rightarrow> bool \<times> TaskInformation \<times> 's option)
    \<Rightarrow> (u32 \<Rightarrow> 's option \<Rightarrow> 's option) \<Rightarrow> 's option dispatcher" where
  "task_dispatcher r lb = \<lparr> redirectToTask = r, logBusy = lb \<rparr>"

text \<open>Every task object in the map is of the class its channel is used for.\<close>

definition classes_ok :: "(u32 \<Rightarrow> TaskType) \<Rightarrow> task_map \<Rightarrow> bool" where
  "classes_ok fam m \<longleftrightarrow> (\<forall>ch h. map_of m ch = Some h \<longrightarrow> hasInitial h \<longrightarrow> ti_taskType h = task_code (fam ch))"

lemma TaskCommandDispatch_class:
  assumes "hasInitial h \<longrightarrow> ti_taskType h = task_code ty" "TaskCommandDispatch C ty h c p (Some s) = (ok, h', st')"
  shows "st' \<noteq> None \<and> hasInitial h' \<and> ti_taskType h' = task_code ty"
  using assms by (auto simp: TaskCommandDispatch_def split: if_splits)

lemma Redirect_class:
  assumes "hasInitial h \<longrightarrow> ti_taskType h = task_code ty" "daemon_task c \<in> {None, Some ty}"
    "DaemonRedirectToTask C h c p (Some s) = (ok, h', st')"
  shows "st' \<noteq> None \<and> (hasInitial h' \<longrightarrow> ti_taskType h' = task_code ty)"
  using assms TaskCommandDispatch_class [of h ty C c p s ok h' st']
  by (auto simp: DaemonRedirectToTask_def split: option.splits)

lemma run_task_class:
  assumes "classes_ok fam m" "mp_wf m" "daemon_task c \<in> {None, Some (fam ch)}"
    "t = None \<or> (\<exists>h. t = Some h \<and> (hasInitial h \<longrightarrow> ti_taskType h = task_code (fam ch)))"
    "run_task (task_dispatcher (DaemonRedirectToTask C) lb) ch c p t m (Some s) = (ok, m', st')"
  shows "st' \<noteq> None \<and> classes_ok fam m'"
proof (cases t)
  case None
  then show ?thesis using assms by (auto simp: run_task_def)
next
  case (Some h)
  then have h: "hasInitial h \<longrightarrow> ti_taskType h = task_code (fam ch)" using assms(4) by simp
  show ?thesis
  proof (cases "taskStop h \<or> taskFree h")
    case True
    then show ?thesis using assms Some by (auto simp: run_task_def)
  next
    case False
    obtain ok1 h1 st1 where r: "DaemonRedirectToTask C h c p (Some s) = (ok1, h1, st1)"
      by (metis prod_cases3)
    then have "m' = mp_put ch h1 m" "st' = st1"
      using assms(5) Some False by (auto simp: run_task_def task_dispatcher_def)
    with Redirect_class [OF h assms(3) r] assms(1,2) show ?thesis
      by (auto simp: classes_ok_def map_of_mp_put)
  qed
qed

text \<open>
  C24. As long as each channel carries commands of one family, no task object is ever used as
  another class, and this stays so for the commands to come.
\<close>

theorem dispatch_keeps_classes:
  assumes "classes_ok fam m" "mp_wf m" "daemon_task c \<in> {None, Some (fam ch)}"
    "\<forall>c s. lb c (Some s) \<noteq> None"
    "DispatchTaskData (task_dispatcher (DaemonRedirectToTask C) lb) False b sid ch c p m (Some s)
       = (ok, m', st')"
  shows "st' \<noteq> None \<and> classes_ok fam m'"
proof -
  let ?D = "task_dispatcher (DaemonRedirectToTask C) lb"
  obtain need master where n: "NeedNewTaskInfo (serverOrDaemon b) c = (need, master)" by fastforce
  show ?thesis
  proof (cases need)
    case False
    then have r: "run_task ?D ch c p (map_of m ch) m (Some s) = (ok, m', st')"
      using assms(5) n by (simp add: DispatchTaskData_def)
    show ?thesis
      by (rule run_task_class [OF assms(1-3) _ r])
        (use assms(1) in \<open>cases "map_of m ch"; auto simp: classes_ok_def\<close>)
  next
    case True
    let ?h = "new_task (serverOrDaemon b) sid ch master"
    show ?thesis
    proof (cases "threadPoolCount b - 2 \<le> length m")
      case True
      then have "m' = m" "st' = lb ch (Some s)"
        using assms(5) n \<open>need\<close>
        by (auto simp: DispatchTaskData_def numeral_3_eq_3 task_dispatcher_def)
      then show ?thesis using assms(1,4) by simp
    next
      case False
      then have r: "run_task ?D ch c p (Some ?h) (mp_put ch ?h m) (Some s) = (ok, m', st')"
        using assms(5) n \<open>need\<close> by (simp add: DispatchTaskData_def numeral_3_eq_3)
      have k: "classes_ok fam (mp_put ch ?h m)" "mp_wf (mp_put ch ?h m)"
        using assms(1,2) by (auto simp: classes_ok_def map_of_mp_put mp_wf_put new_task_def)
      show ?thesis by (rule run_task_class [OF k assms(3) _ r]) (simp add: new_task_def)
    qed
  qed
qed

definition trace_class :: "(TaskType \<times> u16) list task_class" where
  "trace_class = \<lparr> commandDispatch = (\<lambda>ty ch c p s. (True, s @ [(ty, c)])), taskFinish = (\<lambda>ty ch s. s),
     readyForRelease = (\<lambda>ty ch s. True), stopTask = (\<lambda>ty ch s. s) \<rparr>"

definition fresh_daemon :: SessionBase where
  "fresh_daemon = new_SessionBase False 16"

abbreviation trace_dispatch :: "u16 \<Rightarrow> task_map \<Rightarrow> (TaskType \<times> u16) list option
    \<Rightarrow> bool \<times> task_map \<times> (TaskType \<times> u16) list option" where
  "trace_dispatch c m st \<equiv>
     DispatchTaskData (task_dispatcher (DaemonRedirectToTask trace_class) (\<lambda>ch s. s)) False fresh_daemon 1 5 c [] m st"

definition shell_task :: TaskInformation where
  "shell_task = (new_task False 1 5 False)\<lparr>ti_taskType := 1, hasInitial := True\<rparr>"

lemma shell_init:
  "trace_dispatch (cmd CMD_SHELL_INIT) [] (Some []) = (True, [(5, shell_task)], Some [(TYPE_SHELL, 2000)])"
  by (simp add: DispatchTaskData_def NeedNewTaskInfo_def fresh_daemon_def new_SessionBase_def
      numeral_3_eq_3 pool_size_def hdc_consts run_task_def task_dispatcher_def DaemonRedirectToTask_def
      daemon_task_def TaskCommandDispatch_def run_class_def trace_class_def new_task_def shell_task_def)

theorem dispatch_keeps_classes_witness:
  "snd (snd (trace_dispatch (cmd CMD_SHELL_INIT) [] (Some []))) \<noteq> None"
proof -
  have "classes_ok (\<lambda>_. TYPE_SHELL) []" by (simp add: classes_ok_def)
  moreover have "daemon_task (cmd CMD_SHELL_INIT) \<in> {None, Some TYPE_SHELL}" by (simp add: daemon_task_def)
  ultimately show ?thesis
    unfolding shell_init snd_conv
    using dispatch_keeps_classes [of "\<lambda>_. TYPE_SHELL" "[]" "cmd CMD_SHELL_INIT" 5 "\<lambda>ch s. s" trace_class
        fresh_daemon 1 "[]" "[]" True "[(5, shell_task)]" "Some [(TYPE_SHELL, 2000)]"] mp_wf_Nil shell_init
    by blast
qed

text \<open>
  Nothing checks it: two commands of different families on one channel, which any peer may
  send, make the daemon use a shell task as a file transfer.
\<close>

theorem mixed_families_confuse_classes:
  "snd (snd (trace_dispatch (cmd CMD_FILE_DATA)
      (fst (snd (trace_dispatch (cmd CMD_SHELL_INIT) [] (Some [])))) (Some []))) = None"
proof -
  have "snd (snd (trace_dispatch (cmd CMD_FILE_DATA) [(5, shell_task)] (Some []))) = None"
    by (simp add: DispatchTaskData_def NeedNewTaskInfo_def fresh_daemon_def new_SessionBase_def
        task_master_init_def run_task_def task_dispatcher_def DaemonRedirectToTask_def
        daemon_task_def TaskCommandDispatch_def new_task_def shell_task_def)
  then show ?thesis unfolding shell_init snd_conv fst_conv .
qed

end
