(* ===== verification/Hdc_Control.thy ===== *)
theory Hdc_Control
  imports Hdc_Session
begin

text \<open>
  How the threads of a session talk (src/src/common/session.cpp): the control structures the main
  thread sends to a work thread (\<open>BuildCtrlString\<close>, \<open>ReadCtrlFromMain\<close>,
  \<open>DispatchMainThreadCommand\<close>), the messages any thread queues for the main loop
  (\<open>PushAsyncMessage\<close>, \<open>MainAsyncCallback\<close>, \<open>AsyncMainLoopTask\<close>), the opening handshake of
  \<open>WorkThreadStartSession\<close>, and the searches over the session map.
\<close>

section \<open>Control structures\<close>

text \<open>
  \<open>CtrlStruct\<close> as the compiler lays it out: a four-byte enumeration, the channel, the size, 16
  bytes of data and three bytes of padding, little endian.
\<close>

record CtrlStruct =
  ctrl_command :: u32
  ctrl_channelId :: u32
  ctrl_dataSize :: u8
  ctrl_data :: bytes

definition ctrl_size :: nat where
  "ctrl_size = 28"

definition enc_CtrlStruct :: "CtrlStruct \<Rightarrow> bytes" where
  "enc_CtrlStruct c = le_enc 4 (unat (ctrl_command c)) @ le_enc 4 (unat (ctrl_channelId c))
     @ [ctrl_dataSize c] @ ctrl_data c @ [0, 0, 0]"

definition dec_CtrlStruct :: "bytes \<Rightarrow> CtrlStruct" where
  "dec_CtrlStruct bs =
     \<lparr> ctrl_command = word_of_nat (le_dec (take 4 bs)),
       ctrl_channelId = word_of_nat (le_dec (take 4 (drop 4 bs))),
       ctrl_dataSize = hd (drop 8 bs),
       ctrl_data = take BUF_SIZE_MICRO (drop 9 bs) \<rparr>"

text \<open>
  The data and the size the caller gives; a null pointer is \<open>None\<close>. The sizes that occur are not
  negative, the byte field keeps them because at most 16 is accepted.
\<close>

definition ctrl_of :: "InnerCtrlCommand \<Rightarrow> u32 \<Rightarrow> bytes option \<Rightarrow> nat \<Rightarrow> CtrlStruct" where
  "ctrl_of c ch src n =
     (let d = (case src of None \<Rightarrow> [] | Some bs \<Rightarrow> take n bs)
      in \<lparr> ctrl_command = ctrl_code c, ctrl_channelId = ch, ctrl_dataSize = word_of_nat n,
           ctrl_data = d @ replicate (BUF_SIZE_MICRO - length d) 0 \<rparr>)"

definition BuildCtrlString :: "InnerCtrlCommand \<Rightarrow> u32 \<Rightarrow> bytes option \<Rightarrow> nat \<Rightarrow> bytes" where
  "BuildCtrlString c ch src n =
     (if BUF_SIZE_MICRO < n then [] else enc_CtrlStruct (ctrl_of c ch src n))"

section \<open>The work thread\<close>

text \<open>
  What the commands reach: the transport's start (with its result), the channels of the
  instance, and the child loop with its count of open handles.
\<close>

record 's work_thread =
  startSession :: "'s \<Rightarrow> bool \<times> 's"
  attachChannel :: "u32 \<Rightarrow> 's \<Rightarrow> 's"
  deatchChannel :: "u32 \<Rightarrow> 's \<Rightarrow> 's"

record child_loop =
  childRef :: nat
  childTcpOpen :: bool
  closes :: nat
  stopped :: bool

definition stop_session :: "ConnType \<Rightarrow> child_loop \<Rightarrow> child_loop" where
  "stop_session ct l =
     (let n = (if ct = CONN_TCP \<and> childTcpOpen l then 3 else 2)
      in l\<lparr>childRef := childRef l + n, closes := closes l + n\<rparr>)"

text \<open>The callback of each close: the last one stops the loop.\<close>

definition closeSessionChildThreadTCPHandle :: "child_loop \<Rightarrow> child_loop" where
  "closeSessionChildThreadTCPHandle l =
     (let l' = l\<lparr>childRef := childRef l - 1, closes := closes l - 1\<rparr>
      in if childRef l' = 0 then l'\<lparr>stopped := True\<rparr> else l')"

definition DispatchMainThreadCommand ::
  "'s work_thread \<Rightarrow> bool \<Rightarrow> ConnType \<Rightarrow> CtrlStruct \<Rightarrow> 's \<times> child_loop \<Rightarrow> bool \<times> ('s \<times> child_loop)" where
  "DispatchMainThreadCommand W sod ct c sl = (case sl of (s, l) \<Rightarrow>
     if ctrl_command c = ctrl_code SP_START_SESSION then
       (case startSession W s of (ok, s') \<Rightarrow> (ok, (s', l)))
     else if ctrl_command c = ctrl_code SP_STOP_SESSION then (True, (s, stop_session ct l))
     else if ctrl_command c = ctrl_code SP_ATTACH_CHANNEL then
       (True, (if sod then attachChannel W (ctrl_channelId c) s else s, l))
     else if ctrl_command c = ctrl_code SP_DEATCH_CHANNEL then
       (True, (if sod then deatchChannel W (ctrl_channelId c) s else s, l))
     else (False, (s, l)))"

text \<open>
  \<open>ReadCtrlFromMain\<close>: \<open>base\<close> is the whole read buffer, which the allocator fills with zeros, and
  \<open>nread\<close> the number of bytes libuv put there (an error is negative).
\<close>

function ctrl_loop :: "(CtrlStruct \<Rightarrow> 's \<Rightarrow> bool \<times> 's) \<Rightarrow> bytes \<Rightarrow> nat \<Rightarrow> nat \<Rightarrow> 's \<Rightarrow> bool \<times> 's" where
  "ctrl_loop d base nread idx s =
     (case d (dec_CtrlStruct (take ctrl_size (drop idx base))) s of
        (False, s') \<Rightarrow> (False, s')
      | (True, s') \<Rightarrow> if nread \<le> idx + ctrl_size then (True, s')
                       else ctrl_loop d base nread (idx + ctrl_size) s')"
  by pat_completeness auto
termination
  by (relation "measure (\<lambda>(d, base, nread, idx, s). nread - idx)") (auto simp: ctrl_size_def)

declare ctrl_loop.simps [simp del]

definition ReadCtrlFromMain ::
  "(CtrlStruct \<Rightarrow> 's \<Rightarrow> bool \<times> 's) \<Rightarrow> bytes \<Rightarrow> int \<Rightarrow> 's \<Rightarrow> bool \<times> 's" where
  "ReadCtrlFromMain d base nread s =
     (if nread < 0 then (False, s)
      else if nread mod int ctrl_size \<noteq> 0 then (False, s)
      else ctrl_loop d base (nat nread) 0 s)"

section \<open>Control structures arrive as they were sent\<close>

lemma dec_enc_CtrlStruct:
  "length (ctrl_data c) = 16 \<Longrightarrow> dec_CtrlStruct (enc_CtrlStruct c @ rest) = c"
  by (simp add: dec_CtrlStruct_def enc_CtrlStruct_def hdc_consts wire_simps)

lemma length_enc_CtrlStruct: "length (ctrl_data c) = 16 \<Longrightarrow> length (enc_CtrlStruct c) = ctrl_size"
  by (simp add: enc_CtrlStruct_def ctrl_size_def)

lemma ctrl_of_fields:
  assumes "n \<le> 16"
  shows "length (ctrl_data (ctrl_of k ch src n)) = 16" "ctrl_command (ctrl_of k ch src n) = ctrl_code k"
    "ctrl_channelId (ctrl_of k ch src n) = ch" "unat (ctrl_dataSize (ctrl_of k ch src n)) = n"
  using assms by (auto simp: ctrl_of_def Let_def hdc_consts unat_of_nat split: option.splits)

text \<open>The commands are carried out in the order they were written, up to the first that fails.\<close>

fun dispatch_all :: "(CtrlStruct \<Rightarrow> 's \<Rightarrow> bool \<times> 's) \<Rightarrow> CtrlStruct list \<Rightarrow> 's \<Rightarrow> bool \<times> 's" where
  "dispatch_all d [] s = (True, s)"
| "dispatch_all d (c # cs) s = (case d c s of
     (False, s') \<Rightarrow> (False, s') | (True, s') \<Rightarrow> dispatch_all d cs s')"

lemma length_concat_ctrl:
  "list_all (\<lambda>c. length (ctrl_data c) = 16) cs \<Longrightarrow> length (concat (map enc_CtrlStruct cs)) = length cs * ctrl_size"
  by (induction cs) (simp_all add: length_enc_CtrlStruct)

lemma ctrl_loop_sent:
  assumes "list_all (\<lambda>c. length (ctrl_data c) = 16) (c # cs)" "drop idx base = concat (map enc_CtrlStruct (c # cs)) @ rest"
    "nread = idx + length (c # cs) * ctrl_size"
  shows "ctrl_loop d base nread idx s = dispatch_all d (c # cs) s"
  using assms
proof (induction cs arbitrary: c idx s)
  case Nil
  have "dec_CtrlStruct (take ctrl_size (drop idx base)) = c"
    using Nil dec_enc_CtrlStruct [of c "[]"] by (simp add: length_enc_CtrlStruct)
  then show ?case using Nil by (subst ctrl_loop.simps) (simp split: prod.splits bool.splits)
next
  case (Cons e cs)
  have c: "dec_CtrlStruct (take ctrl_size (drop idx base)) = c"
    using Cons.prems dec_enc_CtrlStruct [of c "[]"] by (simp add: length_enc_CtrlStruct)
  have d: "drop (idx + ctrl_size) base = concat (map enc_CtrlStruct (e # cs)) @ rest"
  proof -
    have "drop ctrl_size (drop idx base) = concat (map enc_CtrlStruct (e # cs)) @ rest"
      unfolding Cons.prems(2) using Cons.prems(1) by (simp add: length_enc_CtrlStruct)
    then show ?thesis by (simp add: add.commute)
  qed
  have "ctrl_loop d base nread (idx + ctrl_size) s' = dispatch_all d (e # cs) s'" for s'
    using Cons.prems by (intro Cons.IH [OF _ d]) simp_all
  moreover have "\<not> nread \<le> idx + ctrl_size" using Cons.prems(3) by (simp add: ctrl_size_def)
  ultimately show ?case using c by (subst ctrl_loop.simps) (simp split: prod.splits bool.splits)
qed

text \<open>
  Whatever commands the main thread has written to the control pipe, when they arrive
  together the work thread carries them out in this order, up to the first that fails.
\<close>

theorem ReadCtrlFromMain_dispatches:
  assumes "cs \<noteq> []" "list_all (\<lambda>(k, ch, src, n). n \<le> 16) cs"
  shows "ReadCtrlFromMain d (concat (map (\<lambda>(k, ch, src, n). BuildCtrlString k ch src n) cs) @ rest)
           (int (length cs * ctrl_size)) s
         = dispatch_all d (map (\<lambda>(k, ch, src, n). ctrl_of k ch src n) cs) s"
proof -
  let ?c = "\<lambda>(k, ch, src, n). ctrl_of k ch src n"
  have e: "map (\<lambda>(k, ch, src, n). BuildCtrlString k ch src n) cs = map enc_CtrlStruct (map ?c cs)"
    using assms(2) by (auto simp: list_all_iff BuildCtrlString_def hdc_consts)
  have l: "list_all (\<lambda>c. length (ctrl_data c) = 16) (map ?c cs)"
    using assms(2) by (auto simp: list_all_iff ctrl_of_fields)
  obtain c cs' where c: "map ?c cs = c # cs'" using assms(1) by (cases cs) auto
  have n: "length (c # cs') = length cs" using c by (metis length_map)
  have "ctrl_loop d (concat (map enc_CtrlStruct (map ?c cs)) @ rest) (length cs * ctrl_size) 0 s
      = dispatch_all d (map ?c cs) s"
    unfolding c by (rule ctrl_loop_sent) (use l n c in simp_all)
  then show ?thesis by (simp add: ReadCtrlFromMain_def e del: of_nat_mult)
qed

text \<open>
  A read event without data, which libuv raises when the pipe had nothing to read, is taken
  for a command: the zeros of the fresh buffer decode to \<open>SP_START_SESSION\<close>.
\<close>

theorem empty_read_starts_session:
  "ReadCtrlFromMain (DispatchMainThreadCommand W sod ct) (replicate (ctrl_size + n) 0) 0 (s, l)
     = (case startSession W s of (ok, s') \<Rightarrow> (ok, (s', l)))"
proof -
  have "ctrl_command (dec_CtrlStruct (replicate ctrl_size 0)) = ctrl_code SP_START_SESSION"
    by (simp add: dec_CtrlStruct_def ctrl_size_def numeral_eq_Suc)
  then have "DispatchMainThreadCommand W sod ct (dec_CtrlStruct (replicate ctrl_size 0)) (s, l)
      = (case startSession W s of (ok, s') \<Rightarrow> (ok, (s', l)))"
    by (simp add: DispatchMainThreadCommand_def)
  then show ?thesis
    by (simp add: ReadCtrlFromMain_def ctrl_loop.simps [of _ _ 0] split: prod.splits bool.splits)
qed

text \<open>Two commands, the second of which no work thread supports.\<close>

definition counting_thread :: "nat work_thread" where
  "counting_thread = \<lparr> startSession = (\<lambda>n. (True, Suc n)), attachChannel = (\<lambda>c n. n + 10),
     deatchChannel = (\<lambda>c n. n + 100) \<rparr>"

definition idle_child :: child_loop where
  "idle_child = \<lparr> childRef = 0, childTcpOpen = True, closes = 0, stopped = False \<rparr>"

theorem ReadCtrlFromMain_dispatches_witness:
  "ReadCtrlFromMain (DispatchMainThreadCommand counting_thread True CONN_TCP)
     (BuildCtrlString SP_ATTACH_CHANNEL 5 None 0 @ BuildCtrlString SP_JDWP_NEWFD 5 (Some [7]) 1) 56
     (0, idle_child) = (False, (10, idle_child))"
  using ReadCtrlFromMain_dispatches [of "[(SP_ATTACH_CHANNEL, 5, None, 0), (SP_JDWP_NEWFD, 5, Some [7], 1)]"
      "DispatchMainThreadCommand counting_thread True CONN_TCP" "[]" "(0, idle_child)"]
  by (simp add: ctrl_size_def DispatchMainThreadCommand_def ctrl_of_def counting_thread_def)

text \<open>Stopping a session: the loop stops with the last of its handles, not before.\<close>

lemma child_closes:
  "childRef l = m \<Longrightarrow> 0 < m \<Longrightarrow> \<not> stopped l \<Longrightarrow> j \<le> m \<Longrightarrow>
    childRef ((closeSessionChildThreadTCPHandle ^^ j) l) = m - j
    \<and> (stopped ((closeSessionChildThreadTCPHandle ^^ j) l) \<longleftrightarrow> j = m)"
  by (induction j) (auto simp: closeSessionChildThreadTCPHandle_def Let_def)

lemma child_loop_stops:
  fixes ct :: ConnType
  assumes "childRef l = 0" "\<not> stopped l" "j \<le> closes (stop_session ct l)" "closes l = 0"
  shows "stopped ((closeSessionChildThreadTCPHandle ^^ j) (stop_session ct l))
    \<longleftrightarrow> j = closes (stop_session ct l)"
  using child_closes [of "stop_session ct l" "closes (stop_session ct l)" j] assms
  by (simp add: stop_session_def Let_def)

section \<open>Messages to the main loop\<close>

text \<open>
  \<open>lstMainThreadOP\<close>, the idle tasks made from it, and the calls they have made: the sessions
  freed, in order, and whether the loop was stopped.
\<close>

record main_queue =
  lstMainThreadOP :: "(u32 \<times> AsyncEvent) list"
  idles :: "(u32 \<times> AsyncEvent) list"
  handled :: "(u32 \<times> AsyncEvent) list"
  freeCalls :: "u32 list"
  loopStopped :: bool

definition PushAsyncMessage :: "u32 \<Rightarrow> AsyncEvent \<Rightarrow> main_queue \<Rightarrow> main_queue" where
  "PushAsyncMessage sid k q = q\<lparr>lstMainThreadOP := lstMainThreadOP q @ [(sid, k)]\<rparr>"

definition MainAsyncCallback :: "main_queue \<Rightarrow> main_queue" where
  "MainAsyncCallback q = q\<lparr>idles := idles q @ lstMainThreadOP q, lstMainThreadOP := []\<rparr>"

text \<open>An idle task runs once: it closes itself.\<close>

definition AsyncMainLoopTask :: "main_queue \<Rightarrow> main_queue" where
  "AsyncMainLoopTask q = (case idles q of
     [] \<Rightarrow> q
   | (sid, k) # rest \<Rightarrow>
       (let q' = q\<lparr>idles := rest, handled := handled q @ [(sid, k)]\<rparr> in
        case k of
          ASYNC_FREE_SESSION \<Rightarrow> q'\<lparr>freeCalls := freeCalls q' @ [sid]\<rparr>
        | ASYNC_STOP_MAINLOOP \<Rightarrow> q'\<lparr>loopStopped := True\<rparr>
        | _ \<Rightarrow> q'))"

text \<open>
  libuv may merge several \<open>uv_async_send\<close> into one callback, so the callback is a step of its own
  that may come at any time after a push.
\<close>

inductive queue_step :: "main_queue \<Rightarrow> (u32 \<times> AsyncEvent) list \<Rightarrow> main_queue \<Rightarrow> bool" where
  "queue_step q [(sid, k)] (PushAsyncMessage sid k q)"
| "queue_step q [] (MainAsyncCallback q)"
| "queue_step q [] (AsyncMainLoopTask q)"

inductive queue_run :: "main_queue \<Rightarrow> (u32 \<times> AsyncEvent) list \<Rightarrow> main_queue \<Rightarrow> bool" where
  queue_refl: "queue_run q [] q"
| queue_trans: "queue_run q ms q1 \<Longrightarrow> queue_step q1 ns q2 \<Longrightarrow> queue_run q (ms @ ns) q2"

definition queue0 :: main_queue where
  "queue0 = \<lparr> lstMainThreadOP = [], idles = [], handled = [], freeCalls = [], loopStopped = False \<rparr>"

definition free_sids :: "(u32 \<times> AsyncEvent) list \<Rightarrow> u32 list" where
  "free_sids ms = map fst (filter (\<lambda>(sid, k). k = ASYNC_FREE_SESSION) ms)"

lemma queue_step_conserves:
  "queue_step q ns q' \<Longrightarrow> handled q' @ idles q' @ lstMainThreadOP q' = handled q @ idles q @ lstMainThreadOP q @ ns
    \<and> (freeCalls q = free_sids (handled q) \<longrightarrow> freeCalls q' = free_sids (handled q'))"
  by (cases rule: queue_step.cases)
    (auto simp: PushAsyncMessage_def MainAsyncCallback_def AsyncMainLoopTask_def Let_def free_sids_def
      split: list.splits AsyncEvent.splits)

text \<open>
  However pushes, callbacks and tasks interleave, no message to the main loop is lost,
  repeated or reordered, and the sessions freed so far are those of the messages handled.
\<close>

theorem async_messages_conserved:
  assumes "queue_run queue0 ms q"
  shows "handled q @ idles q @ lstMainThreadOP q = ms \<and> freeCalls q = free_sids (handled q)"
  using assms
proof (induction queue0 ms q rule: queue_run.induct)
  case queue_refl
  then show ?case by (simp add: queue0_def free_sids_def)
next
  case (queue_trans ms q1 ns q2)
  then show ?case using queue_step_conserves [of q1 ns q2] by auto
qed

theorem async_messages_conserved_witness:
  "freeCalls (AsyncMainLoopTask (MainAsyncCallback (PushAsyncMessage 3 ASYNC_FREE_SESSION queue0))) = [3]"
proof -
  have "queue_run queue0 ((([] @ [(3, ASYNC_FREE_SESSION)]) @ []) @ [])
      (AsyncMainLoopTask (MainAsyncCallback (PushAsyncMessage 3 ASYNC_FREE_SESSION queue0)))"
    by (rule queue_trans, rule queue_trans, rule queue_trans, rule queue_refl)
      (rule queue_step.intros)+
  from async_messages_conserved [OF this] show ?thesis
    by (simp add: AsyncMainLoopTask_def MainAsyncCallback_def PushAsyncMessage_def queue0_def)
qed

section \<open>Searching the sessions\<close>

text \<open>The first session of the transport is handed to the caller's function.\<close>

definition EnumUSBDeviceRegister :: "SessionBase \<Rightarrow> HdcSession option" where
  "EnumUSBDeviceRegister b =
     find (\<lambda>s. connType s = CONN_USB \<and> has_hUSB s) (map snd (mapSession b))"

definition EnumUARTDeviceRegister :: "SessionBase \<Rightarrow> HdcSession option" where
  "EnumUARTDeviceRegister b =
     find (\<lambda>s. connType s = CONN_SERIAL \<and> has_hUART s) (map snd (mapSession b))"

text \<open>\<open>ids\<close> gives the bus and device number of the USB part of a session.\<close>

definition QueryUSBDeviceRegister ::
  "bool \<Rightarrow> (HdcSession \<Rightarrow> u8 \<times> u8) \<Rightarrow> u8 \<Rightarrow> u8 \<Rightarrow> SessionBase \<Rightarrow> HdcSession option" where
  "QueryUSBDeviceRegister host ids busId devId b =
     (if \<not> host then None
      else find (\<lambda>s. connType s \<noteq> CONN_USB \<and> has_hUSB s \<and> ids s = (busId, devId)) (map snd (mapSession b)))"

definition usb_parts_ok :: "SessionBase \<Rightarrow> bool" where
  "usb_parts_ok b \<longleftrightarrow> list_all (\<lambda>s. has_hUSB s \<longrightarrow> connType s = CONN_USB) (map snd (mapSession b))"

lemma set_snd_mp_put: "set (map snd (mp_put k v m)) \<subseteq> insert v (set (map snd m))"
  by (induction k v m rule: mp_put.induct) auto

lemma MallocSession_usb_parts:
  assumes "usb_parts_ok b" "MallocSession sod ct sid rnd b = Some (r, b')"
  shows "usb_parts_ok b'"
proof -
  have n: "has_hUSB s' \<longrightarrow> connType s' = CONN_USB"
    if "MallocSessionByConnectType ((new_HdcSession sod ct uid)\<lparr>uvHandleRef := 2\<rparr>) = Some s'" for uid s'
    using that by (auto simp: MallocSessionByConnectType_def new_HdcSession_def split: ConnType.splits)
  from assms(2) have "mapSession b' = mapSession b \<or>
      (\<exists>uid s'. (has_hUSB s' \<longrightarrow> connType s' = CONN_USB) \<and> mapSession b' = mp_put uid s' (mapSession b))"
  proof (cases r)
    case None
    then show ?thesis using assms(2)
      by (auto simp: MallocSession_def Let_def bind_eq_Some_conv split: option.splits)
  next
    case (Some s)
    then obtain uid where "MallocSessionByConnectType ((new_HdcSession sod ct uid)\<lparr>uvHandleRef := 2\<rparr>) = Some s"
      "mapSession b' = mp_put uid s (mapSession b)"
      using assms(2) by (auto simp: MallocSession_def Let_def bind_eq_Some_conv split: option.splits)
    then show ?thesis using n by blast
  qed
  then show ?thesis using assms(1) set_snd_mp_put
    by (fastforce simp: usb_parts_ok_def list_all_iff)
qed

text \<open>
  Sessions are created with a USB part only when they are USB sessions, and
  \<open>QueryUSBDeviceRegister\<close> passes over exactly those: it never finds the session of a device.
\<close>

theorem QueryUSBDeviceRegister_finds_none:
  "usb_parts_ok b \<Longrightarrow> QueryUSBDeviceRegister host ids busId devId b = None"
  by (auto simp: QueryUSBDeviceRegister_def usb_parts_ok_def find_None_iff list_all_iff)

theorem QueryUSBDeviceRegister_finds_none_witness:
  "QueryUSBDeviceRegister True (\<lambda>s. (1, 2)) 1 2
     ((new_SessionBase True 4)\<lparr>mapSession := [(9, (new_HdcSession True CONN_USB 9)\<lparr>has_hUSB := True\<rparr>)]\<rparr>) = None"
  using QueryUSBDeviceRegister_finds_none
    [of "(new_SessionBase True 4)\<lparr>mapSession := [(9, (new_HdcSession True CONN_USB 9)\<lparr>has_hUSB := True\<rparr>)]\<rparr>"
      True "\<lambda>s. (1, 2)" 1 2]
  by (simp add: usb_parts_ok_def new_HdcSession_def)

section \<open>The opening handshake\<close>

definition opening_handshake :: "HdcSession \<Rightarrow> SessionHandShake" where
  "opening_handshake s = \<lparr> banner = HANDSHAKE_MESSAGE, authType = 0, hs_sessionId = s_sessionId s,
     hs_connectKey = s_connectKey s, buf = [] \<rparr>"

text \<open>
  \<open>WorkThreadStartSession\<close>: \<open>regOK\<close> is the result of the transport (for TCP the two libuv calls,
  else \<open>ReadyForWorkThread\<close>). The message, if any, is a command on channel 0.
\<close>

definition WorkThreadStartSession :: "bool \<Rightarrow> HdcSession \<Rightarrow> bool \<times> (u32 \<times> u16 \<times> string) option" where
  "WorkThreadStartSession regOK s =
     (regOK, if regOK \<and> s_serverOrDaemon s
             then Some (0, cmd CMD_KERNEL_HANDSHAKE,
               SerializeToString Descriptor_SessionHandShake (opening_handshake s))
             else None)"

text \<open>\<open>LogMsg\<close>: the level and the text, sent as an echo to the client.\<close>

definition LogMsg :: "MessageLevel \<Rightarrow> string \<Rightarrow> u16 \<times> bytes" where
  "LogMsg level txt = (cmd CMD_KERNEL_ECHO, msg_level level # bytes_of txt)"

text \<open>
  The handshake that a session of the server opens with tells the daemon's parser the
  server's session number and connect key, with no authentication claimed.
\<close>

theorem opening_handshake_read_back:
  assumes "s_serverOrDaemon s" "str_ok (s_connectKey s)"
    "WorkThreadStartSession True s = (ok, Some (ch, c, txt))"
  shows "ok \<and> ch = 0 \<and> c = cmd CMD_KERNEL_HANDSHAKE
    \<and> ParseFromString Descriptor_SessionHandShake m0 txt = Some (True,
        \<lparr> banner = HANDSHAKE_MESSAGE, authType = 0, hs_sessionId = s_sessionId s,
          hs_connectKey = s_connectKey s, buf = [] \<rparr>)"
  using assms handshake_roundtrip_lib [of "opening_handshake s" m0]
  by (auto simp: WorkThreadStartSession_def opening_handshake_def handshake_ok_def str_ok_def hdc_consts)

theorem opening_handshake_read_back_witness:
  "\<exists>txt. ParseFromString Descriptor_SessionHandShake sample_handshake txt = Some (True,
        \<lparr> banner = HANDSHAKE_MESSAGE, authType = 0, hs_sessionId = 9,
          hs_connectKey = ''192.168.0.7:8710'', buf = [] \<rparr>)"
proof -
  let ?s = "(new_HdcSession True CONN_TCP 9)\<lparr>s_connectKey := ''192.168.0.7:8710''\<rparr>"
  have "s_serverOrDaemon ?s" "str_ok (s_connectKey ?s)" by (simp_all add: new_HdcSession_def str_ok_def SECUREC_MEM_MAX_LEN_def)
  then show ?thesis
    using opening_handshake_read_back [of ?s True 0 "cmd CMD_KERNEL_HANDSHAKE"
        "SerializeToString Descriptor_SessionHandShake (opening_handshake ?s)" sample_handshake]
    by (auto simp: WorkThreadStartSession_def new_HdcSession_def intro!: exI)
qed

end
