(* ===== verification/Hdc_Strings.thy ===== *)
theory Hdc_Strings
  imports Hdc_Define "HOL-Library.Sublist"
begin

text \<open>
  The string helpers of src/src/common/base.cpp: splitting, replacing, suffixes, paths and the
  address of a connect key. Each loop is related to a plain list function that says what it is
  for.
\<close>

section \<open>SplitString\<close>

text \<open>
  The loop of \<open>SplitString\<close>: \<open>p1\<close> is the start of the piece, \<open>acc\<close> the pieces so far.
  \<open>substr\<close> beyond the end throws, which is \<open>None\<close>.
\<close>

function split_loop :: "string \<Rightarrow> string \<Rightarrow> nat \<Rightarrow> string list \<Rightarrow> string list option" where
  "split_loop s sq p1 acc = (case str_find s sq p1 of
     None \<Rightarrow> if p1 = length s then Some acc
             else if length s < p1 then None else Some (acc @ [drop p1 s])
   | Some p2 \<Rightarrow> if p2 = p1 then split_loop s sq (Suc p1) acc
                else split_loop s sq (p2 + length sq) (acc @ [substr s p1 (p2 - p1)]))"
  by pat_completeness auto
termination
proof (relation "measure (\<lambda>(s, sq, p1, acc). Suc (length s) - p1)", goal_cases)
  case (2 s sq p1 acc p2)
  then show ?case using str_find_Some [of s sq p1 p2] by auto
next
  case (3 s sq p1 acc p2)
  then show ?case using str_find_Some [of s sq p1 p2] by auto
qed simp

declare split_loop.simps [simp del]

definition SplitString :: "string \<Rightarrow> string \<Rightarrow> string list option" where
  "SplitString s sq = split_loop s sq 0 []"

text \<open>The pieces of a string between the occurrences of a character.\<close>

fun segs :: "'a \<Rightarrow> 'a list \<Rightarrow> 'a list list" where
  "segs c [] = [[]]"
| "segs c (x # xs) = (if x = c then [] # segs c xs else (x # hd (segs c xs)) # tl (segs c xs))"

lemma segs_absent: "c \<notin> set t \<Longrightarrow> segs c t = [t]"
  by (induction t) auto

lemma segs_split:
  "c \<in> set t \<Longrightarrow> segs c t = takeWhile (\<lambda>x. x \<noteq> c) t # segs c (drop (Suc (length (takeWhile (\<lambda>x. x \<noteq> c) t))) t)"
  by (induction t) auto

lemma takeWhile_shorter: "c \<in> set t \<Longrightarrow> length (takeWhile (\<lambda>x. x \<noteq> c) t) < length t"
  by (induction t) auto

lemma takeWhile_substr: "takeWhile P (drop p s) = substr s p (length (takeWhile P (drop p s)))"
  unfolding substr_def by (metis append_eq_conv_conj takeWhile_dropWhile_id)

lemma split_loop_segs:
  "p1 \<le> length s \<Longrightarrow> split_loop s [c] p1 acc = Some (acc @ filter (\<lambda>w. w \<noteq> []) (segs c (drop p1 s)))"
proof (induction "length s - p1" arbitrary: p1 acc rule: less_induct)
  case less
  let ?t = "drop p1 s"
  let ?w = "takeWhile (\<lambda>x. x \<noteq> c) ?t"
  show ?case
  proof (cases "c \<in> set ?t")
    case False
    then show ?thesis using less.prems
      by (simp add: split_loop.simps [of s] str_find_single segs_absent)
  next
    case True
    have w: "length ?w < length ?t" using True by (rule takeWhile_shorter)
    have g: "segs c ?t = ?w # segs c (drop (Suc (p1 + length ?w)) s)"
      using segs_split [OF True] by (simp add: add.commute)
    have f: "str_find s [c] p1 = Some (p1 + length ?w)" using True less.prems by (simp add: str_find_single)
    have lt: "Suc (p1 + length ?w) \<le> length s" using w by simp
    show ?thesis
    proof (cases "?w = []")
      case True
      then show ?thesis using f g lt less.hyps [of "Suc p1" acc] by (simp add: split_loop.simps [of s])
    next
      case False
      then show ?thesis
        using f g lt less.hyps [of "Suc (p1 + length ?w)" "acc @ [substr s p1 (length ?w)]"]
        by (simp add: split_loop.simps [of s] takeWhile_substr [symmetric])
    qed
  qed
qed

text \<open>
  With a single character for separator, \<open>SplitString\<close> returns the non-empty pieces between
  its occurrences, in order, and never throws.
\<close>

theorem SplitString_pieces:
  "SplitString s [c] = Some (filter (\<lambda>w. w \<noteq> []) (segs c s))"
  by (simp add: SplitString_def split_loop_segs)

fun join :: "'a \<Rightarrow> 'a list list \<Rightarrow> 'a list" where
  "join c [] = []"
| "join c [w] = w"
| "join c (w # v # ws) = w @ c # join c (v # ws)"

lemma segs_append: "c \<notin> set w \<Longrightarrow> segs c (w @ c # t) = w # segs c t"
  by (induction w) auto

lemma segs_join: "ws \<noteq> [] \<Longrightarrow> \<forall>w \<in> set ws. c \<notin> set w \<Longrightarrow> segs c (join c ws) = ws"
  by (induction c ws rule: join.induct) (auto simp: segs_absent segs_append)

lemma SplitString_join:
  assumes "\<forall>w \<in> set ws. w \<noteq> [] \<and> c \<notin> set w"
  shows "SplitString (join c ws) [c] = Some ws"
proof (cases "ws = []")
  case True
  then show ?thesis by (simp add: SplitString_def split_loop_segs)
next
  case False
  then show ?thesis using assms by (simp add: SplitString_def split_loop_segs segs_join)
qed

text \<open>
  Not so with a longer separator: of two adjacent ones the first is passed over one character
  at a time, and its rest starts the next piece; an empty separator makes it throw.
\<close>

theorem SplitString_quirks:
  "SplitString ''a::::b'' ''::'' = Some [''a'', '':b'']
   \<and> SplitString ''ab'' '''' = None"
  by (simp add: SplitString_def split_loop.simps str_find_def substr_def)

section \<open>ReplaceAll\<close>

text \<open>The loop need not end: with an empty \<open>from\<close> it finds the same place again and again.\<close>

partial_function (option) replace_loop :: "string \<Rightarrow> string \<Rightarrow> string \<Rightarrow> nat \<Rightarrow> string option" where
  "replace_loop s frm to startPos = (case str_find s frm startPos of
     None \<Rightarrow> Some s
   | Some k \<Rightarrow> replace_loop (take k s @ to @ drop (k + length frm) s) frm to (k + length to))"

definition ReplaceAll :: "string \<Rightarrow> string \<Rightarrow> string \<Rightarrow> string option" where
  "ReplaceAll s frm to = replace_loop s frm to 0"

text \<open>Replacing from left to right, without looking again at what was put in.\<close>

function repl :: "'a list \<Rightarrow> 'a list \<Rightarrow> 'a list \<Rightarrow> 'a list" where
  "repl frm to [] = []"
| "repl frm to (x # xs) =
     (if frm \<noteq> [] \<and> take (length frm) (x # xs) = frm
      then to @ repl frm to (drop (length frm) (x # xs)) else x # repl frm to xs)"
  by pat_completeness auto
termination by (relation "measure (\<lambda>(frm, to, s). length s)") auto

lemma repl_find:
  assumes "frm \<noteq> []"
  shows "find_at frm t i = None \<Longrightarrow> repl frm to t = t"
    and "find_at frm t i = Some k \<Longrightarrow>
      repl frm to t = take (k - i) t @ to @ repl frm to (drop (k - i + length frm) t)"
  using assms
proof (induction t arbitrary: i)
  case (Cons x xs)
  {
    case 1
    then show ?case using Cons.IH(1) [of "Suc i"] by (auto split: if_splits)
  next
    case 2
    show ?case
    proof (cases "take (length frm) (x # xs) = frm")
      case True
      then show ?thesis using 2 by simp
    next
      case False
      then have f: "find_at frm xs (Suc i) = Some k" using 2 by simp
      then have "Suc i \<le> k" using find_at_Some [OF f] by simp
      then have "k - i = Suc (k - Suc i)" by arith
      then show ?thesis using Cons.IH(2) [OF f assms] False by simp
    qed
  }
qed (auto split: if_splits)

lemma replace_loop_repl:
  "frm \<noteq> [] \<Longrightarrow> pos \<le> length s \<Longrightarrow> replace_loop s frm to pos = Some (take pos s @ repl frm to (drop pos s))"
proof (induction "length s - pos" arbitrary: s pos rule: less_induct)
  case less
  show ?case
  proof (cases "str_find s frm pos")
    case None
    then have "find_at frm (drop pos s) pos = None" using less.prems(2) by (simp add: str_find_def)
    then show ?thesis using None repl_find(1) [OF less.prems(1)] by (simp add: replace_loop.simps [of s])
  next
    case (Some k)
    have k: "pos \<le> k" "k + length frm \<le> length s" using str_find_Some [OF Some] by auto
    have f: "find_at frm (drop pos s) pos = Some k" using Some less.prems(2) by (simp add: str_find_def)
    have r: "repl frm to (drop pos s) = take (k - pos) (drop pos s) @ to @ repl frm to (drop (k + length frm) s)"
      using repl_find(2) [OF less.prems(1) f] k by simp
    let ?s = "take k s @ to @ drop (k + length frm) s"
    have l: "length ?s - (k + length to) < length s - pos" "k + length to \<le> length ?s"
      using k less.prems by (cases frm; auto)+
    have "replace_loop s frm to pos = Some (take (k + length to) ?s @ repl frm to (drop (k + length to) ?s))"
      using less.hyps [OF l(1) less.prems(1) l(2)] Some by (simp add: replace_loop.simps [of s])
    moreover have "take k s = take pos s @ take (k - pos) (drop pos s)"
      by (metis k(1) le_add_diff_inverse take_add)
    moreover have "take (k + length to) ?s = take k s @ to" "drop (k + length to) ?s = drop (k + length frm) s"
      using k by simp_all
    ultimately show ?thesis using r by simp
  qed
qed

text \<open>
  \<open>ReplaceAll\<close> returns for every non-empty pattern, and replaces its occurrences from left to
  right without looking into the replacements.
\<close>

theorem ReplaceAll_repl: "frm \<noteq> [] \<Longrightarrow> ReplaceAll s frm to = Some (repl frm to s)"
  by (simp add: ReplaceAll_def replace_loop_repl)

theorem ReplaceAll_repl_witness: "ReplaceAll ''aXbX'' ''X'' ''XX'' = Some ''aXXbXX''"
  using ReplaceAll_repl [of "''X''" "''aXbX''" "''XX''"] by simp

section \<open>Suffixes\<close>

text \<open>
  \<open>StringEndsWith\<close> compares the position of the last occurrence with a difference of two
  \<open>size_t\<close>, which wraps; \<open>npos\<close> is the greatest of them.
\<close>

definition npos :: nat where
  "npos = 2 ^ 64 - 1"

definition StringEndsWith :: "string \<Rightarrow> string \<Rightarrow> bool" where
  "StringEndsWith s sub \<longleftrightarrow>
     (case str_rfind s sub of None \<Rightarrow> npos | Some i \<Rightarrow> i) = nat ((int (length s) - int (length sub)) mod 2 ^ 64)"

text \<open>\<open>MatchPackageExtendName\<close> keeps the position in an \<open>int\<close>, -1 when there is none.\<close>

definition MatchPackageExtendName :: "string \<Rightarrow> string \<Rightarrow> bool" where
  "MatchPackageExtendName fileName extName \<longleftrightarrow>
     (let subfixIndex = (case str_rfind fileName extName of None \<Rightarrow> - 1 | Some i \<Rightarrow> int i)
      in nat ((int (length fileName) - subfixIndex) mod 2 ^ 64) = length extName)"

lemma rfind_at_last:
  "length sub \<le> length s \<Longrightarrow> drop (length s - length sub) s = sub \<Longrightarrow>
    rfind_at sub s i = Some (i + (length s - length sub))"
proof (induction sub s i rule: rfind_at.induct)
  case (2 sub x xs i)
  show ?case
  proof (cases "length sub = length (x # xs)")
    case True
    then have s: "sub = x # xs" using 2(3) by simp
    have "rfind_at sub xs (Suc i) = None"
      using rfind_at_Some [of sub xs "Suc i"] s by (cases "rfind_at sub xs (Suc i)") auto
    then show ?thesis using s by simp
  next
    case False
    then have "length sub \<le> length xs" using 2(2) by simp
    moreover from this have "drop (length xs - length sub) xs = sub" using 2(3) by (simp add: Suc_diff_le)
    ultimately show ?thesis using 2(1) by (simp add: Suc_diff_le)
  qed
qed simp

lemma str_rfind_suffix:
  "str_rfind s sub = Some (length s - length sub) \<and> length sub \<le> length s \<longleftrightarrow> suffix sub s"
proof
  assume a: "str_rfind s sub = Some (length s - length sub) \<and> length sub \<le> length s"
  then have "take (length sub) (drop (length s - length sub) s) = sub"
    using rfind_at_Some [of sub s 0] by (auto simp: str_rfind_def)
  then have "drop (length s - length sub) s = sub" using a by simp
  then show "suffix sub s" by (metis suffix_drop)
next
  assume "suffix sub s"
  then obtain p where "s = p @ sub" by (auto simp: suffix_def)
  then show "str_rfind s sub = Some (length s - length sub) \<and> length sub \<le> length s"
    using rfind_at_last [of sub s 0] by (simp add: str_rfind_def)
qed

lemma str_rfind_bound: "str_rfind s sub = Some i \<Longrightarrow> i + length sub \<le> length s"
  using rfind_at_Some [of sub s 0 i] by (simp add: str_rfind_def)

text \<open>
  \<open>StringEndsWith\<close> and \<open>MatchPackageExtendName\<close> tell suffixes, but also accept every string
  that is one character shorter than the suffix asked for.
\<close>

theorem suffix_tests:
  assumes "length s < 2 ^ 32" "length sub < 2 ^ 32"
  shows "(StringEndsWith s sub \<longleftrightarrow> suffix sub s \<or> length sub = Suc (length s))
    \<and> (MatchPackageExtendName s sub \<longleftrightarrow> suffix sub s \<or> length sub = Suc (length s))"
proof (cases "str_rfind s sub")
  case None
  then have ns: "\<not> suffix sub s" using str_rfind_suffix [of s sub] by auto
  have b: "int (length s) < 2 ^ 32" "int (length sub) < 2 ^ 32"
    using assms by (simp_all flip: of_nat_less_iff)
  have "nat ((int (length s) - int (length sub)) mod 2 ^ 64) = npos \<longleftrightarrow> length sub = Suc (length s)"
  proof (cases "length sub \<le> length s")
    case True
    then have "(int (length s) - int (length sub)) mod 2 ^ 64 = int (length s) - int (length sub)"
      using b by simp
    then show ?thesis using True b by (simp add: npos_def nat_diff_distrib)
  next
    case False
    then have "(int (length s) - int (length sub)) mod 2 ^ 64 = int (length s) - int (length sub) + 2 ^ 64"
      using b by (subst mod_add_self2 [symmetric], subst mod_pos_pos_trivial) simp_all
    then show ?thesis using False b by (auto simp: npos_def)
  qed
  moreover have "nat ((int (length s) + 1) mod 2 ^ 64) = length sub \<longleftrightarrow> length sub = Suc (length s)"
    using b by auto
  ultimately show ?thesis using None ns
    by (auto simp: StringEndsWith_def MatchPackageExtendName_def)
next
  case (Some i)
  then have i: "i + length sub \<le> length s" by (rule str_rfind_bound)
  have s: "suffix sub s \<longleftrightarrow> i = length s - length sub"
    using str_rfind_suffix [of s sub] Some i by auto
  have b: "int (length s) < 2 ^ 32" "int (length sub) < 2 ^ 32"
    using assms by (simp_all flip: of_nat_less_iff)
  have "(int (length s) - int (length sub)) mod 2 ^ 64 = int (length s) - int (length sub)"
    "(int (length s) - int i) mod 2 ^ 64 = int (length s) - int i" using b i by simp_all
  then show ?thesis using Some s i
    by (auto simp: StringEndsWith_def MatchPackageExtendName_def nat_diff_distrib)
qed

theorem suffix_tests_witness:
  "StringEndsWith ''hap'' ''.hap'' \<and> \<not> StringEndsWith ''ap'' ''.hap'' \<and> StringEndsWith ''x.hap'' ''.hap''"
  using suffix_tests [of "''hap''" "''.hap''"] suffix_tests [of "''ap''" "''.hap''"]
    suffix_tests [of "''x.hap''" "''.hap''"] by (simp add: suffix_def)

section \<open>Paths\<close>

definition GetPathSep :: char where
  "GetPathSep = CHR ''/''"

definition GetFullFilePath :: "string \<Rightarrow> string" where
  "GetFullFilePath s = (case str_rfind s [GetPathSep] of
     Some i \<Rightarrow> substr s (i + 1) (length s - i) | None \<Rightarrow> s)"

definition GetPathWithoutFilename :: "string \<Rightarrow> string" where
  "GetPathWithoutFilename s = (case str_rfind s [GetPathSep] of
     Some i \<Rightarrow> substr s 0 (i + 1) | None \<Rightarrow> s)"

definition GetFileNameAny :: "string \<Rightarrow> string" where
  "GetFileNameAny path = (case str_rfind path ''/'' of
     Some i \<Rightarrow> substr path (i + 1) (length path - i)
   | None \<Rightarrow> (case str_rfind path [CHR 0x5C] of
       Some i \<Rightarrow> substr path (i + 1) (length path - i) | None \<Rightarrow> path))"

text \<open>The first character of a C++ string is the terminator when it is empty.\<close>

definition IsAbsolutePath :: "string \<Rightarrow> bool" where
  "IsAbsolutePath path \<longleftrightarrow> (case path of [] \<Rightarrow> False | c # _ \<Rightarrow> c = CHR ''/'')"

definition ExtractRelativePath :: "string \<Rightarrow> string \<Rightarrow> string" where
  "ExtractRelativePath cwd path = (if IsAbsolutePath path then path else cwd @ path)"

lemma str_rfind_char:
  "str_rfind s [c] = Some i \<Longrightarrow> i < length s \<and> s ! i = c \<and> c \<notin> set (drop (Suc i) s)"
  "str_rfind s [c] = None \<longleftrightarrow> c \<notin> set s"
proof -
  show "i < length s \<and> s ! i = c \<and> c \<notin> set (drop (Suc i) s)" if r: "str_rfind s [c] = Some i"
  proof -
    have r0: "rfind_at [c] s 0 = Some i" using r by (simp add: str_rfind_def)
    have "i < length s" "take 1 (drop i s) = [c]" using rfind_at_Some [OF r0] by auto
    moreover from this have "hd (drop i s) = c" by (cases "drop i s") auto
    moreover from calculation have "s ! i = c" by (simp add: hd_drop_conv_nth)
    ultimately show ?thesis using rfind_at_single_Some [OF r0] by simp
  qed
  show "str_rfind s [c] = None \<longleftrightarrow> c \<notin> set s"
    by (simp add: str_rfind_def rfind_at_single_None)
qed

text \<open>
  A path splits at its last separator: the directory part and the name make up the path, and
  the name has no separator. A path without one is returned whole for both.
\<close>

theorem path_parts:
  "(if GetPathSep \<in> set s
    then GetPathWithoutFilename s @ GetFullFilePath s = s \<and> GetPathSep \<notin> set (GetFullFilePath s)
       \<and> last (GetPathWithoutFilename s) = GetPathSep
    else GetPathWithoutFilename s = s \<and> GetFullFilePath s = s)
   \<and> CHR ''/'' \<notin> set (GetFileNameAny s)"
proof (cases "str_rfind s [GetPathSep]")
  case None
  then have "GetPathSep \<notin> set s" by (simp add: str_rfind_char)
  moreover from this have "CHR ''/'' \<notin> set (GetFileNameAny s)"
    by (auto simp: GetFileNameAny_def GetPathSep_def substr_def
        dest: in_set_takeD in_set_dropD split: option.splits)
  ultimately show ?thesis using None by (simp add: GetPathWithoutFilename_def GetFullFilePath_def)
next
  case (Some i)
  note r = str_rfind_char(1) [OF Some]
  have "GetPathSep \<in> set s" using r nth_mem by metis
  moreover have "GetFullFilePath s = drop (Suc i) s" "GetPathWithoutFilename s = take (Suc i) s"
    using Some by (simp_all add: GetFullFilePath_def GetPathWithoutFilename_def substr_def)
  moreover have "last (take (Suc i) s) = GetPathSep" using r by (simp add: take_Suc_conv_app_nth)
  moreover have "GetFileNameAny s = drop (Suc i) s"
    using Some by (simp add: GetFileNameAny_def GetPathSep_def substr_def)
  ultimately show ?thesis using r by (simp add: GetPathSep_def)
qed

section \<open>Connect keys\<close>

text \<open>
  \<open>atoi\<close>: white space, a sign, digits; the C library clamps the value to \<open>long\<close> and the result
  is cut to an \<open>int\<close>.
\<close>

definition isdigit :: "char \<Rightarrow> bool" where
  "isdigit c \<longleftrightarrow> 48 \<le> (of_char c :: nat) \<and> (of_char c :: nat) \<le> 57"

definition isspace :: "char \<Rightarrow> bool" where
  "isspace c \<longleftrightarrow> (of_char c :: nat) = 32 \<or> 9 \<le> (of_char c :: nat) \<and> (of_char c :: nat) \<le> 13"

definition digits_value :: "string \<Rightarrow> nat" where
  "digits_value ds = foldl (\<lambda>n c. 10 * n + (of_char c - 48)) 0 ds"

definition strtol :: "string \<Rightarrow> int" where
  "strtol s =
     (let t = dropWhile isspace s;
          (neg, u) = (case t of c # r \<Rightarrow> if c = CHR ''-'' then (True, r)
             else if c = CHR ''+'' then (False, r) else (False, t) | [] \<Rightarrow> (False, []));
          v = int (digits_value (takeWhile isdigit u))
      in max (- (2 ^ 63)) (min (2 ^ 63 - 1) (if neg then - v else v)))"

definition atoi :: "string \<Rightarrow> int" where
  "atoi s = sint (word_of_int (strtol s) :: 32 word)"

text \<open>
  \<open>std::stol\<close> and \<open>std::stoi\<close> read the same text, but throw, \<open>None\<close>, when there is no number or it
  does not fit.
\<close>

definition std_number :: "int \<Rightarrow> string \<Rightarrow> int option" where
  "std_number limit s =
     (let t = dropWhile isspace s;
          (neg, u) = (case t of c # r \<Rightarrow> if c = CHR ''-'' then (True, r)
             else if c = CHR ''+'' then (False, r) else (False, t) | [] \<Rightarrow> (False, []));
          ds = takeWhile isdigit u; v = (if neg then - int (digits_value ds) else int (digits_value ds))
      in if ds = [] \<or> v < - limit \<or> limit \<le> v then None else Some v)"

definition stol :: "string \<Rightarrow> int option" where
  "stol s = std_number (2 ^ 63) s"

definition stoi :: "string \<Rightarrow> int option" where
  "stoi s = std_number (2 ^ 31) s"

text \<open>The C string at the start of a text.\<close>

definition c_str :: "string \<Rightarrow> string" where
  "c_str s = takeWhile (\<lambda>c. c \<noteq> CHR 0x00) s"

text \<open>The address and the port of a connect key \<open>ip:port\<close>, or the error.\<close>

definition ConnectKey2IPPort :: "string \<Rightarrow> RetErrCode + (string \<times> u16)" where
  "ConnectKey2IPPort connectKey =
     (if BUF_SIZE_TINY \<le> length connectKey then Inl ERR_BUF_COPY
      else case str_rfind connectKey '':'' of
        None \<Rightarrow> Inl ERR_PARM_FORMAT
      | Some p \<Rightarrow>
          let ip = take p connectKey in
          if length ip = 0 \<or> 16 < length ip then Inl ERR_PARM_SIZE
          else Inr (ip, word_of_int (atoi (drop (Suc p) connectKey))))"

definition newline :: string where "newline = [CHR 0x0A]"

text \<open>
  A text that is used as a format without arguments: \<open>%%\<close> is a percent sign, any other conversion
  reads an argument that is not there, \<open>None\<close>.
\<close>

fun format_no_args :: "string \<Rightarrow> string option" where
  "format_no_args [] = Some []"
| "format_no_args (c # cs) =
     (if c = CHR ''%'' then
        (case cs of d # ds \<Rightarrow> if d = CHR ''%'' then map_option (Cons (CHR ''%'')) (format_no_args ds) else None
         | [] \<Rightarrow> None)
      else map_option (Cons c) (format_no_args cs))"

lemma format_printable: "CHR ''%'' \<notin> set t \<Longrightarrow> format_no_args t = Some t"
  by (induction t rule: format_no_args.induct) auto

text \<open>The hexadecimal digits of a number, as \<open>%x\<close> prints it.\<close>

definition hex_digit :: "nat \<Rightarrow> char" where
  "hex_digit n = (if n < 10 then char_of (48 + n) else char_of (87 + n))"

fun hex_text :: "nat \<Rightarrow> string" where
  "hex_text n = (if n < 16 then [hex_digit n] else hex_text (n div 16) @ [hex_digit (n mod 16)])"

text \<open>The decimal digits of a number, as \<open>%d\<close> prints it.\<close>

function decimal :: "nat \<Rightarrow> string" where
  "decimal n = (if n < 10 then [char_of (48 + n)] else decimal (n div 10) @ [char_of (48 + n mod 10)])"
  by pat_completeness auto
termination by (relation "measure id") auto

declare decimal.simps [simp del]

lemma digit_char: "d < 10 \<Longrightarrow> isdigit (char_of (48 + d :: nat)) \<and> (of_char (char_of (48 + d :: nat)) :: nat) = 48 + d"
  by (simp add: isdigit_def)

lemma decimal_digits: "list_all isdigit (decimal n) \<and> decimal n \<noteq> [] \<and> digits_value (decimal n) = n"
proof (induction n rule: decimal.induct)
  case (1 n)
  show ?case
  proof (cases "n < 10")
    case True
    then show ?thesis using digit_char [of n] by (simp add: decimal.simps [of n] digits_value_def)
  next
    case False
    then show ?thesis using 1 digit_char [of "n mod 10"]
      by (subst (1 2 3) decimal.simps) (simp add: digits_value_def)
  qed
qed

lemma atoi_decimal:
  assumes "n < 2 ^ 16"
  shows "word_of_int (atoi (decimal n)) = (word_of_nat n :: u16)"
proof -
  obtain c cs where d: "decimal n = c # cs" "isdigit c" using decimal_digits [of n] by (cases "decimal n") auto
  have ns: "\<not> isspace c" "c \<noteq> CHR ''-''" "c \<noteq> CHR ''+''" using d(2) by (auto simp: isdigit_def isspace_def)
  have t: "takeWhile isdigit (decimal n) = decimal n"
    using decimal_digits [of n] by (simp add: list_all_iff takeWhile_eq_all_conv)
  have "strtol (decimal n) = max (- (2 ^ 63)) (min (2 ^ 63 - 1) (int (digits_value (decimal n))))"
    using ns t unfolding d(1) by (simp add: strtol_def)
  also have "digits_value (decimal n) = n" using decimal_digits [of n] by simp
  finally have s: "strtol (decimal n) = int n" using assms by simp
  have "sint (word_of_int (int n) :: 32 word) = int n"
  proof -
    have "sint (word_of_int (int n) :: 32 word) = signed_take_bit (LENGTH(32) - 1) (int n)"
      by (rule sint_sbintrunc')
    moreover have "LENGTH(32) - 1 = 31" by simp
    moreover have "signed_take_bit 31 (int n) = int n"
      by (rule signed_take_bit_int_eq_self) (use assms in simp_all)
    ultimately show ?thesis by (simp only:)
  qed
  then show ?thesis by (simp only: atoi_def s of_int_of_nat_eq)
qed

text \<open>
  A connect key made of an address of at most 16 characters and a port is taken apart into
  exactly these.
\<close>

theorem ConnectKey_roundtrip:
  assumes "0 < length ip" "length ip \<le> 16" "port < 2 ^ 16"
  shows "ConnectKey2IPPort (ip @ '':'' @ decimal port) = Inr (ip, word_of_nat port)"
proof -
  have "length (decimal n) \<le> k" if "n < 10 ^ k" "0 < k" for n k
    using that
  proof (induction n arbitrary: k rule: decimal.induct)
    case (1 n)
    show ?case
    proof (cases "n < 10")
      case False
      then have k: "k \<noteq> 0" "k \<noteq> 1" using 1(2,3) by auto
      then obtain j where j: "k = Suc j" "0 < j" by (cases k) auto
      then have "length (decimal (n div 10)) \<le> j" using 1 False by simp
      then show ?thesis using False j by (simp add: decimal.simps [of n])
    qed (use 1 in \<open>simp add: decimal.simps [of n]\<close>)
  qed
  from this [of port 5] have l: "length (decimal port) \<le> 5" using assms(3) by simp
  have "CHR '':'' \<notin> set (decimal port)"
    using decimal_digits [of port] by (auto simp: list_all_iff isdigit_def)
  moreover have "rfind_at '':'' (ip @ '':'' @ d) i = Some (i + length ip)" if "CHR '':'' \<notin> set d" for d i
  proof -
    have "rfind_at '':'' d j = None" for j using that by (simp add: rfind_at_single_None)
    then show ?thesis by (induction ip arbitrary: i) auto
  qed
  ultimately have "str_rfind (ip @ '':'' @ decimal port) '':'' = Some (length ip)"
    by (simp add: str_rfind_def)
  then show ?thesis using assms l atoi_decimal [OF assms(3)]
    by (simp add: ConnectKey2IPPort_def hdc_consts)
qed

theorem ConnectKey_roundtrip_witness:
  "ConnectKey2IPPort (''127.0.0.1'' @ '':'' @ decimal 8710) = Inr (''127.0.0.1'', 8710)"
  using ConnectKey_roundtrip [of "''127.0.0.1''" 8710] by simp

section \<open>Byte order\<close>

text \<open>\<open>htonl\<close> on a little endian host.\<close>

definition htonl :: "u32 \<Rightarrow> u32" where
  "htonl w = word_of_nat (be_dec (le_enc 4 (unat w)))"

definition HostToNet :: "u64 \<Rightarrow> u64" where
  "HostToNet val = push_bit 32 (ucast (htonl (ucast val))) + ucast (htonl (ucast (drop_bit 32 val)))"

definition NetToHost :: "u64 \<Rightarrow> u64" where
  "NetToHost val = push_bit 32 (ucast (htonl (ucast val))) + ucast (htonl (ucast (drop_bit 32 val)))"

lemma le_enc_le_dec: "le_enc (length bs) (le_dec bs) = bs"
  by (induction bs) simp_all

lemma htonl_htonl: "htonl (htonl w) = w"
proof -
  have b: "le_dec (rev (le_enc 4 (unat w))) < 2 ^ 32"
    using le_dec_bound [of "rev (le_enc 4 (unat w))"] by simp
  have "le_enc 4 (le_dec (rev (le_enc 4 (unat w)))) = rev (le_enc 4 (unat w))"
    using le_enc_le_dec [of "rev (le_enc 4 (unat w))"] by simp
  then show ?thesis using b by (simp add: htonl_def be_dec_def unat_of_nat wire_simps)
qed

text \<open>The two halves of a 64-bit value do not overlap, so adding them is joining them.\<close>

lemma halves_or:
  fixes a b :: u32
  shows "(push_bit 32 (ucast a) + ucast b :: u64) = or (push_bit 32 (ucast a)) (ucast b)"
proof (rule disjunctive_add_eq_or)
  show "and (push_bit 32 (ucast a)) (ucast b) = (0 :: u64)"
    by (rule bit_word_eqI) (auto simp: bit_simps dest: bit_imp_le_length)
qed

lemma halves:
  fixes a b :: u32
  shows "ucast (push_bit 32 (ucast a) + ucast b :: u64) = b"
    and "ucast (drop_bit 32 (push_bit 32 (ucast a) + ucast b :: u64)) = a"
   by (rule bit_word_eqI; auto simp: halves_or bit_simps dest: bit_imp_le_length)+

lemma halves_join:
  fixes v :: u64
  shows "push_bit 32 (ucast (ucast (drop_bit 32 v) :: u32)) + ucast (ucast v :: u32) = v"
  by (rule bit_word_eqI) (auto simp: halves_or bit_simps)

text \<open>Converting to network order and back gives the value.\<close>

theorem HostToNet_involution: "NetToHost (HostToNet val) = val"
  by (simp add: NetToHost_def HostToNet_def halves htonl_htonl halves_join)

end
