(* ===== verification/Hdc_Daemon.thy ===== *)
theory Hdc_Daemon
  imports Hdc_Auth Hdc_Tasks Hdc_Control Hdc_Strings
begin

text \<open>
  The daemon's side of a session, src/src/daemon/daemon.cpp: the handshake with its
  authentication, the guard of \<open>FetchCommand\<close>, and the release of a session.
\<close>

section \<open>State\<close>

record dsession = HdcSession +
  tokenRSA :: string
  d_availTail :: nat

text \<open>
  What the daemon has and does besides: the session map, the messages handed to \<open>Send\<close> (session,
  channel, command, bytes), the sessions reported to the USB or UART module.
\<close>

record daemon_state =
  d_base :: SessionBase
  d_sent :: "(u32 \<times> u32 \<times> u16 \<times> bytes) list"
  d_notified :: "u32 list"

text \<open>
  The instance: secure mode, the modules it runs, the results of \<open>uv_os_gethostname\<close> and of the
  random source, the keys of the device and \<open>RSA_verify\<close> of a token and a signature by a key.
\<close>

record daemon_cfg =
  enableSecure :: bool
  hasUSBServ :: bool
  hasUARTServ :: bool
  hostName :: string
  randomToken :: string
  deviceKeys :: "RSAPublicKey list"
  rsaVerify :: "string \<Rightarrow> string \<Rightarrow> RSAPublicKey \<Rightarrow> bool"

definition AUTH_NONE :: u8 where "AUTH_NONE = 0"
definition AUTH_TOKEN :: u8 where "AUTH_TOKEN = 1"
definition AUTH_SIGNATURE :: u8 where "AUTH_SIGNATURE = 2"
definition AUTH_PUBLICKEY :: u8 where "AUTH_PUBLICKEY = 3"
definition AUTH_OK :: u8 where "AUTH_OK = 4"

lemmas auth_types = AUTH_NONE_def AUTH_TOKEN_def AUTH_SIGNATURE_def AUTH_PUBLICKEY_def AUTH_OK_def

text \<open>The module of secure mode: the property of the device, trimmed, is 1.\<close>

definition secure_item :: "string \<Rightarrow> bool" where
  "secure_item trimmed \<longleftrightarrow> trimmed = ''1''"

definition send_handshake :: "u32 \<Rightarrow> u32 \<Rightarrow> SessionHandShake \<Rightarrow> daemon_state \<Rightarrow> daemon_state" where
  "send_handshake sid ch h st = st\<lparr>d_sent := d_sent st @
     [(sid, ch, cmd CMD_KERNEL_HANDSHAKE, bytes_of (SerializeToString Descriptor_SessionHandShake h))]\<rparr>"

section \<open>Authentication\<close>

text \<open>The results: whether to go on, the session, the handshake as changed, the state.\<close>

definition HandDaemonAuth :: "daemon_cfg \<Rightarrow> dsession \<Rightarrow> u32 \<Rightarrow> SessionHandShake \<Rightarrow> daemon_state
    \<Rightarrow> (bool \<times> dsession \<times> SessionHandShake \<times> daemon_state) outcome" where
  "HandDaemonAuth D s ch h st =
     (if authType h = AUTH_NONE then
        let s' = s\<lparr>tokenRSA := randomToken D\<rparr>;
            h' = h\<lparr>authType := AUTH_TOKEN, buf := tokenRSA s'\<rparr>
        in Done (True, s', h', send_handshake (s_sessionId s) ch h' st)
      else if authType h = AUTH_SIGNATURE then
        (case AuthVerify (rsaVerify D (tokenRSA s) (buf h)) (deviceKeys D) of
           Some (Done True) \<Rightarrow> Done (True, s, h, st)
         | Some (Done False) \<Rightarrow>
             let h' = h\<lparr>authType := AUTH_TOKEN, buf := tokenRSA s\<rparr>
             in Done (False, s, h', send_handshake (s_sessionId s) ch h' st)
         | Some OutOfBounds \<Rightarrow> OutOfBounds
         | Some Diverges \<Rightarrow> Diverges
         | None \<Rightarrow> Diverges)
      else if authType h = AUTH_PUBLICKEY then Done (PostUIConfirm (buf h), s, h, st)
      else Done (False, s, h, st))"

text \<open>The session is a pointer: what the map holds is the session as it is now.\<close>

definition store_session :: "dsession \<Rightarrow> daemon_state \<Rightarrow> daemon_state" where
  "store_session s st = st\<lparr>d_base := (d_base st)\<lparr>mapSession :=
     mp_put (s_sessionId s) (HdcSession.truncate s) (mapSession (d_base st))\<rparr>\<rparr>"

text \<open>
  The first packet names the session: the daemon takes over number and key, files the session
  anew (\<open>OP_UPDATE\<close>) and tells the transport.
\<close>

definition first_packet :: "daemon_cfg \<Rightarrow> dsession \<Rightarrow> SessionHandShake \<Rightarrow> daemon_state
    \<Rightarrow> dsession \<times> SessionHandShake \<times> daemon_state" where
  "first_packet D s h st =
     (let s' = s\<lparr>s_sessionId := hs_sessionId h, s_connectKey := hs_connectKey h\<rparr>;
          st1 = st\<lparr>d_base := (d_base st)\<lparr>mapSession :=
            mp_put (s_sessionId s') (HdcSession.truncate s') (mp_erase (s_sessionId s) (mapSession (d_base st)))\<rparr>\<rparr>;
          st2 = (if connType s' = CONN_SERIAL \<and> hasUARTServ D \<or> hasUSBServ D
                 then st1\<lparr>d_notified := d_notified st1 @ [s_sessionId s']\<rparr> else st1)
      in (s', h\<lparr>hs_sessionId := 0, hs_connectKey := ''''\<rparr>, st2))"

definition finish_handshake :: "daemon_cfg \<Rightarrow> dsession \<Rightarrow> u32 \<Rightarrow> SessionHandShake \<Rightarrow> daemon_state
    \<Rightarrow> dsession \<times> daemon_state" where
  "finish_handshake D s ch h st =
     (let s' = s\<lparr>handshakeOK := True\<rparr> in
      (s', store_session s' (send_handshake (s_sessionId s) ch (h\<lparr>authType := AUTH_OK, buf := hostName D\<rparr>) st)))"

text \<open>\<open>h0\<close> is the local structure before parsing, which nothing initialises.\<close>

definition DaemonSessionHandshake :: "daemon_cfg \<Rightarrow> SessionHandShake \<Rightarrow> dsession \<Rightarrow> u32 \<Rightarrow> bytes \<Rightarrow> daemon_state
    \<Rightarrow> (bool \<times> dsession \<times> daemon_state) outcome" where
  "DaemonSessionHandshake D h0 s ch payload st =
     (case ParseFromString Descriptor_SessionHandShake h0 (chars_of payload) of
        None \<Rightarrow> Diverges
      | Some (_, h) \<Rightarrow>
          if banner h \<noteq> HANDSHAKE_MESSAGE then Done (False, s\<lparr>d_availTail := 0\<rparr>, st)
          else
            (case (if authType h = AUTH_NONE then first_packet D s h st else (s, h, st)) of
               (s1, h1, st1) \<Rightarrow>
                 if \<not> enableSecure D then
                   (case finish_handshake D s1 ch h1 st1 of (s2, st2) \<Rightarrow> Done (True, s2, st2))
                 else (case HandDaemonAuth D s1 ch h1 st1 of
                     Done (go, s2, h2, st2) \<Rightarrow>
                       if \<not> go then Done (False, s2, st2)
                       else (case finish_handshake D s2 ch h2 st2 of (s3, st3) \<Rightarrow> Done (True, s3, st3))
                   | OutOfBounds \<Rightarrow> OutOfBounds
                   | Diverges \<Rightarrow> Diverges)))"

section \<open>Commands\<close>

text \<open>
  \<open>CMD_KERNEL_CHANNEL_CLOSE\<close> reads the first byte of its payload without looking at the size; it
  stops the tasks of the channel and sends the counter back, one less, unless it is zero.
\<close>

definition ChannelClose :: "(TaskInformation \<Rightarrow> TaskInformation) \<Rightarrow> dsession \<Rightarrow> u32 \<Rightarrow> bytes \<Rightarrow> daemon_state
    \<Rightarrow> (bool \<times> dsession \<times> daemon_state) outcome" where
  "ChannelClose stop s ch payload st = (case payload of
     [] \<Rightarrow> OutOfBounds
   | n # _ \<Rightarrow>
       let s' = s\<lparr>mapTask := fst (ClearOwnTasks stop ch (mapTask s))\<rparr>;
           st' = store_session s' st
       in Done (True, s', if n \<noteq> 0
            then st'\<lparr>d_sent := d_sent st' @ [(s_sessionId s, ch, cmd CMD_KERNEL_CHANNEL_CLOSE, [n - 1])]\<rparr>
            else st'))"

definition FetchCommand :: "daemon_cfg \<Rightarrow> 's dispatcher \<Rightarrow> (TaskInformation \<Rightarrow> TaskInformation)
    \<Rightarrow> SessionHandShake \<Rightarrow> dsession \<Rightarrow> u32 \<Rightarrow> u16 \<Rightarrow> bytes \<Rightarrow> daemon_state \<times> 's
    \<Rightarrow> (bool \<times> dsession \<times> daemon_state \<times> 's) outcome" where
  "FetchCommand D T stop h0 s ch c payload stx = (case stx of (st, x) \<Rightarrow>
     if \<not> handshakeOK s \<and> c \<noteq> cmd CMD_KERNEL_HANDSHAKE then Done (False, s, st, x)
     else if c = cmd CMD_KERNEL_HANDSHAKE then
       (case DaemonSessionHandshake D h0 s ch payload st of
          Done (ok, s', st') \<Rightarrow> Done (ok, s', st', x) | OutOfBounds \<Rightarrow> OutOfBounds | Diverges \<Rightarrow> Diverges)
     else if c = cmd CMD_KERNEL_CHANNEL_CLOSE then
       (case ChannelClose stop s ch payload st of
          Done (ok, s', st') \<Rightarrow> Done (ok, s', st', x) | OutOfBounds \<Rightarrow> OutOfBounds | Diverges \<Rightarrow> Diverges)
     else (case DispatchTaskData T False (d_base st) (s_sessionId s) ch c payload (mapTask s) x of
         (ok, m', x') \<Rightarrow>
           let s' = s\<lparr>mapTask := m'\<rparr> in Done (ok, s', store_session s' st, x')))"

text \<open>\<open>JdwpNewFileDescriptor\<close> reads two numbers behind the first byte, in the order of the machine.\<close>

definition JdwpNewFileDescriptor :: "bytes \<Rightarrow> u32 \<times> u32" where
  "JdwpNewFileDescriptor b =
     (word_of_nat (le_dec (take 4 (drop 1 b))), word_of_nat (le_dec (take 4 (drop 5 b))))"

text \<open>The first of the two notifications is ignored, the second reaches the USB module.\<close>

definition NotifyInstanceSessionFree :: "daemon_cfg \<Rightarrow> bool \<Rightarrow> bool" where
  "NotifyInstanceSessionFree D freeOrClear \<longleftrightarrow> freeOrClear \<and> hasUSBServ D"

section \<open>Properties\<close>

definition parsed :: "SessionHandShake \<Rightarrow> bytes \<Rightarrow> SessionHandShake option" where
  "parsed h0 payload = map_option snd (ParseFromString Descriptor_SessionHandShake h0 (chars_of payload))"

lemma finish_accepts: "finish_handshake D s ch h st = (s', st') \<Longrightarrow> handshakeOK s' \<and> s_sessionId s' = s_sessionId s"
  by (auto simp: finish_handshake_def Let_def)

text \<open>Which handshakes the daemon accepts.\<close>

lemma handshake_accepts:
  assumes "parsed h0 payload = Some h"
  shows "(\<exists>s' st'. DaemonSessionHandshake D h0 s ch payload st = Done (True, s', st')) \<longleftrightarrow>
    banner h = HANDSHAKE_MESSAGE \<and>
    (\<not> enableSecure D \<or> authType h = AUTH_NONE \<or> authType h = AUTH_PUBLICKEY
     \<or> authType h = AUTH_SIGNATURE
       \<and> AuthVerify (rsaVerify D (tokenRSA s) (buf h)) (deviceKeys D) = Some (Done True))"
proof -
  obtain r where p: "ParseFromString Descriptor_SessionHandShake h0 (chars_of payload) = Some (r, h)"
    using assms by (auto simp: parsed_def)
  obtain s1 h1 st1 where f: "first_packet D s h st = (s1, h1, st1)" by (metis prod_cases3)
  then have "authType h1 = authType h" by (auto simp: first_packet_def Let_def)
  then show ?thesis
    by (cases "AuthVerify (rsaVerify D (tokenRSA s) (buf h)) (deviceKeys D)")
      (auto simp: DaemonSessionHandshake_def p f HandDaemonAuth_def auth_types PostUIConfirm_def Let_def
        split: prod.splits outcome.splits bool.splits)
qed

text \<open>
  C20. In secure mode the daemon shakes hands with whoever sends the right banner and claims no
  authentication yet, or any public key, or a signature that a key verifies. The first two need
  no secret: after the token is sent the handshake is completed at once, and the session is open
  to commands.
\<close>

theorem secure_handshake_decides:
  assumes "parsed h0 payload = Some h" "enableSecure D"
  shows "(\<exists>s' st'. DaemonSessionHandshake D h0 s ch payload st = Done (True, s', st') \<and> handshakeOK s') \<longleftrightarrow>
    banner h = HANDSHAKE_MESSAGE \<and>
    (authType h = AUTH_NONE \<or> authType h = AUTH_PUBLICKEY
     \<or> authType h = AUTH_SIGNATURE
       \<and> AuthVerify (rsaVerify D (tokenRSA s) (buf h)) (deviceKeys D) = Some (Done True))"
proof -
  have "handshakeOK s'" if "DaemonSessionHandshake D h0 s ch payload st = Done (True, s', st')" for s' st'
    using that finish_accepts
    by (fastforce simp: DaemonSessionHandshake_def split: prod.splits outcome.splits option.splits if_splits)
  then show ?thesis using handshake_accepts [OF assms(1), of D s ch st] assms(2) by blast
qed

definition sample_session :: dsession where
  "sample_session = HdcSession.extend (new_HdcSession False CONN_TCP 77) \<lparr> tokenRSA = '''', d_availTail = 0 \<rparr>"

definition sample_daemon :: daemon_state where
  "sample_daemon = \<lparr> d_base = (new_SessionBase False 16)
       \<lparr>mapSession := [(77, new_HdcSession False CONN_TCP 77)]\<rparr>, d_sent = [], d_notified = [] \<rparr>"

definition secure_cfg :: daemon_cfg where
  "secure_cfg = \<lparr> enableSecure = True, hasUSBServ = False, hasUARTServ = False, hostName = ''board'',
     randomToken = ''0123456789abcdef0123'', deviceKeys = [some_key], rsaVerify = (\<lambda>_ _ _. False) \<rparr>"

definition opening_hs :: SessionHandShake where
  "opening_hs = \<lparr> banner = HANDSHAKE_MESSAGE, authType = 0, hs_sessionId = 9, hs_connectKey = ''192.168.0.7:8710'', buf = '''' \<rparr>"

definition opening_bytes :: bytes where
  "opening_bytes = bytes_of (SerializeToString Descriptor_SessionHandShake opening_hs)"

lemma opening_parsed: "parsed h0 opening_bytes = Some opening_hs"
proof -
  have "handshake_ok opening_hs"
    by (simp add: opening_hs_def handshake_ok_def str_ok_def SECUREC_MEM_MAX_LEN_def HANDSHAKE_MESSAGE_def)
  then have "ParseFromString Descriptor_SessionHandShake h0
      (SerializeToString Descriptor_SessionHandShake opening_hs) = Some (True, opening_hs)"
    by (rule handshake_roundtrip_lib)
  then show ?thesis by (simp add: parsed_def opening_bytes_def del: map_map)
qed

theorem secure_handshake_decides_witness:
  "\<exists>s' st'. DaemonSessionHandshake secure_cfg opening_hs sample_session 0 opening_bytes sample_daemon
     = Done (True, s', st') \<and> handshakeOK s'"
  by (subst secure_handshake_decides [OF opening_parsed])
    (simp_all add: secure_cfg_def opening_hs_def auth_types)

lemma first_handshake_takes_session_lib:
  assumes "parsed h0 payload = Some h" "banner h = HANDSHAKE_MESSAGE" "authType h = AUTH_NONE"
    "\<not> enableSecure D" "mp_wf (mapSession (d_base st))"
  shows "\<exists>s' st'. DaemonSessionHandshake D h0 s ch payload st = Done (True, s', st')
    \<and> handshakeOK s' \<and> s_sessionId s' = hs_sessionId h \<and> s_connectKey s' = hs_connectKey h
    \<and> map_of (mapSession (d_base st')) = (map_of (mapSession (d_base st)))
        (s_sessionId s := None, hs_sessionId h \<mapsto> HdcSession.truncate s')
    \<and> d_sent st' = d_sent st @ [(hs_sessionId h, ch, cmd CMD_KERNEL_HANDSHAKE,
        bytes_of (SerializeToString Descriptor_SessionHandShake
          \<lparr> banner = HANDSHAKE_MESSAGE, authType = AUTH_OK, hs_sessionId = 0, hs_connectKey = '''',
            buf = hostName D \<rparr>))]"
proof -
  obtain r where p: "ParseFromString Descriptor_SessionHandShake h0 (chars_of payload) = Some (r, h)"
    using assms(1) by (auto simp: parsed_def)
  have b: "h\<lparr>hs_sessionId := 0, hs_connectKey := '''', authType := AUTH_OK, buf := hostName D\<rparr>
    = \<lparr> banner = HANDSHAKE_MESSAGE, authType = AUTH_OK, hs_sessionId = 0, hs_connectKey = '''', buf = hostName D \<rparr>"
    using assms(2) by (cases h) simp
  show ?thesis
    using assms(2-)
    by (auto simp: DaemonSessionHandshake_def p first_packet_def finish_handshake_def send_handshake_def
        store_session_def Let_def smap.get_put smap.get_erase mp_wf_put mp_wf_erase fun_eq_iff b)
qed

text \<open>
  Without secure mode the first packet makes the daemon's session the server's: it takes over
  number and key, is filed under the new number only, answers with its host name, and is open to
  commands.
\<close>

theorem first_handshake_takes_session:
  assumes "parsed h0 payload = Some h" "banner h = HANDSHAKE_MESSAGE" "authType h = AUTH_NONE"
    "\<not> enableSecure D" "mp_wf (mapSession (d_base st))"
  shows "\<exists>s' st'. DaemonSessionHandshake D h0 s ch payload st = Done (True, s', st')
    \<and> handshakeOK s' \<and> s_sessionId s' = hs_sessionId h \<and> s_connectKey s' = hs_connectKey h
    \<and> map_of (mapSession (d_base st')) = (map_of (mapSession (d_base st)))
        (s_sessionId s := None, hs_sessionId h \<mapsto> HdcSession.truncate s')
    \<and> d_sent st' = d_sent st @ [(hs_sessionId h, ch, cmd CMD_KERNEL_HANDSHAKE,
        bytes_of (SerializeToString Descriptor_SessionHandShake
          \<lparr> banner = HANDSHAKE_MESSAGE, authType = AUTH_OK, hs_sessionId = 0, hs_connectKey = '''',
            buf = hostName D \<rparr>))]"
  using assms by (rule first_handshake_takes_session_lib)

theorem first_handshake_takes_session_witness:
  "\<exists>s' st'. DaemonSessionHandshake (secure_cfg\<lparr>enableSecure := False\<rparr>) opening_hs sample_session 0 opening_bytes
      sample_daemon = Done (True, s', st') \<and> s_sessionId s' = 9
    \<and> map_of (mapSession (d_base st')) 77 = None \<and> map_of (mapSession (d_base st')) 9 \<noteq> None"
proof -
  have "mp_wf (mapSession (d_base sample_daemon))"
    by (simp add: sample_daemon_def mp_wf_def)
  from first_handshake_takes_session [OF opening_parsed [of opening_hs] _ _ _ this,
      of "secure_cfg\<lparr>enableSecure := False\<rparr>" sample_session 0]
  show ?thesis
    by (auto simp: opening_hs_def auth_types sample_session_def new_HdcSession_def HdcSession.defs)
qed

text \<open>
  The peers close a channel by sending a counter to and fro: with \<open>n\<close> it comes back \<open>n - 1\<close>, so
  the exchange ends.
\<close>

lemma ChannelClose_counts_down:
  "ChannelClose stop s ch (n # ps) st = Done (ok, s', st') \<Longrightarrow>
     d_sent st' = d_sent st @ (if n = 0 then []
       else [(s_sessionId s, ch, cmd CMD_KERNEL_CHANNEL_CLOSE, [n - 1])])"
  by (auto simp: ChannelClose_def store_session_def Let_def)

lemma counter_decreases: "(n :: u8) \<noteq> 0 \<Longrightarrow> unat (n - 1) < unat n"
  by (metis unat_minus_one diff_less unat_eq_0 less_numeral_extra(1) neq0_conv)

text \<open>An empty payload is read all the same.\<close>

lemma ChannelClose_reads_empty: "ChannelClose stop s ch [] st = OutOfBounds"
  by (simp add: ChannelClose_def)

end
