(* ===== verification/Hdc_Registry.thy ===== *)
theory Hdc_Registry
  imports Hdc_Strings Hdc_Map "HOL-Library.List_Lexorder" "HOL-Library.Char_ord"
begin

text \<open>
  The two registries of the server, src/src/host/server.cpp: the devices it knows
  (\<open>AdminDaemonMap\<close>) and the forwarded ports (\<open>AdminForwardMap\<close>). Both map a text to a pointer
  and use \<open>operator[]\<close>, which plants a null pointer for a key it does not find; an operation that
  follows a null pointer is \<open>None\<close>.
\<close>

section \<open>Devices\<close>

record HdcDaemonInformation =
  hdi_connType :: ConnType
  connStatus :: ConnStatus
  hdi_connectKey :: string
  usbMountPoint :: string
  devName :: string
  hdi_hSession :: "u32 option"

type_synonym daemon_map = "(string, HdcDaemonInformation option) std_map"

text \<open>\<open>StringFormat\<close> gives the empty text when the result does not fit its buffer.\<close>

definition formatted :: "string \<Rightarrow> string" where
  "formatted s = (if length s < MAX_SIZE_IOBUF then s else '''')"

definition TAB :: string where "TAB = [CHR 0x09]"
definition NL :: string where "NL = [CHR 0x0A]"

definition conn_text :: "ConnType \<Rightarrow> string" where
  "conn_text ct = (case ct of CONN_TCP \<Rightarrow> ''TCP'' | CONN_USB \<Rightarrow> ''USB'' | CONN_SERIAL \<Rightarrow> ''UART'' | CONN_BT \<Rightarrow> ''BT'')"

definition status_text :: "ConnStatus \<Rightarrow> string" where
  "status_text cs = (case cs of STATUS_READY \<Rightarrow> ''Ready'' | STATUS_CONNECTED \<Rightarrow> ''Connected''
     | STATUS_OFFLINE \<Rightarrow> ''Offline'' | STATUS_UNKNOW \<Rightarrow> ''UNKNOW'')"

definition BuildDaemonVisableLine :: "HdcDaemonInformation \<Rightarrow> bool \<Rightarrow> string" where
  "BuildDaemonVisableLine hdi fullDisplay =
     (if fullDisplay then
        formatted (hdi_connectKey hdi @ TAB @ TAB @ conn_text (hdi_connType hdi) @ TAB
          @ status_text (connStatus hdi) @ TAB @ devName hdi @ NL)
      else if connStatus hdi = STATUS_CONNECTED then formatted (hdi_connectKey hdi @ NL)
      else '''')"

definition GetDaemonMapList :: "bool \<Rightarrow> daemon_map \<Rightarrow> string" where
  "GetDaemonMapList fullDisplay m =
     concat (map (\<lambda>(k, p). case p of None \<Rightarrow> '''' | Some di \<Rightarrow> BuildDaemonVisableLine di fullDisplay) m)"

fun only_key :: "string \<Rightarrow> daemon_map \<Rightarrow> string option" where
  "only_key key [] = Some key"
| "only_key key ((k, p) # m) = (case p of
     None \<Rightarrow> None
   | Some di \<Rightarrow>
       if connStatus di = STATUS_CONNECTED then (if key = '''' then only_key k m else Some '''')
       else only_key key m)"

definition GetDaemonMapOnlyOne :: "HdcDaemonInformation option \<Rightarrow> daemon_map
    \<Rightarrow> (HdcDaemonInformation option \<times> daemon_map) option" where
  "GetDaemonMapOnlyOne out m = Option.bind (only_key '''' m) (\<lambda>key.
     if key = '''' then Some (out, m)
     else (case map_of m key of Some p \<Rightarrow> Some (p, m) | None \<Rightarrow> Some (None, mp_put key None m)))"

fun any_daemon :: "HdcDaemonInformation option \<Rightarrow> daemon_map \<Rightarrow> HdcDaemonInformation option option" where
  "any_daemon out [] = Some out"
| "any_daemon out ((k, p) # m) = (case p of
     None \<Rightarrow> None
   | Some di \<Rightarrow>
       if connStatus di = STATUS_READY \<or> connStatus di = STATUS_CONNECTED then Some (Some di)
       else any_daemon out m)"

datatype daemon_op =
    D_ADD HdcDaemonInformation | D_STRLIST bool | D_QUERY | D_REMOVE | D_GET_ANY | D_GET_ONLY
  | D_UPDATE HdcDaemonInformation

text \<open>
  The in-out argument is a pointer, \<open>out\<close>, set by the operations that look up; the result is the
  text, the pointer and the map.
\<close>

fun AdminDaemonMap :: "daemon_op \<Rightarrow> string \<Rightarrow> HdcDaemonInformation option \<Rightarrow> daemon_map
    \<Rightarrow> (string \<times> HdcDaemonInformation option \<times> daemon_map) option" where
  "AdminDaemonMap (D_ADD di) connectKey out m =
     Some ('''', out, case map_of m (hdi_connectKey di) of
        Some (Some _) \<Rightarrow> m | _ \<Rightarrow> mp_put (hdi_connectKey di) (Some di) m)"
| "AdminDaemonMap (D_STRLIST fullDisplay) connectKey out m = Some (GetDaemonMapList fullDisplay m, out, m)"
| "AdminDaemonMap D_QUERY connectKey out m =
     Some ('''', case map_of m connectKey of Some p \<Rightarrow> p | None \<Rightarrow> out, m)"
| "AdminDaemonMap D_REMOVE connectKey out m = Some ('''', out, mp_erase connectKey m)"
| "AdminDaemonMap D_GET_ANY connectKey out m = map_option (\<lambda>p. ('''', p, m)) (any_daemon out m)"
| "AdminDaemonMap D_GET_ONLY connectKey out m = map_option (\<lambda>(p, m'). ('''', p, m')) (GetDaemonMapOnlyOne out m)"
| "AdminDaemonMap (D_UPDATE di) connectKey out m =
     Some ('''', out, case map_of m (hdi_connectKey di) of
        Some (Some _) \<Rightarrow> mp_put (hdi_connectKey di) (Some di) m
      | Some None \<Rightarrow> m
      | None \<Rightarrow> mp_put (hdi_connectKey di) None m)"

section \<open>The registry of devices\<close>

definition daemons_ok :: "daemon_map \<Rightarrow> bool" where
  "daemons_ok m \<longleftrightarrow> mp_wf m \<and> (\<forall>k p. map_of m k = Some p \<longrightarrow> (\<exists>di. p = Some di \<and> hdi_connectKey di = k))"

lemma daemons_ok_Nil: "daemons_ok []"
  by (simp add: daemons_ok_def mp_wf_Nil)

lemma daemons_ok_entry: "daemons_ok m \<Longrightarrow> (k, p) \<in> set m \<Longrightarrow> \<exists>di. p = Some di \<and> hdi_connectKey di = k"
  by (simp add: daemons_ok_def mp_wf_distinct)

text \<open>What each operation needs of the map: an update must find the device.\<close>

definition op_known :: "daemon_op \<Rightarrow> daemon_map \<Rightarrow> bool" where
  "op_known op m = (case op of D_UPDATE di \<Rightarrow> map_of m (hdi_connectKey di) \<noteq> None | _ \<Rightarrow> True)"

lemma only_key_connected:
  assumes "\<forall>(k, p) \<in> set m. \<exists>di. p = Some di \<and> k \<noteq> ''''"
  shows "only_key key m = Some (case filter (\<lambda>(k, p). connStatus (the p) = STATUS_CONNECTED) m of
     [] \<Rightarrow> key | [(k, p)] \<Rightarrow> if key = '''' then k else '''' | _ \<Rightarrow> '''')"
  using assms
proof (induction key m rule: only_key.induct)
  case (2 key k p m)
  then obtain di where p: "p = Some di" "k \<noteq> ''''" by auto
  then show ?case using 2 by (auto split: list.splits)
qed simp

lemma any_daemon_finds:
  assumes "\<forall>(k, p) \<in> set m. p \<noteq> None"
  shows "any_daemon out m = Some (case find (\<lambda>(k, p). connStatus (the p) \<in> {STATUS_READY, STATUS_CONNECTED}) m of
     None \<Rightarrow> out | Some (k, p) \<Rightarrow> p)"
  using assms by (induction out m rule: any_daemon.induct) auto

lemma only_key_key:
  "\<forall>(k, p) \<in> set m. p \<noteq> None \<Longrightarrow>
     \<exists>k. only_key key m = Some k \<and> (k = key \<or> k = '''' \<or> k \<in> fst ` set m)"
proof (induction m arbitrary: key)
  case (Cons e m)
  then obtain k di where e: "e = (k, Some di)" by (cases e) auto
  have m: "\<forall>(k, p) \<in> set m. p \<noteq> None" using Cons.prems by simp
  show ?case
  proof (cases "connStatus di = STATUS_CONNECTED")
    case True
    then show ?thesis using Cons.IH [OF m, of k] e by (cases "key = ''''") auto
  next
    case False
    then show ?thesis using Cons.IH [OF m, of key] e by auto
  qed
qed simp

text \<open>
  No operation on a well-formed registry follows a null pointer, and the registry stays well
  formed (ordered, every device under its own key, no null) as long as only known devices are
  updated; looking for the only connected device gives it exactly if there is one and only one.
\<close>

theorem AdminDaemonMap_ok:
  assumes "daemons_ok m" "op_known op m"
  shows "\<exists>txt out' m'. AdminDaemonMap op key out m = Some (txt, out', m') \<and> daemons_ok m'
    \<and> (op = D_GET_ONLY \<longrightarrow> map_of m '''' = None \<longrightarrow>
        out' = (case filter (\<lambda>(k, p). connStatus (the p) = STATUS_CONNECTED) m of
           [(k, p)] \<Rightarrow> p | _ \<Rightarrow> out))"
proof -
  have w: "mp_wf m" using assms(1) by (simp add: daemons_ok_def)
  have e: "\<exists>di. p = Some di \<and> hdi_connectKey di = k" if "map_of m k = Some p" for k p
    using assms(1) that by (simp add: daemons_ok_def)
  show ?thesis
  proof (cases op)
    case (D_ADD di)
    then show ?thesis using assms(1) w
      by (auto simp: daemons_ok_def map_of_mp_put mp_wf_put split: option.splits)
  next
    case (D_UPDATE di)
    then show ?thesis using assms w
      by (auto simp: op_known_def daemons_ok_def map_of_mp_put mp_wf_put split: option.splits)
  next
    case D_REMOVE
    then show ?thesis using assms(1) w by (auto simp: daemons_ok_def map_of_mp_erase mp_wf_erase)
  next
    case D_GET_ANY
    have "\<forall>(k, p) \<in> set m. p \<noteq> None" using daemons_ok_entry [OF assms(1)] by fastforce
    then show ?thesis using any_daemon_finds D_GET_ANY assms(1) by auto
  next
    case D_GET_ONLY
    show ?thesis
    proof (cases "map_of m '''' = None")
      case True
      then have ne: "k \<noteq> ''''" if "(k, p) \<in> set m" for k p
        using that by (auto simp: map_of_eq_None_iff image_iff)
      have "\<forall>(k, p) \<in> set m. \<exists>di. p = Some di \<and> k \<noteq> ''''"
      proof clarify
        fix k p assume "(k, p) \<in> set m"
        then show "\<exists>di. p = Some di \<and> k \<noteq> ''''" using daemons_ok_entry [OF assms(1)] ne by blast
      qed
      note ok = only_key_connected [OF this, of "''''"]
      let ?f = "filter (\<lambda>(k, p). connStatus (the p) = STATUS_CONNECTED) m"
      consider "?f = []" | k p where "?f = [(k, p)]" | a b c where "?f = a # b # c"
        by (metis list.exhaust surj_pair)
      then show ?thesis
      proof cases
        case (2 k p)
        then have "(k, p) \<in> set ?f" by simp
        then have "(k, p) \<in> set m" by simp
        moreover from this have "map_of m k = Some p" using w by (simp add: mp_wf_distinct)
        moreover have "k \<noteq> ''''" using calculation True by auto
        ultimately show ?thesis using D_GET_ONLY ok 2 assms(1)
          by (simp add: GetDaemonMapOnlyOne_def)
      qed (use D_GET_ONLY ok assms(1) in \<open>simp_all add: GetDaemonMapOnlyOne_def\<close>)
    next
      case False
      have "\<forall>(k, p) \<in> set m. p \<noteq> None" using daemons_ok_entry [OF assms(1)] by fastforce
      from only_key_key [OF this, of "''''"] obtain k where
        k: "only_key '''' m = Some k" "k = '''' \<or> k \<in> fst ` set m" by blast
      have "k = '''' \<or> (\<exists>p. map_of m k = Some p)"
        using k(2) by (metis map_of_eq_None_iff not_Some_eq)
      then show ?thesis using D_GET_ONLY False assms(1) k(1) by (auto simp: GetDaemonMapOnlyOne_def)
    qed
  qed (use assms(1) in auto)
qed

definition two_devices :: daemon_map where
  "two_devices = [(''a'', Some \<lparr> hdi_connType = CONN_USB, connStatus = STATUS_OFFLINE, hdi_connectKey = ''a'',
       usbMountPoint = '''', devName = '''', hdi_hSession = None \<rparr>),
     (''b'', Some \<lparr> hdi_connType = CONN_TCP, connStatus = STATUS_CONNECTED, hdi_connectKey = ''b'',
       usbMountPoint = '''', devName = ''board'', hdi_hSession = Some 9 \<rparr>)]"

lemma two_devices_ok: "daemons_ok two_devices"
  by (auto simp: daemons_ok_def two_devices_def mp_wf_def)

theorem AdminDaemonMap_ok_witness:
  "\<exists>txt m'. AdminDaemonMap D_GET_ONLY '''' None two_devices = Some (txt, the (map_of two_devices ''b''), m')"
  using AdminDaemonMap_ok [OF two_devices_ok, of D_GET_ONLY "''''" None]
  by (auto simp: op_known_def two_devices_def)

text \<open>
  Updating a device that is not registered plants a null pointer under its key; from then on
  the search for any or for the only connected device crashes when it meets it.
\<close>

theorem update_of_unknown_device_crashes:
  assumes "daemons_ok m" "map_of m (hdi_connectKey di) = None"
    "\<forall>k j. map_of m k = Some (Some j) \<longrightarrow> connStatus j = STATUS_OFFLINE"
  shows "\<exists>m'. AdminDaemonMap (D_UPDATE di) key out m = Some ('''', out, m')
    \<and> AdminDaemonMap D_GET_ANY key' out' m' = None \<and> AdminDaemonMap D_GET_ONLY key' out' m' = None"
proof -
  let ?m = "mp_put (hdi_connectKey di) None m"
  have w: "mp_wf m" using assms(1) by (simp add: daemons_ok_def)
  have "p = None \<or> connStatus (the p) = STATUS_OFFLINE" if "(k, p) \<in> set ?m" for k p
  proof (cases p)
    case (Some j)
    have "map_of ?m k = Some p" using that mp_wf_put [OF w] by (simp add: mp_wf_distinct)
    then show ?thesis using Some assms(3) w by (auto simp: map_of_mp_put split: if_splits)
  qed simp
  then have off: "\<forall>(k, p) \<in> set ?m. p = None \<or> connStatus (the p) = STATUS_OFFLINE" by blast
  have null: "\<exists>k. (k, None) \<in> set ?m"
    using w by (metis fun_upd_same map_of_SomeD map_of_mp_put)
  have any: "any_daemon out' m' = None"
    if "\<forall>(k, p) \<in> set m'. p = None \<or> connStatus (the p) = STATUS_OFFLINE" "\<exists>k. (k, None) \<in> set m'" for m' :: daemon_map
    using that by (induction out' m' rule: any_daemon.induct) (auto split: option.splits)
  have only: "only_key key m' = None"
    if "\<forall>(k, p) \<in> set m'. p = None \<or> connStatus (the p) = STATUS_OFFLINE" "\<exists>k. (k, None) \<in> set m'"
    for key and m' :: daemon_map
    using that by (induction key m' rule: only_key.induct) (auto split: option.splits)
  show ?thesis using assms(2) any [OF off null] only [OF off null] by (simp add: GetDaemonMapOnlyOne_def)
qed

theorem update_of_unknown_device_crashes_witness:
  "\<exists>m'. AdminDaemonMap (D_UPDATE (the (the (map_of two_devices ''a'')))) '''' None [] = Some ('''', None, m')
    \<and> AdminDaemonMap D_GET_ANY '''' None m' = None \<and> AdminDaemonMap D_GET_ONLY '''' None m' = None"
  by (rule update_of_unknown_device_crashes) (simp_all add: daemons_ok_Nil)

section \<open>Forwarded ports\<close>

record HdcForwardInformation =
  taskString :: string
  forwardDirection :: bool
  fi_sessionId :: u32
  fi_channelId :: u32

type_synonym forward_map = "(string, HdcForwardInformation option) std_map"

definition BuildForwardVisableLine :: "bool \<Rightarrow> HdcForwardInformation \<Rightarrow> string" where
  "BuildForwardVisableLine fullOrSimble hfi =
     (if fullOrSimble then
        formatted (CHR 0x27 # taskString hfi @ CHR 0x27 # TAB
          @ (if forwardDirection hfi then ''[Forward]'' else ''[Reverse]'') @ NL)
      else formatted (taskString hfi @ NL))"

datatype forward_op = F_ADD HdcForwardInformation | F_STRLIST bool | F_QUERY | F_REMOVE

fun AdminForwardMap :: "forward_op \<Rightarrow> string \<Rightarrow> HdcForwardInformation option \<Rightarrow> forward_map
    \<Rightarrow> string \<times> HdcForwardInformation option \<times> forward_map" where
  "AdminForwardMap (F_ADD fi) tsk out m =
     ('''', out, case map_of m (taskString fi) of Some (Some _) \<Rightarrow> m | _ \<Rightarrow> mp_put (taskString fi) (Some fi) m)"
| "AdminForwardMap (F_STRLIST full) tsk out m =
     (concat (map (\<lambda>(k, p). case p of None \<Rightarrow> '''' | Some fi \<Rightarrow> BuildForwardVisableLine full fi) m), out, m)"
| "AdminForwardMap F_QUERY tsk out m = ('''', case map_of m tsk of Some p \<Rightarrow> p | None \<Rightarrow> out, m)"
| "AdminForwardMap F_REMOVE tsk out m = ('''', out, mp_erase tsk m)"

text \<open>A null pointer makes the loop stand still: \<open>continue\<close> without advancing. \<open>None\<close> is that.\<close>

fun CleanForwardMap :: "u32 \<Rightarrow> forward_map \<Rightarrow> forward_map option" where
  "CleanForwardMap sessionId [] = Some []"
| "CleanForwardMap sessionId ((k, p) # m) = (case p of
     None \<Rightarrow> None
   | Some di \<Rightarrow>
       if sessionId = 0 \<or> sessionId = fi_sessionId di then CleanForwardMap sessionId m
       else map_option (Cons (k, p)) (CleanForwardMap sessionId m))"

definition forwards_ok :: "forward_map \<Rightarrow> bool" where
  "forwards_ok m \<longleftrightarrow> mp_wf m \<and> (\<forall>k p. map_of m k = Some p \<longrightarrow> (\<exists>fi. p = Some fi \<and> taskString fi = k))"

lemma AdminForwardMap_ok: "forwards_ok m \<Longrightarrow> forwards_ok (snd (snd (AdminForwardMap op tsk out m)))"
  by (cases op) (auto simp: forwards_ok_def map_of_mp_put mp_wf_put map_of_mp_erase mp_wf_erase split: option.splits)

lemma CleanForwardMap_filter:
  "\<forall>(k, p) \<in> set m. p \<noteq> None \<Longrightarrow>
     CleanForwardMap sid m = Some (filter (\<lambda>e. sid \<noteq> 0 \<and> fi_sessionId (the (snd e)) \<noteq> sid) m)"
  by (induction sid m rule: CleanForwardMap.induct) auto

lemma mp_wf_filter: "mp_wf m \<Longrightarrow> mp_wf (filter P m)"
  by (induction m) (auto simp: mp_wf_Cons)

lemma CleanForwardMap_removes_lib:
  assumes "forwards_ok m"
  shows "\<exists>m'. CleanForwardMap sid m = Some m' \<and> forwards_ok m'
    \<and> (\<forall>k. map_of m' k = (case map_of m k of
         Some (Some fi) \<Rightarrow> if sid = 0 \<or> fi_sessionId fi = sid then None else Some (Some fi) | _ \<Rightarrow> None))"
proof -
  have w: "mp_wf m" and e: "\<And>k p. map_of m k = Some p \<Longrightarrow> \<exists>fi. p = Some fi \<and> taskString fi = k"
    using assms by (auto simp: forwards_ok_def)
  let ?P = "\<lambda>e :: string \<times> HdcForwardInformation option. sid \<noteq> 0 \<and> fi_sessionId (the (snd e)) \<noteq> sid"
  have nn: "\<forall>(k, p) \<in> set m. p \<noteq> None"
    using e mp_wf_distinct [OF w] by (auto simp: map_of_eq_Some_iff)
  have w': "mp_wf (filter ?P m)" using w by (rule mp_wf_filter)
  have g: "map_of (filter ?P m) k = Some p \<longleftrightarrow> map_of m k = Some p \<and> ?P (k, p)" for k p
    using map_of_eq_Some_iff [OF mp_wf_distinct [OF w']] map_of_eq_Some_iff [OF mp_wf_distinct [OF w]] by auto
  have "forwards_ok (filter ?P m)" using w' e by (auto simp: forwards_ok_def g)
  moreover have "map_of (filter ?P m) k = (case map_of m k of
      Some (Some fi) \<Rightarrow> if sid = 0 \<or> fi_sessionId fi = sid then None else Some (Some fi) | _ \<Rightarrow> None)" for k
  proof (cases "map_of (filter ?P m) k")
    case None
    show ?thesis
    proof (cases "map_of m k")
      case (Some p)
      then show ?thesis using None g [of k p] e [OF Some] by auto
    qed (use None in simp)
  next
    case (Some p)
    then show ?thesis using g [of k p] e [of k p] by auto
  qed
  ultimately show ?thesis using CleanForwardMap_filter [OF nn] by blast
qed

text \<open>
  When a session ends the loop over the forwards ends too, exactly the forwards of this
  session are gone (all of them for number 0), and the registry stays well formed.
\<close>

theorem CleanForwardMap_removes:
  assumes "forwards_ok m"
  shows "\<exists>m'. CleanForwardMap sid m = Some m' \<and> forwards_ok m'
    \<and> (\<forall>k. map_of m' k = (case map_of m k of
         Some (Some fi) \<Rightarrow> if sid = 0 \<or> fi_sessionId fi = sid then None else Some (Some fi) | _ \<Rightarrow> None))"
  using assms by (rule CleanForwardMap_removes_lib)

definition two_forwards :: forward_map where
  "two_forwards = [(''tcp:1 tcp:2'', Some \<lparr> taskString = ''tcp:1 tcp:2'', forwardDirection = True, fi_sessionId = 9, fi_channelId = 5 \<rparr>),
     (''tcp:3 tcp:4'', Some \<lparr> taskString = ''tcp:3 tcp:4'', forwardDirection = True, fi_sessionId = 8, fi_channelId = 6 \<rparr>)]"

theorem CleanForwardMap_removes_witness:
  "\<exists>m'. CleanForwardMap 9 two_forwards = Some m' \<and> map_of m' ''tcp:1 tcp:2'' = None
    \<and> map_of m' ''tcp:3 tcp:4'' \<noteq> None"
proof -
  have "forwards_ok two_forwards" by (auto simp: forwards_ok_def two_forwards_def mp_wf_def)
  from CleanForwardMap_removes [OF this, of 9] show ?thesis by (auto simp: two_forwards_def)
qed

end
