(* ===== verification/Hdc_Framing.thy ===== *)
theory Hdc_Framing
  imports Hdc_Prelude
begin

text \<open>
  Cutting a byte stream into frames. Several readers of the program keep the bytes received and
  not yet used, and after each read take as many whole frames off the front as there are. The
  contract of the function that takes one frame off is a locale; what a reader delivers is
  proved once in it.
\<close>

section \<open>The loop\<close>

text \<open>\<open>cutf b s\<close> is \<open>None\<close> if no frame is complete, else the bytes taken and the new state.\<close>

type_synonym 's cutter = "bytes \<Rightarrow> 's \<Rightarrow> (nat \<times> 's) option"

function drain :: "'s cutter \<Rightarrow> bytes \<Rightarrow> 's \<Rightarrow> bytes \<times> 's" where
  "drain cutf b s = (case cutf b s of
     None \<Rightarrow> (b, s)
   | Some (n, s') \<Rightarrow> if n = 0 \<or> b = [] then (b, s') else drain cutf (drop n b) s')"
  by pat_completeness auto
termination by (relation "measure (\<lambda>(cutf, b, s). length b)") auto

declare drain.simps [simp del]

definition feed :: "'s cutter \<Rightarrow> bytes \<times> 's \<Rightarrow> bytes \<Rightarrow> bytes \<times> 's" where
  "feed cutf bs c = drain cutf (fst bs @ c) (snd bs)"

section \<open>The contract\<close>

locale framing =
  fixes frame :: "'p \<Rightarrow> bytes"
    and ok :: "'p \<Rightarrow> bool"
    and deliver :: "'p \<Rightarrow> 's \<Rightarrow> 's"
    and cutf :: "bytes \<Rightarrow> 's \<Rightarrow> (nat \<times> 's) option"
  assumes cut_Nil: "cutf [] s = None"
    and cut_frame: "ok p \<Longrightarrow> cutf (frame p @ r) s = Some (length (frame p), deliver p s)"
    and cut_part: "ok p \<Longrightarrow> frame p = b @ r \<Longrightarrow> r \<noteq> [] \<Longrightarrow> cutf b s = None"
begin

lemma frame_nonempty: "ok p \<Longrightarrow> frame p \<noteq> []"
  using cut_Nil cut_frame [of p "[]"] by fastforce

lemma drain_Nil: "drain cutf [] s = ([], s)"
  by (simp add: drain.simps cut_Nil)

lemma drain_frame: "ok p \<Longrightarrow> drain cutf (frame p @ r) s = drain cutf r (deliver p s)"
  by (subst drain.simps) (simp add: cut_frame frame_nonempty)

lemma drain_part: "ok p \<Longrightarrow> frame p = b @ r \<Longrightarrow> r \<noteq> [] \<Longrightarrow> drain cutf b s = (b, s)"
  by (subst drain.simps) (simp add: cut_part)

text \<open>A front part \<open>b\<close> of a stream: the whole frames in it are delivered, the rest is kept.\<close>

lemma drain_stream:
  "\<forall>p \<in> set ps. ok p \<Longrightarrow> b @ r = concat (map frame ps) \<Longrightarrow>
     \<exists>qs rs b'. drain cutf b s = (b', fold deliver qs s) \<and> ps = qs @ rs
       \<and> b' @ r = concat (map frame rs) \<and> (\<forall>p rs'. rs = p # rs' \<longrightarrow> length b' < length (frame p))"
proof (induction ps arbitrary: b s)
  case Nil
  then show ?case by (intro exI [of _ "[]"]) (simp add: drain_Nil)
next
  case (Cons p ps)
  have p: "ok p" using Cons.prems(1) by simp
  show ?case
  proof (cases "length b < length (frame p)")
    case True
    then obtain u where u: "b @ u = frame p" using Cons.prems(2) by (auto simp: append_eq_append_conv2)
    then have "u \<noteq> []" using True by auto
    then have "drain cutf b s = (b, s)" using drain_part [OF p u [symmetric]] by simp
    then show ?thesis using True Cons.prems(2)
      by (intro exI [of _ "[]"] exI [of _ "p # ps"] exI [of _ b]) simp
  next
    case False
    then have "take (length (frame p)) b = take (length (frame p)) (b @ r)" by simp
    also have "\<dots> = frame p" using Cons.prems(2) by simp
    finally obtain b1 where b: "b = frame p @ b1" by (metis append_take_drop_id)
    then have b: "b = frame p @ b1" "b1 @ r = concat (map frame ps)" using Cons.prems(2) by simp_all
    have "drain cutf b s = drain cutf b1 (deliver p s)" using b(1) drain_frame [OF p] by simp
    moreover obtain qs rs b' where "drain cutf b1 (deliver p s) = (b', fold deliver qs (deliver p s))"
      "ps = qs @ rs" "b' @ r = concat (map frame rs)" "\<forall>p rs'. rs = p # rs' \<longrightarrow> length b' < length (frame p)"
      using Cons.IH [OF _ b(2), of "deliver p s"] Cons.prems(1) by auto
    ultimately show ?thesis by (intro exI [of _ "p # qs"] exI [of _ rs] exI [of _ b']) simp
  qed
qed

text \<open>Whatever chunks the stream arrives in.\<close>

lemma feed_stream:
  "\<forall>p \<in> set ps. ok p \<Longrightarrow> b @ concat cs = concat (map frame ps) \<Longrightarrow>
     \<forall>p ps'. ps = p # ps' \<longrightarrow> length b < length (frame p) \<Longrightarrow>
     foldl (feed cutf) (b, s) cs = ([], fold deliver ps s)"
proof (induction cs arbitrary: ps b s)
  case Nil
  then have "ps = []" by (cases ps) auto
  with Nil show ?case by simp
next
  case (Cons c cs)
  have "(b @ c) @ concat cs = concat (map frame ps)" using Cons.prems(2) by simp
  from drain_stream [OF Cons.prems(1) this, of s] obtain qs rs b' where
    d: "drain cutf (b @ c) s = (b', fold deliver qs s)" "ps = qs @ rs"
      "b' @ concat cs = concat (map frame rs)" "\<forall>p rs'. rs = p # rs' \<longrightarrow> length b' < length (frame p)"
    by blast
  have "foldl (feed cutf) (b', fold deliver qs s) cs = ([], fold deliver rs (fold deliver qs s))"
    by (rule Cons.IH) (use d(2-4) Cons.prems(1) in auto)
  moreover have "feed cutf (b, s) c = (b', fold deliver qs s)" using d(1) by (simp add: feed_def)
  ultimately show ?case using d(2) by simp
qed

theorem feed_all:
  "\<forall>p \<in> set ps. ok p \<Longrightarrow> concat cs = concat (map frame ps) \<Longrightarrow>
     foldl (feed cutf) ([], s) cs = ([], fold deliver ps s)"
  using feed_stream [of ps "[]" cs s] frame_nonempty by simp

end

end
