(* ===== verification/Hdc_Channel.thy ===== *)
theory Hdc_Channel
  imports Hdc_Packet Hdc_Framing Hdc_Strings
begin

text \<open>
  The channel between client and server, src/src/common/channel.cpp: the handshake structure,
  the address of the server, frames of a size in network order and data, and the reader that
  hands them to \<open>ReadChannel\<close>.
\<close>

definition DWORD_SERIALIZE_SIZE :: nat where [hdc_consts]: "DWORD_SERIALIZE_SIZE = 4"

section \<open>Handshake and address\<close>

text \<open>
  \<open>ChannelHandShake\<close> is packed: the banner, then a union of the channel number and the connect
  key. \<open>strcpy_s\<close> fails when the text and its terminator do not fit.
\<close>

definition strcpy_s :: "nat \<Rightarrow> string \<Rightarrow> bytes option" where
  "strcpy_s sz s = (if length s < sz then Some (bytes_of s @ replicate (sz - length s) 0) else None)"

definition GetChannelHandshake :: "string \<Rightarrow> bytes" where
  "GetChannelHandshake connectKey =
     (case strcpy_s 12 HANDSHAKE_MESSAGE of None \<Rightarrow> []
      | Some bnr \<Rightarrow> (case strcpy_s MAX_CONNECTKEY_SIZE connectKey of
          None \<Rightarrow> [] | Some key \<Rightarrow> bnr @ key))"

record channel_addr =
  channelHostPort :: string
  channelHost :: string
  channelPort :: u16

text \<open>
  \<open>ip_addr\<close> stands for libuv's parsers of IPv6 and IPv4 addresses: whether either accepts the
  host. The port is the value of \<open>atoi\<close>, cut to 16 bits.
\<close>

definition SetChannelTCPString :: "(string \<Rightarrow> u16 \<Rightarrow> bool) \<Rightarrow> string \<Rightarrow> bool \<times> channel_addr" where
  "SetChannelTCPString ip_addr addrString =
     (let none = (False, \<lparr> channelHostPort = '''', channelHost = '''', channelPort = 0 \<rparr>) in
      case str_rfind addrString '':'' of None \<Rightarrow> none
      | Some found \<Rightarrow>
          let host = substr addrString 0 found;
              port = word_of_int (atoi (drop (found + 1) addrString)) :: u16
          in if port = 0 then none
             else if \<not> ip_addr host port then none
             else (True, \<lparr> channelHostPort = addrString, channelHost = host, channelPort = port \<rparr>))"

section \<open>Frames\<close>

text \<open>The bytes \<open>SendChannel\<close> and \<open>EchoToClient\<close> write.\<close>

definition channel_frame :: "bytes \<Rightarrow> bytes" where
  "channel_frame data = be_enc 4 (length data) @ data"

definition GetMaxBufSize :: nat where
  "GetMaxBufSize = MAX_SIZE_IOBUF"

text \<open>
  The buffer is allocated once, with the size of the first caller: \<open>AllocCallback\<close> asks for
  \<open>GetMaxBufSize * 4\<close>, the callback for the first packet on the server for what libuv suggests.
\<close>

definition ReallocBuf :: "bytes \<Rightarrow> nat \<Rightarrow> bytes" where
  "ReallocBuf origBuf sizeWanted =
     (if origBuf \<noteq> [] then origBuf
      else if sizeWanted = 0 \<or> HDC_BUF_MAX_BYTES \<le> sizeWanted then origBuf
      else replicate sizeWanted 0)"

definition new_channel_io :: "nat \<Rightarrow> io_state" where
  "new_channel_io sizeWanted = \<lparr> ioBuf = ReallocBuf [] sizeWanted, availTailIndex = 0 \<rparr>"

text \<open>\<open>AllocCallback\<close> of the channel offers the whole free tail, whatever is asked for.\<close>

definition ChannelAlloc :: "io_state \<Rightarrow> nat" where
  "ChannelAlloc io = length (ioBuf io) - availTailIndex io"

text \<open>
  The reader is parametrised by \<open>ReadChannel\<close> of the instance and by the flag \<open>keepAlive\<close> of
  the channel, which \<open>ReadChannel\<close> may set.
\<close>

record 's chan_receiver =
  readChannel :: "bytes \<Rightarrow> 's \<Rightarrow> int \<times> 's"
  keepAlive :: "'s \<Rightarrow> bool"

definition frame_size :: "bytes \<Rightarrow> int" where
  "frame_size b = sint (word_of_nat (be_dec (take 4 b)) :: u32)"

function chan_loop :: "'s chan_receiver \<Rightarrow> bytes \<Rightarrow> nat \<Rightarrow> nat \<Rightarrow> 's \<Rightarrow> (nat \<times> nat \<times> bool \<times> 's) outcome" where
  "chan_loop E io avail indexBuf st =
     (if DWORD_SERIALIZE_SIZE < avail then
        if length io < indexBuf + DWORD_SERIALIZE_SIZE then OutOfBounds
        else let sz = frame_size (drop indexBuf io) in
          if sz \<le> 0 \<or> int HDC_BUF_MAX_BYTES < sz then Done (avail, indexBuf, True, st)
          else if int avail - int DWORD_SERIALIZE_SIZE < sz then Done (avail, indexBuf, False, st)
          else if length io < indexBuf + DWORD_SERIALIZE_SIZE + nat sz then OutOfBounds
          else case readChannel E (take (nat sz) (drop (indexBuf + DWORD_SERIALIZE_SIZE) io)) st of
            (childRet, st') \<Rightarrow>
              if childRet < 0 \<and> \<not> keepAlive E st' then Done (avail, indexBuf, True, st')
              else chan_loop E io (avail - (DWORD_SERIALIZE_SIZE + nat sz))
                     (indexBuf + DWORD_SERIALIZE_SIZE + nat sz) st'
      else Done (avail, indexBuf, False, st))"
  by pat_completeness auto
termination
  by (relation "measure (\<lambda>(E, io, avail, indexBuf, st). avail)") (auto simp: DWORD_SERIALIZE_SIZE_def)

declare chan_loop.simps [simp del]

definition UV_ENOBUFS :: int where
  "UV_ENOBUFS = - 105"

text \<open>
  \<open>ReadStream\<close> after libuv has put \<open>nread\<close> bytes behind those kept; the result says whether the
  channel is freed.
\<close>

definition ReadStream :: "'s chan_receiver \<Rightarrow> io_state \<Rightarrow> int \<Rightarrow> 's \<Rightarrow> (bool \<times> io_state \<times> 's) outcome" where
  "ReadStream E io nread st =
     (if nread = UV_ENOBUFS then Done (False, io, st)
      else if nread = 0 then Done (False, io, st)
      else if nread < 0 then Done (True, io, st)
      else case chan_loop E (ioBuf io) (availTailIndex io + nat nread) 0 st of
          Done (avail, idx, needExit, st') \<Rightarrow>
            let io' = io\<lparr>availTailIndex := avail\<rparr> in
            if 0 < idx \<and> 0 < avail then
              if length (ioBuf io) < avail then Done (True, io', st')
              else Done (needExit, io'\<lparr>ioBuf := take avail (drop idx (ioBuf io)) @ drop avail (ioBuf io)\<rparr>, st')
            else Done (needExit, io', st')
        | OutOfBounds \<Rightarrow> OutOfBounds
        | Diverges \<Rightarrow> Diverges)"

text \<open>
  The event loop: in each round the stream has \<open>w\<close> bytes to give, of which those are taken that
  the buffer has room for; without room the read callback gets \<open>UV_ENOBUFS\<close>.
\<close>

fun chan_pump :: "'s chan_receiver \<Rightarrow> nat list \<Rightarrow> bytes \<Rightarrow> io_state \<times> 's
    \<Rightarrow> (bool \<times> bytes \<times> io_state \<times> 's) outcome" where
  "chan_pump E [] bs s = Done (False, bs, s)"
| "chan_pump E (w # ws) bs s =
     (let room = ChannelAlloc (fst s); c = take (min w room) bs in
      case (if room = 0 then ReadStream E (fst s) UV_ENOBUFS (snd s)
            else ReadStream E (put_bytes (fst s) c) (int (length c)) (snd s)) of
        Done (needExit, s') \<Rightarrow>
          if needExit then Done (True, drop (length c) bs, s') else chan_pump E ws (drop (length c) bs) s'
      | OutOfBounds \<Rightarrow> OutOfBounds
      | Diverges \<Rightarrow> Diverges)"

section \<open>The reader as a cutter\<close>

definition chan_cut :: "'s chan_receiver \<Rightarrow> 's cutter" where
  "chan_cut E b s =
     (if DWORD_SERIALIZE_SIZE < length b \<and> 0 < frame_size b
         \<and> frame_size b \<le> int (length b) - int DWORD_SERIALIZE_SIZE
      then Some (DWORD_SERIALIZE_SIZE + nat (frame_size b),
        snd (readChannel E (take (nat (frame_size b)) (drop DWORD_SERIALIZE_SIZE b)) s))
      else None)"

definition chan_deliver :: "'s chan_receiver \<Rightarrow> bytes \<Rightarrow> 's \<Rightarrow> 's" where
  "chan_deliver E data s = snd (readChannel E data s)"

definition chan_fits :: "nat \<Rightarrow> bytes \<Rightarrow> bool" where
  "chan_fits n data \<longleftrightarrow> data \<noteq> [] \<and> DWORD_SERIALIZE_SIZE + length data \<le> n \<and> length data \<le> HDC_BUF_MAX_BYTES"

lemma frame_size_frame:
  assumes "chan_fits n data"
  shows "frame_size (channel_frame data @ r) = int (length data)"
proof -
  have l: "length data < 2 ^ 31" using assms by (simp add: chan_fits_def HDC_BUF_MAX_BYTES_def)
  then have "unat (word_of_nat (length data) :: u32) = length data" by (simp add: unat_of_nat)
  then show ?thesis using l sint_small [of "word_of_nat (length data) :: u32"]
    by (simp add: frame_size_def channel_frame_def be_dec_enc)
qed

lemma channel_frame_length: "length (channel_frame data) = DWORD_SERIALIZE_SIZE + length data"
  by (simp add: channel_frame_def DWORD_SERIALIZE_SIZE_def)

lemma frame_size_take: "4 \<le> length b \<Longrightarrow> frame_size (b @ r) = frame_size b"
  by (simp add: frame_size_def)

interpretation chan: framing channel_frame "chan_fits n" "chan_deliver E" "chan_cut E"
proof unfold_locales
  fix s show "chan_cut E [] s = None" by (simp add: chan_cut_def)
next
  fix p r s assume ok: "chan_fits n p"
  then have "0 < length p" by (simp add: chan_fits_def)
  moreover have "take (length p) (drop DWORD_SERIALIZE_SIZE (channel_frame p @ r)) = p"
    by (simp add: channel_frame_def DWORD_SERIALIZE_SIZE_def)
  ultimately show "chan_cut E (channel_frame p @ r) s = Some (length (channel_frame p), chan_deliver E p s)"
    by (simp add: chan_cut_def frame_size_frame [OF ok] channel_frame_length chan_deliver_def)
next
  fix p b r s assume ok: "chan_fits n p" and b: "channel_frame p = b @ r" and r: "(r :: bytes) \<noteq> []"
  show "chan_cut E b s = None"
  proof (cases "DWORD_SERIALIZE_SIZE < length b")
    case True
    then have "frame_size b = int (length p)"
      using frame_size_frame [OF ok, of "[]"] frame_size_take [of b r] b by (simp add: DWORD_SERIALIZE_SIZE_def)
    moreover have "DWORD_SERIALIZE_SIZE + length p = length b + length r" "0 < length r"
      using channel_frame_length [of p] b r by simp_all
    then have "\<not> int (length p) \<le> int (length b) - int DWORD_SERIALIZE_SIZE" by linarith
    ultimately show ?thesis by (simp add: chan_cut_def)
  qed (simp add: chan_cut_def)
qed

text \<open>A handler that keeps the channel: it reports no error, or the channel is kept alive.\<close>

definition chan_accepting :: "'s chan_receiver \<Rightarrow> bool" where
  "chan_accepting E \<longleftrightarrow> (\<forall>b s. 0 \<le> fst (readChannel E b s) \<or> keepAlive E (snd (readChannel E b s)))"

definition bad_size :: "bytes \<Rightarrow> bool" where
  "bad_size b \<longleftrightarrow> DWORD_SERIALIZE_SIZE < length b \<and> frame_size b \<le> 0"

lemma frame_size_le: "frame_size b \<le> int HDC_BUF_MAX_BYTES"
  using sint_lt [of "word_of_nat (be_dec (take 4 b)) :: u32"] by (simp add: frame_size_def HDC_BUF_MAX_BYTES_def)

lemma frame_size_window:
  assumes "DWORD_SERIALIZE_SIZE < avail" "idx + avail \<le> length io"
  shows "frame_size (take avail (drop idx io)) = frame_size (drop idx io)"
  using assms by (simp add: frame_size_def DWORD_SERIALIZE_SIZE_def)

text \<open>The loop refines the cutter: what is kept is the window of the buffer it ends with.\<close>

lemma chan_loop_drain:
  assumes "chan_accepting E" "idx + avail \<le> length io"
  shows "\<exists>avail' idx'. chan_loop E io avail idx st
      = Done (avail', idx', bad_size (fst (drain (chan_cut E) (take avail (drop idx io)) st)),
          snd (drain (chan_cut E) (take avail (drop idx io)) st))
    \<and> idx' + avail' = idx + avail
    \<and> take avail' (drop idx' io) = fst (drain (chan_cut E) (take avail (drop idx io)) st)"
  using assms(2)
proof (induction avail arbitrary: idx st rule: less_induct)
  case (less avail)
  let ?b = "take avail (drop idx io)"
  have lb: "length ?b = avail" using less.prems by simp
  show ?case
  proof (cases "DWORD_SERIALIZE_SIZE < avail")
    case False
    then have "chan_cut E ?b st = None" "\<not> bad_size ?b" using lb by (simp_all add: chan_cut_def bad_size_def)
    then show ?thesis using False
      by (intro exI [of _ avail] exI [of _ idx])
        (simp add: chan_loop.simps [of E io] drain.simps [of _ ?b])
  next
    case big: True
    define sz where "sz = frame_size (drop idx io)"
    have fb: "frame_size ?b = sz" using frame_size_window [OF big less.prems] by (simp add: sz_def)
    have room: "idx + DWORD_SERIALIZE_SIZE \<le> length io" using big less.prems by simp
    consider (bad) "sz \<le> 0" | (wait) "0 < sz" "int avail - int DWORD_SERIALIZE_SIZE < sz"
      | (go) "0 < sz" "sz \<le> int avail - int DWORD_SERIALIZE_SIZE" by linarith
    then show ?thesis
    proof cases
      case bad
      then have "chan_cut E ?b st = None" "bad_size ?b" using lb fb big by (simp_all add: chan_cut_def bad_size_def)
      then show ?thesis using big bad room
        by (intro exI [of _ avail] exI [of _ idx])
          (simp add: chan_loop.simps [of E io] drain.simps [of _ ?b] flip: sz_def)
    next
      case wait
      then have "chan_cut E ?b st = None" "\<not> bad_size ?b" using lb fb by (simp_all add: chan_cut_def bad_size_def)
      then show ?thesis using big wait room frame_size_le [of "drop idx io"]
        by (intro exI [of _ avail] exI [of _ idx])
          (simp add: chan_loop.simps [of E io] drain.simps [of _ ?b] flip: sz_def)
    next
      case go
      define n where "n = nat sz"
      have n: "sz = int n" "DWORD_SERIALIZE_SIZE + n \<le> avail" "0 < n" using go big by (auto simp: n_def)
      let ?data = "take n (drop (idx + DWORD_SERIALIZE_SIZE) io)"
      obtain cr st' where rc: "readChannel E ?data st = (cr, st')" by force
      have d: "take n (drop DWORD_SERIALIZE_SIZE ?b) = ?data"
        using n(2) by (simp add: drop_take add.commute)
      have c: "chan_cut E ?b st = Some (DWORD_SERIALIZE_SIZE + n, st')"
        using go lb fb big d rc by (simp add: chan_cut_def n(1))
      have acc: "\<not> (cr < 0 \<and> \<not> keepAlive E st')"
        using assms(1) rc by (metis chan_accepting_def fst_conv linorder_not_le snd_conv)
      have w: "drop (DWORD_SERIALIZE_SIZE + n) ?b
          = take (avail - (DWORD_SERIALIZE_SIZE + n)) (drop (idx + DWORD_SERIALIZE_SIZE + n) io)"
        using n(2) by (simp add: drop_take add.commute add.left_commute)
      have dr: "drain (chan_cut E) ?b st = drain (chan_cut E) (drop (DWORD_SERIALIZE_SIZE + n) ?b) st'"
        using c n(3) lb big by (subst drain.simps) auto
      have le: "\<not> length io < idx + DWORD_SERIALIZE_SIZE + n" using n(2) less.prems by simp
      have lp: "chan_loop E io avail idx st = chan_loop E io (avail - (DWORD_SERIALIZE_SIZE + n))
          (idx + DWORD_SERIALIZE_SIZE + n) st'"
        using big room go rc acc le frame_size_le [of "drop idx io"]
        by (subst chan_loop.simps) (auto simp: n(1) Let_def simp flip: sz_def)
      have "avail - (DWORD_SERIALIZE_SIZE + n) < avail" using n by simp
      moreover have "idx + DWORD_SERIALIZE_SIZE + n + (avail - (DWORD_SERIALIZE_SIZE + n)) \<le> length io"
        using n less.prems by simp
      ultimately show ?thesis using less.IH [of "avail - (DWORD_SERIALIZE_SIZE + n)" "idx + DWORD_SERIALIZE_SIZE + n" st'] n(2)
        unfolding lp dr w by auto
    qed
  qed
qed

text \<open>One read keeps the relation between the buffer and the bytes pending.\<close>

lemma ReadStream_feed:
  assumes E: "chan_accepting E" and h: "io_holds io b" and c: "c \<noteq> []"
    and room: "length b + length c \<le> length (ioBuf io)"
    and f: "feed (chan_cut E) (b, st) c = (b', st')" and g: "\<not> bad_size b'"
  shows "\<exists>io'. ReadStream E (put_bytes io c) (int (length c)) st = Done (False, io', st')
    \<and> io_holds io' b' \<and> length (ioBuf io') = length (ioBuf io)"
proof -
  let ?io = "put_bytes io c"
  let ?n = "length b + length c"
  note p = put_bytes_holds [OF h room]
  have w: "take ?n (ioBuf ?io) = b @ c" by (simp add: p(1))
  obtain avail idx where l: "chan_loop E (ioBuf ?io) ?n 0 st = Done (avail, idx, False, st')"
    and s: "idx + avail = ?n" and t: "take avail (drop idx (ioBuf ?io)) = b'"
    using chan_loop_drain [OF E, of 0 ?n "ioBuf ?io" st] room p(2) f g by (auto simp: feed_def w)
  have le: "idx + avail \<le> length (ioBuf ?io)" using s room p(2) by simp
  have tl: "length b' = avail" using t le by auto
  let ?io1 = "?io\<lparr>availTailIndex := avail\<rparr>"
  let ?io' = "if 0 < idx \<and> 0 < avail
     then ?io1\<lparr>ioBuf := take avail (drop idx (ioBuf ?io)) @ drop avail (ioBuf ?io)\<rparr> else ?io1"
  have "\<not> length (ioBuf ?io) < avail" using le by simp
  moreover have "UV_ENOBUFS \<noteq> int (length c)" by (simp add: UV_ENOBUFS_def)
  ultimately have "ReadStream E ?io (int (length c)) st = Done (False, ?io', st')"
    using c l p(3) by (auto simp: ReadStream_def)
  moreover have "io_holds ?io' b'" using le t tl by (auto simp: io_holds_def)
  moreover have "length (ioBuf ?io') = length (ioBuf io)" using le p(2) by auto
  ultimately show ?thesis by blast
qed

lemma stream_not_bad:
  assumes "\<forall>p \<in> set ps. chan_fits n p" "b @ r = concat (map channel_frame ps)"
  shows "\<not> bad_size b"
proof (cases ps)
  case Nil
  then show ?thesis using assms(2) by (simp add: bad_size_def)
next
  case (Cons p ps')
  show ?thesis
  proof
    assume b: "bad_size b"
    then have "frame_size b = frame_size (b @ r)" by (simp add: bad_size_def frame_size_take DWORD_SERIALIZE_SIZE_def)
    also have "\<dots> = int (length p)"
      using frame_size_frame [of n p] Cons assms by simp
    finally show False using b Cons assms(1) by (auto simp: bad_size_def chan_fits_def)
  qed
qed

lemma frame_fits_room:
  assumes "chan_fits n p" "length b < length (channel_frame p)"
  shows "length b < n"
  using assms channel_frame_length [of p] by (simp add: chan_fits_def)

lemma chan_pump_stream:
  assumes E: "chan_accepting E"
  shows "\<forall>p \<in> set ps. chan_fits n p \<Longrightarrow> io_holds io b \<Longrightarrow> length (ioBuf io) = n \<Longrightarrow>
    b @ bs = concat (map channel_frame ps) \<Longrightarrow>
    \<forall>p ps'. ps = p # ps' \<longrightarrow> length b < length (channel_frame p) \<Longrightarrow>
    \<forall>w \<in> set ws. 0 < w \<Longrightarrow> length bs \<le> length ws \<Longrightarrow>
    \<exists>io'. chan_pump E ws bs (io, st) = Done (False, [], io', fold (chan_deliver E) ps st)
      \<and> availTailIndex io' = 0"
proof (induction ws arbitrary: ps b bs io st)
  case Nil
  then have "bs = []" by simp
  moreover have "ps = []" using Nil.prems(4,5) \<open>bs = []\<close> by (cases ps) auto
  ultimately show ?case using Nil.prems by (simp add: io_holds_def)
next
  case (Cons w ws)
  have w: "0 < w" using Cons.prems(6) by simp
  show ?case
  proof (cases "bs = []")
    case True
    then have "ps = []" using Cons.prems(4,5) by (cases ps) auto
    then have "b = []" using Cons.prems(4) True by simp
    have "put_bytes io [] = io" by (simp add: put_bytes_def)
    then have "chan_pump E (w # ws) bs (io, st) = chan_pump E ws [] (io, st)"
      using True by (simp add: ReadStream_def UV_ENOBUFS_def)
    then show ?thesis
      using Cons.IH [of "[]" io "[]" "[]" st] Cons.prems(2,3,6) \<open>ps = []\<close> \<open>b = []\<close> by simp
  next
    case False
    then obtain p ps' where ps: "ps = p # ps'" using Cons.prems(4) by (cases ps) auto
    have "length b < n"
      using frame_fits_room [of n p b] ps Cons.prems(1,5) by simp
    then have room: "0 < ChannelAlloc io" "ChannelAlloc io = length (ioBuf io) - length b"
      using Cons.prems(2,3) by (simp_all add: ChannelAlloc_def io_holds_def)
    let ?c = "take (min w (ChannelAlloc io)) bs"
    have c: "?c \<noteq> []" using False w room(1) by simp
    have "length ?c \<le> ChannelAlloc io" by simp
    then have fit: "length b + length ?c \<le> length (ioBuf io)" using room by linarith
    have s: "(b @ ?c) @ drop (length ?c) bs = concat (map channel_frame ps)"
      using Cons.prems(4) by (simp add: min_def)
    from chan.drain_stream [OF Cons.prems(1) s, of E st] obtain qs rs b' where
      d: "drain (chan_cut E) (b @ ?c) st = (b', fold (chan_deliver E) qs st)" "ps = qs @ rs"
        "b' @ drop (length ?c) bs = concat (map channel_frame rs)"
        "\<forall>p rs'. rs = p # rs' \<longrightarrow> length b' < length (channel_frame p)" by blast
    have rs: "\<forall>p \<in> set rs. chan_fits n p" using d(2) Cons.prems(1) by simp
    have "feed (chan_cut E) (b, st) ?c = (b', fold (chan_deliver E) qs st)"
      using d(1) by (simp add: feed_def)
    from ReadStream_feed [OF E Cons.prems(2) c fit this stream_not_bad [OF rs d(3)]] obtain io' where
      io': "ReadStream E (put_bytes io ?c) (int (length ?c)) st = Done (False, io', fold (chan_deliver E) qs st)"
        "io_holds io' b'" "length (ioBuf io') = length (ioBuf io)" by blast
    have "length (drop (length ?c) bs) \<le> length ws"
      using Cons.prems(7) c by (cases bs) (auto simp: min_def split: if_splits)
    from Cons.IH [OF rs io'(2) io'(3) [unfolded Cons.prems(3)] d(3,4) _ this] Cons.prems(6)
    obtain io'' where "chan_pump E ws (drop (length ?c) bs) (io', fold (chan_deliver E) qs st)
        = Done (False, [], io'', fold (chan_deliver E) rs (fold (chan_deliver E) qs st))"
      "availTailIndex io'' = 0" by auto
    then show ?thesis using room(1) io'(1) d(2) by (simp add: Let_def)
  qed
qed

text \<open>
  C21. Between client and server no frame is lost, split, merged or reordered: whatever chunks
  the socket delivers, each frame that fits the buffer reaches \<open>ReadChannel\<close> once, in order,
  no read leaves the buffer, and nothing is left over.
\<close>

theorem ReadStream_delivers:
  assumes "chan_accepting E" "n < HDC_BUF_MAX_BYTES" "\<forall>p \<in> set ps. chan_fits n p" "\<forall>w \<in> set ws. 0 < w"
    and "length (concat (map channel_frame ps)) \<le> length ws"
  shows "\<exists>io'. chan_pump E ws (concat (map channel_frame ps)) (new_channel_io n, st)
      = Done (False, [], io', fold (chan_deliver E) ps st) \<and> availTailIndex io' = 0"
  by (rule chan_pump_stream [where b = "[]"])
    (use assms in \<open>auto simp: new_channel_io_def ReallocBuf_def io_holds_def channel_frame_def\<close>)

definition log_channel :: "bytes list chan_receiver" where
  "log_channel = \<lparr> readChannel = (\<lambda>b s. (0, s @ [b])), keepAlive = (\<lambda>_. False) \<rparr>"

theorem ReadStream_delivers_witness:
  "\<exists>io'. chan_pump log_channel (replicate 13 5) (concat (map channel_frame [[1, 2, 3], [9, 8]]))
      (new_channel_io (GetMaxBufSize * 4), []) = Done (False, [], io', [[1, 2, 3], [9, 8]]) \<and> availTailIndex io' = 0"
proof -
  have "chan_accepting log_channel" by (simp add: chan_accepting_def log_channel_def)
  moreover have "\<forall>p \<in> set [[1, 2, 3], [9, 8]]. chan_fits (GetMaxBufSize * 4) p"
    by (simp add: chan_fits_def HDC_BUF_MAX_BYTES_def DWORD_SERIALIZE_SIZE_def GetMaxBufSize_def MAX_SIZE_IOBUF_def)
  moreover have "fold (chan_deliver log_channel) [[1, 2, 3], [9, 8]] [] = [[1, 2, 3], [9, 8]]"
    by (simp add: chan_deliver_def log_channel_def)
  ultimately show ?thesis
    using ReadStream_delivers [of log_channel "GetMaxBufSize * 4" "[[1, 2, 3], [9, 8]]" "replicate 13 5" "[]"]
    by (simp add: channel_frame_def GetMaxBufSize_def MAX_SIZE_IOBUF_def HDC_BUF_MAX_BYTES_def)
qed

section \<open>Frames larger than the buffer\<close>

lemma oversized_frame_size:
  assumes "length data < 2 ^ 31" "channel_frame data @ rest = b @ r" "4 \<le> length b"
  shows "frame_size b = int (length data)"
proof -
  have "unat (word_of_nat (length data) :: u32) = length data" using assms(1) by (simp add: unat_of_nat)
  then have "frame_size (channel_frame data @ rest) = int (length data)"
    using assms(1) sint_small [of "word_of_nat (length data) :: u32"]
    by (simp add: frame_size_def channel_frame_def be_dec_enc)
  then show ?thesis using frame_size_take [OF assms(3), of r] assms(2) by simp
qed

lemma oversized_read:
  assumes big: "n < DWORD_SERIALIZE_SIZE + length data" "length data < 2 ^ 31" "DWORD_SERIALIZE_SIZE \<le> n"
    and h: "io_holds io b" "length (ioBuf io) = n"
    and s: "channel_frame data @ rest = b @ c @ r" and fit: "length b + length c \<le> length (ioBuf io)"
  shows "\<exists>io'. ReadStream E (put_bytes io c) (int (length c)) st = Done (False, io', st)
    \<and> io_holds io' (b @ c) \<and> length (ioBuf io') = length (ioBuf io)"
proof (cases "c = []")
  case True
  then show ?thesis using h by (simp add: ReadStream_def UV_ENOBUFS_def put_bytes_def)
next
  case False
  note p = put_bytes_holds [OF h(1) fit]
  let ?n = "length b + length c"
  have "chan_loop E (ioBuf (put_bytes io c)) ?n 0 st = Done (?n, 0, False, st)"
  proof (cases "DWORD_SERIALIZE_SIZE < ?n")
    case True
    have "frame_size ((b @ c) @ drop ?n (ioBuf io)) = int (length data)"
      using oversized_frame_size [OF big(2), of rest "b @ c" r] s True
        frame_size_take [of "b @ c" "drop ?n (ioBuf io)"] by (simp add: DWORD_SERIALIZE_SIZE_def)
    moreover have "int ?n - int DWORD_SERIALIZE_SIZE < int (length data)" using big(1) fit h(2) by linarith
    moreover have "data \<noteq> []" using big(1,3) by auto
    moreover have "length data \<le> HDC_BUF_MAX_BYTES" using big(2) by (simp add: HDC_BUF_MAX_BYTES_def)
    ultimately show ?thesis
      using True p fit by (subst chan_loop.simps) (simp add: Let_def)
  qed (simp add: chan_loop.simps)
  moreover have "UV_ENOBUFS \<noteq> int (length c)" by (simp add: UV_ENOBUFS_def)
  ultimately have "ReadStream E (put_bytes io c) (int (length c)) st
      = Done (False, (put_bytes io c)\<lparr>availTailIndex := ?n\<rparr>, st)"
    using False p(3) by (simp add: ReadStream_def)
  moreover have "io_holds ((put_bytes io c)\<lparr>availTailIndex := ?n\<rparr>) (b @ c)"
    using p fit by (simp add: io_holds_def)
  ultimately show ?thesis using p(2) by auto
qed

lemma oversized_pump:
  assumes big: "n < DWORD_SERIALIZE_SIZE + length data" "length data < 2 ^ 31" "DWORD_SERIALIZE_SIZE \<le> n"
  shows "io_holds io b \<Longrightarrow> length (ioBuf io) = n \<Longrightarrow>
    channel_frame data @ rest = b @ bs \<Longrightarrow>
    \<exists>bs' io'. chan_pump E ws bs (io, st) = Done (False, bs', io', st)"
proof (induction ws arbitrary: b bs io)
  case (Cons w ws)
  let ?c = "take (min w (ChannelAlloc io)) bs"
  show ?case
  proof (cases "ChannelAlloc io = 0")
    case True
    then show ?thesis using Cons by (simp add: ReadStream_def)
  next
    case False
    have s: "channel_frame data @ rest = b @ ?c @ drop (length ?c) bs"
      using Cons.prems(3) by (simp add: min_def)
    have "length ?c \<le> ChannelAlloc io" by simp
    then have "length b + length ?c \<le> length (ioBuf io)"
      using Cons.prems(1) False by (simp add: ChannelAlloc_def io_holds_def)
    from oversized_read [OF big Cons.prems(1,2) s this, of E st] obtain io' where
      io': "ReadStream E (put_bytes io ?c) (int (length ?c)) st = Done (False, io', st)"
        "io_holds io' (b @ ?c)" "length (ioBuf io') = length (ioBuf io)" by blast
    have "channel_frame data @ rest = (b @ ?c) @ drop (length ?c) bs" using s by simp
    from Cons.IH [OF io'(2) _ this] io'(1,3) Cons.prems(2) False show ?thesis by (simp add: Let_def)
  qed
qed simp

text \<open>
  A frame that is larger than the buffer of the channel is neither delivered nor refused:
  the size is only compared with \<open>INT_MAX\<close>, the buffer fills up, and the reader then gets
  \<open>UV_ENOBUFS\<close> for ever. Nothing sent after it is read.
\<close>

theorem oversized_frame_stalls:
  assumes "DWORD_SERIALIZE_SIZE \<le> n" "n < HDC_BUF_MAX_BYTES" "n < DWORD_SERIALIZE_SIZE + length data"
    "length data < 2 ^ 31"
  shows "\<exists>bs' io'. chan_pump E ws (channel_frame data @ rest) (new_channel_io n, st)
    = Done (False, bs', io', st)"
  by (rule oversized_pump [OF assms(3,4,1), of _ "[]"])
    (use assms(1,2) in \<open>simp_all add: new_channel_io_def ReallocBuf_def io_holds_def\<close>)

theorem oversized_frame_stalls_witness:
  "\<exists>bs' io'. chan_pump log_channel (replicate 100000 5) (channel_frame (replicate 70000 1) @ channel_frame [7])
     (new_channel_io (GetMaxBufSize * 4), []) = Done (False, bs', io', [])"
  by (rule oversized_frame_stalls)
    (simp_all add: GetMaxBufSize_def MAX_SIZE_IOBUF_def DWORD_SERIALIZE_SIZE_def HDC_BUF_MAX_BYTES_def)

section \<open>The handshake structure\<close>

lemma GetChannelHandshake_layout:
  "length connectKey < 32 \<Longrightarrow> length (GetChannelHandshake connectKey) = 44
     \<and> chars_of (take 8 (GetChannelHandshake connectKey)) = HANDSHAKE_MESSAGE
     \<and> chars_of (take (length connectKey) (drop 12 (GetChannelHandshake connectKey))) = connectKey"
  by (simp add: GetChannelHandshake_def strcpy_s_def HANDSHAKE_MESSAGE_def MAX_CONNECTKEY_SIZE_def)

lemma GetChannelHandshake_refused: "32 \<le> length connectKey \<Longrightarrow> GetChannelHandshake connectKey = []"
  by (simp add: GetChannelHandshake_def strcpy_s_def HANDSHAKE_MESSAGE_def MAX_CONNECTKEY_SIZE_def)

lemma SetChannelTCPString_ok:
  "str_rfind addrString '':'' = Some found \<Longrightarrow>
   (port :: u16) = word_of_int (atoi (drop (Suc found) addrString)) \<Longrightarrow> port \<noteq> 0 \<Longrightarrow>
   ip_addr (take found addrString) port \<Longrightarrow>
   SetChannelTCPString ip_addr addrString
     = (True, \<lparr> channelHostPort = addrString, channelHost = take found addrString, channelPort = port \<rparr>)"
  by (simp add: SetChannelTCPString_def substr_def)

end
