(* ===== verification/Hdc_Server.thy ===== *)
theory Hdc_Server
  imports Hdc_Daemon Hdc_Registry Hdc_Channel
begin

text \<open>
  The server's side of a session, src/src/host/server.cpp: the handshake, the commands that come
  from the daemon for the channels of the clients, the connection of a device, and what happens
  to the registries when a session ends. The registry of channels (\<open>AdminChannel\<close>) is in
  src/src/common/channel.cpp, \<open>EchoClient\<close> in src/src/host/server_for_client.cpp.
\<close>

section \<open>Channels\<close>

record HdcChannel =
  c_channelId :: u32
  c_isDead :: bool
  c_ref :: nat
  c_connectKey :: string
  targetSessionId :: u32
  childOpen :: bool
  c_childCleared :: bool

datatype channel_op = C_ADD HdcChannel | C_REMOVE | C_QUERY | C_QUERY_REF | C_UPDATE HdcChannel

fun AdminChannel :: "channel_op \<Rightarrow> u32 \<Rightarrow> (u32, HdcChannel) std_map \<Rightarrow> HdcChannel option \<times> (u32, HdcChannel) std_map" where
  "AdminChannel (C_ADD h) ch m = (None, mp_put ch h m)"
| "AdminChannel C_REMOVE ch m = (None, mp_erase ch m)"
| "AdminChannel C_QUERY ch m = (map_of m ch, m)"
| "AdminChannel C_QUERY_REF ch m = (case map_of m ch of
     None \<Rightarrow> (None, m)
   | Some h \<Rightarrow> let h' = h\<lparr>c_ref := Suc (c_ref h)\<rparr> in (Some h', mp_put ch h' m))"
| "AdminChannel (C_UPDATE h) ch m = (None, mp_put (c_channelId h) h (mp_erase ch m))"

section \<open>State\<close>

record 'k ssession = HdcSession +
  s_listKey :: "'k list"
  s_authKeyIndex :: u8

text \<open>
  Messages to the daemon (session, channel, command, bytes), data for the clients (channel,
  bytes), channels to be freed by the main thread, USB devices to be looked at again; then the stream
  of every channel in the thread of the session, the channels of the writes that are outstanding, and
  those of the writes that libuv refused.
\<close>

datatype client_stream = Stream_Open | Stream_Closed | Stream_Fails

record server_state =
  sv_base :: SessionBase
  sv_channels :: "(u32, HdcChannel) std_map"
  sv_daemons :: daemon_map
  sv_forwards :: forward_map
  sv_sent :: "(u32 \<times> u32 \<times> u16 \<times> bytes) list"
  sv_client :: "(u32 \<times> bytes) list"
  sv_freeReq :: "u32 list"
  sv_usbNotify :: "string list"
  sv_stream :: "u32 \<Rightarrow> client_stream"
  sv_pending :: "u32 list"
  sv_refused :: "u32 list"

text \<open>
  The user's private keys, \<open>RSA_sign\<close> (the empty text for a failure) and the file of the public
  key (empty if it cannot be read).
\<close>

record 'k server_cfg =
  hostKeys :: "'k list"
  authSign :: "'k \<Rightarrow> string \<Rightarrow> string"
  publicKeyFile :: string

definition sv_send :: "u32 \<Rightarrow> u32 \<Rightarrow> u16 \<Rightarrow> bytes \<Rightarrow> server_state \<Rightarrow> server_state" where
  "sv_send sid ch c bs st = st\<lparr>sv_sent := sv_sent st @ [(sid, ch, c, bs)]\<rparr>"

definition handshake_bytes :: "SessionHandShake \<Rightarrow> bytes" where
  "handshake_bytes h = bytes_of (SerializeToString Descriptor_SessionHandShake h)"

section \<open>Handshake\<close>

definition auth_publickey :: "'k server_cfg \<Rightarrow> 'k ssession \<Rightarrow> SessionHandShake \<Rightarrow> server_state
    \<Rightarrow> bool \<times> server_state" where
  "auth_publickey C s h st =
     (if publicKeyFile C = '''' then (False, st)
      else (True, sv_send (s_sessionId s) 0 (cmd CMD_KERNEL_HANDSHAKE)
        (handshake_bytes (h\<lparr>authType := AUTH_PUBLICKEY, buf := publicKeyFile C\<rparr>)) st))"

definition HandServerAuth :: "'k server_cfg \<Rightarrow> 'k ssession \<Rightarrow> SessionHandShake \<Rightarrow> server_state
    \<Rightarrow> (bool \<times> 'k ssession \<times> server_state) outcome" where
  "HandServerAuth C s h st =
     (if authType h = AUTH_TOKEN then
        (case KeylistIncrement (hostKeys C) (s_listKey s) (s_authKeyIndex s) of
           Done (got, l, i, k) \<Rightarrow>
             let s' = s\<lparr>s_listKey := l, s_authKeyIndex := i\<rparr> in
             if \<not> got then (case auth_publickey C s' h st of (ok, st') \<Rightarrow> Done (ok, s', st'))
             else let sign = authSign C (the k) (buf h) in
               if sign = '''' then Done (False, s', st)
               else Done (True, s', sv_send (s_sessionId s) 0 (cmd CMD_KERNEL_HANDSHAKE)
                 (handshake_bytes (h\<lparr>authType := AUTH_SIGNATURE, buf := sign\<rparr>)) st)
         | OutOfBounds \<Rightarrow> OutOfBounds
         | Diverges \<Rightarrow> Diverges)
      else if authType h = AUTH_PUBLICKEY then
        (case auth_publickey C s h st of (ok, st') \<Rightarrow> Done (ok, s, st'))
      else Done (False, s, st))"

text \<open>A name is shown if it is not empty and no longer than a \<open>std::string\<close> object, whose 32 bytes are
  those of the usual 64-bit library.\<close>

definition shown_name :: "string \<Rightarrow> string" where
  "shown_name b = (if 32 < length b \<or> b = '''' then ''unknow...'' else b)"

definition ServerSessionHandshake :: "'k server_cfg \<Rightarrow> SessionHandShake \<Rightarrow> 'k ssession \<Rightarrow> bytes \<Rightarrow> server_state
    \<Rightarrow> (bool \<times> 'k ssession \<times> server_state) outcome" where
  "ServerSessionHandshake C h0 s payload st =
     (case ParseFromString Descriptor_SessionHandShake h0 (chars_of payload) of
        None \<Rightarrow> Diverges
      | Some (_, h) \<Rightarrow>
          if banner h \<noteq> HANDSHAKE_MESSAGE then Done (False, s, st)
          else if authType h \<noteq> AUTH_OK then HandServerAuth C s h st
          else (case map_of (sv_daemons st) (s_connectKey s) of
              Some (Some hdiOld) \<Rightarrow>
                let diNew = hdiOld\<lparr>connStatus := STATUS_CONNECTED, devName := shown_name (buf h)\<rparr> in
                (case AdminDaemonMap (D_UPDATE diNew) (s_connectKey s) None (sv_daemons st) of
                   None \<Rightarrow> OutOfBounds
                 | Some (_, _, m) \<Rightarrow> Done (True, s\<lparr>handshakeOK := True\<rparr>, st\<lparr>sv_daemons := m\<rparr>))
            | _ \<Rightarrow> Done (False, s, st)))"

section \<open>Commands from the daemon\<close>

text \<open>
  \<open>EchoClient\<close> takes its text as the format: \<open>%%\<close> is a percent sign, any other conversion reads an
  argument that is not there, \<open>None\<close>. The last character of an empty text is read, too.
\<close>

definition level_text :: "u8 \<Rightarrow> string" where
  "level_text l = (if l = msg_level MSG_FAIL then ''[Fail]'' else if l = msg_level MSG_INFO then ''[Info]'' else '''')"

definition echo_text :: "u8 \<Rightarrow> string \<Rightarrow> string option" where
  "echo_text l msg = (case format_no_args msg of
     None \<Rightarrow> None
   | Some f \<Rightarrow>
       let lg = level_text l @ formatted f in
       if lg = '''' then None
       else Some (if last lg \<noteq> CHR 0x0A then lg @ [CHR 0x0D, CHR 0x0A] else lg))"

text \<open>
  \<open>EchoClientRaw\<close> is \<open>SendChannel\<close> of src/src/common/channel.cpp: nothing is sent to a stream that closes;
  otherwise the write takes a reference, which \<open>WriteCallback\<close> gives back. When \<open>SendToStreamEx\<close> fails
  there is no callback, and nothing gives the reference back.
\<close>

definition add_ref :: "u32 \<Rightarrow> server_state \<Rightarrow> server_state" where
  "add_ref ch st = st\<lparr>sv_channels := map (\<lambda>(k, d). (k, if k = ch then d\<lparr>c_ref := Suc (c_ref d)\<rparr> else d)) (sv_channels st)\<rparr>"

definition EchoClientRaw :: "u32 \<Rightarrow> bytes \<Rightarrow> server_state \<Rightarrow> server_state" where
  "EchoClientRaw ch bs st = (case sv_stream st ch of
     Stream_Closed \<Rightarrow> st
   | Stream_Open \<Rightarrow> (add_ref ch st)\<lparr>sv_client := sv_client st @ [(ch, bs)], sv_pending := ch # sv_pending st\<rparr>
   | Stream_Fails \<Rightarrow> (add_ref ch st)\<lparr>sv_refused := ch # sv_refused st\<rparr>)"

definition set_tasks :: "u32 \<Rightarrow> task_map \<Rightarrow> server_state \<Rightarrow> server_state" where
  "set_tasks sid m st = st\<lparr>sv_base := (sv_base st)\<lparr>mapSession :=
     map (\<lambda>(k, s). (k, if k = sid then s\<lparr>mapTask := m\<rparr> else s)) (mapSession (sv_base st))\<rparr>\<rparr>"

definition session_tasks :: "u32 \<Rightarrow> server_state \<Rightarrow> task_map" where
  "session_tasks sid st = (case map_of (mapSession (sv_base st)) sid of None \<Rightarrow> [] | Some s \<Rightarrow> mapTask s)"

text \<open>The commands for a channel that is alive; \<open>x\<close> is the state of the tasks.\<close>

definition channel_command :: "'s dispatcher \<Rightarrow> (TaskInformation \<Rightarrow> TaskInformation) \<Rightarrow> u32 \<Rightarrow> HdcChannel
    \<Rightarrow> u32 \<Rightarrow> u16 \<Rightarrow> bytes \<Rightarrow> server_state \<times> 's \<Rightarrow> (bool \<times> server_state \<times> 's) outcome" where
  "channel_command T stop sid h ch c payload stx = (case stx of (st, x) \<Rightarrow>
     if c = cmd CMD_KERNEL_ECHO_RAW then Done (True, EchoClientRaw ch payload st, x)
     else if c = cmd CMD_KERNEL_ECHO then
       (case payload of
          [] \<Rightarrow> OutOfBounds
        | l # rest \<Rightarrow> (case echo_text l (c_str (chars_of rest)) of
            None \<Rightarrow> OutOfBounds | Some txt \<Rightarrow> Done (True, EchoClientRaw ch (bytes_of txt) st, x)))
     else if c = cmd CMD_KERNEL_CHANNEL_CLOSE then
       (case payload of
          [] \<Rightarrow> OutOfBounds
        | n # _ \<Rightarrow>
            let st1 = set_tasks sid (fst (ClearOwnTasks stop ch (session_tasks sid st))) st;
                st2 = st1\<lparr>sv_freeReq := sv_freeReq st1 @ [ch]\<rparr>
            in Done (True, if n \<noteq> 0 then sv_send sid ch (cmd CMD_KERNEL_CHANNEL_CLOSE) [n - 1] st2 else st2, x))
     else if c = cmd CMD_FORWARD_SUCCESS then
       (if length payload < 3 \<or> 0 \<notin> set (drop 2 payload) then OutOfBounds
        else let fi = \<lparr> taskString = c_str (chars_of (drop 2 payload)),
                 forwardDirection = (hd payload = byte_of_char (CHR ''1'')), fi_sessionId = sid, fi_channelId = ch \<rparr>
          in Done (True, st\<lparr>sv_forwards := snd (snd (AdminForwardMap (F_ADD fi) '''' None (sv_forwards st))),
               sv_channels := map (\<lambda>(k, d). (k, if k = ch then d\<lparr>childOpen := False\<rparr> else d)) (sv_channels st)\<rparr>, x))
     else (case map_of (mapSession (sv_base st)) (targetSessionId h) of
         None \<Rightarrow> Done (False, st, x)
       | Some s \<Rightarrow>
           (case DispatchTaskData T True (sv_base st) (s_sessionId s) ch c payload (mapTask s) x of
              (ok, m', x') \<Rightarrow> Done (ok, set_tasks (targetSessionId h) m' st, x'))))"

text \<open>\<open>--hChannel->ref\<close> at the end of a use.\<close>

definition unref :: "u32 \<Rightarrow> server_state \<Rightarrow> server_state" where
  "unref ch st = st\<lparr>sv_channels := map (\<lambda>(k, d). (k, if k = ch then d\<lparr>c_ref := c_ref d - 1\<rparr> else d)) (sv_channels st)\<rparr>"


definition FetchCommand :: "'k server_cfg \<Rightarrow> 's dispatcher \<Rightarrow> (TaskInformation \<Rightarrow> TaskInformation)
    \<Rightarrow> SessionHandShake \<Rightarrow> 'k ssession \<Rightarrow> u32 \<Rightarrow> u16 \<Rightarrow> bytes \<Rightarrow> server_state \<times> 's
    \<Rightarrow> (bool \<times> 'k ssession \<times> server_state \<times> 's) outcome" where
  "FetchCommand C T stop h0 s ch c payload stx = (case stx of (st, x) \<Rightarrow>
     if c = cmd CMD_KERNEL_HANDSHAKE then
       (case ServerSessionHandshake C h0 s payload st of
          Done (ok, s', st') \<Rightarrow> Done (ok, s', st', x) | OutOfBounds \<Rightarrow> OutOfBounds | Diverges \<Rightarrow> Diverges)
     else (case AdminChannel C_QUERY_REF ch (sv_channels st) of
         (None, m) \<Rightarrow> Done (True, s, sv_send (s_sessionId s) ch (cmd CMD_KERNEL_CHANNEL_CLOSE) [0] st, x)
       | (Some h, m) \<Rightarrow>
           let st1 = st\<lparr>sv_channels := m\<rparr> in
           if c_isDead h then Done (True, s, unref ch st1, x)
           else (case channel_command T stop (s_sessionId s) h ch c payload (st1, x) of
               Done (ok, st2, x') \<Rightarrow> Done (ok, s, unref ch st2, x')
             | OutOfBounds \<Rightarrow> OutOfBounds
             | Diverges \<Rightarrow> Diverges)))"

section \<open>The end of a session\<close>

text \<open>
  Step 1 marks the device offline and drops the forwards of the session, step 2 lets the USB
  module look at the device again.
\<close>

definition NotifyInstanceSessionFree :: "u32 \<Rightarrow> string \<Rightarrow> bool \<Rightarrow> server_state \<Rightarrow> server_state option" where
  "NotifyInstanceSessionFree sid connectKey freeOrClear st =
     (case map_of (sv_daemons st) connectKey of
        Some (Some hdiOld) \<Rightarrow>
          if \<not> freeOrClear then
            Option.bind (AdminDaemonMap (D_UPDATE (hdiOld\<lparr>connStatus := STATUS_OFFLINE\<rparr>)) connectKey None (sv_daemons st))
              (\<lambda>(_, _, m). map_option (\<lambda>f. st\<lparr>sv_daemons := m, sv_forwards := f\<rparr>) (CleanForwardMap sid (sv_forwards st)))
          else Some (if usbMountPoint hdiOld \<noteq> '''' then st\<lparr>sv_usbNotify := sv_usbNotify st @ [usbMountPoint hdiOld]\<rparr> else st)
      | _ \<Rightarrow> Some st)"

section \<open>Channels and sessions\<close>

text \<open>
  \<open>AttachChannel\<close> runs in the work thread of the session: \<open>openOK\<close> is the result of
  \<open>uv_tcp_open\<close>. \<open>DeatchChannel\<close> stops the tasks of the channel, tells the daemon with a counter of
  zero, and closes the handle of the channel, which later sets \<open>childCleared\<close>.
\<close>

definition AttachChannel :: "bool \<Rightarrow> u32 \<Rightarrow> u32 \<Rightarrow> server_state \<Rightarrow> server_state" where
  "AttachChannel openOK sid ch st = (case AdminChannel C_QUERY_REF ch (sv_channels st) of
     (None, _) \<Rightarrow> st
   | (Some h, m) \<Rightarrow>
       unref ch (st\<lparr>sv_channels := mp_put ch (h\<lparr>targetSessionId := sid, childOpen := openOK\<rparr>) m\<rparr>))"

definition DeatchChannel :: "(TaskInformation \<Rightarrow> TaskInformation) \<Rightarrow> u32 \<Rightarrow> u32 \<Rightarrow> server_state \<Rightarrow> server_state" where
  "DeatchChannel stop sid ch st = (case fst (AdminChannel C_QUERY ch (sv_channels st)) of
     None \<Rightarrow> st
   | Some h \<Rightarrow>
       if c_childCleared h then st
       else let st1 = set_tasks sid (fst (ClearOwnTasks stop ch (session_tasks sid st))) st;
                st2 = sv_send sid (c_channelId h) (cmd CMD_KERNEL_CHANNEL_CLOSE) [0] st1
         in st2\<lparr>sv_channels := mp_put ch (h\<lparr>childOpen := False\<rparr>) (sv_channels st2)\<rparr>)"

definition child_closed :: "u32 \<Rightarrow> server_state \<Rightarrow> server_state" where
  "child_closed ch st = (case map_of (sv_channels st) ch of
     None \<Rightarrow> st | Some h \<Rightarrow> st\<lparr>sv_channels := mp_put ch (h\<lparr>c_childCleared := True\<rparr>) (sv_channels st)\<rparr>)"

text \<open>\<open>ServerCommand\<close> runs a command as if the daemon had sent it, for a live session and channel.\<close>

definition ServerCommand :: "'k server_cfg \<Rightarrow> 's dispatcher \<Rightarrow> (TaskInformation \<Rightarrow> TaskInformation)
    \<Rightarrow> SessionHandShake \<Rightarrow> (u32 \<Rightarrow> 'k ssession option) \<Rightarrow> u32 \<Rightarrow> u32 \<Rightarrow> u16 \<Rightarrow> bytes \<Rightarrow> server_state \<times> 's
    \<Rightarrow> (bool \<times> server_state \<times> 's) outcome" where
  "ServerCommand C T stop h0 sessions sid ch c payload stx =
     (case (map_of (sv_channels (fst stx)) ch, sessions sid) of
        (Some _, Some s) \<Rightarrow> (case FetchCommand C T stop h0 s ch c payload stx of
            Done (ok, _, st', x') \<Rightarrow> Done (ok, st', x') | OutOfBounds \<Rightarrow> OutOfBounds | Diverges \<Rightarrow> Diverges)
      | _ \<Rightarrow> Done (False, fst stx, snd stx))"

section \<open>Connecting a device\<close>

definition conn_type_of :: "string \<Rightarrow> ConnType" where
  "conn_type_of connectKey =
     (if str_find connectKey '':'' 0 \<noteq> None then CONN_TCP
      else if str_find connectKey ''COM'' 0 = Some 0 \<or> str_find connectKey ''/dev/ttyUSB'' 0 = Some 0
      then CONN_SERIAL else CONN_USB)"

text \<open>
  \<open>connect\<close> stands for the transport's \<open>ConnectDaemon\<close>, for USB for \<open>MallocSession\<close>: the number of
  the new session, if any. The USB session is used without a test: \<open>None\<close> is that crash.
\<close>

definition CreateConnect :: "(ConnType \<Rightarrow> string \<Rightarrow> u32 option) \<Rightarrow> string \<Rightarrow> daemon_map \<Rightarrow> (int \<times> daemon_map) option" where
  "CreateConnect connect connectKey m =
     (if connectKey = ''any'' then Some (err RET_SUCCESS, m)
      else let ct = conn_type_of connectKey;
               di = \<lparr> hdi_connType = ct, connStatus = STATUS_UNKNOW, hdi_connectKey = connectKey,
                 usbMountPoint = '''', devName = '''', hdi_hSession = None \<rparr>;
               m1 = (case map_of m connectKey of Some (Some _) \<Rightarrow> m | _ \<Rightarrow> mp_put connectKey (Some di) m)
        in case map_of m1 connectKey of
             Some (Some hdi) \<Rightarrow>
               if connStatus hdi = STATUS_CONNECTED then Some (err ERR_GENERIC, m1)
               else (case connect ct connectKey of
                   None \<Rightarrow> if ct = CONN_USB then None else Some (err ERR_BUF_ALLOC, m1)
                 | Some sid \<Rightarrow>
                     map_option (\<lambda>(_, _, m2). (err RET_SUCCESS, m2))
                       (AdminDaemonMap (D_UPDATE (hdi\<lparr>hdi_hSession := Some sid\<rparr>)) connectKey None m1))
           | _ \<Rightarrow> Some (err ERR_GENERIC, m1))"

text \<open>
  The timers that wait for the device of a new session. USB counts before it compares, UART after.
\<close>

datatype preconnect = Waiting nat | GivenUp | Detected HdcDaemonInformation

definition UsbPreConnect :: "string \<Rightarrow> daemon_map \<Rightarrow> nat \<Rightarrow> preconnect option" where
  "UsbPreConnect connectKey m retryCount =
     (if 5 < Suc retryCount then Some GivenUp
      else Option.bind (if connectKey = ''any'' then any_daemon None m
          else Some (case map_of m connectKey of Some p \<Rightarrow> p | None \<Rightarrow> None)) (\<lambda>pDi.
        Some (case pDi of
            Some di \<Rightarrow> if usbMountPoint di = '''' then Waiting (Suc retryCount) else Detected di
          | None \<Rightarrow> Waiting (Suc retryCount))))"

definition UartPreConnect :: "string \<Rightarrow> daemon_map \<Rightarrow> nat \<Rightarrow> preconnect" where
  "UartPreConnect connectKey m retryCount =
     (if 100 < retryCount then GivenUp
      else (case map_of m connectKey of
          Some (Some di) \<Rightarrow> Detected di | _ \<Rightarrow> Waiting (Suc retryCount)))"

lemma CreateConnect_registers:
  assumes "daemons_ok m" "CreateConnect connect key m = Some (err RET_SUCCESS, m')" "key \<noteq> ''any''"
  shows "daemons_ok m' \<and> (\<exists>di sid. map_of m' key = Some (Some di) \<and> hdi_hSession di = Some sid
    \<and> connect (conn_type_of key) key = Some sid \<and> connStatus di \<noteq> STATUS_CONNECTED)
    \<and> (\<forall>k. k \<noteq> key \<longrightarrow> map_of m' k = map_of m k)"
proof -
  have w: "mp_wf m" and e: "\<And>k p. map_of m k = Some p \<Longrightarrow> \<exists>di. p = Some di \<and> hdi_connectKey di = k"
    using assms(1) by (auto simp: daemons_ok_def)
  note defs = CreateConnect_def Let_def daemons_ok_def map_of_mp_put mp_wf_put
  show ?thesis
  proof (cases "map_of m key")
    case None
    then show ?thesis using assms w e by (auto simp: defs split: option.splits if_splits)
  next
    case (Some p)
    then obtain di where "p = Some di" "hdi_connectKey di = key" using e by blast
    then show ?thesis using assms w e Some by (auto simp: defs split: option.splits if_splits)
  qed
qed

lemma preconnect_bounded:
  "UsbPreConnect key m n = Some (Waiting k) \<Longrightarrow> k = Suc n \<and> k \<le> 5"
  "UartPreConnect key m n = Waiting k \<Longrightarrow> k = Suc n \<and> k \<le> 101"
  by (auto simp: UsbPreConnect_def UartPreConnect_def Option.bind_eq_Some_conv split: if_splits option.splits)

section \<open>Establishing a session\<close>

lemma reply_parsed:
  assumes "str_ok (hostName D)"
  shows "ParseFromString Descriptor_SessionHandShake h0 (SerializeToString Descriptor_SessionHandShake
      \<lparr> banner = HANDSHAKE_MESSAGE, authType = AUTH_OK, hs_sessionId = 0, hs_connectKey = '''', buf = hostName D \<rparr>)
    = Some (True, \<lparr> banner = HANDSHAKE_MESSAGE, authType = AUTH_OK, hs_sessionId = 0, hs_connectKey = '''',
        buf = hostName D \<rparr>)"
  by (rule handshake_roundtrip_lib)
    (use assms in \<open>simp add: handshake_ok_def str_ok_def SECUREC_MEM_MAX_LEN_def HANDSHAKE_MESSAGE_def\<close>)

text \<open>
  C15. The two sides together: the message a session of the server opens with makes the daemon,
  outside secure mode, take over number and key and answer once, and this answer makes the
  server mark the device connected under the daemon's host name. Both ends are then open to
  commands and agree on the number and the key.
\<close>

theorem session_established:
  assumes "s_serverOrDaemon s" "str_ok (s_connectKey s)" "str_ok (hostName D)" "\<not> enableSecure D"
    and "WorkThreadStartSession True (HdcSession.truncate s) = (True, Some (ch, c, txt))"
    and "mp_wf (mapSession (d_base dst))" "daemons_ok (sv_daemons st)"
    and "map_of (sv_daemons st) (s_connectKey s) = Some (Some di)"
  shows "\<exists>d' dst' sid reply s' st'.
      DaemonSessionHandshake D h0 d ch (bytes_of txt) dst = Done (True, d', dst')
    \<and> d_sent dst' = d_sent dst @ [(sid, ch, cmd CMD_KERNEL_HANDSHAKE, reply)]
    \<and> ServerSessionHandshake C h1 s reply st = Done (True, s', st')
    \<and> handshakeOK d' \<and> handshakeOK s' \<and> sid = s_sessionId s
    \<and> s_sessionId d' = s_sessionId s' \<and> s_connectKey d' = s_connectKey s'
    \<and> daemons_ok (sv_daemons st')
    \<and> map_of (sv_daemons st') (s_connectKey s)
        = Some (Some (di\<lparr>connStatus := STATUS_CONNECTED, devName := shown_name (hostName D)\<rparr>))"
proof -
  let ?t = "HdcSession.truncate s"
  let ?h = "opening_handshake ?t"
  have t: "s_serverOrDaemon ?t" "s_connectKey ?t = s_connectKey s" "s_sessionId ?t = s_sessionId s"
    using assms(1) by (simp_all add: HdcSession.defs)
  have tx: "txt = SerializeToString Descriptor_SessionHandShake ?h" "ch = 0"
    using assms(5) t(1) by (auto simp: WorkThreadStartSession_def)
  have "handshake_ok ?h"
    using assms(2) t(2) by (simp add: opening_handshake_def handshake_ok_def str_ok_def
        SECUREC_MEM_MAX_LEN_def HANDSHAKE_MESSAGE_def)
  then have p: "parsed h0 (bytes_of txt) = Some ?h"
    using handshake_roundtrip_lib [of ?h h0] by (simp add: parsed_def tx del: map_map)
  have h: "banner ?h = HANDSHAKE_MESSAGE" "authType ?h = AUTH_NONE" "hs_sessionId ?h = s_sessionId s"
    "hs_connectKey ?h = s_connectKey s"
    by (simp_all add: opening_handshake_def auth_types t)
  let ?r = "\<lparr> banner = HANDSHAKE_MESSAGE, authType = AUTH_OK, hs_sessionId = 0, hs_connectKey = '''',
      buf = hostName D \<rparr>"
  let ?reply = "handshake_bytes ?r"
  from first_handshake_takes_session_lib [OF p h(1,2) assms(4,6), of d ch] h(3,4)
  obtain d' dst' where d: "DaemonSessionHandshake D h0 d ch (bytes_of txt) dst = Done (True, d', dst')"
    "handshakeOK d'" "s_sessionId d' = s_sessionId s" "s_connectKey d' = s_connectKey s"
    "d_sent dst' = d_sent dst @ [(s_sessionId s, ch, cmd CMD_KERNEL_HANDSHAKE, ?reply)]"
    by (auto simp: handshake_bytes_def)
  have k: "hdi_connectKey di = s_connectKey s" using assms(7,8) by (auto simp: daemons_ok_def)
  have w: "mp_wf (sv_daemons st)" using assms(7) by (simp add: daemons_ok_def)
  let ?di = "di\<lparr>connStatus := STATUS_CONNECTED, devName := shown_name (hostName D)\<rparr>"
  let ?m = "mp_put (s_connectKey s) (Some ?di) (sv_daemons st)"
  have "ServerSessionHandshake C h1 s ?reply st
      = Done (True, s\<lparr>handshakeOK := True\<rparr>, st\<lparr>sv_daemons := ?m\<rparr>)"
    using reply_parsed [OF assms(3), of h1] assms(8) k
    by (simp add: ServerSessionHandshake_def handshake_bytes_def auth_types)
  moreover have "daemons_ok ?m" using assms(7) k w by (auto simp: daemons_ok_def map_of_mp_put mp_wf_put)
  moreover have "map_of ?m (s_connectKey s) = Some (Some ?di)" using w by (simp add: map_of_mp_put)
  ultimately show ?thesis using d
    by (intro exI [of _ d'] exI [of _ dst'] exI [of _ "s_sessionId s"] exI [of _ ?reply]
        exI [of _ "s\<lparr>handshakeOK := True\<rparr>"] exI [of _ "st\<lparr>sv_daemons := ?m\<rparr>"]) simp
qed

text \<open>
  In secure mode the server cannot answer the daemon's token: it has one key, skips the first,
  and reads past the end of its list.
\<close>

theorem token_reads_past_keys:
  assumes "parsed h0 payload = Some h" "banner h = HANDSHAKE_MESSAGE" "authType h = AUTH_TOKEN"
    "hostKeys C = [k]" "s_listKey s = []" "s_authKeyIndex s = 0"
  shows "ServerSessionHandshake C h0 s payload st = OutOfBounds"
proof -
  obtain r where p: "ParseFromString Descriptor_SessionHandShake h0 (chars_of payload) = Some (r, h)"
    using assms(1) by (auto simp: parsed_def)
  show ?thesis using assms(2-)
    by (simp add: ServerSessionHandshake_def p HandServerAuth_def KeylistIncrement_def auth_types)
qed

section \<open>Properties of the commands\<close>

definition refs :: "server_state \<Rightarrow> u32 \<Rightarrow> nat option" where
  "refs st k = map_option c_ref (map_of (sv_channels st) k)"




lemma add_ref_fields [simp]:
  "sv_pending (add_ref ch st) = sv_pending st" "sv_refused (add_ref ch st) = sv_refused st"
  "sv_stream (add_ref ch st) = sv_stream st" "sv_client (add_ref ch st) = sv_client st"
  by (simp_all add: add_ref_def)

lemma refs_other [simp]:
  "refs (sv_send sid ch c bs st) = refs st" "refs (set_tasks sid m st) = refs st"
  "refs (st\<lparr>sv_freeReq := q\<rparr>) = refs st" "refs (st\<lparr>sv_daemons := dm\<rparr>) = refs st"
  "refs (st\<lparr>sv_forwards := fm\<rparr>) = refs st" "refs (st\<lparr>sv_pending := pd\<rparr>) = refs st"
  "refs (st\<lparr>sv_refused := rf\<rparr>) = refs st" "refs (st\<lparr>sv_client := cl\<rparr>) = refs st"
  "refs (st\<lparr>sv_stream := sm\<rparr>) = refs st"
  by (auto simp: refs_def sv_send_def set_tasks_def)



definition writes_of :: "server_state \<Rightarrow> u32 list \<times> u32 list \<times> (u32 \<Rightarrow> client_stream)" where
  "writes_of st = (sv_pending st, sv_refused st, sv_stream st)"


lemma writes_other [simp]:
  "writes_of (sv_send sid ch c bs st) = writes_of st" "writes_of (set_tasks sid m st) = writes_of st"
  "writes_of (st\<lparr>sv_freeReq := q\<rparr>) = writes_of st" "writes_of (st\<lparr>sv_daemons := dm\<rparr>) = writes_of st"
  "writes_of (st\<lparr>sv_forwards := fm\<rparr>) = writes_of st" "writes_of (st\<lparr>sv_channels := cm\<rparr>) = writes_of st"
  "writes_of (unref ch st) = writes_of st" "writes_of (add_ref ch st) = writes_of st"
  by (simp_all add: writes_of_def sv_send_def set_tasks_def unref_def add_ref_def)











text \<open>No command changes which channels there are.\<close>

lemma mp_wf_upd_one [simp]: "mp_wf (map (\<lambda>(k, d). (k, f k d)) m) = mp_wf m"
  by (simp add: mp_wf_def comp_def case_prod_unfold)









definition sample_server :: server_state where
  "sample_server = \<lparr> sv_base = new_SessionBase True 16, sv_channels = [(5, \<lparr> c_channelId = 5, c_isDead = False,
       c_ref = 0, c_connectKey = ''b'', targetSessionId = 9, childOpen = True, c_childCleared = False \<rparr>)], sv_daemons = two_devices,
     sv_forwards = [], sv_sent = [], sv_client = [], sv_freeReq = [], sv_usbNotify = [],
     sv_stream = (\<lambda>_. Stream_Open), sv_pending = [], sv_refused = [] \<rparr>"

definition server_session :: "nat ssession" where
  "server_session = HdcSession.extend ((new_HdcSession True CONN_TCP 9)\<lparr>s_connectKey := ''b''\<rparr>)
     \<lparr> s_listKey = [], s_authKeyIndex = 0 \<rparr>"

definition sample_scfg :: "nat server_cfg" where
  "sample_scfg = \<lparr> hostKeys = [1], authSign = (\<lambda>_ _. ''sig''), publicKeyFile = ''key'' \<rparr>"




text \<open>
  The text of an echo is used as a format: a daemon that sends a percent sign, as in
  a progress of 50%, makes the server read an argument that does not exist.
\<close>

theorem echo_is_a_format:
  assumes "map_of (sv_channels st) ch = Some h" "\<not> c_isDead h"
    "CHR ''%'' \<in> set t" "CHR 0x00 \<notin> set t" "\<forall>a b. t \<noteq> a @ [CHR ''%'', CHR ''%''] @ b"
  shows "FetchCommand C T stop h0 s ch (cmd CMD_KERNEL_ECHO) (l # bytes_of t) (st, x) = OutOfBounds"
proof -
  have "format_no_args u = None" if "CHR ''%'' \<in> set u" "\<forall>a b. u \<noteq> a @ [CHR ''%'', CHR ''%''] @ b" for u
    using that
  proof (induction u rule: format_no_args.induct)
    case (2 c cs)
    show ?case
    proof (cases "c = CHR ''%''")
      case True
      then show ?thesis using "2.prems"(2) by (cases cs) (auto dest: spec [of _ "[]"])
    next
      case False
      then have "CHR ''%'' \<in> set cs" "\<forall>a b. cs \<noteq> a @ [CHR ''%'', CHR ''%''] @ b"
        using "2.prems" by (auto, metis append_Cons)
      then show ?thesis using "2.IH" False by simp
    qed
  qed simp
  moreover have "c_str t = t" using assms(4) by (auto simp: c_str_def takeWhile_eq_all_conv)
  ultimately show ?thesis
    using assms by (simp add: FetchCommand_def channel_command_def echo_text_def Let_def)
qed

theorem echo_is_a_format_witness:
  "FetchCommand sample_scfg counting_dispatcher (\<lambda>h. h) opening_hs server_session 5 (cmd CMD_KERNEL_ECHO)
     (2 # bytes_of ''50% done'') (sample_server, 0) = OutOfBounds"
  by (rule echo_is_a_format) (auto simp: sample_server_def append_eq_Cons_conv Cons_eq_append_conv)

theorem session_established_witness:
  "\<exists>d' dst' s' st' reply. DaemonSessionHandshake (secure_cfg\<lparr>enableSecure := False\<rparr>) opening_hs sample_session 0
      (bytes_of (SerializeToString Descriptor_SessionHandShake (opening_handshake (HdcSession.truncate server_session))))
      sample_daemon = Done (True, d', dst')
    \<and> ServerSessionHandshake sample_scfg opening_hs server_session reply sample_server = Done (True, s', st')
    \<and> s_sessionId d' = s_sessionId s'"
proof -
  let ?tx = "SerializeToString Descriptor_SessionHandShake (opening_handshake (HdcSession.truncate server_session))"
  have s: "s_serverOrDaemon server_session" "s_connectKey server_session = ''b''"
    by (simp_all add: server_session_def new_HdcSession_def HdcSession.defs)
  have "WorkThreadStartSession True (HdcSession.truncate server_session)
      = (True, Some (0, cmd CMD_KERNEL_HANDSHAKE, ?tx))"
    using s by (simp add: WorkThreadStartSession_def HdcSession.defs)
  moreover have "mp_wf (mapSession (d_base sample_daemon))" by (simp add: sample_daemon_def mp_wf_def)
  moreover have "daemons_ok (sv_daemons sample_server)" by (simp add: sample_server_def two_devices_ok)
  moreover have "str_ok (s_connectKey server_session)" "str_ok (hostName (secure_cfg\<lparr>enableSecure := False\<rparr>))"
    by (simp_all add: s str_ok_def SECUREC_MEM_MAX_LEN_def secure_cfg_def)
  moreover have "map_of (sv_daemons sample_server) (s_connectKey server_session)
      = Some (Some (the (the (map_of two_devices ''b''))))"
    by (simp add: s sample_server_def two_devices_def)
  ultimately show ?thesis
    using session_established [OF s(1), of "secure_cfg\<lparr>enableSecure := False\<rparr>" 0 "cmd CMD_KERNEL_HANDSHAKE" ?tx
        sample_daemon sample_server _ opening_hs sample_session sample_scfg opening_hs] by auto
qed

definition token_hs :: SessionHandShake where
  "token_hs = \<lparr> banner = HANDSHAKE_MESSAGE, authType = 1, hs_sessionId = 0, hs_connectKey = '''', buf = ''0123456789abcdef0123'' \<rparr>"

theorem token_reads_past_keys_witness:
  "ServerSessionHandshake sample_scfg opening_hs server_session (handshake_bytes token_hs) sample_server = OutOfBounds"
proof -
  have "handshake_ok token_hs"
    by (simp add: token_hs_def handshake_ok_def str_ok_def SECUREC_MEM_MAX_LEN_def HANDSHAKE_MESSAGE_def)
  then have "parsed opening_hs (handshake_bytes token_hs) = Some token_hs"
    using handshake_roundtrip_lib [of token_hs opening_hs] by (simp add: parsed_def handshake_bytes_def del: map_map)
  then show ?thesis
    by (rule token_reads_past_keys)
      (simp_all add: token_hs_def auth_types sample_scfg_def server_session_def HdcSession.defs)
qed

text \<open>
  When a session ends, its device is marked offline, its forwards are gone, and both
  registries stay well formed, whatever they held.
\<close>

theorem session_end_cleans_registries:
  assumes "daemons_ok (sv_daemons st)" "forwards_ok (sv_forwards st)"
  shows "\<exists>st'. NotifyInstanceSessionFree sid key False st = Some st'
    \<and> daemons_ok (sv_daemons st') \<and> forwards_ok (sv_forwards st')
    \<and> (\<forall>di. map_of (sv_daemons st) key = Some (Some di) \<longrightarrow>
        map_of (sv_daemons st') key = Some (Some (di\<lparr>connStatus := STATUS_OFFLINE\<rparr>))
      \<and> (\<forall>k fi. map_of (sv_forwards st') k = Some (Some fi) \<longrightarrow> sid \<noteq> 0 \<and> fi_sessionId fi \<noteq> sid))"
proof (cases "map_of (sv_daemons st) key")
  case None
  then show ?thesis using assms by (simp add: NotifyInstanceSessionFree_def)
next
  case (Some p)
  then obtain di where p: "p = Some di" "hdi_connectKey di = key" using assms(1) by (auto simp: daemons_ok_def)
  obtain f where f: "CleanForwardMap sid (sv_forwards st) = Some f" "forwards_ok f"
    "\<forall>k. map_of f k = (case map_of (sv_forwards st) k of
       Some (Some fi) \<Rightarrow> if sid = 0 \<or> fi_sessionId fi = sid then None else Some (Some fi) | _ \<Rightarrow> None)"
    using CleanForwardMap_removes_lib [OF assms(2), of sid] by blast
  have w: "mp_wf (sv_daemons st)" using assms(1) by (simp add: daemons_ok_def)
  let ?m = "mp_put key (Some (di\<lparr>connStatus := STATUS_OFFLINE\<rparr>)) (sv_daemons st)"
  have "daemons_ok ?m" using assms(1) p w by (auto simp: daemons_ok_def map_of_mp_put mp_wf_put)
  moreover have "sid \<noteq> 0 \<and> fi_sessionId fi \<noteq> sid" if "map_of f k = Some (Some fi)" for k fi
    using that f(3) by (auto split: option.splits if_splits)
  moreover have "NotifyInstanceSessionFree sid key False st = Some (st\<lparr>sv_daemons := ?m, sv_forwards := f\<rparr>)"
    using Some p f(1) by (simp add: NotifyInstanceSessionFree_def)
  ultimately show ?thesis using Some p(1) f(2) w by (auto simp: map_of_mp_put)
qed

theorem session_end_cleans_registries_witness:
  "\<exists>st'. NotifyInstanceSessionFree 9 ''b'' False sample_server = Some st' \<and> daemons_ok (sv_daemons st')"
  using session_end_cleans_registries [of sample_server 9 "''b''"] two_devices_ok
  by (auto simp: sample_server_def forwards_ok_def mp_wf_def)

end
