(* ===== verification/Hdc_Uart.thy ===== *)
theory Hdc_Uart
  imports Hdc_Strings
begin

unbundle bit_operations_syntax

text \<open>
  The link layer of the serial line, src/src/common/uart.h and src/src/common/uart.cpp, with the
  overrides of src/src/host/host_uart.cpp and src/src/daemon/daemon_uart.cpp: packages with a
  head and checksums, the list of packages that wait to be sent or acknowledged, and the
  processing of a package that arrives. The reader of the device is in Hdc_UartReader, what the
  link promises in Hdc_UartLink.
\<close>

section \<open>Packages\<close>

record UartHead =
  uh_flag :: bytes
  uh_option :: u16
  uh_sessionId :: u32
  uh_dataSize :: u32
  uh_packageIndex :: u32
  uh_dataCheckSum :: u32
  uh_headCheckSum :: u32

definition sizeof_UartHead :: nat where [hdc_consts]: "sizeof_UartHead = 24"

text \<open>The packed structure in the memory of a little-endian machine.\<close>

definition enc_UartHead :: "UartHead \<Rightarrow> bytes" where
  "enc_UartHead h = uh_flag h @ le_enc 2 (unat (uh_option h)) @ le_enc 4 (unat (uh_sessionId h))
     @ le_enc 4 (unat (uh_dataSize h)) @ le_enc 4 (unat (uh_packageIndex h))
     @ le_enc 4 (unat (uh_dataCheckSum h)) @ le_enc 4 (unat (uh_headCheckSum h))"

definition dec_UartHead :: "bytes \<Rightarrow> UartHead" where
  "dec_UartHead b =
     \<lparr> uh_flag = take 2 b, uh_option = word_of_nat (le_dec (take 2 (drop 2 b))),
       uh_sessionId = word_of_nat (le_dec (take 4 (drop 4 b))),
       uh_dataSize = word_of_nat (le_dec (take 4 (drop 8 b))),
       uh_packageIndex = word_of_nat (le_dec (take 4 (drop 12 b))),
       uh_dataCheckSum = word_of_nat (le_dec (take 4 (drop 16 b))),
       uh_headCheckSum = word_of_nat (le_dec (take 4 (drop 20 b))) \<rparr>"

text \<open>The constructor: the magic word, and checksums of zero.\<close>

definition new_UartHead :: "u32 \<Rightarrow> u16 \<Rightarrow> u32 \<Rightarrow> u32 \<Rightarrow> UartHead" where
  "new_UartHead sid opt dsize idx =
     \<lparr> uh_flag = bytes_of PACKET_FLAG, uh_option = opt, uh_sessionId = sid, uh_dataSize = dsize,
       uh_packageIndex = idx, uh_dataCheckSum = 0, uh_headCheckSum = 0 \<rparr>"

definition has_option :: "UartHead \<Rightarrow> u16 \<Rightarrow> bool" where
  "has_option h opt \<longleftrightarrow> uh_option h AND opt \<noteq> 0"

definition IsResponsePackage :: "UartHead \<Rightarrow> bool" where
  "IsResponsePackage h \<longleftrightarrow> has_option h PKG_OPTION_ACK \<or> has_option h PKG_OPTION_NAK"

definition ToPkgIdentityString :: "UartHead \<Rightarrow> bool \<Rightarrow> string" where
  "ToPkgIdentityString h responsePackage =
     (if responsePackage then ''R-'' else []) @ ''Id:'' @ decimal (unat (uh_sessionId h))
       @ ''pkgIdx:'' @ decimal (unat (uh_packageIndex h))"

text \<open>\<open>std::accumulate\<close> over bytes into a \<open>uint32_t\<close>.\<close>

definition accumulate :: "bytes \<Rightarrow> u32" where
  "accumulate b = foldl (\<lambda>a x. a + ucast x) 0 b"

text \<open>
  The checksums of a package in memory. \<open>UpdateCheckSum\<close> reads as many bytes behind the head as
  the head announces; \<open>mem\<close> is what follows the buffer in memory.
\<close>

definition data_sum :: "bytes \<Rightarrow> UartHead \<Rightarrow> u32" where
  "data_sum b h = accumulate (take (unat (uh_dataSize h)) (drop sizeof_UartHead b))"

definition head_sum :: "UartHead \<Rightarrow> u32" where
  "head_sum h = accumulate (take (sizeof_UartHead - 4) (enc_UartHead h))"

definition UpdateCheckSum :: "bytes \<Rightarrow> bytes \<Rightarrow> bytes" where
  "UpdateCheckSum mem b =
     (let h = dec_UartHead b;
          h1 = (if uh_dataSize h \<noteq> 0 then h\<lparr>uh_dataCheckSum := data_sum (b @ mem) h\<rparr> else h)
      in enc_UartHead (h1\<lparr>uh_headCheckSum := head_sum h1\<rparr>) @ drop sizeof_UartHead b)"

definition ValidateHead :: "UartHead \<Rightarrow> bool" where
  "ValidateHead h \<longleftrightarrow> uh_headCheckSum h = head_sum h"

definition ValidateData :: "bytes \<Rightarrow> bool" where
  "ValidateData b \<longleftrightarrow> (let h = dec_UartHead b in
     uh_dataSize h = 0 \<or> uh_dataCheckSum h = data_sum b h)"

section \<open>State\<close>

datatype PkgStatus = PKG_WAIT_SEND | PKG_WAIT_RESPONSE

record HandleOutputPkg =
  pkg_key :: string
  pkg_sessionId :: u32
  response :: bool
  pkg_ack :: bool
  pkgStatus :: PkgStatus
  msgSendBuf :: bytes
  retryChance :: nat
  sendTimePoint :: nat

record HdcUART =
  dispatchedPackageIndex :: u32
  packageIndex :: u64
  resetIO :: bool
  streamSize :: nat

text \<open>
  A session as the link layer sees it: its \<open>hUART\<close>, whether the device handle in it is open (the
  host has one for each session), and the bytes written to its data pipe.
\<close>

record uart_session =
  us_serverOrDaemon :: bool
  hUART :: HdcUART
  us_open :: bool
  us_stream :: bytes

text \<open>What the link layer asks of the session layer, in order.\<close>

datatype uart_call =
    FreeSession u32
  | PushFreeSession u32
  | StartSession u32
  | EchoToClients u32
  | DaemonOffline u32

text \<open>
  The class with its session base. \<open>slots\<close> holds the sessions that have a package on its way,
  \<open>wire\<close> what was written to the device. \<open>requested\<close>, \<open>timed\<close> and \<open>timeoutPoint\<close> are the state
  of the object \<open>transfer\<close>. The last three fields are the environment: what follows a buffer in
  memory, the results of \<open>select\<close> and \<open>send\<close> when data is given to the data pipe, and the number a
  new session gets when the peer names none.
\<close>

record UartBase =
  is_host :: bool
  outPkgs :: "HandleOutputPkg list"
  slots :: "u32 set"
  uart_sessions :: "u32 \<Rightarrow> uart_session option"
  currentSessionId :: u32
  requested :: bool
  timed :: bool
  timeoutPoint :: nat
  wire :: "bytes list"
  calls :: "uart_call list"
  mem_behind :: bytes
  pipe_results :: "bytes \<Rightarrow> (int \<times> int) list"
  pseudoUid :: u32

definition upd_hUART :: "u32 \<Rightarrow> (HdcUART \<Rightarrow> HdcUART) \<Rightarrow> UartBase \<Rightarrow> UartBase" where
  "upd_hUART sid f s = s\<lparr>uart_sessions := (uart_sessions s)(sid :=
     map_option (\<lambda>u. u\<lparr>hUART := f (hUART u)\<rparr>) (uart_sessions s sid))\<rparr>"

definition call :: "uart_call \<Rightarrow> UartBase \<Rightarrow> UartBase" where
  "call c s = s\<lparr>calls := calls s @ [c]\<rparr>"

definition WaitResponseTimeOutMs :: nat where [hdc_consts]: "WaitResponseTimeOutMs = 1000"
definition OneMoreMs :: nat where [hdc_consts]: "OneMoreMs = 1"

section \<open>The transfer state machine\<close>

definition NotifyTransfer :: "UartBase \<Rightarrow> UartBase" where
  "NotifyTransfer s = s\<lparr>requested := True\<rparr>"

definition Sent :: "nat \<Rightarrow> UartBase \<Rightarrow> UartBase" where
  "Sent now s = s\<lparr>timed := True, timeoutPoint := now + (WaitResponseTimeOutMs + OneMoreMs)\<rparr>"

text \<open>
  \<open>Wait\<close> returns when a request was made, and with a time limit also when it is over; \<open>None\<close> as
  long as it waits.
\<close>

definition Wait :: "nat \<Rightarrow> UartBase \<Rightarrow> UartBase option" where
  "Wait now s =
     (if timed s then
        if requested s then Some (s\<lparr>requested := False\<rparr>)
        else if timeoutPoint s \<le> now then Some (s\<lparr>timed := False, requested := False\<rparr>)
        else None
      else if requested s then Some (s\<lparr>requested := False\<rparr>)
      else None)"

section \<open>Requests, responses, clearing\<close>

definition find_if :: "('a \<Rightarrow> bool) \<Rightarrow> 'a list \<Rightarrow> nat option" where
  "find_if P xs = (let n = length (takeWhile (\<lambda>x. \<not> P x) xs) in if n < length xs then Some n else None)"

text \<open>\<open>RequestSendPackage\<close> behind the wait for the slot.\<close>

definition add_package :: "bytes \<Rightarrow> UartBase \<Rightarrow> UartBase" where
  "add_package data s =
     (let h = dec_UartHead data; resp = IsResponsePackage h; pkgId = ToPkgIdentityString h resp
      in NotifyTransfer (case find_if (\<lambda>p. pkg_key p = pkgId) (outPkgs s) of
           None \<Rightarrow> s\<lparr>outPkgs := outPkgs s @
             [\<lparr> pkg_key = pkgId, pkg_sessionId = uh_sessionId h, response = resp,
                pkg_ack = has_option h PKG_OPTION_ACK, pkgStatus = PKG_WAIT_SEND,
                msgSendBuf = UpdateCheckSum (mem_behind s) data, retryChance = 4,
                sendTimePoint = 0 \<rparr>]\<rparr>
         | Some _ \<Rightarrow> s))"

text \<open>\<open>None\<close> as long as the slot of the session is taken.\<close>

definition RequestSendPackage :: "bytes \<Rightarrow> bool \<Rightarrow> UartBase \<Rightarrow> UartBase option" where
  "RequestSendPackage data queue s =
     (let sid = uh_sessionId (dec_UartHead data) in
      if queue then
        if sid \<in> slots s then None
        else Some (add_package data (s\<lparr>slots := insert sid (slots s)\<rparr>))
      else Some (add_package data s))"

text \<open>Without \<open>queue\<close> it does not wait.\<close>

definition ResponseUartTrans :: "u32 \<Rightarrow> u32 \<Rightarrow> u16 \<Rightarrow> UartBase \<Rightarrow> UartBase" where
  "ResponseUartTrans sid idx opt s = add_package (enc_UartHead (new_UartHead sid opt 0 idx)) s"

definition ProcessResponsePackage :: "UartHead \<Rightarrow> UartBase \<Rightarrow> UartBase" where
  "ProcessResponsePackage h s =
     NotifyTransfer (case find_if (\<lambda>p. pkg_key p = ToPkgIdentityString h False) (outPkgs s) of
       Some n \<Rightarrow>
         if has_option h PKG_OPTION_ACK then
           s\<lparr>slots := slots s - {pkg_sessionId (outPkgs s ! n)},
             outPkgs := take n (outPkgs s) @ drop (Suc n) (outPkgs s)\<rparr>
         else s\<lparr>outPkgs := (outPkgs s)[n := (outPkgs s ! n)\<lparr>pkgStatus := PKG_WAIT_SEND\<rparr>]\<rparr>
     | None \<Rightarrow> s)"

definition ClearUARTOutMap :: "u32 \<Rightarrow> UartBase \<Rightarrow> UartBase" where
  "ClearUARTOutMap sid s =
     NotifyTransfer (s\<lparr>slots := slots s -
         (if list_ex (\<lambda>p. pkg_sessionId p = sid \<and> \<not> response p) (outPkgs s) then {sid} else {}),
       outPkgs := filter (\<lambda>p. pkg_sessionId p \<noteq> sid) (outPkgs s)\<rparr>)"

definition StopSession :: "u32 option \<Rightarrow> UartBase \<Rightarrow> UartBase" where
  "StopSession hSession s = (case hSession of None \<Rightarrow> s | Some sid \<Rightarrow> ClearUARTOutMap sid s)"

section \<open>Sessions\<close>

text \<open>A pointer to a session is the number it is filed under, \<open>None\<close> a null pointer.\<close>

definition close_port :: "u32 \<Rightarrow> UartBase \<Rightarrow> UartBase" where
  "close_port sid s = s\<lparr>uart_sessions := (uart_sessions s)(sid :=
     map_option (\<lambda>u. u\<lparr>us_open := False\<rparr>) (uart_sessions s sid))\<rparr>"

definition HostOnTransferError :: "u32 option \<Rightarrow> UartBase \<Rightarrow> UartBase" where
  "HostOnTransferError session s = (case session of
     None \<Rightarrow> s
   | Some sid \<Rightarrow>
       let opened = (case uart_sessions s sid of None \<Rightarrow> False | Some u \<Rightarrow> us_open u);
           s1 = (if opened then call (EchoToClients sid) s else s)
       in ClearUARTOutMap sid (call (FreeSession sid) (call (DaemonOffline sid) (close_port sid s1))))"

definition DaemonOnTransferError :: "u32 option \<Rightarrow> UartBase \<Rightarrow> UartBase" where
  "DaemonOnTransferError session s = (case session of
     None \<Rightarrow> s | Some sid \<Rightarrow> ClearUARTOutMap sid (call (FreeSession sid) s))"

definition OnTransferError :: "u32 option \<Rightarrow> UartBase \<Rightarrow> UartBase" where
  "OnTransferError session s =
     (if is_host s then HostOnTransferError session s else DaemonOnTransferError session s)"

definition Restartession :: "u32 option \<Rightarrow> UartBase \<Rightarrow> UartBase" where
  "Restartession session s = (case session of
     None \<Rightarrow> s
   | Some sid \<Rightarrow>
       let s1 = call (FreeSession sid) (ClearUARTOutMap sid s)
       in if is_host s then call (EchoToClients sid) (close_port sid s1) else s1)"

definition new_uart_session :: "bool \<Rightarrow> uart_session" where
  "new_uart_session sod =
     \<lparr> us_serverOrDaemon = sod,
       hUART = \<lparr> dispatchedPackageIndex = 0, packageIndex = 0, resetIO = False, streamSize = 0 \<rparr>,
       us_open = True, us_stream = [] \<rparr>"

text \<open>\<open>MallocSession\<close> draws a number when it is given zero.\<close>

definition PrepareNewSession :: "u32 \<Rightarrow> UartBase \<Rightarrow> u32 option \<times> UartBase" where
  "PrepareNewSession sessionId s =
     (let sid = (if sessionId = 0 then pseudoUid s else sessionId);
          s1 = s\<lparr>uart_sessions := (uart_sessions s)(sid := Some (new_uart_session False))\<rparr>;
          s2 = (if currentSessionId s \<noteq> 0 then call (PushFreeSession (currentSessionId s)) s1 else s1)
      in (Some sid, call (StartSession sid) s2))"

definition GetSession :: "u32 \<Rightarrow> bool \<Rightarrow> UartBase \<Rightarrow> u32 option \<times> UartBase" where
  "GetSession sid create s =
     (if uart_sessions s sid \<noteq> None then (Some sid, s)
      else if \<not> is_host s \<and> create then PrepareNewSession sid s
      else (None, s))"

definition ResetOldSession :: "u32 \<Rightarrow> UartBase \<Rightarrow> UartBase" where
  "ResetOldSession sessionId s =
     (if is_host s then s
      else let sid = (if sessionId = 0 then currentSessionId s else sessionId) in
        if uart_sessions s sid = None then s
        else OnTransferError (Some sid) (upd_hUART sid (\<lambda>u. u\<lparr>resetIO := True\<rparr>) s))"

definition SendUartSoftReset :: "u32 \<Rightarrow> UartBase \<Rightarrow> UartBase" where
  "SendUartSoftReset sid s =
     (if is_host s then
        add_package (enc_UartHead ((new_UartHead sid PKG_OPTION_RESET 0 0)\<lparr>uh_dataSize := word_of_nat sizeof_UartHead\<rparr>)) s
      else s)"

section \<open>Sending\<close>

text \<open>
  The results of \<open>write\<close> round by round: interrupted, failed, or the number of bytes it took. When
  the list is over the device is gone. The bytes taken before a failure are on the line.
\<close>

datatype write_result = EINTR_EAGAIN | Failed | Wrote nat

fun write_loop :: "write_result list \<Rightarrow> nat \<Rightarrow> nat \<Rightarrow> bool \<times> nat" where
  "write_loop [] len t = (False, t)"
| "write_loop (r # rs) len t = (case r of
     EINTR_EAGAIN \<Rightarrow> if t < len then write_loop rs len t else (True, t)
   | Failed \<Rightarrow> (False, t)
   | Wrote n \<Rightarrow> if t + n < len then write_loop rs len (t + n) else (True, t + n))"

type_synonym device = "bytes \<Rightarrow> write_result list"

text \<open>
  The host writes to the device of the session, the daemon to its only one; on a closed handle
  every write fails. The result says whether the number of bytes written is positive, and whether
  it is negative.
\<close>

definition WriteUartDev :: "device \<Rightarrow> bool \<Rightarrow> bytes \<Rightarrow> UartBase \<Rightarrow> int \<times> UartBase" where
  "WriteUartDev io opened data s =
     (let (ok, n) = write_loop (if opened then io data else [Failed]) (length data) 0
      in (if ok then int n else -1,
          if n = 0 then s else s\<lparr>wire := wire s @ [take n data]\<rparr>))"

definition SendUARTRaw :: "device \<Rightarrow> bytes \<Rightarrow> UartBase \<Rightarrow> bool \<times> UartBase" where
  "SendUARTRaw io data s =
     (let h = dec_UartHead data in
      if \<not> is_host s \<and> IsResponsePackage h then
        let (sendBytes, s1) = WriteUartDev io True data s in (0 < sendBytes, s1)
      else case uart_sessions s (uh_sessionId h) of
          None \<Rightarrow> (False, s)
        | Some u \<Rightarrow>
            let (sendBytes, s1) = WriteUartDev io (is_host s \<longrightarrow> us_open u) data s
            in (0 < sendBytes,
                if sendBytes < 0 then OnTransferError (Some (uh_sessionId h)) s1 else s1))"

text \<open>
  The loop over the packages, at one reading of the clock. \<open>passed\<close> are the packages behind the
  iterator and \<open>hasWaitPkg\<close> the sessions with a package on its way. \<open>None\<close>: the list was changed
  while the iterator points into it, the iterator is invalid.
\<close>

fun send_loop ::
  "device \<Rightarrow> nat \<Rightarrow> u32 set \<Rightarrow> HandleOutputPkg list \<Rightarrow> HandleOutputPkg list \<Rightarrow> UartBase \<Rightarrow> UartBase option"
where
  "send_loop io now hasWaitPkg passed [] s = Some (s\<lparr>outPkgs := passed\<rparr>)"
| "send_loop io now hasWaitPkg passed (p # ps) s =
     (if pkgStatus p = PKG_WAIT_SEND then
        if \<not> response p \<and> pkg_sessionId p \<in> hasWaitPkg then
          send_loop io now hasWaitPkg (passed @ [p]) ps s
        else
          let s1 = snd (SendUARTRaw io (msgSendBuf p) (s\<lparr>outPkgs := passed @ p # ps\<rparr>)) in
          if outPkgs s1 \<noteq> passed @ p # ps then None
          else if response p then send_loop io now hasWaitPkg passed ps s1
          else send_loop io now (insert (pkg_sessionId p) hasWaitPkg)
                 (passed @ [p\<lparr>pkgStatus := PKG_WAIT_RESPONSE, sendTimePoint := now\<rparr>]) ps (Sent now s1)
      else if WaitResponseTimeOutMs \<le> now - sendTimePoint p then
        if 0 < retryChance p then
          Some (NotifyTransfer (s\<lparr>outPkgs :=
            passed @ p\<lparr>pkgStatus := PKG_WAIT_SEND, retryChance := retryChance p - 1\<rparr> # ps\<rparr>))
        else Some (OnTransferError
               (if uart_sessions s (pkg_sessionId p) \<noteq> None then Some (pkg_sessionId p) else None)
               (s\<lparr>outPkgs := passed @ p # ps\<rparr>))
      else send_loop io now (insert (pkg_sessionId p) hasWaitPkg) (passed @ [p]) ps s)"

definition SendPkgInUARTOutMap :: "device \<Rightarrow> nat \<Rightarrow> UartBase \<Rightarrow> UartBase option" where
  "SendPkgInUARTOutMap io now s =
     (if outPkgs s = [] then Some s else send_loop io now {} [] (outPkgs s) s)"

text \<open>
  One package of \<open>SendUARTData\<close>: the head, with the next index of the session, and as many bytes
  from \<open>offset\<close> on as fit.
\<close>

definition packageDataMaxSize :: nat where [hdc_consts]: "packageDataMaxSize = MAX_UART_SIZE_IOBUF - sizeof_UartHead"

definition uart_package :: "u32 \<Rightarrow> u64 \<Rightarrow> bytes \<Rightarrow> nat \<Rightarrow> bytes" where
  "uart_package sid idx data offset =
     (let remaining = length data - offset;
          n = min remaining packageDataMaxSize;
          h = new_UartHead sid (if packageDataMaxSize < remaining then 0 else PKG_OPTION_TAIL)
                (word_of_nat n) (ucast idx)
      in enc_UartHead h @ take n (drop offset data))"

text \<open>
  One round of the loop, from the pair of the offset and the state; \<open>None\<close> while it waits for the
  slot.
\<close>

definition send_round :: "u32 \<Rightarrow> bytes \<Rightarrow> nat \<Rightarrow> UartBase \<Rightarrow> (nat \<times> UartBase) option" where
  "send_round sid data offset s =
     (let s1 = upd_hUART sid (\<lambda>u. u\<lparr>packageIndex := packageIndex u + 1\<rparr>) s;
          idx = (case uart_sessions s1 sid of Some u \<Rightarrow> packageIndex (hUART u) | None \<Rightarrow> 0)
      in map_option (Pair (offset + min (length data - offset) packageDataMaxSize))
           (RequestSendPackage (uart_package sid idx data offset) True s1))"

section \<open>Receiving\<close>

text \<open>
  \<open>select\<close> and \<open>send\<close> until all is written. The list holds their results round by round; when it
  is over \<open>select\<close> times out.
\<close>

fun pipe_loop :: "(int \<times> int) list \<Rightarrow> nat \<Rightarrow> nat \<Rightarrow> nat" where
  "pipe_loop [] dataSize index = index"
| "pipe_loop ((sel, snt) # rs) dataSize index =
     (if index < dataSize then
        if sel \<le> 0 then index
        else if snt < 0 then index
        else pipe_loop rs dataSize (index + nat snt)
      else index)"

definition UartToHdcProtocol :: "u32 \<Rightarrow> bytes \<Rightarrow> UartBase \<Rightarrow> int \<times> UartBase" where
  "UartToHdcProtocol sid data s =
     (let index = pipe_loop (pipe_results s data) (length data) 0
      in (if index \<noteq> length data then err ERR_IO_FAIL else int index,
          s\<lparr>uart_sessions := (uart_sessions s)(sid :=
              map_option (\<lambda>u. u\<lparr>us_stream := us_stream u @ take index data\<rparr>) (uart_sessions s sid))\<rparr>))"

text \<open>
  \<open>UartSendToHdcStream\<close> returns \<open>ERR_BUF_SIZE\<close> as a \<open>bool\<close>, which is \<open>true\<close>.
\<close>

definition UartSendToHdcStream :: "u32 \<Rightarrow> bytes \<Rightarrow> UartBase \<Rightarrow> bool \<times> UartBase" where
  "UartSendToHdcStream sid data s =
     (if length data < sizeof_UartHead then (True, s)
      else let h = dec_UartHead data in
        case uart_sessions s sid of
          None \<Rightarrow> (True, s)
        | Some u \<Rightarrow>
            if uh_sessionId h \<noteq> sid then
              if us_serverOrDaemon u \<and> \<not> resetIO (hUART u) then
                (False, upd_hUART sid (\<lambda>u. u\<lparr>resetIO := True\<rparr>) (SendUartSoftReset (uh_sessionId h) s))
              else (True, s)
            else
              let s1 = upd_hUART sid (\<lambda>u. u\<lparr>streamSize := streamSize u + unat (uh_dataSize h)\<rparr>) s;
                  (ret, s2) = UartToHdcProtocol sid
                    (take (unat (uh_dataSize h)) (drop sizeof_UartHead data)) s1
              in (0 \<le> ret, s2))"

definition DispatchToWorkThread :: "u32 option \<Rightarrow> bytes \<Rightarrow> UartBase \<Rightarrow> RetErrCode \<times> UartBase" where
  "DispatchToWorkThread hSession readBuf s = (case hSession of
     None \<Rightarrow> (ERR_SESSION_NOFOUND, s)
   | Some sid \<Rightarrow>
       let (ok, s1) = UartSendToHdcStream sid readBuf s
       in (if ok then RET_SUCCESS else ERR_IO_FAIL, s1))"

text \<open>
  \<open>ValidateUartPacket\<close> returns its code, the session, the index and the size of the package, and
  runs the operations of the link layer.
\<close>

definition ValidateUartPacket ::
  "bytes \<Rightarrow> UartBase \<Rightarrow> RetErrCode \<times> u32 \<times> u32 \<times> nat \<times> UartBase" where
  "ValidateUartPacket data s =
     (let h = dec_UartHead data; sid = uh_sessionId h; idx = uh_packageIndex h;
          packetSize = unat (uh_dataSize h) + sizeof_UartHead in
      if uh_flag h \<noteq> bytes_of PACKET_FLAG then (ERR_BUF_CHECK, 0, 0, 0, s)
      else if \<not> ValidateHead h then (ERR_BUF_CHECK, 0, 0, 0, s)
      else if MAX_UART_SIZE_IOBUF < packetSize then (ERR_BUF_OVERFLOW, sid, idx, packetSize, s)
      else if has_option h PKG_OPTION_RESET then
        (ERR_IO_SOFT_RESET, sid, idx, packetSize, ResetOldSession sid s)
      else
        let s1 = (if has_option h PKG_OPTION_FREE
                  then Restartession (fst (GetSession sid False s)) s else s)
        in if packetSize \<le> length data then
             if \<not> ValidateData data then (ERR_BUF_CHECK, sid, idx, packetSize, s1)
             else (RET_SUCCESS, sid, idx, packetSize,
                   if IsResponsePackage h then ProcessResponsePackage h s1
                   else ResponseUartTrans sid idx PKG_OPTION_ACK s1)
           else (RET_SUCCESS, sid, idx, packetSize, s1))"

text \<open>A whole package with data, for the session found or named.\<close>

definition dispatch_package ::
  "u32 option \<Rightarrow> u32 \<Rightarrow> u32 \<Rightarrow> bytes \<Rightarrow> UartBase \<Rightarrow> u32 option \<times> UartBase" where
  "dispatch_package hSession sessionId idx data s =
     (let (hs, s1) = (case hSession of Some sid \<Rightarrow> (Some sid, s) | None \<Rightarrow> GetSession sessionId True s)
      in case hs of
           None \<Rightarrow> (None, s1)
         | Some sid \<Rightarrow>
             (hs, case uart_sessions s1 sid of
                None \<Rightarrow> s1
              | Some u \<Rightarrow>
                  if dispatchedPackageIndex (hUART u) = idx then s1
                  else
                    let s2 = upd_hUART sid (\<lambda>u. u\<lparr>dispatchedPackageIndex := idx\<rparr>) s1;
                        (ret, s3) = DispatchToWorkThread hs data s2
                    in if ret = RET_SUCCESS then s3
                       else let s4 = upd_hUART sid (\<lambda>u. u\<lparr>packageIndex := packageIndex u + 1\<rparr>) s3;
                                i = (case uart_sessions s4 sid of Some u \<Rightarrow> packageIndex (hUART u) | None \<Rightarrow> 0)
                            in ResponseUartTrans sid (ucast i) PKG_OPTION_FREE s4))"

lemma ValidateUartPacket_size:
  "ValidateUartPacket data s = (RET_SUCCESS, sid, idx, packetSize, s1) \<Longrightarrow>
     packetSize = unat (uh_dataSize (dec_UartHead data)) + sizeof_UartHead"
  by (auto simp: ValidateUartPacket_def Let_def split: if_splits)

text \<open>
  \<open>PackageProcess\<close>: the size it expects next, what is left of the data, and the state.
\<close>

function PackageProcess :: "bytes \<Rightarrow> u32 option \<Rightarrow> UartBase \<Rightarrow> nat \<times> bytes \<times> UartBase" where
  "PackageProcess data hSession s =
     (if length data < sizeof_UartHead then
        (if 1 < length data then sizeof_UartHead else 0, data, s)
      else
        case ValidateUartPacket data s of (code, sessionId, idx, packetSize, s1) \<Rightarrow>
          if code \<noteq> RET_SUCCESS then PackageProcess [] hSession s1
          else if packetSize = sizeof_UartHead then
            PackageProcess (drop packetSize data) hSession s1
          else if packetSize \<le> length data then
            case dispatch_package hSession sessionId idx (take packetSize data) s1 of (hs, s2) \<Rightarrow>
              PackageProcess (drop packetSize data) hs s2
          else (packetSize, data, s1))"
  by pat_completeness auto
termination
  by (relation "measure (\<lambda>(data, hs, s). length data)")
    (auto dest!: ValidateUartPacket_size [OF sym] simp: sizeof_UartHead_def)

declare PackageProcess.simps [simp del]

section \<open>Heads and checksums\<close>

definition head_ok :: "UartHead \<Rightarrow> bool" where
  "head_ok h \<longleftrightarrow> length (uh_flag h) = 2"

lemma length_enc_UartHead [simp]: "head_ok h \<Longrightarrow> length (enc_UartHead h) = sizeof_UartHead"
  by (simp add: enc_UartHead_def head_ok_def sizeof_UartHead_def)

lemma le_dec_enc_u16: "word_of_nat (le_dec (le_enc 2 (unat (v :: u16)))) = v"
  using unsigned_less [of v, where ?'a = nat] by (simp add: le_dec_enc)

lemma dec_enc_UartHead [simp]: "head_ok h \<Longrightarrow> dec_UartHead (enc_UartHead h @ d) = h"
  by (cases h) (simp add: head_ok_def dec_UartHead_def enc_UartHead_def wire_simps le_dec_enc_u16)

lemma dec_enc_UartHead_Nil [simp]: "head_ok h \<Longrightarrow> dec_UartHead (enc_UartHead h) = h"
  using dec_enc_UartHead [of h "[]"] by simp

lemma head_ok_new [simp]: "head_ok (new_UartHead sid opt dsize idx)"
  by (simp add: head_ok_def new_UartHead_def PACKET_FLAG_def)

lemma head_ok_sums [simp]:
  "head_ok (h\<lparr>uh_headCheckSum := x\<rparr>) = head_ok h" "head_ok (h\<lparr>uh_dataCheckSum := x\<rparr>) = head_ok h"
  "head_ok (h\<lparr>uh_dataSize := y\<rparr>) = head_ok h"
  by (simp_all add: head_ok_def)

lemma head_sum_update [simp]: "head_ok h \<Longrightarrow> head_sum (h\<lparr>uh_headCheckSum := x\<rparr>) = head_sum h"
  by (simp add: head_sum_def enc_UartHead_def head_ok_def sizeof_UartHead_def)

text \<open>The head with its checksums, for the data behind it.\<close>

definition sealed :: "UartHead \<Rightarrow> bytes \<Rightarrow> UartHead" where
  "sealed h d =
     (let h1 = (if uh_dataSize h \<noteq> 0 then h\<lparr>uh_dataCheckSum := accumulate d\<rparr> else h)
      in h1\<lparr>uh_headCheckSum := head_sum h1\<rparr>)"

definition package :: "UartHead \<Rightarrow> bytes \<Rightarrow> bytes" where
  "package h d = enc_UartHead (sealed h d) @ d"

lemma sealed_fields [simp]:
  "uh_flag (sealed h d) = uh_flag h" "uh_option (sealed h d) = uh_option h"
  "uh_sessionId (sealed h d) = uh_sessionId h" "uh_dataSize (sealed h d) = uh_dataSize h"
  "uh_packageIndex (sealed h d) = uh_packageIndex h" "head_ok (sealed h d) = head_ok h"
  by (simp_all add: sealed_def Let_def head_ok_def)

lemma has_option_sealed [simp]: "has_option (sealed h d) opt = has_option h opt"
  and IsResponsePackage_sealed [simp]: "IsResponsePackage (sealed h d) = IsResponsePackage h"
  by (simp_all add: has_option_def IsResponsePackage_def)

lemma ToPkgIdentityString_sealed [simp]: "ToPkgIdentityString (sealed h d) r = ToPkgIdentityString h r"
  by (simp add: ToPkgIdentityString_def)

lemma length_package [simp]: "head_ok h \<Longrightarrow> length (package h d) = sizeof_UartHead + length d"
  by (simp add: package_def)

lemma dec_package [simp]: "head_ok h \<Longrightarrow> dec_UartHead (package h d @ r) = sealed h d"
  "head_ok h \<Longrightarrow> dec_UartHead (package h d) = sealed h d"
  by (simp_all add: package_def)

lemma drop_enc_UartHead [simp]: "head_ok h \<Longrightarrow> drop sizeof_UartHead (enc_UartHead h @ d) = d"
  using length_enc_UartHead [of h] by simp

lemma drop_package [simp]: "head_ok h \<Longrightarrow> drop sizeof_UartHead (package h d @ r) = d @ r"
  "head_ok h \<Longrightarrow> drop sizeof_UartHead (package h d) = d"
  by (simp_all add: package_def)

lemma UpdateCheckSum_package:
  "head_ok h \<Longrightarrow> unat (uh_dataSize h) = length d \<Longrightarrow> UpdateCheckSum mem (enc_UartHead h @ d) = package h d"
  by (simp add: UpdateCheckSum_def Let_def data_sum_def package_def sealed_def)

lemma ValidateHead_sealed [simp]: "head_ok h \<Longrightarrow> ValidateHead (sealed h d)"
  by (simp add: ValidateHead_def sealed_def Let_def)

lemma ValidateData_package [simp]:
  "head_ok h \<Longrightarrow> unat (uh_dataSize h) = length d \<Longrightarrow> ValidateData (package h d @ r)"
  by (auto simp: ValidateData_def Let_def data_sum_def sealed_def)

section \<open>Keys\<close>

lemma decimal_inj: "decimal m @ CHR ''p'' # xs = decimal n @ CHR ''p'' # ys \<Longrightarrow> m = n"
proof -
  assume a: "decimal m @ CHR ''p'' # xs = decimal n @ CHR ''p'' # ys"
  have t: "takeWhile isdigit (decimal k @ CHR ''p'' # zs) = decimal k" for k zs
    using decimal_digits [of k] by (simp add: list_all_iff takeWhile_append2 isdigit_def)
  have "decimal m = decimal n" using arg_cong [OF a, of "takeWhile isdigit"] by (simp only: t)
  then show "m = n" using decimal_digits [of m] decimal_digits [of n] by metis
qed

lemma decimal_eq: "decimal m = decimal n \<longleftrightarrow> m = n"
  using decimal_inj [of m "[]" n "[]"] by auto

text \<open>The identity string determines session, index and kind of a package.\<close>

lemma ToPkgIdentityString_eq:
  "ToPkgIdentityString h r = ToPkgIdentityString h' r' \<longleftrightarrow>
     r = r' \<and> uh_sessionId h = uh_sessionId h' \<and> uh_packageIndex h = uh_packageIndex h'"
  (is "?l \<longleftrightarrow> ?r")
proof
  assume l: ?l
  have r: "r = r'" using l by (cases r; cases r'; simp add: ToPkgIdentityString_def)
  have d: "decimal (unat (uh_sessionId h)) @ ''pkgIdx:'' @ decimal (unat (uh_packageIndex h))
      = decimal (unat (uh_sessionId h')) @ ''pkgIdx:'' @ decimal (unat (uh_packageIndex h'))"
    using l r by (cases r'; simp add: ToPkgIdentityString_def)
  then have i: "unat (uh_sessionId h) = unat (uh_sessionId h')" by (intro decimal_inj) simp
  with d have "decimal (unat (uh_packageIndex h)) = decimal (unat (uh_packageIndex h'))" by simp
  with r i show ?r by (auto simp: decimal_eq dest: word_unat_eq_iff [THEN iffD2])
qed (simp add: ToPkgIdentityString_def)

section \<open>The list of packages\<close>

lemma find_if_None: "find_if P xs = None \<longleftrightarrow> (\<forall>x \<in> set xs. \<not> P x)"
proof -
  have "length (takeWhile Q xs) < length xs \<longleftrightarrow> (\<exists>x \<in> set xs. \<not> Q x)" for Q
    by (induction xs) auto
  then show ?thesis by (simp add: find_if_def Let_def)
qed

lemma find_if_Some:
  "find_if P xs = Some n \<Longrightarrow> n < length xs \<and> P (xs ! n) \<and> (\<forall>x \<in> set (take n xs). \<not> P x)"
  unfolding find_if_def Let_def
  using nth_length_takeWhile [of "\<lambda>x. \<not> P x" xs]
  by (auto simp: takeWhile_eq_take [symmetric] dest: set_takeWhileD split: if_splits)

lemma find_if_split:
  assumes "find_if P xs = Some n"
  obtains ys x zs where "xs = ys @ x # zs" "n = length ys" "P x" "\<forall>y \<in> set ys. \<not> P y"
  using find_if_Some [OF assms] id_take_nth_drop [of n xs]
  by (metis length_take min.absorb4)

end
