(* ===== verification/Hdc_UartReader.thy ===== *)
theory Hdc_UartReader
  imports Hdc_Uart Hdc_Framing
begin

unbundle bit_operations_syntax

text \<open>
  Reading the serial device: \<open>ReadUartDev\<close> of src/src/common/uart.cpp and the threads
  \<open>UartReadThread\<close> of src/src/host/host_uart.cpp and \<open>DeamonReadThread\<close> of
  src/src/daemon/daemon_uart.cpp. The processing of the read buffer is an instance of the framing
  contract, so packages arrive whole whatever the chunks; what a silence on the line throws away
  is shown on the read thread itself.
\<close>

section \<open>Packages of the link\<close>

text \<open>
  A package the peer builds when it neither resets nor frees: the head, with the size of the
  data, and the data.
\<close>

definition plain_package :: "UartHead \<times> bytes \<Rightarrow> bool" where
  "plain_package = (\<lambda>(h, d).
     uh_flag h = bytes_of PACKET_FLAG \<and> unat (uh_dataSize h) = length d
     \<and> length d \<le> packageDataMaxSize
     \<and> \<not> has_option h PKG_OPTION_RESET \<and> \<not> has_option h PKG_OPTION_FREE)"

lemma plain_package_head [simp]: "plain_package (h, d) \<Longrightarrow> head_ok h"
  by (simp add: plain_package_def head_ok_def PACKET_FLAG_def)

text \<open>What the link layer itself does with a package.\<close>

definition link_answer :: "UartHead \<Rightarrow> UartBase \<Rightarrow> UartBase" where
  "link_answer h s =
     (if IsResponsePackage h then ProcessResponsePackage h s
      else ResponseUartTrans (uh_sessionId h) (uh_packageIndex h) PKG_OPTION_ACK s)"

lemma ProcessResponsePackage_sealed [simp]:
  "ProcessResponsePackage (sealed h d) s = ProcessResponsePackage h s"
  by (simp add: ProcessResponsePackage_def split: option.split)

lemma ValidateUartPacket_whole:
  assumes "plain_package (h, d)"
  shows "ValidateUartPacket (package h d @ r) s =
    (RET_SUCCESS, uh_sessionId h, uh_packageIndex h, sizeof_UartHead + length d, link_answer h s)"
  using assms plain_package_head [OF assms]
  by (simp add: ValidateUartPacket_def Let_def plain_package_def hdc_consts link_answer_def)

lemma package_part:
  "head_ok h \<Longrightarrow> package h d = b @ r \<Longrightarrow> r \<noteq> [] \<Longrightarrow> length b < sizeof_UartHead + length d"
  using length_package [of h d] by (cases r) auto

lemma ValidateUartPacket_part:
  assumes "plain_package (h, d)" "package h d = b @ r" "r \<noteq> []" "sizeof_UartHead \<le> length b"
  shows "ValidateUartPacket b s =
    (RET_SUCCESS, uh_sessionId h, uh_packageIndex h, sizeof_UartHead + length d, s)"
proof -
  have k: "head_ok h" using assms(1) by simp
  have l: "length b < sizeof_UartHead + length d" by (rule package_part [OF k assms(2,3)])
  have "b = take (length b) (package h d)" using assms(2) by simp
  then have "b = enc_UartHead (sealed h d) @ take (length b - sizeof_UartHead) d"
    using assms(4) k by (simp add: package_def)
  then have "dec_UartHead b = sealed h d" using k dec_enc_UartHead [of "sealed h d"] by (metis sealed_fields(6))
  with l show ?thesis using assms(1) k
    by (simp add: ValidateUartPacket_def Let_def plain_package_def hdc_consts)
qed

section \<open>An instance of framing\<close>

text \<open>One round of the loop of \<open>PackageProcess\<close> for a known session.\<close>

definition uart_cut :: "u32 \<Rightarrow> UartBase cutter" where
  "uart_cut sid b s =
     (if length b < sizeof_UartHead then None
      else case ValidateUartPacket b s of (code, sessionId, idx, packetSize, s1) \<Rightarrow>
        if code \<noteq> RET_SUCCESS then Some (length b, s1)
        else if packetSize = sizeof_UartHead then Some (packetSize, s1)
        else if packetSize \<le> length b then
          Some (packetSize, snd (dispatch_package (Some sid) sessionId idx (take packetSize b) s1))
        else None)"

definition uart_deliver :: "u32 \<Rightarrow> UartHead \<times> bytes \<Rightarrow> UartBase \<Rightarrow> UartBase" where
  "uart_deliver sid = (\<lambda>(h, d) s.
     if d = [] then link_answer h s
     else snd (dispatch_package (Some sid) (uh_sessionId h) (uh_packageIndex h) (package h d)
       (link_answer h s)))"

interpretation uart: framing "\<lambda>(h, d). package h d" plain_package "uart_deliver sid" "uart_cut sid" for sid
proof (unfold_locales, goal_cases)
  case (1 s)
  show ?case by (simp add: uart_cut_def sizeof_UartHead_def)
next
  case (2 p r s)
  obtain h d where p: "p = (h, d)" by fastforce
  show ?case using 2 ValidateUartPacket_whole [of h d r s]
    by (auto simp: p uart_cut_def uart_deliver_def)
next
  case (3 p b r s)
  obtain h d where p: "p = (h, d)" by fastforce
  have k: "head_ok h" using 3(1) by (simp add: p)
  have "length b < sizeof_UartHead + length d" by (rule package_part [OF k]) (use 3 p in auto)
  then show ?case using 3 ValidateUartPacket_part [of h d b r s]
    by (auto simp: p uart_cut_def)
qed

text \<open>The loop is the loop of the contract; the session is found once and kept.\<close>

lemma dispatch_keeps_session: "fst (dispatch_package (Some sid) i j d s) = Some sid"
  by (simp add: dispatch_package_def)

lemma PackageProcess_whole:
  assumes "plain_package (h, d)"
  shows "PackageProcess (package h d @ r) (Some sid) s = PackageProcess r (Some sid) (uart_deliver sid (h, d) s)"
proof -
  obtain hs s2 where *: "dispatch_package (Some sid) (uh_sessionId h) (uh_packageIndex h) (package h d)
      (link_answer h s) = (hs, s2)" by fastforce
  then have "hs = Some sid" using dispatch_keeps_session by (metis fst_conv)
  then show ?thesis using assms plain_package_head [OF assms] *
    by (subst PackageProcess.simps) (simp add: ValidateUartPacket_whole uart_deliver_def)
qed

lemma PackageProcess_part:
  assumes "plain_package (h, d)" "package h d = b @ r" "r \<noteq> []"
  shows "snd (PackageProcess b (Some sid) s) = (b, s)"
proof -
  have "length b < sizeof_UartHead + length d"
    by (rule package_part [OF _ assms(2,3)]) (use assms(1) in simp)
  then show ?thesis using ValidateUartPacket_part [OF assms]
    by (subst PackageProcess.simps) auto
qed

lemma PackageProcess_drain:
  "\<forall>p \<in> set ps. plain_package p \<Longrightarrow> b @ r = concat (map (\<lambda>(h, d). package h d) ps) \<Longrightarrow>
     snd (PackageProcess b (Some sid) s) = drain (uart_cut sid) b s"
proof (induction ps arbitrary: b s)
  case Nil
  then show ?case by (simp add: PackageProcess.simps uart.drain_Nil sizeof_UartHead_def)
next
  case (Cons p ps)
  obtain h d where p: "p = (h, d)" by fastforce
  have k: "plain_package (h, d)" using Cons.prems(1) p by simp
  show ?case
  proof (cases "length b < length (package h d)")
    case True
    then obtain u where u: "b @ u = package h d" using Cons.prems(2)
      by (auto simp: p append_eq_append_conv2)
    then have "u \<noteq> []" using True by auto
    then show ?thesis
      using PackageProcess_part [OF k u [symmetric]] uart.drain_part [where p = "(h, d)" and b = b and r = u and s = s and sid = sid] k u by simp
  next
    case False
    then have "take (length (package h d)) b = package h d"
      using arg_cong [OF Cons.prems(2), of "take (length (package h d))"] by (simp add: p)
    then obtain b1 where b: "b = package h d @ b1" by (metis append_take_drop_id)
    then have "b1 @ r = concat (map (\<lambda>(h, d). package h d) ps)" using Cons.prems(2) by (simp add: p)
    then have "snd (PackageProcess b1 (Some sid) s') = drain (uart_cut sid) b1 s'" for s'
      using Cons by simp
    then show ?thesis using uart.drain_frame [where p = "(h, d)" and r = b1 and s = s and sid = sid] k
      by (simp add: b PackageProcess_whole [OF k])
  qed
qed


text \<open>What the loop expects next, from what it leaves in the buffer.\<close>

definition expects :: "bytes \<Rightarrow> nat" where
  "expects b =
     (if length b < sizeof_UartHead then if 1 < length b then sizeof_UartHead else 0
      else unat (uh_dataSize (dec_UartHead b)) + sizeof_UartHead)"

lemma PackageProcess_expects:
  "PackageProcess b hs s = (e, b', s') \<Longrightarrow> e = expects b'"
proof (induction b hs s arbitrary: rule: PackageProcess.induct)
  case (1 b hs s)
  show ?case
  proof (cases "length b < sizeof_UartHead")
    case True
    then show ?thesis using 1(4) by (auto simp: PackageProcess.simps [of b] expects_def)
  next
    case False
    obtain code i j n s1 where v: "ValidateUartPacket b s = (code, i, j, n, s1)" by (metis prod_cases5)
    obtain hs2 s2 where d: "dispatch_package hs i j (take n b) s1 = (hs2, s2)" by fastforce
    show ?thesis using 1(4) False v d ValidateUartPacket_size [of b s i j n s1]
      1(1-3) [OF False v [symmetric]]
      by (auto simp: PackageProcess.simps [of b] expects_def split: if_splits)
  qed
qed

section \<open>The device and the read threads\<close>

text \<open>
  What happens on the device: bytes are there to be read, \<open>select\<close> times out, or something fails.
  \<open>ReadUartDev\<close> returns its result (none while it waits), the read buffer and what happens later.
\<close>

datatype dev_event = DevData bytes | DevTimeout | DevError

fun ReadUartDev ::
  "bool \<Rightarrow> bool \<Rightarrow> nat \<Rightarrow> nat \<Rightarrow> bytes \<Rightarrow> dev_event list \<Rightarrow> int option \<times> bytes \<times> dev_event list"
where
  "ReadUartDev host ioCancel expectedSize totalBytesRead readBuf [] = (None, readBuf, [])"
| "ReadUartDev host ioCancel expectedSize totalBytesRead readBuf (ev # es) = (case ev of
     DevTimeout \<Rightarrow>
       if expectedSize = 0 then
         if host \<and> ioCancel then (Some (int totalBytesRead), readBuf, es)
         else ReadUartDev host ioCancel expectedSize totalBytesRead readBuf es
       else (Some (int totalBytesRead), readBuf, es)
   | DevError \<Rightarrow> (Some (-1), readBuf, es)
   | DevData d \<Rightarrow>
       if d = [] then (Some (-1), readBuf, es)
       else if length (readBuf @ d) < expectedSize then
         ReadUartDev host ioCancel expectedSize (totalBytesRead + length d) (readBuf @ d) es
       else (Some (int (totalBytesRead + length d)), readBuf @ d, es))"

lemma ReadUartDev_shorter:
  "ReadUartDev host c e t b es = (Some r, b', es') \<Longrightarrow> length es' < length es"
proof (induction es arbitrary: t b)
  case (Cons ev es)
  then show ?case by (fastforce split: dev_event.splits if_splits)
qed simp

definition MAX_READ_BUFFER :: nat where [hdc_consts]: "MAX_READ_BUFFER = MAX_UART_SIZE_IOBUF * 10"

text \<open>
  The thread of the host. \<open>stop\<close> is \<open>NeedStop\<close> and \<open>cancel\<close> the flag \<open>ioCancel\<close>. The result says
  whether the thread has left its loop; otherwise it waits for the device.
\<close>

function UartReadThread ::
  "(UartBase \<Rightarrow> bool) \<Rightarrow> bool \<Rightarrow> u32 \<Rightarrow> dev_event list \<Rightarrow> nat \<Rightarrow> bytes \<Rightarrow> UartBase \<Rightarrow> bool \<times> bytes \<times> UartBase"
where
  "UartReadThread stop cancel sid es expectedSize dataReadBuf s =
     (if MAX_READ_BUFFER \<le> length dataReadBuf \<or> stop s then (True, dataReadBuf, s)
      else case ReadUartDev True cancel expectedSize 0 dataReadBuf es of
          (None, b, es') \<Rightarrow> (False, b, s)
        | (Some bytesRead, b, es') \<Rightarrow>
            if bytesRead = 0 then UartReadThread stop cancel sid es' 0 [] s
            else let s1 = (if bytesRead < 0 then OnTransferError (Some sid) s else s) in
              if length b < sizeof_UartHead then UartReadThread stop cancel sid es' expectedSize b s1
              else case PackageProcess b (Some sid) s1 of (e, b', s2) \<Rightarrow>
                UartReadThread stop cancel sid es' e b' s2)"
  by pat_completeness auto
termination
  by (relation "measure (\<lambda>(stop, cancel, sid, es, e, b, s). length es)")
    (auto dest!: ReadUartDev_shorter [OF sym])

declare UartReadThread.simps [simp del]

text \<open>
  The thread of the daemon, which looks a session up for each buffer it processes. It ends when
  the read fails.
\<close>

function DeamonReadThread ::
  "dev_event list \<Rightarrow> nat \<Rightarrow> bytes \<Rightarrow> UartBase \<Rightarrow> bool \<times> bytes \<times> UartBase"
where
  "DeamonReadThread es expectedSize dataReadBuf s =
     (if MAX_READ_BUFFER \<le> length dataReadBuf then (True, dataReadBuf, s)
      else case ReadUartDev False False expectedSize 0 dataReadBuf es of
          (None, b, es') \<Rightarrow> (False, b, s)
        | (Some bytesRead, b, es') \<Rightarrow>
            if bytesRead = 0 then DeamonReadThread es' 0 [] s
            else if bytesRead < 0 then
              (True, b, ResponseUartTrans (currentSessionId s) 0 PKG_OPTION_FREE s)
            else if length b < sizeof_UartHead then DeamonReadThread es' expectedSize b s
            else case PackageProcess b None s of (e, b', s2) \<Rightarrow> DeamonReadThread es' e b' s2)"
  by pat_completeness auto
termination
  by (relation "measure (\<lambda>(es, e, b, s). length es)") (auto dest!: ReadUartDev_shorter [OF sym])

declare DeamonReadThread.simps [simp del]

section \<open>Packages arrive whole\<close>

abbreviation frames :: "(UartHead \<times> bytes) list \<Rightarrow> bytes" where
  "frames ps \<equiv> concat (map (\<lambda>(h, d). package h d) ps)"

lemma ReadUartDev_data:
  "[] \<notin> set cs \<Longrightarrow>
     (ReadUartDev host c e t b (map DevData cs) = (None, b @ concat cs, [])
        \<and> (cs = [] \<or> length (b @ concat cs) < e))
   \<or> (\<exists>c1 c2. cs = c1 @ c2 \<and> c1 \<noteq> [] \<and> ReadUartDev host c e t b (map DevData cs)
        = (Some (int (t + length (concat c1))), b @ concat c1, map DevData c2))"
proof (induction cs arbitrary: t b)
  case (Cons d cs)
  show ?case
  proof (cases "length (b @ d) < e")
    case False
    then show ?thesis using Cons.prems by (intro disjI2 exI [of _ "[d]"] exI [of _ cs]) auto
  next
    case True
    have r: "ReadUartDev host c e t b (map DevData (d # cs))
        = ReadUartDev host c e (t + length d) (b @ d) (map DevData cs)"
      using True Cons.prems by auto
    from Cons.prems have "[] \<notin> set cs" by simp
    from Cons.IH [OF this, of "t + length d" "b @ d"] show ?thesis
    proof (elim disjE conjE exE, goal_cases)
      case 1
      then show ?case using True Cons.prems by (simp only: r) auto
    next
      case 2
      then show ?case using True Cons.prems by (simp only: r) auto
    next
      case (3 c1 c2)
      then show ?case
        unfolding r by (intro disjI2) (rule exI [of _ "d # c1"], rule exI [of _ c2], simp)
    qed
  qed
qed simp

lemma PackageProcess_stream:
  assumes "\<forall>p \<in> set ps. plain_package p" "b @ r = frames ps"
  shows "\<exists>qs rs b' e. PackageProcess b (Some sid) s = (e, b', fold (uart_deliver sid) qs s) \<and> ps = qs @ rs
    \<and> b' @ r = frames rs
    \<and> (\<forall>p rs'. rs = p # rs' \<longrightarrow> length b' < length (package (fst p) (snd p)) \<and> e \<le> length (package (fst p) (snd p)))"
proof -
  obtain qs rs b' where d: "drain (uart_cut sid) b s = (b', fold (uart_deliver sid) qs s)" "ps = qs @ rs"
      "b' @ r = frames rs" "\<forall>p rs'. rs = p # rs' \<longrightarrow> length b' < length (case p of (h, d) \<Rightarrow> package h d)"
    using uart.drain_stream [OF assms, of sid s] by blast
  obtain e where e: "PackageProcess b (Some sid) s = (e, b', fold (uart_deliver sid) qs s)"
    using PackageProcess_drain [OF assms, of sid s] d(1) by (metis prod.collapse snd_conv)
  have "e \<le> length (package h d')" if rs: "rs = (h, d') # rs'" for h d' rs'
  proof -
    have k: "plain_package (h, d')" using assms(1) d(2) rs by simp
    have l: "length b' < length (package h d')" using d(4) rs by simp
    then obtain u where u: "package h d' = b' @ u" using d(3) rs
      by (auto simp: append_eq_append_conv2 eq_commute [of "package h d'"])
    then have "PackageProcess b' (Some sid) s = (expects b', b', s)"
      using PackageProcess_part [OF k u, of sid s] PackageProcess_expects [of b' "Some sid" s] l
      by (metis append_Nil2 nat_neq_iff prod.collapse fst_conv snd_conv)
    moreover have "fst (PackageProcess b' (Some sid) s) \<le> length (package h d')"
    proof (cases "length b' < sizeof_UartHead")
      case True
      then show ?thesis using k plain_package_head by (subst PackageProcess.simps) auto
    next
      case False
      have "u \<noteq> []" using u l by auto
      then show ?thesis using False ValidateUartPacket_part [OF k u] k l plain_package_head
        by (subst PackageProcess.simps) auto
    qed
    ultimately show ?thesis
      using PackageProcess_expects [OF e] by simp
  qed
  with e d show ?thesis by (intro exI [of _ qs] exI [of _ rs] exI [of _ b'] exI [of _ e]) auto
qed

lemma read_thread_stream:
  assumes "\<forall>s. \<not> stop s"
  shows "[] \<notin> set cs \<Longrightarrow> \<forall>p \<in> set ps. plain_package p \<Longrightarrow> b @ concat cs = frames ps \<Longrightarrow>
     \<forall>p rs. ps = p # rs \<longrightarrow> length b < length (package (fst p) (snd p)) \<and> e \<le> length (package (fst p) (snd p)) \<Longrightarrow>
     UartReadThread stop cancel sid (map DevData cs) e b s = (False, [], fold (uart_deliver sid) ps s)"
proof (induction "length cs" arbitrary: cs ps b e s rule: less_induct)
  case less
  have sz: "sizeof_UartHead \<le> length (package (fst p) (snd p)) \<and> length (package (fst p) (snd p)) \<le> 4096"
    if "p \<in> set ps" for p
  proof -
    have "plain_package (fst p, snd p)" using less.prems(2) that by simp
    then show ?thesis using plain_package_head [of "fst p" "snd p"]
      by (cases p) (simp add: plain_package_def hdc_consts)
  qed
  have b: "length b < 4096" if "ps \<noteq> []"
    using that less.prems(4) sz by (cases ps) fastforce+
  have nil: "b = []" "cs = []" if "ps = []" using that less.prems(1,3) by (cases cs; auto)+
  then have m: "\<not> (MAX_READ_BUFFER \<le> length b \<or> stop s)" using b assms
    by (cases "ps = []") (auto simp: hdc_consts)
  consider (wait) "ReadUartDev True cancel e 0 b (map DevData cs) = (None, b @ concat cs, [])"
      "cs = [] \<or> length (b @ concat cs) < e"
    | (read) c1 c2 where "cs = c1 @ c2" "c1 \<noteq> []" "ReadUartDev True cancel e 0 b (map DevData cs)
        = (Some (int (length (concat c1))), b @ concat c1, map DevData c2)"
    using ReadUartDev_data [OF less.prems(1), of True cancel e 0 b] by auto
  then show ?case
  proof cases
    case wait
    have "ps = []"
    proof (rule ccontr)
      assume "ps \<noteq> []"
      then obtain p rs where p: "ps = p # rs" by (cases ps) auto
      then have "length (package (fst p) (snd p)) \<le> length (b @ concat cs)"
        using less.prems(3) by (auto split: prod.splits)
      then show False using wait(2) less.prems(4) p by fastforce
    qed
    then show ?thesis using wait(1) m nil by (subst UartReadThread.simps) simp
  next
    case read
    have c1: "concat c1 \<noteq> []" using read(1,2) less.prems(1) by (cases c1) auto
    then have ps: "ps \<noteq> []" using nil read by auto
    have cs2: "length c2 < length cs" "[] \<notin> set c2" using read less.prems(1) by auto
    have eq: "(b @ concat c1) @ concat c2 = frames ps" using less.prems(3) read(1) by simp
    show ?thesis
    proof (cases "length (b @ concat c1) < sizeof_UartHead")
      case True
      have "UartReadThread stop cancel sid (map DevData c2) e (b @ concat c1) s
          = (False, [], fold (uart_deliver sid) ps s)"
        by (rule less.hyps [OF cs2 less.prems(2) eq])
          (use True sz less.prems(4) in \<open>fastforce simp: order.strict_trans2\<close>)
      then show ?thesis using True m c1 by (subst UartReadThread.simps) (auto simp: read(3))
    next
      case False
      obtain qs rs b' e' where q: "PackageProcess (b @ concat c1) (Some sid) s
          = (e', b', fold (uart_deliver sid) qs s)" "ps = qs @ rs" "b' @ concat c2 = frames rs"
          "\<forall>p rs'. rs = p # rs' \<longrightarrow> length b' < length (package (fst p) (snd p)) \<and> e' \<le> length (package (fst p) (snd p))"
        using PackageProcess_stream [OF less.prems(2) eq, of sid s] by blast
      have "UartReadThread stop cancel sid (map DevData c2) e' b' (fold (uart_deliver sid) qs s)
          = (False, [], fold (uart_deliver sid) rs (fold (uart_deliver sid) qs s))"
        by (rule less.hyps [OF cs2 _ q(3,4)]) (use less.prems(2) q(2) in auto)
      then show ?thesis using False m c1 q by (subst UartReadThread.simps) (auto simp: read(3))
    qed
  qed
qed

section \<open>Properties\<close>

text \<open>
  C25. Whatever chunks the device delivers, the read thread hands every package of the line to the
  link layer exactly once and in order, keeps nothing and stays in its loop.
\<close>

theorem UartReadThread_delivers:
  assumes "\<forall>s. \<not> stop s" and "\<forall>p \<in> set ps. plain_package p"
    and "[] \<notin> set cs" and "concat cs = frames ps"
  shows "UartReadThread stop cancel sid (map DevData cs) 0 [] s = (False, [], fold (uart_deliver sid) ps s)"
  using read_thread_stream [OF assms(1,3,2), of "[]" 0] assms(4) uart.frame_nonempty assms(2) by fastforce

definition sample_package :: "UartHead \<times> bytes" where
  "sample_package = (new_UartHead 7 PKG_OPTION_TAIL 2 1, [65, 66])"

definition sample_base :: "bool \<Rightarrow> UartBase" where
  "sample_base host =
     \<lparr> is_host = host, outPkgs = [], slots = {}, uart_sessions = [7 \<mapsto> new_uart_session host],
       currentSessionId = 0, requested = False, timed = False, timeoutPoint = 0, wire = [],
       calls = [], mem_behind = [], pipe_results = \<lambda>d. [(1, int (length d))], pseudoUid = 9 \<rparr>"

lemma sample_plain: "plain_package sample_package"
  by (simp add: sample_package_def plain_package_def new_UartHead_def has_option_def hdc_consts)

lemma sample_length: "length (frames [sample_package]) = 26"
  by (simp add: sample_package_def sizeof_UartHead_def)

lemma sample_parts: "take 25 (frames [sample_package]) \<noteq> []" "drop 25 (frames [sample_package]) \<noteq> []"
  using sample_length by (auto simp del: drop_eq_Nil2 simp: drop_eq_Nil)

theorem UartReadThread_delivers_witness:
  "UartReadThread (\<lambda>_. False) False 7
      (map DevData [take 25 (frames [sample_package]), drop 25 (frames [sample_package])]) 0 [] (sample_base True)
    = (False, [], fold (uart_deliver 7) [sample_package] (sample_base True))"
  by (rule UartReadThread_delivers) (use sample_plain sample_parts in auto)

text \<open>
  A package whose end was lost is thrown away after half a second of silence, and the packages
  behind it are then delivered as if it had never come.
\<close>

theorem silence_resynchronises:
  assumes "\<forall>s. \<not> stop s" and "plain_package (h, d)" and "package h d = b @ r" and "r \<noteq> []"
    and "sizeof_UartHead \<le> length b"
    and "\<forall>p \<in> set ps. plain_package p" and "[] \<notin> set cs" and "concat cs = frames ps"
  shows "UartReadThread stop cancel sid (DevData b # DevTimeout # map DevData cs) 0 [] s
    = (False, [], fold (uart_deliver sid) ps s)"
proof -
  have b: "b \<noteq> []" using assms(5) by (auto simp: sizeof_UartHead_def)
  have l: "length b < sizeof_UartHead + length d"
    by (rule package_part [OF _ assms(3,4)]) (use assms(2) in simp)
  then have p: "PackageProcess b (Some sid) s = (sizeof_UartHead + length d, b, s)"
    using ValidateUartPacket_part [OF assms(2-5)] assms(5) by (subst PackageProcess.simps) auto
  have m: "length b < MAX_READ_BUFFER"
    using l assms(2) by (simp add: plain_package_def hdc_consts)
  have "UartReadThread stop cancel sid (map DevData cs) 0 [] s = (False, [], fold (uart_deliver sid) ps s)"
    using read_thread_stream [OF assms(1,7,6), of "[]" 0] assms(6,8) uart.frame_nonempty by fastforce
  moreover have "UartReadThread stop cancel sid (DevTimeout # map DevData cs) (sizeof_UartHead + length d) b s
      = UartReadThread stop cancel sid (map DevData cs) 0 [] s"
    using m assms(1) by (subst UartReadThread.simps) (simp add: sizeof_UartHead_def)
  moreover have "UartReadThread stop cancel sid (DevData b # DevTimeout # map DevData cs) 0 [] s
      = UartReadThread stop cancel sid (DevTimeout # map DevData cs) (sizeof_UartHead + length d) b s"
    using b p assms(1,5) by (subst UartReadThread.simps) (simp add: hdc_consts)
  ultimately show ?thesis by simp
qed

theorem silence_resynchronises_witness:
  "UartReadThread (\<lambda>_. False) False 7
     (DevData (take 25 (frames [sample_package])) # DevTimeout # map DevData [frames [sample_package]]) 0 []
     (sample_base True)
   = (False, [], fold (uart_deliver 7) [sample_package] (sample_base True))"
proof (rule silence_resynchronises)
  show "package (fst sample_package) (snd sample_package)
      = take 25 (frames [sample_package]) @ drop 25 (frames [sample_package])"
    by (simp add: case_prod_unfold)
  show "sizeof_UartHead \<le> length (take 25 (frames [sample_package]))"
    using sample_length by (simp add: sizeof_UartHead_def)
qed (use sample_plain sample_length sample_parts in auto)

text \<open>
  A single byte of noise between packages costs the next package: the reader waits for more
  without a time limit, finds no magic word and throws the package away with the byte. It is not
  acknowledged and reaches no session.
\<close>

theorem stray_byte_loses_package:
  assumes "\<not> stop s" and "plain_package (h, d)"
  shows "UartReadThread stop False sid
      (DevData [x] # replicate n DevTimeout @ [DevData (package h d)]) 0 [] s = (False, [], s)"
proof -
  have k: "head_ok h" using assms(2) by simp
  have r: "ReadUartDev True False 0 t [x] (replicate n DevTimeout @ [DevData (package h d)])
      = (Some (int (t + length (package h d))), [x] @ package h d, [])" for t
    using k by (induction n) (simp_all add: sizeof_UartHead_def flip: length_greater_0_conv)
  obtain ys where ys: "package h d = byte_of_char CHR ''H'' # ys" using assms(2)
    by (simp add: package_def enc_UartHead_def plain_package_def PACKET_FLAG_def)
  have "byte_of_char CHR ''H'' \<noteq> byte_of_char CHR ''W''" by (simp add: byte_of_char_def)
  then have f: "uh_flag (dec_UartHead ([x] @ package h d)) \<noteq> bytes_of PACKET_FLAG"
    by (simp add: ys dec_UartHead_def PACKET_FLAG_def numeral_2_eq_2)
  have p: "PackageProcess ([x] @ package h d) (Some sid) s = (0, [], s)"
    using f k by (subst PackageProcess.simps)
      (simp add: ValidateUartPacket_def Let_def PackageProcess.simps [of "[]"] sizeof_UartHead_def)
  have "\<not> MAX_READ_BUFFER \<le> length [x]" "\<not> MAX_READ_BUFFER \<le> length ([] :: bytes)" by (simp_all add: hdc_consts)
  note m = this assms(1)
  have e: "UartReadThread stop False sid [] 0 [] s = (False, [], s)"
    by (subst UartReadThread.simps) (use m in simp)
  have "UartReadThread stop False sid (replicate n DevTimeout @ [DevData (package h d)]) 0 [x] s
      = UartReadThread stop False sid [] 0 [] s"
    by (subst UartReadThread.simps) (use m r [of 0] p k in \<open>simp add: sizeof_UartHead_def\<close>)
  moreover have "UartReadThread stop False sid (DevData [x] # replicate n DevTimeout @ [DevData (package h d)]) 0 [] s
      = UartReadThread stop False sid (replicate n DevTimeout @ [DevData (package h d)]) 0 [x] s"
    by (subst UartReadThread.simps) (use m in \<open>simp add: sizeof_UartHead_def\<close>)
  ultimately show ?thesis using e by simp
qed

theorem stray_byte_loses_package_witness:
  "UartReadThread (\<lambda>_. False) False 7
     (DevData [0] # replicate 3 DevTimeout @ [DevData (frames [sample_package])]) 0 [] (sample_base True)
   = (False, [], sample_base True)"
  using stray_byte_loses_package [of "\<lambda>_. False" "sample_base True" "fst sample_package" "snd sample_package" 7 0 3]
    sample_plain by (simp add: case_prod_unfold)

end
