(* ===== verification/Hdc_UartLink.thy ===== *)
theory Hdc_UartLink
  imports Hdc_UartReader
begin

unbundle bit_operations_syntax

text \<open>
  What the link layer of the serial line promises: two ends, each with the state of Hdc_Uart, and
  a line between them that may lose packages but keeps their order. Both ends send and receive at
  the same time. As long as no session is given up, what an end has received is a front part of
  what the other was given to send, and all of it once the sender waits for nothing.
\<close>

section \<open>Packages of a session\<close>

definition ack_pkg :: "u32 \<Rightarrow> u32 \<Rightarrow> bytes" where
  "ack_pkg sid i = package (new_UartHead sid PKG_OPTION_ACK 0 i) []"

definition data_head :: "u32 \<Rightarrow> u16 \<Rightarrow> bytes \<Rightarrow> u32 \<Rightarrow> UartHead" where
  "data_head sid opt d i = new_UartHead sid opt (word_of_nat (length d)) i"

definition data_pkg :: "u32 \<Rightarrow> u32 \<Rightarrow> bytes \<Rightarrow> bytes \<Rightarrow> bool" where
  "data_pkg sid i d b \<longleftrightarrow> d \<noteq> [] \<and> length d \<le> packageDataMaxSize
     \<and> (\<exists>opt \<in> {0, PKG_OPTION_TAIL}. b = package (data_head sid opt d i) d)"

definition is_resp :: "bytes \<Rightarrow> bool" where
  "is_resp b \<longleftrightarrow> IsResponsePackage (dec_UartHead b)"

definition ack_key :: "u32 \<Rightarrow> u32 \<Rightarrow> string" where
  "ack_key sid i = ToPkgIdentityString (new_UartHead sid PKG_OPTION_ACK 0 i) True"

definition data_key :: "u32 \<Rightarrow> u32 \<Rightarrow> string" where
  "data_key sid i = ToPkgIdentityString (new_UartHead sid 0 0 i) False"

lemma new_UartHead_fields [simp]:
  "uh_flag (new_UartHead sid opt n i) = bytes_of PACKET_FLAG" "uh_option (new_UartHead sid opt n i) = opt"
  "uh_sessionId (new_UartHead sid opt n i) = sid" "uh_dataSize (new_UartHead sid opt n i) = n"
  "uh_packageIndex (new_UartHead sid opt n i) = i"
  by (simp_all add: new_UartHead_def)

lemma data_head_fields [simp]:
  "uh_sessionId (data_head sid opt d i) = sid" "uh_packageIndex (data_head sid opt d i) = i"
  "uh_option (data_head sid opt d i) = opt" "head_ok (data_head sid opt d i)"
  by (simp_all add: data_head_def)

lemma key_eqs [simp]:
  "ack_key sid i = ack_key sid j \<longleftrightarrow> i = j" "data_key sid i = data_key sid j \<longleftrightarrow> i = j"
  "ack_key sid i \<noteq> data_key sid j" "data_key sid j \<noteq> ack_key sid i"
  by (simp_all add: ack_key_def data_key_def ToPkgIdentityString_eq)

lemma key_of [simp]:
  "ToPkgIdentityString (data_head sid opt d i) False = data_key sid i"
  "ToPkgIdentityString (new_UartHead sid opt n i) False = data_key sid i"
  "ToPkgIdentityString (new_UartHead sid opt n i) True = ack_key sid i"
  by (simp_all add: ack_key_def data_key_def ToPkgIdentityString_def)

lemma unat_dataSize: "length d \<le> packageDataMaxSize \<Longrightarrow> unat (word_of_nat (length d) :: u32) = length d"
  by (simp add: unat_of_nat hdc_consts)

lemma data_plain:
  "length d \<le> packageDataMaxSize \<Longrightarrow> opt \<in> {0, PKG_OPTION_TAIL} \<Longrightarrow> plain_package (data_head sid opt d i, d)"
  using unat_dataSize [of d] by (auto simp: plain_package_def data_head_def has_option_def hdc_consts)

lemma ack_plain: "plain_package (new_UartHead sid PKG_OPTION_ACK 0 i, [])"
  by (simp add: plain_package_def has_option_def hdc_consts)

lemma resp_simps [simp]:
  "is_resp (ack_pkg sid i)" "data_pkg sid i d b \<Longrightarrow> \<not> is_resp b"
  by (auto simp: is_resp_def ack_pkg_def data_pkg_def IsResponsePackage_def has_option_def hdc_consts)

lemma data_pkg_index:
  "data_pkg sid i d b \<Longrightarrow> data_pkg sid j e b \<Longrightarrow> i = j \<and> d = e"
  by (auto simp: data_pkg_def) (metis data_head_fields dec_package(2) sealed_fields(5) drop_package(2))+

lemma ack_pkg_eq [simp]: "ack_pkg sid i = ack_pkg sid j \<longleftrightarrow> i = j"
  by (metis ack_pkg_def dec_package(2) head_ok_new new_UartHead_fields(5) sealed_fields(5))

section \<open>One package at one end\<close>

lemma PackageProcess_one:
  assumes "plain_package (h, d)"
  shows "PackageProcess (package h d) hs s =
    (0, [], if d = [] then link_answer h s
            else snd (dispatch_package hs (uh_sessionId h) (uh_packageIndex h) (package h d) (link_answer h s)))"
proof -
  have n: "PackageProcess [] hs' s' = (0, [], s')" for hs' s'
    by (subst PackageProcess.simps) (simp add: sizeof_UartHead_def)
  have k: "head_ok h" using assms by simp
  show ?thesis using ValidateUartPacket_whole [OF assms, of "[]" s] k n
    by (subst PackageProcess.simps) (auto split: prod.split)
qed

text \<open>The packages an end holds for the session: at rest an acknowledgement is only ever waiting.\<close>

definition data_out :: "UartBase \<Rightarrow> HandleOutputPkg list" where
  "data_out s = filter (\<lambda>p. \<not> response p) (outPkgs s)"

definition resp_bufs :: "UartBase \<Rightarrow> bytes list" where
  "resp_bufs s = map msgSendBuf (filter response (outPkgs s))"

definition pkg_ok :: "u32 \<Rightarrow> HandleOutputPkg \<Rightarrow> bool" where
  "pkg_ok sid p \<longleftrightarrow> pkg_sessionId p = sid \<and>
     (if response p
      then pkgStatus p = PKG_WAIT_SEND \<and> (\<exists>i. msgSendBuf p = ack_pkg sid i \<and> pkg_key p = ack_key sid i)
      else \<exists>i d. data_pkg sid i d (msgSendBuf p) \<and> pkg_key p = data_key sid i)"

definition sess :: "u32 \<Rightarrow> UartBase \<Rightarrow> uart_session" where
  "sess sid s = (case uart_sessions s sid of Some u \<Rightarrow> u | None \<Rightarrow> new_uart_session False)"

definition pipe_ok :: "UartBase \<Rightarrow> bool" where
  "pipe_ok s \<longleftrightarrow> (\<forall>d. pipe_loop (pipe_results s d) (length d) 0 = length d)"

definition end_ok :: "u32 \<Rightarrow> UartBase \<Rightarrow> bool" where
  "end_ok sid s \<longleftrightarrow> list_all (pkg_ok sid) (outPkgs s) \<and> pipe_ok s \<and> us_open (sess sid s)
     \<and> (is_host s \<longrightarrow> uart_sessions s sid \<noteq> None)"

text \<open>The part of the state the other operations leave alone.\<close>

definition same_env :: "u32 \<Rightarrow> UartBase \<Rightarrow> UartBase \<Rightarrow> bool" where
  "same_env sid s s' \<longleftrightarrow> is_host s' = is_host s \<and> pipe_results s' = pipe_results s \<and> wire s' = wire s
     \<and> us_open (sess sid s') = us_open (sess sid s) \<and> packageIndex (hUART (sess sid s')) = packageIndex (hUART (sess sid s))
     \<and> (uart_sessions s sid \<noteq> None \<longrightarrow> uart_sessions s' sid \<noteq> None)
     \<and> set (calls s) \<subseteq> set (calls s')"

lemma NotifyTransfer_fields [simp]:
  "outPkgs (NotifyTransfer s) = outPkgs s" "slots (NotifyTransfer s) = slots s"
  "uart_sessions (NotifyTransfer s) = uart_sessions s" "calls (NotifyTransfer s) = calls s"
  "is_host (NotifyTransfer s) = is_host s" "pipe_results (NotifyTransfer s) = pipe_results s"
  "wire (NotifyTransfer s) = wire s" "currentSessionId (NotifyTransfer s) = currentSessionId s"
  "sess sid (NotifyTransfer s) = sess sid s"
  by (simp_all add: NotifyTransfer_def sess_def)

lemma ack_request:
  fixes i :: u32
  assumes "end_ok sid s"
  defines "s' \<equiv> ResponseUartTrans sid i PKG_OPTION_ACK s"
  shows "resp_bufs s' = resp_bufs s \<or> resp_bufs s' = resp_bufs s @ [ack_pkg sid i]"
    and "data_out s' = data_out s" and "slots s' = slots s" and "uart_sessions s' = uart_sessions s"
    and "calls s' = calls s" and "end_ok sid s'" and "same_env sid s s'"
    and "currentSessionId s' = currentSessionId s"
proof -
  let ?h = "new_UartHead sid PKG_OPTION_ACK 0 i"
  let ?p = "\<lparr> pkg_key = ack_key sid i, pkg_sessionId = sid, response = True, pkg_ack = True,
    pkgStatus = PKG_WAIT_SEND, msgSendBuf = ack_pkg sid i, retryChance = 4, sendTimePoint = 0 \<rparr>"
  have u: "UpdateCheckSum m (enc_UartHead ?h) = ack_pkg sid i" for m
    using UpdateCheckSum_package [of ?h "[]" m] by (simp add: ack_pkg_def)
  have r: "IsResponsePackage ?h" "has_option ?h PKG_OPTION_ACK"
    by (simp_all add: IsResponsePackage_def has_option_def hdc_consts)
  have s': "s' = NotifyTransfer s \<or> s' = NotifyTransfer (s\<lparr>outPkgs := outPkgs s @ [?p]\<rparr>)"
    by (simp add: s'_def ResponseUartTrans_def add_package_def Let_def u r split: option.split)
  have k: "pkg_ok sid ?p" by (auto simp: pkg_ok_def)
  from s' show "resp_bufs s' = resp_bufs s \<or> resp_bufs s' = resp_bufs s @ [ack_pkg sid i]"
    by (auto simp: resp_bufs_def)
  from s' show "data_out s' = data_out s" "slots s' = slots s" "uart_sessions s' = uart_sessions s"
    "calls s' = calls s" "currentSessionId s' = currentSessionId s"
    by (auto simp: data_out_def)
  from s' show "end_ok sid s'" "same_env sid s s'" using assms(1) k
    by (auto simp: end_ok_def pipe_ok_def same_env_def sess_def)
qed

lemma ack_arrives:
  fixes i :: u32
  assumes "end_ok sid s"
  defines "s' \<equiv> ProcessResponsePackage (new_UartHead sid PKG_OPTION_ACK 0 i) s"
  shows "resp_bufs s' = resp_bufs s" and "uart_sessions s' = uart_sessions s" and "calls s' = calls s"
    and "end_ok sid s'" and "same_env sid s s'"
    and "data_out s = [] \<Longrightarrow> data_out s' = [] \<and> slots s' = slots s"
    and "data_out s = [p] \<Longrightarrow> pkg_key p = data_key sid n \<Longrightarrow>
      (if i = n then data_out s' = [] \<and> slots s' = slots s - {sid} else data_out s' = [p] \<and> slots s' = slots s)"
proof -
  let ?F = "find_if (\<lambda>p. pkg_key p = data_key sid i) (outPkgs s)"
  have ack: "has_option (new_UartHead sid PKG_OPTION_ACK 0 i) PKG_OPTION_ACK"
    by (simp add: has_option_def hdc_consts)
  have k: "list_all (pkg_ok sid) (outPkgs s)" using assms(1) by (simp add: end_ok_def)
  have "resp_bufs s' = resp_bufs s \<and> uart_sessions s' = uart_sessions s \<and> calls s' = calls s
    \<and> end_ok sid s' \<and> same_env sid s s' \<and> (data_out s = [] \<longrightarrow> data_out s' = [] \<and> slots s' = slots s)
    \<and> (data_out s = [p] \<and> pkg_key p = data_key sid n \<longrightarrow>
      (if i = n then data_out s' = [] \<and> slots s' = slots s - {sid} else data_out s' = [p] \<and> slots s' = slots s))"
  proof (cases ?F)
    case None
    then have s': "s' = NotifyTransfer s" by (simp add: s'_def ProcessResponsePackage_def)
    have "i \<noteq> n" if "data_out s = [p]" "pkg_key p = data_key sid n"
    proof -
      have "p \<in> set (data_out s)" using that(1) by simp
      then have "p \<in> set (outPkgs s)" by (simp add: data_out_def)
      then show ?thesis using None that(2) by (auto simp: find_if_None)
    qed
    then show ?thesis using assms(1)
      by (auto simp: s' resp_bufs_def data_out_def end_ok_def same_env_def pipe_ok_def)
  next
    case (Some m)
    then obtain ys x zs where x: "outPkgs s = ys @ x # zs" "m = length ys" "pkg_key x = data_key sid i"
      by (rule find_if_split)
    have r: "\<not> response x" "pkg_sessionId x = sid" using k x by (auto simp: pkg_ok_def)
    have s': "s' = NotifyTransfer (s\<lparr>slots := slots s - {sid}, outPkgs := ys @ zs\<rparr>)"
      using Some ack by (simp add: s'_def ProcessResponsePackage_def x r)
    have d: "data_out s = filter (\<lambda>p. \<not> response p) ys @ x # filter (\<lambda>p. \<not> response p) zs"
      "data_out s' = filter (\<lambda>p. \<not> response p) (ys @ zs)"
      using x r by (simp_all add: data_out_def s')
    have rest: "resp_bufs s' = resp_bufs s" "uart_sessions s' = uart_sessions s" "calls s' = calls s"
      "slots s' = slots s - {sid}"
      using x r by (simp_all add: s' resp_bufs_def)
    have e: "end_ok sid s'" "same_env sid s s'"
      using assms(1) k x by (simp_all add: s' end_ok_def pipe_ok_def same_env_def sess_def)
    have "i = n" "data_out s' = []" if "data_out s = [p]" "pkg_key p = data_key sid n"
    proof -
      have "filter (\<lambda>p. \<not> response p) ys = [] \<and> p = x \<and> filter (\<lambda>p. \<not> response p) zs = []"
        using that(1) unfolding d(1) by (cases "filter (\<lambda>p. \<not> response p) ys") auto
      then show "i = n" "data_out s' = []" using that(2) x(3) d(2) by auto
    qed
    then show ?thesis using rest e d(1) by auto
  qed
  then show "resp_bufs s' = resp_bufs s" "uart_sessions s' = uart_sessions s" "calls s' = calls s"
    "end_ok sid s'" "same_env sid s s'" "data_out s = [] \<Longrightarrow> data_out s' = [] \<and> slots s' = slots s"
    "data_out s = [p] \<Longrightarrow> pkg_key p = data_key sid n \<Longrightarrow>
      (if i = n then data_out s' = [] \<and> slots s' = slots s - {sid} else data_out s' = [p] \<and> slots s' = slots s)"
    by blast+
qed

text \<open>A package with data: it reaches the session once.\<close>

definition reader_of :: "u32 \<Rightarrow> UartBase \<Rightarrow> u32 option" where
  "reader_of sid s = (if is_host s then Some sid else None)"

lemma data_dispatched:
  assumes "end_ok sid s" and "sid \<noteq> 0" and "data_pkg sid i d b"
  defines "s' \<equiv> snd (dispatch_package (reader_of sid s) sid i b s)"
  shows "outPkgs s' = outPkgs s" and "slots s' = slots s" and "end_ok sid s'" and "same_env sid s s'"
    and "FreeSession sid \<in> set (calls s') \<longleftrightarrow> FreeSession sid \<in> set (calls s)"
    and "dispatchedPackageIndex (hUART (sess sid s')) = i"
    and "us_stream (sess sid s') = us_stream (sess sid s)
      @ (if dispatchedPackageIndex (hUART (sess sid s)) = i then [] else d)"
    and "requested s' = requested s" and "uart_sessions s' sid \<noteq> None"
proof -
  obtain opt where b: "b = package (data_head sid opt d i) d" and l: "d \<noteq> []" "length d \<le> packageDataMaxSize"
    using assms(3) by (auto simp: data_pkg_def)
  have dec: "dec_UartHead b = sealed (data_head sid opt d i) d" "drop sizeof_UartHead b = d"
    "sizeof_UartHead \<le> length b"
    using b by simp_all
  have sz: "unat (uh_dataSize (data_head sid opt d i)) = length d"
    using unat_dataSize [OF l(2)] by (simp add: data_head_def)
  define s0 where "s0 = (if uart_sessions s sid = None then snd (PrepareNewSession sid s) else s)"
  have s0: "outPkgs s0 = outPkgs s" "slots s0 = slots s" "uart_sessions s0 = (uart_sessions s)(sid \<mapsto> sess sid s)"
    "pipe_results s0 = pipe_results s" "is_host s0 = is_host s" "wire s0 = wire s"
    "requested s0 = requested s"
    "set (calls s) \<subseteq> set (calls s0)" "FreeSession sid \<in> set (calls s0) \<longleftrightarrow> FreeSession sid \<in> set (calls s)"
    using assms(2) by (auto simp: s0_def PrepareNewSession_def Let_def call_def sess_def)
  have n: "PrepareNewSession sid s = (Some sid, snd (PrepareNewSession sid s))"
    using assms(2) by (simp add: PrepareNewSession_def Let_def)
  have "GetSession sid True s = (Some sid, s0)" if "\<not> is_host s"
    using that n by (auto simp: GetSession_def s0_def)
  moreover have "s0 = s" if "is_host s" using that assms(1) by (auto simp: s0_def end_ok_def)
  ultimately have g: "dispatch_package (reader_of sid s) sid i b s = dispatch_package (Some sid) sid i b s0"
    by (cases "is_host s") (simp_all add: reader_of_def dispatch_package_def)
  have pr: "pipe_loop (pipe_results s0 d) (length d) 0 = length d"
    using assms(1) s0(4) by (simp add: end_ok_def pipe_ok_def)
  let ?u = "sess sid s"
  have s': "s' = (if dispatchedPackageIndex (hUART ?u) = i then s0
    else s0\<lparr>uart_sessions := (uart_sessions s)(sid \<mapsto> ?u\<lparr>hUART :=
      (hUART ?u)\<lparr>dispatchedPackageIndex := i, streamSize := streamSize (hUART ?u) + length d\<rparr>,
      us_stream := us_stream ?u @ d\<rparr>)\<rparr>)"
    unfolding s'_def g using pr l by (simp add: dispatch_package_def s0 DispatchToWorkThread_def UartSendToHdcStream_def
        dec sz upd_hUART_def UartToHdcProtocol_def Let_def not_less [THEN iffD2])
  show "outPkgs s' = outPkgs s" "slots s' = slots s" "requested s' = requested s" "uart_sessions s' sid \<noteq> None"
    "FreeSession sid \<in> set (calls s') \<longleftrightarrow> FreeSession sid \<in> set (calls s)"
    by (simp_all add: s' s0)
  show "end_ok sid s'" "same_env sid s s'"
    using assms(1) s0 by (auto simp: s' end_ok_def same_env_def pipe_ok_def sess_def)
  show "dispatchedPackageIndex (hUART (sess sid s')) = i"
    "us_stream (sess sid s') = us_stream (sess sid s)
      @ (if dispatchedPackageIndex (hUART (sess sid s)) = i then [] else d)"
    using s0(3) by (auto simp: s' sess_def)
qed

section \<open>One run of the sending loop\<close>

text \<open>The device takes whatever is written to it.\<close>

definition good_io :: "device \<Rightarrow> bool" where
  "good_io io \<longleftrightarrow> (\<forall>b. write_loop (io b) (length b) 0 = (True, length b))"

definition env_ok :: "u32 \<Rightarrow> UartBase \<Rightarrow> bool" where
  "env_ok sid s \<longleftrightarrow> pipe_ok s \<and> us_open (sess sid s) \<and> (is_host s \<longrightarrow> uart_sessions s sid \<noteq> None)"

lemma end_ok_env: "end_ok sid s \<longleftrightarrow> list_all (pkg_ok sid) (outPkgs s) \<and> env_ok sid s"
  by (auto simp: end_ok_def env_ok_def)

definition same_rest :: "UartBase \<Rightarrow> UartBase \<Rightarrow> bool" where
  "same_rest s s' \<longleftrightarrow> uart_sessions s' = uart_sessions s \<and> slots s' = slots s \<and> is_host s' = is_host s
     \<and> pipe_results s' = pipe_results s \<and> calls s' = calls s"

lemma same_rest_env: "same_rest s s' \<Longrightarrow> env_ok sid s' \<longleftrightarrow> env_ok sid s"
  by (simp add: same_rest_def env_ok_def pipe_ok_def sess_def)

definition core :: "HandleOutputPkg \<Rightarrow> string \<times> bytes" where
  "core p = (pkg_key p, msgSendBuf p)"

lemma pkg_ok_buf:
  assumes "pkg_ok sid p"
  shows "uh_sessionId (dec_UartHead (msgSendBuf p)) = sid"
    and "IsResponsePackage (dec_UartHead (msgSendBuf p)) = response p"
    and "is_resp (msgSendBuf p) = response p" and "msgSendBuf p \<noteq> []"
proof -
  consider i where "response p" "msgSendBuf p = ack_pkg sid i"
    | i d opt where "\<not> response p" "opt \<in> {0, PKG_OPTION_TAIL}" "msgSendBuf p = package (data_head sid opt d i) d"
    using assms unfolding pkg_ok_def data_pkg_def by (cases "response p") auto
  then have "uh_sessionId (dec_UartHead (msgSendBuf p)) = sid
    \<and> IsResponsePackage (dec_UartHead (msgSendBuf p)) = response p \<and> sizeof_UartHead \<le> length (msgSendBuf p)"
    by cases (auto simp: ack_pkg_def IsResponsePackage_def has_option_def PKG_OPTION_ACK_def
        PKG_OPTION_NAK_def PKG_OPTION_TAIL_def)
  then show "uh_sessionId (dec_UartHead (msgSendBuf p)) = sid"
    "IsResponsePackage (dec_UartHead (msgSendBuf p)) = response p"
    "is_resp (msgSendBuf p) = response p" "msgSendBuf p \<noteq> []"
    by (auto simp: is_resp_def sizeof_UartHead_def)
qed

lemma raw_written:
  assumes "pkg_ok sid p" "env_ok sid s" "good_io io"
  shows "snd (SendUARTRaw io (msgSendBuf p) s) =
    (if response p \<or> uart_sessions s sid \<noteq> None then s\<lparr>wire := wire s @ [msgSendBuf p]\<rparr> else s)"
proof -
  have "write_loop (io (msgSendBuf p)) (length (msgSendBuf p)) 0 = (True, length (msgSendBuf p))"
    using assms(3) by (simp add: good_io_def)
  then show ?thesis using assms(2) pkg_ok_buf [OF assms(1)]
    by (auto simp: SendUARTRaw_def WriteUartDev_def Let_def env_ok_def sess_def split: option.split)
qed

definition sent_ok :: "u32 \<Rightarrow> HandleOutputPkg list \<Rightarrow> HandleOutputPkg list \<Rightarrow> bytes list \<Rightarrow> UartBase \<Rightarrow> bool" where
  "sent_ok sid passed pkgs ws s' \<longleftrightarrow>
     map msgSendBuf (filter response pkgs) = filter is_resp ws @ resp_bufs s'
     \<and> map core (data_out s') = map core (filter (\<lambda>p. \<not> response p) (passed @ pkgs))
     \<and> (\<forall>b \<in> set ws. \<not> is_resp b \<longrightarrow> b \<in> msgSendBuf ` set (filter (\<lambda>p. \<not> response p) pkgs))
     \<and> list_all (pkg_ok sid) (outPkgs s')"

lemma pkg_ok_updates [simp]:
  "\<not> response p \<Longrightarrow> pkg_ok sid (p\<lparr>pkgStatus := st, sendTimePoint := t\<rparr>) = pkg_ok sid p"
  "\<not> response p \<Longrightarrow> pkg_ok sid (p\<lparr>pkgStatus := st, retryChance := r\<rparr>) = pkg_ok sid p"
  "core (p\<lparr>pkgStatus := st, sendTimePoint := t\<rparr>) = core p"
  "core (p\<lparr>pkgStatus := st, retryChance := r\<rparr>) = core p"
  by (simp_all add: pkg_ok_def core_def)

lemma send_loop_effect:
  "send_loop io now W passed pkgs s = Some s' \<Longrightarrow> good_io io \<Longrightarrow> env_ok sid s \<Longrightarrow>
     list_all (pkg_ok sid) (passed @ pkgs) \<Longrightarrow> list_all (\<lambda>p. \<not> response p) passed \<Longrightarrow>
     FreeSession sid \<notin> set (calls s') \<Longrightarrow>
     \<exists>ws. wire s' = wire s @ ws \<and> sent_ok sid passed pkgs ws s' \<and> same_rest s s'"
proof (induction pkgs arbitrary: W passed s)
  case Nil
  then have "filter response passed = []" by (simp add: list_all_iff filter_empty_conv)
  with Nil show ?case
    by (intro exI [of _ "[]"]) (auto simp: sent_ok_def resp_bufs_def data_out_def same_rest_def)
next
  case (Cons p ps)
  let ?s = "s\<lparr>outPkgs := passed @ p # ps\<rparr>"
  have p: "pkg_ok sid p" and np: "filter response passed = []"
    using Cons.prems(4,5) by (simp_all add: list_all_iff filter_empty_conv)
  have e: "env_ok sid ?s" using Cons.prems(3) by (simp add: env_ok_def pipe_ok_def sess_def)
  have stay: ?case if "outPkgs s' = passed @ p' # ps" "core p' = core p" "response p' = response p" "pkg_ok sid p'"
      "same_rest s s'" "wire s' = wire s" for p'
    using that np Cons.prems(4)
    by (intro exI [of _ "[]"]) (auto simp: sent_ok_def resp_bufs_def data_out_def core_def)
  show ?case
  proof (cases "pkgStatus p = PKG_WAIT_SEND")
    case False
    then have r: "\<not> response p" using p by (auto simp: pkg_ok_def)
    show ?thesis
    proof (cases "WaitResponseTimeOutMs \<le> now - sendTimePoint p")
      case True
      show ?thesis
      proof (cases "0 < retryChance p")
        case chance: True
        then show ?thesis using Cons.prems(1) False True r p
          by (intro stay [of "p\<lparr>pkgStatus := PKG_WAIT_SEND, retryChance := retryChance p - 1\<rparr>"])
            (auto simp: same_rest_def)
      next
        case chance: False
        have "uart_sessions s sid = None"
        proof (rule ccontr)
          assume "uart_sessions s sid \<noteq> None"
          then have "s' = OnTransferError (Some sid) ?s"
            using Cons.prems(1) False True chance p by (simp add: pkg_ok_def)
          then show False using Cons.prems(6)
            by (cases "is_host s") (simp_all add: OnTransferError_def HostOnTransferError_def
                DaemonOnTransferError_def Let_def ClearUARTOutMap_def call_def)
        qed
        then have "s' = OnTransferError None ?s"
          using Cons.prems(1) False True chance p by (simp add: pkg_ok_def)
        then show ?thesis using p
          by (intro stay [of p])
            (auto simp: OnTransferError_def HostOnTransferError_def DaemonOnTransferError_def same_rest_def)
      qed
    next
      case wait: False
      then have l: "send_loop io now (insert (pkg_sessionId p) W) (passed @ [p]) ps s = Some s'"
        using Cons.prems(1) False by simp
      obtain ws where "wire s' = wire s @ ws" "sent_ok sid (passed @ [p]) ps ws s'" "same_rest s s'"
        using Cons.IH [OF l] Cons.prems r by auto
      then show ?thesis using r by (intro exI [of _ ws]) (auto simp: sent_ok_def)
    qed
  next
    case True
    show ?thesis
    proof (cases "\<not> response p \<and> pkg_sessionId p \<in> W")
      case skip: True
      then have l: "send_loop io now W (passed @ [p]) ps s = Some s'" using Cons.prems(1) True by simp
      obtain ws where "wire s' = wire s @ ws" "sent_ok sid (passed @ [p]) ps ws s'" "same_rest s s'"
        using Cons.IH [OF l] Cons.prems skip by auto
      then show ?thesis using skip by (intro exI [of _ ws]) (auto simp: sent_ok_def)
    next
      case skip: False
      define s1 where "s1 = snd (SendUARTRaw io (msgSendBuf p) ?s)"
      define w where "w = (if response p \<or> uart_sessions s sid \<noteq> None then [msgSendBuf p] else [])"
      have s1: "s1 = ?s\<lparr>wire := wire s @ w\<rparr>"
        using raw_written [OF p e Cons.prems(2)] by (simp add: s1_def w_def)
      have w: "w = [] \<or> w = [msgSendBuf p]" "response p \<Longrightarrow> w = [msgSendBuf p]" by (auto simp: w_def)
      have e1: "env_ok sid (s1\<lparr>timed := x, timeoutPoint := y\<rparr>)" "env_ok sid s1" for x y
        using Cons.prems(3) by (simp_all add: s1 env_ok_def pipe_ok_def sess_def)
      show ?thesis
      proof (cases "response p")
        case r: True
        then have l: "send_loop io now W passed ps s1 = Some s'" using Cons.prems(1) True
          by (simp add: s1_def [symmetric]) (simp add: s1)
        obtain ws where "wire s' = wire s1 @ ws" "sent_ok sid passed ps ws s'" "same_rest s1 s'"
          using Cons.IH [OF l Cons.prems(2) e1(2)] Cons.prems by auto
        then show ?thesis using r w(2) pkg_ok_buf(3) [OF p]
          by (intro exI [of _ "w @ ws"]) (auto simp: sent_ok_def s1 same_rest_def)
      next
        case r: False
        let ?p = "p\<lparr>pkgStatus := PKG_WAIT_RESPONSE, sendTimePoint := now\<rparr>"
        have l: "send_loop io now (insert (pkg_sessionId p) W) (passed @ [?p]) ps (Sent now s1) = Some s'"
          using Cons.prems(1) True skip r by (simp add: s1_def [symmetric]) (simp add: s1)
        have "env_ok sid (Sent now s1)" using e1(1) by (simp add: Sent_def)
        from Cons.IH [OF l Cons.prems(2) this] obtain ws where
          "wire s' = wire s1 @ ws" "sent_ok sid (passed @ [?p]) ps ws s'" "same_rest s1 s'"
          using Cons.prems r by (auto simp: Sent_def same_rest_def)
        then show ?thesis using r w(1) pkg_ok_buf(3) [OF p]
          by (intro exI [of _ "w @ ws"]) (auto simp: sent_ok_def s1 same_rest_def)
      qed
    qed
  qed
qed

section \<open>One round of the sender\<close>

lemma package_requested:
  assumes "end_ok sid s" and "uart_sessions s sid \<noteq> None" and "send_round sid d off s = Some (off', s')"
    and "data_out s = []" and "off < length d"
  defines "pay \<equiv> take (min (length d - off) packageDataMaxSize) (drop off d)"
    and "i \<equiv> ucast (packageIndex (hUART (sess sid s)) + 1) :: u32"
  shows "off' = off + length pay" and "sid \<notin> slots s" and "sid \<in> slots s'"
    and "\<exists>p. data_out s' = [p] \<and> pkg_key p = data_key sid i \<and> data_pkg sid i pay (msgSendBuf p)"
    and "resp_bufs s' = resp_bufs s" and "calls s' = calls s" and "end_ok sid s'" and "is_host s' = is_host s"
    and "packageIndex (hUART (sess sid s')) = packageIndex (hUART (sess sid s)) + 1"
    and "dispatchedPackageIndex (hUART (sess sid s')) = dispatchedPackageIndex (hUART (sess sid s))"
    and "us_stream (sess sid s') = us_stream (sess sid s)"
    and "requested s'" and "\<forall>p \<in> set (data_out s'). pkgStatus p = PKG_WAIT_SEND"
    and "uart_sessions s' sid \<noteq> None"
proof -
  obtain u where u: "uart_sessions s sid = Some u" using assms(2) by blast
  then have su: "sess sid s = u" by (simp add: sess_def)
  define s1 where "s1 = upd_hUART sid (\<lambda>u. u\<lparr>packageIndex := packageIndex u + 1\<rparr>) s"
  have s1: "outPkgs s1 = outPkgs s" "slots s1 = slots s" "calls s1 = calls s" "is_host s1 = is_host s"
    "pipe_results s1 = pipe_results s" "mem_behind s1 = mem_behind s"
    "uart_sessions s1 sid = Some (u\<lparr>hUART := (hUART u)\<lparr>packageIndex := packageIndex (hUART u) + 1\<rparr>\<rparr>)"
    by (simp_all add: s1_def upd_hUART_def u)
  define opt where "opt = (if packageDataMaxSize < length d - off then 0 else PKG_OPTION_TAIL)"
  let ?h = "data_head sid opt pay i"
  have len: "length pay = min (length d - off) packageDataMaxSize" by (simp add: pay_def)
  have k: "uart_package sid (packageIndex (hUART u) + 1) d off = enc_UartHead ?h @ pay"
    by (simp only: uart_package_def data_head_def Let_def opt_def pay_def [symmetric] i_def su len)
  have pl: "data_pkg sid i pay (package ?h pay)"
    using assms(5) by (auto simp: data_pkg_def opt_def pay_def packageDataMaxSize_def hdc_consts)
  have sz: "unat (uh_dataSize ?h) = length pay"
    using unat_dataSize [of pay] pl by (simp add: data_head_def data_pkg_def)
  have dec: "dec_UartHead (enc_UartHead ?h @ pay) = ?h" by simp
  have nr: "\<not> IsResponsePackage ?h" "\<not> has_option ?h PKG_OPTION_ACK"
    by (auto simp: IsResponsePackage_def has_option_def opt_def hdc_consts)
  have "find_if (\<lambda>p. pkg_key p = data_key sid i) (outPkgs s) = None"
  proof -
    have "response p" if "p \<in> set (outPkgs s)" for p
      using assms(4) that by (auto simp: data_out_def filter_empty_conv)
    then show ?thesis using assms(1) by (auto simp: find_if_None end_ok_def list_all_iff pkg_ok_def)
  qed
  moreover have r: "send_round sid d off s = map_option (Pair (off + length pay))
      (RequestSendPackage (enc_UartHead ?h @ pay) True s1)"
    by (simp add: send_round_def Let_def s1_def [symmetric] s1(7) k len)
  ultimately have free: "sid \<notin> slots s" and o: "off' = off + length pay"
    and s': "s' = NotifyTransfer (s1\<lparr>slots := insert sid (slots s), outPkgs := outPkgs s @
      [\<lparr> pkg_key = data_key sid i, pkg_sessionId = sid, response = False, pkg_ack = False,
         pkgStatus = PKG_WAIT_SEND, msgSendBuf = package ?h pay, retryChance = 4, sendTimePoint = 0 \<rparr>]\<rparr>)"
    using assms(3) UpdateCheckSum_package [OF _ sz]
    by (auto simp: RequestSendPackage_def Let_def dec add_package_def nr s1 split: if_splits)
  show "off' = off + length pay" "sid \<notin> slots s" using o free by simp_all
  show "sid \<in> slots s'" "resp_bufs s' = resp_bufs s" "calls s' = calls s" "is_host s' = is_host s"
    "requested s'" "\<forall>p \<in> set (data_out s'). pkgStatus p = PKG_WAIT_SEND" "uart_sessions s' sid \<noteq> None"
    using assms(4) by (simp_all add: s' s1 resp_bufs_def data_out_def NotifyTransfer_def)
  show "\<exists>p. data_out s' = [p] \<and> pkg_key p = data_key sid i \<and> data_pkg sid i pay (msgSendBuf p)"
    using assms(4) pl by (simp add: s' data_out_def)
  have "sess sid s' = u\<lparr>hUART := (hUART u)\<lparr>packageIndex := packageIndex (hUART u) + 1\<rparr>\<rparr>"
    by (simp add: s' sess_def s1)
  then show "packageIndex (hUART (sess sid s')) = packageIndex (hUART (sess sid s)) + 1"
    "dispatchedPackageIndex (hUART (sess sid s')) = dispatchedPackageIndex (hUART (sess sid s))"
    "us_stream (sess sid s') = us_stream (sess sid s)"
    using u by (simp_all add: sess_def)
  show "end_ok sid s'"
    using assms(1) u pl by (auto simp: s' end_ok_def pipe_ok_def sess_def s1 pkg_ok_def)
qed

section \<open>Two ends and a line\<close>

text \<open>
  An end has the data the session layer still gives it to send, the first of them up to an offset
  already in packages. The line keeps the packages in flight, in order, for each direction.
\<close>

record uart_end =
  base :: UartBase
  todo :: "bytes list"
  offset :: nat

record link =
  left_end :: uart_end
  right_end :: uart_end
  to_right :: "bytes list"
  to_left :: "bytes list"

definition mirror :: "link \<Rightarrow> link" where
  "mirror c = \<lparr> left_end = right_end c, right_end = left_end c, to_right = to_left c, to_left = to_right c \<rparr>"

definition advance :: "nat \<Rightarrow> uart_end \<Rightarrow> uart_end" where
  "advance off' e = (case todo e of
     [] \<Rightarrow> e
   | d # ds \<Rightarrow> if off' = length d then e\<lparr>todo := ds, offset := 0\<rparr> else e\<lparr>offset := off'\<rparr>)"

text \<open>
  What the left end does, or the line to its right: the session thread requests the next package,
  the write thread wakes up and runs its loop at some reading of the clock, the read thread gets a
  package, a package is lost.
\<close>

inductive left_step :: "device \<Rightarrow> u32 \<Rightarrow> link \<Rightarrow> link \<Rightarrow> bool" for io sid where
  request: "todo (left_end c) = d # ds \<Longrightarrow> uart_sessions (base (left_end c)) sid \<noteq> None \<Longrightarrow>
    send_round sid d (offset (left_end c)) (base (left_end c)) = Some (off', s') \<Longrightarrow>
    left_step io sid c (c\<lparr>left_end := advance off' ((left_end c)\<lparr>base := s'\<rparr>)\<rparr>)"
| send: "Wait now (base (left_end c)) = Some s1 \<Longrightarrow>
    SendPkgInUARTOutMap io now (s1\<lparr>wire := []\<rparr>) = Some s' \<Longrightarrow>
    left_step io sid c (c\<lparr>left_end := (left_end c)\<lparr>base := s'\<rparr>, to_right := to_right c @ wire s'\<rparr>)"
| receive: "to_left c = x # xs \<Longrightarrow>
    PackageProcess x (reader_of sid (base (left_end c))) (base (left_end c)) = (e, b, s') \<Longrightarrow>
    left_step io sid c (c\<lparr>left_end := (left_end c)\<lparr>base := s'\<rparr>, to_left := xs\<rparr>)"
| lose: "to_right c = xs @ x # ys \<Longrightarrow> left_step io sid c (c\<lparr>to_right := xs @ ys\<rparr>)"

text \<open>Runs in which no end gives the session up.\<close>

definition given_up :: "u32 \<Rightarrow> link \<Rightarrow> bool" where
  "given_up sid c \<longleftrightarrow> FreeSession sid \<in> set (calls (base (left_end c)))
     \<or> FreeSession sid \<in> set (calls (base (right_end c)))"

inductive link_reach :: "device \<Rightarrow> u32 \<Rightarrow> link \<Rightarrow> link \<Rightarrow> bool" for io sid c0 where
  start: "link_reach io sid c0 c0"
| left: "link_reach io sid c0 c \<Longrightarrow> left_step io sid c c' \<Longrightarrow> \<not> given_up sid c' \<Longrightarrow> link_reach io sid c0 c'"
| right: "link_reach io sid c0 c \<Longrightarrow> left_step io sid (mirror c) (mirror c') \<Longrightarrow> \<not> given_up sid c' \<Longrightarrow>
    link_reach io sid c0 c'"

text \<open>An end before anything was sent; the daemon may have no session yet.\<close>

definition fresh_end :: "u32 \<Rightarrow> bytes list \<Rightarrow> uart_end \<Rightarrow> bool" where
  "fresh_end sid ds e \<longleftrightarrow> todo e = ds \<and> offset e = 0 \<and> outPkgs (base e) = [] \<and> slots (base e) = {}
     \<and> end_ok sid (base e) \<and> us_stream (sess sid (base e)) = []
     \<and> packageIndex (hUART (sess sid (base e))) = 0
     \<and> dispatchedPackageIndex (hUART (sess sid (base e))) = 0"

definition fresh_link :: "u32 \<Rightarrow> bytes list \<Rightarrow> bytes list \<Rightarrow> link \<Rightarrow> bool" where
  "fresh_link sid ls rs c \<longleftrightarrow> fresh_end sid ls (left_end c) \<and> fresh_end sid rs (right_end c)
     \<and> to_right c = [] \<and> to_left c = []"

subsection \<open>Fragments\<close>

function chunks :: "bytes \<Rightarrow> bytes list" where
  "chunks d = (if length d \<le> packageDataMaxSize then [d]
     else take packageDataMaxSize d # chunks (drop packageDataMaxSize d))"
  by pat_completeness auto
termination by (relation "measure length") (auto simp: hdc_consts)

declare chunks.simps [simp del]

lemma concat_chunks [simp]: "concat (chunks d) = d"
  by (induction d rule: chunks.induct) (subst chunks.simps, simp)

definition remaining :: "uart_end \<Rightarrow> bytes list" where
  "remaining e = (case todo e of [] \<Rightarrow> []
     | d # ds \<Rightarrow> chunks (drop (offset e) d) @ concat (map chunks ds))"

definition end_todo_ok :: "uart_end \<Rightarrow> bool" where
  "end_todo_ok e \<longleftrightarrow> list_all (\<lambda>d. d \<noteq> []) (todo e)
     \<and> (case todo e of [] \<Rightarrow> True | d # ds \<Rightarrow> offset e < length d)"

lemma remaining_advance:
  assumes "end_todo_ok e" "todo e = d # ds"
  defines "pay \<equiv> take (min (length d - offset e) packageDataMaxSize) (drop (offset e) d)"
  shows "remaining e = pay # remaining (advance (offset e + length pay) e)"
    and "end_todo_ok (advance (offset e + length pay) e)"
proof -
  have o: "offset e < length d" using assms(1,2) by (simp add: end_todo_ok_def)
  have "remaining e = pay # remaining (advance (offset e + length pay) e)
    \<and> end_todo_ok (advance (offset e + length pay) e)"
  proof (cases "length d - offset e \<le> packageDataMaxSize")
    case True
    then have p: "pay = drop (offset e) d" by (simp add: pay_def)
    moreover have "remaining (e\<lparr>todo := ds, offset := 0\<rparr>) = concat (map chunks ds)"
      by (cases ds) (simp_all add: remaining_def)
    ultimately show ?thesis using True o assms(1,2)
      by (auto simp: remaining_def advance_def chunks.simps [of "drop (offset e) d"] end_todo_ok_def
          split: list.split)
  next
    case False
    then have p: "pay = take packageDataMaxSize (drop (offset e) d)" "length pay = packageDataMaxSize"
      by (simp_all add: pay_def)
    then show ?thesis using False o assms(1,2)
      by (auto simp: remaining_def advance_def chunks.simps [of "drop (offset e) d"] end_todo_ok_def add.commute)
  qed
  then show "remaining e = pay # remaining (advance (offset e + length pay) e)"
    "end_todo_ok (advance (offset e + length pay) e)" by simp_all
qed

section \<open>The invariant of one direction\<close>

text \<open>A list whose first part satisfies \<open>P\<close> and whose rest satisfies \<open>Q\<close>.\<close>

fun two_phase :: "('a \<Rightarrow> bool) \<Rightarrow> ('a \<Rightarrow> bool) \<Rightarrow> 'a list \<Rightarrow> bool" where
  "two_phase P Q [] = True"
| "two_phase P Q (x # xs) = (P x \<and> two_phase P Q xs \<or> Q x \<and> list_all Q xs)"

lemma two_phase_all: "list_all P xs \<Longrightarrow> two_phase P Q xs" "list_all Q xs \<Longrightarrow> two_phase P Q xs"
  by (induction xs) auto

lemma two_phase_append: "two_phase P Q xs \<Longrightarrow> list_all Q ys \<Longrightarrow> two_phase P Q (xs @ ys)"
  by (induction xs) (auto intro: two_phase_all)

lemma two_phase_drop: "two_phase P Q (xs @ x # ys) \<Longrightarrow> two_phase P Q (xs @ ys)"
  by (induction xs) (auto intro: two_phase_all)

lemma two_phase_mono:
  "two_phase P Q xs \<Longrightarrow> (\<And>x. P x \<Longrightarrow> P' x) \<Longrightarrow> (\<And>x. Q x \<Longrightarrow> Q' x) \<Longrightarrow> two_phase P' Q' xs"
  by (induction xs) (auto simp: list_all_iff)

lemma two_phase_only: "two_phase P Q xs \<Longrightarrow> (\<And>x. P x \<Longrightarrow> Q x) \<Longrightarrow> list_all Q xs"
  by (induction xs) auto

text \<open>
  Of the fragments \<open>P\<close> the sender \<open>a\<close> has requested \<open>n\<close> and has the acknowledgement of \<open>m\<close>; the
  receiver \<open>b\<close> has given \<open>k\<close> to its session.
\<close>

definition sender_ok :: "u32 \<Rightarrow> bytes list \<Rightarrow> nat \<Rightarrow> nat \<Rightarrow> uart_end \<Rightarrow> bool" where
  "sender_ok sid P n m a \<longleftrightarrow> n \<le> length P \<and> remaining a = drop n P \<and> end_todo_ok a
     \<and> packageIndex (hUART (sess sid (base a))) = word_of_nat n
     \<and> (m = n \<and> data_out (base a) = [] \<and> sid \<notin> slots (base a)
       \<or> n = Suc m \<and> sid \<in> slots (base a) \<and> (\<exists>p. data_out (base a) = [p] \<and> pkg_key p = data_key sid (word_of_nat n)
            \<and> data_pkg sid (word_of_nat n) (P ! m) (msgSendBuf p)))"

definition receiver_ok :: "u32 \<Rightarrow> bytes list \<Rightarrow> nat \<Rightarrow> uart_end \<Rightarrow> bool" where
  "receiver_ok sid P k b \<longleftrightarrow> dispatchedPackageIndex (hUART (sess sid (base b))) = word_of_nat k
     \<and> us_stream (sess sid (base b)) = concat (take k P)"

definition frag :: "u32 \<Rightarrow> bytes list \<Rightarrow> nat \<Rightarrow> bytes \<Rightarrow> bool" where
  "frag sid P i b \<longleftrightarrow> 0 < i \<and> data_pkg sid (word_of_nat i) (P ! (i - 1)) b"

definition ack_of :: "u32 \<Rightarrow> nat \<Rightarrow> bytes \<Rightarrow> bool" where
  "ack_of sid i b \<longleftrightarrow> b = ack_pkg sid (word_of_nat i)"

definition lines_ok :: "u32 \<Rightarrow> bytes list \<Rightarrow> nat \<Rightarrow> nat \<Rightarrow> nat \<Rightarrow> bytes list \<Rightarrow> bytes list \<Rightarrow> bool" where
  "lines_ok sid P n m k datas acks \<longleftrightarrow>
     (k = m \<or> k = n) \<and> two_phase (\<lambda>b. k \<noteq> n \<and> frag sid P m b) (frag sid P n) datas
     \<and> two_phase (ack_of sid m) (\<lambda>b. k = n \<and> ack_of sid n b) acks"

definition dir_inv :: "u32 \<Rightarrow> bytes list \<Rightarrow> uart_end \<Rightarrow> uart_end \<Rightarrow> bytes list \<Rightarrow> bytes list \<Rightarrow> bool" where
  "dir_inv sid P a b ab ba \<longleftrightarrow> (\<exists>n m k. sender_ok sid P n m a \<and> receiver_ok sid P k b
     \<and> lines_ok sid P n m k (filter (\<lambda>x. \<not> is_resp x) ab) (filter is_resp ba @ resp_bufs (base b)))"

subsection \<open>The ends and the lines one by one\<close>

lemma idx_Suc: "(word_of_nat m :: u32) \<noteq> word_of_nat (Suc m)"
proof
  assume "(word_of_nat m :: u32) = word_of_nat (Suc m)"
  then have "(0 :: u32) = 1" by (metis add_cancel_right_right of_nat_Suc add.commute)
  then show False by simp
qed

lemma sender_frame:
  "sender_ok sid P n m a \<Longrightarrow> todo a' = todo a \<Longrightarrow> offset a' = offset a \<Longrightarrow>
     packageIndex (hUART (sess sid (base a'))) = packageIndex (hUART (sess sid (base a))) \<Longrightarrow>
     map core (data_out (base a')) = map core (data_out (base a)) \<Longrightarrow> slots (base a') = slots (base a) \<Longrightarrow>
     sender_ok sid P n m a'"
proof -
  assume a: "sender_ok sid P n m a" and t: "todo a' = todo a" "offset a' = offset a"
    "packageIndex (hUART (sess sid (base a'))) = packageIndex (hUART (sess sid (base a)))"
    "slots (base a') = slots (base a)" and c: "map core (data_out (base a')) = map core (data_out (base a))"
  have "remaining a' = remaining a" "end_todo_ok a' = end_todo_ok a"
    unfolding remaining_def end_todo_ok_def t by (rule refl)+
  moreover have "data_out (base a') = [] \<longleftrightarrow> data_out (base a) = []" using c by (metis map_is_Nil_conv)
  moreover have "\<exists>p'. data_out (base a') = [p'] \<and> core p' = core p" if "data_out (base a) = [p]" for p
    using c that by auto
  ultimately show ?thesis using a t unfolding sender_ok_def core_def
    by (metis (no_types, lifting) prod.inject)
qed

lemma receiver_frame:
  "receiver_ok sid P k b \<Longrightarrow>
     dispatchedPackageIndex (hUART (sess sid (base b'))) = dispatchedPackageIndex (hUART (sess sid (base b))) \<Longrightarrow>
     us_stream (sess sid (base b')) = us_stream (sess sid (base b)) \<Longrightarrow> receiver_ok sid P k b'"
  by (simp add: receiver_ok_def)

lemma lines_lose:
  "lines_ok sid P n m k (filter Q (xs @ x # ys)) acks \<Longrightarrow> lines_ok sid P n m k (filter Q (xs @ ys)) acks"
  "lines_ok sid P n m k datas (filter Q (xs @ x # ys) @ r) \<Longrightarrow> lines_ok sid P n m k datas (filter Q (xs @ ys) @ r)"
  by (cases "Q x"; simp add: lines_ok_def; metis two_phase_drop)+

text \<open>The next package is requested.\<close>

lemma lines_request:
  "lines_ok sid P n n k datas acks \<Longrightarrow> lines_ok sid P (Suc n) n k datas acks"
proof -
  assume l: "lines_ok sid P n n k datas acks"
  then have "k = n" and d: "two_phase (\<lambda>b. k \<noteq> n \<and> frag sid P n b) (frag sid P n) datas"
    and a: "two_phase (ack_of sid n) (\<lambda>b. k = n \<and> ack_of sid n b) acks" by (auto simp: lines_ok_def)
  have "list_all (frag sid P n) datas" by (rule two_phase_only [OF d]) simp
  moreover have "list_all (ack_of sid n) acks"
    by (rule two_phase_only [OF two_phase_mono [OF a]]) auto
  ultimately show ?thesis using \<open>k = n\<close> by (auto simp: lines_ok_def intro: two_phase_all)
qed

text \<open>A fragment arrives: what the receiver has afterwards.\<close>

lemma lines_data:
  assumes "lines_ok sid P n m k (x # datas) acks" and "m = n \<or> n = Suc m"
  obtains i k' where "frag sid P i x" "i = n \<or> i = m"
    "lines_ok sid P n m k' datas acks" "lines_ok sid P n m k' datas (acks @ [ack_pkg sid (word_of_nat i)])"
    "if word_of_nat k = (word_of_nat i :: u32) then k' = k else Suc k = i \<and> k' = i"
proof -
  have k: "k = m \<or> k = n" and d: "two_phase (\<lambda>b. k \<noteq> n \<and> frag sid P m b) (frag sid P n) (x # datas)"
    and a: "two_phase (ack_of sid m) (\<lambda>b. k = n \<and> ack_of sid n b) acks"
    using assms(1) by (auto simp: lines_ok_def)
  from d consider (old) "k \<noteq> n" "frag sid P m x" "two_phase (\<lambda>b. k \<noteq> n \<and> frag sid P m b) (frag sid P n) datas"
    | (new) "frag sid P n x" "list_all (frag sid P n) datas"
    by auto
  then show thesis
  proof cases
    case old
    have "list_all (ack_of sid m) acks" by (rule two_phase_only [OF two_phase_mono [OF a]]) (use old in auto)
    then have "two_phase (ack_of sid m) (\<lambda>b. k = n \<and> ack_of sid n b) (acks @ [ack_pkg sid (word_of_nat m)])"
      by (intro two_phase_all(1)) (simp add: ack_of_def)
    then show ?thesis using old k a by (intro that [of m k]) (auto simp: lines_ok_def)
  next
    case new
    have "two_phase (ack_of sid m) (\<lambda>b. n = n \<and> ack_of sid n b) (acks @ [ack_pkg sid (word_of_nat n)])"
      "two_phase (ack_of sid m) (\<lambda>b. n = n \<and> ack_of sid n b) acks"
      by (intro two_phase_append two_phase_mono [OF a]; simp add: ack_of_def)+
    moreover have "two_phase (\<lambda>b. n \<noteq> n \<and> frag sid P m b) (frag sid P n) datas"
      using new(2) by (rule two_phase_all)
    moreover have "if word_of_nat k = (word_of_nat n :: u32) then n = k else Suc k = n \<and> n = n"
      using k assms(2) idx_Suc [of m] by (cases "k = n") auto
    ultimately show ?thesis using new(1) by (intro that [of n n]) (simp_all add: lines_ok_def)
  qed
qed

text \<open>An acknowledgement arrives.\<close>

lemma lines_ack:
  assumes "lines_ok sid P n m k datas (x # acks)" and "m = n \<or> n = Suc m"
  obtains i where "x = ack_pkg sid (word_of_nat i)" "i = m \<or> i = n" "lines_ok sid P n m k datas acks"
    "i = n \<Longrightarrow> lines_ok sid P n n k datas acks"
proof -
  have k: "k = m \<or> k = n" and d: "two_phase (\<lambda>b. k \<noteq> n \<and> frag sid P m b) (frag sid P n) datas"
    and a: "two_phase (ack_of sid m) (\<lambda>b. k = n \<and> ack_of sid n b) (x # acks)"
    using assms(1) by (auto simp: lines_ok_def)
  from a consider (old) "ack_of sid m x" "two_phase (ack_of sid m) (\<lambda>b. k = n \<and> ack_of sid n b) acks" "m \<noteq> n"
    | (new) "k = n" "ack_of sid n x" "list_all (ack_of sid n) acks"
    | (same) "m = n" "ack_of sid n x" "two_phase (ack_of sid m) (\<lambda>b. k = n \<and> ack_of sid n b) acks"
    by (cases "m = n") (auto simp: list_all_iff)
  then show thesis
  proof cases
    case old
    then show ?thesis using k d by (intro that [of m]) (auto simp: lines_ok_def ack_of_def)
  next
    case new
    have "two_phase (\<lambda>b. False) (frag sid P n) datas" by (rule two_phase_mono [OF d]) (use new in auto)
    moreover have "two_phase (ack_of sid j) (\<lambda>b. n = n \<and> ack_of sid n b) acks" for j
      using new(3) by (intro two_phase_all(2)) simp
    ultimately show ?thesis using new(1,2)
      by (intro that [of n]) (simp_all add: lines_ok_def ack_of_def)
  next
    case same
    then show ?thesis using k d by (intro that [of n]) (auto simp: lines_ok_def ack_of_def)
  qed
qed

section \<open>Every step keeps the invariant\<close>

definition link_inv :: "u32 \<Rightarrow> bytes list \<Rightarrow> bytes list \<Rightarrow> link \<Rightarrow> bool" where
  "link_inv sid PL PR c \<longleftrightarrow> end_ok sid (base (left_end c)) \<and> end_ok sid (base (right_end c))
     \<and> dir_inv sid PL (left_end c) (right_end c) (to_right c) (to_left c)
     \<and> dir_inv sid PR (right_end c) (left_end c) (to_left c) (to_right c)"

lemma link_inv_mirror: "link_inv sid PR PL (mirror c) \<longleftrightarrow> link_inv sid PL PR c"
  by (auto simp: link_inv_def mirror_def)

lemma advance_base [simp]: "base (advance off' e) = base e"
  by (simp add: advance_def split: list.split)

lemma remaining_base: "remaining (a\<lparr>base := s\<rparr>) = remaining a"
  and end_todo_ok_base: "end_todo_ok (a\<lparr>base := s\<rparr>) = end_todo_ok a"
  by (simp_all add: remaining_def end_todo_ok_def split: list.split)

lemma advance_rest:
  "remaining (advance off' (e\<lparr>base := s\<rparr>)) = remaining (advance off' e)"
  "end_todo_ok (advance off' (e\<lparr>base := s\<rparr>)) = end_todo_ok (advance off' e)"
  by (auto simp: remaining_def end_todo_ok_def advance_def split: list.split)

text \<open>What an end that only receives in a direction has to keep.\<close>

lemma dir_inv_receiver:
  assumes "dir_inv sid P a b ab ba"
    and "dispatchedPackageIndex (hUART (sess sid (base b'))) = dispatchedPackageIndex (hUART (sess sid (base b)))"
    and "us_stream (sess sid (base b')) = us_stream (sess sid (base b))"
    and "filter is_resp ba' @ resp_bufs (base b') = filter is_resp ba @ resp_bufs (base b)"
    and "filter (\<lambda>x. \<not> is_resp x) ab' = filter (\<lambda>x. \<not> is_resp x) ab"
  shows "dir_inv sid P a b' ab' ba'"
  using assms receiver_frame [of sid P _ b b'] unfolding dir_inv_def by metis

lemma dir_inv_sender:
  assumes "dir_inv sid P a b ab ba" and "todo a' = todo a" and "offset a' = offset a"
    and "packageIndex (hUART (sess sid (base a'))) = packageIndex (hUART (sess sid (base a)))"
    and "map core (data_out (base a')) = map core (data_out (base a))" and "slots (base a') = slots (base a)"
    and "filter is_resp ba' = filter is_resp ba"
    and "filter (\<lambda>x. \<not> is_resp x) ab' = filter (\<lambda>x. \<not> is_resp x) ab"
  shows "dir_inv sid P a' b ab' ba'"
  using assms sender_frame [of sid P _ _ a a'] unfolding dir_inv_def by metis

lemma ucast_index: "(ucast (word_of_nat m :: u64) :: u32) = word_of_nat m"
  by (simp add: unsigned_of_nat word_of_nat_eq_iff take_bit_take_bit)

lemma request_sender:
  assumes "dir_inv sid P a b ab ba" and "end_ok sid (base a)" and "todo a = d # ds"
    and "uart_sessions (base a) sid \<noteq> None" and "send_round sid d (offset a) (base a) = Some (off', s')"
  shows "dir_inv sid P (advance off' (a\<lparr>base := s'\<rparr>)) b ab ba"
proof -
  obtain n m k where s: "sender_ok sid P n m a" and r: "receiver_ok sid P k b"
    and l: "lines_ok sid P n m k (filter (\<lambda>x. \<not> is_resp x) ab) (filter is_resp ba @ resp_bufs (base b))"
    using assms(1) by (auto simp: dir_inv_def)
  have ok: "end_todo_ok a" "remaining a = drop n P"
    "packageIndex (hUART (sess sid (base a))) = word_of_nat n" using s by (auto simp: sender_ok_def)
  then have o: "offset a < length d" using assms(3) by (simp add: end_todo_ok_def)
  have "sid \<notin> slots (base a)" using assms(5)
    by (auto simp: send_round_def RequestSendPackage_def Let_def uart_package_def upd_hUART_def split: if_splits)
  then have m: "m = n" "data_out (base a) = []" using s by (auto simp: sender_ok_def)
  define pay where "pay = take (min (length d - offset a) packageDataMaxSize) (drop (offset a) d)"
  note q = package_requested [OF assms(2,4,5) m(2) o, folded pay_def]
  have rem: "remaining a = pay # remaining (advance off' a)" "end_todo_ok (advance off' a)"
    using remaining_advance [OF ok(1) assms(3), folded pay_def] q(1) by simp_all
  then have n: "n < length P" "P ! n = pay" "remaining (advance off' a) = drop (Suc n) P"
    using ok(2) by (metis drop_eq_Nil list.distinct(1) not_le, metis drop_eq_Nil list.distinct(1) not_le
        Cons_nth_drop_Suc list.inject, metis drop_eq_Nil list.distinct(1) not_le Cons_nth_drop_Suc list.inject)
  have i: "(ucast (1 + (word_of_nat n :: u64)) :: u32) = 1 + word_of_nat n"
    using ucast_index [of "Suc n"] by simp
  have "sender_ok sid P (Suc n) n (advance off' (a\<lparr>base := s'\<rparr>))"
    using n q(3,4,9) rem(2) ok(3) by (auto simp: sender_ok_def advance_rest i add.commute)
  with r lines_request l m(1) show ?thesis unfolding dir_inv_def by blast
qed

lemma send_effect:
  assumes "Wait now s = Some s1" and "SendPkgInUARTOutMap io now (s1\<lparr>wire := []\<rparr>) = Some s'"
    and "good_io io" and "end_ok sid s" and "FreeSession sid \<notin> set (calls s')"
  shows "resp_bufs s = filter is_resp (wire s') @ resp_bufs s'"
    and "map core (data_out s') = map core (data_out s)"
    and "\<forall>b \<in> set (wire s'). \<not> is_resp b \<longrightarrow> b \<in> msgSendBuf ` set (data_out s)"
    and "end_ok sid s'" and "uart_sessions s' = uart_sessions s" and "slots s' = slots s" and "calls s' = calls s"
proof -
  have s1: "outPkgs s1 = outPkgs s" "uart_sessions s1 = uart_sessions s" "slots s1 = slots s"
    "is_host s1 = is_host s" "pipe_results s1 = pipe_results s" "calls s1 = calls s"
    using assms(1) by (auto simp: Wait_def split: if_splits)
  let ?s = "s1\<lparr>wire := []\<rparr>"
  have e: "env_ok sid ?s" "list_all (pkg_ok sid) (outPkgs s)"
    using assms(4) s1 by (auto simp: end_ok_env env_ok_def pipe_ok_def sess_def)
  have "\<exists>ws. wire s' = [] @ ws \<and> sent_ok sid [] (outPkgs s) ws s' \<and> same_rest ?s s'"
  proof (cases "outPkgs s = []")
    case True
    then show ?thesis using assms(2) s1
      by (auto simp: SendPkgInUARTOutMap_def sent_ok_def same_rest_def resp_bufs_def data_out_def)
  next
    case False
    then have "send_loop io now {} [] (outPkgs s) ?s = Some s'"
      using assms(2) s1 by (simp add: SendPkgInUARTOutMap_def)
    from send_loop_effect [OF this assms(3) e(1) _ _ assms(5)] e(2) show ?thesis by simp
  qed
  then have *: "sent_ok sid [] (outPkgs s) (wire s') s'" "same_rest ?s s'" by auto
  then show "resp_bufs s = filter is_resp (wire s') @ resp_bufs s'"
    "map core (data_out s') = map core (data_out s)"
    "\<forall>b \<in> set (wire s'). \<not> is_resp b \<longrightarrow> b \<in> msgSendBuf ` set (data_out s)"
    by (auto simp: sent_ok_def resp_bufs_def data_out_def)
  show "end_ok sid s'" using * same_rest_env [OF *(2), of sid] e(1) by (auto simp: end_ok_env sent_ok_def)
  show "uart_sessions s' = uart_sessions s" "slots s' = slots s" "calls s' = calls s"
    using *(2) s1 by (simp_all add: same_rest_def)
qed

lemma send_sender:
  assumes "dir_inv sid P a b ab ba" and "map core (data_out s') = map core (data_out (base a))"
    and "\<forall>x \<in> set ws. \<not> is_resp x \<longrightarrow> x \<in> msgSendBuf ` set (data_out (base a))"
    and "uart_sessions s' = uart_sessions (base a)" and "slots s' = slots (base a)"
  shows "dir_inv sid P (a\<lparr>base := s'\<rparr>) b (ab @ ws) ba"
proof -
  obtain n m k where s: "sender_ok sid P n m a" and r: "receiver_ok sid P k b"
    and l: "lines_ok sid P n m k (filter (\<lambda>x. \<not> is_resp x) ab) (filter is_resp ba @ resp_bufs (base b))"
    using assms(1) by (auto simp: dir_inv_def)
  have "list_all (frag sid P n) (filter (\<lambda>x. \<not> is_resp x) ws)"
    using s assms(3) by (auto simp: sender_ok_def list_all_iff frag_def)
  then have "lines_ok sid P n m k (filter (\<lambda>x. \<not> is_resp x) (ab @ ws)) (filter is_resp ba @ resp_bufs (base b))"
    using l two_phase_append by (auto simp: lines_ok_def)
  moreover have "sender_ok sid P n m (a\<lparr>base := s'\<rparr>)"
    by (rule sender_frame [OF s]) (use assms in \<open>simp_all add: sess_def\<close>)
  ultimately show ?thesis using r unfolding dir_inv_def by blast
qed

text \<open>A package arrives: \<open>a\<close> sends to \<open>b\<close>, and \<open>b\<close> gets a fragment.\<close>

lemma data_receiver:
  assumes "dir_inv sid P a b (x # ab) ba" and "end_ok sid (base b)" and "sid \<noteq> 0" and "\<not> is_resp x"
    and "PackageProcess x (reader_of sid (base b)) (base b) = (e, r, s')"
  shows "dir_inv sid P a (b\<lparr>base := s'\<rparr>) ab ba" and "end_ok sid s'" and "data_out s' = data_out (base b)"
    and "slots s' = slots (base b)"
    and "packageIndex (hUART (sess sid s')) = packageIndex (hUART (sess sid (base b)))"
proof -
  obtain n m k where s: "sender_ok sid P n m a" and rc: "receiver_ok sid P k b"
    and l: "lines_ok sid P n m k (x # filter (\<lambda>x. \<not> is_resp x) ab) (filter is_resp ba @ resp_bufs (base b))"
    using assms(1,4) by (auto simp: dir_inv_def)
  have mn: "m = n \<or> n = Suc m" and n: "n \<le> length P" using s by (auto simp: sender_ok_def)
  obtain i k' where i: "frag sid P i x" "i = n \<or> i = m"
    and k1: "lines_ok sid P n m k' (filter (\<lambda>x. \<not> is_resp x) ab) (filter is_resp ba @ resp_bufs (base b))"
    and k2: "lines_ok sid P n m k' (filter (\<lambda>x. \<not> is_resp x) ab)
        ((filter is_resp ba @ resp_bufs (base b)) @ [ack_pkg sid (word_of_nat i)])"
    and k': "if word_of_nat k = (word_of_nat i :: u32) then k' = k else Suc k = i \<and> k' = i"
    using lines_data [OF l mn] by blast
  define d where "d = P ! (i - 1)"
  have x: "0 < i" "data_pkg sid (word_of_nat i) d x" using i(1) by (simp_all add: frag_def d_def)
  then obtain opt where xp: "x = package (data_head sid opt d (word_of_nat i)) d" "opt \<in> {0, PKG_OPTION_TAIL}"
    "d \<noteq> []" "length d \<le> packageDataMaxSize" by (auto simp: data_pkg_def)
  define s1 where "s1 = ResponseUartTrans sid (word_of_nat i) PKG_OPTION_ACK (base b)"
  note q1 = ack_request [OF assms(2), of "word_of_nat i", folded s1_def]
  have "\<not> IsResponsePackage (data_head sid opt d (word_of_nat i))"
    using xp(2) by (auto simp: IsResponsePackage_def has_option_def hdc_consts)
  then have "link_answer (data_head sid opt d (word_of_nat i)) (base b) = s1"
    by (simp add: link_answer_def s1_def)
  moreover have "reader_of sid (base b) = reader_of sid s1"
    using q1(7) by (simp add: reader_of_def same_env_def)
  ultimately have s': "s' = snd (dispatch_package (reader_of sid s1) sid (word_of_nat i) x s1)"
    using assms(5) PackageProcess_one [OF data_plain [OF xp(4,2)], of sid "word_of_nat i"] xp(1,3) by simp
  note q2 = data_dispatched [OF q1(6) assms(3) x(2), folded s']
  have ss: "sess sid s1 = sess sid (base b)" by (simp add: sess_def q1(4))
  show "end_ok sid s'" "data_out s' = data_out (base b)" "slots s' = slots (base b)"
    "packageIndex (hUART (sess sid s')) = packageIndex (hUART (sess sid (base b)))"
    using q1 q2 ss by (simp_all add: data_out_def same_env_def)
  have "take (Suc k) P = take k P @ [d]" if "Suc k = i"
    using that i(2) mn n by (auto simp: d_def take_Suc_conv_app_nth)
  then have "receiver_ok sid P k' (b\<lparr>base := s'\<rparr>)"
    using rc q2(6,7) k' by (auto simp: receiver_ok_def ss split: if_splits)
  moreover have "lines_ok sid P n m k' (filter (\<lambda>x. \<not> is_resp x) ab) (filter is_resp ba @ resp_bufs s')"
    using q1(1) q2(1) k1 k2 by (auto simp: resp_bufs_def)
  ultimately show "dir_inv sid P a (b\<lparr>base := s'\<rparr>) ab ba" using s unfolding dir_inv_def by auto
qed

text \<open>The sender gets an acknowledgement.\<close>

lemma ack_sender:
  assumes "dir_inv sid P a b ab (x # ba)" and "end_ok sid (base a)" and "is_resp x"
    and "PackageProcess x hs (base a) = (e, r, s')"
  shows "dir_inv sid P (a\<lparr>base := s'\<rparr>) b ab ba" and "end_ok sid s'" and "resp_bufs s' = resp_bufs (base a)"
    and "uart_sessions s' = uart_sessions (base a)"
proof -
  obtain n m k where s: "sender_ok sid P n m a" and rc: "receiver_ok sid P k b"
    and l: "lines_ok sid P n m k (filter (\<lambda>x. \<not> is_resp x) ab) (x # filter is_resp ba @ resp_bufs (base b))"
    using assms(1,3) by (auto simp: dir_inv_def)
  have mn: "m = n \<or> n = Suc m" using s by (auto simp: sender_ok_def)
  obtain i where i: "x = ack_pkg sid (word_of_nat i)" "i = m \<or> i = n"
    and l1: "lines_ok sid P n m k (filter (\<lambda>x. \<not> is_resp x) ab) (filter is_resp ba @ resp_bufs (base b))"
    and l2: "i = n \<Longrightarrow> lines_ok sid P n n k (filter (\<lambda>x. \<not> is_resp x) ab) (filter is_resp ba @ resp_bufs (base b))"
    using lines_ack [OF l mn] by blast
  have "IsResponsePackage (new_UartHead sid PKG_OPTION_ACK 0 (word_of_nat i))"
    by (simp add: IsResponsePackage_def has_option_def hdc_consts)
  then have s': "s' = ProcessResponsePackage (new_UartHead sid PKG_OPTION_ACK 0 (word_of_nat i)) (base a)"
    using assms(4) PackageProcess_one [OF ack_plain, of sid "word_of_nat i" hs "base a"] i(1)
    by (simp add: ack_pkg_def link_answer_def)
  note q = ack_arrives [OF assms(2), where i = "word_of_nat i", folded s']
  show "end_ok sid s'" "resp_bufs s' = resp_bufs (base a)" "uart_sessions s' = uart_sessions (base a)"
    using q by simp_all
  have f: "todo (a\<lparr>base := s'\<rparr>) = todo a" "offset (a\<lparr>base := s'\<rparr>) = offset a"
    "packageIndex (hUART (sess sid (base (a\<lparr>base := s'\<rparr>)))) = packageIndex (hUART (sess sid (base a)))"
    using q(2) by (simp_all add: sess_def)
  consider (idle) "m = n" "data_out (base a) = []" "sid \<notin> slots (base a)"
    | (wait) p where "n = Suc m" "sid \<in> slots (base a)" "data_out (base a) = [p]" "pkg_key p = data_key sid (word_of_nat n)"
    using s by (auto simp: sender_ok_def)
  then show "dir_inv sid P (a\<lparr>base := s'\<rparr>) b ab ba"
  proof cases
    case idle
    have "sender_ok sid P n m (a\<lparr>base := s'\<rparr>)"
      by (rule sender_frame [OF s f]) (use q(6) idle in simp_all)
    then show ?thesis using rc l1 unfolding dir_inv_def by blast
  next
    case wait
    show ?thesis
    proof (cases "i = n")
      case True
      then have "data_out s' = []" "sid \<notin> slots s'" using q(7) [OF wait(3,4)] by simp_all
      moreover have "remaining (a\<lparr>base := s'\<rparr>) = remaining a" "end_todo_ok (a\<lparr>base := s'\<rparr>) = end_todo_ok a"
        by (rule remaining_base end_todo_ok_base)+
      ultimately have "sender_ok sid P n n (a\<lparr>base := s'\<rparr>)"
        using s f(3) by (auto simp: sender_ok_def)
      then show ?thesis using rc l2 [OF True] unfolding dir_inv_def by blast
    next
      case False
      then have "(word_of_nat i :: u32) \<noteq> word_of_nat n" using i(2) wait(1) idx_Suc by auto
      then have "data_out s' = [p]" "slots s' = slots (base a)" using q(7) [OF wait(3,4)] by simp_all
      then have "sender_ok sid P n m (a\<lparr>base := s'\<rparr>)"
        by (intro sender_frame [OF s f]) (use wait in simp_all)
      then show ?thesis using rc l1 unfolding dir_inv_def by blast
    qed
  qed
qed

lemma left_step_inv:
  assumes "left_step io sid c c'" and "link_inv sid PL PR c" and "good_io io" and "sid \<noteq> 0"
    and "\<not> given_up sid c'"
  shows "link_inv sid PL PR c'"
  using assms(1)
proof cases
  case (request d ds off' s')
  have e: "end_ok sid (base (left_end c))" "end_ok sid (base (right_end c))"
    and L: "dir_inv sid PL (left_end c) (right_end c) (to_right c) (to_left c)"
    and R: "dir_inv sid PR (right_end c) (left_end c) (to_left c) (to_right c)"
    using assms(2) by (auto simp: link_inv_def)
  have o: "offset (left_end c) < length d" "data_out (base (left_end c)) = []"
  proof -
    show "offset (left_end c) < length d" using L request(2)
      by (auto simp: dir_inv_def sender_ok_def end_todo_ok_def)
    have "sid \<notin> slots (base (left_end c))" using request(4)
      by (auto simp: send_round_def RequestSendPackage_def Let_def uart_package_def upd_hUART_def split: if_splits)
    then show "data_out (base (left_end c)) = []" using L by (auto simp: dir_inv_def sender_ok_def)
  qed
  note q = package_requested [OF e(1) request(3,4) o(2,1)]
  have "dir_inv sid PL (left_end c') (right_end c') (to_right c') (to_left c')"
    using request_sender [OF L e(1) request(2-4)] by (simp add: request(1))
  moreover have "dir_inv sid PR (right_end c) (left_end c') (to_left c') (to_right c')"
    by (rule dir_inv_receiver [OF R]) (use q in \<open>simp_all add: request(1)\<close>)
  ultimately show ?thesis using e q(7) by (simp add: link_inv_def request(1))
next
  case (send now s1 s')
  have e: "end_ok sid (base (left_end c))" "end_ok sid (base (right_end c))"
    and L: "dir_inv sid PL (left_end c) (right_end c) (to_right c) (to_left c)"
    and R: "dir_inv sid PR (right_end c) (left_end c) (to_left c) (to_right c)"
    using assms(2) by (auto simp: link_inv_def)
  have "FreeSession sid \<notin> set (calls s')" using assms(5) by (simp add: given_up_def send(1))
  note q = send_effect [OF send(2,3) assms(3) e(1) this]
  have "dir_inv sid PL (left_end c') (right_end c') (to_right c') (to_left c')"
    using send_sender [OF L q(2,3,5,6)] by (simp add: send(1))
  moreover have "dir_inv sid PR (right_end c) (left_end c') (to_left c') (to_right c')"
    by (rule dir_inv_receiver [OF R]) (use q in \<open>simp_all add: send(1) sess_def\<close>)
  ultimately show ?thesis using e q(4) by (simp add: link_inv_def send(1))
next
  case (receive x xs r b s')
  have e: "end_ok sid (base (left_end c))" "end_ok sid (base (right_end c))"
    and L: "dir_inv sid PL (left_end c) (right_end c) (to_right c) (x # xs)"
    and R: "dir_inv sid PR (right_end c) (left_end c) (x # xs) (to_right c)"
    using assms(2) receive(2) by (auto simp: link_inv_def)
  show ?thesis
  proof (cases "is_resp x")
    case True
    note q = ack_sender [OF L e(1) True receive(3)]
    have "dir_inv sid PR (right_end c) (left_end c') (to_left c') (to_right c')"
      by (rule dir_inv_receiver [OF R]) (use q True in \<open>simp_all add: receive(1) sess_def\<close>)
    then show ?thesis using e q by (simp add: link_inv_def receive(1))
  next
    case False
    note q = data_receiver [OF R e(1) assms(4) False receive(3)]
    have "dir_inv sid PL (left_end c') (right_end c) (to_right c') (to_left c')"
      by (rule dir_inv_sender [OF L]) (use q False in \<open>simp_all add: receive(1)\<close>)
    then show ?thesis using e q by (simp add: link_inv_def receive(1))
  qed
next
  case (lose xs x ys)
  have L: "dir_inv sid PL (left_end c) (right_end c) (xs @ x # ys) (to_left c)"
    and R: "dir_inv sid PR (right_end c) (left_end c) (to_left c) (xs @ x # ys)"
    using assms(2) lose(2) by (auto simp: link_inv_def)
  have "dir_inv sid PL (left_end c) (right_end c) (xs @ ys) (to_left c)"
    using L lines_lose(1) unfolding dir_inv_def by blast
  moreover have "dir_inv sid PR (right_end c) (left_end c) (to_left c) (xs @ ys)"
    using R lines_lose(2) unfolding dir_inv_def by blast
  ultimately show ?thesis using assms(2) by (simp add: link_inv_def lose(1))
qed

definition fragments :: "bytes list \<Rightarrow> bytes list" where
  "fragments ds = concat (map chunks ds)"

lemma concat_fragments [simp]: "concat (fragments ds) = concat ds"
  by (induction ds) (simp_all add: fragments_def)

lemma fresh_dir:
  assumes "fresh_end sid ds a" and "fresh_end sid es b" and "[] \<notin> set ds"
  shows "dir_inv sid (fragments ds) a b [] []"
proof -
  have "remaining a = fragments ds"
    using assms(1) by (auto simp: fresh_end_def remaining_def fragments_def split: list.split)
  moreover have "end_todo_ok a" using assms(1,3)
    by (auto simp: fresh_end_def end_todo_ok_def list_all_iff split: list.split)
  ultimately have "sender_ok sid (fragments ds) 0 0 a"
    using assms(1) by (simp add: sender_ok_def fresh_end_def data_out_def)
  moreover have "receiver_ok sid (fragments ds) 0 b" "resp_bufs (base b) = []"
    using assms(2) by (simp_all add: receiver_ok_def fresh_end_def resp_bufs_def)
  ultimately show ?thesis unfolding dir_inv_def
    by (intro exI [of _ 0]) (simp add: lines_ok_def)
qed

lemma link_reach_inv:
  assumes "link_reach io sid c0 c" and "fresh_link sid ls rs c0" and "good_io io" and "sid \<noteq> 0"
    and "[] \<notin> set ls" and "[] \<notin> set rs"
  shows "link_inv sid (fragments ls) (fragments rs) c"
  using assms(1)
proof (induction rule: link_reach.induct)
  case start
  then show ?case using assms(2,5,6) fresh_dir
    by (auto simp: fresh_link_def link_inv_def) (auto simp: fresh_end_def)
next
  case (left c c')
  then show ?case using left_step_inv assms(3,4) by blast
next
  case (right c c')
  have "\<not> given_up sid (mirror c')" using right(3) by (auto simp: given_up_def mirror_def)
  then have "link_inv sid (fragments rs) (fragments ls) (mirror c')"
    using left_step_inv [OF right(2)] right(4) assms(3,4) by (simp add: link_inv_mirror)
  then show ?case by (simp add: link_inv_mirror)
qed

section \<open>A package gets through\<close>

lemma outPkgs_eq_Nil: "outPkgs s = [] \<longleftrightarrow> data_out s = [] \<and> resp_bufs s = []"
  by (auto simp: data_out_def resp_bufs_def filter_empty_conv)

lemma outPkgs_eq_data: "data_out s = [p] \<Longrightarrow> resp_bufs s = [] \<Longrightarrow> outPkgs s = [p]"
proof -
  assume a: "data_out s = [p]" "resp_bufs s = []"
  then have "data_out s = outPkgs s" by (auto simp: data_out_def resp_bufs_def filter_empty_conv filter_id_conv)
  with a show ?thesis by simp
qed

text \<open>A single package that waits to be sent is sent when the write thread runs.\<close>

lemma send_single:
  assumes "end_ok sid s" and "good_io io" and "outPkgs s = [p]" and "pkgStatus p = PKG_WAIT_SEND"
    and "requested s" and "uart_sessions s sid \<noteq> None"
  shows "\<exists>s1 s'. Wait now s = Some s1 \<and> SendPkgInUARTOutMap io now (s1\<lparr>wire := []\<rparr>) = Some s'
    \<and> wire s' = [msgSendBuf p] \<and> (response p \<longrightarrow> outPkgs s' = []) \<and> calls s' = calls s
    \<and> uart_sessions s' = uart_sessions s"
proof -
  obtain s1 where s1: "Wait now s = Some s1" "outPkgs s1 = outPkgs s" "uart_sessions s1 = uart_sessions s"
    "is_host s1 = is_host s" "pipe_results s1 = pipe_results s" "calls s1 = calls s"
    using assms(5) by (cases "timed s") (auto simp: Wait_def)
  let ?s = "s1\<lparr>wire := [], outPkgs := [p]\<rparr>"
  have e: "env_ok sid ?s" "pkg_ok sid p"
    using assms(1,3) s1 by (auto simp: end_ok_env env_ok_def pipe_ok_def sess_def)
  have "snd (SendUARTRaw io (msgSendBuf p) ?s) = ?s\<lparr>wire := [msgSendBuf p]\<rparr>"
    using raw_written [OF e(2,1) assms(2)] assms(6) s1(3) by simp
  then show ?thesis using s1 assms(3,4)
    by (cases "response p") (auto simp: SendPkgInUARTOutMap_def Sent_def Let_def)
qed

definition quiet :: "u32 \<Rightarrow> bytes list \<Rightarrow> bytes list \<Rightarrow> link \<Rightarrow> bool" where
  "quiet sid PL PR c \<longleftrightarrow> outPkgs (base (left_end c)) = [] \<and> outPkgs (base (right_end c)) = []
     \<and> to_right c = [] \<and> to_left c = [] \<and> \<not> given_up sid c \<and> link_inv sid PL PR c
     \<and> uart_sessions (base (left_end c)) sid \<noteq> None"

lemma link_reach_trans: "link_reach io sid b c \<Longrightarrow> link_reach io sid a b \<Longrightarrow> link_reach io sid a c"
  by (induction rule: link_reach.induct) (auto intro: link_reach.intros)

lemma right_receives:
  assumes "end_ok sid s" and "sid \<noteq> 0" and "data_pkg sid i d b" and "outPkgs s = []"
  obtains s' p where "PackageProcess b (reader_of sid s) s = (0, [], s')" "outPkgs s' = [p]"
    "pkgStatus p = PKG_WAIT_SEND" "response p" "msgSendBuf p = ack_pkg sid i" "requested s'"
    "uart_sessions s' sid \<noteq> None" "end_ok sid s'" "FreeSession sid \<in> set (calls s') \<longleftrightarrow> FreeSession sid \<in> set (calls s)"
proof -
  obtain opt where xp: "b = package (data_head sid opt d i) d" "opt \<in> {0, PKG_OPTION_TAIL}"
    "d \<noteq> []" "length d \<le> packageDataMaxSize" using assms(3) by (auto simp: data_pkg_def)
  let ?h = "new_UartHead sid PKG_OPTION_ACK 0 i"
  define p where "p = \<lparr> pkg_key = ack_key sid i, pkg_sessionId = sid, response = True, pkg_ack = True,
    pkgStatus = PKG_WAIT_SEND, msgSendBuf = ack_pkg sid i, retryChance = 4, sendTimePoint = 0 \<rparr>"
  define s1 where "s1 = ResponseUartTrans sid i PKG_OPTION_ACK s"
  have u: "UpdateCheckSum m (enc_UartHead ?h) = ack_pkg sid i" for m
    using UpdateCheckSum_package [of ?h "[]" m] by (simp add: ack_pkg_def)
  have r: "IsResponsePackage ?h" "has_option ?h PKG_OPTION_ACK"
    by (simp_all add: IsResponsePackage_def has_option_def hdc_consts)
  have s1: "s1 = NotifyTransfer (s\<lparr>outPkgs := [p]\<rparr>)"
    by (simp add: s1_def ResponseUartTrans_def add_package_def Let_def u r assms(4) find_if_def p_def)
  have "\<not> IsResponsePackage (data_head sid opt d i)"
    using xp(2) by (auto simp: IsResponsePackage_def has_option_def hdc_consts)
  then have la: "link_answer (data_head sid opt d i) s = s1" by (simp add: link_answer_def s1_def)
  have rd: "reader_of sid s = reader_of sid s1" by (simp add: reader_of_def s1)
  define s' where "s' = snd (dispatch_package (reader_of sid s1) sid i b s1)"
  have pp: "PackageProcess b (reader_of sid s) s = (0, [], s')"
    using PackageProcess_one [OF data_plain [OF xp(4,2)], of sid i] xp(1,3) by (simp add: la s'_def rd)
  note q1 = ack_request [OF assms(1), of i, folded s1_def]
  note q2 = data_dispatched [OF q1(6) assms(2,3), folded s'_def]
  have "requested s'" using q2(8) by (simp add: s1 NotifyTransfer_def)
  moreover have "outPkgs s' = [p]" using q2(1) by (simp add: s1)
  ultimately show thesis using pp q1(5) q2(3,5,9)
    by (intro that [of s' p]) (simp_all add: p_def)
qed

lemma link_reach_left: "left_step io sid c c' \<Longrightarrow> \<not> given_up sid c' \<Longrightarrow> link_reach io sid c c'"
  and link_reach_right: "left_step io sid (mirror c) (mirror c') \<Longrightarrow> \<not> given_up sid c' \<Longrightarrow> link_reach io sid c c'"
  by (auto intro: link_reach.intros)

text \<open>The left end requests a package and writes it.\<close>

lemma left_emits:
  assumes "quiet sid PL PR c" and "good_io io" and "sid \<noteq> 0" and "todo (left_end c) = d # ds"
  obtains c2 x i e p where "link_reach io sid c c2" "to_right c2 = [x]" "to_left c2 = []"
    "right_end c2 = right_end c" "data_pkg sid i e x" "data_out (base (left_end c2)) = [p]"
    "pkg_key p = data_key sid i" "resp_bufs (base (left_end c2)) = []" "\<not> given_up sid c2" "link_inv sid PL PR c2"
    "uart_sessions (base (left_end c2)) sid \<noteq> None" "remaining (left_end c) = e # remaining (left_end c2)"
proof -
  let ?s = "base (left_end c)"
  have q: "outPkgs ?s = []" "to_right c = []" "to_left c = []" "\<not> given_up sid c" "link_inv sid PL PR c"
    "uart_sessions ?s sid \<noteq> None" using assms(1) by (auto simp: quiet_def)
  then have e: "end_ok sid ?s" and L: "dir_inv sid PL (left_end c) (right_end c) (to_right c) (to_left c)"
    by (auto simp: link_inv_def)
  have n: "data_out ?s = []" "resp_bufs ?s = []" using q(1) by (simp_all add: outPkgs_eq_Nil)
  then have t: "sid \<notin> slots ?s" "end_todo_ok (left_end c)" using L by (auto simp: dir_inv_def sender_ok_def)
  then have o: "offset (left_end c) < length d" using assms(4) by (simp add: end_todo_ok_def)
  obtain off' s1 where r: "send_round sid d (offset (left_end c)) ?s = Some (off', s1)"
    using t(1) by (auto simp: send_round_def RequestSendPackage_def Let_def uart_package_def upd_hUART_def)
  note p1 = package_requested [OF e q(6) r n(1) o]
  define i where "i = (ucast (packageIndex (hUART (sess sid ?s)) + 1) :: u32)"
  define pay where "pay = take (min (length d - offset (left_end c)) packageDataMaxSize) (drop (offset (left_end c)) d)"
  obtain p where p: "data_out s1 = [p]" "pkg_key p = data_key sid i" "data_pkg sid i pay (msgSendBuf p)"
    using p1(4) unfolding i_def pay_def by blast
  have o1: "outPkgs s1 = [p]" using outPkgs_eq_data p(1) p1(5) n(2) by metis
  have st: "pkgStatus p = PKG_WAIT_SEND" using p1(13) p(1) by simp
  define c1 where "c1 = c\<lparr>left_end := advance off' ((left_end c)\<lparr>base := s1\<rparr>)\<rparr>"
  have r1: "left_step io sid c c1" unfolding c1_def by (rule left_step.request [OF assms(4) q(6) r])
  have g1: "\<not> given_up sid c1" using q(4) p1(6) by (simp add: given_up_def c1_def)
  have i1: "link_inv sid PL PR c1" by (rule left_step_inv [OF r1 q(5) assms(2,3) g1])
  obtain w s2 where w: "Wait 0 s1 = Some w" "SendPkgInUARTOutMap io 0 (w\<lparr>wire := []\<rparr>) = Some s2"
    "wire s2 = [msgSendBuf p]" "calls s2 = calls s1"
    using send_single [OF p1(7) assms(2) o1 st p1(12,14), of 0] by blast
  define c2 where "c2 = c1\<lparr>left_end := (left_end c1)\<lparr>base := s2\<rparr>, to_right := to_right c1 @ wire s2\<rparr>"
  have r2: "left_step io sid c1 c2" unfolding c2_def by (rule left_step.send [OF _ w(2)]) (use w in \<open>simp add: c1_def\<close>)
  have g2: "\<not> given_up sid c2" using q(4) p1(6) w(4) by (simp add: given_up_def c1_def c2_def)
  have i2: "link_inv sid PL PR c2" by (rule left_step_inv [OF r2 i1 assms(2,3) g2])
  have "FreeSession sid \<notin> set (calls s2)" using g2 by (simp add: given_up_def c2_def)
  note p2 = send_effect [OF w(1,2) assms(2) p1(7) this]
  obtain p' where p': "data_out s2 = [p']" "pkg_key p' = data_key sid i"
    using p2(2) p by (auto simp: core_def)
  have rem: "remaining (left_end c) = pay # remaining (left_end c2)"
    using remaining_advance(1) [OF t(2) assms(4)] p1(1)
    by (simp add: c2_def c1_def pay_def advance_rest remaining_base)
  show thesis
  proof (rule that [of c2 "msgSendBuf p" i pay p'])
    show "link_reach io sid c c2" using r1 r2 g1 g2 link_reach_left link_reach_trans by blast
    show "resp_bufs (base (left_end c2)) = []" using p2(1) p1(5) n(2) by (simp add: c2_def)
  qed (use q p p' p2 p1 w g2 i2 rem in \<open>simp_all add: c2_def c1_def\<close>)
qed

text \<open>The right end takes it and acknowledges it, and the left end is quiet again.\<close>

lemma deliver_one:
  assumes "quiet sid PL PR c" and "good_io io" and "sid \<noteq> 0" and "todo (left_end c) = d # ds"
  shows "\<exists>c' e. link_reach io sid c c' \<and> quiet sid PL PR c' \<and> remaining (left_end c) = e # remaining (left_end c')
    \<and> todo (right_end c') = todo (right_end c) \<and> uart_sessions (base (right_end c')) sid \<noteq> None"
proof -
  obtain c2 x i e p where c2: "link_reach io sid c c2" "to_right c2 = [x]" "to_left c2 = []"
    "right_end c2 = right_end c" "data_pkg sid i e x" "data_out (base (left_end c2)) = [p]"
    "pkg_key p = data_key sid i" "resp_bufs (base (left_end c2)) = []" "\<not> given_up sid c2" "link_inv sid PL PR c2"
    "uart_sessions (base (left_end c2)) sid \<noteq> None" "remaining (left_end c) = e # remaining (left_end c2)"
    using left_emits [OF assms] by metis
  let ?r = "base (right_end c2)"
  have er: "end_ok sid ?r" "end_ok sid (base (left_end c2))" using c2(10) by (simp_all add: link_inv_def)
  have "outPkgs ?r = []" using assms(1) c2(4) by (simp add: quiet_def)
  then obtain s3 q where q: "PackageProcess x (reader_of sid ?r) ?r = (0, [], s3)" "outPkgs s3 = [q]"
    "pkgStatus q = PKG_WAIT_SEND" "response q" "msgSendBuf q = ack_pkg sid i" "requested s3"
    "uart_sessions s3 sid \<noteq> None" "end_ok sid s3" "FreeSession sid \<in> set (calls s3) \<longleftrightarrow> FreeSession sid \<in> set (calls ?r)"
    using right_receives [OF er(1) assms(3) c2(5)] by blast
  define c3 where "c3 = c2\<lparr>right_end := (right_end c2)\<lparr>base := s3\<rparr>, to_right := []\<rparr>"
  have "left_step io sid (mirror c2) ((mirror c2)\<lparr>left_end := (left_end (mirror c2))\<lparr>base := s3\<rparr>, to_left := []\<rparr>)"
    by (rule left_step.receive [of _ x "[]"]) (use c2(2) q(1) in \<open>simp_all add: mirror_def\<close>)
  then have r3: "left_step io sid (mirror c2) (mirror c3)" by (simp add: mirror_def c3_def)
  have g3: "\<not> given_up sid c3" using c2(9) q(9) by (simp add: given_up_def c3_def)
  obtain w s4 where w: "Wait 0 s3 = Some w" "SendPkgInUARTOutMap io 0 (w\<lparr>wire := []\<rparr>) = Some s4"
    "wire s4 = [ack_pkg sid i]" "outPkgs s4 = []" "calls s4 = calls s3" "uart_sessions s4 = uart_sessions s3"
    using send_single [OF q(8) assms(2) q(2,3,6,7), of 0] q(4,5) by auto
  define c4 where "c4 = c3\<lparr>right_end := (right_end c3)\<lparr>base := s4\<rparr>, to_left := [ack_pkg sid i]\<rparr>"
  have "left_step io sid (mirror c3) ((mirror c3)\<lparr>left_end := (left_end (mirror c3))\<lparr>base := s4\<rparr>,
      to_right := to_right (mirror c3) @ wire s4\<rparr>)"
    by (rule left_step.send [OF _ w(2)]) (use w(1) in \<open>simp add: mirror_def c3_def\<close>)
  then have r4: "left_step io sid (mirror c3) (mirror c4)"
    using c2(3) by (simp add: mirror_def c4_def w(3)) (simp add: c3_def)
  have g4: "\<not> given_up sid c4" using g3 w(5) by (simp add: given_up_def c4_def) (simp add: c3_def)
  let ?l = "base (left_end c2)"
  define s5 where "s5 = ProcessResponsePackage (new_UartHead sid PKG_OPTION_ACK 0 i) ?l"
  note a = ack_arrives [OF er(2), where i = i, folded s5_def]
  have "IsResponsePackage (new_UartHead sid PKG_OPTION_ACK 0 i)"
    by (simp add: IsResponsePackage_def has_option_def hdc_consts)
  then have pp: "PackageProcess (ack_pkg sid i) hs ?l = (0, [], s5)" for hs
    using PackageProcess_one [OF ack_plain, of sid i hs ?l] by (simp add: ack_pkg_def link_answer_def s5_def)
  define c5 where "c5 = c4\<lparr>left_end := (left_end c4)\<lparr>base := s5\<rparr>, to_left := []\<rparr>"
  have r5: "left_step io sid c4 c5" unfolding c5_def
    by (rule left_step.receive [of _ "ack_pkg sid i"]) (use pp in \<open>simp_all add: c4_def c3_def\<close>)
  have g5: "\<not> given_up sid c5" using g4 a(3) by (simp add: given_up_def c5_def) (simp add: c4_def c3_def)
  have reach: "link_reach io sid c2 c5"
    using link_reach_right [OF r3 g3] link_reach_right [OF r4 g4] link_reach_left [OF r5 g5]
      link_reach_trans by blast
  have inv: "link_inv sid PL PR c5"
  proof -
    have "link_inv sid PR PL (mirror c3)"
      by (rule left_step_inv [OF r3 _ assms(2,3)]) (use g3 c2(10) in \<open>auto simp: given_up_def mirror_def link_inv_def\<close>)
    then have "link_inv sid PR PL (mirror c4)"
      by (rule left_step_inv [OF r4 _ assms(2,3)]) (use g4 in \<open>auto simp: given_up_def mirror_def\<close>)
    then show ?thesis using left_step_inv [OF r5 _ assms(2,3) g5] by (simp add: link_inv_mirror)
  qed
  have "outPkgs s5 = []" using a(1) a(7) [OF c2(6,7)] c2(8) by (simp add: outPkgs_eq_Nil)
  then have "quiet sid PL PR c5"
    using inv g5 a(2) c2(11) w(4) by (simp add: quiet_def c5_def c4_def c3_def)
  moreover have "remaining (left_end c) = e # remaining (left_end c5)"
    using c2(12) by (simp add: c5_def c4_def c3_def remaining_base)
  moreover have "todo (right_end c5) = todo (right_end c)" "uart_sessions (base (right_end c5)) sid \<noteq> None"
    using c2(4) w(6) q(7) by (simp_all add: c5_def c4_def c3_def)
  ultimately show ?thesis using link_reach_trans [OF reach c2(1)] by blast
qed

lemma deliver_all:
  assumes "good_io io" and "sid \<noteq> 0"
  shows "quiet sid PL PR c \<Longrightarrow> \<exists>c'. link_reach io sid c c' \<and> quiet sid PL PR c' \<and> todo (left_end c') = []
    \<and> todo (right_end c') = todo (right_end c)
    \<and> (uart_sessions (base (right_end c)) sid \<noteq> None \<longrightarrow> uart_sessions (base (right_end c')) sid \<noteq> None)"
proof (induction "length (remaining (left_end c))" arbitrary: c)
  case 0
  have "todo (left_end c) = []"
  proof (rule ccontr)
    assume "todo (left_end c) \<noteq> []"
    then obtain d ds where "todo (left_end c) = d # ds" by (cases "todo (left_end c)") auto
    then show False using 0 deliver_one [OF 0(2) assms] by fastforce
  qed
  then show ?case using 0(2) link_reach.start by blast
next
  case (Suc n)
  then obtain d ds where "todo (left_end c) = d # ds"
    by (cases "todo (left_end c)") (auto simp: remaining_def)
  then obtain c1 e where c1: "link_reach io sid c c1" "quiet sid PL PR c1" "remaining (left_end c) = e # remaining (left_end c1)"
    "todo (right_end c1) = todo (right_end c)" "uart_sessions (base (right_end c1)) sid \<noteq> None"
    using deliver_one [OF Suc(3) assms] by blast
  then have "n = length (remaining (left_end c1))" using Suc(2) by simp
  from Suc(1) [OF this c1(2)] obtain c' where "link_reach io sid c1 c'" "quiet sid PL PR c'" "todo (left_end c') = []"
    "todo (right_end c') = todo (right_end c1)" "uart_sessions (base (right_end c')) sid \<noteq> None" using c1(5) by blast
  then show ?case using c1(1,4) link_reach_trans by (intro exI [of _ c']) auto
qed

text \<open>The two ends are alike.\<close>

lemma mirror_mirror [simp]: "mirror (mirror c) = c"
  by (simp add: mirror_def)

lemma given_up_mirror [simp]: "given_up sid (mirror c) = given_up sid c"
  by (auto simp: given_up_def mirror_def)

lemma link_reach_mirror: "link_reach io sid c0 c \<Longrightarrow> link_reach io sid (mirror c0) (mirror c)"
proof (induction rule: link_reach.induct)
  case (left c c')
  have "link_reach io sid (mirror c) (mirror c')"
    by (rule link_reach_right) (use left(2,3) in simp_all)
  then show ?case using left(4) link_reach_trans by blast
next
  case (right c c')
  have "link_reach io sid (mirror c) (mirror c')"
    by (rule link_reach_left) (use right(2,3) in simp_all)
  then show ?case using right(4) link_reach_trans by blast
qed (rule link_reach.start)

text \<open>Nothing is outstanding, and both ends have the session.\<close>

definition settled :: "u32 \<Rightarrow> link \<Rightarrow> bool" where
  "settled sid c \<longleftrightarrow> outPkgs (base (left_end c)) = [] \<and> outPkgs (base (right_end c)) = []
     \<and> to_right c = [] \<and> to_left c = [] \<and> \<not> given_up sid c
     \<and> uart_sessions (base (left_end c)) sid \<noteq> None \<and> uart_sessions (base (right_end c)) sid \<noteq> None"

lemma quiet_settled:
  "quiet sid PL PR c \<Longrightarrow> uart_sessions (base (right_end c)) sid \<noteq> None \<Longrightarrow> quiet sid PR PL (mirror c)"
  by (auto simp: quiet_def link_inv_mirror) (simp_all add: mirror_def)

lemma deliver_both:
  assumes "good_io io" and "sid \<noteq> 0" and "settled sid c" and "link_inv sid PL PR c"
  shows "\<exists>c'. link_reach io sid c c' \<and> settled sid c' \<and> link_inv sid PL PR c'
    \<and> todo (left_end c') = [] \<and> todo (right_end c') = []"
proof -
  have q: "quiet sid PL PR c" using assms(3,4) by (simp add: settled_def quiet_def)
  have r: "uart_sessions (base (right_end c)) sid \<noteq> None" using assms(3) by (simp add: settled_def)
  obtain c1 where c1: "link_reach io sid c c1" "quiet sid PL PR c1" "todo (left_end c1) = []"
    "uart_sessions (base (right_end c1)) sid \<noteq> None"
    using deliver_all [OF assms(1,2) q] r by blast
  have l1: "uart_sessions (base (right_end (mirror c1))) sid \<noteq> None"
    using c1(2) by (simp add: quiet_def mirror_def)
  obtain d where d: "link_reach io sid (mirror c1) d" "quiet sid PR PL d" "todo (left_end d) = []"
    "todo (right_end d) = todo (right_end (mirror c1))" "uart_sessions (base (right_end d)) sid \<noteq> None"
    using deliver_all [OF assms(1,2) quiet_settled [OF c1(2,4)]] l1 by blast
  have "link_reach io sid c1 (mirror d)" using link_reach_mirror [OF d(1)] by simp
  then have "link_reach io sid c (mirror d)" using c1(1) link_reach_trans by blast
  moreover have q: "quiet sid PL PR (mirror d)" by (rule quiet_settled [OF d(2,5)])
  moreover have "settled sid (mirror d)" using q d(2) by (simp add: quiet_def settled_def) (simp add: mirror_def)
  moreover have "todo (left_end (mirror d)) = []" "todo (right_end (mirror d)) = []"
    using d(3,4) c1(3) by (simp_all add: mirror_def)
  ultimately show ?thesis by (auto simp: quiet_def)
qed

section \<open>Properties\<close>

text \<open>
  C2. The link is reliable as long as no end gives the session up: from a fresh link, whichever whole
  packages the line loses in either direction and whenever the threads run, the bytes that have reached
  a session are a front part of the bytes the other session sent, each once and in order; and they are
  all of them once the sender has nothing left and waits for no acknowledgement. The line of the model
  loses whole packages and damages none. After an end has given up there can be a hole
  (\<open>next_package_after_loss\<close>).
\<close>

theorem uart_link_reliable:
  assumes "fresh_link sid ls rs c0" and "[] \<notin> set ls" and "[] \<notin> set rs" and "good_io io" and "sid \<noteq> 0"
    and "link_reach io sid c0 c"
  shows "prefix (us_stream (sess sid (base (right_end c)))) (concat ls)
    \<and> prefix (us_stream (sess sid (base (left_end c)))) (concat rs)
    \<and> (todo (left_end c) = [] \<and> data_out (base (left_end c)) = [] \<longrightarrow>
         us_stream (sess sid (base (right_end c))) = concat ls)
    \<and> (todo (right_end c) = [] \<and> data_out (base (right_end c)) = [] \<longrightarrow>
         us_stream (sess sid (base (left_end c))) = concat rs)"
proof -
  have dir: "prefix (us_stream (sess sid (base b))) (concat ds)
      \<and> (todo a = [] \<and> data_out (base a) = [] \<longrightarrow> us_stream (sess sid (base b)) = concat ds)"
    if D: "dir_inv sid (fragments ds) a b ab ba" for ds a b ab ba
  proof -
    obtain n m k where s: "sender_ok sid (fragments ds) n m a" and r: "receiver_ok sid (fragments ds) k b"
      and k: "k = m \<or> k = n"
      using D by (auto simp: dir_inv_def lines_ok_def)
    have "prefix (concat (take k (fragments ds))) (concat (take k (fragments ds) @ drop k (fragments ds)))"
      unfolding concat_append by (rule prefixI) (rule refl)
    moreover have "k = length (fragments ds)" if "todo a = []" "data_out (base a) = []"
      using that s k by (auto simp: sender_ok_def remaining_def)
    ultimately show ?thesis using r by (auto simp: receiver_ok_def)
  qed
  have "link_inv sid (fragments ls) (fragments rs) c"
    by (rule link_reach_inv [OF assms(6,1,4,5,2,3)])
  then show ?thesis using dir unfolding link_inv_def by blast
qed

definition sample_link :: "bytes list \<Rightarrow> link" where
  "sample_link ls =
     \<lparr> left_end = \<lparr> base = sample_base True, todo = ls, offset = 0 \<rparr>,
       right_end = \<lparr> base = (sample_base False)\<lparr>uart_sessions := \<lambda>_. None\<rparr>, todo = [], offset = 0 \<rparr>,
       to_right = [], to_left = [] \<rparr>"

definition sample_io :: device where
  "sample_io b = [Wrote (length b)]"

lemma sample_fresh: "fresh_link 7 ls [] (sample_link ls)"
  by (simp add: fresh_link_def fresh_end_def sample_link_def sample_base_def end_ok_def pipe_ok_def sess_def
      new_uart_session_def)

lemma sample_io_good: "good_io sample_io"
  by (simp add: good_io_def sample_io_def)

lemma fresh_quiet:
  assumes "fresh_link sid ls rs c" and "\<not> given_up sid c" and "[] \<notin> set ls" and "[] \<notin> set rs"
    and "uart_sessions (base (left_end c)) sid \<noteq> None" and "good_io io" and "sid \<noteq> 0"
  shows "quiet sid (fragments ls) (fragments rs) c"
  using assms link_reach_inv [OF link_reach.start assms(1,6,7,3,4)]
  by (auto simp: quiet_def fresh_link_def fresh_end_def)

theorem uart_link_reliable_witness:
  "\<exists>c. link_reach sample_io 7 (sample_link [[1, 2, 3], [4]]) c
     \<and> us_stream (sess 7 (base (right_end c))) = [1, 2, 3, 4]"
proof -
  have "\<not> given_up 7 (sample_link [[1, 2, 3], [4]])"
    by (simp add: given_up_def sample_link_def sample_base_def)
  then have "quiet 7 (fragments [[1, 2, 3], [4]]) (fragments []) (sample_link [[1, 2, 3], [4]])"
    by (intro fresh_quiet [OF sample_fresh _ _ _ _ sample_io_good])
      (simp_all add: sample_link_def sample_base_def)
  then obtain c where c: "link_reach sample_io 7 (sample_link [[1, 2, 3], [4]]) c"
    "quiet 7 (fragments [[1, 2, 3], [4]]) (fragments []) c" "todo (left_end c) = []"
    using deliver_all [OF sample_io_good, of 7] by fastforce
  then have "us_stream (sess 7 (base (right_end c))) = concat [[1, 2, 3], [4]]"
    using uart_link_reliable [OF sample_fresh _ _ sample_io_good _ c(1)] by (simp add: quiet_def data_out_def)
  with c(1) show ?thesis by auto
qed

text \<open>
  C13. Nothing keeps the link from finishing: whatever the line has lost before, from every state
  reached from a fresh link in which no end has given up, both have the session and nothing is
  outstanding on the line or in the lists, there is a run after which everything that either end was
  given has reached the session on the other side, and nothing is outstanding again.
\<close>

theorem uart_link_delivers:
  assumes "fresh_link sid ls rs c0" and "[] \<notin> set ls" and "[] \<notin> set rs" and "good_io io" and "sid \<noteq> 0"
    and "link_reach io sid c0 c" and "settled sid c"
  shows "\<exists>c'. link_reach io sid c c' \<and> settled sid c' \<and> todo (left_end c') = [] \<and> todo (right_end c') = []
    \<and> us_stream (sess sid (base (right_end c'))) = concat ls
    \<and> us_stream (sess sid (base (left_end c'))) = concat rs"
proof -
  have inv: "link_inv sid (fragments ls) (fragments rs) c" by (rule link_reach_inv [OF assms(6,1,4,5,2,3)])
  obtain c' where c': "link_reach io sid c c'" "settled sid c'" "link_inv sid (fragments ls) (fragments rs) c'"
    "todo (left_end c') = []" "todo (right_end c') = []" using deliver_both [OF assms(4,5,7) inv] by blast
  have dir: "us_stream (sess sid (base b)) = concat ds"
    if D: "dir_inv sid (fragments ds) a b [] []" and t: "todo a = []" "outPkgs (base a) = []" for ds a b
  proof -
    obtain n m k where s: "sender_ok sid (fragments ds) n m a" and r: "receiver_ok sid (fragments ds) k b"
      and k: "k = m \<or> k = n" using D by (auto simp: dir_inv_def lines_ok_def)
    have "k = length (fragments ds)" using t s k by (auto simp: sender_ok_def remaining_def data_out_def)
    then show ?thesis using r by (auto simp: receiver_ok_def)
  qed
  have l: "dir_inv sid (fragments ls) (left_end c') (right_end c') [] []"
    "dir_inv sid (fragments rs) (right_end c') (left_end c') [] []"
    using c'(2,3) by (auto simp: link_inv_def settled_def)
  have "us_stream (sess sid (base (right_end c'))) = concat ls" "us_stream (sess sid (base (left_end c'))) = concat rs"
    using dir [OF l(1)] dir [OF l(2)] c'(2,4,5) by (simp_all add: settled_def)
  then show ?thesis using c' by blast
qed

definition sample_pair :: "bytes list \<Rightarrow> bytes list \<Rightarrow> link" where
  "sample_pair ls rs =
     \<lparr> left_end = \<lparr> base = sample_base True, todo = ls, offset = 0 \<rparr>,
       right_end = \<lparr> base = sample_base False, todo = rs, offset = 0 \<rparr>,
       to_right = [], to_left = [] \<rparr>"

lemma sample_pair_fresh: "fresh_link 7 ls rs (sample_pair ls rs)"
  by (simp add: fresh_link_def fresh_end_def sample_pair_def sample_base_def end_ok_def pipe_ok_def sess_def
      new_uart_session_def)

theorem uart_link_delivers_witness:
  "\<exists>c. link_reach sample_io 7 (sample_pair [[1, 2], [3]] [[4], [5, 6]]) c
     \<and> us_stream (sess 7 (base (right_end c))) = [1, 2, 3] \<and> us_stream (sess 7 (base (left_end c))) = [4, 5, 6]"
proof -
  have "settled 7 (sample_pair [[1, 2], [3]] [[4], [5, 6]])"
    by (simp add: settled_def given_up_def sample_pair_def sample_base_def)
  from uart_link_delivers [OF sample_pair_fresh _ _ sample_io_good _ link_reach.start this] show ?thesis by auto
qed

section \<open>What the link does not promise\<close>

text \<open>
  When the daemon gives a session up after the last retry, the package that was never
  acknowledged is dropped and its slot freed while the session still exists: a thread that is
  still sending goes on with the next package, so the peer's stream has a hole.
\<close>

theorem next_package_after_loss:
  assumes "\<not> is_host s" and "outPkgs s = [p]" and "slots s = {sid}" and "pkg_sessionId p = sid" and "\<not> response p"
    and "pkgStatus p = PKG_WAIT_RESPONSE" and "retryChance p = 0" and "WaitResponseTimeOutMs \<le> now - sendTimePoint p"
    and "uart_sessions s sid \<noteq> None"
  shows "\<exists>s'. SendPkgInUARTOutMap io now s = Some s' \<and> outPkgs s' = [] \<and> wire s' = wire s
    \<and> FreeSession sid \<in> set (calls s') \<and> uart_sessions s' sid \<noteq> None
    \<and> (\<forall>d off. \<exists>off' s''. send_round sid d off s' = Some (off', s'') \<and> length (outPkgs s'') = 1)"
proof -
  have eq: "s\<lparr>outPkgs := [p]\<rparr> = s" using assms(2) by (cases s) simp
  define s' where "s' = DaemonOnTransferError (Some sid) s"
  have "SendPkgInUARTOutMap io now s = Some s'"
    using assms by (simp add: SendPkgInUARTOutMap_def OnTransferError_def s'_def eq)
  moreover have f: "outPkgs s' = []" "slots s' = {}" "wire s' = wire s" "FreeSession sid \<in> set (calls s')"
    "uart_sessions s' = uart_sessions s"
    using assms by (simp_all add: s'_def DaemonOnTransferError_def ClearUARTOutMap_def call_def)
  moreover have "\<exists>off' s''. send_round sid d off s' = Some (off', s'') \<and> length (outPkgs s'') = 1" for d off
    using f by (simp add: send_round_def RequestSendPackage_def Let_def uart_package_def upd_hUART_def
        add_package_def find_if_def)
  ultimately show ?thesis using assms(9) by auto
qed

definition waiting :: "u32 \<Rightarrow> nat \<Rightarrow> HandleOutputPkg" where
  "waiting sid retry =
     \<lparr> pkg_key = data_key sid 1, pkg_sessionId = sid, response = False, pkg_ack = False,
       pkgStatus = PKG_WAIT_RESPONSE, msgSendBuf = package (data_head sid PKG_OPTION_TAIL [65] 1) [65],
       retryChance = retry, sendTimePoint = 0 \<rparr>"

theorem next_package_after_loss_witness:
  "\<exists>s'. SendPkgInUARTOutMap sample_io 1000 ((sample_base False)\<lparr>outPkgs := [waiting 7 0], slots := {7}\<rparr>) = Some s'
    \<and> outPkgs s' = [] \<and> wire s' = [] \<and> FreeSession 7 \<in> set (calls s') \<and> uart_sessions s' 7 \<noteq> None
    \<and> (\<forall>d off. \<exists>off' s''. send_round 7 d off s' = Some (off', s'') \<and> length (outPkgs s'') = 1)"
  using next_package_after_loss
    [of "(sample_base False)\<lparr>outPkgs := [waiting 7 0], slots := {7}\<rparr>" "waiting 7 0" 7 1000 sample_io]
  by (simp add: sample_base_def waiting_def WaitResponseTimeOutMs_def)

text \<open>
  When a write to the device of a session fails, the packages of the session are erased while
  the sending loop stands on one of them: it goes on with an invalid iterator.
\<close>

theorem failed_write_invalidates_iterator:
  assumes "outPkgs s = p # ps" and "pkg_ok sid p" and "pkgStatus p = PKG_WAIT_SEND" and "\<not> response p"
    and "uart_sessions s sid \<noteq> None" and "io (msgSendBuf p) = Failed # rs"
  shows "SendPkgInUARTOutMap io now s = None"
proof -
  obtain u where u: "uart_sessions s sid = Some u" using assms(5) by blast
  have "outPkgs (OnTransferError (Some sid) t) = filter (\<lambda>q. pkg_sessionId q \<noteq> sid) (outPkgs t)" for t
    by (simp add: OnTransferError_def HostOnTransferError_def DaemonOnTransferError_def ClearUARTOutMap_def
        Let_def call_def close_port_def)
  then have "outPkgs (snd (SendUARTRaw io (msgSendBuf p) (s\<lparr>outPkgs := p # ps\<rparr>)))
      = filter (\<lambda>q. pkg_sessionId q \<noteq> sid) (p # ps)"
    using pkg_ok_buf(1,2) [OF assms(2)] assms(4,6) u
    by (auto simp: SendUARTRaw_def WriteUartDev_def Let_def)
  moreover have "filter (\<lambda>q. pkg_sessionId q \<noteq> sid) (p # ps) \<noteq> p # ps"
    using assms(2) by (metis (mono_tags, lifting) filter_id_conv list.set_intros(1) pkg_ok_def)
  ultimately show ?thesis using assms(1,3,4) by (simp add: SendPkgInUARTOutMap_def Let_def)
qed

theorem failed_write_invalidates_iterator_witness:
  "SendPkgInUARTOutMap (\<lambda>_. [Failed]) 0
     ((sample_base True)\<lparr>outPkgs := [(waiting 7 4)\<lparr>pkgStatus := PKG_WAIT_SEND\<rparr>]\<rparr>) = None"
proof (rule failed_write_invalidates_iterator)
  show "pkg_ok 7 ((waiting 7 4)\<lparr>pkgStatus := PKG_WAIT_SEND\<rparr>)"
    by (auto simp: pkg_ok_def waiting_def data_pkg_def packageDataMaxSize_def MAX_UART_SIZE_IOBUF_def
        sizeof_UartHead_def intro!: exI [of _ 1] exI [of _ "[65]"])
qed (auto simp: sample_base_def waiting_def)

lemma soft_reset_parts:
  assumes "is_host s" and "uart_sessions s sid = None"
  shows "outPkgs s = [] \<Longrightarrow> \<exists>p. outPkgs (SendUartSoftReset sid s) = [p] \<and> pkg_sessionId p = sid \<and> \<not> response p
      \<and> retryChance p = 4 \<and> (\<exists>s'. SendPkgInUARTOutMap io now (SendUartSoftReset sid s) = Some s' \<and> wire s' = wire s
        \<and> outPkgs s' = [p\<lparr>pkgStatus := PKG_WAIT_RESPONSE, sendTimePoint := now\<rparr>])"
    and "outPkgs s = p # ps \<Longrightarrow> pkg_sessionId p = sid \<Longrightarrow> pkgStatus p = PKG_WAIT_RESPONSE \<Longrightarrow> retryChance p = 0 \<Longrightarrow>
      WaitResponseTimeOutMs \<le> now - sendTimePoint p \<Longrightarrow>
      \<exists>s'. SendPkgInUARTOutMap io now s = Some s' \<and> outPkgs s' = p # ps \<and> wire s' = wire s"
proof -
  let ?h = "(new_UartHead sid PKG_OPTION_RESET 0 0)\<lparr>uh_dataSize := word_of_nat sizeof_UartHead\<rparr>"
  have h: "\<not> IsResponsePackage ?h" "\<not> has_option ?h PKG_OPTION_ACK" "uh_sessionId ?h = sid" "head_ok ?h"
    by (simp_all add: IsResponsePackage_def has_option_def hdc_consts)
  assume "outPkgs s = []"
  define p where "p = \<lparr> pkg_key = ToPkgIdentityString ?h False, pkg_sessionId = sid, response = False, pkg_ack = False,
      pkgStatus = PKG_WAIT_SEND, msgSendBuf = UpdateCheckSum (mem_behind s) (enc_UartHead ?h), retryChance = 4,
      sendTimePoint = 0 \<rparr>"
  have r: "SendUartSoftReset sid s = NotifyTransfer (s\<lparr>outPkgs := [p]\<rparr>)"
    using assms h \<open>outPkgs s = []\<close>
    by (simp add: SendUartSoftReset_def add_package_def Let_def find_if_def p_def)
  have "uh_sessionId (dec_UartHead (msgSendBuf p)) = sid"
    using h by (simp add: p_def UpdateCheckSum_def Let_def)
  then have "snd (SendUARTRaw io (msgSendBuf p) t) = t" if "is_host t" "uart_sessions t sid = None" for t
    using that by (simp add: SendUARTRaw_def Let_def)
  then have "\<exists>s'. SendPkgInUARTOutMap io now (SendUartSoftReset sid s) = Some s' \<and> wire s' = wire s
      \<and> outPkgs s' = [p\<lparr>pkgStatus := PKG_WAIT_RESPONSE, sendTimePoint := now\<rparr>]"
    using assms by (simp add: r SendPkgInUARTOutMap_def p_def Sent_def NotifyTransfer_def)
  then show "\<exists>p. outPkgs (SendUartSoftReset sid s) = [p] \<and> pkg_sessionId p = sid \<and> \<not> response p
      \<and> retryChance p = 4 \<and> (\<exists>s'. SendPkgInUARTOutMap io now (SendUartSoftReset sid s) = Some s' \<and> wire s' = wire s
        \<and> outPkgs s' = [p\<lparr>pkgStatus := PKG_WAIT_RESPONSE, sendTimePoint := now\<rparr>])"
    by (intro exI [of _ p]) (simp add: r p_def)
next
  assume "outPkgs s = p # ps" "pkg_sessionId p = sid" "pkgStatus p = PKG_WAIT_RESPONSE" "retryChance p = 0"
    "WaitResponseTimeOutMs \<le> now - sendTimePoint p"
  then show "\<exists>s'. SendPkgInUARTOutMap io now s = Some s' \<and> outPkgs s' = p # ps \<and> wire s' = wire s"
    using assms by (simp add: SendPkgInUARTOutMap_def OnTransferError_def HostOnTransferError_def)
qed

text \<open>
  The reset the host asks for when a package of an unknown session arrives is never written,
  since only packages of known sessions are; and once its retries are used up it stops every run
  of the sending loop, so nothing behind it is sent any more.
\<close>

theorem soft_reset_blocks_queue:
  assumes "is_host s" and "uart_sessions s sid = None"
  shows "(outPkgs s = [] \<longrightarrow> (\<exists>p. outPkgs (SendUartSoftReset sid s) = [p] \<and> pkg_sessionId p = sid \<and> \<not> response p
      \<and> retryChance p = 4 \<and> (\<exists>s'. SendPkgInUARTOutMap io now (SendUartSoftReset sid s) = Some s' \<and> wire s' = wire s
        \<and> outPkgs s' = [p\<lparr>pkgStatus := PKG_WAIT_RESPONSE, sendTimePoint := now\<rparr>])))
    \<and> (\<forall>p ps. outPkgs s = p # ps \<and> pkg_sessionId p = sid \<and> pkgStatus p = PKG_WAIT_RESPONSE \<and> retryChance p = 0
      \<and> WaitResponseTimeOutMs \<le> now - sendTimePoint p \<longrightarrow>
      (\<exists>s'. SendPkgInUARTOutMap io now s = Some s' \<and> outPkgs s' = p # ps \<and> wire s' = wire s))"
  using soft_reset_parts [OF assms] by blast

theorem soft_reset_blocks_queue_witness:
  "(\<exists>p. outPkgs (SendUartSoftReset 8 (sample_base True)) = [p] \<and> retryChance p = 4)
   \<and> (\<exists>s'. SendPkgInUARTOutMap sample_io 1000 ((sample_base True)\<lparr>outPkgs := [waiting 8 0, waiting 7 4]\<rparr>) = Some s'
      \<and> outPkgs s' = [waiting 8 0, waiting 7 4] \<and> wire s' = [])"
  using soft_reset_blocks_queue [of "sample_base True" 8]
    soft_reset_blocks_queue [of "(sample_base True)\<lparr>outPkgs := [waiting 8 0, waiting 7 4]\<rparr>" 8 sample_io 1000]
  by (auto simp: sample_base_def waiting_def WaitResponseTimeOutMs_def)

text \<open>The reset package is sealed with a checksum over bytes behind it in memory.\<close>

lemma soft_reset_reads_beyond:
  "outPkgs s = [] \<Longrightarrow> is_host s \<Longrightarrow> \<exists>p. outPkgs (SendUartSoftReset sid s) = [p]
     \<and> uh_dataCheckSum (dec_UartHead (msgSendBuf p)) = accumulate (take sizeof_UartHead (mem_behind s))"
proof -
  let ?h = "(new_UartHead sid PKG_OPTION_RESET 0 0)\<lparr>uh_dataSize := word_of_nat sizeof_UartHead\<rparr>"
  assume "outPkgs s = []" "is_host s"
  then show ?thesis
    by (auto simp: SendUartSoftReset_def add_package_def Let_def find_if_def UpdateCheckSum_def data_sum_def
        sizeof_UartHead_def)
qed

end
