(* ===== verification/Hdc_UartHost.thy ===== *)
theory Hdc_UartHost
  imports Hdc_UartReader Hdc_Registry
begin

text \<open>
  The serial ports of the host, src/src/host/host_uart.cpp: which ports there are, how a connect
  key names one, when a port may be opened, and how the list of devices of the server follows
  the ports that come and go.
\<close>

section \<open>The port a connect key names\<close>

function StringSplit :: "string \<Rightarrow> string \<Rightarrow> string list" where
  "StringSplit source split =
     (case (if split = [] then None else str_find source split 0) of
        None \<Rightarrow> if source = [] then [] else [source]
      | Some pos \<Rightarrow>
          (if pos = 0 then [] else [take pos source]) @ StringSplit (drop (pos + length split) source) split)"
  by pat_completeness auto
termination
  by (relation "measure (\<lambda>(source, split). length source)")
    (auto dest!: str_find_Some split: if_splits simp flip: length_greater_0_conv)

declare StringSplit.simps [simp del]

text \<open>\<open>std::stoul\<close> on a machine whose \<open>unsigned long\<close> has 64 bits; \<open>None\<close> when it throws.\<close>

definition stoul :: "string \<Rightarrow> nat option" where
  "stoul s =
     (let t = dropWhile isspace s;
          (neg, u) = (case t of c # r \<Rightarrow> if c = CHR ''-'' then (True, r)
             else if c = CHR ''+'' then (False, r) else (False, t) | [] \<Rightarrow> (False, []));
          ds = takeWhile isdigit u; v = digits_value ds
      in if ds = [] \<or> 2 ^ 64 \<le> v then None
         else Some (if neg then (2 ^ 64 - v) mod 2 ^ 64 else v))"

definition DEFAULT_BAUD_RATE_VALUE :: u32 where [hdc_consts]: "DEFAULT_BAUD_RATE_VALUE = 921600"

definition GetPortFromKey :: "string \<Rightarrow> (string \<times> u32) option" where
  "GetPortFromKey connectKey = (case StringSplit connectKey '','' of
     [portName, rate] \<Rightarrow> map_option (\<lambda>v. (portName, word_of_nat v)) (stoul rate)
   | [portName] \<Rightarrow> Some (portName, DEFAULT_BAUD_RATE_VALUE)
   | _ \<Rightarrow> None)"

lemma StringSplit_segs: "StringSplit s [c] = filter (\<lambda>w. w \<noteq> []) (segs c s)"
proof (induction s "[c]" rule: StringSplit.induct)
  case (1 s)
  let ?w = "takeWhile (\<lambda>x. x \<noteq> c) s"
  show ?case
  proof (cases "c \<in> set s")
    case False
    then show ?thesis by (simp add: StringSplit.simps [of s] str_find_single segs_absent)
  next
    case True
    have f: "str_find s [c] 0 = Some (length ?w)" using True by (simp add: str_find_single)
    have t: "take (length ?w) s = ?w" by (metis takeWhile_eq_take)
    have "StringSplit (drop (length ?w + length [c]) s) [c]
        = filter (\<lambda>w. w \<noteq> []) (segs c (drop (length ?w + length [c]) s))"
      by (rule 1) (use f in simp)
    then show ?thesis using f t segs_split [OF True] by (simp add: StringSplit.simps [of s])
  qed
qed

lemma stoul_decimal: "n < 2 ^ 64 \<Longrightarrow> stoul (decimal n) = Some n"
proof -
  assume n: "n < 2 ^ 64"
  obtain c cs where d: "decimal n = c # cs" "isdigit c" using decimal_digits [of n] by (cases "decimal n") auto
  have t: "takeWhile isdigit (decimal n) = decimal n"
    using decimal_digits [of n] by (simp add: list_all_iff takeWhile_eq_all_conv)
  have "\<not> isspace c" "c \<noteq> CHR ''-''" "c \<noteq> CHR ''+''" using d(2) by (auto simp: isdigit_def isspace_def)
  then have "dropWhile isspace (decimal n) = decimal n" "(case decimal n of c # r \<Rightarrow> if c = CHR ''-'' then (True, r)
      else if c = CHR ''+'' then (False, r) else (False, decimal n) | [] \<Rightarrow> (False, [])) = (False, decimal n)"
    by (simp_all add: d(1))
  then show ?thesis using decimal_digits [of n] n by (simp add: stoul_def Let_def t)
qed

text \<open>
  A connect key with a port and a rate is taken apart into them, one with only a port gets the
  default rate, and one with two commas is refused.
\<close>

theorem GetPortFromKey_parts:
  assumes "port \<noteq> []" and "CHR '','' \<notin> set port" and "rate < 2 ^ 32"
  shows "GetPortFromKey (port @ '','' @ decimal rate) = Some (port, word_of_nat rate)
    \<and> GetPortFromKey port = Some (port, DEFAULT_BAUD_RATE_VALUE)
    \<and> GetPortFromKey (port @ '','' @ decimal rate @ '','' @ port) = None"
proof -
  have d: "CHR '','' \<notin> set (decimal rate)" "decimal rate \<noteq> []"
    using decimal_digits [of rate] by (auto simp: list_all_iff isdigit_def)
  have s: "segs CHR '','' (xs @ CHR '','' # ys) = xs # segs CHR '','' ys" if "CHR '','' \<notin> set xs" for xs ys
    using that by (induction xs) auto
  show ?thesis using assms d s stoul_decimal [of rate]
    by (simp add: GetPortFromKey_def StringSplit_segs segs_absent)
qed

theorem GetPortFromKey_parts_witness:
  "GetPortFromKey (''COM5'' @ '','' @ decimal 115200) = Some (''COM5'', 115200)"
  using GetPortFromKey_parts [of "''COM5''" 115200] by simp

section \<open>Enumerating and watching the ports\<close>

record HostUart =
  serialPortInfo :: "string list"
  serialPortRemoved :: "string list"
  connectedPorts :: "string set"
  daemons :: daemon_map

text \<open>The entries of \<open>/dev\<close> that are taken for serial ports of a device.\<close>

fun enum_ports :: "string list \<Rightarrow> string list" where
  "enum_ports [] = []"
| "enum_ports (d_name # ds) =
     (let port = ''/dev/'' @ d_name in
      if take 1 d_name \<noteq> ''.'' \<and> str_find d_name ''tty'' 0 \<noteq> None
        \<and> (str_find port ''/dev/ttyUSB'' 0 = Some 0 \<or> str_find port ''/dev/ttySerial'' 0 = Some 0)
      then port # enum_ports ds else enum_ports ds)"

definition EnumSerialPort :: "string list \<Rightarrow> HostUart \<Rightarrow> bool \<times> HostUart" where
  "EnumSerialPort dir st =
     (let new = enum_ports dir; old = serialPortInfo st;
          change = (\<exists>p \<in> set new. p \<notin> set old) \<or> length old \<noteq> length new
      in (change, st\<lparr>serialPortRemoved := filter (\<lambda>p. p \<notin> set new) old,
                    serialPortInfo := if change then new else old\<rparr>))"

text \<open>
  A session is its number with the port of its \<open>hUART\<close>. \<open>None\<close> stands for a null pointer that is
  followed.
\<close>

definition UpdateUARTDaemonInfo ::
  "string \<Rightarrow> (u32 \<times> string) option \<Rightarrow> ConnStatus \<Rightarrow> HostUart \<Rightarrow> HostUart option" where
  "UpdateUARTDaemonInfo connectKey hSession status st =
     (let di = \<lparr> hdi_connType = CONN_SERIAL, connStatus = status, hdi_connectKey = connectKey,
                 usbMountPoint = '''', devName = '''', hdi_hSession = map_option fst hSession \<rparr> in
      if status = STATUS_UNKNOW then
        map_option (\<lambda>(txt, out, m). st\<lparr>daemons := m, connectedPorts := connectedPorts st
            - (case hSession of Some (sid, port) \<Rightarrow> {port} | None \<Rightarrow> {})\<rparr>)
          (AdminDaemonMap D_REMOVE connectKey (Some di) (daemons st))
      else
        let st1 = (if status = STATUS_CONNECTED then
              st\<lparr>connectedPorts := connectedPorts st \<union> (case hSession of Some (sid, port) \<Rightarrow> {port} | None \<Rightarrow> {})\<rparr>
            else st)
        in Option.bind (AdminDaemonMap D_QUERY connectKey None (daemons st1)) (\<lambda>(txt, diOld, m).
             map_option (\<lambda>(txt, out, m'). st1\<lparr>daemons := m'\<rparr>)
               (AdminDaemonMap (if diOld = None then D_ADD di else D_UPDATE di) connectKey (Some di) m)))"

fun watch_new :: "string list \<Rightarrow> HostUart \<Rightarrow> HostUart option" where
  "watch_new [] st = Some st"
| "watch_new (port # ps) st =
     Option.bind (AdminDaemonMap D_QUERY port None (daemons st)) (\<lambda>(txt, hdi, m).
       Option.bind (if hdi = None \<and> port \<notin> connectedPorts st
                    then UpdateUARTDaemonInfo port None STATUS_READY (st\<lparr>daemons := m\<rparr>)
                    else Some (st\<lparr>daemons := m\<rparr>)) (watch_new ps))"

fun watch_removed :: "string list \<Rightarrow> HostUart \<Rightarrow> HostUart option" where
  "watch_removed [] st = Some st"
| "watch_removed (port # ps) st =
     Option.bind (AdminDaemonMap D_QUERY port None (daemons st)) (\<lambda>(txt, hdi, m).
       Option.bind (case hdi of
           Some di \<Rightarrow> if hdi_hSession di = None then UpdateUARTDaemonInfo port None STATUS_UNKNOW (st\<lparr>daemons := m\<rparr>)
                      else Some (st\<lparr>daemons := m\<rparr>)
         | None \<Rightarrow> Some (st\<lparr>daemons := m\<rparr>)) (watch_removed ps))"

definition WatchUartDevPlugin :: "string list \<Rightarrow> HostUart \<Rightarrow> HostUart option" where
  "WatchUartDevPlugin dir st =
     (let (portChange, st1) = EnumSerialPort dir st in
      if portChange then Option.bind (watch_new (serialPortInfo st1) st1) (\<lambda>st2.
        watch_removed (serialPortRemoved st2) st2)
      else Some st1)"


section \<open>The list of devices follows the ports\<close>

definition serial_info :: "string \<Rightarrow> u32 option \<Rightarrow> ConnStatus \<Rightarrow> HdcDaemonInformation" where
  "serial_info key sid status =
     \<lparr> hdi_connType = CONN_SERIAL, connStatus = status, hdi_connectKey = key,
       usbMountPoint = '''', devName = '''', hdi_hSession = sid \<rparr>"

lemma UpdateUARTDaemonInfo_updates:
  assumes "daemons_ok (daemons st)"
  shows "\<exists>m cp. UpdateUARTDaemonInfo key ses status st = Some (st\<lparr>daemons := m, connectedPorts := cp\<rparr>)
    \<and> daemons_ok m \<and> map_of m = (map_of (daemons st))(key :=
        if status = STATUS_UNKNOW then None else Some (Some (serial_info key (map_option fst ses) status)))
    \<and> (ses = None \<longrightarrow> cp = connectedPorts st)"
proof -
  have w: "mp_wf (daemons st)" using assms by (simp add: daemons_ok_def)
  have e: "\<exists>di. p = Some di \<and> hdi_connectKey di = k" if "map_of (daemons st) k = Some p" for k p
    using assms that by (simp add: daemons_ok_def)
  show ?thesis
  proof (cases "status = STATUS_UNKNOW")
    case True
    have "daemons_ok (mp_erase key (daemons st))"
      using assms by (simp add: daemons_ok_def map_of_mp_erase mp_wf_erase)
    then show ?thesis using True
      by (intro exI [of _ "mp_erase key (daemons st)"]) (auto simp: UpdateUARTDaemonInfo_def Let_def map_of_mp_erase)
  next
    case False
    let ?di = "serial_info key (map_option fst ses) status"
    let ?m = "mp_put key (Some ?di) (daemons st)"
    have ok: "daemons_ok ?m"
      using assms w by (auto simp: daemons_ok_def map_of_mp_put mp_wf_put serial_info_def)
    define cp where "cp = (if status = STATUS_CONNECTED
      then connectedPorts st \<union> (case ses of Some (sid, port) \<Rightarrow> {port} | None \<Rightarrow> {}) else connectedPorts st)"
    have r: "st\<lparr>daemons := n\<rparr> = st\<lparr>daemons := n, connectedPorts := connectedPorts st\<rparr>" for n
      by (cases st) simp
    have "UpdateUARTDaemonInfo key ses status st = Some (st\<lparr>daemons := ?m, connectedPorts := cp\<rparr>)"
    proof (cases "map_of (daemons st) key")
      case None
      then show ?thesis using False r
        by (simp add: UpdateUARTDaemonInfo_def Let_def serial_info_def cp_def)
    next
      case (Some p)
      then obtain di where "p = Some di" using e by blast
      then show ?thesis using False Some r
        by (simp add: UpdateUARTDaemonInfo_def Let_def serial_info_def cp_def)
    qed
    moreover have "ses = None \<longrightarrow> cp = connectedPorts st" by (simp add: cp_def)
    moreover have "map_of ?m = (map_of (daemons st))(key := Some (Some ?di))" by (rule map_of_mp_put [OF w])
    ultimately show ?thesis using ok False by (intro exI [of _ ?m] exI [of _ cp]) simp
  qed
qed

lemma watch_new_adds:
  "daemons_ok (daemons st) \<Longrightarrow> \<exists>m. watch_new ps st = Some (st\<lparr>daemons := m\<rparr>) \<and> daemons_ok m
     \<and> map_of m = (\<lambda>k. if k \<in> set ps \<and> k \<notin> connectedPorts st \<and> map_of (daemons st) k = None
          then Some (Some (serial_info k None STATUS_READY)) else map_of (daemons st) k)"
proof (induction ps arbitrary: st)
  case Nil
  show ?case using Nil by (intro exI [of _ "daemons st"]) simp
next
  case (Cons port ps)
  have e: "\<exists>di. p = Some di" if "map_of (daemons st) k = Some p" for k p
    using Cons.prems that by (auto simp: daemons_ok_def)
  show ?case
  proof (cases "map_of (daemons st) port = None \<and> port \<notin> connectedPorts st")
    case False
    then have "watch_new (port # ps) st = watch_new ps st"
      using e by (auto split: option.splits)
    moreover obtain m where "watch_new ps st = Some (st\<lparr>daemons := m\<rparr>)" "daemons_ok m"
      "map_of m = (\<lambda>k. if k \<in> set ps \<and> k \<notin> connectedPorts st \<and> map_of (daemons st) k = None
          then Some (Some (serial_info k None STATUS_READY)) else map_of (daemons st) k)"
      using Cons by blast
    ultimately show ?thesis using False by (intro exI [of _ m]) (auto simp: fun_eq_iff)
  next
    case True
    obtain m cp where u: "UpdateUARTDaemonInfo port None STATUS_READY st = Some (st\<lparr>daemons := m, connectedPorts := cp\<rparr>)"
      "daemons_ok m" "map_of m = (map_of (daemons st))(port := Some (Some (serial_info port None STATUS_READY)))"
      "cp = connectedPorts st"
      using UpdateUARTDaemonInfo_updates [OF Cons.prems, of port None STATUS_READY] by auto
    have "watch_new (port # ps) st = watch_new ps (st\<lparr>daemons := m\<rparr>)" using True u by simp
    moreover obtain m' where "watch_new ps (st\<lparr>daemons := m\<rparr>) = Some (st\<lparr>daemons := m'\<rparr>)" "daemons_ok m'"
      "map_of m' = (\<lambda>k. if k \<in> set ps \<and> k \<notin> connectedPorts st \<and> map_of m k = None
          then Some (Some (serial_info k None STATUS_READY)) else map_of m k)"
      using Cons.IH [of "st\<lparr>daemons := m\<rparr>"] u(2) by (auto cong: if_cong)
    ultimately show ?thesis using True u(3) by (intro exI [of _ m']) (auto simp: fun_eq_iff)
  qed
qed

lemma watch_removed_erases:
  "daemons_ok (daemons st) \<Longrightarrow> \<exists>m. watch_removed ps st = Some (st\<lparr>daemons := m\<rparr>) \<and> daemons_ok m
     \<and> map_of m = (\<lambda>k. if k \<in> set ps \<and> (\<exists>di. map_of (daemons st) k = Some (Some di) \<and> hdi_hSession di = None)
          then None else map_of (daemons st) k)"
proof (induction ps arbitrary: st)
  case Nil
  show ?case using Nil by (intro exI [of _ "daemons st"]) simp
next
  case (Cons port ps)
  have e: "\<exists>di. p = Some di" if "map_of (daemons st) k = Some p" for k p
    using Cons.prems that by (auto simp: daemons_ok_def)
  show ?case
  proof (cases "\<exists>di. map_of (daemons st) port = Some (Some di) \<and> hdi_hSession di = None")
    case False
    then have "watch_removed (port # ps) st = watch_removed ps st"
      using e by (auto split: option.splits)
    moreover obtain m where "watch_removed ps st = Some (st\<lparr>daemons := m\<rparr>)" "daemons_ok m"
      "map_of m = (\<lambda>k. if k \<in> set ps \<and> (\<exists>di. map_of (daemons st) k = Some (Some di) \<and> hdi_hSession di = None)
          then None else map_of (daemons st) k)"
      using Cons by blast
    ultimately show ?thesis using False by (intro exI [of _ m]) (auto simp: fun_eq_iff)
  next
    case True
    obtain m cp where u: "UpdateUARTDaemonInfo port None STATUS_UNKNOW st = Some (st\<lparr>daemons := m, connectedPorts := cp\<rparr>)"
      "daemons_ok m" "map_of m = (map_of (daemons st))(port := None)" "cp = connectedPorts st"
      using UpdateUARTDaemonInfo_updates [OF Cons.prems, of port None STATUS_UNKNOW] by auto
    have "watch_removed (port # ps) st = watch_removed ps (st\<lparr>daemons := m\<rparr>)" using True u by auto
    moreover obtain m' where "watch_removed ps (st\<lparr>daemons := m\<rparr>) = Some (st\<lparr>daemons := m'\<rparr>)" "daemons_ok m'"
      "map_of m' = (\<lambda>k. if k \<in> set ps \<and> (\<exists>di. map_of m k = Some (Some di) \<and> hdi_hSession di = None)
          then None else map_of m k)"
      using Cons.IH [of "st\<lparr>daemons := m\<rparr>"] u(2) by (auto cong: if_cong)
    ultimately show ?thesis using True u(3) by (intro exI [of _ m']) (auto simp: fun_eq_iff)
  qed
qed

lemma enum_change:
  "EnumSerialPort dir st = (ch, st1) \<Longrightarrow>
     serialPortInfo st1 = (if ch then enum_ports dir else serialPortInfo st)
     \<and> set (serialPortRemoved st1) = set (serialPortInfo st) - set (enum_ports dir)
     \<and> daemons st1 = daemons st \<and> connectedPorts st1 = connectedPorts st
     \<and> (\<not> ch \<longrightarrow> set (enum_ports dir) \<subseteq> set (serialPortInfo st))"
  by (auto simp: EnumSerialPort_def Let_def)

lemma enum_ports_distinct: "distinct dir \<Longrightarrow> distinct (enum_ports dir)"
proof -
  have "p \<in> set (enum_ports ds) \<Longrightarrow> \<exists>d \<in> set ds. p = ''/dev/'' @ d" for p ds
    by (induction ds) (auto simp: Let_def split: if_splits)
  then show "distinct dir \<Longrightarrow> distinct (enum_ports dir)"
    by (induction dir) (fastforce simp: Let_def)+
qed

text \<open>
  C26. A scan of the ports when the list of devices is well-formed and the names in the directory are
  distinct: afterwards the ports known are those of the directory. If there was a port that was not
  known, or another number of ports, then a port that is there, has no entry and is not in use gets an
  entry without a session, the entry of a port that has gone is removed if it has no session, and
  every other entry is as before; otherwise no entry changes. So the entry of a port that goes while a
  session has it stays when the session ends later: no scan finds it gone again.
\<close>

theorem WatchUartDevPlugin_follows:
  assumes "daemons_ok (daemons st)" and "distinct dir"
  shows "\<exists>st'. WatchUartDevPlugin dir st = Some st' \<and> daemons_ok (daemons st') \<and> connectedPorts st' = connectedPorts st
    \<and> set (serialPortInfo st') = set (enum_ports dir)
    \<and> (if set (enum_ports dir) \<subseteq> set (serialPortInfo st) \<and> length (serialPortInfo st) = length (enum_ports dir)
       then daemons st' = daemons st
       else map_of (daemons st') = (\<lambda>p.
         if p \<in> set (enum_ports dir) \<and> p \<notin> connectedPorts st \<and> map_of (daemons st) p = None
         then Some (Some (serial_info p None STATUS_READY))
         else if p \<in> set (serialPortInfo st) - set (enum_ports dir)
           \<and> (\<exists>di. map_of (daemons st) p = Some (Some di) \<and> hdi_hSession di = None) then None
         else map_of (daemons st) p))"
proof -
  obtain ch st1 where e: "EnumSerialPort dir st = (ch, st1)" by fastforce
  note q = enum_change [OF e]
  have ch: "ch \<longleftrightarrow> \<not> (set (enum_ports dir) \<subseteq> set (serialPortInfo st) \<and> length (serialPortInfo st) = length (enum_ports dir))"
    using e by (auto simp: EnumSerialPort_def Let_def)
  show ?thesis
  proof (cases ch)
    case True
    obtain m where m: "watch_new (enum_ports dir) st1 = Some (st1\<lparr>daemons := m\<rparr>)" "daemons_ok m"
      "map_of m = (\<lambda>k. if k \<in> set (enum_ports dir) \<and> k \<notin> connectedPorts st1 \<and> map_of (daemons st1) k = None
            then Some (Some (serial_info k None STATUS_READY)) else map_of (daemons st1) k)"
      using watch_new_adds [of st1 "enum_ports dir"] assms(1) q by auto
    obtain m' where m': "watch_removed (serialPortRemoved st1) (st1\<lparr>daemons := m\<rparr>) = Some (st1\<lparr>daemons := m'\<rparr>)" "daemons_ok m'"
      "map_of m' = (\<lambda>k. if k \<in> set (serialPortRemoved st1) \<and> (\<exists>di. map_of m k = Some (Some di) \<and> hdi_hSession di = None)
            then None else map_of m k)"
      using watch_removed_erases [of "st1\<lparr>daemons := m\<rparr>" "serialPortRemoved st1"] m(2) by (auto cong: if_cong)
    have "WatchUartDevPlugin dir st = Some (st1\<lparr>daemons := m'\<rparr>)"
      using q True m(1) m'(1) by (simp add: WatchUartDevPlugin_def e)
    moreover have "map_of m' = (\<lambda>p.
         if p \<in> set (enum_ports dir) \<and> p \<notin> connectedPorts st \<and> map_of (daemons st) p = None
         then Some (Some (serial_info p None STATUS_READY))
         else if p \<in> set (serialPortInfo st) - set (enum_ports dir)
           \<and> (\<exists>di. map_of (daemons st) p = Some (Some di) \<and> hdi_hSession di = None) then None
         else map_of (daemons st) p)"
      using q by (auto simp: fun_eq_iff m(3) m'(3))
    moreover have n: "\<not> (set (enum_ports dir) \<subseteq> set (serialPortInfo st) \<and> length (serialPortInfo st) = length (enum_ports dir))"
      using ch True by simp
    ultimately show ?thesis unfolding if_not_P [OF n]
      using m'(2) q True by (intro exI [of _ "st1\<lparr>daemons := m'\<rparr>"]) simp
  next
    case False
    then have s: "set (enum_ports dir) \<subseteq> set (serialPortInfo st)" "length (serialPortInfo st) = length (enum_ports dir)"
      using ch by auto
    have "card (set (serialPortInfo st)) \<le> card (set (enum_ports dir))"
      using s(2) card_length [of "serialPortInfo st"] distinct_card [OF enum_ports_distinct [OF assms(2)]] by simp
    then have "set (serialPortInfo st) = set (enum_ports dir)" using card_seteq [OF _ s(1)] by simp
    moreover have "WatchUartDevPlugin dir st = Some st1" using False by (simp add: WatchUartDevPlugin_def e)
    ultimately show ?thesis using q s False assms(1) by auto
  qed
qed

definition one_port :: HostUart where
  "one_port = \<lparr> serialPortInfo = [''/dev/ttyUSB0''], serialPortRemoved = [], connectedPorts = {},
     daemons = [(''/dev/ttyUSB0'', Some (serial_info ''/dev/ttyUSB0'' None STATUS_READY))] \<rparr>"

theorem WatchUartDevPlugin_follows_witness:
  "\<exists>st'. WatchUartDevPlugin [''.'', ''tty0'', ''ttyUSB1''] one_port = Some st'
     \<and> set (serialPortInfo st') = {''/dev/ttyUSB1''} \<and> map_of (daemons st') ''/dev/ttyUSB0'' = None
     \<and> map_of (daemons st') ''/dev/ttyUSB1'' = Some (Some (serial_info ''/dev/ttyUSB1'' None STATUS_READY))"
proof -
  have e: "enum_ports [''.'', ''tty0'', ''ttyUSB1''] = [''/dev/ttyUSB1'']"
    by (simp add: Let_def str_find_def)
  have "daemons_ok (daemons one_port)" "distinct [''.'', ''tty0'', ''ttyUSB1'']"
    by (simp_all add: one_port_def daemons_ok_def mp_wf_def serial_info_def)
  from WatchUartDevPlugin_follows [OF this, unfolded e] show ?thesis
    by (auto simp: one_port_def serial_info_def)
qed

end
