(* ===== verification/Hdc_Usb.thy ===== *)
theory Hdc_Usb
  imports Hdc_Packet Hdc_Strings
begin

unbundle bit_operations_syntax

text \<open>
  The USB transport, src/src/common/usb.cpp with src/src/host/host_usb.cpp and
  src/src/daemon/daemon_usb.cpp: blocks with a header in front, the reader of the host and the
  reader of the daemon, which also finds the session a packet belongs to.
\<close>

section \<open>Headers\<close>

record USBHead =
  ub_flag :: bytes
  ub_option :: u8
  ub_sessionId :: u32
  ub_dataSize :: u32

definition sizeof_USBHead :: nat where [hdc_consts]: "sizeof_USBHead = 11"

definition USB_PACKET_FLAG :: string where [hdc_consts]: "USB_PACKET_FLAG = ''UB''"

definition BuildPacketHeader :: "u32 \<Rightarrow> u8 \<Rightarrow> u32 \<Rightarrow> bytes" where
  "BuildPacketHeader sid opt dsize =
     bytes_of USB_PACKET_FLAG @ [opt] @ be_enc 4 (unat sid) @ be_enc 4 (unat dsize)"

text \<open>A header as it is read, its numbers in the byte order of the machine.\<close>

definition dec_USBHead :: "bytes \<Rightarrow> USBHead" where
  "dec_USBHead b =
     \<lparr> ub_flag = take 2 b, ub_option = b ! 2, ub_sessionId = word_of_nat (be_dec (take 4 (drop 3 b))),
       ub_dataSize = word_of_nat (be_dec (take 4 (drop 7 b))) \<rparr>"

definition IsUsbPacketHeader :: "bytes \<Rightarrow> bool" where
  "IsUsbPacketHeader b \<longleftrightarrow>
     (let h = dec_USBHead b in
      ub_flag h = bytes_of USB_PACKET_FLAG \<and> length b = sizeof_USBHead
      \<and> (ub_dataSize h = 0 \<or> ub_option h AND USB_OPTION_HEADER \<noteq> 0))"

section \<open>Sending\<close>

record usb_session =
  us_sid :: u32
  usb_server :: bool
  payloadSize :: u32
  wMaxPacketSizeSend :: nat
  usb_resetIO :: bool
  usb_dead :: bool
  usb_cleared :: bool
  usb_stream :: bytes

text \<open>
  \<open>raw\<close> is \<open>SendUSBRaw\<close>: the result of writing some bytes. The transfers that were accepted are the
  second component.
\<close>

definition SendUSBBlock :: "(bytes \<Rightarrow> int) \<Rightarrow> usb_session \<Rightarrow> bytes \<Rightarrow> int \<times> bytes list" where
  "SendUSBBlock raw s data =
     (let header = BuildPacketHeader (us_sid s) USB_OPTION_HEADER (word_of_nat (length data)) in
      if raw header \<le> 0 then (err ERR_IO_FAIL, [])
      else let childRet = raw data in
        if childRet \<le> 0 then (err ERR_IO_FAIL, [header])
        else if childRet mod int (wMaxPacketSizeSend s) = 0 then
          let dummy = BuildPacketHeader (us_sid s) 0 0 in
          if raw dummy \<le> 0 then (err ERR_IO_FAIL, [header, data])
          else (int (length data), [header, data, dummy])
        else (int (length data), [header, data]))"

section \<open>Receiving\<close>

text \<open>
  The functions of the base class. \<open>pipe\<close> is \<open>UsbToHdcProtocol\<close>, which gives the bytes to the
  session: its result is negative when it fails. The resets that are sent are collected.
\<close>

record usb_base =
  usb :: usb_session
  resets :: "u32 list"

definition PreSendUsbSoftReset :: "u32 \<Rightarrow> usb_base \<Rightarrow> usb_base" where
  "PreSendUsbSoftReset sessionIdOld b =
     (if usb_server (usb b) \<and> \<not> usb_resetIO (usb b)
      then b\<lparr>resets := resets b @ [sessionIdOld], usb := (usb b)\<lparr>usb_resetIO := True\<rparr>\<rparr>
      else b)"

definition CheckPacketOption :: "bytes \<Rightarrow> usb_base \<Rightarrow> int \<times> usb_base" where
  "CheckPacketOption appendData b =
     (let h = dec_USBHead appendData in
      if ub_sessionId h \<noteq> us_sid (usb b) then (0, PreSendUsbSoftReset (ub_sessionId h) b)
      else let b1 = (if ub_option h AND USB_OPTION_HEADER \<noteq> 0
                     then b\<lparr>usb := (usb b)\<lparr>payloadSize := ub_dataSize h\<rparr>\<rparr> else b)
           in (sint (payloadSize (usb b1)), b1))"

definition SendToHdcStream :: "(bytes \<Rightarrow> int) \<Rightarrow> bytes \<Rightarrow> usb_base \<Rightarrow> int \<times> usb_base" where
  "SendToHdcStream pipe appendData b =
     (if IsUsbPacketHeader appendData then CheckPacketOption appendData b
      else if payloadSize (usb b) \<le> 0 then (0, PreSendUsbSoftReset 0 b)
      else let childRet = pipe appendData in
        if childRet < 0 then (err ERR_IO_FAIL, b)
        else let b1 = b\<lparr>usb := (usb b)\<lparr>payloadSize := payloadSize (usb b) - word_of_int childRet,
                          usb_stream := usb_stream (usb b) @ take (nat childRet) appendData\<rparr>\<rparr>
             in (sint (payloadSize (usb b1)), b1))"

section \<open>The reader of the host\<close>

text \<open>
  The size of the next read, from what is still missing. \<open>bulk\<close> is the device: what a read of this
  size returns (\<open>None\<close> for an error) and what is left on it. The thread reads as long as the device
  has something; the result tells whether it left its loop for an error.
\<close>

definition next_read :: "int \<Rightarrow> nat \<Rightarrow> nat" where
  "next_read childRet wMax = (if childRet < int wMax then wMax else nat (min childRet (int MAX_USBFFS_BULK)))"

fun read_loop :: "(nat \<Rightarrow> 'd \<Rightarrow> (bytes \<times> 'd) option) \<Rightarrow> (bytes \<Rightarrow> int) \<Rightarrow> nat \<Rightarrow> int \<Rightarrow> 'd \<Rightarrow> usb_base
    \<Rightarrow> bool \<times> int \<times> 'd \<times> usb_base" where
  "read_loop bulk pipe 0 childRet dev b = (True, childRet, dev, b)"
| "read_loop bulk pipe (Suc n) childRet dev b =
     (if usb_dead (usb b) then (False, childRet, dev, b)
      else case bulk (next_read childRet (wMaxPacketSizeSend (usb b))) dev of
          None \<Rightarrow> (False, childRet, dev, b)
        | Some (d, dev') \<Rightarrow>
            let (childRet', b') = SendToHdcStream pipe d b in
            if childRet' < 0 then (False, childRet', dev', b')
            else read_loop bulk pipe n childRet' dev' b')"

section \<open>The bus\<close>

text \<open>
  What the USB standard says of bulk transfers: a transfer goes over the bus in packets of at most
  the size of the endpoint, and a read ends when its buffer is full or a shorter packet comes; a
  packet that does not fit is an error.
\<close>

function usb_packets :: "nat \<Rightarrow> bytes \<Rightarrow> bytes list" where
  "usb_packets mp t = (if mp = 0 \<or> length t \<le> mp then [t] else take mp t # usb_packets mp (drop mp t))"
  by pat_completeness auto
termination by (relation "measure (\<lambda>(mp, t). length t)") auto

declare usb_packets.simps [simp del]

fun bulk_read :: "nat \<Rightarrow> nat \<Rightarrow> bytes list \<Rightarrow> (bytes \<times> bytes list) option" where
  "bulk_read mp n [] = None"
| "bulk_read mp n (p # ps) =
     (if n < length p then None
      else if length p < mp \<or> length p = n then Some (p, ps)
      else map_option (\<lambda>(r, ps'). (p @ r, ps')) (bulk_read mp (n - length p) ps))"

definition on_bus :: "nat \<Rightarrow> bytes list \<Rightarrow> bytes list" where
  "on_bus mp ts = concat (map (usb_packets mp) ts)"

lemma on_bus_simps [simp]: "on_bus mp [] = []" "on_bus mp (t # ts) = usb_packets mp t @ on_bus mp ts"
  "on_bus mp (us @ ts) = on_bus mp us @ on_bus mp ts"
  by (simp_all add: on_bus_def)

lemma bulk_read_piece:
  "0 < mp \<Longrightarrow> 0 < n \<Longrightarrow> n \<le> length t \<Longrightarrow> n = length t \<or> mp dvd n \<Longrightarrow>
     bulk_read mp n (usb_packets mp t @ rest)
       = Some (take n t, if n = length t then rest else usb_packets mp (drop n t) @ rest)"
proof (induction mp t arbitrary: n rule: usb_packets.induct)
  case (1 mp t)
  show ?case
  proof (cases "length t \<le> mp")
    case True
    then have "n = length t" using 1 by (metis dvd_imp_le le_antisym le_trans)
    then show ?thesis using True by (simp add: usb_packets.simps [of mp t])
  next
    case False
    have mn: "mp \<le> n" using 1 False by (metis dvd_imp_le nat_le_linear)
    show ?thesis
    proof (cases "n = mp")
      case True
      then show ?thesis using False 1 by (simp add: usb_packets.simps [of mp t])
    next
      case ne: False
      have "bulk_read mp (n - mp) (usb_packets mp (drop mp t) @ rest)
          = Some (take (n - mp) (drop mp t), if n - mp = length (drop mp t) then rest
              else usb_packets mp (drop (n - mp) (drop mp t)) @ rest)"
        by (rule 1(1)) (use 1 False mn ne in \<open>auto simp: dvd_diff_nat\<close>)
      moreover have "take mp t @ take (n - mp) (drop mp t) = take n t"
        using mn by (metis add_diff_inverse_nat not_less take_add)
      ultimately show ?thesis using False 1 mn ne
        by (subst usb_packets.simps) (auto simp: )
    qed
  qed
qed

lemma bulk_read_short:
  "length t < mp \<Longrightarrow> length t \<le> n \<Longrightarrow> bulk_read mp n (usb_packets mp t @ rest) = Some (t, rest)"
  by (simp add: usb_packets.simps [of mp t])

section \<open>Blocks arrive\<close>

text \<open>The parts in which the reader takes a block.\<close>

function pieces :: "bytes \<Rightarrow> bytes list" where
  "pieces d = (if length d \<le> MAX_USBFFS_BULK then [d]
     else take MAX_USBFFS_BULK d # pieces (drop MAX_USBFFS_BULK d))"
  by pat_completeness auto
termination by (relation "measure length") (auto simp: hdc_consts)

declare pieces.simps [simp del]

definition block_ok :: "bytes \<Rightarrow> bool" where
  "block_ok d \<longleftrightarrow> d \<noteq> [] \<and> length d < 2 ^ 31 \<and> list_all (\<lambda>x. \<not> IsUsbPacketHeader x) (pieces d)"

definition idle_session :: "nat \<Rightarrow> usb_base \<Rightarrow> bool" where
  "idle_session mp b \<longleftrightarrow> wMaxPacketSizeSend (usb b) = mp \<and> \<not> usb_dead (usb b)"

lemma length_BuildPacketHeader [simp]: "length (BuildPacketHeader sid opt n) = sizeof_USBHead"
  by (simp add: BuildPacketHeader_def hdc_consts)

lemma dec_BuildPacketHeader [simp]:
  "dec_USBHead (BuildPacketHeader sid opt n) =
     \<lparr> ub_flag = bytes_of USB_PACKET_FLAG, ub_option = opt, ub_sessionId = sid, ub_dataSize = n \<rparr>"
  by (simp add: dec_USBHead_def BuildPacketHeader_def hdc_consts wire_simps)

lemma header_received:
  "SendToHdcStream pipe (BuildPacketHeader (us_sid (usb b)) USB_OPTION_HEADER n) b
     = (sint n, b\<lparr>usb := (usb b)\<lparr>payloadSize := n\<rparr>\<rparr>)"
  "payloadSize (usb b) = 0 \<Longrightarrow> SendToHdcStream pipe (BuildPacketHeader (us_sid (usb b)) 0 0) b = (0, b)"
  by (simp_all add: SendToHdcStream_def IsUsbPacketHeader_def CheckPacketOption_def Let_def
      USB_OPTION_HEADER_def)

lemma sint_nat: "n < 2 ^ 31 \<Longrightarrow> sint (word_of_nat n :: u32) = int n"
  using sint_small [of "word_of_nat n :: u32"] by (simp add: unat_of_nat)

text \<open>
  What the readers of both sides have in common: \<open>nr\<close> is the size of the next read, and the packets
  for which \<open>bad\<close> holds are not passed to the session.
\<close>

fun recv_loop :: "(int \<Rightarrow> nat) \<Rightarrow> (bytes \<Rightarrow> bool) \<Rightarrow> (nat \<Rightarrow> 'd \<Rightarrow> (bytes \<times> 'd) option) \<Rightarrow> (bytes \<Rightarrow> int) \<Rightarrow> nat
    \<Rightarrow> int \<Rightarrow> 'd \<Rightarrow> usb_base \<Rightarrow> bool \<times> int \<times> 'd \<times> usb_base" where
  "recv_loop nr bad bulk pipe 0 c dev b = (True, c, dev, b)"
| "recv_loop nr bad bulk pipe (Suc n) c dev b =
     (case bulk (nr c) dev of
        None \<Rightarrow> (False, c, dev, b)
      | Some (d, dev') \<Rightarrow>
          if bad d then (False, c, dev', b)
          else let (c', b') = SendToHdcStream pipe d b in
            if c' < 0 then (False, c', dev', b')
            else recv_loop nr bad bulk pipe n c' dev' b')"

lemma recv_loop_add:
  "recv_loop nr bad bulk pipe n c dev b = (True, c', dev', b') \<Longrightarrow>
     recv_loop nr bad bulk pipe (n + m) c dev b = recv_loop nr bad bulk pipe m c' dev' b'"
  by (induction n arbitrary: c dev b) (auto split: if_splits option.splits prod.splits)

lemma SendToHdcStream_idle:
  "SendToHdcStream pipe d b = (c, b2) \<Longrightarrow> idle_session mp b \<Longrightarrow> idle_session mp b2"
  by (auto simp: SendToHdcStream_def CheckPacketOption_def PreSendUsbSoftReset_def idle_session_def Let_def
      split: if_splits)

lemma read_loop_recv:
  "recv_loop (\<lambda>c. next_read c mp) (\<lambda>_. False) bulk pipe n c dev b = (True, c', dev', b') \<Longrightarrow> idle_session mp b \<Longrightarrow>
     read_loop bulk pipe n c dev b = (True, c', dev', b')"
proof (induction n arbitrary: c dev b)
  case (Suc n)
  from Suc.prems(2) have i: "\<not> usb_dead (usb b)" "wMaxPacketSizeSend (usb b) = mp" by (simp_all add: idle_session_def)
  show ?case using Suc.prems i Suc.IH SendToHdcStream_idle [OF _ Suc.prems(2)]
    by (auto split: option.splits prod.splits if_splits)
qed simp

text \<open>The contract of a reader with the session \<open>sid\<close> and packets of the size \<open>mp\<close>.\<close>

locale usb_reader =
  fixes mp :: nat and nr :: "int \<Rightarrow> nat" and bad :: "bytes \<Rightarrow> bool" and sid :: u32
  assumes mp_divides: "mp dvd MAX_USBFFS_BULK"
    and header_fits: "sizeof_USBHead < mp"
    and nr_zero: "nr 0 = mp"
    and nr_small: "0 < n \<Longrightarrow> n < mp \<Longrightarrow> nr (int n) = n \<or> nr (int n) = mp"
    and nr_large: "mp \<le> n \<Longrightarrow> nr (int n) = min n MAX_USBFFS_BULK"
    and header_good: "\<not> bad (BuildPacketHeader sid USB_OPTION_HEADER (word_of_nat n))"
      "\<not> bad (BuildPacketHeader sid 0 0)"
begin

definition good_block :: "bytes \<Rightarrow> bool" where
  "good_block d \<longleftrightarrow> block_ok d \<and> list_all (\<lambda>x. \<not> bad x) (pieces d)"

lemma mp_bounds: "0 < mp" "mp \<le> MAX_USBFFS_BULK"
  using mp_divides header_fits by (simp_all add: dvd_imp_le hdc_consts)

lemma piece_read:
  assumes "d \<noteq> []" and "k = min (length d) MAX_USBFFS_BULK"
  shows "bulk_read mp (nr (int (length d))) (usb_packets mp d @ rest)
      = Some (take k d, if k = length d then rest else usb_packets mp (drop k d) @ rest)"
proof (cases "length d < mp")
  case True
  then have "k = length d" using assms(2) mp_bounds by simp
  moreover have "length d \<le> nr (int (length d))" using nr_small [of "length d"] assms(1) True by auto
  ultimately show ?thesis using bulk_read_short [of d mp "nr (int (length d))" rest] True by simp
next
  case False
  then have "nr (int (length d)) = k" using nr_large assms(2) by simp
  moreover have "k = length d \<or> mp dvd k" using mp_divides assms(2) by (auto simp: min_def)
  moreover have "0 < k" "k \<le> length d" using assms by (simp_all add: hdc_consts)
  ultimately show ?thesis using bulk_read_piece [OF mp_bounds(1), of k d] by simp
qed

text \<open>The body of a block, once its header was seen.\<close>

lemma body_received:
  assumes pipe: "\<forall>d. pipe d = int (length d)"
  shows "d \<noteq> [] \<Longrightarrow> length d < 2 ^ 31 \<Longrightarrow> list_all (\<lambda>x. \<not> IsUsbPacketHeader x) (pieces d) \<Longrightarrow>
     list_all (\<lambda>x. \<not> bad x) (pieces d) \<Longrightarrow> payloadSize (usb b) = word_of_nat (length d) \<Longrightarrow>
     \<exists>n. recv_loop nr bad (bulk_read mp) pipe n (int (length d)) (usb_packets mp d @ rest) b
       = (True, 0, rest, b\<lparr>usb := (usb b)\<lparr>payloadSize := 0, usb_stream := usb_stream (usb b) @ d\<rparr>\<rparr>)"
proof (induction d arbitrary: b rule: pieces.induct)
  case (1 d)
  define k where "k = min (length d) MAX_USBFFS_BULK"
  have k: "0 < k" "k \<le> length d" using 1(2) by (simp_all add: k_def hdc_consts)
  note rd = piece_read [OF 1(2) k_def, of rest]
  have first: "\<not> IsUsbPacketHeader (take k d)" "\<not> bad (take k d)"
    using 1(4,5) by (subst (asm) (1 2) pieces.simps, auto simp: k_def min_def split: if_splits)+
  let ?b = "b\<lparr>usb := (usb b)\<lparr>payloadSize := word_of_nat (length d - k), usb_stream := usb_stream (usb b) @ take k d\<rparr>\<rparr>"
  have pos: "\<not> payloadSize (usb b) \<le> 0"
    using 1(2,3,6) by (simp add: word_of_nat_eq_0_iff) (auto dest!: dvd_imp_le)
  have "SendToHdcStream pipe (take k d) b = (sint (word_of_nat (length d - k) :: u32), ?b)"
    using first pos pipe k 1(6) by (simp add: SendToHdcStream_def of_nat_diff)
  then have s: "SendToHdcStream pipe (take k d) b = (int (length d - k), ?b)"
    using sint_nat [of "length d - k"] 1(3) by simp
  have step: "recv_loop nr bad (bulk_read mp) pipe (Suc m) (int (length d)) (usb_packets mp d @ rest) b
      = recv_loop nr bad (bulk_read mp) pipe m (int (length d - k))
          (if k = length d then rest else usb_packets mp (drop k d) @ rest) ?b" for m
    using rd s first by simp
  show ?case
  proof (cases "k = length d")
    case True
    then show ?thesis using step [of 0] by (intro exI [of _ 1]) simp
  next
    case False
    then have ks: "k = MAX_USBFFS_BULK" "\<not> length d \<le> MAX_USBFFS_BULK" using k_def by auto
    have "list_all (\<lambda>x. \<not> IsUsbPacketHeader x) (pieces (drop k d))" "list_all (\<lambda>x. \<not> bad x) (pieces (drop k d))"
      using 1(4,5) ks by (subst (asm) (1 2) pieces.simps, simp)+
    moreover have "drop k d \<noteq> []" "length (drop k d) < 2 ^ 31" using 1(3) ks by simp_all
    moreover have "payloadSize (usb ?b) = word_of_nat (length (drop k d))" by simp
    ultimately obtain n where n: "recv_loop nr bad (bulk_read mp) pipe n (int (length (drop k d))) (usb_packets mp (drop k d) @ rest) ?b
        = (True, 0, rest, ?b\<lparr>usb := (usb ?b)\<lparr>payloadSize := 0, usb_stream := usb_stream (usb ?b) @ drop k d\<rparr>\<rparr>)"
      using 1(1) [OF ks(2), of ?b] unfolding ks(1) by blast
    moreover have "(usb_stream (usb b) @ take k d) @ drop k d = usb_stream (usb b) @ d" by simp
    ultimately show ?thesis using step [of n] False by (intro exI [of _ "Suc n"]) simp
  qed
qed

lemma block_received:
  assumes pipe: "\<forall>d. pipe d = int (length d)" and "\<forall>d. raw d = int (length d)" and "good_block d"
    and "payloadSize (usb b) = 0" and "us_sid s = sid" "us_sid (usb b) = sid" and "wMaxPacketSizeSend s = mp"
  shows "\<exists>n. recv_loop nr bad (bulk_read mp) pipe n 0 (on_bus mp (snd (SendUSBBlock raw s d)) @ rest) b
    = (True, 0, rest, b\<lparr>usb := (usb b)\<lparr>usb_stream := usb_stream (usb b) @ d\<rparr>\<rparr>)"
proof -
  let ?h = "BuildPacketHeader sid USB_OPTION_HEADER (word_of_nat (length d))"
  let ?dummy = "BuildPacketHeader sid 0 0"
  let ?z = "if length d mod mp = 0 then [?dummy] else []"
  let ?b1 = "b\<lparr>usb := (usb b)\<lparr>payloadSize := word_of_nat (length d)\<rparr>\<rparr>"
  let ?b2 = "b\<lparr>usb := (usb b)\<lparr>usb_stream := usb_stream (usb b) @ d\<rparr>\<rparr>"
  have d: "d \<noteq> []" "length d < 2 ^ 31" "list_all (\<lambda>x. \<not> IsUsbPacketHeader x) (pieces d)" "list_all (\<lambda>x. \<not> bad x) (pieces d)"
    using assms(3) by (simp_all add: block_ok_def good_block_def)
  have "int (length d) mod int mp = 0 \<longleftrightarrow> length d mod mp = 0" by (metis of_nat_eq_0_iff zmod_int)
  moreover have "raw ?h = 11" "raw ?dummy = 11" "raw d = int (length d)"
    using assms(2) by (simp_all add: sizeof_USBHead_def)
  ultimately have t: "snd (SendUSBBlock raw s d) = [?h, d] @ ?z"
    using assms(5,7) d(1) unfolding SendUSBBlock_def Let_def by simp
  have rd: "bulk_read mp mp (usb_packets mp x @ r) = Some (x, r)" if "length x = sizeof_USBHead" for x r
    by (rule bulk_read_short) (use header_fits that in simp_all)
  have r1: "recv_loop nr bad (bulk_read mp) pipe (Suc m) 0 (usb_packets mp ?h @ r) b
      = recv_loop nr bad (bulk_read mp) pipe m (int (length d)) r ?b1" for m r
    using d(2) sint_nat [of "length d"] rd [of ?h r] header_received(1) [of pipe b] assms(6) header_good(1)
    by (simp add: nr_zero)
  obtain n where n: "recv_loop nr bad (bulk_read mp) pipe n (int (length d)) (usb_packets mp d @ on_bus mp ?z @ rest) ?b1
      = (True, 0, on_bus mp ?z @ rest, ?b1\<lparr>usb := (usb ?b1)\<lparr>payloadSize := 0, usb_stream := usb_stream (usb ?b1) @ d\<rparr>\<rparr>)"
    using body_received [OF pipe d, of ?b1] by auto
  have e: "?b1\<lparr>usb := (usb ?b1)\<lparr>payloadSize := 0, usb_stream := usb_stream (usb ?b1) @ d\<rparr>\<rparr> = ?b2"
    using assms(4) by (cases b; cases "usb b") simp
  have "\<exists>m. recv_loop nr bad (bulk_read mp) pipe m 0 (on_bus mp ?z @ rest) ?b2 = (True, 0, rest, ?b2)"
  proof (cases "length d mod mp = 0")
    case True
    have "SendToHdcStream pipe ?dummy ?b2 = (0, ?b2)" using header_received(2) [of ?b2] assms(4,6) by simp
    then show ?thesis using True rd [of ?dummy rest] header_good(2)
      by (intro exI [of _ "Suc 0"]) (simp add: nr_zero)
  qed (auto intro: exI [of _ 0])
  then obtain m where m: "recv_loop nr bad (bulk_read mp) pipe m 0 (on_bus mp ?z @ rest) ?b2 = (True, 0, rest, ?b2)" by blast
  have "recv_loop nr bad (bulk_read mp) pipe (Suc (n + m)) 0 (usb_packets mp ?h @ usb_packets mp d @ on_bus mp ?z @ rest) b
      = (True, 0, rest, ?b2)"
    using r1 [of "n + m"] recv_loop_add [OF n, of m] m e by simp
  then show ?thesis unfolding t by (intro exI [of _ "Suc (n + m)"]) simp
qed

lemma blocks_received:
  assumes pipe: "\<forall>d. pipe d = int (length d)" and "\<forall>d. raw d = int (length d)" and s: "us_sid s = sid" "wMaxPacketSizeSend s = mp"
  shows "\<forall>d \<in> set ds. good_block d \<Longrightarrow> payloadSize (usb b) = 0 \<Longrightarrow> us_sid (usb b) = sid \<Longrightarrow>
    \<exists>n. recv_loop nr bad (bulk_read mp) pipe n 0 (on_bus mp (concat (map (\<lambda>d. snd (SendUSBBlock raw s d)) ds))) b
      = (True, 0, [], b\<lparr>usb := (usb b)\<lparr>usb_stream := usb_stream (usb b) @ concat ds\<rparr>\<rparr>)"
proof (induction ds arbitrary: b)
  case Nil
  then show ?case by (intro exI [of _ 0]) simp
next
  case (Cons d ds)
  let ?rest = "on_bus mp (concat (map (\<lambda>d. snd (SendUSBBlock raw s d)) ds))"
  let ?b = "b\<lparr>usb := (usb b)\<lparr>usb_stream := usb_stream (usb b) @ d\<rparr>\<rparr>"
  obtain n where n: "recv_loop nr bad (bulk_read mp) pipe n 0 (on_bus mp (snd (SendUSBBlock raw s d)) @ ?rest) b
      = (True, 0, ?rest, ?b)"
    using block_received [OF assms(1,2) _ Cons.prems(2) s(1) Cons.prems(3) s(2), of d ?rest] Cons.prems(1) by auto
  obtain m where m: "recv_loop nr bad (bulk_read mp) pipe m 0 ?rest ?b
      = (True, 0, [], ?b\<lparr>usb := (usb ?b)\<lparr>usb_stream := usb_stream (usb ?b) @ concat ds\<rparr>\<rparr>)"
    using Cons.IH [of ?b] Cons.prems by auto
  show ?case using recv_loop_add [OF n, of m] m by (intro exI [of _ "n + m"]) simp
qed

end

text \<open>The reader of the host is one, for the packet size of a high speed device.\<close>

interpretation host: usb_reader 512 "\<lambda>c. next_read c 512" "\<lambda>_. False" sid for sid
  by unfold_locales (simp_all add: next_read_def hdc_consts)

section \<open>Properties\<close>

text \<open>
  C16. Blocks sent over USB arrive at the host: when the transfers and the data pipe take all bytes and
  the packets have 512 bytes, the reader, standing at a header, passes the contents of the blocks to the
  session, in order, each byte once, and then expects a header again. A block may have any size
  from one byte to below 2 GiB, also a multiple of the packet size, but no part of it that is read alone may have the form of a packet
  header (\<open>block_ok\<close>): such a part is lost (\<open>data_taken_for_header\<close>).
\<close>

theorem usb_blocks_arrive:
  assumes "\<forall>d. pipe d = int (length d)" and "\<forall>d. raw d = int (length d)" and "\<forall>d \<in> set ds. block_ok d"
    and "idle_session 512 b" and "payloadSize (usb b) = 0"
    and "us_sid s = us_sid (usb b)" and "wMaxPacketSizeSend s = 512"
  shows "\<exists>n. read_loop (bulk_read 512) pipe n 0 (on_bus 512 (concat (map (\<lambda>d. snd (SendUSBBlock raw s d)) ds))) b
      = (True, 0, [], b\<lparr>usb := (usb b)\<lparr>usb_stream := usb_stream (usb b) @ concat ds\<rparr>\<rparr>)"
proof -
  have "\<forall>d \<in> set ds. host.good_block d"
    using assms(3) by (simp add: host.good_block_def list_all_iff)
  from host.blocks_received [OF assms(1,2,6,7) this assms(5) refl] obtain n where
    n: "recv_loop (\<lambda>c. next_read c 512) (\<lambda>_. False) (bulk_read 512) pipe n 0
      (on_bus 512 (concat (map (\<lambda>d. snd (SendUSBBlock raw s d)) ds))) b
      = (True, 0, [], b\<lparr>usb := (usb b)\<lparr>usb_stream := usb_stream (usb b) @ concat ds\<rparr>\<rparr>)" ..
  show ?thesis by (rule exI, rule read_loop_recv [OF n assms(4)])
qed

definition sample_usb :: "bytes \<Rightarrow> usb_base" where
  "sample_usb st = \<lparr> usb = \<lparr> us_sid = 7, usb_server = True, payloadSize = 0, wMaxPacketSizeSend = 512,
     usb_resetIO = False, usb_dead = False, usb_cleared = False, usb_stream = st \<rparr>, resets = [] \<rparr>"

theorem usb_blocks_arrive_witness:
  "\<exists>n. read_loop (bulk_read 512) (\<lambda>d. int (length d)) n 0
      (on_bus 512 (concat (map (\<lambda>d. snd (SendUSBBlock (\<lambda>d. int (length d)) (usb (sample_usb [])) d)) [[1, 2, 3], [4]])))
      (sample_usb []) = (True, 0, [], sample_usb [1, 2, 3, 4])"
  using usb_blocks_arrive [of "\<lambda>d. int (length d)" "\<lambda>d. int (length d)" "[[1, 2, 3], [4]]" "sample_usb []"
      "usb (sample_usb [])"]
  by (simp add: hdc_consts block_ok_def pieces.simps IsUsbPacketHeader_def idle_session_def sample_usb_def Let_def)

text \<open>
  A block whose last part is eleven bytes long and looks like a header is not delivered whole:
  the reader takes the part for a header, drops it and expects as many bytes as it names.
\<close>

theorem data_taken_for_header:
  assumes "MAX_USBFFS_BULK mod mp = 0" and "sizeof_USBHead < mp" and "\<forall>d. pipe d = int (length d)"
    and "length d = MAX_USBFFS_BULK" and "\<not> IsUsbPacketHeader d" and "idle_session mp b" and "n < 2 ^ 31"
    and "t = BuildPacketHeader (us_sid (usb b)) USB_OPTION_HEADER (word_of_nat n)"
    and "payloadSize (usb b) = word_of_nat (length (d @ t))"
  shows "read_loop (bulk_read mp) pipe 2 (int (length (d @ t))) (usb_packets mp (d @ t)) b
    = (True, int n, [], b\<lparr>usb := (usb b)\<lparr>payloadSize := word_of_nat n, usb_stream := usb_stream (usb b) @ d\<rparr>\<rparr>)"
proof -
  let ?b1 = "b\<lparr>usb := (usb b)\<lparr>payloadSize := word_of_nat sizeof_USBHead, usb_stream := usb_stream (usb b) @ d\<rparr>\<rparr>"
  have t: "length t = sizeof_USBHead" using assms(8) by simp
  have len: "length (d @ t) = 16395" using t assms(4) by (simp add: hdc_consts)
  have dv: "mp dvd MAX_USBFFS_BULK" using assms(1) by auto
  then have mp: "0 < mp" "mp \<le> 16384" using assms(2) by (simp_all add: dvd_imp_le hdc_consts)
  have nr: "next_read (int (length (d @ t))) mp = MAX_USBFFS_BULK" "next_read (int sizeof_USBHead) mp = mp"
    using mp assms(2) unfolding len by (simp_all add: next_read_def hdc_consts)
  have r1: "bulk_read mp MAX_USBFFS_BULK (usb_packets mp (d @ t) @ []) = Some (d, usb_packets mp t @ [])"
    using bulk_read_piece [OF mp(1), of MAX_USBFFS_BULK "d @ t" "[]"] dv len assms(4)
    by (auto simp: MAX_USBFFS_BULK_def)
  have r2: "bulk_read mp mp (usb_packets mp t @ []) = Some (t, [])"
    by (rule bulk_read_short) (use t assms(2) in simp_all)
  have p: "payloadSize (usb b) = 16395" using assms(9) unfolding len by simp
  have s1: "SendToHdcStream pipe d b = (int sizeof_USBHead, ?b1)"
    using assms(3,4,5) p by (simp add: SendToHdcStream_def hdc_consts)
  have s2: "SendToHdcStream pipe t ?b1
      = (int n, b\<lparr>usb := (usb b)\<lparr>payloadSize := word_of_nat n, usb_stream := usb_stream (usb b) @ d\<rparr>\<rparr>)"
    using header_received(1) [of pipe ?b1 "word_of_nat n"] assms(7,8) sint_nat [of n] by simp
  have "wMaxPacketSizeSend (usb b) = mp" "\<not> usb_dead (usb b)" using assms(6) by (simp_all add: idle_session_def)
  then show ?thesis using nr r1 r2 s1 s2 by (simp add: numeral_2_eq_2 del: length_append)
qed

theorem data_taken_for_header_witness:
  "let d = replicate 16384 0; b = (sample_usb [])\<lparr>usb := (usb (sample_usb []))\<lparr>payloadSize := 16395\<rparr>\<rparr>;
       t = BuildPacketHeader 7 USB_OPTION_HEADER 5
   in read_loop (bulk_read 512) (\<lambda>d. int (length d)) 2 (int (length (d @ t))) (usb_packets 512 (d @ t)) b
      = (True, 5, [], b\<lparr>usb := (usb b)\<lparr>payloadSize := 5, usb_stream := usb_stream (usb b) @ d\<rparr>\<rparr>)"
proof -
  let ?d = "replicate 16384 0 :: bytes"
  let ?b = "(sample_usb [])\<lparr>usb := (usb (sample_usb []))\<lparr>payloadSize := 16395\<rparr>\<rparr>"
  have "\<not> IsUsbPacketHeader ?d" by (simp add: IsUsbPacketHeader_def Let_def hdc_consts)
  moreover have "MAX_USBFFS_BULK mod 512 = 0" "sizeof_USBHead < 512" "length ?d = MAX_USBFFS_BULK"
    by (simp_all add: hdc_consts)
  moreover have "idle_session 512 ?b" "us_sid (usb ?b) = 7" by (simp_all add: idle_session_def sample_usb_def)
  ultimately show ?thesis
    using data_taken_for_header [of 512 "\<lambda>d. int (length d)" ?d ?b 5]
    by (simp add: Let_def hdc_consts)
qed

end
