(* ===== verification/Hdc_UsbDaemon.thy ===== *)
theory Hdc_UsbDaemon
  imports Hdc_Usb
begin

unbundle bit_operations_syntax

text \<open>
  The USB module of the daemon, src/src/daemon/daemon_usb.cpp: every read completes in the main
  loop, finds the session it belongs to and queues the next read; a timer watches the endpoints.
\<close>

section \<open>State\<close>

text \<open>
  The module with the part of the daemon it uses: the sessions, those it asked to free, and the
  read that is queued (its size). The host's resets do not occur here: \<open>usb_server\<close> is false.
\<close>

record HdcDaemonUSB =
  mapSession :: "u32 \<Rightarrow> usb_base option"
  freed :: "u32 list"
  currentSessionId :: u32
  modRunning :: bool
  isAlive :: bool
  atPollQueue :: bool
  queued :: "nat option"
  saveNextReadSize :: nat
  bulkIn :: int
  bulkOut :: int
  controlEp :: int
  closing :: "bool list"
  wMaxPacketSize :: nat

text \<open>
  What the module is given by the system: the answers of \<open>uv_fs_read\<close> and of the endpoint files,
  whether a session can be allocated, and the random session number.
\<close>

record usb_system =
  uv_fs_read :: "nat \<Rightarrow> int"
  session_alloc :: bool
  GetSessionPseudoUid :: "(u32 \<Rightarrow> usb_base option) \<Rightarrow> u32"
  to_stream :: "bytes \<Rightarrow> int"
  open_ep0 :: int
  write_descriptors :: int
  write_strings :: int
  open_ep1 :: int
  open_ep2 :: int

section \<open>Sessions\<close>

definition FreeSession :: "u32 \<Rightarrow> HdcDaemonUSB \<Rightarrow> HdcDaemonUSB" where
  "FreeSession sid d =
     (case mapSession d sid of
        None \<Rightarrow> d
      | Some b \<Rightarrow> if usb_dead (usb b) then d
          else d\<lparr>mapSession := (mapSession d)(sid \<mapsto> b\<lparr>usb := (usb b)\<lparr>usb_dead := True\<rparr>\<rparr>),
                 freed := freed d @ [sid]\<rparr>)"

definition ResetOldSession :: "u32 \<Rightarrow> HdcDaemonUSB \<Rightarrow> HdcDaemonUSB" where
  "ResetOldSession sessionId d =
     (let sid = (if sessionId = 0 then currentSessionId d else sessionId) in
      if mapSession d sid = None then d else FreeSession sid d)"

definition AvailablePacket :: "bytes \<Rightarrow> HdcDaemonUSB \<Rightarrow> int \<times> u32 \<times> HdcDaemonUSB" where
  "AvailablePacket pkt d =
     (if \<not> IsUsbPacketHeader pkt then (0, 0, d)
      else let h = dec_USBHead pkt in
        if ub_option h AND USB_OPTION_RESET \<noteq> 0
        then (err ERR_IO_SOFT_RESET, 0, ResetOldSession (ub_sessionId h) d)
        else (0, ub_sessionId h, d))"

definition new_usb_session :: "u32 \<Rightarrow> usb_base" where
  "new_usb_session sid =
     \<lparr> usb = \<lparr> us_sid = sid, usb_server = False, payloadSize = 0,
         wMaxPacketSizeSend = 512, usb_resetIO = False, usb_dead = False,
         usb_cleared = False, usb_stream = [] \<rparr>, resets = [] \<rparr>"

definition PrepareNewSession :: "usb_system \<Rightarrow> u32 \<Rightarrow> HdcDaemonUSB \<Rightarrow> u32 option \<times> HdcDaemonUSB" where
  "PrepareNewSession e sessionId d =
     (if \<not> session_alloc e then (None, d)
      else let sid = (if sessionId = 0 then GetSessionPseudoUid e (mapSession d) else sessionId)
        in (Some sid, d\<lparr>mapSession := (mapSession d)(sid \<mapsto> new_usb_session sid),
                        currentSessionId := sessionId\<rparr>))"

definition DispatchToWorkThread :: "usb_system \<Rightarrow> u32 \<Rightarrow> bytes \<Rightarrow> HdcDaemonUSB \<Rightarrow> int \<times> HdcDaemonUSB" where
  "DispatchToWorkThread e sessionId0 readBuf d0 =
     (let sessionId = (if sessionId0 = 0 then currentSessionId d0 else sessionId0);
          d = (if currentSessionId d0 \<noteq> 0 \<and> sessionId \<noteq> currentSessionId d0
               then (ResetOldSession (currentSessionId d0) d0)\<lparr>currentSessionId := 0\<rparr> else d0);
          (found, d1) = (if mapSession d sessionId \<noteq> None then (Some sessionId, d)
                         else PrepareNewSession e sessionId d)
      in case found of
           None \<Rightarrow> (err ERR_SESSION_NOFOUND, d1)
         | Some sid \<Rightarrow>
             let b = the (mapSession d1 sid) in
             if usb_cleared (usb b) \<or> usb_dead (usb b) then (err ERR_SESSION_DEAD, d1)
             else let (childRet, b') = SendToHdcStream (to_stream e) readBuf b;
                      d2 = d1\<lparr>mapSession := (mapSession d1)(sid \<mapsto> b')\<rparr>
               in if childRet < 0 then (err ERR_IO_FAIL, d2) else (childRet, d2))"

text \<open>\<open>OnNewHandshakeOK\<close> and \<open>OnSessionFreeFinally\<close> are the notes of the daemon.\<close>

definition OnNewHandshakeOK :: "u32 \<Rightarrow> HdcDaemonUSB \<Rightarrow> HdcDaemonUSB" where
  "OnNewHandshakeOK sessionId d = d\<lparr>currentSessionId := sessionId\<rparr>"

definition OnSessionFreeFinally :: "u32 \<Rightarrow> HdcDaemonUSB \<Rightarrow> HdcDaemonUSB" where
  "OnSessionFreeFinally sessionId d =
     (if currentSessionId d = sessionId then d\<lparr>isAlive := False\<rparr> else d)"

section \<open>Reading\<close>

definition LoopUSBRead :: "usb_system \<Rightarrow> nat \<Rightarrow> HdcDaemonUSB \<Rightarrow> int \<times> HdcDaemonUSB" where
  "LoopUSBRead e readMaxWanted d =
     (if uv_fs_read e readMaxWanted < 0 then (err ERR_API_FAIL, d)
      else (0, d\<lparr>queued := Some readMaxWanted, atPollQueue := True\<rparr>))"

definition antiqueFlag :: bytes where
  "antiqueFlag = [0x43, 0x4e, 0x58, 0x4e]"

definition JumpAntiquePacket :: "bytes \<Rightarrow> bool" where
  "JumpAntiquePacket pkt \<longleftrightarrow> length pkt = 24 \<and> take 4 pkt = antiqueFlag"

definition EINTR :: int where "EINTR = 4"

text \<open>The result of a read: a negative number, or the bytes that were read.\<close>

datatype read_result = Failed int | Got bytes

definition queue_next :: "usb_system \<Rightarrow> int \<Rightarrow> HdcDaemonUSB \<Rightarrow> bool \<times> HdcDaemonUSB" where
  "queue_next e childRet d =
     (let nextReadSize = (if childRet = 0 then wMaxPacketSize d else nat (min childRet (int MAX_USBFFS_BULK)));
          (r, d1) = LoopUSBRead e nextReadSize (d\<lparr>saveNextReadSize := nextReadSize\<rparr>)
      in (0 \<le> r, d1))"

definition read_done :: "usb_system \<Rightarrow> read_result \<Rightarrow> HdcDaemonUSB \<Rightarrow> bool \<times> HdcDaemonUSB" where
  "read_done e res d =
     (if \<not> isAlive d then (False, d)
      else case res of
        Failed code \<Rightarrow> if code \<noteq> - EINTR then (False, d) else queue_next e 0 d
      | Got bufPtr \<Rightarrow>
          if bufPtr = [] then queue_next e 0 d
          else if JumpAntiquePacket bufPtr then (True, d)
          else let (ret, sessionId, d1) = AvailablePacket bufPtr d in
            if ret \<noteq> 0 then
              if ret \<noteq> err ERR_IO_SOFT_RESET then (False, d1) else queue_next e 0 d1
            else let (childRet, d2) = DispatchToWorkThread e sessionId bufPtr d1 in
              if childRet < 0 then (False, d2) else queue_next e childRet d2)"

definition OnUSBRead :: "usb_system \<Rightarrow> read_result \<Rightarrow> HdcDaemonUSB \<Rightarrow> HdcDaemonUSB" where
  "OnUSBRead e res d =
     (let (ret, d1) = read_done e res (d\<lparr>queued := None\<rparr>) in
      if ret then d1 else d1\<lparr>isAlive := False, atPollQueue := False\<rparr>)"

section \<open>Writing\<close>

text \<open>
  \<open>SendUSBIOSync\<close> writes until all is out; the answers of \<open>write\<close> come with the error number. Without
  an answer the call has not returned. The bytes that were written are the last component.
\<close>

fun write_sync :: "(int \<times> int) list \<Rightarrow> bytes \<Rightarrow> nat \<Rightarrow> HdcDaemonUSB \<Rightarrow> (nat \<times> HdcDaemonUSB) option" where
  "write_sync ans data offset d =
     (if \<not> modRunning d \<or> \<not> isAlive d then Some (offset, d)
      else case ans of
        [] \<Rightarrow> None
      | (childRet, errno) # ans' \<Rightarrow>
          if childRet \<le> 0 then
            if errno = EINTR then write_sync ans' data offset d
            else Some (offset, d\<lparr>isAlive := False\<rparr>)
          else if length data \<le> offset + nat childRet then Some (offset + nat childRet, d)
          else write_sync ans' data (offset + nat childRet) d)"

declare write_sync.simps [simp del]

definition SendUSBIOSync :: "(int \<times> int) list \<Rightarrow> u32 \<Rightarrow> bytes \<Rightarrow> HdcDaemonUSB \<Rightarrow> (int \<times> HdcDaemonUSB) option" where
  "SendUSBIOSync ans sid data d =
     (let dead = (case mapSession d sid of None \<Rightarrow> True | Some b \<Rightarrow> usb_dead (usb b)) in
      case (if dead then Some (0, d) else write_sync ans data 0 d) of
        None \<Rightarrow> None
      | Some (offset, d1) \<Rightarrow> Some (if offset = length data then int (length data) else err ERR_IO_FAIL, d1))"

definition SendUSBRaw :: "(int \<times> int) list \<Rightarrow> u32 \<Rightarrow> bytes \<Rightarrow> HdcDaemonUSB \<Rightarrow> (int \<times> HdcDaemonUSB) option" where
  "SendUSBRaw ans sid data d =
     map_option (\<lambda>(ret, d1). (ret, if ret < 0 then FreeSession sid d1 else d1)) (SendUSBIOSync ans sid data d)"

section \<open>The watchdog\<close>

definition CloseEndpoint :: "bool \<Rightarrow> HdcDaemonUSB \<Rightarrow> HdcDaemonUSB" where
  "CloseEndpoint closeCtrlEp d =
     d\<lparr>bulkIn := (if 0 < bulkIn d then 0 else bulkIn d),
       bulkOut := (if 0 < bulkOut d then 0 else bulkOut d),
       controlEp := (if 0 < controlEp d \<and> closeCtrlEp then 0 else controlEp d),
       isAlive := False\<rparr>"

definition CloseBulkEp :: "bool \<Rightarrow> HdcDaemonUSB \<Rightarrow> HdcDaemonUSB" where
  "CloseBulkEp bulkInOut d = d\<lparr>isAlive := False, closing := closing d @ [bulkInOut]\<rparr>"

text \<open>The callback of the close.\<close>

definition bulk_closed :: "HdcDaemonUSB \<Rightarrow> HdcDaemonUSB" where
  "bulk_closed d =
     (case closing d of
        [] \<Rightarrow> d
      | x # xs \<Rightarrow> (if x then d\<lparr>bulkIn := 0\<rparr> else d\<lparr>bulkOut := 0\<rparr>)\<lparr>closing := xs\<rparr>)"

definition ConnectEPPoint :: "usb_system \<Rightarrow> HdcDaemonUSB \<Rightarrow> bool \<times> HdcDaemonUSB" where
  "ConnectEPPoint e d =
     (let d1 = (if controlEp d \<le> 0 then d\<lparr>controlEp := open_ep0 e\<rparr> else d) in
      if controlEp d \<le> 0 \<and> (open_ep0 e < 0 \<or> write_descriptors e < 0 \<or> write_strings e < 0)
      then (False, CloseEndpoint True d1)
      else let d2 = d1\<lparr>bulkOut := open_ep1 e\<rparr> in
        if open_ep1 e < 0 then (False, CloseEndpoint True d2)
        else let d3 = d2\<lparr>bulkIn := open_ep2 e\<rparr> in
          if open_ep2 e < 0 then (False, CloseEndpoint True d3)
          else (True, d3\<lparr>wMaxPacketSize := 512\<rparr>))"

definition WatchEPTimer :: "usb_system \<Rightarrow> HdcDaemonUSB \<Rightarrow> HdcDaemonUSB" where
  "WatchEPTimer e d =
     (if isAlive d \<or> atPollQueue d then d
      else let d1 = (if 0 < bulkIn d then CloseBulkEp True d else d);
               d2 = (if 0 < bulkOut d1 then CloseBulkEp False d1 else d1);
               d3 = d2\<lparr>controlEp := (if 0 < controlEp d2 then 0 else controlEp d2)\<rparr>;
               resetEp = (0 < bulkIn d \<or> 0 < bulkOut d \<or> 0 < controlEp d)
        in if resetEp \<or> bulkIn d3 \<noteq> 0 \<or> bulkOut d3 \<noteq> 0 then d3
           else let (ok, d4) = ConnectEPPoint e d3 in
             if \<not> ok then d4
             else snd (LoopUSBRead e (wMaxPacketSize d4) (d4\<lparr>isAlive := True\<rparr>)))"

section \<open>What reaches a session\<close>

text \<open>The reads that complete: one after the other, as they are queued.\<close>

fun usb_daemon_run :: "usb_system \<Rightarrow> nat \<Rightarrow> bytes list \<Rightarrow> HdcDaemonUSB \<Rightarrow> bytes list \<times> HdcDaemonUSB" where
  "usb_daemon_run e 0 dev d = (dev, d)"
| "usb_daemon_run e (Suc n) dev d =
     (case queued d of
        None \<Rightarrow> (dev, d)
      | Some k \<Rightarrow>
          case bulk_read (wMaxPacketSize d) k dev of
            None \<Rightarrow> (dev, d)
          | Some (x, dev') \<Rightarrow> usb_daemon_run e n dev' (OnUSBRead e (Got x) d))"

definition daemon_next :: "int \<Rightarrow> nat" where
  "daemon_next c = (if c = 0 then 512 else nat (min c (int MAX_USBFFS_BULK)))"

definition not_for :: "u32 \<Rightarrow> bytes \<Rightarrow> bool" where
  "not_for sid x \<longleftrightarrow> x = [] \<or> JumpAntiquePacket x
     \<or> IsUsbPacketHeader x \<and> (ub_sessionId (dec_USBHead x) \<noteq> sid \<or> ub_option (dec_USBHead x) AND USB_OPTION_RESET \<noteq> 0)"

lemma not_for_header: "\<not> not_for sid (BuildPacketHeader sid USB_OPTION_HEADER n)" "\<not> not_for sid (BuildPacketHeader sid 0 n)"
  by (auto simp: not_for_def JumpAntiquePacket_def USB_OPTION_HEADER_def USB_OPTION_RESET_def sizeof_USBHead_def
      dest: arg_cong [of _ _ length])

interpretation daemon: usb_reader 512 daemon_next "not_for sid" sid for sid
  by unfold_locales (simp_all add: daemon_next_def not_for_header, simp_all add: hdc_consts)

definition live_session :: "usb_base \<Rightarrow> bool" where
  "live_session b \<longleftrightarrow> \<not> usb_dead (usb b) \<and> \<not> usb_cleared (usb b)"

definition serving :: "u32 \<Rightarrow> usb_base \<Rightarrow> int \<Rightarrow> HdcDaemonUSB \<Rightarrow> bool" where
  "serving sid b c d \<longleftrightarrow> sid \<noteq> 0 \<and> isAlive d \<and> queued d = Some (daemon_next c) \<and> currentSessionId d = sid
     \<and> mapSession d sid = Some b \<and> live_session b \<and> wMaxPacketSize d = 512"

lemma SendToHdcStream_live:
  "SendToHdcStream pipe x b = (c, b2) \<Longrightarrow> live_session b \<Longrightarrow> live_session b2"
  by (auto simp: SendToHdcStream_def CheckPacketOption_def PreSendUsbSoftReset_def live_session_def Let_def
      split: if_splits)

lemma queue_next_ok:
  "\<forall>n. 0 \<le> uv_fs_read e n \<Longrightarrow> wMaxPacketSize d = 512 \<Longrightarrow> 0 \<le> c \<Longrightarrow>
     queue_next e c d = (True, d\<lparr>saveNextReadSize := daemon_next c, queued := Some (daemon_next c), atPollQueue := True\<rparr>)"
  by (auto simp: queue_next_def LoopUSBRead_def daemon_next_def Let_def not_less)

text \<open>One read for the session that is served.\<close>

lemma serving_read:
  assumes "\<forall>n. 0 \<le> uv_fs_read e n" and "serving sid b c d" and "\<not> not_for sid x"
    and "SendToHdcStream (to_stream e) x b = (c', b')" and "0 \<le> c'"
  shows "serving sid b' c' (OnUSBRead e (Got x) d) \<and> freed (OnUSBRead e (Got x) d) = freed d"
proof -
  let ?d = "d\<lparr>queued := None\<rparr>"
  have sv: "sid \<noteq> 0" "isAlive d" "currentSessionId d = sid" "mapSession d sid = Some b" "live_session b" "wMaxPacketSize d = 512"
    using assms(2) by (simp_all add: serving_def)
  have "\<exists>i. AvailablePacket x ?d = (0, i, ?d) \<and> (i = 0 \<or> i = sid)"
    using assms(3) by (cases "IsUsbPacketHeader x") (auto simp: AvailablePacket_def not_for_def Let_def)
  then obtain i where a: "AvailablePacket x ?d = (0, i, ?d)" and i: "i = 0 \<or> i = sid" by blast
  have ds: "DispatchToWorkThread e i x ?d = (c', ?d\<lparr>mapSession := (mapSession d)(sid \<mapsto> b')\<rparr>)"
    using i sv assms(4,5) by (auto simp: DispatchToWorkThread_def live_session_def)
  have "OnUSBRead e (Got x) d = ?d\<lparr>mapSession := (mapSession d)(sid \<mapsto> b'), saveNextReadSize := daemon_next c',
      queued := Some (daemon_next c'), atPollQueue := True\<rparr>"
    using a ds assms(1,3,5) sv by (simp add: OnUSBRead_def read_done_def not_for_def queue_next_ok)
  then show ?thesis using sv SendToHdcStream_live [OF assms(4)] by (simp add: serving_def)
qed

lemma run_recv:
  "recv_loop daemon_next (not_for sid) (bulk_read 512) (to_stream e) n c dev b = (True, c', dev', b') \<Longrightarrow>
     \<forall>n. 0 \<le> uv_fs_read e n \<Longrightarrow> serving sid b c d \<Longrightarrow>
     \<exists>d'. usb_daemon_run e n dev d = (dev', d') \<and> serving sid b' c' d' \<and> freed d' = freed d"
proof (induction n arbitrary: c dev b d)
  case (Suc n)
  have q: "queued d = Some (daemon_next c)" "wMaxPacketSize d = 512" using Suc.prems(3) by (simp_all add: serving_def)
  from Suc.prems(1) obtain x dev1 c1 b1 where s: "bulk_read 512 (daemon_next c) dev = Some (x, dev1)" "\<not> not_for sid x"
    "SendToHdcStream (to_stream e) x b = (c1, b1)" "0 \<le> c1"
    "recv_loop daemon_next (not_for sid) (bulk_read 512) (to_stream e) n c1 dev1 b1 = (True, c', dev', b')"
    by (auto split: option.splits prod.splits if_splits)
  show ?case
    using Suc.IH [OF s(5) Suc.prems(2)] serving_read [OF Suc.prems(2,3) s(2-4)] s(1) q by fastforce
qed auto

text \<open>The first packet of a new host: the session of the old one is freed, a new one takes its place.\<close>

lemma new_host_read:
  assumes "session_alloc e" and "isAlive d" and "mapSession d sid = None" and "sid \<noteq> 0" and "currentSessionId d \<noteq> sid"
    and "x = BuildPacketHeader sid USB_OPTION_HEADER n"
  shows "OnUSBRead e (Got x) d = OnUSBRead e (Got x)
    (let d1 = (if currentSessionId d = 0 then d else ResetOldSession (currentSessionId d) d)
     in d1\<lparr>mapSession := (mapSession d1)(sid \<mapsto> new_usb_session sid), currentSessionId := sid\<rparr>)"
proof -
  let ?d1 = "if currentSessionId d = 0 then d else ResetOldSession (currentSessionId d) d"
  let ?d2 = "?d1\<lparr>mapSession := (mapSession ?d1)(sid \<mapsto> new_usb_session sid), currentSessionId := sid\<rparr>"
  have r: "mapSession ?d1 sid = None" "isAlive ?d1"
    using assms(2,3,5) by (auto simp: ResetOldSession_def FreeSession_def Let_def split: option.splits)
  have b: "ResetOldSession i (d\<lparr>queued := None\<rparr>) = (ResetOldSession i d)\<lparr>queued := None\<rparr>" for i
    by (auto simp: ResetOldSession_def FreeSession_def Let_def split: option.splits)
  have x: "\<not> JumpAntiquePacket x" "x \<noteq> []" "AvailablePacket x d' = (0, sid, d')" for d'
    using not_for_header(1) [of sid n] unfolding assms(6)
    by (simp_all add: not_for_def AvailablePacket_def Let_def IsUsbPacketHeader_def, simp_all add: USB_OPTION_HEADER_def USB_OPTION_RESET_def)
  have "DispatchToWorkThread e sid x (d\<lparr>queued := None\<rparr>) = DispatchToWorkThread e sid x (?d2\<lparr>queued := None\<rparr>)"
    using assms(1,3,4,5) r unfolding DispatchToWorkThread_def PrepareNewSession_def Let_def
    by (cases "currentSessionId d = 0") (simp_all add: b split: prod.split)
  then show ?thesis using x r(2) assms(2) by (simp add: OnUSBRead_def read_done_def Let_def)
qed

section \<open>Properties\<close>

text \<open>The parts of a block are neither taken for a header nor for a packet of the old protocol.\<close>

definition daemon_block :: "bytes \<Rightarrow> bool" where
  "daemon_block d \<longleftrightarrow> block_ok d \<and> list_all (\<lambda>x. \<not> JumpAntiquePacket x) (pieces d)"

lemma pieces_nonempty: "d \<noteq> [] \<Longrightarrow> list_all (\<lambda>x. x \<noteq> []) (pieces d)"
  by (induction d rule: pieces.induct) (subst pieces.simps, auto simp: hdc_consts)

lemma good_daemon_block: "daemon_block d \<Longrightarrow> daemon.good_block sid d"
  using pieces_nonempty [of d]
  by (auto simp: daemon_block_def daemon.good_block_def block_ok_def not_for_def list_all_iff)

lemma FreeSession_freed:
  "mapSession d sid = Some b \<Longrightarrow> live_session b \<Longrightarrow> sid \<noteq> 0 \<Longrightarrow> sid \<in> set (freed (ResetOldSession sid d))"
  by (auto simp: ResetOldSession_def FreeSession_def live_session_def)

lemma ResetOldSession_frame [simp]:
  "isAlive (ResetOldSession sid d) = isAlive d" "queued (ResetOldSession sid d) = queued d"
  "wMaxPacketSize (ResetOldSession sid d) = wMaxPacketSize d"
  by (auto simp: ResetOldSession_def FreeSession_def Let_def split: option.splits)

text \<open>
  C9. A host that connects over USB is served whole: from its first block on, a new session is opened
  under its number, the session of the host before it is freed, the contents of all blocks reach the
  new session in order, each byte once, and the daemon is left with the next read queued. The packets
  have 512 bytes, the module is alive and reads the first packet of a header, the number is not zero,
  not the current one and not in use, no piece of a block looks like a packet header or a packet of the
  old protocol (\<open>daemon_block\<close>; \<open>antique_packet_stops_reading\<close> is what happens then), and the loop accepts
  the reads, the host's writes and the session's pipe take all bytes.
\<close>

theorem daemon_serves_new_host:
  assumes "\<forall>n. 0 \<le> uv_fs_read e n" and "session_alloc e" and "\<forall>d. to_stream e d = int (length d)"
    and "\<forall>d. raw d = int (length d)" and "us_sid s = sid" and "sid \<noteq> 0" and "wMaxPacketSizeSend s = 512"
    and "isAlive d" and "queued d = Some 512" and "wMaxPacketSize d = 512"
    and "mapSession d sid = None" and "currentSessionId d \<noteq> sid"
    and "ds \<noteq> []" and "\<forall>x \<in> set ds. daemon_block x"
  shows "\<exists>n d'. usb_daemon_run e n (on_bus 512 (concat (map (\<lambda>x. snd (SendUSBBlock raw s x)) ds))) d = ([], d')
    \<and> map_option (\<lambda>b. usb_stream (usb b)) (mapSession d' sid) = Some (concat ds)
    \<and> currentSessionId d' = sid \<and> isAlive d' \<and> queued d' = Some 512
    \<and> (\<forall>b. currentSessionId d \<noteq> 0 \<and> mapSession d (currentSessionId d) = Some b \<and> live_session b
         \<longrightarrow> currentSessionId d \<in> set (freed d'))"
proof -
  let ?b = "new_usb_session sid"
  let ?b' = "?b\<lparr>usb := (usb ?b)\<lparr>usb_stream := usb_stream (usb ?b) @ concat ds\<rparr>\<rparr>"
  let ?d1 = "if currentSessionId d = 0 then d else ResetOldSession (currentSessionId d) d"
  let ?d2 = "?d1\<lparr>mapSession := (mapSession ?d1)(sid \<mapsto> ?b), currentSessionId := sid\<rparr>"
  let ?bus = "on_bus 512 (concat (map (\<lambda>x. snd (SendUSBBlock raw s x)) ds))"
  obtain x xs where ds: "ds = x # xs" using assms(13) by (cases ds) auto
  let ?h = "BuildPacketHeader sid USB_OPTION_HEADER (word_of_nat (length x))"
  have "raw ?h = 11" using assms(4) by (simp add: sizeof_USBHead_def)
  then have "\<exists>ts. snd (SendUSBBlock raw s x) = ?h # ts"
    using assms(5) unfolding SendUSBBlock_def Let_def by simp
  then obtain ts where ts: "snd (SendUSBBlock raw s x) = ?h # ts" ..
  then obtain bus where bus: "?bus = ?h # bus"
    using ds usb_packets.simps [of 512 ?h] by (simp add: sizeof_USBHead_def)
  have "\<forall>x \<in> set ds. daemon.good_block sid x" using assms(14) good_daemon_block by blast
  moreover have "payloadSize (usb ?b) = 0" "us_sid (usb ?b) = sid" by (simp_all add: new_usb_session_def)
  ultimately obtain n where n: "recv_loop daemon_next (not_for sid) (bulk_read 512) (to_stream e) n 0 ?bus ?b
      = (True, 0, [], ?b')"
    using daemon.blocks_received [OF assms(3,4,5,7), of ds ?b] by blast
  have "serving sid ?b 0 ?d2"
    using assms(6,8,9,10) by (simp add: serving_def daemon_next_def live_session_def new_usb_session_def)
  from run_recv [OF n assms(1) this] obtain d' where
    d': "usb_daemon_run e n ?bus ?d2 = ([], d')" "serving sid ?b' 0 d'" "freed d' = freed ?d2" by blast
  obtain m where m: "n = Suc m" using n bus by (cases n) auto
  have q: "queued ?d2 = queued d" "wMaxPacketSize ?d2 = wMaxPacketSize d" by simp_all
  have "usb_daemon_run e n ?bus d = usb_daemon_run e n ?bus ?d2"
    using new_host_read [OF assms(2,8,11,6,12) refl, of "word_of_nat (length x)"] assms(9,10) q
    unfolding m bus by (simp add: Let_def sizeof_USBHead_def)
  moreover have "currentSessionId d \<in> set (freed d')"
    if "currentSessionId d \<noteq> 0" "mapSession d (currentSessionId d) = Some b" "live_session b" for b
    using FreeSession_freed [OF that(2,3,1)] that(1) d'(3) by simp
  ultimately show ?thesis using d'(1,2)
    by (intro exI [of _ n] exI [of _ d']) (auto simp: serving_def daemon_next_def new_usb_session_def)
qed

definition sample_system :: usb_system where
  "sample_system = \<lparr> uv_fs_read = \<lambda>_. 0, session_alloc = True, GetSessionPseudoUid = \<lambda>_. 99,
     to_stream = \<lambda>d. int (length d), open_ep0 = 5, write_descriptors = 0, write_strings = 0, open_ep1 = 6, open_ep2 = 7 \<rparr>"

definition sample_daemon :: HdcDaemonUSB where
  "sample_daemon = \<lparr> mapSession = [3 \<mapsto> new_usb_session 3], freed = [], currentSessionId = 3, modRunning = True,
     isAlive = True, atPollQueue = True, queued = Some 512, saveNextReadSize = 512, bulkIn = 7, bulkOut = 6,
     controlEp = 5, closing = [], wMaxPacketSize = 512 \<rparr>"

theorem daemon_serves_new_host_witness:
  "\<exists>n d'. usb_daemon_run sample_system n
      (on_bus 512 (concat (map (\<lambda>x. snd (SendUSBBlock (\<lambda>d. int (length d)) (usb (sample_usb [])) x)) [[1, 2], [3]])))
      sample_daemon = ([], d')
    \<and> map_option (\<lambda>b. usb_stream (usb b)) (mapSession d' 7) = Some [1, 2, 3] \<and> 3 \<in> set (freed d')"
  using daemon_serves_new_host [of sample_system "\<lambda>d. int (length d)" "usb (sample_usb [])" 7 sample_daemon "[[1, 2], [3]]"]
  by (auto simp: sample_system_def sample_daemon_def sample_usb_def new_usb_session_def live_session_def
      daemon_block_def block_ok_def pieces.simps JumpAntiquePacket_def IsUsbPacketHeader_def hdc_consts)

text \<open>What happens to the module, in some order.\<close>

datatype usb_event =
    ReadDone read_result
  | TimerTick
  | BulkClosed
  | HandshakeOK u32
  | SessionFreed u32
  | SessionFree u32

fun happen :: "usb_system \<Rightarrow> usb_event \<Rightarrow> HdcDaemonUSB \<Rightarrow> HdcDaemonUSB" where
  "happen e (ReadDone r) d = OnUSBRead e r d"
| "happen e TimerTick d = WatchEPTimer e d"
| "happen e BulkClosed d = bulk_closed d"
| "happen e (HandshakeOK sid) d = OnNewHandshakeOK sid d"
| "happen e (SessionFreed sid) d = OnSessionFreeFinally sid d"
| "happen e (SessionFree sid) d = FreeSession sid d"

definition antique_read :: "usb_event \<Rightarrow> bool" where
  "antique_read ev \<longleftrightarrow> (case ev of ReadDone (Got x) \<Rightarrow> JumpAntiquePacket x | _ \<Rightarrow> False)"

definition reading :: "HdcDaemonUSB \<Rightarrow> bool" where
  "reading d \<longleftrightarrow> (isAlive d \<longrightarrow> queued d \<noteq> None)"

lemma queue_next_reading: "\<forall>n. 0 \<le> uv_fs_read e n \<Longrightarrow> fst (queue_next e c d) \<and> queued (snd (queue_next e c d)) \<noteq> None"
  by (simp add: queue_next_def LoopUSBRead_def Let_def not_less)

lemma read_done_reading:
  assumes "\<forall>n. 0 \<le> uv_fs_read e n" and "\<not> antique_read (ReadDone r)" and "read_done e r d = (True, d')"
  shows "queued d' \<noteq> None"
proof -
  have "\<exists>c d2. queue_next e c d2 = (True, d')"
    using assms(2,3) by (auto simp: read_done_def antique_read_def split: if_splits read_result.splits prod.splits)
  then show ?thesis using queue_next_reading [OF assms(1)] by (metis snd_conv)
qed

lemma happen_reading:
  assumes "\<forall>n. 0 \<le> uv_fs_read e n" and "\<not> antique_read ev" and "reading d"
  shows "reading (happen e ev d)"
proof (cases ev)
  case (ReadDone r)
  obtain ret d1 where "read_done e r (d\<lparr>queued := None\<rparr>) = (ret, d1)" by fastforce
  then show ?thesis using read_done_reading [OF assms(1), of r] assms(2) ReadDone
    by (cases ret) (auto simp: OnUSBRead_def reading_def)
next
  case TimerTick
  have "\<not> uv_fs_read e 512 < 0" using assms(1) by (simp add: not_less)
  then show ?thesis using TimerTick assms(3)
    by (auto simp: WatchEPTimer_def reading_def LoopUSBRead_def ConnectEPPoint_def CloseEndpoint_def CloseBulkEp_def
        Let_def not_less)
qed (use assms(3) in \<open>auto simp: reading_def bulk_closed_def OnNewHandshakeOK_def OnSessionFreeFinally_def
    FreeSession_def split: list.splits option.splits\<close>)

text \<open>
  C27. In a run in which no packet of the old protocol arrives and the loop accepts every read, a module
  that is alive at the end has a read queued, whatever the order in which reads complete, the
  watchdog runs, endpoints close and sessions are freed. Both conditions are needed: after such a
  packet the module never reads again (\<open>antique_packet_stops_reading\<close>), and the watchdog does not look
  at whether the read it asks for was accepted.
\<close>

theorem alive_module_reads:
  assumes "\<forall>n. 0 \<le> uv_fs_read e n" and "\<forall>ev \<in> set evs. \<not> antique_read ev" and "isAlive d \<longrightarrow> queued d \<noteq> None"
    and "isAlive (fold (happen e) evs d)"
  shows "queued (fold (happen e) evs d) \<noteq> None"
proof -
  have "reading d \<Longrightarrow> \<forall>ev \<in> set evs. \<not> antique_read ev \<Longrightarrow> reading (fold (happen e) evs d)" for d
    by (induction evs arbitrary: d) (simp_all add: happen_reading [OF assms(1)])
  then show ?thesis using assms(2-4) by (simp add: reading_def)
qed

definition sample_events :: "usb_event list" where
  "sample_events = [SessionFreed 3, ReadDone (Got [1]), TimerTick, BulkClosed, BulkClosed, TimerTick, ReadDone (Failed (- 4))]"

theorem alive_module_reads_witness:
  "queued (fold (happen sample_system) sample_events sample_daemon) \<noteq> None"
proof -
  have "\<forall>n. 0 \<le> uv_fs_read sample_system n" by (simp add: sample_system_def)
  moreover have "\<forall>ev \<in> set sample_events. \<not> antique_read ev"
    by (simp add: sample_events_def antique_read_def JumpAntiquePacket_def)
  moreover have "isAlive sample_daemon \<longrightarrow> queued sample_daemon \<noteq> None" by (simp add: sample_daemon_def)
  moreover have "isAlive (fold (happen sample_system) sample_events sample_daemon)"
    by code_simp
  ultimately show ?thesis by (rule alive_module_reads)
qed

text \<open>
  A packet of the old protocol stops the USB module for good: it is left alive with no read
  queued, the watchdog never acts again, and no byte the host sends afterwards is read.
\<close>

theorem antique_packet_stops_reading:
  assumes "isAlive d" and "JumpAntiquePacket x"
    and "d' = OnUSBRead e (Got x) d"
  shows "isAlive d' \<and> queued d' = None \<and> (WatchEPTimer e ^^ n) d' = d' \<and> usb_daemon_run e m dev d' = (dev, d')"
proof -
  have x: "x \<noteq> []" using assms(2) by (auto simp: JumpAntiquePacket_def)
  have d': "d' = d\<lparr>queued := None\<rparr>" using assms(1,2) x by (simp add: assms(3) OnUSBRead_def read_done_def)
  then have w: "WatchEPTimer e d' = d'" using assms(1) by (simp add: WatchEPTimer_def)
  have "(WatchEPTimer e ^^ n) d' = d'" by (induction n) (simp_all add: w)
  moreover have "usb_daemon_run e m dev d' = (dev, d')" using d' by (cases m) simp_all
  ultimately show ?thesis using d' assms(1) by simp
qed

theorem antique_packet_stops_reading_witness:
  "queued (OnUSBRead sample_system (Got (antiqueFlag @ replicate 20 0)) sample_daemon) = None"
  using antique_packet_stops_reading [of sample_daemon "antiqueFlag @ replicate 20 0" _ sample_system 0 0 "[]"]
  by (simp add: sample_daemon_def JumpAntiquePacket_def antiqueFlag_def)

text \<open>
  When opening an endpoint fails once, the module never tries again: the failure leaves a
  negative handle behind, which the watchdog takes for an endpoint that is still to be closed, so
  that nothing a later tick finds brings the module back.
\<close>

theorem failed_open_not_retried:
  assumes "\<not> isAlive d" and "\<not> atPollQueue d" and "bulkIn d = 0" and "bulkOut d = 0" and "controlEp d = 0"
    and "0 < open_ep0 e" and "0 \<le> write_descriptors e" and "0 \<le> write_strings e"
    and "open_ep1 e < 0 \<or> 0 < open_ep1 e \<and> open_ep2 e < 0"
  shows "\<not> isAlive (fold WatchEPTimer es (WatchEPTimer e d)) \<and> queued (fold WatchEPTimer es (WatchEPTimer e d)) = queued d"
proof -
  let ?d = "WatchEPTimer e d"
  have c: "\<not> isAlive ?d \<and> \<not> atPollQueue ?d \<and> bulkIn ?d \<le> 0 \<and> bulkOut ?d \<le> 0 \<and> controlEp ?d = 0
      \<and> (bulkIn ?d \<noteq> 0 \<or> bulkOut ?d \<noteq> 0) \<and> queued ?d = queued d"
    using assms by (auto simp: WatchEPTimer_def ConnectEPPoint_def CloseEndpoint_def Let_def)
  then have w: "WatchEPTimer e' ?d = ?d" for e' by (simp add: WatchEPTimer_def Let_def)
  have "fold WatchEPTimer es ?d = ?d" by (induction es) (simp_all add: w)
  then show ?thesis using c by simp
qed

theorem failed_open_not_retried_witness:
  "\<not> isAlive (fold WatchEPTimer (replicate 3 sample_system) (WatchEPTimer (sample_system\<lparr>open_ep1 := - 1\<rparr>)
     (sample_daemon\<lparr>isAlive := False, atPollQueue := False, queued := None, bulkIn := 0, bulkOut := 0, controlEp := 0\<rparr>)))"
  using failed_open_not_retried [of "sample_daemon\<lparr>isAlive := False, atPollQueue := False, queued := None, bulkIn := 0,
      bulkOut := 0, controlEp := 0\<rparr>" "sample_system\<lparr>open_ep1 := - 1\<rparr>" "replicate 3 sample_system"]
  by (simp add: sample_daemon_def sample_system_def)

text \<open>
  Packets without a header that come before any session exists each leave a session behind: the
  session is opened under a random number, which is not remembered, so that the next packet opens
  another.
\<close>

theorem stray_packets_leak_sessions:
  assumes "\<forall>n. 0 \<le> uv_fs_read e n" and "session_alloc e"
    and "\<forall>m. card (dom m) < 65536 \<longrightarrow> m (GetSessionPseudoUid e m) = None \<and> GetSessionPseudoUid e m \<noteq> 0"
    and "isAlive d" and "currentSessionId d = 0" and "mapSession d 0 = None"
    and "card (dom (mapSession d)) + length xs < 65536"
    and "\<forall>x \<in> set xs. x \<noteq> [] \<and> \<not> JumpAntiquePacket x \<and> \<not> IsUsbPacketHeader x"
  shows "card (dom (mapSession (fold (\<lambda>x. OnUSBRead e (Got x)) xs d))) = card (dom (mapSession d)) + length xs"
  using assms(4-8)
proof (induction xs arbitrary: d)
  case (Cons x xs)
  let ?u = "GetSessionPseudoUid e (mapSession d)"
  have u: "mapSession d ?u = None" "?u \<noteq> 0" using assms(3) Cons.prems(4) by auto
  have s: "SendToHdcStream (to_stream e) x (new_usb_session ?u) = (0, new_usb_session ?u)"
    using Cons.prems(5) by (simp add: SendToHdcStream_def new_usb_session_def PreSendUsbSoftReset_def)
  have "DispatchToWorkThread e 0 x (d\<lparr>queued := None\<rparr>)
      = (0, d\<lparr>queued := None, mapSession := (mapSession d)(?u \<mapsto> new_usb_session ?u), currentSessionId := 0\<rparr>)"
    using Cons.prems s assms(2) unfolding DispatchToWorkThread_def PrepareNewSession_def Let_def
    by simp (simp add: new_usb_session_def)
  then obtain d1 where d1: "OnUSBRead e (Got x) d = d1" "isAlive d1" "currentSessionId d1 = 0"
    "mapSession d1 = (mapSession d)(?u \<mapsto> new_usb_session ?u)"
    using Cons.prems assms(1)
    by (simp add: OnUSBRead_def read_done_def AvailablePacket_def queue_next_def LoopUSBRead_def Let_def not_less)
  have c: "card (dom (mapSession d1)) = Suc (card (dom (mapSession d)))"
    using u(1) d1(4) by (simp add: domIff)
  then have h: "card (dom (mapSession d1)) + length xs < 65536" using Cons.prems(4) by simp
  have z: "mapSession d1 0 = None" and r: "\<forall>x \<in> set xs. x \<noteq> [] \<and> \<not> JumpAntiquePacket x \<and> \<not> IsUsbPacketHeader x"
    using Cons.prems(3,5) d1(4) u(2) by simp_all
  have "card (dom (mapSession (fold (\<lambda>x. OnUSBRead e (Got x)) xs d1))) = card (dom (mapSession d1)) + length xs"
    by (rule Cons.IH [OF d1(2,3) z h r])
  then show ?case by (simp add: d1(1) c)
qed simp

definition first_free :: "(u32 \<Rightarrow> usb_base option) \<Rightarrow> u32" where
  "first_free m = (case find (\<lambda>u. m u = None) (map word_of_nat [1..<65537]) of None \<Rightarrow> 1 | Some u \<Rightarrow> u)"

lemma find_SomeD: "find P xs = Some x \<Longrightarrow> P x \<and> x \<in> set xs"
  by (induction xs) (auto split: if_splits)

lemma first_free_free:
  assumes "card (dom m) < 65536"
  shows "m (first_free m) = None \<and> first_free m \<noteq> 0"
proof -
  let ?us = "map word_of_nat [1..<65537] :: u32 list"
  have inj: "inj_on (word_of_nat :: nat \<Rightarrow> u32) {1..<65537}"
    by (rule inj_onI) (simp add: word_of_nat_eq_iff take_bit_nat_eq_self)
  show ?thesis
  proof (cases "find (\<lambda>u. m u = None) ?us")
    case None
    then have "set ?us \<subseteq> dom m" by (auto simp: find_None_iff)
    then have "card (set ?us) \<le> card (dom m)" by (simp add: card_mono)
    moreover have "card (set ?us) = 65536" using card_image [OF inj] by simp
    ultimately show ?thesis using assms by simp
  next
    case (Some u)
    then have "m u = None" "u \<in> set ?us" by (auto dest: find_SomeD simp del: set_map)
    moreover have "(word_of_nat n :: u32) \<noteq> 0" if "n \<in> {1..<65537}" for n
      using that by (auto simp: word_of_nat_eq_0_iff dest: dvd_imp_le)
    ultimately show ?thesis using Some by (auto simp: first_free_def)
  qed
qed

theorem stray_packets_leak_sessions_witness:
  "card (dom (mapSession (fold (\<lambda>x. OnUSBRead (sample_system\<lparr>GetSessionPseudoUid := first_free\<rparr>) (Got x)) [[1], [2, 3]]
     (sample_daemon\<lparr>mapSession := Map.empty, currentSessionId := 0\<rparr>)))) = 2"
  using stray_packets_leak_sessions [of "sample_system\<lparr>GetSessionPseudoUid := first_free\<rparr>"
      "sample_daemon\<lparr>mapSession := Map.empty, currentSessionId := 0\<rparr>" "[[1], [2, 3]]"]
  by (simp add: first_free_free sample_daemon_def sample_system_def JumpAntiquePacket_def IsUsbPacketHeader_def
      hdc_consts Let_def)

end
