(* ===== verification/Hdc_Forward.thy ===== *)
theory Hdc_Forward
  imports Hdc_Strings Hdc_Args Hdc_Map
begin

text \<open>
  Port forwarding, src/src/common/forward.cpp with the part of src/src/daemon/daemon_forward.cpp
  for debugger ports: the contexts of a forward (listening point, connections), how points are set
  up, and the commands both sides exchange. Operations on sockets are values of the environment;
  what a later event does is a definition of its own.
\<close>

section \<open>State\<close>

datatype FORWARD_TYPE =
    FORWARD_TCP
  | FORWARD_DEVICE
  | FORWARD_JDWP
  | FORWARD_ABSTRACT
  | FORWARD_RESERVED
  | FORWARD_FILESYSTEM

text \<open>
  A context. \<open>tcp_loop\<close> and \<open>pipe_loop\<close> tell whether the handle belongs to a loop, \<open>reading\<close> whether
  it is read; \<open>deleted\<close> stands for an object that is gone. \<open>inbuf\<close> are the bytes read from the point,
  \<open>outbuf\<close> those given to it. A device is read and written through \<open>fdClass\<close>, and \<open>refIO\<close> counts its
  operations that have not completed.
\<close>

record ContextForward =
  ftype :: FORWARD_TYPE
  masterSlave :: bool
  checkPoint :: bool
  ready :: bool
  finish :: bool
  fd :: int
  ctx_id :: u32
  fdClass :: bool
  lastError :: string
  localArgs :: "string \<times> string"
  remoteArgs :: "string \<times> string"
  remoteParamenters :: string
  tcp_loop :: bool
  pipe_loop :: bool
  reading :: bool
  deleted :: bool
  inbuf :: bytes
  outbuf :: bytes
  refIO :: nat

text \<open>
  The task. Contexts have addresses; \<open>closes\<close>, \<open>frees\<close>, \<open>connects\<close>, \<open>idles\<close> and \<open>dev_idles\<close> are the
  callbacks that are to come: of a handle that closes, of the next loop, of a connection, of the idle
  handle of a debugger port and of that which waits for a device. \<open>fsent\<close> are the packets to the other side that it has not handled yet.
\<close>

record HdcForward =
  mapCtxPoint :: "(u32, nat) std_map"
  ctxs :: "nat \<Rightarrow> ContextForward"
  next_ctx :: nat
  refCount :: nat
  taskCommand :: string
  serverOrDaemon :: bool
  closes :: "nat list"
  frees :: "nat list"
  connects :: "nat list"
  idles :: "nat list"
  dev_idles :: "nat list"
  fsent :: "(u16 \<times> bytes) list"
  commands :: "(u16 \<times> bytes) list"
  log :: "(MessageLevel \<times> string) list"
  finishes :: nat

text \<open>The answers of the session, the sockets, the debugger module and the files.\<close>

record forward_env =
  can_send :: bool
  accept_ok :: bool
  tcp_listen_ok :: bool
  pipe_bind_ok :: bool
  pipe_listen_ok :: bool
  abstract_ok :: bool
  device_fd :: int
  can_write :: bool
  is_daemon :: bool
  CheckPIDExist :: "u32 \<Rightarrow> bool"
  jdwp_tcp_ok :: bool
  jdwp_sent :: bool

definition upd_ctx :: "nat \<Rightarrow> (ContextForward \<Rightarrow> ContextForward) \<Rightarrow> HdcForward \<Rightarrow> HdcForward" where
  "upd_ctx a f st = st\<lparr>ctxs := (ctxs st)(a := f (ctxs st a))\<rparr>"

section \<open>Contexts\<close>

datatype context_op = C_ADD | C_REMOVE | C_UPDATE

definition AdminContext :: "context_op \<Rightarrow> u32 \<Rightarrow> nat \<Rightarrow> HdcForward \<Rightarrow> HdcForward" where
  "AdminContext opc cid a st = (case opc of
     C_ADD \<Rightarrow> st\<lparr>mapCtxPoint := mp_put cid a (mapCtxPoint st)\<rparr>
   | C_REMOVE \<Rightarrow> st\<lparr>mapCtxPoint := mp_erase cid (mapCtxPoint st)\<rparr>
   | C_UPDATE \<Rightarrow> st\<lparr>mapCtxPoint := mp_put (ctx_id (ctxs st a)) a (mp_erase cid (mapCtxPoint st))\<rparr>)"

definition query_ctx :: "u32 \<Rightarrow> HdcForward \<Rightarrow> nat option" where
  "query_ctx cid st = map_of (mapCtxPoint st) cid"

definition new_ContextForward :: "bool \<Rightarrow> u32 \<Rightarrow> ContextForward" where
  "new_ContextForward ms cid =
     \<lparr> ftype = FORWARD_TCP, masterSlave = ms, checkPoint = False, ready = False, finish = False, fd = 0,
       ctx_id = cid, fdClass = False, lastError = '''', localArgs = ('''', ''''), remoteArgs = ('''', ''''),
       remoteParamenters = '''', tcp_loop = False, pipe_loop = False, reading = False, deleted = False,
       inbuf = [], outbuf = [], refIO = 0 \<rparr>"

text \<open>\<open>now\<close> is \<open>GetRuntimeMSec\<close>, of which the identifier keeps 32 bits.\<close>

definition MallocContext :: "nat \<Rightarrow> bool \<Rightarrow> HdcForward \<Rightarrow> nat \<times> HdcForward" where
  "MallocContext now ms st =
     (let a = next_ctx st; cid = word_of_nat now;
          st1 = st\<lparr>ctxs := (ctxs st)(a := new_ContextForward ms cid), next_ctx := Suc a\<rparr>
      in (a, (AdminContext C_ADD cid a st1)\<lparr>refCount := Suc (refCount st)\<rparr>))"

definition SendToTask :: "forward_env \<Rightarrow> u32 \<Rightarrow> HdcCommand \<Rightarrow> bytes \<Rightarrow> HdcForward \<Rightarrow> bool \<times> HdcForward" where
  "SendToTask e cid command buf st =
     (if 2 * MAX_SIZE_IOBUF < length buf then (False, st)
      else if can_send e then (True, st\<lparr>fsent := fsent st @ [(cmd command, be_enc 4 (unat cid) @ buf)]\<rparr>)
      else (False, st))"

definition FreeContextCallBack :: "nat \<Rightarrow> HdcForward \<Rightarrow> HdcForward" where
  "FreeContextCallBack a st = st\<lparr>frees := frees st @ [a]\<rparr>"

text \<open>\<open>Base::TryCloseHandle\<close> with \<open>alwaysCallback\<close>.\<close>

definition close_handle :: "bool \<Rightarrow> nat \<Rightarrow> HdcForward \<Rightarrow> HdcForward" where
  "close_handle has_loop a st = (if has_loop then st\<lparr>closes := closes st @ [a]\<rparr> else FreeContextCallBack a st)"

text \<open>
  A device: an idle handle is started, and in every turn of the loop \<open>funcReqClose\<close> looks whether the
  operations of the descriptor have completed (\<open>ReadyForRelease\<close> of the descriptor); only then the
  descriptor object is deleted and the idle handle closed.
\<close>

definition FreeJDWP :: "nat \<Rightarrow> HdcForward \<Rightarrow> HdcForward" where
  "FreeJDWP a st = (if fdClass (ctxs st a) then st\<lparr>dev_idles := dev_idles st @ [a]\<rparr> else st)"

definition funcReqClose :: "HdcForward \<Rightarrow> HdcForward" where
  "funcReqClose st = (case dev_idles st of
     [] \<Rightarrow> st
   | a # as \<Rightarrow>
       if refIO (ctxs st a) = 0 then
         (upd_ctx a (\<lambda>c. c\<lparr>fdClass := False\<rparr>) st)\<lparr>dev_idles := as, closes := closes st @ [a]\<rparr>
       else st\<lparr>dev_idles := as @ [a]\<rparr>)"

text \<open>An operation of a descriptor has completed, and no read follows it.\<close>

definition io_completed :: "nat \<Rightarrow> HdcForward \<Rightarrow> HdcForward" where
  "io_completed a st = upd_ctx a (\<lambda>c. c\<lparr>refIO := refIO c - 1\<rparr>) st"

definition FreeContext :: "forward_env \<Rightarrow> nat \<Rightarrow> bool \<Rightarrow> HdcForward \<Rightarrow> HdcForward" where
  "FreeContext e a bNotifyRemote st =
     (let c = ctxs st a in
      if finish c then st
      else let st1 = (if bNotifyRemote then snd (SendToTask e (ctx_id c) CMD_FORWARD_FREE_CONTEXT [] st) else st);
               st2 = (case ftype c of
                   FORWARD_TCP \<Rightarrow> close_handle (tcp_loop c) a st1
                 | FORWARD_JDWP \<Rightarrow> close_handle (tcp_loop c) a st1
                 | FORWARD_DEVICE \<Rightarrow> FreeJDWP a st1
                 | _ \<Rightarrow> close_handle (pipe_loop c) a st1)
           in upd_ctx a (\<lambda>c. c\<lparr>finish := True\<rparr>) st2)"

text \<open>The callback of a handle that has closed, and the function run in the next loop.\<close>

definition handle_closed :: "HdcForward \<Rightarrow> HdcForward" where
  "handle_closed st = (case closes st of [] \<Rightarrow> st | a # as \<Rightarrow> FreeContextCallBack a (st\<lparr>closes := as\<rparr>))"

definition next_loop :: "HdcForward \<Rightarrow> HdcForward" where
  "next_loop st = (case frees st of
     [] \<Rightarrow> st
   | a # as \<Rightarrow>
       let st1 = AdminContext C_REMOVE (ctx_id (ctxs st a)) a (st\<lparr>frees := as\<rparr>)
       in (upd_ctx a (\<lambda>c. c\<lparr>deleted := True, reading := False\<rparr>) st1)\<lparr>refCount := refCount st - 1\<rparr>)"

definition StopTask :: "forward_env \<Rightarrow> HdcForward \<Rightarrow> HdcForward" where
  "StopTask e st = (fold (\<lambda>(cid, a). FreeContext e a False) (mapCtxPoint st) st)\<lparr>mapCtxPoint := []\<rparr>"

definition ReadyForRelease :: "HdcForward \<Rightarrow> bool" where
  "ReadyForRelease st \<longleftrightarrow> refCount st = 0"

definition TaskFinish :: "HdcForward \<Rightarrow> HdcForward" where
  "TaskFinish st = st\<lparr>finishes := Suc (finishes st)\<rparr>"

section \<open>Setting up points\<close>

definition CheckNodeInfo :: "string \<Rightarrow> (string \<times> string) option" where
  "CheckNodeInfo nodeInfo =
     (case str_find nodeInfo '':'' 0 of
        None \<Rightarrow> None
      | Some p \<Rightarrow>
          if BUF_SIZE_MEDIUM \<le> length nodeInfo then None
          else let a0 = take p nodeInfo; a1 = drop (Suc p) nodeInfo in
            if BUF_SIZE_SMALL < length a0 \<or> BUF_SIZE_SMALL < length a1 then None
            else if a0 = ''tcp'' \<and> (atoi a1 \<le> 0 \<or> int MAX_IP_PORT < atoi a1) then None
            else Some (a0, a1))"

definition FILESYSTEM_SOCKET_PREFIX :: string where "FILESYSTEM_SOCKET_PREFIX = ''/tmp/''"
definition HARMONY_RESERVED_SOCKET_PREFIX :: string where "HARMONY_RESERVED_SOCKET_PREFIX = ''/dev/socket/''"

definition DetechForwardType :: "ContextForward \<Rightarrow> ContextForward option" where
  "DetechForwardType c =
     (let (sFType, sNodeCfg) = localArgs c in
      if sFType = ''tcp'' then Some (c\<lparr>ftype := FORWARD_TCP\<rparr>)
      else if sFType = ''dev'' then Some (c\<lparr>ftype := FORWARD_DEVICE\<rparr>)
      else if sFType = ''localabstract'' then Some (c\<lparr>ftype := FORWARD_ABSTRACT\<rparr>)
      else if sFType = ''localreserved'' then
        Some (c\<lparr>localArgs := (sFType, HARMONY_RESERVED_SOCKET_PREFIX @ sNodeCfg), ftype := FORWARD_RESERVED\<rparr>)
      else if sFType = ''localfilesystem'' then
        Some (c\<lparr>localArgs := (sFType, FILESYSTEM_SOCKET_PREFIX @ sNodeCfg), ftype := FORWARD_FILESYSTEM\<rparr>)
      else if sFType = ''jdwp'' then Some (c\<lparr>ftype := FORWARD_JDWP\<rparr>)
      else None)"

definition DoForwardBegin :: "nat \<Rightarrow> HdcForward \<Rightarrow> HdcForward" where
  "DoForwardBegin a st = upd_ctx a (\<lambda>c. c\<lparr>reading := True, ready := True,
     refIO := (if ftype c = FORWARD_DEVICE then Suc (refIO c) else refIO c)\<rparr>) st"

definition SetupPointContinue :: "forward_env \<Rightarrow> nat \<Rightarrow> int \<Rightarrow> HdcForward \<Rightarrow> bool \<times> HdcForward" where
  "SetupPointContinue e a status st =
     (let c = ctxs st a in
      if checkPoint c then
        let st1 = snd (SendToTask e (ctx_id c) CMD_FORWARD_CHECK_RESULT [if 0 < status then 1 else 0] st)
        in (True, FreeContext e a False st1)
      else if status < 0 then (False, FreeContext e a True st)
      else let (ok, st1) = SendToTask e (ctx_id c) CMD_FORWARD_ACTIVE_MASTER [] st in
        if \<not> ok then (False, FreeContext e a True st1)
        else (True, DoForwardBegin a st1))"

definition SetupTCPPoint :: "forward_env \<Rightarrow> nat \<Rightarrow> HdcForward \<Rightarrow> bool \<times> HdcForward" where
  "SetupTCPPoint e a st0 =
     (let st = upd_ctx a (\<lambda>c. c\<lparr>tcp_loop := True\<rparr>) st0; c = ctxs st a in
      if masterSlave c then
        if tcp_listen_ok e then (True, st)
        else (False, upd_ctx a (\<lambda>c. c\<lparr>lastError := ''TCP Port listen failed at '' @ snd (localArgs c)\<rparr>) st)
      else (True, st\<lparr>connects := connects st @ [a]\<rparr>))"

text \<open>The result of opening the device is kept in eight bits.\<close>

definition SetupDevicePoint :: "forward_env \<Rightarrow> nat \<Rightarrow> HdcForward \<Rightarrow> bool \<times> HdcForward" where
  "SetupDevicePoint e a st =
     (let flag = (if device_fd e < 0 then (- 1 :: u8) else 1);
          st1 = upd_ctx a (\<lambda>c. c\<lparr>fd := device_fd e, fdClass := True,
            lastError := (if device_fd e < 0 then ''Open unix-dev failed'' else lastError c)\<rparr>) st
      in (True, snd (SetupPointContinue e a (uint flag) st1)))"

definition SetupFilePoint :: "forward_env \<Rightarrow> nat \<Rightarrow> HdcForward \<Rightarrow> bool \<times> HdcForward" where
  "SetupFilePoint e a st0 =
     (let st = upd_ctx a (\<lambda>c. c\<lparr>pipe_loop := True\<rparr>) st0; c = ctxs st a;
          fail = (\<lambda>t. upd_ctx a (\<lambda>c. c\<lparr>lastError := t\<rparr>)) in
      if masterSlave c then
        if \<not> pipe_bind_ok e then (False, fail ''Unix pipe bind failed'' st)
        else if \<not> pipe_listen_ok e then (False, fail ''Unix pipe listen failed'' st)
        else (True, st)
      else if ftype c = FORWARD_ABSTRACT then
        let st1 = snd (SetupPointContinue e a (if abstract_ok e then 0 else - 1) st) in
        if abstract_ok e then (True, st1) else (False, fail ''LocalAbstractConnect failed'' st1)
      else (True, st\<lparr>connects := connects st @ [a]\<rparr>))"

text \<open>
  \<open>None\<close> when \<open>std::stol\<close> throws: nothing catches it. The daemon has debugger ports, the host
  refuses them.
\<close>

definition SetupJdwpPoint :: "forward_env \<Rightarrow> nat \<Rightarrow> HdcForward \<Rightarrow> (bool \<times> HdcForward) option" where
  "SetupJdwpPoint e a st =
     (if \<not> is_daemon e then Some (False, st)
      else case stol (snd (localArgs (ctxs st a))) of
        None \<Rightarrow> None
      | Some v \<Rightarrow>
          if checkPoint (ctxs st a) then
            Some (True, snd (SetupPointContinue e a (if CheckPIDExist e (word_of_int v) then 1 else 0) st))
          else if \<not> jdwp_tcp_ok e then Some (False, upd_ctx a (\<lambda>c. c\<lparr>tcp_loop := True\<rparr>) st)
          else if \<not> jdwp_sent e then Some (False, upd_ctx a (\<lambda>c. c\<lparr>tcp_loop := True\<rparr>) st)
          else Some (True, (upd_ctx a (\<lambda>c. c\<lparr>tcp_loop := True\<rparr>) st)\<lparr>refCount := Suc (refCount st), idles := idles st @ [a]\<rparr>))"

definition SetupJdwpPointCallBack :: "forward_env \<Rightarrow> HdcForward \<Rightarrow> HdcForward" where
  "SetupJdwpPointCallBack e st = (case idles st of
     [] \<Rightarrow> st
   | a # as \<Rightarrow> let st1 = snd (SetupPointContinue e a 1 (st\<lparr>idles := as\<rparr>)) in st1\<lparr>refCount := refCount st1 - 1\<rparr>)"

definition SetupPoint :: "forward_env \<Rightarrow> nat \<Rightarrow> HdcForward \<Rightarrow> (bool \<times> HdcForward) option" where
  "SetupPoint e a st =
     (case DetechForwardType (ctxs st a) of
        None \<Rightarrow> Some (False, st)
      | Some c \<Rightarrow>
          let st1 = upd_ctx a (\<lambda>_. c) st in
          case ftype c of
            FORWARD_TCP \<Rightarrow> Some (SetupTCPPoint e a st1)
          | FORWARD_DEVICE \<Rightarrow> Some (SetupDevicePoint e a st1)
          | FORWARD_JDWP \<Rightarrow> SetupJdwpPoint e a st1
          | _ \<Rightarrow> Some (SetupFilePoint e a st1))"

section \<open>Beginning a forward\<close>

definition FORWARD_PARAMENTER_BUFSIZE :: nat where [hdc_consts]: "FORWARD_PARAMENTER_BUFSIZE = 8"

definition parameter_bytes :: "string \<Rightarrow> bytes" where
  "parameter_bytes t = replicate FORWARD_PARAMENTER_BUFSIZE 0 @ bytes_of t @ [0]"

text \<open>
  The result, the error and the state; \<open>None\<close> when the process ends or memory is left.
\<close>

definition BeginForward :: "forward_env \<Rightarrow> nat \<Rightarrow> string \<Rightarrow> HdcForward \<Rightarrow> (bool \<times> string \<times> HdcForward) option" where
  "BeginForward e now command st =
     (let (a, st1) = MallocContext now True st in
      case SplitCommandToArgs (takeWhile (\<lambda>c. c \<noteq> CHR 0x00) command) of
        None \<Rightarrow> None
      | Some None \<Rightarrow> Some (False, '''', st1)
      | Some (Some S) \<Rightarrow>
          let argv = arg_strings S in
          if length argv < 2 then Some (False, '''', st1)
          else if BUF_SIZE_SMALL < length (argv ! 0) \<or> BUF_SIZE_SMALL < length (argv ! 1) then Some (False, '''', st1)
          else case CheckNodeInfo (argv ! 0) of
              None \<Rightarrow> Some (False, '''', st1)
            | Some la \<Rightarrow>
              case CheckNodeInfo (argv ! 1) of
                None \<Rightarrow> Some (False, '''', upd_ctx a (\<lambda>c. c\<lparr>localArgs := la\<rparr>) st1)
              | Some ra \<Rightarrow>
                case SetupPoint e a (upd_ctx a (\<lambda>c. c\<lparr>localArgs := la, remoteArgs := ra,
                    remoteParamenters := argv ! 1\<rparr>) st1) of
                  None \<Rightarrow> None
                | Some (ret, st2) \<Rightarrow>
                    let sError = lastError (ctxs st2 a) in
                    if ret \<and> length (argv ! 1) < BUF_SIZE_SMALL - FORWARD_PARAMENTER_BUFSIZE then
                      Some (True, sError, (snd (SendToTask e (ctx_id (ctxs st2 a)) CMD_FORWARD_CHECK
                        (parameter_bytes (argv ! 1)) st2))\<lparr>taskCommand := command\<rparr>)
                    else Some (ret, sError, st2))"

text \<open>The content of a command behind the identifier and the parameters, up to its zero.\<close>

definition FilterCommand :: "bytes \<Rightarrow> (u32 \<times> bytes) option" where
  "FilterCommand bufCmd =
     (if length bufCmd < 4 then None else Some (word_of_nat (be_dec (take 4 bufCmd)), drop 4 bufCmd))"

definition slaveCheckWhenBegin :: bool where "slaveCheckWhenBegin = False"

definition SlaveConnect :: "forward_env \<Rightarrow> nat \<Rightarrow> bytes \<Rightarrow> bool \<Rightarrow> HdcForward \<Rightarrow> (bool \<times> string \<times> HdcForward) option" where
  "SlaveConnect e now bufCmd bCheckPoint st =
     (let (a, st1) = MallocContext now False st; idSlaveOld = ctx_id (ctxs st1 a) in
      case FilterCommand bufCmd of
        None \<Rightarrow> None
      | Some (cid, pContent) \<Rightarrow>
          let st2 = AdminContext C_UPDATE idSlaveOld a
                (upd_ctx a (\<lambda>c. c\<lparr>checkPoint := bCheckPoint, ctx_id := cid\<rparr>) st1);
              content = drop FORWARD_PARAMENTER_BUFSIZE pContent
          in if 0 \<notin> set content then None
             else case CheckNodeInfo (chars_of (takeWhile (\<lambda>b. b \<noteq> 0) content)) of
                 None \<Rightarrow> Some (False, '''', st2)
               | Some la \<Rightarrow>
                   let st3 = upd_ctx a (\<lambda>c. c\<lparr>localArgs := la\<rparr>) st2 in
                   if bCheckPoint \<and> slaveCheckWhenBegin \<or> \<not> bCheckPoint then
                     case SetupPoint e a st3 of
                       None \<Rightarrow> None
                     | Some (ret, st4) \<Rightarrow>
                         if \<not> ret then Some (False, '''', FreeContext e a True st4)
                         else Some (True, lastError (ctxs st4 a), st4)
                   else Some (True, '''', snd (SetupPointContinue e a 0 st3)))"

section \<open>Commands\<close>

definition SendForwardBuf :: "forward_env \<Rightarrow> nat \<Rightarrow> bytes \<Rightarrow> HdcForward \<Rightarrow> int \<times> HdcForward" where
  "SendForwardBuf e a data st =
     (if HDC_BUF_MAX_BYTES - 1 < length data then (-1, st)
      else if data = [] then (-1, st)
      else if \<not> can_write e then (-1, st)
      else (int (length data), upd_ctx a (\<lambda>c. c\<lparr>outbuf := outbuf c @ data,
        refIO := (if ftype c = FORWARD_DEVICE then Suc (refIO c) else refIO c)\<rparr>) st))"

text \<open>The payload is tested as a pointer.\<close>

definition CommandForwardCheckResult :: "forward_env \<Rightarrow> nat \<Rightarrow> bytes \<Rightarrow> HdcForward \<Rightarrow> bool \<times> HdcForward" where
  "CommandForwardCheckResult e a payload st =
     (let mapInfo = (if serverOrDaemon st then ''1|'' else ''0|'') @ taskCommand st
      in (True, (upd_ctx a (\<lambda>c. c\<lparr>ready := True\<rparr>) st)\<lparr>log := log st @ [(MSG_OK, ''Forwardport result:OK'')],
            commands := commands st @ [(cmd CMD_FORWARD_SUCCESS, bytes_of mapInfo @ [0])]\<rparr>))"

definition ForwardCommandDispatch :: "forward_env \<Rightarrow> u16 \<Rightarrow> bytes \<Rightarrow> HdcForward \<Rightarrow> (bool \<times> HdcForward) option" where
  "ForwardCommandDispatch e command payload st =
     (case FilterCommand payload of
        None \<Rightarrow> None
      | Some (cid, pContent) \<Rightarrow>
          case query_ctx cid st of
            None \<Rightarrow> Some (False, st)
          | Some a \<Rightarrow>
              let (ret, st1) =
                (if command = cmd CMD_FORWARD_CHECK_RESULT then CommandForwardCheckResult e a payload st
                 else if command = cmd CMD_FORWARD_ACTIVE_MASTER then (True, DoForwardBegin a st)
                 else if command = cmd CMD_FORWARD_DATA then
                   if finish (ctxs st a) then (True, st)
                   else let (n, st2) = SendForwardBuf e a pContent st in
                     (True, if n < 0 then FreeContext e a True st2 else st2)
                 else if command = cmd CMD_FORWARD_FREE_CONTEXT then (True, FreeContext e a False st)
                 else (False, st))
              in Some (ret, if ret then st1 else FreeContext e a True st1))"

definition fail_log :: "string \<Rightarrow> HdcForward \<Rightarrow> HdcForward" where
  "fail_log sError st =
     st\<lparr>log := log st @ [(MSG_FAIL, if sError = '''' then ''Forward parament failed'' else sError)]\<rparr>"

definition CommandDispatch :: "forward_env \<Rightarrow> nat \<Rightarrow> u16 \<Rightarrow> bytes \<Rightarrow> HdcForward \<Rightarrow> (bool \<times> HdcForward) option" where
  "CommandDispatch e now command payload st =
     (if command = cmd CMD_FORWARD_INIT \<or> command = cmd CMD_FORWARD_CHECK \<or> command = cmd CMD_FORWARD_ACTIVE_SLAVE then
        map_option (\<lambda>(ret, sError, st1). (ret, if ret then st1 else fail_log sError st1))
          (if command = cmd CMD_FORWARD_INIT then BeginForward e now (chars_of payload) st
           else SlaveConnect e now payload (command = cmd CMD_FORWARD_CHECK) st)
      else map_option (\<lambda>(ret, st1). (ret, if ret then st1 else fail_log '''' st1))
             (ForwardCommandDispatch e command payload st))"

text \<open>How the session hands a command to the task (\<open>TaskCommandDispatch\<close> of session.h).\<close>

definition task_command :: "forward_env \<Rightarrow> nat \<Rightarrow> u16 \<Rightarrow> bytes \<Rightarrow> HdcForward \<Rightarrow> HdcForward option" where
  "task_command e now command payload st =
     map_option (\<lambda>(ret, st1). if ret then st1 else TaskFinish st1) (CommandDispatch e now command payload st)"

section \<open>Callbacks of the points\<close>

definition OnAccept :: "forward_env \<Rightarrow> nat \<Rightarrow> nat \<Rightarrow> HdcForward \<Rightarrow> HdcForward" where
  "OnAccept e listen client st =
     (if \<not> accept_ok e then FreeContext e client False st
      else let st1 = upd_ctx client (\<lambda>c. c\<lparr>ftype := ftype (ctxs st listen),
                 remoteParamenters := remoteParamenters (ctxs st listen)\<rparr>) st;
               params = remoteParamenters (ctxs st listen)
        in if BUF_SIZE_DEFAULT - FORWARD_PARAMENTER_BUFSIZE \<le> length params then FreeContext e client False st1
           else snd (SendToTask e (ctx_id (ctxs st client)) CMD_FORWARD_ACTIVE_SLAVE (parameter_bytes params) st1))"

definition ListenCallback :: "forward_env \<Rightarrow> nat \<Rightarrow> nat \<Rightarrow> int \<Rightarrow> HdcForward \<Rightarrow> HdcForward" where
  "ListenCallback e now listen status st =
     (let c = ctxs st listen in
      if status = -1 \<or> \<not> ready c then TaskFinish (FreeContext e listen False st)
      else let (client, st1) = MallocContext now True st;
               st2 = upd_ctx client (\<lambda>x. if ftype c = FORWARD_TCP then x\<lparr>tcp_loop := True\<rparr> else x\<lparr>pipe_loop := True\<rparr>) st1
        in OnAccept e listen client st2)"

text \<open>An error or bytes read; the callback of the file descriptor does the same.\<close>

definition ReadForwardBuf :: "forward_env \<Rightarrow> nat \<Rightarrow> bytes option \<Rightarrow> HdcForward \<Rightarrow> HdcForward" where
  "ReadForwardBuf e a nread st = (case nread of
     None \<Rightarrow> FreeContext e a True st
   | Some d \<Rightarrow> snd (SendToTask e (ctx_id (ctxs st a)) CMD_FORWARD_DATA d (upd_ctx a (\<lambda>c. c\<lparr>inbuf := inbuf c @ d\<rparr>) st)))"

definition ConnectTarget :: "forward_env \<Rightarrow> int \<Rightarrow> HdcForward \<Rightarrow> HdcForward" where
  "ConnectTarget e status st = (case connects st of
     [] \<Rightarrow> st
   | a # as \<Rightarrow> snd (SetupPointContinue e a status (st\<lparr>connects := as\<rparr>)))"

definition SendCallbackForwardBuf :: "forward_env \<Rightarrow> nat \<Rightarrow> int \<Rightarrow> HdcForward \<Rightarrow> HdcForward" where
  "SendCallbackForwardBuf e a status st =
     (if status < 0 \<and> \<not> finish (ctxs st a) then FreeContext e a True st else st)"

end
