(* ===== verification/Hdc_ForwardLink.thy ===== *)
theory Hdc_ForwardLink
  imports Hdc_Forward "HOL-Library.Sublist"
begin

text \<open>
  The two sides of a forward (src/src/common/forward.cpp): the one that was told to forward and
  accepts connections, and the one that connects to the target. Whatever the order in which commands
  arrive, sockets answer and callbacks run, what comes out of a connection on one side is what went
  in on the other.
\<close>

section \<open>Messages\<close>

definition msg_id :: "u16 \<times> bytes \<Rightarrow> u32" where
  "msg_id m = word_of_nat (be_dec (take 4 (snd m)))"

definition opening_msg :: "u16 \<times> bytes \<Rightarrow> bool" where
  "opening_msg m \<longleftrightarrow> fst m = cmd CMD_FORWARD_CHECK \<or> fst m = cmd CMD_FORWARD_ACTIVE_SLAVE"

definition small_msg :: "u16 \<times> bytes \<Rightarrow> bool" where
  "small_msg m \<longleftrightarrow> fst m = cmd CMD_FORWARD_CHECK_RESULT \<or> fst m = cmd CMD_FORWARD_ACTIVE_MASTER
     \<or> fst m = cmd CMD_FORWARD_FREE_CONTEXT"

definition data_of :: "u32 \<Rightarrow> (u16 \<times> bytes) list \<Rightarrow> bytes" where
  "data_of i q = concat (map (\<lambda>m. drop 4 (snd m)) (filter (\<lambda>m. fst m = cmd CMD_FORWARD_DATA \<and> msg_id m = i) q))"

lemma data_of_simps [simp]:
  "data_of i [] = []"
  "data_of i (m # q) = (if fst m = cmd CMD_FORWARD_DATA \<and> msg_id m = i then drop 4 (snd m) else []) @ data_of i q"
  "data_of i (q @ r) = data_of i q @ data_of i r"
  by (simp_all add: data_of_def)

lemma small_not: "small_msg m \<Longrightarrow> \<not> opening_msg m" "small_msg m \<Longrightarrow> fst m \<noteq> cmd CMD_FORWARD_DATA"
  by (auto simp: small_msg_def opening_msg_def)

lemma opening_not: "opening_msg m \<Longrightarrow> fst m \<noteq> cmd CMD_FORWARD_DATA"
  by (auto simp: opening_msg_def)

lemma data_of_small: "\<forall>m \<in> set q. fst m \<noteq> cmd CMD_FORWARD_DATA \<Longrightarrow> data_of i q = []"
  by (induction q) simp_all

lemma data_of_absent: "\<forall>m \<in> set q. msg_id m \<noteq> i \<Longrightarrow> data_of i q = []"
  by (induction q) simp_all

lemma msg_id_put [simp]: "msg_id (c, be_enc 4 (unat i) @ b) = i" "msg_id (c, be_enc 4 (unat (i :: u32))) = i"
  by (simp_all add: msg_id_def wire_simps)

section \<open>Operations that only touch one context\<close>

definition awaiting :: "HdcForward \<Rightarrow> nat set" where
  "awaiting st = set (closes st) \<union> set (frees st) \<union> set (dev_idles st)"

definition says :: "u32 \<Rightarrow> HdcForward \<Rightarrow> HdcForward \<Rightarrow> bool" where
  "says i st st' \<longleftrightarrow> (\<exists>ms. fsent st' = fsent st @ ms \<and> (\<forall>m \<in> set ms. small_msg m \<and> msg_id m = i))"

definition same_ctx :: "ContextForward \<Rightarrow> ContextForward \<Rightarrow> bool" where
  "same_ctx c c' \<longleftrightarrow> ctx_id c' = ctx_id c \<and> inbuf c' = inbuf c \<and> outbuf c' = outbuf c \<and> checkPoint c' = checkPoint c
     \<and> masterSlave c' = masterSlave c \<and> (finish c \<longrightarrow> finish c')"

definition touches :: "bool \<Rightarrow> nat \<Rightarrow> HdcForward \<Rightarrow> HdcForward \<Rightarrow> bool" where
  "touches rd a st st' \<longleftrightarrow>
     mapCtxPoint st' = mapCtxPoint st \<and> next_ctx st' = next_ctx st \<and> (\<forall>x. x \<noteq> a \<longrightarrow> ctxs st' x = ctxs st x)
     \<and> same_ctx (ctxs st a) (ctxs st' a) \<and> (reading (ctxs st' a) \<longrightarrow> rd \<or> reading (ctxs st a))
     \<and> says (ctx_id (ctxs st a)) st st' \<and> (\<forall>x \<in> awaiting st'. x \<in> awaiting st \<or> x = a \<and> finish (ctxs st' a))
     \<and> (\<forall>x \<in> set (idles st'). x \<in> set (idles st) \<or> rd \<and> x = a) \<and> set (connects st') \<subseteq> insert a (set (connects st))
     \<and> (masterSlave (ctxs st a) \<longrightarrow> connects st' = connects st)"

lemma says_refl [simp]: "says i st st"
  by (simp add: says_def)

lemma says_trans: "says i st st' \<Longrightarrow> says i st' st'' \<Longrightarrow> says i st st''"
  unfolding says_def by (elim exE, rule_tac x = "ms @ msa" in exI) auto

lemma touches_refl [simp]: "touches rd a st st"
  by (auto simp: touches_def same_ctx_def)

lemma touchesD:
  assumes "touches rd a st st'"
  shows "mapCtxPoint st' = mapCtxPoint st" "next_ctx st' = next_ctx st" "x \<noteq> a \<Longrightarrow> ctxs st' x = ctxs st x"
    "same_ctx (ctxs st a) (ctxs st' a)" "reading (ctxs st' a) \<Longrightarrow> rd \<or> reading (ctxs st a)"
    "says (ctx_id (ctxs st a)) st st'" "x \<in> awaiting st' \<Longrightarrow> x \<in> awaiting st \<or> x = a \<and> finish (ctxs st' a)"
    "x \<in> set (idles st') \<Longrightarrow> x \<in> set (idles st) \<or> rd \<and> x = a" "set (connects st') \<subseteq> insert a (set (connects st))"
    "masterSlave (ctxs st a) \<Longrightarrow> connects st' = connects st"
  using assms by (simp_all add: touches_def)

lemma touches_trans:
  assumes "touches rd a st st'" and "touches rd a st' st''"
  shows "touches rd a st st''"
  unfolding touches_def
proof (intro conjI)
  note t = touchesD [OF assms(1)] and u = touchesD [OF assms(2)]
  note c = t(4) [unfolded same_ctx_def] u(4) [unfolded same_ctx_def]
  show "same_ctx (ctxs st a) (ctxs st'' a)" using c by (simp add: same_ctx_def)
  show "\<forall>x \<in> awaiting st''. x \<in> awaiting st \<or> x = a \<and> finish (ctxs st'' a)" using t(7) u(7) c by blast
  show "says (ctx_id (ctxs st a)) st st''" using t(6) u(6) c by (auto intro: says_trans)
  show "reading (ctxs st'' a) \<longrightarrow> rd \<or> reading (ctxs st a)" using t(5) u(5) by blast
  show "set (connects st'') \<subseteq> insert a (set (connects st))" using t(9) u(9) by blast
  show "\<forall>x \<in> set (idles st''). x \<in> set (idles st) \<or> rd \<and> x = a" using t(8) u(8) by blast
  show "masterSlave (ctxs st a) \<longrightarrow> connects st'' = connects st" using t(10) u(10) c by simp
  show "mapCtxPoint st'' = mapCtxPoint st" "next_ctx st'' = next_ctx st" using t(1,2) u(1,2) by simp_all
  show "\<forall>x. x \<noteq> a \<longrightarrow> ctxs st'' x = ctxs st x" using t(3) u(3) by simp
qed

lemma touches_mono: "touches rd a st st' \<Longrightarrow> (rd \<Longrightarrow> rd') \<Longrightarrow> touches rd' a st st'"
  by (cases rd; cases rd') (auto simp: touches_def)

lemma touches_upd:
  "(\<And>c. ctx_id (f c) = ctx_id c \<and> inbuf (f c) = inbuf c \<and> outbuf (f c) = outbuf c \<and> checkPoint (f c) = checkPoint c
      \<and> finish (f c) = finish c \<and> masterSlave (f c) = masterSlave c \<and> (reading (f c) \<longrightarrow> rd \<or> reading c)) \<Longrightarrow>
     touches rd a st (upd_ctx a f st)"
  by (auto simp: touches_def same_ctx_def upd_ctx_def says_def awaiting_def)

lemma touches_send:
  assumes "\<And>b. small_msg (cmd c, b)"
  shows "touches rd a st (snd (SendToTask e (ctx_id (ctxs st a)) c b st))"
  using assms by (auto simp: touches_def same_ctx_def says_def awaiting_def SendToTask_def)

lemma small_cmds [simp]:
  "small_msg (cmd CMD_FORWARD_CHECK_RESULT, b)" "small_msg (cmd CMD_FORWARD_ACTIVE_MASTER, b)"
  "small_msg (cmd CMD_FORWARD_FREE_CONTEXT, b)"
  by (simp_all add: small_msg_def)

lemma SendToTask_ctxs [simp]: "ctxs (snd (SendToTask e i c b st)) = ctxs st"
  by (simp add: SendToTask_def)

lemma FreeContext_touches: "touches False a st (FreeContext e a notify st)"
proof (cases "finish (ctxs st a)")
  case False
  let ?st1 = "if notify then snd (SendToTask e (ctx_id (ctxs st a)) CMD_FORWARD_FREE_CONTEXT [] st) else st"
  have t: "touches False a st ?st1" using touches_send [OF small_cmds(3)] by simp
  have c: "ctxs ?st1 = ctxs st" by simp
  have "touches False a ?st1 (FreeContext e a notify st)"
    using False c
    by (auto simp: FreeContext_def Let_def touches_def same_ctx_def says_def awaiting_def upd_ctx_def close_handle_def FreeContextCallBack_def FreeJDWP_def
        split: FORWARD_TYPE.split)
  with t show ?thesis by (rule touches_trans)
qed (simp add: FreeContext_def)

lemma FreeContext_finish: "finish (ctxs (FreeContext e a notify st) a)"
  by (simp add: FreeContext_def Let_def upd_ctx_def)

lemma DoForwardBegin_touches: "touches True a st (DoForwardBegin a st)"
  unfolding DoForwardBegin_def by (rule touches_upd) simp

lemma SetupPointContinue_touches: "touches True a st (snd (SetupPointContinue e a status st))"
proof -
  have f: "touches True a st' (FreeContext e a n st')" for n st'
    by (rule touches_mono [OF FreeContext_touches]) simp
  have s: "touches True a st (snd (SendToTask e (ctx_id (ctxs st a)) c b st))" if "\<And>b. small_msg (cmd c, b)" for c b
    by (rule touches_send) (rule that)
  show ?thesis
    using touches_trans [OF s [OF small_cmds(1)] f] touches_trans [OF s [OF small_cmds(2)] f]
      touches_trans [OF s [OF small_cmds(2)] DoForwardBegin_touches] f
    unfolding SetupPointContinue_def Let_def
    by (auto split: prod.split) (metis snd_conv)+
qed

lemma touches_more: "touches rd a st st' \<Longrightarrow> touches True a st st'"
  by (rule touches_mono) simp_all

lemma touches_put:
  "same_ctx (ctxs st a) c \<Longrightarrow> (reading c \<Longrightarrow> reading (ctxs st a)) \<Longrightarrow> touches rd a st (upd_ctx a (\<lambda>_. c) st)"
  by (auto simp: touches_def upd_ctx_def awaiting_def says_def)

lemma touches_fields [simp]:
  "touches rd a st (upd_ctx a (\<lambda>c. c\<lparr>lastError := t c\<rparr>) st)" "touches rd a st (upd_ctx a (\<lambda>c. c\<lparr>tcp_loop := b\<rparr>) st)"
  "touches rd a st (upd_ctx a (\<lambda>c. c\<lparr>pipe_loop := b\<rparr>) st)" "touches rd a st (upd_ctx a (\<lambda>c. c\<lparr>ready := b\<rparr>) st)"
  "touches rd a st (upd_ctx a (\<lambda>c. c\<lparr>localArgs := l\<rparr>) st)"
  "touches rd a st (upd_ctx a (\<lambda>c. c\<lparr>fd := i, fdClass := b, lastError := t c\<rparr>) st)"
  "touches rd a st (upd_ctx a (\<lambda>c. c\<lparr>localArgs := l, remoteArgs := r, remoteParamenters := t c\<rparr>) st)"
  by (simp_all add: touches_upd)

lemma touches_env [simp]:
  "touches True a st (st\<lparr>refCount := n, idles := idles st @ [a]\<rparr>)" "touches rd a st (st\<lparr>log := l\<rparr>)"
  "touches rd a st (st\<lparr>commands := cs\<rparr>)" "touches rd a st (st\<lparr>taskCommand := t\<rparr>)"
  "touches rd a st (st\<lparr>finishes := n\<rparr>)" "touches rd a st (st\<lparr>refCount := n\<rparr>)"
  by (auto simp: touches_def same_ctx_def awaiting_def says_def)

lemma upd_ctx_same [simp]: "ctxs (upd_ctx a f st) a = f (ctxs st a)"
  by (simp add: upd_ctx_def)

lemma connect_touches: "\<not> masterSlave (ctxs st a) \<Longrightarrow> touches rd a st (st\<lparr>connects := connects st @ [a]\<rparr>)"
  by (auto simp: touches_def same_ctx_def awaiting_def says_def)

lemma SetupTCPPoint_touches: "touches True a st (snd (SetupTCPPoint e a st))"
  using touches_trans [OF touches_fields(2) touches_fields(1)] touches_trans [OF touches_fields(2) connect_touches]
  by (auto simp: SetupTCPPoint_def Let_def)

lemma SetupDevicePoint_touches: "touches True a st (snd (SetupDevicePoint e a st))"
  using touches_trans [OF touches_fields(6) SetupPointContinue_touches]
  by (simp add: SetupDevicePoint_def Let_def)

lemma SetupFilePoint_touches: "touches True a st (snd (SetupFilePoint e a st))"
  using touches_trans [OF touches_fields(3) touches_fields(1)] touches_trans [OF touches_fields(3) connect_touches]
    touches_trans [OF touches_fields(3) SetupPointContinue_touches]
    touches_trans [OF touches_fields(3) touches_trans [OF SetupPointContinue_touches touches_fields(1)]]
  by (auto simp: SetupFilePoint_def Let_def)

lemma idles_upd_ctx [simp]: "idles (upd_ctx a f st) = idles st"
  by (simp add: upd_ctx_def)

lemma SetupJdwpPoint_touches: "SetupJdwpPoint e a st = Some (r, st') \<Longrightarrow> touches True a st st'"
  using touches_trans [OF touches_fields(2) touches_env(1), of a st True "Suc (refCount st)"] SetupPointContinue_touches [of a st]
  by (auto simp: SetupJdwpPoint_def split: if_splits option.splits)

lemma SetupPoint_touches: "SetupPoint e a st = Some (r, st') \<Longrightarrow> touches True a st st'"
proof (cases "DetechForwardType (ctxs st a)")
  case (Some c)
  assume s: "SetupPoint e a st = Some (r, st')"
  have "same_ctx (ctxs st a) c" "reading c = reading (ctxs st a)"
    using Some by (auto simp: DetechForwardType_def same_ctx_def Let_def split: prod.splits if_splits)
  then have p: "touches True a st (upd_ctx a (\<lambda>_. c) st)" by (intro touches_put) simp_all
  let ?st = "upd_ctx a (\<lambda>_. c) st"
  have "touches True a ?st st'"
    using s Some SetupTCPPoint_touches [of a ?st] SetupDevicePoint_touches [of a ?st] SetupFilePoint_touches [of a ?st]
      SetupJdwpPoint_touches [of _ a ?st r st']
    by (cases "ftype c") (auto simp: SetupPoint_def Let_def, (metis snd_conv)+)
  with p show ?thesis by (rule touches_trans)
qed (simp add: SetupPoint_def)

section \<open>One side\<close>

text \<open>
  The map files every context that is not finished, under its identifier; no two contexts ever had
  the same; and only finished ones wait to be deleted.
\<close>

definition side_ok :: "HdcForward \<Rightarrow> bool" where
  "side_ok st \<longleftrightarrow> mp_wf (mapCtxPoint st)
     \<and> (\<forall>i a. query_ctx i st = Some a \<longrightarrow> a < next_ctx st \<and> ctx_id (ctxs st a) = i)
     \<and> (\<forall>a < next_ctx st. finish (ctxs st a) \<or> query_ctx (ctx_id (ctxs st a)) st = Some a)
     \<and> (\<forall>a < next_ctx st. \<forall>b < next_ctx st. ctx_id (ctxs st a) = ctx_id (ctxs st b) \<longrightarrow> a = b)
     \<and> (\<forall>a \<in> awaiting st. a < next_ctx st \<and> finish (ctxs st a))
     \<and> (\<forall>a \<in> set (connects st) \<union> set (idles st). a < next_ctx st)"

lemma side_okD:
  assumes "side_ok st"
  shows "mp_wf (mapCtxPoint st)" "query_ctx i st = Some a \<Longrightarrow> a < next_ctx st"
    "query_ctx i st = Some a \<Longrightarrow> ctx_id (ctxs st a) = i"
    "a < next_ctx st \<Longrightarrow> \<not> finish (ctxs st a) \<Longrightarrow> query_ctx (ctx_id (ctxs st a)) st = Some a"
    "a < next_ctx st \<Longrightarrow> b < next_ctx st \<Longrightarrow> ctx_id (ctxs st a) = ctx_id (ctxs st b) \<Longrightarrow> a = b"
    "a \<in> awaiting st \<Longrightarrow> a < next_ctx st" "a \<in> awaiting st \<Longrightarrow> finish (ctxs st a)"
    "a \<in> set (connects st) \<Longrightarrow> a < next_ctx st" "a \<in> set (idles st) \<Longrightarrow> a < next_ctx st"
  using assms unfolding side_ok_def by blast+

lemma query_touches: "touches rd a st st' \<Longrightarrow> query_ctx i st' = query_ctx i st"
  using touchesD(1) [of rd a st st'] by (simp add: query_ctx_def)

lemma ctx_touches:
  assumes "touches rd a st st'"
  shows "ctx_id (ctxs st' x) = ctx_id (ctxs st x)" "inbuf (ctxs st' x) = inbuf (ctxs st x)"
    "outbuf (ctxs st' x) = outbuf (ctxs st x)" "checkPoint (ctxs st' x) = checkPoint (ctxs st x)"
    "masterSlave (ctxs st' x) = masterSlave (ctxs st x)" "finish (ctxs st x) \<Longrightarrow> finish (ctxs st' x)"
  using touchesD(3) [OF assms, of x] touchesD(4) [OF assms] by (cases "x = a"; simp add: same_ctx_def)+

lemma side_ok_touches:
  assumes "side_ok st" and "touches rd a st st'" and "a < next_ctx st"
  shows "side_ok st'"
proof -
  note o = side_okD [OF assms(1)] and t = touchesD [OF assms(2)] and c = ctx_touches [OF assms(2)]
  show ?thesis
    unfolding side_ok_def query_touches [OF assms(2)] t(2)
  proof (intro conjI)
    show "mp_wf (mapCtxPoint st')" using o(1) t(1) by simp
    show "\<forall>i x. query_ctx i st = Some x \<longrightarrow> x < next_ctx st \<and> ctx_id (ctxs st' x) = i" using o(2,3) c(1) by simp
    show "\<forall>x < next_ctx st. finish (ctxs st' x) \<or> query_ctx (ctx_id (ctxs st' x)) st = Some x"
      using o(4) c(1,6) by (metis (no_types))
    show "\<forall>x < next_ctx st. \<forall>y < next_ctx st. ctx_id (ctxs st' x) = ctx_id (ctxs st' y) \<longrightarrow> x = y"
      using o(5) c(1) by simp
    show "\<forall>x \<in> awaiting st'. x < next_ctx st \<and> finish (ctxs st' x)" using o(6,7) t(7) c(6) assms(3) by blast
    show "\<forall>x \<in> set (connects st') \<union> set (idles st'). x < next_ctx st" using o(8,9) t(8,9) assms(3) by blast
  qed
qed

text \<open>A new context, with an identifier that is not in use.\<close>

lemma Malloc_ctx:
  assumes "MallocContext now ms st = (a, st')"
  shows "a = next_ctx st" "next_ctx st' = Suc a" "ctxs st' = (ctxs st)(a := new_ContextForward ms (word_of_nat now))"
    "mp_wf (mapCtxPoint st) \<Longrightarrow> query_ctx i st' = (if i = word_of_nat now then Some a else query_ctx i st)"
    "fsent st' = fsent st" "awaiting st' = awaiting st" "connects st' = connects st" "idles st' = idles st"
    "mp_wf (mapCtxPoint st) \<Longrightarrow> mp_wf (mapCtxPoint st')"
  using assms by (auto simp: MallocContext_def AdminContext_def query_ctx_def Let_def map_of_mp_put mp_wf_put awaiting_def)

lemma side_ok_Malloc:
  assumes "side_ok st" and "MallocContext now ms st = (a, st')" and "\<forall>x < next_ctx st. ctx_id (ctxs st x) \<noteq> word_of_nat now"
  shows "side_ok st'"
proof -
  note o = side_okD [OF assms(1)] and m = Malloc_ctx [OF assms(2)]
  have n: "ctx_id (ctxs st' a) = word_of_nat now" "x \<noteq> a \<Longrightarrow> ctxs st' x = ctxs st x" for x
    using m(3) by (simp_all add: new_ContextForward_def)
  show ?thesis unfolding side_ok_def m(4) [OF o(1)] m(2,6-8)
  proof (intro conjI)
    show "mp_wf (mapCtxPoint st')" using m(9) [OF o(1)] .
    show "\<forall>i x. (if i = word_of_nat now then Some a else query_ctx i st) = Some x \<longrightarrow> x < Suc a \<and> ctx_id (ctxs st' x) = i"
      using o(2,3) n m(1) by (auto split: if_splits) (metis less_irrefl less_Suc_eq)+
    show "\<forall>x < Suc a. finish (ctxs st' x) \<or>
        (if ctx_id (ctxs st' x) = word_of_nat now then Some a else query_ctx (ctx_id (ctxs st' x)) st) = Some x"
      using o(4) n m(1) assms(3) by (auto simp: less_Suc_eq)
    show "\<forall>x < Suc a. \<forall>y < Suc a. ctx_id (ctxs st' x) = ctx_id (ctxs st' y) \<longrightarrow> x = y"
      using o(5) n m(1) assms(3) by (auto simp: less_Suc_eq)
    show "\<forall>x \<in> awaiting st. x < Suc a \<and> finish (ctxs st' x)" using o(6,7) n m(1) by (metis less_SucI less_irrefl)
    show "\<forall>x \<in> set (connects st) \<union> set (idles st). x < Suc a" using o(8,9) m(1) by (auto intro: less_SucI)
  qed
qed

section \<open>Commands\<close>

lemma dispatch_other:
  assumes "ForwardCommandDispatch e c payload st = Some (r, st')" and "c \<noteq> cmd CMD_FORWARD_DATA"
    and "FilterCommand payload = Some (i, d)"
  shows "case query_ctx i st of None \<Rightarrow> st' = st | Some a \<Rightarrow> touches True a st st'"
proof (cases "query_ctx i st")
  case (Some a)
  have f: "touches True a st (FreeContext e a b st)" for b by (rule touches_more [OF FreeContext_touches])
  have c: "touches True a st (snd (CommandForwardCheckResult e a payload st))"
    using touches_trans [OF touches_trans [OF touches_fields(4) touches_env(2)] touches_env(3)]
    by (simp add: CommandForwardCheckResult_def Let_def)
  have r: "fst (CommandForwardCheckResult e a payload st)" by (simp add: CommandForwardCheckResult_def Let_def)
  show ?thesis using assms Some f c r DoForwardBegin_touches [of a st]
    by (auto simp: ForwardCommandDispatch_def Let_def split: if_splits prod.splits)
qed (use assms in \<open>simp add: ForwardCommandDispatch_def\<close>)

lemma dispatch_data:
  assumes "ForwardCommandDispatch e (cmd CMD_FORWARD_DATA) payload st = Some (r, st')"
    and "FilterCommand payload = Some (i, d)"
  shows "st' = st \<and> (\<forall>a. query_ctx i st = Some a \<longrightarrow> finish (ctxs st a))
    \<or> (\<exists>a. query_ctx i st = Some a \<and> \<not> finish (ctxs st a)
        \<and> (touches False a st st' \<and> finish (ctxs st' a) \<or> st' = upd_ctx a (\<lambda>c. c\<lparr>outbuf := outbuf c @ d,
            refIO := (if ftype c = FORWARD_DEVICE then Suc (refIO c) else refIO c)\<rparr>) st))"
proof (cases "query_ctx i st")
  case (Some a)
  show ?thesis using assms Some FreeContext_touches [of a st e True] FreeContext_finish [of e a True st]
    by (auto simp: ForwardCommandDispatch_def SendForwardBuf_def Let_def split: if_splits)
qed (use assms in \<open>simp add: ForwardCommandDispatch_def\<close>)

text \<open>What the task does around its commands.\<close>

definition quiet :: "HdcForward \<Rightarrow> HdcForward \<Rightarrow> bool" where
  "quiet st st' \<longleftrightarrow> mapCtxPoint st' = mapCtxPoint st \<and> next_ctx st' = next_ctx st \<and> ctxs st' = ctxs st
     \<and> fsent st' = fsent st \<and> closes st' = closes st \<and> frees st' = frees st \<and> dev_idles st' = dev_idles st \<and> connects st' = connects st
     \<and> idles st' = idles st"

lemma quiet_refl [simp]: "quiet st st"
  by (simp add: quiet_def)

lemma quiet_log [simp]: "quiet (fail_log t st) st' = quiet st st'" "quiet st (fail_log t st') = quiet st st'"
  "quiet st (TaskFinish st') = quiet st st'"
  by (simp_all add: quiet_def fail_log_def TaskFinish_def)

lemma task_command_cases:
  assumes "task_command e now c payload st = Some st'"
  obtains (init) r t st1 where "c = cmd CMD_FORWARD_INIT" "BeginForward e now (chars_of payload) st = Some (r, t, st1)" "quiet st1 st'"
  | (slave) r t st1 where "c \<noteq> cmd CMD_FORWARD_INIT" "opening_msg (c, payload)"
      "SlaveConnect e now payload (c = cmd CMD_FORWARD_CHECK) st = Some (r, t, st1)" "quiet st1 st'"
  | (dispatch) r st1 where "c \<noteq> cmd CMD_FORWARD_INIT" "\<not> opening_msg (c, payload)"
      "ForwardCommandDispatch e c payload st = Some (r, st1)" "quiet st1 st'"
proof -
  obtain r s1 where cd: "CommandDispatch e now c payload st = Some (r, s1)" "st' = (if r then s1 else TaskFinish s1)"
    using assms by (auto simp: task_command_def)
  have q: "quiet x st'" if "quiet x s1" for x using cd(2) that by simp
  consider "c = cmd CMD_FORWARD_INIT" | "c \<noteq> cmd CMD_FORWARD_INIT" "opening_msg (c, payload)"
    | "c \<noteq> cmd CMD_FORWARD_INIT" "\<not> opening_msg (c, payload)" by blast
  then show thesis
  proof cases
    case 1
    then have "map_option (\<lambda>(ret, sError, st1). (ret, if ret then st1 else fail_log sError st1))
        (BeginForward e now (chars_of payload) st) = Some (r, s1)"
      using cd(1) unfolding CommandDispatch_def by (simp only: if_True simp_thms)
    then obtain t st1 where "BeginForward e now (chars_of payload) st = Some (r, t, st1)"
      "s1 = (if r then st1 else fail_log t st1)" by auto
    then show ?thesis using 1 q [of st1] by (auto intro: init)
  next
    case 2
    then have "c = cmd CMD_FORWARD_CHECK \<or> c = cmd CMD_FORWARD_ACTIVE_SLAVE" unfolding opening_msg_def by (simp only: fst_conv)
    then have "map_option (\<lambda>(ret, sError, st1). (ret, if ret then st1 else fail_log sError st1))
        (SlaveConnect e now payload (c = cmd CMD_FORWARD_CHECK) st) = Some (r, s1)"
      using cd(1) 2(1) unfolding CommandDispatch_def by (simp only: if_True if_False simp_thms)
    then obtain t st1 where "SlaveConnect e now payload (c = cmd CMD_FORWARD_CHECK) st = Some (r, t, st1)"
      "s1 = (if r then st1 else fail_log t st1)" by auto
    then show ?thesis using 2 q [of st1] by (auto intro: slave)
  next
    case 3
    then have "\<not> (c = cmd CMD_FORWARD_INIT \<or> c = cmd CMD_FORWARD_CHECK \<or> c = cmd CMD_FORWARD_ACTIVE_SLAVE)"
      unfolding opening_msg_def by (simp only: fst_conv) blast
    then have "map_option (\<lambda>(ret, st1). (ret, if ret then st1 else fail_log '''' st1))
        (ForwardCommandDispatch e c payload st) = Some (r, s1)"
      using cd(1) unfolding CommandDispatch_def by (simp only: if_False simp_thms)
    then obtain st1 where "ForwardCommandDispatch e c payload st = Some (r, st1)"
      "s1 = (if r then st1 else fail_log '''' st1)" by auto
    then show ?thesis using 3 q [of st1] by (auto intro: dispatch)
  qed
qed

lemma FilterCommand_msg: "FilterCommand payload = Some (i, d) \<Longrightarrow> i = msg_id (c, payload) \<and> d = drop 4 payload"
  by (auto simp: FilterCommand_def msg_id_def split: if_splits)

text \<open>A new slave context replaces its own identifier by the one it is told.\<close>

lemma SlaveConnect_opens:
  assumes "SlaveConnect e now payload chk st = Some (r, t, st')" and "side_ok st"
    and "\<forall>x < next_ctx st. ctx_id (ctxs st x) \<noteq> word_of_nat now" and "\<forall>x < next_ctx st. ctx_id (ctxs st x) \<noteq> msg_id (c, payload)"
  shows "\<exists>st1. side_ok st1 \<and> next_ctx st1 = Suc (next_ctx st) \<and> fsent st1 = fsent st
    \<and> ctxs st1 = (ctxs st)(next_ctx st := (new_ContextForward False (msg_id (c, payload)))\<lparr>checkPoint := chk\<rparr>)
    \<and> connects st1 = connects st \<and> idles st1 = idles st \<and> touches True (next_ctx st) st1 st'"
proof -
  obtain i d where f: "FilterCommand payload = Some (i, d)" using assms(1)
    by (cases "FilterCommand payload") (auto simp: SlaveConnect_def split: prod.splits)
  have i: "i = msg_id (c, payload)" using FilterCommand_msg [OF f] by simp
  obtain a m where m: "MallocContext now False st = (a, m)" by fastforce
  note mc = Malloc_ctx [OF m] and o = side_okD [OF assms(2)]
  let ?n = "new_ContextForward False (word_of_nat now)"
  let ?u = "upd_ctx a (\<lambda>c. c\<lparr>checkPoint := chk, ctx_id := i\<rparr>) m"
  let ?st1 = "AdminContext C_UPDATE (ctx_id (ctxs m a)) a ?u"
  have x: "ctx_id (ctxs m a) = word_of_nat now" "ctx_id (ctxs ?u a) = i" using mc(3) by (simp_all add: new_ContextForward_def)
  have cx: "ctxs ?st1 = (ctxs st)(a := (new_ContextForward False i)\<lparr>checkPoint := chk\<rparr>)"
    using mc(3) by (auto simp: AdminContext_def upd_ctx_def new_ContextForward_def)
  have w: "mp_wf (mapCtxPoint m)" using mc(9) o(1) by blast
  have nq: "query_ctx (word_of_nat now) st = None" "query_ctx i st = None"
    using o(2,3) assms(3,4) i by (metis option.exhaust)+
  have q: "query_ctx j ?st1 = (if j = i then Some a else query_ctx j st)" for j
    using w mc(4) [OF o(1)] x nq(1)
    by (auto simp: AdminContext_def query_ctx_def map_of_mp_put map_of_mp_erase mp_wf_erase upd_ctx_def)
  have same: "awaiting ?st1 = awaiting st" "connects ?st1 = connects st" "idles ?st1 = idles st" "fsent ?st1 = fsent st"
    "next_ctx ?st1 = Suc (next_ctx st)"
    using mc by (simp_all add: AdminContext_def upd_ctx_def awaiting_def)
  have "side_ok ?st1"
    unfolding side_ok_def q same
  proof (intro conjI)
    show "mp_wf (mapCtxPoint ?st1)" using w by (simp add: AdminContext_def upd_ctx_def mp_wf_put mp_wf_erase)
    show "\<forall>j x. (if j = i then Some a else query_ctx j st) = Some x \<longrightarrow> x < Suc (next_ctx st) \<and> ctx_id (ctxs ?st1 x) = j"
      using o(2,3) cx mc(1) by (auto simp: new_ContextForward_def dest: less_SucI)
    show "\<forall>x < Suc (next_ctx st). finish (ctxs ?st1 x) \<or>
        (if ctx_id (ctxs ?st1 x) = i then Some a else query_ctx (ctx_id (ctxs ?st1 x)) st) = Some x"
      using o(4) cx mc(1) assms(4) i by (auto simp: less_Suc_eq new_ContextForward_def)
    show "\<forall>x < Suc (next_ctx st). \<forall>y < Suc (next_ctx st). ctx_id (ctxs ?st1 x) = ctx_id (ctxs ?st1 y) \<longrightarrow> x = y"
      using o(5) cx mc(1) assms(4) i by (auto simp: less_Suc_eq new_ContextForward_def)
    show "\<forall>x \<in> awaiting st. x < Suc (next_ctx st) \<and> finish (ctxs ?st1 x)"
      using o(6,7) cx mc(1) by (auto dest: less_SucI)
    show "\<forall>x \<in> set (connects st) \<union> set (idles st). x < Suc (next_ctx st)" using o(8,9) by (auto intro: less_SucI)
  qed
  moreover have "touches True a ?st1 st'"
  proof -
    have s: "touches True a (upd_ctx a (\<lambda>c. c\<lparr>localArgs := l\<rparr>) X) st2 \<Longrightarrow> touches True a X st2" for l X st2
      by (rule touches_trans [OF touches_fields(5)])
    have s1: "SetupPoint e a (upd_ctx a (\<lambda>c. c\<lparr>localArgs := l\<rparr>) X) = Some (b, st2) \<Longrightarrow> touches True a X st2"
      and s2: "SetupPoint e a (upd_ctx a (\<lambda>c. c\<lparr>localArgs := l\<rparr>) X) = Some (b, st2) \<Longrightarrow> touches True a X (FreeContext e a n st2)"
      and s3: "touches True a X (snd (SetupPointContinue e a v (upd_ctx a (\<lambda>c. c\<lparr>localArgs := l\<rparr>) X)))" for l X b st2 n v
      using s [OF SetupPoint_touches] s [OF touches_trans [OF SetupPoint_touches touches_more [OF FreeContext_touches]]]
        s [OF SetupPointContinue_touches] by blast+
    show ?thesis
      using assms(1) m f
      by (auto simp: SlaveConnect_def Let_def slaveCheckWhenBegin_def split: if_splits option.splits prod.splits
          intro: s1 s2 s3)
  qed
  ultimately show ?thesis using cx same mc(1) i by (intro exI [of _ ?st1]) simp
qed

section \<open>The two sides\<close>

text \<open>
  The side that was told to forward, and the far side. What one has sent and the other has not
  handled is in \<open>fsent\<close>.
\<close>

definition flow :: "bytes \<Rightarrow> bytes \<Rightarrow> bool \<Rightarrow> bytes \<Rightarrow> bool" where
  "flow x y fin d \<longleftrightarrow> prefix y x \<and> (fin \<or> x = y @ d)"

definition unused :: "HdcForward \<Rightarrow> nat \<Rightarrow> bool" where
  "unused M a \<longleftrightarrow> inbuf (ctxs M a) = [] \<and> outbuf (ctxs M a) = [] \<and> \<not> reading (ctxs M a) \<and> a \<notin> set (idles M)
     \<and> data_of (ctx_id (ctxs M a)) (fsent M) = []"

definition names_ok :: "HdcForward \<Rightarrow> HdcForward \<Rightarrow> bool" where
  "names_ok M S \<longleftrightarrow> (\<forall>b < next_ctx S. \<exists>a < next_ctx M. ctx_id (ctxs S b) = ctx_id (ctxs M a))
     \<and> (\<forall>m \<in> set (fsent M). \<exists>a < next_ctx M. msg_id m = ctx_id (ctxs M a))
     \<and> (\<forall>m \<in> set (fsent S). \<exists>b < next_ctx S. msg_id m = ctx_id (ctxs S b))
     \<and> (\<forall>m \<in> set (fsent S). \<not> opening_msg m \<and> fst m \<noteq> cmd CMD_FORWARD_INIT)
     \<and> (\<forall>m \<in> set (fsent M). fst m \<noteq> cmd CMD_FORWARD_INIT)
     \<and> connects M = [] \<and> (\<forall>a < next_ctx M. masterSlave (ctxs M a))"

definition openings_ok :: "HdcForward \<Rightarrow> HdcForward \<Rightarrow> bool" where
  "openings_ok M S \<longleftrightarrow> distinct (map msg_id (filter opening_msg (fsent M)))
     \<and> (\<forall>m \<in> set (fsent M). opening_msg m \<longrightarrow> (\<forall>b < next_ctx S. ctx_id (ctxs S b) \<noteq> msg_id m))
     \<and> (\<forall>m \<in> set (fsent M). fst m = cmd CMD_FORWARD_ACTIVE_SLAVE \<longrightarrow>
          (\<forall>a < next_ctx M. ctx_id (ctxs M a) = msg_id m \<longrightarrow> unused M a))"

definition flows :: "HdcForward \<Rightarrow> HdcForward \<Rightarrow> bool" where
  "flows M S \<longleftrightarrow> (\<forall>a < next_ctx M. \<forall>b < next_ctx S. ctx_id (ctxs M a) = ctx_id (ctxs S b) \<and> \<not> checkPoint (ctxs S b) \<longrightarrow>
     flow (inbuf (ctxs M a)) (outbuf (ctxs S b)) (finish (ctxs S b)) (data_of (ctx_id (ctxs S b)) (fsent M))
     \<and> flow (inbuf (ctxs S b)) (outbuf (ctxs M a)) (finish (ctxs M a)) (data_of (ctx_id (ctxs S b)) (fsent S)))"

definition pair_inv :: "HdcForward \<Rightarrow> HdcForward \<Rightarrow> bool" where
  "pair_inv M S \<longleftrightarrow> side_ok M \<and> side_ok S \<and> names_ok M S \<and> openings_ok M S \<and> flows M S"

lemma pair_quiet:
  assumes "quiet M M'" and "quiet S S'"
  shows "pair_inv M' S' = pair_inv M S"
proof -
  have "side_ok M' = side_ok M" "side_ok S' = side_ok S"
    using assms by (simp_all add: quiet_def side_ok_def query_ctx_def awaiting_def)
  moreover have "names_ok M' S' = names_ok M S" "flows M' S' = flows M S" "openings_ok M' S' = openings_ok M S"
    using assms by (simp_all add: quiet_def names_ok_def flows_def openings_ok_def unused_def)
  ultimately show ?thesis by (simp add: pair_inv_def)
qed

lemma flow_fin: "flow x y fin d \<Longrightarrow> (fin \<Longrightarrow> fin') \<Longrightarrow> flow x y fin' d"
  by (auto simp: flow_def)

lemma saysD:
  assumes "says i st st'"
  obtains ms where "fsent st' = fsent st @ ms" "\<forall>m \<in> set ms. small_msg m \<and> msg_id m = i" "data_of j (fsent st') = data_of j (fsent st)"
    "filter opening_msg (fsent st') = filter opening_msg (fsent st)"
proof -
  obtain ms where ms: "fsent st' = fsent st @ ms" "\<forall>m \<in> set ms. small_msg m \<and> msg_id m = i"
    using assms by (auto simp: says_def)
  moreover have "data_of j ms = []" using ms(2) small_not(2) by (intro data_of_small) blast
  moreover have "filter opening_msg ms = []" using ms(2) small_not(1) by (intro filter_False) blast
  ultimately show thesis by (intro that) simp_all
qed

lemma small_init: "small_msg m \<Longrightarrow> fst m \<noteq> cmd CMD_FORWARD_INIT" "small_msg m \<Longrightarrow> fst m \<noteq> cmd CMD_FORWARD_ACTIVE_SLAVE"
  by (auto simp: small_msg_def)

lemma small_no [simp]: "\<not> small_msg (2500, b)"
  by (simp add: small_msg_def)

text \<open>An operation of the near side that touches one context.\<close>

lemma near_touches:
  assumes inv: "pair_inv M S" and t: "touches rd a M M'" and a: "a < next_ctx M"
    and rd: "rd \<Longrightarrow> \<forall>m \<in> set (fsent M). fst m = cmd CMD_FORWARD_ACTIVE_SLAVE \<longrightarrow> msg_id m \<noteq> ctx_id (ctxs M a)"
  shows "pair_inv M' S"
proof -
  note td = touchesD [OF t] and c = ctx_touches [OF t]
  obtain ms where ms: "fsent M' = fsent M @ ms" "\<forall>m \<in> set ms. small_msg m \<and> msg_id m = ctx_id (ctxs M a)"
      "filter opening_msg (fsent M') = filter opening_msg (fsent M)"
    using saysD [OF td(6)] by metis
  have dt: "data_of j (fsent M') = data_of j (fsent M)" for j using saysD [OF td(6)] by metis
  have i: "side_ok M" "side_ok S" "names_ok M S" "openings_ok M S" "flows M S" using inv by (simp_all add: pair_inv_def)
  have "names_ok M' S"
    using i(3) ms(1,2) a td(10) c(1,5) unfolding names_ok_def td(2) c(1) c(5)
    by auto
  moreover have "openings_ok M' S"
    unfolding openings_ok_def ms(3) td(2) c(1)
  proof (intro conjI ballI impI allI)
    show "distinct (map msg_id (filter opening_msg (fsent M)))" using i(4) by (simp add: openings_ok_def)
  next
    fix m b assume m: "m \<in> set (fsent M')" "opening_msg m" "b < next_ctx S"
    then have "m \<in> set (fsent M)" using ms(1,2) small_not(1) by (metis Un_iff set_append)
    then show "ctx_id (ctxs S b) \<noteq> msg_id m" using i(4) m by (simp add: openings_ok_def)
  next
    fix m x assume m: "m \<in> set (fsent M')" "fst m = cmd CMD_FORWARD_ACTIVE_SLAVE" "x < next_ctx M" "ctx_id (ctxs M x) = msg_id m"
    then have mm: "m \<in> set (fsent M)" using ms(1,2) small_init(2) by (metis Un_iff set_append)
    then have u: "unused M x" using i(4) m by (simp add: openings_ok_def)
    have "\<not> (rd \<and> x = a)" using rd mm m by auto
    then show "unused M' x" using u td(3,5,8) c by (cases "x = a") (auto simp: unused_def dt)
  qed
  moreover have "flows M' S"
    using i(5) flow_fin c(6) unfolding flows_def dt td(2) c(1-4) by blast
  ultimately show ?thesis using i(1,2) side_ok_touches [OF i(1) t a] by (simp add: pair_inv_def)
qed

lemma far_touches:
  assumes inv: "pair_inv M S" and t: "touches rd b S S'" and b: "b < next_ctx S"
  shows "pair_inv M S'"
proof -
  note td = touchesD [OF t] and c = ctx_touches [OF t]
  obtain ms where ms: "fsent S' = fsent S @ ms" "\<forall>m \<in> set ms. small_msg m \<and> msg_id m = ctx_id (ctxs S b)"
    using saysD [OF td(6)] by metis
  have dt: "data_of j (fsent S') = data_of j (fsent S)" for j using saysD [OF td(6)] by metis
  have i: "side_ok M" "side_ok S" "names_ok M S" "openings_ok M S" "flows M S" using inv by (simp_all add: pair_inv_def)
  have "names_ok M S'"
    using i(3) ms(1,2) b unfolding names_ok_def td(2) c(1) by (auto simp: small_not(1))
  moreover have "openings_ok M S'" using i(4) unfolding openings_ok_def td(2) c(1) .
  moreover have "flows M S'"
    using i(5) flow_fin c(6) unfolding flows_def dt td(2) c(1-4) by blast
  ultimately show ?thesis using i(1) side_ok_touches [OF i(2) t b] by (simp add: pair_inv_def)
qed

lemma pair_invD:
  assumes "pair_inv M S"
  shows "side_ok M" "side_ok S" "names_ok M S" "openings_ok M S" "flows M S"
  using assms by (simp_all add: pair_inv_def)

lemma names_okD:
  assumes "names_ok M S"
  shows "b < next_ctx S \<Longrightarrow> \<exists>a < next_ctx M. ctx_id (ctxs S b) = ctx_id (ctxs M a)"
    "m \<in> set (fsent M) \<Longrightarrow> \<exists>a < next_ctx M. msg_id m = ctx_id (ctxs M a)"
    "m \<in> set (fsent S) \<Longrightarrow> \<exists>b < next_ctx S. msg_id m = ctx_id (ctxs S b)"
    "m \<in> set (fsent S) \<Longrightarrow> \<not> opening_msg m" "m \<in> set (fsent S) \<Longrightarrow> fst m \<noteq> cmd CMD_FORWARD_INIT"
    "m \<in> set (fsent M) \<Longrightarrow> fst m \<noteq> cmd CMD_FORWARD_INIT"
    "connects M = []" "a < next_ctx M \<Longrightarrow> masterSlave (ctxs M a)"
  using assms unfolding names_ok_def by blast+

lemma openings_okD:
  assumes "openings_ok M S"
  shows "distinct (map msg_id (filter opening_msg (fsent M)))"
    "m \<in> set (fsent M) \<Longrightarrow> opening_msg m \<Longrightarrow> b < next_ctx S \<Longrightarrow> ctx_id (ctxs S b) \<noteq> msg_id m"
    "m \<in> set (fsent M) \<Longrightarrow> fst m = cmd CMD_FORWARD_ACTIVE_SLAVE \<Longrightarrow> a < next_ctx M \<Longrightarrow> ctx_id (ctxs M a) = msg_id m \<Longrightarrow> unused M a"
  using assms unfolding openings_ok_def by blast+

lemma flowsD:
  assumes "flows M S" and "a < next_ctx M" and "b < next_ctx S" and "ctx_id (ctxs M a) = ctx_id (ctxs S b)"
    and "\<not> checkPoint (ctxs S b)"
  shows "flow (inbuf (ctxs M a)) (outbuf (ctxs S b)) (finish (ctxs S b)) (data_of (ctx_id (ctxs S b)) (fsent M))"
    "flow (inbuf (ctxs S b)) (outbuf (ctxs M a)) (finish (ctxs M a)) (data_of (ctx_id (ctxs S b)) (fsent S))"
  using assms unfolding flows_def by blast+

text \<open>A message is taken from the queue; those with data are looked at below.\<close>

lemma near_pop:
  assumes inv: "pair_inv M S" and m: "fsent M = m # q" and "fst m \<noteq> cmd CMD_FORWARD_DATA"
  shows "pair_inv (M\<lparr>fsent := q\<rparr>) S"
proof -
  note i = pair_invD [OF inv]
  have d: "data_of j (fsent M) = data_of j q" for j using assms(3) m by simp
  have "side_ok (M\<lparr>fsent := q\<rparr>)" using i(1) by (simp add: side_ok_def query_ctx_def awaiting_def)
  moreover have "names_ok (M\<lparr>fsent := q\<rparr>) S" using i(3) m by (simp add: names_ok_def)
  moreover have "unused (M\<lparr>fsent := q\<rparr>) a = unused M a" for a using d by (simp add: unused_def)
  then have "openings_ok (M\<lparr>fsent := q\<rparr>) S" using i(4) m by (auto simp: openings_ok_def split: if_splits)
  moreover have "flows (M\<lparr>fsent := q\<rparr>) S" using i(5) d by (simp add: flows_def)
  ultimately show ?thesis using i(2) by (simp add: pair_inv_def)
qed

lemma far_pop:
  assumes inv: "pair_inv M S" and m: "fsent S = m # q" and "fst m \<noteq> cmd CMD_FORWARD_DATA"
  shows "pair_inv M (S\<lparr>fsent := q\<rparr>)"
proof -
  note i = pair_invD [OF inv]
  have d: "data_of j (fsent S) = data_of j q" for j using assms(3) m by simp
  have "side_ok (S\<lparr>fsent := q\<rparr>)" using i(2) by (simp add: side_ok_def query_ctx_def awaiting_def)
  moreover have "names_ok M (S\<lparr>fsent := q\<rparr>)" using i(3) m by (simp add: names_ok_def)
  moreover have "openings_ok M (S\<lparr>fsent := q\<rparr>)" using i(4) by (simp add: openings_ok_def)
  moreover have "flows M (S\<lparr>fsent := q\<rparr>)" using i(5) d by (simp add: flows_def)
  ultimately show ?thesis using i(1) by (simp add: pair_inv_def)
qed

text \<open>A context of the near side is made.\<close>

lemma near_Malloc:
  assumes inv: "pair_inv M S" and m: "MallocContext now True M = (a, M')"
    and fresh: "\<forall>x < next_ctx M. ctx_id (ctxs M x) \<noteq> word_of_nat now"
  shows "pair_inv M' S" "a < next_ctx M'" "unused M' a" "ctx_id (ctxs M' a) = word_of_nat now"
    "m \<in> set (fsent M') \<Longrightarrow> msg_id m \<noteq> word_of_nat now" "b < next_ctx S \<Longrightarrow> ctx_id (ctxs S b) \<noteq> word_of_nat now"
proof -
  note i = pair_invD [OF inv] and mc = Malloc_ctx [OF m]
  note n = names_okD [OF i(3)]
  have fm: "msg_id m \<noteq> word_of_nat now" if "m \<in> set (fsent M)" for m using n(2) [OF that] fresh by metis
  have fb: "ctx_id (ctxs S b) \<noteq> word_of_nat now" if "b < next_ctx S" for b using n(1) [OF that] fresh by metis
  have cx: "ctx_id (ctxs M' a) = word_of_nat now" "x \<noteq> a \<Longrightarrow> ctxs M' x = ctxs M x" for x
    using mc(3) by (simp_all add: new_ContextForward_def)
  show "a < next_ctx M'" using mc(2) by simp
  show "ctx_id (ctxs M' a) = word_of_nat now" by (rule cx(1))
  show "m \<in> set (fsent M') \<Longrightarrow> msg_id m \<noteq> word_of_nat now" for m using fm mc(5) by simp
  show "b < next_ctx S \<Longrightarrow> ctx_id (ctxs S b) \<noteq> word_of_nat now" for b using fb .
  have "data_of (word_of_nat now) (fsent M) = []" using fm by (intro data_of_absent) blast
  moreover have "a \<notin> set (idles M)" using side_okD(9) [OF i(1)] mc(1) by blast
  ultimately show "unused M' a" using mc by (simp add: unused_def new_ContextForward_def)
  have same: "\<exists>x < next_ctx M'. i = ctx_id (ctxs M' x)" if "\<exists>x < next_ctx M. i = ctx_id (ctxs M x)" for i
    using that mc(1,2) cx(2) by (metis less_SucI less_irrefl)
  have "names_ok M' S"
    unfolding names_ok_def
  proof (intro conjI)
    show "\<forall>b < next_ctx S. \<exists>x < next_ctx M'. ctx_id (ctxs S b) = ctx_id (ctxs M' x)" using n(1) same by blast
    show "\<forall>m \<in> set (fsent M'). \<exists>x < next_ctx M'. msg_id m = ctx_id (ctxs M' x)" using n(2) same mc(5) by simp
    show "\<forall>x < next_ctx M'. masterSlave (ctxs M' x)"
      using n(8) mc(1-3) by (auto simp: less_Suc_eq new_ContextForward_def)
  qed (use n(3-7) mc(5,7) in auto)
  moreover have "openings_ok M' S"
    unfolding openings_ok_def mc(5)
  proof (intro conjI ballI impI allI)
    show "distinct (map msg_id (filter opening_msg (fsent M)))" by (rule openings_okD(1) [OF i(4)])
  next
    fix m b assume "m \<in> set (fsent M)" "opening_msg m" "b < next_ctx S"
    then show "ctx_id (ctxs S b) \<noteq> msg_id m" by (rule openings_okD(2) [OF i(4)])
  next
    fix m x assume x: "m \<in> set (fsent M)" "fst m = cmd CMD_FORWARD_ACTIVE_SLAVE" "x < next_ctx M'" "ctx_id (ctxs M' x) = msg_id m"
    then have "x \<noteq> a" using fm cx(1) by metis
    then have "unused M x" using x cx(2) mc(1,2) openings_okD(3) [OF i(4) x(1,2), of x] by simp
    then show "unused M' x" using \<open>x \<noteq> a\<close> cx(2) mc(5,8) by (simp add: unused_def)
  qed
  moreover have "flows M' S"
    unfolding flows_def mc(2,5)
  proof (intro allI impI, elim conjE)
    fix x b assume x: "x < Suc a" "b < next_ctx S" "ctx_id (ctxs M' x) = ctx_id (ctxs S b)" "\<not> checkPoint (ctxs S b)"
    then have "x \<noteq> a" using fb cx(1) by metis
    then show "flow (inbuf (ctxs M' x)) (outbuf (ctxs S b)) (finish (ctxs S b)) (data_of (ctx_id (ctxs S b)) (fsent M))
      \<and> flow (inbuf (ctxs S b)) (outbuf (ctxs M' x)) (finish (ctxs M' x)) (data_of (ctx_id (ctxs S b)) (fsent S))"
      using flowsD [OF i(5), of x b] x cx(2) mc(1) by simp
  qed
  ultimately show "pair_inv M' S" using i(2) side_ok_Malloc [OF i(1) m fresh] by (simp add: pair_inv_def)
qed

text \<open>The near side sends what opens a context on the far side.\<close>

lemma near_opens:
  assumes inv: "pair_inv M S" and a: "a < next_ctx M" and m: "opening_msg m" "msg_id m = ctx_id (ctxs M a)"
    and new: "\<forall>m' \<in> set (fsent M). opening_msg m' \<longrightarrow> msg_id m' \<noteq> msg_id m" "\<forall>b < next_ctx S. ctx_id (ctxs S b) \<noteq> msg_id m"
    and u: "fst m = cmd CMD_FORWARD_ACTIVE_SLAVE \<Longrightarrow> unused M a"
  shows "pair_inv (M\<lparr>fsent := fsent M @ [m]\<rparr>) S"
proof -
  note i = pair_invD [OF inv]
  let ?M = "M\<lparr>fsent := fsent M @ [m]\<rparr>"
  have d: "data_of j (fsent ?M) = data_of j (fsent M)" for j using opening_not [OF m(1)] by simp
  have un: "unused ?M x = unused M x" for x using d by (simp add: unused_def)
  have "side_ok ?M" using i(1) by (simp add: side_ok_def query_ctx_def awaiting_def)
  moreover have "names_ok ?M S" using i(3) a m by (auto simp: names_ok_def opening_msg_def)
  moreover have "openings_ok ?M S"
    unfolding openings_ok_def un
  proof (intro conjI ballI impI allI)
    show "distinct (map msg_id (filter opening_msg (fsent ?M)))"
      using openings_okD(1) [OF i(4)] new(1) m(1) by auto
  next
    fix m' b assume "m' \<in> set (fsent ?M)" "opening_msg m'" "b < next_ctx S"
    then show "ctx_id (ctxs S b) \<noteq> msg_id m'" using openings_okD(2) [OF i(4), of m' b] new(2) by (cases "m' = m") simp_all
  next
    fix m' x assume x: "m' \<in> set (fsent ?M)" "fst m' = cmd CMD_FORWARD_ACTIVE_SLAVE" "x < next_ctx ?M"
      "ctx_id (ctxs ?M x) = msg_id m'"
    show "unused M x"
    proof (cases "m' = m")
      case True
      then have "x = a" using side_okD(5) [OF i(1), of x a] x a m(2) by simp
      then show ?thesis using u x True by simp
    qed (use openings_okD(3) [OF i(4), of m' x] x in auto)
  qed
  moreover have "flows ?M S" using i(5) d by (simp add: flows_def)
  ultimately show ?thesis using i(2) by (simp add: pair_inv_def)
qed

text \<open>The far side opens a context for it.\<close>

lemma far_opens:
  assumes inv: "pair_inv M S" and q: "fsent M = (c, payload) # q" and o: "opening_msg (c, payload)"
    and s: "SlaveConnect e now payload (c = cmd CMD_FORWARD_CHECK) S = Some (r, t, S')"
    and fresh: "\<forall>x < next_ctx S. ctx_id (ctxs S x) \<noteq> word_of_nat now"
  shows "pair_inv (M\<lparr>fsent := q\<rparr>) S'"
proof -
  let ?m = "(c, payload)" let ?M = "M\<lparr>fsent := q\<rparr>" let ?b = "next_ctx S"
  note i = pair_invD [OF inv]
  have m: "?m \<in> set (fsent M)" using q by simp
  have new: "\<forall>x < next_ctx S. ctx_id (ctxs S x) \<noteq> msg_id ?m" using openings_okD(2) [OF i(4) m o] by blast
  obtain S1 where S1: "side_ok S1" "next_ctx S1 = Suc ?b" "fsent S1 = fsent S"
    "ctxs S1 = (ctxs S)(?b := (new_ContextForward False (msg_id ?m))\<lparr>checkPoint := (c = cmd CMD_FORWARD_CHECK)\<rparr>)"
    "touches True ?b S1 S'"
    using SlaveConnect_opens [OF s i(2) fresh new] by blast
  have pop: "pair_inv ?M S" by (rule near_pop [OF inv q]) (use opening_not [OF o] in simp)
  note j = pair_invD [OF pop] and nk = names_okD [OF i(3)]
  obtain a where a: "a < next_ctx M" "msg_id ?m = ctx_id (ctxs M a)" using nk(2) [OF m] by blast
  have fq: "msg_id m' \<noteq> msg_id ?m" if "m' \<in> set q" "opening_msg m'" for m'
    using openings_okD(1) [OF i(4)] q o that by (auto intro: rev_image_eqI)
  have fS: "msg_id m' \<noteq> msg_id ?m" if "m' \<in> set (fsent S)" for m'
    using nk(3) [OF that] new by metis
  have cx: "ctx_id (ctxs S1 ?b) = msg_id ?m" "x \<noteq> ?b \<Longrightarrow> ctxs S1 x = ctxs S x" for x
    using S1(4) by (simp_all add: new_ContextForward_def)
  have "names_ok ?M S1"
    unfolding names_ok_def
  proof (intro conjI)
    show "\<forall>b < next_ctx S1. \<exists>a < next_ctx ?M. ctx_id (ctxs S1 b) = ctx_id (ctxs ?M a)"
      using S1(2) cx a names_okD(1) [OF j(3)] by (auto simp: less_Suc_eq)
    have "\<exists>b < next_ctx S1. i = ctx_id (ctxs S1 b)" if "\<exists>b < next_ctx S. i = ctx_id (ctxs S b)" for i
      using that S1(2) cx(2) by (metis less_SucI less_irrefl)
    then show "\<forall>m \<in> set (fsent S1). \<exists>b < next_ctx S1. msg_id m = ctx_id (ctxs S1 b)"
      using names_okD(3) [OF j(3)] S1(3) by simp
  qed (use names_okD(2,4-8) [OF j(3)] S1(3) in auto)
  moreover have "openings_ok ?M S1"
    unfolding openings_ok_def
  proof (intro conjI ballI impI allI)
    fix m' b assume "m' \<in> set (fsent ?M)" "opening_msg m'" "b < next_ctx S1"
    then show "ctx_id (ctxs S1 b) \<noteq> msg_id m'"
      using openings_okD(2) [OF j(4), of m' b] fq [of m'] cx S1(2) by (cases "b = ?b") (auto simp: less_Suc_eq)
  qed (use openings_okD(1,3) [OF j(4)] in auto)
  moreover have "flows ?M S1"
    unfolding flows_def
  proof (intro allI impI, elim conjE)
    fix x b assume x: "x < next_ctx ?M" "b < next_ctx S1" "ctx_id (ctxs ?M x) = ctx_id (ctxs S1 b)" "\<not> checkPoint (ctxs S1 b)"
    show "flow (inbuf (ctxs ?M x)) (outbuf (ctxs S1 b)) (finish (ctxs S1 b)) (data_of (ctx_id (ctxs S1 b)) (fsent ?M))
      \<and> flow (inbuf (ctxs S1 b)) (outbuf (ctxs ?M x)) (finish (ctxs ?M x)) (data_of (ctx_id (ctxs S1 b)) (fsent S1))"
    proof (cases "b = ?b")
      case True
      then have c: "c = cmd CMD_FORWARD_ACTIVE_SLAVE" using x(4) S1(4) o by (auto simp: opening_msg_def)
      have xm: "ctx_id (ctxs M x) = msg_id ?m" using x(3) True cx(1) by simp
      have "unused M x" by (rule openings_okD(3) [OF i(4) m]) (use c x(1) xm in simp_all)
      then have "inbuf (ctxs M x) = []" "outbuf (ctxs M x) = []" "data_of (msg_id ?m) q = []"
        using xm q by (auto simp: unused_def split: if_splits)
      moreover have "data_of (msg_id ?m) (fsent S) = []" using fS by (intro data_of_absent) blast
      ultimately show ?thesis using True S1(3,4) by (simp add: flow_def new_ContextForward_def)
    next
      case False
      then show ?thesis using flowsD [OF j(5), of x b] x cx(2) [OF False] S1(2,3) by simp
    qed
  qed
  ultimately have "pair_inv ?M S1" using j(1) S1(1) by (simp add: pair_inv_def)
  moreover have "next_ctx S < next_ctx S1" using S1(2) by simp
  ultimately show ?thesis using far_touches S1(5) by blast
qed

text \<open>Bytes that are read, and bytes that arrive.\<close>

definition data_msg :: "u32 \<Rightarrow> bytes \<Rightarrow> u16 \<times> bytes" where
  "data_msg i d = (cmd CMD_FORWARD_DATA, be_enc 4 (unat i) @ d)"

lemma data_msg_simps [simp]:
  "fst (data_msg i d) = cmd CMD_FORWARD_DATA" "msg_id (data_msg i d) = i" "drop 4 (snd (data_msg i d)) = d"
  "\<not> opening_msg (data_msg i d)"
  by (simp_all add: data_msg_def opening_msg_def)

definition read_in :: "nat \<Rightarrow> bytes \<Rightarrow> HdcForward \<Rightarrow> HdcForward" where
  "read_in a d st = (upd_ctx a (\<lambda>c. c\<lparr>inbuf := inbuf c @ d\<rparr>) st)\<lparr>fsent := fsent st @ [data_msg (ctx_id (ctxs st a)) d]\<rparr>"

definition write_out :: "nat \<Rightarrow> bytes \<Rightarrow> HdcForward \<Rightarrow> HdcForward" where
  "write_out a d st = upd_ctx a (\<lambda>c. c\<lparr>outbuf := outbuf c @ d,
     refIO := (if ftype c = FORWARD_DEVICE then Suc (refIO c) else refIO c)\<rparr>) st"

lemma read_in_simps [simp]:
  "ctx_id (ctxs (read_in a d st) x) = ctx_id (ctxs st x)" "finish (ctxs (read_in a d st) x) = finish (ctxs st x)"
  "outbuf (ctxs (read_in a d st) x) = outbuf (ctxs st x)" "checkPoint (ctxs (read_in a d st) x) = checkPoint (ctxs st x)"
  "masterSlave (ctxs (read_in a d st) x) = masterSlave (ctxs st x)" "reading (ctxs (read_in a d st) x) = reading (ctxs st x)"
  "inbuf (ctxs (read_in a d st) x) = (if x = a then inbuf (ctxs st x) @ d else inbuf (ctxs st x))"
  "next_ctx (read_in a d st) = next_ctx st" "query_ctx i (read_in a d st) = query_ctx i st"
  "mapCtxPoint (read_in a d st) = mapCtxPoint st" "awaiting (read_in a d st) = awaiting st"
  "connects (read_in a d st) = connects st" "idles (read_in a d st) = idles st"
  "fsent (read_in a d st) = fsent st @ [data_msg (ctx_id (ctxs st a)) d]"
  by (simp_all add: read_in_def upd_ctx_def query_ctx_def awaiting_def)

lemma write_out_simps [simp]:
  "ctx_id (ctxs (write_out a d st) x) = ctx_id (ctxs st x)" "finish (ctxs (write_out a d st) x) = finish (ctxs st x)"
  "inbuf (ctxs (write_out a d st) x) = inbuf (ctxs st x)" "checkPoint (ctxs (write_out a d st) x) = checkPoint (ctxs st x)"
  "masterSlave (ctxs (write_out a d st) x) = masterSlave (ctxs st x)" "reading (ctxs (write_out a d st) x) = reading (ctxs st x)"
  "outbuf (ctxs (write_out a d st) x) = (if x = a then outbuf (ctxs st x) @ d else outbuf (ctxs st x))"
  "next_ctx (write_out a d st) = next_ctx st" "query_ctx i (write_out a d st) = query_ctx i st"
  "mapCtxPoint (write_out a d st) = mapCtxPoint st" "awaiting (write_out a d st) = awaiting st"
  "connects (write_out a d st) = connects st" "idles (write_out a d st) = idles st" "fsent (write_out a d st) = fsent st"
  by (simp_all add: write_out_def upd_ctx_def query_ctx_def awaiting_def)

lemma side_ok_same [simp]: "side_ok (read_in a d st) = side_ok st" "side_ok (write_out a d st) = side_ok st"
  by (simp_all add: side_ok_def)

lemma flow_read: "flow x y fin d \<Longrightarrow> flow (x @ e) y fin (d @ e)"
  by (auto simp: flow_def prefix_def)

lemma near_read:
  assumes inv: "pair_inv M S" and a: "a < next_ctx M" "reading (ctxs M a)"
  shows "pair_inv (read_in a d M) S"
proof -
  note i = pair_invD [OF inv]
  let ?M = "read_in a d M"
  have "names_ok ?M S" using i(3) a(1) by (auto simp: names_ok_def data_msg_def)
  moreover have "openings_ok ?M S"
    unfolding openings_ok_def
  proof (intro conjI ballI impI allI)
    fix m x assume x: "m \<in> set (fsent ?M)" "fst m = cmd CMD_FORWARD_ACTIVE_SLAVE" "x < next_ctx ?M" "ctx_id (ctxs ?M x) = msg_id m"
    then have "m \<in> set (fsent M)" by (auto simp: data_msg_def)
    then have u: "unused M x" using openings_okD(3) [OF i(4), of m x] x by simp
    then have "x \<noteq> a" using a(2) by (auto simp: unused_def)
    moreover from this have "ctx_id (ctxs M x) \<noteq> ctx_id (ctxs M a)" using side_okD(5) [OF i(1), of x a] x a(1) by auto
    ultimately show "unused ?M x" using u by (simp add: unused_def)
  qed (use openings_okD(1,2) [OF i(4)] in auto)
  moreover have "flows ?M S"
    unfolding flows_def
  proof (intro allI impI, elim conjE)
    fix x b assume x: "x < next_ctx ?M" "b < next_ctx S" "ctx_id (ctxs ?M x) = ctx_id (ctxs S b)" "\<not> checkPoint (ctxs S b)"
    have f: "flow (inbuf (ctxs M x)) (outbuf (ctxs S b)) (finish (ctxs S b)) (data_of (ctx_id (ctxs S b)) (fsent M))"
      "flow (inbuf (ctxs S b)) (outbuf (ctxs M x)) (finish (ctxs M x)) (data_of (ctx_id (ctxs S b)) (fsent S))"
      using flowsD [OF i(5), of x b] x by simp_all
    have "x = a \<longleftrightarrow> ctx_id (ctxs M a) = ctx_id (ctxs S b)" using side_okD(5) [OF i(1), of x a] x a(1) by auto
    then show "flow (inbuf (ctxs ?M x)) (outbuf (ctxs S b)) (finish (ctxs S b)) (data_of (ctx_id (ctxs S b)) (fsent ?M))
      \<and> flow (inbuf (ctxs S b)) (outbuf (ctxs ?M x)) (finish (ctxs ?M x)) (data_of (ctx_id (ctxs S b)) (fsent S))"
      using f flow_read [OF f(1), of d] by (cases "x = a") simp_all
  qed
  ultimately show ?thesis using i(1,2) by (simp add: pair_inv_def)
qed

lemma far_read:
  assumes inv: "pair_inv M S" and b: "b < next_ctx S"
  shows "pair_inv M (read_in b d S)"
proof -
  note i = pair_invD [OF inv]
  let ?S = "read_in b d S"
  have "names_ok M ?S" using i(3) b by (auto simp: names_ok_def data_msg_def opening_msg_def)
  moreover have "openings_ok M ?S" using i(4) by (simp add: openings_ok_def)
  moreover have "flows M ?S"
    unfolding flows_def
  proof (intro allI impI, elim conjE)
    fix a x assume x: "a < next_ctx M" "x < next_ctx ?S" "ctx_id (ctxs M a) = ctx_id (ctxs ?S x)" "\<not> checkPoint (ctxs ?S x)"
    have f: "flow (inbuf (ctxs M a)) (outbuf (ctxs S x)) (finish (ctxs S x)) (data_of (ctx_id (ctxs S x)) (fsent M))"
      "flow (inbuf (ctxs S x)) (outbuf (ctxs M a)) (finish (ctxs M a)) (data_of (ctx_id (ctxs S x)) (fsent S))"
      using flowsD [OF i(5), of a x] x by simp_all
    have "x < next_ctx S" using x(2) by simp
    then have "x = b \<longleftrightarrow> ctx_id (ctxs S b) = ctx_id (ctxs S x)" using side_okD(5) [OF i(2), of x b] b by metis
    then show "flow (inbuf (ctxs M a)) (outbuf (ctxs ?S x)) (finish (ctxs ?S x)) (data_of (ctx_id (ctxs ?S x)) (fsent M))
      \<and> flow (inbuf (ctxs ?S x)) (outbuf (ctxs M a)) (finish (ctxs M a)) (data_of (ctx_id (ctxs ?S x)) (fsent ?S))"
      using f flow_read [OF f(2), of d] by (cases "x = b") simp_all
  qed
  ultimately show ?thesis using i(1,2) by (simp add: pair_inv_def)
qed

lemma flow_write: "flow x y False (d @ e) \<Longrightarrow> flow x (y @ d) fin e"
  by (auto simp: flow_def)

lemma flow_drop: "flow x y True d \<Longrightarrow> flow x y True e"
  by (simp add: flow_def)

text \<open>Data for a context that is not finished reaches it, other data is dropped.\<close>

lemma far_data:
  assumes inv: "pair_inv M S" and q: "fsent M = m # q" and m: "fst m = cmd CMD_FORWARD_DATA" "d = drop 4 (snd m)"
    and r: "S' = S \<and> (\<forall>b. query_ctx (msg_id m) S = Some b \<longrightarrow> finish (ctxs S b))
      \<or> (\<exists>b. query_ctx (msg_id m) S = Some b \<and> \<not> finish (ctxs S b)
          \<and> (touches False b S S' \<and> finish (ctxs S' b) \<or> S' = write_out b d S))"
  shows "pair_inv (M\<lparr>fsent := q\<rparr>) S'"
proof -
  let ?M = "M\<lparr>fsent := q\<rparr>"
  note i = pair_invD [OF inv]
  have dq: "data_of j (fsent M) = (if msg_id m = j then d else []) @ data_of j q" for j using q m by simp
  have ok: "side_ok ?M" using i(1) by (simp add: side_ok_def query_ctx_def awaiting_def)
  have nm: "names_ok ?M S" using i(3) q by (simp add: names_ok_def)
  have op: "openings_ok ?M S"
  proof -
    have "unused M a \<Longrightarrow> unused ?M a" for a using dq by (auto simp: unused_def)
    moreover have "\<not> opening_msg m" using m(1) opening_not by metis
    ultimately show ?thesis using i(4) q by (auto simp: openings_ok_def)
  qed
  have fl: "flow (inbuf (ctxs M a)) (outbuf (ctxs T b)) (finish (ctxs T b)) (data_of (ctx_id (ctxs S b)) q)
      \<and> flow (inbuf (ctxs S b)) (outbuf (ctxs M a)) (finish (ctxs M a)) (data_of (ctx_id (ctxs S b)) (fsent S))"
    if ab: "a < next_ctx M" "b < next_ctx S" "ctx_id (ctxs M a) = ctx_id (ctxs S b)" "\<not> checkPoint (ctxs S b)"
      and T: "\<And>b. finish (ctxs S b) \<Longrightarrow> finish (ctxs T b)"
        "b < next_ctx S \<Longrightarrow> (outbuf (ctxs T b) = outbuf (ctxs S b) \<and> (ctx_id (ctxs S b) = msg_id m \<longrightarrow> finish (ctxs T b)))
          \<or> \<not> finish (ctxs S b) \<and> ctx_id (ctxs S b) = msg_id m \<and> outbuf (ctxs T b) = outbuf (ctxs S b) @ d" for a b T
  proof -
    note f = flowsD [OF i(5) ab]
    show ?thesis
    proof (cases "ctx_id (ctxs S b) = msg_id m")
      case True
      from T(2) [OF ab(2)] show ?thesis
      proof
        assume "outbuf (ctxs T b) = outbuf (ctxs S b) \<and> (ctx_id (ctxs S b) = msg_id m \<longrightarrow> finish (ctxs T b))"
        then show ?thesis using f True by (simp add: flow_def)
      next
        assume w: "\<not> finish (ctxs S b) \<and> ctx_id (ctxs S b) = msg_id m \<and> outbuf (ctxs T b) = outbuf (ctxs S b) @ d"
        then have "flow (inbuf (ctxs M a)) (outbuf (ctxs S b)) False (d @ data_of (ctx_id (ctxs S b)) q)"
          using f(1) True dq by simp
        from flow_write [OF this] show ?thesis using f(2) w by simp
      qed
    next
      case False
      then have "flow (inbuf (ctxs M a)) (outbuf (ctxs S b)) (finish (ctxs S b)) (data_of (ctx_id (ctxs S b)) q)"
        using f(1) dq [of "ctx_id (ctxs S b)"] by simp
      then show ?thesis using f(2) T(2) [OF ab(2)] False flow_fin [OF _ T(1) [of b]] by auto
    qed
  qed
  from r show ?thesis
  proof (elim disjE conjE exE)
    assume S: "S' = S" and fin: "\<forall>b. query_ctx (msg_id m) S = Some b \<longrightarrow> finish (ctxs S b)"
    have "finish (ctxs S b)" if "b < next_ctx S" "ctx_id (ctxs S b) = msg_id m" for b
      using side_okD(4) [OF i(2) that(1)] that(2) fin by metis
    then have "flows ?M S" unfolding flows_def using fl [of _ _ S] by simp
    then show ?thesis using S ok i(2) nm op by (simp add: pair_inv_def)
  next
    fix b assume b: "query_ctx (msg_id m) S = Some b" "\<not> finish (ctxs S b)" and t: "touches False b S S'" "finish (ctxs S' b)"
    note bn = side_okD(2,3) [OF i(2) b(1)]
    note c = ctx_touches [OF t(1)]
    have "finish (ctxs S' x)" if "x < next_ctx S" "ctx_id (ctxs S x) = msg_id m" for x
      using side_okD(5) [OF i(2) that(1) bn(1)] that(2) bn(2) t(2) by simp
    then have "pair_inv ?M S'"
    proof -
      have dt: "data_of j (fsent S') = data_of j (fsent S)" for j using saysD [OF touchesD(6) [OF t(1)]] by metis
      have "flows ?M S'" unfolding flows_def dt touchesD(2) [OF t(1)] c(1) c(2) c(4)
        using fl [of _ _ S'] c(3,6) \<open>\<And>x. x < next_ctx S \<Longrightarrow> ctx_id (ctxs S x) = msg_id m \<Longrightarrow> finish (ctxs S' x)\<close> by simp
      moreover have "names_ok ?M S'" "openings_ok ?M S'"
      proof -
        obtain ms where ms: "fsent S' = fsent S @ ms" "\<forall>m \<in> set ms. small_msg m \<and> msg_id m = ctx_id (ctxs S b)"
          using saysD [OF touchesD(6) [OF t(1)]] by metis
        show "names_ok ?M S'"
          using nm ms bn(1) unfolding names_ok_def touchesD(2) [OF t(1)] c(1) by (auto simp: small_not(1))
        show "openings_ok ?M S'" using op unfolding openings_ok_def touchesD(2) [OF t(1)] c(1) .
      qed
      ultimately show ?thesis using ok side_ok_touches [OF i(2) t(1) bn(1)] by (simp add: pair_inv_def)
    qed
    then show ?thesis .
  next
    fix b assume b: "query_ctx (msg_id m) S = Some b" "\<not> finish (ctxs S b)" and S: "S' = write_out b d S"
    note bn = side_okD(2,3) [OF i(2) b(1)]
    have "x = b \<longleftrightarrow> ctx_id (ctxs S x) = msg_id m" if "x < next_ctx S" for x
      using side_okD(5) [OF i(2) that bn(1)] bn(2) by auto
    note xb = this
    have "flows ?M S'"
      unfolding flows_def S
    proof (intro allI impI, elim conjE)
      fix a x assume x: "a < next_ctx ?M" "x < next_ctx (write_out b d S)" "ctx_id (ctxs ?M a) = ctx_id (ctxs (write_out b d S) x)"
        "\<not> checkPoint (ctxs (write_out b d S) x)"
      show "flow (inbuf (ctxs ?M a)) (outbuf (ctxs (write_out b d S) x)) (finish (ctxs (write_out b d S) x)) (data_of (ctx_id (ctxs (write_out b d S) x)) (fsent ?M))
        \<and> flow (inbuf (ctxs (write_out b d S) x)) (outbuf (ctxs ?M a)) (finish (ctxs ?M a)) (data_of (ctx_id (ctxs (write_out b d S) x)) (fsent (write_out b d S)))"
        using fl [of a x "write_out b d S"] x xb [of x] b(2) by (cases "x = b") simp_all
    qed
    moreover have "names_ok ?M S'" "openings_ok ?M S'" using nm op by (simp_all add: S names_ok_def openings_ok_def)
    ultimately show ?thesis using ok i(2) by (simp add: S pair_inv_def)
  qed
qed

lemma near_data:
  assumes inv: "pair_inv M S" and q: "fsent S = m # q" and m: "fst m = cmd CMD_FORWARD_DATA" "d = drop 4 (snd m)"
    and r: "M' = M \<and> (\<forall>a. query_ctx (msg_id m) M = Some a \<longrightarrow> finish (ctxs M a))
      \<or> (\<exists>a. query_ctx (msg_id m) M = Some a \<and> \<not> finish (ctxs M a)
          \<and> (touches False a M M' \<and> finish (ctxs M' a) \<or> M' = write_out a d M))"
  shows "pair_inv M' (S\<lparr>fsent := q\<rparr>)"
proof -
  let ?S = "S\<lparr>fsent := q\<rparr>"
  note i = pair_invD [OF inv]
  have dq: "data_of j (fsent S) = (if msg_id m = j then d else []) @ data_of j q" for j using q m by simp
  have ok: "side_ok ?S" using i(2) by (simp add: side_ok_def query_ctx_def awaiting_def)
  have nm: "names_ok M ?S" using i(3) q by (simp add: names_ok_def)
  have op: "openings_ok M ?S" using i(4) by (simp add: openings_ok_def)
  have pend: "ctx_id (ctxs M a) \<noteq> msg_id m" if "m' \<in> set (fsent M)" "opening_msg m'" "ctx_id (ctxs M a) = msg_id m'" for m' a
  proof -
    obtain b where "b < next_ctx S" "msg_id m = ctx_id (ctxs S b)" using names_okD(3) [OF i(3), of m] q by auto
    then show ?thesis using openings_okD(2) [OF i(4) that(1,2), of b] that(3) by metis
  qed
  have fl: "flow (inbuf (ctxs M a)) (outbuf (ctxs S b)) (finish (ctxs S b)) (data_of (ctx_id (ctxs S b)) (fsent M))
      \<and> flow (inbuf (ctxs S b)) (outbuf (ctxs T a)) (finish (ctxs T a)) (data_of (ctx_id (ctxs S b)) q)"
    if ab: "a < next_ctx M" "b < next_ctx S" "ctx_id (ctxs M a) = ctx_id (ctxs S b)" "\<not> checkPoint (ctxs S b)"
      and T: "finish (ctxs M a) \<Longrightarrow> finish (ctxs T a)"
        "(outbuf (ctxs T a) = outbuf (ctxs M a) \<and> (ctx_id (ctxs M a) = msg_id m \<longrightarrow> finish (ctxs T a)))
          \<or> \<not> finish (ctxs M a) \<and> ctx_id (ctxs M a) = msg_id m \<and> outbuf (ctxs T a) = outbuf (ctxs M a) @ d" for a b T
  proof -
    note f = flowsD [OF i(5) ab]
    show ?thesis
    proof (cases "ctx_id (ctxs S b) = msg_id m")
      case True
      from T(2) show ?thesis
      proof
        assume "outbuf (ctxs T a) = outbuf (ctxs M a) \<and> (ctx_id (ctxs M a) = msg_id m \<longrightarrow> finish (ctxs T a))"
        then show ?thesis using f True ab(3) by (simp add: flow_def)
      next
        assume w: "\<not> finish (ctxs M a) \<and> ctx_id (ctxs M a) = msg_id m \<and> outbuf (ctxs T a) = outbuf (ctxs M a) @ d"
        then have "flow (inbuf (ctxs S b)) (outbuf (ctxs M a)) False (d @ data_of (ctx_id (ctxs S b)) q)"
          using f(2) True dq by simp
        from flow_write [OF this] show ?thesis using f(1) w by simp
      qed
    next
      case False
      then have "flow (inbuf (ctxs S b)) (outbuf (ctxs M a)) (finish (ctxs M a)) (data_of (ctx_id (ctxs S b)) q)"
        using f(2) dq [of "ctx_id (ctxs S b)"] by simp
      then show ?thesis using f(1) T(2) ab(3) False flow_fin [OF _ T(1)] by auto
    qed
  qed
  from r show ?thesis
  proof (elim disjE conjE exE)
    assume M: "M' = M" and fin: "\<forall>a. query_ctx (msg_id m) M = Some a \<longrightarrow> finish (ctxs M a)"
    have "finish (ctxs M a)" if "a < next_ctx M" "ctx_id (ctxs M a) = msg_id m" for a
      using side_okD(4) [OF i(1) that(1)] that(2) fin by metis
    then have "flows M ?S" unfolding flows_def using fl [of _ _ M] by simp
    then show ?thesis using M ok i(1) nm op by (simp add: pair_inv_def)
  next
    fix a assume a: "query_ctx (msg_id m) M = Some a" "\<not> finish (ctxs M a)" and t: "touches False a M M'" "finish (ctxs M' a)"
    note an = side_okD(2,3) [OF i(1) a(1)]
    note c = ctx_touches [OF t(1)]
    have fx: "finish (ctxs M' x)" if "x < next_ctx M" "ctx_id (ctxs M x) = msg_id m" for x
      using side_okD(5) [OF i(1) that(1) an(1)] that(2) an(2) t(2) by simp
    have dt: "data_of j (fsent M') = data_of j (fsent M)" for j using saysD [OF touchesD(6) [OF t(1)]] by metis
    have "flows M' ?S" unfolding flows_def dt touchesD(2) [OF t(1)] c(1) c(2) c(4)
      using fl [of _ _ M'] c(3,6) fx by simp
    moreover have "names_ok M' ?S \<and> openings_ok M' ?S"
    proof -
      have "pair_inv M' S" by (rule near_touches [OF inv t(1) an(1)]) simp
      note j = pair_invD(3,4) [OF this]
      have "names_ok M' ?S" using j(1) q by (simp add: names_ok_def)
      moreover have "openings_ok M' ?S" using j(2) by (simp add: openings_ok_def)
      ultimately show ?thesis ..
    qed
    ultimately show ?thesis using ok side_ok_touches [OF i(1) t(1) an(1)] by (simp add: pair_inv_def)
  next
    fix a assume a: "query_ctx (msg_id m) M = Some a" "\<not> finish (ctxs M a)" and M: "M' = write_out a d M"
    note an = side_okD(2,3) [OF i(1) a(1)]
    have xa: "x = a \<longleftrightarrow> ctx_id (ctxs M x) = msg_id m" if "x < next_ctx M" for x
      using side_okD(5) [OF i(1) that an(1)] an(2) by auto
    have "flows M' ?S"
      unfolding flows_def M
    proof (intro allI impI, elim conjE)
      fix x b assume x: "x < next_ctx (write_out a d M)" "b < next_ctx ?S" "ctx_id (ctxs (write_out a d M) x) = ctx_id (ctxs ?S b)"
        "\<not> checkPoint (ctxs ?S b)"
      show "flow (inbuf (ctxs (write_out a d M) x)) (outbuf (ctxs ?S b)) (finish (ctxs ?S b)) (data_of (ctx_id (ctxs ?S b)) (fsent (write_out a d M)))
        \<and> flow (inbuf (ctxs ?S b)) (outbuf (ctxs (write_out a d M) x)) (finish (ctxs (write_out a d M) x)) (data_of (ctx_id (ctxs ?S b)) (fsent ?S))"
        using fl [of x b "write_out a d M"] x xa [of x] a(2) by (cases "x = a") simp_all
    qed
    moreover have "names_ok M' ?S" using nm by (simp add: M names_ok_def)
    moreover have "openings_ok M' ?S"
      unfolding openings_ok_def
    proof (intro conjI ballI impI allI)
      fix m' x assume x: "m' \<in> set (fsent M')" "fst m' = cmd CMD_FORWARD_ACTIVE_SLAVE" "x < next_ctx M'" "ctx_id (ctxs M' x) = msg_id m'"
      then have o: "opening_msg m'" by (simp add: opening_msg_def)
      have "unused M x" using openings_okD(3) [OF op, of m' x] x M by simp
      moreover have "x \<noteq> a" using pend [of m' x] x o an(2) by (auto simp: M)
      ultimately show "unused M' x" by (simp add: M unused_def)
    qed (use openings_okD(1,2) [OF op] M in auto)
    ultimately show ?thesis using ok i(1) by (simp add: M pair_inv_def)
  qed
qed

section \<open>Callbacks that only retire contexts\<close>

definition retires :: "HdcForward \<Rightarrow> HdcForward \<Rightarrow> bool" where
  "retires st st' \<longleftrightarrow> next_ctx st' = next_ctx st \<and> fsent st' = fsent st \<and> connects st' = connects st \<and> idles st' = idles st
     \<and> (\<forall>x. same_ctx (ctxs st x) (ctxs st' x) \<and> (reading (ctxs st' x) \<longrightarrow> reading (ctxs st x)))"

lemma near_retires:
  assumes inv: "pair_inv M S" and r: "retires M M'" and ok: "side_ok M'"
  shows "pair_inv M' S"
proof -
  note i = pair_invD [OF inv]
  have c: "ctx_id (ctxs M' x) = ctx_id (ctxs M x)" "inbuf (ctxs M' x) = inbuf (ctxs M x)"
    "outbuf (ctxs M' x) = outbuf (ctxs M x)" "masterSlave (ctxs M' x) = masterSlave (ctxs M x)"
    "finish (ctxs M x) \<Longrightarrow> finish (ctxs M' x)" "reading (ctxs M' x) \<Longrightarrow> reading (ctxs M x)"
    "next_ctx M' = next_ctx M" "fsent M' = fsent M" "connects M' = connects M" "idles M' = idles M" for x
    using r by (simp_all add: retires_def same_ctx_def)
  have "names_ok M' S" using i(3) unfolding names_ok_def c(1) c(4) c(7-9) .
  moreover have "unused M x \<Longrightarrow> unused M' x" for x using c(6) unfolding unused_def c(1-3) c(8) c(10) by blast
  then have "openings_ok M' S" using i(4) unfolding openings_ok_def c(1) c(7,8) by blast
  moreover have "flows M' S" using i(5) flow_fin c(5) unfolding flows_def c(1-3) c(7,8) by blast
  ultimately show ?thesis using i(2) ok by (simp add: pair_inv_def)
qed

lemma far_retires:
  assumes inv: "pair_inv M S" and r: "retires S S'" and ok: "side_ok S'"
  shows "pair_inv M S'"
proof -
  note i = pair_invD [OF inv]
  have c: "ctx_id (ctxs S' x) = ctx_id (ctxs S x)" "inbuf (ctxs S' x) = inbuf (ctxs S x)"
    "outbuf (ctxs S' x) = outbuf (ctxs S x)" "checkPoint (ctxs S' x) = checkPoint (ctxs S x)"
    "finish (ctxs S x) \<Longrightarrow> finish (ctxs S' x)" "next_ctx S' = next_ctx S" "fsent S' = fsent S" for x
    using r by (simp_all add: retires_def same_ctx_def)
  have "names_ok M S'" using i(3) unfolding names_ok_def c(1) c(6,7) .
  moreover have "openings_ok M S'" using i(4) unfolding openings_ok_def c(1) c(6) .
  moreover have "flows M S'" using i(5) flow_fin c(5) unfolding flows_def c(1) c(2) c(3) c(4) c(6) c(7) by blast
  ultimately show ?thesis using i(1) ok by (simp add: pair_inv_def)
qed

lemma retires_refl [simp]: "retires st st"
  by (simp add: retires_def same_ctx_def)

lemma retires_trans: "retires st st' \<Longrightarrow> retires st' st'' \<Longrightarrow> retires st st''"
  by (auto simp: retires_def same_ctx_def)

lemma handle_closed_retires:
  assumes "side_ok st"
  shows "retires st (handle_closed st) \<and> side_ok (handle_closed st)"
proof (cases "closes st")
  case (Cons a as)
  have "awaiting (handle_closed st) = awaiting st" using Cons by (auto simp: handle_closed_def FreeContextCallBack_def awaiting_def)
  then show ?thesis using assms Cons
    by (simp add: retires_def same_ctx_def handle_closed_def FreeContextCallBack_def side_ok_def query_ctx_def)
qed (simp add: handle_closed_def assms)

text \<open>A step that changes nothing of this is such a callback, too.\<close>

lemma retires_quiet:
  assumes ok: "side_ok st" and r: "retires st st'" and f: "\<And>x. finish (ctxs st' x) = finish (ctxs st x)"
    and m: "mapCtxPoint st' = mapCtxPoint st" and w: "awaiting st' = awaiting st"
  shows "side_ok st'"
proof -
  have c: "ctx_id (ctxs st' x) = ctx_id (ctxs st x)" "next_ctx st' = next_ctx st" "connects st' = connects st"
    "idles st' = idles st" for x using r by (simp_all add: retires_def same_ctx_def)
  show ?thesis using ok unfolding side_ok_def query_ctx_def c(1) c(2-4) f m w .
qed

lemma funcReqClose_retires:
  assumes "side_ok st"
  shows "retires st (funcReqClose st) \<and> side_ok (funcReqClose st)"
proof -
  have r: "retires st (funcReqClose st)"
    by (auto simp: retires_def same_ctx_def funcReqClose_def upd_ctx_def split: list.split)
  have "side_ok (funcReqClose st)"
    by (rule retires_quiet [OF assms r])
      (auto simp: funcReqClose_def awaiting_def upd_ctx_def split: list.split)
  with r show ?thesis by blast
qed

lemma io_completed_retires:
  assumes "side_ok st"
  shows "retires st (io_completed a st) \<and> side_ok (io_completed a st)"
proof -
  have r: "retires st (io_completed a st)" by (simp add: retires_def same_ctx_def io_completed_def upd_ctx_def)
  have "side_ok (io_completed a st)"
    by (rule retires_quiet [OF assms r]) (simp_all add: io_completed_def upd_ctx_def awaiting_def)
  with r show ?thesis by blast
qed

lemma next_loop_retires:
  assumes "side_ok st"
  shows "retires st (next_loop st) \<and> side_ok (next_loop st)"
proof (cases "frees st")
  case (Cons a as)
  note o = side_okD [OF assms]
  let ?st = "next_loop st"
  have aw: "a \<in> awaiting st" using Cons by (simp add: awaiting_def)
  have c: "ctxs ?st = (ctxs st)(a := (ctxs st a)\<lparr>deleted := True, reading := False\<rparr>)"
    using Cons by (simp add: next_loop_def AdminContext_def upd_ctx_def)
  have q: "query_ctx i ?st = (if i = ctx_id (ctxs st a) then None else query_ctx i st)" for i
    using Cons by (simp add: next_loop_def AdminContext_def upd_ctx_def query_ctx_def map_of_mp_erase)
  have f: "next_ctx ?st = next_ctx st" "fsent ?st = fsent st" "connects ?st = connects st" "idles ?st = idles st"
    "awaiting ?st \<subseteq> awaiting st" "mapCtxPoint ?st = mp_erase (ctx_id (ctxs st a)) (mapCtxPoint st)"
    using Cons by (auto simp: next_loop_def AdminContext_def upd_ctx_def awaiting_def)
  have g: "ctx_id (ctxs ?st x) = ctx_id (ctxs st x)" "finish (ctxs ?st x) = finish (ctxs st x)" for x
    using c by simp_all
  have "side_ok ?st"
    unfolding side_ok_def q g f(1,3,4)
  proof (intro conjI)
    show "mp_wf (mapCtxPoint ?st)" using o(1) f(6) by (simp add: mp_wf_erase)
    show "\<forall>i x. (if i = ctx_id (ctxs st a) then None else query_ctx i st) = Some x \<longrightarrow> x < next_ctx st \<and> ctx_id (ctxs st x) = i"
      using o(2,3) by simp
    show "\<forall>x < next_ctx st. finish (ctxs st x) \<or>
        (if ctx_id (ctxs st x) = ctx_id (ctxs st a) then None else query_ctx (ctx_id (ctxs st x)) st) = Some x"
      using o(4) o(5) [of _ a] o(6,7) [OF aw] by metis
  qed (use o(5-9) f(5) in blast)+
  then show ?thesis using c f by (simp add: retires_def same_ctx_def)
qed (simp add: next_loop_def assms)

lemma FreeContext_retires:
  assumes "side_ok st" and "a < next_ctx st"
  shows "retires st (FreeContext e a False st) \<and> side_ok (FreeContext e a False st)"
proof -
  note t = touchesD [OF FreeContext_touches [of a st e False]]
  have s: "fsent (FreeContext e a False st) = fsent st" "connects (FreeContext e a False st) = connects st"
    "idles (FreeContext e a False st) = idles st"
    by (auto simp: FreeContext_def Let_def upd_ctx_def close_handle_def FreeContextCallBack_def FreeJDWP_def split: FORWARD_TYPE.split)
  have "same_ctx (ctxs st x) (ctxs (FreeContext e a False st) x) \<and> (reading (ctxs (FreeContext e a False st) x) \<longrightarrow> reading (ctxs st x))" for x
    using t(3) [of x] t(4,5) by (cases "x = a") (simp_all add: same_ctx_def)
  then show ?thesis using s t(2) side_ok_touches [OF assms(1) FreeContext_touches assms(2)] by (simp add: retires_def)
qed

lemma StopTask_retires:
  assumes "side_ok st"
  shows "retires st (StopTask e st) \<and> side_ok (StopTask e st)"
proof -
  let ?f = "\<lambda>(cid :: u32, a). FreeContext e a False"
  have fold: "retires s (fold ?f xs s) \<and> side_ok (fold ?f xs s) \<and> mapCtxPoint (fold ?f xs s) = mapCtxPoint s
      \<and> (\<forall>(i, a) \<in> set xs. finish (ctxs (fold ?f xs s) a))"
    if "side_ok s" "\<forall>(i, a) \<in> set xs. a < next_ctx s" for xs s
    using that
  proof (induction xs arbitrary: s)
    case (Cons x xs)
    obtain i a where x: "x = (i, a)" by fastforce
    let ?s = "FreeContext e a False s"
    have r: "retires s ?s" "side_ok ?s" "next_ctx ?s = next_ctx s"
      using FreeContext_retires [of s a e] Cons.prems x by (auto simp: retires_def)
    have ih: "retires ?s (fold ?f xs ?s)" "side_ok (fold ?f xs ?s)" "mapCtxPoint (fold ?f xs ?s) = mapCtxPoint ?s"
      "\<forall>(i, a) \<in> set xs. finish (ctxs (fold ?f xs ?s) a)"
      using Cons.IH [of ?s] Cons.prems r x by auto
    have "finish (ctxs (fold ?f xs ?s) a)"
      using ih(1) FreeContext_finish [of e a False s] by (simp add: retires_def same_ctx_def)
    then show ?case using retires_trans [OF r(1) ih(1)] ih x touchesD(1) [OF FreeContext_touches [of a s e False]] by simp
  qed simp
  let ?st = "fold ?f (mapCtxPoint st) st"
  have b: "a < next_ctx st" if "(i, a) \<in> set (mapCtxPoint st)" for i a
    using that side_okD(1,2) [OF assms] mp_wf_distinct map_of_is_SomeI by (metis query_ctx_def)
  note f = fold [OF assms, of "mapCtxPoint st"]
  have r: "retires st ?st" "side_ok ?st" "mapCtxPoint ?st = mapCtxPoint st" "(i, a) \<in> set (mapCtxPoint st) \<Longrightarrow> finish (ctxs ?st a)" for i a
    using f b by auto
  have fin: "finish (ctxs ?st x)" if "x < next_ctx ?st" for x
  proof (cases "query_ctx (ctx_id (ctxs ?st x)) ?st = Some x")
    case True
    then have "(ctx_id (ctxs ?st x), x) \<in> set (mapCtxPoint st)" using r(3) by (simp add: query_ctx_def map_of_SomeD)
    then show ?thesis by (rule r(4))
  qed (use side_okD(4) [OF r(2) that] in blast)
  have "side_ok (StopTask e st)"
    using r(2) fin by (simp add: StopTask_def side_ok_def query_ctx_def awaiting_def mp_wf_Nil)
  moreover have "retires st (StopTask e st)" using r(1) by (simp add: StopTask_def retires_def)
  ultimately show ?thesis by blast
qed

end
