(* ===== verification/Hdc_ForwardRun.thy ===== *)
theory Hdc_ForwardRun
  imports Hdc_ForwardLink "HOL-Library.Code_Target_Nat"
begin

text \<open>
  A forward as a system: the side that was told to forward (near), the side that connects (far) and
  the two queues of packets between their tasks, with every order in which commands, sockets and
  callbacks can come. Packets between the sides are handled in the order in which they were sent.
\<close>

section \<open>Events\<close>

text \<open>What libuv reports to one side. \<open>ev_env\<close> has the answers of the system at that moment.\<close>

datatype side_event =
    Readable nat "bytes option"
  | Written nat int
  | Connected int
  | Idle
  | DevIdle
  | IoCompleted nat
  | Closed
  | Loop
  | Stop

definition side_step :: "forward_env \<Rightarrow> side_event \<Rightarrow> HdcForward \<Rightarrow> HdcForward option" where
  "side_step e ev st = (case ev of
     Readable a n \<Rightarrow>
       if a < next_ctx st \<and> reading (ctxs st a) \<and> (case n of None \<Rightarrow> True | Some d \<Rightarrow> length d \<le> 2 * MAX_SIZE_IOBUF)
       then Some (ReadForwardBuf e a n st) else None
   | Written a status \<Rightarrow>
       if a < next_ctx st \<and> \<not> deleted (ctxs st a) then Some (SendCallbackForwardBuf e a status st) else None
   | Connected status \<Rightarrow> Some (ConnectTarget e status st)
   | Idle \<Rightarrow> Some (SetupJdwpPointCallBack e st)
   | DevIdle \<Rightarrow> Some (funcReqClose st)
   | IoCompleted a \<Rightarrow> if a < next_ctx st \<and> 0 < refIO (ctxs st a) then Some (io_completed a st) else None
   | Closed \<Rightarrow> Some (handle_closed st)
   | Loop \<Rightarrow> Some (next_loop st)
   | Stop \<Rightarrow> Some (StopTask e st))"

definition fresh_ctx_id :: "nat \<Rightarrow> HdcForward \<Rightarrow> bool" where
  "fresh_ctx_id now st \<longleftrightarrow> (\<forall>x \<in> set [0..<next_ctx st]. ctx_id (ctxs st x) \<noteq> word_of_nat now)"

datatype forward_event =
    Begin nat string
  | Accept nat nat int
  | FarCommand nat
  | NearCommand nat
  | Near side_event
  | Far side_event

text \<open>The head of a queue is handled by the task on the other side.\<close>

definition handle_head :: "forward_env \<Rightarrow> nat \<Rightarrow> HdcForward \<Rightarrow> HdcForward \<Rightarrow> (HdcForward \<times> HdcForward) option" where
  "handle_head e now sender receiver = (case fsent sender of
     [] \<Rightarrow> None
   | (c, payload) # q \<Rightarrow>
       map_option (\<lambda>r. (sender\<lparr>fsent := q\<rparr>, r)) (task_command e now c payload receiver))"

definition forward_step :: "forward_env \<Rightarrow> forward_event \<Rightarrow> HdcForward \<times> HdcForward \<Rightarrow> (HdcForward \<times> HdcForward) option" where
  "forward_step e ev = (\<lambda>(M, S). case ev of
     Begin now command \<Rightarrow>
       if fresh_ctx_id now M
       then map_option (\<lambda>M'. (M', S)) (task_command e now (cmd CMD_FORWARD_INIT) (bytes_of command) M) else None
   | Accept now listen status \<Rightarrow>
       if listen < next_ctx M \<and> \<not> deleted (ctxs M listen) \<and> ftype (ctxs M listen) \<noteq> FORWARD_DEVICE \<and> fresh_ctx_id now M
       then Some (ListenCallback e now listen status M, S) else None
   | FarCommand now \<Rightarrow> if fresh_ctx_id now S then handle_head e now M S else None
   | NearCommand now \<Rightarrow> map_option (\<lambda>(S', M'). (M', S')) (handle_head e now S M)
   | Near ev \<Rightarrow> map_option (\<lambda>M'. (M', S)) (side_step e ev M)
   | Far ev \<Rightarrow> map_option (\<lambda>S'. (M, S')) (side_step e ev S))"

definition new_HdcForward :: "bool \<Rightarrow> HdcForward" where
  "new_HdcForward server =
     \<lparr> mapCtxPoint = [], ctxs = (\<lambda>_. new_ContextForward False 0), next_ctx = 0, refCount = 0, taskCommand = '''',
       serverOrDaemon = server, closes = [], frees = [], connects = [], idles = [], dev_idles = [], fsent = [], commands = [],
       log = [], finishes = 0 \<rparr>"

text \<open>Reachable while the session between the two lives: what is sent is queued.\<close>

inductive forward_reach :: "HdcForward \<Rightarrow> HdcForward \<Rightarrow> bool" where
  start: "forward_reach (new_HdcForward server) (new_HdcForward (\<not> server))"
| step: "forward_reach M S \<Longrightarrow> can_send e \<Longrightarrow> forward_step e ev (M, S) = Some (M', S') \<Longrightarrow> forward_reach M' S'"

section \<open>Every step keeps the invariant\<close>

lemma fresh_ctx_idD: "fresh_ctx_id now st \<Longrightarrow> \<forall>x < next_ctx st. ctx_id (ctxs st x) \<noteq> word_of_nat now"
  by (simp add: fresh_ctx_id_def)

lemma start_inv: "pair_inv (new_HdcForward s) (new_HdcForward t)"
  by (simp add: pair_inv_def side_ok_def names_ok_def openings_ok_def flows_def new_HdcForward_def query_ctx_def
      awaiting_def mp_wf_Nil)

lemma ReadForwardBuf_sent:
  "can_send e \<Longrightarrow> length d \<le> 2 * MAX_SIZE_IOBUF \<Longrightarrow> ReadForwardBuf e a (Some d) st = read_in a d st"
  by (simp add: ReadForwardBuf_def read_in_def SendToTask_def data_msg_def upd_ctx_def)

text \<open>A callback of a list of callbacks is taken.\<close>

lemma pair_shrinks:
  assumes "pair_inv M S" and "set cs \<subseteq> set (connects S)" and "set xs \<subseteq> set (idles M)" and "set ys \<subseteq> set (idles S)"
  shows "pair_inv (M\<lparr>idles := xs\<rparr>) (S\<lparr>connects := cs, idles := ys\<rparr>)"
proof -
  note i = pair_invD [OF assms(1)]
  have "side_ok (M\<lparr>idles := xs\<rparr>)" using i(1) assms(3) by (auto simp: side_ok_def query_ctx_def awaiting_def)
  moreover have "side_ok (S\<lparr>connects := cs, idles := ys\<rparr>)"
    using i(2) assms(2,4) by (auto simp: side_ok_def query_ctx_def awaiting_def)
  moreover have "names_ok (M\<lparr>idles := xs\<rparr>) (S\<lparr>connects := cs, idles := ys\<rparr>)" using i(3) by (simp add: names_ok_def)
  moreover have "unused M a \<Longrightarrow> unused (M\<lparr>idles := xs\<rparr>) a" for a using assms(3) by (auto simp: unused_def)
  then have "openings_ok (M\<lparr>idles := xs\<rparr>) (S\<lparr>connects := cs, idles := ys\<rparr>)" using i(4) by (simp add: openings_ok_def)
  moreover have "flows (M\<lparr>idles := xs\<rparr>) (S\<lparr>connects := cs, idles := ys\<rparr>)" using i(5) by (simp add: flows_def)
  ultimately show ?thesis by (simp add: pair_inv_def)
qed

lemma near_refs [simp]: "pair_inv (M\<lparr>refCount := n\<rparr>) S = pair_inv M S"
  by (rule pair_quiet) (simp_all add: quiet_def)

lemma far_refs [simp]: "pair_inv M (S\<lparr>refCount := n\<rparr>) = pair_inv M S"
  by (rule pair_quiet) (simp_all add: quiet_def)

lemma near_frees:
  "pair_inv M S \<Longrightarrow> a < next_ctx M \<Longrightarrow> pair_inv (FreeContext e a n M) S"
  by (rule near_touches [OF _ FreeContext_touches]) simp_all

lemma far_frees:
  "pair_inv M S \<Longrightarrow> b < next_ctx S \<Longrightarrow> pair_inv M (FreeContext e b n S)"
  by (rule far_touches [OF _ FreeContext_touches])

lemma near_side:
  assumes inv: "pair_inv M S" and e: "can_send e" and s: "side_step e ev M = Some M'"
  shows "pair_inv M' S"
proof (cases ev)
  case (Readable a n)
  then have a: "a < next_ctx M" "reading (ctxs M a)" using s by (auto simp: side_step_def split: if_splits)
  show ?thesis
  proof (cases n)
    case None
    then show ?thesis using Readable s a near_frees [OF inv a(1), of e True]
      by (auto simp: side_step_def ReadForwardBuf_def)
  next
    case (Some d)
    then have "M' = read_in a d M" using Readable s ReadForwardBuf_sent [OF e]
      by (auto simp: side_step_def split: if_splits)
    then show ?thesis using near_read [OF inv a] by simp
  qed
next
  case (Written a status)
  then show ?thesis using s inv near_frees [OF inv, of a e True]
    by (auto simp: side_step_def SendCallbackForwardBuf_def split: if_splits)
next
  case (Connected status)
  then show ?thesis using s inv names_okD(7) [OF pair_invD(3) [OF inv]]
    by (simp add: side_step_def ConnectTarget_def)
next
  case Idle
  show ?thesis
  proof (cases "idles M")
    case Nil
    then show ?thesis using Idle s inv by (simp add: side_step_def SetupJdwpPointCallBack_def)
  next
    case (Cons a as)
    note i = pair_invD [OF inv]
    let ?M = "M\<lparr>idles := as\<rparr>"
    have a: "a < next_ctx M" using side_okD(9) [OF i(1)] Cons by simp
    have "msg_id m \<noteq> ctx_id (ctxs M a)" if "m \<in> set (fsent M)" "fst m = cmd CMD_FORWARD_ACTIVE_SLAVE" for m
    proof
      assume "msg_id m = ctx_id (ctxs M a)"
      then have "unused M a" using openings_okD(3) [OF i(4) that a] by simp
      then show False using Cons by (simp add: unused_def)
    qed
    moreover have "pair_inv ?M S" using pair_shrinks [OF inv, of "connects S" as "idles S"] Cons by auto
    ultimately have "pair_inv (snd (SetupPointContinue e a 1 ?M)) S"
      using a by (intro near_touches [OF _ SetupPointContinue_touches]) simp_all
    then show ?thesis using Idle s Cons by (auto simp: side_step_def SetupJdwpPointCallBack_def Let_def)
  qed
qed (use s near_retires [OF inv] handle_closed_retires next_loop_retires StopTask_retires funcReqClose_retires
    io_completed_retires pair_invD(1) [OF inv] in \<open>auto simp: side_step_def split: if_splits\<close>)

lemma far_side:
  assumes inv: "pair_inv M S" and e: "can_send e" and s: "side_step e ev S = Some S'"
  shows "pair_inv M S'"
proof (cases ev)
  case (Readable b n)
  then have b: "b < next_ctx S" using s by (auto simp: side_step_def split: if_splits)
  show ?thesis
  proof (cases n)
    case None
    then show ?thesis using Readable s b far_frees [OF inv b, of e True]
      by (auto simp: side_step_def ReadForwardBuf_def split: if_splits)
  next
    case (Some d)
    then have "S' = read_in b d S" using Readable s ReadForwardBuf_sent [OF e]
      by (auto simp: side_step_def split: if_splits)
    then show ?thesis using far_read [OF inv b] by simp
  qed
next
  case (Written b status)
  then show ?thesis using s inv far_frees [OF inv, of b e True]
    by (auto simp: side_step_def SendCallbackForwardBuf_def split: if_splits)
next
  case (Connected status)
  show ?thesis
  proof (cases "connects S")
    case (Cons b bs)
    have "b < next_ctx S" using side_okD(8) [OF pair_invD(2) [OF inv]] Cons by simp
    moreover have "pair_inv M (S\<lparr>connects := bs\<rparr>)" using pair_shrinks [OF inv, of bs "idles M" "idles S"] Cons by auto
    ultimately have "pair_inv M (snd (SetupPointContinue e b status (S\<lparr>connects := bs\<rparr>)))"
      by (intro far_touches [OF _ SetupPointContinue_touches]) simp_all
    then show ?thesis using Connected s Cons by (auto simp: side_step_def ConnectTarget_def)
  qed (use Connected s inv in \<open>simp add: side_step_def ConnectTarget_def\<close>)
next
  case Idle
  show ?thesis
  proof (cases "idles S")
    case (Cons b bs)
    have "b < next_ctx S" using side_okD(9) [OF pair_invD(2) [OF inv]] Cons by simp
    moreover have "pair_inv M (S\<lparr>idles := bs\<rparr>)" using pair_shrinks [OF inv, of "connects S" "idles M" bs] Cons by auto
    ultimately have "pair_inv M (snd (SetupPointContinue e b 1 (S\<lparr>idles := bs\<rparr>)))"
      by (intro far_touches [OF _ SetupPointContinue_touches]) simp_all
    then show ?thesis using Idle s Cons by (auto simp: side_step_def SetupJdwpPointCallBack_def Let_def)
  qed (use Idle s inv in \<open>simp add: side_step_def SetupJdwpPointCallBack_def\<close>)
qed (use s far_retires [OF inv] handle_closed_retires next_loop_retires StopTask_retires funcReqClose_retires
    io_completed_retires pair_invD(2) [OF inv] in \<open>auto simp: side_step_def split: if_splits\<close>)

text \<open>A packet that arrives at the far side, and one that arrives at the near side.\<close>

lemma far_command:
  assumes inv: "pair_inv M S" and fresh: "fresh_ctx_id now S" and h: "handle_head e now M S = Some (M', S')"
  shows "pair_inv M' S'"
proof -
  obtain c payload q where q: "fsent M = (c, payload) # q" "M' = M\<lparr>fsent := q\<rparr>"
    "task_command e now c payload S = Some S'" using h by (auto simp: handle_head_def split: list.splits)
  note i = pair_invD [OF inv]
  have ni: "c \<noteq> cmd CMD_FORWARD_INIT" using names_okD(6) [OF i(3), of "(c, payload)"] q(1) by simp
  from q(3) show ?thesis
  proof (cases rule: task_command_cases)
    case init
    then show ?thesis using ni by blast
  next
    case (slave r t st1)
    have "pair_inv (M\<lparr>fsent := q\<rparr>) st1" by (rule far_opens [OF inv q(1) slave(2,3) fresh_ctx_idD [OF fresh]])
    then show ?thesis using pair_quiet [OF quiet_refl slave(4)] q(2) by blast
  next
    case (dispatch r st1)
    obtain i' d where f: "FilterCommand payload = Some (i', d)" using dispatch(3)
      by (cases "FilterCommand payload") (auto simp: ForwardCommandDispatch_def)
    note fm = FilterCommand_msg [OF f, of c]
    have "pair_inv (M\<lparr>fsent := q\<rparr>) st1"
    proof (cases "c = cmd CMD_FORWARD_DATA")
      case True
      have r: "st1 = S \<and> (\<forall>b. query_ctx i' S = Some b \<longrightarrow> finish (ctxs S b))
          \<or> (\<exists>b. query_ctx i' S = Some b \<and> \<not> finish (ctxs S b) \<and> (touches False b S st1 \<and> finish (ctxs st1 b) \<or> st1 = write_out b d S))"
        using dispatch_data [OF dispatch(3) [unfolded True] f] by (simp only: write_out_def)
      show ?thesis by (rule far_data [OF inv q(1) _ _ r [unfolded conjunct1 [OF fm]]]) (use True fm in simp_all)
    next
      case False
      have pop: "pair_inv (M\<lparr>fsent := q\<rparr>) S" by (rule near_pop [OF inv q(1)]) (use False in simp)
      show ?thesis using dispatch_other [OF dispatch(3) False f] pop side_okD(2) [OF i(2)]
        by (auto split: option.splits intro: far_touches)
    qed
    then show ?thesis using pair_quiet [OF quiet_refl dispatch(4)] q(2) by blast
  qed
qed

lemma near_command:
  assumes inv: "pair_inv M S" and h: "handle_head e now S M = Some (S', M')"
  shows "pair_inv M' S'"
proof -
  obtain c payload q where q: "fsent S = (c, payload) # q" "S' = S\<lparr>fsent := q\<rparr>"
    "task_command e now c payload M = Some M'" using h by (auto simp: handle_head_def split: list.splits)
  note i = pair_invD [OF inv]
  have m: "(c, payload) \<in> set (fsent S)" using q(1) by simp
  have ni: "c \<noteq> cmd CMD_FORWARD_INIT" "\<not> opening_msg (c, payload)"
    using names_okD(4,5) [OF i(3) m] by simp_all
  obtain b where b: "b < next_ctx S" "msg_id (c, payload) = ctx_id (ctxs S b)" using names_okD(3) [OF i(3) m] by blast
  from q(3) show ?thesis
  proof (cases rule: task_command_cases)
    case (dispatch r st1)
    obtain i' d where f: "FilterCommand payload = Some (i', d)" using dispatch(3)
      by (cases "FilterCommand payload") (auto simp: ForwardCommandDispatch_def)
    note fm = FilterCommand_msg [OF f, of c]
    have "pair_inv st1 (S\<lparr>fsent := q\<rparr>)"
    proof (cases "c = cmd CMD_FORWARD_DATA")
      case True
      have r: "st1 = M \<and> (\<forall>a. query_ctx i' M = Some a \<longrightarrow> finish (ctxs M a))
          \<or> (\<exists>a. query_ctx i' M = Some a \<and> \<not> finish (ctxs M a) \<and> (touches False a M st1 \<and> finish (ctxs st1 a) \<or> st1 = write_out a d M))"
        using dispatch_data [OF dispatch(3) [unfolded True] f] by (simp only: write_out_def)
      show ?thesis by (rule near_data [OF inv q(1) _ _ r [unfolded conjunct1 [OF fm]]]) (use True fm in simp_all)
    next
      case False
      have pop: "pair_inv M (S\<lparr>fsent := q\<rparr>)" by (rule far_pop [OF inv q(1)]) (use False in simp)
      show ?thesis
      proof (cases "query_ctx i' M")
        case None
        then show ?thesis using dispatch_other [OF dispatch(3) False f] pop by simp
      next
        case (Some a)
        have "msg_id m' \<noteq> ctx_id (ctxs M a)" if "m' \<in> set (fsent M)" "fst m' = cmd CMD_FORWARD_ACTIVE_SLAVE" for m'
          using openings_okD(2) [OF i(4) that(1) _ b(1)] that(2) b(2) side_okD(3) [OF i(1) Some] fm
          by (auto simp: opening_msg_def)
        then show ?thesis using dispatch_other [OF dispatch(3) False f] Some
            near_touches [OF pop _ side_okD(2) [OF i(1) Some]] by simp
      qed
    qed
    then show ?thesis using pair_quiet [OF dispatch(4) quiet_refl] q(2) by blast
  qed (use ni in blast)+
qed

text \<open>A context that only gets its fields filled in stays unused.\<close>

lemma unused_touches:
  assumes "touches False a M M'" and "unused M a" and "a \<notin> set (idles M)"
  shows "unused M' a"
proof -
  have "data_of j (fsent M') = data_of j (fsent M)" for j using saysD [OF touchesD(6) [OF assms(1)]] by metis
  then show ?thesis using assms ctx_touches [OF assms(1), of a] touchesD(5,8) [OF assms(1)] by (auto simp: unused_def)
qed

lemma near_sends_opening:
  assumes inv: "pair_inv M S" and a: "a < next_ctx M" and c: "opening_msg (cmd c, [])"
    and new: "\<And>m. m \<in> set (fsent M) \<Longrightarrow> opening_msg m \<Longrightarrow> msg_id m \<noteq> ctx_id (ctxs M a)"
      "\<And>b. b < next_ctx S \<Longrightarrow> ctx_id (ctxs S b) \<noteq> ctx_id (ctxs M a)"
    and u: "cmd c = cmd CMD_FORWARD_ACTIVE_SLAVE \<Longrightarrow> unused M a"
  shows "pair_inv (snd (SendToTask e (ctx_id (ctxs M a)) c b M)) S"
proof -
  have "opening_msg (cmd c, x)" for x using c unfolding opening_msg_def by (simp only: fst_conv)
  then have "pair_inv (M\<lparr>fsent := fsent M @ [(cmd c, be_enc 4 (unat (ctx_id (ctxs M a))) @ b)]\<rparr>) S"
    using new u by (intro near_opens [OF inv a]) (simp_all only: msg_id_put fst_conv, blast+)
  then show ?thesis using inv by (simp add: SendToTask_def)
qed

lemma says_openings:
  assumes "says i M M'" and "m \<in> set (fsent M')" and "opening_msg m"
  shows "m \<in> set (fsent M)"
proof -
  have "m \<in> set (filter opening_msg (fsent M'))" using assms(2,3) by simp
  then show ?thesis using saysD [OF assms(1)] by (metis filter_is_subset subsetD)
qed

lemma near_begin:
  assumes inv: "pair_inv M S" and fresh: "fresh_ctx_id now M" and b: "BeginForward e now command M = Some (r, t, M')"
  shows "pair_inv M' S"
proof -
  obtain a M1 where m: "MallocContext now True M = (a, M1)" by fastforce
  note n = near_Malloc [OF inv m fresh_ctx_idD [OF fresh]]
  have st: "pair_inv M2 S" if "touches True a M1 M2" for M2
    by (rule near_touches [OF n(1) that n(2)]) (use n(4,5) in simp)
  have sent: "pair_inv (snd (SendToTask e (ctx_id (ctxs M2 a)) CMD_FORWARD_CHECK p M2)) S" if t: "touches True a M1 M2" for M2 p
  proof (rule near_sends_opening [OF st [OF t]])
    have i: "ctx_id (ctxs M2 a) = word_of_nat now" using ctx_touches(1) [OF t] n(4) by simp
    show "a < next_ctx M2" using n(2) touchesD(2) [OF t] by simp
    show "msg_id m \<noteq> ctx_id (ctxs M2 a)" if "m \<in> set (fsent M2)" "opening_msg m" for m
      using n(5) says_openings [OF touchesD(6) [OF t] that] i by simp
    show "b < next_ctx S \<Longrightarrow> ctx_id (ctxs S b) \<noteq> ctx_id (ctxs M2 a)" for b using n(6) i by simp
  qed (simp_all add: opening_msg_def)
  have sp: "touches True a M1 M2"
    if "SetupPoint e a (upd_ctx a (\<lambda>c. c\<lparr>localArgs := la, remoteArgs := ra, remoteParamenters := p\<rparr>) M1) = Some (x, M2)" for la ra p x M2
  proof -
    have "touches True a M1 (upd_ctx a (\<lambda>c. c\<lparr>localArgs := la, remoteArgs := ra, remoteParamenters := p\<rparr>) M1)"
      by (rule touches_upd) simp
    then show ?thesis by (rule touches_trans [OF _ SetupPoint_touches [OF that]])
  qed
  have q: "pair_inv (X\<lparr>taskCommand := tc\<rparr>) S = pair_inv X S" for X tc by (rule pair_quiet) (simp_all add: quiet_def)
  note res = st [OF touches_refl] st [OF touches_fields(5)] st [OF sp] sent [OF sp]
  have "case BeginForward e now command M of None \<Rightarrow> True | Some (r, t, X) \<Rightarrow> pair_inv X S"
    by (auto simp: BeginForward_def Let_def q m split: option.split prod.split intro: res)
  then show ?thesis using b by simp
qed

lemma near_accept:
  assumes inv: "pair_inv M S" and fresh: "fresh_ctx_id now M" and l: "listen < next_ctx M"
  shows "pair_inv (ListenCallback e now listen status M) S"
proof (cases "status = -1 \<or> \<not> ready (ctxs M listen)")
  case True
  then have "ListenCallback e now listen status M = TaskFinish (FreeContext e listen False M)" by (auto simp: ListenCallback_def Let_def)
  moreover have "pair_inv (TaskFinish X) S = pair_inv X S" for X by (rule pair_quiet) simp_all
  ultimately show ?thesis using near_frees [OF inv l] by simp
next
  case False
  obtain a M1 where m: "MallocContext now True M = (a, M1)" by fastforce
  note n = near_Malloc [OF inv m fresh_ctx_idD [OF fresh]]
  let ?f = "\<lambda>x. if ftype (ctxs M listen) = FORWARD_TCP then x\<lparr>tcp_loop := True\<rparr> else x\<lparr>pipe_loop := True\<rparr>"
  let ?M2 = "upd_ctx a ?f M1"
  let ?M3 = "upd_ctx a (\<lambda>c. c\<lparr>ftype := ftype (ctxs ?M2 listen), remoteParamenters := remoteParamenters (ctxs ?M2 listen)\<rparr>) ?M2"
  have t2: "touches False a M1 ?M2" by (rule touches_upd) simp
  have t3: "touches False a M1 ?M3" by (rule touches_trans [OF t2 touches_upd]) simp
  have st: "pair_inv X S" if "touches False a M1 X" for X by (rule near_touches [OF n(1) that n(2)]) simp
  have f: "pair_inv (FreeContext e a False X) S" if "touches False a M1 X" for X
    by (rule st [OF touches_trans [OF that FreeContext_touches]])
  have ids: "ctx_id (ctxs ?M2 a) = word_of_nat now" "ctx_id (ctxs ?M3 a) = word_of_nat now"
    using ctx_touches(1) [OF t2, of a] ctx_touches(1) [OF t3, of a] n(4) by simp_all
  have "pair_inv (snd (SendToTask e (ctx_id (ctxs ?M3 a)) CMD_FORWARD_ACTIVE_SLAVE p ?M3)) S" for p
  proof (rule near_sends_opening [OF st [OF t3]])
    show "a < next_ctx ?M3" using n(2) touchesD(2) [OF t3] by simp
    show "msg_id m \<noteq> ctx_id (ctxs ?M3 a)" if "m \<in> set (fsent ?M3)" "opening_msg m" for m
      unfolding ids by (rule n(5)) (use says_openings [OF touchesD(6) [OF t3] that] in simp)
    show "b < next_ctx S \<Longrightarrow> ctx_id (ctxs S b) \<noteq> ctx_id (ctxs ?M3 a)" for b unfolding ids by (rule n(6))
    show "unused ?M3 a" by (rule unused_touches [OF t3 n(3)]) (use n(3) in \<open>simp add: unused_def\<close>)
  qed (simp add: opening_msg_def)
  then have sent: "pair_inv (snd (SendToTask e (ctx_id (ctxs ?M2 a)) CMD_FORWARD_ACTIVE_SLAVE p ?M3)) S" for p
    unfolding ids .
  have "ListenCallback e now listen status M = OnAccept e listen a ?M2"
    using False m by (simp add: ListenCallback_def Let_def)
  then show ?thesis using sent f [OF t2] f [OF t3] by (auto simp: OnAccept_def Let_def)
qed

lemma forward_step_inv:
  assumes inv: "pair_inv M S" and e: "can_send e" and s: "forward_step e ev (M, S) = Some (M', S')"
  shows "pair_inv M' S'"
proof (cases ev)
  case (Begin now command)
  then have t: "fresh_ctx_id now M" "task_command e now (cmd CMD_FORWARD_INIT) (bytes_of command) M = Some M'" "S' = S"
    using s by (auto simp: forward_step_def split: if_splits)
  from t(2) show ?thesis
  proof (cases rule: task_command_cases)
    case (init r u st1)
    then show ?thesis using near_begin [OF inv t(1) init(2)] t(3) pair_quiet [OF init(3) quiet_refl] by blast
  qed simp_all
next
  case (Accept now listen status)
  then show ?thesis using s near_accept [OF inv, of now listen e status] by (auto simp: forward_step_def split: if_splits)
next
  case (FarCommand now)
  then show ?thesis using s far_command [OF inv, of now e M' S'] by (auto simp: forward_step_def split: if_splits)
next
  case (NearCommand now)
  then show ?thesis using s near_command [OF inv, of e now S' M'] by (auto simp: forward_step_def)
next
  case (Near ev')
  then show ?thesis using s near_side [OF inv e, of ev' M'] by (auto simp: forward_step_def)
next
  case (Far ev')
  then show ?thesis using s far_side [OF inv e, of ev' S'] by (auto simp: forward_step_def)
qed

lemma forward_reach_inv: "forward_reach M S \<Longrightarrow> pair_inv M S"
  by (induction rule: forward_reach.induct) (rule start_inv, rule forward_step_inv)

section \<open>Runs\<close>

primrec forward_run :: "(forward_env \<times> forward_event) list \<Rightarrow> HdcForward \<times> HdcForward \<Rightarrow> (HdcForward \<times> HdcForward) option" where
  "forward_run [] s = Some s"
| "forward_run (x # xs) s = (case forward_step (fst x) (snd x) s of None \<Rightarrow> None | Some s' \<Rightarrow> forward_run xs s')"

lemma forward_run_reach:
  "forward_reach M S \<Longrightarrow> \<forall>x \<in> set xs. can_send (fst x) \<Longrightarrow> forward_run xs (M, S) = Some (M', S') \<Longrightarrow> forward_reach M' S'"
proof (induction xs arbitrary: M S)
  case (Cons x xs)
  then obtain M1 S1 where 1: "forward_step (fst x) (snd x) (M, S) = Some (M1, S1)" "forward_run xs (M1, S1) = Some (M', S')"
    by (auto split: option.splits)
  have "forward_reach M1 S1" using Cons.prems 1(1) by (auto intro: forward_reach.step)
  then show ?case using Cons.IH [of M1 S1] Cons.prems(2) 1(2) by simp
qed simp

definition fair_env :: forward_env where
  "fair_env = \<lparr> can_send = True, accept_ok = True, tcp_listen_ok = True, pipe_bind_ok = True, pipe_listen_ok = True,
     abstract_ok = True, device_fd = 3, can_write = True, is_daemon = True, CheckPIDExist = (\<lambda>_. True), jdwp_tcp_ok = True,
     jdwp_sent = True \<rparr>"

text \<open>A port is forwarded, checked, and one connection is made to it.\<close>

definition connection_events :: "(forward_env \<times> forward_event) list" where
  "connection_events = map (Pair fair_env)
     [Begin 1 ''tcp:1111 tcp:2222'', FarCommand 2, NearCommand 2, Accept 3 0 0, FarCommand 4, Far (Connected 0), NearCommand 5]"

text \<open>Bytes go both ways; one packet to the near side is not handled yet.\<close>

definition transfer_events :: "(forward_env \<times> forward_event) list" where
  "transfer_events = connection_events @ map (Pair fair_env)
     [Near (Readable 1 (Some [7, 8])), Far (Readable 1 (Some [1, 2])), FarCommand 6, Near (Readable 1 (Some [9])),
      NearCommand 7, Far (Readable 1 (Some [3])), FarCommand 8]"

text \<open>The target closes while the accepted socket is still read.\<close>

definition late_events :: "(forward_env \<times> forward_event) list" where
  "late_events = connection_events @ map (Pair fair_env)
     [Far (Readable 1 None), Far Closed, Far Loop, Far Loop, Near (Readable 1 (Some [5]))]"

lemma events_fair: "\<forall>x \<in> set transfer_events. can_send (fst x)" "\<forall>x \<in> set late_events. can_send (fst x)"
  by (simp_all add: transfer_events_def late_events_def connection_events_def fair_env_def)

lemma transfer_result:
  "case forward_run transfer_events (new_HdcForward True, new_HdcForward False) of None \<Rightarrow> False
   | Some (M, S) \<Rightarrow> next_ctx M = 2 \<and> next_ctx S = 2 \<and> ctx_id (ctxs M 1) = 3 \<and> ctx_id (ctxs S 1) = 3
       \<and> \<not> checkPoint (ctxs S 1) \<and> \<not> finish (ctxs S 1) \<and> \<not> finish (ctxs M 1)
       \<and> inbuf (ctxs M 1) = [7, 8, 9] \<and> outbuf (ctxs S 1) = [7, 8, 9] \<and> inbuf (ctxs S 1) = [1, 2, 3]
      \<and> outbuf (ctxs M 1) = [1, 2] \<and> fsent M = [] \<and> refCount M = 2"
  by code_simp

lemma transfer_reached:
  obtains M S where "forward_reach M S" "next_ctx M = 2" "next_ctx S = 2" "ctx_id (ctxs M 1) = 3" "ctx_id (ctxs S 1) = 3"
    "\<not> checkPoint (ctxs S 1)" "\<not> finish (ctxs S 1)" "\<not> finish (ctxs M 1)" "inbuf (ctxs M 1) = [7, 8, 9]"
    "outbuf (ctxs S 1) = [7, 8, 9]" "inbuf (ctxs S 1) = [1, 2, 3]" "outbuf (ctxs M 1) = [1, 2]" "fsent M = []" "refCount M = 2"
proof -
  obtain M S where r: "forward_run transfer_events (new_HdcForward True, new_HdcForward False) = Some (M, S)"
    using transfer_result by (auto split: option.splits)
  have "forward_reach M S"
    using forward_run_reach [OF forward_reach.start [of True] events_fair(1), of M S] r by simp
  then show thesis using that transfer_result r by simp
qed

section \<open>Properties\<close>

text \<open>
  C3. What a connection delivers, as long as the session between the sides lives and no side makes two
  contexts in the same millisecond (\<open>fresh_ctx_id\<close>; such contexts share their identifier, see
  \<open>same_millisecond_connections\<close>). Whatever the two sides are asked to do and whenever their callbacks
  run, the bytes given to the target of a connection are a prefix of those read from the accepted
  socket, and back; while the receiving context is alive, what is missing is exactly the data in
  the packets that it has not handled yet, in order.
\<close>

theorem forward_delivers:
  assumes "forward_reach M S" and "a < next_ctx M" and "b < next_ctx S" and "ctx_id (ctxs M a) = ctx_id (ctxs S b)"
    and "\<not> checkPoint (ctxs S b)"
  shows "prefix (outbuf (ctxs S b)) (inbuf (ctxs M a)) \<and> prefix (outbuf (ctxs M a)) (inbuf (ctxs S b))
    \<and> (\<not> finish (ctxs S b) \<longrightarrow> inbuf (ctxs M a) = outbuf (ctxs S b) @ data_of (ctx_id (ctxs S b)) (fsent M))
    \<and> (\<not> finish (ctxs M a) \<longrightarrow> inbuf (ctxs S b) = outbuf (ctxs M a) @ data_of (ctx_id (ctxs S b)) (fsent S))"
  using flowsD [OF pair_invD(5) [OF forward_reach_inv [OF assms(1)]] assms(2-5)] by (auto simp: flow_def)

theorem forward_delivers_witness:
  "\<exists>M S. forward_reach M S \<and> inbuf (ctxs M 1) = [7, 8, 9] \<and> outbuf (ctxs S 1) = [7, 8, 9] \<and> outbuf (ctxs M 1) = [1, 2]
     \<and> [1, 2, 3] = [1, 2] @ data_of 3 (fsent S)"
proof -
  obtain M S where r: "forward_reach M S" "next_ctx M = 2" "next_ctx S = 2" "ctx_id (ctxs M 1) = 3" "ctx_id (ctxs S 1) = 3"
    "\<not> checkPoint (ctxs S 1)" "\<not> finish (ctxs S 1)" "\<not> finish (ctxs M 1)" "inbuf (ctxs M 1) = [7, 8, 9]"
    "outbuf (ctxs S 1) = [7, 8, 9]" "inbuf (ctxs S 1) = [1, 2, 3]" "outbuf (ctxs M 1) = [1, 2]" "fsent M = []" "refCount M = 2"
    by (rule transfer_reached)
  show ?thesis using forward_delivers [OF r(1), of 1 1] r by (intro exI [of _ M] exI [of _ S]) simp
qed

text \<open>
  A command for a context that this side does not have, of whatever kind, ends the whole task: it is
  answered with an error and the channel is closed, with all other connections. The witness is the
  usual end of a connection: the target closes, its context is deleted, and bytes that the other
  side had read meanwhile arrive.
\<close>

theorem late_command_ends_forward:
  assumes "c \<noteq> cmd CMD_FORWARD_INIT" and "\<not> opening_msg (c, payload)" and "4 \<le> length payload"
    and "query_ctx (msg_id (c, payload)) st = None"
  shows "task_command e now c payload st = Some (TaskFinish (fail_log '''' st))"
proof -
  have c: "\<not> (c = cmd CMD_FORWARD_INIT \<or> c = cmd CMD_FORWARD_CHECK \<or> c = cmd CMD_FORWARD_ACTIVE_SLAVE)"
    using assms(1,2) unfolding opening_msg_def by (simp only: fst_conv) blast
  have "FilterCommand payload = Some (msg_id (c, payload), drop 4 payload)"
    using assms(3) by (simp add: FilterCommand_def msg_id_def)
  then have "ForwardCommandDispatch e c payload st = Some (False, st)"
    using assms(4) by (simp only: ForwardCommandDispatch_def option.simps prod.case)
  then show ?thesis
    using c unfolding task_command_def CommandDispatch_def by (simp only: if_False option.map prod.case simp_thms)
qed

lemma id_three: "word_of_nat (be_dec [0, 0, 0, 3]) = (3 :: u32)"
  by code_simp

lemma late_result:
  "case forward_run late_events (new_HdcForward True, new_HdcForward False) of None \<Rightarrow> False
   | Some (M, S) \<Rightarrow> \<not> finish (ctxs M 1) \<and> fsent M = [(cmd CMD_FORWARD_DATA, [0, 0, 0, 3, 5])] \<and> query_ctx 3 S = None"
  by code_simp

theorem late_command_ends_forward_witness:
  "\<exists>M S. forward_reach M S \<and> \<not> finish (ctxs M 1) \<and> fsent M = [(cmd CMD_FORWARD_DATA, [0, 0, 0, 3, 5])]
     \<and> task_command fair_env 9 (cmd CMD_FORWARD_DATA) [0, 0, 0, 3, 5] S = Some (TaskFinish (fail_log '''' S))"
proof -
  obtain M S where r: "forward_run late_events (new_HdcForward True, new_HdcForward False) = Some (M, S)"
    using late_result by (auto split: option.splits)
  have "forward_reach M S"
    using forward_run_reach [OF forward_reach.start [of True] events_fair(2), of M S] r by simp
  moreover have l: "\<not> finish (ctxs M 1)" "fsent M = [(cmd CMD_FORWARD_DATA, [0, 0, 0, 3, 5])]" "query_ctx 3 S = None"
    using late_result r by simp_all
  moreover have "msg_id (cmd CMD_FORWARD_DATA, [0, 0, 0, 3, 5]) = 3" by (simp add: msg_id_def id_three)
  ultimately show ?thesis
    by (intro exI [of _ M] exI [of _ S] conjI late_command_ends_forward) (simp_all add: opening_msg_def)
qed

text \<open>
  Failures of the target are not told. The answer to a check is a success whatever the far side
  found; and a device that cannot be opened is announced as connected.
\<close>

theorem target_failure_not_told:
  assumes "4 \<le> length payload" and "query_ctx (msg_id (c, payload)) st = Some b"
    and "device_fd e < 0" and "can_send e" and "\<not> checkPoint (ctxs st a)"
  shows "(\<exists>st'. ForwardCommandDispatch e (cmd CMD_FORWARD_CHECK_RESULT) payload st = Some (True, st')
      \<and> last (log st') = (MSG_OK, ''Forwardport result:OK'')
      \<and> commands st' = commands st @ [(cmd CMD_FORWARD_SUCCESS, bytes_of ((if serverOrDaemon st then ''1|'' else ''0|'') @ taskCommand st) @ [0])])
    \<and> (\<exists>st'. SetupDevicePoint e a st = (True, st') \<and> ready (ctxs st' a)
      \<and> fsent st' = fsent st @ [(cmd CMD_FORWARD_ACTIVE_MASTER, be_enc 4 (unat (ctx_id (ctxs st a))))])"
proof
  have "FilterCommand payload = Some (msg_id (c, payload), drop 4 payload)"
    using assms(1) by (simp add: FilterCommand_def msg_id_def)
  then show "\<exists>st'. ForwardCommandDispatch e (cmd CMD_FORWARD_CHECK_RESULT) payload st = Some (True, st')
      \<and> last (log st') = (MSG_OK, ''Forwardport result:OK'')
      \<and> commands st' = commands st @ [(cmd CMD_FORWARD_SUCCESS, bytes_of ((if serverOrDaemon st then ''1|'' else ''0|'') @ taskCommand st) @ [0])]"
    using assms(2) by (simp add: ForwardCommandDispatch_def CommandForwardCheckResult_def upd_ctx_def Let_def)
  show "\<exists>st'. SetupDevicePoint e a st = (True, st') \<and> ready (ctxs st' a)
      \<and> fsent st' = fsent st @ [(cmd CMD_FORWARD_ACTIVE_MASTER, be_enc 4 (unat (ctx_id (ctxs st a))))]"
    using assms(3-5) by (simp add: SetupDevicePoint_def SetupPointContinue_def SendToTask_def DoForwardBegin_def upd_ctx_def Let_def)
qed

definition one_context :: HdcForward where
  "one_context = snd (MallocContext 3 False (new_HdcForward False))"

theorem target_failure_not_told_witness:
  "fst (SetupDevicePoint (fair_env\<lparr>device_fd := - 1\<rparr>) 0 one_context)
     \<and> (\<exists>st'. ForwardCommandDispatch (fair_env\<lparr>device_fd := - 1\<rparr>) (cmd CMD_FORWARD_CHECK_RESULT) [0, 0, 0, 3, 0] one_context = Some (True, st')
       \<and> last (log st') = (MSG_OK, ''Forwardport result:OK''))"
proof -
  have i: "msg_id (0, [0, 0, 0, 3, 0]) = 3" by (simp add: msg_id_def id_three)
  have "query_ctx 3 one_context = Some 0" "\<not> checkPoint (ctxs one_context 0)"
    by (simp_all add: one_context_def MallocContext_def AdminContext_def new_HdcForward_def query_ctx_def new_ContextForward_def Let_def)
  then show ?thesis
    using target_failure_not_told [of "[0, 0, 0, 3, 0]" 0 one_context 0 "fair_env\<lparr>device_fd := - 1\<rparr>" 0, unfolded i]
    by (auto simp: fair_env_def)
qed

lemma data_command:
  assumes "query_ctx i st = Some b" and "\<not> finish (ctxs st b)" and "can_write e" and "d \<noteq> []" and "length d < HDC_BUF_MAX_BYTES"
  shows "task_command e t (cmd CMD_FORWARD_DATA) (be_enc 4 (unat i) @ d) st = Some (write_out b d st)"
proof -
  have "FilterCommand (be_enc 4 (unat i) @ d) = Some (i, d)"
    by (simp add: FilterCommand_def wire_simps)
  then show ?thesis
    using assms
    by (auto simp: task_command_def CommandDispatch_def ForwardCommandDispatch_def SendForwardBuf_def write_out_def Let_def)
qed

text \<open>
  Two connections accepted in the same millisecond get one identifier: the first is no longer found
  under any identifier, and what the target sends on it is written to the second.
\<close>

theorem same_millisecond_connections:
  assumes "side_ok st" and "MallocContext now True st = (a, st1)" and "MallocContext now True st1 = (b, st2)"
    and "can_write e" and "d \<noteq> []" and "length d < HDC_BUF_MAX_BYTES"
  shows "a \<noteq> b \<and> (\<forall>i. query_ctx i st2 \<noteq> Some a)
    \<and> (\<exists>st'. task_command e t (cmd CMD_FORWARD_DATA) (be_enc 4 (unat (ctx_id (ctxs st2 a))) @ d) st2 = Some st'
        \<and> outbuf (ctxs st' a) = [] \<and> outbuf (ctxs st' b) = d)"
proof -
  note m = Malloc_ctx [OF assms(2)] and n = Malloc_ctx [OF assms(3)] and o = side_okD [OF assms(1)]
  have ab: "a \<noteq> b" using m(1,2) n(1) by simp
  have q: "query_ctx i st2 = (if i = word_of_nat now then Some b else query_ctx i st)" for i
    using m(4) n(4) o(1) m(9) by simp
  have c: "ctx_id (ctxs st2 a) = word_of_nat now" "outbuf (ctxs st2 a) = []" "outbuf (ctxs st2 b) = []" "\<not> finish (ctxs st2 b)"
    using m(3) n(3) ab by (simp_all add: new_ContextForward_def)
  have "query_ctx i st2 \<noteq> Some a" for i using q ab o(2) [of i a] m(1) by auto
  moreover have "task_command e t (cmd CMD_FORWARD_DATA) (be_enc 4 (unat (ctx_id (ctxs st2 a))) @ d) st2 = Some (write_out b d st2)"
    by (rule data_command) (use q c assms(4-6) in simp_all)
  ultimately show ?thesis using ab c by (intro conjI exI [of _ "write_out b d st2"]) simp_all
qed

theorem same_millisecond_connections_witness:
  "\<exists>a b st st'. a \<noteq> b \<and> (\<forall>i. query_ctx i st \<noteq> Some a) \<and> outbuf (ctxs st' a) = [] \<and> outbuf (ctxs st' b) = [1]
     \<and> task_command fair_env 9 (cmd CMD_FORWARD_DATA) (be_enc 4 (unat (ctx_id (ctxs st a))) @ [1]) st = Some st'"
proof -
  obtain a st1 where 1: "MallocContext 3 True (new_HdcForward True) = (a, st1)" by fastforce
  obtain b st2 where 2: "MallocContext 3 True st1 = (b, st2)" by fastforce
  have "side_ok (new_HdcForward True)" using pair_invD(1) [OF start_inv] .
  from same_millisecond_connections [OF this 1 2, of fair_env "[1]" 9] show ?thesis
    by (auto simp: fair_env_def HDC_BUF_MAX_BYTES_def)
qed

end
