(* ===== verification/Hdc_ForwardFree.thy ===== *)
theory Hdc_ForwardFree
  imports Hdc_ForwardRun "HOL-Library.Multiset"
begin

text \<open>
  The end of a forward: a task can be released when its \<open>refCount\<close> is 0 (\<open>ReadyForRelease\<close>). Every
  context that has ended waits for its device, for its handle to close or for the next loop, once; so
  after \<open>StopTask\<close> the callbacks that are left bring the count to 0, once the operations of the devices
  have completed.
\<close>

section \<open>What is counted\<close>

definition waiting :: "HdcForward \<Rightarrow> nat multiset" where
  "waiting st = mset (closes st) + mset (frees st) + mset (dev_idles st)"

definition ended :: "HdcForward \<Rightarrow> nat set" where
  "ended st = {a. a < next_ctx st \<and> finish (ctxs st a) \<and> \<not> deleted (ctxs st a)}"

definition alive :: "HdcForward \<Rightarrow> nat set" where
  "alive st = {a. a < next_ctx st \<and> \<not> deleted (ctxs st a)}"

text \<open>A device is closed through its file descriptor object, which it has until then.\<close>

definition device_ok :: "ContextForward \<Rightarrow> bool" where
  "device_ok c \<longleftrightarrow> (ftype c = FORWARD_DEVICE \<and> \<not> finish c \<longrightarrow> fdClass c)"

definition held :: "HdcForward \<Rightarrow> bool" where
  "held st \<longleftrightarrow> waiting st = mset_set (ended st) \<and> refCount st = card (alive st) + length (idles st)
     \<and> (\<forall>a < next_ctx st. device_ok (ctxs st a)) \<and> (\<forall>a < next_ctx st. deleted (ctxs st a) \<longrightarrow> finish (ctxs st a))
     \<and> (\<forall>a \<in> set (connects st) \<union> set (idles st). a < next_ctx st)
     \<and> (\<forall>i a. query_ctx i st = Some a \<longrightarrow> a < next_ctx st) \<and> mp_wf (mapCtxPoint st)"

definition keeps :: "nat \<Rightarrow> HdcForward \<Rightarrow> HdcForward \<Rightarrow> bool" where
  "keeps a st st' \<longleftrightarrow> next_ctx st' = next_ctx st \<and> mapCtxPoint st' = mapCtxPoint st \<and> (\<forall>x. x \<noteq> a \<longrightarrow> ctxs st' x = ctxs st x)
     \<and> deleted (ctxs st' a) = deleted (ctxs st a) \<and> (finish (ctxs st a) \<longrightarrow> finish (ctxs st' a)) \<and> device_ok (ctxs st' a)
     \<and> waiting st' = waiting st + (if finish (ctxs st' a) \<and> \<not> finish (ctxs st a) then {#a#} else {#})
     \<and> refCount st' + length (idles st) = refCount st + length (idles st')
     \<and> set (connects st') \<union> set (idles st') \<subseteq> insert a (set (connects st) \<union> set (idles st))"

lemma keeps_refl: "device_ok (ctxs st a) \<Longrightarrow> keeps a st st"
  by (auto simp: keeps_def)

lemma keepsD:
  assumes "keeps a st st'"
  shows "next_ctx st' = next_ctx st" "mapCtxPoint st' = mapCtxPoint st" "x \<noteq> a \<Longrightarrow> ctxs st' x = ctxs st x"
    "deleted (ctxs st' a) = deleted (ctxs st a)" "finish (ctxs st a) \<Longrightarrow> finish (ctxs st' a)" "device_ok (ctxs st' a)"
    "waiting st' = waiting st + (if finish (ctxs st' a) \<and> \<not> finish (ctxs st a) then {#a#} else {#})"
    "refCount st' + length (idles st) = refCount st + length (idles st')"
    "set (connects st') \<union> set (idles st') \<subseteq> insert a (set (connects st) \<union> set (idles st))"
  using assms unfolding keeps_def by blast+

lemma keeps_trans:
  assumes "keeps a st st'" and "keeps a st' st''"
  shows "keeps a st st''"
  unfolding keeps_def
proof (intro conjI)
  note k = keepsD [OF assms(1)] and l = keepsD [OF assms(2)]
  show "waiting st'' = waiting st + (if finish (ctxs st'' a) \<and> \<not> finish (ctxs st a) then {#a#} else {#})"
    using k(5,7) l(5,7) by (cases "finish (ctxs st a)"; cases "finish (ctxs st' a)") simp_all
  show "set (connects st'') \<union> set (idles st'') \<subseteq> insert a (set (connects st) \<union> set (idles st))" using k(9) l(9) by blast
  show "refCount st'' + length (idles st) = refCount st + length (idles st'')" using k(8) l(8) by simp
  show "next_ctx st'' = next_ctx st" "mapCtxPoint st'' = mapCtxPoint st" "deleted (ctxs st'' a) = deleted (ctxs st a)"
    using k(1,2,4) l(1,2,4) by simp_all
  show "\<forall>x. x \<noteq> a \<longrightarrow> ctxs st'' x = ctxs st x" using k(3) l(3) by simp
  show "finish (ctxs st a) \<longrightarrow> finish (ctxs st'' a)" using k(5) l(5) by blast
  show "device_ok (ctxs st'' a)" by (rule l(6))
qed

lemma held_keeps:
  assumes h: "held st" and k: "keeps a st st'" and a: "a < next_ctx st"
  shows "held st'"
proof -
  note k = keepsD [OF k]
  have dl: "deleted (ctxs st' x) = deleted (ctxs st x)" for x using k(3,4) by (cases "x = a") simp_all
  have al: "alive st' = alive st" using k(1) dl by (auto simp: alive_def)
  have e: "ended st' = (if finish (ctxs st' a) \<and> \<not> finish (ctxs st a) \<and> \<not> deleted (ctxs st a) then insert a (ended st) else ended st)"
    using k(1,3,5) dl a by (auto simp: ended_def) (metis)+
  have nd: "finish (ctxs st a) \<or> \<not> deleted (ctxs st a)" using h a by (auto simp: held_def)
  have "finite (ended st)" by (simp add: ended_def)
  moreover have "\<not> finish (ctxs st a) \<Longrightarrow> a \<notin> ended st" by (simp add: ended_def)
  ultimately have w: "waiting st' = mset_set (ended st')"
    using h k(7) e nd by (auto simp: held_def)
  have fin: "finish (ctxs st x) \<Longrightarrow> finish (ctxs st' x)" for x using k(3,5) by (cases "x = a") simp_all
  have dv: "x < next_ctx st \<Longrightarrow> device_ok (ctxs st' x)" for x using h k(3,6) by (cases "x = a") (simp_all add: held_def)
  show ?thesis
    unfolding held_def query_ctx_def k(1,2) al dl
  proof (intro conjI)
    show "waiting st' = mset_set (ended st')" by (rule w)
    show "refCount st' = card (alive st) + length (idles st')" using h k(8) by (simp add: held_def)
    show "\<forall>x < next_ctx st. device_ok (ctxs st' x)" using dv by blast
    show "\<forall>x < next_ctx st. deleted (ctxs st x) \<longrightarrow> finish (ctxs st' x)" using h fin by (auto simp: held_def)
    show "\<forall>x \<in> set (connects st') \<union> set (idles st'). x < next_ctx st" using h k(9) a by (auto simp: held_def)
  qed (use h in \<open>auto simp: held_def query_ctx_def\<close>)
qed

section \<open>The operations of a context\<close>

lemma keeps_upd:
  "deleted (f (ctxs st a)) = deleted (ctxs st a) \<Longrightarrow> finish (f (ctxs st a)) = finish (ctxs st a) \<Longrightarrow> device_ok (f (ctxs st a)) \<Longrightarrow>
     keeps a st (upd_ctx a f st)"
  by (auto simp: keeps_def upd_ctx_def waiting_def)

lemma keeps_send: "device_ok (ctxs st a) \<Longrightarrow> keeps a st (snd (SendToTask e i c b st))"
  by (auto simp: keeps_def SendToTask_def waiting_def)

lemma FreeContext_keeps:
  assumes "device_ok (ctxs st a)"
  shows "keeps a st (FreeContext e a n st)"
proof (cases "finish (ctxs st a)")
  case True
  then show ?thesis using assms by (simp add: FreeContext_def keeps_refl)
next
  case False
  let ?st1 = "if n then snd (SendToTask e (ctx_id (ctxs st a)) CMD_FORWARD_FREE_CONTEXT [] st) else st"
  have c: "ctxs ?st1 = ctxs st" by simp
  have "keeps a st ?st1" using keeps_send [OF assms] keeps_refl [OF assms] by simp
  moreover have "keeps a ?st1 (FreeContext e a n st)"
    using False c assms
    by (auto simp: FreeContext_def Let_def keeps_def device_ok_def waiting_def upd_ctx_def close_handle_def FreeContextCallBack_def
        FreeJDWP_def split: FORWARD_TYPE.split)
  ultimately show ?thesis by (rule keeps_trans)
qed

lemma DoForwardBegin_keeps: "device_ok (ctxs st a) \<Longrightarrow> keeps a st (DoForwardBegin a st)"
  unfolding DoForwardBegin_def by (rule keeps_upd) (simp_all add: device_ok_def)

lemma refCount_upd_ctx [simp]: "refCount (upd_ctx a f st) = refCount st"
  by (simp add: upd_ctx_def)

lemma keeps_then: "keeps a st st' \<Longrightarrow> (device_ok (ctxs st' a) \<Longrightarrow> keeps a st' st'') \<Longrightarrow> keeps a st st''"
  by (rule keeps_trans) (simp_all add: keepsD(6))

lemma SetupPointContinue_keeps:
  assumes "device_ok (ctxs st a)"
  shows "keeps a st (snd (SetupPointContinue e a status st))"
proof -
  note d = assms
  have s: "keeps a st (snd (SendToTask e i c b st))" for i c b by (rule keeps_send [OF d])
  have f: "keeps a st (FreeContext e a n (snd (SendToTask e i c b st)))" for n i c b
    by (rule keeps_then [OF s FreeContext_keeps])
  have b: "keeps a st (DoForwardBegin a (snd (SendToTask e i c b st)))" for i c b
    by (rule keeps_then [OF s DoForwardBegin_keeps])
  show ?thesis
    using f b FreeContext_keeps [OF d]
    unfolding SetupPointContinue_def Let_def by (auto split: prod.split) (metis snd_conv)+
qed

lemma keeps_point:
  "device_ok (ctxs st a) \<Longrightarrow> keeps a st (upd_ctx a (\<lambda>c. c\<lparr>lastError := t c\<rparr>) st)"
  "device_ok (ctxs st a) \<Longrightarrow> keeps a st (upd_ctx a (\<lambda>c. c\<lparr>tcp_loop := b\<rparr>) st)"
  "device_ok (ctxs st a) \<Longrightarrow> keeps a st (upd_ctx a (\<lambda>c. c\<lparr>pipe_loop := b\<rparr>) st)"
  "device_ok (ctxs st a) \<Longrightarrow> keeps a st (upd_ctx a (\<lambda>c. c\<lparr>localArgs := l\<rparr>) st)"
  "device_ok (ctxs st a) \<Longrightarrow> keeps a st (upd_ctx a (\<lambda>c. c\<lparr>localArgs := l, remoteArgs := r, remoteParamenters := t c\<rparr>) st)"
  "device_ok (ctxs st a) \<Longrightarrow> keeps a st (upd_ctx a (\<lambda>c. c\<lparr>ready := b\<rparr>) st)"
  "device_ok (ctxs st a) \<Longrightarrow> keeps a st (upd_ctx a (\<lambda>c. c\<lparr>outbuf := u c, refIO := r' c\<rparr>) st)"
  "device_ok (ctxs st a) \<Longrightarrow> keeps a st (upd_ctx a (\<lambda>c. c\<lparr>inbuf := u c\<rparr>) st)"
  "keeps a st (upd_ctx a (\<lambda>c. c\<lparr>fd := i, fdClass := True, lastError := t c\<rparr>) st)"
  by (rule keeps_upd; simp add: device_ok_def)+

lemma keeps_env:
  "device_ok (ctxs st a) \<Longrightarrow> keeps a st (st\<lparr>connects := connects st @ [a]\<rparr>)"
  "device_ok (ctxs st a) \<Longrightarrow> keeps a st (st\<lparr>refCount := Suc (refCount st), idles := idles st @ [a]\<rparr>)"
  "device_ok (ctxs st a) \<Longrightarrow> keeps a st (st\<lparr>log := l\<rparr>)"
  "device_ok (ctxs st a) \<Longrightarrow> keeps a st (st\<lparr>commands := cs\<rparr>)"
  "device_ok (ctxs st a) \<Longrightarrow> keeps a st (st\<lparr>taskCommand := tc\<rparr>)"
  by (auto simp: keeps_def waiting_def)

lemma SetupTCPPoint_keeps: "device_ok (ctxs st a) \<Longrightarrow> keeps a st (snd (SetupTCPPoint e a st))"
  using keeps_then [OF keeps_point(2) keeps_point(1)] keeps_then [OF keeps_point(2) keeps_env(1)] keeps_point(2)
  by (auto simp: SetupTCPPoint_def Let_def)

lemma SetupDevicePoint_keeps: "keeps a st (snd (SetupDevicePoint e a st))"
  using keeps_then [OF keeps_point(9) SetupPointContinue_keeps] by (simp add: SetupDevicePoint_def Let_def)

lemma SetupFilePoint_keeps: "device_ok (ctxs st a) \<Longrightarrow> keeps a st (snd (SetupFilePoint e a st))"
  using keeps_then [OF keeps_point(3) keeps_point(1)] keeps_then [OF keeps_point(3) keeps_env(1)] keeps_point(3)
    keeps_then [OF keeps_point(3) SetupPointContinue_keeps]
    keeps_then [OF keeps_point(3) keeps_then [OF SetupPointContinue_keeps keeps_point(1)]]
  by (auto simp: SetupFilePoint_def Let_def)

lemma SetupJdwpPoint_keeps: "device_ok (ctxs st a) \<Longrightarrow> SetupJdwpPoint e a st = Some (r, st') \<Longrightarrow> keeps a st st'"
  using keeps_then [OF keeps_point(2) keeps_env(2)] keeps_point(2) SetupPointContinue_keeps keeps_refl [of st a]
  by (auto simp: SetupJdwpPoint_def split: if_splits option.splits)

lemma SetupPoint_keeps:
  assumes "device_ok (ctxs st a)" and "SetupPoint e a st = Some (r, st')"
  shows "keeps a st st'"
proof (cases "DetechForwardType (ctxs st a)")
  case (Some c)
  let ?st = "upd_ctx a (\<lambda>_. c) st"
  have c: "deleted c = deleted (ctxs st a)" "finish c = finish (ctxs st a)"
    using Some by (auto simp: DetechForwardType_def Let_def split: prod.splits if_splits)
  show ?thesis
  proof (cases "ftype c = FORWARD_DEVICE")
    case True
    have "keeps a st (snd (SetupDevicePoint e a ?st))"
    proof -
      let ?le = "if device_fd e < 0 then ''Open unix-dev failed'' else lastError c"
      let ?f = "\<lambda>_. c\<lparr>fd := device_fd e, fdClass := True, lastError := ?le\<rparr>"
      have "upd_ctx a (\<lambda>c. c\<lparr>fd := device_fd e, fdClass := True,
          lastError := (if device_fd e < 0 then ''Open unix-dev failed'' else lastError c)\<rparr>) ?st = upd_ctx a ?f st"
        by (simp add: upd_ctx_def)
      moreover have "keeps a st (upd_ctx a ?f st)" by (rule keeps_upd) (use c in \<open>simp_all add: device_ok_def\<close>)
      ultimately show ?thesis
        using keeps_then [OF _ SetupPointContinue_keeps, of a st "upd_ctx a ?f st" e]
        by (simp only: SetupDevicePoint_def Let_def snd_conv)
    qed
    then show ?thesis using assms(2) Some True by (auto simp: SetupPoint_def Let_def)
  next
    case False
    then have "keeps a st ?st" by (intro keeps_upd) (use c in \<open>simp_all add: device_ok_def\<close>)
    note k = this
    note d = keepsD(6) [OF k]
    have "case SetupPoint e a st of None \<Rightarrow> True | Some x \<Rightarrow> keeps a ?st (snd x)"
      using Some False SetupTCPPoint_keeps [OF d, of e] SetupFilePoint_keeps [OF d, of e] SetupJdwpPoint_keeps [OF d, of e]
      by (cases "ftype c") (auto simp: SetupPoint_def Let_def split: option.split)
    then have "keeps a ?st st'" using assms(2) by simp
    with k show ?thesis by (rule keeps_trans)
  qed
qed (use assms in \<open>simp add: SetupPoint_def keeps_refl\<close>)

section \<open>Commands and callbacks\<close>

lemma held_Malloc:
  assumes "held st" and "MallocContext now ms st = (a, st')"
  shows "held st'" "a < next_ctx st'" "device_ok (ctxs st' a)"
proof -
  note m = Malloc_ctx [OF assms(2)]
  have n: "finish (ctxs st' a) = False" "deleted (ctxs st' a) = False" "x \<noteq> a \<Longrightarrow> ctxs st' x = ctxs st x" for x
    using m(3) by (simp_all add: new_ContextForward_def)
  have w: "waiting st' = waiting st" and rc: "refCount st' = Suc (refCount st)"
    using assms(2) by (auto simp: MallocContext_def AdminContext_def waiting_def Let_def)
  have en: "ended st' = ended st" using n m(1,2) by (auto simp: ended_def) (metis less_Suc_eq)+
  have al: "alive st' = insert a (alive st)" "a \<notin> alive st" "finite (alive st)"
    using n m(1,2) by (auto simp: alive_def)
  have q: "query_ctx i st' = (if i = word_of_nat now then Some a else query_ctx i st)" for i
    using m(4) assms(1) by (simp add: held_def)
  show "a < next_ctx st'" using m(2) by simp
  show d: "device_ok (ctxs st' a)" using m(3) by (simp add: new_ContextForward_def device_ok_def)
  have dv: "x < next_ctx st' \<Longrightarrow> device_ok (ctxs st' x)" for x
    using assms(1) n(3) m(1,2) d by (cases "x = a") (auto simp: held_def)
  have df: "x < next_ctx st' \<Longrightarrow> deleted (ctxs st' x) \<Longrightarrow> finish (ctxs st' x)" for x
    using assms(1) n m(1,2) by (cases "x = a") (auto simp: held_def)
  show "held st'"
    using assms(1) w rc en al dv df m(1,2,7,8,9) q by (auto simp: held_def intro: less_SucI split: if_splits)
qed

lemma held_same:
  assumes "held st" and "waiting st' = waiting st" "refCount st' = refCount st" "ctxs st' = ctxs st" "next_ctx st' = next_ctx st"
    "idles st' = idles st" "connects st' = connects st" "mapCtxPoint st' = mapCtxPoint st"
  shows "held st'"
  using assms by (simp add: held_def ended_def alive_def query_ctx_def)

lemma held_fields [simp]:
  "held (st\<lparr>log := l\<rparr>) = held st" "held (st\<lparr>taskCommand := tc\<rparr>) = held st" "held (st\<lparr>fsent := q\<rparr>) = held st"
  "held (TaskFinish st) = held st" "held (fail_log t st) = held st"
  by (simp_all add: held_def ended_def alive_def query_ctx_def waiting_def TaskFinish_def fail_log_def)

lemma held_Free: "held st \<Longrightarrow> a < next_ctx st \<Longrightarrow> held (FreeContext e a n st)"
  by (rule held_keeps [OF _ FreeContext_keeps]) (simp_all add: held_def)

lemma held_begin:
  assumes "held st" and "BeginForward e now command st = Some (r, t, st')"
  shows "held st'"
proof -
  obtain a st1 where m: "MallocContext now True st = (a, st1)" by fastforce
  note h = held_Malloc [OF assms(1) m]
  have k: "held st2" if "keeps a st1 st2" for st2 by (rule held_keeps [OF h(1) that h(2)])
  have s: "keeps a st1 st2" if "SetupPoint e a (upd_ctx a (\<lambda>c. c\<lparr>localArgs := la, remoteArgs := ra, remoteParamenters := p\<rparr>) st1) = Some (x, st2)"
    for la ra p x st2
    by (rule keeps_then [OF keeps_point(5) [OF h(3)]]) (rule SetupPoint_keeps [OF _ that])
  note res = h(1) k [OF keeps_point(4) [OF h(3)]] k [OF s] k [OF keeps_then [OF s keeps_send]]
  have "case BeginForward e now command st of None \<Rightarrow> True | Some (r, t, X) \<Rightarrow> held X"
    by (auto simp: BeginForward_def Let_def m split: option.split prod.split intro: res)
  then show ?thesis using assms(2) by simp
qed

lemma held_slave:
  assumes "held st" and "SlaveConnect e now payload chk st = Some (r, t, st')"
  shows "held st'"
proof -
  obtain a st1 where m: "MallocContext now False st = (a, st1)" by fastforce
  note h = held_Malloc [OF assms(1) m]
  define st2 where "st2 i = AdminContext C_UPDATE (ctx_id (ctxs st1 a)) a (upd_ctx a (\<lambda>c. c\<lparr>checkPoint := chk, ctx_id := i\<rparr>) st1)" for i
  have d: "device_ok (ctxs (st2 i) a)" for i using h(3) by (simp add: st2_def AdminContext_def device_ok_def)
  have x: "ctxs (st2 i) y = (if y = a then (ctxs st1 a)\<lparr>checkPoint := chk, ctx_id := i\<rparr> else ctxs st1 y)" for i y
    by (simp add: st2_def AdminContext_def upd_ctx_def)
  have h2: "held (st2 i)" "a < next_ctx (st2 i)" for i
  proof -
    have "alive (st2 i) = alive st1" "ended (st2 i) = ended st1"
      using x by (auto simp: alive_def ended_def st2_def AdminContext_def upd_ctx_def split: if_splits)
    moreover have "waiting (st2 i) = waiting st1" "refCount (st2 i) = refCount st1" "next_ctx (st2 i) = next_ctx st1"
      "idles (st2 i) = idles st1" "connects (st2 i) = connects st1"
      "mapCtxPoint (st2 i) = mp_put i a (mp_erase (ctx_id (ctxs st1 a)) (mapCtxPoint st1))"
      by (simp_all add: st2_def AdminContext_def upd_ctx_def waiting_def)
    moreover have "mp_wf (mapCtxPoint st1)" using h(1) by (simp add: held_def)
    ultimately show "held (st2 i)" "a < next_ctx (st2 i)"
      using h x d by (auto simp: held_def query_ctx_def map_of_mp_put map_of_mp_erase mp_wf_put mp_wf_erase device_ok_def split: if_splits)
  qed
  have k: "held X" if "keeps a (st2 i) X" for i X by (rule held_keeps [OF h2(1) that h2(2)])
  have l: "keeps a (st2 i) (upd_ctx a (\<lambda>c. c\<lparr>localArgs := la\<rparr>) (st2 i))" for i la by (rule keeps_point(4) [OF d])
  have s: "keeps a (st2 i) X" if "SetupPoint e a (upd_ctx a (\<lambda>c. c\<lparr>localArgs := la\<rparr>) (st2 i)) = Some (b, X)" for i la b X
    by (rule keeps_then [OF l]) (rule SetupPoint_keeps [OF _ that])
  note res = h2(1) k [OF s] k [OF keeps_then [OF s FreeContext_keeps]] k [OF keeps_then [OF l SetupPointContinue_keeps]]
  have "case SlaveConnect e now payload chk st of None \<Rightarrow> True | Some (r, t, X) \<Rightarrow> held X"
    unfolding SlaveConnect_def m Let_def prod.case st2_def [symmetric]
    by (auto simp: slaveCheckWhenBegin_def split: option.split prod.split intro: res)
  then show ?thesis using assms(2) by simp
qed

lemma held_device: "held st \<Longrightarrow> a < next_ctx st \<Longrightarrow> device_ok (ctxs st a)"
  by (simp add: held_def)

lemma CheckResult_keeps: "device_ok (ctxs st a) \<Longrightarrow> keeps a st (snd (CommandForwardCheckResult e a payload st))"
  using keeps_then [OF keeps_point(6) keeps_then [OF keeps_env(3) keeps_env(4)], of st a]
  by (simp add: CommandForwardCheckResult_def Let_def)

lemma SendForwardBuf_keeps: "device_ok (ctxs st a) \<Longrightarrow> keeps a st (snd (SendForwardBuf e a d st))"
  using keeps_point(7) [of st a, where u = "\<lambda>c. outbuf c @ d" and r' = "\<lambda>c. if ftype c = FORWARD_DEVICE then Suc (refIO c) else refIO c"] keeps_refl [of st a] by (simp add: SendForwardBuf_def)

lemma held_dispatch:
  assumes h: "held st" and s: "ForwardCommandDispatch e c payload st = Some (r, st')"
  shows "held st'"
proof -
  obtain i d where f: "FilterCommand payload = Some (i, d)" using s
    by (cases "FilterCommand payload") (auto simp: ForwardCommandDispatch_def)
  show ?thesis
  proof (cases "query_ctx i st")
    case (Some a)
    have a: "a < next_ctx st" using h Some by (auto simp: held_def)
    note dv = held_device [OF h a]
    have fr: "keeps a X (FreeContext e a n X)" if "keeps a st X" for X n by (rule FreeContext_keeps [OF keepsD(6) [OF that]])
    define res where "res = (if c = cmd CMD_FORWARD_CHECK_RESULT then CommandForwardCheckResult e a payload st
                 else if c = cmd CMD_FORWARD_ACTIVE_MASTER then (True, DoForwardBegin a st)
                 else if c = cmd CMD_FORWARD_DATA then
                   if finish (ctxs st a) then (True, st)
                   else let (n, st2) = SendForwardBuf e a d st in
                     (True, if n < 0 then FreeContext e a True st2 else st2)
                 else if c = cmd CMD_FORWARD_FREE_CONTEXT then (True, FreeContext e a False st)
                 else (False, st))"
    have "keeps a st (snd res)"
      using CheckResult_keeps [OF dv, of e payload] DoForwardBegin_keeps [OF dv] keeps_refl [OF dv] SendForwardBuf_keeps [OF dv, of e d]
        FreeContext_keeps [OF dv, of e] keeps_trans [OF SendForwardBuf_keeps [OF dv, of e d] fr [OF SendForwardBuf_keeps [OF dv, of e d]]]
      unfolding res_def Let_def by (auto split: prod.split)
    then have "keeps a st (if fst res then snd res else FreeContext e a True (snd res))"
      using keeps_trans [OF _ fr] by simp
    moreover have "st' = (if fst res then snd res else FreeContext e a True (snd res))"
      using s unfolding ForwardCommandDispatch_def f Some option.case prod.case res_def [symmetric] by (auto simp: Let_def split: prod.splits)
    ultimately show ?thesis using held_keeps [OF h _ a] by simp
  qed (use s f h in \<open>simp add: ForwardCommandDispatch_def\<close>)
qed

lemma held_command:
  assumes "task_command e now c payload st = Some st'" and "held st"
  shows "held st'"
proof -
  obtain r s1 where cd: "CommandDispatch e now c payload st = Some (r, s1)" "st' = (if r then s1 else TaskFinish s1)"
    using assms by (auto simp: task_command_def)
  have "held s1"
    using cd(1) held_begin [OF assms(2)] held_slave [OF assms(2)] held_dispatch [OF assms(2)]
    unfolding CommandDispatch_def by (auto split: if_splits)
  then show ?thesis using cd(2) by simp
qed

lemma held_closed:
  assumes "held st"
  shows "held (handle_closed st)"
proof (cases "closes st")
  case (Cons a as)
  then have "waiting (handle_closed st) = waiting st" by (simp add: handle_closed_def FreeContextCallBack_def waiting_def)
  then show ?thesis by (rule held_same [OF assms]) (simp_all add: handle_closed_def FreeContextCallBack_def Cons)
qed (simp add: handle_closed_def assms)

lemma held_dev_idle:
  assumes h: "held st"
  shows "held (funcReqClose st)"
proof (cases "dev_idles st")
  case (Cons a as)
  let ?st = "funcReqClose st"
  have a: "a \<in># waiting st" "finite (ended st)" using Cons by (simp_all add: waiting_def ended_def)
  then have f: "finish (ctxs st a)" using h by (simp add: held_def) (simp add: ended_def)
  have w: "waiting ?st = waiting st" using Cons by (simp add: funcReqClose_def waiting_def upd_ctx_def)
  have c: "finish (ctxs ?st x) = finish (ctxs st x)" "deleted (ctxs ?st x) = deleted (ctxs st x)"
    "device_ok (ctxs st x) \<Longrightarrow> device_ok (ctxs ?st x)" for x
    using f Cons by (auto simp: funcReqClose_def upd_ctx_def device_ok_def)
  have o: "next_ctx ?st = next_ctx st" "refCount ?st = refCount st" "idles ?st = idles st" "connects ?st = connects st"
    "mapCtxPoint ?st = mapCtxPoint st" using Cons by (simp_all add: funcReqClose_def upd_ctx_def)
  have al: "alive ?st = alive st" "ended ?st = ended st" using c o(1) by (simp_all add: alive_def ended_def)
  show ?thesis using h c(3) unfolding held_def query_ctx_def al w o c(1,2) by blast
qed (simp add: funcReqClose_def h)

lemma held_io:
  assumes h: "held st"
  shows "held (io_completed a st)"
proof -
  let ?st = "io_completed a st"
  have c: "finish (ctxs ?st x) = finish (ctxs st x)" "deleted (ctxs ?st x) = deleted (ctxs st x)"
    "device_ok (ctxs ?st x) = device_ok (ctxs st x)" for x by (simp_all add: io_completed_def upd_ctx_def device_ok_def)
  have o: "next_ctx ?st = next_ctx st" "refCount ?st = refCount st" "idles ?st = idles st" "connects ?st = connects st"
    "mapCtxPoint ?st = mapCtxPoint st" "waiting ?st = waiting st" by (simp_all add: io_completed_def upd_ctx_def waiting_def)
  have al: "alive ?st = alive st" "ended ?st = ended st" using c o(1) by (simp_all add: alive_def ended_def)
  show ?thesis using h unfolding held_def query_ctx_def al o c .
qed

lemma held_loop:
  assumes h: "held st"
  shows "held (next_loop st)"
proof (cases "frees st")
  case (Cons a as)
  let ?st = "next_loop st"
  have w: "waiting st = add_mset a (waiting ?st)"
    using Cons by (simp add: waiting_def next_loop_def AdminContext_def upd_ctx_def)
  have fin: "finite (ended st)" "finite (alive st)" by (simp_all add: ended_def alive_def)
  have "a \<in># waiting st" using w by simp
  then have a: "a \<in> ended st" using h fin(1) by (simp add: held_def)
  have x: "ctxs ?st = (ctxs st)(a := (ctxs st a)\<lparr>deleted := True, reading := False\<rparr>)" "next_ctx ?st = next_ctx st"
    "mapCtxPoint ?st = mp_erase (ctx_id (ctxs st a)) (mapCtxPoint st)" "refCount ?st = refCount st - 1"
    "idles ?st = idles st" "connects ?st = connects st"
    using Cons by (simp_all add: next_loop_def AdminContext_def upd_ctx_def)
  have en: "ended ?st = ended st - {a}" and al: "alive ?st = alive st - {a}" using x by (auto simp: ended_def alive_def)
  have w': "waiting ?st = mset_set (ended ?st)"
  proof -
    have "add_mset a (waiting ?st) = mset_set (ended st)" using w h by (simp add: held_def)
    then have "waiting ?st = mset_set (ended st) - {#a#}" by (metis add_mset_remove_trivial)
    then show ?thesis using fin(1) a en by (simp add: mset_set_Diff)
  qed
  have ca: "refCount ?st = card (alive ?st) + length (idles st)"
  proof -
    have "a \<in> alive st" using a by (simp add: ended_def alive_def)
    from card_Suc_Diff1 [OF fin(2) this] have "card (alive st) = Suc (card (alive ?st))" using al by simp
    then show ?thesis using h x(4) by (simp add: held_def)
  qed
  show ?thesis
    unfolding held_def x(2,5,6)
  proof (intro conjI)
    show "\<forall>y < next_ctx st. device_ok (ctxs ?st y)" using h x(1) by (simp add: held_def device_ok_def)
    show "\<forall>y < next_ctx st. deleted (ctxs ?st y) \<longrightarrow> finish (ctxs ?st y)" using h x(1) a by (simp add: held_def ended_def)
    show "\<forall>i y. query_ctx i ?st = Some y \<longrightarrow> y < next_ctx st"
      using h x(3) by (simp add: held_def query_ctx_def map_of_mp_erase)
    show "mp_wf (mapCtxPoint ?st)" using h x(3) by (simp add: held_def mp_wf_erase)
    show "\<forall>a \<in> set (connects st) \<union> set (idles st). a < next_ctx st" using h by (simp add: held_def)
  qed (rule w', rule ca)
qed (simp add: next_loop_def h)

lemma keeps_refs:
  "keeps a st st' \<Longrightarrow> 0 < refCount st \<Longrightarrow> 0 < refCount st' \<Longrightarrow> keeps a (st\<lparr>refCount := refCount st - 1\<rparr>) (st'\<lparr>refCount := refCount st' - 1\<rparr>)"
  by (auto simp: keeps_def waiting_def)

lemma held_idle:
  assumes h: "held st"
  shows "held (SetupJdwpPointCallBack e st)"
proof (cases "idles st")
  case (Cons a as)
  let ?s0 = "st\<lparr>idles := as\<rparr>" let ?s1 = "snd (SetupPointContinue e a 1 ?s0)"
  have a: "a < next_ctx st" using h Cons by (simp add: held_def)
  have rc: "0 < refCount st" using h Cons by (simp add: held_def)
  have k: "keeps a ?s0 ?s1" by (rule SetupPointContinue_keeps) (use held_device [OF h a] in simp)
  have "refCount ?s1 + length as = refCount st + length (idles ?s1)" using keepsD(8) [OF k] by simp
  then have "0 < refCount ?s1" using h Cons by (simp add: held_def)
  then have k': "keeps a (?s0\<lparr>refCount := refCount st - 1\<rparr>) (?s1\<lparr>refCount := refCount ?s1 - 1\<rparr>)"
    using keeps_refs [OF k] rc by simp
  have "held (?s0\<lparr>refCount := refCount st - 1\<rparr>)"
    using h Cons by (simp add: held_def waiting_def ended_def alive_def query_ctx_def)
  from held_keeps [OF this k'] show ?thesis using a Cons by (simp add: SetupJdwpPointCallBack_def Let_def)
qed (simp add: SetupJdwpPointCallBack_def h)

lemma held_stop:
  assumes h: "held st"
  shows "held (StopTask e st)"
proof -
  have "held (fold (\<lambda>(cid :: u32, a). FreeContext e a False) xs s)" if "held s" "\<forall>(i, a) \<in> set xs. a < next_ctx s" for xs s
    using that
  proof (induction xs arbitrary: s)
    case (Cons x xs)
    obtain i a where x: "x = (i, a)" by fastforce
    have n: "next_ctx (FreeContext e a False s) = next_ctx s" using touchesD(2) [OF FreeContext_touches] .
    show ?case using Cons.IH [of "FreeContext e a False s"] Cons.prems held_Free [of s a e False] x n by simp
  qed simp
  moreover have "\<forall>(i, a) \<in> set (mapCtxPoint st). a < next_ctx st"
    using h mp_wf_distinct map_of_is_SomeI by (force simp: held_def query_ctx_def)
  ultimately have "held (fold (\<lambda>(cid, a). FreeContext e a False) (mapCtxPoint st) st)" using h by blast
  then show ?thesis
    by (simp add: StopTask_def held_def waiting_def ended_def alive_def query_ctx_def mp_wf_Nil)
qed

lemma held_connected:
  assumes h: "held st"
  shows "held (ConnectTarget e status st)"
proof (cases "connects st")
  case (Cons a as)
  let ?s0 = "st\<lparr>connects := as\<rparr>"
  have a: "a < next_ctx st" using h Cons by (simp add: held_def)
  have "held ?s0" using h Cons by (simp add: held_def waiting_def ended_def alive_def query_ctx_def)
  moreover have "keeps a ?s0 (snd (SetupPointContinue e a status ?s0))"
    by (rule SetupPointContinue_keeps) (use held_device [OF h a] in simp)
  ultimately show ?thesis using held_keeps a Cons by (simp add: ConnectTarget_def)
qed (simp add: ConnectTarget_def h)

lemma held_read:
  assumes h: "held st" and a: "a < next_ctx st"
  shows "held (ReadForwardBuf e a n st)"
proof (cases n)
  case (Some d)
  have "keeps a st (ReadForwardBuf e a n st)"
    using Some keeps_then [OF keeps_point(8) [OF held_device [OF h a], where u = "\<lambda>c. inbuf c @ d"] keeps_send]
    by (simp add: ReadForwardBuf_def)
  then show ?thesis using held_keeps [OF h _ a] by blast
qed (simp add: ReadForwardBuf_def held_Free [OF h a])

lemma held_side:
  assumes "held st" and "side_step e ev st = Some st'"
  shows "held st'"
  using assms held_read [OF assms(1)] held_Free [OF assms(1)] held_connected [OF assms(1)] held_idle [OF assms(1)]
    held_closed [OF assms(1)] held_loop [OF assms(1)] held_stop [OF assms(1)] held_dev_idle [OF assms(1)] held_io [OF assms(1)]
  by (auto simp: side_step_def SendCallbackForwardBuf_def split: side_event.splits if_splits)

lemma held_accept:
  assumes h: "held st" and l: "listen < next_ctx st" "ftype (ctxs st listen) \<noteq> FORWARD_DEVICE"
  shows "held (ListenCallback e now listen status st)"
proof (cases "status = -1 \<or> \<not> ready (ctxs st listen)")
  case True
  then have "ListenCallback e now listen status st = TaskFinish (FreeContext e listen False st)" by (auto simp: ListenCallback_def Let_def)
  then show ?thesis using held_Free [OF h l(1)] by simp
next
  case False
  obtain a st1 where m: "MallocContext now True st = (a, st1)" by fastforce
  note n = held_Malloc [OF h m] and mc = Malloc_ctx [OF m]
  let ?f = "\<lambda>x. if ftype (ctxs st listen) = FORWARD_TCP then x\<lparr>tcp_loop := True\<rparr> else x\<lparr>pipe_loop := True\<rparr>"
  let ?s2 = "upd_ctx a ?f st1"
  let ?s3 = "upd_ctx a (\<lambda>c. c\<lparr>ftype := ftype (ctxs ?s2 listen), remoteParamenters := remoteParamenters (ctxs ?s2 listen)\<rparr>) ?s2"
  have "listen \<noteq> a" using l(1) mc(1) by simp
  then have t: "ftype (ctxs ?s2 listen) = ftype (ctxs st listen)" using mc(3) by (simp add: upd_ctx_def)
  have k2: "keeps a st1 ?s2" by (rule keeps_upd) (use n(3) in \<open>simp_all add: device_ok_def\<close>)
  have k3: "keeps a st1 ?s3" by (rule keeps_then [OF k2], rule keeps_upd) (use t l(2) in \<open>simp_all add: device_ok_def\<close>)
  have k: "held X" if "keeps a st1 X" for X by (rule held_keeps [OF n(1) that n(2)])
  note res = k [OF keeps_then [OF k2 FreeContext_keeps]] k [OF keeps_then [OF k3 FreeContext_keeps]] k [OF keeps_then [OF k3 keeps_send]]
  have "ListenCallback e now listen status st = OnAccept e listen a ?s2" using False m by (simp add: ListenCallback_def Let_def)
  then show ?thesis using res by (simp add: OnAccept_def Let_def)
qed

lemma held_head: "held st \<Longrightarrow> held r \<Longrightarrow> handle_head e now st r = Some (st', r') \<Longrightarrow> held st' \<and> held r'"
  using held_command [of e now _ _ r r'] by (auto simp: handle_head_def split: list.splits)

lemma forward_reach_held: "forward_reach M S \<Longrightarrow> held M \<and> held S"
proof (induction rule: forward_reach.induct)
  case (start server)
  show ?case by (simp add: held_def new_HdcForward_def waiting_def ended_def alive_def query_ctx_def mp_wf_Nil)
next
  case (step M S e ev M' S')
  then have s: "held M" "held S" "forward_step e ev (M, S) = Some (M', S')" by simp_all
  show ?case
  proof (cases ev)
    case (Begin now command)
    then show ?thesis using s held_command [OF _ s(1)] by (auto simp: forward_step_def split: if_splits)
  next
    case (Accept now listen status)
    then show ?thesis using s held_accept [OF s(1)] by (auto simp: forward_step_def split: if_splits)
  next
    case (FarCommand now)
    then show ?thesis using s held_head [OF s(1,2)] by (auto simp: forward_step_def split: if_splits)
  next
    case (NearCommand now)
    then show ?thesis using s held_head [OF s(2,1)] by (auto simp: forward_step_def)
  next
    case (Near ev')
    then show ?thesis using s held_side [OF s(1)] by (auto simp: forward_step_def)
  next
    case (Far ev')
    then show ?thesis using s held_side [OF s(2)] by (auto simp: forward_step_def)
  qed
qed

section \<open>After a stop\<close>

text \<open>
  One turn of the loop: operations of devices that have completed (\<open>ios\<close>), idle handles, handles that
  close, and what was deferred to the next turn.
\<close>

definition io_done :: "nat \<Rightarrow> HdcForward \<Rightarrow> HdcForward" where
  "io_done a st = (if 0 < refIO (ctxs st a) then io_completed a st else st)"

definition loop_turn :: "forward_env \<times> nat list \<Rightarrow> HdcForward \<Rightarrow> HdcForward" where
  "loop_turn = (\<lambda>(e, ios) st.
     next_loop (handle_closed (funcReqClose (SetupJdwpPointCallBack e (fold io_done ios st)))))"

text \<open>No device that is to be closed has an operation outstanding.\<close>

definition io_quiet :: "HdcForward \<Rightarrow> bool" where
  "io_quiet st \<longleftrightarrow> (\<forall>a \<in> set (dev_idles st). refIO (ctxs st a) = 0)"

definition all_done :: "HdcForward \<Rightarrow> bool" where
  "all_done st \<longleftrightarrow> held st \<and> (\<forall>a < next_ctx st. finish (ctxs st a))"

definition work :: "HdcForward \<Rightarrow> nat" where
  "work st = 3 * length (dev_idles st) + 2 * length (closes st) + length (frees st) + length (idles st)"

lemma SetupPointContinue_done:
  assumes "finish (ctxs st a)"
  shows "closes (snd (SetupPointContinue e a v st)) = closes st" "frees (snd (SetupPointContinue e a v st)) = frees st"
    "idles (snd (SetupPointContinue e a v st)) = idles st" "dev_idles (snd (SetupPointContinue e a v st)) = dev_idles st"
proof -
  have f: "FreeContext e a n X = X" if "ctxs X = ctxs st" for n X using assms that by (simp add: FreeContext_def)
  have s: "closes (snd (SendToTask e i c b st)) = closes st" "frees (snd (SendToTask e i c b st)) = frees st"
    "idles (snd (SendToTask e i c b st)) = idles st" "dev_idles (snd (SendToTask e i c b st)) = dev_idles st"
    for i c b by (simp_all add: SendToTask_def)
  have c: "closes Y = closes st \<and> frees Y = frees st \<and> idles Y = idles st \<and> dev_idles Y = dev_idles st"
    if "SendToTask e i c b st = (x, Y)" for i c b x Y using that s [of i c b] by simp
  have g: "ctxs Y = ctxs st" if "SendToTask e i c b st = (x, Y)" for i c b x Y
    using that SendToTask_ctxs [of e i c b st] by simp
  show "closes (snd (SetupPointContinue e a v st)) = closes st" "frees (snd (SetupPointContinue e a v st)) = frees st"
    "idles (snd (SetupPointContinue e a v st)) = idles st" "dev_idles (snd (SetupPointContinue e a v st)) = dev_idles st"
    using s f by (auto simp: SetupPointContinue_def Let_def DoForwardBegin_def upd_ctx_def g c split: prod.split)
qed

lemma idle_done:
  assumes d: "all_done st"
  shows "all_done (SetupJdwpPointCallBack e st)" "idles (SetupJdwpPointCallBack e st) = tl (idles st)"
    "closes (SetupJdwpPointCallBack e st) = closes st" "frees (SetupJdwpPointCallBack e st) = frees st"
    "dev_idles (SetupJdwpPointCallBack e st) = dev_idles st"
proof -
  have "all_done (SetupJdwpPointCallBack e st) \<and> idles (SetupJdwpPointCallBack e st) = tl (idles st)
    \<and> closes (SetupJdwpPointCallBack e st) = closes st \<and> frees (SetupJdwpPointCallBack e st) = frees st
    \<and> dev_idles (SetupJdwpPointCallBack e st) = dev_idles st"
  proof (cases "idles st")
    case (Cons a as)
    let ?s0 = "st\<lparr>idles := as\<rparr>" let ?s1 = "snd (SetupPointContinue e a 1 ?s0)" let ?s2 = "SetupJdwpPointCallBack e st"
    have h: "held st" using d by (simp add: all_done_def)
    have a: "a < next_ctx st" using h Cons by (simp add: held_def)
    have f: "finish (ctxs ?s0 a)" using d a by (simp add: all_done_def)
    note t = SetupPointContinue_touches [of a ?s0 e 1]
    have e2: "?s2 = ?s1\<lparr>refCount := refCount ?s1 - 1\<rparr>" using Cons by (simp add: SetupJdwpPointCallBack_def Let_def)
    have "\<forall>x < next_ctx ?s2. finish (ctxs ?s2 x)"
      using d ctx_touches(6) [OF t] touchesD(2) [OF t] by (simp add: e2 all_done_def)
    then have "all_done ?s2" using held_idle [OF h] by (simp add: all_done_def)
    then show ?thesis using SetupPointContinue_done [OF f, of e 1] Cons by (simp add: e2)
  qed (simp add: SetupJdwpPointCallBack_def d)
  then show "all_done (SetupJdwpPointCallBack e st)" "idles (SetupJdwpPointCallBack e st) = tl (idles st)"
    "closes (SetupJdwpPointCallBack e st) = closes st" "frees (SetupJdwpPointCallBack e st) = frees st"
    "dev_idles (SetupJdwpPointCallBack e st) = dev_idles st" by blast+
qed

lemma io_done_fields:
  "closes (fold io_done ios st) = closes st" "frees (fold io_done ios st) = frees st" "idles (fold io_done ios st) = idles st"
  "dev_idles (fold io_done ios st) = dev_idles st" "next_ctx (fold io_done ios st) = next_ctx st"
  "finish (ctxs (fold io_done ios st) x) = finish (ctxs st x)"
  by (induction ios arbitrary: st) (simp_all add: io_done_def io_completed_def upd_ctx_def)

lemma io_done_zero: "refIO (ctxs st x) = 0 \<Longrightarrow> refIO (ctxs (fold io_done ios st) x) = 0"
proof (induction ios arbitrary: st)
  case (Cons a ios)
  have "refIO (ctxs (io_done a st) x) = 0" using Cons.prems by (auto simp: io_done_def io_completed_def upd_ctx_def)
  then show ?case using Cons.IH by simp
qed simp

lemma all_done_io: "all_done st \<Longrightarrow> all_done (fold io_done ios st)"
proof -
  have "held st \<Longrightarrow> held (fold io_done ios st)"
    by (induction ios arbitrary: st) (auto simp: io_done_def held_io)
  then show "all_done st \<Longrightarrow> all_done (fold io_done ios st)" by (simp add: all_done_def io_done_fields)
qed

lemma dev_done:
  assumes "all_done st"
  shows "all_done (funcReqClose st)" "work (funcReqClose st) \<le> work st" "idles (funcReqClose st) = idles st"
    "io_quiet st \<Longrightarrow> io_quiet (funcReqClose st) \<and> work (funcReqClose st) = work st - (if dev_idles st = [] then 0 else 1)"
proof -
  have "finish (ctxs (funcReqClose st) x) = finish (ctxs st x)" "next_ctx (funcReqClose st) = next_ctx st" for x
    by (simp_all add: funcReqClose_def upd_ctx_def split: list.split)
  then show "all_done (funcReqClose st)" using assms held_dev_idle by (simp add: all_done_def)
  show "work (funcReqClose st) \<le> work st" "idles (funcReqClose st) = idles st"
    by (simp_all add: work_def funcReqClose_def upd_ctx_def split: list.split)
  show "io_quiet st \<Longrightarrow> io_quiet (funcReqClose st) \<and> work (funcReqClose st) = work st - (if dev_idles st = [] then 0 else 1)"
    by (auto simp: work_def io_quiet_def funcReqClose_def upd_ctx_def split: list.splits)
qed

lemma closed_done:
  assumes "all_done st"
  shows "all_done (handle_closed st)" "work (handle_closed st) = work st - (if closes st = [] then 0 else 1)"
    "idles (handle_closed st) = idles st" "io_quiet (handle_closed st) = io_quiet st" "dev_idles (handle_closed st) = dev_idles st"
proof -
  have "ctxs (handle_closed st) = ctxs st" "next_ctx (handle_closed st) = next_ctx st"
    by (simp_all add: handle_closed_def FreeContextCallBack_def split: list.split)
  then show "all_done (handle_closed st)" using assms held_closed by (simp add: all_done_def)
  show "work (handle_closed st) = work st - (if closes st = [] then 0 else 1)" "idles (handle_closed st) = idles st"
    "io_quiet (handle_closed st) = io_quiet st" "dev_idles (handle_closed st) = dev_idles st"
    by (simp_all add: work_def io_quiet_def handle_closed_def FreeContextCallBack_def split: list.split)
qed

lemma loop_done:
  assumes "all_done st"
  shows "all_done (next_loop st)" "work (next_loop st) = work st - (if frees st = [] then 0 else 1)"
    "idles (next_loop st) = idles st" "io_quiet (next_loop st) = io_quiet st"
proof -
  have "finish (ctxs (next_loop st) x) = finish (ctxs st x)" "next_ctx (next_loop st) = next_ctx st" for x
    by (simp_all add: next_loop_def AdminContext_def upd_ctx_def split: list.split)
  then show "all_done (next_loop st)" using assms held_loop by (simp add: all_done_def)
  show "work (next_loop st) = work st - (if frees st = [] then 0 else 1)" "idles (next_loop st) = idles st"
    by (simp_all add: work_def next_loop_def AdminContext_def upd_ctx_def split: list.split)
  show "io_quiet (next_loop st) = io_quiet st"
    by (auto simp: io_quiet_def next_loop_def AdminContext_def upd_ctx_def Let_def split: list.split)
qed

lemma turn_done:
  assumes "all_done st"
  shows "all_done (loop_turn p st)" "work (loop_turn p st) \<le> work st" "idles (loop_turn p st) = tl (idles st)"
    "idles st = [] \<Longrightarrow> io_quiet st \<Longrightarrow> io_quiet (loop_turn p st) \<and> work (loop_turn p st) \<le> work st - 1"
proof -
  obtain e ios where p: "p = (e, ios)" by (cases p)
  let ?s0 = "fold io_done ios st" let ?s1 = "SetupJdwpPointCallBack e ?s0" let ?s2 = "funcReqClose ?s1" let ?s3 = "handle_closed ?s2"
  note f = io_done_fields(1-4) [of ios st]
  have w0: "work ?s0 = work st" by (simp add: work_def f)
  note i = idle_done [OF all_done_io [OF assms], of e ios]
  note d = dev_done [OF i(1)] and c = closed_done [OF dev_done(1) [OF i(1)]]
  note l = loop_done [OF c(1)]
  have w1: "work ?s1 \<le> work st" using i w0 by (simp add: work_def f)
  show "all_done (loop_turn p st)" using l(1) by (simp add: loop_turn_def p)
  show "work (loop_turn p st) \<le> work st" using w1 d(2) c(2) l(2) by (simp add: loop_turn_def p)
  show "idles (loop_turn p st) = tl (idles st)" using i(2) d(3) c(3) l(3) by (simp add: loop_turn_def p f)
  assume n: "idles st = []" and q: "io_quiet st"
  have s1: "?s1 = ?s0" using n by (simp add: SetupJdwpPointCallBack_def f)
  have "io_quiet ?s0" using q by (simp add: io_quiet_def f io_done_zero)
  then have d4: "io_quiet ?s2" "work ?s2 = work ?s1 - (if dev_idles ?s1 = [] then 0 else 1)" using d(4) s1 by simp_all
  have fr: "dev_idles ?s1 \<noteq> [] \<or> closes ?s2 = closes ?s1 \<and> frees ?s2 = frees ?s1" by (simp add: funcReqClose_def split: list.split)
  have fr2: "closes ?s2 \<noteq> [] \<or> frees ?s3 = frees ?s2" by (simp add: handle_closed_def split: list.split)
  have z: "work ?s1 = 0 \<or> dev_idles ?s1 \<noteq> [] \<or> closes ?s1 \<noteq> [] \<or> frees ?s1 \<noteq> []"
    using n by (auto simp: work_def s1 f)
  have "work (next_loop ?s3) \<le> work ?s1 - 1"
    using d4(2) c(2) l(2) fr fr2 z by (auto split: if_splits)
  then show "io_quiet (loop_turn p st) \<and> work (loop_turn p st) \<le> work st - 1"
    using d4(1) c(4) l(4) w0 s1 by (simp add: loop_turn_def p)
qed

lemma turns_done:
  assumes "all_done st"
  shows "all_done (fold loop_turn ps st)" "work (fold loop_turn ps st) \<le> work st"
    "length (idles st) \<le> length ps \<Longrightarrow> idles (fold loop_turn ps st) = []"
proof -
  have "all_done (fold loop_turn ps st) \<and> work (fold loop_turn ps st) \<le> work st
    \<and> (length (idles st) \<le> length ps \<longrightarrow> idles (fold loop_turn ps st) = [])" using assms
  proof (induction ps arbitrary: st)
    case (Cons p ps)
    note t = turn_done [OF Cons.prems, of p]
    show ?case using Cons.IH [OF t(1)] t(2,3) by auto
  qed simp
  then show "all_done (fold loop_turn ps st)" "work (fold loop_turn ps st) \<le> work st"
    "length (idles st) \<le> length ps \<Longrightarrow> idles (fold loop_turn ps st) = []" by blast+
qed

lemma done_released:
  assumes "all_done st" and "work st = 0"
  shows "ReadyForRelease st"
proof -
  have "alive st = ended st" using assms(1) by (auto simp: all_done_def alive_def ended_def)
  moreover have "mset_set (ended st) = {#}" using assms by (simp add: all_done_def held_def work_def waiting_def)
  moreover have "finite (ended st)" by (simp add: ended_def)
  ultimately have "alive st = {}" by (simp add: mset_set_empty_iff)
  then show ?thesis using assms by (simp add: all_done_def held_def ReadyForRelease_def work_def)
qed

lemma device_holds:
  assumes "held st" and "dev_idles st \<noteq> []"
  shows "\<not> ReadyForRelease st"
proof -
  have "waiting st \<noteq> {#}" using assms(2) by (simp add: waiting_def)
  then have "ended st \<noteq> {}" using assms(1) by (auto simp: held_def)
  then have "alive st \<noteq> {}" by (auto simp: ended_def alive_def)
  moreover have "finite (alive st)" by (simp add: alive_def)
  ultimately have "0 < card (alive st)" by (simp add: card_gt_0_iff)
  then show ?thesis using assms(1) by (simp add: held_def ReadyForRelease_def)
qed

lemma stop_done:
  assumes "side_ok st" and "held st"
  shows "all_done (StopTask e st)"
proof -
  have "finish (ctxs (StopTask e st) x)" if "x < next_ctx (StopTask e st)" for x
    using side_okD(4) [OF conjunct2 [OF StopTask_retires [OF assms(1), of e]] that] by (auto simp: StopTask_def query_ctx_def)
  then show ?thesis using held_stop [OF assms(2)] by (simp add: all_done_def)
qed

lemma turns_release:
  "all_done st \<Longrightarrow> idles st = [] \<Longrightarrow> io_quiet st \<Longrightarrow> work st \<le> length ps \<Longrightarrow> ReadyForRelease (fold loop_turn ps st)"
proof (induction ps arbitrary: st)
  case (Cons p ps)
  note t = turn_done [OF Cons.prems(1), of p]
  have "work (loop_turn p st) \<le> length ps" using t(4) Cons.prems by auto
  then show ?case using Cons.IH [OF t(1)] t(3,4) Cons.prems by simp
qed (simp add: done_released)

lemma stopped_released:
  assumes d: "all_done st" and n: "work st \<le> length ps"
  shows "if io_quiet (fold loop_turn ps st)
    then \<forall>qs. work st \<le> length qs \<longrightarrow> ReadyForRelease (fold loop_turn qs (fold loop_turn ps st))
    else \<not> ReadyForRelease (fold loop_turn ps st)"
proof -
  let ?st = "fold loop_turn ps st"
  note t = turns_done [OF d, of ps]
  have i: "idles ?st = []" by (rule t(3)) (use n in \<open>simp add: work_def\<close>)
  have "ReadyForRelease (fold loop_turn qs ?st)" if "io_quiet ?st" "work st \<le> length qs" for qs
    by (rule turns_release [OF t(1) i that(1)]) (use t(2) that(2) in simp)
  moreover have "\<not> ReadyForRelease ?st" if "\<not> io_quiet ?st"
    by (rule device_holds) (use t(1) that in \<open>auto simp: all_done_def io_quiet_def\<close>)
  ultimately show ?thesis by simp
qed

lemma turn_devices: "all_done st \<Longrightarrow> set (dev_idles (loop_turn p st)) \<subseteq> set (dev_idles st)"
proof -
  assume d: "all_done st"
  obtain e ios where p: "p = (e, ios)" by (cases p)
  let ?s1 = "SetupJdwpPointCallBack e (fold io_done ios st)"
  have "dev_idles ?s1 = dev_idles st" using idle_done(5) [OF all_done_io [OF d]] by (simp add: io_done_fields)
  moreover have "set (dev_idles (funcReqClose X)) \<subseteq> set (dev_idles X)" for X
    by (auto simp: funcReqClose_def upd_ctx_def split: list.splits if_splits)
  moreover have "dev_idles (next_loop (handle_closed X)) = dev_idles X" for X
    by (simp add: next_loop_def handle_closed_def FreeContextCallBack_def AdminContext_def upd_ctx_def Let_def split: list.split)
  ultimately show ?thesis by (metis (no_types, lifting) loop_turn_def old.prod.case p)
qed

lemma turns_devices: "all_done st \<Longrightarrow> set (dev_idles (fold loop_turn ps st)) \<subseteq> set (dev_idles st)"
proof (induction ps arbitrary: st)
  case (Cons p ps)
  show ?case using Cons.IH [OF turn_done(1) [OF Cons.prems, of p]] turn_devices [OF Cons.prems, of p] by auto
qed simp

text \<open>
  C28. A forward that is stopped, in whatever state its connections are that it can reach without two
  contexts of a side made in the same millisecond: there is a number of turns of the loop after which,
  on either side, it depends on the devices alone. If no device that is to be closed has a read or
  write outstanding, then after as many turns more the forward is ready to be released, and stays so;
  as long as one has, it is not ready, and nothing else of the forward holds it up.
\<close>

theorem stopped_forward_released:
  assumes "forward_reach M S" and "X = M \<or> X = S"
  shows "\<exists>n. \<forall>ps. n \<le> length ps \<longrightarrow>
    (let st = fold loop_turn ps (StopTask e X) in
      if io_quiet st then \<forall>qs. n \<le> length qs \<longrightarrow> ReadyForRelease (fold loop_turn qs st) else \<not> ReadyForRelease st)"
proof -
  note i = pair_invD [OF forward_reach_inv [OF assms(1)]] and h = forward_reach_held [OF assms(1)]
  have "all_done (StopTask e X)" using stop_done i(1,2) h assms(2) by blast
  from stopped_released [OF this] show ?thesis
    unfolding Let_def by (intro exI [of _ "work (StopTask e X)"]) blast
qed

lemma transfer_stopped:
  "case forward_run transfer_events (new_HdcForward True, new_HdcForward False) of
     None \<Rightarrow> False | Some (M, S) \<Rightarrow> dev_idles (StopTask fair_env M) = []"
  by code_simp

text \<open>
  So a read of a device that never completes keeps its forward for ever: closing the descriptor number
  does not end it.
\<close>

lemma outstanding_read_holds:
  assumes "held st" "a \<in> set (dev_idles st)" "0 < refIO (ctxs st a)"
  shows "a \<in> set (dev_idles (funcReqClose st)) \<and> \<not> ReadyForRelease st"
proof -
  have "a \<in> set (dev_idles (funcReqClose st))"
    using assms(2,3) by (auto simp: funcReqClose_def upd_ctx_def split: list.splits)
  moreover have "dev_idles st \<noteq> []" using assms(2) by auto
  ultimately show ?thesis using device_holds [OF assms(1)] by blast
qed

theorem stopped_forward_released_witness:
  "\<exists>M S ps. forward_reach M S \<and> \<not> ReadyForRelease M \<and> ReadyForRelease (fold loop_turn ps (StopTask fair_env M))"
proof -
  obtain M S where r: "forward_run transfer_events (new_HdcForward True, new_HdcForward False) = Some (M, S)"
    using transfer_result by (auto split: option.splits)
  have f: "forward_reach M S"
    using forward_run_reach [OF forward_reach.start [of True] events_fair(1), of M S] r by simp
  have n: "\<not> ReadyForRelease M" using transfer_result r by (simp add: ReadyForRelease_def)
  let ?st = "StopTask fair_env M"
  have d: "dev_idles ?st = []" using transfer_stopped r by simp
  note i = pair_invD [OF forward_reach_inv [OF f]] and h = forward_reach_held [OF f]
  have q: "io_quiet (fold loop_turn ps ?st)" for ps
    using turns_devices [OF stop_done [OF i(1), of fair_env], of ps] h d by (simp add: io_quiet_def)
  obtain k where "\<forall>ps. k \<le> length ps \<longrightarrow>
    (let st = fold loop_turn ps ?st in
      if io_quiet st then \<forall>qs. k \<le> length qs \<longrightarrow> ReadyForRelease (fold loop_turn qs st) else \<not> ReadyForRelease st)"
    using stopped_forward_released [OF f, of M fair_env] by blast
  then have "k \<le> length ps \<longrightarrow> (\<forall>qs. k \<le> length qs \<longrightarrow> ReadyForRelease (fold loop_turn qs (fold loop_turn ps ?st)))" for ps
    using q by (simp add: Let_def)
  from this [of "replicate k (fair_env, [])"]
  have "ReadyForRelease (fold loop_turn (replicate k (fair_env, [])) (fold loop_turn (replicate k (fair_env, [])) ?st))"
    by (metis length_replicate order_refl)
  then have "ReadyForRelease (fold loop_turn (replicate k (fair_env, []) @ replicate k (fair_env, [])) ?st)"
    by (simp only: fold_append comp_apply)
  then show ?thesis using f n by blast
qed

end
