(* ===== verification/Hdc_Translate.thy ===== *)
theory Hdc_Translate
  imports Hdc_Strings
begin

text \<open>
  The command line of a client as the server reads it, src/src/host/translate.cpp: the text of a
  command becomes the number of a command and its parameters, or an error for the client.
\<close>

section \<open>Words\<close>

definition CMDSTR_SOFTWARE_VERSION :: string where "CMDSTR_SOFTWARE_VERSION = ''version''"
definition CMDSTR_SOFTWARE_HELP :: string where "CMDSTR_SOFTWARE_HELP = ''help''"
definition CMDSTR_TARGET_DISCOVER :: string where "CMDSTR_TARGET_DISCOVER = ''discover''"
definition CMDSTR_KILL_SERVER :: string where "CMDSTR_KILL_SERVER = ''kserver''"
definition CMDSTR_KILL_DAEMON :: string where "CMDSTR_KILL_DAEMON = ''kdaemon''"
definition CMDSTR_LIST_TARGETS :: string where "CMDSTR_LIST_TARGETS = ''list targets''"
definition CMDSTR_CONNECT_TARGET :: string where "CMDSTR_CONNECT_TARGET = ''tconn''"
definition CMDSTR_CONNECT_ANY :: string where "CMDSTR_CONNECT_ANY = ''any''"
definition CMDSTR_SHELL :: string where "CMDSTR_SHELL = ''shell''"
definition CMDSTR_TARGET_REBOOT :: string where "CMDSTR_TARGET_REBOOT = ''target boot''"
definition CMDSTR_TARGET_MOUNT :: string where "CMDSTR_TARGET_MOUNT = ''target mount''"
definition CMDSTR_STARTUP_MODE :: string where "CMDSTR_STARTUP_MODE = ''smode''"
definition CMDSTR_TARGET_MODE :: string where "CMDSTR_TARGET_MODE = ''tmode''"
definition CMDSTR_BUGREPORT :: string where "CMDSTR_BUGREPORT = ''bugreport''"
definition CMDSTR_HILOG :: string where "CMDSTR_HILOG = ''hilog''"
definition CMDSTR_TMODE_USB :: string where "CMDSTR_TMODE_USB = ''usb''"
definition CMDSTR_FILE_SEND :: string where "CMDSTR_FILE_SEND = ''file send''"
definition CMDSTR_FILE_RECV :: string where "CMDSTR_FILE_RECV = ''file recv''"
definition CMDSTR_FORWARD_FPORT :: string where "CMDSTR_FORWARD_FPORT = ''fport''"
definition CMDSTR_FORWARD_RPORT :: string where "CMDSTR_FORWARD_RPORT = ''rport''"
definition CMDSTR_APP_INSTALL :: string where "CMDSTR_APP_INSTALL = ''install''"
definition CMDSTR_APP_UNINSTALL :: string where "CMDSTR_APP_UNINSTALL = ''uninstall''"
definition CMDSTR_APP_SIDELOAD :: string where "CMDSTR_APP_SIDELOAD = ''sideload''"
definition CMDSTR_LIST_JDWP :: string where "CMDSTR_LIST_JDWP = ''jpid''"
definition CMDSTR_TRACK_JDWP :: string where "CMDSTR_TRACK_JDWP = ''track-jpid''"
definition CMDSTR_INNER_ENABLE_KEEPALIVE :: string where "CMDSTR_INNER_ENABLE_KEEPALIVE = ''alive''"

lemmas command_words =
  CMDSTR_SOFTWARE_VERSION_def CMDSTR_SOFTWARE_HELP_def CMDSTR_TARGET_DISCOVER_def CMDSTR_KILL_SERVER_def
  CMDSTR_KILL_DAEMON_def CMDSTR_LIST_TARGETS_def CMDSTR_CONNECT_TARGET_def CMDSTR_CONNECT_ANY_def CMDSTR_SHELL_def
  CMDSTR_TARGET_REBOOT_def CMDSTR_TARGET_MOUNT_def CMDSTR_STARTUP_MODE_def CMDSTR_TARGET_MODE_def CMDSTR_BUGREPORT_def
  CMDSTR_HILOG_def CMDSTR_TMODE_USB_def CMDSTR_FILE_SEND_def CMDSTR_FILE_RECV_def CMDSTR_FORWARD_FPORT_def
  CMDSTR_FORWARD_RPORT_def CMDSTR_APP_INSTALL_def CMDSTR_APP_UNINSTALL_def CMDSTR_APP_SIDELOAD_def CMDSTR_LIST_JDWP_def
  CMDSTR_TRACK_JDWP_def CMDSTR_INNER_ENABLE_KEEPALIVE_def

text \<open>What \<open>hdc help\<close> prints, with the lines of builds for serial lines.\<close>

definition Usage_lines :: "string list" where
  "Usage_lines = [
     '''',
     ''                         OpenHarmony device connector(HDC) ...'',
     '''',
     ''---------------------------------global commands:----------------------------------'',
     '' -h/help                               - Print hdc help'',
     '' -v/version                            - Print hdc version'',
     '' -l 0-5                                - Set runtime loglevel'',
     '' -t connectkey                         - Use device with given connect key'',
     '''',
     ''---------------------------------component commands:-------------------------------'',
     ''session commands(on server):'',
     '' discover                              - Discover devices listening on TCP via LAN broadcast'',
     '' list targets [-v]                     - List all devices status, -v for detail'',
     '' tconn key                             - Connect device via key, TCP use ip:port'',
     ''                                         example:192.168.0.100:10178/192.168.0.100'',
     ''                                         USB connect automatic, TCP need to connect manually'',
     '''',
     ''                                         UART connect need connect manually.'',
     ''                                         Baud Rate can be specified with commas.'',
     ''                                         key format: <Port Name>[,Baud Rate]'',
     ''                                         example: tconn COM5,921600'',
     ''                                         Default Baud Rate is 921600.'',
     '''',
     '' start [-r]                            - Start server. If with '' @ [CHR 0x27] @ ''-r'' @ [CHR 0x27] @ '', will be restart server'',
     '' kill [-r]                             - Kill server. If with '' @ [CHR 0x27] @ ''-r'' @ [CHR 0x27] @ '', will be restart server'',
     '' -s [ip:]port                          - Set hdc server listen config'',
     '''',
     ''service commands(on daemon):'',
     '' target mount                          - Set /system /vendor partition read-write'',
     '' target boot [-bootloader|-recovery]   - Reboot the device or boot into bootloader'' @ [CHR 0x5C] @ ''recovery.'',
     '' smode [-r]                            - Restart daemon with root permissions, '' @ [CHR 0x27] @ ''-r'' @ [CHR 0x27] @ '' to cancel root'',
     ''                                         permissions'',
     '' tmode usb                             - Reboot the device, listening on USB'',
     '' tmode port [port]                     - Reboot the device, listening on TCP port'',
     '''',
     ''---------------------------------task commands:-------------------------------------'',
     ''file commands:'',
     '' file send [option] local remote       - Send file to device'',
     '' file recv [option] remote local       - Recv file from device'',
     ''                                         option is -a|-s|-z'',
     ''                                         -a: hold target file timestamp'',
     ''                                         -sync: just update newer file'',
     ''                                         -z: compress transfer'',
     '''',
     ''forward commands:'',
     '' fport localnode remotenode            - Forward local traffic to remote device'',
     '' rport remotenode localnode            - Reserve remote traffic to local host'',
     ''                                         node config name format '' @ [CHR 0x27] @ ''schema:content'' @ [CHR 0x27],
     ''                                         examples are below:'',
     ''                                         tcp:<port>'',
     ''                                         localfilesystem:<unix domain socket name>'',
     ''                                         localreserved:<unix domain socket name>'',
     ''                                         localabstract:<unix domain socket name>'',
     ''                                         dev:<device name>'',
     ''                                         jdwp:<pid> (remote only)'',
     '' fport ls                              - Dispaly forward/reverse tasks'',
     '' fport rm taskstr                      - Remove forward/reverse task by taskstring'',
     '''',
     ''app commands:'',
     '' install [-rdg] src                 - Send package(s) to device and install them'',
     ''                                         src examples: single or multiple packages and directories'',
     ''                                         (.hap)'',
     ''                                         -r: replace existing application'',
     ''                                         -d: allow version code downgrade'',
     ''                                         -g: grant all the permissions'',
     '' uninstall [-k] package                - Remove application package from device'',
     ''                                         -k: keep the data and cache directories'',
     '''',
     ''debug commands:'',
     '' hilog [-v]                            - Show device log, -v for detail'',
     '' shell [COMMAND...]                    - Run shell command (interactive shell if no command given)'',
     '' bugreport [PATH]                      - Return all information from the device, path will be save localpath'',
     '' jpid                                  - List pids of processes hosting a JDWP transport'',
     '' sideload [PATH]                       - Sideload the given full OTA package'',
     '''',
     ''security commands:'',
     '' keygen FILE                           - Generate public/private key; key stored in FILE and FILE.pub'']"

definition Usage :: string where
  "Usage = concat (map (\<lambda>l. l @ newline) Usage_lines)"

text \<open>\<open>Base::GetVersion\<close>: the parts of the number in hexadecimal, the last one as a letter.\<close>

definition version_part :: "nat \<Rightarrow> nat \<Rightarrow> nat" where
  "version_part l r = unat (drop_bit r (push_bit l HDC_VERSION_NUMBER)) mod 256"

definition GetVersion :: string where
  "GetVersion = ''Ver: '' @ hex_text (version_part 0 28) @ ''.'' @ hex_text (version_part 4 24) @ ''.''
     @ hex_text (version_part 12 24) @ [char_of (97 + version_part 20 28)]"

section \<open>Commands\<close>

record FormatCommand =
  cmdFlag :: u16
  parameters :: string
  bJumpDo :: bool

definition new_FormatCommand :: FormatCommand where
  "new_FormatCommand = \<lparr> cmdFlag = 0, parameters = '''', bJumpDo = False \<rparr>"

text \<open>
  The result of a translation is the error and the command. It is \<open>None\<close> when the process does not
  survive it: \<open>std::stoi\<close> throws, or the text behind the end of the command is read.
\<close>

type_synonym translation = "(string \<times> FormatCommand) option"

text \<open>\<open>strncmp\<close> with the length of a word.\<close>

definition begins :: "string \<Rightarrow> string \<Rightarrow> bool" where
  "begins w s \<longleftrightarrow> take (length w) s = w"

definition contains :: "string \<Rightarrow> string \<Rightarrow> bool" where
  "contains w s \<longleftrightarrow> str_find s w 0 \<noteq> None"

text \<open>\<open>ip4\<close> stands for \<open>uv_ip4_addr\<close>. The length of the key is only tested when connecting.\<close>

definition TargetConnect :: "(string \<Rightarrow> int \<Rightarrow> bool) \<Rightarrow> FormatCommand \<Rightarrow> translation" where
  "TargetConnect ip4 fc =
     (let (t1, fc1) =
        (if StringEndsWith (parameters fc) '' -remove'' then
           ('''', fc\<lparr>parameters := (if 8 \<le> length (parameters fc) then take (length (parameters fc) - 8) (parameters fc)
                            else parameters fc), cmdFlag := cmd CMD_KERNEL_TARGET_DISCONNECT\<rparr>)
         else if 22 < length (parameters fc) then
           (''Error connect key'' @ [CHR 0x27] @ ''s size'', fc\<lparr>cmdFlag := cmd CMD_KERNEL_TARGET_CONNECT, bJumpDo := True\<rparr>)
         else ('''', fc\<lparr>cmdFlag := cmd CMD_KERNEL_TARGET_CONNECT\<rparr>))
      in case str_find (parameters fc1) '':'' 0 of
           None \<Rightarrow> Some (t1, fc1)
         | Some p \<Rightarrow>
             let ip = take p (parameters fc1); sport = drop (Suc p) (parameters fc1) in
             if sport = '''' then Some (''Port incorrect'', fc1\<lparr>bJumpDo := True\<rparr>)
             else (case stoi sport of
                 None \<Rightarrow> None
               | Some port \<Rightarrow>
                   if port \<le> 0 \<or> int MAX_IP_PORT < port \<or> \<not> ip4 ip port
                   then Some (''IP:Port incorrect'', fc1\<lparr>bJumpDo := True\<rparr>)
                   else Some (t1, fc1)))"

definition ForwardPort :: "string \<Rightarrow> FormatCommand \<Rightarrow> string \<times> FormatCommand" where
  "ForwardPort input fc =
     (let pExtra = drop 6 input in
      if pExtra = ''ls'' then ('''', fc\<lparr>cmdFlag := cmd CMD_FORWARD_LIST\<rparr>)
      else if begins ''rm'' pExtra then
        ('''', (if pExtra = ''rm'' then fc else fc\<lparr>parameters := drop 9 input\<rparr>)\<lparr>cmdFlag := cmd CMD_FORWARD_REMOVE\<rparr>)
      else let ok = (\<exists>w \<in> set [''tcp:'', ''localabstract:'', ''localreserved:'', ''localfilesystem:'', ''dev:'', ''jdwp:''].
                 begins w pExtra) in
        (if ok then '''' else ''Incorrect forward command'',
         fc\<lparr>bJumpDo := bJumpDo fc \<or> \<not> ok, cmdFlag := cmd CMD_FORWARD_INIT, parameters := input\<rparr>))"

definition RunMode :: "string \<Rightarrow> FormatCommand \<Rightarrow> translation" where
  "RunMode input fc =
     (if length input < length CMDSTR_TARGET_MODE + 1 then None
      else let p = drop (length CMDSTR_TARGET_MODE + 1) input; fc1 = fc\<lparr>cmdFlag := cmd CMD_UNITY_RUNMODE, parameters := p\<rparr> in
        if begins ''port'' p \<and> p = CMDSTR_TMODE_USB then Some (''Error tmode command'', fc1\<lparr>bJumpDo := True\<rparr>)
        else if begins ''port '' p then
          let port = atoi (drop (length ''tmode port '') input) in
          if int MAX_IP_PORT < port \<or> port \<le> 0 then Some (''Incorrect port range'', fc1\<lparr>bJumpDo := True\<rparr>)
          else Some ('''', fc1)
        else Some ('''', fc1))"

definition TargetReboot :: "string \<Rightarrow> FormatCommand \<Rightarrow> string \<times> FormatCommand" where
  "TargetReboot input fc =
     (let fc1 = fc\<lparr>cmdFlag := cmd CMD_UNITY_REBOOT\<rparr> in
      if input = CMDSTR_TARGET_REBOOT then ('''', fc1)
      else let p = drop 12 input in
        if p \<noteq> ''-bootloader'' \<and> p \<noteq> ''-recovery'' then (''Error reboot paramenter'', fc1\<lparr>parameters := p, bJumpDo := True\<rparr>)
        else ('''', fc1\<lparr>parameters := drop 1 p\<rparr>))"

definition translate :: "(string \<Rightarrow> int \<Rightarrow> bool) \<Rightarrow> string \<Rightarrow> translation" where
  "translate ip4 input =
     (let s = c_str input; fc = new_FormatCommand;
          plain = (\<lambda>c. Some ('''', fc\<lparr>cmdFlag := cmd c\<rparr>));
          with = (\<lambda>c p. Some ('''', fc\<lparr>cmdFlag := cmd c, parameters := p\<rparr>)) in
      if s = CMDSTR_SOFTWARE_HELP then Some (Usage, fc\<lparr>cmdFlag := cmd CMD_KERNEL_HELP, bJumpDo := True\<rparr>)
      else if s = CMDSTR_SOFTWARE_VERSION then Some (GetVersion, fc\<lparr>cmdFlag := cmd CMD_KERNEL_HELP, bJumpDo := True\<rparr>)
      else if s = CMDSTR_TARGET_DISCOVER then plain CMD_KERNEL_TARGET_DISCOVER
      else if begins CMDSTR_LIST_TARGETS s then
        (if contains '' -v'' s then with CMD_KERNEL_TARGET_LIST ''v'' else plain CMD_KERNEL_TARGET_LIST)
      else if s = CMDSTR_CONNECT_ANY then plain CMD_KERNEL_TARGET_ANY
      else if begins CMDSTR_CONNECT_TARGET s then
        (if length s < length CMDSTR_CONNECT_TARGET + 1 then None
         else TargetConnect ip4 (fc\<lparr>parameters := drop (length CMDSTR_CONNECT_TARGET + 1) s\<rparr>))
      else if begins (CMDSTR_SHELL @ '' '') s then with CMD_UNITY_EXECUTE (drop (length CMDSTR_SHELL + 1) s)
      else if s = CMDSTR_SHELL then plain CMD_SHELL_INIT
      else if begins CMDSTR_FILE_SEND s \<or> begins CMDSTR_FILE_RECV s then with CMD_FILE_INIT (drop 5 s)
      else if begins (CMDSTR_FORWARD_FPORT @ '' '') s \<or> begins (CMDSTR_FORWARD_RPORT @ '' '') s then Some (ForwardPort s fc)
      else if s = CMDSTR_KILL_SERVER then plain CMD_KERNEL_SERVER_KILL
      else if s = CMDSTR_KILL_DAEMON then with CMD_UNITY_TERMINATE ''0''
      else if begins CMDSTR_APP_INSTALL s then with CMD_APP_INIT input
      else if begins CMDSTR_APP_UNINSTALL s then
        (if 512 < length input \<or> length input < 4 then
           Some (''Package'' @ [CHR 0x27] @ ''s path incorrect'', fc\<lparr>cmdFlag := cmd CMD_APP_UNINSTALL, parameters := input, bJumpDo := True\<rparr>)
         else with CMD_APP_UNINSTALL input)
      else if s = CMDSTR_TARGET_MOUNT then plain CMD_UNITY_REMOUNT
      else if s = CMDSTR_LIST_JDWP then plain CMD_JDWP_LIST
      else if s = CMDSTR_TRACK_JDWP then plain CMD_JDWP_TRACK
      else if begins CMDSTR_TARGET_REBOOT s then Some (TargetReboot s fc)
      else if begins CMDSTR_TARGET_MODE s then RunMode s fc
      else if begins CMDSTR_HILOG s then
        (if contains '' -v'' s then with CMD_UNITY_HILOG ''v'' else plain CMD_UNITY_HILOG)
      else if begins CMDSTR_STARTUP_MODE s then
        (if contains '' -r'' s then with CMD_UNITY_ROOTRUN ''r'' else plain CMD_UNITY_ROOTRUN)
      else if begins CMDSTR_APP_SIDELOAD s then
        (if length s = length CMDSTR_APP_SIDELOAD then
           Some (''Incorrect command, please with local path'', fc\<lparr>cmdFlag := cmd CMD_APP_SIDELOAD, parameters := input, bJumpDo := True\<rparr>)
         else with CMD_APP_SIDELOAD input)
      else if begins CMDSTR_BUGREPORT s then
        with CMD_UNITY_BUGREPORT_INIT (if length input = length CMDSTR_BUGREPORT then input @ '' '' else input)
      else if begins CMDSTR_INNER_ENABLE_KEEPALIVE s then plain CMD_KERNEL_ENABLE_KEEPALIVE
      else Some (''Unknown command...'', fc\<lparr>bJumpDo := True\<rparr>))"

text \<open>A new line ends every text for the client.\<close>

definition String2FormatCommand :: "(string \<Rightarrow> int \<Rightarrow> bool) \<Rightarrow> string \<Rightarrow> translation" where
  "String2FormatCommand ip4 input =
     map_option (\<lambda>(t, fc). (if t = '''' then t else t @ newline, fc)) (translate ip4 input)"

section \<open>What a translation gives\<close>

lemma begins_append: "begins w s \<longleftrightarrow> (\<exists>r. s = w @ r)"
  unfolding begins_def by (metis append_eq_conv_conj append_take_drop_id)

lemma begins_eval [simp]:
  "begins [] s" "begins (x # w) [] = False" "begins (x # w) (y # s) = (x = y \<and> begins w s)"
  by (auto simp: begins_def)

text \<open>The key of \<open>tconn\<close>, without the word that asks to disconnect.\<close>

definition tconn_key :: "string \<Rightarrow> string" where
  "tconn_key p = (if StringEndsWith p '' -remove'' \<and> 8 \<le> length p then take (length p - 8) p else p)"

definition bad_port :: "string \<Rightarrow> bool" where
  "bad_port key \<longleftrightarrow> (case str_find key '':'' 0 of None \<Rightarrow> False
     | Some i \<Rightarrow> drop (Suc i) key \<noteq> '''' \<and> stoi (drop (Suc i) key) = None)"

lemma TargetConnect_fails: "TargetConnect ip4 fc = None \<longleftrightarrow> bad_port (tconn_key (parameters fc))"
  by (auto simp: TargetConnect_def Let_def bad_port_def tconn_key_def split: option.splits if_splits)

text \<open>A text for the client goes with the flag that nothing is done.\<close>

definition told :: "translation \<Rightarrow> bool" where
  "told r \<longleftrightarrow> (case r of None \<Rightarrow> True | Some (t, fc) \<Rightarrow> (t \<noteq> '''' \<longleftrightarrow> bJumpDo fc))"

lemma told_if: "told x \<Longrightarrow> told y \<Longrightarrow> told (if b then x else y)"
  by simp

lemma told_simps [simp]: "told None" "told (Some (t, fc)) = (t \<noteq> '''' \<longleftrightarrow> bJumpDo fc)"
  by (simp_all add: told_def)

lemma told_parts:
  "\<not> bJumpDo fc \<Longrightarrow> told (TargetConnect ip4 fc)" "\<not> bJumpDo fc \<Longrightarrow> told (RunMode s fc)"
  "\<not> bJumpDo fc \<Longrightarrow> told (Some (ForwardPort s fc))" "\<not> bJumpDo fc \<Longrightarrow> told (Some (TargetReboot s fc))"
  by (auto simp: TargetConnect_def RunMode_def ForwardPort_def TargetReboot_def Let_def split: option.split)

lemma translate_tconn:
  assumes "c_str input = ''tconn'' @ r"
  shows "translate ip4 input = (if r = '''' then None else TargetConnect ip4 (new_FormatCommand\<lparr>parameters := drop 1 r\<rparr>))"
  using assms by (cases r) (simp_all add: translate_def command_words)

lemma translate_tmode:
  assumes "c_str input = ''tmode'' @ r"
  shows "translate ip4 input = RunMode (''tmode'' @ r) new_FormatCommand"
  using assms by (simp add: translate_def command_words)

lemma survives_if: "(b \<Longrightarrow> x \<noteq> None) \<Longrightarrow> (\<not> b \<Longrightarrow> y \<noteq> None) \<Longrightarrow> (if b then x else y) \<noteq> None"
  by simp

lemma translate_other:
  assumes "\<not> begins ''tconn'' (c_str input)" and "\<not> begins ''tmode'' (c_str input)"
  shows "translate ip4 input \<noteq> None"
  using assms unfolding translate_def Let_def
  by (intro survives_if) (simp_all add: CMDSTR_CONNECT_TARGET_def CMDSTR_TARGET_MODE_def)

text \<open>
  Which commands the server does not survive: \<open>tconn\<close> and \<open>tmode\<close> without an argument, for which it
  reads behind the text, and \<open>tconn\<close> with a port that is no number or too large, for which
  \<open>std::stoi\<close> throws. All others are translated.
\<close>

theorem translation_fails_iff:
  "String2FormatCommand ip4 input = None \<longleftrightarrow>
     c_str input = ''tconn'' \<or> c_str input = ''tmode''
     \<or> (\<exists>d r. c_str input = ''tconn'' @ d # r \<and> bad_port (tconn_key r))"
proof -
  have n: "String2FormatCommand ip4 input = None \<longleftrightarrow> translate ip4 input = None" by (simp add: String2FormatCommand_def)
  consider r where "c_str input = ''tconn'' @ r" | r where "c_str input = ''tmode'' @ r"
    | "\<not> begins ''tconn'' (c_str input)" "\<not> begins ''tmode'' (c_str input)"
    unfolding begins_append by blast
  then show ?thesis
  proof cases
    case (1 r)
    then show ?thesis unfolding n translate_tconn [OF 1] by (cases r) (auto simp: TargetConnect_fails)
  next
    case (2 r)
    then show ?thesis unfolding n translate_tmode [OF 2]
      by (cases r) (simp_all add: RunMode_def command_words Let_def)
  next
    case 3
    then have "c_str input \<noteq> ''tconn''" "c_str input \<noteq> ''tmode''" "c_str input \<noteq> ''tconn'' @ d # r" for d r by auto
    then show ?thesis unfolding n using translate_other [OF 3] by simp
  qed
qed

lemma Usage_not_empty: "Usage \<noteq> ''''"
  by (simp add: Usage_def Usage_lines_def newline_def)

lemma error_stops_lib:
  assumes "String2FormatCommand ip4 input = Some (t, fc)"
  shows "t \<noteq> '''' \<longleftrightarrow> bJumpDo fc"
proof -
  have "told (translate ip4 input)"
    unfolding translate_def Let_def
    by (intro told_if told_parts) (simp_all add: new_FormatCommand_def Usage_not_empty GetVersion_def)
  then show ?thesis using assms by (auto simp: String2FormatCommand_def told_def split: option.splits if_splits)
qed

text \<open>
  A command is carried out exactly if there is no text for the client: every error stops it, and
  nothing else does but the help and the version.
\<close>

theorem error_stops_command:
  assumes "String2FormatCommand ip4 input = Some (t, fc)"
  shows "t \<noteq> '''' \<longleftrightarrow> bJumpDo fc"
  using assms by (rule error_stops_lib)

lemma rfind_at_short: "length s < length sub \<Longrightarrow> rfind_at sub s i = None"
proof (induction sub s i rule: rfind_at.induct)
  case (2 sub x xs i)
  have "length (take (length sub) (x # xs)) < length sub" using 2(2) by simp
  then have "take (length sub) (x # xs) \<noteq> sub" by (metis less_irrefl)
  then show ?case using 2 by simp
qed auto

text \<open>
  A key of seven characters is one shorter than the suffix that asks to disconnect, which the suffix
  test accepts: \<open>tconn\<close> with such a key disconnects the device instead of connecting it.
\<close>

theorem seven_character_key_disconnects:
  assumes "length key = 7" and "\<forall>c \<in> set key. c \<noteq> CHR 0x00 \<and> c \<noteq> CHR '':''"
  shows "String2FormatCommand ip4 (''tconn '' @ key)
    = Some ('''', \<lparr> cmdFlag = cmd CMD_KERNEL_TARGET_DISCONNECT, parameters = key, bJumpDo = False \<rparr>)"
proof -
  have "c_str (''tconn '' @ key) = ''tconn'' @ CHR '' '' # key" using assms(2) by (simp add: c_str_def takeWhile_eq_all_conv)
  then have t: "translate ip4 (''tconn '' @ key) = TargetConnect ip4 (new_FormatCommand\<lparr>parameters := key\<rparr>)"
    by (simp add: translate_tconn)
  have "StringEndsWith key '' -remove''" using assms(1) rfind_at_short [of key "'' -remove''" 0]
    by (simp add: StringEndsWith_def npos_def str_rfind_def)
  moreover have "str_find key '':'' 0 = None" using assms(2) by (auto simp: str_find_single)
  ultimately show ?thesis using t assms(1) by (simp add: String2FormatCommand_def TargetConnect_def new_FormatCommand_def)
qed

theorem error_stops_command_witness:
  "\<exists>t fc. String2FormatCommand (\<lambda>_ _. True) ''target boot -x'' = Some (t, fc) \<and> bJumpDo fc \<and> t \<noteq> ''''"
proof -
  have "translate (\<lambda>_ _. True) ''target boot -x'' \<noteq> None" by (rule translate_other) (simp_all add: c_str_def)
  then obtain t fc where r: "String2FormatCommand (\<lambda>_ _. True) ''target boot -x'' = Some (t, fc)"
    by (cases "translate (\<lambda>_ _. True) ''target boot -x''") (auto simp: String2FormatCommand_def)
  have "bJumpDo fc" using r
    by (auto simp: String2FormatCommand_def translate_def command_words c_str_def TargetReboot_def Let_def)
  then show ?thesis using r error_stops_command [OF r] by blast
qed

theorem seven_character_key_disconnects_witness:
  "String2FormatCommand (\<lambda>_ _. True) ''tconn 1.2.3.4''
    = Some ('''', \<lparr> cmdFlag = cmd CMD_KERNEL_TARGET_DISCONNECT, parameters = ''1.2.3.4'', bJumpDo = False \<rparr>)"
  using seven_character_key_disconnects [of "''1.2.3.4''" "\<lambda>_ _. True"] by simp

end
