(* ===== verification/Hdc_CommandLine.thy ===== *)
theory Hdc_CommandLine
  imports Hdc_Translate Hdc_Args Hdc_Registry
begin

text \<open>
  The command line of hdc: src/src/host/main.cpp divides the arguments into options and one command,
  reads the options and decides what the process is; src/src/host/client.cpp completes the command and
  starts and stops the server.
\<close>

section \<open>Options and command\<close>

definition CMDSTR_SERVICE_KILL :: string where "CMDSTR_SERVICE_KILL = ''kill''"
definition CMDSTR_SERVICE_START :: string where "CMDSTR_SERVICE_START = ''start''"
definition CMDSTR_GENERATE_KEY :: string where "CMDSTR_GENERATE_KEY = ''keygen''"

definition registerCommand :: "string list" where
  "registerCommand = [CMDSTR_SOFTWARE_VERSION, CMDSTR_SOFTWARE_HELP, CMDSTR_TARGET_DISCOVER, CMDSTR_LIST_TARGETS,
     CMDSTR_CONNECT_ANY, CMDSTR_CONNECT_TARGET, CMDSTR_SHELL, CMDSTR_FILE_SEND, CMDSTR_FILE_RECV, CMDSTR_FORWARD_FPORT,
     CMDSTR_FORWARD_RPORT, CMDSTR_SERVICE_KILL, CMDSTR_SERVICE_START, CMDSTR_GENERATE_KEY, CMDSTR_KILL_SERVER,
     CMDSTR_KILL_DAEMON, CMDSTR_APP_INSTALL, CMDSTR_APP_UNINSTALL, CMDSTR_TARGET_MOUNT, CMDSTR_HILOG, CMDSTR_STARTUP_MODE,
     CMDSTR_BUGREPORT, CMDSTR_TARGET_MODE, CMDSTR_APP_SIDELOAD, CMDSTR_TARGET_REBOOT, CMDSTR_LIST_JDWP, CMDSTR_TRACK_JDWP]"

text \<open>The number of words of the command, and its text. The first of the list that fits decides.\<close>

fun register_loop :: "string \<Rightarrow> string \<Rightarrow> string list \<Rightarrow> nat \<times> string" where
  "register_loop c dbl [] = (0, '''')"
| "register_loop c dbl (v # vs) = (if dbl = v then (2, dbl) else if c = v then (1, c) else register_loop c dbl vs)"

definition IsRegisterCommand :: "string \<Rightarrow> string option \<Rightarrow> nat \<times> string" where
  "IsRegisterCommand c cmdnext =
     register_loop c (c @ '' '' @ (case cmdnext of None \<Rightarrow> '''' | Some n \<Rightarrow> n)) registerCommand"

text \<open>\<open>cwd\<close> is the directory of the process, if it can be told.\<close>

definition AppendCwdWhenTransfer :: "string option \<Rightarrow> string \<Rightarrow> string" where
  "AppendCwdWhenTransfer cwd out =
     (if out \<noteq> CMDSTR_FILE_SEND \<and> out \<noteq> CMDSTR_FILE_RECV \<and> out \<noteq> CMDSTR_APP_INSTALL \<and> out \<noteq> CMDSTR_APP_SIDELOAD then out
      else case cwd of
        None \<Rightarrow> out
      | Some p \<Rightarrow> out @ (if out \<noteq> [] then '' -cwd '' else ''-cwd '') @ (if last p \<noteq> CHR ''/'' then p @ ''/'' else p))"

text \<open>A word behind the command is put in quotation marks when it has a space.\<close>

definition command_word :: "string \<Rightarrow> string" where
  "command_word a = (if CHR '' '' \<in> set a then formatted ([CHR 0x22] @ a @ [CHR 0x22]) else a)"

definition add_word :: "string \<Rightarrow> string \<Rightarrow> string" where
  "add_word out w = out @ (if out \<noteq> [] then '' '' else '''') @ w"

fun split_command :: "string option \<Rightarrow> string list \<Rightarrow> string \<times> string \<Rightarrow> string \<times> string" where
  "split_command cwd [] acc = acc"
| "split_command cwd (a # as) (opt, c) =
     (case IsRegisterCommand a (if as = [] then None else Some (hd as)) of (n, text) \<Rightarrow>
      if 0 < n then (opt, foldl (\<lambda>o' w. add_word o' (command_word w)) (AppendCwdWhenTransfer cwd text) (drop (n - 1) as))
      else split_command cwd as (add_word opt a, c))"

definition SplitOptionAndCommand :: "string option \<Rightarrow> string list \<Rightarrow> string \<times> string" where
  "SplitOptionAndCommand cwd av = split_command cwd av ('''', '''')"

section \<open>The options\<close>

text \<open>
  \<open>getopt\<close> of the C library with the text \<open>hvpfms:d:t:l:\<close>: the options in their order, with their
  arguments; a question mark for one it does not know or whose argument is missing. Other words are
  passed over, two dashes end the options.
\<close>

definition opt_known :: "char \<Rightarrow> bool" where
  "opt_known c \<longleftrightarrow> c \<in> set ''hvpfmsdtl''"

definition opt_has_arg :: "char \<Rightarrow> bool" where
  "opt_has_arg c \<longleftrightarrow> c \<in> set ''sdtl''"

function getopt :: "string \<Rightarrow> string list \<Rightarrow> (char \<times> string) list" where
  "getopt [] [] = []"
| "getopt [] (w # ws) =
     (if w = ''--'' then [] else if 1 < length w \<and> hd w = CHR ''-'' then getopt (tl w) ws else getopt [] ws)"
| "getopt (c # cs) ws =
     (if \<not> opt_known c then (CHR ''?'', '''') # getopt cs ws
      else if \<not> opt_has_arg c then (c, '''') # getopt cs ws
      else if cs \<noteq> [] then (c, cs) # getopt [] ws
      else if ws = [] then [(CHR ''?'', '''')]
      else (c, hd ws) # getopt [] (tl ws))"
  by pat_completeness auto

termination
  by (relation "measure (\<lambda>(cs, ws). length cs + sum_list (map (\<lambda>w. Suc (length w)) ws))")
    (auto simp: neq_Nil_conv)

text \<open>\<open>ip4\<close> and \<open>ip6\<close> are libuv's parsers: whether they take the address.\<close>

definition IPV4_MAPPING_PREFIX :: string where "IPV4_MAPPING_PREFIX = ''::ffff:''"
definition DEFAULT_SERVER_ADDR_IP :: string where "DEFAULT_SERVER_ADDR_IP = ''::ffff:127.0.0.1''"
definition DEFAULT_SERVER_ADDR :: string where "DEFAULT_SERVER_ADDR = ''::ffff:127.0.0.1:8710''"

definition quoted :: "string \<Rightarrow> string" where "quoted s = CHR 0x27 # s @ [CHR 0x27]"

definition int_text :: "int \<Rightarrow> string" where
  "int_text i = (if i < 0 then CHR ''-'' # decimal (nat (- i)) else decimal (nat i))"

text \<open>The new address, or the message that refuses it.\<close>

definition ParseServerListenString :: "(string \<Rightarrow> bool) \<Rightarrow> (string \<Rightarrow> bool) \<Rightarrow> string \<Rightarrow> string + string" where
  "ParseServerListenString ip4 ip6 optarg =
     (if length ''0000::0000:0000:0000:0000:65535'' < length optarg then Inl (''Unknown content of parament '' @ quoted ''-s'')
      else case str_rfind optarg '':'' of
        None \<Rightarrow>
          if 5 < length optarg then Inl (''The port-string'' @ [CHR 0x27] @ ''s length must < 5'')
          else let port = atoi optarg in
            if port \<le> 0 \<or> int MAX_IP_PORT < port then Inl ''Port range incorrect''
            else Inr (DEFAULT_SERVER_ADDR_IP @ '':'' @ int_text port)
      | Some p \<Rightarrow>
          let host = take p optarg; port = atoi (drop (Suc p) optarg) in
          if port \<le> 0 \<or> int MAX_IP_PORT < port then Inl ''-s content port incorrect.''
          else if ip4 host then Inr (IPV4_MAPPING_PREFIX @ optarg)
          else if ip6 host then Inr optarg
          else Inl ''-s content IP incorrect.'')"

text \<open>The globals the options set.\<close>

record options =
  g_isServerMode :: bool
  g_isPullServer :: bool
  g_isPcDebugRun :: bool
  g_isTCPorUSB :: bool
  g_isCustomLoglevel :: bool
  g_isTestMethod :: int
  g_connectKey :: string
  g_serverListenString :: string
  g_logLevel :: int
  g_printed :: "string list"

definition options0 :: options where
  "options0 = \<lparr> g_isServerMode = False, g_isPullServer = True, g_isPcDebugRun = False, g_isTCPorUSB = False,
     g_isCustomLoglevel = False, g_isTestMethod = 0, g_connectKey = '''', g_serverListenString = '''', g_logLevel = 0, g_printed = [] \<rparr>"

definition LOG_LAST :: int where "LOG_LAST = 6"

text \<open>One option; whether the process is to exit.\<close>

definition one_option :: "(string \<Rightarrow> bool) \<Rightarrow> (string \<Rightarrow> bool) \<Rightarrow> char \<times> string \<Rightarrow> options \<Rightarrow> bool \<times> options" where
  "one_option ip4 ip6 o' g =
     (let say = (\<lambda>t g. g\<lparr>g_printed := g_printed g @ [t]\<rparr>) in
      case o' of (c, arg) \<Rightarrow>
      if c = CHR ''h'' then (True, say Usage g)
      else if c = CHR ''v'' then (True, say (GetVersion @ newline) g)
      else if c = CHR ''f'' then (False, g)
      else if c = CHR ''l'' then
        (if atoi arg < 0 \<or> LOG_LAST < atoi arg then (True, say ''Loglevel error!'' g)
         else (False, g\<lparr>g_isCustomLoglevel := True, g_logLevel := atoi arg\<rparr>))
      else if c = CHR ''m'' then (False, g\<lparr>g_isServerMode := True\<rparr>)
      else if c = CHR ''p'' then (False, g\<lparr>g_isPullServer := False\<rparr>)
      else if c = CHR ''t'' then
        (if MAX_CONNECTKEY_SIZE < length arg then (True, say (''Sizeo of of parament '' @ quoted ''-t'' @ '' '' @ decimal (length arg) @ '' is too long'') g)
         else (False, g\<lparr>g_connectKey := arg\<rparr>))
      else if c = CHR ''s'' then
        (case ParseServerListenString ip4 ip6 arg of
           Inl m \<Rightarrow> (True, say m g)
         | Inr a \<Rightarrow> (False, g\<lparr>g_serverListenString := a\<rparr>))
      else if c = CHR ''d'' then
        (let g1 = g\<lparr>g_isPcDebugRun := True\<rparr> in
         if take 1 arg = ''t'' then (False, g1\<lparr>g_isTCPorUSB := True, g_isTestMethod := atoi (tl arg)\<rparr>)
         else if take 1 arg = ''u'' then (False, g1\<lparr>g_isTCPorUSB := False, g_isTestMethod := atoi (tl arg)\<rparr>)
         else (True, say ''Unknown debug parameters'' g1))
      else if c = CHR ''?'' then (False, g)
      else (True, say ''Unknown parameters'' g))"

fun options_loop :: "(string \<Rightarrow> bool) \<Rightarrow> (string \<Rightarrow> bool) \<Rightarrow> (char \<times> string) list \<Rightarrow> options \<Rightarrow> bool \<times> options" where
  "options_loop ip4 ip6 [] g = (False, g)"
| "options_loop ip4 ip6 (x # xs) g = (case one_option ip4 ip6 x g of
     (True, g') \<Rightarrow> (True, g') | (False, g') \<Rightarrow> options_loop ip4 ip6 xs g')"

text \<open>The first word is the name of the program.\<close>

definition GetCommandlineOptions :: "(string \<Rightarrow> bool) \<Rightarrow> (string \<Rightarrow> bool) \<Rightarrow> string list \<Rightarrow> options \<Rightarrow> bool \<times> options" where
  "GetCommandlineOptions ip4 ip6 av g = options_loop ip4 ip6 (getopt [] (tl av)) g"

text \<open>\<open>env\<close> is the variable with the port.\<close>

definition InitServerAddr :: "string option \<Rightarrow> options \<Rightarrow> options" where
  "InitServerAddr env g =
     (let port = (case env of None \<Rightarrow> int DEFAULT_PORT | Some v \<Rightarrow> if atoi v \<le> 0 then int DEFAULT_PORT else atoi v)
      in g\<lparr>g_serverListenString := DEFAULT_SERVER_ADDR_IP @ '':'' @ int_text port\<rparr>)"

section \<open>What the process does\<close>

text \<open>
  \<open>AutoConnectKey\<close>: commands for the server need no device, others take any if none is given.
  \<open>compare\<close> looks at the beginning of the command.
\<close>

definition vecNoConnectKeyCommand :: "string list" where
  "vecNoConnectKeyCommand = [CMDSTR_SOFTWARE_VERSION, CMDSTR_SOFTWARE_HELP, CMDSTR_TARGET_DISCOVER, CMDSTR_LIST_TARGETS,
     CMDSTR_CONNECT_TARGET, CMDSTR_KILL_SERVER, CMDSTR_FORWARD_FPORT @ '' ls'', CMDSTR_FORWARD_FPORT @ '' rm'']"

definition AutoConnectKey :: "string \<Rightarrow> string \<Rightarrow> string" where
  "AutoConnectKey doCommand preConnectKey =
     (if \<exists>v \<in> set vecNoConnectKeyCommand. take (length v) doCommand = v then ''''
      else if preConnectKey = '''' then CMDSTR_CONNECT_ANY else preConnectKey)"

text \<open>The server as the client starts and stops it.\<close>

datatype service_action = KillPid int | Pullup string | GenerateKey string | Say string

text \<open>\<open>running\<close> is whether the server's lock is held, \<open>pid\<close> the number its file holds.\<close>

definition StartKillServer :: "bool \<Rightarrow> u32 \<Rightarrow> string \<Rightarrow> string \<Rightarrow> bool \<Rightarrow> bool \<times> service_action list" where
  "StartKillServer running pid hostport c startOrKill =
     (let restart = contains '' -r'' c; kill = KillPid (uint pid) in
      if pid = 0 then (False, [])
      else if startOrKill then
        (if running then (if \<not> restart then (True, []) else (True, [kill, Pullup hostport])) else (True, [Pullup hostport]))
      else
        let k = (if running then [kill, Say ''Kill server finish''] else []) in
        if \<not> restart then (True, k) else (True, k @ [Pullup hostport]))"

definition DoCtrlServiceWork :: "bool \<Rightarrow> u32 \<Rightarrow> string \<Rightarrow> string \<Rightarrow> service_action list" where
  "DoCtrlServiceWork running pid hostport c =
     (if begins CMDSTR_SERVICE_START c then snd (StartKillServer running pid hostport c True)
      else if begins CMDSTR_SERVICE_KILL c then snd (StartKillServer running pid hostport c False)
      else if begins CMDSTR_GENERATE_KEY c \<and> CHR '' '' \<in> set c then [GenerateKey (drop (length CMDSTR_GENERATE_KEY + 1) c)]
      else [Say ''Unknown command''])"

text \<open>
  What the process becomes: a server at an address, a test, a client that prints the usage, one that
  controls the server, or one that runs a command, after starting a server where there is none.
\<close>

datatype process =
    Exits
  | ServerAt string
  | PcDebug bool bool int
  | ShowUsage
  | Control "service_action list"
  | RunCommand "string option" string string string

definition RunClientMode :: "bool \<Rightarrow> u32 \<Rightarrow> string \<Rightarrow> string \<Rightarrow> string \<Rightarrow> bool \<Rightarrow> process" where
  "RunClientMode running pid commands serverListenString connectKey isPullServer =
     (if commands = '''' then ShowUsage
      else if begins CMDSTR_SERVICE_START commands \<or> begins CMDSTR_SERVICE_KILL commands \<or> begins CMDSTR_GENERATE_KEY commands
      then Control (DoCtrlServiceWork running pid serverListenString commands)
      else RunCommand (if isPullServer \<and> serverListenString = DEFAULT_SERVER_ADDR \<and> \<not> running then Some DEFAULT_SERVER_ADDR else None)
             commands serverListenString (AutoConnectKey commands connectKey))"

text \<open>\<open>None\<close> where the options are not divided into words; without options there are none to read.\<close>

definition main :: "string option \<Rightarrow> string option \<Rightarrow> (string \<Rightarrow> bool) \<Rightarrow> (string \<Rightarrow> bool) \<Rightarrow> bool \<Rightarrow> u32 \<Rightarrow> string list \<Rightarrow> process option" where
  "main cwd env ip4 ip6 running pid av =
     (case SplitOptionAndCommand cwd av of (opts, commands) \<Rightarrow>
      case (case SplitCommandToArgs opts of Some None \<Rightarrow> Some [] | Some (Some S) \<Rightarrow> Some (arg_strings S) | None \<Rightarrow> None) of
        None \<Rightarrow> None
      | Some ov \<Rightarrow>
          Some (case GetCommandlineOptions ip4 ip6 ov (InitServerAddr env options0) of
            (True, g) \<Rightarrow> Exits
          | (False, g) \<Rightarrow>
              if g_isServerMode g then ServerAt (g_serverListenString g)
              else if g_isPcDebugRun g then PcDebug (g_isPullServer g) (g_isTCPorUSB g) (g_isTestMethod g)
              else RunClientMode running pid commands (g_serverListenString g) (g_connectKey g) (g_isPullServer g)))"

section \<open>The words survive\<close>

text \<open>Whether a text that begins outside of quotation marks ends outside of them.\<close>

fun closed :: "bool \<Rightarrow> string \<Rightarrow> bool" where
  "closed q [] = (\<not> q)"
| "closed q (a # s) = closed (if a = CHR 0x22 then \<not> q else q) s"

lemma closed_append: "closed q s \<Longrightarrow> closed q (s @ t) = closed False t"
  by (induction q s rule: closed.induct) auto

lemma words_space: "closed q s \<Longrightarrow> words_from q cur (s @ CHR '' '' # t) = words_from q cur s @ words_from False None t"
  by (induction q cur s rule: words_from.induct) (auto simp: blank_def Let_def split: if_splits option.splits)

lemma line_words_space: "closed False s \<Longrightarrow> line_words (s @ CHR '' '' # t) = line_words s @ line_words t"
  by (simp add: line_words_def words_space)

lemma words_plain: "\<forall>c \<in> set a. c \<noteq> CHR 0x22 \<and> \<not> blank c \<Longrightarrow> words_from False (Some v) a = [v @ a]"
  by (induction a arbitrary: v) auto

lemma line_words_plain: "a \<noteq> [] \<Longrightarrow> \<forall>c \<in> set a. c \<noteq> CHR 0x22 \<and> \<not> blank c \<Longrightarrow> line_words a = [a]"
  by (cases a) (simp_all add: line_words_def words_plain)

lemma closed_plain: "CHR 0x22 \<notin> set a \<Longrightarrow> closed q a = (\<not> q)"
  by (induction a) auto

text \<open>Words of the options; words behind the command.\<close>

definition plain :: "string \<Rightarrow> bool" where
  "plain a \<longleftrightarrow> a \<noteq> [] \<and> (\<forall>c \<in> set a. c \<noteq> CHR 0x22 \<and> c \<noteq> CHR 0x00 \<and> \<not> blank c)"

definition arg_ok :: "string \<Rightarrow> bool" where
  "arg_ok a \<longleftrightarrow> a \<noteq> [] \<and> (\<forall>c \<in> set a. c \<noteq> CHR 0x22 \<and> c \<noteq> CHR 0x00 \<and> (blank c \<longrightarrow> c = CHR '' ''))
     \<and> length a + 2 < MAX_SIZE_IOBUF"

lemma plain_words: "plain a \<Longrightarrow> line_words a = [a] \<and> closed False a"
  using line_words_plain [of a] closed_plain [of a False] unfolding plain_def by blast

lemma command_word_words:
  assumes "arg_ok a"
  shows "line_words (command_word a) = [a]" and "closed False (command_word a)" and "command_word a \<noteq> []" and "CHR 0x00 \<notin> set (command_word a)"
proof -
  have q: "CHR 0x22 \<notin> set a" "CHR 0x00 \<notin> set a" using assms by (auto simp: arg_ok_def)
  have f: "formatted ([CHR 0x22] @ a @ [CHR 0x22]) = CHR 0x22 # a @ [CHR 0x22]" using assms by (simp add: formatted_def arg_ok_def)
  have "line_words (CHR 0x22 # a @ [CHR 0x22]) = [a]"
    using words_from_quoted [OF q(1), of "[]" "[]"] by (simp add: line_words_def)
  moreover have "closed True (a @ [CHR 0x22])" using q(1) by (induction a) auto
  moreover have "CHR '' '' \<notin> set a \<Longrightarrow> plain a" using assms by (auto simp: arg_ok_def plain_def)
  ultimately show "line_words (command_word a) = [a]" "closed False (command_word a)" "command_word a \<noteq> []" "CHR 0x00 \<notin> set (command_word a)"
    using f q assms plain_words [of a] unfolding command_word_def arg_ok_def by (cases "CHR '' '' \<in> set a"; simp)+
qed

lemma add_words:
  assumes "\<forall>a \<in> set as. f a \<noteq> [] \<and> line_words (f a) = [a] \<and> closed False (f a)" and "out \<noteq> []" and "closed False out"
  shows "line_words (foldl (\<lambda>o' w. add_word o' (f w)) out as) = line_words out @ as
    \<and> closed False (foldl (\<lambda>o' w. add_word o' (f w)) out as)"
  using assms
proof (induction as arbitrary: out)
  case (Cons a as)
  have o: "add_word out (f a) = out @ CHR '' '' # f a" using Cons.prems by (simp add: add_word_def)
  have "line_words (add_word out (f a)) = line_words out @ [a]" "closed False (add_word out (f a))" "add_word out (f a) \<noteq> []"
    using Cons.prems o line_words_space [of out "f a"] closed_append [of False out "CHR '' '' # f a"] by auto
  then show ?case using Cons.IH [of "add_word out (f a)"] Cons.prems by simp
qed simp

text \<open>No word of \<open>ws\<close>, the last one apart, is taken for a command.\<close>

definition no_command :: "string list \<Rightarrow> bool" where
  "no_command ws \<longleftrightarrow> (\<forall>i < length ws - 1. fst (IsRegisterCommand (ws ! i) (Some (ws ! Suc i))) = 0)"

lemma split_options:
  assumes "no_command (ws @ [w])"
  shows "split_command cwd (ws @ w # rest) (opt, c) = split_command cwd (w # rest) (foldl add_word opt ws, c)"
  using assms
proof (induction ws arbitrary: opt)
  case (Cons a ws)
  let ?n = "hd (ws @ [w])"
  have "fst (IsRegisterCommand a (Some ?n)) = 0"
    using Cons.prems unfolding no_command_def by (cases ws) (force dest: spec [of _ 0])+
  then obtain t where t: "IsRegisterCommand a (Some ?n) = (0, t)" by (metis prod.collapse)
  have h: "hd (ws @ w # rest) = ?n" "ws @ w # rest \<noteq> []" by (cases ws) auto
  have "split_command cwd (a # ws @ w # rest) (opt, c) = split_command cwd (ws @ w # rest) (add_word opt a, c)"
    using t h by (simp del: append_is_Nil_conv)
  moreover have "no_command (ws @ [w])" using Cons.prems unfolding no_command_def by (auto dest: spec [of _ "Suc _"])
  ultimately show ?case using Cons.IH [of "add_word opt a"] by simp
qed simp

lemma add_words_nul: "CHR 0x00 \<notin> set out \<Longrightarrow> \<forall>a \<in> set as. CHR 0x00 \<notin> set (f a) \<Longrightarrow>
    CHR 0x00 \<notin> set (foldl (\<lambda>o' w. add_word o' (f w)) out as)"
  by (induction as arbitrary: out) (auto simp: add_word_def)

lemma options_words:
  assumes "opts \<noteq> []" and "\<forall>a \<in> set opts. plain a"
  shows "line_words (foldl add_word '''' opts) = opts" and "CHR 0x00 \<notin> set (foldl add_word '''' opts)" and "foldl add_word '''' opts \<noteq> ''''"
proof -
  obtain a as where o: "opts = a # as" using assms(1) by (cases opts) auto
  have a: "a \<noteq> []" "line_words a = [a]" "closed False a" using assms(2) plain_words [of a] o by (auto simp: plain_def)
  have ps: "\<forall>b \<in> set as. b \<noteq> [] \<and> line_words b = [b] \<and> closed False b" using assms(2) plain_words o by (auto simp: plain_def)
  have w: "line_words (foldl add_word a as) = a # as"
    using add_words [of as "\<lambda>x. x" a] ps a by simp
  then show "line_words (foldl add_word '''' opts) = opts" using o by (simp add: add_word_def)
  show "foldl add_word '''' opts \<noteq> ''''" using w o by (auto simp: add_word_def line_words_def)
  show "CHR 0x00 \<notin> set (foldl add_word '''' opts)"
    using add_words_nul [of "''''" opts "\<lambda>x. x"] assms(2) by (auto simp: plain_def)
qed

definition cwd_words :: "string option \<Rightarrow> string list \<Rightarrow> string list" where
  "cwd_words cwd cw = (if join CHR '' '' cw \<in> {CMDSTR_FILE_SEND, CMDSTR_FILE_RECV, CMDSTR_APP_INSTALL, CMDSTR_APP_SIDELOAD}
     then (case cwd of None \<Rightarrow> [] | Some p \<Rightarrow> [''-cwd'', if last p \<noteq> CHR ''/'' then p @ ''/'' else p]) else [])"

lemma command_start:
  assumes "cw \<noteq> []" and "length cw \<le> 2" and "\<forall>a \<in> set cw. plain a" and "\<forall>p. cwd = Some p \<longrightarrow> plain p"
  shows "line_words (AppendCwdWhenTransfer cwd (join CHR '' '' cw)) = cw @ cwd_words cwd cw"
    and "closed False (AppendCwdWhenTransfer cwd (join CHR '' '' cw))" and "AppendCwdWhenTransfer cwd (join CHR '' '' cw) \<noteq> []"
proof -
  let ?j = "join CHR '' '' cw"
  obtain a bs where "cw = a # bs" "bs = [] \<or> (\<exists>b. bs = [b])" using assms(1,2) by (cases cw; cases "tl cw") auto
  then have j: "line_words ?j = cw" "closed False ?j" "?j \<noteq> []"
    using assms(3) plain_words line_words_space [of a] closed_append [of False a]
    by (auto simp: plain_def)
  have "line_words (AppendCwdWhenTransfer cwd ?j) = cw @ cwd_words cwd cw \<and> closed False (AppendCwdWhenTransfer cwd ?j)
      \<and> AppendCwdWhenTransfer cwd ?j \<noteq> []"
  proof (cases "?j \<in> {CMDSTR_FILE_SEND, CMDSTR_FILE_RECV, CMDSTR_APP_INSTALL, CMDSTR_APP_SIDELOAD} \<and> cwd \<noteq> None")
    case True
    then obtain p where p: "cwd = Some p" by auto
    let ?p = "if last p \<noteq> CHR ''/'' then p @ ''/'' else p"
    have pp: "plain p" using assms(4) p by blast
    then have "plain ?p" by (auto simp: plain_def blank_def)
    then have w: "line_words ?p = [?p]" "closed False ?p" using plain_words by blast+
    have cw: "line_words ''-cwd'' = [''-cwd'']" "closed False ''-cwd''" by (simp_all add: line_words_def blank_def)
    have e: "AppendCwdWhenTransfer cwd ?j = ?j @ CHR '' '' # (''-cwd'' @ CHR '' '' # ?p)"
      using True p j(3) by (auto simp: AppendCwdWhenTransfer_def)
    show ?thesis
      unfolding e using True p j w line_words_space [OF j(2), of "''-cwd'' @ CHR '' '' # ?p"] line_words_space [OF cw(2), of ?p] cw
        closed_append [OF j(2), of "CHR '' '' # (''-cwd'' @ CHR '' '' # ?p)"] by (simp add: cwd_words_def)
  next
    case False
    then show ?thesis using j by (auto simp: AppendCwdWhenTransfer_def cwd_words_def split: option.splits)
  qed
  then show "line_words (AppendCwdWhenTransfer cwd ?j) = cw @ cwd_words cwd cw"
    "closed False (AppendCwdWhenTransfer cwd ?j)" "AppendCwdWhenTransfer cwd ?j \<noteq> []" by simp_all
qed

text \<open>
  The arguments of the process are read back: the words of the options are those in front of the
  command, and the words of the command are its name, the directory of the process where files are
  looked for, and the arguments behind it, whatever spaces they hold. The options then decide.
\<close>

theorem command_line_read:
  assumes "opts \<noteq> []" and "\<forall>a \<in> set opts. plain a" and "no_command (opts @ [hd cw])"
    and "cw \<noteq> []" and "length cw \<le> 2" and "\<forall>a \<in> set cw. plain a" and "\<forall>p. cwd = Some p \<longrightarrow> plain p"
    and "IsRegisterCommand (hd cw) (if tl cw @ args = [] then None else Some (hd (tl cw @ args))) = (length cw, join CHR '' '' cw)"
    and "\<forall>a \<in> set args. arg_ok a"
  shows "\<exists>c. snd (SplitOptionAndCommand cwd (opts @ cw @ args)) = c \<and> line_words c = cw @ cwd_words cwd cw @ args \<and>
    main cwd env ip4 ip6 running pid (opts @ cw @ args) =
      Some (case GetCommandlineOptions ip4 ip6 opts (InitServerAddr env options0) of
          (True, g) \<Rightarrow> Exits
        | (False, g) \<Rightarrow>
            if g_isServerMode g then ServerAt (g_serverListenString g)
            else if g_isPcDebugRun g then PcDebug (g_isPullServer g) (g_isTCPorUSB g) (g_isTestMethod g)
            else RunClientMode running pid c (g_serverListenString g) (g_connectKey g) (g_isPullServer g))"
proof -
  let ?o = "foldl add_word '''' opts" and ?j = "join CHR '' '' cw"
  let ?c = "foldl (\<lambda>o' w. add_word o' (command_word w)) (AppendCwdWhenTransfer cwd ?j) args"
  obtain a bs where cw: "cw = a # bs" "drop (length cw - 1) (bs @ args) = args" using assms(4,5) by (cases cw; cases "tl cw") auto
  have "SplitOptionAndCommand cwd (opts @ cw @ args) = split_command cwd (cw @ args) (?o, '''')"
    using split_options [of opts a cwd "bs @ args"] assms(3) cw by (simp add: SplitOptionAndCommand_def)
  then have s: "SplitOptionAndCommand cwd (opts @ cw @ args) = (?o, ?c)"
    using assms(8) cw by auto
  have c: "line_words ?c = cw @ cwd_words cwd cw @ args"
    using add_words [of args command_word "AppendCwdWhenTransfer cwd ?j"] command_word_words assms(9)
      command_start [OF assms(4-7)] by simp
  note o' = options_words [OF assms(1,2)]
  obtain S where S: "SplitCommandToArgs ?o = Some (Some S)" "arg_strings S = opts"
    using SplitCommandToArgs_words_lib [OF o'(3,2)] o'(1) by auto
  show ?thesis unfolding main_def s using c S by simp
qed

theorem command_line_read_witness:
  "line_words (snd (SplitOptionAndCommand (Some ''/w'') [''hdc'', ''-t'', ''k'', ''file'', ''send'', ''a b'', ''/d''])) =
     [''file'', ''send'', ''-cwd'', ''/w/'', ''a b'', ''/d'']
   \<and> (\<exists>c a. main (Some ''/w'') None (\<lambda>_. True) (\<lambda>_. True) True 0 [''hdc'', ''-t'', ''k'', ''file'', ''send'', ''a b'', ''/d''] =
     Some (RunCommand None c a ''k''))"
proof -
  let ?o = "[''hdc'', ''-t'', ''k'']" and ?w = "[''file'', ''send'']" and ?a = "[''a b'', ''/d'']"
  have n: "no_command (?o @ [hd ?w])"
    by (simp add: no_command_def less_Suc_eq IsRegisterCommand_def registerCommand_def command_words
        CMDSTR_SERVICE_KILL_def CMDSTR_SERVICE_START_def CMDSTR_GENERATE_KEY_def)
  have r: "IsRegisterCommand (hd ?w) (if tl ?w @ ?a = [] then None else Some (hd (tl ?w @ ?a))) = (length ?w, join CHR '' '' ?w)"
    by (simp add: IsRegisterCommand_def registerCommand_def command_words
        CMDSTR_SERVICE_KILL_def CMDSTR_SERVICE_START_def CMDSTR_GENERATE_KEY_def)
  have p: "\<forall>a \<in> set ?o. plain a" "\<forall>a \<in> set ?w. plain a" "\<forall>p. Some ''/w'' = Some p \<longrightarrow> plain p" "\<forall>a \<in> set ?a. arg_ok a"
    by (simp_all add: plain_def arg_ok_def blank_def MAX_SIZE_IOBUF_def)
  have g: "GetCommandlineOptions (\<lambda>_. True) (\<lambda>_. True) ?o (InitServerAddr None options0) =
     (False, (InitServerAddr None options0)\<lparr>g_connectKey := ''k''\<rparr>)"
    by (simp add: GetCommandlineOptions_def one_option_def opt_known_def opt_has_arg_def MAX_CONNECTKEY_SIZE_def)
  have i: "\<not> g_isServerMode (InitServerAddr None options0)" "\<not> g_isPcDebugRun (InitServerAddr None options0)"
    by (simp_all add: InitServerAddr_def options0_def)
  have c: "snd (SplitOptionAndCommand (Some ''/w'') (?o @ ?w @ ?a)) = ''file send -cwd /w/ '' @ CHR 0x22 # ''a b'' @ CHR 0x22 # '' /d''"
    by (simp add: SplitOptionAndCommand_def IsRegisterCommand_def registerCommand_def command_words CMDSTR_SERVICE_KILL_def
        CMDSTR_SERVICE_START_def CMDSTR_GENERATE_KEY_def AppendCwdWhenTransfer_def command_word_def add_word_def formatted_def MAX_SIZE_IOBUF_def)
  have k: "RunClientMode True 0 (snd (SplitOptionAndCommand (Some ''/w'') (?o @ ?w @ ?a))) adr ''k'' pull =
      RunCommand None (snd (SplitOptionAndCommand (Some ''/w'') (?o @ ?w @ ?a))) adr ''k''" for pull adr
    unfolding c by (simp add: RunClientMode_def begins_def CMDSTR_SERVICE_KILL_def CMDSTR_SERVICE_START_def CMDSTR_GENERATE_KEY_def
        AutoConnectKey_def vecNoConnectKeyCommand_def command_words)
  show ?thesis
    using command_line_read [OF _ p(1) n _ _ p(2) p(3) r p(4), of None "\<lambda>_. True" "\<lambda>_. True" True 0, unfolded g] i k
    by (simp add: cwd_words_def command_words)
qed

text \<open>
  The address of a server. An IPv4 address is taken for \<open>-s\<close> whatever its length and put behind a
  prefix, and the command is run by a client that refuses an address of more than 16 characters: only
  addresses of up to nine characters can be used.
\<close>

lemma rfind_last: "CHR '':'' \<notin> set b \<Longrightarrow> str_rfind (a @ CHR '':'' # b) '':'' = Some (length a)"
proof -
  assume b: "CHR '':'' \<notin> set b"
  let ?s = "a @ CHR '':'' # b"
  obtain i where i: "str_rfind ?s '':'' = Some i" using str_rfind_char(2) [of ?s "CHR '':''"] by (cases "str_rfind ?s '':''") auto
  have k: "i < length ?s" "?s ! i = CHR '':''" "CHR '':'' \<notin> set (drop (Suc i) ?s)" using str_rfind_char(1) [OF i] by auto
  have "\<not> i < length a" using k(3) by (auto simp: drop_Cons')
  moreover have "\<not> length a < i"
  proof
    assume l: "length a < i"
    then have "b ! (i - Suc (length a)) = CHR '':''" using k(2) by (simp add: nth_append nth_Cons')
    moreover have "i - Suc (length a) < length b" using k(1) l by simp
    ultimately show False using b nth_mem by metis
  qed
  ultimately show ?thesis using i by simp
qed

theorem long_address_refused:
  assumes "ip4 host" and "CHR '':'' \<notin> set port" and "0 < atoi port" and "atoi port \<le> int MAX_IP_PORT" and "host \<noteq> []"
    and "length host + length port < 31"
  shows "ParseServerListenString ip4 ip6 (host @ CHR '':'' # port) = Inr (IPV4_MAPPING_PREFIX @ host @ CHR '':'' # port) \<and>
    ConnectKey2IPPort (IPV4_MAPPING_PREFIX @ host @ CHR '':'' # port) =
      (if length host \<le> 9 then Inr (IPV4_MAPPING_PREFIX @ host, word_of_int (atoi port)) else Inl ERR_PARM_SIZE)"
proof -
  have r: "str_rfind (host @ CHR '':'' # port) '':'' = Some (length host)"
    "str_rfind (IPV4_MAPPING_PREFIX @ host @ CHR '':'' # port) '':'' = Some (7 + length host)"
    using rfind_last [OF assms(2), of host] rfind_last [OF assms(2), of "IPV4_MAPPING_PREFIX @ host"]
    by (simp_all add: IPV4_MAPPING_PREFIX_def)
  have l: "length IPV4_MAPPING_PREFIX = 7" by (simp add: IPV4_MAPPING_PREFIX_def)
  then have p: "take (7 + length host) (IPV4_MAPPING_PREFIX @ host @ CHR '':'' # port) = IPV4_MAPPING_PREFIX @ host"
    "drop (Suc (7 + length host)) (IPV4_MAPPING_PREFIX @ host @ CHR '':'' # port) = port"
    by simp_all
  show ?thesis
    unfolding ParseServerListenString_def ConnectKey2IPPort_def r using assms(1,3-6) p l
    by (simp add: BUF_SIZE_TINY_def Let_def)
qed

theorem long_address_refused_witness:
  "ParseServerListenString (\<lambda>h. h = ''192.168.0.100'') (\<lambda>_. False) ''192.168.0.100:8710'' = Inr ''::ffff:192.168.0.100:8710''
   \<and> ConnectKey2IPPort ''::ffff:192.168.0.100:8710'' = Inl ERR_PARM_SIZE"
proof -
  have "atoi ''8710'' = 8710" by (simp add: atoi_def strtol_def digits_value_def isdigit_def isspace_def)
  then show ?thesis
    using long_address_refused [of "\<lambda>h. h = ''192.168.0.100''" "''192.168.0.100''" "''8710''" "\<lambda>_. False"]
    by (simp add: IPV4_MAPPING_PREFIX_def MAX_IP_PORT_def)
qed

end
