(* ===== verification/Hdc_ServerClient.thy ===== *)
theory Hdc_ServerClient
  imports Hdc_Server Hdc_Translate
begin

text \<open>
  The server's side of a client, src/src/host/server_for_client.cpp: the handshake of a channel and
  its binding to the session of a device, the commands the server carries out itself and those it
  hands to the daemon or to a task, and the timer that waits for a device to connect.
\<close>

section \<open>State\<close>

text \<open>
  \<open>childLoop\<close> tells whether \<open>hChildWorkTCP\<close> belongs to a loop, that is whether the channel has been
  attached to a session; from then on it is served by the thread of that session. \<open>bufStd\<close> has the
  counter and the key of a connection that is waited for.
\<close>

record client_channel = HdcChannel +
  c_handshakeOK :: bool
  interactiveShellMode :: bool
  c_keepAlive :: bool
  workClosing :: bool
  childLoop :: bool
  bufStd :: "u16 \<times> string"

text \<open>
  What the callbacks do besides: channels to be attached in the next loop, control messages to the
  threads of sessions, sessions to be freed, timers that wait for a connection.
\<close>

record client_side =
  srv :: server_state
  attach_next :: "u32 list"
  ctrl_msgs :: "(u32 \<times> bytes) list"
  session_frees :: "u32 list"
  wait_timers :: "u32 list"
  loop_stopped :: bool

definition upd_srv :: "(server_state \<Rightarrow> server_state) \<Rightarrow> client_side \<Rightarrow> client_side" where
  "upd_srv f cs = cs\<lparr>srv := f (srv cs)\<rparr>"

definition free_channel :: "u32 \<Rightarrow> client_side \<Rightarrow> client_side" where
  "free_channel ch = upd_srv (\<lambda>st. st\<lparr>sv_freeReq := sv_freeReq st @ [ch]\<rparr>)"

section \<open>Answers\<close>

text \<open>
  \<open>EchoClient\<close> formats its text; where the text has no arguments it is itself the format, which is
  \<open>echo_text\<close>. \<open>None\<close> as there. The handle of the thread is written to, unless it closes. Here \<open>c_ref\<close>
  counts the lasting uses of a channel only: the reference a write takes until it has completed is the
  subject of \<open>EchoClientRaw\<close> and \<open>WriteCallback\<close> in Hdc_Server.
\<close>

definition echo_line :: "u8 \<Rightarrow> string \<Rightarrow> string option" where
  "echo_line l t =
     (let lg = level_text l @ formatted t in
      if lg = '''' then None else Some (if last lg \<noteq> CHR 0x0A then lg @ [CHR 0x0D, CHR 0x0A] else lg))"

definition to_client :: "u32 \<Rightarrow> bytes \<Rightarrow> server_state \<Rightarrow> server_state" where
  "to_client ch bs st = st\<lparr>sv_client := sv_client st @ [(ch, bs)]\<rparr>"

definition SendChannel :: "client_channel \<Rightarrow> bytes \<Rightarrow> client_side \<Rightarrow> client_side" where
  "SendChannel h bs cs =
     (if \<not> childLoop h \<and> workClosing h then cs else upd_srv (to_client (c_channelId h) bs) cs)"

definition EchoClient :: "client_channel \<Rightarrow> MessageLevel \<Rightarrow> string \<Rightarrow> client_side \<Rightarrow> client_side option" where
  "EchoClient h l t cs = map_option (\<lambda>x. SendChannel h (bytes_of x) cs) (echo_line (msg_level l) t)"

definition EchoFormat :: "client_channel \<Rightarrow> MessageLevel \<Rightarrow> string \<Rightarrow> client_side \<Rightarrow> client_side option" where
  "EchoFormat h l msg cs = map_option (\<lambda>x. SendChannel h (bytes_of x) cs) (echo_text (msg_level l) msg)"

lemma echo_text_line: "echo_text l msg = Option.bind (format_no_args msg) (echo_line l)"
  by (simp add: echo_text_def echo_line_def Let_def split: option.split)

section \<open>Sessions\<close>

text \<open>
  A device keeps the pointer to its session, which is read without a test whether the session still
  exists: \<open>None\<close> is a pointer that is null or dangles.
\<close>

definition live_session :: "HdcDaemonInformation \<Rightarrow> client_side \<Rightarrow> HdcSession option" where
  "live_session di cs = Option.bind (hdi_hSession di) (map_of (mapSession (sv_base (srv cs))))"

definition query_daemon :: "string \<Rightarrow> client_side \<Rightarrow> HdcDaemonInformation option" where
  "query_daemon key cs = (case map_of (sv_daemons (srv cs)) key of Some p \<Rightarrow> p | None \<Rightarrow> None)"

definition FindAliveSession :: "u32 \<Rightarrow> client_side \<Rightarrow> HdcSession option" where
  "FindAliveSession sid cs = (case map_of (mapSession (sv_base (srv cs))) sid of
     None \<Rightarrow> None | Some s \<Rightarrow> if isDead s then None else Some s)"

definition ChannelSendSessionCtrlMsg :: "bytes \<Rightarrow> u32 \<Rightarrow> client_side \<Rightarrow> bool \<times> client_side" where
  "ChannelSendSessionCtrlMsg msg sid cs = (case FindAliveSession sid cs of
     None \<Rightarrow> (False, cs) | Some _ \<Rightarrow> (True, cs\<lparr>ctrl_msgs := ctrl_msgs cs @ [(sid, msg)]\<rparr>))"

definition SendToDaemon :: "client_channel \<Rightarrow> u16 \<Rightarrow> bytes \<Rightarrow> client_side \<Rightarrow> (bool \<times> client_side) option" where
  "SendToDaemon h c payload cs = (case query_daemon (c_connectKey h) cs of
     None \<Rightarrow> Some (False, cs)
   | Some hdi \<Rightarrow>
       if connStatus hdi \<noteq> STATUS_CONNECTED then Some (False, cs)
       else if hdi_hSession hdi = None then Some (False, cs)
       else (case live_session hdi cs of
           None \<Rightarrow> None
         | Some s \<Rightarrow>
             if isDead s then Some (False, cs)
             else Some (True, upd_srv (sv_send (s_sessionId s) (c_channelId h) c payload) cs)))"

text \<open>The session of the channel's device, if any; the error is told to the client.\<close>

definition FindAliveSessionFromDaemonMap :: "client_channel \<Rightarrow> client_side \<Rightarrow> (HdcSession option \<times> client_side) option" where
  "FindAliveSessionFromDaemonMap h cs =
     (let refuse = (\<lambda>t. map_option (Pair None) (EchoClient h MSG_FAIL t cs)) in
      case query_daemon (c_connectKey h) cs of
        None \<Rightarrow> refuse ''Not match target founded, check connect-key please''
      | Some hdi \<Rightarrow>
          if connStatus hdi \<noteq> STATUS_CONNECTED then refuse ''Device not founded or connected''
          else (case live_session hdi cs of
              None \<Rightarrow> None
            | Some s \<Rightarrow> if isDead s then refuse ''Bind tartget session is dead'' else Some (Some s, cs)))"

section \<open>Handshake\<close>

text \<open>\<open>dup\<close> is the result of duplicating the socket.\<close>

definition BindChannelToSession :: "int \<Rightarrow> client_channel \<Rightarrow> client_side \<Rightarrow> (int \<times> client_channel \<times> client_side) option" where
  "BindChannelToSession dup h cs = (case FindAliveSessionFromDaemonMap h cs of
     None \<Rightarrow> None
   | Some (None, cs1) \<Rightarrow> Some (err ERR_SESSION_NOFOUND, h, cs1)
   | Some (Some _, cs1) \<Rightarrow>
       if \<not> workClosing h \<and> dup < 0 then Some (err ERR_SOCKET_DUPLICATE, h, cs1)
       else Some (err RET_SUCCESS, h\<lparr>c_ref := Suc (c_ref h), workClosing := True\<rparr>,
         cs1\<lparr>attach_next := attach_next cs1 @ [c_channelId h]\<rparr>))"

definition attach_in_next_loop :: "client_channel \<Rightarrow> client_side \<Rightarrow> client_side option" where
  "attach_in_next_loop h cs = (case FindAliveSessionFromDaemonMap h cs of
     None \<Rightarrow> None
   | Some (None, cs1) \<Rightarrow> Some cs1
   | Some (Some s, cs1) \<Rightarrow>
       Some (cs1\<lparr>ctrl_msgs := ctrl_msgs cs1 @ [(s_sessionId s, BuildCtrlString SP_ATTACH_CHANNEL (c_channelId h) None 0)]\<rparr>))"

text \<open>\<open>OP_GET_ONLY\<close> may leave a null pointer behind in the registry.\<close>

definition CheckAutoFillTarget :: "client_channel \<Rightarrow> client_side \<Rightarrow> (bool \<times> client_channel \<times> client_side) option" where
  "CheckAutoFillTarget h cs =
     (if c_connectKey h = '''' then Some (False, h, cs)
      else if c_connectKey h = CMDSTR_CONNECT_ANY then
        (case AdminDaemonMap D_GET_ONLY '''' None (sv_daemons (srv cs)) of
           None \<Rightarrow> None
         | Some (_, p, m) \<Rightarrow>
             let cs1 = upd_srv (\<lambda>st. st\<lparr>sv_daemons := m\<rparr>) cs in
             (case p of None \<Rightarrow> Some (False, h, cs1)
              | Some di \<Rightarrow> Some (True, h\<lparr>c_connectKey := hdi_connectKey di\<rparr>, cs1)))
      else Some (True, h, cs))"

text \<open>The structure has a banner of 12 bytes and a key of 32; a zero is put behind what was read.\<close>

definition ChannelHandShake :: "int \<Rightarrow> client_channel \<Rightarrow> bytes \<Rightarrow> client_side \<Rightarrow> (int \<times> client_channel \<times> client_side) option" where
  "ChannelHandShake dup h bs cs =
     (let rebuilt = chars_of (bs @ [0]) in
      if take (length HANDSHAKE_MESSAGE) (c_str rebuilt) \<noteq> HANDSHAKE_MESSAGE then Some (err ERR_HANDSHAKE_NOTMATCH, h, cs)
      else if length rebuilt \<le> 12 then None
      else let key = c_str (drop 12 rebuilt) in
        if MAX_CONNECTKEY_SIZE < length key then Some (err ERR_HANDSHAKE_CONNECTKEY_FAILED, h, cs)
        else let h1 = h\<lparr>c_connectKey := key, c_handshakeOK := True\<rparr> in
          (case CheckAutoFillTarget h1 cs of
             None \<Rightarrow> None
           | Some (False, h2, cs2) \<Rightarrow> Some (0, h2, cs2)
           | Some (True, h2, cs2) \<Rightarrow> (case BindChannelToSession dup h2 cs2 of
               None \<Rightarrow> None
             | Some (r, h3, cs3) \<Rightarrow> if r \<noteq> 0 then Some (err ERR_GENERIC, h3, cs3) else Some (0, h3, cs3))))"

section \<open>Commands the server carries out\<close>

type_synonym answer = "(bool \<times> client_channel \<times> client_side) option"

text \<open>\<open>found\<close> are the keys of the daemons that answered the broadcast.\<close>

definition discovered :: "string \<Rightarrow> HdcDaemonInformation" where
  "discovered key = \<lparr> hdi_connType = CONN_TCP, connStatus = STATUS_READY, hdi_connectKey = key, usbMountPoint = '''',
     devName = '''', hdi_hSession = None \<rparr>"

definition add_daemon :: "string \<Rightarrow> daemon_map \<Rightarrow> daemon_map" where
  "add_daemon key m = (case AdminDaemonMap (D_ADD (discovered key)) '''' None m of None \<Rightarrow> m | Some (_, _, m') \<Rightarrow> m')"

definition OrderFindTargets :: "string list \<Rightarrow> client_channel \<Rightarrow> client_side \<Rightarrow> client_side option" where
  "OrderFindTargets found h cs =
     Option.bind (EchoClient h MSG_INFO
         (''Please add HDC server'' @ [CHR 0x27] @ ''s firewall ruler to allow udp incoming, udpport:'' @ decimal DEFAULT_PORT) cs)
       (\<lambda>cs1. EchoClient h MSG_INFO (''Broadcast find daemon, total:'' @ decimal (length found))
         (upd_srv (\<lambda>st. st\<lparr>sv_daemons := fold add_daemon found (sv_daemons st)\<rparr>) cs1))"

definition GetTargetList :: "string \<Rightarrow> client_channel \<Rightarrow> client_side \<Rightarrow> client_side option" where
  "GetTargetList params h cs =
     (case AdminDaemonMap (D_STRLIST (params = ''v'')) '''' None (sv_daemons (srv cs)) of
        None \<Rightarrow> None
      | Some (sRet, _, _) \<Rightarrow> EchoFormat h MSG_OK (if sRet = '''' then ''[Empty]'' else sRet) cs)"

text \<open>
  The key is copied behind two bytes of a buffer of 128, which count the attempts; an empty key
  gives no timer. The codes compared are -1 and -2.
\<close>

definition NewConnectTry :: "(ConnType \<Rightarrow> string \<Rightarrow> u32 option) \<Rightarrow> string \<Rightarrow> client_channel \<Rightarrow> client_side \<Rightarrow> answer" where
  "NewConnectTry connect key h cs = (case CreateConnect connect key (sv_daemons (srv cs)) of
     None \<Rightarrow> None
   | Some (childRet, m) \<Rightarrow>
       let cs1 = upd_srv (\<lambda>st. st\<lparr>sv_daemons := m\<rparr>) cs in
       if childRet = -1 then
         map_option (\<lambda>c. (False, h, c)) (EchoClient h MSG_INFO ''Target is connected, repeat operation'' cs1)
       else if childRet = -2 then map_option (\<lambda>c. (False, h, c)) (EchoClient h MSG_FAIL ''CreateConnect failed'' cs1)
       else if key = '''' \<or> 126 \<le> length key then Some (False, h\<lparr>bufStd := (0, take 125 key)\<rparr>, cs1)
       else Some (True, h\<lparr>bufStd := (0, key)\<rparr>, cs1\<lparr>wait_timers := wait_timers cs1 @ [c_channelId h]\<rparr>))"

text \<open>The timer of a connection that is waited for; the flag says that it goes on.\<close>

definition OrderConnecTargetResult :: "client_channel \<Rightarrow> client_side \<Rightarrow> (bool \<times> client_channel \<times> client_side) option" where
  "OrderConnecTargetResult h cs =
     (let (retry, target) = bufStd h in
      Option.bind (if target = ''any'' then any_daemon None (sv_daemons (srv cs)) else Some (query_daemon target cs)) (\<lambda>hdi.
        let finish = (\<lambda>l t h'. map_option (\<lambda>c. (False, h', free_channel (c_channelId h) c)) (EchoClient h l t cs)) in
        if (case hdi of Some di \<Rightarrow> connStatus di = STATUS_CONNECTED | None \<Rightarrow> False) then finish MSG_OK ''Connect OK'' h
        else let h' = h\<lparr>bufStd := (retry + 1, target)\<rparr> in
          if 500 < retry + 1 then finish MSG_FAIL ''Connect failed'' h' else Some (True, h', cs)))"

definition GetAnyTarget :: "(ConnType \<Rightarrow> string \<Rightarrow> u32 option) \<Rightarrow> client_channel \<Rightarrow> client_side \<Rightarrow> answer" where
  "GetAnyTarget connect h cs = (case AdminDaemonMap D_GET_ANY '''' None (sv_daemons (srv cs)) of
     None \<Rightarrow> None
   | Some (_, None, _) \<Rightarrow> map_option (\<lambda>c. (False, h, c)) (EchoClient h MSG_FAIL ''No target available'' cs)
   | Some (_, Some di, _) \<Rightarrow> NewConnectTry connect (hdi_connectKey di) h cs)"

definition CommandRemoveSession :: "string \<Rightarrow> client_channel \<Rightarrow> client_side \<Rightarrow> (bool \<times> client_side) option" where
  "CommandRemoveSession key h cs = (case query_daemon key cs of
     None \<Rightarrow> map_option (Pair False) (EchoClient h MSG_FAIL ''No target available'' cs)
   | Some di \<Rightarrow> (case live_session di cs of
       None \<Rightarrow> None
     | Some s \<Rightarrow> Some (True, cs\<lparr>session_frees := session_frees cs @ [s_sessionId s]\<rparr>)))"

definition CommandRemoveForward :: "(TaskInformation \<Rightarrow> TaskInformation) \<Rightarrow> string \<Rightarrow> client_side \<Rightarrow> bool \<times> client_side" where
  "CommandRemoveForward stop key cs =
     (case fst (snd (AdminForwardMap F_QUERY key None (sv_forwards (srv cs)))) of
        None \<Rightarrow> (False, cs)
      | Some hfi \<Rightarrow>
          let drop = upd_srv (\<lambda>st. st\<lparr>sv_forwards := snd (snd (AdminForwardMap F_REMOVE key None (sv_forwards st)))\<rparr>) in
          (case map_of (mapSession (sv_base (srv cs))) (fi_sessionId hfi) of
             None \<Rightarrow> (True, drop cs)
           | Some s \<Rightarrow>
               let cs1 = upd_srv (\<lambda>st. set_tasks (fi_sessionId hfi)
                     (fst (ClearOwnTasks stop (fi_channelId hfi) (session_tasks (fi_sessionId hfi) st))) st) cs
               in (True, drop (free_channel (fi_channelId hfi) cs1))))"

text \<open>The parameter is never a null pointer, so the branch that removes all forwards is not taken.\<close>

definition RemoveForward :: "(TaskInformation \<Rightarrow> TaskInformation) \<Rightarrow> string \<Rightarrow> client_channel \<Rightarrow> client_side \<Rightarrow> client_side option" where
  "RemoveForward stop key h cs =
     (let (ok, cs1) = CommandRemoveForward stop key cs in
      if ok then Some cs1 else EchoClient h MSG_FAIL (''Remove forward ruler failed,ruler:'' @ key) cs1)"

record local_env =
  le_connect :: "ConnType \<Rightarrow> string \<Rightarrow> u32 option"
  le_found :: "string list"
  le_stop :: "TaskInformation \<Rightarrow> TaskInformation"

definition DoCommandLocal :: "local_env \<Rightarrow> FormatCommand \<Rightarrow> client_channel \<Rightarrow> client_side \<Rightarrow> answer" where
  "DoCommandLocal E fc h cs =
     (let c = cmdFlag fc; p = c_str (parameters fc); done = (\<lambda>ret. map_option (\<lambda>x. (ret, h, x))) in
      if c = cmd CMD_KERNEL_TARGET_DISCOVER then done False (OrderFindTargets (le_found E) h cs)
      else if c = cmd CMD_KERNEL_TARGET_LIST then done False (GetTargetList (parameters fc) h cs)
      else if c = cmd CMD_KERNEL_TARGET_ANY then GetAnyTarget (le_connect E) h cs
      else if c = cmd CMD_KERNEL_TARGET_CONNECT then NewConnectTry (le_connect E) p h cs
      else if c = cmd CMD_KERNEL_TARGET_DISCONNECT then
        map_option (\<lambda>(_, x). (False, h, x)) (CommandRemoveSession p h cs)
      else if c = cmd CMD_KERNEL_SERVER_KILL then Some (True, h, cs\<lparr>loop_stopped := True\<rparr>)
      else if c = cmd CMD_FORWARD_LIST then
        (let echo = fst (AdminForwardMap (F_STRLIST True) '''' None (sv_forwards (srv cs)))
         in done False (EchoFormat h MSG_OK (if echo = '''' then ''[Empty]'' else echo) cs))
      else if c = cmd CMD_FORWARD_REMOVE then done False (RemoveForward (le_stop E) p h cs)
      else if c = cmd CMD_KERNEL_ENABLE_KEEPALIVE then Some (True, h\<lparr>c_keepAlive := True\<rparr>, cs)
      else done False (EchoClient h MSG_FAIL ''ExecuteCommand need connect-key?'' cs))"

section \<open>Commands for the device\<close>

definition task_word :: "u16 \<Rightarrow> string" where
  "task_word c =
     (if c = cmd CMD_FILE_INIT then ''send ''
      else if c = cmd CMD_FORWARD_INIT then ''fport ''
      else if c = cmd CMD_APP_INIT then ''install ''
      else if c = cmd CMD_APP_UNINSTALL then ''uninstall ''
      else if c = cmd CMD_UNITY_BUGREPORT_INIT then ''bugreport ''
      else if c = cmd CMD_APP_SIDELOAD then ''sideload ''
      else '''')"

text \<open>
  The word is cut off by its length, whether it is there or not. If the parameters are shorter, the
  size that is sent is negative: \<open>None\<close>.
\<close>

definition TaskCommand :: "'s dispatcher \<Rightarrow> FormatCommand \<Rightarrow> client_channel \<Rightarrow> client_side \<times> 's
    \<Rightarrow> (bool \<times> client_side \<times> 's) option" where
  "TaskCommand T fc h = (\<lambda>(cs, x).
     let w = task_word (cmdFlag fc); payload = bytes_of (drop (length w) (parameters fc)) in
     if begins w (c_str (parameters fc)) then
       (case FindAliveSession (targetSessionId h) cs of
          None \<Rightarrow> Some (False, cs, x)
        | Some s \<Rightarrow>
            (case DispatchTaskData T True (sv_base (srv cs)) (s_sessionId s) (c_channelId h) (cmdFlag fc) payload (mapTask s) x of
               (ok, m', x') \<Rightarrow> Some (True, upd_srv (set_tasks (targetSessionId h) m') cs, x')))
     else if length (parameters fc) < length w then None
     else map_option (\<lambda>(_, cs'). (True, cs', x)) (SendToDaemon h (cmdFlag fc) payload cs))"

definition simple_commands :: "u16 list" where
  "simple_commands = map cmd [CMD_SHELL_INIT, CMD_SHELL_DATA, CMD_UNITY_EXECUTE, CMD_UNITY_TERMINATE, CMD_UNITY_REMOUNT,
     CMD_UNITY_REBOOT, CMD_UNITY_RUNMODE, CMD_UNITY_HILOG, CMD_UNITY_ROOTRUN, CMD_JDWP_TRACK, CMD_JDWP_LIST]"

definition task_commands :: "u16 list" where
  "task_commands = map cmd [CMD_FILE_INIT, CMD_FORWARD_INIT, CMD_APP_INIT, CMD_APP_UNINSTALL, CMD_UNITY_BUGREPORT_INIT,
     CMD_APP_SIDELOAD]"

definition DoCommandRemote :: "'s dispatcher \<Rightarrow> FormatCommand \<Rightarrow> client_channel \<Rightarrow> client_side \<times> 's
    \<Rightarrow> (bool \<times> client_channel \<times> client_side \<times> 's) option" where
  "DoCommandRemote T fc h = (\<lambda>(cs, x).
     let c = cmdFlag fc; fail = (\<lambda>cs. map_option (\<lambda>y. (False, h, y, x)) (EchoClient h MSG_FAIL ''Failed to communicate with daemon'' cs)) in
     if c \<in> set simple_commands then
       (case SendToDaemon h c (bytes_of (parameters fc)) cs of
          None \<Rightarrow> None
        | Some (False, cs1) \<Rightarrow> fail cs1
        | Some (True, cs1) \<Rightarrow> Some (True, h\<lparr>interactiveShellMode := interactiveShellMode h \<or> c = cmd CMD_SHELL_INIT\<rparr>, cs1, x))
     else if c \<in> set task_commands then
       map_option (\<lambda>(_, cs1, x1). (True, h, cs1, x1)) (TaskCommand T fc h (cs, x))
     else fail cs)"

definition DoCommand :: "local_env \<Rightarrow> 's dispatcher \<Rightarrow> FormatCommand \<Rightarrow> client_channel \<Rightarrow> client_side \<times> 's
    \<Rightarrow> (bool \<times> client_channel \<times> client_side \<times> 's) option" where
  "DoCommand E T fc h = (\<lambda>(cs, x).
     if \<not> childLoop h then map_option (\<lambda>(ret, h', cs'). (ret, h', cs', x)) (DoCommandLocal E fc h cs)
     else DoCommandRemote T fc h (cs, x))"

text \<open>
  One frame of a client; \<open>after\<close> is what the buffer holds behind it, which the comparison with
  \<open>help\<close> and \<open>version\<close> may read. The number is negative when the channel is to be closed.
\<close>

definition ReadChannel :: "(string \<Rightarrow> int \<Rightarrow> bool) \<Rightarrow> int \<Rightarrow> local_env \<Rightarrow> 's dispatcher \<Rightarrow> bytes \<Rightarrow> bytes \<Rightarrow> client_channel
    \<Rightarrow> client_side \<times> 's \<Rightarrow> (int \<times> client_channel \<times> client_side \<times> 's) option" where
  "ReadChannel ip4 dup E T bs after h = (\<lambda>(cs, x).
     if \<not> c_handshakeOK h then map_option (\<lambda>(r, h', cs'). (r, h', cs', x)) (ChannelHandShake dup h bs cs)
     else let run = (\<lambda>fc cs. map_option (\<lambda>(ret, h', cs', x'). (if ret then int (length bs) else - 3, h', cs', x'))
                (DoCommand E T fc h (cs, x))) in
       if interactiveShellMode h then
         run \<lparr> cmdFlag = cmd CMD_SHELL_DATA, parameters = chars_of bs, bJumpDo = False \<rparr> cs
       else (case String2FormatCommand ip4 (chars_of bs) of
           None \<Rightarrow> None
         | Some (retEcho, fc) \<Rightarrow>
             let shown = c_str (chars_of (bs @ after));
                 told = (if retEcho = '''' then Some cs
                   else EchoFormat h (if shown = CMDSTR_SOFTWARE_HELP \<or> shown = CMDSTR_SOFTWARE_VERSION then MSG_OK else MSG_FAIL)
                     retEcho cs)
             in Option.bind told (\<lambda>cs1. if bJumpDo fc then Some (- 10, h, cs1, x) else run fc cs1)))"

end
