(* ===== verification/Hdc_ClientCommands.thy ===== *)
theory Hdc_ClientCommands
  imports Hdc_ServerClient
begin

text \<open>
  What the server does for its clients: the opening of a channel, the routing of the commands of a
  bound channel, the waiting for a device, and the inputs it does not survive.
\<close>

section \<open>Texts that are no formats\<close>

definition printable :: "string \<Rightarrow> bool" where
  "printable t \<longleftrightarrow> CHR ''%'' \<notin> set t \<and> length t < 15000"

lemma echo_line_ok: "t \<noteq> '''' \<Longrightarrow> length t < 15000 \<Longrightarrow> echo_line l t \<noteq> None"
  by (simp add: echo_line_def formatted_def MAX_SIZE_IOBUF_def Let_def)

lemma EchoClient_ok: "t \<noteq> '''' \<Longrightarrow> length t < 15000 \<Longrightarrow> EchoClient h l t cs \<noteq> None"
  by (simp add: EchoClient_def echo_line_ok)

lemma EchoFormat_ok: "t \<noteq> '''' \<Longrightarrow> printable t \<Longrightarrow> EchoFormat h l t cs \<noteq> None"
  by (simp add: EchoFormat_def echo_text_line printable_def format_printable echo_line_ok)

lemma Usage_lines_short: "list_all (\<lambda>l. CHR ''%'' \<notin> set l \<and> length l < 130) Usage_lines \<and> length Usage_lines \<le> 100"
  by code_simp

lemma length_lines: "list_all (\<lambda>l. length l < n) ls \<Longrightarrow> length (concat (map (\<lambda>l. l @ newline) ls)) \<le> n * length ls"
  by (induction ls) (auto simp: newline_def)

lemma printable_usage: "printable Usage"
proof -
  have "length Usage \<le> 130 * length Usage_lines"
    unfolding Usage_def by (rule length_lines) (use Usage_lines_short in \<open>simp add: list_all_iff\<close>)
  then have "length Usage < 15000" using Usage_lines_short by linarith
  moreover have "CHR ''%'' \<notin> set Usage"
    using Usage_lines_short by (auto simp: Usage_def newline_def list_all_iff)
  ultimately show ?thesis by (simp add: printable_def)
qed

lemma printable_version: "CHR ''%'' \<notin> set GetVersion \<and> length GetVersion < 20"
  by code_simp

text \<open>
  What a translation gives to the commands that follow: its text is no format, and its parameters
  are long enough for the word that is cut off.
\<close>

definition serves :: "translation \<Rightarrow> bool" where
  "serves r \<longleftrightarrow> (case r of None \<Rightarrow> True | Some (t, fc) \<Rightarrow>
     CHR ''%'' \<notin> set t \<and> length t < 14000 \<and> (bJumpDo fc \<or> length (task_word (cmdFlag fc)) \<le> length (parameters fc)))"

lemma serves_if: "(b \<Longrightarrow> serves x) \<Longrightarrow> (\<not> b \<Longrightarrow> serves y) \<Longrightarrow> serves (if b then x else y)"
  by simp

lemma serves_simps [simp]:
  "serves None"
  "serves (Some (t, fc)) = (CHR ''%'' \<notin> set t \<and> length t < 14000 \<and> (bJumpDo fc \<or> length (task_word (cmdFlag fc)) \<le> length (parameters fc)))"
  by (simp_all add: serves_def)

lemma printable_app [simp]:
  "CHR ''%'' \<notin> set Usage" "length Usage < 14000" "CHR ''%'' \<notin> set GetVersion" "length GetVersion < 14000"
proof -
  have "length Usage \<le> 130 * length Usage_lines"
    unfolding Usage_def by (rule length_lines) (use Usage_lines_short in \<open>simp add: list_all_iff\<close>)
  then show "length Usage < 14000" using Usage_lines_short by linarith
qed (use printable_usage printable_version in \<open>simp_all add: printable_def\<close>)

lemma serves_TargetConnect: "cmdFlag fc = 0 \<Longrightarrow> serves (TargetConnect ip4 fc)"
  by (simp add: TargetConnect_def task_word_def Let_def split: option.split)

lemma serves_RunMode: "serves (RunMode s fc)"
  by (simp add: RunMode_def task_word_def Let_def)

lemma serves_ForwardPort: "6 \<le> length s \<Longrightarrow> serves (Some (ForwardPort s fc))"
  by (simp add: ForwardPort_def task_word_def Let_def)

lemma serves_TargetReboot: "serves (Some (TargetReboot s fc))"
  by (simp add: TargetReboot_def task_word_def Let_def)

lemmas serves_parts = serves_TargetConnect serves_RunMode serves_ForwardPort serves_TargetReboot

lemma begins_length: "begins w s \<Longrightarrow> length w \<le> length s"
  by (auto simp: begins_append)

text \<open>The commands that are too short.\<close>

definition short_command :: "string \<Rightarrow> bool" where
  "short_command s \<longleftrightarrow> s = ''install'' \<or> s = ''uninstall'' \<or> c_str s = ''file send'' \<or> c_str s = ''file recv''"

lemma c_str_length: "length (c_str s) \<le> length s"
  by (simp add: c_str_def length_takeWhile_le)

lemma begins_longer: "begins w s \<Longrightarrow> s \<noteq> w \<Longrightarrow> length w < length s"
  by (auto simp: begins_append)

lemma c_str_full: "length s \<le> length (c_str s) \<Longrightarrow> c_str s = s"
  unfolding c_str_def by (metis append_Nil2 le_antisym length_takeWhile_le takeWhile_dropWhile_id length_append
      add_le_same_cancel1 length_0_conv le_zero_eq)

lemma app_long:
  assumes "begins w (c_str s)" and "s \<noteq> w"
  shows "length w < length s"
proof (rule ccontr)
  assume "\<not> length w < length s"
  then have "c_str s = s" using begins_length [OF assms(1)] c_str_length [of s] by (intro c_str_full) simp
  then show False using begins_longer [of w s] assms \<open>\<not> length w < length s\<close> by simp
qed

lemma translate_serves:
  assumes "\<not> short_command input"
  shows "serves (translate ip4 input)"
  unfolding translate_def Let_def
proof (intro serves_if serves_parts)
  show "serves (Some ('''', new_FormatCommand\<lparr>cmdFlag := cmd CMD_FILE_INIT, parameters := drop 5 (c_str input)\<rparr>))"
    if "begins CMDSTR_FILE_SEND (c_str input) \<or> begins CMDSTR_FILE_RECV (c_str input)"
    using that assms begins_longer [of "''file send''" "c_str input"] begins_longer [of "''file recv''" "c_str input"]
    by (auto simp: task_word_def short_command_def command_words)
  show "serves (Some ('''', new_FormatCommand\<lparr>cmdFlag := cmd CMD_APP_INIT, parameters := input\<rparr>))"
    if "begins CMDSTR_APP_INSTALL (c_str input)"
    using app_long [OF that] assms by (simp add: task_word_def short_command_def command_words)
  show "serves (Some ('''', new_FormatCommand\<lparr>cmdFlag := cmd CMD_APP_UNINSTALL, parameters := input\<rparr>))"
    if "begins CMDSTR_APP_UNINSTALL (c_str input)"
    using app_long [OF that] assms by (simp add: task_word_def short_command_def command_words)
  show "serves (Some ('''', new_FormatCommand\<lparr>cmdFlag := cmd CMD_APP_SIDELOAD, parameters := input\<rparr>))"
    if "begins CMDSTR_APP_SIDELOAD (c_str input)" "length (c_str input) \<noteq> length CMDSTR_APP_SIDELOAD"
    using begins_length [OF that(1)] that(2) c_str_length [of input]
    by (simp add: task_word_def command_words)
  show "serves (Some ('''', new_FormatCommand\<lparr>cmdFlag := cmd CMD_UNITY_BUGREPORT_INIT,
      parameters := if length input = length CMDSTR_BUGREPORT then input @ '' '' else input\<rparr>))"
    if "begins CMDSTR_BUGREPORT (c_str input)"
    using begins_length [OF that] c_str_length [of input] by (simp add: task_word_def command_words)
  show "6 \<le> length (c_str input)"
    if "begins (CMDSTR_FORWARD_FPORT @ '' '') (c_str input) \<or> begins (CMDSTR_FORWARD_RPORT @ '' '') (c_str input)"
    using that begins_length [of "CMDSTR_FORWARD_FPORT @ '' ''" "c_str input"] begins_length [of "CMDSTR_FORWARD_RPORT @ '' ''" "c_str input"]
    by (auto simp: command_words)
qed (simp_all add: task_word_def new_FormatCommand_def)

section \<open>A bound channel\<close>

text \<open>The registry is in order, and the session of a connected device exists.\<close>

definition clients_ok :: "client_side \<Rightarrow> bool" where
  "clients_ok cs \<longleftrightarrow> daemons_ok (sv_daemons (srv cs))
     \<and> (\<forall>key di. query_daemon key cs = Some di \<and> connStatus di = STATUS_CONNECTED \<longrightarrow> live_session di cs \<noteq> None)"

lemma SendToDaemon_ok: "clients_ok cs \<Longrightarrow> SendToDaemon h c p cs \<noteq> None"
  by (auto simp: SendToDaemon_def clients_ok_def split: option.split) (metis option.distinct(1))

lemma TaskCommand_None:
  assumes "clients_ok cs"
  shows "TaskCommand T fc h (cs, x) = None \<longleftrightarrow> length (parameters fc) < length (task_word (cmdFlag fc))"
proof -
  have "\<not> begins w (c_str p)" if "length p < length w" for w p
    using that begins_length [of w "c_str p"] c_str_length [of p] by linarith
  then show ?thesis using SendToDaemon_ok [OF assms, of h "cmdFlag fc"]
    by (auto simp: TaskCommand_def Let_def split: option.split prod.split)
qed

lemma DoCommandRemote_None:
  assumes "clients_ok cs"
  shows "DoCommandRemote T fc h (cs, x) = None \<longleftrightarrow> length (parameters fc) < length (task_word (cmdFlag fc))"
proof -
  have e: "EchoClient h MSG_FAIL ''Failed to communicate with daemon'' cs' \<noteq> None" for cs' by (rule EchoClient_ok) simp_all
  have "cmdFlag fc \<notin> set task_commands \<Longrightarrow> task_word (cmdFlag fc) = ''''" by (auto simp: task_word_def task_commands_def)
  moreover have "cmdFlag fc \<in> set simple_commands \<Longrightarrow> task_word (cmdFlag fc) = ''''"
    by (auto simp: task_word_def simple_commands_def)
  ultimately show ?thesis
    using SendToDaemon_ok [OF assms, of h "cmdFlag fc" "bytes_of (parameters fc)"] TaskCommand_None [OF assms, of T fc h x] e
    by (auto simp: DoCommandRemote_def Let_def split: option.split prod.split bool.split)
qed

lemma short_translation:
  assumes "short_command s"
  obtains fc where "String2FormatCommand ip4 s = Some ('''', fc)" "\<not> bJumpDo fc"
    "length (parameters fc) < length (task_word (cmdFlag fc))"
proof -
  from assms consider "s = ''install''" | "s = ''uninstall''" | "c_str s = ''file send''" | "c_str s = ''file recv''"
    by (auto simp: short_command_def)
  then have "case String2FormatCommand ip4 s of None \<Rightarrow> False
     | Some (t, fc) \<Rightarrow> t = '''' \<and> \<not> bJumpDo fc \<and> length (parameters fc) < length (task_word (cmdFlag fc))"
    by cases (simp_all add: String2FormatCommand_def translate_def command_words c_str_def new_FormatCommand_def task_word_def)
  then show thesis using that by (auto split: option.splits)
qed

lemma SendChannel_daemons [simp]:
  "sv_daemons (srv (SendChannel h bs cs)) = sv_daemons (srv cs)" "sv_base (srv (SendChannel h bs cs)) = sv_base (srv cs)"
  by (simp_all add: SendChannel_def upd_srv_def to_client_def)

lemma Echo_keeps:
  "EchoFormat h l t cs = Some cs' \<Longrightarrow> clients_ok cs \<Longrightarrow> clients_ok cs'"
  by (auto simp: EchoFormat_def clients_ok_def query_daemon_def live_session_def)

text \<open>
  What a client that is bound to a device can do to the server with one command: the texts it does
  not survive are those that translation does not, and \<open>install\<close>, \<open>uninstall\<close>, \<open>file send\<close> and
  \<open>file recv\<close> without arguments, for which it sends a negative number of bytes.
\<close>

theorem bound_channel_survives:
  assumes "clients_ok cs" and "c_handshakeOK h" and "childLoop h" and "\<not> interactiveShellMode h"
  shows "ReadChannel ip4 dup E T bs after h (cs, x) = None \<longleftrightarrow>
    String2FormatCommand ip4 (chars_of bs) = None \<or> short_command (chars_of bs)"
proof (cases "String2FormatCommand ip4 (chars_of bs)")
  case None
  then show ?thesis using assms by (simp add: ReadChannel_def)
next
  case (Some r)
  obtain t fc where r: "r = (t, fc)" by fastforce
  have s: "String2FormatCommand ip4 (chars_of bs) = Some (t, fc)" using Some r by simp
  note jump = error_stops_lib [OF s]
  show ?thesis
  proof (cases "short_command (chars_of bs)")
    case True
    from short_translation [OF this, of ip4] s have "t = ''''" "\<not> bJumpDo fc" "length (parameters fc) < length (task_word (cmdFlag fc))" by auto
    then show ?thesis using assms s True DoCommandRemote_None [OF assms(1), of T fc h x]
      by (simp add: ReadChannel_def DoCommand_def)
  next
    case False
    obtain u where u: "translate ip4 (chars_of bs) = Some (u, fc)" "t = (if u = '''' then u else u @ newline)"
      using s by (auto simp: String2FormatCommand_def)
    have sv: "CHR ''%'' \<notin> set u" "length u < 14000" "bJumpDo fc \<or> length (task_word (cmdFlag fc)) \<le> length (parameters fc)"
      using translate_serves [OF False, of ip4] u(1) by simp_all
    have p: "printable t" using u(2) sv by (simp add: printable_def newline_def)
    show ?thesis
    proof (cases "t = ''''")
      case True
      then show ?thesis using assms s False DoCommandRemote_None [OF assms(1), of T fc h x] sv(3) jump
        by (simp add: ReadChannel_def DoCommand_def)
    next
      case ne: False
      then have "bJumpDo fc" using jump by simp
      moreover obtain y z where "EchoFormat h MSG_OK t cs = Some y" "EchoFormat h MSG_FAIL t cs = Some z"
        using EchoFormat_ok [OF ne p] by blast
      ultimately show ?thesis using assms s False ne by (auto simp: ReadChannel_def Let_def)
    qed
  qed
qed

section \<open>Where commands go\<close>




















section \<open>The opening of a channel\<close>

lemma c_str_zeros: "CHR 0x00 \<notin> set key \<Longrightarrow> c_str (key @ CHR 0x00 # r) = key"
  by (induction key) (auto simp: c_str_def)

lemma handshake_text:
  assumes "length key < MAX_CONNECTKEY_SIZE"
  obtains r where "chars_of (GetChannelHandshake key @ [0]) = HANDSHAKE_MESSAGE @ replicate 4 (CHR 0x00) @ key @ CHR 0x00 # r"
proof -
  have "char_of_byte 0 = CHR 0x00" by code_simp
  then have z: "chars_of (replicate n 0) = replicate n (CHR 0x00)" for n by (induction n) simp_all
  obtain n where n: "MAX_CONNECTKEY_SIZE - length key = Suc n" using assms by (metis Suc_diff_Suc)
  have "GetChannelHandshake key = bytes_of HANDSHAKE_MESSAGE @ replicate 4 0 @ bytes_of key @ replicate (Suc n) 0"
    using assms n by (simp add: GetChannelHandshake_def strcpy_s_def HANDSHAKE_MESSAGE_def)
  then have "chars_of (GetChannelHandshake key @ [0])
      = HANDSHAKE_MESSAGE @ replicate 4 (CHR 0x00) @ key @ CHR 0x00 # chars_of (replicate n 0 @ [0])"
    using z [of 4] z [of n] by (simp add: z)
  then show thesis by (rule that)
qed

text \<open>
  C29. The opening of a channel. The structure that the client sends for a key is understood by the
  server, and if the device is connected the channel is handed to the thread of its session: its
  handle in the main thread closes, and the next loop sends the control message to that session.
\<close>

theorem channel_opened:
  assumes "length key < MAX_CONNECTKEY_SIZE" and "CHR 0x00 \<notin> set key" and "key \<noteq> ''''" and "key \<noteq> CMDSTR_CONNECT_ANY"
    and "query_daemon key cs = Some di" and "connStatus di = STATUS_CONNECTED" and "live_session di cs = Some s"
    and "\<not> isDead s" and "0 \<le> dup"
  shows "\<exists>h' cs'. ChannelHandShake dup h (GetChannelHandshake key) cs = Some (0, h', cs')
    \<and> c_connectKey h' = key \<and> c_handshakeOK h' \<and> workClosing h' \<and> c_ref h' = Suc (c_ref h)
    \<and> attach_next cs' = attach_next cs @ [c_channelId h]
    \<and> attach_in_next_loop h' cs' = Some (cs'\<lparr>ctrl_msgs := ctrl_msgs cs
         @ [(s_sessionId s, BuildCtrlString SP_ATTACH_CHANNEL (c_channelId h) None 0)]\<rparr>)"
proof -
  obtain r where r: "chars_of (GetChannelHandshake key @ [0]) = HANDSHAKE_MESSAGE @ replicate 4 (CHR 0x00) @ key @ CHR 0x00 # r"
    by (rule handshake_text [OF assms(1)])
  let ?t = "chars_of (GetChannelHandshake key @ [0])"
  have "?t = HANDSHAKE_MESSAGE @ CHR 0x00 # replicate 3 (CHR 0x00) @ key @ CHR 0x00 # r"
    using r by (simp add: eval_nat_numeral)
  then have b: "c_str ?t = HANDSHAKE_MESSAGE" using c_str_zeros [of HANDSHAKE_MESSAGE] by (simp add: HANDSHAKE_MESSAGE_def)
  have l: "length HANDSHAKE_MESSAGE = 8" by (simp add: HANDSHAKE_MESSAGE_def)
  have k: "drop 12 ?t = key @ CHR 0x00 # r" unfolding r using l by simp
  then have long: "\<not> length ?t \<le> 12" by (metis append_is_Nil_conv drop_all list.distinct(1))
  let ?h1 = "h\<lparr>c_connectKey := key, c_handshakeOK := True\<rparr>"
  let ?h2 = "?h1\<lparr>c_ref := Suc (c_ref h), workClosing := True\<rparr>"
  let ?cs = "cs\<lparr>attach_next := attach_next cs @ [c_channelId h]\<rparr>"
  have kk: "c_str (key @ CHR 0x00 # r) = key" by (rule c_str_zeros [OF assms(2)])
  have f: "FindAliveSessionFromDaemonMap ?h1 cs = Some (Some s, cs)" "FindAliveSessionFromDaemonMap ?h2 ?cs = Some (Some s, ?cs)"
    using assms(5-8) by (simp_all add: FindAliveSessionFromDaemonMap_def query_daemon_def live_session_def Let_def)
  have "BindChannelToSession dup ?h1 cs = Some (0, ?h2, ?cs)"
    using f(1) assms(9) by (simp add: BindChannelToSession_def)
  then have "ChannelHandShake dup h (GetChannelHandshake key) cs = Some (0, ?h2, ?cs)"
    unfolding ChannelHandShake_def Let_def b using assms(1,3,4) long k kk l by (simp add: CheckAutoFillTarget_def)
  moreover have "attach_in_next_loop ?h2 ?cs = Some (?cs\<lparr>ctrl_msgs := ctrl_msgs cs
         @ [(s_sessionId s, BuildCtrlString SP_ATTACH_CHANNEL (c_channelId h) None 0)]\<rparr>)"
    using f(2) by (simp add: attach_in_next_loop_def)
  ultimately show ?thesis by (intro exI [of _ ?h2] exI [of _ ?cs]) simp
qed

section \<open>Waiting for a device\<close>

text \<open>The timer runs while the registry changes: one state for each tick. The result is the tick that ends it.\<close>

primrec wait_ticks :: "client_side list \<Rightarrow> client_channel \<Rightarrow> (nat \<times> client_side) option" where
  "wait_ticks [] h = None"
| "wait_ticks (cs # css) h = (case OrderConnecTargetResult h cs of
     None \<Rightarrow> None
   | Some (False, _, cs') \<Rightarrow> Some (0, cs')
   | Some (True, h', _) \<Rightarrow> map_option (\<lambda>(n, c). (Suc n, c)) (wait_ticks css h'))"

definition target_connected :: "string \<Rightarrow> client_side \<Rightarrow> bool" where
  "target_connected key cs \<longleftrightarrow> (\<exists>di. query_daemon key cs = Some di \<and> connStatus di = STATUS_CONNECTED)"

definition told_and_freed :: "client_channel \<Rightarrow> MessageLevel \<Rightarrow> string \<Rightarrow> client_side \<Rightarrow> client_side" where
  "told_and_freed h l t cs = free_channel (c_channelId h) (the (EchoClient h l t cs))"

lemma echo_bufStd: "EchoClient (h\<lparr>bufStd := b\<rparr>) l t cs = EchoClient h l t cs"
  by (simp add: EchoClient_def SendChannel_def cong: if_cong)

lemma wait_tick:
  assumes "bufStd h = (r, key)" and "key \<noteq> ''any''"
  shows "OrderConnecTargetResult h cs =
    (if target_connected key cs then Some (False, h, told_and_freed h MSG_OK ''Connect OK'' cs)
     else if 500 < r + 1 then Some (False, h\<lparr>bufStd := (r + 1, key)\<rparr>, told_and_freed h MSG_FAIL ''Connect failed'' cs)
     else Some (True, h\<lparr>bufStd := (r + 1, key)\<rparr>, cs))"
proof -
  have "EchoClient h l t cs = Some (the (EchoClient h l t cs))" if "t \<noteq> ''''" "length t < 15000" for l t
    using EchoClient_ok [OF that] by auto
  from this [of "''Connect OK''" MSG_OK] this [of "''Connect failed''" MSG_FAIL] show ?thesis
    using assms
    by (auto simp: OrderConnecTargetResult_def target_connected_def told_and_freed_def echo_bufStd Let_def split: option.split)
qed

lemma told_bufStd: "told_and_freed (h\<lparr>bufStd := b\<rparr>) l t cs = told_and_freed h l t cs"
  by (simp add: told_and_freed_def echo_bufStd)

lemma wait_from:
  assumes "key \<noteq> ''any''" and "bufStd h = (word_of_nat r, key)" and "r \<le> 500" and "500 - r < length css"
  shows "\<exists>n \<le> 500 - r. (\<forall>j < n. \<not> target_connected key (css ! j)) \<and>
    (target_connected key (css ! n) \<and> wait_ticks css h = Some (n, told_and_freed h MSG_OK ''Connect OK'' (css ! n))
     \<or> n = 500 - r \<and> \<not> target_connected key (css ! n) \<and> wait_ticks css h = Some (n, told_and_freed h MSG_FAIL ''Connect failed'' (css ! n)))"
  using assms(2-4)
proof (induction css arbitrary: h r)
  case (Cons cs css)
  note t = wait_tick [OF Cons.prems(1) assms(1), of cs]
  have u: "(word_of_nat r :: u16) + 1 = word_of_nat (Suc r)" by simp
  have lt: "(500 :: u16) < word_of_nat r + 1 \<longleftrightarrow> r = 500"
  proof -
    have "unat (word_of_nat (Suc r) :: u16) = Suc r"
      using Cons.prems(2) by (simp only: unat_of_nat) (simp add: take_bit_eq_mod)
    then show ?thesis unfolding u word_less_nat_alt using Cons.prems(2)
      by (simp del: of_nat_Suc word_of_nat_eq_iff) linarith
  qed
  show ?case
  proof (cases "target_connected key cs \<or> r = 500")
    case True
    then show ?thesis using t lt by (intro exI [of _ 0]) auto
  next
    case False
    let ?h = "h\<lparr>bufStd := (word_of_nat (Suc r), key)\<rparr>"
    have "OrderConnecTargetResult h cs = Some (True, ?h, cs)"
      unfolding t u [symmetric] using lt False by simp
    then have w: "wait_ticks (cs # css) h = map_option (\<lambda>(n, c). (Suc n, c)) (wait_ticks css ?h)" by simp
    have "Suc r \<le> 500" "500 - Suc r < length css" using Cons.prems(2,3) False unfolding list.size by linarith+
    from Cons.IH [OF _ this, of ?h] obtain n where n: "n \<le> 500 - Suc r" "\<forall>j < n. \<not> target_connected key (css ! j)"
      "target_connected key (css ! n) \<and> wait_ticks css ?h = Some (n, told_and_freed ?h MSG_OK ''Connect OK'' (css ! n))
       \<or> n = 500 - Suc r \<and> \<not> target_connected key (css ! n) \<and> wait_ticks css ?h = Some (n, told_and_freed ?h MSG_FAIL ''Connect failed'' (css ! n))"
      by auto
    have "Suc n \<le> 500 - r" using n(1) \<open>Suc r \<le> 500\<close> by simp
    moreover have "\<forall>j < Suc n. \<not> target_connected key ((cs # css) ! j)"
      using n(2) False by (auto simp: less_Suc_eq_0_disj)
    moreover have "n = 500 - Suc r \<Longrightarrow> Suc n = 500 - r" using \<open>Suc r \<le> 500\<close> by simp
    ultimately show ?thesis using n(3) w by (intro exI [of _ "Suc n"]) (auto simp: told_bufStd)
  qed
qed simp

text \<open>
  C31. A client that connects a device is answered: at the first of 501 ticks at which the device is
  connected, or after the last of them with a failure, whatever happens to the registry meanwhile.
\<close>

theorem connection_wait_ends:
  assumes "bufStd h = (0, key)" and "key \<noteq> ''any''" and "500 < length css"
  shows "\<exists>n \<le> 500. (\<forall>j < n. \<not> target_connected key (css ! j)) \<and>
    wait_ticks css h = Some (n, if target_connected key (css ! n) then told_and_freed h MSG_OK ''Connect OK'' (css ! n)
      else told_and_freed h MSG_FAIL ''Connect failed'' (css ! n))
    \<and> (target_connected key (css ! n) \<or> n = 500)"
  using wait_from [OF assms(2), of h 0 css] assms(1,3) by fastforce

section \<open>The device of a session that has ended\<close>

definition session_gone :: "u32 \<Rightarrow> server_state \<Rightarrow> server_state" where
  "session_gone sid st = st\<lparr>sv_base := (sv_base st)\<lparr>mapSession := mp_erase sid (mapSession (sv_base st))\<rparr>\<rparr>"

text \<open>
  When its session has ended, a device is offline and keeps the pointer: commands for it are
  refused, but to disconnect it dereferences the session that was deleted.
\<close>

theorem disconnect_after_end_crashes:
  assumes "daemons_ok (sv_daemons (srv cs))" and "forwards_ok (sv_forwards (srv cs))" and "mp_wf (mapSession (sv_base (srv cs)))"
    and "query_daemon key cs = Some di" and "hdi_hSession di = Some sid" and "c_connectKey h = key"
  shows "\<exists>st. NotifyInstanceSessionFree sid key False (srv cs) = Some st
    \<and> (let cs' = cs\<lparr>srv := session_gone sid st\<rparr> in
        SendToDaemon h c p cs' = Some (False, cs') \<and> CommandRemoveSession key h cs' = None)"
proof -
  have q: "map_of (sv_daemons (srv cs)) key = Some (Some di)"
    using assms(4) by (auto simp: query_daemon_def split: option.splits)
  then have k: "hdi_connectKey di = key" using assms(1) by (auto simp: daemons_ok_def)
  have w: "mp_wf (sv_daemons (srv cs))" using assms(1) by (simp add: daemons_ok_def)
  obtain f where f: "CleanForwardMap sid (sv_forwards (srv cs)) = Some f"
    using CleanForwardMap_removes_lib [OF assms(2), of sid] by blast
  let ?di = "di\<lparr>connStatus := STATUS_OFFLINE\<rparr>"
  let ?st = "(srv cs)\<lparr>sv_daemons := mp_put key (Some ?di) (sv_daemons (srv cs)), sv_forwards := f\<rparr>"
  let ?cs = "cs\<lparr>srv := session_gone sid ?st\<rparr>"
  have n: "NotifyInstanceSessionFree sid key False (srv cs) = Some ?st"
    using q k f by (simp add: NotifyInstanceSessionFree_def)
  have "query_daemon key ?cs = Some ?di" using w by (simp add: query_daemon_def session_gone_def map_of_mp_put)
  moreover have "live_session ?di ?cs = None"
    using assms(3,5) by (simp add: live_session_def session_gone_def map_of_mp_erase)
  ultimately have "SendToDaemon h c p ?cs = Some (False, ?cs) \<and> CommandRemoveSession key h ?cs = None"
    using assms(6) by (simp add: SendToDaemon_def CommandRemoveSession_def)
  with n show ?thesis by (auto simp: Let_def)
qed

section \<open>A client and a device\<close>

definition bound_device :: HdcDaemonInformation where
  "bound_device = \<lparr> hdi_connType = CONN_TCP, connStatus = STATUS_CONNECTED, hdi_connectKey = ''b'', usbMountPoint = '''',
     devName = ''board'', hdi_hSession = Some 9 \<rparr>"

definition bound_session :: HdcSession where
  "bound_session = (new_HdcSession True CONN_TCP 9)\<lparr>s_connectKey := ''b''\<rparr>"

definition sample_clients :: client_side where
  "sample_clients = \<lparr> srv = sample_server\<lparr>sv_base := (new_SessionBase True 16)\<lparr>mapSession := [(9, bound_session)]\<rparr>,
       sv_daemons := [(''b'', Some bound_device)]\<rparr>,
     attach_next = [], ctrl_msgs = [], session_frees = [], wait_timers = [], loop_stopped = False \<rparr>"

definition bound_client :: client_channel where
  "bound_client = HdcChannel.extend \<lparr> c_channelId = 5, c_isDead = False, c_ref = 0, c_connectKey = ''b'',
       targetSessionId = 9, childOpen = True, c_childCleared = False \<rparr>
     \<lparr> c_handshakeOK = True, interactiveShellMode = False, c_keepAlive = False, workClosing = True, childLoop = True, bufStd = (0, ''b'') \<rparr>"

definition sample_env :: local_env where
  "sample_env = \<lparr> le_connect = (\<lambda>_ _. None), le_found = [], le_stop = (\<lambda>t. t) \<rparr>"

lemmas sample_client_defs = sample_clients_def sample_server_def bound_client_def bound_device_def bound_session_def
  query_daemon_def live_session_def HdcChannel.defs new_HdcSession_def

lemma sample_clients_ok: "clients_ok sample_clients"
  by (simp add: clients_ok_def sample_client_defs daemons_ok_def mp_wf_def)


theorem bound_channel_survives_witness:
  "ReadChannel (\<lambda>_ _. False) 3 sample_env counting_dispatcher (bytes_of ''install'') [] bound_client (sample_clients, 0) = None
   \<and> ReadChannel (\<lambda>_ _. False) 3 sample_env counting_dispatcher (bytes_of ''hilog'') [] bound_client (sample_clients, 0) \<noteq> None"
proof -
  have "String2FormatCommand (\<lambda>_ _. False) ''hilog'' \<noteq> None \<and> \<not> short_command ''hilog'' \<and> short_command ''install''"
    by (simp add: String2FormatCommand_def translate_def command_words c_str_def short_command_def)
  moreover have "c_handshakeOK bound_client" "childLoop bound_client" "\<not> interactiveShellMode bound_client"
    by (simp_all add: sample_client_defs)
  ultimately show ?thesis
    by (simp add: bound_channel_survives [OF sample_clients_ok])
qed


theorem channel_opened_witness:
  "\<exists>h' cs'. ChannelHandShake 3 bound_client (GetChannelHandshake ''b'') sample_clients = Some (0, h', cs') \<and> attach_next cs' = [5]"
proof -
  have "query_daemon ''b'' sample_clients = Some bound_device" "connStatus bound_device = STATUS_CONNECTED"
    "live_session bound_device sample_clients = Some bound_session" "\<not> isDead bound_session"
    "attach_next sample_clients = []" "c_channelId bound_client = 5"
    by (simp_all add: sample_client_defs)
  with channel_opened [of "''b''" sample_clients bound_device bound_session 3 bound_client] show ?thesis
    by (auto simp: MAX_CONNECTKEY_SIZE_def CMDSTR_CONNECT_ANY_def)
qed

theorem connection_wait_ends_witness:
  "wait_ticks (replicate 501 sample_clients) bound_client = Some (0, told_and_freed bound_client MSG_OK ''Connect OK'' sample_clients)"
proof -
  have c: "target_connected ''b'' (replicate 501 sample_clients ! n)" if "n \<le> 500" for n
  proof -
    have "target_connected ''b'' sample_clients" by (simp add: target_connected_def sample_client_defs)
    then show ?thesis using that by (simp only: nth_replicate)
  qed
  have "bufStd bound_client = (0, ''b'')" by (simp add: sample_client_defs)
  moreover have "500 < length (replicate 501 sample_clients)" by (simp only: length_replicate)
  ultimately obtain n where n: "n \<le> 500" "\<forall>j < n. \<not> target_connected ''b'' (replicate 501 sample_clients ! j)"
    "wait_ticks (replicate 501 sample_clients) bound_client = Some (n, if target_connected ''b'' (replicate 501 sample_clients ! n)
       then told_and_freed bound_client MSG_OK ''Connect OK'' (replicate 501 sample_clients ! n)
       else told_and_freed bound_client MSG_FAIL ''Connect failed'' (replicate 501 sample_clients ! n))"
    using connection_wait_ends [of bound_client "''b''" "replicate 501 sample_clients"] by blast
  have "n = 0" using n(1,2) c [of 0] by (metis gr_zeroI le0)
  moreover have "replicate 501 sample_clients ! 0 = sample_clients" by (simp only: nth_replicate)
  ultimately show ?thesis using n(3) c [of 0] by simp
qed

theorem disconnect_after_end_crashes_witness:
  "\<exists>st. NotifyInstanceSessionFree 9 ''b'' False (srv sample_clients) = Some st
     \<and> CommandRemoveSession ''b'' bound_client (sample_clients\<lparr>srv := session_gone 9 st\<rparr>) = None"
proof -
  have "daemons_ok (sv_daemons (srv sample_clients))" using sample_clients_ok by (simp add: clients_ok_def)
  moreover have "forwards_ok (sv_forwards (srv sample_clients))" "mp_wf (mapSession (sv_base (srv sample_clients)))"
    "query_daemon ''b'' sample_clients = Some bound_device" "hdi_hSession bound_device = Some 9" "c_connectKey bound_client = ''b''"
    by (simp_all add: sample_client_defs forwards_ok_def mp_wf_def)
  ultimately show ?thesis using disconnect_after_end_crashes by (fastforce simp: Let_def)
qed

end
