(* ===== verification/Hdc_ClientRun.thy ===== *)
theory Hdc_ClientRun
  imports Hdc_CommandLine Hdc_ClientCommands
begin

text \<open>
  The client of one command, src/src/host/client.cpp: it waits for the server's greeting, sends its key,
  then the command, prints what comes and sends what is typed.
\<close>

section \<open>State\<close>




section \<open>The server's greeting\<close>


section \<open>Operations\<close>









section \<open>A command is run\<close>












end
