(* ===== verification/Hdc_Jdwp.thy ===== *)
theory Hdc_Jdwp
  imports Hdc_Control Hdc_Strings
begin

text \<open>
  The debugger ports of the daemon, src/src/daemon/jdwp.cpp: processes that can be debugged connect
  to a local socket and announce their number, clients list or track them, and a forward passes the
  descriptor of a socket to one of them. \<open>js\<close> says whether \<open>JS_JDWP_CONNECT\<close> is defined.
\<close>

section \<open>State\<close>

definition JS_PKG_MIN_SIZE :: int where "JS_PKG_MIN_SIZE = 15"
definition JS_PKG_MX_SIZE :: int where "JS_PKG_MX_SIZE = 135"

text \<open>
  \<open>cj_jvm\<close>: \<open>jvmTCP\<close> is a handle of the loop, from \<open>uv_tcp_init\<close> to its close. \<open>cj_pipe\<close>: the pipe is open.
\<close>

record ContextJdwp =
  cj_pid :: u32
  cj_finish :: bool
  cj_pkgName :: string
  cj_pipe :: bool
  cj_jvm :: bool

record jdwp_task = TaskInformation +
  has_class :: bool

text \<open>
  Contexts and tasks are objects of a heap, \<open>None\<close> when deleted. \<open>free_idles\<close> are the contexts whose
  deletion is an idle of the loop, \<open>fd_writes\<close> those to which a descriptor is being sent, \<open>awaken\<close>
  what the poll thread has been signalled (\<open>None\<close>: no descriptor), \<open>told\<close> the messages for clients.
\<close>

record HdcJdwp =
  jctx :: "nat \<Rightarrow> ContextJdwp option"
  jtasks :: "nat \<Rightarrow> jdwp_task option"
  mapCtxJdwp :: "(u32, nat) std_map"
  pollNodeMap :: "(int \<times> u32) list"
  jdwpTrackers :: "nat list"
  jd_refCount :: u32
  awaken :: "nat option"
  stopped :: bool
  listening :: bool
  free_idles :: "nat list"
  fd_writes :: "nat list"
  told :: "(u32 \<times> u32 \<times> string) list"

definition new_HdcJdwp :: HdcJdwp where
  "new_HdcJdwp = \<lparr> jctx = (\<lambda>_. None), jtasks = (\<lambda>_. None), mapCtxJdwp = [], pollNodeMap = [], jdwpTrackers = [],
     jd_refCount = 0, awaken = None, stopped = False, listening = False, free_idles = [], fd_writes = [], told = [] \<rparr>"

definition new_ContextJdwp :: ContextJdwp where
  "new_ContextJdwp = \<lparr> cj_pid = 0, cj_finish = False, cj_pkgName = '''', cj_pipe = False, cj_jvm = False \<rparr>"

definition upd_jctx :: "nat \<Rightarrow> (ContextJdwp \<Rightarrow> ContextJdwp) \<Rightarrow> HdcJdwp \<Rightarrow> HdcJdwp" where
  "upd_jctx p f st = st\<lparr>jctx := (jctx st)(p := map_option f (jctx st p))\<rparr>"

definition WakePollThread :: "HdcJdwp \<Rightarrow> HdcJdwp" where
  "WakePollThread st = st\<lparr>awaken := map_option Suc (awaken st)\<rparr>"

definition DrainAwakenPollThread :: "HdcJdwp \<Rightarrow> HdcJdwp" where
  "DrainAwakenPollThread st = st\<lparr>awaken := map_option (\<lambda>_. 0) (awaken st)\<rparr>"

section \<open>The list of processes\<close>

definition GetProcessList :: "HdcJdwp \<Rightarrow> string" where
  "GetProcessList st = concat (map (\<lambda>(k, _). decimal (unat k) @ newline) (mapCtxJdwp st))"

text \<open>The name is read from the context: \<open>None\<close> if an entry's context has been deleted.\<close>

fun ext_names :: "(nat \<Rightarrow> ContextJdwp option) \<Rightarrow> (u32, nat) std_map \<Rightarrow> string option" where
  "ext_names h [] = Some ''''"
| "ext_names h ((k, p) # m) = Option.bind (h p) (\<lambda>c.
     map_option (\<lambda>r. decimal (unat k) @ '' '' @ cj_pkgName c @ newline @ r) (ext_names h m))"

definition GetProcessListExtendPkgName :: "HdcJdwp \<Rightarrow> string option" where
  "GetProcessListExtendPkgName st = ext_names (jctx st) (mapCtxJdwp st)"

text \<open>
  The list with its length in front, as four hexadecimal digits. What does not fit the buffer is cut
  to a length that does not fit either: then copying fails and the message is empty.
\<close>

definition headerLen :: nat where "headerLen = 5"

definition hex4 :: "nat \<Rightarrow> string" where
  "hex4 n = replicate (4 - length (hex_text n)) CHR ''0'' @ hex_text n"

definition JdwpProcessListMsg :: "bool \<Rightarrow> nat \<Rightarrow> HdcJdwp \<Rightarrow> string option" where
  "JdwpProcessListMsg js bufferlen st =
     map_option (\<lambda>result.
       let len = (if bufferlen < length result + headerLen then bufferlen else length result) in
       if bufferlen - headerLen < len then '''' else hex4 len @ newline @ take len result)
     (if js then GetProcessListExtendPkgName st else Some (GetProcessList st))"

definition jpidTrackListSize :: "bool \<Rightarrow> nat" where
  "jpidTrackListSize js = (if js then 1024 * 4 else 1024)"

text \<open>The text is the format of the message; it ends at the first zero.\<close>

definition SendProcessList :: "jdwp_task \<Rightarrow> string \<Rightarrow> HdcJdwp \<Rightarrow> HdcJdwp option" where
  "SendProcessList t data st =
     (if data = '''' then Some st
      else map_option (\<lambda>x. st\<lparr>told := told st @ [(ti_sessionId t, ti_channelId t, x)]\<rparr>) (format_no_args (c_str data)))"

definition tracker_gone :: "jdwp_task \<Rightarrow> bool" where
  "tracker_gone t \<longleftrightarrow> taskStop t \<or> taskFree t \<or> \<not> has_class t"

text \<open>
  The loop over the trackers; erasing one invalidates the iterators of the loop: \<open>None\<close>, unless it
  was the only one.
\<close>

fun notify_trackers :: "string \<Rightarrow> nat list \<Rightarrow> HdcJdwp \<Rightarrow> HdcJdwp option" where
  "notify_trackers data [] st = Some st"
| "notify_trackers data (t # ts) st = Option.bind (jtasks st t) (\<lambda>x.
     if tracker_gone x then
       (let l = removeAll t (jdwpTrackers st) in if l = [] then Some (st\<lparr>jdwpTrackers := []\<rparr>) else None)
     else Option.bind (SendProcessList x data st) (notify_trackers data ts))"

definition ProcessListUpdated :: "bool \<Rightarrow> nat option \<Rightarrow> HdcJdwp \<Rightarrow> HdcJdwp option" where
  "ProcessListUpdated js task st =
     (if jdwpTrackers st = [] then Some st
      else Option.bind (JdwpProcessListMsg js (jpidTrackListSize js) st) (\<lambda>data.
        if data = '''' then Some st
        else (case task of
            Some t \<Rightarrow> Option.bind (jtasks st t) (\<lambda>x. SendProcessList x data st)
          | None \<Rightarrow> notify_trackers data (jdwpTrackers st) st)))"

definition CreateJdwpTracker :: "bool \<Rightarrow> nat \<Rightarrow> HdcJdwp \<Rightarrow> HdcJdwp option" where
  "CreateJdwpTracker js t st = ProcessListUpdated js (Some t)
     (if t \<in> set (jdwpTrackers st) then st else st\<lparr>jdwpTrackers := jdwpTrackers st @ [t]\<rparr>)"

definition RemoveJdwpTracker :: "nat \<Rightarrow> HdcJdwp \<Rightarrow> HdcJdwp" where
  "RemoveJdwpTracker t st = st\<lparr>jdwpTrackers := removeAll t (jdwpTrackers st)\<rparr>"

section \<open>Contexts\<close>

text \<open>The node that is removed is the first with the number, in the order of the table.\<close>

fun RemoveFdFromPollList :: "u32 \<Rightarrow> (int \<times> u32) list \<Rightarrow> (int \<times> u32) list" where
  "RemoveFdFromPollList pid [] = []"
| "RemoveFdFromPollList pid ((fd, k) # ns) = (if k = pid then ns else (fd, k) # RemoveFdFromPollList pid ns)"

datatype jdwp_op = J_ADD nat | J_REMOVE | J_QUERY | J_CLEAR

definition AdminContext :: "bool \<Rightarrow> jdwp_op \<Rightarrow> u32 \<Rightarrow> HdcJdwp \<Rightarrow> (nat option \<times> HdcJdwp) option" where
  "AdminContext js op pid st = (case op of
     J_QUERY \<Rightarrow> Some (map_of (mapCtxJdwp st) pid, st)
   | J_ADD p \<Rightarrow> map_option (Pair None) (ProcessListUpdated js None (st\<lparr>mapCtxJdwp := mp_put pid p (mapCtxJdwp st)\<rparr>))
   | J_REMOVE \<Rightarrow> map_option (Pair None) (ProcessListUpdated js None
       (st\<lparr>mapCtxJdwp := mp_erase pid (mapCtxJdwp st), pollNodeMap := RemoveFdFromPollList pid (pollNodeMap st)\<rparr>))
   | J_CLEAR \<Rightarrow> map_option (Pair None) (ProcessListUpdated js None (st\<lparr>mapCtxJdwp := [], pollNodeMap := []\<rparr>)))"

definition admin :: "bool \<Rightarrow> jdwp_op \<Rightarrow> u32 \<Rightarrow> HdcJdwp \<Rightarrow> HdcJdwp option" where
  "admin js op pid st = map_option snd (AdminContext js op pid st)"

definition MallocContext :: "nat \<Rightarrow> HdcJdwp \<Rightarrow> HdcJdwp" where
  "MallocContext p st = st\<lparr>jctx := (jctx st)(p := Some new_ContextJdwp), jd_refCount := jd_refCount st + 1\<rparr>"

definition FreeContext :: "bool \<Rightarrow> nat \<Rightarrow> HdcJdwp \<Rightarrow> HdcJdwp option" where
  "FreeContext js p st = Option.bind (jctx st p) (\<lambda>c.
     if cj_finish c then Some st
     else map_option (\<lambda>st1. st1\<lparr>free_idles := free_idles st1 @ [p]\<rparr>)
       (admin js J_REMOVE (cj_pid c) (upd_jctx p (\<lambda>c. c\<lparr>cj_finish := True, cj_pipe := False\<rparr>) st)))"

text \<open>The idle deletes the context and closes itself.\<close>

definition funcReqClose :: "nat \<Rightarrow> HdcJdwp \<Rightarrow> HdcJdwp option" where
  "funcReqClose p st = Option.bind (jctx st p) (\<lambda>_.
     Some (st\<lparr>jctx := (jctx st)(p := None), jd_refCount := jd_refCount st - 1, free_idles := remove1 p (free_idles st)\<rparr>))"

definition AcceptClient :: "bool \<Rightarrow> bool \<Rightarrow> nat \<Rightarrow> HdcJdwp \<Rightarrow> HdcJdwp option" where
  "AcceptClient js acceptOK p st =
     (let st1 = upd_jctx p (\<lambda>c. c\<lparr>cj_pipe := True\<rparr>) (MallocContext p st) in
      if acceptOK then Some st1 else FreeContext js p st1)"

section \<open>What a process announces\<close>

text \<open>
  \<open>bs\<close> are the bytes read; the rest of the buffer is zero. The number of the process, if the message
  is valid, and the name that is kept. Without \<open>JS_JDWP_CONNECT\<close> four digits are read as a text, which
  in the structure is followed by \<open>dummy\<close>, never a digit. With it messages of four bytes are too short.
\<close>

definition valid_size :: "bool \<Rightarrow> int \<Rightarrow> bool" where
  "valid_size js nread = (if js then JS_PKG_MIN_SIZE \<le> nread \<and> nread \<le> JS_PKG_MX_SIZE else nread = 4)"

definition announced :: "bool \<Rightarrow> int \<Rightarrow> bytes \<Rightarrow> (u32 \<times> string option) option" where
  "announced js nread bs =
     (if nread = 4 then Some (word_of_int (atoi (chars_of bs)), None)
      else if \<not> js then Some (0, None)
      else if int (le_dec (take 4 bs)) = nread then
        Some (word_of_nat (le_dec (take 4 (drop 4 bs))), Some (chars_of (drop 8 bs)))
      else None)"

text \<open>\<open>fd\<close> is the descriptor of the pipe, if \<open>uv_fileno\<close> gives one.\<close>

definition emplace :: "int \<Rightarrow> u32 \<Rightarrow> (int \<times> u32) list \<Rightarrow> (int \<times> u32) list" where
  "emplace fd pid ns = (if fd \<in> fst ` set ns then ns else ns @ [(fd, pid)])"

definition announce :: "bool \<Rightarrow> int option \<Rightarrow> u32 \<Rightarrow> string option \<Rightarrow> nat \<Rightarrow> HdcJdwp \<Rightarrow> HdcJdwp option" where
  "announce js fd pid name p st = Option.bind
     (admin js (J_ADD p) pid (upd_jctx p (\<lambda>c. c\<lparr>cj_pid := pid, cj_pkgName := (case name of Some n \<Rightarrow> n | None \<Rightarrow> cj_pkgName c)\<rparr>) st))
     (\<lambda>st1. Some (case fd of None \<Rightarrow> st1 | Some f \<Rightarrow> WakePollThread (st1\<lparr>pollNodeMap := emplace f pid (pollNodeMap st1)\<rparr>)))"

definition ReadStream :: "bool \<Rightarrow> int option \<Rightarrow> int \<Rightarrow> bytes \<Rightarrow> nat \<Rightarrow> HdcJdwp \<Rightarrow> HdcJdwp option" where
  "ReadStream js fd nread bs p st =
     (if nread = 0 then Some st
      else if jctx st p = None then None
      else if \<not> valid_size js nread then FreeContext js p st
      else (case announced js nread bs of
          None \<Rightarrow> FreeContext js p st
        | Some (pid, name) \<Rightarrow>
            if 0 < pid then announce js fd pid name p st
            else Some (case name of None \<Rightarrow> st | Some n \<Rightarrow> upd_jctx p (\<lambda>c. c\<lparr>cj_pkgName := n\<rparr>) st)))"

section \<open>Descriptors for a process\<close>

definition CheckPIDExist :: "u32 \<Rightarrow> HdcJdwp \<Rightarrow> bool" where
  "CheckPIDExist pid st = (map_of (mapCtxJdwp st) pid \<noteq> None)"

text \<open>
  The results of \<open>uv_tcp_init\<close>, \<open>uv_tcp_open\<close> and of the write; a handle that is initialised while it is
  in use is \<open>None\<close>, as is a deleted context.
\<close>

definition SendJdwpNewFD :: "bool \<Rightarrow> bool \<Rightarrow> bool \<Rightarrow> u32 \<Rightarrow> HdcJdwp \<Rightarrow> (bool \<times> HdcJdwp) option" where
  "SendJdwpNewFD initOK openOK sendOK pid st = (case map_of (mapCtxJdwp st) pid of
     None \<Rightarrow> Some (False, st)
   | Some p \<Rightarrow> Option.bind (jctx st p) (\<lambda>c.
       if cj_jvm c then None
       else if \<not> initOK then Some (False, st)
       else let st1 = upd_jctx p (\<lambda>c. c\<lparr>cj_jvm := True\<rparr>) st in
         if \<not> openOK \<or> \<not> sendOK then Some (False, st1)
         else Some (True, st1\<lparr>jd_refCount := jd_refCount st1 + 1, fd_writes := fd_writes st1 @ [p]\<rparr>)))"

definition SendCallbackJdwpNewFD :: "nat \<Rightarrow> HdcJdwp \<Rightarrow> HdcJdwp option" where
  "SendCallbackJdwpNewFD p st = Option.bind (jctx st p) (\<lambda>_.
     Some (upd_jctx p (\<lambda>c. c\<lparr>cj_jvm := False\<rparr>) (st\<lparr>jd_refCount := jd_refCount st - 1, fd_writes := remove1 p (fd_writes st)\<rparr>)))"

text \<open>
  \<open>SP_JDWP_NEWFD\<close>: the bytes a forward sends to the main thread, and how they are read there.
\<close>

definition jdwp_flag :: "u32 \<Rightarrow> u32 \<Rightarrow> bytes" where
  "jdwp_flag pid fd = ucast (ctrl_code SP_JDWP_NEWFD) # le_enc 4 (unat pid) @ le_enc 4 (unat fd)"

definition JdwpNewFileDescriptor :: "bytes \<Rightarrow> u32 \<times> u32" where
  "JdwpNewFileDescriptor bs = (word_of_nat (le_dec (take 4 (drop 1 bs))), word_of_nat (le_dec (take 4 (drop 5 bs))))"

section \<open>Start and stop\<close>

text \<open>A failed \<open>uv_pipe_bind\<close> returns 1, which is true.\<close>

definition JdwpListen :: "bool \<Rightarrow> bool \<Rightarrow> HdcJdwp \<Rightarrow> bool \<times> HdcJdwp" where
  "JdwpListen bindOK listenOK st =
     (if \<not> bindOK then (True, st\<lparr>listening := True\<rparr>)
      else if \<not> listenOK then (False, st\<lparr>listening := True\<rparr>)
      else (True, st\<lparr>listening := True, jd_refCount := jd_refCount st + 1\<rparr>))"

text \<open>\<open>pthread_create\<close> returns a positive number on failure, which \<open>Initial\<close> does not take for one.\<close>

definition CreateFdEventPoll :: "bool \<Rightarrow> nat \<Rightarrow> HdcJdwp \<Rightarrow> int \<times> HdcJdwp" where
  "CreateFdEventPoll eventOK thread st =
     (if \<not> eventOK then (err ERR_GENERIC, st\<lparr>awaken := None\<rparr>) else (int thread, st\<lparr>awaken := Some 0\<rparr>))"

definition JdwpInitial :: "bool \<Rightarrow> bool \<Rightarrow> bool \<Rightarrow> nat \<Rightarrow> HdcJdwp \<Rightarrow> int \<times> HdcJdwp" where
  "JdwpInitial bindOK listenOK eventOK thread st =
     (case JdwpListen bindOK listenOK (st\<lparr>pollNodeMap := []\<rparr>) of
        (False, st1) \<Rightarrow> (err ERR_MODULE_JDWP_FAILED, st1)
      | (True, st1) \<Rightarrow> (case CreateFdEventPoll eventOK thread st1 of
          (r, st2) \<Rightarrow> (if r < 0 then err ERR_MODULE_JDWP_FAILED else err RET_SUCCESS, st2)))"

text \<open>
  The loop over the map of \<open>Stop\<close>: \<open>None\<close> when the element it stands at is erased. The listening pipe
  is counted out when it is closed.
\<close>

fun stop_loop :: "bool \<Rightarrow> (u32 \<times> nat) list \<Rightarrow> HdcJdwp \<Rightarrow> HdcJdwp option" where
  "stop_loop js [] st = Some st"
| "stop_loop js ((k, p) # es) st =
     (if map_of (mapCtxJdwp st) k = None then stop_loop js es st
      else Option.bind (FreeContext js p st) (\<lambda>st1.
        if map_of (mapCtxJdwp st1) k = None then None else stop_loop js es st1))"

definition StopJdwp :: "bool \<Rightarrow> HdcJdwp \<Rightarrow> HdcJdwp option" where
  "StopJdwp js st =
     Option.bind (stop_loop js (mapCtxJdwp st) (WakePollThread (st\<lparr>stopped := True\<rparr>))) (admin js J_CLEAR 0)"

definition funcListenPipeClose :: "HdcJdwp \<Rightarrow> HdcJdwp" where
  "funcListenPipeClose st = st\<lparr>listening := False, jd_refCount := jd_refCount st - 1\<rparr>"

definition ReadyForRelease :: "HdcJdwp \<Rightarrow> bool" where
  "ReadyForRelease st \<longleftrightarrow> jd_refCount st = 0"

section \<open>The poll thread\<close>

text \<open>What the thread polls, -1 standing for its own descriptor, and the size it has made a note of.\<close>

record poll_thread =
  pollfds :: "int list"
  poll_size :: nat

definition poll_prepare :: "(int \<times> u32) list \<Rightarrow> poll_thread \<Rightarrow> poll_thread" where
  "poll_prepare nodes t =
     (if poll_size t \<noteq> length nodes \<or> length nodes = 0
      then \<lparr> pollfds = map fst nodes @ [-1], poll_size = length nodes + 1 \<rparr> else t)"

text \<open>After \<open>poll\<close>: \<open>hup\<close> and \<open>readable\<close> are what it reports.\<close>

fun poll_events :: "bool \<Rightarrow> (int \<Rightarrow> bool) \<Rightarrow> (int \<Rightarrow> bool) \<Rightarrow> int list \<Rightarrow> HdcJdwp \<Rightarrow> HdcJdwp option" where
  "poll_events js hup readable [] st = Some st"
| "poll_events js hup readable (fd # fds) st = Option.bind
     (if hup fd then
        (case map_of (pollNodeMap st) fd of
           None \<Rightarrow> Some st
         | Some pid \<Rightarrow> if CheckPIDExist pid st then admin js J_REMOVE pid st else Some st)
      else if readable fd \<and> fd = -1 then Some (DrainAwakenPollThread st) else Some st)
     (poll_events js hup readable fds)"

definition FdEventPollThread :: "bool \<Rightarrow> (int \<Rightarrow> bool) \<Rightarrow> (int \<Rightarrow> bool) \<Rightarrow> poll_thread \<Rightarrow> HdcJdwp \<Rightarrow> (poll_thread \<times> HdcJdwp) option" where
  "FdEventPollThread js hup readable t st =
     (let t1 = poll_prepare (pollNodeMap st) t in map_option (Pair t1) (poll_events js hup readable (pollfds t1) st))"

end
