(* ===== verification/Hdc_JdwpRun.thy ===== *)
theory Hdc_JdwpRun
  imports Hdc_Jdwp
begin

text \<open>
  The debugger module in operation: what trackers are told and in what form, what the poll thread
  watches, an invariant of the contexts and the list of processes under any order of events, and
  the events that break it.
\<close>

section \<open>The trackers\<close>

lemma send_list_effect: "SendProcessList x data st = Some st' \<Longrightarrow> \<exists>tl. st' = st\<lparr>told := tl\<rparr>"
  by (cases "data = ''''") (auto simp: SendProcessList_def intro: exI [of _ "told st"])

lemma notify_effect:
  "notify_trackers data ts st = Some st' \<Longrightarrow> \<exists>tr tl. st' = st\<lparr>jdwpTrackers := tr, told := tl\<rparr>"
proof (induction data ts st arbitrary: st' rule: notify_trackers.induct)
  case (1 data st)
  then show ?case by (intro exI [of _ "jdwpTrackers st"] exI [of _ "told st"]) simp
next
  case (2 data t ts st)
  obtain x where x: "jtasks st t = Some x" using 2 by (cases "jtasks st t") auto
  show ?case
  proof (cases "tracker_gone x")
    case True
    then show ?thesis using 2 x by (intro exI [of _ "[]"] exI [of _ "told st"]) (auto simp: Let_def split: if_splits)
  next
    case False
    then obtain st1 where s1: "SendProcessList x data st = Some st1" and s2: "notify_trackers data ts st1 = Some st'"
      using 2(2) x by (cases "SendProcessList x data st") auto
    from 2(1) [OF x False s1 s2] obtain tr tl where t: "st' = st1\<lparr>jdwpTrackers := tr, told := tl\<rparr>" by blast
    obtain tl' where "st1 = st\<lparr>told := tl'\<rparr>" using send_list_effect [OF s1] by blast
    then have "st' = st\<lparr>jdwpTrackers := tr, told := tl\<rparr>" using t by simp
    then show ?thesis by blast
  qed
qed

lemma updated_effect:
  assumes "ProcessListUpdated js t st = Some st'"
  obtains tr tl where "st' = st\<lparr>jdwpTrackers := tr, told := tl\<rparr>"
proof -
  have self: "st = st\<lparr>jdwpTrackers := jdwpTrackers st, told := told st\<rparr>" by simp
  show thesis
  proof (cases "st' = st")
    case True
    then show ?thesis using that self by metis
  next
    case False
    then obtain data where d: "(case t of Some t \<Rightarrow> Option.bind (jtasks st t) (\<lambda>x. SendProcessList x data st)
          | None \<Rightarrow> notify_trackers data (jdwpTrackers st) st) = Some st'" "data \<noteq> ''''"
      using assms by (auto simp: ProcessListUpdated_def split: if_splits bind_splits)
    show ?thesis
    proof (cases t)
      case None
      then show ?thesis using d notify_effect [of data "jdwpTrackers st" st st'] that by auto
    next
      case (Some a)
      then obtain x where "SendProcessList x data st = Some st'" using d by (cases "jtasks st a") auto
      from send_list_effect [OF this] obtain tl where "st' = st\<lparr>told := tl\<rparr>" by blast
      then have "st' = st\<lparr>jdwpTrackers := jdwpTrackers st, told := tl\<rparr>" by simp
      then show ?thesis by (rule that)
    qed
  qed
qed

text \<open>
  Every tracker is told once, in order; a tracker whose task has been stopped is removed, which the
  loop survives only if it was the only one.
\<close>

lemma notify_alive:
  assumes "\<forall>t \<in> set ts. \<exists>x. jtasks st t = Some x \<and> \<not> tracker_gone x" and "CHR ''%'' \<notin> set data" and "data \<noteq> ''''"
  shows "notify_trackers data ts st
    = Some (st\<lparr>told := told st @ map (\<lambda>t. (ti_sessionId (the (jtasks st t)), ti_channelId (the (jtasks st t)), c_str data)) ts\<rparr>)"
  using assms(1)
proof (induction ts arbitrary: st)
  case (Cons t ts)
  then obtain x where x: "jtasks st t = Some x" "\<not> tracker_gone x" by auto
  have "CHR ''%'' \<notin> set (c_str data)" using assms(2) set_takeWhileD by (fastforce simp: c_str_def)
  then have "SendProcessList x data st = Some (st\<lparr>told := told st @ [(ti_sessionId x, ti_channelId x, c_str data)]\<rparr>)"
    using assms(3) by (simp add: SendProcessList_def format_printable)
  moreover have "\<forall>t \<in> set ts. \<exists>x. jtasks (st\<lparr>told := l\<rparr>) t = Some x \<and> \<not> tracker_gone x" for l using Cons.prems by simp
  ultimately show ?case using Cons.IH x by simp
qed simp

lemma notify_gone:
  assumes "\<forall>t \<in> set ts. jtasks st t \<noteq> None" and "\<exists>t \<in> set ts. tracker_gone (the (jtasks st t))"
    and "CHR ''%'' \<notin> set data" and "data \<noteq> ''''" and "set ts \<subseteq> set (jdwpTrackers st)"
  shows "notify_trackers data ts st = (if \<exists>t. set (jdwpTrackers st) = {t} then Some (st\<lparr>jdwpTrackers := []\<rparr>) else None)"
  using assms(1,2,5)
proof (induction ts arbitrary: st)
  case (Cons t ts)
  then obtain x where x: "jtasks st t = Some x" by auto
  show ?case
  proof (cases "tracker_gone x")
    case True
    have "removeAll t (jdwpTrackers st) = [] \<longleftrightarrow> (\<exists>t. set (jdwpTrackers st) = {t})"
      using Cons.prems(3) by (auto simp: removeAll_filter_not_eq filter_empty_conv)
    then show ?thesis using True x by (simp add: Let_def)
  next
    case False
    have n: "CHR ''%'' \<notin> set (c_str data)" using assms(3) set_takeWhileD by (fastforce simp: c_str_def)
    let ?st = "st\<lparr>told := told st @ [(ti_sessionId x, ti_channelId x, c_str data)]\<rparr>"
    have s: "SendProcessList x data st = Some ?st" using n assms(4) by (simp add: SendProcessList_def format_printable)
    have ne: "\<not> (\<exists>u. set (jdwpTrackers st) = {u})"
    proof
      assume "\<exists>u. set (jdwpTrackers st) = {u}"
      then obtain u where u: "set (jdwpTrackers st) = {u}" ..
      with Cons.prems(3) have "t = u" "set ts \<subseteq> {u}" by auto
      with Cons.prems(2) x False show False by auto
    qed
    have "notify_trackers data ts ?st = (if \<exists>t. set (jdwpTrackers ?st) = {t} then Some (?st\<lparr>jdwpTrackers := []\<rparr>) else None)"
      using Cons.prems x False by (intro Cons.IH) auto
    then show ?thesis using x False s ne by simp
  qed
qed simp

text \<open>
  What a change of the list does to the clients that track it: every one is told once and in order,
  if none of their tasks has been stopped. If one has, the loop goes on with invalid iterators,
  unless it was the only tracker.
\<close>

theorem trackers_told:
  assumes "\<forall>t \<in> set (jdwpTrackers st). jtasks st t \<noteq> None" and "jdwpTrackers st \<noteq> []"
    and "JdwpProcessListMsg js (jpidTrackListSize js) st = Some data" and "data \<noteq> ''''" and "CHR ''%'' \<notin> set data"
  shows "ProcessListUpdated js None st =
    (if \<exists>t \<in> set (jdwpTrackers st). tracker_gone (the (jtasks st t))
     then (if \<exists>t. set (jdwpTrackers st) = {t} then Some (st\<lparr>jdwpTrackers := []\<rparr>) else None)
     else Some (st\<lparr>told := told st @ map (\<lambda>t. (ti_sessionId (the (jtasks st t)), ti_channelId (the (jtasks st t)), c_str data))
       (jdwpTrackers st)\<rparr>))"
proof -
  have "ProcessListUpdated js None st = notify_trackers data (jdwpTrackers st) st"
    using assms(2-4) by (simp add: ProcessListUpdated_def)
  moreover have "\<forall>t \<in> set (jdwpTrackers st). \<exists>x. jtasks st t = Some x \<and> \<not> tracker_gone x"
    if "\<not> (\<exists>t \<in> set (jdwpTrackers st). tracker_gone (the (jtasks st t)))"
    using that assms(1) by fastforce
  ultimately show ?thesis
    using notify_gone [of "jdwpTrackers st" st data] notify_alive [of "jdwpTrackers st" st data] assms(1,4,5) by simp
qed

section \<open>The message\<close>

definition hex_of :: "char \<Rightarrow> nat" where
  "hex_of c = (if isdigit c then of_char c - 48 else of_char c - 87)"

definition hex_value :: "string \<Rightarrow> nat" where
  "hex_value s = foldl (\<lambda>v c. 16 * v + hex_of c) 0 s"

lemma hex_of_digit: "n < 16 \<Longrightarrow> hex_of (hex_digit n) = n"
  by (auto simp: hex_of_def hex_digit_def isdigit_def)

lemma hex_value_text: "hex_value (hex_text n) = n"
proof (induction n rule: hex_text.induct)
  case (1 n)
  show ?case
  proof (cases "n < 16")
    case True
    then show ?thesis by (subst hex_text.simps) (simp add: hex_value_def hex_of_digit)
  next
    case False
    then show ?thesis using 1 by (subst hex_text.simps) (simp add: hex_value_def hex_of_digit)
  qed
qed

declare hex_text.simps [simp del]

lemma hex_text_length: "n < 16 ^ Suc k \<Longrightarrow> length (hex_text n) \<le> Suc k"
proof (induction k arbitrary: n)
  case 0
  then show ?case by (subst hex_text.simps) simp
next
  case (Suc k)
  show ?case
  proof (cases "n < 16")
    case True
    then show ?thesis by (subst hex_text.simps) simp
  next
    case False
    have "n div 16 < 16 ^ Suc k" using Suc.prems by (simp add: less_mult_imp_div_less)
    then show ?thesis using Suc.IH [of "n div 16"] False by (subst hex_text.simps) simp
  qed
qed

lemma hex_value_zeros: "hex_value (replicate k CHR ''0'' @ s) = hex_value s"
  by (induction k) (simp_all add: hex_value_def hex_of_def isdigit_def)

lemma hex4: "n < 65536 \<Longrightarrow> length (hex4 n) = 4 \<and> hex_value (hex4 n) = n"
  using hex_text_length [of n 3] by (simp add: hex4_def hex_value_zeros hex_value_text)

text \<open>
  C33. The message with the list of processes: a client that reads four hexadecimal digits and a line end
  finds the whole list behind them. A list that does not fit gives no message at all, where the
  code means to cut it.
\<close>

theorem process_list_framed:
  assumes "JdwpProcessListMsg js n st = Some m" and "5 \<le> n" and "n < 65536"
  shows "\<exists>l. (if js then GetProcessListExtendPkgName st = Some l else l = GetProcessList st)
    \<and> (if length l + 5 \<le> n
       then length m \<le> n \<and> hex_value (take 4 m) = length l \<and> m ! 4 = CHR 0x0A \<and> drop 5 m = l
       else m = '''')"
proof -
  obtain l where l: "if js then GetProcessListExtendPkgName st = Some l else l = GetProcessList st"
    and m: "m = (let len = (if n < length l + headerLen then n else length l) in
       if n - headerLen < len then '''' else hex4 len @ newline @ take len l)"
    using assms(1) by (auto simp: JdwpProcessListMsg_def split: if_splits)
  have "if length l + 5 \<le> n
       then length m \<le> n \<and> hex_value (take 4 m) = length l \<and> m ! 4 = CHR 0x0A \<and> drop 5 m = l
       else m = ''''"
  proof (cases "length l + 5 \<le> n")
    case True
    then have "m = hex4 (length l) @ CHR 0x0A # l"
      unfolding m by (simp add: headerLen_def newline_def Let_def)
    moreover have "length (hex4 (length l)) = 4 \<and> hex_value (hex4 (length l)) = length l"
      using True assms(3) by (intro hex4) simp
    ultimately show ?thesis using True by (simp add: nth_append)
  next
    case False
    then show ?thesis using assms(2) unfolding m by (simp add: headerLen_def Let_def)
  qed
  with l show ?thesis by blast
qed

section \<open>What the poll thread watches\<close>

text \<open>
  The thread makes a new list when the number of nodes differs from the size of its list, which has
  one entry more: a list is out of date exactly when one process has come.
\<close>

theorem poll_list_current_iff:
  "pollfds (poll_prepare ms \<lparr> pollfds = map fst ns @ [-1], poll_size = length ns + 1 \<rparr>) = map fst ms @ [-1]
   \<longleftrightarrow> length ms \<noteq> length ns + 1"
proof (cases "length ms = length ns + 1")
  case True
  then have "map fst ns \<noteq> map fst ms" by (metis length_map n_not_Suc_n Suc_eq_plus1)
  then show ?thesis using True by (auto simp: poll_prepare_def)
qed (auto simp: poll_prepare_def)

fun poll_rounds :: "bool \<Rightarrow> ((int \<Rightarrow> bool) \<times> (int \<Rightarrow> bool)) list \<Rightarrow> poll_thread \<Rightarrow> HdcJdwp \<Rightarrow> (poll_thread \<times> HdcJdwp) option" where
  "poll_rounds js [] t st = Some (t, st)"
| "poll_rounds js ((hup, readable) # rs) t st =
     Option.bind (FdEventPollThread js hup readable t st) (\<lambda>(t1, st1). poll_rounds js rs t1 st1)"

text \<open>
  The first process that connects is not watched: however often the thread polls, its end is not noticed.\<close>

theorem first_process_not_watched:
  assumes "pollNodeMap st = [(fd, pid)]" and "fd \<noteq> -1" and "CheckPIDExist pid st" and "\<forall>r \<in> set rs. \<not> fst r (-1)"
  shows "\<exists>st'. poll_rounds js rs (poll_prepare [] t0) st = Some (poll_prepare [] t0, st') \<and> CheckPIDExist pid st'
    \<and> pollNodeMap st' = [(fd, pid)]"
proof -
  have t: "poll_prepare [] t0 = \<lparr> pollfds = [-1], poll_size = 1 \<rparr>" by (simp add: poll_prepare_def)
  show ?thesis unfolding t using assms
  proof (induction rs arbitrary: st)
    case (Cons r rs)
    obtain h d where r: "r = (h, d)" by fastforce
    let ?st = "if d (-1) then DrainAwakenPollThread st else st"
    have "FdEventPollThread js h d \<lparr> pollfds = [-1], poll_size = 1 \<rparr> st = Some (\<lparr> pollfds = [-1], poll_size = 1 \<rparr>, ?st)"
      using Cons.prems r by (simp add: FdEventPollThread_def poll_prepare_def)
    moreover have "pollNodeMap ?st = [(fd, pid)]" "CheckPIDExist pid ?st"
      using Cons.prems by (simp_all add: DrainAwakenPollThread_def CheckPIDExist_def)
    ultimately show ?case using Cons.IH [of ?st] Cons.prems r by simp
  qed simp
qed

section \<open>Contexts and processes\<close>

text \<open>
  The steps of the main loop and of the poll thread. \<open>once\<close>: a process that has announced itself
  sends nothing more. A write to a pipe that is closed is called back before the idle that deletes
  the context.
\<close>

inductive jdwp_step :: "bool \<Rightarrow> bool \<Rightarrow> HdcJdwp \<Rightarrow> HdcJdwp \<Rightarrow> bool" for once js where
  j_accept: "jctx st p = None \<Longrightarrow> AcceptClient js ok p st = Some st' \<Longrightarrow> jdwp_step once js st st'"
| j_read: "jctx st p = Some c \<Longrightarrow> cj_pipe c \<Longrightarrow> once \<longrightarrow> cj_pid c = 0 \<or> nread \<le> 0 \<Longrightarrow>
    ReadStream js fd nread bs p st = Some st' \<Longrightarrow> jdwp_step once js st st'"
| j_idle: "p \<in> set (free_idles st) \<Longrightarrow> p \<notin> set (fd_writes st) \<Longrightarrow> funcReqClose p st = Some st' \<Longrightarrow> jdwp_step once js st st'"
| j_newfd: "SendJdwpNewFD i u s pid st = Some (r, st') \<Longrightarrow> jdwp_step once js st st'"
| j_written: "p \<in> set (fd_writes st) \<Longrightarrow> SendCallbackJdwpNewFD p st = Some st' \<Longrightarrow> jdwp_step once js st st'"
| j_poll: "FdEventPollThread js hup readable t st = Some (t', st') \<Longrightarrow> jdwp_step once js st st'"
| j_track: "CreateJdwpTracker js t st = Some st' \<Longrightarrow> jdwp_step once js st st'"
| j_untrack: "jdwp_step once js st (RemoveJdwpTracker t st)"
| j_task: "jdwp_step once js st (st\<lparr>jtasks := h\<rparr>)"

definition started_jdwp :: HdcJdwp where
  "started_jdwp = snd (JdwpInitial True True True 0 new_HdcJdwp)"

inductive jdwp_reach :: "bool \<Rightarrow> bool \<Rightarrow> HdcJdwp \<Rightarrow> bool" for once js where
  j_start: "jdwp_reach once js started_jdwp"
| j_step: "jdwp_reach once js st \<Longrightarrow> jdwp_step once js st st' \<Longrightarrow> jdwp_reach once js st'"

definition listed_live :: "HdcJdwp \<Rightarrow> bool" where
  "listed_live st \<longleftrightarrow> (\<forall>k p. map_of (mapCtxJdwp st) k = Some p \<longrightarrow>
     (\<exists>c. jctx st p = Some c \<and> cj_pid c = k \<and> \<not> cj_finish c \<and> k \<noteq> 0))"

text \<open>Whatever the processes send: what is counted, and what is deleted once.\<close>

definition counted :: "HdcJdwp \<Rightarrow> bool" where
  "counted st \<longleftrightarrow> mp_wf (mapCtxJdwp st) \<and> finite (dom (jctx st))
     \<and> jd_refCount st = word_of_nat (card (dom (jctx st)) + length (fd_writes st) + 1)
     \<and> distinct (free_idles st)
     \<and> (\<forall>p. p \<in> set (free_idles st) \<longleftrightarrow> (\<exists>c. jctx st p = Some c \<and> cj_finish c))
     \<and> (\<forall>p c. jctx st p = Some c \<longrightarrow> cj_pipe c \<longrightarrow> \<not> cj_finish c)
     \<and> (\<forall>p \<in> set (fd_writes st). jctx st p \<noteq> None)"

lemma counted_start: "counted started_jdwp" "listed_live started_jdwp"
  by (simp_all add: counted_def listed_live_def started_jdwp_def JdwpInitial_def JdwpListen_def CreateFdEventPoll_def
      new_HdcJdwp_def mp_wf_def err_def)

text \<open>Operations that change only the lists.\<close>

lemma counted_lists [simp]:
  "counted (st\<lparr>jdwpTrackers := tr\<rparr>) = counted st" "counted (st\<lparr>told := td\<rparr>) = counted st"
  "counted (st\<lparr>pollNodeMap := ns\<rparr>) = counted st" "counted (st\<lparr>awaken := a\<rparr>) = counted st" "counted (st\<lparr>jtasks := h\<rparr>) = counted st"
  "listed_live (st\<lparr>jdwpTrackers := tr\<rparr>) = listed_live st" "listed_live (st\<lparr>told := td\<rparr>) = listed_live st"
  "listed_live (st\<lparr>pollNodeMap := ns\<rparr>) = listed_live st" "listed_live (st\<lparr>awaken := a\<rparr>) = listed_live st"
  "listed_live (st\<lparr>jtasks := h\<rparr>) = listed_live st"
  by (simp_all add: counted_def listed_live_def)

lemma updated_keeps:
  assumes "ProcessListUpdated js t st = Some st'"
  shows "counted st' = counted st" "listed_live st' = listed_live st"
  using updated_effect [OF assms] by (metis counted_lists)+

lemma admin_effect:
  "admin js (J_ADD p) k st = ProcessListUpdated js None (st\<lparr>mapCtxJdwp := mp_put k p (mapCtxJdwp st)\<rparr>)"
  "admin js J_REMOVE k st = ProcessListUpdated js None
     (st\<lparr>mapCtxJdwp := mp_erase k (mapCtxJdwp st), pollNodeMap := RemoveFdFromPollList k (pollNodeMap st)\<rparr>)"
  "admin js J_CLEAR k st = ProcessListUpdated js None (st\<lparr>mapCtxJdwp := [], pollNodeMap := []\<rparr>)"
  by (simp_all add: admin_def AdminContext_def option.map_comp comp_def option.map_ident)

lemma counted_map: "counted st \<Longrightarrow> mp_wf m \<Longrightarrow> counted (st\<lparr>mapCtxJdwp := m\<rparr>)"
  by (simp add: counted_def)

lemma admin_remove_keeps:
  assumes "admin js J_REMOVE k st = Some st'"
  shows "counted st \<Longrightarrow> counted st'" "listed_live st \<Longrightarrow> listed_live st'" "map_of (mapCtxJdwp st') = (map_of (mapCtxJdwp st))(k := None)"
    "jctx st' = jctx st" "free_idles st' = free_idles st" "fd_writes st' = fd_writes st" "jd_refCount st' = jd_refCount st"
    "mapCtxJdwp st' = mp_erase k (mapCtxJdwp st)"
proof -
  from assms obtain tr tl where st': "st' = st\<lparr>mapCtxJdwp := mp_erase k (mapCtxJdwp st),
      pollNodeMap := RemoveFdFromPollList k (pollNodeMap st), jdwpTrackers := tr, told := tl\<rparr>"
    unfolding admin_effect by (auto elim: updated_effect)
  show "counted st \<Longrightarrow> counted st'" unfolding st' by (simp add: counted_def mp_wf_erase)
  show "listed_live st \<Longrightarrow> listed_live st'" unfolding st' by (simp add: listed_live_def map_of_mp_erase)
  show "map_of (mapCtxJdwp st') = (map_of (mapCtxJdwp st))(k := None)" "jctx st' = jctx st" "free_idles st' = free_idles st"
    "fd_writes st' = fd_writes st" "jd_refCount st' = jd_refCount st" "mapCtxJdwp st' = mp_erase k (mapCtxJdwp st)"
    unfolding st' by (simp_all add: map_of_mp_erase)
qed

lemma FreeJdwp_effect:
  assumes "jctx st p = Some c" and "FreeContext js p st = Some st'" and "\<not> cj_finish c"
  shows "jctx st' = (jctx st)(p \<mapsto> c\<lparr>cj_finish := True, cj_pipe := False\<rparr>)" "free_idles st' = free_idles st @ [p]"
    "fd_writes st' = fd_writes st" "jd_refCount st' = jd_refCount st" "mapCtxJdwp st' = mp_erase (cj_pid c) (mapCtxJdwp st)"
proof -
  from assms obtain st1 where a: "admin js J_REMOVE (cj_pid c) (upd_jctx p (\<lambda>c. c\<lparr>cj_finish := True, cj_pipe := False\<rparr>) st) = Some st1"
    and st': "st' = st1\<lparr>free_idles := free_idles st1 @ [p]\<rparr>" by (auto simp: FreeContext_def)
  note e = admin_remove_keeps(4-8) [OF a]
  show "jctx st' = (jctx st)(p \<mapsto> c\<lparr>cj_finish := True, cj_pipe := False\<rparr>)" "free_idles st' = free_idles st @ [p]"
    "fd_writes st' = fd_writes st" "jd_refCount st' = jd_refCount st" "mapCtxJdwp st' = mp_erase (cj_pid c) (mapCtxJdwp st)"
    using e assms(1) by (simp_all add: st' upd_jctx_def)
qed

lemma FreeJdwp_keeps:
  assumes "jctx st p = Some c" and "FreeContext js p st = Some st'" and "counted st"
  shows "counted st'" and "listed_live st \<Longrightarrow> listed_live st'"
proof -
  have "counted st' \<and> (listed_live st \<longrightarrow> listed_live st')"
  proof (cases "cj_finish c")
    case True
    then show ?thesis using assms by (simp add: FreeContext_def)
  next
    case False
    note e = FreeJdwp_effect [OF assms(1,2) False]
    have d: "dom (jctx st') = dom (jctx st)" using assms(1) by (auto simp: e(1))
    have p: "p \<notin> set (free_idles st)" using assms(1,3) False by (auto simp: counted_def)
    have i: "q \<in> set (free_idles st') \<longleftrightarrow> (\<exists>c. jctx st' q = Some c \<and> cj_finish c)" for q
      using assms(3) unfolding e by (cases "q = p") (auto simp: counted_def)
    have "counted st'"
      using assms(3) d p i unfolding counted_def by (auto simp: e mp_wf_erase)
    moreover have "listed_live st'" if l: "listed_live st"
      unfolding listed_live_def
    proof (intro allI impI)
      fix k q assume "map_of (mapCtxJdwp st') k = Some q"
      then have "map_of (mapCtxJdwp st) k = Some q" "k \<noteq> cj_pid c" by (auto simp: e map_of_mp_erase split: if_splits)
      with l obtain d where "jctx st q = Some d" "cj_pid d = k" "\<not> cj_finish d" "k \<noteq> 0" unfolding listed_live_def by blast
      moreover have "q \<noteq> p" using calculation assms(1) \<open>k \<noteq> cj_pid c\<close> by auto
      ultimately show "\<exists>c. jctx st' q = Some c \<and> cj_pid c = k \<and> \<not> cj_finish c \<and> k \<noteq> 0" by (auto simp: e)
    qed
    ultimately show ?thesis by simp
  qed
  then show "counted st'" "listed_live st \<Longrightarrow> listed_live st'" by simp_all
qed

text \<open>An update of a live context that keeps what is counted.\<close>

lemma counted_upd:
  assumes "counted st" and "jctx st p = Some c" and "cj_finish (f c) = cj_finish c" and "cj_pipe (f c) = cj_pipe c"
  shows "counted (upd_jctx p f st)"
proof -
  have "dom (jctx (upd_jctx p f st)) = dom (jctx st)" using assms(2) by (auto simp: upd_jctx_def)
  then show ?thesis using assms unfolding counted_def by (simp add: upd_jctx_def)
qed

lemma listed_upd:
  assumes "listed_live st" and "jctx st p = Some c" and "cj_finish (f c) = cj_finish c" and "cj_pid (f c) = cj_pid c \<or> cj_pid c = 0"
  shows "listed_live (upd_jctx p f st)"
  using assms unfolding listed_live_def by (fastforce simp: upd_jctx_def)

lemma announce_keeps:
  assumes "announce js fd pid name p st = Some st'" and "jctx st p = Some c" and "\<not> cj_finish c" and "counted st"
  shows "counted st'" and "listed_live st \<Longrightarrow> cj_pid c = 0 \<Longrightarrow> pid \<noteq> 0 \<Longrightarrow> listed_live st'"
proof -
  let ?f = "\<lambda>c. c\<lparr>cj_pid := pid, cj_pkgName := (case name of Some n \<Rightarrow> n | None \<Rightarrow> cj_pkgName c)\<rparr>"
  let ?s = "(upd_jctx p ?f st)\<lparr>mapCtxJdwp := mp_put pid p (mapCtxJdwp (upd_jctx p ?f st))\<rparr>"
  have m: "mapCtxJdwp (upd_jctx p ?f st) = mapCtxJdwp st" by (simp add: upd_jctx_def)
  have w: "mp_wf (mapCtxJdwp st)" using assms(4) by (simp add: counted_def)
  obtain st1 where s1: "ProcessListUpdated js None ?s = Some st1"
    and st': "st' = (case fd of None \<Rightarrow> st1 | Some f \<Rightarrow> WakePollThread (st1\<lparr>pollNodeMap := emplace f pid (pollNodeMap st1)\<rparr>))"
    using assms(1) by (cases "ProcessListUpdated js None ?s") (auto simp: announce_def admin_effect)
  have keep: "counted st' = counted st1" "listed_live st' = listed_live st1"
    by (auto simp: st' WakePollThread_def split: option.split)
  have "counted (upd_jctx p ?f st)" using assms(2,4) by (intro counted_upd) simp_all
  then have "counted ?s" by (rule counted_map) (simp add: m w mp_wf_put)
  then show "counted st'" using keep(1) updated_keeps(1) [OF s1] by simp
  assume l: "listed_live st" "cj_pid c = 0" "pid \<noteq> 0"
  have "listed_live (upd_jctx p ?f st)" by (rule listed_upd [OF l(1) assms(2)]) (use l(2) in simp_all)
  then have "listed_live ?s"
    unfolding listed_live_def using m w assms(2,3) l(3)
    by (auto simp: map_of_mp_put upd_jctx_def)
  then show "listed_live st'" using keep(2) updated_keeps(2) [OF s1] by simp
qed

lemma ReadStream_keeps:
  assumes "ReadStream js fd nread bs p st = Some st'" and "jctx st p = Some c" and "cj_pipe c" and "counted st"
  shows "counted st'" and "listed_live st \<Longrightarrow> cj_pid c = 0 \<or> nread \<le> 0 \<Longrightarrow> listed_live st'"
proof -
  have f: "\<not> cj_finish c" using assms(2-4) by (simp add: counted_def)
  have v: "\<not> valid_size js nread" if "nread \<le> 0" using that by (simp add: valid_size_def JS_PKG_MIN_SIZE_def)
  consider "st' = st" | "FreeContext js p st = Some st'"
    | pid name where "0 < pid" "announce js fd pid name p st = Some st'" "valid_size js nread"
    | n where "st' = upd_jctx p (\<lambda>c. c\<lparr>cj_pkgName := n\<rparr>) st"
  proof (cases "nread = 0 \<or> \<not> valid_size js nread \<or> announced js nread bs = None")
    case True
    have "ReadStream js fd nread bs p st = (if nread = 0 then Some st else FreeContext js p st)"
      using True assms(2) by (auto simp: ReadStream_def)
    then show thesis using assms(1) that(1,2) by (cases "nread = 0") simp_all
  next
    case False
    then obtain pid name where a: "announced js nread bs = Some (pid, name)" by auto
    show thesis
    proof (cases "0 < pid")
      case True
      then show thesis using assms(1,2) False a that(3) by (simp add: ReadStream_def)
    next
      case z: False
      then have "(case name of None \<Rightarrow> st | Some n \<Rightarrow> upd_jctx p (\<lambda>c. c\<lparr>cj_pkgName := n\<rparr>) st) = st'"
        using assms(1,2) False a by (simp add: ReadStream_def)
      then show thesis using that(1,4) by (cases name) auto
    qed
  qed
  then have "counted st' \<and> (listed_live st \<longrightarrow> cj_pid c = 0 \<or> nread \<le> 0 \<longrightarrow> listed_live st')"
  proof cases
    case 1
    then show ?thesis using assms(4) by simp
  next
    case 2
    then show ?thesis using FreeJdwp_keeps [OF assms(2) 2 assms(4)] by simp
  next
    case 3
    have "pid \<noteq> 0" using 3(1) by (metis word_not_simps(1))
    then show ?thesis using announce_keeps [OF 3(2) assms(2) f assms(4)] v 3(3) by blast
  next
    case 4
    show ?thesis unfolding 4 using counted_upd [OF assms(4,2)] listed_upd [OF _ assms(2)] by simp
  qed
  then show "counted st'" "listed_live st \<Longrightarrow> cj_pid c = 0 \<or> nread \<le> 0 \<Longrightarrow> listed_live st'" by simp_all
qed

lemma poll_events_keeps:
  assumes "poll_events js hup readable fds st = Some st'" and "counted st"
  shows "counted st'" and "listed_live st \<Longrightarrow> listed_live st'"
proof -
  have "counted st' \<and> (listed_live st \<longrightarrow> listed_live st')" using assms
  proof (induction fds arbitrary: st)
    case (Cons fd fds)
    then obtain st1 where s: "(if hup fd then (case map_of (pollNodeMap st) fd of None \<Rightarrow> Some st
           | Some pid \<Rightarrow> if CheckPIDExist pid st then admin js J_REMOVE pid st else Some st)
        else if readable fd \<and> fd = -1 then Some (DrainAwakenPollThread st) else Some st) = Some st1"
      "poll_events js hup readable fds st1 = Some st'" by (auto split: bind_splits)
    have "counted st1 \<and> (listed_live st \<longrightarrow> listed_live st1)"
      using s(1) Cons.prems(2) admin_remove_keeps(1,2) by (auto simp: DrainAwakenPollThread_def split: if_splits option.splits)
    then show ?case using Cons.IH [OF s(2)] by blast
  qed simp
  then show "counted st'" "listed_live st \<Longrightarrow> listed_live st'" by simp_all
qed

lemma card_dom_upd: "finite (dom h) \<Longrightarrow> h p = None \<Longrightarrow> card (dom (h(p \<mapsto> c))) = Suc (card (dom h))"
  by (simp add: domIff)

lemma Accept_keeps:
  assumes "AcceptClient js ok p st = Some st'" and "jctx st p = None" and "counted st"
  shows "counted st'" and "listed_live st \<Longrightarrow> listed_live st'"
proof -
  let ?c = "new_ContextJdwp\<lparr>cj_pipe := True\<rparr>"
  let ?s = "upd_jctx p (\<lambda>c. c\<lparr>cj_pipe := True\<rparr>) (MallocContext p st)"
  have j: "jctx ?s = (jctx st)(p \<mapsto> ?c)" by (simp add: upd_jctx_def MallocContext_def)
  have p: "p \<notin> set (free_idles st)" using assms(2,3) by (simp add: counted_def)
  have c: "counted ?s"
  proof -
    have n: "card (dom (jctx ?s)) = Suc (card (dom (jctx st)))" "finite (dom (jctx ?s))"
      using assms(2,3) unfolding j counted_def by (simp_all add: card_dom_upd del: dom_fun_upd) simp
    show ?thesis
      using assms(2,3) p n unfolding counted_def
      by (auto simp: j simp del: dom_fun_upd) (auto simp: upd_jctx_def MallocContext_def new_ContextJdwp_def split: if_splits)
  qed
  have l: "listed_live ?s" if "listed_live st"
    unfolding listed_live_def j
  proof (intro allI impI)
    fix k q assume "map_of (mapCtxJdwp ?s) k = Some q"
    then have "map_of (mapCtxJdwp st) k = Some q" by (simp add: upd_jctx_def MallocContext_def)
    with that obtain d where "jctx st q = Some d" "cj_pid d = k" "\<not> cj_finish d" "k \<noteq> 0" unfolding listed_live_def by blast
    moreover have "q \<noteq> p" using calculation assms(2) by auto
    ultimately show "\<exists>c. ((jctx st)(p \<mapsto> ?c)) q = Some c \<and> cj_pid c = k \<and> \<not> cj_finish c \<and> k \<noteq> 0" by simp
  qed
  have "counted st' \<and> (listed_live st \<longrightarrow> listed_live st')"
  proof (cases ok)
    case True
    then have "st' = ?s" using assms(1) by (simp add: AcceptClient_def)
    then show ?thesis using c l by simp
  next
    case False
    then have "FreeContext js p ?s = Some st'" using assms(1) by (simp add: AcceptClient_def)
    then show ?thesis using FreeJdwp_keeps [of ?s p ?c js st'] j c l by simp
  qed
  then show "counted st'" "listed_live st \<Longrightarrow> listed_live st'" by simp_all
qed

lemma idle_keeps:
  assumes "funcReqClose p st = Some st'" and "p \<in> set (free_idles st)" and "p \<notin> set (fd_writes st)" and "counted st"
  shows "counted st'" and "listed_live st \<Longrightarrow> listed_live st'"
proof -
  obtain c where c: "jctx st p = Some c" "cj_finish c" using assms(2,4) by (auto simp: counted_def)
  have st': "st' = st\<lparr>jctx := (jctx st)(p := None), jd_refCount := jd_refCount st - 1, free_idles := remove1 p (free_idles st)\<rparr>"
    using assms(1) c(1) by (simp add: funcReqClose_def)
  have n: "finite (dom (jctx st'))" "Suc (card (dom (jctx st'))) = card (dom (jctx st))"
  proof -
    have "finite (dom (jctx st))" "p \<in> dom (jctx st)" using assms(4) c by (auto simp: counted_def)
    moreover have "dom (jctx st') = dom (jctx st) - {p}" unfolding st' by auto
    ultimately show "finite (dom (jctx st'))" "Suc (card (dom (jctx st'))) = card (dom (jctx st))"
      using card_Suc_Diff1 [of "dom (jctx st)" p] by simp_all
  qed
  have "jd_refCount st = word_of_nat (Suc (card (dom (jctx st'))) + length (fd_writes st) + 1)"
    using assms(4) n(2) by (simp add: counted_def)
  then have r: "jd_refCount st' = word_of_nat (card (dom (jctx st')) + length (fd_writes st') + 1)"
    by (simp add: st')
  have i: "q \<in> set (free_idles st') \<longleftrightarrow> (\<exists>c. jctx st' q = Some c \<and> cj_finish c)" for q
    using assms(4) unfolding counted_def st' by (cases "q = p") (auto simp: in_set_remove1)
  show "counted st'" using assms(3,4) n(1) r i unfolding counted_def
    by (auto simp: st' distinct_remove1)
  show "listed_live st'" if l: "listed_live st"
    unfolding listed_live_def
  proof (intro allI impI)
    fix k q assume "map_of (mapCtxJdwp st') k = Some q"
    then have "map_of (mapCtxJdwp st) k = Some q" by (simp add: st')
    with l obtain d where d: "jctx st q = Some d" "cj_pid d = k" "\<not> cj_finish d" "k \<noteq> 0" unfolding listed_live_def by blast
    then have "q \<noteq> p" using c by auto
    then show "\<exists>c. jctx st' q = Some c \<and> cj_pid c = k \<and> \<not> cj_finish c \<and> k \<noteq> 0" using d by (simp add: st')
  qed
qed

lemma newfd_keeps:
  assumes "SendJdwpNewFD i u s pid st = Some (r, st')" and "counted st"
  shows "counted st'" and "listed_live st \<Longrightarrow> listed_live st'"
proof -
  have "counted st' \<and> (listed_live st \<longrightarrow> listed_live st')"
  proof (cases "map_of (mapCtxJdwp st) pid")
    case None
    then show ?thesis using assms by (simp add: SendJdwpNewFD_def)
  next
    case (Some p)
    then obtain c where c: "jctx st p = Some c" using assms(1) by (cases "jctx st p") (simp_all add: SendJdwpNewFD_def)
    let ?s = "upd_jctx p (\<lambda>c. c\<lparr>cj_jvm := True\<rparr>) st"
    let ?t = "?s\<lparr>jd_refCount := jd_refCount ?s + 1, fd_writes := fd_writes ?s @ [p]\<rparr>"
    have s: "counted ?s" by (rule counted_upd [OF assms(2) c]) simp_all
    have "jctx ?s p \<noteq> None" using c by (simp add: upd_jctx_def)
    then have t: "counted ?t" using s unfolding counted_def by (auto simp: algebra_simps)
    have l: "listed_live ?s" if "listed_live st" by (rule listed_upd [OF that c]) simp_all
    then have "listed_live ?t" if "listed_live st" using that by (simp add: listed_live_def)
    then show ?thesis using assms Some c s t l
      by (auto simp: SendJdwpNewFD_def Let_def split: if_splits)
  qed
  then show "counted st'" "listed_live st \<Longrightarrow> listed_live st'" by simp_all
qed

lemma written_keeps:
  assumes "SendCallbackJdwpNewFD p st = Some st'" and "p \<in> set (fd_writes st)" and "counted st"
  shows "counted st'" and "listed_live st \<Longrightarrow> listed_live st'"
proof -
  obtain c where c: "jctx st p = Some c" using assms(1) by (cases "jctx st p") (simp_all add: SendCallbackJdwpNewFD_def)
  let ?s = "st\<lparr>jd_refCount := jd_refCount st - 1, fd_writes := remove1 p (fd_writes st)\<rparr>"
  have st': "st' = upd_jctx p (\<lambda>c. c\<lparr>cj_jvm := False\<rparr>) ?s" using assms(1) c by (simp add: SendCallbackJdwpNewFD_def)
  obtain n where n: "length (fd_writes st) = Suc n" using assms(2) by (cases "fd_writes st") auto
  have "counted ?s" using assms(2,3) n unfolding counted_def
    by (auto simp: length_remove1 dest: in_set_remove1 [THEN iffD1, rotated] notin_set_remove1 [THEN contrapos_nn] set_remove1_subset [THEN subsetD])
  then show "counted st'" unfolding st' using c by (intro counted_upd) simp_all
  show "listed_live st'" if "listed_live st" unfolding st'
    by (rule listed_upd [where c = c]) (use that c in \<open>simp_all add: listed_live_def\<close>)
qed

lemma jdwp_step_keeps:
  assumes "jdwp_step once js st st'" and "counted st"
  shows "counted st'" and "once \<Longrightarrow> listed_live st \<Longrightarrow> listed_live st'"
proof -
  have "counted st' \<and> (once \<longrightarrow> listed_live st \<longrightarrow> listed_live st')" using assms
  proof cases
    case (j_accept p ok)
    then show ?thesis using Accept_keeps assms(2) by blast
  next
    case (j_read p c nread fd bs)
    then show ?thesis using ReadStream_keeps [OF j_read(4,1,2) assms(2)] by blast
  next
    case (j_idle p)
    then show ?thesis using idle_keeps [OF j_idle(3,1,2) assms(2)] by blast
  next
    case (j_newfd i u s pid r)
    then show ?thesis using newfd_keeps assms(2) by blast
  next
    case (j_written p)
    then show ?thesis using written_keeps assms(2) by blast
  next
    case (j_poll hup readable t t')
    then obtain fds where "poll_events js hup readable fds st = Some st'"
      by (auto simp: FdEventPollThread_def Let_def)
    from poll_events_keeps [OF this assms(2)] show ?thesis by blast
  next
    case (j_track t)
    then have "counted st' = counted st \<and> listed_live st' = listed_live st"
      using updated_keeps unfolding CreateJdwpTracker_def by (metis counted_lists(1,6))
    then show ?thesis using assms(2) by simp
  next
    case (j_untrack t)
    then show ?thesis using assms(2) by (simp add: RemoveJdwpTracker_def)
  next
    case (j_task h)
    then show ?thesis using assms(2) by simp
  qed
  then show "counted st'" "once \<Longrightarrow> listed_live st \<Longrightarrow> listed_live st'" by simp_all
qed

lemma ext_names_live: "\<forall>(k, p) \<in> set m. h p \<noteq> None \<Longrightarrow> ext_names h m \<noteq> None"
  by (induction h m rule: ext_names.induct) auto

text \<open>
  C32. The debugger module in any order of connections, announcements, ends, descriptors and queries, of
  processes that announce themselves once: the processes listed are those of live contexts, so
  that the list can always be made; every context that has ended waits for one deletion; and
  the references counted are the contexts, the descriptors under way and the listening socket.
\<close>

theorem listed_processes_live:
  assumes "jdwp_reach True js st"
  shows "(\<forall>pid p. map_of (mapCtxJdwp st) pid = Some p \<longrightarrow> (\<exists>c. jctx st p = Some c \<and> cj_pid c = pid \<and> \<not> cj_finish c))
    \<and> GetProcessListExtendPkgName st \<noteq> None
    \<and> distinct (free_idles st) \<and> set (free_idles st) = {p. \<exists>c. jctx st p = Some c \<and> cj_finish c}
    \<and> jd_refCount st = word_of_nat (card (dom (jctx st)) + length (fd_writes st) + 1)"
proof -
  have i: "counted st \<and> listed_live st" using assms
    by (induction rule: jdwp_reach.induct) (simp_all add: counted_start jdwp_step_keeps)
  then have "\<forall>(k, p) \<in> set (mapCtxJdwp st). jctx st p \<noteq> None"
    using mp_wf_distinct by (fastforce simp: counted_def listed_live_def dest: map_of_is_SomeI [rotated])
  then have "GetProcessListExtendPkgName st \<noteq> None" unfolding GetProcessListExtendPkgName_def by (rule ext_names_live)
  moreover have "\<forall>pid p. map_of (mapCtxJdwp st) pid = Some p \<longrightarrow> (\<exists>c. jctx st p = Some c \<and> cj_pid c = pid \<and> \<not> cj_finish c)"
    using i unfolding listed_live_def by blast
  moreover have "set (free_idles st) = {p. \<exists>c. jctx st p = Some c \<and> cj_finish c}" using i by (auto simp: counted_def)
  ultimately show ?thesis using i unfolding counted_def by blast
qed

text \<open>
  A process that announces a second number leaves the first behind: when it has ended, the list
  still has that number, with a context that has been deleted.
\<close>

theorem second_announcement_dangles:
  assumes "counted st" and "jdwpTrackers st = []" and "jctx st p = Some c" and "cj_pipe c" and "cj_pid c = a"
    and "map_of (mapCtxJdwp st) a = Some p" and "valid_size js nread" and "nread \<noteq> 0" and "announced js nread bs = Some (b, name)"
    and "0 < b" and "b \<noteq> a"
  shows "\<exists>st1 st2 st3. ReadStream js fd nread bs p st = Some st1 \<and> FreeContext js p st1 = Some st2 \<and> funcReqClose p st2 = Some st3
    \<and> CheckPIDExist a st3 \<and> SendJdwpNewFD i u s a st3 = None \<and> GetProcessListExtendPkgName st3 = None"
proof -
  have quiet: "ProcessListUpdated js t w = Some w" if "jdwpTrackers w = []" for t w
    using that by (simp add: ProcessListUpdated_def)
  have w: "mp_wf (mapCtxJdwp st)" and f: "\<not> cj_finish c" using assms(1,3,4) by (simp_all add: counted_def)
  let ?f = "\<lambda>c. c\<lparr>cj_pid := b, cj_pkgName := (case name of Some n \<Rightarrow> n | None \<Rightarrow> cj_pkgName c)\<rparr>"
  obtain st1 where st1: "ReadStream js fd nread bs p st = Some st1"
    and 1: "jctx st1 p = Some (?f c)" "mapCtxJdwp st1 = mp_put b p (mapCtxJdwp st)" "jdwpTrackers st1 = []"
    using assms by (cases fd) (simp_all add: ReadStream_def announce_def admin_effect quiet upd_jctx_def WakePollThread_def)
  obtain st2 where st2: "FreeContext js p st1 = Some st2" and 2: "jctx st2 p \<noteq> None" "mapCtxJdwp st2 = mp_erase b (mapCtxJdwp st1)"
    using 1 f by (simp add: FreeContext_def admin_effect quiet upd_jctx_def)
  obtain st3 where st3: "funcReqClose p st2 = Some st3" and 3: "jctx st3 p = None" "mapCtxJdwp st3 = mapCtxJdwp st2"
    using 2(1) by (auto simp: funcReqClose_def)
  have m: "map_of (mapCtxJdwp st3) a = Some p"
    using assms(6,11) w by (simp add: 3 2 1 map_of_mp_erase map_of_mp_put)
  have "ext_names h es = None" if "(k, q) \<in> set es" "h q = None" for h es and k :: u32 and q :: nat
    using that by (induction h es rule: ext_names.induct) (auto split: bind_splits)
  from this [OF map_of_SomeD [OF m], of "jctx st3"] have "GetProcessListExtendPkgName st3 = None"
    using 3(1) by (simp add: GetProcessListExtendPkgName_def)
  then show ?thesis using st1 st2 st3 m 3(1) by (auto simp: CheckPIDExist_def SendJdwpNewFD_def)
qed

text \<open>\<open>Stop\<close> frees the contexts while it iterates over the map from which freeing erases them.\<close>

theorem stop_needs_no_process:
  assumes "mp_wf (mapCtxJdwp st)" and "listed_live st" and "jdwpTrackers st = []"
  shows "StopJdwp js st = None \<longleftrightarrow> mapCtxJdwp st \<noteq> []"
proof (cases "mapCtxJdwp st")
  case Nil
  then show ?thesis
    using assms(3) by (simp add: StopJdwp_def admin_effect ProcessListUpdated_def WakePollThread_def)
next
  case (Cons e m)
  obtain k p where e: "e = (k, p)" by fastforce
  let ?st = "WakePollThread (st\<lparr>stopped := True\<rparr>)"
  have m: "map_of (mapCtxJdwp ?st) k = Some p" using Cons e by (simp add: WakePollThread_def)
  then obtain c where c: "jctx ?st p = Some c" "cj_pid c = k" "\<not> cj_finish c"
    using assms(2) unfolding listed_live_def by (fastforce simp: WakePollThread_def)
  have "map_of (mapCtxJdwp st1) k = None" if "FreeContext js p ?st = Some st1" for st1
    using FreeJdwp_effect(5) [OF c(1) that c(3)] c(2) by (simp add: map_of_mp_erase)
  then show ?thesis using m by (auto simp: StopJdwp_def Cons e WakePollThread_def split: bind_splits)
qed

text \<open>What a forward sends for a descriptor is what the main thread reads.\<close>

theorem descriptor_message_read_back: "JdwpNewFileDescriptor (jdwp_flag pid fd) = (pid, fd)"
  by (simp add: JdwpNewFileDescriptor_def jdwp_flag_def le_dec_enc_u32)

text \<open>Where \<open>JS_JDWP_CONNECT\<close> is defined, the four bytes of a Java process end its connection.\<close>

lemma java_process_refused: "jctx st p \<noteq> None \<Longrightarrow> ReadStream True fd 4 bs p st = FreeContext True p st"
  by (auto simp: ReadStream_def valid_size_def JS_PKG_MIN_SIZE_def)

text \<open>A socket that cannot be bound is no failure, and is not counted: stopping makes the count wrap.\<close>

lemma bind_failure_hidden:
  "\<exists>st. JdwpInitial False l True 0 new_HdcJdwp = (0, st) \<and> jd_refCount (funcListenPipeClose st) = - 1"
  by (simp add: JdwpInitial_def JdwpListen_def CreateFdEventPoll_def funcListenPipeClose_def new_HdcJdwp_def err_def)

text \<open>Two processes with one number: when one of them ends, the other is no longer listed.\<close>

lemma same_number_unlisted:
  assumes "jctx st p = Some c" and "jctx st q = Some c'" and "p \<noteq> q" and "cj_pid c = cj_pid c'" and "\<not> cj_finish c"
    and "FreeContext js p st = Some st'"
  shows "jctx st' q = Some c' \<and> \<not> CheckPIDExist (cj_pid c') st'"
  using FreeJdwp_effect(1,5) [OF assms(1,6,5)] assms by (simp add: CheckPIDExist_def map_of_mp_erase)

section \<open>One process\<close>

definition js_message :: "u32 \<Rightarrow> string \<Rightarrow> bytes" where
  "js_message pid name = le_enc 4 (8 + length name) @ le_enc 4 (unat pid) @ bytes_of name"

definition one_context :: ContextJdwp where
  "one_context = \<lparr> cj_pid = 42, cj_finish = False, cj_pkgName = ''com.app'', cj_pipe = True, cj_jvm = False \<rparr>"

definition one_process :: HdcJdwp where
  "one_process = \<lparr> jctx = [1 \<mapsto> one_context], jtasks = (\<lambda>_. None), mapCtxJdwp = [(42, 1)], pollNodeMap = [(7, 42)],
     jdwpTrackers = [], jd_refCount = 2, awaken = Some 1, stopped = False, listening = True, free_idles = [], fd_writes = [], told = [] \<rparr>"

lemma js_message_announced:
  assumes "7 \<le> length name" and "length name \<le> 127"
  shows "announced True (int (8 + length name)) (js_message pid name) = Some (pid, Some name)"
    and "valid_size True (int (8 + length name))"
proof -
  have "le_dec (le_enc 4 (8 + length name)) = 8 + length name" using assms(2) by (simp add: le_dec_enc)
  then show "announced True (int (8 + length name)) (js_message pid name) = Some (pid, Some name)"
    using assms(1) by (simp add: announced_def js_message_def le_dec_enc_u32)
qed (use assms in \<open>simp add: valid_size_def JS_PKG_MIN_SIZE_def JS_PKG_MX_SIZE_def\<close>)

lemma decimal_42: "decimal 42 = ''42''"
  by code_simp

lemma one_process_reached: "jdwp_reach True True one_process"
proof -
  let ?s = "started_jdwp\<lparr>jctx := [1 \<mapsto> new_ContextJdwp\<lparr>cj_pipe := True\<rparr>], jd_refCount := 2\<rparr>"
  have s: "started_jdwp = \<lparr> jctx = (\<lambda>_. None), jtasks = (\<lambda>_. None), mapCtxJdwp = [], pollNodeMap = [], jdwpTrackers = [],
     jd_refCount = 1, awaken = Some 0, stopped = False, listening = True, free_idles = [], fd_writes = [], told = [] \<rparr>"
    by (simp add: started_jdwp_def JdwpInitial_def JdwpListen_def CreateFdEventPoll_def new_HdcJdwp_def err_def)
  have "AcceptClient True True 1 started_jdwp = Some ?s"
    by (simp add: AcceptClient_def s MallocContext_def upd_jctx_def)
  then have "jdwp_step True True started_jdwp ?s" by (rule j_accept [rotated]) (simp add: s)
  moreover have "ReadStream True (Some 7) 15 (js_message 42 ''com.app'') 1 ?s = Some one_process"
    using js_message_announced(1) [of "''com.app''" 42] js_message_announced(2) [of "''com.app''"]
    by (simp add: ReadStream_def announce_def admin_effect ProcessListUpdated_def s upd_jctx_def WakePollThread_def one_process_def
        one_context_def new_ContextJdwp_def emplace_def)
  then have "jdwp_step True True ?s one_process"
    by (rule j_read [rotated 3, of _ _ _ _ 1 _ _ "new_ContextJdwp\<lparr>cj_pipe := True\<rparr>"]) (simp_all add: s new_ContextJdwp_def)
  ultimately show ?thesis using j_start jdwp_reach.j_step by blast
qed

theorem listed_processes_live_witness: "GetProcessListExtendPkgName one_process \<noteq> None \<and> jd_refCount one_process = 2"
  using listed_processes_live [OF one_process_reached] by (simp add: one_process_def)

lemma one_process_counted: "counted one_process"
  by (simp add: counted_def one_process_def one_context_def mp_wf_def)

theorem second_announcement_dangles_witness:
  "\<exists>st1 st2 st3. ReadStream True None 15 (js_message 43 ''com.app'') 1 one_process = Some st1 \<and> FreeContext True 1 st1 = Some st2
     \<and> funcReqClose 1 st2 = Some st3 \<and> CheckPIDExist 42 st3 \<and> SendJdwpNewFD True True True 42 st3 = None
     \<and> GetProcessListExtendPkgName st3 = None"
proof (rule second_announcement_dangles [OF one_process_counted])
  show "announced True 15 (js_message 43 ''com.app'') = Some (43, Some ''com.app'')" "valid_size True 15"
    using js_message_announced(1) [of "''com.app''" 43] js_message_announced(2) [of "''com.app''"] by simp_all
  show "jctx one_process 1 = Some one_context" by (simp add: one_process_def)
qed (simp_all add: one_process_def one_context_def)

theorem stop_needs_no_process_witness: "StopJdwp True one_process = None"
proof -
  have "listed_live one_process" by (simp add: listed_live_def one_process_def one_context_def)
  then show ?thesis using stop_needs_no_process [of one_process True] by (simp add: one_process_def mp_wf_def)
qed

theorem first_process_not_watched_witness:
  "\<exists>st'. poll_rounds True (replicate 100 (\<lambda>fd. fd = 7, \<lambda>_. False)) (poll_prepare [] \<lparr> pollfds = [], poll_size = 0 \<rparr>) one_process
     = Some (poll_prepare [] \<lparr> pollfds = [], poll_size = 0 \<rparr>, st') \<and> CheckPIDExist 42 st'"
proof -
  have "CheckPIDExist 42 one_process" "pollNodeMap one_process = [(7, 42)]" by (simp_all add: CheckPIDExist_def one_process_def)
  with first_process_not_watched [of one_process 7 42 "replicate 100 (\<lambda>fd. fd = 7, \<lambda>_. False)" True] show ?thesis
    by fastforce
qed

definition tracker :: jdwp_task where
  "tracker = TaskInformation.extend (new_task False 9 5 False) \<lparr> has_class = True \<rparr>"

definition tracked :: HdcJdwp where
  "tracked = one_process\<lparr>jtasks := (\<lambda>_. Some tracker), jdwpTrackers := [3, 4]\<rparr>"

theorem trackers_told_witness: "\<exists>st. ProcessListUpdated True None tracked = Some st \<and> length (told st) = 2"
proof -
  have l: "GetProcessListExtendPkgName tracked = Some (''42 com.app'' @ newline)"
    by (simp add: GetProcessListExtendPkgName_def tracked_def one_process_def one_context_def decimal_42)
  have "hex4 11 = ''000b''" by code_simp
  then have "JdwpProcessListMsg True (jpidTrackListSize True) tracked = Some (''000b'' @ newline @ ''42 com.app'' @ newline)"
    by (simp add: JdwpProcessListMsg_def l headerLen_def jpidTrackListSize_def newline_def eval_nat_numeral)
  from trackers_told [OF _ _ this] show ?thesis
    by (simp add: tracked_def one_process_def newline_def tracker_gone_def tracker_def new_task_def TaskInformation.defs)
qed

theorem process_list_framed_witness:
  "\<exists>m. JdwpProcessListMsg True 4096 one_process = Some m \<and> hex_value (take 4 m) = 11"
proof -
  have l: "GetProcessListExtendPkgName one_process = Some (''42 com.app'' @ newline)"
    by (simp add: GetProcessListExtendPkgName_def one_process_def one_context_def decimal_42)
  then obtain m where m: "JdwpProcessListMsg True 4096 one_process = Some m" by (simp add: JdwpProcessListMsg_def)
  with process_list_framed [OF m] l show ?thesis by (simp add: newline_def)
qed

end
