(* ===== verification/Hdc_ChannelFree.thy ===== *)
theory Hdc_ChannelFree
  imports Hdc_Prelude
begin

text \<open>
  The life of a channel in src/src/common/channel.cpp, with the parts of server_for_client.cpp,
  server.cpp and client.cpp that take part in it: \<open>FreeChannel\<close> starts a chain of callbacks that waits
  for the writes, lets the thread of the session let go of the channel, closes the handles and
  deletes the channel. The callbacks hold a pointer: one that finds no channel has the result \<open>None\<close>.
\<close>

section \<open>State\<close>

text \<open>
  The handles belong to the loops: \<open>work\<close> is \<open>hWorkTCP\<close>, \<open>child\<close> is \<open>hChildWorkTCP\<close>. A close without
  callback counts as complete, since it is before the next timer or idle runs.
\<close>

datatype handle_state = H_None | H_Open | H_Closing | H_Closed

definition is_closing :: "handle_state \<Rightarrow> bool" where
  "is_closing h \<longleftrightarrow> h = H_Closing \<or> h = H_Closed"

record chan_life =
  cl_server :: bool
  cl_dead :: bool
  cl_cleared :: bool
  cl_ref :: nat
  cl_uv :: u8

text \<open>
  The callbacks that hold the channel: the timers of \<open>FreeChannelOpeate\<close>, of the check for the child,
  and of a connection that is waited for; the idles of \<open>FreeChannelFinally\<close> and of the binding to a
  session; the closes of the work handle (by the release, or by the binding), of the terminal's two,
  and the one of the child's that sets \<open>childCleared\<close>.
\<close>

datatype chan_cb = T_Opeate | T_Check | T_Wait | I_Final | I_Attach | C_Work | C_Bind | C_Stdin | C_Stdout | C_Child

text \<open>
  \<open>stdin\<close> and \<open>stdout\<close> are the terminal's handles of a client, \<open>std_data\<close> says whether they know the
  channel. \<open>ctrl_ok\<close>: the session takes control messages; \<open>thread\<close>: its thread runs.
\<close>

record chan_world =
  chan :: "chan_life option"
  listed :: bool
  pend :: "chan_cb \<Rightarrow> nat"
  work :: handle_state
  child :: handle_state
  stdin :: handle_state
  stdout :: handle_state
  std_data :: bool
  wwrites :: nat
  cwrites :: nat
  ctrl_ok :: bool
  thread :: bool
  attach_msgs :: nat
  detach_msgs :: nat
  free_msgs :: nat

section \<open>The release\<close>

definition pend_add :: "chan_cb \<Rightarrow> chan_world \<Rightarrow> chan_world" where
  "pend_add c w = w\<lparr>pend := (pend w)(c := Suc (pend w c))\<rparr>"

definition pend_del :: "chan_cb \<Rightarrow> chan_world \<Rightarrow> chan_world" where
  "pend_del c w = w\<lparr>pend := (pend w)(c := pend w c - 1)\<rparr>"

definition upd_chan :: "(chan_life \<Rightarrow> chan_life) \<Rightarrow> chan_world \<Rightarrow> chan_world" where
  "upd_chan f w = w\<lparr>chan := map_option f (chan w)\<rparr>"

definition MallocChannel :: "bool \<Rightarrow> chan_world" where
  "MallocChannel server = \<lparr> chan = Some \<lparr> cl_server = server, cl_dead = False, cl_cleared = False, cl_ref = 0, cl_uv = 1 \<rparr>,
     listed = True, pend = (\<lambda>_. 0), work = H_Open, child = H_None, stdin = H_None, stdout = H_None, std_data = False,
     wwrites = 0, cwrites = 0, ctrl_ok = True, thread = True, attach_msgs = 0, detach_msgs = 0, free_msgs = 0 \<rparr>"

definition FreeChannel :: "chan_world \<Rightarrow> chan_world option" where
  "FreeChannel w =
     (if \<not> listed w then Some w
      else Option.bind (chan w) (\<lambda>h.
        if cl_dead h then Some w else Some (pend_add T_Opeate (upd_chan (\<lambda>h. h\<lparr>cl_dead := True\<rparr>) w))))"

definition FreeChannel_other_thread :: "chan_world \<Rightarrow> chan_world" where
  "FreeChannel_other_thread w = w\<lparr>free_msgs := Suc (free_msgs w)\<rparr>"

text \<open>\<open>TryCloseHandle\<close> of the terminal's handles: only those that belong to a loop.\<close>

definition close_std :: "chan_world \<Rightarrow> chan_world" where
  "close_std w =
     (let w1 = (if stdin w = H_Open then pend_add C_Stdin (w\<lparr>stdin := H_Closing\<rparr>) else w) in
      if stdout w1 = H_Open then pend_add C_Stdout (w1\<lparr>stdout := H_Closing\<rparr>) else w1)"

definition FreeChannelContinue :: "chan_world \<Rightarrow> chan_world option" where
  "FreeChannelContinue w = Option.bind (chan w) (\<lambda>h.
     let w1 = (if cl_server h then w else close_std w);
         w2 = (if is_closing (work w1) then upd_chan (\<lambda>h. h\<lparr>cl_uv := cl_uv h - 1\<rparr>) w1
               else pend_add C_Work (w1\<lparr>work := H_Closing\<rparr>))
     in Some (pend_add I_Final w2))"

definition FreeChannelOpeate :: "chan_world \<Rightarrow> chan_world option" where
  "FreeChannelOpeate w = Option.bind (chan w) (\<lambda>h.
     if 0 < cl_ref h then Some w
     else if child w \<noteq> H_None then
       Some (pend_del T_Opeate (pend_add T_Check (if ctrl_ok w then w\<lparr>detach_msgs := Suc (detach_msgs w)\<rparr> else w)))
     else map_option (pend_del T_Opeate) (FreeChannelContinue w))"

definition callbackCheckFreeChannelContinue :: "chan_world \<Rightarrow> chan_world option" where
  "callbackCheckFreeChannelContinue w = Option.bind (chan w) (\<lambda>h.
     if \<not> cl_cleared h then Some w else FreeChannelContinue (pend_del T_Check w))"

definition FreeChannelFinally :: "chan_world \<Rightarrow> chan_world option" where
  "FreeChannelFinally w = Option.bind (chan w) (\<lambda>h.
     if 0 < cl_uv h then Some w else Some (pend_del I_Final (w\<lparr>chan := None, listed := False\<rparr>)))"

section \<open>The other callbacks\<close>

definition closeChannelHandle :: "chan_cb \<Rightarrow> chan_world \<Rightarrow> chan_world option" where
  "closeChannelHandle c w = Option.bind (chan w) (\<lambda>_. Some (pend_del c (upd_chan (\<lambda>h. h\<lparr>cl_uv := cl_uv h - 1\<rparr>) w)))"

definition funcWorkTcpClose :: "chan_world \<Rightarrow> chan_world option" where
  "funcWorkTcpClose w = Option.bind (chan w) (\<lambda>_.
     Some (pend_del C_Bind (upd_chan (\<lambda>h. h\<lparr>cl_ref := cl_ref h - 1\<rparr>) w)\<lparr>work := H_Closed\<rparr>))"

definition child_cleared :: "chan_world \<Rightarrow> chan_world option" where
  "child_cleared w = Option.bind (chan w) (\<lambda>_.
     Some (pend_del C_Child (upd_chan (\<lambda>h. h\<lparr>cl_cleared := True\<rparr>) w)\<lparr>child := H_Closed\<rparr>))"

text \<open>The idle of the binding; \<open>alive\<close>: the session is found.\<close>

definition attach_idle :: "bool \<Rightarrow> chan_world \<Rightarrow> chan_world option" where
  "attach_idle alive w = Option.bind (chan w) (\<lambda>_.
     Some (let w1 = pend_del I_Attach w in if alive then w1\<lparr>attach_msgs := Suc (attach_msgs w1)\<rparr> else w1))"

text \<open>The timer of \<open>OrderConnecTargetResult\<close>; \<open>over\<close>: the device is connected, or the last attempt made.\<close>

definition wait_timer :: "bool \<Rightarrow> chan_world \<Rightarrow> chan_world option" where
  "wait_timer over w = Option.bind (chan w) (\<lambda>_.
     if over then map_option (pend_del T_Wait) (FreeChannel w) else Some w)"

fun run_cb :: "chan_cb \<Rightarrow> bool \<Rightarrow> chan_world \<Rightarrow> chan_world option" where
  "run_cb T_Opeate b w = FreeChannelOpeate w"
| "run_cb T_Check b w = callbackCheckFreeChannelContinue w"
| "run_cb T_Wait b w = wait_timer b w"
| "run_cb I_Final b w = FreeChannelFinally w"
| "run_cb I_Attach b w = attach_idle b w"
| "run_cb C_Work b w = map_option (\<lambda>w. w\<lparr>work := H_Closed\<rparr>) (closeChannelHandle C_Work w)"
| "run_cb C_Bind b w = funcWorkTcpClose w"
| "run_cb C_Stdin b w = (if std_data w then map_option (\<lambda>w. w\<lparr>stdin := H_Closed\<rparr>) (closeChannelHandle C_Stdin w) else None)"
| "run_cb C_Stdout b w = (if std_data w then map_option (\<lambda>w. w\<lparr>stdout := H_Closed\<rparr>) (closeChannelHandle C_Stdout w) else None)"
| "run_cb C_Child b w = child_cleared w"

section \<open>Use of the channel\<close>

text \<open>
  \<open>SendChannel\<close> in the main thread or in the session's; a write that is not accepted (\<open>taken\<close>) has been
  counted. \<open>Send\<close> looks the channel up and sends unless it is dead.
\<close>

definition SendChannel :: "bool \<Rightarrow> bool \<Rightarrow> chan_world \<Rightarrow> chan_world option" where
  "SendChannel main taken w = Option.bind (chan w) (\<lambda>_.
     if (if main then work w else child w) \<noteq> H_Open then Some w
     else let w1 = upd_chan (\<lambda>h. h\<lparr>cl_ref := Suc (cl_ref h)\<rparr>) w in
       Some (if \<not> taken then w1 else if main then w1\<lparr>wwrites := Suc (wwrites w1)\<rparr> else w1\<lparr>cwrites := Suc (cwrites w1)\<rparr>))"

definition WriteCallback :: "bool \<Rightarrow> bool \<Rightarrow> chan_world \<Rightarrow> chan_world option" where
  "WriteCallback main failed w = Option.bind (chan w) (\<lambda>h.
     let w1 = upd_chan (\<lambda>h. h\<lparr>cl_ref := cl_ref h - 1\<rparr>)
           (if main then w\<lparr>wwrites := wwrites w - 1\<rparr> else w\<lparr>cwrites := cwrites w - 1\<rparr>);
         w2 = (if \<not> failed then w1
               else if main then (if work w1 = H_Open then w1\<lparr>work := H_Closed\<rparr> else w1)
               else (if child w1 = H_Open then w1\<lparr>child := H_Closed\<rparr> else w1))
     in if failed \<and> \<not> cl_dead h \<and> cl_ref h - 1 = 0 then
          (if main then FreeChannel w2 else Some (FreeChannel_other_thread w2))
        else Some w2)"

text \<open>The end of the stream, or a frame that ends the channel, in either thread.\<close>

definition read_end :: "bool \<Rightarrow> bool \<Rightarrow> chan_world \<Rightarrow> chan_world option" where
  "read_end main eof w = Option.bind (chan w) (\<lambda>_.
     if main then FreeChannel (if eof then w\<lparr>work := H_Closed\<rparr> else w)
     else Some (FreeChannel_other_thread (if eof then w\<lparr>child := H_Closed\<rparr> else w)))"

definition BindChannel :: "chan_world \<Rightarrow> chan_world option" where
  "BindChannel w = Option.bind (chan w) (\<lambda>_.
     Some (pend_add I_Attach (pend_add C_Bind (upd_chan (\<lambda>h. h\<lparr>cl_ref := Suc (cl_ref h)\<rparr>) w)\<lparr>work := H_Closing\<rparr>)))"

text \<open>The messages in the thread of the session, which look the channel up.\<close>

definition AttachChannel :: "bool \<Rightarrow> chan_world \<Rightarrow> chan_world option" where
  "AttachChannel openOK w =
     (let w1 = w\<lparr>attach_msgs := attach_msgs w - 1\<rparr> in
      if \<not> listed w1 then Some w1
      else Option.bind (chan w1) (\<lambda>_. Some (w1\<lparr>child := (if openOK then H_Open else H_Closed)\<rparr>)))"

definition DeatchChannel :: "chan_world \<Rightarrow> chan_world option" where
  "DeatchChannel w =
     (let w1 = w\<lparr>detach_msgs := detach_msgs w - 1\<rparr> in
      if \<not> listed w1 then Some w1
      else Option.bind (chan w1) (\<lambda>h.
        if cl_cleared h then Some w1
        else Some (pend_add C_Child (w1\<lparr>child := (if is_closing (child w1) then child w1 else H_Closing)\<rparr>))))"

text \<open>The terminal of a client: the results of the two \<open>uv_tty_init\<close>.\<close>

definition BindLocalStd :: "bool \<Rightarrow> bool \<Rightarrow> chan_world \<Rightarrow> chan_world option" where
  "BindLocalStd outOK inOK w = Option.bind (chan w) (\<lambda>_.
     Some (if \<not> outOK then w
           else if \<not> inOK then w\<lparr>stdout := H_Open\<rparr>
           else upd_chan (\<lambda>h. h\<lparr>cl_uv := cl_uv h + 2\<rparr>) (w\<lparr>stdout := H_Open, stdin := H_Open, std_data := True\<rparr>)))"

section \<open>Steps\<close>

text \<open>
  When libuv may run a callback: the close of a stream after its writes, idles in the order in which
  they were started; the child's by a thread that runs.
\<close>

definition may_run :: "chan_cb \<Rightarrow> chan_world \<Rightarrow> bool" where
  "may_run c w \<longleftrightarrow> 0 < pend w c
     \<and> (c \<in> {C_Work, C_Bind} \<longrightarrow> wwrites w = 0)
     \<and> (c = I_Final \<longrightarrow> pend w I_Attach = 0)
     \<and> (c = C_Child \<longrightarrow> cwrites w = 0 \<and> thread w)"

text \<open>
  \<open>safe\<close> excludes what the chain does not protect: a message that attaches a channel whose release has
  got past the child, a channel that is freed while a connection is waited for, a write that is not
  accepted, a terminal with one handle.
\<close>

inductive chan_step :: "bool \<Rightarrow> chan_world \<Rightarrow> chan_world \<Rightarrow> bool" for safe where
  ch_callback: "may_run c w \<Longrightarrow> run_cb c b w = Some w' \<Longrightarrow> chan_step safe w w'"
| ch_free: "safe \<longrightarrow> pend w T_Wait = 0 \<Longrightarrow> FreeChannel w = Some w' \<Longrightarrow> chan_step safe w w'"
| ch_push: "chan_step safe w (FreeChannel_other_thread w)"
| ch_async: "0 < free_msgs w \<Longrightarrow> safe \<longrightarrow> pend w T_Wait = 0 \<Longrightarrow>
    FreeChannel (w\<lparr>free_msgs := free_msgs w - 1\<rparr>) = Some w' \<Longrightarrow> chan_step safe w w'"
| ch_send: "safe \<longrightarrow> taken \<Longrightarrow> chan w \<noteq> None \<Longrightarrow> main \<or> thread w \<Longrightarrow> SendChannel main taken w = Some w' \<Longrightarrow> chan_step safe w w'"
| ch_written: "0 < (if main then wwrites w else cwrites w) \<Longrightarrow> safe \<longrightarrow> pend w T_Wait = 0 \<or> \<not> failed \<Longrightarrow>
    WriteCallback main failed w = Some w' \<Longrightarrow> chan_step safe w w'"
| ch_read: "(if main then work w else child w) = H_Open \<Longrightarrow> safe \<longrightarrow> pend w T_Wait = 0 \<Longrightarrow>
    read_end main eof w = Some w' \<Longrightarrow> chan_step safe w w'"
| ch_bind: "chan w = Some h \<Longrightarrow> cl_server h \<Longrightarrow> work w = H_Open \<Longrightarrow> pend w T_Wait = 0 \<Longrightarrow> BindChannel w = Some w' \<Longrightarrow> chan_step safe w w'"
| ch_wait: "chan w = Some h \<Longrightarrow> cl_server h \<Longrightarrow> work w = H_Open \<Longrightarrow> \<not> cl_dead h \<or> \<not> safe \<Longrightarrow> pend w T_Wait = 0 \<Longrightarrow> chan_step safe w (pend_add T_Wait w)"
| ch_attach: "0 < attach_msgs w \<Longrightarrow> thread w \<Longrightarrow> safe \<longrightarrow> pend w I_Final = 0 \<Longrightarrow>
    AttachChannel ok w = Some w' \<Longrightarrow> chan_step safe w w'"
| ch_detach: "0 < detach_msgs w \<Longrightarrow> thread w \<Longrightarrow> DeatchChannel w = Some w' \<Longrightarrow> chan_step safe w w'"
| ch_std: "chan w = Some h \<Longrightarrow> \<not> cl_server h \<Longrightarrow> \<not> cl_dead h \<Longrightarrow> stdout w = H_None \<Longrightarrow> safe \<longrightarrow> inOK \<or> \<not> outOK \<Longrightarrow>
    BindLocalStd outOK inOK w = Some w' \<Longrightarrow> chan_step safe w w'"
| ch_session_dead: "chan_step safe w (w\<lparr>ctrl_ok := False\<rparr>)"
| ch_thread_end: "cwrites w = 0 \<Longrightarrow> pend w C_Child = 0 \<Longrightarrow>
    chan_step safe w (w\<lparr>ctrl_ok := False, thread := False, attach_msgs := 0, detach_msgs := 0,
      child := (if child w = H_Open then H_Closed else child w)\<rparr>)"

inductive chan_reach :: "bool \<Rightarrow> bool \<Rightarrow> chan_world \<Rightarrow> bool" for safe server where
  ch_start: "chan_reach safe server (MallocChannel server)"
| ch_next: "chan_reach safe server w \<Longrightarrow> chan_step safe w w' \<Longrightarrow> chan_reach safe server w'"

text \<open>
  The steps that need nothing new: what is pending, with writes that succeed and sessions that are not
  found any more.
\<close>

inductive chan_drain :: "chan_world \<Rightarrow> chan_world \<Rightarrow> bool" where
  dr_callback: "may_run c w \<Longrightarrow> run_cb c False w = Some w' \<Longrightarrow> chan_drain w w'"
| dr_written: "0 < (if main then wwrites w else cwrites w) \<Longrightarrow> WriteCallback main False w = Some w' \<Longrightarrow> chan_drain w w'"
| dr_detach: "0 < detach_msgs w \<Longrightarrow> thread w \<Longrightarrow> DeatchChannel w = Some w' \<Longrightarrow> chan_drain w w'"

end
