(* ===== verification/Hdc_ChannelLife.thy ===== *)
theory Hdc_ChannelLife
  imports Hdc_ChannelFree
begin

text \<open>
  What the release of a channel of the server guarantees: an invariant that relates the references, the
  callbacks that are outstanding and the handles; no callback meets a deleted channel; a channel of a
  session that lives can be deleted from every state; one whose session has ended never is. The last
  section has runs in which code outside the release uses a channel that is gone.
\<close>

section \<open>The invariant of a channel of the server\<close>

abbreviation cnt :: "chan_cb \<Rightarrow> chan_world \<Rightarrow> nat" where
  "cnt c w \<equiv> pend w c"

text \<open>The release: one link of the chain, the handle that is counted, and what is over once the handles are closed.\<close>

definition release_ok :: "chan_life \<Rightarrow> chan_world \<Rightarrow> bool" where
  "release_ok h w \<longleftrightarrow> cnt T_Opeate w + cnt T_Check w + cnt I_Final w = (if cl_dead h then 1 else 0)
     \<and> cl_uv h = (if cnt I_Final w = 0 \<or> cnt C_Work w \<noteq> 0 then 1 else 0)
     \<and> cnt C_Work w \<le> 1 \<and> (cnt I_Final w = 0 \<longrightarrow> cnt C_Work w = 0)
     \<and> (cnt I_Final w \<noteq> 0 \<longrightarrow> work w \<noteq> H_Open \<and> wwrites w = 0 \<and> cwrites w = 0 \<and> cnt C_Bind w = 0
          \<and> child w \<noteq> H_Open \<and> child w \<noteq> H_Closing \<and> cnt C_Child w = 0 \<and> detach_msgs w = 0)
     \<and> stdin w = H_None \<and> stdout w = H_None \<and> cnt C_Stdin w = 0 \<and> cnt C_Stdout w = 0"

text \<open>The use of the channel: what is counted as a reference, the binding to a session, the child.\<close>

definition use_ok :: "chan_life \<Rightarrow> chan_world \<Rightarrow> bool" where
  "use_ok h w \<longleftrightarrow> cl_server h \<and> listed w \<and> cl_ref h = wwrites w + cwrites w + cnt C_Bind w \<and> work w \<noteq> H_None
     \<and> (work w = H_Closing \<longleftrightarrow> cnt C_Bind w + cnt C_Work w \<noteq> 0) \<and> cnt C_Bind w \<le> 1
     \<and> cnt I_Attach w + attach_msgs w + (if child w = H_None then 0 else 1) \<le> 1
     \<and> (work w = H_Open \<longrightarrow> cnt I_Attach w = 0 \<and> attach_msgs w = 0 \<and> child w = H_None)
     \<and> (child w = H_None \<longrightarrow> cwrites w = 0)
     \<and> (cnt T_Check w \<noteq> 0 \<longrightarrow> wwrites w = 0 \<and> cnt C_Bind w = 0 \<and> child w \<noteq> H_None)
     \<and> (child w = H_Closing \<longrightarrow> cnt C_Child w \<noteq> 0)
     \<and> detach_msgs w + cnt C_Child w \<le> 1
     \<and> (detach_msgs w + cnt C_Child w \<noteq> 0 \<longrightarrow> cnt T_Check w \<noteq> 0 \<and> \<not> cl_cleared h)
     \<and> (cnt C_Child w \<noteq> 0 \<longrightarrow> child w = H_Closing \<or> child w = H_Closed)
     \<and> (cl_cleared h \<longrightarrow> child w = H_Closed \<and> cwrites w = 0 \<and> cl_dead h \<and> cnt T_Opeate w = 0)
     \<and> cnt T_Wait w \<le> 1 \<and> (cnt T_Wait w \<noteq> 0 \<longrightarrow> \<not> cl_dead h)"

definition gone_ok :: "chan_world \<Rightarrow> bool" where
  "gone_ok w \<longleftrightarrow> \<not> listed w \<and> (\<forall>c. cnt c w = 0) \<and> wwrites w = 0 \<and> cwrites w = 0
     \<and> (\<forall>s \<in> {work w, child w, stdin w, stdout w}. s \<noteq> H_Open \<and> s \<noteq> H_Closing)"

definition chan_ok :: "chan_world \<Rightarrow> bool" where
  "chan_ok w \<longleftrightarrow> (case chan w of None \<Rightarrow> gone_ok w | Some h \<Rightarrow> release_ok h w \<and> use_ok h w)"

named_theorems chan_ops

lemmas [chan_ops] = pend_add_def pend_del_def upd_chan_def is_closing_def

lemma chan_okI: "chan w = Some h \<Longrightarrow> release_ok h w \<Longrightarrow> use_ok h w \<Longrightarrow> chan_ok w"
  by (simp add: chan_ok_def)

lemma chan_okE:
  assumes "chan_ok w"
  obtains (gone) "chan w = None" "gone_ok w" | (alive) h where "chan w = Some h" "release_ok h w" "use_ok h w"
  using assms by (auto simp: chan_ok_def split: option.splits)

lemma chan_ok_start: "chan_ok (MallocChannel True)"
  by (simp add: chan_ok_def MallocChannel_def release_ok_def use_ok_def)

lemma Free_ok:
  assumes "chan_ok w" and "cnt T_Wait w = 0" and "FreeChannel w = Some w'"
  shows "chan_ok w'"
  using assms(1)
proof (cases rule: chan_okE)
  case gone
  then show ?thesis using assms by (simp add: FreeChannel_def gone_ok_def)
next
  case (alive h)
  show ?thesis
  proof (cases "cl_dead h \<or> \<not> listed w")
    case True
    then show ?thesis using assms alive by (auto simp: FreeChannel_def split: if_splits)
  next
    case False
    let ?h = "h\<lparr>cl_dead := True\<rparr>"
    have w': "w' = pend_add T_Opeate (upd_chan (\<lambda>h. h\<lparr>cl_dead := True\<rparr>) w)" using assms alive False by (simp add: FreeChannel_def)
    show ?thesis
    proof (rule chan_okI [of w' ?h])
      show "chan w' = Some ?h" using alive by (simp add: w' chan_ops)
      show "release_ok ?h w'" using alive(2) False unfolding release_ok_def w' by (simp add: chan_ops)
      show "use_ok ?h w'" using alive(3) assms(2) False unfolding use_ok_def w' by (auto simp: chan_ops)
    qed
  qed
qed

text \<open>Going on with the release, once nothing uses the channel any more.\<close>

lemma Continue_ok:
  assumes "chan w = Some h" and "use_ok h w" and "release_ok h (pend_add T_Opeate w)" and "cl_dead h" and "cl_ref h = 0"
    and "cnt T_Check w = 0" and "child w = H_None \<or> child w = H_Closed" and "cnt C_Child w = 0" and "detach_msgs w = 0"
    and "FreeChannelContinue w = Some w'"
  shows "chan_ok w'"
proof -
  have r: "cnt I_Final w = 0" "cnt T_Opeate w = 0" "cnt C_Work w = 0" "cl_uv h = 1" "stdin w = H_None" "stdout w = H_None"
    "cnt C_Stdin w = 0" "cnt C_Stdout w = 0"
    using assms(3,4) by (simp_all add: release_ok_def chan_ops)
  have u: "cl_server h" "wwrites w = 0" "cwrites w = 0" "cnt C_Bind w = 0" "work w \<noteq> H_None" "work w \<noteq> H_Closing"
    using assms(2,5) r(3) by (simp_all add: use_ok_def)
  show ?thesis
  proof (cases "work w")
    case H_Open
    then have w': "w' = pend_add I_Final (pend_add C_Work (w\<lparr>work := H_Closing\<rparr>))"
      using assms(1,10) u(1) by (simp add: FreeChannelContinue_def is_closing_def)
    show ?thesis
    proof (rule chan_okI [of w' h])
      show "release_ok h w'" unfolding release_ok_def w' using r u assms(4,6-9) by (auto simp: chan_ops)
      show "use_ok h w'" using assms(2) H_Open u(4) r(3) unfolding use_ok_def w' by (auto simp: chan_ops)
    qed (simp add: w' chan_ops assms(1))
  next
    case H_Closed
    then have w': "w' = pend_add I_Final (upd_chan (\<lambda>h. h\<lparr>cl_uv := cl_uv h - 1\<rparr>) w)"
      using assms(1,10) u(1) by (simp add: FreeChannelContinue_def is_closing_def)
    let ?h = "h\<lparr>cl_uv := cl_uv h - 1\<rparr>"
    show ?thesis
    proof (rule chan_okI [of w' ?h])
      show "release_ok ?h w'" unfolding release_ok_def w' using r u H_Closed assms(4,6-9) by (auto simp: chan_ops)
      show "use_ok ?h w'" using assms(2) unfolding use_ok_def w' by (simp add: chan_ops)
    qed (simp add: w' chan_ops assms(1))
  qed (use u in simp_all)
qed

lemma Continue_del: "FreeChannelContinue (pend_del T_Opeate w) = map_option (pend_del T_Opeate) (FreeChannelContinue w)"
  by (cases "chan w") (auto simp: FreeChannelContinue_def close_std_def chan_ops fun_upd_twist Let_def)

lemma Opeate_ok:
  assumes "chan_ok w" and "cnt T_Opeate w \<noteq> 0" and "FreeChannelOpeate w = Some w'"
  shows "chan_ok w'"
  using assms(1)
proof (cases rule: chan_okE)
  case gone
  then show ?thesis using assms(2) by (simp add: gone_ok_def)
next
  case (alive h)
  have d: "cl_dead h" "cnt T_Opeate w = 1" "cnt T_Check w = 0" "cnt I_Final w = 0" "cnt C_Work w = 0"
    using alive(2) assms(2) by (auto simp: release_ok_def split: if_splits)
  have u: "cnt C_Child w = 0" "detach_msgs w = 0" "child w \<noteq> H_Closing" using alive(3) d(3) by (auto simp: use_ok_def)
  consider "0 < cl_ref h" "w' = w" | "cl_ref h = 0" "child w \<noteq> H_None"
      "w' = pend_del T_Opeate (pend_add T_Check (if ctrl_ok w then w\<lparr>detach_msgs := Suc (detach_msgs w)\<rparr> else w))"
    | w1 where "cl_ref h = 0" "child w = H_None" "FreeChannelContinue w = Some w1" "w' = pend_del T_Opeate w1"
    using assms(3) alive(1) by (auto simp: FreeChannelOpeate_def split: if_splits)
  then show ?thesis
  proof cases
    case 1
    then show ?thesis using assms(1) by simp
  next
    case 2
    show ?thesis
    proof (rule chan_okI [of w' h])
      show "chan w' = Some h" using alive(1) by (simp add: 2 chan_ops)
      show "release_ok h w'" using alive(2) d unfolding release_ok_def 2 by (auto simp: chan_ops)
      show "use_ok h w'" using alive(3) 2(1,2) d u assms(2) unfolding use_ok_def 2(3) by (auto simp: chan_ops)
    qed
  next
    case 3
    let ?w = "pend_del T_Opeate w"
    have "FreeChannelContinue ?w = Some w'" using 3(3,4) by (auto simp: Continue_del)
    moreover have "use_ok h ?w" using alive(3) unfolding use_ok_def by (auto simp: chan_ops)
    moreover have "release_ok h (pend_add T_Opeate ?w)" using alive(2) d(2) unfolding release_ok_def by (simp add: chan_ops)
    ultimately show ?thesis
      using Continue_ok [of ?w h w'] alive(1) 3(1,2) d(1,3) u by (simp add: chan_ops)
  qed
qed

lemma Check_ok:
  assumes "chan_ok w" and "cnt T_Check w \<noteq> 0" and "callbackCheckFreeChannelContinue w = Some w'"
  shows "chan_ok w'"
  using assms(1)
proof (cases rule: chan_okE)
  case gone
  then show ?thesis using assms(2) by (simp add: gone_ok_def)
next
  case (alive h)
  show ?thesis
  proof (cases "cl_cleared h")
    case False
    then show ?thesis using assms alive(1) by (simp add: callbackCheckFreeChannelContinue_def)
  next
    case True
    have d: "cl_dead h" "cnt T_Check w = 1" "cnt T_Opeate w = 0" "cnt I_Final w = 0" "cnt C_Work w = 0"
      using alive(2) assms(2) by (auto simp: release_ok_def split: if_splits)
    have u: "cnt C_Child w = 0" "detach_msgs w = 0" "child w = H_Closed" "cl_ref h = 0"
      using alive(3) True assms(2) by (auto simp: use_ok_def)
    let ?w = "pend_del T_Check w"
    have "FreeChannelContinue ?w = Some w'" using assms(3) alive(1) True by (simp add: callbackCheckFreeChannelContinue_def)
    moreover have "use_ok h ?w" using alive(3) u unfolding use_ok_def by (auto simp: chan_ops)
    moreover have "release_ok h (pend_add T_Opeate ?w)" using alive(2) d unfolding release_ok_def by (simp add: chan_ops)
    ultimately show ?thesis
      using Continue_ok [of ?w h w'] alive(1) d u by (simp add: chan_ops)
  qed
qed

lemma Final_ok:
  assumes "chan_ok w" and "cnt I_Final w \<noteq> 0" and "cnt I_Attach w = 0" and "FreeChannelFinally w = Some w'"
  shows "chan_ok w'"
  using assms(1)
proof (cases rule: chan_okE)
  case gone
  then show ?thesis using assms(2) by (simp add: gone_ok_def)
next
  case (alive h)
  show ?thesis
  proof (cases "0 < cl_uv h")
    case True
    then show ?thesis using assms alive(1) by (simp add: FreeChannelFinally_def)
  next
    case False
    then have w': "w' = pend_del I_Final (w\<lparr>chan := None, listed := False\<rparr>)" using assms(4) alive(1) by (simp add: FreeChannelFinally_def)
    have z: "cnt C_Work w = 0" using alive(2) False by (auto simp: release_ok_def split: if_splits)
    have r: "cl_dead h" "cnt T_Opeate w = 0" "cnt T_Check w = 0" "cnt I_Final w = 1" "cnt C_Bind w = 0" "cnt C_Child w = 0"
      "cnt C_Stdin w = 0" "cnt C_Stdout w = 0" "stdin w = H_None" "stdout w = H_None" "wwrites w = 0" "cwrites w = 0"
      "work w \<noteq> H_Open" "child w \<noteq> H_Open" "child w \<noteq> H_Closing"
      using alive(2) assms(2) by (auto simp: release_ok_def split: if_splits)
    have u: "cnt T_Wait w = 0" "work w \<noteq> H_Closing" using alive(3) r(1,5) z by (auto simp: use_ok_def)
    have "cnt c w' = 0" for c using z r u(1) assms(3) by (cases c) (simp_all add: w' chan_ops)
    then have "gone_ok w'" using r u(2) by (auto simp: gone_ok_def w' chan_ops)
    moreover have "chan w' = None" by (simp add: w' chan_ops)
    ultimately show ?thesis by (simp add: chan_ok_def)
  qed
qed

lemma run_cb_ok:
  assumes "chan_ok w" and "may_run c w" and "run_cb c b w = Some w'" and "safe"
  shows "chan_ok w'"
  using assms(1)
proof (cases rule: chan_okE)
  case gone
  then show ?thesis using assms(2) by (simp add: gone_ok_def may_run_def)
next
  case (alive h)
  note m = assms(2) [unfolded may_run_def]
  have d: "\<not> cl_dead h \<Longrightarrow> cnt I_Final w = 0 \<and> cnt T_Check w = 0 \<and> cnt T_Opeate w = 0" using alive(2) by (simp add: release_ok_def)
  show ?thesis
  proof (cases c)
    case T_Opeate
    then show ?thesis using Opeate_ok [OF assms(1)] m assms(3) by simp
  next
    case T_Check
    then show ?thesis using Check_ok [OF assms(1)] m assms(3) by simp
  next
    case I_Final
    then show ?thesis using Final_ok [OF assms(1)] m assms(3) by simp
  next
    case T_Wait
    show ?thesis
    proof (cases b)
      case False
      then show ?thesis using T_Wait assms(1,3) alive(1) by (simp add: wait_timer_def)
    next
      case True
      have t: "cnt T_Wait w = 1" "\<not> cl_dead h" "listed w" using alive(3) m T_Wait by (auto simp: use_ok_def)
      let ?h = "h\<lparr>cl_dead := True\<rparr>"
      have w': "w' = pend_del T_Wait (pend_add T_Opeate (upd_chan (\<lambda>h. h\<lparr>cl_dead := True\<rparr>) w))"
        using assms(3) True T_Wait t alive(1) by (simp add: wait_timer_def FreeChannel_def)
      show ?thesis
      proof (rule chan_okI [of w' ?h])
        show "chan w' = Some ?h" using alive(1) by (simp add: w' chan_ops)
        show "release_ok ?h w'" using alive(2) t unfolding release_ok_def w' by (simp add: chan_ops)
        show "use_ok ?h w'" using alive(3) t unfolding use_ok_def w' by (auto simp: chan_ops)
      qed
    qed
  next
    case I_Attach
    then obtain n where w': "w' = (pend_del I_Attach w)\<lparr>attach_msgs := n\<rparr>" "n \<le> Suc (attach_msgs w)"
      using assms(3) alive(1) that
      by (cases b) (auto simp: attach_idle_def Let_def chan_ops intro: that [of "Suc (attach_msgs w)"] that [of "attach_msgs w"])
    show ?thesis
    proof (rule chan_okI [of w' h])
      show "chan w' = Some h" using alive(1) by (simp add: w' chan_ops)
      show "release_ok h w'" using alive(2) unfolding release_ok_def w' by (simp add: chan_ops)
      show "use_ok h w'" using alive(3) m I_Attach w'(2) unfolding use_ok_def w'(1) by (auto simp: chan_ops split: if_splits)
    qed
  next
    case C_Work
    let ?h = "h\<lparr>cl_uv := cl_uv h - 1\<rparr>"
    have w': "w' = (pend_del C_Work (upd_chan (\<lambda>h. h\<lparr>cl_uv := cl_uv h - 1\<rparr>) w))\<lparr>work := H_Closed\<rparr>"
      using assms(3) C_Work alive(1) by (simp add: closeChannelHandle_def)
    have n: "cnt C_Work w = 1" "cnt I_Final w \<noteq> 0" "cl_uv h = 1" using alive(2) m C_Work by (auto simp: release_ok_def)
    then have z: "cnt C_Bind w = 0" using alive(2) by (simp add: release_ok_def)
    show ?thesis
    proof (rule chan_okI [of w' ?h])
      show "chan w' = Some ?h" using alive(1) by (simp add: w' chan_ops)
      show "release_ok ?h w'" using alive(2) n unfolding release_ok_def w' by (auto simp: chan_ops)
      show "use_ok ?h w'" using alive(3) n z unfolding use_ok_def w' by (auto simp: chan_ops)
    qed
  next
    case C_Bind
    let ?h = "h\<lparr>cl_ref := cl_ref h - 1\<rparr>"
    have w': "w' = (pend_del C_Bind (upd_chan (\<lambda>h. h\<lparr>cl_ref := cl_ref h - 1\<rparr>) w))\<lparr>work := H_Closed\<rparr>"
      using assms(3) C_Bind alive(1) by (simp add: funcWorkTcpClose_def)
    have n: "cnt C_Bind w = 1" using alive(3) m C_Bind by (auto simp: use_ok_def)
    then have i: "cnt I_Final w = 0" "cnt C_Work w = 0" using alive(2) by (auto simp: release_ok_def)
    show ?thesis
    proof (rule chan_okI [of w' ?h])
      show "chan w' = Some ?h" using alive(1) by (simp add: w' chan_ops)
      show "release_ok ?h w'" using alive(2) i unfolding release_ok_def w' by (auto simp: chan_ops)
      show "use_ok ?h w'" using alive(3) n i unfolding use_ok_def w' by (auto simp: chan_ops)
    qed
  next
    case C_Stdin
    then show ?thesis using alive(2) m by (simp add: release_ok_def)
  next
    case C_Stdout
    then show ?thesis using alive(2) m by (simp add: release_ok_def)
  next
    case C_Child
    let ?h = "h\<lparr>cl_cleared := True\<rparr>"
    have w': "w' = (pend_del C_Child (upd_chan (\<lambda>h. h\<lparr>cl_cleared := True\<rparr>) w))\<lparr>child := H_Closed\<rparr>"
      using assms(3) C_Child alive(1) by (simp add: child_cleared_def)
    have n: "cnt C_Child w = 1" "detach_msgs w = 0" "cnt T_Check w \<noteq> 0" "cwrites w = 0" using alive(3) m C_Child by (auto simp: use_ok_def)
    then have i: "cl_dead h" "cnt T_Opeate w = 0" "cnt I_Final w = 0" using alive(2) by (auto simp: release_ok_def split: if_splits)
    show ?thesis
    proof (rule chan_okI [of w' ?h])
      show "chan w' = Some ?h" using alive(1) by (simp add: w' chan_ops)
      show "release_ok ?h w'" using alive(2) i unfolding release_ok_def w' by (auto simp: chan_ops)
      show "use_ok ?h w'" using alive(3) n i unfolding use_ok_def w' by (auto simp: chan_ops split: if_splits)
    qed
  qed
qed

lemma chan_ok_same:
  assumes "chan_ok w" and "chan w' = chan w" "listed w' = listed w" "pend w' = pend w" "work w' = work w" "child w' = child w"
    "stdin w' = stdin w" "stdout w' = stdout w" "wwrites w' = wwrites w" "cwrites w' = cwrites w" "attach_msgs w' = attach_msgs w"
    "detach_msgs w' = detach_msgs w"
  shows "chan_ok w'"
  using assms(1) by (cases rule: chan_okE) (simp_all add: chan_ok_def gone_ok_def release_ok_def use_ok_def assms)

lemma Send_ok:
  assumes "chan_ok w" and "chan w \<noteq> None" and "SendChannel main True w = Some w'"
  shows "chan_ok w'"
  using assms(1)
proof (cases rule: chan_okE)
  case (alive h)
  show ?thesis
  proof (cases "(if main then work w else child w) = H_Open")
    case False
    then show ?thesis using assms alive(1) by (simp add: SendChannel_def)
  next
    case True
    let ?h = "h\<lparr>cl_ref := Suc (cl_ref h)\<rparr>"
    let ?w = "upd_chan (\<lambda>h. h\<lparr>cl_ref := Suc (cl_ref h)\<rparr>) w"
    have w': "w' = (if main then ?w\<lparr>wwrites := Suc (wwrites w)\<rparr> else ?w\<lparr>cwrites := Suc (cwrites w)\<rparr>)"
      using assms(3) True alive(1) by (cases main) (auto simp: SendChannel_def Let_def chan_ops)
    have c: "cnt I_Final w = 0" "child w \<noteq> H_Open \<or> \<not> cl_cleared h" "main \<longrightarrow> child w = H_None"
      using True alive(2,3) by (auto simp: release_ok_def use_ok_def split: if_splits)
    show ?thesis
    proof (rule chan_okI [of w' ?h])
      show "chan w' = Some ?h" using alive(1) by (simp add: w' chan_ops)
      show "release_ok ?h w'" using alive(2) c(1) unfolding release_ok_def w' by (auto simp: chan_ops)
      show "use_ok ?h w'" using alive(3) True c unfolding use_ok_def w' by (cases main) (auto simp: chan_ops)
    qed
  qed
qed (use assms(2) in simp)

lemma use_ok_written:
  "use_ok h w \<Longrightarrow> 0 < wwrites w \<Longrightarrow> use_ok (h\<lparr>cl_ref := cl_ref h - 1\<rparr>) (w\<lparr>wwrites := wwrites w - 1, chan := c\<rparr>)"
  unfolding use_ok_def by auto

lemma use_ok_cwritten:
  "use_ok h w \<Longrightarrow> 0 < cwrites w \<Longrightarrow> use_ok (h\<lparr>cl_ref := cl_ref h - 1\<rparr>) (w\<lparr>cwrites := cwrites w - 1, chan := c\<rparr>)"
  unfolding use_ok_def by auto

lemma use_ok_close:
  "use_ok h w \<Longrightarrow> work w = H_Open \<Longrightarrow> use_ok h (w\<lparr>work := H_Closed\<rparr>)"
  "use_ok h w \<Longrightarrow> child w = H_Open \<Longrightarrow> use_ok h (w\<lparr>child := H_Closed\<rparr>)"
  unfolding use_ok_def by auto

lemma use_ok_failed:
  "use_ok h w \<Longrightarrow> use_ok h (if \<not> failed then w else if main then (if work w = H_Open then w\<lparr>work := H_Closed\<rparr> else w)
     else (if child w = H_Open then w\<lparr>child := H_Closed\<rparr> else w))"
  by (simp add: use_ok_close)

lemma chan_written_ok:
  assumes "chan_ok w" and "0 < (if main then wwrites w else cwrites w)" and "cnt T_Wait w = 0 \<or> \<not> failed"
    and "WriteCallback main failed w = Some w'"
  shows "chan_ok w'"
  using assms(1)
proof (cases rule: chan_okE)
  case gone
  then show ?thesis using assms(2) by (simp add: gone_ok_def split: if_splits)
next
  case (alive h)
  let ?h = "h\<lparr>cl_ref := cl_ref h - 1\<rparr>"
  let ?w1 = "upd_chan (\<lambda>h. h\<lparr>cl_ref := cl_ref h - 1\<rparr>) (if main then w\<lparr>wwrites := wwrites w - 1\<rparr> else w\<lparr>cwrites := cwrites w - 1\<rparr>)"
  let ?w2 = "if \<not> failed then ?w1 else if main then (if work ?w1 = H_Open then ?w1\<lparr>work := H_Closed\<rparr> else ?w1)
               else (if child ?w1 = H_Open then ?w1\<lparr>child := H_Closed\<rparr> else ?w1)"
  have f: "cnt I_Final w = 0" using alive(2) assms(2) by (auto simp: release_ok_def split: if_splits)
  have n: "cl_cleared h \<Longrightarrow> main" using alive(3) assms(2) by (auto simp: use_ok_def split: if_splits)
  have c: "chan ?w2 = Some ?h" using alive(1) by (simp add: chan_ops)
  have ok: "chan_ok ?w2"
  proof (rule chan_okI [OF c])
    show "release_ok ?h ?w2" using alive(2) f unfolding release_ok_def by (auto simp: chan_ops)
    have "use_ok ?h ?w1"
      using use_ok_written [OF alive(3)] use_ok_cwritten [OF alive(3)] assms(2) n alive(1) by (cases main) (simp_all add: upd_chan_def)
    then show "use_ok ?h ?w2" by (rule use_ok_failed)
  qed
  have "w' = ?w2 \<or> w' = FreeChannel_other_thread ?w2 \<or> cnt T_Wait w = 0 \<and> FreeChannel ?w2 = Some w'"
    using assms(3,4) alive(1) unfolding WriteCallback_def Let_def by (simp split: if_split_asm)
  moreover have "chan_ok (FreeChannel_other_thread ?w2)"
    by (rule chan_ok_same [OF ok]) (simp_all add: FreeChannel_other_thread_def)
  moreover have "cnt T_Wait ?w2 = cnt T_Wait w" by (simp add: chan_ops)
  ultimately show ?thesis using ok Free_ok [OF ok] by auto
qed

lemma read_ok:
  assumes "chan_ok w" and "(if main then work w else child w) = H_Open" and "cnt T_Wait w = 0" and "read_end main eof w = Some w'"
  shows "chan_ok w'"
  using assms(1)
proof (cases rule: chan_okE)
  case gone
  then show ?thesis using assms(2) by (auto simp: gone_ok_def split: if_splits)
next
  case (alive h)
  let ?w = "if \<not> eof then w else if main then w\<lparr>work := H_Closed\<rparr> else w\<lparr>child := H_Closed\<rparr>"
  have z: "main \<Longrightarrow> cnt C_Bind w = 0 \<and> cnt C_Work w = 0 \<and> cnt I_Final w = 0"
    using assms(2) alive(2,3) by (auto simp: use_ok_def release_ok_def split: if_splits)
  have c: "chan ?w = Some h" using alive(1) by simp
  have ok: "chan_ok ?w"
  proof (rule chan_okI [OF c])
    show "release_ok h ?w" using alive(2) z unfolding release_ok_def by auto
    show "use_ok h ?w" using alive(3) assms(2) z unfolding use_ok_def by (cases main; cases eof) auto
  qed
  have "(if main then FreeChannel ?w = Some w' else w' = FreeChannel_other_thread ?w)"
    using assms(4) alive(1) by (cases main; cases eof) (simp_all add: read_end_def)
  moreover have "chan_ok (FreeChannel_other_thread ?w)"
    by (rule chan_ok_same [OF ok]) (simp_all add: FreeChannel_other_thread_def)
  moreover have "cnt T_Wait ?w = 0" using assms(3) by simp
  ultimately show ?thesis using Free_ok [OF ok] by (cases main) auto
qed

lemma Bind_ok:
  assumes "chan_ok w" and "work w = H_Open" and "BindChannel w = Some w'"
  shows "chan_ok w'"
  using assms(1)
proof (cases rule: chan_okE)
  case gone
  then show ?thesis using assms(2) by (simp add: gone_ok_def)
next
  case (alive h)
  let ?h = "h\<lparr>cl_ref := Suc (cl_ref h)\<rparr>"
  have w': "w' = pend_add I_Attach (pend_add C_Bind (upd_chan (\<lambda>h. h\<lparr>cl_ref := Suc (cl_ref h)\<rparr>) w\<lparr>work := H_Closing\<rparr>))"
    using assms(3) alive(1) by (auto simp: BindChannel_def chan_ops)
  have z: "cnt C_Bind w = 0" "cnt C_Work w = 0" "cnt I_Final w = 0" "cnt T_Check w = 0" "cnt I_Attach w = 0" "attach_msgs w = 0" "child w = H_None"
    using assms(2) alive(2,3) by (auto simp: use_ok_def release_ok_def split: if_splits)
  show ?thesis
  proof (rule chan_okI [of w' ?h])
    show "chan w' = Some ?h" using alive(1) by (simp add: w' chan_ops)
    show "release_ok ?h w'" using alive(2) z unfolding release_ok_def w' by (simp add: chan_ops)
    show "use_ok ?h w'" using alive(3) z unfolding use_ok_def w' by (auto simp: chan_ops)
  qed
qed

lemma Attach_ok:
  assumes "chan_ok w" and "0 < attach_msgs w" and "cnt I_Final w = 0" and "AttachChannel ok w = Some w'"
  shows "chan_ok w'"
  using assms(1)
proof (cases rule: chan_okE)
  case gone
  then have w': "w' = w\<lparr>attach_msgs := attach_msgs w - 1\<rparr>" using assms(4) by (simp add: AttachChannel_def gone_ok_def)
  then show ?thesis using gone by (simp add: chan_ok_def gone_ok_def)
next
  case (alive h)
  have l: "listed w" using alive(3) by (simp add: use_ok_def)
  then have w': "w' = w\<lparr>attach_msgs := attach_msgs w - 1, child := (if ok then H_Open else H_Closed)\<rparr>"
    using assms(4) alive(1) by (simp add: AttachChannel_def Let_def)
  have z: "child w = H_None" "attach_msgs w = 1" "cnt I_Attach w = 0" "cnt T_Check w = 0" "work w \<noteq> H_Open" "\<not> cl_cleared h" "cwrites w = 0"
    using assms(2) alive(3) by (auto simp: use_ok_def split: if_splits)
  show ?thesis
  proof (rule chan_okI [of w' h])
    show "chan w' = Some h" using alive(1) by (simp add: w')
    show "release_ok h w'" using alive(2) assms(3) unfolding release_ok_def w' by simp
    show "use_ok h w'" using alive(3) z unfolding use_ok_def w' by auto
  qed
qed

lemma Deatch_ok:
  assumes "chan_ok w" and "0 < detach_msgs w" and "DeatchChannel w = Some w'"
  shows "chan_ok w'"
  using assms(1)
proof (cases rule: chan_okE)
  case gone
  then have w': "w' = w\<lparr>detach_msgs := detach_msgs w - 1\<rparr>" using assms(3) by (simp add: DeatchChannel_def gone_ok_def)
  then show ?thesis using gone by (simp add: chan_ok_def gone_ok_def)
next
  case (alive h)
  have z: "listed w" "cnt T_Check w \<noteq> 0" "\<not> cl_cleared h" "cnt C_Child w = 0" "detach_msgs w = 1" "child w \<noteq> H_None" "child w \<noteq> H_Closing"
    using alive(3) assms(2) by (auto simp: use_ok_def)
  then have i: "cnt I_Final w = 0" using alive(2) by (auto simp: release_ok_def split: if_splits)
  have w': "w' = pend_add C_Child (w\<lparr>detach_msgs := 0, child := (if is_closing (child w) then child w else H_Closing)\<rparr>)"
    using assms(3) alive(1) z by (cases "is_closing (child w)") (simp_all add: DeatchChannel_def Let_def)
  show ?thesis
  proof (rule chan_okI [of w' h])
    show "chan w' = Some h" using alive(1) by (simp add: w' chan_ops)
    show "release_ok h w'" using alive(2) i unfolding release_ok_def w' by (simp add: chan_ops)
    show "use_ok h w'" using alive(3) z unfolding use_ok_def w' by (cases "child w") (auto simp: chan_ops)
  qed
qed

lemma wait_ok:
  assumes "chan_ok w" and "chan w = Some h" "\<not> cl_dead h" "cnt T_Wait w = 0"
  shows "chan_ok (pend_add T_Wait w)"
proof -
  have "release_ok h w" "use_ok h w" using assms(1,2) by (auto simp: chan_ok_def)
  then have "release_ok h (pend_add T_Wait w)" "use_ok h (pend_add T_Wait w)"
    using assms(3,4) unfolding release_ok_def use_ok_def by (auto simp: chan_ops)
  then show ?thesis using assms(2) by (auto simp: chan_ok_def chan_ops)
qed

lemma thread_end_ok:
  assumes "chan_ok w" and "cwrites w = 0" "cnt C_Child w = 0"
  shows "chan_ok (w\<lparr>ctrl_ok := False, thread := False, attach_msgs := 0, detach_msgs := 0,
    child := (if child w = H_Open then H_Closed else child w)\<rparr>)"
  using assms(1)
proof (cases rule: chan_okE)
  case gone
  then show ?thesis by (simp add: chan_ok_def gone_ok_def)
next
  case (alive h)
  let ?w = "w\<lparr>ctrl_ok := False, thread := False, attach_msgs := 0, detach_msgs := 0,
    child := (if child w = H_Open then H_Closed else child w)\<rparr>"
  show ?thesis
  proof (rule chan_okI [of ?w h])
    show "release_ok h ?w" using alive(2) unfolding release_ok_def by auto
    show "use_ok h ?w" using alive(3) assms(2,3) unfolding use_ok_def by auto
  qed (simp add: alive)
qed

lemma server_channel:
  assumes "chan_ok w" "chan w = Some h"
  shows "cl_server h"
  using assms by (simp add: chan_ok_def use_ok_def)

lemma chan_step_ok:
  assumes "chan_step True w w'" and "chan_ok w"
  shows "chan_ok w'"
  using assms
proof (cases rule: chan_step.cases)
  case (ch_callback c b)
  then show ?thesis using run_cb_ok [OF assms(2), of c b w' True] by simp
next
  case ch_free
  then show ?thesis using Free_ok [OF assms(2)] by simp
next
  case ch_push
  show ?thesis unfolding ch_push by (rule chan_ok_same [OF assms(2)]) (simp_all add: FreeChannel_other_thread_def)
next
  case ch_async
  have "chan_ok (w\<lparr>free_msgs := free_msgs w - 1\<rparr>)" by (rule chan_ok_same [OF assms(2)]) simp_all
  then show ?thesis using Free_ok ch_async by simp
next
  case (ch_send taken main)
  then show ?thesis using Send_ok [OF assms(2)] by simp
next
  case (ch_written main failed)
  then show ?thesis using chan_written_ok [OF assms(2)] by auto
next
  case (ch_read main eof)
  then show ?thesis using read_ok [OF assms(2)] by simp
next
  case ch_bind
  then show ?thesis using Bind_ok [OF assms(2)] by simp
next
  case (ch_wait h)
  then show ?thesis using wait_ok [OF assms(2)] by simp
next
  case ch_attach
  then show ?thesis using Attach_ok [OF assms(2)] by simp
next
  case ch_detach
  then show ?thesis using Deatch_ok [OF assms(2)] by simp
next
  case ch_std
  then show ?thesis using server_channel [OF assms(2)] by simp
next
  case ch_session_dead
  show ?thesis unfolding ch_session_dead by (rule chan_ok_same [OF assms(2)]) simp_all
next
  case ch_thread_end
  then show ?thesis using thread_end_ok [OF assms(2)] by simp
qed

lemma chan_reach_ok: "chan_reach True True w \<Longrightarrow> chan_ok w"
  by (induction rule: chan_reach.induct) (simp_all add: chan_ok_start chan_step_ok)

lemma chan_reach_trans: "(chan_step s)\<^sup>*\<^sup>* w w' \<Longrightarrow> chan_reach s v w \<Longrightarrow> chan_reach s v w'"
  by (induction rule: rtranclp_induct) (auto intro: ch_next)

section \<open>No use after the deletion\<close>

lemma gone_silent: "gone_ok w \<Longrightarrow> \<not> may_run c w"
  by (simp add: gone_ok_def may_run_def)

lemma Continue_some: "chan w \<noteq> None \<Longrightarrow> FreeChannelContinue w \<noteq> None"
  by (auto simp: FreeChannelContinue_def Let_def)

lemma Free_some: "chan w \<noteq> None \<or> \<not> listed w \<Longrightarrow> FreeChannel w \<noteq> None"
  by (auto simp: FreeChannel_def)

lemma run_cb_some:
  assumes "chan w \<noteq> None" and "c \<notin> {C_Stdin, C_Stdout}"
  shows "run_cb c b w \<noteq> None"
proof -
  obtain h where "chan w = Some h" using assms(1) by auto
  moreover have "chan (pend_del T_Check w) \<noteq> None" using assms(1) by (simp add: chan_ops)
  ultimately show ?thesis
    using assms(2) Continue_some [of w] Continue_some [of "pend_del T_Check w"] Free_some [of w]
    by (cases c) (auto simp: FreeChannelOpeate_def callbackCheckFreeChannelContinue_def FreeChannelFinally_def closeChannelHandle_def
      funcWorkTcpClose_def child_cleared_def attach_idle_def wait_timer_def Let_def)
qed

text \<open>
  C11. A channel of the server is not used after it is deleted in any run in which no thread of a
  session attaches a channel whose release has got past that thread, no channel is freed before or while
  the timer runs that waits for a device, and its stream accepts every write: whatever else is sent, read, bound,
  attached and freed, in whatever order the loops run, every callback that may run, every write that
  completes and every message finds its channel or finds it unlisted. Without these conditions it fails
  (\<open>late_uses_of_a_deleted_channel\<close>).
\<close>

theorem channel_never_used_after_delete:
  assumes "chan_reach True True w"
  shows "(\<forall>c b. may_run c w \<longrightarrow> run_cb c b w \<noteq> None)
    \<and> (\<forall>main failed. 0 < (if main then wwrites w else cwrites w) \<longrightarrow> WriteCallback main failed w \<noteq> None)
    \<and> (\<forall>main eof. (if main then work w else child w) = H_Open \<longrightarrow> read_end main eof w \<noteq> None)
    \<and> FreeChannel w \<noteq> None \<and> AttachChannel ok w \<noteq> None \<and> DeatchChannel w \<noteq> None"
  using chan_reach_ok [OF assms]
proof (cases rule: chan_okE)
  case gone
  have "\<forall>c b. may_run c w \<longrightarrow> run_cb c b w \<noteq> None" using gone_silent [OF gone(2)] by simp
  then show ?thesis using gone by (auto simp: gone_ok_def FreeChannel_def AttachChannel_def DeatchChannel_def Let_def)
next
  case (alive h)
  have "run_cb c b w \<noteq> None" if "may_run c w" for c b
  proof -
    have "cnt C_Stdin w = 0" "cnt C_Stdout w = 0" using alive(2) by (simp_all add: release_ok_def)
    then have "c \<notin> {C_Stdin, C_Stdout}" using that by (auto simp: may_run_def)
    then show ?thesis using run_cb_some [of w c b] alive(1) by simp
  qed
  moreover have "FreeChannel w1 \<noteq> None" if "chan w1 \<noteq> None" for w1 using Free_some [of w1] that by simp
  ultimately show ?thesis using alive(1)
    by (simp add: WriteCallback_def read_end_def AttachChannel_def DeatchChannel_def Let_def chan_ops)
qed

section \<open>A channel whose session has ended\<close>

definition stuck :: "chan_world \<Rightarrow> bool" where
  "stuck w \<longleftrightarrow> chan_ok w \<and> (case chan w of None \<Rightarrow> False | Some h \<Rightarrow> cl_dead h \<and> \<not> cl_cleared h)
     \<and> cnt T_Check w \<noteq> 0 \<and> detach_msgs w = 0 \<and> cnt C_Child w = 0"

lemma stuckE:
  assumes "stuck w"
  obtains h where "chan w = Some h" "cl_dead h" "\<not> cl_cleared h" "cl_server h" "listed w" "wwrites w = 0" "child w \<noteq> H_None" "work w \<noteq> H_Open"
    "attach_msgs w = 0" "detach_msgs w = 0" "cnt T_Check w \<noteq> 0" "\<And>c. c \<noteq> T_Check \<Longrightarrow> cnt c w = 0"
proof -
  obtain h where h: "chan w = Some h" "cl_dead h" "\<not> cl_cleared h" and ok: "release_ok h w" "use_ok h w"
    using assms by (auto simp: stuck_def chan_ok_def split: option.splits)
  have s: "cnt T_Check w \<noteq> 0" "detach_msgs w = 0" "cnt C_Child w = 0" using assms by (simp_all add: stuck_def)
  have r: "cnt T_Opeate w = 0" "cnt I_Final w = 0" "cnt C_Work w = 0" "cnt C_Stdin w = 0" "cnt C_Stdout w = 0"
    using ok(1) h(2) s(1) by (auto simp: release_ok_def)
  have u: "cl_server h" "listed w" "wwrites w = 0" "cnt C_Bind w = 0" "child w \<noteq> H_None" "cnt T_Wait w = 0"
    using ok(2) h(2) s(1) by (auto simp: use_ok_def)
  have v: "attach_msgs w = 0" "cnt I_Attach w = 0" "work w \<noteq> H_Open" using ok(2) u(5) by (auto simp: use_ok_def)
  have "cnt c w = 0" if "c \<noteq> T_Check" for c using that r u v s(3) by (cases c) simp_all
  then show ?thesis using that h s u v by blast
qed

lemma stuckI:
  "chan_ok w' \<Longrightarrow> chan w' = Some h' \<Longrightarrow> cl_dead h' \<Longrightarrow> \<not> cl_cleared h' \<Longrightarrow> pend w' = pend w \<Longrightarrow> detach_msgs w' = 0
    \<Longrightarrow> stuck w \<Longrightarrow> stuck w'"
  by (simp add: stuck_def)

lemma stuck_step:
  assumes "chan_step True w w'" and "stuck w"
  shows "stuck w'"
proof -
  have ok: "chan_ok w'" using chan_step_ok [OF assms(1)] assms(2) by (simp add: stuck_def)
  obtain h where h: "chan w = Some h" "cl_dead h" "\<not> cl_cleared h" "cl_server h" "listed w" "wwrites w = 0" "child w \<noteq> H_None" "work w \<noteq> H_Open"
    "attach_msgs w = 0" "detach_msgs w = 0" "cnt T_Check w \<noteq> 0" "\<And>c. c \<noteq> T_Check \<Longrightarrow> cnt c w = 0"
    using stuckE [OF assms(2)] by blast
  from assms(1) have "\<exists>h'. chan w' = Some h' \<and> cl_dead h' \<and> \<not> cl_cleared h' \<and> pend w' = pend w \<and> detach_msgs w' = 0"
  proof (cases rule: chan_step.cases)
    case (ch_callback c b)
    have "c = T_Check" using ch_callback(1) h(12) [of c] by (cases "c = T_Check") (auto simp: may_run_def)
    then show ?thesis using ch_callback(2) h by (simp add: callbackCheckFreeChannelContinue_def)
  next
    case (ch_send taken main)
    then show ?thesis using h by (auto simp: SendChannel_def Let_def chan_ops split: if_splits)
  next
    case (ch_written main failed)
    then show ?thesis using h by (auto simp: WriteCallback_def FreeChannel_other_thread_def Let_def chan_ops split: if_splits)
  next
    case (ch_read main eof)
    then show ?thesis using h by (auto simp: read_end_def FreeChannel_other_thread_def split: if_splits)
  qed (use h in \<open>auto simp: FreeChannel_def FreeChannel_other_thread_def\<close>)
  then show ?thesis using stuckI [OF ok] assms(2) by blast
qed

lemma stuck_forever: "(chan_step True)\<^sup>*\<^sup>* w w' \<Longrightarrow> stuck w \<Longrightarrow> stuck w'"
  by (induction rule: rtranclp_induct) (auto intro: stuck_step)

text \<open>
  C34. The control message of the release may fail, since the session has ended, and the result is not looked
  at: then no sequence of steps deletes the channel.
\<close>

theorem dead_session_keeps_channel:
  assumes "chan_reach True True w" and "may_run T_Opeate w" and "chan w = Some h" and "cl_ref h = 0"
    and "child w \<noteq> H_None" and "\<not> ctrl_ok w" and "FreeChannelOpeate w = Some w1"
  shows "None \<notin> chan ` {w'. (chan_step True)\<^sup>*\<^sup>* w1 w'}"
proof -
  have ok: "chan_ok w" using chan_reach_ok [OF assms(1)] .
  then have r: "release_ok h w" "use_ok h w" using assms(3) by (simp_all add: chan_ok_def)
  have t: "cnt T_Opeate w \<noteq> 0" using assms(2) by (simp add: may_run_def)
  have d: "cl_dead h" "cnt T_Check w = 0" using r(1) t by (auto simp: release_ok_def split: if_splits)
  have u: "detach_msgs w = 0" "cnt C_Child w = 0" "\<not> cl_cleared h" using r(2) d t by (auto simp: use_ok_def)
  have w1: "w1 = pend_del T_Opeate (pend_add T_Check w)" using assms(3-7) by (simp add: FreeChannelOpeate_def)
  have "stuck w1" using Opeate_ok [OF ok t assms(7)] d(1) u assms(3) by (simp add: stuck_def w1 chan_ops)
  then have "chan w' \<noteq> None" if "(chan_step True)\<^sup>*\<^sup>* w1 w'" for w' using stuckE [OF stuck_forever [OF that]] by blast
  then show ?thesis by fastforce
qed

section \<open>A freed channel of a session that lives is deleted\<close>

lemma drain_step: "chan_drain w w' \<Longrightarrow> chan_step safe w w'"
  by (induction rule: chan_drain.induct) (auto intro: ch_callback ch_written ch_detach)

definition told :: "chan_world \<Rightarrow> bool" where
  "told w \<longleftrightarrow> (ctrl_ok w \<longrightarrow> thread w \<and> (cnt T_Check w = 0 \<or> detach_msgs w + cnt C_Child w \<noteq> 0
     \<or> (case chan w of None \<Rightarrow> True | Some h \<Rightarrow> cl_cleared h)))"

lemma told_start: "told (MallocChannel True)"
  by (simp add: told_def MallocChannel_def)

lemma told_same:
  assumes "told w" "thread w' = thread w" "ctrl_ok w' \<longrightarrow> ctrl_ok w" "cnt T_Check w' = cnt T_Check w \<or> cnt T_Check w' = 0"
    "detach_msgs w' + cnt C_Child w' = detach_msgs w + cnt C_Child w"
    "map_option cl_cleared (chan w') = map_option cl_cleared (chan w)"
  shows "told w'"
  using assms by (cases "chan w"; cases "chan w'") (auto simp: told_def)

lemma Free_told: "FreeChannel w = Some w' \<Longrightarrow> told w \<Longrightarrow> told w'"
  by (rule told_same, assumption) (auto simp: FreeChannel_def chan_ops split: if_splits option.splits bind_splits)

lemma Continue_told: "FreeChannelContinue w = Some w' \<Longrightarrow> told w \<Longrightarrow> told w'"
  by (rule told_same, assumption)
    (auto simp: FreeChannelContinue_def close_std_def Let_def chan_ops split: if_splits option.splits bind_splits)

lemma Opeate_told:
  assumes "FreeChannelOpeate w = Some w'" "told w"
  shows "told w'"
proof -
  obtain h where h: "chan w = Some h" using assms(1) by (cases "chan w") (auto simp: FreeChannelOpeate_def)
  consider "w' = w" | "w' = pend_del T_Opeate (pend_add T_Check (if ctrl_ok w then w\<lparr>detach_msgs := Suc (detach_msgs w)\<rparr> else w))"
    | w1 where "FreeChannelContinue w = Some w1" "w' = pend_del T_Opeate w1"
    using assms(1) h by (auto simp: FreeChannelOpeate_def split: if_splits)
  then show ?thesis
  proof cases
    case 3
    show ?thesis by (rule told_same [OF Continue_told [OF 3(1) assms(2)]]) (simp_all add: 3(2) chan_ops)
  qed (use assms(2) in \<open>auto simp: told_def chan_ops\<close>)
qed

lemma run_cb_told:
  assumes "chan_ok w" and "may_run c w" and "run_cb c b w = Some w'" and "told w"
  shows "told w'"
proof -
  have c: "cnt c w \<noteq> 0" using assms(2) by (simp add: may_run_def)
  then obtain h where h: "chan w = Some h" "release_ok h w" using assms(1) by (auto simp: chan_ok_def gone_ok_def split: option.splits)
  show ?thesis
  proof (cases c)
    case T_Opeate
    then show ?thesis using Opeate_told assms(3,4) by simp
  next
    case T_Check
    have "told (pend_del T_Check w)" if "cl_cleared h" using assms(4) that h by (auto simp: told_def chan_ops)
    then show ?thesis using assms(3,4) T_Check h Continue_told by (auto simp: callbackCheckFreeChannelContinue_def split: if_splits)
  next
    case T_Wait
    have "told w1 \<Longrightarrow> told (pend_del T_Wait w1)" for w1 by (rule told_same, assumption) (simp_all add: chan_ops)
    then show ?thesis using assms(3,4) T_Wait Free_told h by (auto simp: wait_timer_def split: if_splits)
  next
    case I_Final
    then show ?thesis using assms(3,4) h c by (auto simp: FreeChannelFinally_def told_def release_ok_def chan_ops split: if_splits)
  next
    case I_Attach
    show ?thesis by (rule told_same [OF assms(4)]; use assms(3) I_Attach h in \<open>cases b\<close>) (auto simp: attach_idle_def Let_def chan_ops)
  next
    case C_Work
    show ?thesis by (rule told_same [OF assms(4)]) (use assms(3) C_Work h in \<open>auto simp: closeChannelHandle_def chan_ops\<close>)
  next
    case C_Bind
    show ?thesis by (rule told_same [OF assms(4)]) (use assms(3) C_Bind h in \<open>auto simp: funcWorkTcpClose_def chan_ops\<close>)
  next
    case C_Child
    then show ?thesis using assms(3,4) h by (auto simp: child_cleared_def told_def chan_ops)
  qed (use c h in \<open>simp_all add: release_ok_def\<close>)
qed

lemma chan_step_told:
  assumes "chan_step True w w'" and "chan_ok w" and "told w"
  shows "told w'"
  using assms(1)
proof (cases rule: chan_step.cases)
  case (ch_callback c b)
  then show ?thesis using run_cb_told assms(2,3) by blast
next
  case ch_free
  then show ?thesis using Free_told assms(3) by blast
next
  case ch_push
  show ?thesis unfolding ch_push by (rule told_same [OF assms(3)]) (simp_all add: FreeChannel_other_thread_def)
next
  case ch_async
  have "told (w\<lparr>free_msgs := free_msgs w - 1\<rparr>)" by (rule told_same [OF assms(3)]) simp_all
  then show ?thesis using Free_told ch_async by blast
next
  case (ch_send taken main)
  show ?thesis
    by (rule told_same [OF assms(3)]) (use ch_send in \<open>auto simp: SendChannel_def Let_def chan_ops split: if_splits\<close>)
next
  case (ch_written main failed)
  then obtain h where h: "chan w = Some h" using assms(2) by (cases "chan w") (auto simp: WriteCallback_def)
  let ?w1 = "upd_chan (\<lambda>h. h\<lparr>cl_ref := cl_ref h - 1\<rparr>) (if main then w\<lparr>wwrites := wwrites w - 1\<rparr> else w\<lparr>cwrites := cwrites w - 1\<rparr>)"
  let ?w2 = "if \<not> failed then ?w1 else if main then (if work ?w1 = H_Open then ?w1\<lparr>work := H_Closed\<rparr> else ?w1)
               else (if child ?w1 = H_Open then ?w1\<lparr>child := H_Closed\<rparr> else ?w1)"
  have t: "told ?w2" by (rule told_same [OF assms(3)]) (simp_all add: h chan_ops)
  have "w' = ?w2 \<or> w' = FreeChannel_other_thread ?w2 \<or> FreeChannel ?w2 = Some w'"
    using ch_written(3) h unfolding WriteCallback_def Let_def by (simp split: if_split_asm)
  moreover have "told (FreeChannel_other_thread ?w2)" by (rule told_same [OF t]) (simp_all add: FreeChannel_other_thread_def)
  ultimately show ?thesis using t Free_told [OF _ t] by auto
next
  case (ch_read main eof)
  then obtain h where h: "chan w = Some h" by (cases "chan w") (auto simp: read_end_def)
  let ?w = "if \<not> eof then w else if main then w\<lparr>work := H_Closed\<rparr> else w\<lparr>child := H_Closed\<rparr>"
  have t: "told ?w" by (rule told_same [OF assms(3)]) simp_all
  have "w' = FreeChannel_other_thread ?w \<or> FreeChannel ?w = Some w'"
    using ch_read(3) h by (cases main; cases eof) (simp_all add: read_end_def)
  moreover have "told (FreeChannel_other_thread ?w)" by (rule told_same [OF t]) (simp_all add: FreeChannel_other_thread_def)
  ultimately show ?thesis using Free_told [OF _ t] by auto
next
  case ch_bind
  show ?thesis by (rule told_same [OF assms(3)]) (use ch_bind in \<open>auto simp: BindChannel_def chan_ops\<close>)
next
  case ch_wait
  show ?thesis by (rule told_same [OF assms(3)]) (simp_all add: ch_wait chan_ops)
next
  case ch_attach
  show ?thesis
    by (rule told_same [OF assms(3)]) (use ch_attach in \<open>auto simp: AttachChannel_def Let_def chan_ops split: if_splits bind_splits\<close>)
next
  case ch_detach
  have "chan w = None \<or> listed w" using assms(2) by (auto simp: chan_ok_def use_ok_def split: option.splits)
  then show ?thesis using assms(3) ch_detach
    by (auto simp: DeatchChannel_def Let_def chan_ops told_def split: if_splits bind_splits)
next
  case ch_std
  then show ?thesis using server_channel [OF assms(2)] by simp
next
  case ch_session_dead
  show ?thesis by (simp add: told_def ch_session_dead)
next
  case ch_thread_end
  show ?thesis by (simp add: told_def ch_thread_end)
qed

lemma chan_reach_told: "chan_reach True True w \<Longrightarrow> chan_ok w \<and> told w"
  by (induction rule: chan_reach.induct) (auto simp: chan_ok_start told_start intro: chan_step_ok chan_step_told)

definition work_left :: "chan_world \<Rightarrow> nat" where
  "work_left w = wwrites w + cwrites w + cnt I_Attach w + cnt C_Bind w + cnt C_Work w + 2 * detach_msgs w + cnt C_Child w
     + 7 * cnt T_Opeate w + 3 * cnt T_Check w + cnt I_Final w"

lemma drain_progress:
  assumes "chan_ok w" and "told w" and "ctrl_ok w" and "chan w = Some h" and "cl_dead h"
  shows "\<exists>w'. chan_drain w w' \<and> ctrl_ok w' \<and> (case chan w' of None \<Rightarrow> True | Some h' \<Rightarrow> cl_dead h' \<and> work_left w' < work_left w)"
    (is "\<exists>w'. chan_drain w w' \<and> ?good w'")
proof -
  have r: "release_ok h w" "use_ok h w" using assms(1,4) by (simp_all add: chan_ok_def)
  have th: "thread w" using assms(2,3) by (simp add: told_def)
  have one: "cnt T_Opeate w + cnt T_Check w + cnt I_Final w = 1" using r(1) assms(5) by (simp add: release_ok_def)
  have cb: "\<exists>w'. chan_drain w w' \<and> ?good w'" if "may_run c w" "run_cb c False w = Some w1" "?good w1" for c w1
    using dr_callback that by blast
  consider "0 < wwrites w" | "0 < cwrites w" | "0 < cnt I_Attach w" | "wwrites w = 0" "0 < cnt C_Bind w" | "wwrites w = 0" "0 < cnt C_Work w"
    | "0 < detach_msgs w" | "0 < cnt C_Child w" "cwrites w = 0"
    | "wwrites w = 0" "cwrites w = 0" "cnt I_Attach w = 0" "cnt C_Bind w = 0" "cnt C_Work w = 0" "detach_msgs w = 0" "cnt C_Child w = 0"
    by linarith
  then show ?thesis
  proof cases
    case 1
    let ?w = "upd_chan (\<lambda>h. h\<lparr>cl_ref := cl_ref h - 1\<rparr>) (w\<lparr>wwrites := wwrites w - 1\<rparr>)"
    have "chan_drain w ?w" by (rule dr_written [of True]) (use 1 assms(4) in \<open>simp_all add: WriteCallback_def Let_def\<close>)
    moreover have "?good ?w" using 1 assms(3-5) by (simp add: chan_ops work_left_def)
    ultimately show ?thesis by blast
  next
    case 2
    let ?w = "upd_chan (\<lambda>h. h\<lparr>cl_ref := cl_ref h - 1\<rparr>) (w\<lparr>cwrites := cwrites w - 1\<rparr>)"
    have "chan_drain w ?w" by (rule dr_written [of False]) (use 2 assms(4) in \<open>simp_all add: WriteCallback_def Let_def\<close>)
    moreover have "?good ?w" using 2 assms(3-5) by (simp add: chan_ops work_left_def)
    ultimately show ?thesis by blast
  next
    case 3
    show ?thesis
      by (rule cb [of I_Attach "pend_del I_Attach w"]) (use 3 assms(3-5) in \<open>simp_all add: may_run_def attach_idle_def chan_ops work_left_def\<close>)
  next
    case 4
    show ?thesis
      by (rule cb [of C_Bind "pend_del C_Bind (upd_chan (\<lambda>h. h\<lparr>cl_ref := cl_ref h - 1\<rparr>) w)\<lparr>work := H_Closed\<rparr>"])
        (use 4 assms(3-5) in \<open>simp_all add: may_run_def funcWorkTcpClose_def chan_ops work_left_def\<close>)
  next
    case 5
    show ?thesis
      by (rule cb [of C_Work "pend_del C_Work (upd_chan (\<lambda>h. h\<lparr>cl_uv := cl_uv h - 1\<rparr>) w)\<lparr>work := H_Closed\<rparr>"])
        (use 5 assms(3-5) in \<open>simp_all add: may_run_def closeChannelHandle_def chan_ops work_left_def\<close>)
  next
    case 6
    have u: "listed w" "\<not> cl_cleared h" using r(2) 6 by (auto simp: use_ok_def)
    let ?w = "pend_add C_Child (w\<lparr>detach_msgs := detach_msgs w - 1, child := (if is_closing (child w) then child w else H_Closing)\<rparr>)"
    have "chan_drain w ?w" by (rule dr_detach) (use 6 u th assms(4) in \<open>simp_all add: DeatchChannel_def Let_def\<close>)
    moreover have "?good ?w" using 6 assms(3-5) by (simp add: pend_add_def work_left_def)
    ultimately show ?thesis by blast
  next
    case 7
    show ?thesis
      by (rule cb [of C_Child "pend_del C_Child (upd_chan (\<lambda>h. h\<lparr>cl_cleared := True\<rparr>) w)\<lparr>child := H_Closed\<rparr>"])
        (use 7 th assms(3-5) in \<open>simp_all add: may_run_def child_cleared_def chan_ops work_left_def\<close>)
  next
    case 8
    have ref: "cl_ref h = 0" using r(2) 8 by (simp add: use_ok_def)
    have sv: "cl_server h" using r(2) by (simp add: use_ok_def)
    have go: "\<exists>w1. FreeChannelContinue v = Some w1 \<and> ctrl_ok w1 \<and> (\<exists>h'. chan w1 = Some h' \<and> cl_dead h') \<and>
        work_left w1 \<le> work_left v + 2" if "chan v = Some h" "ctrl_ok v" for v
      using that sv assms(5) by (cases "is_closing (work v)") (auto simp: FreeChannelContinue_def Let_def pend_add_def upd_chan_def work_left_def)
    consider "cnt T_Opeate w = 1" | "cnt T_Check w = 1" | "cnt I_Final w = 1" using one by linarith
    then show ?thesis
    proof cases
      case 1
      show ?thesis
      proof (cases "child w = H_None")
        case False
        show ?thesis
          by (rule cb [of T_Opeate "pend_del T_Opeate (pend_add T_Check (w\<lparr>detach_msgs := Suc (detach_msgs w)\<rparr>))"])
            (use 1 False ref assms(3-5) in \<open>simp_all add: may_run_def FreeChannelOpeate_def chan_ops work_left_def\<close>)
      next
        case True
        obtain w1 h' where w1: "FreeChannelContinue w = Some w1" "ctrl_ok w1" "chan w1 = Some h'" "cl_dead h'" "work_left w1 \<le> work_left w + 2"
          using go [OF assms(4,3)] by blast
        have "cnt T_Opeate w1 = 1" using w1(1) 1 assms(4) sv by (auto simp: FreeChannelContinue_def Let_def chan_ops split: if_splits)
        then show ?thesis
          by (intro cb [of T_Opeate "pend_del T_Opeate w1"])
            (use 1 True ref w1 assms(4) in \<open>simp_all add: may_run_def FreeChannelOpeate_def pend_del_def work_left_def\<close>)
      qed
    next
      case 2
      then have c: "cl_cleared h" using assms(2-4) 8 by (simp add: told_def)
      obtain w1 h' where w1: "FreeChannelContinue (pend_del T_Check w) = Some w1" "ctrl_ok w1" "chan w1 = Some h'" "cl_dead h'"
          "work_left w1 \<le> work_left (pend_del T_Check w) + 2"
        using go [of "pend_del T_Check w"] assms(3,4) by (auto simp: pend_del_def)
      then show ?thesis
        by (intro cb [of T_Check w1])
          (use 2 c assms(4) in \<open>simp_all add: may_run_def callbackCheckFreeChannelContinue_def pend_del_def work_left_def\<close>)
    next
      case 3
      have "cl_uv h = 0" using r(1) 3 8 by (simp add: release_ok_def)
      then show ?thesis
        by (intro cb [of I_Final "pend_del I_Final (w\<lparr>chan := None, listed := False\<rparr>)"])
          (use 3 8 assms(3,4) in \<open>simp_all add: may_run_def FreeChannelFinally_def pend_del_def\<close>)
    qed
  qed
qed

lemma drained:
  assumes "chan_ok w" "told w" "ctrl_ok w" "chan w = Some h" "cl_dead h"
  shows "\<exists>w'. chan_drain\<^sup>*\<^sup>* w w' \<and> chan w' = None"
  using assms
proof (induction "work_left w" arbitrary: w h rule: less_induct)
  case less
  obtain w1 where w1: "chan_drain w w1" "ctrl_ok w1"
      "case chan w1 of None \<Rightarrow> True | Some h' \<Rightarrow> cl_dead h' \<and> work_left w1 < work_left w"
    using drain_progress [OF less.prems] by blast
  have s: "chan_step True w w1" using drain_step [OF w1(1)] .
  show ?case
  proof (cases "chan w1")
    case None
    then show ?thesis using w1(1) by blast
  next
    case (Some h1)
    have "\<exists>w'. chan_drain\<^sup>*\<^sup>* w1 w' \<and> chan w' = None"
      by (rule less.hyps [of w1 h1]) (use w1 Some less.prems chan_step_ok [OF s] chan_step_told [OF s] in simp_all)
    then show ?thesis using w1(1) by (blast intro: converse_rtranclp_into_rtranclp)
  qed
qed

text \<open>
  C12. The release of a channel of the server never blocks while the session it is bound to takes
  messages: in every state of a run as in C11 in which the channel has been freed and is not yet
  deleted, whatever has happened since, the callbacks, writes and messages that are outstanding have an
  order in which they delete it, with nothing new happening and no write failing.
\<close>

theorem freed_channel_is_deleted:
  assumes "chan_reach True True w" and "chan w = Some h" and "cl_dead h" and "ctrl_ok w"
  shows "\<exists>w2. chan_drain\<^sup>*\<^sup>* w w2 \<and> chan w2 = None"
  using drained [OF _ _ assms(4,2,3)] chan_reach_told [OF assms(1)] by blast

section \<open>Runs\<close>

text \<open>A state of a channel with what is pending, the work and child handles, the terminal's output and the messages.\<close>

definition cw :: "chan_life option \<Rightarrow> (chan_cb \<Rightarrow> nat) \<Rightarrow> handle_state \<Rightarrow> handle_state \<Rightarrow> handle_state \<Rightarrow> nat \<Rightarrow> bool \<Rightarrow> chan_world" where
  "cw c p wk cd so am th = \<lparr>chan = c, listed = (c \<noteq> None), pend = p, work = wk, child = cd, stdin = H_None, stdout = so, std_data = False,
     wwrites = 0, cwrites = 0, ctrl_ok = th, thread = th, attach_msgs = am, detach_msgs = 0, free_msgs = 0\<rparr>"

abbreviation idle :: "chan_cb \<Rightarrow> nat" where
  "idle \<equiv> \<lambda>_. 0"

abbreviation life :: "bool \<Rightarrow> bool \<Rightarrow> nat \<Rightarrow> u8 \<Rightarrow> chan_life option" where
  "life sv dead r u \<equiv> Some \<lparr>cl_server = sv, cl_dead = dead, cl_cleared = False, cl_ref = r, cl_uv = u\<rparr>"

named_theorems chan_eval

lemmas [chan_eval] = cw_def may_run_def FreeChannel_def FreeChannelContinue_def FreeChannelOpeate_def FreeChannelFinally_def closeChannelHandle_def
  funcWorkTcpClose_def attach_idle_def wait_timer_def BindChannel_def AttachChannel_def BindLocalStd_def close_std_def read_end_def Let_def chan_ops

lemma reach_cb: "chan_reach s v w \<Longrightarrow> may_run c w \<Longrightarrow> run_cb c b w = Some w' \<Longrightarrow> chan_reach s v w'"
  by (blast intro: ch_next ch_callback)

lemma reach_start: "chan_reach s v (cw (life v False 0 1) idle H_Open H_None H_None 0 True)"
  using ch_start [of s v] by (simp add: MallocChannel_def cw_def)

lemma reach_attach_msg: "chan_reach s True (cw (life True False 0 1) idle H_Closed H_None H_None 1 True)"
proof -
  have "chan_reach s True (cw (life True False 1 1) (idle(C_Bind := 1, I_Attach := 1)) H_Closing H_None H_None 0 True)"
    by (rule ch_next [OF reach_start ch_bind], simp add: chan_eval) (simp_all add: chan_eval)
  then have "chan_reach s True (cw (life True False 0 1) (idle(I_Attach := 1)) H_Closed H_None H_None 0 True)"
    by (rule reach_cb [where c = C_Bind]) (auto simp: chan_eval fun_eq_iff)
  then show ?thesis
    by (rule reach_cb [where c = I_Attach and b = True]) (auto simp: chan_eval fun_eq_iff)
qed

text \<open>
  What the release does not know of: the timer that waits for a device keeps its channel when the client
  goes away; a message of a session's thread attaches a channel that is just deleted, and its stream
  then reads into it; a client whose standard input is no terminal closes the output handle, which never
  learned its channel.
\<close>

theorem late_uses_of_a_deleted_channel:
  "(\<exists>w. chan_reach False True w \<and> may_run T_Wait w \<and> run_cb T_Wait b w = None)
    \<and> (\<exists>w. chan_reach False True w \<and> child w = H_Open \<and> thread w \<and> read_end False eof w = None)
    \<and> (\<exists>w. chan_reach False False w \<and> may_run C_Stdout w \<and> run_cb C_Stdout b w = None)"
proof (intro conjI)
  show "\<exists>w. chan_reach False True w \<and> may_run T_Wait w \<and> run_cb T_Wait b w = None"
  proof (rule exI, intro conjI)
    have "chan_reach False True (cw (life True False 0 1) (idle(T_Wait := 1)) H_Open H_None H_None 0 True)"
      by (rule ch_next [OF reach_start], subst cw_def, rule ch_wait [THEN back_subst [where P = "chan_step _ _"]])
        (auto simp: chan_eval)
    then have "chan_reach False True (cw (life True True 0 1) (idle(T_Wait := 1, T_Opeate := 1)) H_Open H_None H_None 0 True)"
      by (rule ch_next [OF _ ch_free]) (simp_all add: chan_eval)
    then have "chan_reach False True (cw (life True True 0 1) (idle(T_Wait := 1, C_Work := 1, I_Final := 1)) H_Closing H_None H_None 0 True)"
      by (rule reach_cb [where c = T_Opeate]) (auto simp: chan_eval fun_eq_iff)
    then have "chan_reach False True (cw (life True True 0 0) (idle(T_Wait := 1, I_Final := 1)) H_Closed H_None H_None 0 True)"
      by (rule reach_cb [where c = C_Work]) (auto simp: chan_eval fun_eq_iff)
    then show "chan_reach False True (cw None (idle(T_Wait := 1)) H_Closed H_None H_None 0 True)"
      by (rule reach_cb [where c = I_Final]) (auto simp: chan_eval fun_eq_iff)
  qed (simp_all add: chan_eval)
next
  show "\<exists>w. chan_reach False True w \<and> child w = H_Open \<and> thread w \<and> read_end False eof w = None"
  proof (rule exI, intro conjI)
    have "chan_reach False True (cw (life True True 0 1) (idle(T_Opeate := 1)) H_Closed H_None H_None 1 True)"
      by (rule ch_next [OF reach_attach_msg ch_free]) (simp_all add: chan_eval)
    then have "chan_reach False True (cw (life True True 0 0) (idle(I_Final := 1)) H_Closed H_None H_None 1 True)"
      by (rule reach_cb [where c = T_Opeate]) (auto simp: chan_eval fun_eq_iff)
    then have "chan_reach False True (cw (life True True 0 0) (idle(I_Final := 1)) H_Closed H_Open H_None 0 True)"
      by (rule ch_next [OF _ ch_attach [where ok = True]]) (simp_all add: chan_eval)
    then show "chan_reach False True (cw None idle H_Closed H_Open H_None 0 True)"
      by (rule reach_cb [where c = I_Final]) (auto simp: chan_eval fun_eq_iff)
  qed (simp_all add: chan_eval)
next
  show "\<exists>w. chan_reach False False w \<and> may_run C_Stdout w \<and> run_cb C_Stdout b w = None"
  proof (rule exI, intro conjI)
    have "chan_reach False False (cw (life False False 0 1) idle H_Open H_None H_Open 0 True)"
      by (rule ch_next [OF reach_start ch_std [where outOK = True and inOK = False]], simp add: chan_eval) (simp_all add: chan_eval)
    then have "chan_reach False False (cw (life False True 0 1) (idle(T_Opeate := 1)) H_Open H_None H_Open 0 True)"
      by (rule ch_next [OF _ ch_free]) (simp_all add: chan_eval)
    then show "chan_reach False False (cw (life False True 0 1) (idle(C_Stdout := 1, C_Work := 1, I_Final := 1)) H_Closing H_None H_Closing 0 True)"
      by (rule reach_cb [where c = T_Opeate]) (auto simp: chan_eval fun_eq_iff)
  qed (simp_all add: chan_eval)
qed

lemma reach_dead_session:
  "chan_reach True True (cw (life True True 0 1) (idle(T_Opeate := 1)) H_Closed H_Closed H_None 0 False)"
proof -
  have "chan_reach True True (cw (life True False 0 1) idle H_Closed H_Open H_None 0 True)"
    by (rule ch_next [OF reach_attach_msg ch_attach [where ok = True]]) (simp_all add: chan_eval)
  then have "chan_reach True True (cw (life True False 0 1) idle H_Closed H_Closed H_None 0 False)"
    by (rule ch_next [OF _ back_subst [where P = "chan_step True _", OF ch_thread_end]]) (simp_all add: chan_eval)
  then show ?thesis by (rule ch_next [OF _ ch_free]) (simp_all add: chan_eval)
qed

lemma dead_session_keeps_channel_witness:
  "\<exists>w w1. chan_reach True True w \<and> FreeChannelOpeate w = Some w1 \<and> None \<notin> chan ` {w'. (chan_step True)\<^sup>*\<^sup>* w1 w'}"
proof (intro exI conjI)
  let ?w1 = "cw (life True True 0 1) (idle(T_Check := 1)) H_Closed H_Closed H_None 0 False"
  let ?w = "cw (life True True 0 1) (idle(T_Opeate := 1)) H_Closed H_Closed H_None 0 False"
  show "chan_reach True True ?w" by (rule reach_dead_session)
  show o: "FreeChannelOpeate ?w = Some ?w1" by (auto simp: chan_eval fun_eq_iff)
  show "None \<notin> chan ` {w'. (chan_step True)\<^sup>*\<^sup>* ?w1 w'}"
    by (rule dead_session_keeps_channel [OF reach_dead_session _ _ _ _ _ o], simp add: cw_def may_run_def, simp add: cw_def) (simp_all add: cw_def)
qed

lemma channel_never_used_after_delete_witness:
  "\<exists>w. may_run T_Opeate w \<and> run_cb T_Opeate False w \<noteq> None \<and> FreeChannel w \<noteq> None"
proof (rule exI, intro conjI)
  let ?w = "cw (life True True 0 1) (idle(T_Opeate := 1)) H_Closed H_Closed H_None 0 False"
  show m: "may_run T_Opeate ?w" by (simp add: chan_eval)
  show "run_cb T_Opeate False ?w \<noteq> None" "FreeChannel ?w \<noteq> None"
    using channel_never_used_after_delete [OF reach_dead_session] m by blast+
qed

lemma freed_channel_is_deleted_witness:
  "\<exists>w2. chan_drain\<^sup>*\<^sup>* (pend_add T_Opeate (cw (life True True 0 1) idle H_Closed H_None H_None 1 True)) w2 \<and> chan w2 = None"
proof -
  have "chan_reach True True (pend_add T_Opeate (cw (life True True 0 1) idle H_Closed H_None H_None 1 True))"
    by (rule ch_next [OF reach_attach_msg ch_free]) (simp_all add: chan_eval)
  from freed_channel_is_deleted [OF this] show ?thesis by (simp add: chan_eval)
qed

end
