(* ===== verification/Hdc_FileTask.thy ===== *)
theory Hdc_FileTask
  imports Hdc_Transfer Hdc_Args Hdc_Registry
begin

text \<open>
  The file task: src/src/common/file.cpp with the path and directory routines of
  src/src/common/transfer.cpp and \<open>CheckDirectoryOrPath\<close> of src/src/common/base.cpp. A master turns a
  command into one file or into the list of the files of a directory and sends them one after the
  other; the slave decides where each file goes, makes its directories and opens it.
\<close>

section \<open>The file system\<close>

text \<open>
  What POSIX does with the paths the code builds. A path is a list of names below the root; a
  directory that contains a node is a directory node. Links are not followed, \<open>..\<close> is a name.
\<close>

datatype node = Reg bytes | DirNode | OtherNode u32

record fsys =
  nodes :: "string list \<Rightarrow> node option"
  fs_cwd :: "string list"
  access_ok :: "bool \<Rightarrow> string list \<Rightarrow> bool"

definition resolve :: "fsys \<Rightarrow> string \<Rightarrow> string list" where
  "resolve fs p = (if IsAbsolutePath p then [] else fs_cwd fs) @ filter (\<lambda>w. w \<noteq> [] \<and> w \<noteq> ''.'') (segs CHR ''/'' p)"

definition node_at :: "fsys \<Rightarrow> string list \<Rightarrow> node option" where
  "node_at fs q = (if q = [] then Some DirNode else nodes fs q)"

definition S_IFDIR :: u32 where "S_IFDIR = 0x4000"
definition S_IFREG :: u32 where "S_IFREG = 0x8000"

primrec st_mode :: "node \<Rightarrow> u32" where
  "st_mode (Reg _) = S_IFREG"
| "st_mode DirNode = S_IFDIR"
| "st_mode (OtherNode m) = m"

definition lstat :: "fsys \<Rightarrow> string \<Rightarrow> u32 option" where
  "lstat fs p = (if p = [] then None else map_option st_mode (node_at fs (resolve fs p)))"

definition mkdir :: "fsys \<Rightarrow> string \<Rightarrow> fsys" where
  "mkdir fs p = (let q = resolve fs p in
     if p \<noteq> [] \<and> node_at fs q = None \<and> node_at fs (butlast q) = Some DirNode
     then fs\<lparr>nodes := (nodes fs)(q \<mapsto> DirNode)\<rparr> else fs)"

text \<open>\<open>open\<close> for writing, with truncation and creation.\<close>

definition open_trunc :: "fsys \<Rightarrow> string \<Rightarrow> fsys option" where
  "open_trunc fs p = (let q = resolve fs p; fs' = fs\<lparr>nodes := (nodes fs)(q \<mapsto> Reg [])\<rparr> in
     if p = [] then None
     else case node_at fs q of
       Some (Reg _) \<Rightarrow> if access_ok fs False q then Some fs' else None
     | Some _ \<Rightarrow> None
     | None \<Rightarrow> if node_at fs (butlast q) = Some DirNode then Some fs' else None)"

text \<open>Whether the path is a usable file; if it is not, whether it is a directory.\<close>

datatype path_check = IsFile | IsDir | NoFile

definition CheckDirectoryOrPath :: "fsys \<Rightarrow> string \<Rightarrow> bool \<Rightarrow> bool \<Rightarrow> path_check" where
  "CheckDirectoryOrPath fs lp pathOrDir readWrite =
     (if \<not> pathOrDir then NoFile
      else case lstat fs lp of
        None \<Rightarrow> NoFile
      | Some mode \<Rightarrow>
          if mode AND S_IFDIR \<noteq> 0 then IsDir
          else if mode AND S_IFREG \<noteq> 0 \<and> access_ok fs readWrite (resolve fs lp) then IsFile
          else NoFile)"

section \<open>Directories\<close>

text \<open>
  \<open>scandir\<close>, an argument, gives the names and types of a directory in its order, or fails. The types
  are those of libuv: unknown, file, directory, link, pipe, socket, character and block device.
\<close>

type_synonym dir_entries = "(string \<times> nat) list"

definition UV_DIRENT_FILE :: nat where "UV_DIRENT_FILE = 1"
definition UV_DIRENT_DIR :: nat where "UV_DIRENT_DIR = 2"

text \<open>The test of a type is one of a bit: links, sockets and block devices pass as files.\<close>

definition dirent_file :: "nat \<Rightarrow> bool" where
  "dirent_file ty \<longleftrightarrow> ty AND UV_DIRENT_FILE \<noteq> 0"

definition dot_entry :: "string \<Rightarrow> bool" where
  "dot_entry nm \<longleftrightarrow> nm = ''.'' \<or> nm = ''..''"

definition GetSubFiles :: "(string \<Rightarrow> dir_entries option) \<Rightarrow> string \<Rightarrow> string \<Rightarrow> string list \<Rightarrow> string list option" where
  "GetSubFiles scandir path flt out =
     (if path = [] then Some out
      else case (if flt = [] then Some [] else SplitString flt '';'') of
        None \<Rightarrow> None
      | Some filterStrings \<Rightarrow>
          Some (out @ concat (map (\<lambda>(nm, ty).
            if dot_entry nm \<or> \<not> dirent_file ty then []
            else concat (map (\<lambda>s. if MatchPackageExtendName nm s then [path @ ''/'' @ nm] else []) filterStrings))
            (case scandir path of None \<Rightarrow> [] | Some es \<Rightarrow> es))))"

text \<open>The recursion has a bound; \<open>None\<close> if it is reached.\<close>

primrec GetSubFilesRecursively ::
  "nat \<Rightarrow> (string \<Rightarrow> dir_entries option) \<Rightarrow> string \<Rightarrow> string \<Rightarrow> string list \<Rightarrow> string list option" where
  "GetSubFilesRecursively 0 scandir path cur out = None"
| "GetSubFilesRecursively (Suc n) scandir path cur out =
     (if path = [] then Some out
      else case scandir path of
        None \<Rightarrow> Some out
      | Some es \<Rightarrow> foldl (\<lambda>o' (nm, ty). Option.bind o' (\<lambda>out.
            if dot_entry nm then Some out
            else if \<not> dirent_file ty then
              GetSubFilesRecursively n scandir (path @ GetPathSep # nm) (cur @ GetPathSep # nm) out
            else Some (out @ [cur @ GetPathSep # nm]))) (Some out) es)"

section \<open>The path of the slave\<close>

text \<open>The directories of a name are made below the local path; the second path is relative.\<close>

fun make_dirs :: "string \<Rightarrow> string \<Rightarrow> string list \<Rightarrow> fsys \<Rightarrow> string \<times> fsys" where
  "make_dirs mkdirPath shortPath [] fs = (shortPath, fs)"
| "make_dirs mkdirPath shortPath (s # dirs) fs =
     (let mk = mkdirPath @ GetPathSep # s; sh = shortPath @ GetPathSep # s
      in make_dirs mk sh dirs (if lstat fs mk = None then mkdir fs mk else fs))"

text \<open>
  Whether the file exists, the path to open, and the file system; \<open>None\<close> where the last name is taken
  from an empty list.
\<close>

definition SmartSlavePath :: "bool \<Rightarrow> string \<Rightarrow> string \<Rightarrow> string \<Rightarrow> fsys \<Rightarrow> (bool \<times> string \<times> fsys) option" where
  "SmartSlavePath serverOrDaemon cwd lp0 optName fs =
     (let lp = (if serverOrDaemon then ExtractRelativePath cwd lp0 else lp0);
          put = (\<lambda>filename fs. Some (False,
            (case lstat fs (c_str lp) of
               None \<Rightarrow> lp
             | Some mode \<Rightarrow> if mode AND S_IFDIR \<noteq> 0 then formatted (c_str lp @ GetPathSep # c_str filename) else lp), fs))
      in if CheckDirectoryOrPath fs (c_str lp) True False = IsFile then Some (True, lp, fs)
         else let filename = c_str optName;
                  sep = (if CHR ''/'' \<in> set filename then ''/'' else if CHR 0x5C \<in> set filename then [CHR 0x5C] else [])
              in if sep = [] then put filename fs
                 else case SplitString filename sep of
                   None \<Rightarrow> None
                 | Some dirs \<Rightarrow>
                     if dirs = [] then None
                     else case make_dirs (c_str lp) '''' (butlast dirs) fs of
                       (shortPath, fs1) \<Rightarrow> put (shortPath @ GetPathSep # last dirs) fs1)"

section \<open>The task\<close>

text \<open>What is reported to the user; the text of an error and the rate are left out.\<close>

datatype file_note =
    SplitFailed
  | UnknownOption string
  | DirectoryEmpty
  | NotNewer string
  | TransferDone u32 u64 u64
  | TransferStopped u64 u64 nat

record file_task =
  xfer :: transfer
  on_server :: bool
  transferBegin :: u64
  transferDirBegin :: u64
  reports :: "file_note list"

definition on_xfer :: "(transfer \<Rightarrow> transfer) \<Rightarrow> file_task \<Rightarrow> file_task" where
  "on_xfer f t = t\<lparr>xfer := f (xfer t)\<rparr>"

abbreviation on_ctx :: "(CtxFile \<Rightarrow> CtxFile) \<Rightarrow> file_task \<Rightarrow> file_task" where
  "on_ctx f \<equiv> on_xfer (ctx_upd f)"

definition on_config :: "(TransferConfig \<Rightarrow> TransferConfig) \<Rightarrow> file_task \<Rightarrow> file_task" where
  "on_config f = on_ctx (\<lambda>c. c\<lparr>transferConfig := f (transferConfig c)\<rparr>)"

abbreviation ctx :: "file_task \<Rightarrow> CtxFile" where
  "ctx t \<equiv> ctxNow (xfer t)"

definition file_note :: "file_note \<Rightarrow> file_task \<Rightarrow> file_task" where
  "file_note n t = t\<lparr>reports := reports t @ [n]\<rparr>"

text \<open>\<open>HdcFile::StopTask\<close>.\<close>

definition StopTask :: "file_task \<Rightarrow> file_task" where
  "StopTask = on_xfer (\<lambda>x. x\<lparr>singalStop := True\<rparr>)"

text \<open>A request to open the file of the context.\<close>

definition open_local :: "file_task \<Rightarrow> file_task" where
  "open_local = on_xfer (\<lambda>x. x\<lparr>refCount := Suc (refCount x), reqs := reqs x @ [FsOpen (localPath (ctxNow x))]\<rparr>)"

section \<open>The master\<close>

text \<open>One option of the command, at position \<open>i\<close>; a word that is no option is passed over.\<close>

definition file_option :: "string list \<Rightarrow> nat \<Rightarrow> file_task \<Rightarrow> bool \<times> file_task" where
  "file_option av i t =
     (let a = av ! i in
      if a = ''-z'' then (True, on_config (\<lambda>c. c\<lparr>compressType := COMPRESS_LZ4\<rparr>) t)
      else if a = ''-sync'' then (True, on_config (\<lambda>c. c\<lparr>updateIfNew := True\<rparr>) t)
      else if a = ''-a'' then (True, on_config (\<lambda>c. c\<lparr>holdTimestamp := True\<rparr>) t)
      else if a = ''-cwd'' then (True, on_config (\<lambda>c. c\<lparr>clientCwd := av ! (i + 1)\<rparr>) t)
      else if take 1 a = ''-'' then (False, file_note (UnknownOption a) t)
      else (True, t))"

fun file_options :: "string list \<Rightarrow> nat list \<Rightarrow> file_task \<Rightarrow> bool \<times> file_task" where
  "file_options av [] t = (True, t)"
| "file_options av (i # is) t =
     (case file_option av i t of (ok, t') \<Rightarrow> if ok then file_options av is t' else (False, t'))"

text \<open>The last entry of the queue becomes the file of the context.\<close>

definition take_next :: "CtxFile \<Rightarrow> CtxFile" where
  "take_next c = c\<lparr>localName := last (taskQueue c), localPath := localDirName c @ last (taskQueue c),
     taskQueue := butlast (taskQueue c)\<rparr>"

text \<open>\<open>n\<close> bounds the depth of the directories.\<close>

definition SetMasterParameters ::
  "fsys \<Rightarrow> (string \<Rightarrow> dir_entries option) \<Rightarrow> nat \<Rightarrow> string list \<Rightarrow> file_task \<Rightarrow> (bool \<times> file_task) option" where
  "SetMasterParameters fs scandir n av t =
     (case file_options av [0..<length av - 2] t of
        (False, t1) \<Rightarrow> Some (False, t1)
      | (True, t1) \<Rightarrow>
          let lp0 = av ! (length av - 2);
              lp = (if on_server t then ExtractRelativePath (clientCwd (transferConfig (ctx t1))) lp0 else lp0);
              t2 = on_ctx (\<lambda>c. c\<lparr>remotePath := last av, localPath := lp, localName := GetFullFilePath lp\<rparr>) t1
          in if CheckDirectoryOrPath fs lp True True \<noteq> IsDir then Some (True, t2)
             else case GetSubFilesRecursively n scandir lp (GetFullFilePath lp) (taskQueue (ctx t2)) of
               None \<Rightarrow> None
             | Some [] \<Rightarrow> Some (False, file_note DirectoryEmpty (on_ctx (\<lambda>c. c\<lparr>isDir := True\<rparr>) t2))
             | Some q \<Rightarrow> Some (True, on_ctx (\<lambda>c. take_next (c\<lparr>isDir := True, taskQueue := q, fileCnt := 0, cf_dirSize := 0,
                 localDirName := GetPathWithoutFilename lp\<rparr>)) t2))"

definition BeginTransfer ::
  "fsys \<Rightarrow> (string \<Rightarrow> dir_entries option) \<Rightarrow> nat \<Rightarrow> string \<Rightarrow> file_task \<Rightarrow> (bool \<times> file_task) option" where
  "BeginTransfer fs scandir n command t =
     (case SplitCommandToArgs (c_str command) of
        None \<Rightarrow> None
      | Some None \<Rightarrow> Some (False, file_note SplitFailed t)
      | Some (Some S) \<Rightarrow>
          if length (arg_strings S) < 2 then Some (False, file_note SplitFailed t)
          else case SetMasterParameters fs scandir n (arg_strings S) t of
              None \<Rightarrow> None
            | Some (False, t1) \<Rightarrow> Some (False, t1)
            | Some (True, t1) \<Rightarrow> Some (True, on_ctx (\<lambda>c. c\<lparr>master := True\<rparr>) (open_local t1)))"

definition TransferNext :: "file_task \<Rightarrow> file_task" where
  "TransferNext t = open_local (on_ctx take_next t)"

section \<open>The slave\<close>

text \<open>The time is that of the runtime in milliseconds; the difference of the times wraps.\<close>

definition TransferSummary :: "u64 \<Rightarrow> file_task \<Rightarrow> file_task" where
  "TransferSummary now t =
     (let c = ctx t; many = (1 < fileCnt c);
          nMSec = now - (if many then transferDirBegin t else transferBegin t);
          fSize = (if many then cf_dirSize c else cf_indexIO c)
      in file_note (if cf_fileSize c \<le> cf_indexIO c then TransferDone (fileCnt c) fSize nMSec
                    else TransferStopped (cf_indexIO c) (cf_fileSize c) (lastErrno c)) t)"

text \<open>\<open>mtime_sec\<close> is the time of the file there is, in seconds; the other is in nanoseconds.\<close>

definition SlaveCheck :: "(string \<Rightarrow> u64) \<Rightarrow> u64 \<Rightarrow> bytes \<Rightarrow> file_task \<times> fsys \<Rightarrow> (bool \<times> file_task \<times> fsys) option" where
  "SlaveCheck mtime_sec now payload s =
     (case s of (t, fs) \<Rightarrow>
      case ParseFromString Descriptor_TransferConfig (transferConfig (ctx t)) (chars_of payload) of
        None \<Rightarrow> None
      | Some (_, stat) \<Rightarrow>
          case SmartSlavePath (on_server t) (clientCwd stat) (tc_path stat) (optionalName stat) fs of
            None \<Rightarrow> None
          | Some (found, lp, fs1) \<Rightarrow>
              let t1 = on_ctx (\<lambda>c. c\<lparr>transferConfig := stat, cf_fileSize := fileSize stat, localPath := lp, master := False\<rparr>) t
              in if found \<and> updateIfNew stat \<and> mtime stat \<le> mtime_sec lp then Some (False, file_note (NotNewer lp) t1, fs1)
                 else let t2 = open_local t1 in
                   Some (True, t2\<lparr>transferDirBegin := (if transferDirBegin t2 = 0 then now else transferDirBegin t2),
                     transferBegin := now\<rparr>, fs1))"

section \<open>Commands\<close>

text \<open>
  The surroundings of the task: LZ4, the directories and the times of files, the clock, and what a
  block header is before it is read.
\<close>

record file_env =
  e_lz4 :: lz4
  e_scandir :: "string \<Rightarrow> dir_entries option"
  e_depth :: nat
  e_mtime :: "string \<Rightarrow> u64"
  e_now :: u64
  e_payload :: TransferPayload

text \<open>\<open>HdcFile::CommandDispatch\<close>: the result of the base class is not looked at.\<close>

definition file_dispatch :: "file_env \<Rightarrow> u16 \<Rightarrow> bytes \<Rightarrow> file_task \<times> fsys \<Rightarrow> (bool \<times> file_task \<times> fsys) option" where
  "file_dispatch e c payload s =
     (case s of (t0, fs) \<Rightarrow>
      case CommandDispatch (e_lz4 e) (e_payload e) (cmd CMD_FILE_BEGIN) (cmd CMD_FILE_DATA) c payload (xfer t0) of
        None \<Rightarrow> None
      | Some (ok, x) \<Rightarrow>
          let t = t0\<lparr>xfer := x, transferBegin := (if c = cmd CMD_FILE_BEGIN \<and> ok then e_now e else transferBegin t0)\<rparr> in
          if c = cmd CMD_FILE_INIT then
            map_option (\<lambda>(ret, t1). (ret, t1\<lparr>transferBegin := e_now e\<rparr>, fs))
              (BeginTransfer fs (e_scandir e) (e_depth e) (chars_of payload) t)
          else if c = cmd CMD_FILE_CHECK then SlaveCheck (e_mtime e) (e_now e) payload (t, fs)
          else if c = cmd CMD_FILE_FINISH then
            (case payload of
               [] \<Rightarrow> None
             | b # _ \<Rightarrow> Some (True,
                 (if b \<noteq> 0 then
                    if isDir (ctx t) \<and> taskQueue (ctx t) \<noteq> [] then TransferNext t
                    else on_xfer (\<lambda>x. snd (SendToAnother (cmd CMD_FILE_FINISH) [b - 1] x))
                      ((on_ctx (\<lambda>c. c\<lparr>ioFinish := True\<rparr>) t)\<lparr>transferDirBegin := 0\<rparr>)
                  else on_xfer TaskFinish (TransferSummary (e_now e) t)), fs))
          else Some (True, t, fs))"

end
