(* ===== verification/Hdc_FileRun.thy ===== *)
theory Hdc_FileRun
  imports Hdc_FileTask
begin

text \<open>
  A directory is sent: which files the master lists, where the slave puts each, and the run of the two
  over all of them.
\<close>

section \<open>Paths of names\<close>

definition clean :: "string \<Rightarrow> bool" where
  "clean w \<longleftrightarrow> w \<noteq> [] \<and> w \<noteq> ''.'' \<and> CHR ''/'' \<notin> set w \<and> CHR 0x00 \<notin> set w"

definition below :: "string list \<Rightarrow> string" where
  "below ws = concat (map (\<lambda>w. GetPathSep # w) ws)"

lemma below_simps [simp]: "below [] = []" "below (w # ws) = GetPathSep # w @ below ws" "below (us @ vs) = below us @ below vs"
  by (simp_all add: below_def)

lemma join_below: "ws \<noteq> [] \<Longrightarrow> GetPathSep # join GetPathSep ws = below ws"
  by (induction GetPathSep ws rule: join.induct) (simp_all add: below_def)

lemma segs_nonempty: "segs c s \<noteq> []"
  by (cases s) auto

lemma segs_both: "segs c (u @ c # v) = segs c u @ segs c v"
  by (induction u) (auto simp: segs_nonempty)

lemma clean_segs: "clean w \<Longrightarrow> segs CHR ''/'' w = [w]"
  by (simp add: clean_def segs_absent)

lemma segs_below: "\<forall>w \<in> set ws. clean w \<Longrightarrow> segs CHR ''/'' (p @ below ws) = segs CHR ''/'' p @ ws"
proof (induction ws arbitrary: p)
  case (Cons w ws)
  have "segs CHR ''/'' ((p @ GetPathSep # w) @ below ws) = segs CHR ''/'' (p @ GetPathSep # w) @ ws"
    using Cons.prems by (intro Cons.IH) simp
  then show ?case using Cons.prems by (simp add: GetPathSep_def segs_both clean_segs)
qed simp

lemma clean_filter: "\<forall>w \<in> set ws. clean w \<Longrightarrow> filter (\<lambda>w. w \<noteq> [] \<and> w \<noteq> ''.'') ws = ws"
  by (simp add: clean_def filter_id_conv)

lemma IsAbsolutePath_append: "p \<noteq> [] \<Longrightarrow> IsAbsolutePath (p @ q) = IsAbsolutePath p"
  by (cases p) (auto simp: IsAbsolutePath_def)

lemma resolve_below: "p \<noteq> [] \<Longrightarrow> \<forall>w \<in> set ws. clean w \<Longrightarrow> resolve fs (p @ below ws) = resolve fs p @ ws"
  by (simp add: resolve_def IsAbsolutePath_append segs_below clean_filter)

lemma resolve_extra: "p \<noteq> [] \<Longrightarrow> resolve fs (p @ GetPathSep # q) = resolve fs p @ filter (\<lambda>w. w \<noteq> [] \<and> w \<noteq> ''.'') (segs CHR ''/'' q)"
  by (simp add: resolve_def IsAbsolutePath_append GetPathSep_def segs_both)

lemma resolve_nodes [simp]: "resolve (fs\<lparr>nodes := n\<rparr>) p = resolve fs p"
  by (simp add: resolve_def)

section \<open>The files of a directory\<close>

datatype dtree = Leaf nat bytes | Branch "(string \<times> dtree) list"

primrec tree_type :: "dtree \<Rightarrow> nat" where
  "tree_type (Leaf ty _) = ty"
| "tree_type (Branch _) = UV_DIRENT_DIR"

fun height :: "dtree \<Rightarrow> nat" where
  "height (Leaf _ _) = 0"
| "height (Branch es) = Suc (fold max (map (\<lambda>(nm, t). height t) es) 0)"

text \<open>The files below a directory with their names, in the order in which the directories are read.\<close>

fun tree_files :: "dtree \<Rightarrow> (string list \<times> bytes) list" where
  "tree_files (Leaf _ F) = []"
| "tree_files (Branch es) = concat (map (\<lambda>(nm, t). case t of Leaf _ F \<Rightarrow> [([nm], F)]
     | Branch _ \<Rightarrow> map (\<lambda>(ns, F). (nm # ns, F)) (tree_files t)) es)"

text \<open>What \<open>scandir\<close> answers for a directory at a path; files may have any of the types that pass.\<close>

fun scans :: "(string \<Rightarrow> dir_entries option) \<Rightarrow> string \<Rightarrow> dtree \<Rightarrow> bool" where
  "scans sd p (Leaf ty _) = dirent_file ty"
| "scans sd p (Branch es) \<longleftrightarrow>
     (\<exists>ds. sd p = Some ds \<and> filter (\<lambda>(nm, ty). \<not> dot_entry nm) ds = map (\<lambda>(nm, t). (nm, tree_type t)) es)
     \<and> (\<forall>(nm, t) \<in> set es. scans sd (p @ GetPathSep # nm) t)"

lemma height_child: "(nm, t) \<in> set es \<Longrightarrow> height t < height (Branch es)"
proof -
  have m: "x \<in> set xs \<Longrightarrow> x \<le> fold max xs a" for x a :: nat and xs
  proof (induction xs arbitrary: a)
    case (Cons y ys)
    have g: "a \<le> fold max ys a" for a by (induction ys arbitrary: a) (auto intro: order_trans [OF max.cobounded2] order_trans [OF max.cobounded1])
    show ?case using Cons g [of "max y a"] by auto
  qed simp
  assume "(nm, t) \<in> set es"
  then have "height t \<in> set (map (\<lambda>(nm, t). height t) es)" by force
  from m [OF this, of 0] show ?thesis by simp
qed

definition list_entry :: "nat \<Rightarrow> (string \<Rightarrow> dir_entries option) \<Rightarrow> string \<Rightarrow> string \<Rightarrow> string \<times> nat \<Rightarrow> string list \<Rightarrow> string list option" where
  "list_entry n sd p cur en out = (case en of (nm, ty) \<Rightarrow>
     if dot_entry nm then Some out
     else if \<not> dirent_file ty then GetSubFilesRecursively n sd (p @ GetPathSep # nm) (cur @ GetPathSep # nm) out
     else Some (out @ [cur @ GetPathSep # nm]))"

lemma sub_files_fold:
  "p \<noteq> [] \<Longrightarrow> sd p = Some es \<Longrightarrow>
    GetSubFilesRecursively (Suc n) sd p cur out = foldl (\<lambda>o' en. Option.bind o' (list_entry n sd p cur en)) (Some out) es"
  by (simp add: list_entry_def [abs_def] case_prod_unfold)

lemma fold_dots:
  "foldl (\<lambda>o' en. Option.bind o' (list_entry n sd p cur en)) (Some out) es
     = foldl (\<lambda>o' en. Option.bind o' (list_entry n sd p cur en)) (Some out) (filter (\<lambda>(nm, ty). \<not> dot_entry nm) es)"
proof (induction es arbitrary: out)
  case (Cons en es)
  have n: "foldl (\<lambda>o' en. Option.bind o' (list_entry n sd p cur en)) None xs = None" for xs by (induction xs) auto
  show ?case
  proof (cases "dot_entry (fst en)")
    case True
    then show ?thesis using Cons.IH by (simp add: list_entry_def case_prod_unfold)
  next
    case False
    then show ?thesis using Cons.IH n by (cases "list_entry n sd p cur en out") (simp_all add: case_prod_unfold)
  qed
qed simp

text \<open>Every file of the tree is listed once, with the directories that lead to it; empty directories are not.\<close>

lemma lists_tree:
  assumes "scans sd p (Branch es)" "height (Branch es) \<le> n" "p \<noteq> []"
  shows "GetSubFilesRecursively n sd p cur out = Some (out @ map (\<lambda>(ns, F). cur @ below ns) (tree_files (Branch es)))"
  using assms
proof (induction n arbitrary: p cur es out)
  case (Suc n)
  obtain ds where ds: "sd p = Some ds" "filter (\<lambda>(nm, ty). \<not> dot_entry nm) ds = map (\<lambda>(nm, t). (nm, tree_type t)) es"
    using Suc.prems(1) by auto
  let ?g = "\<lambda>(nm, t). case t of Leaf _ F \<Rightarrow> [([nm], F)] | Branch _ \<Rightarrow> map (\<lambda>(ns, F). (nm # ns, F)) (tree_files t)"
  have nd: "\<not> dot_entry nm" if "(nm, t) \<in> set es" for nm t
  proof -
    have "(nm, tree_type t) \<in> set (filter (\<lambda>(nm, ty). \<not> dot_entry nm) ds)" using that unfolding ds(2) by force
    then show ?thesis by simp
  qed
  have one: "list_entry n sd p cur (nm, tree_type t) o1 = Some (o1 @ map (\<lambda>(ns, F). cur @ below ns) (?g (nm, t)))"
    if m: "(nm, t) \<in> set es" for nm t o1
  proof (cases t)
    case (Leaf ty F)
    have "scans sd (p @ GetPathSep # nm) t" using Suc.prems(1) m by auto
    then show ?thesis using nd [OF m] Leaf by (simp add: list_entry_def)
  next
    case (Branch es')
    have "scans sd (p @ GetPathSep # nm) t" using Suc.prems(1) m by (auto simp del: scans.simps(1) dest: bspec)
    then have s: "scans sd (p @ GetPathSep # nm) (Branch es')" unfolding Branch .
    have h: "height (Branch es') \<le> n" using height_child [OF m] Suc.prems(2) Branch by simp
    have "\<not> dirent_file UV_DIRENT_DIR" by (simp add: dirent_file_def UV_DIRENT_DIR_def UV_DIRENT_FILE_def)
    then show ?thesis using nd [OF m] Suc.IH [OF s h, of "cur @ GetPathSep # nm" o1] Branch
      by (simp add: list_entry_def case_prod_unfold comp_def del: tree_files.simps)
  qed
  have "foldl (\<lambda>o' en. Option.bind o' (list_entry n sd p cur en)) (Some o1) (map (\<lambda>(nm, t). (nm, tree_type t)) fs)
      = Some (o1 @ map (\<lambda>(ns, F). cur @ below ns) (concat (map ?g fs)))" if "set fs \<subseteq> set es" for fs o1
    using that
  proof (induction fs arbitrary: o1)
    case (Cons e fs)
    obtain nm t where e: "e = (nm, t)" by (cases e)
    show ?case using Cons.IH Cons.prems one [of nm t o1] by (simp add: e del: split_paired_All)
  qed simp
  from this [of es out] have "foldl (\<lambda>o' en. Option.bind o' (list_entry n sd p cur en)) (Some out) ds
      = Some (out @ map (\<lambda>(ns, F). cur @ below ns) (tree_files (Branch es)))"
    by (subst fold_dots) (simp only: ds(2) tree_files.simps order_refl simp_thms)
  then show ?case unfolding sub_files_fold [of p sd ds n cur out, OF Suc.prems(3) ds(1)] .
qed simp

text \<open>No two files of a tree with distinct clean names are the same or one below the other.\<close>

fun tree_ok :: "dtree \<Rightarrow> bool" where
  "tree_ok (Leaf _ _) = True"
| "tree_ok (Branch es) \<longleftrightarrow> distinct (map fst es) \<and> (\<forall>(nm, t) \<in> set es. clean nm \<and> tree_ok t)"

definition apart :: "string list \<Rightarrow> string list \<Rightarrow> bool" where
  "apart a b \<longleftrightarrow> \<not> prefix a b \<and> \<not> prefix b a"

lemma apart_Cons: "apart (x # a) (y # b) \<longleftrightarrow> x \<noteq> y \<or> apart a b"
  by (auto simp: apart_def)

definition entry_files :: "string \<times> dtree \<Rightarrow> (string list \<times> bytes) list" where
  "entry_files = (\<lambda>(nm, t). case t of Leaf _ F \<Rightarrow> [([nm], F)] | Branch _ \<Rightarrow> map (\<lambda>(ns, F). (nm # ns, F)) (tree_files t))"

lemma tree_files_entries: "tree_files (Branch es) = concat (map entry_files es)"
  by (simp add: entry_files_def)

lemma entry_files_head: "(ns, F) \<in> set (entry_files (nm, t)) \<Longrightarrow> \<exists>ns'. ns = nm # ns'"
  by (cases t) (auto simp: entry_files_def)

lemma entries_apart:
  assumes "distinct (map fst fs)" "\<And>e. e \<in> set fs \<Longrightarrow> sorted_wrt apart (map fst (entry_files e))"
  shows "sorted_wrt apart (map fst (concat (map entry_files fs)))"
  using assms
proof (induction fs)
  case (Cons e fs)
  have "apart a b" if a: "(a, F) \<in> set (entry_files e)" and b: "(b, G) \<in> set (entry_files e')" "e' \<in> set fs" for a b F G e'
  proof -
    obtain a' b' where "a = fst e # a'" "b = fst e' # b'"
      using entry_files_head [of a F "fst e" "snd e"] entry_files_head [of b G "fst e'" "snd e'"] a b by auto
    moreover have "fst e \<noteq> fst e'" using Cons.prems(1) b(2) by auto
    ultimately show ?thesis by (simp add: apart_Cons)
  qed
  then have "\<forall>x \<in> set (map fst (entry_files e)). \<forall>y \<in> set (map fst (concat (map entry_files fs))). apart x y" by fastforce
  then show ?case using Cons by (simp add: sorted_wrt_append)
qed simp

lemma tree_files_ok:
  "tree_ok t \<Longrightarrow> (\<forall>(ns, F) \<in> set (tree_files t). ns \<noteq> [] \<and> (\<forall>w \<in> set ns. clean w)) \<and> sorted_wrt apart (map fst (tree_files t))"
proof (induction t)
  case (Branch es)
  have one: "(\<forall>(ns, F) \<in> set (entry_files e). ns \<noteq> [] \<and> (\<forall>w \<in> set ns. clean w)) \<and> sorted_wrt apart (map fst (entry_files e))"
    if m: "e \<in> set es" for e
  proof (cases e)
    case (Pair nm t)
    show ?thesis
    proof (cases t)
      case (Leaf ty F)
      then show ?thesis using Branch.prems m Pair by (auto simp: entry_files_def)
    next
      case B: (Branch es')
      have ok: "tree_ok t" "clean nm" using Branch.prems m Pair by auto
      have ih: "(\<forall>(ns, F) \<in> set (tree_files t). ns \<noteq> [] \<and> (\<forall>w \<in> set ns. clean w)) \<and> sorted_wrt apart (map fst (tree_files t))"
        using Branch.IH [OF m _ ok(1)] Pair by simp
      have f: "entry_files e = map (\<lambda>(ns, F). (nm # ns, F)) (tree_files t)" using Pair B by (simp add: entry_files_def del: tree_files.simps)
      have "sorted_wrt apart (map fst (entry_files e))"
        using ih unfolding f by (simp add: sorted_wrt_map apart_Cons case_prod_unfold comp_def)
      moreover have "\<forall>(ns, F) \<in> set (entry_files e). ns \<noteq> [] \<and> (\<forall>w \<in> set ns. clean w)" using ih ok(2) unfolding f by fastforce
      ultimately show ?thesis by blast
    qed
  qed
  have "distinct (map fst es)" using Branch.prems by simp
  then have "sorted_wrt apart (map fst (tree_files (Branch es)))"
    unfolding tree_files_entries using one by (intro entries_apart) blast+
  moreover have "\<forall>(ns, F) \<in> set (tree_files (Branch es)). ns \<noteq> [] \<and> (\<forall>w \<in> set ns. clean w)"
    unfolding tree_files_entries using one by fastforce
  ultimately show ?case by blast
qed simp

section \<open>Where the slave puts a file\<close>

text \<open>The file system after one file: itself, and the directories that lead to it.\<close>

definition with_dirs :: "string list \<Rightarrow> string list \<Rightarrow> fsys \<Rightarrow> fsys" where
  "with_dirs R ds fs = fs\<lparr>nodes := (\<lambda>q. if \<exists>k \<in> {1..length ds}. q = R @ take k ds then Some DirNode else nodes fs q)\<rparr>"

definition put_file :: "string list \<Rightarrow> string list \<times> bytes \<Rightarrow> fsys \<Rightarrow> fsys" where
  "put_file R nf fs = (case nf of (ns, F) \<Rightarrow> (with_dirs R (butlast ns) fs)\<lparr>nodes := (nodes (with_dirs R (butlast ns) fs))(R @ ns \<mapsto> Reg F)\<rparr>)"

text \<open>There is room for a file: nothing but directories on the way, and no node or a writable file at the end.\<close>

definition room :: "fsys \<Rightarrow> string list \<Rightarrow> string list \<Rightarrow> bool" where
  "room fs R ns \<longleftrightarrow> node_at fs R = Some DirNode
     \<and> (\<forall>k \<in> {1..<length ns}. nodes fs (R @ take k ns) \<in> {None, Some DirNode})
     \<and> (case nodes fs (R @ ns) of None \<Rightarrow> True | Some (Reg _) \<Rightarrow> access_ok fs False (R @ ns) | _ \<Rightarrow> False)"

lemma with_dirs_Cons:
  "with_dirs R (w # ws) fs = with_dirs (R @ [w]) ws (fs\<lparr>nodes := (nodes fs)(R @ [w] \<mapsto> DirNode)\<rparr>)"
proof -
  have u: "{1..length (w # ws)} = insert 1 (Suc ` {1..length ws})"
    by (simp add: image_Suc_atLeastAtMost) auto
  have "(\<exists>k \<in> {1..length (w # ws)}. q = R @ take k (w # ws)) \<longleftrightarrow> q = R @ [w] \<or> (\<exists>k \<in> {1..length ws}. q = (R @ [w]) @ take k ws)" for q
    unfolding u by (simp del: image_Suc_atLeastAtMost)
  then show ?thesis unfolding with_dirs_def by (simp add: fun_eq_iff)
qed

lemma make_dirs_result:
  assumes "p \<noteq> []" "resolve fs p = R" "\<forall>w \<in> set ws. clean w" "node_at fs R = Some DirNode"
    and "\<forall>k \<in> {1..length ws}. nodes fs (R @ take k ws) \<in> {None, Some DirNode}"
  shows "make_dirs p sh ws fs = (sh @ below ws, with_dirs R ws fs)"
  using assms
proof (induction ws arbitrary: p sh fs R)
  case Nil
  then show ?case by (simp add: with_dirs_def)
next
  case (Cons w ws)
  let ?p = "p @ GetPathSep # w" and ?R = "R @ [w]"
  let ?fs = "fs\<lparr>nodes := (nodes fs)(?R \<mapsto> DirNode)\<rparr>"
  have r: "resolve fs ?p = ?R" using resolve_below [of p "[w]" fs] Cons.prems by simp
  have n: "nodes fs ?R \<in> {None, Some DirNode}" using Cons.prems(5) by (auto dest!: bspec [of _ _ 1])
  have fs: "(if lstat fs ?p = None then mkdir fs ?p else fs) = ?fs"
  proof (cases "nodes fs ?R")
    case None
    then show ?thesis using r Cons.prems(4) by (cases "R = []") (simp_all add: lstat_def mkdir_def node_at_def Let_def)
  next
    case (Some x)
    then have "x = DirNode" "lstat fs ?p = Some S_IFDIR" using n r by (simp_all add: lstat_def node_at_def)
    then show ?thesis using Some by (simp add: fun_upd_idem)
  qed
  have "make_dirs ?p (sh @ GetPathSep # w) ws ?fs = ((sh @ GetPathSep # w) @ below ws, with_dirs ?R ws ?fs)"
  proof (rule Cons.IH)
    show "resolve ?fs ?p = ?R" using r by simp
    show "\<forall>k \<in> {1..length ws}. nodes ?fs (?R @ take k ws) \<in> {None, Some DirNode}"
    proof
      fix k assume k: "k \<in> {1..length ws}"
      then have "Suc k \<in> {1..length (w # ws)}" by simp
      then have "nodes fs (R @ take (Suc k) (w # ws)) \<in> {None, Some DirNode}" using Cons.prems(5) by blast
      then show "nodes ?fs (?R @ take k ws) \<in> {None, Some DirNode}" by simp
    qed
  qed (use Cons.prems in \<open>simp_all add: node_at_def\<close>)
  then show ?case by (simp add: fs with_dirs_Cons Let_def)
qed

lemma put_file_nodes:
  assumes "ns \<noteq> []"
  shows "nodes (put_file R (ns, F) fs) q =
    (if q = R @ ns then Some (Reg F) else if \<exists>k \<in> {1..<length ns}. q = R @ take k ns then Some DirNode else nodes fs q)"
proof -
  have "(\<exists>k \<in> {1..length (butlast ns)}. q = R @ take k (butlast ns)) \<longleftrightarrow> (\<exists>k \<in> {1..<length ns}. q = R @ take k ns)"
    using assms by (intro bex_cong) (auto simp: take_butlast)
  then show ?thesis unfolding put_file_def with_dirs_def by simp
qed

lemma put_file_same [simp]: "fs_cwd (put_file R nf fs) = fs_cwd fs" "access_ok (put_file R nf fs) = access_ok fs"
    "resolve (put_file R nf fs) p = resolve fs p"
  by (simp_all add: put_file_def with_dirs_def split: prod.splits)

lemma with_dirs_same [simp]: "fs_cwd (with_dirs R ds fs) = fs_cwd fs" "access_ok (with_dirs R ds fs) = access_ok fs"
    "resolve (with_dirs R ds fs) p = resolve fs p"
  by (simp_all add: with_dirs_def)

lemma take_prefix: "prefix (take k xs) xs"
  by (simp add: take_is_prefix)

text \<open>A file elsewhere in the tree does not take the room of another.\<close>

lemma room_after:
  assumes "room fs R ns" "ns \<noteq> []" "ms \<noteq> []" "apart ns ms"
  shows "room (put_file R (ms, F) fs) R ns"
proof -
  note n = put_file_nodes [OF assms(3), of R F fs]
  have nt: "take k ns \<noteq> ms" for k using assms(4) take_prefix [of k ns] by (auto simp: apart_def)
  have nm: "ns \<noteq> take k ms" for k using assms(4) take_prefix [of k ms] by (auto simp: apart_def)
  have nn: "ns \<noteq> ms" using assms(4) by (auto simp: apart_def)
  have R0: "R \<noteq> R @ ms" "\<And>k. k \<in> {1..<length ms} \<Longrightarrow> R \<noteq> R @ take k ms" using assms(3) by auto
  have "node_at (put_file R (ms, F) fs) R = node_at fs R" using n [of R] R0 by (auto simp: node_at_def)
  moreover have "nodes (put_file R (ms, F) fs) (R @ ns) = nodes fs (R @ ns)" using n [of "R @ ns"] nm nn by auto
  moreover have "nodes (put_file R (ms, F) fs) (R @ take k ns) \<in> {None, Some DirNode}" if "k \<in> {1..<length ns}" for k
    using n [of "R @ take k ns"] nt [of k] assms(1) that by (auto simp: room_def)
  ultimately show ?thesis using assms(1) by (auto simp: room_def split: option.splits node.splits)
qed

text \<open>The slave makes the directories and opens the file below the directory that was named.\<close>

lemma slave_path:
  assumes rm: "room fs R ns" and d: "IsAbsolutePath d" "CHR 0x00 \<notin> set d" "resolve fs d = R"
    and ns: "2 \<le> length ns" "\<forall>w \<in> set ns. clean w" and len: "length d + length (below ns) + 1 < MAX_SIZE_IOBUF"
  shows "SmartSlavePath srv cw d (join GetPathSep ns) fs = Some (False, d @ GetPathSep # below ns, with_dirs R (butlast ns) fs)"
    and "open_trunc (with_dirs R (butlast ns) fs) (d @ GetPathSep # below ns) = Some (put_file R (ns, []) fs)"
    and "resolve fs (d @ GetPathSep # below ns) = R @ ns"
proof -
  have ne: "ns \<noteq> []" "d \<noteq> []" "butlast ns \<noteq> []" using ns(1) d(1) by (auto simp: IsAbsolutePath_def) (cases ns; cases "tl ns"; simp)
  have cs: "CHR 0x00 \<notin> set s \<Longrightarrow> c_str s = s" for s unfolding c_str_def by (induction s) auto
  have cd: "c_str d = d" using d(2) by (rule cs)
  have z: "CHR 0x00 \<notin> set (below ws)" if "\<forall>w \<in> set ws. clean w" for ws
    using that by (auto simp: below_def clean_def GetPathSep_def)
  have j: "GetPathSep # join GetPathSep ns = below ns" by (rule join_below [OF ne(1)])
  have zj: "CHR 0x00 \<notin> set (join GetPathSep ns)" using z [OF ns(2)] j by (metis list.set_intros(2))
  then have cj: "c_str (join GetPathSep ns) = join GetPathSep ns" by (rule cs)
  obtain v vs where v: "ns = v # vs" using ne(1) by (cases ns) auto
  then have "vs \<noteq> []" using ns(1) by auto
  then have sl: "CHR ''/'' \<in> set (join GetPathSep ns)" unfolding v by (cases vs) (auto simp: GetPathSep_def)
  have sp: "SplitString (join GetPathSep ns) ''/'' = Some ns"
    using SplitString_join [of ns GetPathSep] ns(2) by (simp add: clean_def GetPathSep_def)
  have dir: "node_at fs R = Some DirNode" using rm by (simp add: room_def)
  have ls: "lstat fs d = Some S_IFDIR" "lstat (with_dirs R (butlast ns) fs) d = Some S_IFDIR"
    using dir ne(2) d(3)
    by (auto simp: lstat_def node_at_def with_dirs_def)
  have S: "S_IFDIR AND S_IFDIR \<noteq> 0" by (simp add: S_IFDIR_def)
  have bl: "\<forall>w \<in> set (butlast ns). clean w" using ns(2) by (auto dest: in_set_butlastD)
  have md: "make_dirs d '''' (butlast ns) fs = (below (butlast ns), with_dirs R (butlast ns) fs)"
  proof -
    have "\<forall>k \<in> {1..length (butlast ns)}. nodes fs (R @ take k (butlast ns)) \<in> {None, Some DirNode}"
    proof
      fix k assume "k \<in> {1..length (butlast ns)}"
      then have "k \<in> {1..<length ns}" by auto
      then show "nodes fs (R @ take k (butlast ns)) \<in> {None, Some DirNode}"
        using rm by (simp add: room_def take_butlast)
    qed
    then show ?thesis using make_dirs_result [OF ne(2) d(3) bl dir, of "''''"] by simp
  qed
  have b: "below (butlast ns) @ GetPathSep # last ns = below ns"
    using ne(1) by (metis append_Nil2 append_butlast_last_id below_simps)
  have cb: "c_str (below ns) = below ns" using z [OF ns(2)] by (rule cs)
  show "SmartSlavePath srv cw d (join GetPathSep ns) fs = Some (False, d @ GetPathSep # below ns, with_dirs R (butlast ns) fs)"
    unfolding SmartSlavePath_def Let_def
    using d(1) ne ls S len by (simp add: ExtractRelativePath_def cd cj sl sp md b cb CheckDirectoryOrPath_def formatted_def)
  show r: "resolve fs (d @ GetPathSep # below ns) = R @ ns"
    using resolve_extra [OF ne(2), of fs "below ns"] segs_below [OF ns(2), of "''''"] d(3) clean_filter [OF ns(2)] by simp
  have r2: "resolve (with_dirs R (butlast ns) fs) (d @ GetPathSep # below ns) = R @ ns" using r by simp
  have last_in: "R @ ns \<noteq> R @ take k (butlast ns)" for k
  proof
    assume "R @ ns = R @ take k (butlast ns)"
    then have "length ns = length (take k (butlast ns))" by simp
    moreover have "length (take k (butlast ns)) \<le> length ns - 1" by simp
    moreover have "0 < length ns" using ne(1) by simp
    ultimately show False by linarith
  qed
  have "nodes (with_dirs R (butlast ns) fs) (R @ ns) = nodes fs (R @ ns)"
    using last_in by (auto simp: with_dirs_def)
  moreover have "node_at (with_dirs R (butlast ns) fs) (butlast (R @ ns)) = Some DirNode"
  proof -
    have "\<exists>k \<in> {1..length (butlast ns)}. R @ butlast ns = R @ take k (butlast ns)"
      using ns(1) by (intro bexI [of _ "length (butlast ns)"]) auto
    then have "nodes (with_dirs R (butlast ns) fs) (R @ butlast ns) = Some DirNode"
      by (simp add: with_dirs_def)
    then show ?thesis using ne(1) by (simp add: butlast_append node_at_def)
  qed
  ultimately show "open_trunc (with_dirs R (butlast ns) fs) (d @ GetPathSep # below ns) = Some (put_file R (ns, []) fs)"
    using rm ne(1) r2 by (auto simp: open_trunc_def node_at_def put_file_def room_def Let_def split: option.splits node.splits)
qed

section \<open>One file\<close>

text \<open>
  One file, from the master's request to open it to the message by which it is told that the slave has
  it: the master opens and describes the file, the slave checks and opens its own, the master reads
  and sends, the slave writes. \<open>dt\<close> holds the descriptor and the times of the file.
\<close>

definition opened :: "int \<Rightarrow> u64 \<times> u64 \<times> u64 \<Rightarrow> file_task \<Rightarrow> file_task" where
  "opened fd st t = on_xfer (\<lambda>x. OnFileOpen (cmd CMD_FILE_BEGIN) fd st (x\<lparr>reqs := []\<rparr>)) t"

inductive file_round :: "file_env \<Rightarrow> fsys \<Rightarrow> file_task \<times> file_task \<times> fsys \<Rightarrow> file_task \<times> file_task \<times> fsys \<Rightarrow> bool" for e mfs where
  file_round:
  "reqs (xfer m) = [FsOpen p] \<Longrightarrow> node_at mfs (resolve mfs p) = Some (Reg F) \<Longrightarrow> 0 \<le> fd \<Longrightarrow>
   m1 = opened fd (word_of_nat (length F), ati, mt) m \<Longrightarrow> sent (xfer m1) = sent (xfer m) @ [(k1, cfg)] \<Longrightarrow>
   file_dispatch e k1 cfg (s, sfs) = Some (True, s1, sfs1) \<Longrightarrow> reqs (xfer s1) = [FsOpen q] \<Longrightarrow>
   open_trunc sfs1 q = Some sfs2 \<Longrightarrow> s2 = opened fd st s1 \<Longrightarrow> sent (xfer s2) = sent (xfer s1) @ [(k2, b)] \<Longrightarrow>
   file_dispatch e k2 b (m1, mfs) = Some (True, m2, mfs) \<Longrightarrow>
   (master_step (e_lz4 e) (cmd CMD_FILE_DATA) F)\<^sup>*\<^sup>* (xfer m2) x3 \<Longrightarrow> ioFinish (ctxNow x3) \<Longrightarrow>
   sent x3 = sent (xfer m2) @ bs \<Longrightarrow>
   (slave_step (e_lz4 e) (e_payload e) (cmd CMD_FILE_BEGIN) (cmd CMD_FILE_DATA) pwrite)\<^sup>*\<^sup>* (bs, xfer s2, []) ([], y3, f) \<Longrightarrow>
   sent y3 = sent (xfer s2) @ [(k3, c)] \<Longrightarrow>
   file_dispatch e k3 c (m2\<lparr>xfer := OnFileClose (x3\<lparr>reqs := []\<rparr>)\<rparr>, mfs) = Some (True, m5, mfs) \<Longrightarrow>
   file_round e mfs (m, s, sfs) (m5, s2\<lparr>xfer := y3\<rparr>, sfs2\<lparr>nodes := (nodes sfs2)(resolve sfs2 q \<mapsto> Reg f)\<rparr>)"

lemma file_roundE:
  assumes "file_round e mfs (m, s, sfs) (m', s', sfs')"
  obtains p F fd m1 ati mt k1 cfg s1 sfs1 q sfs2 s2 st k2 b m2 x3 bs y3 f k3 c where
    "reqs (xfer m) = [FsOpen p]" "node_at mfs (resolve mfs p) = Some (Reg F)" "0 \<le> fd"
    "m1 = opened fd (word_of_nat (length F), ati, mt) m" "sent (xfer m1) = sent (xfer m) @ [(k1, cfg)]"
    "file_dispatch e k1 cfg (s, sfs) = Some (True, s1, sfs1)" "reqs (xfer s1) = [FsOpen q]"
    "open_trunc sfs1 q = Some sfs2" "s2 = opened fd st s1" "sent (xfer s2) = sent (xfer s1) @ [(k2, b)]"
    "file_dispatch e k2 b (m1, mfs) = Some (True, m2, mfs)"
    "(master_step (e_lz4 e) (cmd CMD_FILE_DATA) F)\<^sup>*\<^sup>* (xfer m2) x3" "ioFinish (ctxNow x3)"
    "sent x3 = sent (xfer m2) @ bs"
    "(slave_step (e_lz4 e) (e_payload e) (cmd CMD_FILE_BEGIN) (cmd CMD_FILE_DATA) pwrite)\<^sup>*\<^sup>* (bs, xfer s2, []) ([], y3, f)"
    "sent y3 = sent (xfer s2) @ [(k3, c)]"
    "file_dispatch e k3 c (m2\<lparr>xfer := OnFileClose (x3\<lparr>reqs := []\<rparr>)\<rparr>, mfs) = Some (True, m', mfs)"
    "s' = s2\<lparr>xfer := y3\<rparr>" "sfs' = sfs2\<lparr>nodes := (nodes sfs2)(resolve sfs2 q \<mapsto> Reg f)\<rparr>"
  using assms by (cases rule: file_round.cases) (rule that, assumption+)

text \<open>The parts of a context no block changes.\<close>

definition kept :: "CtxFile \<Rightarrow> CtxFile" where
  "kept c = c\<lparr>cf_indexIO := 0, ioFinish := False, closeNotify := False, lastErrno := 0, fileCnt := 0, cf_dirSize := 0\<rparr>"

lemma kept_upd [simp]:
  "kept (c\<lparr>cf_indexIO := a\<rparr>) = kept c" "kept (c\<lparr>ioFinish := b\<rparr>) = kept c" "kept (c\<lparr>closeNotify := b\<rparr>) = kept c"
  "kept (c\<lparr>lastErrno := n\<rparr>) = kept c" "kept (c\<lparr>fileCnt := k\<rparr>) = kept c" "kept (c\<lparr>cf_dirSize := a\<rparr>) = kept c"
  by (simp_all add: kept_def)

lemma kept_fields:
  assumes "kept c = kept d"
  shows "cf_fileSize c = cf_fileSize d" "isDir c = isDir d" "localName c = localName d" "localPath c = localPath d"
    "remotePath c = remotePath d" "localDirName c = localDirName d" "master c = master d" "taskQueue c = taskQueue d"
    "transferConfig c = transferConfig d"
  using assms by (cases c; cases d; simp add: kept_def)+

lemma SimpleFileIO_ctx: "ctxNow (snd (SimpleFileIO idx src n x)) = ctxNow x"
  by (simp add: SimpleFileIO_def)

lemma SendToAnother_ctx: "ctxNow (snd (SendToAnother c bs x)) = ctxNow x"
  by (simp add: SendToAnother_def)

lemma io_result_kept: "kept (ctxNow (io_result L cd req result d x)) = kept (ctxNow x)"
proof -
  have s: "ctxNow (snd (SendIOPayload_to L cd off dat y)) = ctxNow y" for off dat y
    by (auto simp: SendIOPayload_to_def SendToAnother_ctx split: option.splits)
  show ?thesis
    unfolding io_result_def Let_def
    by (auto simp: ctx_upd_def SetFileTime_def SimpleFileIO_ctx s split: fs_req.splits prod.splits bool.splits dest!: arg_cong [where f = snd])
qed

lemma OnFileIO_kept: "kept (ctxNow (OnFileIO L cd req result d x)) = kept (ctxNow x)"
  by (simp add: OnFileIO_def Let_def io_result_kept)

lemma OnFileClose_kept: "kept (ctxNow (OnFileClose x)) = kept (ctxNow x)"
  by (simp add: OnFileClose_def WhenTransferFinish_def SendToAnother_ctx ctx_upd_def Let_def)

lemma CommandDispatch_ctx: "CommandDispatch L pld cb cd c p x = Some (ok, x') \<Longrightarrow> ctxNow x' = ctxNow x"
  by (auto simp: CommandDispatch_def split: if_splits received.splits prod.splits dest!: arg_cong [where f = snd] simp: SimpleFileIO_ctx)

lemma master_run_kept: "(master_step L c F)\<^sup>*\<^sup>* x y \<Longrightarrow> kept (ctxNow y) = kept (ctxNow x)"
  by (induction rule: rtranclp_induct) (auto elim!: master_stepE simp: OnFileIO_kept)

lemma slave_run_kept:
  "(slave_step L pld cb cd pw)\<^sup>*\<^sup>* s s' \<Longrightarrow> kept (ctxNow (fst (snd s'))) = kept (ctxNow (fst (snd s)))"
  by (induction rule: rtranclp_induct) (auto elim!: slave_stepE simp: OnFileIO_kept OnFileClose_kept CommandDispatch_ctx)

text \<open>The count of files and their size, before the finish notice and after it.\<close>

definition counted :: "(u16 \<times> bytes) list \<Rightarrow> u32 \<Rightarrow> u64 \<Rightarrow> transfer \<Rightarrow> bool" where
  "counted s0 n a x \<longleftrightarrow> (let c = ctxNow x in
     (if sent x = s0 then fileCnt c = n \<and> cf_dirSize c = a else fileCnt c = n + 1 \<and> cf_dirSize c = a + cf_indexIO c)
     \<and> (ioFinish c \<longrightarrow> cf_indexIO c = cf_fileSize c))"

lemma tot_bound:
  assumes "mset (spans 0 got) = mset ws + mset os" "(i, d) \<in> set os" "concat (got @ rest) = F"
  shows "tot ws + length d \<le> length F"
proof -
  have "tot ws + tot os = length (concat got)" using tot_mset [of "spans 0 got" "ws @ os"] assms(1) by (simp add: tot_spans tot_simps)
  moreover have "length d \<le> tot os"
    using assms(2) by (induction os) (auto simp: tot_def)
  moreover have "length (concat got) \<le> length F" using assms(3) by auto
  ultimately show ?thesis by linarith
qed

lemma wrote_counted:
  assumes st: "storing L ct cd F cs (inc, x, f)" and t: "transferable L ct F cs" and fs: "cf_fileSize (ctxNow x) = word_of_nat (length F)"
    and rq: "reqs x = rs @ FsWrite off d # rs'" and c: "counted s0 n a x" "sent x = s0" and m: "\<not> master (ctxNow x)"
  shows "counted s0 n a (OnFileIO L cd (FsWrite off d) (int (length d)) [] (x\<lparr>reqs := rs @ rs'\<rparr>))"
proof -
  obtain got rest ws os where g: "cs = got @ rest" "reqs x = map (\<lambda>(i, d). FsWrite (word_of_nat i) d) os"
    "mset (spans 0 got) = mset ws + mset os" "cf_indexIO (ctxNow x) = word_of_nat (tot ws)" "\<not> ioFinish (ctxNow x)"
    using st by (auto simp: storing_def)
  have "FsWrite off d \<in> set (map (\<lambda>(i, d). FsWrite (word_of_nat i) d) os)" using g(2) rq by (metis in_set_conv_decomp)
  then obtain i where "(i, d) \<in> set os" by auto
  moreover have F: "concat (got @ rest) = F" "length F < 2 ^ 31" using t g(1) by (auto simp: transferable_def chunks_def)
  ultimately have b: "tot ws + length d \<le> length F" using tot_bound [OF g(3)] by blast
  have le: "word_of_nat (tot ws + length d) \<le> (word_of_nat (length F) :: u64)"
    using b F(2) by (simp add: word_le_nat_alt unat_of_nat del: of_nat_add)
  show ?thesis using c g(4,5) fs le
    by (auto simp: counted_def OnFileIO_def io_result_def Let_def ctx_upd_def SetFileTime_def)
qed

lemma slave_step_counted:
  assumes s: "slave_step L pld cb cd pw s s'" and i: "slave_inv L ct cd F cs s0 s" and c: "counted s0 n a (fst (snd s))"
    and t: "transferable L ct F cs" "cb \<noteq> cd"
  shows "counted s0 n a (fst (snd s'))"
  using s
proof cases
  case (slave_recv k p x ok x' inc f)
  have i': "\<not> master (ctxNow x)" "storing L ct cd F cs ((k, p) # inc, x, f)" "sent x = s0"
    using i slave_recv(1) by (auto simp: slave_inv_def stored_def)
  have "ctxNow x' = ctxNow x" using CommandDispatch_ctx [OF slave_recv(3)] .
  moreover have "sent x' = s0" using slave_recv(3) i'(3) slave_recv_inv [OF t i'(2,1), of pld] by auto
  ultimately show ?thesis using c i'(3) by (simp add: slave_recv(1,2) counted_def)
next
  case (slave_wrote x rs off d rs' inc f)
  have i': "\<not> master (ctxNow x)" "cf_fileSize (ctxNow x) = word_of_nat (length F)" "storing L ct cd F cs (inc, x, f)" "sent x = s0"
    using i slave_wrote(1,3) by (auto simp: slave_inv_def stored_def append_eq_Cons_conv Cons_eq_append_conv split: if_splits)
  show ?thesis using wrote_counted [OF i'(3) t(1) i'(2) slave_wrote(3) _ i'(4,1)] c by (simp add: slave_wrote(1,2))
next
  case (slave_closed x rs rs' inc f)
  have "FsClose \<notin> set (reqs x)" if "storing L ct cd F cs (inc, x, f)" using that by (auto simp: storing_def)
  then have "stored F s0 (inc, x, f)" "up x" "\<not> singalStop x" using i slave_closed(1,3) by (auto simp: slave_inv_def)
  then show ?thesis using c slave_closed(3)
    by (auto simp: slave_closed(1,2) stored_def counted_def OnFileClose_def WhenTransferFinish_def SendToAnother_def ctx_upd_def Let_def split: if_splits)
qed

section \<open>The phases of a file\<close>

definition name_of :: "string list \<Rightarrow> string" where
  "name_of ns = join GetPathSep ns"

text \<open>The master about to open the first of the files that are left.\<close>

definition sending :: "fsys \<Rightarrow> string \<Rightarrow> (string list \<times> bytes) list \<Rightarrow> file_task \<Rightarrow> bool" where
  "sending mfs d files m \<longleftrightarrow> (let c = ctx m; tc = transferConfig c in
     files \<noteq> [] \<and> localName c = name_of (fst (hd files)) \<and> localPath c = localDirName c @ localName c
     \<and> taskQueue c = rev (map (name_of \<circ> fst) (tl files)) \<and> isDir c \<and> master c \<and> remotePath c = d
     \<and> reqs (xfer m) = [FsOpen (localPath c)] \<and> up (xfer m) \<and> \<not> singalStop (xfer m)
     \<and> (\<forall>(ns, F) \<in> set files. node_at mfs (resolve mfs (localDirName c @ name_of ns)) = Some (Reg F) \<and> length F < 2 ^ 31
          \<and> config_ok (tc\<lparr>tc_path := d, optionalName := name_of ns\<rparr>))
     \<and> compressType tc = COMPRESS_NONE \<and> \<not> updateIfNew tc)"

definition waiting :: "file_task \<Rightarrow> bool" where
  "waiting s \<longleftrightarrow> reqs (xfer s) = [] \<and> refCount (xfer s) = 0 \<and> up (xfer s) \<and> \<not> singalStop (xfer s)"

definition described :: "u64 \<Rightarrow> u64 \<times> u64 \<Rightarrow> CtxFile \<Rightarrow> TransferConfig" where
  "described sz am c = (let tc1 = (transferConfig c)\<lparr>fileSize := sz, optionalName := localName c\<rparr>;
     tc2 = (if holdTimestamp (transferConfig c) then tc1\<lparr>atime := fst am, mtime := snd am\<rparr> else tc1) in tc2\<lparr>tc_path := remotePath c\<rparr>)"

lemma master_opens:
  assumes "up (xfer m)" "\<not> singalStop (xfer m)" "master (ctx m)" "0 \<le> fd"
  shows "sent (xfer (opened fd (sz, ati, mt) m)) = sent (xfer m) @ [(cmd CMD_FILE_CHECK, WriteMessage Descriptor_TransferConfig (described sz (ati, mt) (ctx m)))]"
    and "ctx (opened fd (sz, ati, mt) m) = (ctx m)\<lparr>closeNotify := False, cf_indexIO := 0, lastErrno := 0, ioFinish := False,
      transferConfig := described sz (ati, mt) (ctx m), cf_fileSize := sz\<rparr>"
    and "up (xfer (opened fd (sz, ati, mt) m))" "\<not> singalStop (xfer (opened fd (sz, ati, mt) m))" "reqs (xfer (opened fd (sz, ati, mt) m)) = []"
  using assms
  by (simp_all add: opened_def on_xfer_def OnFileOpen_def Let_def ctx_upd_def ResetCtx_def SendToAnother_def described_def)

lemma base_other: "c \<noteq> cmd CMD_FILE_BEGIN \<Longrightarrow> c \<noteq> cmd CMD_FILE_DATA \<Longrightarrow>
    CommandDispatch L pld (cmd CMD_FILE_BEGIN) (cmd CMD_FILE_DATA) c p x = Some (True, x)"
  by (simp add: CommandDispatch_def)

definition checked :: "file_env \<Rightarrow> TransferConfig \<Rightarrow> string \<Rightarrow> file_task \<Rightarrow> file_task" where
  "checked e tc lp s = (let s1 = open_local (on_ctx (\<lambda>c. c\<lparr>transferConfig := tc, cf_fileSize := fileSize tc, localPath := lp, master := False\<rparr>) s)
     in s1\<lparr>transferDirBegin := (if transferDirBegin s1 = 0 then e_now e else transferDirBegin s1), transferBegin := e_now e\<rparr>)"

text \<open>Where a file goes: the path, and the file system before and after it is opened.\<close>

definition goes_to :: "string \<Rightarrow> string list \<Rightarrow> fsys \<Rightarrow> string \<Rightarrow> fsys \<Rightarrow> fsys \<Rightarrow> bool" where
  "goes_to d ns fs q fs1 fs2 \<longleftrightarrow> (\<forall>srv cw. \<exists>found. SmartSlavePath srv cw d (name_of ns) fs = Some (found, q, fs1))
     \<and> open_trunc fs1 q = Some fs2"

lemma slave_checks:
  assumes "config_ok tc" "\<not> updateIfNew tc" "tc_path tc = d" "optionalName tc = name_of ns" and g: "goes_to d ns fs q fs1 fs2"
  shows "file_dispatch e (cmd CMD_FILE_CHECK) (WriteMessage Descriptor_TransferConfig tc) (s, fs) = Some (True, checked e tc q s, fs1)"
proof -
  have p: "ParseFromString Descriptor_TransferConfig m0 (chars_of (WriteMessage Descriptor_TransferConfig tc)) = Some (True, tc)" for m0
    using transfer_config_roundtrip [OF assms(1), of m0] by (simp add: SerializeToString_def)
  obtain found where q: "SmartSlavePath (on_server s) (clientCwd tc) d (name_of ns) fs = Some (found, q, fs1)"
    using g unfolding goes_to_def by blast
  show ?thesis
    unfolding file_dispatch_def
    using q by (simp add: base_other cmd_inj SlaveCheck_def p assms(2-4) checked_def Let_def on_xfer_def ctx_upd_def del: cmd.simps)
qed

lemma checked_facts:
  assumes "waiting s"
  shows "reqs (xfer (checked e tc lp s)) = [FsOpen lp]" "refCount (xfer (checked e tc lp s)) = 1" "up (xfer (checked e tc lp s))"
    "\<not> singalStop (xfer (checked e tc lp s))" "sent (xfer (checked e tc lp s)) = sent (xfer s)"
    "ctx (checked e tc lp s) = (ctx s)\<lparr>transferConfig := tc, cf_fileSize := fileSize tc, localPath := lp, master := False\<rparr>"
  using assms by (simp_all add: waiting_def checked_def open_local_def on_xfer_def ctx_upd_def Let_def)

lemma slave_opens:
  assumes "up (xfer s)" "\<not> singalStop (xfer s)" "\<not> master (ctx s)" "refCount (xfer s) = 1" "0 \<le> fd"
  shows "sent (xfer (opened fd st s)) = sent (xfer s) @ [(cmd CMD_FILE_BEGIN, [])]"
    and "ctx (opened fd st s) = (ctx s)\<lparr>closeNotify := False, cf_indexIO := 0, lastErrno := 0, ioFinish := False\<rparr>"
    and "cf_fileSize (ctx s) = word_of_nat (length F) \<Longrightarrow> slave_start F (xfer (opened fd st s))"
  using assms
  by (simp_all add: opened_def on_xfer_def OnFileOpen_def Let_def ctx_upd_def ResetCtx_def SendToAnother_def slave_start_def)

lemma master_begins:
  assumes "master (ctx m)" "\<not> ioFinish (ctx m)" "cf_indexIO (ctx m) = 0" "cf_fileSize (ctx m) = word_of_nat (length F)"
    "compressType (transferConfig (ctx m)) = ct" "up (xfer m)" "\<not> singalStop (xfer m)" "reqs (xfer m) = []"
  shows "\<exists>m2. file_dispatch e (cmd CMD_FILE_BEGIN) [] (m, fs) = Some (True, m2, fs) \<and> master_start ct F (xfer m2)
    \<and> ctx m2 = ctx m \<and> sent (xfer m2) = sent (xfer m)"
proof -
  have "\<not> block_size < 0" "0 \<le> block_size" using block_size_pos by simp_all
  then show ?thesis using assms
    by (simp add: file_dispatch_def CommandDispatch_def SimpleFileIO_def master_start_def cmd_inj del: cmd.simps)
qed

lemma master_run_closeNotify: "(master_step L c F)\<^sup>*\<^sup>* x y \<Longrightarrow> closeNotify (ctxNow y) = closeNotify (ctxNow x)"
proof (induction rule: rtranclp_induct)
  case (step y z)
  have s: "ctxNow (snd (SendIOPayload_to L c off dat y)) = ctxNow y" for off dat y
    by (auto simp: SendIOPayload_to_def SendToAnother_ctx split: option.splits)
  have "closeNotify (ctxNow (OnFileIO L c (FsRead off n) (int k) d y)) = closeNotify (ctxNow y)" for off n k d y
    by (auto simp: OnFileIO_def io_result_def Let_def ctx_upd_def SimpleFileIO_ctx s split: prod.splits bool.splits dest!: arg_cong [where f = snd])
  from this [where k = 0] this step show ?case by (auto elim!: master_stepE)
qed simp

text \<open>The destination: an absolute path that names a directory, and what the names must be.\<close>

definition names_ok :: "string \<Rightarrow> string list \<Rightarrow> bool" where
  "names_ok d ns \<longleftrightarrow> 2 \<le> length ns \<and> (\<forall>w \<in> set ns. clean w) \<and> length d + length (below ns) + 1 < MAX_SIZE_IOBUF"

definition dest_ok :: "string \<Rightarrow> bool" where
  "dest_ok d \<longleftrightarrow> IsAbsolutePath d \<and> CHR 0x00 \<notin> set d"

definition finished :: "file_task \<Rightarrow> bool" where
  "finished m \<longleftrightarrow> sent (xfer m) \<noteq> [] \<and> last (sent (xfer m)) = (cmd CMD_FILE_FINISH, [0]) \<and> reqs (xfer m) = []"

lemma master_continues:
  assumes s: "sending mfs d ((ns, F) # rest) m" and k: "kept (ctx m4) = kept ((ctx m)\<lparr>transferConfig := tc, cf_fileSize := sz\<rparr>)"
    and tc: "tc = described sz' am (ctx m)" and r: "reqs (xfer m4) = []" "up (xfer m4)" "\<not> singalStop (xfer m4)"
  shows "\<exists>m5. file_dispatch e (cmd CMD_FILE_FINISH) [1] (m4, mfs) = Some (True, m5, mfs)
    \<and> (if rest = [] then finished m5 else sending mfs d rest m5)"
proof -
  have f: "isDir (ctx m4)" "taskQueue (ctx m4) = rev (map (name_of \<circ> fst) rest)" "localDirName (ctx m4) = localDirName (ctx m)"
    "master (ctx m4)" "remotePath (ctx m4) = d" "transferConfig (ctx m4) = tc"
    using kept_fields [OF k] s by (simp_all add: sending_def Let_def)
  let ?m = "m4\<lparr>transferBegin := transferBegin m4\<rparr>"
  have d: "file_dispatch e (cmd CMD_FILE_FINISH) [1] (m4, mfs) = Some (True,
      (if rest \<noteq> [] then TransferNext m4
       else on_xfer (\<lambda>x. snd (SendToAnother (cmd CMD_FILE_FINISH) [0] x)) ((on_ctx (\<lambda>c. c\<lparr>ioFinish := True\<rparr>) m4)\<lparr>transferDirBegin := 0\<rparr>)), mfs)"
    unfolding file_dispatch_def by (simp add: base_other cmd_inj f(1,2) Let_def del: cmd.simps)
  show ?thesis
  proof (cases "rest = []")
    case True
    then show ?thesis unfolding d
      using r by (simp add: finished_def on_xfer_def SendToAnother_def ctx_upd_def del: cmd.simps)
  next
    case False
    then obtain n1 F1 rest' where rest: "rest = (n1, F1) # rest'" by (cases rest) auto
    have "config_ok (tc\<lparr>tc_path := d, optionalName := nm\<rparr>) = config_ok ((transferConfig (ctx m))\<lparr>tc_path := d, optionalName := nm\<rparr>)" for nm
      by (simp add: tc described_def Let_def config_ok_def)
    moreover have "compressType tc = compressType (transferConfig (ctx m))" "updateIfNew tc = updateIfNew (transferConfig (ctx m))"
      by (simp_all add: tc described_def Let_def)
    ultimately have "sending mfs d rest (TransferNext m4)"
      using s f r unfolding rest
      by (simp add: sending_def Let_def TransferNext_def open_local_def on_xfer_def ctx_upd_def take_next_def)
    then show ?thesis unfolding d using False by simp
  qed
qed

lemma round_parts:
  fixes ati mt :: u64 and st :: "u64 \<times> u64 \<times> u64" and fd :: int and F :: bytes and m s :: file_task and e :: file_env
    and d q :: string and ns :: "string list"
  assumes sd: "sending mfs d ((ns, F) # rest) m" and w: "waiting s"
    and g: "goes_to d ns sfs q sfs1 sfs2" and fd: "0 \<le> fd"
  defines "sz \<equiv> word_of_nat (length F)"
  defines "m1 \<equiv> opened fd (sz, ati, mt) m" and "tc \<equiv> described sz (ati, mt) (ctx m)"
  defines "s1 \<equiv> checked e tc q s"
  defines "s2 \<equiv> opened fd st s1"
  shows "sent (xfer m1) = sent (xfer m) @ [(cmd CMD_FILE_CHECK, WriteMessage Descriptor_TransferConfig tc)]"
    and "file_dispatch e (cmd CMD_FILE_CHECK) (WriteMessage Descriptor_TransferConfig tc) (s, sfs) = Some (True, s1, sfs1)"
    and "reqs (xfer s1) = [FsOpen q]" and "open_trunc sfs1 q = Some sfs2"
    and "sent (xfer s2) = sent (xfer s1) @ [(cmd CMD_FILE_BEGIN, [])]" and "slave_start F (xfer s2)"
    and "ctx s2 = (ctx s)\<lparr>transferConfig := tc, cf_fileSize := sz, localPath := q, master := False,
      closeNotify := False, cf_indexIO := 0, lastErrno := 0, ioFinish := False\<rparr>"
    and "\<exists>m2. file_dispatch e (cmd CMD_FILE_BEGIN) [] (m1, mfs) = Some (True, m2, mfs) \<and> master_start COMPRESS_NONE F (xfer m2)
      \<and> ctx m2 = ctx m1 \<and> sent (xfer m2) = sent (xfer m1)"
    and "ctx m1 = (ctx m)\<lparr>closeNotify := False, cf_indexIO := 0, lastErrno := 0, ioFinish := False, transferConfig := tc, cf_fileSize := sz\<rparr>"
proof -
  have s: "localName (ctx m) = name_of ns" "master (ctx m)" "remotePath (ctx m) = d" "up (xfer m)" "\<not> singalStop (xfer m)"
    "config_ok ((transferConfig (ctx m))\<lparr>tc_path := d, optionalName := name_of ns\<rparr>)"
    "compressType (transferConfig (ctx m)) = COMPRESS_NONE" "\<not> updateIfNew (transferConfig (ctx m))"
    using sd by (auto simp: sending_def Let_def)
  have t: "config_ok tc" "\<not> updateIfNew tc" "tc_path tc = d" "optionalName tc = name_of ns" "compressType tc = COMPRESS_NONE" "fileSize tc = sz"
    using s by (simp_all add: tc_def described_def Let_def config_ok_def)
  note o = master_opens [OF s(4,5,2) fd, of sz ati mt, folded m1_def tc_def]
  show "sent (xfer m1) = sent (xfer m) @ [(cmd CMD_FILE_CHECK, WriteMessage Descriptor_TransferConfig tc)]" by (rule o(1))
  show m1: "ctx m1 = (ctx m)\<lparr>closeNotify := False, cf_indexIO := 0, lastErrno := 0, ioFinish := False, transferConfig := tc, cf_fileSize := sz\<rparr>" by (rule o(2))
  show "file_dispatch e (cmd CMD_FILE_CHECK) (WriteMessage Descriptor_TransferConfig tc) (s, sfs) = Some (True, s1, sfs1)"
    unfolding s1_def by (rule slave_checks [OF t(1-4) g])
  show "open_trunc sfs1 q = Some sfs2" using g by (simp add: goes_to_def)
  note c = checked_facts [OF w, of e tc q, folded s1_def]
  show "reqs (xfer s1) = [FsOpen q]" by (rule c(1))
  have nm: "\<not> master (ctx s1)" "cf_fileSize (ctx s1) = word_of_nat (length F)" using c(6) t(6) by (simp_all add: sz_def)
  note so = slave_opens [OF c(3,4) nm(1) c(2) fd, where st = st, folded s2_def]
  show "sent (xfer s2) = sent (xfer s1) @ [(cmd CMD_FILE_BEGIN, [])]" by (rule so(1))
  show "slave_start F (xfer s2)" by (rule so(3) [OF nm(2)])
  show "ctx s2 = (ctx s)\<lparr>transferConfig := tc, cf_fileSize := sz, localPath := q, master := False,
      closeNotify := False, cf_indexIO := 0, lastErrno := 0, ioFinish := False\<rparr>"
    using so(2) c(6) t(6) by simp
  show "\<exists>m2. file_dispatch e (cmd CMD_FILE_BEGIN) [] (m1, mfs) = Some (True, m2, mfs) \<and> master_start COMPRESS_NONE F (xfer m2)
      \<and> ctx m2 = ctx m1 \<and> sent (xfer m2) = sent (xfer m1)"
    by (rule master_begins) (use m1 o(3-5) s(2) t(5) in \<open>simp_all add: sz_def\<close>)
qed

lemma none_transferable: "lz4_laws L \<Longrightarrow> chunks F cs \<Longrightarrow> length F < 2 ^ 31 \<Longrightarrow> transferable L COMPRESS_NONE F cs"
  by (auto simp: transferable_def compress_block_def COMPRESS_NONE_def COMPRESS_LZ4_def)

lemma slave_run_counted:
  assumes "(slave_step L pld cb cd pw)\<^sup>*\<^sup>* s s'" "slave_inv L ct cd F cs s0 s" "counted s0 n a (fst (snd s))"
    and "transferable L ct F cs" "cb \<noteq> cd" "posix_pwrite pw"
  shows "counted s0 n a (fst (snd s'))"
  using assms(1)
proof (induction rule: rtranclp_induct)
  case (step y z)
  have "slave_inv L ct cd F cs s0 y" by (rule slave_run_inv [OF step(1) assms(2,4-6)])
  then show ?case using slave_step_counted [OF step(2) _ step(3) assms(4,5)] by blast
qed (use assms(3) in simp)

lemma slave_end:
  assumes x: "slave_start F x" and t: "transferable L ct F cs" and cb: "cb \<noteq> cd"
    and r: "(slave_step L pld cb cd pwrite)\<^sup>*\<^sup>* (sent_blocks L ct cd 0 cs, x, []) ([], y, f)" and s: "sent y \<noteq> sent x"
  shows "f = F" "sent y = sent x @ [(cmd CMD_FILE_FINISH, [1])]" "reqs y = []" "refCount y = 0" "up y" "\<not> singalStop y"
    "fileCnt (ctxNow y) = fileCnt (ctxNow x) + 1" "cf_dirSize (ctxNow y) = cf_dirSize (ctxNow x) + word_of_nat (length F)"
    "cf_indexIO (ctxNow y) = cf_fileSize (ctxNow y)" "kept (ctxNow y) = kept (ctxNow x)"
proof -
  have i0: "slave_inv L ct cd F cs (sent x) (sent_blocks L ct cd 0 cs, x, [])" by (rule slave_start_inv [OF x])
  have i: "slave_inv L ct cd F cs (sent x) ([], y, f)" by (rule slave_run_inv [OF r i0 t cb pwrite_posix])
  then have st: "stored F (sent x) ([], y, f)" and u: "up y" "\<not> singalStop y" "cf_fileSize (ctxNow y) = word_of_nat (length F)"
    using s by (auto simp: slave_inv_def)
  show "f = F" "sent y = sent x @ [(cmd CMD_FILE_FINISH, [1])]" "reqs y = []" "refCount y = 0" using st s by (auto simp: stored_def)
  show "up y" "\<not> singalStop y" by (rule u)+
  have "counted (sent x) (fileCnt (ctxNow x)) (cf_dirSize (ctxNow x)) x"
    using x by (simp add: counted_def slave_start_def Let_def)
  then have "counted (sent x) (fileCnt (ctxNow x)) (cf_dirSize (ctxNow x)) y"
    using slave_run_counted [OF r i0 _ t cb pwrite_posix] by simp
  moreover have "ioFinish (ctxNow y)" using st by (simp add: stored_def)
  ultimately show "fileCnt (ctxNow y) = fileCnt (ctxNow x) + 1" "cf_dirSize (ctxNow y) = cf_dirSize (ctxNow x) + word_of_nat (length F)"
    "cf_indexIO (ctxNow y) = cf_fileSize (ctxNow y)"
    using s u(3) by (auto simp: counted_def Let_def)
  show "kept (ctxNow y) = kept (ctxNow x)" using slave_run_kept [OF r] by simp
qed

text \<open>The slave after \<open>k\<close> files of \<open>sz\<close> bytes together.\<close>

definition tally :: "nat \<Rightarrow> nat \<Rightarrow> file_task \<Rightarrow> bool" where
  "tally k sz s \<longleftrightarrow> fileCnt (ctx s) = word_of_nat k \<and> cf_dirSize (ctx s) = word_of_nat sz"

lemma round_result:
  assumes L: "lz4_laws (e_lz4 e)" and sd: "sending mfs d ((ns, F) # rest) m" and w: "waiting s"
    and g: "goes_to d ns sfs q0 fs1 fs2" and tl: "tally k n s"
    and r: "file_round e mfs (m, s, sfs) (m', s', sfs')"
  shows "sfs' = fs2\<lparr>nodes := (nodes fs2)(resolve fs2 q0 \<mapsto> Reg F)\<rparr> \<and> waiting s' \<and> tally (Suc k) (n + length F) s' \<and> cf_indexIO (ctx s') = cf_fileSize (ctx s')
    \<and> cf_fileSize (ctx s') = word_of_nat (length F) \<and> (if rest = [] then finished m' else sending mfs d rest m')"
proof -
  obtain p G fd m1 ati mt k1 cfg s1 sfs1 q sfs2 s2 st k2 b m2 x3 bs y3 f k3 c where 1:
    "reqs (xfer m) = [FsOpen p]" "node_at mfs (resolve mfs p) = Some (Reg G)" "0 \<le> fd"
    "m1 = opened fd (word_of_nat (length G), ati, mt) m" "sent (xfer m1) = sent (xfer m) @ [(k1, cfg)]"
    "file_dispatch e k1 cfg (s, sfs) = Some (True, s1, sfs1)" "reqs (xfer s1) = [FsOpen q]"
    "open_trunc sfs1 q = Some sfs2" "s2 = opened fd st s1" "sent (xfer s2) = sent (xfer s1) @ [(k2, b)]"
    "file_dispatch e k2 b (m1, mfs) = Some (True, m2, mfs)"
    "(master_step (e_lz4 e) (cmd CMD_FILE_DATA) G)\<^sup>*\<^sup>* (xfer m2) x3" "ioFinish (ctxNow x3)"
    "sent x3 = sent (xfer m2) @ bs"
    "(slave_step (e_lz4 e) (e_payload e) (cmd CMD_FILE_BEGIN) (cmd CMD_FILE_DATA) pwrite)\<^sup>*\<^sup>* (bs, xfer s2, []) ([], y3, f)"
    "sent y3 = sent (xfer s2) @ [(k3, c)]"
    "file_dispatch e k3 c (m2\<lparr>xfer := OnFileClose (x3\<lparr>reqs := []\<rparr>)\<rparr>, mfs) = Some (True, m', mfs)"
    "s' = s2\<lparr>xfer := y3\<rparr>" "sfs' = sfs2\<lparr>nodes := (nodes sfs2)(resolve sfs2 q \<mapsto> Reg f)\<rparr>"
    by (rule file_roundE [OF r])
  have s: "localPath (ctx m) = localDirName (ctx m) @ name_of ns" "reqs (xfer m) = [FsOpen (localPath (ctx m))]"
    "node_at mfs (resolve mfs (localDirName (ctx m) @ name_of ns)) = Some (Reg F)" "length F < 2 ^ 31"
    using sd by (auto simp: sending_def Let_def)
  then have G: "G = F" using 1(1,2) by auto
  note P1 = round_parts(1) [OF sd w g 1(3), where ati = ati and mt = mt]
  note P2 = round_parts(2) [OF sd w g 1(3), where e = e and ati = ati and mt = mt]
  note P3 = round_parts(3) [OF sd w g 1(3), where e = e and ati = ati and mt = mt]
  note P4 = round_parts(4) [OF sd w g 1(3)]
  note P6 = round_parts(5) [OF sd w g 1(3), where e = e and ati = ati and mt = mt and st = st]
  note P7 = round_parts(6) [OF sd w g 1(3), where e = e and ati = ati and mt = mt and st = st]
  note P8 = round_parts(7) [OF sd w g 1(3), where e = e and ati = ati and mt = mt and st = st]
  note P9 = round_parts(8) [OF sd w g 1(3), where e = e and ati = ati and mt = mt]
  note P10 = round_parts(9) [OF sd w g 1(3), where ati = ati and mt = mt]
  have a: "k1 = cmd CMD_FILE_CHECK" "cfg = WriteMessage Descriptor_TransferConfig (described (word_of_nat (length F)) (ati, mt) (ctx m))"
    using P1 1(4,5) G by simp_all
  have b1: "s1 = checked e (described (word_of_nat (length F)) (ati, mt) (ctx m)) q0 s" "sfs1 = fs1"
    using P2 1(6) unfolding a by simp_all
  have q: "q = q0" using P3 1(7) unfolding b1 by simp
  have c1: "sfs2 = fs2" using P4 1(8) unfolding b1 q by simp
  have k2: "k2 = cmd CMD_FILE_BEGIN" "b = []" using P6 1(9,10) unfolding b1 by simp_all
  have "\<exists>m2. file_dispatch e (cmd CMD_FILE_BEGIN) [] (m1, mfs) = Some (True, m2, mfs) \<and> master_start COMPRESS_NONE F (xfer m2)
      \<and> ctx m2 = ctx m1 \<and> sent (xfer m2) = sent (xfer m1)" using P9 unfolding 1(4) G .
  then have m2: "master_start COMPRESS_NONE F (xfer m2)" "ctx m2 = ctx m1" using 1(11) unfolding k2 by auto
  have lF: "length F < 2 ^ 64" using s(4) by simp
  have mi: "master_inv (e_lz4 e) COMPRESS_NONE (cmd CMD_FILE_DATA) F (sent (xfer m2)) x3"
    using master_run_inv [OF 1(12) [unfolded G] master_start_inv [OF m2(1)] lF] .
  then obtain cs where cs: "sent x3 = sent (xfer m2) @ sent_blocks (e_lz4 e) COMPRESS_NONE (cmd CMD_FILE_DATA) 0 cs" "chunks F cs"
    using 1(13) unfolding master_inv_def by auto
  have bs: "bs = sent_blocks (e_lz4 e) COMPRESS_NONE (cmd CMD_FILE_DATA) 0 cs" using cs(1) 1(14) by simp
  have tr: "transferable (e_lz4 e) COMPRESS_NONE F cs" by (rule none_transferable [OF L cs(2) s(4)])
  have ss: "slave_start F (xfer s2)" using P7 unfolding 1(9) b1 .
  have ne: "cmd CMD_FILE_BEGIN \<noteq> cmd CMD_FILE_DATA" by simp
  note E = slave_end [OF ss tr ne 1(15) [unfolded bs]]
  have E': "f = F" "sent y3 = sent (xfer s2) @ [(cmd CMD_FILE_FINISH, [1])]" "reqs y3 = []" "refCount y3 = 0" "up y3" "\<not> singalStop y3"
    "fileCnt (ctxNow y3) = fileCnt (ctx s2) + 1" "cf_dirSize (ctxNow y3) = cf_dirSize (ctx s2) + word_of_nat (length F)"
    "cf_indexIO (ctxNow y3) = cf_fileSize (ctxNow y3)" "kept (ctxNow y3) = kept (ctx s2)"
    using E 1(16) by simp_all
  have s2c: "ctx s2 = (ctx s)\<lparr>transferConfig := described (word_of_nat (length F)) (ati, mt) (ctx m), cf_fileSize := word_of_nat (length F),
      localPath := q, master := False, closeNotify := False, cf_indexIO := 0, lastErrno := 0, ioFinish := False\<rparr>"
    using P8 unfolding 1(9) b1 q .
  have k3: "k3 = cmd CMD_FILE_FINISH" "c = [1]" using E'(2) 1(16) by simp_all
  let ?m4 = "m2\<lparr>xfer := OnFileClose (x3\<lparr>reqs := []\<rparr>)\<rparr>"
  have m1c: "ctx m1 = (ctx m)\<lparr>closeNotify := False, cf_indexIO := 0, lastErrno := 0, ioFinish := False,
      transferConfig := described (word_of_nat (length F)) (ati, mt) (ctx m), cf_fileSize := word_of_nat (length F)\<rparr>"
    using P10 unfolding 1(4) G .
  have nc: "\<not> closeNotify (ctxNow x3)" using master_run_closeNotify [OF 1(12)] m2(2) m1c by simp
  have k4: "kept (ctx ?m4) = kept ((ctx m)\<lparr>transferConfig := described (word_of_nat (length F)) (ati, mt) (ctx m), cf_fileSize := word_of_nat (length F)\<rparr>)"
    using OnFileClose_kept [of "x3\<lparr>reqs := []\<rparr>"] master_run_kept [OF 1(12)] m2(2) m1c by (simp add: kept_def)
  have r4: "reqs (xfer ?m4) = []" "up (xfer ?m4)" "\<not> singalStop (xfer ?m4)"
    using mi nc by (simp_all add: OnFileClose_def Let_def master_inv_def)
  have "if rest = [] then finished m' else sending mfs d rest m'"
    using master_continues [OF sd k4 refl r4, of e] 1(17) unfolding k3 by auto
  moreover have "sfs' = fs2\<lparr>nodes := (nodes fs2)(resolve fs2 q0 \<mapsto> Reg F)\<rparr>"
    using 1(19) unfolding c1 q E'(1) .
  moreover have "waiting s'" using E' by (simp add: 1(18) waiting_def)
  moreover have "tally (Suc k) (n + length F) s'"
    using E'(7,8) tl s2c by (simp add: 1(18) tally_def)
  moreover have "cf_fileSize (ctx s') = word_of_nat (length F)"
    using kept_fields(1) [OF E'(10)] s2c by (simp add: 1(18))
  moreover have "cf_indexIO (ctx s') = cf_fileSize (ctx s')" using E'(9) by (simp add: 1(18))
  ultimately show ?thesis by blast
qed

lemma master_finishes:
  assumes "master_start ct F x" "length F < 2 ^ 64"
  shows "\<exists>y. (master_step L c F)\<^sup>*\<^sup>* x y \<and> ioFinish (ctxNow y)"
proof -
  have "\<exists>y. (master_step L c F)\<^sup>*\<^sup>* z y \<and> ioFinish (ctxNow y)" if "master_inv L ct c F s0 z" for z s0
    using that
  proof (induction "to_read F z" arbitrary: z rule: less_induct)
    case less
    show ?case
    proof (cases "ioFinish (ctxNow z)")
      case False
      obtain w where w: "master_step L c F z w" using master_step_enabled [OF less.prems False assms(2)] by blast
      have "\<exists>y. (master_step L c F)\<^sup>*\<^sup>* w y \<and> ioFinish (ctxNow y)"
        by (rule less.hyps [OF master_step_decreases [OF w less.prems assms(2)] master_step_inv [OF w less.prems assms(2)]])
      then show ?thesis using w by (blast intro: converse_rtranclp_into_rtranclp)
    qed auto
  qed
  then show ?thesis using master_start_inv [OF assms(1)] by blast
qed

lemma slave_finishes:
  assumes x: "slave_start F x" and t: "transferable L ct F cs" and cb: "cb \<noteq> cd"
  shows "\<exists>y f. (slave_step L pld cb cd pwrite)\<^sup>*\<^sup>* (sent_blocks L ct cd 0 cs, x, []) ([], y, f) \<and> sent y \<noteq> sent x"
proof -
  let ?st = "slave_step L pld cb cd pwrite"
  have "\<exists>y f. ?st\<^sup>*\<^sup>* z ([], y, f) \<and> sent y \<noteq> sent x" if "slave_inv L ct cd F cs (sent x) z" for z
    using that
  proof (induction "left z" arbitrary: z rule: less_induct)
    case less
    show ?case
    proof (cases "\<exists>w. ?st z w")
      case True
      then obtain w where w: "?st z w" by blast
      have "\<exists>y f. ?st\<^sup>*\<^sup>* w ([], y, f) \<and> sent y \<noteq> sent x"
        by (rule less.hyps [OF slave_step_decreases [OF w less.prems t cb pwrite_posix] slave_step_inv [OF w less.prems t cb pwrite_posix]])
      then show ?thesis using w by (blast intro: converse_rtranclp_into_rtranclp)
    next
      case False
      obtain inc y f where z: "z = (inc, y, f)" by (cases z)
      have "inc = [] \<and> f = F \<and> sent y = sent x @ [(cmd CMD_FILE_FINISH, [1])] \<and> reqs y = [] \<and> refCount y = 0"
        by (rule slave_stuck_done [OF less.prems [unfolded z] t cb]) (use False z in blast)
      then show ?thesis unfolding z by (intro exI [of _ y] exI [of _ f]) simp
    qed
  qed
  then show ?thesis using slave_start_inv [OF x] by blast
qed

lemma round_exists:
  assumes L: "lz4_laws (e_lz4 e)" and sd: "sending mfs d ((ns, F) # rest) m" and w: "waiting s"
    and g: "goes_to d ns sfs q fs1 fs2"
  shows "\<exists>t. file_round e mfs (m, s, sfs) t"
proof -
  have s: "localPath (ctx m) = localDirName (ctx m) @ name_of ns" "reqs (xfer m) = [FsOpen (localPath (ctx m))]"
    "node_at mfs (resolve mfs (localDirName (ctx m) @ name_of ns)) = Some (Reg F)" "length F < 2 ^ 31"
    using sd by (auto simp: sending_def Let_def)
  have lF: "length F < 2 ^ 64" using s(4) by simp
  let ?sz = "word_of_nat (length F) :: u64" and ?fd = "0 :: int"
  let ?m1 = "opened ?fd (?sz, 0, 0) m" and ?tc = "described ?sz (0, 0) (ctx m)"
  let ?s1 = "checked e ?tc q s"
  let ?s2 = "opened ?fd (0, 0, 0) ?s1"
  note P = round_parts [OF sd w g order_refl]
  obtain m2 where m2: "file_dispatch e (cmd CMD_FILE_BEGIN) [] (?m1, mfs) = Some (True, m2, mfs)" "master_start COMPRESS_NONE F (xfer m2)"
      "ctx m2 = ctx ?m1" "sent (xfer m2) = sent (xfer ?m1)"
    using P(8) [where e = e and ati = 0 and mt = 0] by blast
  obtain x3 where x3: "(master_step (e_lz4 e) (cmd CMD_FILE_DATA) F)\<^sup>*\<^sup>* (xfer m2) x3" "ioFinish (ctxNow x3)"
    using master_finishes [OF m2(2) lF] by blast
  have mi: "master_inv (e_lz4 e) COMPRESS_NONE (cmd CMD_FILE_DATA) F (sent (xfer m2)) x3"
    using master_run_inv [OF x3(1) master_start_inv [OF m2(2)] lF] .
  then obtain cs where cs: "sent x3 = sent (xfer m2) @ sent_blocks (e_lz4 e) COMPRESS_NONE (cmd CMD_FILE_DATA) 0 cs" "chunks F cs"
    using x3(2) unfolding master_inv_def by auto
  have tr: "transferable (e_lz4 e) COMPRESS_NONE F cs" by (rule none_transferable [OF L cs(2) s(4)])
  have ss: "slave_start F (xfer ?s2)" by (rule P(6))
  have ne: "cmd CMD_FILE_BEGIN \<noteq> cmd CMD_FILE_DATA" by simp
  obtain y3 f where y3: "(slave_step (e_lz4 e) (e_payload e) (cmd CMD_FILE_BEGIN) (cmd CMD_FILE_DATA) pwrite)\<^sup>*\<^sup>*
      (sent_blocks (e_lz4 e) COMPRESS_NONE (cmd CMD_FILE_DATA) 0 cs, xfer ?s2, []) ([], y3, f)" "sent y3 \<noteq> sent (xfer ?s2)"
    using slave_finishes [OF ss tr ne] by blast
  note E = slave_end [OF ss tr ne y3]
  let ?m4 = "m2\<lparr>xfer := OnFileClose (x3\<lparr>reqs := []\<rparr>)\<rparr>"
  have nc: "\<not> closeNotify (ctxNow x3)"
    using master_run_closeNotify [OF x3(1)] m2(3) P(9) [where ati = 0 and mt = 0] by simp
  have k4: "kept (ctx ?m4) = kept ((ctx m)\<lparr>transferConfig := ?tc, cf_fileSize := ?sz\<rparr>)"
    using OnFileClose_kept [of "x3\<lparr>reqs := []\<rparr>"] master_run_kept [OF x3(1)] m2(3) P(9) [where ati = 0 and mt = 0] by (simp add: kept_def)
  have r4: "reqs (xfer ?m4) = []" "up (xfer ?m4)" "\<not> singalStop (xfer ?m4)"
    using mi nc by (simp_all add: OnFileClose_def Let_def master_inv_def)
  obtain m5 where m5: "file_dispatch e (cmd CMD_FILE_FINISH) [1] (?m4, mfs) = Some (True, m5, mfs)"
    using master_continues [OF sd k4 refl r4, of e] by blast
  have n: "node_at mfs (resolve mfs (localPath (ctx m))) = Some (Reg F)" using s(1,3) by simp
  show ?thesis
    by (rule exI, rule file_round [OF s(2) n order_refl refl P(1) P(2) P(3) P(4) refl P(5) m2(1) x3 cs(1) y3(1) E(2) m5])
qed

section \<open>A directory\<close>

definition files_fit :: "fsys \<Rightarrow> string \<Rightarrow> string list \<Rightarrow> (string list \<times> bytes) list \<Rightarrow> bool" where
  "files_fit fs d R files \<longleftrightarrow> sorted_wrt apart (map fst files) \<and> (\<forall>(ns, F) \<in> set files. room fs R ns \<and> names_ok d ns)"

lemma names_ok_ne: "names_ok d ns \<Longrightarrow> ns \<noteq> []"
  by (auto simp: names_ok_def)

lemma files_fit_next:
  assumes "files_fit fs d R ((ns, F) # rest)"
  shows "files_fit (put_file R (ns, F) fs) d R rest"
proof -
  have "room (put_file R (ns, F) fs) R ms" if "(ms, G) \<in> set rest" for ms G
  proof -
    have "room fs R ms" "ms \<noteq> []" "ns \<noteq> []" "apart ns ms" using assms that names_ok_ne by (fastforce simp: files_fit_def)+
    then show ?thesis using room_after [of fs R ms ns F] by (simp add: apart_def)
  qed
  then show ?thesis using assms by (auto simp: files_fit_def)
qed

text \<open>All files are where they belong and nothing else has changed but the directories made for them.\<close>

lemma files_stored:
  assumes "files_fit fs d R files"
  shows "(\<forall>(ns, F) \<in> set files. nodes (fold (put_file R) files fs) (R @ ns) = Some (Reg F))
    \<and> (\<forall>q. (\<forall>(ns, F) \<in> set files. \<forall>k \<in> {1..length ns}. q \<noteq> R @ take k ns) \<longrightarrow> nodes (fold (put_file R) files fs) q = nodes fs q)"
  using assms
proof (induction files arbitrary: fs)
  case (Cons f rest)
  obtain ns F where f: "f = (ns, F)" by (cases f)
  let ?fs = "put_file R (ns, F) fs"
  have ne: "ns \<noteq> []" using Cons.prems names_ok_ne by (auto simp: files_fit_def f)
  have ih: "\<forall>(ns, F) \<in> set rest. nodes (fold (put_file R) rest ?fs) (R @ ns) = Some (Reg F)"
    "\<And>q. (\<forall>(ns, F) \<in> set rest. \<forall>k \<in> {1..length ns}. q \<noteq> R @ take k ns) \<Longrightarrow> nodes (fold (put_file R) rest ?fs) q = nodes ?fs q"
    using Cons.IH [OF files_fit_next [OF Cons.prems [unfolded f]]] by blast+
  have ap: "\<forall>(ms, G) \<in> set rest. \<forall>k \<in> {1..length ms}. R @ ns \<noteq> R @ take k ms"
    using Cons.prems take_prefix by (fastforce simp: files_fit_def f apart_def)
  have "nodes (fold (put_file R) rest ?fs) (R @ ns) = Some (Reg F)"
    using ih(2) [OF ap] put_file_nodes [OF ne, of R F fs "R @ ns"] by simp
  moreover have "nodes (fold (put_file R) rest ?fs) q = nodes fs q"
    if q: "\<forall>(ns, F) \<in> set (f # rest). \<forall>k \<in> {1..length ns}. q \<noteq> R @ take k ns" for q
  proof -
    have "q \<noteq> R @ take k ns" if "k \<in> {1..length ns}" for k using q that by (simp add: f)
    moreover from this [of "length ns"] have "q \<noteq> R @ ns" using ne by (cases ns) auto
    ultimately have "nodes ?fs q = nodes fs q" using put_file_nodes [OF ne, of R F fs q] by auto
    then show ?thesis using ih(2) [of q] q by simp
  qed
  ultimately show ?case using ih(1) by (simp add: f)
qed simp

section \<open>From the command to the files\<close>

definition fresh_file :: "bool \<Rightarrow> file_task" where
  "fresh_file srv = \<lparr> xfer = \<lparr> ctxNow = CtxFile0, refCount = 0, reqs = [], sent = [], up = True, singalStop = False, logs = 0, timeSet = False \<rparr>,
     on_server = srv, transferBegin = 0, transferDirBegin = 0, reports = [] \<rparr>"

text \<open>The master's side: the directory \<open>src\<close> and what is below it.\<close>

definition holds_tree :: "fsys \<Rightarrow> (string \<Rightarrow> dir_entries option) \<Rightarrow> string \<Rightarrow> dtree \<Rightarrow> bool" where
  "holds_tree fs sd src t \<longleftrightarrow> IsAbsolutePath src \<and> clean (GetFullFilePath src) \<and> node_at fs (resolve fs src) = Some DirNode
     \<and> scans sd src t \<and> tree_ok t
     \<and> (\<forall>(ns, F) \<in> set (tree_files t). nodes fs (resolve fs src @ ns) = Some (Reg F) \<and> length F < 2 ^ 31)"

definition named :: "string \<Rightarrow> dtree \<Rightarrow> (string list \<times> bytes) list" where
  "named src t = rev (map (\<lambda>(ns, F). (GetFullFilePath src # ns, F)) (tree_files t))"

lemma name_of_Cons: "name_of (w # ns) = w @ below ns"
  using join_below [of "w # ns"] by (simp add: name_of_def)

lemma source_parts: "IsAbsolutePath src \<Longrightarrow> GetPathWithoutFilename src @ GetFullFilePath src = src"
proof -
  assume "IsAbsolutePath src"
  then have "GetPathSep \<in> set src" by (cases src) (auto simp: IsAbsolutePath_def GetPathSep_def)
  then show ?thesis using path_parts [of src] by simp
qed

text \<open>
  The words of the command: the directory of the client, as the client puts it in front, and whether
  the times are kept; then the source, which the server takes from that directory, and the destination.
\<close>

record send_options =
  opt_cwd :: "string option"
  opt_hold :: bool

definition option_words :: "send_options \<Rightarrow> string list" where
  "option_words o' = (case opt_cwd o' of None \<Rightarrow> [] | Some c \<Rightarrow> [''-cwd'', c]) @ (if opt_hold o' then [''-a''] else [])"

definition cwd_of :: "send_options \<Rightarrow> string" where
  "cwd_of o' = (case opt_cwd o' of None \<Rightarrow> [] | Some c \<Rightarrow> c)"

definition options_ok :: "send_options \<Rightarrow> bool" where
  "options_ok o' \<longleftrightarrow> take 1 (cwd_of o') \<noteq> ''-'' \<and> str_ok (cwd_of o')"

definition source_path :: "bool \<Rightarrow> send_options \<Rightarrow> string \<Rightarrow> string" where
  "source_path srv o' src0 = (if srv then ExtractRelativePath (cwd_of o') src0 else src0)"

lemma options_read:
  assumes "options_ok o'"
  shows "file_options (option_words o' @ [src0, d]) [0..<length (option_words o' @ [src0, d]) - 2] (fresh_file srv)
    = (True, on_config (\<lambda>c. c\<lparr>clientCwd := cwd_of o', holdTimestamp := opt_hold o'\<rparr>) (fresh_file srv))"
proof -
  have u: "[0..<1] = [0::nat]" "[0..<2] = [0, 1::nat]" "[0..<3] = [0, 1, 2::nat]" by (simp_all add: upt_rec)
  have c: "take 1 c \<noteq> ''-''" "c \<noteq> ''-z'' \<and> c \<noteq> ''-sync'' \<and> c \<noteq> ''-a'' \<and> c \<noteq> ''-cwd''" if "opt_cwd o' = Some c" for c
    using assms that by (auto simp: options_ok_def cwd_of_def)
  show ?thesis
    using c by (cases "opt_cwd o'")
      (auto simp: option_words_def cwd_of_def u file_option_def Let_def on_config_def on_xfer_def ctx_upd_def fresh_file_def
        CtxFile0_def TransferConfig0_def numeral_2_eq_2)
qed

lemma directory_begins:
  assumes h: "holds_tree mfs (e_scandir e) src (Branch es)" and n: "height (Branch es) \<le> e_depth e" "tree_files (Branch es) \<noteq> []"
    and words: "line_words (c_str command) = option_words o' @ [src0, d]" "options_ok o'" "source_path srv o' src0 = src" and nm: "\<forall>(ns, F) \<in> set (named src (Branch es)). names_ok d ns"
    and pay: "chars_of payload = command"
  shows "\<exists>m1. file_dispatch e (cmd CMD_FILE_INIT) payload (fresh_file srv, mfs) = Some (True, m1, mfs) \<and> sending mfs d (named src (Branch es)) m1"
proof -
  let ?top = "GetFullFilePath src" and ?T = "tree_files (Branch es)" and ?files = "named src (Branch es)"
  have a: "IsAbsolutePath src" "src \<noteq> []" "clean ?top" "node_at mfs (resolve mfs src) = Some DirNode"
    using h by (auto simp: holds_tree_def IsAbsolutePath_def)
  have "c_str command \<noteq> []" using words(1) by (auto simp: line_words_def)
  moreover have "CHR 0x00 \<notin> set (c_str command)" by (auto simp: c_str_def dest: set_takeWhileD)
  ultimately obtain S where S: "SplitCommandToArgs (c_str command) = Some (Some S)" "arg_strings S = option_words o' @ [src0, d]"
    using SplitCommandToArgs_words_lib words(1) by metis
  define q where "q = map (\<lambda>(ns, F). ?top @ below ns) ?T"
  have ls: "GetSubFilesRecursively (e_depth e) (e_scandir e) src ?top [] = Some q"
    using lists_tree [of "e_scandir e" src es "e_depth e" ?top "[]"] h n(1) a(2) by (simp add: holds_tree_def q_def)
  have q: "q = rev (map (name_of \<circ> fst) ?files)"
    by (simp add: q_def named_def rev_map comp_def case_prod_unfold name_of_Cons)
  have ne: "?files \<noteq> []" "q \<noteq> []" using n(2) by (simp_all add: named_def q_def)
  obtain n1 F1 rest where fl: "?files = (n1, F1) # rest" using ne(1) by (cases ?files) auto
  have lq: "last q = name_of n1" "butlast q = rev (map (name_of \<circ> fst) rest)" using q fl by simp_all
  have dirc: "CheckDirectoryOrPath mfs src True True = IsDir" using a(2,4) by (simp add: CheckDirectoryOrPath_def lstat_def S_IFDIR_def)
  let ?tc = "TransferConfig0\<lparr>clientCwd := cwd_of o', holdTimestamp := opt_hold o'\<rparr>"
  let ?c = "CtxFile0\<lparr>remotePath := d, localName := last q, localPath := GetPathWithoutFilename src @ last q, isDir := True, taskQueue := butlast q,
      localDirName := GetPathWithoutFilename src, transferConfig := ?tc\<rparr>"
  have lp: "(if srv then ExtractRelativePath (cwd_of o') src0 else src0) = src" using words(3) by (simp add: source_path_def)
  have la: "last (option_words o' @ [src0, d]) = d" "(option_words o' @ [src0, d]) ! (length (option_words o' @ [src0, d]) - 2) = src0"
    by (simp_all add: nth_append)
  have sm: "SetMasterParameters mfs (e_scandir e) (e_depth e) (option_words o' @ [src0, d]) (fresh_file srv)
      = Some (True, (fresh_file srv)\<lparr>xfer := (xfer (fresh_file srv))\<lparr>ctxNow := ?c\<rparr>\<rparr>)"
    unfolding SetMasterParameters_def options_read [OF words(2)] la using lp dirc ls ne(2)
    by (cases q; cases srv) (simp_all add: Let_def fresh_file_def on_config_def on_xfer_def ctx_upd_def CtxFile0_def take_next_def)
  let ?m = "(fresh_file srv)\<lparr>xfer := (xfer (fresh_file srv))\<lparr>ctxNow := ?c\<lparr>master := True\<rparr>, refCount := 1, reqs := [FsOpen (localPath ?c)]\<rparr>,
      transferBegin := e_now e\<rparr>"
  have f: "file_dispatch e (cmd CMD_FILE_INIT) payload (fresh_file srv, mfs) = Some (True, ?m, mfs)"
    unfolding file_dispatch_def using sm
    by (simp add: base_other cmd_inj BeginTransfer_def pay S Let_def open_local_def on_xfer_def ctx_upd_def fresh_file_def del: cmd.simps)
  have "node_at mfs (resolve mfs (GetPathWithoutFilename src @ name_of ns)) = Some (Reg F) \<and> length F < 2 ^ 31
      \<and> config_ok (?tc\<lparr>tc_path := d, optionalName := name_of ns\<rparr>)" if m: "(ns, F) \<in> set ?files" for ns F
  proof -
    obtain ns' where ns: "ns = ?top # ns'" "(ns', F) \<in> set ?T" using m by (auto simp: named_def)
    have cl: "\<forall>w \<in> set ns'. clean w" using tree_files_ok [of "Branch es"] h ns(2) by (fastforce simp: holds_tree_def)
    have "GetPathWithoutFilename src @ name_of ns = src @ below ns'" using source_parts [OF a(1)] by (simp add: ns name_of_Cons)
    then have r: "resolve mfs (GetPathWithoutFilename src @ name_of ns) = resolve mfs src @ ns'" using resolve_below [OF a(2) cl] by simp
    have "ns' \<noteq> []" using tree_files_ok [of "Branch es"] h ns(2) by (fastforce simp: holds_tree_def)
    moreover have "nodes mfs (resolve mfs src @ ns') = Some (Reg F)" "length F < 2 ^ 31" using h ns(2) by (auto simp: holds_tree_def)
    moreover have "length d < MAX_SIZE_IOBUF" "length (name_of ns) < MAX_SIZE_IOBUF"
      using nm m by (auto simp: names_ok_def ns name_of_Cons)
    ultimately show ?thesis using words(2)
      by (simp add: r node_at_def options_ok_def config_ok_def TransferConfig0_def str_ok_def hdc_consts SECUREC_MEM_MAX_LEN_def)
  qed
  then have "sending mfs d ?files ?m"
    using fl lq by (auto simp: sending_def Let_def fresh_file_def CtxFile0_def TransferConfig0_def COMPRESS_NONE_def)
  then show ?thesis using f by blast
qed

lemma summary_reported:
  assumes "tally k n s" "k < 2 ^ 32" "0 < k" "waiting s" "cf_indexIO (ctx s) = cf_fileSize (ctx s)" "k = 1 \<Longrightarrow> cf_indexIO (ctx s) = word_of_nat n"
  shows "\<exists>s' ms. file_dispatch e (cmd CMD_FILE_FINISH) [0] (s, fs) = Some (True, s', fs)
    \<and> reports s' = reports s @ [TransferDone (word_of_nat k) (word_of_nat n) ms] \<and> sent (xfer s') = sent (xfer s) @ [(cmd CMD_KERNEL_CHANNEL_CLOSE, [1])]"
proof -
  have m: "1 < (word_of_nat k :: u32) \<longleftrightarrow> 1 < k" using assms(2) by (simp add: word_less_nat_alt unat_of_nat)
  have sz: "(if 1 < fileCnt (ctx s) then cf_dirSize (ctx s) else cf_indexIO (ctx s)) = word_of_nat n"
    using assms(1,3,6) m by (auto simp: tally_def)
  then have "1 < (word_of_nat k :: u32) \<Longrightarrow> cf_dirSize (ctx s) = word_of_nat n" "\<not> 1 < (word_of_nat k :: u32) \<Longrightarrow> cf_fileSize (ctx s) = word_of_nat n"
    using assms(1,5) by (simp_all add: tally_def)
  then show ?thesis
    unfolding file_dispatch_def using assms(1,4,5)
    by (simp add: base_other cmd_inj TransferSummary_def Let_def file_note_def on_xfer_def TaskFinish_def SendToAnother_def waiting_def tally_def del: cmd.simps)
qed

lemma total_of_named: "length (concat (map snd (named src t))) = length (concat (map snd (tree_files t)))"
proof -
  have "sum_list (map f (rev xs)) = sum_list (map f xs)" for f :: "'a \<Rightarrow> nat" and xs
    by (simp add: rev_map [symmetric] sum_list_rev)
  then show ?thesis by (simp add: named_def rev_map length_concat comp_def case_prod_unfold)
qed

section \<open>Every file in its turn\<close>

text \<open>
  Where the files go, one after the other: \<open>place\<close> is the file system after a file, \<open>fit\<close> says that
  the files that are left can be stored. The slave takes the next file to its place, and what is left
  still fits.
\<close>

locale placement =
  fixes place :: "string \<Rightarrow> string list \<times> bytes \<Rightarrow> fsys \<Rightarrow> fsys" and fit :: "string \<Rightarrow> (string list \<times> bytes) list \<Rightarrow> fsys \<Rightarrow> bool"
  assumes goes: "fit d ((ns, F) # rest) fs \<Longrightarrow>
      \<exists>q fs1 fs2. goes_to d ns fs q fs1 fs2 \<and> place d (ns, F) fs = fs2\<lparr>nodes := (nodes fs2)(resolve fs2 q \<mapsto> Reg F)\<rparr>"
    and next_fit: "fit d ((ns, F) # rest) fs \<Longrightarrow> fit d rest (place d (ns, F) fs)"
begin

lemma one_result:
  assumes L: "lz4_laws (e_lz4 e)" and sd: "sending mfs d ((ns, F) # rest) m" and w: "waiting s"
    and f: "fit d ((ns, F) # rest) sfs" and tl: "tally k n s" and r: "file_round e mfs (m, s, sfs) (m', s', sfs')"
  shows "sfs' = place d (ns, F) sfs \<and> waiting s' \<and> tally (Suc k) (n + length F) s' \<and> cf_indexIO (ctx s') = cf_fileSize (ctx s')
    \<and> cf_fileSize (ctx s') = word_of_nat (length F) \<and> (if rest = [] then finished m' else sending mfs d rest m')"
proof -
  obtain q fs1 fs2 where g: "goes_to d ns sfs q fs1 fs2" "place d (ns, F) sfs = fs2\<lparr>nodes := (nodes fs2)(resolve fs2 q \<mapsto> Reg F)\<rparr>"
    using goes [OF f] by blast
  show ?thesis using round_result [OF L sd w g(1) tl r] unfolding g(2) .
qed

lemma rounds_result:
  assumes L: "lz4_laws (e_lz4 e)"
    and r: "(file_round e mfs)\<^sup>*\<^sup>* (m, s, sfs) (m', s', sfs')" and fin: "finished m'"
    and sd: "sending mfs d files m" and w: "waiting s" and ff: "fit d files sfs" and tl: "tally k n s"
  shows "sfs' = fold (place d) files sfs \<and> waiting s' \<and> tally (k + length files) (n + length (concat (map snd files))) s'
    \<and> cf_indexIO (ctx s') = cf_fileSize (ctx s') \<and> cf_fileSize (ctx s') = word_of_nat (length (snd (last files)))"
  using r sd w ff tl
proof (induction files arbitrary: m s sfs k n)
  case Nil
  then show ?case by (simp add: sending_def Let_def)
next
  case (Cons f rest)
  obtain ns F where f: "f = (ns, F)" by (cases f)
  have "\<not> finished m" using Cons.prems(2) by (auto simp: sending_def finished_def Let_def)
  then obtain t where t: "file_round e mfs (m, s, sfs) t" "(file_round e mfs)\<^sup>*\<^sup>* t (m', s', sfs')"
    using Cons.prems(1) fin by (metis converse_rtranclpE prod.inject)
  obtain m1 s1 sfs1 where t1: "t = (m1, s1, sfs1)" by (cases t)
  note res = one_result [OF L Cons.prems(2) [unfolded f] Cons.prems(3) Cons.prems(4) [unfolded f] Cons.prems(5) t(1) [unfolded t1]]
  have fs1: "sfs1 = place d (ns, F) sfs" using res by simp
  show ?case
  proof (cases "rest = []")
    case True
    then have fin1: "finished m1" using res by simp
    have "(m1, s1, sfs1) = (m', s', sfs')"
    proof (rule ccontr)
      assume "\<not> ?thesis"
      then obtain t2 where "file_round e mfs (m1, s1, sfs1) t2" using t(2) unfolding t1 by (metis converse_rtranclpE)
      then have "reqs (xfer m1) \<noteq> []" by (cases rule: file_round.cases) auto
      then show False using fin1 by (simp add: finished_def)
    qed
    then show ?thesis using res True by (simp add: f add.commute)
  next
    case False
    have "sending mfs d rest m1" using res False by simp
    from Cons.IH [OF t(2) [unfolded t1] this _ next_fit [OF Cons.prems(4) [unfolded f], folded fs1], of "Suc k" "n + length F"]
    show ?thesis using res False by (simp add: f fs1 add.assoc)
  qed
qed

lemma rounds_exist:
  assumes L: "lz4_laws (e_lz4 e)"
    and sd: "sending mfs d files m" and w: "waiting s" and ff: "fit d files sfs"
  shows "\<exists>m' s' sfs'. (file_round e mfs)\<^sup>*\<^sup>* (m, s, sfs) (m', s', sfs') \<and> finished m'"
proof -
  have "\<exists>m' s' sfs'. (file_round e mfs)\<^sup>*\<^sup>* (m, s, sfs) (m', s', sfs') \<and> finished m'"
    if "tally k n s" for k n
    using sd w ff that
  proof (induction files arbitrary: m s sfs k n)
    case Nil
    then show ?case by (simp add: sending_def Let_def)
  next
    case (Cons f rest)
    obtain ns F where f: "f = (ns, F)" by (cases f)
    obtain q fs1 fs2 where g: "goes_to d ns sfs q fs1 fs2" using goes [OF Cons.prems(3) [unfolded f]] by blast
    obtain m1 s1 sfs1 where t: "file_round e mfs (m, s, sfs) (m1, s1, sfs1)"
      using round_exists [OF L Cons.prems(1) [unfolded f] Cons.prems(2) g] by (metis prod_cases3)
    note res = one_result [OF L Cons.prems(1) [unfolded f] Cons.prems(2) Cons.prems(3) [unfolded f] Cons.prems(4) t]
    have fs1: "sfs1 = place d (ns, F) sfs" using res by simp
    show ?case
    proof (cases "rest = []")
      case True
      then show ?thesis using res t by auto
    next
      case False
      have "sending mfs d rest m1" using res False by simp
      then have "\<exists>m' s' sfs'. (file_round e mfs)\<^sup>*\<^sup>* (m1, s1, sfs1) (m', s', sfs') \<and> finished m'"
        using Cons.IH [OF _ _ next_fit [OF Cons.prems(3) [unfolded f], folded fs1], of m1 s1 "Suc k" "n + length F"] res
        by (simp add: fs1)
      then show ?thesis using t by (blast intro: converse_rtranclp_into_rtranclp)
    qed
  qed
  moreover have "tally (unat (fileCnt (ctx s))) (unat (cf_dirSize (ctx s))) s" by (simp add: tally_def)
  ultimately show ?thesis by blast
qed

lemma tree_sent:
  assumes L: "lz4_laws (e_lz4 e)" and h: "holds_tree mfs (e_scandir e) src (Branch es)" and n: "height (Branch es) \<le> e_depth e"
    and T: "tree_files (Branch es) \<noteq> []" "length (tree_files (Branch es)) < 2 ^ 32"
    and words: "line_words (c_str (chars_of payload)) = option_words o' @ [src0, d]" "options_ok o'" "source_path sv1 o' src0 = src"
    and nm: "\<forall>(ns, F) \<in> set (named src (Branch es)). names_ok d ns" and ff: "fit d (named src (Branch es)) sfs"
  shows "\<exists>m. file_dispatch e (cmd CMD_FILE_INIT) payload (fresh_file sv1, mfs) = Some (True, m, mfs)
    \<and> (\<exists>m' s' sfs'. (file_round e mfs)\<^sup>*\<^sup>* (m, fresh_file sv2, sfs) (m', s', sfs') \<and> finished m')
    \<and> (\<forall>m' s' sfs'. (file_round e mfs)\<^sup>*\<^sup>* (m, fresh_file sv2, sfs) (m', s', sfs') \<longrightarrow> finished m' \<longrightarrow>
        sfs' = fold (place d) (named src (Branch es)) sfs
      \<and> (\<exists>s1 ms. file_dispatch e (cmd CMD_FILE_FINISH) [0] (s', sfs') = Some (True, s1, sfs')
          \<and> reports s1 = reports s' @ [TransferDone (word_of_nat (length (tree_files (Branch es))))
              (word_of_nat (length (concat (map snd (tree_files (Branch es)))))) ms]))"
proof -
  let ?T = "tree_files (Branch es)" and ?fl = "named src (Branch es)" and ?s = "fresh_file sv2"
  obtain m where m: "file_dispatch e (cmd CMD_FILE_INIT) payload (fresh_file sv1, mfs) = Some (True, m, mfs)" "sending mfs d ?fl m"
    using directory_begins [OF h n T(1) words nm refl] by blast
  have w: "waiting ?s" "tally 0 0 ?s" by (simp_all add: waiting_def tally_def fresh_file_def CtxFile0_def)
  have len: "length ?fl = length ?T" by (simp add: named_def)
  have "sfs' = fold (place d) ?fl sfs
      \<and> (\<exists>s1 ms. file_dispatch e (cmd CMD_FILE_FINISH) [0] (s', sfs') = Some (True, s1, sfs')
          \<and> reports s1 = reports s' @ [TransferDone (word_of_nat (length ?T)) (word_of_nat (length (concat (map snd ?T)))) ms])"
    if r: "(file_round e mfs)\<^sup>*\<^sup>* (m, ?s, sfs) (m', s', sfs')" and fin: "finished m'" for m' s' sfs'
  proof -
    note res = rounds_result [OF L r fin m(2) w(1) ff w(2)]
    have tal: "tally (length ?T) (length (concat (map snd ?T))) s'" using res len total_of_named [of src "Branch es"] by (simp del: tree_files.simps)
    have one: "cf_indexIO (ctx s') = word_of_nat (length (concat (map snd ?T)))" if l1: "length ?T = 1"
    proof -
      obtain x where x: "?T = [x]" using l1 by (cases "?T"; simp del: tree_files.simps)
      then have "snd (last ?fl) = snd x" by (simp add: named_def case_prod_unfold del: tree_files.simps)
      then show ?thesis using res x by (simp del: tree_files.simps)
    qed
    have pos: "0 < length ?T" using T(1) by simp
    show ?thesis using summary_reported [OF tal T(2) pos _ _ one, of e sfs'] res by blast
  qed
  then show ?thesis using m(1) rounds_exist [OF L m(2) w(1) ff] by blast
qed

end

text \<open>The first instance: a destination that is a directory.\<close>

definition put_below :: "string \<Rightarrow> string list \<times> bytes \<Rightarrow> fsys \<Rightarrow> fsys" where
  "put_below d nf fs = put_file (resolve fs d) nf fs"

lemma fold_put_below: "resolve fs d = R \<Longrightarrow> fold (put_below d) files fs = fold (put_file R) files fs"
  by (induction files arbitrary: fs) (simp_all add: put_below_def)

interpretation into_directory: placement put_below "\<lambda>d files fs. dest_ok d \<and> files_fit fs d (resolve fs d) files"
proof unfold_locales
  fix d ns F rest fs assume a: "dest_ok d \<and> files_fit fs d (resolve fs d) ((ns, F) # rest)"
  let ?R = "resolve fs d"
  have p: "room fs ?R ns" "IsAbsolutePath d" "CHR 0x00 \<notin> set d" "2 \<le> length ns" "\<forall>w \<in> set ns. clean w"
    "length d + length (below ns) + 1 < MAX_SIZE_IOBUF"
    using a by (auto simp: files_fit_def dest_ok_def names_ok_def)
  note sp = slave_path [OF p(1,2,3) refl p(4-6)]
  have "put_below d (ns, F) fs = (put_file ?R (ns, []) fs)\<lparr>nodes := (nodes (put_file ?R (ns, []) fs))(?R @ ns \<mapsto> Reg F)\<rparr>"
    by (simp add: put_below_def put_file_def)
  moreover have "resolve (put_file ?R (ns, []) fs) (d @ GetPathSep # below ns) = ?R @ ns" using sp(3) by simp
  ultimately show "\<exists>q fs1 fs2. goes_to d ns fs q fs1 fs2 \<and> put_below d (ns, F) fs = fs2\<lparr>nodes := (nodes fs2)(resolve fs2 q \<mapsto> Reg F)\<rparr>"
    unfolding goes_to_def name_of_def using sp(1,2) by metis
  have "files_fit (put_file ?R (ns, F) fs) d ?R rest" using a files_fit_next by blast
  then show "dest_ok d \<and> files_fit (put_below d (ns, F) fs) d (resolve (put_below d (ns, F) fs) d) rest"
    using a by (simp add: put_below_def)
qed

text \<open>
  The second instance: a destination that does not exist. No directory can be made below it, and the
  path that is opened is the destination itself; when the first file is there, it is the file that is
  found for the others.
\<close>

definition tree_shaped :: "fsys \<Rightarrow> bool" where
  "tree_shaped fs \<longleftrightarrow> (\<forall>q w. nodes fs (q @ [w]) \<noteq> None \<longrightarrow> node_at fs q = Some DirNode)"

lemma missing_path:
  assumes "dest_ok d" "names_ok d ns" and "node_at fs (resolve fs d) = None" and "tree_shaped fs"
  shows "SmartSlavePath srv cw d (name_of ns) fs = Some (False, d, fs)"
proof -
  let ?R = "resolve fs d"
  have ab: "IsAbsolutePath d" "d \<noteq> []" "CHR 0x00 \<notin> set d" using assms(1) by (auto simp: dest_ok_def IsAbsolutePath_def)
  have ns: "2 \<le> length ns" "\<forall>w \<in> set ns. clean w" using assms(2) by (simp_all add: names_ok_def)
  have cs: "CHR 0x00 \<notin> set s \<Longrightarrow> c_str s = s" for s unfolding c_str_def by (induction s) auto
  have none: "node_at fs (?R @ ws) = None" for ws
  proof (induction ws rule: rev_induct)
    case (snoc w ws)
    then have "nodes fs ((?R @ ws) @ [w]) = None" using assms(4) unfolding tree_shaped_def by fastforce
    then show ?case by (simp add: node_at_def)
  qed (use assms(3) in simp)
  have md: "make_dirs p sh ws fs = (sh @ below ws, fs)" if "p \<noteq> []" "resolve fs p = ?R @ us" "\<forall>w \<in> set ws. clean w" for p us sh ws
    using that
  proof (induction ws arbitrary: p us sh)
    case (Cons w ws)
    have r: "resolve fs (p @ GetPathSep # w) = ?R @ us @ [w]" using resolve_below [of p "[w]" fs] Cons.prems by simp
    have "mkdir fs (p @ GetPathSep # w) = fs" using none [of us] r by (simp add: mkdir_def Let_def butlast_append)
    then show ?case using Cons.IH [of "p @ GetPathSep # w" "us @ [w]"] r Cons.prems by (simp add: Let_def)
  qed simp
  have j: "GetPathSep # name_of ns = below ns" using ns(1) unfolding name_of_def by (intro join_below) auto
  have "CHR 0x00 \<notin> set (below ns)" using ns(2) by (auto simp: below_def clean_def GetPathSep_def)
  then have cn: "c_str (name_of ns) = name_of ns" using j by (intro cs) (metis list.set_intros(2))
  obtain v vs where v: "ns = v # vs" using ns(1) by (cases ns) auto
  have ne: "ns \<noteq> []" using v by simp
  have "vs \<noteq> []" using ns(1) v by auto
  then have sl: "CHR ''/'' \<in> set (name_of ns)" unfolding v name_of_def by (cases vs) (auto simp: GetPathSep_def)
  have sp: "SplitString (name_of ns) ''/'' = Some ns"
    unfolding name_of_def using SplitString_join [of ns GetPathSep] ns(2) by (simp add: clean_def GetPathSep_def)
  have ls: "lstat fs d = None" using none [of "[]"] by (simp add: lstat_def)
  have bl: "\<forall>w \<in> set (butlast ns). clean w" using ns(2) by (auto dest: in_set_butlastD)
  show ?thesis
    unfolding SmartSlavePath_def Let_def
    using ab ls ne md [OF ab(2) _ bl, of "[]"] by (simp add: cs cn sl sp ExtractRelativePath_def CheckDirectoryOrPath_def)
qed

lemma found_path:
  assumes "dest_ok d" "nodes fs (resolve fs d) = Some (Reg G)" "resolve fs d \<noteq> []" "access_ok fs False (resolve fs d)"
  shows "SmartSlavePath srv cw d nm fs = Some (True, d, fs)"
proof -
  have "c_str d = d" using assms(1) unfolding dest_ok_def c_str_def by (induction d) auto
  moreover have "S_IFREG AND S_IFDIR = 0" "S_IFREG AND S_IFREG \<noteq> 0" by (simp_all add: S_IFREG_def S_IFDIR_def)
  moreover have "d \<noteq> []" using assms(1) by (auto simp: dest_ok_def IsAbsolutePath_def)
  ultimately show ?thesis using assms
    by (simp add: SmartSlavePath_def Let_def CheckDirectoryOrPath_def lstat_def node_at_def dest_ok_def ExtractRelativePath_def)
qed

definition put_over :: "string \<Rightarrow> string list \<times> bytes \<Rightarrow> fsys \<Rightarrow> fsys" where
  "put_over d nf fs = fs\<lparr>nodes := (nodes fs)(resolve fs d \<mapsto> Reg (snd nf))\<rparr>"

text \<open>There is nothing at the destination, or the file of before; the directory of the destination is there.\<close>

definition no_directory :: "string \<Rightarrow> (string list \<times> bytes) list \<Rightarrow> fsys \<Rightarrow> bool" where
  "no_directory d files fs \<longleftrightarrow> dest_ok d \<and> tree_shaped fs \<and> (\<forall>(ns, F) \<in> set files. names_ok d ns)
     \<and> resolve fs d \<noteq> [] \<and> node_at fs (butlast (resolve fs d)) = Some DirNode \<and> access_ok fs False (resolve fs d)
     \<and> (case nodes fs (resolve fs d) of None \<Rightarrow> True | Some (Reg _) \<Rightarrow> True | _ \<Rightarrow> False)"

interpretation onto_missing: placement put_over no_directory
proof unfold_locales
  fix d ns F rest fs assume a: "no_directory d ((ns, F) # rest) fs"
  let ?R = "resolve fs d" and ?o = "\<lambda>G. fs\<lparr>nodes := (nodes fs)(resolve fs d \<mapsto> Reg G)\<rparr>"
  have n: "dest_ok d" "names_ok d ns" "tree_shaped fs" "?R \<noteq> []" "node_at fs (butlast ?R) = Some DirNode" "access_ok fs False ?R"
    using a by (auto simp: no_directory_def)
  have dn: "d \<noteq> []" using n(1) by (auto simp: dest_ok_def IsAbsolutePath_def)
  have c: "nodes fs ?R = None \<or> (\<exists>G. nodes fs ?R = Some (Reg G))"
    using a by (auto simp: no_directory_def split: option.splits node.splits)
  have "goes_to d ns fs d fs (?o [])"
  proof (cases "nodes fs ?R")
    case None
    then have "\<forall>srv cw. \<exists>found. SmartSlavePath srv cw d (name_of ns) fs = Some (found, d, fs)"
      using missing_path [OF n(1,2) _ n(3)] n(4) by (auto simp: node_at_def)
    then show ?thesis unfolding goes_to_def using None n dn by (simp add: open_trunc_def node_at_def Let_def)
  next
    case (Some x)
    then obtain G where G: "nodes fs ?R = Some (Reg G)" using c by auto
    then have "\<forall>srv cw. \<exists>found. SmartSlavePath srv cw d (name_of ns) fs = Some (found, d, fs)"
      using found_path [OF n(1) G n(4,6)] by blast
    then show ?thesis unfolding goes_to_def using G n dn by (simp add: open_trunc_def node_at_def Let_def)
  qed
  moreover have "put_over d (ns, F) fs = (?o [])\<lparr>nodes := (nodes (?o []))(resolve (?o []) d \<mapsto> Reg F)\<rparr>"
    by (simp add: put_over_def)
  ultimately show "\<exists>q fs1 fs2. goes_to d ns fs q fs1 fs2 \<and> put_over d (ns, F) fs = fs2\<lparr>nodes := (nodes fs2)(resolve fs2 q \<mapsto> Reg F)\<rparr>"
    by blast
  have R: "butlast ?R @ [last ?R] = ?R" using n(4) by simp
  have "butlast ?R \<noteq> ?R" using n(4) by (metis R append_self_conv not_Cons_self2)
  then have b: "node_at (?o F) (butlast ?R) = Some DirNode" using n(5) by (simp add: node_at_def split: if_splits)
  have "node_at (?o F) q = Some DirNode" if "nodes (?o F) (q @ [w]) \<noteq> None" for q w
  proof (cases "q @ [w] = ?R")
    case True
    then show ?thesis using b by (metis butlast_snoc)
  next
    case False
    then have "node_at fs q = Some DirNode" using that n(3) by (auto simp: tree_shaped_def)
    moreover from this have "q \<noteq> ?R" using c n(4) by (auto simp: node_at_def)
    ultimately show ?thesis by (simp add: node_at_def split: if_splits)
  qed
  then have "tree_shaped (?o F)" by (simp add: tree_shaped_def)
  then show "no_directory d rest (put_over d (ns, F) fs)"
    using a b by (simp add: no_directory_def put_over_def)
qed

lemma resolve_put_over: "resolve (put_over d f fs) p = resolve fs p"
  by (simp add: put_over_def)

lemma fold_put_over:
  "files \<noteq> [] \<Longrightarrow> fold (put_over d) files fs = fs\<lparr>nodes := (nodes fs)(resolve fs d \<mapsto> Reg (snd (last files)))\<rparr>"
proof (induction files arbitrary: fs)
  case (Cons f files)
  show ?case
  proof (cases "files = []")
    case False
    then have "fold (put_over d) (f # files) fs
        = (put_over d f fs)\<lparr>nodes := (nodes (put_over d f fs))(resolve fs d \<mapsto> Reg (snd (last files)))\<rparr>"
      using Cons.IH [of "put_over d f fs"] by (simp add: resolve_put_over fun_upd_def)
    then show ?thesis using False by (simp add: put_over_def [of d f] fun_upd_def cong: if_cong)
  qed (simp add: put_over_def fun_upd_def cong: if_cong)
qed simp

section \<open>Properties\<close>

text \<open>
  C6. Sending a directory: the command is accepted, the transfer comes to its end, and whenever it does,
  every file of the directory is on the other side with its contents, at the same place below the
  destination, nothing else there has changed but the directories made, and the user is told the
  number of the files and their size. The command has the source and the destination, with \<open>-cwd\<close>
  and the client's directory in front or not, and \<open>-a\<close> or not; the source, taken from that directory
  by the server, is an absolute path of a directory with at least one file, its names are distinct in
  each directory and have no separator, each file is regular, can be read and is below 2 GiB; the
  destination is an absolute path of a directory that exists, with room for every file, and path and
  name together are shorter than the buffer of a path. Every request to the file systems succeeds.
\<close>

theorem directory_sent:
  assumes L: "lz4_laws (e_lz4 e)" and h: "holds_tree mfs (e_scandir e) src (Branch es)" and n: "height (Branch es) \<le> e_depth e"
    and T: "tree_files (Branch es) \<noteq> []" "length (tree_files (Branch es)) < 2 ^ 32"
    and words: "line_words (c_str (chars_of payload)) = option_words o' @ [src0, d]" "options_ok o'" "source_path sv1 o' src0 = src" and d: "dest_ok d" "resolve sfs d = R"
    and ff: "files_fit sfs d R (named src (Branch es))"
  shows "\<exists>m. file_dispatch e (cmd CMD_FILE_INIT) payload (fresh_file sv1, mfs) = Some (True, m, mfs)
    \<and> (\<exists>m' s' sfs'. (file_round e mfs)\<^sup>*\<^sup>* (m, fresh_file sv2, sfs) (m', s', sfs') \<and> finished m')
    \<and> (\<forall>m' s' sfs'. (file_round e mfs)\<^sup>*\<^sup>* (m, fresh_file sv2, sfs) (m', s', sfs') \<longrightarrow> finished m' \<longrightarrow>
        (\<forall>(ns, F) \<in> set (tree_files (Branch es)). nodes sfs' (R @ GetFullFilePath src # ns) = Some (Reg F))
      \<and> (\<forall>q. (\<forall>(ns, F) \<in> set (named src (Branch es)). \<forall>k \<in> {1..length ns}. q \<noteq> R @ take k ns) \<longrightarrow> nodes sfs' q = nodes sfs q)
      \<and> (\<exists>s1 ms. file_dispatch e (cmd CMD_FILE_FINISH) [0] (s', sfs') = Some (True, s1, sfs')
          \<and> reports s1 = reports s' @ [TransferDone (word_of_nat (length (tree_files (Branch es))))
              (word_of_nat (length (concat (map snd (tree_files (Branch es)))))) ms]))"
proof -
  let ?T = "tree_files (Branch es)" and ?fl = "named src (Branch es)"
  have nm: "\<forall>(ns, F) \<in> set ?fl. names_ok d ns" using ff by (auto simp: files_fit_def)
  have fit: "dest_ok d \<and> files_fit sfs d (resolve sfs d) ?fl" using d ff by simp
  have A: "\<forall>(ns, F) \<in> set ?T. nodes (fold (put_file R) ?fl sfs) (R @ GetFullFilePath src # ns) = Some (Reg F)"
  proof
    fix x assume x: "x \<in> set ?T"
    obtain ns F where e: "x = (ns, F)" by (cases x)
    then have "(GetFullFilePath src # ns, F) \<in> set ?fl" using x by (force simp: named_def)
    then show "case x of (ns, F) \<Rightarrow> nodes (fold (put_file R) ?fl sfs) (R @ GetFullFilePath src # ns) = Some (Reg F)"
      using files_stored [OF ff] e by auto
  qed
  have B: "\<forall>q. (\<forall>(ns, F) \<in> set ?fl. \<forall>k \<in> {1..length ns}. q \<noteq> R @ take k ns) \<longrightarrow> nodes (fold (put_file R) ?fl sfs) q = nodes sfs q"
    using files_stored [OF ff] by blast
  have st: "fold (put_below d) ?fl sfs = fold (put_file R) ?fl sfs" by (rule fold_put_below [OF d(2)])
  obtain m where "file_dispatch e (cmd CMD_FILE_INIT) payload (fresh_file sv1, mfs) = Some (True, m, mfs)"
    "\<exists>m' s' sfs'. (file_round e mfs)\<^sup>*\<^sup>* (m, fresh_file sv2, sfs) (m', s', sfs') \<and> finished m'"
    "\<And>m' s' sfs'. (file_round e mfs)\<^sup>*\<^sup>* (m, fresh_file sv2, sfs) (m', s', sfs') \<Longrightarrow> finished m' \<Longrightarrow>
        sfs' = fold (put_file R) ?fl sfs
      \<and> (\<exists>s1 ms. file_dispatch e (cmd CMD_FILE_FINISH) [0] (s', sfs') = Some (True, s1, sfs')
          \<and> reports s1 = reports s' @ [TransferDone (word_of_nat (length ?T)) (word_of_nat (length (concat (map snd ?T)))) ms])"
    using into_directory.tree_sent [OF L h n T words nm fit, of sv2] unfolding st by blast
  then show ?thesis using A B by blast
qed

text \<open>
  C35. A destination that does not exist, in a directory that does: every file of the directory is
  accepted and written to the destination itself, one over the other. At the end it is a file with the
  contents of the one sent last, which is the first that was listed, nothing else has changed, and the
  user is told that all were transferred. The conditions on the command, the source and its files are
  those for a destination that is a directory.
\<close>

theorem missing_destination_collapses:
  assumes L: "lz4_laws (e_lz4 e)" and h: "holds_tree mfs (e_scandir e) src (Branch es)" and n: "height (Branch es) \<le> e_depth e"
    and T: "tree_files (Branch es) \<noteq> []" "length (tree_files (Branch es)) < 2 ^ 32"
    and words: "line_words (c_str (chars_of payload)) = option_words o' @ [src0, d]" "options_ok o'" "source_path sv1 o' src0 = src"
    and nm: "\<forall>(ns, F) \<in> set (named src (Branch es)). names_ok d ns"
    and d: "dest_ok d" "resolve sfs d = R" "R \<noteq> []" "nodes sfs R = None" "node_at sfs (butlast R) = Some DirNode"
    and fs: "tree_shaped sfs" "access_ok sfs False R"
  shows "\<exists>m. file_dispatch e (cmd CMD_FILE_INIT) payload (fresh_file sv1, mfs) = Some (True, m, mfs)
    \<and> (\<exists>m' s' sfs'. (file_round e mfs)\<^sup>*\<^sup>* (m, fresh_file sv2, sfs) (m', s', sfs') \<and> finished m')
    \<and> (\<forall>m' s' sfs'. (file_round e mfs)\<^sup>*\<^sup>* (m, fresh_file sv2, sfs) (m', s', sfs') \<longrightarrow> finished m' \<longrightarrow>
        nodes sfs' = (nodes sfs)(R \<mapsto> Reg (snd (hd (tree_files (Branch es)))))
      \<and> (\<exists>s1 ms. file_dispatch e (cmd CMD_FILE_FINISH) [0] (s', sfs') = Some (True, s1, sfs')
          \<and> reports s1 = reports s' @ [TransferDone (word_of_nat (length (tree_files (Branch es))))
              (word_of_nat (length (concat (map snd (tree_files (Branch es)))))) ms]))"
proof -
  let ?fl = "named src (Branch es)"
  have fit: "no_directory d ?fl sfs" using nm d fs by (simp add: no_directory_def)
  have "?fl \<noteq> []" "snd (last ?fl) = snd (hd (tree_files (Branch es)))"
    using T(1) by (simp_all add: named_def last_rev hd_map case_prod_unfold del: tree_files.simps)
  then have "nodes (fold (put_over d) ?fl sfs) = (nodes sfs)(R \<mapsto> Reg (snd (hd (tree_files (Branch es)))))"
    using d(2) by (simp add: fold_put_over del: tree_files.simps)
  then show ?thesis using onto_missing.tree_sent [OF L h n T words nm fit, of sv2] by (metis (no_types, lifting))
qed

section \<open>Examples\<close>

definition small_env :: file_env where
  "small_env = \<lparr> e_lz4 = no_lz4, e_scandir = (\<lambda>p. if p = ''/a'' then Some [(''.'', 2), (''f'', 1)] else None), e_depth = 1,
     e_mtime = (\<lambda>_. 0), e_now = 0, e_payload = blank_payload \<rparr>"

definition small_fs :: "string \<Rightarrow> (string \<times> bytes) list \<Rightarrow> fsys" where
  "small_fs dir fs = \<lparr> nodes = (\<lambda>q. if q = [dir] then Some DirNode else if length q = 2 \<and> hd q = dir
     then map_option Reg (map_of fs (last q)) else None), fs_cwd = [], access_ok = (\<lambda>_ _. True) \<rparr>"

definition small_tree :: dtree where
  "small_tree = Branch [(''f'', Leaf 1 [7])]"

lemma directory_sent_witness:
  "\<exists>m m' s' sfs'. file_dispatch small_env (cmd CMD_FILE_INIT) (bytes_of ''-cwd / -a a /b'') (fresh_file True, small_fs ''a'' [(''f'', [7])])
       = Some (True, m, small_fs ''a'' [(''f'', [7])])
     \<and> (file_round small_env (small_fs ''a'' [(''f'', [7])]))\<^sup>*\<^sup>* (m, fresh_file False, small_fs ''b'' []) (m', s', sfs')
     \<and> nodes sfs' [''b'', ''a'', ''f''] = Some (Reg [7])"
proof -
  let ?m = "small_fs ''a'' [(''f'', [7])]" and ?s = "small_fs ''b'' []"
  have T: "tree_files small_tree = [([''f''], [7])]" by (simp add: small_tree_def)
  have r: "resolve ?m ''/a'' = [''a'']" "resolve ?s ''/b'' = [''b'']" by (simp_all add: resolve_def IsAbsolutePath_def)
  have t: "GetFullFilePath ''/a'' = ''a''" by (simp add: GetFullFilePath_def GetPathSep_def str_rfind_def substr_def)
  have h: "holds_tree ?m (e_scandir small_env) ''/a'' small_tree"
    unfolding holds_tree_def T r t
    by (simp add: IsAbsolutePath_def clean_def node_at_def small_fs_def small_tree_def small_env_def dot_entry_def dirent_file_def UV_DIRENT_FILE_def)
  have nm: "named ''/a'' small_tree = [([''a'', ''f''], [7])]" unfolding named_def T t by simp
  have ff: "files_fit ?s ''/b'' [''b''] (named ''/a'' small_tree)"
    unfolding nm by (simp add: files_fit_def room_def names_ok_def clean_def small_fs_def node_at_def hdc_consts)
  have L: "lz4_laws (e_lz4 small_env)" by (simp add: small_env_def lz4_laws_def no_lz4_def)
  have w: "line_words (c_str (chars_of (bytes_of ''-cwd / -a a /b''))) = option_words \<lparr> opt_cwd = Some ''/'', opt_hold = True \<rparr> @ [''a'', ''/b'']"
    by (simp add: option_words_def chars_of_bytes_of c_str_def line_words_def blank_def)
  have o': "options_ok \<lparr> opt_cwd = Some ''/'', opt_hold = True \<rparr>"
    "source_path True \<lparr> opt_cwd = Some ''/'', opt_hold = True \<rparr> ''a'' = ''/a''"
    by (simp_all add: options_ok_def source_path_def cwd_of_def str_ok_def SECUREC_MEM_MAX_LEN_def ExtractRelativePath_def IsAbsolutePath_def)
  have d: "dest_ok ''/b''" by (simp add: dest_ok_def IsAbsolutePath_def)
  have hh: "height small_tree \<le> e_depth small_env" "tree_files small_tree \<noteq> []" "length (tree_files small_tree) < 2 ^ 32"
    unfolding T by (simp_all add: small_tree_def small_env_def)
  note D = directory_sent [OF L h [unfolded small_tree_def] hh [unfolded small_tree_def] w o' d r(2) ff [unfolded small_tree_def],
      of False, folded small_tree_def]
  then have "\<exists>m m' s' sfs'. file_dispatch small_env (cmd CMD_FILE_INIT) (bytes_of ''-cwd / -a a /b'') (fresh_file True, ?m) = Some (True, m, ?m)
      \<and> (file_round small_env ?m)\<^sup>*\<^sup>* (m, fresh_file False, ?s) (m', s', sfs')
      \<and> (\<forall>(ns, F) \<in> set (tree_files small_tree). nodes sfs' ([''b''] @ GetFullFilePath ''/a'' # ns) = Some (Reg F))"
    by blast
  then show ?thesis unfolding T t by simp
qed

definition pair_env :: file_env where
  "pair_env = small_env\<lparr>e_scandir := (\<lambda>p. if p = ''/a'' then Some [(''f'', 1), (''g'', 1)] else None)\<rparr>"

definition pair_tree :: dtree where
  "pair_tree = Branch [(''f'', Leaf 1 [7]), (''g'', Leaf 1 [8, 9])]"

lemma missing_destination_collapses_witness:
  "\<exists>m m' s' sfs'. file_dispatch pair_env (cmd CMD_FILE_INIT) (bytes_of ''-cwd /c/ /a /x'')
       (fresh_file True, small_fs ''a'' [(''f'', [7]), (''g'', [8, 9])]) = Some (True, m, small_fs ''a'' [(''f'', [7]), (''g'', [8, 9])])
     \<and> (file_round pair_env (small_fs ''a'' [(''f'', [7]), (''g'', [8, 9])]))\<^sup>*\<^sup>* (m, fresh_file False, small_fs ''b'' []) (m', s', sfs')
     \<and> nodes sfs' [''x''] = Some (Reg [7]) \<and> nodes sfs' [''x'', ''a''] = None"
proof -
  let ?m = "small_fs ''a'' [(''f'', [7]), (''g'', [8, 9])]" and ?s = "small_fs ''b'' []"
    and ?o = "\<lparr> opt_cwd = Some ''/c/'', opt_hold = False \<rparr>"
  have T: "tree_files pair_tree = [([''f''], [7]), ([''g''], [8, 9])]" by (simp add: pair_tree_def)
  have r: "resolve ?m ''/a'' = [''a'']" "resolve ?s ''/x'' = [''x'']" by (simp_all add: resolve_def IsAbsolutePath_def)
  have t: "GetFullFilePath ''/a'' = ''a''" by (simp add: GetFullFilePath_def GetPathSep_def str_rfind_def substr_def)
  have h: "holds_tree ?m (e_scandir pair_env) ''/a'' pair_tree"
    unfolding holds_tree_def T r t
    by (simp add: IsAbsolutePath_def clean_def node_at_def small_fs_def pair_tree_def pair_env_def dot_entry_def dirent_file_def UV_DIRENT_FILE_def)
  have nm: "\<forall>(ns, F) \<in> set (named ''/a'' pair_tree). names_ok ''/x'' ns"
    unfolding named_def T t by (simp add: names_ok_def clean_def hdc_consts)
  have L: "lz4_laws (e_lz4 pair_env)" by (simp add: pair_env_def small_env_def lz4_laws_def no_lz4_def)
  have w: "line_words (c_str (chars_of (bytes_of ''-cwd /c/ /a /x''))) = option_words ?o @ [''/a'', ''/x'']"
    by (simp add: option_words_def chars_of_bytes_of c_str_def line_words_def blank_def)
  have o': "options_ok ?o" "source_path True ?o ''/a'' = ''/a''"
    by (simp_all add: options_ok_def source_path_def cwd_of_def str_ok_def SECUREC_MEM_MAX_LEN_def ExtractRelativePath_def IsAbsolutePath_def)
  have hh: "height pair_tree \<le> e_depth pair_env" "tree_files pair_tree \<noteq> []" "length (tree_files pair_tree) < 2 ^ 32"
    unfolding T by (simp_all add: pair_tree_def pair_env_def small_env_def)
  have d: "dest_ok ''/x''" "[''x''] \<noteq> []" "nodes ?s [''x''] = None" "node_at ?s (butlast [''x'']) = Some DirNode" "access_ok ?s False [''x'']"
    by (simp_all add: dest_ok_def IsAbsolutePath_def small_fs_def node_at_def)
  have ts: "tree_shaped ?s" by (auto simp: tree_shaped_def small_fs_def node_at_def split: if_splits)
  note D = missing_destination_collapses [OF L h [unfolded pair_tree_def] hh [unfolded pair_tree_def] w o' nm [unfolded pair_tree_def]
      d(1) r(2) d(2-4) ts d(5), of False, folded pair_tree_def]
  have n: "((nodes ?s)([''x''] \<mapsto> Reg (snd (hd (tree_files pair_tree))))) [''x''] = Some (Reg [7])"
    "((nodes ?s)([''x''] \<mapsto> Reg (snd (hd (tree_files pair_tree))))) [''x'', ''a''] = None"
    unfolding T by (simp_all add: small_fs_def)
  from D show ?thesis using n by metis
qed

text \<open>A directory named without a separator: its name is put twice in front of its files.\<close>

lemma bare_directory_name:
  "GetPathSep \<notin> set src \<Longrightarrow> GetPathWithoutFilename src @ name_of (GetFullFilePath src # ns) = src @ src @ below ns"
  using path_parts [of src] by (simp add: name_of_Cons)

end
