(* ===== verification/Hdc_Descriptor.thy ===== *)
theory Hdc_Descriptor
  imports Hdc_Strings
begin

unbundle bit_operations_syntax

text \<open>
  Processes of the daemon: the base class of tasks (src/src/common/task.cpp), reading and writing a
  descriptor in the loop (src/src/common/file_descriptor.cpp) and a command whose output is read
  (src/src/common/async_cmd.cpp).
\<close>

section \<open>Tasks\<close>

text \<open>
  The part of a task every class has: what it has sent, whether the session still takes it, the count
  its release waits for, and what the user was told.
\<close>

record task =
  tk_sent :: "(u16 \<times> bytes) list"
  tk_up :: bool
  tk_stop :: bool
  tk_ref :: u32
  tk_log :: "(MessageLevel \<times> string) list"

definition tk_send :: "u16 \<Rightarrow> bytes \<Rightarrow> task \<Rightarrow> bool \<times> task" where
  "tk_send c bs t = (if tk_stop t \<or> \<not> tk_up t then (False, t) else (True, t\<lparr>tk_sent := tk_sent t @ [(c, bs)]\<rparr>))"

definition tk_finish :: "task \<Rightarrow> task" where
  "tk_finish t = snd (tk_send (cmd CMD_KERNEL_CHANNEL_CLOSE) [1] t)"

definition tk_say :: "MessageLevel \<Rightarrow> string \<Rightarrow> task \<Rightarrow> task" where
  "tk_say l s t = t\<lparr>tk_log := tk_log t @ [(l, s)]\<rparr>"

definition tk_ready :: "task \<Rightarrow> bool" where
  "tk_ready t \<longleftrightarrow> tk_ref t = 0"

section \<open>A descriptor\<close>

text \<open>
  The requests that have not completed. \<open>workContinue\<close> is set and never read, the callback of a close
  is called when the close completes; no caller gives one.
\<close>

datatype fd_req = FdRead | FdWrite bytes | FdClose

record descriptor =
  fdIO :: int
  refIO :: nat
  workContinue :: bool
  fd_reqs :: "fd_req list"

definition HdcFileDescriptor :: "int \<Rightarrow> descriptor" where
  "HdcFileDescriptor fd = \<lparr> fdIO = fd, refIO = 0, workContinue = True, fd_reqs = [] \<rparr>"

definition fd_request :: "fd_req \<Rightarrow> descriptor \<Rightarrow> descriptor" where
  "fd_request r d = d\<lparr>refIO := Suc (refIO d), fd_reqs := fd_reqs d @ [r]\<rparr>"

definition LoopRead :: "descriptor \<Rightarrow> descriptor" where
  "LoopRead = fd_request FdRead"

definition StartWork :: "descriptor \<Rightarrow> bool \<times> descriptor" where
  "StartWork d = (True, LoopRead d)"

definition WriteWithMem :: "bytes \<Rightarrow> descriptor \<Rightarrow> int \<times> descriptor" where
  "WriteWithMem data d = (int (length data), fd_request (FdWrite data) d)"

definition Write :: "bytes \<Rightarrow> descriptor \<Rightarrow> int \<times> descriptor" where
  "Write data d = (let data' = take (HDC_BUF_MAX_BYTES - 1) data in
     if data' = [] then (- 1, d) else WriteWithMem data' d)"

definition StopWork :: "bool \<Rightarrow> descriptor \<Rightarrow> descriptor" where
  "StopWork tryCloseFdIo d = (let d1 = d\<lparr>workContinue := False\<rparr> in
     if tryCloseFdIo \<and> 0 < refIO d1 then fd_request FdClose d1 else d1)"

definition fd_ready :: "descriptor \<Rightarrow> bool" where
  "fd_ready d \<longleftrightarrow> refIO d = 0"

text \<open>
  A read or a write has completed with \<open>result\<close>: the owner \<open>s\<close> takes what was read, or is told of the
  end. The reads go on as long as it takes them; a write that fails ends the work as well.
\<close>

definition OnFileIO ::
  "(bytes \<Rightarrow> 's \<Rightarrow> bool \<times> 's) \<Rightarrow> (bool \<Rightarrow> string \<Rightarrow> 's \<Rightarrow> 's) \<Rightarrow> fd_req \<Rightarrow> int \<Rightarrow> bytes \<Rightarrow> descriptor \<times> 's \<Rightarrow> descriptor \<times> 's" where
  "OnFileIO callbackRead callbackFinish req result buf ds =
     (case ds of (d, s) \<Rightarrow>
      let (bFinish, fetal, d1, s1) =
        (if 0 < result then
           (if req = FdRead then
              (case callbackRead (take (nat result) buf) s of
                 (False, s') \<Rightarrow> (True, False, d, s')
               | (True, s') \<Rightarrow> (False, False, LoopRead d, s'))
            else (False, False, d, s))
         else (True, True, d, s));
          d2 = d1\<lparr>refIO := refIO d1 - 1\<rparr>
      in if bFinish then (d2\<lparr>workContinue := False\<rparr>, callbackFinish fetal [] s1) else (d2, s1))"

definition OnFdClose :: "descriptor \<Rightarrow> descriptor" where
  "OnFdClose d = d\<lparr>refIO := refIO d - 1\<rparr>"

text \<open>
  The steps of a descriptor and its owner: any outstanding request completes. What a read brings is the
  next piece of \<open>out\<close>; after it the descriptor is at its end. Writes complete, in part or as a whole,
  or fail; the failures are counted.
\<close>

inductive fd_io ::
  "(bytes \<Rightarrow> 's \<Rightarrow> bool \<times> 's) \<Rightarrow> (bool \<Rightarrow> string \<Rightarrow> 's \<Rightarrow> 's) \<Rightarrow>
   bytes \<times> nat \<times> descriptor \<times> 's \<Rightarrow> bytes \<times> nat \<times> descriptor \<times> 's \<Rightarrow> bool"
  for cr cf where
  fd_read: "fd_reqs d = as @ FdRead # bs \<Longrightarrow> piece \<noteq> [] \<Longrightarrow>
    OnFileIO cr cf FdRead (int (length piece)) piece (d\<lparr>fd_reqs := as @ bs\<rparr>, s) = (d', s') \<Longrightarrow>
    fd_io cr cf (piece @ rest, f, d, s) (rest, f, d', s')"
| fd_end: "fd_reqs d = as @ FdRead # bs \<Longrightarrow> r \<le> 0 \<Longrightarrow>
    OnFileIO cr cf FdRead r [] (d\<lparr>fd_reqs := as @ bs\<rparr>, s) = (d', s') \<Longrightarrow>
    fd_io cr cf ([], f, d, s) ([], f, d', s')"
| fd_written: "fd_reqs d = as @ FdWrite w # bs \<Longrightarrow> 0 < r \<Longrightarrow>
    OnFileIO cr cf (FdWrite w) r [] (d\<lparr>fd_reqs := as @ bs\<rparr>, s) = (d', s') \<Longrightarrow>
    fd_io cr cf (out, f, d, s) (out, f, d', s')"
| fd_write_failed: "fd_reqs d = as @ FdWrite w # bs \<Longrightarrow> r \<le> 0 \<Longrightarrow>
    OnFileIO cr cf (FdWrite w) r [] (d\<lparr>fd_reqs := as @ bs\<rparr>, s) = (d', s') \<Longrightarrow>
    fd_io cr cf (out, f, d, s) (out, Suc f, d', s')"
text \<open>A descriptor nothing is written to.\<close>

definition no_writes :: "descriptor \<Rightarrow> bool" where
  "no_writes d \<longleftrightarrow> (\<forall>r \<in> set (fd_reqs d). r = FdRead)"

lemma io_no_writes:
  assumes "fd_io cr cf (out, f, d, st) (out', f', d', st')" and "no_writes d"
  shows "no_writes d' \<and> f' = f"
  using assms
  by (cases rule: fd_io.cases)
    (auto simp: no_writes_def OnFileIO_def LoopRead_def fd_request_def Let_def split: prod.splits bool.splits if_splits)

section \<open>The contract of an owner\<close>

text \<open>
  A task in a state of \<open>owner\<close> adds what it takes to what it has delivered, and takes everything as long as it is open. At
  the end it gives back one of the references it holds and, if it is open, tells it.
\<close>

locale fd_owner =
  fixes takes :: "bytes \<Rightarrow> 's \<Rightarrow> bool \<times> 's" and ends :: "bool \<Rightarrow> string \<Rightarrow> 's \<Rightarrow> 's" and owner :: "'s \<Rightarrow> bool"
    and delivered :: "'s \<Rightarrow> bytes" and told :: "'s \<Rightarrow> nat" and held :: "'s \<Rightarrow> u32" and open_for :: "'s \<Rightarrow> bool"
  assumes takes_open: "owner s \<Longrightarrow> open_for s \<Longrightarrow> fst (takes d s)"
    and takes_delivers: "owner s \<Longrightarrow> delivered (snd (takes d s)) = (if fst (takes d s) then delivered s @ d else delivered s)"
    and takes_keeps: "owner s \<Longrightarrow> owner (snd (takes d s))" "owner s \<Longrightarrow> open_for (snd (takes d s)) = open_for s"
      "owner s \<Longrightarrow> told (snd (takes d s)) = told s" "owner s \<Longrightarrow> held (snd (takes d s)) = held s"
    and ends_keeps: "owner s \<Longrightarrow> owner (ends b m s)" "owner s \<Longrightarrow> delivered (ends b m s) = delivered s"
      "owner s \<Longrightarrow> open_for (ends b m s) = open_for s"
    and ends_gives: "owner s \<Longrightarrow> held (ends b m s) = held s - 1"
    and ends_tells: "owner s \<Longrightarrow> open_for s \<Longrightarrow> told (ends b m s) = Suc (told s)"
begin

text \<open>
  The work started with \<open>h\<close> references and \<open>n\<close> ends told: one read is outstanding, or it has ended and one reference was
  given back for it; one more for each write that failed.
\<close>

definition ended :: "descriptor \<Rightarrow> nat" where
  "ended d = (if FdRead \<in> set (fd_reqs d) then 0 else 1)"

definition fd_inv :: "bytes \<Rightarrow> u32 \<Rightarrow> nat \<Rightarrow> bytes \<times> nat \<times> descriptor \<times> 's \<Rightarrow> bool" where
  "fd_inv all h n st \<longleftrightarrow> (case st of (out, f, d, s) \<Rightarrow>
     owner s \<and> refIO d = length (fd_reqs d) \<and> count_list (fd_reqs d) FdRead \<le> 1 \<and> FdClose \<notin> set (fd_reqs d)
   \<and> held s = h - of_nat (f + ended d)
   \<and> (open_for s \<longrightarrow> told s = n + f + ended d)
   \<and> (\<exists>lost. delivered s @ lost @ out = all \<and> (FdRead \<in> set (fd_reqs d) \<or> open_for s \<longrightarrow> lost = []))
   \<and> (open_for s \<and> FdRead \<notin> set (fd_reqs d) \<longrightarrow> out = []))"

lemma io_more:
  assumes "fst (takes piece s)" and "piece \<noteq> []"
  shows "OnFileIO takes ends FdRead (int (length piece)) piece (d, s) =
    ((LoopRead d)\<lparr>refIO := refIO d\<rparr>, snd (takes piece s))"
  using assms by (cases "takes piece s") (simp add: OnFileIO_def LoopRead_def fd_request_def)

lemma io_refused:
  assumes "\<not> fst (takes piece s)" and "piece \<noteq> []"
  shows "OnFileIO takes ends FdRead (int (length piece)) piece (d, s) =
    (d\<lparr>refIO := refIO d - 1, workContinue := False\<rparr>, ends False [] (snd (takes piece s)))"
  using assms by (cases "takes piece s") (simp add: OnFileIO_def)

lemma io_over: "r \<le> 0 \<Longrightarrow> OnFileIO takes ends q r b (d, s) = (d\<lparr>refIO := refIO d - 1, workContinue := False\<rparr>, ends True [] s)"
  by (simp add: OnFileIO_def)

lemma io_written: "0 < r \<Longrightarrow> OnFileIO takes ends (FdWrite w) r b (d, s) = (d\<lparr>refIO := refIO d - 1\<rparr>, s)"
  by (simp add: OnFileIO_def)

lemma fd_inv_io:
  assumes "fd_io takes ends st st'" and "fd_inv all h n st"
  shows "fd_inv all h n st'"
  using assms
proof (cases rule: fd_io.cases)
  case (fd_read d as bs piece s d' s' rest f)
  have o: "owner s" "count_list (as @ bs) FdRead = 0" "refIO d = Suc (length (as @ bs))" "FdClose \<notin> set (as @ bs)"
    "held s = h - of_nat f" "open_for s \<longrightarrow> told s = n + f" "delivered s @ piece @ rest = all"
    using assms(2) fd_read(1,3) by (auto simp: fd_inv_def ended_def)
  show ?thesis
  proof (cases "fst (takes piece s)")
    case True
    have "d' = (LoopRead (d\<lparr>fd_reqs := as @ bs\<rparr>))\<lparr>refIO := refIO d\<rparr>" "s' = snd (takes piece s)"
      using fd_read(5) io_more [OF True fd_read(4)] by auto
    then show ?thesis using o fd_read(2) True takes_delivers [OF o(1), of piece] takes_keeps [OF o(1), of piece]
      by (auto simp: fd_inv_def ended_def LoopRead_def fd_request_def)
  next
    case False
    have d': "fd_reqs d' = as @ bs" "refIO d' = length (as @ bs)" "s' = ends False [] (snd (takes piece s))"
      using fd_read(5) io_refused [OF False fd_read(4)] o(3) by auto
    have "\<not> open_for s" using takes_open [OF o(1)] False by blast
    then show ?thesis using o fd_read(2) False d' takes_delivers [OF o(1), of piece] takes_keeps [OF o(1), of piece]
      by (auto simp: fd_inv_def ended_def ends_keeps ends_gives count_list_0_iff)
  qed
next
  case (fd_end d as bs r s d' s' f)
  have o: "owner s" "count_list (as @ bs) FdRead = 0" "refIO d = Suc (length (as @ bs))" "FdClose \<notin> set (as @ bs)"
    "held s = h - of_nat f" "open_for s \<longrightarrow> told s = n + f" "delivered s = all"
    using assms(2) fd_end(1,3) by (auto simp: fd_inv_def ended_def)
  have d': "fd_reqs d' = as @ bs" "refIO d' = length (as @ bs)" "s' = ends True [] s"
    using fd_end(5) io_over [OF fd_end(4)] o(3) by auto
  then show ?thesis using o fd_end(2) by (auto simp: fd_inv_def ended_def ends_keeps ends_gives ends_tells count_list_0_iff)
next
  case (fd_written d as w bs r s d' s' out f)
  then have "fd_reqs d' = as @ bs" "refIO d' = refIO d - 1" "s' = s" using io_written [OF fd_written(4)] by auto
  then show ?thesis using assms(2) fd_written(1-3) by (auto simp: fd_inv_def ended_def)
next
  case (fd_write_failed d as w bs r s d' s' out f)
  then have "fd_reqs d' = as @ bs" "refIO d' = refIO d - 1" "s' = ends True [] s" using io_over [OF fd_write_failed(4)] by auto
  then show ?thesis using assms(2) fd_write_failed(1-3)
    by (auto simp: fd_inv_def ended_def ends_keeps ends_gives ends_tells)
qed

lemma fd_inv_input: "fd_inv all h n (out, f, d, s) \<Longrightarrow> fd_inv all h n (out, f, snd (Write w d), s)"
  by (auto simp: fd_inv_def ended_def Write_def WriteWithMem_def fd_request_def Let_def)

text \<open>Stopping the owner, or losing its peer, delivers nothing and at most closes it.\<close>

lemma fd_inv_closed:
  assumes "fd_inv all h n (out, f, d, s)" and "delivered s' = delivered s" and "owner s'" and "told s' = told s" and "held s' = held s"
    and "open_for s' \<Longrightarrow> open_for s" and "fd_reqs d' = fd_reqs d" and "refIO d' = refIO d"
  shows "fd_inv all h n (out, f, d', s')"
  using assms by (auto simp: fd_inv_def ended_def)

lemma fd_started: "owner s \<Longrightarrow> fd_inv (delivered s @ out) (held s) (told s) (out, 0, LoopRead (HdcFileDescriptor fd), s)"
  by (simp add: fd_inv_def ended_def LoopRead_def fd_request_def HdcFileDescriptor_def)

text \<open>When nothing is outstanding any more, an open owner has delivered all of it.\<close>

lemma fd_done:
  assumes "fd_inv all h n (out, f, d, s)" and "fd_reqs d = []"
  shows "fd_ready d" and "held s = h - 1 - of_nat f" and "open_for s \<Longrightarrow> delivered s = all \<and> told s = Suc (n + f)"
  using assms by (auto simp: fd_inv_def fd_ready_def ended_def algebra_simps)

lemma fd_prefix: "fd_inv all h n (out, f, d, s) \<Longrightarrow> \<exists>rest. all = delivered s @ rest"
  by (auto simp: fd_inv_def)

end

section \<open>A command\<close>

text \<open>
  \<open>Trim\<close> of src/src/common/base.h. A name not found is \<open>npos\<close>, so that a string of the characters
  only is erased as a whole.
\<close>

definition RightTrim :: "string \<Rightarrow> string \<Rightarrow> string" where
  "RightTrim w s = rev (dropWhile (\<lambda>c. c \<in> set w) (rev s))"

definition LeftTrim :: "string \<Rightarrow> string \<Rightarrow> string" where
  "LeftTrim w s = dropWhile (\<lambda>c. c \<in> set w) s"

definition Trim :: "string \<Rightarrow> string \<Rightarrow> string" where
  "Trim w s = LeftTrim w (RightTrim w s)"

text \<open>
  \<open>AsyncCmd\<close>. Beside its members the processes it has started with \<open>sh -c\<close>, and those it has sent
  \<open>SIGTERM\<close>. \<open>cmdResult\<close> collects the output of a one-time command.
\<close>

definition OPTION_COMMAND_ONETIME :: u32 where "OPTION_COMMAND_ONETIME = 1"

record async_cmd =
  ac_options :: u32
  ac_fd :: int
  ac_pid :: int
  childShell :: "descriptor option"
  ac_ref :: u32
  cmdResult :: bytes
  ac_started :: "string list"
  ac_killed :: "int list"
  ac_closed :: "int list"

definition AsyncCmd0 :: async_cmd where
  "AsyncCmd0 = \<lparr> ac_options = 0, ac_fd = 0, ac_pid = 0, childShell = None, ac_ref = 0, cmdResult = [],
     ac_started = [], ac_killed = [], ac_closed = [] \<rparr>"

definition Initial :: "u32 \<Rightarrow> async_cmd \<Rightarrow> bool \<times> async_cmd" where
  "Initial options' ac = (True, ac\<lparr>ac_options := options'\<rparr>)"

text \<open>
  \<open>Popen\<close>: the pipe, and what \<open>fork\<close> returns to the parent. The child becomes the shell.
\<close>

definition Popen :: "bool \<Rightarrow> int \<times> int \<Rightarrow> int \<Rightarrow> int \<Rightarrow> int \<times> int" where
  "Popen readWrite fds childPid old =
     (if childPid = - 1 then (err ERR_GENERIC, old) else (if readWrite then fst fds else snd fds, childPid))"

definition ExecuteCommand :: "int \<times> int \<Rightarrow> int \<Rightarrow> string \<Rightarrow> async_cmd \<Rightarrow> bool \<times> async_cmd" where
  "ExecuteCommand fds childPid command ac =
     (let c = Trim [CHR 0x22] command; (fd, pid) = Popen True fds childPid (ac_pid ac);
          ac1 = ac\<lparr>ac_fd := fd, ac_pid := pid, ac_started := (if childPid = - 1 then ac_started ac else ac_started ac @ [c_str c])\<rparr>
      in if fd < 0 then (False, ac1)
         else case StartWork (HdcFileDescriptor fd) of
           (False, d) \<Rightarrow> (False, ac1\<lparr>childShell := Some d\<rparr>)
         | (True, d) \<Rightarrow> (True, ac1\<lparr>childShell := Some d, ac_ref := ac_ref ac1 + 1\<rparr>))"

text \<open>The callbacks; \<open>result\<close> is the task's: finished, the exit status, the text.\<close>

definition FinishShellProc ::
  "(bool \<Rightarrow> int \<Rightarrow> bytes \<Rightarrow> async_cmd \<times> 's \<Rightarrow> bool \<times> async_cmd \<times> 's) \<Rightarrow> bool \<Rightarrow> string \<Rightarrow> async_cmd \<times> 's \<Rightarrow> async_cmd \<times> 's" where
  "FinishShellProc result b exitMsg st =
     (let st1 = snd (result True (of_bool b) (cmdResult (fst st) @ bytes_of exitMsg) st)
      in ((fst st1)\<lparr>ac_ref := ac_ref (fst st1) - 1\<rparr>, snd st1))"

definition ChildReadCallback ::
  "(bool \<Rightarrow> int \<Rightarrow> bytes \<Rightarrow> async_cmd \<times> 's \<Rightarrow> bool \<times> async_cmd \<times> 's) \<Rightarrow> bytes \<Rightarrow> async_cmd \<times> 's \<Rightarrow> bool \<times> async_cmd \<times> 's" where
  "ChildReadCallback result buf st =
     (if ac_options (fst st) AND OPTION_COMMAND_ONETIME \<noteq> 0
      then (True, (fst st)\<lparr>cmdResult := cmdResult (fst st) @ buf\<rparr>, snd st)
      else result False 0 buf st)"

definition DoRelease :: "async_cmd \<Rightarrow> async_cmd" where
  "DoRelease ac =
     (let ac1 = ac\<lparr>childShell := map_option (StopWork False) (childShell ac)\<rparr>
      in if 0 < ac_pid ac1 then ac1\<lparr>ac_killed := ac_killed ac1 @ [ac_pid ac1]\<rparr> else ac1)"

definition ReadyForRelease :: "async_cmd \<Rightarrow> bool \<times> async_cmd" where
  "ReadyForRelease ac =
     (if (case childShell ac of Some d \<Rightarrow> \<not> fd_ready d | None \<Rightarrow> False) then (False, ac)
      else if ac_ref ac \<noteq> 0 then (False, ac)
      else (True, (if 0 < ac_fd ac then ac\<lparr>childShell := None, ac_closed := ac_closed ac @ [ac_fd ac]\<rparr> else ac\<lparr>childShell := None\<rparr>)))"

end
