(* ===== verification/Hdc_Shell.thy ===== *)
theory Hdc_Shell
  imports Hdc_Descriptor
begin

text \<open>
  The shell of the daemon (src/src/daemon/shell.cpp): a pseudo terminal with a shell behind it, whose
  output goes to the client as it comes and whose input is what the client sends.
\<close>

section \<open>State\<close>

text \<open>
  The members of \<open>HdcShell\<close>; the signals sent and the descriptors closed are recorded. The child the
  class holds is a descriptor that is read from \<open>StartShell\<close> on.
\<close>

record shell =
  sh_task :: task
  sh_child :: "descriptor option"
  fdPTY :: int
  pidShell :: int
  childReady :: bool
  sh_signals :: "(int \<times> nat) list"
  sh_closed :: "int list"

definition SIGINT :: nat where "SIGINT = 2"
definition SIGKILL :: nat where "SIGKILL = 9"

definition HdcShell :: "bool \<Rightarrow> shell" where
  "HdcShell u = \<lparr> sh_task = \<lparr> tk_sent = [], tk_up = u, tk_stop = False, tk_ref = 0, tk_log = [] \<rparr>, sh_child = None,
     fdPTY = 0, pidShell = 0, childReady = False, sh_signals = [], sh_closed = [] \<rparr>"

definition on_task :: "(task \<Rightarrow> task) \<Rightarrow> shell \<Rightarrow> shell" where
  "on_task g s = s\<lparr>sh_task := g (sh_task s)\<rparr>"

definition sh_kill :: "int \<Rightarrow> nat \<Rightarrow> shell \<Rightarrow> shell" where
  "sh_kill pid sig s = s\<lparr>sh_signals := sh_signals s @ [(pid, sig)]\<rparr>"

section \<open>Starting\<close>

text \<open>
  What the system answers: the descriptor of \<open>/dev/ptmx\<close>, whether \<open>grantpt\<close> and \<open>unlockpt\<close>, then
  \<open>ptsname_r\<close>, succeed, and what \<open>fork\<close> returns to the parent.
\<close>

record pty_env =
  pe_ptmx :: int
  pe_granted :: bool
  pe_named :: bool
  pe_fork :: int

definition ShellFork :: "pty_env \<Rightarrow> int" where
  "ShellFork E = (if pe_fork E < 0 then err ERR_GENERIC else pe_fork E)"

text \<open>The result, and what is stored as the process of the shell.\<close>

definition CreateSubProcessPTY :: "pty_env \<Rightarrow> shell \<Rightarrow> int \<times> shell" where
  "CreateSubProcessPTY E s =
     (let ptm = pe_ptmx E in
      if ptm < 0 then (err ERR_FILE_OPEN, s)
      else if \<not> pe_granted E \<or> \<not> pe_named E then (err ERR_API_FAIL, s\<lparr>sh_closed := sh_closed s @ [ptm]\<rparr>)
      else (ptm, s\<lparr>pidShell := ShellFork E\<rparr>))"

definition StartShell :: "pty_env \<Rightarrow> shell \<Rightarrow> int \<times> shell" where
  "StartShell E s =
     (let (fd, s1) = CreateSubProcessPTY E s; s2 = s1\<lparr>fdPTY := fd\<rparr>;
          (ret, s3) =
            (if fd < 0 then (err ERR_PROCESS_SUB_FAIL, s2)
             else case StartWork (HdcFileDescriptor fd) of
               (False, d) \<Rightarrow> (err ERR_API_FAIL, s2\<lparr>sh_child := Some d\<rparr>)
             | (True, d) \<Rightarrow> (0, on_task (\<lambda>t. t\<lparr>tk_ref := tk_ref t + 1\<rparr>) (s2\<lparr>sh_child := Some d, childReady := True\<rparr>)))
      in (ret, if ret \<noteq> 0 \<and> 0 < pidShell s3 then sh_kill (pidShell s3) SIGKILL s3 else s3))"

section \<open>Operations\<close>

definition FinishShellProc :: "bool \<Rightarrow> string \<Rightarrow> shell \<Rightarrow> shell" where
  "FinishShellProc b exitMsg s = on_task (\<lambda>t. (tk_finish t)\<lparr>tk_ref := tk_ref t - 1\<rparr>) s"

definition ChildReadCallback :: "bytes \<Rightarrow> shell \<Rightarrow> bool \<times> shell" where
  "ChildReadCallback buf s = (case tk_send (cmd CMD_KERNEL_ECHO_RAW) buf (sh_task s) of (r, t) \<Rightarrow> (r, s\<lparr>sh_task := t\<rparr>))"

text \<open>\<open>tpgid\<close> is the foreground process group of the terminal.\<close>

definition SpecialSignal :: "int \<Rightarrow> u8 \<Rightarrow> shell \<Rightarrow> bool \<times> shell" where
  "SpecialSignal tpgid ch s =
     (if ch = 3 then (True, if 0 < fdPTY s \<and> 1 < tpgid then sh_kill tpgid SIGINT s else s) else (False, s))"

definition shell_dispatch :: "pty_env \<Rightarrow> int \<Rightarrow> u16 \<Rightarrow> bytes \<Rightarrow> shell \<Rightarrow> bool \<times> shell" where
  "shell_dispatch E tpgid c payload s =
     (if c = cmd CMD_SHELL_INIT then
        (case StartShell E s of (r, s1) \<Rightarrow>
           (True, if r \<noteq> 0 then on_task (tk_say MSG_FAIL ''Shell initialize failed'') s1 else s1))
      else if c = cmd CMD_SHELL_DATA then
        (if \<not> childReady s then (False, s)
         else case (if length payload = 1 then SpecialSignal tpgid (payload ! 0) s else (False, s)) of
           (True, s1) \<Rightarrow> (True, s1)
         | (False, s1) \<Rightarrow> (True, s1\<lparr>sh_child := map_option (\<lambda>d. snd (Write payload d)) (sh_child s1)\<rparr>))
      else (True, s))"

definition StopTask :: "shell \<Rightarrow> shell" where
  "StopTask s =
     (let s1 = on_task (\<lambda>t. t\<lparr>tk_stop := True\<rparr>) s in
      if \<not> childReady s1 then s1
      else let s2 = s1\<lparr>sh_child := map_option (StopWork False) (sh_child s1)\<rparr>
           in if 1 < pidShell s2 then sh_kill (pidShell s2) SIGKILL s2 else s2)"

definition ReadyForRelease :: "shell \<Rightarrow> bool \<times> shell" where
  "ReadyForRelease s =
     (if \<not> tk_ready (sh_task s) then (False, s)
      else if \<not> childReady s then (True, s)
      else case sh_child s of
        Some d \<Rightarrow> if \<not> fd_ready d then (False, s)
          else (True, if 0 < fdPTY s then s\<lparr>sh_child := None, sh_closed := sh_closed s @ [fdPTY s]\<rparr> else s\<lparr>sh_child := None\<rparr>)
      | None \<Rightarrow> (False, s))"

section \<open>The shell as the owner of its descriptor\<close>

definition raw_output :: "(u16 \<times> bytes) list \<Rightarrow> bytes" where
  "raw_output l = concat (map snd (filter (\<lambda>m. fst m = cmd CMD_KERNEL_ECHO_RAW) l))"

definition close_count :: "(u16 \<times> bytes) list \<Rightarrow> nat" where
  "close_count l = length (filter (\<lambda>m. fst m = cmd CMD_KERNEL_CHANNEL_CLOSE) l)"

lemma raw_output_add [simp]: "raw_output (l @ [m]) = raw_output l @ (if fst m = cmd CMD_KERNEL_ECHO_RAW then snd m else [])"
  by (simp add: raw_output_def)

lemma closes_add [simp]: "close_count (l @ [m]) = close_count l + (if fst m = cmd CMD_KERNEL_CHANNEL_CLOSE then 1 else 0)"
  by (simp add: close_count_def)

definition sh_open :: "shell \<Rightarrow> bool" where
  "sh_open s \<longleftrightarrow> tk_up (sh_task s) \<and> \<not> tk_stop (sh_task s)"

definition sh_out :: "shell \<Rightarrow> bytes" where
  "sh_out s = raw_output (tk_sent (sh_task s))"

interpretation shell: fd_owner ChildReadCallback FinishShellProc "\<lambda>_. True" sh_out
  "\<lambda>s. close_count (tk_sent (sh_task s))" "\<lambda>s. tk_ref (sh_task s)" sh_open
  by unfold_locales
    (auto simp: ChildReadCallback_def FinishShellProc_def StopTask_def sh_out_def sh_open_def tk_send_def tk_finish_def
      on_task_def sh_kill_def Let_def cmd_inj simp del: cmd.simps split: prod.splits if_splits)

section \<open>Running\<close>

text \<open>
  The steps after the start: a request of the descriptor completes, the client sends input, the task is
  stopped, the session is lost. With the state goes what the process will still write and how many writes to it have failed.
\<close>

inductive shell_step :: "bytes \<times> nat \<times> shell \<Rightarrow> bytes \<times> nat \<times> shell \<Rightarrow> bool" where
  shell_io: "sh_child s = Some d \<Longrightarrow> fd_io ChildReadCallback FinishShellProc (out, f, d, s) (out', f', d', s') \<Longrightarrow>
    shell_step (out, f, s) (out', f', s'\<lparr>sh_child := Some d'\<rparr>)"
| shell_data: "shell_dispatch E tpgid (cmd CMD_SHELL_DATA) payload s = (ok, s') \<Longrightarrow> shell_step (out, f, s) (out, f, s')"
| shell_stop: "shell_step (out, f, s) (out, f, StopTask s)"
| shell_lost: "shell_step (out, f, s) (out, f, on_task (\<lambda>t. t\<lparr>tk_up := False\<rparr>) s)"

abbreviation shell_run :: "bytes \<times> nat \<times> shell \<Rightarrow> bytes \<times> nat \<times> shell \<Rightarrow> bool" where
  "shell_run \<equiv> shell_step\<^sup>*\<^sup>*"

definition shell_inv :: "bytes \<Rightarrow> bytes \<times> nat \<times> shell \<Rightarrow> bool" where
  "shell_inv all st \<longleftrightarrow> (case st of (out, f, s) \<Rightarrow> childReady s \<and> (\<exists>d. sh_child s = Some d \<and> shell.fd_inv all 1 0 (out, f, d, s)))"

lemma inv_child [simp]: "shell.fd_inv all h n (out, f, d, s\<lparr>sh_child := c\<rparr>) = shell.fd_inv all h n (out, f, d, s)"
  by (simp add: shell.fd_inv_def sh_out_def sh_open_def)

lemma inv_signal [simp]: "shell.fd_inv all h n (out, f, d, sh_kill p g s) = shell.fd_inv all h n (out, f, d, s)"
  by (simp add: shell.fd_inv_def sh_out_def sh_open_def sh_kill_def)

lemma io_ready: "fd_io ChildReadCallback FinishShellProc (out, f, d, s) (out', f', d', s') \<Longrightarrow> childReady s' = childReady s"
  by (cases rule: fd_io.cases, assumption)
    (auto simp: OnFileIO_def ChildReadCallback_def FinishShellProc_def on_task_def Let_def split: prod.splits bool.splits if_splits)

lemma shell_inv_step: "shell_step st st' \<Longrightarrow> shell_inv all st \<Longrightarrow> shell_inv all st'"
proof (induction rule: shell_step.induct)
  case (shell_io s d out f out' f' d' s')
  then show ?case using io_ready [OF shell_io(2)] shell.fd_inv_io [OF shell_io(2)] by (auto simp: shell_inv_def)
next
  case (shell_data E tpgid payload s ok s' out f)
  then obtain d where d: "childReady s" "sh_child s = Some d" "shell.fd_inv all 1 0 (out, f, d, s)" by (auto simp: shell_inv_def)
  show ?case
  proof (cases "length payload = 1 \<and> fst (SpecialSignal tpgid (payload ! 0) s)")
    case True
    then have "s' = s \<or> s' = sh_kill tpgid SIGINT s" "childReady s' = childReady s" "sh_child s' = sh_child s"
      using shell_data(1) d by (auto simp: shell_dispatch_def SpecialSignal_def cmd_inj sh_kill_def simp del: cmd.simps split: if_splits)
    then show ?thesis using d by (auto simp: shell_inv_def)
  next
    case False
    then have "s' = s\<lparr>sh_child := Some (snd (Write payload d))\<rparr>"
      using shell_data(1) d by (auto simp: shell_dispatch_def SpecialSignal_def cmd_inj simp del: cmd.simps split: if_splits)
    then show ?thesis using d shell.fd_inv_input [OF d(3), of payload] by (auto simp: shell_inv_def)
  qed
next
  case (shell_stop out f s)
  then obtain d where d: "childReady s" "sh_child s = Some d" "shell.fd_inv all 1 0 (out, f, d, s)" by (auto simp: shell_inv_def)
  have "sh_child (StopTask s) = Some (StopWork False d)" "childReady (StopTask s)"
    using d by (auto simp: StopTask_def on_task_def Let_def sh_kill_def)
  then show ?case using d
    by (auto simp: shell_inv_def StopTask_def on_task_def Let_def sh_kill_def StopWork_def sh_out_def sh_open_def
        intro!: shell.fd_inv_closed [OF d(3)])
next
  case (shell_lost out f s)
  then obtain d where d: "childReady s" "sh_child s = Some d" "shell.fd_inv all 1 0 (out, f, d, s)" by (auto simp: shell_inv_def)
  then show ?case by (auto simp: shell_inv_def on_task_def sh_out_def sh_open_def intro!: shell.fd_inv_closed [OF d(3)])
qed

lemma shell_inv_run: "shell_run st st' \<Longrightarrow> shell_inv all st \<Longrightarrow> shell_inv all st'"
  by (induction rule: rtranclp_induct) (auto intro: shell_inv_step)

lemma shell_started:
  assumes "StartShell E (HdcShell u) = (0, s)"
  shows "shell_inv out (out, 0, s)"
proof -
  have "0 \<le> pe_ptmx E" "s = on_task (\<lambda>t. t\<lparr>tk_ref := 1\<rparr>) ((HdcShell u)\<lparr>pidShell := ShellFork E, fdPTY := pe_ptmx E,
     sh_child := Some (LoopRead (HdcFileDescriptor (pe_ptmx E))), childReady := True\<rparr>)"
    using assms by (auto simp: StartShell_def CreateSubProcessPTY_def StartWork_def Let_def on_task_def HdcShell_def sh_kill_def
        split: if_splits)
  then show ?thesis
    using shell.fd_started [of s out "pe_ptmx E"]
    by (simp add: shell_inv_def on_task_def HdcShell_def close_count_def sh_out_def raw_output_def)
qed

text \<open>
  C36. The client gets what the shell writes, in order and without gaps, whatever is typed and whenever it
  stops. When nothing is outstanding any more, an open client has got all of it and one close of the
  channel; a write to the shell that has failed adds a further close and takes a reference too many,
  so that the task is not ready for release after such a failure.
\<close>

theorem shell_output_delivered:
  assumes "StartShell E (HdcShell up) = (0, s0)" and "shell_run (out, 0, s0) (left, f, s)"
  shows "(\<exists>more. out = sh_out s @ more) \<and>
    (\<forall>d. sh_child s = Some d \<and> fd_reqs d = [] \<longrightarrow>
       (sh_open s \<longrightarrow> sh_out s = out \<and> close_count (tk_sent (sh_task s)) = Suc f) \<and>
       tk_ref (sh_task s) = - of_nat f \<and> (fst (ReadyForRelease s) \<longleftrightarrow> (of_nat f :: u32) = 0))"
proof -
  have "shell_inv out (left, f, s)" by (rule shell_inv_run [OF assms(2) shell_started [OF assms(1)]])
  then obtain d where d: "childReady s" "sh_child s = Some d" "shell.fd_inv out 1 0 (left, f, d, s)" by (auto simp: shell_inv_def)
  show ?thesis
    using shell.fd_prefix [OF d(3)] shell.fd_done [OF d(3)] d(1,2)
    by (auto simp: ReadyForRelease_def tk_ready_def)
qed

definition small_pty :: pty_env where
  "small_pty = \<lparr> pe_ptmx = 5, pe_granted = True, pe_named = True, pe_fork = 77 \<rparr>"

definition small_shell :: "(u16 \<times> bytes) list \<Rightarrow> u32 \<Rightarrow> nat \<Rightarrow> fd_req list \<Rightarrow> bool \<Rightarrow> shell" where
  "small_shell l r n q w = (HdcShell True)
     \<lparr>sh_task := \<lparr> tk_sent = l, tk_up = True, tk_stop = False, tk_ref = r, tk_log = [] \<rparr>,
      sh_child := Some \<lparr> fdIO = 5, refIO = n, workContinue = w, fd_reqs = q \<rparr>, fdPTY := 5, pidShell := 77, childReady := True\<rparr>"

lemmas small_defs = small_shell_def HdcShell_def OnFileIO_def ChildReadCallback_def FinishShellProc_def on_task_def
  tk_send_def tk_finish_def LoopRead_def fd_request_def Let_def

lemma small_start: "StartShell small_pty (HdcShell True) = (0, small_shell [] 1 1 [FdRead] True)"
  by (simp add: StartShell_def CreateSubProcessPTY_def StartWork_def small_pty_def ShellFork_def HdcFileDescriptor_def small_defs)

lemma small_run:
  "shell_run ([1, 2], 0, small_shell [] 1 1 [FdRead] True)
     ([], 1, small_shell [(cmd CMD_KERNEL_ECHO_RAW, [1, 2]), (cmd CMD_KERNEL_CHANNEL_CLOSE, [1]), (cmd CMD_KERNEL_CHANNEL_CLOSE, [1])]
        (- 1) 0 [] False)"
proof -
  let ?E = "(cmd CMD_KERNEL_ECHO_RAW, [1, 2])" and ?C = "(cmd CMD_KERNEL_CHANNEL_CLOSE, [1])"
  have 1: "shell_step ([1, 2], 0, small_shell [] 1 1 [FdRead] True) ([], 0, small_shell [?E] 1 1 [FdRead] True)"
    using shell_io [OF _ fd_read [where as = "[]" and bs = "[]" and piece = "[1, 2]" and rest = "[]"],
      of "small_shell [] 1 1 [FdRead] True" _ "\<lparr> fdIO = 5, refIO = 1, workContinue = True, fd_reqs = [FdRead] \<rparr>"
      "small_shell [?E] 1 1 [FdRead] True" 0]
    by (simp add: small_defs)
  have 2: "shell_step ([], 0, small_shell [?E] 1 1 [FdRead] True) ([], 0, small_shell [?E] 1 2 [FdRead, FdWrite [7]] True)"
    by (rule shell_data [of small_pty 0 "[7]" _ True])
      (simp add: shell_dispatch_def SpecialSignal_def Write_def WriteWithMem_def HDC_BUF_MAX_BYTES_def cmd_inj small_defs del: cmd.simps)
  have 3: "shell_step ([], 0, small_shell [?E] 1 2 [FdRead, FdWrite [7]] True) ([], 0, small_shell [?E, ?C] 0 1 [FdWrite [7]] False)"
    using shell_io [OF _ fd_end [where as = "[]" and bs = "[FdWrite [7]]" and r = "- 5"],
      of "small_shell [?E] 1 2 [FdRead, FdWrite [7]] True" _ "\<lparr> fdIO = 5, refIO = 1, workContinue = False, fd_reqs = [FdWrite [7]] \<rparr>"
      "small_shell [?E, ?C] 0 2 [FdRead, FdWrite [7]] True" 0]
    by (simp add: small_defs)
  have 4: "shell_step ([], 0, small_shell [?E, ?C] 0 1 [FdWrite [7]] False) ([], 1, small_shell [?E, ?C, ?C] (- 1) 0 [] False)"
    using shell_io [OF _ fd_write_failed [where as = "[]" and bs = "[]" and w = "[7]" and r = "- 5"],
      of "small_shell [?E, ?C] 0 1 [FdWrite [7]] False" _ "\<lparr> fdIO = 5, refIO = 0, workContinue = False, fd_reqs = [] \<rparr>"
      "small_shell [?E, ?C, ?C] (- 1) 1 [FdWrite [7]] False" "[]" 0]
    by (simp add: small_defs)
  show ?thesis using 1 2 3 4 by (meson converse_rtranclp_into_rtranclp rtranclp.rtrancl_refl)
qed

theorem shell_output_delivered_witness:
  "\<exists>s d. shell_run ([1, 2], 0, snd (StartShell small_pty (HdcShell True))) ([], 1, s) \<and> sh_child s = Some d \<and> fd_reqs d = []
     \<and> sh_out s = [1, 2] \<and> close_count (tk_sent (sh_task s)) = 2 \<and> tk_ref (sh_task s) = - 1 \<and> \<not> fst (ReadyForRelease s)"
proof -
  let ?s = "small_shell [(cmd CMD_KERNEL_ECHO_RAW, [1, 2]), (cmd CMD_KERNEL_CHANNEL_CLOSE, [1]), (cmd CMD_KERNEL_CHANNEL_CLOSE, [1])]
        (- 1) 0 [] False"
  have d: "sh_child ?s = Some \<lparr> fdIO = 5, refIO = 0, workContinue = False, fd_reqs = [] \<rparr>" "sh_open ?s"
    by (simp_all add: small_shell_def sh_open_def)
  show ?thesis
    using shell_output_delivered [OF small_start small_run] d small_run small_start
    by (intro exI [of _ ?s] exI [of _ "\<lparr> fdIO = 5, refIO = 0, workContinue = False, fd_reqs = [] \<rparr>"]) auto
qed

end
