(* ===== verification/Hdc_Unity.thy ===== *)
theory Hdc_Unity
  imports Hdc_Shell Hdc_Translate Hdc_Jdwp
begin

text \<open>
  The commands of the daemon that are not a file, a forward or a shell: src/src/daemon/daemon_unity.cpp
  with the settings of src/src/daemon/system_depend.cpp. One runs a process and passes its output on;
  the others set, mount or restart the device, or list the debuggable processes.
\<close>

section \<open>State\<close>

text \<open>
  The task beside its \<open>AsyncCmd\<close>; what the device was asked for is recorded: parameters set, partitions
  mounted, reasons of reboots, and stops of the daemon with their \<open>restart\<close>. \<open>un_jdwp\<close> is the daemon's
  JDWP module, \<open>un_id\<close> the task among its tasks.
\<close>

record unity =
  un_task :: task
  currentDataCommand :: u16
  un_params :: "(string \<times> string) list"
  un_mounts :: "(string \<times> string) list"
  un_reboots :: "string list"
  un_stops :: "bool list"
  un_jdwp :: HdcJdwp
  un_id :: nat

type_synonym unity_task = "async_cmd \<times> unity"

definition HdcDaemonUnity :: "bool \<Rightarrow> HdcJdwp \<Rightarrow> nat \<Rightarrow> unity_task" where
  "HdcDaemonUnity u J i = (AsyncCmd0, \<lparr> un_task = \<lparr> tk_sent = [], tk_up = u, tk_stop = False, tk_ref = 0, tk_log = [] \<rparr>,
     currentDataCommand = cmd CMD_KERNEL_ECHO_RAW, un_params = [], un_mounts = [], un_reboots = [], un_stops = [],
     un_jdwp = J, un_id = i \<rparr>)"

definition un_on :: "(task \<Rightarrow> task) \<Rightarrow> unity \<Rightarrow> unity" where
  "un_on g u = u\<lparr>un_task := g (un_task u)\<rparr>"

text \<open>
  What the system answers: whether the daemon is root, which paths are directories, the buffer that
  holds \<open>/proc/mounts\<close> (\<open>None\<close> if it cannot be opened), which devices open and mount, and the pipe and
  the process of a command. \<open>ue_js\<close> is the JS build of the JDWP module, \<open>ue_debug\<close> \<open>HDC_DEBUG\<close>.
\<close>

record unity_env =
  ue_root :: bool
  ue_isdir :: "string \<Rightarrow> bool"
  ue_proc_mounts :: "string option"
  ue_open :: "string \<Rightarrow> bool"
  ue_mount :: "string \<Rightarrow> string \<Rightarrow> bool"
  ue_pipe :: "int \<times> int"
  ue_fork :: int
  ue_js :: bool
  ue_debug :: bool

section \<open>Running a command\<close>

definition AsyncCmdOut :: "bool \<Rightarrow> int \<Rightarrow> bytes \<Rightarrow> unity_task \<Rightarrow> bool \<times> unity_task" where
  "AsyncCmdOut finish exitStatus result st =
     (case st of (ac, u) \<Rightarrow>
      if finish then (True, ac, un_on tk_finish (un_on (\<lambda>t. t\<lparr>tk_ref := tk_ref t - 1\<rparr>) u))
      else case tk_send (currentDataCommand u) result (un_task u) of (r, t) \<Rightarrow> (r, ac, u\<lparr>un_task := t\<rparr>))"

text \<open>The outcome of \<open>ExecuteCommand\<close> is not looked at.\<close>

definition ExecuteShell :: "unity_env \<Rightarrow> string \<Rightarrow> unity_task \<Rightarrow> int \<times> unity_task" where
  "ExecuteShell E shellCommand st =
     (case st of (ac, u) \<Rightarrow>
      case Initial 0 ac of
        (False, ac1) \<Rightarrow> (- 1, ac1, un_on tk_finish u)
      | (True, ac1) \<Rightarrow>
          (0, snd (ExecuteCommand (ue_pipe E) (ue_fork E) shellCommand ac1), un_on (\<lambda>t. t\<lparr>tk_ref := tk_ref t + 1\<rparr>) u))"

section \<open>Mounts\<close>

text \<open>
  The directives of the \<open>sscanf_s\<close>: a word of at most 255 characters that has to fit the size given,
  255 with the zero; a word that is not stored; a number.
\<close>

definition scan_word :: "string \<Rightarrow> (string \<times> string) option" where
  "scan_word s = (let s' = dropWhile isspace s; w = takeWhile (\<lambda>c. \<not> isspace c) s' in
     if w = [] \<or> BUF_SIZE_SMALL - 1 \<le> length w then None else Some (w, drop (length w) s'))"

definition skip_word :: "string \<Rightarrow> string option" where
  "skip_word s = (let s' = dropWhile isspace s; w = takeWhile (\<lambda>c. \<not> isspace c) s' in
     if w = [] then None else Some (drop (length w) s'))"

definition skip_number :: "string \<Rightarrow> string option" where
  "skip_number s = (let s' = dropWhile isspace s;
       s'' = (case s' of c # r \<Rightarrow> if c = CHR ''-'' \<or> c = CHR ''+'' then r else s' | [] \<Rightarrow> []);
       w = takeWhile isdigit s'' in
     if w = [] then None else Some (drop (length w) s''))"

definition mount_line :: "string \<Rightarrow> (string \<times> string) option" where
  "mount_line l =
     Option.bind (scan_word l) (\<lambda>(dev, l1). Option.bind (scan_word l1) (\<lambda>(dir, l2).
     Option.bind (skip_word l2) (\<lambda>l3. Option.bind (skip_word l3) (\<lambda>l4.
     Option.bind (skip_number l4) (\<lambda>l5. map_option (\<lambda>_. (dev, dir)) (skip_number l5))))))"

fun find_mount :: "string \<Rightarrow> string list \<Rightarrow> string option" where
  "find_mount toQuery [] = None"
| "find_mount toQuery (l # ls) =
     (case mount_line l of
        Some (dev, dir) \<Rightarrow> if toQuery = dir then Some dev else find_mount toQuery ls
      | None \<Rightarrow> find_mount toQuery ls)"

text \<open>\<open>strtok\<close> does not return empty tokens.\<close>

definition FindMountDeviceByPath :: "unity_env \<Rightarrow> string \<Rightarrow> string option" where
  "FindMountDeviceByPath E toQuery =
     Option.bind (ue_proc_mounts E) (\<lambda>buf.
       find_mount toQuery (filter (\<lambda>l. l \<noteq> []) (segs CHR 0x0A (c_str (take (2 * BUF_SIZE_DEFAULT - 1) buf)))))"

definition RemountPartition :: "unity_env \<Rightarrow> string \<Rightarrow> unity \<Rightarrow> bool \<times> unity" where
  "RemountPartition E dir u =
     (case FindMountDeviceByPath E dir of
        None \<Rightarrow> (False, u)
      | Some dev \<Rightarrow>
          if length dev < 4 then (False, u)
          else if \<not> ue_open E dev then (False, u)
          else if \<not> ue_mount E dev dir then (False, u)
          else (True, u\<lparr>un_mounts := un_mounts u @ [(dev, dir)]\<rparr>))"

definition RemountDevice :: "unity_env \<Rightarrow> unity \<Rightarrow> bool \<times> unity" where
  "RemountDevice E u =
     (if \<not> ue_root E then (False, un_on (tk_say MSG_FAIL ''Opearte need running as root'') u)
      else
        let (ok, u1) = (if ue_isdir E ''/vendor'' then RemountPartition E ''/vendor'' u else (True, u)) in
        if \<not> ok then (False, un_on (tk_say MSG_FAIL ''Mount failed'') u1)
        else
          let (ok2, u2) = (if ue_isdir E ''/data'' then RemountPartition E ''/data'' u1 else (True, u1)) in
          if \<not> ok2 then (False, u2) else (True, un_on (tk_say MSG_OK ''Mount finish'') u2))"

section \<open>Settings\<close>

definition CMDSTR_TMODE_TCP :: string where "CMDSTR_TMODE_TCP = ''tcp''"
definition EMPTY_ECHO :: string where "EMPTY_ECHO = ''[Empty]''"

definition SetDevItem :: "string \<Rightarrow> string \<Rightarrow> unity \<Rightarrow> unity" where
  "SetDevItem key v u = u\<lparr>un_params := un_params u @ [(key, v)]\<rparr>"

definition RebootDevice :: "string \<Rightarrow> unity \<Rightarrow> unity" where
  "RebootDevice c u =
     u\<lparr>un_reboots := un_reboots u @ [if c = ''recovery'' then ''updater'' else if c = ''bootloader'' then ''updater'' else '''']\<rparr>"

definition PostStopInstanceMessage :: "bool \<Rightarrow> unity \<Rightarrow> unity" where
  "PostStopInstanceMessage restart u = u\<lparr>un_stops := un_stops u @ [restart]\<rparr>"

definition SetDeviceRunMode :: "string \<Rightarrow> unity \<Rightarrow> bool \<times> unity" where
  "SetDeviceRunMode c u =
     (let known = (if c = CMDSTR_TMODE_USB then Some (SetDevItem ''persist.hdc.mode'' CMDSTR_TMODE_USB u)
            else if begins ''port'' c then
              (let u1 = SetDevItem ''persist.hdc.mode'' CMDSTR_TMODE_TCP u in
               Some (if begins ''port '' c then SetDevItem ''persist.hdc.port'' (drop 5 c) u1 else u1))
            else None)
      in case known of
        None \<Rightarrow> (False, un_on (tk_say MSG_FAIL ''Unknow command'') u)
      | Some u1 \<Rightarrow> (True, un_on (tk_say MSG_OK ''Set device run mode successful.'') (PostStopInstanceMessage True u1)))"

definition GetHiLog :: "unity_env \<Rightarrow> string \<Rightarrow> unity_task \<Rightarrow> unity_task" where
  "GetHiLog E c st = snd (ExecuteShell E (if c = ''v'' then ''hilog -v long'' else ''hilog'') st)"

text \<open>The list has no names: it holds digits and line ends, and is its own format.\<close>

definition ListJdwpProcess :: "unity \<Rightarrow> unity" where
  "ListJdwpProcess u = (let r = GetProcessList (un_jdwp u) in
     un_on (tk_say MSG_OK (if r = [] then EMPTY_ECHO else butlast r)) u)"

text \<open>\<open>None\<close> is a tracker or a context that has been freed.\<close>

definition TrackJdwpProcess :: "unity_env \<Rightarrow> unity \<Rightarrow> (bool \<times> unity) option" where
  "TrackJdwpProcess E u = map_option (\<lambda>J. (True, u\<lparr>un_jdwp := J\<rparr>)) (CreateJdwpTracker (ue_js E) (un_id u) (un_jdwp u))"

section \<open>Dispatch and release\<close>

definition unity_dispatch :: "unity_env \<Rightarrow> u16 \<Rightarrow> bytes \<Rightarrow> unity_task \<Rightarrow> (bool \<times> unity_task) option" where
  "unity_dispatch E c payload st =
     (let strPayload = chars_of payload; text = c_str strPayload; ac = fst st; u = snd st in
      if c = cmd CMD_UNITY_EXECUTE then Some (True, snd (ExecuteShell E text st))
      else if c = cmd CMD_UNITY_REMOUNT then Some (False, ac, snd (RemountDevice E u))
      else if c = cmd CMD_UNITY_REBOOT then Some (False, ac, RebootDevice strPayload u)
      else if c = cmd CMD_UNITY_RUNMODE then Some (False, ac, snd (SetDeviceRunMode text u))
      else if c = cmd CMD_UNITY_HILOG then Some (True, GetHiLog E text st)
      else if c = cmd CMD_UNITY_ROOTRUN then
        Some (False, ac, PostStopInstanceMessage True
          (if ue_debug E then SetDevItem ''persist.hdc.root'' (if payload \<noteq> [] \<and> text = ''r'' then ''0'' else ''1'') u else u))
      else if c = cmd CMD_UNITY_TERMINATE then Some (True, ac, PostStopInstanceMessage (text = ''1'') u)
      else if c = cmd CMD_UNITY_BUGREPORT_INIT then
        Some (True, snd (ExecuteShell E CMDSTR_BUGREPORT (ac, u\<lparr>currentDataCommand := cmd CMD_UNITY_BUGREPORT_DATA\<rparr>)))
      else if c = cmd CMD_JDWP_LIST then Some (False, ac, ListJdwpProcess u)
      else if c = cmd CMD_JDWP_TRACK then map_option (\<lambda>(r, u'). (r, ac, u')) (TrackJdwpProcess E u)
      else Some (True, st))"

text \<open>\<open>singalStop\<close> is not set: a stopped task still sends.\<close>

definition StopTask :: "unity_task \<Rightarrow> unity_task" where
  "StopTask st = (DoRelease (fst st), (snd st)\<lparr>un_jdwp := RemoveJdwpTracker (un_id (snd st)) (un_jdwp (snd st))\<rparr>)"

definition ReadyForRelease :: "unity_task \<Rightarrow> bool \<times> unity_task" where
  "ReadyForRelease st =
     (if \<not> tk_ready (un_task (snd st)) then (False, st)
      else case Hdc_Descriptor.ReadyForRelease (fst st) of (r, ac) \<Rightarrow> (r, ac, snd st))"

section \<open>The task as the owner of the descriptor of its command\<close>

definition un_data :: "u16 \<Rightarrow> (u16 \<times> bytes) list \<Rightarrow> bytes" where
  "un_data c l = concat (map snd (filter (\<lambda>m. fst m = c) l))"

lemma un_data_add [simp]: "un_data c (l @ [m]) = un_data c l @ (if fst m = c then snd m else [])"
  by (simp add: un_data_def)

definition un_takes :: "bytes \<Rightarrow> unity_task \<Rightarrow> bool \<times> unity_task" where
  "un_takes = Hdc_Descriptor.ChildReadCallback AsyncCmdOut"

definition un_ends :: "bool \<Rightarrow> string \<Rightarrow> unity_task \<Rightarrow> unity_task" where
  "un_ends = Hdc_Descriptor.FinishShellProc AsyncCmdOut"

text \<open>Passing the output on, under a command that is not the close of the channel.\<close>

definition un_owner :: "unity_task \<Rightarrow> bool" where
  "un_owner st \<longleftrightarrow> ac_options (fst st) = 0 \<and>
     (currentDataCommand (snd st) = cmd CMD_KERNEL_ECHO_RAW \<or> currentDataCommand (snd st) = cmd CMD_UNITY_BUGREPORT_DATA)"

definition un_open :: "unity_task \<Rightarrow> bool" where
  "un_open st \<longleftrightarrow> tk_up (un_task (snd st)) \<and> \<not> tk_stop (un_task (snd st))"

definition un_out :: "unity_task \<Rightarrow> bytes" where
  "un_out st = un_data (currentDataCommand (snd st)) (tk_sent (un_task (snd st)))"

lemmas un_defs = un_takes_def un_ends_def Hdc_Descriptor.ChildReadCallback_def Hdc_Descriptor.FinishShellProc_def
  AsyncCmdOut_def un_open_def un_out_def un_owner_def tk_send_def tk_finish_def un_on_def Let_def

interpretation un_ref: fd_owner un_takes un_ends un_owner un_out
  "\<lambda>st. close_count (tk_sent (un_task (snd st)))" "\<lambda>st. tk_ref (un_task (snd st))" un_open
  by unfold_locales (auto simp: un_defs cmd_inj simp del: cmd.simps split: prod.splits if_splits)

interpretation un_async: fd_owner un_takes un_ends un_owner un_out
  "\<lambda>st. close_count (tk_sent (un_task (snd st)))" "\<lambda>st. ac_ref (fst st)" un_open
  by unfold_locales (auto simp: un_defs cmd_inj simp del: cmd.simps split: prod.splits if_splits)

section \<open>Running\<close>

text \<open>The steps of the task while its command runs; the session may stop the task, or be lost.\<close>

inductive unity_step :: "bytes \<times> nat \<times> unity_task \<Rightarrow> bytes \<times> nat \<times> unity_task \<Rightarrow> bool" where
  unity_io: "childShell (fst st) = Some d \<Longrightarrow> fd_io un_takes un_ends (out, f, d, st) (out', f', d', st') \<Longrightarrow>
    unity_step (out, f, st) (out', f', (fst st')\<lparr>childShell := Some d'\<rparr>, snd st')"
| unity_stop: "unity_step (out, f, st) (out, f, StopTask st)"
| unity_lost: "unity_step (out, f, st) (out, f, fst st, un_on (\<lambda>t. t\<lparr>tk_up := False\<rparr>) (snd st))"

abbreviation unity_run :: "bytes \<times> nat \<times> unity_task \<Rightarrow> bytes \<times> nat \<times> unity_task \<Rightarrow> bool" where
  "unity_run \<equiv> unity_step\<^sup>*\<^sup>*"

definition unity_inv :: "bytes \<Rightarrow> bytes \<times> nat \<times> unity_task \<Rightarrow> bool" where
  "unity_inv all x \<longleftrightarrow> (case x of (out, f, st) \<Rightarrow> f = 0 \<and> (\<exists>d. childShell (fst st) = Some d \<and> no_writes d
     \<and> un_ref.fd_inv all 1 0 (out, f, d, st) \<and> un_async.fd_inv all 1 0 (out, f, d, st)))"

lemma un_inv_child [simp]:
  "un_ref.fd_inv all h n (out, f, d, (ac\<lparr>childShell := c\<rparr>, u)) = un_ref.fd_inv all h n (out, f, d, (ac, u))"
  "un_async.fd_inv all h n (out, f, d, (ac\<lparr>childShell := c\<rparr>, u)) = un_async.fd_inv all h n (out, f, d, (ac, u))"
  by (simp_all add: un_ref.fd_inv_def un_async.fd_inv_def un_out_def un_open_def un_owner_def)

lemma unity_inv_step: "unity_step x x' \<Longrightarrow> unity_inv all x \<Longrightarrow> unity_inv all x'"
proof (induction rule: unity_step.induct)
  case (unity_io st d out f out' f' d' st')
  then show ?case
    using io_no_writes [OF unity_io(2)] un_ref.fd_inv_io [OF unity_io(2)] un_async.fd_inv_io [OF unity_io(2)]
    by (cases st') (auto simp: unity_inv_def)
next
  case (unity_stop out f st)
  then obtain d where d: "f = 0" "childShell (fst st) = Some d" "no_writes d" "un_ref.fd_inv all 1 0 (out, f, d, st)"
    "un_async.fd_inv all 1 0 (out, f, d, st)" by (auto simp: unity_inv_def)
  have o: "un_owner st" using d(4) by (auto simp: un_ref.fd_inv_def)
  obtain ac u where st: "StopTask st = (ac, u)" by fastforce
  then have k: "childShell ac = Some (d\<lparr>workContinue := False\<rparr>)" "ac_options ac = ac_options (fst st)" "ac_ref ac = ac_ref (fst st)"
    "un_task u = un_task (snd st)" "currentDataCommand u = currentDataCommand (snd st)"
    using d(2) by (auto simp: StopTask_def DoRelease_def Let_def StopWork_def split: if_splits)
  have "un_ref.fd_inv all 1 0 (out, f, d\<lparr>workContinue := False\<rparr>, ac, u)"
    by (rule un_ref.fd_inv_closed [OF d(4)]) (use k o in \<open>simp_all add: un_out_def un_open_def un_owner_def del: cmd.simps\<close>)
  moreover have "un_async.fd_inv all 1 0 (out, f, d\<lparr>workContinue := False\<rparr>, ac, u)"
    by (rule un_async.fd_inv_closed [OF d(5)]) (use k o in \<open>simp_all add: un_out_def un_open_def un_owner_def del: cmd.simps\<close>)
  ultimately show ?case using k d(1,3) st by (simp add: unity_inv_def no_writes_def)
next
  case (unity_lost out f st)
  then obtain d where d: "f = 0" "childShell (fst st) = Some d" "no_writes d" "un_ref.fd_inv all 1 0 (out, f, d, st)"
    "un_async.fd_inv all 1 0 (out, f, d, st)" by (auto simp: unity_inv_def)
  have o: "un_owner st" using d(4) by (auto simp: un_ref.fd_inv_def)
  let ?st = "(fst st, un_on (\<lambda>t. t\<lparr>tk_up := False\<rparr>) (snd st))"
  have "un_ref.fd_inv all 1 0 (out, f, d, ?st)"
    by (rule un_ref.fd_inv_closed [OF d(4)]) (use o in \<open>simp_all add: un_out_def un_open_def un_owner_def un_on_def del: cmd.simps\<close>)
  moreover have "un_async.fd_inv all 1 0 (out, f, d, ?st)"
    by (rule un_async.fd_inv_closed [OF d(5)]) (use o in \<open>simp_all add: un_out_def un_open_def un_owner_def un_on_def del: cmd.simps\<close>)
  ultimately show ?case using d(1-3) by (simp add: unity_inv_def)
qed

lemma unity_inv_run: "unity_run x x' \<Longrightarrow> unity_inv all x \<Longrightarrow> unity_inv all x'"
  by (induction rule: rtranclp_induct) (auto intro: unity_inv_step)

lemma execute_started:
  assumes "unity_dispatch E (cmd CMD_UNITY_EXECUTE) payload (HdcDaemonUnity up J i) = Some (r, st)"
    and "ue_fork E \<noteq> - 1" and "0 \<le> fst (ue_pipe E)"
  shows "unity_inv out (out, 0, st)" and "ac_started (fst st) = [c_str (Trim [CHR 0x22] (c_str (chars_of payload)))]"
proof -
  have "st = (AsyncCmd0\<lparr>ac_fd := fst (ue_pipe E), ac_pid := ue_fork E, ac_started := [c_str (Trim [CHR 0x22] (c_str (chars_of payload)))],
      childShell := Some (LoopRead (HdcFileDescriptor (fst (ue_pipe E)))), ac_ref := 1\<rparr>,
      un_on (\<lambda>t. t\<lparr>tk_ref := 1\<rparr>) (snd (HdcDaemonUnity up J i)))"
    using assms by (auto simp: unity_dispatch_def ExecuteShell_def Initial_def ExecuteCommand_def Popen_def StartWork_def Let_def
        HdcDaemonUnity_def AsyncCmd0_def un_on_def)
  then show "unity_inv out (out, 0, st)" "ac_started (fst st) = [c_str (Trim [CHR 0x22] (c_str (chars_of payload)))]"
    using un_ref.fd_started [of st out "fst (ue_pipe E)"] un_async.fd_started [of st out "fst (ue_pipe E)"]
    by (auto simp: unity_inv_def AsyncCmd0_def HdcDaemonUnity_def un_on_def un_owner_def un_out_def un_data_def close_count_def
        no_writes_def LoopRead_def fd_request_def HdcFileDescriptor_def)
qed

text \<open>
  C37. A command that has been started passes its output on in order and without gaps, also while the task is
  being stopped. When nothing is outstanding any more, both counts are zero and the task is ready for
  release; an open client has got the whole output and one close of the channel.
\<close>

theorem command_output_delivered:
  assumes "unity_dispatch E (cmd CMD_UNITY_EXECUTE) payload (HdcDaemonUnity up J i) = Some (r, st0)"
    and "ue_fork E \<noteq> - 1" and "0 \<le> fst (ue_pipe E)" and "unity_run (out, 0, st0) (left, f, st)"
  shows "ac_started (fst st0) = [c_str (Trim [CHR 0x22] (c_str (chars_of payload)))] \<and>
    (\<exists>more. out = un_out st @ more) \<and>
    (\<forall>d. childShell (fst st) = Some d \<and> fd_reqs d = [] \<longrightarrow>
       fst (ReadyForRelease st) \<and> (un_open st \<longrightarrow> un_out st = out \<and> close_count (tk_sent (un_task (snd st))) = 1))"
proof -
  have "unity_inv out (left, f, st)" by (rule unity_inv_run [OF assms(4) execute_started(1) [OF assms(1-3)]])
  then obtain d where d: "f = 0" "childShell (fst st) = Some d" "un_ref.fd_inv out 1 0 (left, 0, d, st)"
    "un_async.fd_inv out 1 0 (left, 0, d, st)" by (auto simp: unity_inv_def)
  show ?thesis
    using execute_started(2) [OF assms(1-3)] un_ref.fd_prefix [OF d(3)] un_ref.fd_done [OF d(3)] un_async.fd_done [OF d(4)] d(1,2)
    by (auto simp: ReadyForRelease_def Hdc_Descriptor.ReadyForRelease_def tk_ready_def)
qed

definition small_unity_env :: unity_env where
  "small_unity_env = \<lparr> ue_root = True, ue_isdir = (\<lambda>_. False), ue_proc_mounts = None, ue_open = (\<lambda>_. False),
     ue_mount = (\<lambda>_ _. False), ue_pipe = (6, 7), ue_fork = 88, ue_js = False, ue_debug = False \<rparr>"

definition small_unity :: "(u16 \<times> bytes) list \<Rightarrow> u32 \<Rightarrow> u32 \<Rightarrow> descriptor \<Rightarrow> unity_task" where
  "small_unity l r a d = (AsyncCmd0\<lparr>ac_fd := 6, ac_pid := 88, ac_started := [''ls''], childShell := Some d, ac_ref := a\<rparr>,
     un_on (\<lambda>t. t\<lparr>tk_ref := r, tk_sent := l\<rparr>) (snd (HdcDaemonUnity True new_HdcJdwp 0)))"

lemmas small_un_defs = small_unity_def HdcDaemonUnity_def AsyncCmd0_def OnFileIO_def un_takes_def un_ends_def
  Hdc_Descriptor.ChildReadCallback_def Hdc_Descriptor.FinishShellProc_def AsyncCmdOut_def un_on_def tk_send_def tk_finish_def
  LoopRead_def fd_request_def HdcFileDescriptor_def Let_def

lemma small_execute:
  "unity_dispatch small_unity_env (cmd CMD_UNITY_EXECUTE) (bytes_of ''ls'') (HdcDaemonUnity True new_HdcJdwp 0) =
     Some (True, small_unity [] 1 1 (LoopRead (HdcFileDescriptor 6)))"
  by (simp add: unity_dispatch_def ExecuteShell_def Initial_def ExecuteCommand_def Popen_def StartWork_def small_unity_env_def
      small_un_defs c_str_def Trim_def LeftTrim_def RightTrim_def del: cmd.simps)

lemma small_unity_run:
  "unity_run ([1, 2], 0, small_unity [] 1 1 (LoopRead (HdcFileDescriptor 6)))
     ([], 0, small_unity [(cmd CMD_KERNEL_ECHO_RAW, [1, 2]), (cmd CMD_KERNEL_CHANNEL_CLOSE, [1])] 0 0
        \<lparr> fdIO = 6, refIO = 0, workContinue = False, fd_reqs = [] \<rparr>)"
proof -
  let ?E = "(cmd CMD_KERNEL_ECHO_RAW, [1, 2])" and ?C = "(cmd CMD_KERNEL_CHANNEL_CLOSE, [1])"
  let ?d = "LoopRead (HdcFileDescriptor 6)" and ?d2 = "\<lparr> fdIO = 6, refIO = 0, workContinue = False, fd_reqs = [] \<rparr>"
  have 1: "unity_step ([1, 2], 0, small_unity [] 1 1 ?d) ([], 0, small_unity [?E] 1 1 ?d)"
    using unity_io [OF _ fd_read [where as = "[]" and bs = "[]" and piece = "[1, 2]" and rest = "[]"],
      of "small_unity [] 1 1 ?d" ?d ?d "small_unity [?E] 1 1 ?d" 0]
    by (simp add: small_un_defs)
  have 2: "unity_step ([], 0, small_unity [?E] 1 1 ?d) ([], 0, small_unity [?E, ?C] 0 0 ?d2)"
    using unity_io [OF _ fd_end [where as = "[]" and bs = "[]" and r = 0],
      of "small_unity [?E] 1 1 ?d" ?d ?d2 "small_unity [?E, ?C] 0 0 ?d" 0]
    by (simp add: small_un_defs)
  show ?thesis using 1 2 by (meson converse_rtranclp_into_rtranclp rtranclp.rtrancl_refl)
qed

theorem command_output_delivered_witness:
  "\<exists>r st0 st d. unity_dispatch small_unity_env (cmd CMD_UNITY_EXECUTE) (bytes_of ''ls'') (HdcDaemonUnity True new_HdcJdwp 0) = Some (r, st0)
     \<and> unity_run ([1, 2], 0, st0) ([], 0, st) \<and> ac_started (fst st0) = [''ls''] \<and> childShell (fst st) = Some d \<and> fd_reqs d = []
     \<and> fst (ReadyForRelease st) \<and> un_out st = [1, 2] \<and> close_count (tk_sent (un_task (snd st))) = 1"
proof -
  let ?d2 = "\<lparr> fdIO = 6, refIO = 0, workContinue = False, fd_reqs = [] \<rparr>"
  let ?s = "small_unity [(cmd CMD_KERNEL_ECHO_RAW, [1, 2]), (cmd CMD_KERNEL_CHANNEL_CLOSE, [1])] 0 0 ?d2"
  have f: "ue_fork small_unity_env \<noteq> - 1" "0 \<le> fst (ue_pipe small_unity_env)" by (simp_all add: small_unity_env_def)
  have d: "childShell (fst ?s) = Some ?d2" "un_open ?s" by (simp_all add: small_un_defs un_open_def)
  have t: "c_str (Trim [CHR 0x22] (c_str (chars_of (bytes_of ''ls'')))) = ''ls''"
    by (simp add: c_str_def Trim_def LeftTrim_def RightTrim_def)
  show ?thesis
    using command_output_delivered [OF small_execute f small_unity_run] d small_unity_run small_execute t
    by (intro exI [of _ True] exI [of _ "small_unity [] 1 1 (LoopRead (HdcFileDescriptor 6))"] exI [of _ ?s] exI [of _ ?d2]) auto
qed

text \<open>Nothing has been started.\<close>

definition not_started :: "unity_task \<Rightarrow> bool" where
  "not_started st \<longleftrightarrow> childShell (fst st) = None \<and> tk_sent (un_task (snd st)) = [] \<and> tk_ref (un_task (snd st)) = 1"

lemma not_started_run: "unity_run x x' \<Longrightarrow> not_started (snd (snd x)) \<Longrightarrow> not_started (snd (snd x'))"
proof (induction rule: rtranclp_induct)
  case (step y z)
  have "unity_step y z \<Longrightarrow> not_started (snd (snd y)) \<Longrightarrow> not_started (snd (snd z))"
    by (induction rule: unity_step.induct) (auto simp: not_started_def StopTask_def DoRelease_def Let_def un_on_def)
  then show ?case using step by blast
qed simp

text \<open>
  C38. A command whose process cannot be made leaves the client without an answer: nothing is sent, the
  channel is not closed, and the task counts a reference that nothing gives back, so that it cannot be
  released either.
\<close>

theorem command_not_started:
  assumes "unity_dispatch E (cmd CMD_UNITY_EXECUTE) payload (HdcDaemonUnity up J i) = Some (r, st0)" and "ue_fork E = - 1"
    and "unity_run (out, 0, st0) (left, f, st)"
  shows "r \<and> tk_sent (un_task (snd st)) = [] \<and> \<not> fst (ReadyForRelease st)"
proof -
  have "r \<and> not_started st0"
    using assms(1,2) by (auto simp: unity_dispatch_def ExecuteShell_def Initial_def ExecuteCommand_def Popen_def Let_def
        HdcDaemonUnity_def AsyncCmd0_def un_on_def not_started_def)
  then have "r \<and> not_started st" using not_started_run [OF assms(3)] by simp
  then show ?thesis by (auto simp: not_started_def ReadyForRelease_def tk_ready_def)
qed

theorem command_not_started_witness:
  "\<exists>r st0. unity_dispatch (small_unity_env\<lparr>ue_fork := - 1\<rparr>) (cmd CMD_UNITY_EXECUTE) [0x6C] (HdcDaemonUnity True new_HdcJdwp 0) = Some (r, st0)
     \<and> r \<and> tk_sent (un_task (snd (StopTask st0))) = [] \<and> \<not> fst (ReadyForRelease (StopTask st0))"
proof -
  let ?E = "small_unity_env\<lparr>ue_fork := - 1\<rparr>"
  obtain r st0 where d: "unity_dispatch ?E (cmd CMD_UNITY_EXECUTE) [0x6C] (HdcDaemonUnity True new_HdcJdwp 0) = Some (r, st0)"
    by (simp add: unity_dispatch_def del: cmd.simps)
  have "unity_run ([], 0, st0) ([], 0, StopTask st0)" by (rule r_into_rtranclp) (rule unity_stop)
  then show ?thesis using command_not_started [OF d, of "[]" "[]" 0 "StopTask st0"] d by auto
qed

end
