(* ===== verification/Hdc_AppTask.thy ===== *)
theory Hdc_AppTask
  imports Hdc_Descriptor Hdc_FileTask Hdc_Translate
begin

text \<open>
  Installing applications: the server's side (src/src/host/host_app.cpp) sends the packages of a command
  one after the other; the daemon's (src/src/daemon/daemon_app.cpp) stores each, runs the package
  manager on it and answers.
\<close>

section \<open>The callbacks of a transfer\<close>

text \<open>
  \<open>OnFileOpen\<close> and \<open>OnFileClose\<close> of src/src/common/transfer.cpp with the virtual functions they call:
  \<open>CheckMaster\<close>, \<open>WhenTransferFinish\<close>.
\<close>

definition base_OnFileOpen :: "u16 \<Rightarrow> (transfer \<Rightarrow> transfer) \<Rightarrow> int \<Rightarrow> u64 \<times> u64 \<times> u64 \<Rightarrow> transfer \<Rightarrow> transfer" where
  "base_OnFileOpen commandBegin CheckMaster result st x =
     (let x0 = x\<lparr>refCount := refCount x - 1\<rparr> in
      if result < 0 then TaskFinish (x0\<lparr>logs := Suc (logs x0)\<rparr>)
      else
        let x1 = ctx_upd (ResetCtx False) x0; c = ctxNow x1; tc = transferConfig c in
        if master c then
          (case st of (sz, at, mt) \<Rightarrow>
            let tc1 = tc\<lparr>fileSize := sz, optionalName := localName c\<rparr>;
                tc2 = (if holdTimestamp tc then tc1\<lparr>atime := at, mtime := mt\<rparr> else tc1);
                tc3 = tc2\<lparr>tc_path := remotePath c\<rparr>
            in CheckMaster (ctx_upd (\<lambda>c. c\<lparr>transferConfig := tc3, cf_fileSize := fileSize tc3\<rparr>) x1))
        else snd (SendToAnother commandBegin [] x1))"

text \<open>The file task's is an instance.\<close>

lemma file_OnFileOpen:
  "OnFileOpen commandBegin = base_OnFileOpen commandBegin
     (\<lambda>x. snd (SendToAnother (cmd CMD_FILE_CHECK) (WriteMessage Descriptor_TransferConfig (transferConfig (ctxNow x))) x))"
  by (intro ext) (simp add: OnFileOpen_def base_OnFileOpen_def Let_def ctx_upd_def split: prod.splits)

section \<open>The server's side\<close>

text \<open>The transfer, what is logged, and the files opened so far.\<close>

record app_host =
  ap_xfer :: transfer
  ap_log :: "(MessageLevel \<times> string) list"
  ap_opened :: "string list"

definition on_ap :: "(transfer \<Rightarrow> transfer) \<Rightarrow> app_host \<Rightarrow> app_host" where
  "on_ap f a = a\<lparr>ap_xfer := f (ap_xfer a)\<rparr>"

abbreviation ap_ctx :: "app_host \<Rightarrow> CtxFile" where
  "ap_ctx a \<equiv> ctxNow (ap_xfer a)"

definition ap_say :: "MessageLevel \<Rightarrow> string \<Rightarrow> app_host \<Rightarrow> app_host" where
  "ap_say l s a = a\<lparr>ap_log := ap_log a @ [(l, formatted s)]\<rparr>"

definition RunQueue :: "app_host \<Rightarrow> app_host" where
  "RunQueue a = (let p = last (taskQueue (ap_ctx a)) in
     (on_ap (\<lambda>x. ctx_upd (\<lambda>c. c\<lparr>localPath := p, master := True\<rparr>) (x\<lparr>refCount := Suc (refCount x), reqs := reqs x @ [FsOpen p]\<rparr>)) a)
       \<lparr>ap_opened := ap_opened a @ [p]\<rparr>)"

text \<open>
  The words of the command: the client's directory, options, and packages or directories of packages.
  A directory is read under the name it was given.
\<close>

fun app_args :: "(string \<Rightarrow> dir_entries option) \<Rightarrow> string list \<Rightarrow> string \<times> string list \<times> string \<Rightarrow> (string \<times> string list \<times> string) option" where
  "app_args scandir [] acc = Some acc"
| "app_args scandir (a # as) (cwd, q, opts) =
     (if a = ''-cwd'' then
        (if as = [] then Some (cwd, q, opts) else app_args scandir (tl as) (hd as, q, opts))
      else if take 1 a = ''-'' then
        app_args scandir as (cwd, q, (if opts = [] then a else opts @ '' '' @ a))
      else
        let path = ExtractRelativePath cwd a in
        if MatchPackageExtendName path ''.hap'' then app_args scandir as (cwd, q @ [path], opts)
        else case GetSubFiles scandir a ''.hap'' q of
          None \<Rightarrow> None
        | Some q' \<Rightarrow> app_args scandir as (cwd, q', opts))"

definition BeginInstall :: "(string \<Rightarrow> dir_entries option) \<Rightarrow> string \<Rightarrow> app_host \<Rightarrow> (bool \<times> app_host) option" where
  "BeginInstall scandir command a =
     (case SplitCommandToArgs command of
        None \<Rightarrow> None
      | Some None \<Rightarrow> Some (False, a)
      | Some (Some S) \<Rightarrow>
          if arg_strings S = [] then Some (False, a)
          else case app_args scandir (arg_strings S) (clientCwd (transferConfig (ap_ctx a)), taskQueue (ap_ctx a), []) of
            None \<Rightarrow> None
          | Some (cwd, q, opts) \<Rightarrow>
              let a1 = on_ap (ctx_upd (\<lambda>c. c\<lparr>taskQueue := q, transferConfig := (transferConfig c)\<lparr>clientCwd := cwd\<rparr>\<rparr>)) a in
              if q = [] then Some (False, ap_say MSG_FAIL ''Not any installation package was found'' a1)
              else Some (True, RunQueue (on_ap (ctx_upd (\<lambda>c. c\<lparr>taskQueue := remdups_adj (sort q),
                     transferConfig := (transferConfig c)\<lparr>options := opts, functionName := CMDSTR_APP_INSTALL\<rparr>\<rparr>)) a1)))"

definition BeginSideload :: "string \<Rightarrow> app_host \<Rightarrow> bool \<times> app_host" where
  "BeginSideload p a = (True, RunQueue (on_ap (ctx_upd (\<lambda>c. c\<lparr>taskQueue := taskQueue c @ [p],
     transferConfig := (transferConfig c)\<lparr>functionName := CMDSTR_APP_SIDELOAD\<rparr>\<rparr>)) a))"

text \<open>\<open>sz\<close> is the size of the file, \<open>rnd\<close> the random name the package gets on the device.\<close>

definition CheckMaster :: "u64 \<Rightarrow> string \<Rightarrow> transfer \<Rightarrow> transfer" where
  "CheckMaster sz rnd x =
     (let nm = rnd @ (if str_find (localPath (ctxNow x)) ''.hap'' 0 \<noteq> None then ''.hap'' else ''.bundle'');
          x1 = ctx_upd (\<lambda>c. c\<lparr>transferConfig := (transferConfig c)\<lparr>fileSize := sz, optionalName := nm\<rparr>\<rparr>) x
      in snd (SendToAnother (cmd CMD_APP_CHECK) (WriteMessage Descriptor_TransferConfig (transferConfig (ctxNow x1))) x1))"

definition app_mode :: "u8 \<Rightarrow> string" where
  "app_mode m = (if m = 1 then ''App install'' else if m = 2 then ''App uninstall'' else if m = 3 then ''Side load'' else ''Unknown'')"

text \<open>Whether the last package was installed is not looked at.\<close>

definition CheckInstallContinue :: "u8 \<Rightarrow> bool \<Rightarrow> string \<Rightarrow> app_host \<Rightarrow> bool \<times> app_host" where
  "CheckInstallContinue m lastResult msg a =
     (let a1 = on_ap (ctx_upd (\<lambda>c. c\<lparr>taskQueue := butlast (taskQueue c)\<rparr>)) a;
          a2 = ap_say MSG_INFO (app_mode m @ '' path:'' @ localPath (ap_ctx a1) @ '', queuesize:'' @
                 decimal (length (taskQueue (ap_ctx a1))) @ '', msg:'' @ msg) a1
      in if singalStop (ap_xfer a2) \<or> taskQueue (ap_ctx a2) = [] then (False, ap_say MSG_OK ''AppMod finish'' a2)
         else (True, RunQueue a2))"

text \<open>
  \<open>HdcHostApp::CommandDispatch\<close>. \<open>None\<close> where a payload is read beyond its end. A text ends at its
  zero.
\<close>

definition host_app_dispatch :: "file_env \<Rightarrow> u16 \<Rightarrow> bytes \<Rightarrow> app_host \<Rightarrow> (bool \<times> app_host) option" where
  "host_app_dispatch e c payload a =
     (case CommandDispatch (e_lz4 e) (e_payload e) (cmd CMD_APP_BEGIN) (cmd CMD_APP_DATA) c payload (ap_xfer a) of
        None \<Rightarrow> None
      | Some (False, x) \<Rightarrow> Some (False, a\<lparr>ap_xfer := x\<rparr>)
      | Some (True, x) \<Rightarrow>
          let a1 = a\<lparr>ap_xfer := x\<rparr>; text = c_str (chars_of payload) in
          if c = cmd CMD_APP_INIT then BeginInstall (e_scandir e) text a1
          else if c = cmd CMD_APP_FINISH then
            (case payload of
               m # r # rest \<Rightarrow> Some (CheckInstallContinue m (r \<noteq> 0) (c_str (chars_of rest)) a1)
             | _ \<Rightarrow> None)
          else if c = cmd CMD_APP_UNINSTALL then
            Some (True, on_ap (\<lambda>x. ctx_upd (\<lambda>c. c\<lparr>taskQueue := taskQueue c @ [text]\<rparr>) (snd (SendToAnother (cmd CMD_APP_UNINSTALL) payload x))) a1)
          else if c = cmd CMD_APP_SIDELOAD then Some (True, snd (BeginSideload text a1))
          else Some (True, a1))"

section \<open>The daemon's side\<close>

text \<open>
  The transfer beside its \<open>AsyncCmd\<close>; logged texts, the files whose mode was set and those removed are
  recorded.
\<close>

record app_daemon =
  da_xfer :: transfer
  da_mode :: u8
  da_log :: "(MessageLevel \<times> string) list"
  da_chmod :: "string list"
  da_unlinked :: "string list"

type_synonym app_task = "async_cmd \<times> app_daemon"

definition on_da :: "(transfer \<Rightarrow> transfer) \<Rightarrow> app_daemon \<Rightarrow> app_daemon" where
  "on_da f a = a\<lparr>da_xfer := f (da_xfer a)\<rparr>"

definition APPMOD_INSTALL :: u8 where "APPMOD_INSTALL = 1"
definition APPMOD_UNINSTALL :: u8 where "APPMOD_UNINSTALL = 2"
definition APPMOD_SIDELOAD :: u8 where "APPMOD_SIDELOAD = 3"

text \<open>The answer: the mode, whether the exit status is zero, the output with its lines joined.\<close>

definition echo_line :: "bytes \<Rightarrow> bytes" where
  "echo_line r = map (\<lambda>b. if b = 10 then 32 else b) r"

definition AsyncInstallFinish :: "bool \<Rightarrow> int \<Rightarrow> bytes \<Rightarrow> app_task \<Rightarrow> bool \<times> app_task" where
  "AsyncInstallFinish finish exitStatus result st =
     (case st of (ac, a) \<Rightarrow>
      let a1 = (if da_mode a = APPMOD_INSTALL then a\<lparr>da_unlinked := da_unlinked a @ [localPath (ctxNow (da_xfer a))]\<rparr> else a);
          a2 = on_da (\<lambda>x. snd (SendToAnother (cmd CMD_APP_FINISH) (da_mode a1 # of_bool (exitStatus = 0) # echo_line result) x)) a1
      in (True, DoRelease ac, on_da (\<lambda>x. x\<lparr>refCount := refCount x - 1\<rparr>) a2))"

definition package_command :: "bool \<Rightarrow> string \<Rightarrow> string \<Rightarrow> string" where
  "package_command install opts package =
     formatted (if install then ''bm install '' @ c_str opts @ '' -p '' @ c_str package
                else ''bm uninstall '' @ c_str opts @ '' -n '' @ c_str package)"

definition PackageShell :: "int \<times> int \<Rightarrow> int \<Rightarrow> bool \<Rightarrow> string \<Rightarrow> string \<Rightarrow> app_task \<Rightarrow> app_task" where
  "PackageShell fds childPid install opts package st =
     (case st of (ac, a) \<Rightarrow>
      let a1 = (on_da (\<lambda>x. x\<lparr>refCount := Suc (refCount x)\<rparr>) a)\<lparr>da_chmod := da_chmod a @ [c_str package],
            da_mode := (if install then APPMOD_INSTALL else APPMOD_UNINSTALL)\<rparr>
      in (snd (ExecuteCommand fds childPid (package_command install opts package) (snd (Initial OPTION_COMMAND_ONETIME ac))), a1))"

definition Sideload :: "string \<Rightarrow> app_daemon \<Rightarrow> app_daemon" where
  "Sideload pathOTA a =
     (on_da TaskFinish (a\<lparr>da_mode := APPMOD_SIDELOAD, da_log := da_log a @ [(MSG_OK, formatted (''[placeholders] sideload '' @ c_str pathOTA))]\<rparr>))
       \<lparr>da_unlinked := da_unlinked a @ [c_str pathOTA]\<rparr>"

text \<open>\<open>reason\<close> is the text of the error.\<close>

definition app_WhenTransferFinish :: "int \<times> int \<Rightarrow> int \<Rightarrow> string \<Rightarrow> app_task \<Rightarrow> app_task" where
  "app_WhenTransferFinish fds childPid reason st =
     (case st of (ac, a) \<Rightarrow>
      let c = ctxNow (da_xfer a) in
      if lastErrno c > 0 then
        (ac, a\<lparr>da_log := da_log a @ [(MSG_FAIL, formatted (''Transfer App at:'' @ decimal (unat (cf_indexIO c)) @ ''/'' @
             decimal (unat (cf_fileSize c)) @ ''(Bytes), Reason: '' @ reason))]\<rparr>)
      else if functionName (transferConfig c) = CMDSTR_APP_SIDELOAD then (ac, Sideload (localPath c) a)
      else if functionName (transferConfig c) = CMDSTR_APP_INSTALL then
        PackageShell fds childPid True (options (transferConfig c)) (localPath c) st
      else st)"

definition app_OnFileClose :: "int \<times> int \<Rightarrow> int \<Rightarrow> string \<Rightarrow> app_task \<Rightarrow> app_task" where
  "app_OnFileClose fds childPid reason st =
     (let st1 = (if closeNotify (ctxNow (da_xfer (snd st))) then app_WhenTransferFinish fds childPid reason st else st)
      in (fst st1, on_da (\<lambda>x. x\<lparr>refCount := refCount x - 1\<rparr>) (snd st1)))"

text \<open>Where a package is stored.\<close>

definition package_path :: "TransferConfig \<Rightarrow> string" where
  "package_path tc = (if functionName tc = CMDSTR_APP_INSTALL \<and> str_find (options tc) ''s'' 0 \<noteq> None
     then ''/sdcard/tmp/'' else ''/data/local/tmp/'') @ optionalName tc"

definition daemon_app_dispatch :: "file_env \<Rightarrow> int \<times> int \<Rightarrow> int \<Rightarrow> u16 \<Rightarrow> bytes \<Rightarrow> app_task \<Rightarrow> (bool \<times> app_task) option" where
  "daemon_app_dispatch e fds childPid c payload st =
     (case CommandDispatch (e_lz4 e) (e_payload e) (cmd CMD_APP_BEGIN) (cmd CMD_APP_DATA) c payload (da_xfer (snd st)) of
        None \<Rightarrow> None
      | Some (False, x) \<Rightarrow> Some (False, fst st, (snd st)\<lparr>da_xfer := x\<rparr>)
      | Some (True, x) \<Rightarrow>
          let a = (snd st)\<lparr>da_xfer := x\<rparr> in
          if c = cmd CMD_APP_CHECK then
            map_option (\<lambda>(_, tc). (True, fst st,
              on_da (\<lambda>x. ctx_upd (\<lambda>c. c\<lparr>transferConfig := tc, master := False, localPath := package_path tc, cf_fileSize := fileSize tc\<rparr>)
                (x\<lparr>refCount := Suc (refCount x), reqs := reqs x @ [FsOpen (package_path tc)]\<rparr>)) a))
              (ParseFromString Descriptor_TransferConfig (transferConfig (ctxNow x)) (chars_of payload))
          else if c = cmd CMD_APP_UNINSTALL then Some (True, PackageShell fds childPid False '''' (chars_of payload) (fst st, a))
          else Some (True, fst st, a))"

definition app_ReadyForRelease :: "app_task \<Rightarrow> bool \<times> app_task" where
  "app_ReadyForRelease st =
     (if refCount (da_xfer (snd st)) \<noteq> 0 then (False, st)
      else case ReadyForRelease (fst st) of (r, ac) \<Rightarrow> (r, ac, snd st))"

end
