(* ===== verification/Hdc_AppRun.thy ===== *)
theory Hdc_AppRun
  imports Hdc_AppTask Hdc_FileRun
begin

text \<open>
  Installing applications as a whole: the order in which the server's side opens the packages, and what
  the daemon's side runs and answers for each.
\<close>

section \<open>The packages are opened in turn\<close>

text \<open>
  A command as the task gets it: \<open>TaskCommandDispatch\<close> of src/src/common/session.h ends a task whose
  dispatch answers false.
\<close>

definition app_dispatched :: "file_env \<Rightarrow> u16 \<Rightarrow> bytes \<Rightarrow> app_host \<Rightarrow> (bool \<times> app_host) option" where
  "app_dispatched e c payload a =
     map_option (\<lambda>(ok, a'). (ok, if ok then a' else on_ap TaskFinish a')) (host_app_dispatch e c payload a)"

text \<open>
  The steps of the server's side after the command: its requests complete in any way, and any command
  of the daemon arrives. The results of the dispatch of the answers are listed.
\<close>

definition answers :: "u16 \<Rightarrow> bool \<Rightarrow> bool list" where
  "answers c ok = (if c = cmd CMD_APP_FINISH then [ok] else [])"

inductive host_app_step :: "file_env \<Rightarrow> bool list \<times> app_host \<Rightarrow> bool list \<times> app_host \<Rightarrow> bool" for e where
  ah_open: "reqs (ap_xfer a) = rs @ FsOpen p # rs' \<Longrightarrow>
    host_app_step e (oks, a) (oks, on_ap (\<lambda>x. base_OnFileOpen (cmd CMD_APP_BEGIN) (CheckMaster sz rnd) result st (x\<lparr>reqs := rs @ rs'\<rparr>)) a)"
| ah_io: "reqs (ap_xfer a) = rs @ q # rs' \<Longrightarrow> q = FsRead i k \<or> q = FsWrite i w \<Longrightarrow>
    host_app_step e (oks, a) (oks, on_ap (\<lambda>x. OnFileIO (e_lz4 e) (cmd CMD_APP_DATA) q result d (x\<lparr>reqs := rs @ rs'\<rparr>)) a)"
| ah_close: "reqs (ap_xfer a) = rs @ FsClose # rs' \<Longrightarrow>
    host_app_step e (oks, a) (oks, on_ap (\<lambda>x. x\<lparr>refCount := refCount x - 1, reqs := rs @ rs'\<rparr>) a)"
| ah_command: "c \<noteq> cmd CMD_APP_INIT \<Longrightarrow> c \<noteq> cmd CMD_APP_UNINSTALL \<Longrightarrow> c \<noteq> cmd CMD_APP_SIDELOAD \<Longrightarrow>
    app_dispatched e c payload a = Some (ok, a') \<Longrightarrow> host_app_step e (oks, a) (oks @ answers c ok, a')"
| ah_lost: "host_app_step e (oks, a) (oks, on_ap (\<lambda>x. x\<lparr>up := False\<rparr>) a)"

text \<open>What was sent stays sent, and a lost connection stays lost.\<close>

definition later :: "transfer \<Rightarrow> transfer \<Rightarrow> bool" where
  "later x y \<longleftrightarrow> set (sent x) \<subseteq> set (sent y) \<and> (up y \<longrightarrow> up x)"

lemma later_refl [simp]: "later x x"
  by (simp add: later_def)

lemma later_trans: "later x y \<Longrightarrow> later y z \<Longrightarrow> later x z"
  by (auto simp: later_def)

lemma later_upd [simp]:
  "later x (ctx_upd f y) = later x y" "later x (y\<lparr>refCount := n\<rparr>) = later x y" "later x (y\<lparr>reqs := q\<rparr>) = later x y"
  "later x (y\<lparr>logs := l\<rparr>) = later x y" "later x (y\<lparr>timeSet := b\<rparr>) = later x y"
  "later (x\<lparr>reqs := q\<rparr>) y = later x y" "later (x\<lparr>refCount := n\<rparr>) y = later x y" "later (ctx_upd f x) y = later x y"
  by (simp_all add: later_def ctx_upd_def)

lemma later_send: "later x y \<Longrightarrow> later x (snd (SendToAnother c bs y))"
  by (auto simp: later_def SendToAnother_def)

lemma later_io: "later x y \<Longrightarrow> later x (snd (SimpleFileIO i s k y))"
  by (simp add: SimpleFileIO_def)

lemma later_payload: "later x y \<Longrightarrow> later x (snd (SendIOPayload_to L cd off d y))"
  by (auto simp: SendIOPayload_to_def later_send split: option.splits)

lemma later_finish: "later x y \<Longrightarrow> later x (TaskFinish y)"
  by (simp add: TaskFinish_def later_send)

lemma later_OnFileIO: "later x (OnFileIO L c q r d x)"
proof -
  have "later x (io_result L c q r d x)"
  proof (cases q)
    case (FsRead i k)
    obtain b y where y: "SendIOPayload_to L c (cf_indexIO (ctxNow x)) d (ctx_upd (\<lambda>c. c\<lparr>cf_indexIO := cf_indexIO (ctxNow x) + word_of_int r\<rparr>) x) = (b, y)"
      by fastforce
    have "later x y"
      using later_payload [of x "ctx_upd (\<lambda>c. c\<lparr>cf_indexIO := cf_indexIO (ctxNow x) + word_of_int r\<rparr>) x" L c "cf_indexIO (ctxNow x)" d] y by simp
    then show ?thesis using FsRead y by (auto simp: io_result_def Let_def later_io split: bool.splits)
  qed (simp_all add: io_result_def Let_def SetFileTime_def)
  then show ?thesis by (simp add: OnFileIO_def Let_def)
qed

lemma later_open: "later x (base_OnFileOpen cb (CheckMaster sz rnd) r st x)"
  by (simp add: base_OnFileOpen_def CheckMaster_def Let_def later_send later_finish split: prod.splits)

lemma later_base: "CommandDispatch L pld cb cd c p x = Some (ok, x') \<Longrightarrow> later x x'"
  by (auto simp: CommandDispatch_def later_io split: if_splits received.splits prod.splits dest!: arg_cong [where f = snd])

lemma queue_SimpleFileIO: "taskQueue (ctxNow (snd (SimpleFileIO i s k x))) = taskQueue (ctxNow x)"
  "singalStop (snd (SimpleFileIO i s k x)) = singalStop x"
  by (simp_all add: SimpleFileIO_def)

lemma queue_Send: "ctxNow (snd (SendToAnother c bs x)) = ctxNow x" "singalStop (snd (SendToAnother c bs x)) = singalStop x"
  by (simp_all add: SendToAnother_def)

lemma queue_OnFileIO: "taskQueue (ctxNow (OnFileIO L c q r d x)) = taskQueue (ctxNow x)"
  using kept_fields(8) [OF OnFileIO_kept] .

lemma stop_OnFileIO: "singalStop (OnFileIO L c q r d x) = singalStop x"
proof -
  have s: "singalStop (snd (SendIOPayload_to L cd off dat y)) = singalStop y" for cd off dat y
    by (auto simp: SendIOPayload_to_def queue_Send split: option.splits)
  have "singalStop (io_result L c q r d x) = singalStop x"
    unfolding io_result_def Let_def
    by (auto simp: ctx_upd_def SetFileTime_def queue_SimpleFileIO s split: fs_req.splits prod.splits bool.splits dest!: arg_cong [where f = snd])
  then show ?thesis by (simp add: OnFileIO_def Let_def)
qed

lemma queue_OnFileOpen:
  "taskQueue (ctxNow (base_OnFileOpen cb (CheckMaster sz rnd) r st x)) = taskQueue (ctxNow x)"
  "singalStop (base_OnFileOpen cb (CheckMaster sz rnd) r st x) = singalStop x"
  by (simp_all add: base_OnFileOpen_def CheckMaster_def TaskFinish_def queue_Send ctx_upd_def ResetCtx_def Let_def split: prod.splits)

lemma queue_base: "CommandDispatch L pld cb cd c p x = Some (ok, x') \<Longrightarrow> ctxNow x' = ctxNow x \<and> singalStop x' = singalStop x"
  by (auto simp: CommandDispatch_def split: if_splits received.splits prod.splits dest!: arg_cong [where f = snd]
      simp: queue_SimpleFileIO SimpleFileIO_ctx)

text \<open>Removing repeated neighbours of a sorted list leaves each element once.\<close>

lemma distinct_remdups_sorted: "sorted (xs :: 'a :: linorder list) \<Longrightarrow> distinct (remdups_adj xs)"
  by (induction xs rule: remdups_adj.induct) (auto simp: order.antisym)

lemma distinct_remdups_sort: "distinct (remdups_adj (sort xs))"
  by (rule distinct_remdups_sorted) simp

definition host_inv :: "string list \<Rightarrow> bool list \<times> app_host \<Rightarrow> bool" where
  "host_inv q st \<longleftrightarrow> (case st of (oks, a) \<Rightarrow> let n = length oks in
     \<not> singalStop (ap_xfer a) \<and> taskQueue (ap_ctx a) = take (length q - n) q
     \<and> ap_opened a = take (Suc n) (rev q) \<and> oks = map (\<lambda>i. Suc i < length q) [0..<n]
     \<and> (length q \<le> n \<longrightarrow> (MSG_OK, ''AppMod finish'') \<in> set (ap_log a)
          \<and> (up (ap_xfer a) \<longrightarrow> (cmd CMD_KERNEL_CHANNEL_CLOSE, [1]) \<in> set (sent (ap_xfer a)))))"

lemma host_inv_later:
  assumes "host_inv q (oks, a)" "later (ap_xfer a) x" "taskQueue (ctxNow x) = taskQueue (ap_ctx a)" "singalStop x = singalStop (ap_xfer a)"
  shows "host_inv q (oks, a\<lparr>ap_xfer := x\<rparr>)"
  using assms by (auto simp: host_inv_def later_def Let_def)

lemma butlast_take_less: "butlast (take k q) = take (k - 1) q" if "k \<le> length q"
  using that by (simp add: butlast_take)

lemma opened_next: "Suc n < length q \<Longrightarrow> take (Suc n) (rev q) @ [last (take (length q - Suc n) q)] = take (Suc (Suc n)) (rev q)"
proof -
  assume n: "Suc n < length q"
  then have "last (take (length q - Suc n) q) = q ! (length q - Suc (Suc n))" by (subst last_conv_nth) auto
  then show ?thesis using n by (simp add: take_Suc_conv_app_nth [of "Suc n" "rev q"] rev_nth)
qed

lemma continue_inv:
  assumes "host_inv q (oks, a)" and res_def: "res = CheckInstallContinue m r msg a"
  shows "host_inv q (oks @ [fst res], if fst res then snd res else on_ap TaskFinish (snd res))"
proof -
  let ?n = "length oks"
  have i: "\<not> singalStop (ap_xfer a)" "taskQueue (ap_ctx a) = take (length q - ?n) q" "ap_opened a = take (Suc ?n) (rev q)"
    "oks = map (\<lambda>i. Suc i < length q) [0..<?n]"
    using assms(1) by (auto simp: host_inv_def Let_def)
  have b: "butlast (take (length q - ?n) q) = take (length q - Suc ?n) q"
    using butlast_take_less [of "length q - ?n" q] by simp
  have f: "formatted ''AppMod finish'' = ''AppMod finish''" by (simp add: formatted_def MAX_SIZE_IOBUF_def)
  show ?thesis
  proof (cases "Suc ?n < length q")
    case True
    then have qn: "q \<noteq> []" by auto
    have "fst res" "taskQueue (ap_ctx (snd res)) = take (length q - Suc ?n) q" "\<not> singalStop (ap_xfer (snd res))"
      "ap_opened (snd res) = take (Suc (Suc ?n)) (rev q)"
      using True i(1-3) b qn opened_next [OF True]
      by (simp_all add: res_def CheckInstallContinue_def Let_def on_ap_def ctx_upd_def ap_say_def RunQueue_def)
    then show ?thesis using True i(4) by (simp add: host_inv_def Let_def)
  next
    case False
    have "\<not> fst res" "taskQueue (ap_ctx (snd res)) = []" "\<not> singalStop (ap_xfer (snd res))"
      "ap_opened (snd res) = ap_opened a" "(MSG_OK, ''AppMod finish'') \<in> set (ap_log (snd res))"
      using False i(1-3) b f
      by (simp_all add: res_def CheckInstallContinue_def Let_def on_ap_def ctx_upd_def ap_say_def)
    then show ?thesis using False i(3,4)
      by (auto simp: host_inv_def Let_def on_ap_def TaskFinish_def SendToAnother_def simp del: cmd.simps)
  qed
qed

lemma host_inv_step: "host_app_step e st st' \<Longrightarrow> host_inv q st \<Longrightarrow> host_inv q st'"
proof (induction rule: host_app_step.induct)
  case (ah_open a rs p rs' oks sz rnd result st)
  then show ?case
    using later_open [of "(ap_xfer a)\<lparr>reqs := rs @ rs'\<rparr>"] by (simp add: on_ap_def queue_OnFileOpen host_inv_later)
next
  case (ah_io a rs qq rs' i k w oks result d)
  then show ?case
    using later_OnFileIO [of "(ap_xfer a)\<lparr>reqs := rs @ rs'\<rparr>"] by (simp add: on_ap_def queue_OnFileIO stop_OnFileIO host_inv_later)
next
  case (ah_close a rs rs' oks)
  then show ?case by (simp add: on_ap_def host_inv_later)
next
  case (ah_lost oks a)
  then show ?case unfolding on_ap_def by (intro host_inv_later) (simp_all add: later_def)
next
  case (ah_command c payload a ok a' oks)
  obtain a1 where d: "host_app_dispatch e c payload a = Some (ok, a1)" "a' = (if ok then a1 else on_ap TaskFinish a1)"
    using ah_command(4) by (auto simp: app_dispatched_def)
  obtain r x where x: "CommandDispatch (e_lz4 e) (e_payload e) (cmd CMD_APP_BEGIN) (cmd CMD_APP_DATA) c payload (ap_xfer a) = Some (r, x)"
    using d(1) by (auto simp: host_app_dispatch_def split: option.splits)
  have k: "host_inv q (oks, a\<lparr>ap_xfer := x\<rparr>)"
    using queue_base [OF x] later_base [OF x] by (intro host_inv_later [OF ah_command(5)]) simp_all
  have r: "r" if "c = cmd CMD_APP_FINISH" using x that by (auto simp: CommandDispatch_def cmd_inj simp del: cmd.simps)
  show ?case
  proof (cases "c = cmd CMD_APP_FINISH")
    case True
    then obtain m b rest where "CheckInstallContinue m b (c_str (chars_of rest)) (a\<lparr>ap_xfer := x\<rparr>) = (ok, a1)"
      using d(1) x r by (auto simp: host_app_dispatch_def Let_def cmd_inj simp del: cmd.simps split: list.splits)
    from continue_inv [OF k this [symmetric]] show ?thesis using True d(2) by (cases ok) (simp_all add: answers_def del: cmd.simps)
  next
    case False
    then have a1: "a1 = a\<lparr>ap_xfer := x\<rparr>"
      using ah_command(1-3) d(1) x by (auto simp: host_app_dispatch_def Let_def simp del: cmd.simps split: bool.splits)
    have "host_inv q (oks, (a\<lparr>ap_xfer := x\<rparr>)\<lparr>ap_xfer := TaskFinish x\<rparr>)"
      by (rule host_inv_later [OF k]) (simp_all add: later_send TaskFinish_def queue_Send)
    then show ?thesis using k False d(2) a1 by (simp add: answers_def on_ap_def del: cmd.simps)
  qed
qed

lemma host_inv_run: "(host_app_step e)\<^sup>*\<^sup>* st st' \<Longrightarrow> host_inv q st \<Longrightarrow> host_inv q st'"
  by (induction rule: rtranclp_induct) (auto intro: host_inv_step)

text \<open>
  C39. For a command that names at least one package, in a fresh task: the packages are opened one by
  one, each once and in falling order of their paths; the next one is opened when the daemon has
  answered, whatever it has answered. The dispatch of an answer says that the task goes on for each but
  the last package; with the last it is false, it is logged that the work is done, and the notice that
  closes the channel is sent unless the connection is lost.
\<close>

theorem packages_opened_in_turn:
  assumes "app_args scandir (line_words command) (clientCwd (transferConfig (ap_ctx a0)), [], []) = Some (cwd, pkgs, opts)"
    and "pkgs \<noteq> []" and "command \<noteq> []" and "CHR 0x00 \<notin> set command"
    and "taskQueue (ap_ctx a0) = []" and "ap_opened a0 = []" and "\<not> singalStop (ap_xfer a0)"
  shows "\<exists>a. BeginInstall scandir command a0 = Some (True, a) \<and>
    (\<forall>oks a'. (host_app_step e)\<^sup>*\<^sup>* ([], a) (oks, a') \<longrightarrow>
       ap_opened a' = take (Suc (length oks)) (rev (sorted_list_of_set (set pkgs)))
     \<and> oks = map (\<lambda>i. Suc i < card (set pkgs)) [0..<length oks]
     \<and> (card (set pkgs) \<le> length oks \<longrightarrow> (MSG_OK, ''AppMod finish'') \<in> set (ap_log a')
          \<and> (up (ap_xfer a') \<longrightarrow> (cmd CMD_KERNEL_CHANNEL_CLOSE, [1]) \<in> set (sent (ap_xfer a')))))"
proof -
  obtain S where S: "SplitCommandToArgs command = Some (Some S)" "arg_strings S = line_words command"
    using SplitCommandToArgs_words_lib [OF assms(3,4)] by auto
  have ne: "line_words command \<noteq> []" using assms(1,2) by auto
  have q: "\<exists>a. BeginInstall scandir command a0 = Some (True, a) \<and> ap_opened a = [last (remdups_adj (sort pkgs))]
      \<and> taskQueue (ap_ctx a) = remdups_adj (sort pkgs) \<and> \<not> singalStop (ap_xfer a)"
    using assms S ne by (auto simp: BeginInstall_def Let_def RunQueue_def on_ap_def ctx_upd_def)
  then obtain a where a: "BeginInstall scandir command a0 = Some (True, a)" "ap_opened a = [last (remdups_adj (sort pkgs))]"
    "taskQueue (ap_ctx a) = remdups_adj (sort pkgs)" "\<not> singalStop (ap_xfer a)" by blast
  let ?q = "sorted_list_of_set (set pkgs)"
  have d: "remdups_adj (sort pkgs) = ?q"
    by (rule sorted_distinct_set_unique) (simp_all add: sorted_remdups_adj distinct_remdups_sort)
  have "?q \<noteq> []" using assms(2) by simp
  then have i: "host_inv ?q ([], a)" using a(2-4) d by (simp add: host_inv_def take_Suc hd_rev)
  show ?thesis
  proof (intro exI [of _ a] conjI allI impI)
    fix oks a' assume "(host_app_step e)\<^sup>*\<^sup>* ([], a) (oks, a')"
    then have h: "host_inv ?q (oks, a')" using host_inv_run i by blast
    then show "ap_opened a' = take (Suc (length oks)) (rev ?q)" by (simp add: host_inv_def Let_def)
    show "oks = map (\<lambda>i. Suc i < card (set pkgs)) [0..<length oks]" using h by (simp add: host_inv_def Let_def)
    assume "card (set pkgs) \<le> length oks"
    then show "(MSG_OK, ''AppMod finish'') \<in> set (ap_log a')"
      "up (ap_xfer a') \<Longrightarrow> (cmd CMD_KERNEL_CHANNEL_CLOSE, [1]) \<in> set (sent (ap_xfer a'))"
      using h by (simp_all add: host_inv_def Let_def del: cmd.simps)
  qed (rule a(1))
qed

definition small_host :: app_host where
  "small_host = \<lparr> ap_xfer = idle_transfer, ap_log = [], ap_opened = [] \<rparr>"

theorem packages_opened_in_turn_witness:
  "\<exists>a a'. BeginInstall (\<lambda>_. None) ''-cwd /c/ b.hap -r a.hap b.hap'' small_host = Some (True, a)
     \<and> ap_opened a = [''/c/b.hap'']
     \<and> (host_app_step small_env)\<^sup>*\<^sup>* ([], a) ([True], a') \<and> ap_opened a' = [''/c/b.hap'', ''/c/a.hap'']"
proof -
  let ?c = "''-cwd /c/ b.hap -r a.hap b.hap''"
  have w: "line_words ?c = [''-cwd'', ''/c/'', ''b.hap'', ''-r'', ''a.hap'', ''b.hap'']" by (simp add: line_words_def blank_def)
  have m: "MatchPackageExtendName ''/c/a.hap'' ''.hap''" "MatchPackageExtendName ''/c/b.hap'' ''.hap''" by code_simp+
  have p: "app_args (\<lambda>_. None) (line_words ?c) (clientCwd (transferConfig (ap_ctx small_host)), [], [])
      = Some (''/c/'', [''/c/b.hap'', ''/c/a.hap'', ''/c/b.hap''], ''-r'')"
    unfolding w by (simp add: m ExtractRelativePath_def IsAbsolutePath_def Let_def)
  have i: "taskQueue (ap_ctx small_host) = []" "ap_opened small_host = []" "\<not> singalStop (ap_xfer small_host)"
    by (simp_all add: small_host_def idle_transfer_def CtxFile0_def)
  have s: "sorted_list_of_set (set [''/c/b.hap'', ''/c/a.hap'', ''/c/b.hap'']) = [''/c/a.hap'', ''/c/b.hap'']"
    by code_simp
  have hy: "[''/c/b.hap'', ''/c/a.hap'', ''/c/b.hap''] \<noteq> []" "?c \<noteq> []" "CHR 0x00 \<notin> set ?c" by simp_all
  have cc: "card (set [''/c/b.hap'', ''/c/a.hap'', ''/c/b.hap'']) = 2" by code_simp
  obtain a where a: "BeginInstall (\<lambda>_. None) ?c small_host = Some (True, a)"
    "\<And>oks a'. (host_app_step small_env)\<^sup>*\<^sup>* ([], a) (oks, a') \<Longrightarrow> ap_opened a' = take (Suc (length oks)) (rev [''/c/a.hap'', ''/c/b.hap''])
       \<and> oks = map (\<lambda>i. Suc i < 2) [0..<length oks]"
    using packages_opened_in_turn [OF p hy i, of small_env, unfolded s cc] by blast
  obtain ok a' where d: "app_dispatched small_env (cmd CMD_APP_FINISH) [1, 0] a = Some (ok, a')"
    by (cases "CheckInstallContinue 1 False (c_str []) a")
      (simp add: app_dispatched_def host_app_dispatch_def CommandDispatch_def cmd_inj Let_def del: cmd.simps)
  have "host_app_step small_env ([], a) ([] @ answers (cmd CMD_APP_FINISH) ok, a')"
    by (rule ah_command [OF _ _ _ d]) (simp_all add: cmd_inj del: cmd.simps)
  then have s: "(host_app_step small_env)\<^sup>*\<^sup>* ([], a) ([ok], a')" by (simp add: answers_def r_into_rtranclp del: cmd.simps)
  then have "ok" using a(2) by fastforce
  then show ?thesis using a(1) a(2) [OF rtranclp.rtrancl_refl] a(2) [OF s] s by auto
qed

section \<open>The daemon installs and answers\<close>

text \<open>\<open>echo_line\<close> is what \<open>ReplaceAll\<close> makes of the output.\<close>

lemma repl_char: "repl [a] [b] s = map (\<lambda>c. if c = a then b else c) s"
  by (induction s) auto

lemma echo_line_text: "ReplaceAll (chars_of r) newline '' '' = Some (chars_of (echo_line r))"
proof -
  have c: "char_of_byte b = CHR 0x0A \<longleftrightarrow> b = 10" for b
  proof -
    have "byte_of_char CHR 0x0A = 10" by (simp add: byte_of_char_def)
    then show ?thesis by (metis byte_of_char_of_byte char_of_byte_of_char)
  qed
  have "char_of_byte 32 = CHR '' ''" by code_simp
  then show ?thesis
    by (simp add: ReplaceAll_def replace_loop_repl newline_def repl_char echo_line_def c)
qed

definition finishes :: "app_task \<Rightarrow> (u16 \<times> bytes) list" where
  "finishes st = filter (\<lambda>m. fst m = cmd CMD_APP_FINISH) (sent (da_xfer (snd st)))"

definition app_takes :: "bytes \<Rightarrow> app_task \<Rightarrow> bool \<times> app_task" where
  "app_takes = ChildReadCallback AsyncInstallFinish"

definition app_ends :: "bool \<Rightarrow> string \<Rightarrow> app_task \<Rightarrow> app_task" where
  "app_ends = FinishShellProc AsyncInstallFinish"

definition app_open :: "app_task \<Rightarrow> bool" where
  "app_open st \<longleftrightarrow> up (da_xfer (snd st)) \<and> \<not> singalStop (da_xfer (snd st))"

lemmas app_defs = app_takes_def app_ends_def ChildReadCallback_def FinishShellProc_def AsyncInstallFinish_def app_open_def
  finishes_def on_da_def SendToAnother_def DoRelease_def Let_def

definition app_owner :: "app_task \<Rightarrow> bool" where
  "app_owner st \<longleftrightarrow> ac_options (fst st) AND OPTION_COMMAND_ONETIME \<noteq> 0"

definition app_told :: "app_task \<Rightarrow> nat" where
  "app_told st = length (finishes st)"

interpretation installer: fd_owner app_takes app_ends app_owner "\<lambda>st. cmdResult (fst st)" app_told "\<lambda>st. ac_ref (fst st)" app_open
  by unfold_locales (auto simp: app_defs app_owner_def app_told_def split: prod.splits if_splits)

inductive app_step :: "bytes \<times> nat \<times> app_task \<Rightarrow> bytes \<times> nat \<times> app_task \<Rightarrow> bool" where
  app_io: "childShell (fst st) = Some d \<Longrightarrow> fd_io app_takes app_ends (out, f, d, st) (out', f', d', st') \<Longrightarrow>
    app_step (out, f, st) (out', f', (fst st')\<lparr>childShell := Some d'\<rparr>, snd st')"
| app_lost: "app_step (out, f, st) (out, f, fst st, on_da (\<lambda>x. x\<lparr>up := False\<rparr>) (snd st))"

abbreviation app_run :: "bytes \<times> nat \<times> app_task \<Rightarrow> bytes \<times> nat \<times> app_task \<Rightarrow> bool" where
  "app_run \<equiv> app_step\<^sup>*\<^sup>*"

text \<open>Nothing is answered before the end; then the file is removed and the answer sent, if it can be.\<close>

definition answered :: "bytes \<Rightarrow> app_daemon \<Rightarrow> bool \<Rightarrow> app_task \<Rightarrow> bool" where
  "answered all a0 over st \<longleftrightarrow> (let x = da_xfer (snd st); x0 = da_xfer a0 in
     da_mode (snd st) = APPMOD_INSTALL \<and> ctxNow x = ctxNow x0 \<and> singalStop x = singalStop x0
   \<and> refCount x = (if over then refCount x0 - 1 else refCount x0)
   \<and> da_unlinked (snd st) = da_unlinked a0 @ (if over then [localPath (ctxNow x0)] else [])
   \<and> (\<exists>b. sent x = sent x0 @ (if b then [(cmd CMD_APP_FINISH, APPMOD_INSTALL # 0 # echo_line all)] else [])
        \<and> (b \<longrightarrow> over) \<and> (over \<and> app_open st \<longrightarrow> b)))"

definition app_inv :: "bytes \<Rightarrow> app_daemon \<Rightarrow> bytes \<times> nat \<times> app_task \<Rightarrow> bool" where
  "app_inv all a0 z \<longleftrightarrow> (case z of (out, f, st) \<Rightarrow> f = 0 \<and> (\<exists>d. childShell (fst st) = Some d \<and> no_writes d
     \<and> installer.fd_inv all 1 (length (filter (\<lambda>m. fst m = cmd CMD_APP_FINISH) (sent (da_xfer a0)))) (out, f, d, st) \<and> answered all a0 (FdRead \<notin> set (fd_reqs d)) st))"

lemma app_inv_child [simp]:
  "installer.fd_inv all h n (out, f, d, (ac\<lparr>childShell := c\<rparr>, a)) = installer.fd_inv all h n (out, f, d, (ac, a))"
  unfolding installer.fd_inv_def by (simp add: app_owner_def app_told_def finishes_def app_open_def)

lemma answered_snd: "snd st = snd st' \<Longrightarrow> answered all a0 b st = answered all a0 b st'"
  by (simp add: answered_def app_open_def)

lemma answered_child [simp]: "answered all a0 b (ac\<lparr>childShell := c\<rparr>, a) = answered all a0 b (ac, a)"
  by (rule answered_snd) simp

lemma answered_lost:
  assumes "answered all a0 b st"
  shows "answered all a0 b (fst st, on_da (\<lambda>x. x\<lparr>up := False\<rparr>) (snd st))"
proof -
  let ?s = "sent (da_xfer (snd st))" and ?A = "\<lambda>k. sent (da_xfer a0) @ (if k then [(cmd CMD_APP_FINISH, APPMOD_INSTALL # 0 # echo_line all)] else [])"
  obtain k where k: "?s = ?A k" "k \<longrightarrow> b" using assms unfolding answered_def Let_def by blast
  have "\<exists>k. ?s = ?A k \<and> (k \<longrightarrow> b) \<and> (b \<and> app_open (fst st, on_da (\<lambda>x. x\<lparr>up := False\<rparr>) (snd st)) \<longrightarrow> k)"
    using k by (intro exI [of _ k]) (simp add: app_open_def on_da_def)
  then show ?thesis using assms unfolding answered_def Let_def by (simp add: on_da_def)
qed

lemma takes_snd: "app_owner st \<Longrightarrow> app_takes piece st = (True, (fst st)\<lparr>cmdResult := cmdResult (fst st) @ piece\<rparr>, snd st)"
  by (simp add: app_takes_def ChildReadCallback_def app_owner_def)

text \<open>What the end does to the daemon's side.\<close>

lemma ends_snd:
  "snd (app_ends b [] st) =
     (let a = snd st; x = da_xfer a in
      a\<lparr>da_unlinked := da_unlinked a @ (if da_mode a = APPMOD_INSTALL then [localPath (ctxNow x)] else []),
        da_xfer := x\<lparr>refCount := refCount x - 1,
          sent := sent x @ (if app_open st then [(cmd CMD_APP_FINISH, da_mode a # of_bool (of_bool b = (0::int)) # echo_line (cmdResult (fst st)))] else [])\<rparr>\<rparr>)"
  by (cases st) (simp add: app_defs)

lemma answered_ends:
  assumes "answered all a0 False st" and "cmdResult (fst st) = all"
  shows "answered all a0 True (app_ends True [] st)"
proof -
  have o: "app_open (app_ends True [] st) = app_open st" by (simp add: app_open_def ends_snd Let_def)
  have s: "sent (da_xfer (snd st)) = sent (da_xfer a0)" "da_mode (snd st) = APPMOD_INSTALL" using assms(1) by (auto simp: answered_def Let_def)
  show ?thesis
    unfolding answered_def Let_def o
    using assms s by (auto simp: answered_def ends_snd Let_def intro!: exI [of _ "app_open st"] simp del: cmd.simps)
qed

lemma app_inv_step: "app_step z z' \<Longrightarrow> app_inv all a0 z \<Longrightarrow> app_inv all a0 z'"
proof (induction rule: app_step.induct)
  case (app_io st d out f out' f' d' st')
  then have i: "f = 0" "no_writes d" "installer.fd_inv all 1 (length (filter (\<lambda>m. fst m = cmd CMD_APP_FINISH) (sent (da_xfer a0)))) (out, f, d, st)" "answered all a0 (FdRead \<notin> set (fd_reqs d)) st"
    by (auto simp: app_inv_def)
  have o: "app_owner st" using i(3) by (auto simp: installer.fd_inv_def)
  have "answered all a0 (FdRead \<notin> set (fd_reqs d')) st'"
    using app_io(2)
  proof (cases rule: fd_io.cases)
    case (fd_read as bs piece)
    have t: "fst (app_takes piece st)" using o by (simp add: takes_snd [OF o])
    then have "d' = (LoopRead (d\<lparr>fd_reqs := as @ bs\<rparr>))\<lparr>refIO := refIO d\<rparr>" "st' = snd (app_takes piece st)"
      using fd_read installer.io_more [OF t] by auto
    then show ?thesis using i(4) fd_read takes_snd [OF o, of piece] answered_snd [of st' st] by (simp add: LoopRead_def fd_request_def)
  next
    case (fd_end as bs r)
    then have "st' = app_ends True [] st" "fd_reqs d' = as @ bs" using installer.io_over [of r FdRead] by auto
    moreover have "cmdResult (fst st) = all" "FdRead \<notin> set (as @ bs)"
      using i(3) fd_end by (auto simp: installer.fd_inv_def count_list_0_iff)
    ultimately show ?thesis using answered_ends [of all a0 st] i(4) fd_end by auto
  next
    case (fd_written as w bs r)
    then show ?thesis using i(2) by (auto simp: no_writes_def)
  next
    case (fd_write_failed as w bs r)
    then show ?thesis using i(2) by (auto simp: no_writes_def)
  qed
  then show ?case
    using io_no_writes [OF app_io(2) i(2)] installer.fd_inv_io [OF app_io(2) i(3)] i(1) by (cases st') (auto simp: app_inv_def)
next
  case (app_lost out f st)
  then obtain d where d: "f = 0" "childShell (fst st) = Some d" "no_writes d" "installer.fd_inv all 1 (length (filter (\<lambda>m. fst m = cmd CMD_APP_FINISH) (sent (da_xfer a0)))) (out, f, d, st)"
    "answered all a0 (FdRead \<notin> set (fd_reqs d)) st" by (auto simp: app_inv_def)
  have o: "app_owner st" using d(4) by (auto simp: installer.fd_inv_def)
  let ?st = "(fst st, on_da (\<lambda>x. x\<lparr>up := False\<rparr>) (snd st))"
  have "installer.fd_inv all 1 (length (filter (\<lambda>m. fst m = cmd CMD_APP_FINISH) (sent (da_xfer a0)))) (out, f, d, ?st)"
    by (rule installer.fd_inv_closed [OF d(4)]) (use o in \<open>simp_all add: app_owner_def app_told_def finishes_def app_open_def on_da_def\<close>)
  moreover have "answered all a0 (FdRead \<notin> set (fd_reqs d)) ?st"
    by (rule answered_lost [OF d(5)])
  ultimately show ?case using d(1-3) by (simp add: app_inv_def)
qed

lemma app_inv_run: "app_run z z' \<Longrightarrow> app_inv all a0 z \<Longrightarrow> app_inv all a0 z'"
  by (induction rule: rtranclp_induct) (auto intro: app_inv_step)

text \<open>
  C40. A package whose data has been stored is given to the package manager. While that runs nothing is
  answered. When it has ended, the file is removed, and the daemon has sent exactly one answer if it
  could: it says that the package manager has failed, whatever its exit status, and holds the output of
  every command the task has run so far.
\<close>

theorem package_installed_and_answered:
  assumes "closeNotify (ctxNow (da_xfer a0))" and "lastErrno (ctxNow (da_xfer a0)) = 0"
    and "functionName (transferConfig (ctxNow (da_xfer a0))) = CMDSTR_APP_INSTALL"
    and "ac_ref ac = 0" and "childPid \<noteq> - 1" and "0 \<le> fst fds" and "refCount (da_xfer a0) \<noteq> 0"
    and "app_run (out, 0, app_OnFileClose fds childPid reason (ac, a0)) (rest, f, st)"
  shows "\<exists>d. childShell (fst st) = Some d
    \<and> ac_started (fst (app_OnFileClose fds childPid reason (ac, a0))) = ac_started ac @
        [c_str (Trim [CHR 0x22] (package_command True (options (transferConfig (ctxNow (da_xfer a0)))) (localPath (ctxNow (da_xfer a0)))))]
    \<and> (FdRead \<in> set (fd_reqs d) \<longrightarrow> sent (da_xfer (snd st)) = sent (da_xfer a0))
    \<and> (fd_reqs d = [] \<longrightarrow> da_unlinked (snd st) = da_unlinked a0 @ [localPath (ctxNow (da_xfer a0))]
        \<and> (app_open st \<longrightarrow> sent (da_xfer (snd st)) =
             sent (da_xfer a0) @ [(cmd CMD_APP_FINISH, APPMOD_INSTALL # 0 # echo_line (cmdResult ac @ out))])
        \<and> ac_ref (fst st) = 0 \<and> Suc (refCount (da_xfer (snd st))) = refCount (da_xfer a0))"
proof -
  let ?c = "ctxNow (da_xfer a0)" and ?d = "LoopRead (HdcFileDescriptor (fst fds))"
  let ?cmd = "package_command True (options (transferConfig ?c)) (localPath ?c)"
  let ?n = "length (filter (\<lambda>m. fst m = cmd CMD_APP_FINISH) (sent (da_xfer a0)))"
  define st1 where "st1 = app_OnFileClose fds childPid reason (ac, a0)"
  have ac1: "fst st1 = ac\<lparr>ac_options := 1, ac_fd := fst fds, ac_pid := childPid, ac_started := ac_started ac @ [c_str (Trim [CHR 0x22] ?cmd)],
      childShell := Some ?d, ac_ref := 1\<rparr>"
    and a1: "snd st1 = a0\<lparr>da_chmod := da_chmod a0 @ [c_str (localPath ?c)], da_mode := APPMOD_INSTALL\<rparr>"
    using assms(1-6)
    by (auto simp: st1_def app_OnFileClose_def app_WhenTransferFinish_def PackageShell_def Initial_def ExecuteCommand_def Popen_def
        StartWork_def OPTION_COMMAND_ONETIME_def on_da_def Let_def CMDSTR_APP_INSTALL_def CMDSTR_APP_SIDELOAD_def)
  have o: "app_owner st1" "app_told st1 = ?n" "cmdResult (fst st1) = cmdResult ac" "ac_ref (fst st1) = 1"
    using ac1 a1 by (simp_all add: app_owner_def OPTION_COMMAND_ONETIME_def app_told_def finishes_def)
  have "no_writes ?d" "FdRead \<in> set (fd_reqs ?d)"
    by (simp_all add: no_writes_def LoopRead_def fd_request_def HdcFileDescriptor_def)
  moreover have "installer.fd_inv (cmdResult ac @ out) 1 ?n (out, 0, ?d, st1)"
    using installer.fd_started [OF o(1), of out "fst fds"] o(2-4) by simp
  moreover have "answered (cmdResult ac @ out) a0 False st1"
    using a1 by (auto simp: answered_def Let_def)
  ultimately have "app_inv (cmdResult ac @ out) a0 (out, 0, st1)" using ac1 by (auto simp: app_inv_def)
  then have "app_inv (cmdResult ac @ out) a0 (rest, f, st)" using assms(8) app_inv_run by (auto simp: st1_def)
  then obtain d where d: "childShell (fst st) = Some d" "installer.fd_inv (cmdResult ac @ out) 1 ?n (rest, 0, d, st)"
    "answered (cmdResult ac @ out) a0 (FdRead \<notin> set (fd_reqs d)) st" by (auto simp: app_inv_def)
  have s: "FdRead \<in> set (fd_reqs d) \<Longrightarrow> sent (da_xfer (snd st)) = sent (da_xfer a0)"
    using d(3) by (auto simp: answered_def Let_def)
  have e: "da_unlinked (snd st) = da_unlinked a0 @ [localPath ?c] \<and> (app_open st \<longrightarrow> sent (da_xfer (snd st)) =
        sent (da_xfer a0) @ [(cmd CMD_APP_FINISH, APPMOD_INSTALL # 0 # echo_line (cmdResult ac @ out))])
      \<and> ac_ref (fst st) = 0 \<and> Suc (refCount (da_xfer (snd st))) = refCount (da_xfer a0)" if "fd_reqs d = []"
    using d(3) installer.fd_done(2) [OF d(2) that] that assms(7) by (auto simp: answered_def Let_def simp del: cmd.simps)
  show ?thesis using ac1 d(1) s e by (simp add: st1_def)
qed

definition stored_package :: app_daemon where
  "stored_package = \<lparr> da_xfer = idle_transfer\<lparr>refCount := 1, ctxNow := CtxFile0\<lparr>closeNotify := True, localPath := ''/t/x.hap'',
       transferConfig := TransferConfig0\<lparr>functionName := ''install'', options := ''-r''\<rparr>\<rparr>\<rparr>,
     da_mode = 0, da_log = [], da_chmod = [], da_unlinked = [] \<rparr>"

definition small_app :: "bytes \<Rightarrow> u32 \<Rightarrow> descriptor \<Rightarrow> int list \<Rightarrow> string list \<Rightarrow> nat \<Rightarrow> (u16 \<times> bytes) list \<Rightarrow> app_task" where
  "small_app r k d kl un rc l = (AsyncCmd0\<lparr>ac_options := 1, ac_fd := 4, ac_pid := 99, childShell := Some d, ac_ref := k, cmdResult := r,
       ac_started := [''bm install -r -p /t/x.hap''], ac_killed := kl\<rparr>,
     stored_package\<lparr>da_chmod := [''/t/x.hap''], da_mode := 1, da_unlinked := un,
       da_xfer := (da_xfer stored_package)\<lparr>refCount := rc, sent := l\<rparr>\<rparr>)"

lemma small_app_start:
  "app_OnFileClose (4, 5) 99 [] (AsyncCmd0, stored_package) = small_app [] 1 (LoopRead (HdcFileDescriptor 4)) [] [] 1 []"
  by (simp add: app_OnFileClose_def app_WhenTransferFinish_def PackageShell_def Initial_def ExecuteCommand_def Popen_def
      StartWork_def OPTION_COMMAND_ONETIME_def on_da_def Let_def CMDSTR_APP_INSTALL_def CMDSTR_APP_SIDELOAD_def stored_package_def
      CtxFile0_def TransferConfig0_def idle_transfer_def AsyncCmd0_def package_command_def formatted_def MAX_SIZE_IOBUF_def
      c_str_def Trim_def LeftTrim_def RightTrim_def APPMOD_INSTALL_def small_app_def)

lemma small_app_owner: "app_owner (small_app r k d kl un rc l)"
  by (simp add: app_owner_def small_app_def OPTION_COMMAND_ONETIME_def)

lemma small_app_io:
  "app_takes p (small_app r k d kl un rc l) = (True, small_app (r @ p) k d kl un rc l)"
  "app_ends True [] (small_app r 1 d [] [] 1 []) =
     small_app r 0 (StopWork False d) [99] [''/t/x.hap''] 0 [(cmd CMD_APP_FINISH, 1 # 0 # echo_line r)]"
  using takes_snd [OF small_app_owner, of p r k d kl un rc l]
  by (simp_all add: small_app_def app_defs stored_package_def idle_transfer_def APPMOD_INSTALL_def CtxFile0_def AsyncCmd0_def)

lemma small_app_run:
  "app_run ([111, 107, 10], 0, small_app [] 1 (LoopRead (HdcFileDescriptor 4)) [] [] 1 [])
     ([], 0, small_app [111, 107, 10] 0 \<lparr> fdIO = 4, refIO = 0, workContinue = False, fd_reqs = [] \<rparr> [99] [''/t/x.hap''] 0
        [(cmd CMD_APP_FINISH, [1, 0, 111, 107, 32])])"
proof -
  let ?d = "LoopRead (HdcFileDescriptor 4)" and ?d2 = "\<lparr> fdIO = 4, refIO = 0, workContinue = False, fd_reqs = [] \<rparr>"
  let ?F = "(cmd CMD_APP_FINISH, [1, 0, 111, 107, 32])"
  have c: "childShell (fst (small_app r k d kl un rc l)) = Some d"
    "((fst (small_app r k d kl un rc l))\<lparr>childShell := Some d'\<rparr>, snd (small_app r k d kl un rc l)) = small_app r k d' kl un rc l"
    for r k d d' kl un rc l by (simp_all add: small_app_def)
  have 1: "app_step ([111, 107, 10], 0, small_app [] 1 ?d [] [] 1 []) ([], 0, small_app [111, 107, 10] 1 ?d [] [] 1 [])"
    using app_io [OF c(1) fd_read [where as = "[]" and bs = "[]" and piece = "[111, 107, 10]" and rest = "[]"],
      of ?d "[]" 1 "[]" "[]" 1 "[]" ?d "small_app [111, 107, 10] 1 ?d [] [] 1 []" 0]
    by (simp add: c Hdc_Descriptor.OnFileIO_def small_app_io LoopRead_def fd_request_def HdcFileDescriptor_def)
  have 2: "app_step ([], 0, small_app [111, 107, 10] 1 ?d [] [] 1 []) ([], 0, small_app [111, 107, 10] 0 ?d2 [99] [''/t/x.hap''] 0 [?F])"
    using app_io [OF c(1) fd_end [where as = "[]" and bs = "[]" and r = 0],
      of ?d "[111, 107, 10]" 1 "[]" "[]" 1 "[]" ?d2 "small_app [111, 107, 10] 0 (StopWork False ?d) [99] [''/t/x.hap''] 0 [?F]" 0]
    by (simp add: c Hdc_Descriptor.OnFileIO_def small_app_io(1) small_app_io(2) [unfolded One_nat_def] echo_line_def LoopRead_def fd_request_def HdcFileDescriptor_def del: cmd.simps)
  show ?thesis using 1 2 by (meson converse_rtranclp_into_rtranclp rtranclp.rtrancl_refl)
qed

theorem package_installed_and_answered_witness:
  "\<exists>st d. app_run ([111, 107, 10], 0, app_OnFileClose (4, 5) 99 [] (AsyncCmd0, stored_package)) ([], 0, st)
     \<and> childShell (fst st) = Some d \<and> fd_reqs d = []
     \<and> ac_started (fst (app_OnFileClose (4, 5) 99 [] (AsyncCmd0, stored_package))) = [''bm install -r -p /t/x.hap'']
     \<and> da_unlinked (snd st) = [''/t/x.hap'']
     \<and> sent (da_xfer (snd st)) = [(cmd CMD_APP_FINISH, [1, 0, 111, 107, 32])]"
proof -
  let ?st0 = "app_OnFileClose (4, 5) 99 [] (AsyncCmd0, stored_package)"
  let ?d = "LoopRead (HdcFileDescriptor 4)" and ?d2 = "\<lparr> fdIO = 4, refIO = 0, workContinue = False, fd_reqs = [] \<rparr>"
  have h: "closeNotify (ctxNow (da_xfer stored_package))" "lastErrno (ctxNow (da_xfer stored_package)) = 0"
    "functionName (transferConfig (ctxNow (da_xfer stored_package))) = CMDSTR_APP_INSTALL" "ac_ref AsyncCmd0 = 0"
    "(99 :: int) \<noteq> - 1" "0 \<le> fst (4 :: int, 5 :: int)" "refCount (da_xfer stored_package) \<noteq> 0"
    by (simp_all add: stored_package_def CtxFile0_def idle_transfer_def CMDSTR_APP_INSTALL_def AsyncCmd0_def)
  let ?st2 = "small_app [111, 107, 10] 0 ?d2 [99] [''/t/x.hap''] 0 [(cmd CMD_APP_FINISH, [1, 0, 111, 107, 32])]"
  have r: "app_run ([111, 107, 10], 0, app_OnFileClose (4, 5) 99 [] (AsyncCmd0, stored_package)) ([], 0, ?st2)"
    unfolding small_app_start by (rule small_app_run)
  have c: "childShell (fst ?st2) = Some ?d2" "fd_reqs ?d2 = []" "app_open ?st2"
    "ac_started (fst (app_OnFileClose (4, 5) 99 [] (AsyncCmd0, stored_package))) = [''bm install -r -p /t/x.hap'']"
    unfolding small_app_start by (simp_all add: small_app_def app_open_def stored_package_def idle_transfer_def)
  have e: "localPath (ctxNow (da_xfer stored_package)) = ''/t/x.hap''" "da_unlinked stored_package = []"
    "sent (da_xfer stored_package) = []" "APPMOD_INSTALL # 0 # echo_line (cmdResult AsyncCmd0 @ [111, 107, 10]) = [1, 0, 111, 107, 32]"
    by (simp_all add: stored_package_def idle_transfer_def AsyncCmd0_def echo_line_def APPMOD_INSTALL_def)
  have "da_unlinked (snd ?st2) = [''/t/x.hap''] \<and> sent (da_xfer (snd ?st2)) = [(cmd CMD_APP_FINISH, [1, 0, 111, 107, 32])]"
    using package_installed_and_answered [OF h r] c(1-3) unfolding e by auto
  then show ?thesis using r c by (intro exI [of _ ?st2] exI [of _ ?d2]) blast
qed

end
