(* ===== verification/Spec2Isabelle.thy ===== *)
theory Spec2Isabelle
  imports Hdc_SessionFree Hdc_Transfer Hdc_Args Hdc_Server Hdc_UartLink Hdc_UartHost Hdc_UsbDaemon Hdc_ForwardFree Hdc_ClientRun Hdc_JdwpRun Hdc_ChannelLife Hdc_FileRun Hdc_Unity Hdc_AppRun
begin

text \<open>
  hdc, the OpenHarmony device connector, in Isabelle/HOL.

  The program. Three processes share the sources under src/src: a client (one command line), a
  server on the host that owns the devices, and a daemon on each device. Client and server talk
  over a TCP channel; server and daemon over a session on USB, TCP or a serial line. A session
  carries packets, each for one channel of one client; the commands of a channel are served by
  task objects (file transfer, forward, application, shell, unity) that both sides create in
  pairs. The event loops are those of libuv: every theorem here is about the callbacks the
  sources install and the order in which they may run.

  How the code is rendered. A struct is a record, an enumeration a datatype, an integer a word
  of its width (so a sum wraps where the C++ sum wraps), a byte string a list of 8-bit words, a
  \<open>std::map\<close> an association list in key order. A method that changes state takes and returns its
  record; a callback that libuv or a driver runs later is a step. A failure is a value: a return
  code of \<open>define_plus.h\<close>, \<open>None\<close>, or a constructor that says what goes wrong (\<open>Crash\<close> where the
  code follows a null pointer or leaves a buffer). What is not under src/ (OpenSSL, LZ4, the
  operating system) is an argument of the definitions that use it.

  Theories, from the bottom.

  Prelude and data: Hdc_Prelude has the types and the facts on lists and words every theory uses.
  Hdc_Define has the constants and enumerations of define.h and define_plus.h. Hdc_Map is
  \<open>std::map\<close> with the lemmas of its four operations. Hdc_Base and Hdc_Strings are the helpers of
  base.cpp (checksum; splitting, replacing, suffixes, paths, connect keys), Hdc_Args is
  \<open>Base::SplitCommandToArgs\<close>, whose one-block construction is proved equal to a plain splitter.

  Messages: Hdc_Wire (varints, fixed values, readers) and Hdc_Serial (the templates) model
  serial_struct_define.h; Hdc_Messages has the message types and their descriptors and proves
  that what is serialised parses back, for every value of every message.

  Packets: Hdc_Packet models \<open>Send\<close>, \<open>OnRead\<close>, \<open>FetchIOBuf\<close> of session.cpp; what one side packs
  the other takes out, whatever the chunks it arrives in. Hdc_Framing states the same for any
  reader of frames as a locale; Hdc_Channel interprets it on the channel's reader (channel.cpp).

  Sessions: Hdc_Session (\<open>AdminSession\<close>, \<open>AdminTask\<close>, \<open>DispatchTaskData\<close>, the watchdog),
  Hdc_SessionFree (the chain of callbacks that ends a session, as a step relation over a heap of
  session objects, with the wait for the tasks that can stop the daemon, its invariant, how it ends and
  what it does not protect: the work thread, and the timers by which server and daemon begin a session
  (host_usb.cpp, host_uart.cpp and server.cpp, daemon_usb.cpp, daemon_uart.cpp), which are in the steps
  but outside the chain),
  Hdc_Control (messages between the main loop and a session's thread).

  Tasks: Hdc_Tasks (creation, dispatch and removal of task objects in daemon.cpp and server.cpp),
  Hdc_Transfer (the block transfer of transfer.cpp and file.cpp: the slave's file equals the
  master's whatever order the disk answers in, every block sent is stored once, and the run
  ends).

  Files: Hdc_FileTask (the file task: command, options, directories, the path of the slave, over a
  model of a POSIX file system), Hdc_FileRun (sending a directory from the command to the files on
  the other side, on top of the block transfer; where the files go is a locale with two instances, a
  destination that is a directory and one that does not exist).

  Daemon and server: Hdc_Auth (keys and signatures of auth.cpp), Hdc_Daemon (handshake and the
  guard of \<open>FetchCommand\<close> in daemon.cpp), Hdc_Registry (devices and forwards of server.cpp),
  Hdc_Server (the handshake, the commands for channels with the references their writes hold,
  connection and end of a session in server.cpp).

  Serial line: Hdc_Uart (packages with checksums, the list of packages to be sent, acknowledgements,
  retransmission, transfer errors; uart.cpp, uart.h, host_uart.cpp, daemon_uart.cpp), Hdc_UartReader
  (the device and the read threads, an instance of Hdc_Framing), Hdc_UartLink (two ends and a line
  that loses whole packages as it likes but damages none: prefix, order and exactly-once delivery until
  an end gives up, and that delivery stays possible), Hdc_UartHost (the ports and the list of devices).

  USB: Hdc_Usb (blocks, headers and the reader of the host; usb.cpp, host_usb.cpp, over the packets
  of a bulk endpoint; the contract of a reader is a locale), Hdc_UsbDaemon (the module of the
  daemon, daemon_usb.cpp, with its watchdog; it interprets the same locale).

  Port forwarding: Hdc_Forward (contexts, points, commands and callbacks of forward.cpp, with the
  debugger ports of daemon_forward.cpp), Hdc_ForwardLink (an invariant of the two sides of a forward
  and the queues between them, kept by every operation), Hdc_ForwardRun (the system of both sides:
  connections deliver what was read, and what the protocol does not protect), Hdc_ForwardFree (when a
  forward that is stopped can be released: a device keeps it as long as a read of it is outstanding).
  The number of a connection is a time in milliseconds: two connections of one millisecond are the
  subject of \<open>same_millisecond_connections\<close> and excluded from the runs of the other theorems.

  Clients: Hdc_Translate (translate.cpp: from a line to a command and its parameters),
  Hdc_ServerClient (server_for_client.cpp: the opening of a channel, the commands the server carries
  out and those it hands on), Hdc_ClientCommands (where commands go, what a client may do to the
  server, the wait for a device). The client's process is Hdc_CommandLine (main.cpp and the rest of
  client.cpp that reads the line: options, address, the command with the directory put in front) and
  Hdc_ClientRun (client.cpp: greeting, key, command, output and input, event by event).

  Release of channels: Hdc_ChannelFree (the callbacks of channel.cpp that free a channel, with what
  refers to it in server_for_client.cpp, server.cpp and client.cpp, as a step relation),
  Hdc_ChannelLife (its invariant: no use after the deletion in runs that are called safe there,
  deletion for sessions that live; what the release does not know of).

  Debugger ports: Hdc_Jdwp (jdwp.cpp: processes that can be debugged, the list of them and the
  clients that track it, descriptors for a process, the poll thread), Hdc_JdwpRun (an invariant of
  the contexts under every order of events, the form of the list, what the poll thread misses).

  Processes of the daemon: Hdc_Descriptor (task.cpp, file_descriptor.cpp, async_cmd.cpp: reads and
  writes of a descriptor, and as a locale the contract of the task that owns one), Hdc_Shell
  (shell.cpp) and Hdc_Unity (daemon_unity.cpp, system_depend.cpp: commands, mounts, settings), which
  interpret it: what a process writes reaches the client, and what becomes of failures.

  Applications: Hdc_AppTask (host_app.cpp, daemon_app.cpp: the queue of packages, storing, installing,
  answering), Hdc_AppRun (the order of the packages; the answer of the daemon, by the same locale).

  Bounds and fuel. A loop over a buffer or a list is structural or has a measure. Where the code
  may loop for ever, the function takes a number of rounds and a lemma says which number is
  enough (\<open>ReadMessage\<close>: one round per byte), and \<open>read_map_loop_hangs\<close> shows the one reader that no number helps.

  Not modelled. Threads that interleave inside a callback (a callback is one step); calls of
  libuv, sockets, processes, terminals and files beyond the results the code looks at; logging;
  the debugging options; the conversions between RSA key formats; the text of messages to the
  user where nothing depends on it.
\<close>

end
